(* ===== verification/Relay_Prelude.thy ===== *)
theory Relay_Prelude
  imports Main "HOL-Library.Word" "HOL-Library.Finite_Map" "HOL-Library.Char_ord" "HOL-Library.List_Lexorder"
begin

text \<open>
  Shared vocabulary of the development: machine integers, instants and
  durations, Go maps as finite maps with their \<open>len\<close>, Go sets as finite
  sets, and the generic lemmas on them that the components use.

  Conventions. A Go \<open>uint64\<close> is a 64-bit word, so that the increment of a
  counter wraps as it does in Go. A Go \<open>int\<close> or \<open>int64\<close> that the code keeps
  far below its range (byte and frame counts, which are bounded by the limits
  the code checks) is an \<open>int\<close>. A \<open>time.Time\<close> is an \<open>int\<close>, the number
  of nanoseconds since Go's zero instant, so \<open>IsZero\<close> is the test for 0, and
  a \<open>time.Duration\<close> is an \<open>int\<close> number of nanoseconds. A function returning
  an \<open>error\<close> only returns an option (\<open>None\<close> is \<open>nil\<close>), a function returning
  a value and an \<open>error\<close> returns a sum (\<open>Inl\<close> is the error). A mutated
  receiver is passed in and returned.
\<close>

subsection \<open>Machine integers and time\<close>

type_synonym u64 = "64 word"
type_synonym u32 = "32 word"
type_synonym instant = int
type_synonym duration = int
type_synonym bytes = "8 word list"

abbreviation IsZero :: "instant \<Rightarrow> bool" where
  "IsZero t \<equiv> t = 0"

abbreviation After :: "instant \<Rightarrow> instant \<Rightarrow> bool" where
  "After t u \<equiv> u < t"

definition Millisecond :: duration where "Millisecond = 1000000"
definition Second :: duration where "Second = 1000 * Millisecond"
definition Minute :: duration where "Minute = 60 * Second"

lemmas duration_defs = Millisecond_def Second_def Minute_def

lemma word_Suc_no_wrap:
  fixes x :: "'a::len word"
  assumes "x + 1 \<noteq> 0"
  shows "x < x + 1" and "unat (x + 1) = Suc (unat x)"
proof -
  show u: "unat (x + 1) = Suc (unat x)"
    using assms by (metis add.commute unatSuc)
  show "x < x + 1"
    using u by (simp add: word_less_nat_alt)
qed

lemma word_less_Suc:
  fixes x y :: "'a::len word"
  assumes "y + 1 \<noteq> 0"
  shows "x < y + 1 \<longleftrightarrow> x \<le> y"
  using word_Suc_no_wrap(2) [OF assms] by (simp add: word_less_nat_alt word_le_nat_alt less_Suc_eq_le)

lemma unat_lt_64: "unat (x :: u64) < 18446744073709551616"
proof -
  have "unat x < 2 ^ LENGTH(64)" by (rule unsigned_less)
  then show ?thesis by simp
qed

lemma unat_of_nat_64: "n < 18446744073709551616 \<Longrightarrow> unat (word_of_nat n :: u64) = n"
  by (simp add: unsigned_of_nat take_bit_nat_eq_self)

lemma unat_no_wrap:
  fixes x :: u64
  assumes "unat x + 1 < 2 ^ 64"
  shows "x + 1 \<noteq> 0"
proof -
  have "unat (x + 1) = unat x + 1"
    using assms by (simp add: unat_word_ariths)
  then show ?thesis by auto
qed

lemma word_less_no_wrap:
  fixes x y :: "'a::len word"
  assumes "x < y"
  shows "x + 1 \<noteq> 0"
proof
  assume "x + 1 = 0"
  then have "x = - 1" by (rule max_word_wrap)
  with assms show False by (simp add: not_less [symmetric])
qed

subsection \<open>Go maps and sets\<close>

named_theorems gomap \<open>rewrite rules for lookups and sizes of finite maps\<close>

definition fmlen :: "('k, 'v) fmap \<Rightarrow> nat" where
  "fmlen m = fcard (fmdom m)"

text \<open>Reading a missing key of a Go map gives the zero value \<open>d\<close>.\<close>

definition fmget :: "'v \<Rightarrow> ('k, 'v) fmap \<Rightarrow> 'k \<Rightarrow> 'v" where
  "fmget d m k = (case fmlookup m k of None \<Rightarrow> d | Some v \<Rightarrow> v)"

text \<open>The loop \<open>for k, v := range m { if !P(k, v) { delete(m, k) } }\<close>.\<close>

definition fmkeep :: "('k \<Rightarrow> 'v \<Rightarrow> bool) \<Rightarrow> ('k, 'v) fmap \<Rightarrow> ('k, 'v) fmap" where
  "fmkeep P m = fmfilter (\<lambda>k. case fmlookup m k of None \<Rightarrow> False | Some v \<Rightarrow> P k v) m"

lemma fmlen_empty [simp, gomap]: "fmlen fmempty = 0"
  by (simp add: fmlen_def)

lemma fmlen_upd [gomap]:
  "fmlen (fmupd k v m) = (if fmlookup m k = None then Suc (fmlen m) else fmlen m)"
  by (auto simp: fmlen_def fcard_finsert_if fmlookup_dom_iff)

lemma fmlen_drop [gomap]:
  "fmlen (fmdrop k m) = (if fmlookup m k = None then fmlen m else fmlen m - 1)"
  by (auto simp: fmlen_def fmlookup_dom_iff fcard_fminus_finsert fmdomI fmdrop_idle fmdom_notI)

lemma fmlen_pos: "fmlookup m k = Some v \<Longrightarrow> 0 < fmlen m"
  by (metis fcard_0_eq fempty_iff fmdomI fmlen_def gr0I)

lemma fmlookup_keep [simp, gomap]:
  "fmlookup (fmkeep P m) k =
     (case fmlookup m k of None \<Rightarrow> None | Some v \<Rightarrow> if P k v then Some v else None)"
  by (auto simp: fmkeep_def split: option.splits)

lemma fmlen_mono: "fmdom m |\<subseteq>| fmdom n \<Longrightarrow> fmlen m \<le> fmlen n"
  by (simp add: fmlen_def fcard_mono)

lemma fmkeep_empty [simp, gomap]: "fmkeep P fmempty = fmempty"
  by (simp add: fmkeep_def)

lemma fmlen_keep: "fmlen (fmkeep P m) \<le> fmlen m"
  by (rule fmlen_mono) (auto simp: fmkeep_def)

lemma fmdom_keep_sub: "fmdom (fmkeep P m) |\<subseteq>| fmdom m"
  by (auto simp: fmkeep_def)

lemma fmlen_keep_less:
  assumes "fmlookup m k = Some v" and "\<not> P k v"
  shows "fmlen (fmkeep P m) < fmlen m"
proof -
  have "k |\<in>| fmdom m" and "k |\<notin>| fmdom (fmkeep P m)"
    using assms by (auto simp: fmlookup_dom_iff)
  with fmdom_keep_sub [of P m] have "fmdom (fmkeep P m) |\<subset>| fmdom m" by auto
  then show ?thesis by (simp add: fmlen_def pfsubset_fcard_mono)
qed

lemma fmget_upd [simp, gomap]: "fmget d (fmupd k v m) k' = (if k = k' then v else fmget d m k')"
  by (simp add: fmget_def)

lemma fmget_drop [simp, gomap]: "fmget d (fmdrop k m) k' = (if k = k' then d else fmget d m k')"
  by (simp add: fmget_def)

lemma fmget_empty [simp, gomap]: "fmget d fmempty k = d"
  by (simp add: fmget_def)

lemma fmdom_iff: "k |\<in>| fmdom m \<longleftrightarrow> fmlookup m k \<noteq> None"
  by (auto simp: fmlookup_dom_iff)

subsection \<open>Go strings\<close>

text \<open>
  A Go string is a sequence of bytes, as a \<open>string\<close> of HOL is one of 8-bit
  characters. \<open>go_spaces\<close> lists the UTF-8 encodings of the white space of
  \<open>unicode.IsSpace\<close>, which \<open>strings.TrimSpace\<close> removes at both ends.
\<close>

definition go_bytes :: "string \<Rightarrow> bytes" where
  "go_bytes s = map of_char s"

definition go_spaces :: "string list" where
  "go_spaces =
     [[CHR 0x09], [CHR 0x0A], [CHR 0x0B], [CHR 0x0C], [CHR 0x0D], [CHR 0x20],
      [CHR 0xC2, CHR 0x85], [CHR 0xC2, CHR 0xA0], [CHR 0xE1, CHR 0x9A, CHR 0x80]] @
     map (\<lambda>c. [CHR 0xE2, CHR 0x80, c])
       [CHR 0x80, CHR 0x81, CHR 0x82, CHR 0x83, CHR 0x84, CHR 0x85, CHR 0x86, CHR 0x87, CHR 0x88,
        CHR 0x89, CHR 0x8A, CHR 0xA8, CHR 0xA9, CHR 0xAF] @
     [[CHR 0xE2, CHR 0x81, CHR 0x9F], [CHR 0xE3, CHR 0x80, CHR 0x80]]"

definition starts_with :: "string \<Rightarrow> string \<Rightarrow> bool" where
  "starts_with w s \<longleftrightarrow> take (length w) s = w"

text \<open>Trimming on the left with the code words \<open>ws\<close>; on the right, the same on the reversed string.\<close>

fun trim_left :: "nat \<Rightarrow> string list \<Rightarrow> string \<Rightarrow> string" where
  "trim_left 0 ws s = s"
| "trim_left (Suc n) ws s =
     (case find (\<lambda>w. starts_with w s) ws of
        None \<Rightarrow> s
      | Some w \<Rightarrow> trim_left n ws (drop (length w) s))"

definition TrimSpace :: "string \<Rightarrow> string" where
  "TrimSpace s =
     (let t = trim_left (length s) go_spaces s
      in rev (trim_left (length t) (map rev go_spaces) (rev t)))"

text \<open>A character that is no white space survives trimming.\<close>

lemma trim_left_keeps:
  assumes "c \<in> set s" and "\<forall>w\<in>set ws. c \<notin> set w"
  shows "c \<in> set (trim_left n ws s)"
  using assms
proof (induction n ws s rule: trim_left.induct)
  case (2 n ws s)
  show ?case
  proof (cases "find (\<lambda>w. starts_with w s) ws")
    case (Some w)
    then have "w \<in> set ws" "take (length w) s = w" by (auto simp: find_Some_iff starts_with_def)
    with 2(2,3) have "c \<in> set (drop (length w) s)" by (metis Un_iff append_take_drop_id set_append)
    with 2(1) [OF Some] 2(3) Some show ?thesis by simp
  qed (use 2 in simp)
qed simp

lemma TrimSpace_keeps: "CHR ''.'' \<in> set s \<Longrightarrow> TrimSpace s \<noteq> []"
proof -
  have "\<forall>w\<in>set go_spaces. CHR ''.'' \<notin> set w" "\<forall>w\<in>set (map rev go_spaces). CHR ''.'' \<notin> set w"
    by (simp_all add: go_spaces_def)
  moreover assume "CHR ''.'' \<in> set s"
  ultimately have "CHR ''.'' \<in> set (TrimSpace s)" by (simp add: TrimSpace_def Let_def trim_left_keeps)
  then show ?thesis by (metis list.set(1) empty_iff)
qed

definition ContainsNUL :: "string \<Rightarrow> bool" where
  "ContainsNUL s \<longleftrightarrow> CHR 0x00 \<in> set s"

lemma go_bytes_simps [simp]:
  "go_bytes [] = []" "go_bytes (c # s) = of_char c # go_bytes s"
  "length (go_bytes s) = length s"
  by (simp_all add: go_bytes_def)

lemma of_char_byte_inj: "inj (of_char :: char \<Rightarrow> 8 word)"
proof (rule injI)
  fix c d :: char
  assume "(of_char c :: 8 word) = of_char d"
  then have "unat (of_char c :: 8 word) = unat (of_char d :: 8 word)" by simp
  moreover have "unat (of_char c :: 8 word) = of_char c" for c :: char
  proof -
    have "(of_char c :: nat) < 256" by simp
    then have "unat (word_of_nat (of_char c) :: 8 word) = of_char c"
      by (simp add: unsigned_of_nat take_bit_nat_eq_self)
    moreover have "(word_of_nat (of_char c) :: 8 word) = of_char c"
      by (rule of_nat_of_char)
    ultimately show ?thesis by simp
  qed
  ultimately show "c = d" by simp
qed

lemma go_bytes_inj [simp]: "go_bytes s = go_bytes t \<longleftrightarrow> s = t"
  unfolding go_bytes_def by (rule inj_map_eq_map [OF of_char_byte_inj])

subsection \<open>Building a map on a set of keys\<close>

definition fmtabulate :: "'k fset \<Rightarrow> ('k \<Rightarrow> 'v) \<Rightarrow> ('k, 'v) fmap" where
  "fmtabulate S f = Abs_fmap (\<lambda>k. if k |\<in>| S then Some (f k) else None)"

lemma fmlookup_tabulate [simp, gomap]:
  "fmlookup (fmtabulate S f) k = (if k |\<in>| S then Some (f k) else None)"
proof -
  have "dom (\<lambda>k. if k |\<in>| S then Some (f k) else None) = fset S" by (auto split: if_splits)
  then show ?thesis unfolding fmtabulate_def by (subst Abs_fmap_inverse) simp_all
qed

text \<open>Where the keys are ordered the map can be computed.\<close>

lemma fmtabulate_code [code]:
  "fmtabulate (S :: 'k :: linorder fset) f
     = fmap_of_list (map (\<lambda>k. (k, f k)) (sorted_list_of_set (fset S)))"
  by (rule fmap_ext) (auto simp: fmap_of_list.rep_eq map_of_map_restrict restrict_map_def)

lemma fmdom_tabulate [simp]: "fmdom (fmtabulate S f) = S"
  by (rule fset_eqI) (simp add: fmlookup_dom_iff)

lemma fmlen_add_tabulate:
  "fmlen (m ++\<^sub>f fmtabulate S f) = fmlen m + fcard (ffilter (\<lambda>k. fmlookup m k = None) S)"
proof -
  have "fmdom m |\<union>| S = fmdom m |\<union>| ffilter (\<lambda>k. fmlookup m k = None) S"
    by (auto simp: fmlookup_dom_iff)
  moreover have "fmdom m |\<inter>| ffilter (\<lambda>k. fmlookup m k = None) S = {||}"
    by (auto simp: fmlookup_dom_iff)
  ultimately show ?thesis
    by (simp add: fmlen_def fcard_funion_fsubset fcard_funion_disjoint)
qed

lemma fcard_fempty_eq [simp]: "fcard {||} = 0"
  by (simp add: fcard.rep_eq)

end
