(* ===== verification/Relay_Interfaces.thy ===== *)
theory Relay_Interfaces
  imports Relay_Prelude
begin

text \<open>
  The interfaces of the development: each locale states what a component
  promises to its clients, with the consequences every client draws from it
  proved once. The theories of the components interpret them on the code's
  own definitions.
\<close>

subsection \<open>Life cycles: tables of permitted state transitions\<close>

text \<open>
  A status column is updated only through a validation function. \<open>drive\<close>
  is the history of such a column under a sequence of requested updates, of
  which the invalid ones are refused and leave it unchanged.
\<close>

fun drive :: "('s \<Rightarrow> 's \<Rightarrow> bool) \<Rightarrow> 's \<Rightarrow> 's list \<Rightarrow> 's" where
  "drive valid s [] = s"
| "drive valid s (t # ts) = drive valid (if valid s t then t else s) ts"

lemma drive_append: "drive valid s (xs @ ys) = drive valid (drive valid s xs) ys"
  by (induction xs arbitrary: s) auto

lemma drive_closed:
  assumes "\<And>s t. P s \<Longrightarrow> valid s t \<Longrightarrow> P t" and "P s"
  shows "P (drive valid s ts)"
  using assms(2) by (induction ts arbitrary: s) (auto intro: assms(1))

lemma drive_avoids:
  assumes "\<And>s t. s \<notin> B \<Longrightarrow> valid s t \<Longrightarrow> t \<noteq> gate \<Longrightarrow> t \<notin> B"
    and "s \<notin> B" and "gate \<notin> set ts"
  shows "drive valid s ts \<notin> B"
  using assms(2,3)
proof (induction ts arbitrary: s)
  case Nil
  then show ?case by simp
next
  case (Cons t ts)
  have "(if valid s t then t else s) \<notin> B"
    using assms(1) [of s t] Cons.prems by auto
  with Cons.IH Cons.prems show ?case by simp
qed

locale lifecycle =
  fixes valid :: "'s \<Rightarrow> 's \<Rightarrow> bool"
    and terminal :: "'s \<Rightarrow> bool"
  assumes terminal_stuck: "terminal s \<Longrightarrow> \<not> valid s t"
    and exit: "\<not> terminal s \<Longrightarrow> \<exists>t. valid s t \<and> terminal t"
begin

lemma terminal_forever: "terminal s \<Longrightarrow> drive valid s ts = s"
  by (induction ts) (auto simp: terminal_stuck)

lemma terminal_iff: "terminal s \<longleftrightarrow> (\<forall>t. \<not> valid s t)"
  using terminal_stuck exit by blast

text \<open>No history is a dead end: one further update finishes it, for good.\<close>

lemma can_finish:
  "\<exists>us. terminal (drive valid s (ts @ us))"
proof (cases "terminal (drive valid s ts)")
  case True
  then show ?thesis by (intro exI [of _ "[]"]) simp
next
  case False
  then obtain t where "valid (drive valid s ts) t" and "terminal t"
    using exit by blast
  then show ?thesis by (intro exI [of _ "[t]"]) (simp add: drive_append)
qed

lemma settled_prefix:
  "terminal (drive valid s ts) \<Longrightarrow> drive valid s (ts @ us) = drive valid s ts"
  by (simp add: drive_append terminal_forever)

end

text \<open>
  A life cycle whose every transition makes progress: along any history the
  status changes at most \<open>rank s\<close> times.
\<close>

fun changes :: "('s \<Rightarrow> 's \<Rightarrow> bool) \<Rightarrow> 's \<Rightarrow> 's list \<Rightarrow> nat" where
  "changes valid s [] = 0"
| "changes valid s (t # ts) =
     (if valid s t then Suc (changes valid t ts) else changes valid s ts)"

locale ranked_lifecycle = lifecycle +
  fixes rank :: "'a \<Rightarrow> nat"
  assumes rank_decreases: "valid s t \<Longrightarrow> rank t < rank s"
begin

lemma changes_bounded: "changes valid s ts + rank (drive valid s ts) \<le> rank s"
proof (induction ts arbitrary: s)
  case Nil
  then show ?case by simp
next
  case (Cons t ts)
  from Cons [of t] Cons [of s] rank_decreases [of s t] show ?case by auto
qed

end

subsection \<open>Cyclic service of per-class queues\<close>

text \<open>
  Both relay queues keep one first-in first-out list per class and serve the
  classes in the order of a fixed schedule, starting after the entry served
  last and skipping the classes with nothing queued. A run is a sequence of
  enqueue attempts (a refused one changes nothing) and dequeue attempts; its
  result lists the frames served.
\<close>

datatype 'p qop = Put 'p | Take

fun qrun :: "('p \<Rightarrow> 'q \<Rightarrow> 'q) \<Rightarrow> ('q \<Rightarrow> ('f \<times> 'q) option) \<Rightarrow> 'q \<Rightarrow> 'p qop list \<Rightarrow> 'q \<times> 'f list" where
  "qrun put take1 q [] = (q, [])"
| "qrun put take1 q (Put p # ops) = qrun put take1 (put p q) ops"
| "qrun put take1 q (Take # ops) =
     (case take1 q of
        None \<Rightarrow> qrun put take1 q ops
      | Some (f, q') \<Rightarrow> (case qrun put take1 q' ops of (q'', fs) \<Rightarrow> (q'', f # fs)))"

definition takes :: "'p qop list \<Rightarrow> nat" where
  "takes ops = length (filter (\<lambda>x. x = Take) ops)"

lemma takes_simps [simp]:
  "takes [] = 0" "takes (Put p # ops) = takes ops" "takes (Take # ops) = Suc (takes ops)"
  by (simp_all add: takes_def)

lemma cursor_shift [simp]:
  "Suc (Suc a mod m + i) mod m = Suc (Suc (a + i)) mod m"
  by (metis add_Suc add_Suc_right mod_add_left_eq)

text \<open>How often a class comes up in the next \<open>n\<close> entries of the schedule.\<close>

fun turns :: "'c list \<Rightarrow> nat \<Rightarrow> nat \<Rightarrow> 'c \<Rightarrow> nat" where
  "turns sched cur 0 c = 0"
| "turns sched cur (Suc n) c =
     (if sched ! (cur mod length sched) = c then 1 else 0) + turns sched (Suc cur) n c"

lemma turns_add: "turns sched cur (m + n) c = turns sched cur m c + turns sched (cur + m) n c"
  by (induction m arbitrary: cur) simp_all

lemma turns_mod: "turns sched (cur mod length sched) n c = turns sched cur n c"
proof (induction n arbitrary: cur)
  case (Suc n)
  have "turns sched (Suc (cur mod length sched)) n c = turns sched (Suc cur) n c"
    using Suc [of "Suc (cur mod length sched)"] Suc [of "Suc cur"] by (simp add: mod_Suc_eq)
  then show ?case by simp
qed simp

lemma turns_mono: "m \<le> n \<Longrightarrow> turns sched cur m c \<le> turns sched cur n c"
  using turns_add [of sched cur m "n - m" c] by simp

lemma turns_count:
  "turns sched cur n c = count_list (map (\<lambda>j. sched ! ((cur + j) mod length sched)) [0..<n]) c"
proof (induction n arbitrary: cur)
  case (Suc n)
  then show ?case by (simp add: map_upt_Suc del: upt_Suc)
qed simp

lemma turns_cycle:
  assumes "sched \<noteq> []"
  shows "turns sched cur (length sched) c = count_list sched c"
proof -
  have "map (\<lambda>j. sched ! ((cur + j) mod length sched)) [0..<length sched] = rotate cur sched"
    by (rule nth_equalityI) (simp_all add: nth_rotate)
  moreover have "count_list (rotate cur sched) c = count_list sched c"
    by (simp add: rotate_drop_take) (metis add.commute append_take_drop_id count_list_append)
  ultimately show ?thesis by (simp add: turns_count)
qed

lemma turns_cycles:
  assumes "sched \<noteq> []"
  shows "turns sched cur (n * length sched) c = n * count_list sched c"
proof (induction n arbitrary: cur)
  case (Suc n)
  then show ?case by (simp add: turns_add turns_cycle [OF assms])
qed simp

fun qadmitted :: "('p \<Rightarrow> 'q \<Rightarrow> 'f list) \<Rightarrow> ('p \<Rightarrow> 'q \<Rightarrow> 'q) \<Rightarrow> ('q \<Rightarrow> ('f \<times> 'q) option) \<Rightarrow>
    'q \<Rightarrow> 'p qop list \<Rightarrow> 'f list" where
  "qadmitted acc put take1 q [] = []"
| "qadmitted acc put take1 q (Put p # ops) = acc p q @ qadmitted acc put take1 (put p q) ops"
| "qadmitted acc put take1 q (Take # ops) =
     (case take1 q of
        None \<Rightarrow> qadmitted acc put take1 q ops
      | Some (f, q') \<Rightarrow> qadmitted acc put take1 q' ops)"

text \<open>
  The contract of such a queue. \<open>backlog q c\<close> is what is queued for class
  \<open>c\<close>, \<open>cls\<close> reads the class off a frame, \<open>accepted p q\<close> lists the
  frame an enqueue attempt adds, if it does.
\<close>

locale cyclic_service =
  fixes sched :: "'c list"
    and cls :: "'f \<Rightarrow> 'c"
    and ok :: "'q \<Rightarrow> bool"
    and backlog :: "'q \<Rightarrow> 'c \<Rightarrow> 'f list"
    and cursor :: "'q \<Rightarrow> nat"
    and accepted :: "'p \<Rightarrow> 'q \<Rightarrow> 'f list"
    and put :: "'p \<Rightarrow> 'q \<Rightarrow> 'q"
    and take1 :: "'q \<Rightarrow> ('f \<times> 'q) option"
  assumes sched_nonempty: "sched \<noteq> []"
    and put_inv: "ok q \<Longrightarrow> ok (put p q)"
    and put_backlog: "ok q \<Longrightarrow>
      backlog (put p q) c = backlog q c @ filter (\<lambda>f. cls f = c) (accepted p q)"
    and put_cursor: "ok q \<Longrightarrow> cursor (put p q) = cursor q"
    and take_inv: "ok q \<Longrightarrow> take1 q = Some (f, q') \<Longrightarrow> ok q'"
    and take_none: "ok q \<Longrightarrow> take1 q = None \<Longrightarrow> c \<in> set sched \<Longrightarrow> backlog q c = []"
    and take_some: "ok q \<Longrightarrow> take1 q = Some (f, q') \<Longrightarrow> \<exists>i.
      cls f = sched ! ((cursor q + i) mod length sched) \<and>
      (\<forall>j<i. backlog q (sched ! ((cursor q + j) mod length sched)) = []) \<and>
      (\<forall>c. backlog q c = (if cls f = c then [f] else []) @ backlog q' c) \<and>
      cursor q' = (cursor q + i + 1) mod length sched"
begin

abbreviation run :: "'q \<Rightarrow> 'p qop list \<Rightarrow> 'q \<times> 'f list" where
  "run \<equiv> qrun put take1"

lemma run_inv: "ok q \<Longrightarrow> ok (fst (run q ops))"
proof (induction ops arbitrary: q)
  case (Cons x ops)
  show ?case
  proof (cases x)
    case (Put p)
    with Cons put_inv show ?thesis by simp
  next
    case Take
    with Cons take_inv [of q] show ?thesis
      by (cases "take1 q") (auto simp: split_beta)
  qed
qed simp

abbreviation admitted :: "'q \<Rightarrow> 'p qop list \<Rightarrow> 'f list" where
  "admitted \<equiv> qadmitted accepted put take1"

text \<open>First in, first out: each class leaves in the order in which it entered.\<close>

lemma fifo:
  "ok q \<Longrightarrow> filter (\<lambda>f. cls f = c) (snd (run q ops)) @ backlog (fst (run q ops)) c
     = backlog q c @ filter (\<lambda>f. cls f = c) (admitted q ops)"
proof (induction ops arbitrary: q)
  case (Cons x ops)
  show ?case
  proof (cases x)
    case (Put p)
    with Cons put_inv put_backlog show ?thesis by simp
  next
    case Take
    show ?thesis
    proof (cases "take1 q")
      case None
      with Cons Take show ?thesis by simp
    next
      case (Some r)
      obtain f q' where r: "r = (f, q')" by fastforce
      have "backlog q c = (if cls f = c then [f] else []) @ backlog q' c"
        using take_some [OF Cons.prems, of f q'] Some r by auto
      with Cons.IH [of q'] Cons.prems Some r take_inv Take show ?thesis
        by (auto split: prod.splits)
    qed
  qed
qed simp

text \<open>Skipping empty classes uses up no turn of a class with something queued.\<close>

lemma turns_skip:
  "\<forall>j<i. backlog q (sched ! ((cur + j) mod length sched)) = [] \<Longrightarrow> backlog q c \<noteq> [] \<Longrightarrow>
     turns sched cur i c = 0"
proof (induction i arbitrary: cur)
  case (Suc i)
  have "\<forall>j<i. backlog q (sched ! ((Suc cur + j) mod length sched)) = []"
    using Suc.prems(1) by (metis Suc_mono add_Suc add_Suc_right)
  moreover have "backlog q (sched ! (cur mod length sched)) = []"
    using Suc.prems(1) by (metis add_0_right zero_less_Suc)
  ultimately show ?case using Suc by auto
qed simp

lemma service:
  assumes "ok q" and "n \<le> takes ops"
  shows "length (filter (\<lambda>f. cls f = c) (snd (run q ops)))
    \<ge> min (length (backlog q c)) (turns sched (cursor q) n c)"
  using assms
proof (induction ops arbitrary: q n)
  case (Cons x ops)
  show ?case
  proof (cases "n = 0 \<or> backlog q c = []")
    case False
    then obtain m where n: "n = Suc m" by (cases n) auto
    show ?thesis
    proof (cases x)
      case (Put p)
      have "min (length (backlog (put p q) c)) (turns sched (cursor (put p q)) n c)
          \<le> length (filter (\<lambda>f. cls f = c) (snd (run (put p q) ops)))"
        using Cons Put put_inv by simp
      then show ?thesis using Cons.prems Put by (simp add: put_backlog put_cursor)
    next
      case Take
      show ?thesis
      proof (cases "take1 q")
        case None
        then have "c \<notin> set sched" using take_none [OF Cons.prems(1)] False by blast
        then have "count_list (map (\<lambda>j. sched ! ((cursor q + j) mod length sched)) [0..<n]) c = 0"
          using sched_nonempty by (auto simp: count_list_0_iff)
        then show ?thesis by (simp add: turns_count)
      next
        case (Some r)
        obtain f q' where r: "r = (f, q')" by fastforce
        obtain i where f: "cls f = sched ! ((cursor q + i) mod length sched)"
          and empty: "\<forall>j<i. backlog q (sched ! ((cursor q + j) mod length sched)) = []"
          and bl: "backlog q c = (if cls f = c then [f] else []) @ backlog q' c"
          and cur: "cursor q' = (cursor q + i + 1) mod length sched"
          using take_some [OF Cons.prems(1), of f q'] Some r by blast
        have IH: "min (length (backlog q' c)) (turns sched (cursor q') m c)
            \<le> length (filter (\<lambda>f. cls f = c) (snd (run q' ops)))"
          using Cons.IH [of q' m] Cons.prems Some r n take_inv Take by auto
        have "turns sched (cursor q) n c \<le> turns sched (cursor q) (i + Suc m) c"
          using n by (intro turns_mono) simp
        also have "\<dots> = (if cls f = c then 1 else 0) + turns sched (cursor q') m c"
          unfolding turns_add using turns_skip [OF empty, of c] False f cur by (simp add: turns_mod)
        finally show ?thesis
          using IH bl Some r Take by (auto split: prod.splits)
      qed
    qed
  qed auto
qed simp

text \<open>The share of a class: its entries in the schedule, per round of dequeues.\<close>

lemma share:
  assumes "ok q" and "n * length sched \<le> takes ops"
    and "n * count_list sched c \<le> length (backlog q c)"
  shows "n * count_list sched c \<le> length (filter (\<lambda>f. cls f = c) (snd (run q ops)))"
  using service [OF assms(1,2), of c] assms(3) by (simp add: turns_cycles [OF sched_nonempty])

end

subsection \<open>Waiting for a notification\<close>

text \<open>
  A consumer polls a queue under its lock; if there is nothing to return it
  waits for a token on a channel of capacity one, and polls again when it has
  taken the token. Producers change the queue at any time. A system state is
  the queue with the consumer's position.
\<close>

record 'q waiter =
  wt_queue :: 'q
  wt_waiting :: bool

datatype 'p wevent = Produce 'p | Poll | Wake

fun wstep :: "('p \<Rightarrow> 'q \<Rightarrow> 'q) \<Rightarrow> ('q \<Rightarrow> 'q) \<Rightarrow> ('q \<Rightarrow> bool) \<Rightarrow> ('q \<Rightarrow> bool) \<Rightarrow> ('q \<Rightarrow> 'q) \<Rightarrow>
    'q waiter \<Rightarrow> 'p wevent \<Rightarrow> 'q waiter" where
  "wstep produce poll ready token clear s (Produce p) = s\<lparr>wt_queue := produce p (wt_queue s)\<rparr>"
| "wstep produce poll ready token clear s Poll =
     (if wt_waiting s then s
      else s\<lparr>wt_queue := poll (wt_queue s), wt_waiting := \<not> ready (wt_queue s)\<rparr>)"
| "wstep produce poll ready token clear s Wake =
     (if wt_waiting s \<and> token (wt_queue s)
      then s\<lparr>wt_queue := clear (wt_queue s), wt_waiting := False\<rparr> else s)"

fun wrun :: "('p \<Rightarrow> 'q \<Rightarrow> 'q) \<Rightarrow> ('q \<Rightarrow> 'q) \<Rightarrow> ('q \<Rightarrow> bool) \<Rightarrow> ('q \<Rightarrow> bool) \<Rightarrow> ('q \<Rightarrow> 'q) \<Rightarrow>
    'q waiter \<Rightarrow> 'p wevent list \<Rightarrow> 'q waiter" where
  "wrun produce poll ready token clear s [] = s"
| "wrun produce poll ready token clear s (e # es) =
     wrun produce poll ready token clear (wstep produce poll ready token clear s e) es"

locale notified =
  fixes produce :: "'p \<Rightarrow> 'q \<Rightarrow> 'q"
    and poll :: "'q \<Rightarrow> 'q"
    and ready :: "'q \<Rightarrow> bool"
    and token :: "'q \<Rightarrow> bool"
    and clear :: "'q \<Rightarrow> 'q"
  assumes signal_new: "\<not> ready q \<Longrightarrow> ready (produce p q) \<Longrightarrow> token (produce p q)"
    and signal_kept: "token q \<Longrightarrow> token (produce p q)"
    and poll_unready: "\<not> ready q \<Longrightarrow> \<not> ready (poll q)"
begin

abbreviation system :: "'q waiter \<Rightarrow> 'p wevent list \<Rightarrow> 'q waiter" where
  "system \<equiv> wrun produce poll ready token clear"

definition awake :: "'q waiter \<Rightarrow> bool" where
  "awake s \<longleftrightarrow> (wt_waiting s \<and> ready (wt_queue s) \<longrightarrow> token (wt_queue s))"

lemma step_awake: "awake s \<Longrightarrow> awake (wstep produce poll ready token clear s e)"
  using signal_new signal_kept poll_unready
  by (cases e) (auto simp: awake_def)

lemma no_lost_wakeup: "awake s \<Longrightarrow> awake (system s es)"
  by (induction es arbitrary: s) (simp_all add: step_awake)

text \<open>With something to return, a wake-up and a poll get the consumer going.\<close>

lemma consumer_proceeds:
  assumes "\<not> wt_waiting s" and "ready (wt_queue (system s es))"
    and "\<And>q. ready q \<Longrightarrow> ready (clear q)"
  shows "\<not> wt_waiting (system s (es @ [Wake]))"
proof -
  have "awake s" using assms(1) by (simp add: awake_def)
  then have "awake (system s es)" by (rule no_lost_wakeup)
  moreover have "system s (es @ [Wake]) = wstep produce poll ready token clear (system s es) Wake"
    by (induction es arbitrary: s) simp_all
  ultimately show ?thesis using assms(2) by (auto simp: awake_def)
qed

end

subsection \<open>Observations of a component, made at most once\<close>

text \<open>
  A component is driven by calls, each with a result; \<open>observe\<close> collects what
  an observation reads off the calls and their results, in order.
\<close>

fun observe :: "('q \<Rightarrow> 'c \<Rightarrow> 'q \<times> 'r) \<Rightarrow> ('c \<Rightarrow> 'r \<Rightarrow> 'a list) \<Rightarrow> 'q \<Rightarrow> 'c list \<Rightarrow> 'a list" where
  "observe step obs q [] = []"
| "observe step obs q (c # cs) =
     (case step q c of (q', r) \<Rightarrow> obs c r @ observe step obs q' cs)"

fun run_calls :: "('q \<Rightarrow> 'c \<Rightarrow> 'q \<times> 'r) \<Rightarrow> 'q \<Rightarrow> 'c list \<Rightarrow> 'q" where
  "run_calls step q [] = q"
| "run_calls step q (c # cs) = run_calls step (fst (step q c)) cs"

lemma run_calls_append: "run_calls step q (cs @ ds) = run_calls step (run_calls step q cs) ds"
  by (induction cs arbitrary: q) simp_all

lemma observe_append:
  "observe step obs q (cs @ ds) = observe step obs q cs @ observe step obs (run_calls step q cs) ds"
  by (induction cs arbitrary: q) (simp_all add: split_beta)

lemma run_calls_invariant:
  assumes "\<And>q c. ok q \<Longrightarrow> ok (fst (step q c))" and "ok q"
  shows "ok (run_calls step q cs)"
  using assms(2) by (induction cs arbitrary: q) (auto intro: assms(1))

text \<open>
  The contract of a component that hands something out, or lets something
  through, at most once: what it has observed is spent, spent values are not
  observed again, and they stay spent under the calls that are \<open>kept\<close>.
\<close>

locale at_most_once =
  fixes step :: "'q \<Rightarrow> 'c \<Rightarrow> 'q \<times> 'r"
    and obs :: "'c \<Rightarrow> 'r \<Rightarrow> 'a list"
    and spent :: "'q \<Rightarrow> 'a \<Rightarrow> bool"
    and kept :: "'c \<Rightarrow> bool"
    and ok :: "'q \<Rightarrow> bool"
  assumes step_ok: "ok q \<Longrightarrow> ok (fst (step q c))"
    and obs_fresh: "ok q \<Longrightarrow> kept c \<Longrightarrow> step q c = (q', r) \<Longrightarrow>
      distinct (obs c r) \<and> (\<forall>x\<in>set (obs c r). \<not> spent q x \<and> spent q' x)"
    and spent_kept: "ok q \<Longrightarrow> kept c \<Longrightarrow> step q c = (q', r) \<Longrightarrow> spent q x \<Longrightarrow> spent q' x"
begin

lemma spent_forever:
  "ok q \<Longrightarrow> \<forall>c\<in>set cs. kept c \<Longrightarrow> spent q x \<Longrightarrow> spent (run_calls step q cs) x"
proof (induction cs arbitrary: q)
  case (Cons c cs)
  have "spent (fst (step q c)) x"
    using spent_kept [of q c "fst (step q c)" "snd (step q c)" x] Cons.prems by simp
  with Cons step_ok show ?case by simp
qed simp

lemma not_observed_again:
  "ok q \<Longrightarrow> \<forall>c\<in>set cs. kept c \<Longrightarrow> spent q x \<Longrightarrow> x \<notin> set (observe step obs q cs)"
proof (induction cs arbitrary: q)
  case (Cons c cs)
  obtain q' r where s: "step q c = (q', r)" by fastforce
  have "x \<notin> set (obs c r)" using obs_fresh [OF _ _ s] Cons.prems by auto
  moreover have "x \<notin> set (observe step obs q' cs)"
    using Cons.IH [of q'] Cons.prems s step_ok [of q c] spent_kept [OF _ _ s] by simp
  ultimately show ?case using s by simp
qed simp

lemma observed_distinct:
  "ok q \<Longrightarrow> \<forall>c\<in>set cs. kept c \<Longrightarrow> distinct (observe step obs q cs)"
proof (induction cs arbitrary: q)
  case (Cons c cs)
  obtain q' r where s: "step q c = (q', r)" by fastforce
  have ok': "ok q'" using step_ok [of q c] Cons.prems s by simp
  have fresh: "distinct (obs c r)" "\<forall>x\<in>set (obs c r). spent q' x"
    using obs_fresh [OF _ _ s] Cons.prems by auto
  then have "set (obs c r) \<inter> set (observe step obs q' cs) = {}"
    using not_observed_again [OF ok'] Cons.prems by auto
  with fresh Cons.IH [OF ok'] Cons.prems s show ?case by simp
qed simp

end

subsection \<open>A shared budget\<close>

text \<open>
  Holders (the carriers of a relay) reserve from one budget, per class and in
  units of bytes and frames, and give back what they hold. \<open>heldB\<close> and
  \<open>heldF\<close> are what the budget believes to be out; the client lemma says that
  it is exactly what the holders have.
\<close>

locale ledger =
  fixes reserve :: "'b \<Rightarrow> 'c \<Rightarrow> int \<Rightarrow> 'b \<times> bool"
    and release :: "'b \<Rightarrow> 'c \<Rightarrow> int \<Rightarrow> int \<Rightarrow> 'b"
    and heldB :: "'b \<Rightarrow> 'c \<Rightarrow> int"
    and heldF :: "'b \<Rightarrow> 'c \<Rightarrow> int"
    and ok :: "'b \<Rightarrow> bool"
    and valid :: "'c \<Rightarrow> bool"
  assumes reserve_ok: "ok b \<Longrightarrow> ok (fst (reserve b c n))"
    and reserve_held: "ok b \<Longrightarrow> reserve b c n = (b', True) \<Longrightarrow> valid c \<and> 0 < n \<and>
      heldB b' d = heldB b d + (if d = c then n else 0) \<and> heldF b' d = heldF b d + (if d = c then 1 else 0)"
    and reserve_refused: "ok b \<Longrightarrow> reserve b c n = (b', False) \<Longrightarrow> heldB b' d = heldB b d \<and> heldF b' d = heldF b d"
    and release_ok: "ok b \<Longrightarrow> 0 \<le> n \<Longrightarrow> n \<le> heldB b c \<Longrightarrow> 0 \<le> m \<Longrightarrow> m \<le> heldF b c \<Longrightarrow> ok (release b c n m)"
    and release_held: "ok b \<Longrightarrow> valid c \<Longrightarrow> 0 \<le> n \<Longrightarrow> n \<le> heldB b c \<Longrightarrow> 0 \<le> m \<Longrightarrow> m \<le> heldF b c \<Longrightarrow>
      heldB (release b c n m) d = heldB b d - (if d = c then n else 0) \<and>
      heldF (release b c n m) d = heldF b d - (if d = c then m else 0)"
begin

definition covers :: "'k set \<Rightarrow> 'b \<Rightarrow> ('k \<Rightarrow> 'c \<Rightarrow> int) \<Rightarrow> ('k \<Rightarrow> 'c \<Rightarrow> int) \<Rightarrow> bool" where
  "covers K b HB HF \<longleftrightarrow> finite K \<and> ok b \<and>
     (\<forall>c. heldB b c = (\<Sum>k\<in>K. HB k c) \<and> heldF b c = (\<Sum>k\<in>K. HF k c)) \<and>
     (\<forall>k\<in>K. \<forall>c. 0 \<le> HB k c \<and> 0 \<le> HF k c)"

lemma sum_shift:
  fixes f g :: "'k \<Rightarrow> int"
  assumes "finite K" and "k \<in> K" and "g k = f k + x" and "\<And>j. j \<noteq> k \<Longrightarrow> g j = f j"
  shows "(\<Sum>j\<in>K. g j) = (\<Sum>j\<in>K. f j) + x"
proof -
  have "(\<Sum>j\<in>K - {k}. g j) = (\<Sum>j\<in>K - {k}. f j)"
    by (rule sum.cong) (auto simp: assms(4))
  then show ?thesis
    using sum.remove [OF assms(1,2), of g] sum.remove [OF assms(1,2), of f] assms(3) by simp
qed

lemma covers_reserve:
  assumes "covers K b HB HF" and "k \<in> K" and "reserve b c n = (b', True)"
    and "\<And>d. HB' k d = HB k d + (if d = c then n else 0)" and "\<And>d. HF' k d = HF k d + (if d = c then 1 else 0)"
    and "\<And>j. j \<noteq> k \<Longrightarrow> HB' j = HB j" and "\<And>j. j \<noteq> k \<Longrightarrow> HF' j = HF j"
  shows "covers K b' HB' HF'"
proof -
  have fin: "finite K" and ok: "ok b" using assms(1) by (auto simp: covers_def)
  note held = reserve_held [OF ok assms(3)]
  have B: "(\<Sum>j\<in>K. HB' j d) = (\<Sum>j\<in>K. HB j d) + (if d = c then n else 0)" for d
    by (rule sum_shift [OF fin assms(2)]) (simp_all add: assms(4,6))
  have F: "(\<Sum>j\<in>K. HF' j d) = (\<Sum>j\<in>K. HF j d) + (if d = c then 1 else 0)" for d
    by (rule sum_shift [OF fin assms(2)]) (simp_all add: assms(5,7))
  have "0 \<le> HB' j d \<and> 0 \<le> HF' j d" if "j \<in> K" for j d
  proof (cases "j = k")
    case True
    have "0 \<le> n" using held [of c] by simp
    moreover have "0 \<le> HB k d" "0 \<le> HF k d" using assms(1,2) by (auto simp: covers_def)
    ultimately show ?thesis using True assms(4,5) by simp
  qed (use that assms(1,6,7) in \<open>auto simp: covers_def\<close>)
  then show ?thesis
    using assms(1) B F held reserve_ok [OF ok, of c n] assms(3) by (auto simp: covers_def)
qed

lemma covers_refused:
  "covers K b HB HF \<Longrightarrow> reserve b c n = (b', False) \<Longrightarrow> covers K b' HB HF"
  using reserve_refused [of b c n b'] reserve_ok [of b c n] by (auto simp: covers_def)

lemma held_le:
  assumes "covers K b HB HF" and "k \<in> K"
  shows "HB k c \<le> heldB b c \<and> HF k c \<le> heldF b c"
  using assms by (auto simp: covers_def intro!: member_le_sum)

lemma covers_release:
  assumes "covers K b HB HF" and "k \<in> K" and "valid c" and "0 \<le> n" "n \<le> HB k c" "0 \<le> m" "m \<le> HF k c"
    and "\<And>d. HB' k d = HB k d - (if d = c then n else 0)" and "\<And>d. HF' k d = HF k d - (if d = c then m else 0)"
    and "\<And>j. j \<noteq> k \<Longrightarrow> HB' j = HB j" and "\<And>j. j \<noteq> k \<Longrightarrow> HF' j = HF j"
  shows "covers K (release b c n m) HB' HF'"
proof -
  have fin: "finite K" and ok: "ok b" using assms(1) by (auto simp: covers_def)
  have le: "n \<le> heldB b c" "m \<le> heldF b c" using held_le [OF assms(1,2), of c] assms(5,7) by auto
  note held = release_held [OF ok assms(3,4) le(1) assms(6) le(2)]
  have B: "(\<Sum>j\<in>K. HB' j d) = (\<Sum>j\<in>K. HB j d) + (if d = c then - n else 0)" for d
    by (rule sum_shift [OF fin assms(2)]) (simp_all add: assms(8,10))
  have F: "(\<Sum>j\<in>K. HF' j d) = (\<Sum>j\<in>K. HF j d) + (if d = c then - m else 0)" for d
    by (rule sum_shift [OF fin assms(2)]) (simp_all add: assms(9,11))
  have "0 \<le> HB' j d \<and> 0 \<le> HF' j d" if "j \<in> K" for j d
    using that assms(1,5,7-11) by (cases "j = k") (auto simp: covers_def)
  then show ?thesis
    using assms(1) B F held release_ok [OF ok assms(4) le(1) assms(6) le(2)] by (auto simp: covers_def)
qed

end

end
