(* ===== verification/Relay_Protocol.thy ===== *)
theory Relay_Protocol
  imports Relay_Interfaces
begin

text \<open>
  The package \<open>server/internal/relayprotocol\<close>: classes and size limits of
  relay frames (\<open>frame.go\<close>), the status tables of commands, peer sessions
  and file transfers (\<open>state.go\<close>), and the connection state the desktop
  agent keeps between its relay connections (\<open>agent.go\<close>).
\<close>

subsection \<open>Frames (\<open>frame.go\<close>)\<close>

definition ControlFrameLimit :: int where "ControlFrameLimit = 64 * 1024"
definition AbsoluteFrameLimit :: int where "AbsoluteFrameLimit = 128 * 1024"
definition FileChunkPlaintext :: int where "FileChunkPlaintext = 64 * 1024"

lemmas frame_limits = ControlFrameLimit_def AbsoluteFrameLimit_def FileChunkPlaintext_def

text \<open>
  \<open>FrameTooLarge n m\<close> is the error that wraps \<open>ErrFrameTooLarge\<close> with the
  size and the limit in its text.
\<close>

datatype frame_error = ErrUnknownFrame | ErrFrameTooLarge | FrameTooLarge int int

datatype frame_class =
    FrameClassUnknown
  | FrameClassHeartbeat
  | FrameClassReliableControl
  | FrameClassPeerPayload
  | FrameClassFileControl
  | FrameClassFilePayload

definition ClassifyFrame :: "string \<Rightarrow> frame_class" where
  "ClassifyFrame ft =
     (if ft \<in> set [''AUTH_CHALLENGE'', ''AUTH_PROOF'', ''READY'', ''PING'', ''PONG'', ''GOAWAY'']
      then FrameClassHeartbeat
      else if ft \<in> set [''COMMAND'', ''COMMAND_RECEIVED'', ''COMMAND_ACCEPTED'', ''DEVICE_EVENT'',
        ''EVENT_TRANSPORT_ACK'']
      then FrameClassReliableControl
      else if ft \<in> set [''PEER_OPEN'', ''PEER_READY'', ''PEER_QUERY'', ''PEER_DELTA'',
        ''PEER_COMPLETE'', ''PEER_CANCEL'', ''PEER_ERROR'']
      then FrameClassPeerPayload
      else if ft \<in> set [''FILE_OPEN'', ''FILE_ACCEPT'', ''FILE_REJECT'']
      then FrameClassFileControl
      else if ft \<in> set [''FILE_MANIFEST'', ''FILE_CHUNK'', ''FILE_ACK'', ''FILE_WINDOW_UPDATE'',
        ''FILE_RESUME'', ''FILE_COMPLETE'', ''FILE_VERIFIED'', ''FILE_CANCEL'', ''FILE_ERROR'']
      then FrameClassFilePayload
      else FrameClassUnknown)"

definition ValidateFrameSize :: "string \<Rightarrow> int \<Rightarrow> frame_error option" where
  "ValidateFrameSize frameType encodedBytes =
     (let class = ClassifyFrame frameType in
      if class = FrameClassUnknown then Some ErrUnknownFrame
      else if encodedBytes < 0 \<or> encodedBytes > AbsoluteFrameLimit
      then Some (FrameTooLarge encodedBytes AbsoluteFrameLimit)
      else if class \<noteq> FrameClassFilePayload \<and> encodedBytes > ControlFrameLimit
      then Some (FrameTooLarge encodedBytes ControlFrameLimit)
      else None)"

definition MayUsePersistentBus :: "string \<Rightarrow> bool" where
  "MayUsePersistentBus frameType \<longleftrightarrow> ClassifyFrame frameType = FrameClassReliableControl"

text \<open>What the size check means, branch by branch, in terms of the class.\<close>

definition frame_size_limit :: "frame_class \<Rightarrow> int" where
  "frame_size_limit c =
     (if c = FrameClassFilePayload then AbsoluteFrameLimit else ControlFrameLimit)"

lemma ValidateFrameSize_ok:
  "ValidateFrameSize ft n = None \<longleftrightarrow>
     ClassifyFrame ft \<noteq> FrameClassUnknown \<and> 0 \<le> n \<and> n \<le> frame_size_limit (ClassifyFrame ft)"
  by (auto simp: ValidateFrameSize_def Let_def frame_size_limit_def frame_limits)

lemma ValidateFrameSize_bound:
  "ValidateFrameSize ft n = None \<Longrightarrow> 0 \<le> n \<and> n \<le> AbsoluteFrameLimit"
  by (auto simp: ValidateFrameSize_ok frame_size_limit_def frame_limits split: if_splits)

subsection \<open>Status tables (\<open>state.go\<close>)\<close>

datatype command_state =
    CommandQueued | CommandDispatched | CommandAccepted | CommandRunning
  | CommandCancelRequested | CommandSucceeded | CommandFailed | CommandRejected
  | CommandCancelled | CommandExpired | CommandTimedOut

fun commandTransitions :: "command_state \<Rightarrow> command_state list" where
  "commandTransitions CommandQueued =
     [CommandDispatched, CommandCancelled, CommandExpired]"
| "commandTransitions CommandDispatched =
     [CommandQueued, CommandAccepted, CommandCancelRequested, CommandExpired]"
| "commandTransitions CommandAccepted =
     [CommandRunning, CommandRejected, CommandCancelRequested, CommandTimedOut]"
| "commandTransitions CommandRunning =
     [CommandSucceeded, CommandFailed, CommandCancelRequested, CommandTimedOut]"
| "commandTransitions CommandCancelRequested =
     [CommandRunning, CommandCancelled, CommandSucceeded, CommandFailed, CommandTimedOut]"
| "commandTransitions CommandTimedOut =
     [CommandSucceeded, CommandFailed, CommandCancelled]"
| "commandTransitions _ = []"

datatype 's transition_error = InvalidTransition 's 's

definition ValidateCommandTransition ::
  "command_state \<Rightarrow> command_state \<Rightarrow> command_state transition_error option" where
  "ValidateCommandTransition old new =
     (if new \<in> set (commandTransitions old) then None else Some (InvalidTransition old new))"

datatype peer_session_state = PeerOpening | PeerActive | PeerClosed | PeerExpired | PeerInterrupted

definition ValidatePeerSessionTransition ::
  "peer_session_state \<Rightarrow> peer_session_state \<Rightarrow> peer_session_state transition_error option" where
  "ValidatePeerSessionTransition old new =
     (let valid =
        (old = PeerOpening \<and>
           (new = PeerActive \<or> new = PeerClosed \<or> new = PeerExpired \<or> new = PeerInterrupted)) \<or>
        (old = PeerActive \<and> (new = PeerClosed \<or> new = PeerExpired \<or> new = PeerInterrupted))
      in if \<not> valid then Some (InvalidTransition old new) else None)"

datatype transfer_state =
    TransferOffered | TransferAccepted | TransferRejected | TransferTransferring
  | TransferInterrupted | TransferResuming | TransferVerifying | TransferCompleted
  | TransferFailed | TransferCancelled | TransferExpired

fun transferTransitions :: "transfer_state \<Rightarrow> transfer_state list" where
  "transferTransitions TransferOffered =
     [TransferAccepted, TransferRejected, TransferCancelled, TransferExpired]"
| "transferTransitions TransferAccepted =
     [TransferTransferring, TransferCancelled, TransferInterrupted]"
| "transferTransitions TransferTransferring =
     [TransferInterrupted, TransferVerifying, TransferCancelled, TransferFailed]"
| "transferTransitions TransferInterrupted =
     [TransferResuming, TransferCancelled, TransferExpired]"
| "transferTransitions TransferResuming =
     [TransferTransferring, TransferInterrupted, TransferCancelled, TransferExpired]"
| "transferTransitions TransferVerifying =
     [TransferCompleted, TransferFailed, TransferInterrupted]"
| "transferTransitions _ = []"

definition ValidateTransferTransition ::
  "transfer_state \<Rightarrow> transfer_state \<Rightarrow> transfer_state transition_error option" where
  "ValidateTransferTransition old new =
     (if new \<in> set (transferTransitions old) then None else Some (InvalidTransition old new))"

lemmas validate_defs = ValidateCommandTransition_def ValidatePeerSessionTransition_def
  ValidateTransferTransition_def

abbreviation command_valid :: "command_state \<Rightarrow> command_state \<Rightarrow> bool" where
  "command_valid s t \<equiv> ValidateCommandTransition s t = None"

abbreviation peer_valid :: "peer_session_state \<Rightarrow> peer_session_state \<Rightarrow> bool" where
  "peer_valid s t \<equiv> ValidatePeerSessionTransition s t = None"

abbreviation transfer_valid :: "transfer_state \<Rightarrow> transfer_state \<Rightarrow> bool" where
  "transfer_valid s t \<equiv> ValidateTransferTransition s t = None"

definition command_terminal :: "command_state \<Rightarrow> bool" where
  "command_terminal s \<longleftrightarrow> s \<in> {CommandSucceeded, CommandFailed, CommandRejected,
     CommandCancelled, CommandExpired}"

definition peer_terminal :: "peer_session_state \<Rightarrow> bool" where
  "peer_terminal s \<longleftrightarrow> s \<in> {PeerClosed, PeerExpired, PeerInterrupted}"

definition transfer_terminal :: "transfer_state \<Rightarrow> bool" where
  "transfer_terminal s \<longleftrightarrow> s \<in> {TransferRejected, TransferCompleted, TransferFailed,
     TransferCancelled, TransferExpired}"

fun peer_rank :: "peer_session_state \<Rightarrow> nat" where
  "peer_rank PeerOpening = 2"
| "peer_rank PeerActive = 1"
| "peer_rank _ = 0"

text \<open>The tables read off as predicates: no way out of a terminal status, one way out of the others.\<close>

lemma command_stuck: "command_terminal s \<Longrightarrow> \<not> command_valid s t"
  by (cases s) (simp_all add: validate_defs command_terminal_def)

lemma command_exit: "\<not> command_terminal s \<Longrightarrow> \<exists>t. command_valid s t \<and> command_terminal t"
  by (cases s) (auto simp: validate_defs command_terminal_def)

lemma peer_stuck: "peer_terminal s \<Longrightarrow> \<not> peer_valid s t"
  by (cases s) (simp_all add: validate_defs peer_terminal_def)

lemma peer_exit: "\<not> peer_terminal s \<Longrightarrow> \<exists>t. peer_valid s t \<and> peer_terminal t"
  by (cases s) (auto simp: validate_defs peer_terminal_def intro: exI [of _ PeerClosed])

lemma peer_rank_decreases: "peer_valid s t \<Longrightarrow> peer_rank t < peer_rank s"
  by (cases s; cases t) (simp_all add: validate_defs)

lemma transfer_stuck: "transfer_terminal s \<Longrightarrow> \<not> transfer_valid s t"
  by (cases s) (simp_all add: validate_defs transfer_terminal_def)

lemma transfer_exit: "\<not> transfer_terminal s \<Longrightarrow> \<exists>t. transfer_valid s t \<and> transfer_terminal t"
  by (cases s) (auto simp: validate_defs transfer_terminal_def)

interpretation command: lifecycle command_valid command_terminal
  by unfold_locales (fact command_stuck command_exit)+

interpretation transfer: lifecycle transfer_valid transfer_terminal
  by unfold_locales (fact transfer_stuck transfer_exit)+

interpretation peer: ranked_lifecycle peer_valid peer_terminal peer_rank
  by unfold_locales (fact peer_stuck peer_exit peer_rank_decreases)+

subsection \<open>Histories of the status columns\<close>

definition command_committed :: "command_state set" where
  "command_committed = {CommandAccepted, CommandRunning, CommandCancelRequested, CommandTimedOut,
     CommandSucceeded, CommandFailed, CommandRejected, CommandCancelled}"

lemma command_committed_step:
  "s \<in> command_committed \<Longrightarrow> command_valid s t \<Longrightarrow> t \<in> command_committed"
  by (cases s) (auto simp: command_committed_def validate_defs split: if_splits)

lemma command_running_step:
  "s \<in> command_committed - {CommandAccepted, CommandRejected} \<Longrightarrow> command_valid s t \<Longrightarrow>
     t \<in> command_committed - {CommandAccepted, CommandRejected}"
  by (cases s) (auto simp: command_committed_def validate_defs split: if_splits)

text \<open>
  C38. A command the device has accepted never returns to the dispatch queue
  and never expires unseen, whatever updates are requested afterwards: it is
  not delivered a second time. Once it runs it can no longer be rejected, and
  a status with no way out is kept for ever.
\<close>

theorem command_never_redelivered:
  "drive command_valid CommandAccepted ts \<notin> {CommandQueued, CommandDispatched, CommandExpired} \<and>
   drive command_valid CommandRunning us \<notin>
     {CommandQueued, CommandDispatched, CommandAccepted, CommandRejected, CommandExpired} \<and>
   (command_terminal (drive command_valid s vs) \<longleftrightarrow>
     (\<forall>ws. drive command_valid s (vs @ ws) = drive command_valid s vs))"
proof (intro conjI)
  have "drive command_valid CommandAccepted ts \<in> command_committed"
    by (rule drive_closed [where P = "\<lambda>s. s \<in> command_committed", OF command_committed_step])
      (auto simp: command_committed_def)
  then show "drive command_valid CommandAccepted ts \<notin> {CommandQueued, CommandDispatched, CommandExpired}"
    by (auto simp: command_committed_def)
  have "drive command_valid CommandRunning us \<in> command_committed - {CommandAccepted, CommandRejected}"
    by (rule drive_closed [where P = "\<lambda>s. s \<in> command_committed - {CommandAccepted, CommandRejected}",
          OF command_running_step]) (auto simp: command_committed_def)
  then show "drive command_valid CommandRunning us \<notin>
     {CommandQueued, CommandDispatched, CommandAccepted, CommandRejected, CommandExpired}"
    by (auto simp: command_committed_def)
  show "command_terminal (drive command_valid s vs) \<longleftrightarrow>
     (\<forall>ws. drive command_valid s (vs @ ws) = drive command_valid s vs)"
  proof
    assume "command_terminal (drive command_valid s vs)"
    then show "\<forall>ws. drive command_valid s (vs @ ws) = drive command_valid s vs"
      by (simp add: command.settled_prefix)
  next
    assume stay: "\<forall>ws. drive command_valid s (vs @ ws) = drive command_valid s vs"
    obtain us where "command_terminal (drive command_valid s (vs @ us))"
      using command.can_finish by blast
    with stay show "command_terminal (drive command_valid s vs)" by metis
  qed
qed

lemma transfer_unverified_step:
  "s \<notin> {TransferVerifying, TransferCompleted} \<Longrightarrow> transfer_valid s t \<Longrightarrow> t \<noteq> TransferVerifying \<Longrightarrow>
     t \<notin> {TransferVerifying, TransferCompleted}"
  by (cases s) (auto simp: validate_defs split: if_splits)

lemma transfer_unsent_step:
  "s \<notin> {TransferTransferring, TransferVerifying, TransferCompleted} \<Longrightarrow> transfer_valid s t \<Longrightarrow>
     t \<noteq> TransferTransferring \<Longrightarrow> t \<notin> {TransferTransferring, TransferVerifying, TransferCompleted}"
  by (cases s) (auto simp: validate_defs split: if_splits)

text \<open>
  A file transfer that is reported complete has been through the
  transferring status and through the verifying status: there is no shorter
  way from the offer to completion. And a peer session changes its status at
  most twice in its life, whatever updates are requested.
\<close>

theorem transfer_completed_was_verified:
  "(drive transfer_valid TransferOffered ts = TransferCompleted \<longrightarrow>
      TransferTransferring \<in> set ts \<and> TransferVerifying \<in> set ts) \<and>
   changes peer_valid PeerOpening us \<le> 2"
proof
  show "drive transfer_valid TransferOffered ts = TransferCompleted \<longrightarrow>
      TransferTransferring \<in> set ts \<and> TransferVerifying \<in> set ts"
  proof (intro impI conjI)
    assume fin: "drive transfer_valid TransferOffered ts = TransferCompleted"
    show "TransferVerifying \<in> set ts"
    proof (rule ccontr)
      assume never: "TransferVerifying \<notin> set ts"
      have "drive transfer_valid TransferOffered ts \<notin> {TransferVerifying, TransferCompleted}"
        by (rule drive_avoids [OF transfer_unverified_step]) (use never in auto)
      with fin show False by simp
    qed
    show "TransferTransferring \<in> set ts"
    proof (rule ccontr)
      assume never: "TransferTransferring \<notin> set ts"
      have "drive transfer_valid TransferOffered ts
          \<notin> {TransferTransferring, TransferVerifying, TransferCompleted}"
        by (rule drive_avoids [OF transfer_unsent_step]) (use never in auto)
      with fin show False by simp
    qed
  qed
  show "changes peer_valid PeerOpening us \<le> 2"
    using peer.changes_bounded [of PeerOpening us] by simp
qed

theorem transfer_completed_was_verified_witness:
  "TransferVerifying \<in> set [TransferAccepted, TransferTransferring, TransferVerifying, TransferCompleted]"
  using transfer_completed_was_verified
    [of "[TransferAccepted, TransferTransferring, TransferVerifying, TransferCompleted]" "[]"]
  by (simp add: validate_defs)

subsection \<open>The agent's connection epochs (\<open>agent.go\<close>)\<close>

datatype agent_error = ErrAgentState

datatype agent_connection_state =
  AgentDisconnected | AgentConnecting | AgentReady | AgentReconnecting

record ReconnectInstruction =
  RefreshAssignment :: bool
  ReconnectAfter :: duration

record AgentRelayState =
  State :: agent_connection_state
  ConnectionEpoch :: u64

definition NewAgentRelayState :: "u64 \<Rightarrow> AgentRelayState" where
  "NewAgentRelayState persistedEpoch =
     \<lparr>State = AgentDisconnected, ConnectionEpoch = persistedEpoch\<rparr>"

definition BeginConnect :: "AgentRelayState \<Rightarrow> AgentRelayState \<times> (agent_error + u64)" where
  "BeginConnect s =
     (if State s \<noteq> AgentDisconnected \<and> State s \<noteq> AgentReconnecting then (s, Inl ErrAgentState)
      else let s = s\<lparr>ConnectionEpoch := ConnectionEpoch s + 1\<rparr> in
        if ConnectionEpoch s = 0 then (s, Inl ErrAgentState)
        else (s\<lparr>State := AgentConnecting\<rparr>, Inr (ConnectionEpoch s)))"

definition MarkReady :: "AgentRelayState \<Rightarrow> u64 \<Rightarrow> AgentRelayState \<times> agent_error option" where
  "MarkReady s acceptedEpoch =
     (if State s \<noteq> AgentConnecting \<or> acceptedEpoch \<noteq> ConnectionEpoch s then (s, Some ErrAgentState)
      else (s\<lparr>State := AgentReady\<rparr>, None))"

definition HandleGoAway :: "AgentRelayState \<Rightarrow> duration \<Rightarrow> bool \<Rightarrow>
    AgentRelayState \<times> (agent_error + ReconnectInstruction)" where
  "HandleGoAway s reconnectAfter refreshAssignment =
     (if State s \<noteq> AgentReady \<or> reconnectAfter < 0 \<or> reconnectAfter > 5 * Minute
      then (s, Inl ErrAgentState)
      else (s\<lparr>State := AgentReconnecting\<rparr>,
        Inr \<lparr>RefreshAssignment = refreshAssignment, ReconnectAfter = reconnectAfter\<rparr>))"

definition ConnectionLost :: "AgentRelayState \<Rightarrow> AgentRelayState" where
  "ConnectionLost s =
     (if State s = AgentReady \<or> State s = AgentConnecting then s\<lparr>State := AgentReconnecting\<rparr> else s)"

text \<open>The agent's life as a sequence of calls, with the epochs handed to connections.\<close>

datatype agent_call = CallBegin | CallReady u64 | CallGoAway duration bool | CallLost

fun agent_step :: "AgentRelayState \<Rightarrow> agent_call \<Rightarrow> AgentRelayState \<times> u64 list" where
  "agent_step s CallBegin =
     (case BeginConnect s of (s', Inl e) \<Rightarrow> (s', []) | (s', Inr n) \<Rightarrow> (s', [n]))"
| "agent_step s (CallReady n) = (fst (MarkReady s n), [])"
| "agent_step s (CallGoAway d r) = (fst (HandleGoAway s d r), [])"
| "agent_step s CallLost = (ConnectionLost s, [])"

fun agent_run :: "AgentRelayState \<Rightarrow> agent_call list \<Rightarrow> AgentRelayState \<times> u64 list" where
  "agent_run s [] = (s, [])"
| "agent_run s (c # cs) =
     (let (s', ns) = agent_step s c; (s'', ms) = agent_run s' cs in (s'', ns @ ms))"

lemma agent_step_cases:
  assumes "agent_step s c = (s', ns)" and "unat (ConnectionEpoch s) + 1 < 2 ^ 64"
  shows "(ns = [] \<and> ConnectionEpoch s' = ConnectionEpoch s) \<or>
         (ns = [ConnectionEpoch s'] \<and> ConnectionEpoch s < ConnectionEpoch s' \<and>
          unat (ConnectionEpoch s') = Suc (unat (ConnectionEpoch s)))"
proof (cases c)
  case CallBegin
  have "ConnectionEpoch s + 1 \<noteq> 0"
    by (rule unat_no_wrap [OF assms(2)])
  then show ?thesis
    using assms(1) CallBegin word_Suc_no_wrap [of "ConnectionEpoch s"]
    by (auto simp: BeginConnect_def Let_def split: if_splits)
qed (use assms(1) in \<open>auto simp: MarkReady_def HandleGoAway_def ConnectionLost_def split: if_splits\<close>)

text \<open>
  Whatever the agent does, the epochs it hands out increase strictly and lie
  above the persisted one, up to the 64-bit bound.
\<close>

lemma agent_run_epochs:
  "agent_run s cs = (s', ns) \<Longrightarrow> unat (ConnectionEpoch s) + length cs < 2 ^ 64 \<Longrightarrow>
     sorted_wrt (<) (ConnectionEpoch s # ns) \<and>
     ConnectionEpoch s' = last (ConnectionEpoch s # ns)"
proof (induction cs arbitrary: s s' ns)
  case Nil
  then show ?case by simp
next
  case (Cons c cs)
  obtain s1 ns1 where s1: "agent_step s c = (s1, ns1)" by fastforce
  obtain ms where rest: "agent_run s1 cs = (s', ms)" and ns: "ns = ns1 @ ms"
    using Cons.prems(1) s1 by (auto split: prod.splits)
  have step: "(ns1 = [] \<and> ConnectionEpoch s1 = ConnectionEpoch s) \<or>
      (ns1 = [ConnectionEpoch s1] \<and> ConnectionEpoch s < ConnectionEpoch s1 \<and>
       unat (ConnectionEpoch s1) = Suc (unat (ConnectionEpoch s)))"
    using Cons.prems(2) by (intro agent_step_cases [OF s1]) simp
  have IH: "sorted_wrt (<) (ConnectionEpoch s1 # ms) \<and> ConnectionEpoch s' = last (ConnectionEpoch s1 # ms)"
    using step Cons.prems(2) by (intro Cons.IH [OF rest]) auto
  from step IH ns show ?case by (auto intro: less_trans)
qed

text \<open>
  The agent never reuses a connection epoch: the epochs it presents to
  relays, over any sequence of connects, acceptances, GOAWAY instructions and
  lost connections, increase strictly from the persisted one on, as long as
  fewer calls are made than the 64-bit counter has room for.
\<close>

theorem agent_epochs_increase:
  assumes "unat persisted + length calls < 2 ^ 64"
  shows "sorted_wrt (<) (persisted # snd (agent_run (NewAgentRelayState persisted) calls))"
proof -
  have "ConnectionEpoch (NewAgentRelayState persisted) = persisted"
    by (simp add: NewAgentRelayState_def)
  then show ?thesis
    using agent_run_epochs [of "NewAgentRelayState persisted" calls] assms
    by (metis prod.collapse)
qed

theorem agent_epochs_increase_witness:
  "sorted_wrt (<) (7 # snd (agent_run (NewAgentRelayState 7)
     [CallBegin, CallReady 8, CallGoAway 0 True, CallBegin, CallLost, CallBegin])) \<and>
   snd (agent_run (NewAgentRelayState 7)
     [CallBegin, CallReady 8, CallGoAway 0 True, CallBegin, CallLost, CallBegin]) = [8, 9, 10]"
proof
  show "sorted_wrt (<) (7 # snd (agent_run (NewAgentRelayState 7)
     [CallBegin, CallReady 8, CallGoAway 0 True, CallBegin, CallLost, CallBegin]))"
    by (rule agent_epochs_increase) simp
  show "snd (agent_run (NewAgentRelayState 7)
     [CallBegin, CallReady 8, CallGoAway 0 True, CallBegin, CallLost, CallBegin]) = [8, 9, 10]"
    by (simp add: NewAgentRelayState_def BeginConnect_def MarkReady_def HandleGoAway_def
        ConnectionLost_def duration_defs)
qed

end
