(* ===== verification/File_Transfer.thy ===== *)
theory File_Transfer
  imports Relay_Interfaces
begin

text \<open>
  The receiver window and the resume ranges of file transfers, the packages
  files \<open>server/internal/fileprotocol/window.go\<close> and \<open>resume.go\<close>. The
  mutexes make each method one atomic step.
\<close>

subsection \<open>The send window (\<open>window.go\<close>)\<close>

datatype window_error = ErrWindowBlocked | ErrWindowInvalid

record SendWindow =
  win_limit :: u64
  win_inFlight :: u64

definition maximum_window :: u64 where "maximum_window = 4 * 1048576"

definition NewSendWindow :: "u64 \<Rightarrow> window_error + SendWindow" where
  "NewSendWindow limit =
     (if limit = 0 \<or> limit > maximum_window then Inl ErrWindowInvalid
      else Inr \<lparr>win_limit = limit, win_inFlight = 0\<rparr>)"

definition SendWindow_Reserve :: "SendWindow \<Rightarrow> u64 \<Rightarrow> SendWindow \<times> window_error option" where
  "SendWindow_Reserve w n =
     (if n = 0 \<or> n > win_limit w \<or> win_inFlight w > win_limit w - n
      then (w, Some ErrWindowBlocked)
      else (w\<lparr>win_inFlight := win_inFlight w + n\<rparr>, None))"

definition SendWindow_Acknowledge :: "SendWindow \<Rightarrow> u64 \<Rightarrow> SendWindow \<times> window_error option" where
  "SendWindow_Acknowledge w n =
     (if n = 0 \<or> n > win_inFlight w then (w, Some ErrWindowInvalid)
      else (w\<lparr>win_inFlight := win_inFlight w - n\<rparr>, None))"

definition SendWindow_Update :: "SendWindow \<Rightarrow> u64 \<Rightarrow> SendWindow \<times> window_error option" where
  "SendWindow_Update w limit =
     (if limit > maximum_window then (w, Some ErrWindowInvalid)
      else (w\<lparr>win_limit := limit\<rparr>, None))"

definition SendWindow_Available :: "SendWindow \<Rightarrow> u64" where
  "SendWindow_Available w =
     (if win_inFlight w \<ge> win_limit w then 0 else win_limit w - win_inFlight w)"

lemmas window_defs = SendWindow_Reserve_def SendWindow_Acknowledge_def SendWindow_Update_def

datatype window_call = WReserve u64 | WAcknowledge u64 | WUpdate u64

fun window_step :: "SendWindow \<Rightarrow> window_call \<Rightarrow> SendWindow \<times> window_error option" where
  "window_step w (WReserve n) = SendWindow_Reserve w n"
| "window_step w (WAcknowledge n) = SendWindow_Acknowledge w n"
| "window_step w (WUpdate n) = SendWindow_Update w n"

text \<open>
  The bytes in flight according to the accepted calls: the reference against
  which the 64-bit field is checked.
\<close>

fun window_run :: "SendWindow \<Rightarrow> window_call list \<Rightarrow> SendWindow \<times> int" where
  "window_run w [] = (w, 0)"
| "window_run w (c # cs) =
     (let (w', e) = window_step w c; (w'', d) = window_run w' cs
      in (w'', d + (if e \<noteq> None then 0 else
           case c of WReserve n \<Rightarrow> uint n | WAcknowledge n \<Rightarrow> - uint n | WUpdate n \<Rightarrow> 0)))"

definition window_ok :: "SendWindow \<Rightarrow> bool" where
  "window_ok w \<longleftrightarrow> win_limit w \<le> maximum_window \<and> win_inFlight w \<le> maximum_window"

lemma window_new_ok: "NewSendWindow n = Inr w \<Longrightarrow> window_ok w \<and> win_inFlight w = 0"
  by (auto simp: NewSendWindow_def window_ok_def split: if_splits)

text \<open>An accepted reservation fits below the current limit, without wrap-around.\<close>

lemma reserve_exact:
  assumes "SendWindow_Reserve w n = (w', None)"
  shows "uint (win_inFlight w') = uint (win_inFlight w) + uint n"
    and "uint (win_inFlight w') \<le> uint (win_limit w)" and "win_limit w' = win_limit w"
proof -
  from assms have n: "n \<noteq> 0" "n \<le> win_limit w" "win_inFlight w \<le> win_limit w - n"
    and w': "w' = w\<lparr>win_inFlight := win_inFlight w + n\<rparr>"
    by (auto simp: SendWindow_Reserve_def not_less split: if_splits)
  have le: "uint (win_inFlight w) + uint n \<le> uint (win_limit w)"
    using n(2,3) by (simp add: word_le_def uint_sub_if')
  have "uint (win_limit w) < 2 ^ 64"
    using uint_lt2p [of "win_limit w"] by simp
  with le have "uint (win_inFlight w + n) = uint (win_inFlight w) + uint n"
    by (simp add: uint_plus_if')
  with le w' show "uint (win_inFlight w') = uint (win_inFlight w) + uint n"
    and "uint (win_inFlight w') \<le> uint (win_limit w)" and "win_limit w' = win_limit w"
    by simp_all
qed

lemma acknowledge_exact:
  assumes "SendWindow_Acknowledge w n = (w', None)"
  shows "uint (win_inFlight w') = uint (win_inFlight w) - uint n"
    and "win_limit w' = win_limit w"
  using assms by (auto simp: SendWindow_Acknowledge_def not_less word_le_def uint_sub_if'
      split: if_splits)

lemma window_step_error: "window_step w c = (w', Some e) \<Longrightarrow> w' = w"
  by (cases c) (auto simp: window_defs split: if_splits)

lemma window_step_ok: "window_ok w \<Longrightarrow> window_step w c = (w', e) \<Longrightarrow> window_ok w'"
proof (cases e)
  case None
  assume ok: "window_ok w" and step: "window_step w c = (w', e)"
  show "window_ok w'"
  proof (cases c)
    case (WReserve n)
    with step None have "SendWindow_Reserve w n = (w', None)" by simp
    from reserve_exact [OF this] ok show ?thesis by (simp add: window_ok_def word_le_def)
  next
    case (WAcknowledge n)
    with step None have a: "SendWindow_Acknowledge w n = (w', None)" by simp
    have "0 \<le> uint n" by simp
    with acknowledge_exact [OF a] ok show ?thesis
      unfolding window_ok_def word_le_def by (intro conjI) (simp, linarith)
  next
    case (WUpdate n)
    with step None ok show ?thesis
      by (auto simp: SendWindow_Update_def window_ok_def split: if_splits)
  qed
qed (use window_step_error in blast)

lemma window_run_exact:
  "window_ok w \<Longrightarrow> window_run w cs = (w', d) \<Longrightarrow>
     window_ok w' \<and> uint (win_inFlight w') = uint (win_inFlight w) + d"
proof (induction cs arbitrary: w w' d)
  case Nil
  then show ?case by simp
next
  case (Cons c cs)
  obtain w1 e where step: "window_step w c = (w1, e)" by fastforce
  obtain d1 where rest: "window_run w1 cs = (w', d1)" by (cases "window_run w1 cs") (use Cons.prems(2) step in auto)
  have ok1: "window_ok w1" using window_step_ok Cons.prems(1) step by blast
  from Cons.IH [OF ok1 rest] have IH: "window_ok w'" "uint (win_inFlight w') = uint (win_inFlight w1) + d1"
    by auto
  show ?case
  proof (cases e)
    case None
    with step show ?thesis
      using IH Cons.prems(2) rest
      by (cases c) (auto simp: SendWindow_Update_def reserve_exact(1) acknowledge_exact(1) split: if_splits)
  next
    case (Some err)
    with window_step_error step have "w1 = w" by blast
    with IH Some Cons.prems(2) step rest show ?thesis by auto
  qed
qed

text \<open>
  C39. End-to-end backpressure of a file sender: over any sequence of
  reservations, acknowledgements and window updates, the bytes in flight are
  exactly the accepted reservations minus the accepted acknowledgements (the
  64-bit arithmetic never wraps and never goes below zero), they never exceed
  the 4 MiB hard maximum, and a reservation that is accepted fits below the
  limit the receiver advertises at that moment.
\<close>

theorem send_window_backpressure:
  assumes "NewSendWindow limit = Inr w" and "window_run w calls = (w', d)"
  shows "uint (win_inFlight w') = d \<and> 0 \<le> d \<and> d \<le> 4 * 2 ^ 20 \<and>
    (\<forall>n w''. SendWindow_Reserve w' n = (w'', None) \<longrightarrow>
       d + uint n \<le> uint (win_limit w') \<and> uint (SendWindow_Available w') \<ge> uint n)"
proof (intro conjI allI impI)
  have inv: "window_ok w'" "uint (win_inFlight w') = d"
    using window_run_exact [OF _ assms(2)] window_new_ok [OF assms(1)] by auto
  then show "uint (win_inFlight w') = d" and "0 \<le> d" by auto
  show "d \<le> 4 * 2 ^ 20"
    using inv by (simp add: window_ok_def word_le_def maximum_window_def)
  fix n w'' assume r: "SendWindow_Reserve w' n = (w'', None)"
  show le: "d + uint n \<le> uint (win_limit w')"
    using reserve_exact [OF r] inv(2) by simp
  have "0 < uint n"
    using r by (auto simp: SendWindow_Reserve_def word_neq_0_conv word_less_def split: if_splits)
  with le inv(2) show "uint (SendWindow_Available w') \<ge> uint n"
    by (simp add: SendWindow_Available_def word_le_def uint_sub_if')
qed

theorem send_window_backpressure_witness:
  "uint (win_inFlight (fst (window_run \<lparr>win_limit = 100, win_inFlight = 0\<rparr>
      [WReserve 60, WReserve 60, WAcknowledge 10, WUpdate 40, WReserve 1]))) = 50"
proof -
  have new: "NewSendWindow 100 = Inr \<lparr>win_limit = 100, win_inFlight = 0\<rparr>"
    by (simp add: NewSendWindow_def maximum_window_def)
  have run: "window_run \<lparr>win_limit = 100, win_inFlight = 0\<rparr>
      [WReserve 60, WReserve 60, WAcknowledge 10, WUpdate 40, WReserve 1]
      = (\<lparr>win_limit = 40, win_inFlight = 50\<rparr>, 50)"
    by code_simp
  from send_window_backpressure [OF new run, THEN conjunct1] show ?thesis
    by (simp only: run fst_conv)
qed

subsection \<open>Resume ranges (\<open>resume.go\<close>)\<close>

datatype resume_error = ErrGenerationStale | ErrMaxRangesNotPositive

record ChunkRange =
  Start :: u64
  End :: u64

record ResumeState =
  generation :: u64
  durable :: "u64 fset"

definition NewResumeState :: "u64 \<Rightarrow> ResumeState" where
  "NewResumeState g = \<lparr>generation = g, durable = {||}\<rparr>"

definition FenceGeneration :: "ResumeState \<Rightarrow> u64 \<Rightarrow> ResumeState \<times> resume_error option" where
  "FenceGeneration s g =
     (if g \<le> generation s then (s, Some ErrGenerationStale) else (s\<lparr>generation := g\<rparr>, None))"

definition MarkDurable :: "ResumeState \<Rightarrow> u64 \<Rightarrow> u64 \<Rightarrow> ResumeState \<times> resume_error option" where
  "MarkDurable s g chunkIndex =
     (if g \<noteq> generation s then (s, Some ErrGenerationStale)
      else (s\<lparr>durable := finsert chunkIndex (durable s)\<rparr>, None))"

text \<open>The second loop of \<open>Missing\<close>, over \<open>missing[1:]\<close>.\<close>

fun missing_ranges :: "int \<Rightarrow> ChunkRange list \<Rightarrow> ChunkRange \<Rightarrow> u64 list \<Rightarrow> ChunkRange list \<times> bool" where
  "missing_ranges maxRanges ranges current [] =
     (let ranges = ranges @ [current] in
      if int (length ranges) > maxRanges then (take (nat maxRanges) ranges, True)
      else (ranges, False))"
| "missing_ranges maxRanges ranges current (index # rest) =
     (if index = End current
      then missing_ranges maxRanges ranges (current\<lparr>End := End current + 1\<rparr>) rest
      else let ranges = ranges @ [current] in
        if int (length ranges) = maxRanges then (ranges, True)
        else missing_ranges maxRanges ranges \<lparr>Start = index, End = index + 1\<rparr> rest)"

definition missing_chunks :: "ResumeState \<Rightarrow> u64 \<Rightarrow> u64 list" where
  "missing_chunks s totalChunks =
     filter (\<lambda>index. index |\<notin>| durable s) (map word_of_nat [0..<unat totalChunks])"

definition Missing ::
  "ResumeState \<Rightarrow> u64 \<Rightarrow> u64 \<Rightarrow> int \<Rightarrow> resume_error + (ChunkRange list \<times> bool)" where
  "Missing s g totalChunks maxRanges =
     (if g \<noteq> generation s then Inl ErrGenerationStale
      else if maxRanges \<le> 0 then Inl ErrMaxRangesNotPositive
      else case sort (missing_chunks s totalChunks) of
          [] \<Rightarrow> Inr ([], False)
        | first # rest \<Rightarrow>
            Inr (missing_ranges maxRanges [] \<lparr>Start = first, End = first + 1\<rparr> rest))"

text \<open>The chunks a list of ranges names, and the shape of a canonical list.\<close>

definition cover :: "ChunkRange list \<Rightarrow> u64 set" where
  "cover rs = (\<Union>r\<in>set rs. {Start r..<End r})"

definition separated :: "ChunkRange list \<Rightarrow> bool" where
  "separated rs \<longleftrightarrow> (\<forall>r\<in>set rs. Start r < End r) \<and> sorted_wrt (\<lambda>a b. End a < Start b) rs"

lemma cover_simps [simp]: "cover [] = {}" "cover (r # rs) = {Start r..<End r} \<union> cover rs"
    "cover (rs @ ss) = cover rs \<union> cover ss"
  by (auto simp: cover_def)

lemma range_extend:
  fixes a e :: u64
  assumes "e + 1 \<noteq> 0" and "a < e"
  shows "{a..<e + 1} = insert e {a..<e}"
  using assms by (auto simp: word_less_Suc)

lemma range_single:
  fixes i :: u64
  assumes "i + 1 \<noteq> 0"
  shows "{i..<i + 1} = {i}"
  using assms by (auto simp: word_less_Suc)

lemma separated_below: "separated (rs @ [r]) \<Longrightarrow> cover (rs @ [r]) \<subseteq> {..<End (last (rs @ [r]))}"
proof (induction rs rule: rev_induct)
  case Nil
  then show ?case by auto
next
  case (snoc x xs)
  have "separated (xs @ [x])" and "End x < Start r" and "Start r < End r"
    using snoc.prems by (auto simp: separated_def sorted_wrt_append)
  with snoc.IH snoc.prems show ?case by (force simp: separated_def sorted_wrt_append cover_def)
qed

lemma missing_ranges_correct:
  assumes "separated (ranges @ [current])" and "sorted_wrt (<) rest"
    and "\<forall>i\<in>set rest. End current \<le> i \<and> i + 1 \<noteq> 0"
    and "int (length ranges) < maxRanges"
    and "missing_ranges maxRanges ranges current rest = (rs, trunc)"
  shows "separated rs \<and> int (length rs) \<le> maxRanges \<and> rs \<noteq> [] \<and>
    cover rs = (cover (ranges @ [current]) \<union> set rest) \<inter>
      (if trunc then {..<End (last rs)} else UNIV) \<and>
    (trunc \<longrightarrow> int (length rs) = maxRanges \<and> (\<exists>i\<in>set rest. End (last rs) < i))"
  using assms
proof (induction maxRanges ranges current rest rule: missing_ranges.induct)
  case (1 maxRanges ranges current)
  then show ?case by (auto simp: Let_def)
next
  case (2 maxRanges ranges current index rest)
  have nowrap: "index + 1 \<noteq> 0" using "2.prems"(3) by simp
  have later: "\<forall>i\<in>set rest. index < i" using "2.prems"(2) by simp
  then have later': "\<forall>i\<in>set rest. index + 1 \<le> i \<and> i + 1 \<noteq> 0"
    using "2.prems"(3) nowrap by (auto simp: word_less_Suc not_less [symmetric])
  show ?case
  proof (cases "index = End current")
    case True
    have "Start current < End current" using "2.prems"(1) by (simp add: separated_def)
    with True nowrap have "separated (ranges @ [current\<lparr>End := End current + 1\<rparr>])"
      using "2.prems"(1) word_Suc_no_wrap(1) [of index]
      by (auto simp: separated_def sorted_wrt_append)
    with True "2.prems" later' \<open>Start current < End current\<close> show ?thesis
      using "2.IH"(1) by (auto simp: range_extend)
  next
    case False
    with "2.prems"(3) have gap: "End current < index" by (simp add: order.strict_iff_order)
    have sep: "separated ((ranges @ [current]) @ [\<lparr>Start = index, End = index + 1\<rparr>])"
      using "2.prems"(1) gap word_Suc_no_wrap(1) [OF nowrap]
      by (auto simp: separated_def sorted_wrt_append intro: less_trans)
    show ?thesis
    proof (cases "int (length (ranges @ [current])) = maxRanges")
      case True
      with False "2.prems"(5) have res: "rs = ranges @ [current]" "trunc" by auto
      have "cover rs \<subseteq> {..<End (last rs)}"
        using separated_below "2.prems"(1) res(1) by blast
      moreover have "set (index # rest) \<inter> {..<End (last rs)} = {}"
        using res(1) gap later by auto
      ultimately have "cover rs = (cover (ranges @ [current]) \<union> set (index # rest)) \<inter> {..<End (last rs)}"
        using res(1) by blast
      with res True gap "2.prems"(1) show ?thesis by auto
    next
      case more: False
      with False "2.prems"(4,5) sep later' "2.prems"(2) nowrap show ?thesis
        using "2.IH"(2) [OF False refl more] by (auto simp: range_single)
    qed
  qed
qed

lemma missing_chunks_sorted: "sorted_wrt (<) (missing_chunks s t)"
proof -
  have "sorted_wrt (<) (map word_of_nat [0..<unat t] :: u64 list)"
  proof -
    have "i < unat t \<Longrightarrow> i < 18446744073709551616" for i
      using unat_lt_64 [of t] by simp
    then have "sorted_wrt (\<lambda>i j. (word_of_nat i :: u64) < word_of_nat j) [0..<unat t]"
      by (intro sorted_wrt_mono_rel [OF _ sorted_wrt_upt])
        (auto simp: word_less_nat_alt unat_of_nat_64)
    then show ?thesis by (simp add: sorted_wrt_map)
  qed
  then show ?thesis by (simp add: missing_chunks_def sorted_wrt_filter)
qed

lemma sort_missing_chunks [simp]: "sort (missing_chunks s t) = missing_chunks s t"
  using missing_chunks_sorted [of s t]
  by (simp add: sorted_sort_id strict_sorted_iff)

lemma set_missing_chunks: "set (missing_chunks s t) = {i. i < t \<and> i |\<notin>| durable s}"
proof -
  have "i \<in> word_of_nat ` {0..<unat t} \<longleftrightarrow> i < t" for i :: u64
  proof
    assume "i < t"
    then have "unat i \<in> {0..<unat t}" and "i = word_of_nat (unat i)"
      by (simp_all add: word_less_nat_alt)
    then show "i \<in> word_of_nat ` {0..<unat t}" by blast
  next
    assume "i \<in> word_of_nat ` {0..<unat t}"
    then show "i < t" using unat_lt_64 [of t] by (auto simp: word_less_nat_alt unat_of_nat_64)
  qed
  then show ?thesis by (auto simp: missing_chunks_def)
qed

text \<open>
  The resume ranges a receiver asks for: they are nonempty, in increasing
  order and separated by chunks it has; there are at most \<open>maxRanges\<close> of
  them. When the answer is not marked as truncated it names exactly the
  missing chunks; when it is, it holds \<open>maxRanges\<close> ranges, names every
  missing chunk below its end and no other, and there is a missing chunk
  beyond. No durable chunk is ever asked for again.
\<close>

theorem missing_ranges_exact:
  assumes "Missing s g totalChunks maxRanges = Inr (rs, trunc)"
  shows "separated rs \<and> int (length rs) \<le> maxRanges \<and>
    (\<not> trunc \<longrightarrow> cover rs = {i. i < totalChunks \<and> i |\<notin>| durable s}) \<and>
    (trunc \<longrightarrow> int (length rs) = maxRanges \<and>
      cover rs = {i. i < totalChunks \<and> i |\<notin>| durable s \<and> i < End (last rs)} \<and>
      (\<exists>i<totalChunks. i |\<notin>| durable s \<and> End (last rs) < i))"
proof (cases "missing_chunks s totalChunks")
  case Nil
  with assms set_missing_chunks [of s totalChunks] show ?thesis
    by (auto simp: Missing_def separated_def split: if_splits)
next
  case (Cons first rest)
  have sorted: "sorted_wrt (<) (first # rest)"
    using missing_chunks_sorted [of s totalChunks] Cons by simp
  have all: "set (first # rest) = {i. i < totalChunks \<and> i |\<notin>| durable s}"
    using set_missing_chunks [of s totalChunks] Cons by simp
  then have nowrap: "\<forall>i\<in>set (first # rest). i + 1 \<noteq> 0"
    using word_less_no_wrap by blast
  have srt: "sort (first # rest) = first # rest"
    using sort_missing_chunks [of s totalChunks] Cons by simp
  from assms Cons have pos: "0 < maxRanges"
    and run: "missing_ranges maxRanges [] \<lparr>Start = first, End = first + 1\<rparr> rest = (rs, trunc)"
    by (auto simp: Missing_def srt simp del: sort_key_simps split: if_splits)
  have single: "{first..<first + 1} = {first}"
    using nowrap by (intro range_single) simp
  have "\<forall>i\<in>set rest. first + 1 \<le> i \<and> i + 1 \<noteq> 0"
    using sorted nowrap by (auto simp: word_less_Suc not_less [symmetric])
  moreover have "separated ([] @ [\<lparr>Start = first, End = first + 1\<rparr>])"
    using nowrap word_Suc_no_wrap(1) [of first] by (simp add: separated_def)
  ultimately have "separated rs \<and> int (length rs) \<le> maxRanges \<and> rs \<noteq> [] \<and>
    cover rs = (cover ([] @ [\<lparr>Start = first, End = first + 1\<rparr>]) \<union> set rest) \<inter>
      (if trunc then {..<End (last rs)} else UNIV) \<and>
    (trunc \<longrightarrow> int (length rs) = maxRanges \<and> (\<exists>i\<in>set rest. End (last rs) < i))"
    using sorted pos run by (intro missing_ranges_correct) auto
  then show ?thesis using single all by auto
qed

theorem missing_ranges_exact_witness:
  "cover [\<lparr>Start = 0, End = 1\<rparr>, \<lparr>Start = 2, End = 4\<rparr>]
     = {i. i < 9 \<and> i |\<notin>| {|1, 4, 5|} \<and> i < 4}"
proof -
  have run: "Missing \<lparr>generation = 3, durable = {|1, 4, 5|}\<rparr> 3 9 2
      = Inr ([\<lparr>Start = 0, End = 1\<rparr>, \<lparr>Start = 2, End = 4\<rparr>], True)"
    by code_simp
  from missing_ranges_exact [OF run] show ?thesis by simp
qed

end
