(* ===== verification/Bounded_Queue.thy ===== *)
theory Bounded_Queue
  imports Relay_Protocol
begin

text \<open>
  The outbound queue of a relay connection,
  \<open>server/internal/relayserver/queue.go\<close>. The generated envelope type is
  modelled by what the code reads of it: protocol version, connection epoch
  and which frame the oneof holds; the rest of the message is an opaque byte
  string. Serialisation (\<open>proto.Marshal\<close>, \<open>proto.Unmarshal\<close>, unknown
  fields) is a parameter.
\<close>

subsection \<open>Envelopes\<close>

datatype envelope_frame =
    Envelope_None
  | Envelope_AuthChallenge | Envelope_AuthProof | Envelope_Ready | Envelope_Ping | Envelope_Pong
  | Envelope_GoAway
  | Envelope_Command | Envelope_CommandReceived | Envelope_CommandAccepted | Envelope_DeviceEvent
  | Envelope_EventTransportAck
  | Envelope_PeerOpen | Envelope_PeerReady | Envelope_PeerQuery | Envelope_PeerDelta
  | Envelope_PeerComplete | Envelope_PeerCancel | Envelope_PeerError
  | Envelope_FileOpen | Envelope_FileAccept | Envelope_FileReject
  | Envelope_FileManifest | Envelope_FileChunk | Envelope_FileAck | Envelope_FileWindowUpdate
  | Envelope_FileResume | Envelope_FileComplete | Envelope_FileVerified | Envelope_FileCancel
  | Envelope_FileError

record Envelope =
  env_ProtocolVersion :: u32
  env_ConnectionEpoch :: u64
  env_Frame :: envelope_frame
  env_content :: bytes

fun envelopeClass :: "envelope_frame \<Rightarrow> string \<times> frame_class" where
  "envelopeClass Envelope_AuthChallenge = (''AUTH_CHALLENGE'', FrameClassHeartbeat)"
| "envelopeClass Envelope_AuthProof = (''AUTH_PROOF'', FrameClassHeartbeat)"
| "envelopeClass Envelope_Ready = (''READY'', FrameClassHeartbeat)"
| "envelopeClass Envelope_Ping = (''PING'', FrameClassHeartbeat)"
| "envelopeClass Envelope_Pong = (''PONG'', FrameClassHeartbeat)"
| "envelopeClass Envelope_GoAway = (''GOAWAY'', FrameClassHeartbeat)"
| "envelopeClass Envelope_Command = (''COMMAND'', FrameClassReliableControl)"
| "envelopeClass Envelope_CommandReceived = (''COMMAND_RECEIVED'', FrameClassReliableControl)"
| "envelopeClass Envelope_CommandAccepted = (''COMMAND_ACCEPTED'', FrameClassReliableControl)"
| "envelopeClass Envelope_DeviceEvent = (''DEVICE_EVENT'', FrameClassReliableControl)"
| "envelopeClass Envelope_EventTransportAck = (''EVENT_TRANSPORT_ACK'', FrameClassReliableControl)"
| "envelopeClass Envelope_PeerOpen = (''PEER_OPEN'', FrameClassPeerPayload)"
| "envelopeClass Envelope_PeerReady = (''PEER_READY'', FrameClassPeerPayload)"
| "envelopeClass Envelope_PeerQuery = (''PEER_QUERY'', FrameClassPeerPayload)"
| "envelopeClass Envelope_PeerDelta = (''PEER_DELTA'', FrameClassPeerPayload)"
| "envelopeClass Envelope_PeerComplete = (''PEER_COMPLETE'', FrameClassPeerPayload)"
| "envelopeClass Envelope_PeerCancel = (''PEER_CANCEL'', FrameClassPeerPayload)"
| "envelopeClass Envelope_PeerError = (''PEER_ERROR'', FrameClassPeerPayload)"
| "envelopeClass Envelope_FileOpen = (''FILE_OPEN'', FrameClassFileControl)"
| "envelopeClass Envelope_FileAccept = (''FILE_ACCEPT'', FrameClassFileControl)"
| "envelopeClass Envelope_FileReject = (''FILE_REJECT'', FrameClassFileControl)"
| "envelopeClass Envelope_FileManifest = (''FILE_MANIFEST'', FrameClassFilePayload)"
| "envelopeClass Envelope_FileChunk = (''FILE_CHUNK'', FrameClassFilePayload)"
| "envelopeClass Envelope_FileAck = (''FILE_ACK'', FrameClassFilePayload)"
| "envelopeClass Envelope_FileWindowUpdate = (''FILE_WINDOW_UPDATE'', FrameClassFilePayload)"
| "envelopeClass Envelope_FileResume = (''FILE_RESUME'', FrameClassFilePayload)"
| "envelopeClass Envelope_FileComplete = (''FILE_COMPLETE'', FrameClassFilePayload)"
| "envelopeClass Envelope_FileVerified = (''FILE_VERIFIED'', FrameClassFilePayload)"
| "envelopeClass Envelope_FileCancel = (''FILE_CANCEL'', FrameClassFilePayload)"
| "envelopeClass Envelope_FileError = (''FILE_ERROR'', FrameClassFilePayload)"
| "envelopeClass Envelope_None = ('''', FrameClassUnknown)"

text \<open>The two tables of frame classes, by name and by message type, agree.\<close>

lemma envelopeClass_classify: "snd (envelopeClass f) = ClassifyFrame (fst (envelopeClass f))"
  by (cases f) (simp_all add: ClassifyFrame_def)

lemma envelopeClass_unknown: "snd (envelopeClass f) = FrameClassUnknown \<longleftrightarrow> f = Envelope_None"
  by (cases f) simp_all

subsection \<open>The queue\<close>

definition DefaultQueueBytes :: int where "DefaultQueueBytes = 4 * 1024 * 1024"
definition DefaultQueueFrames :: int where "DefaultQueueFrames = 256"

datatype queue_error =
    QueueFrameError frame_error
  | QueueMarshalError
  | ErrQueueFull
  | ErrQueueClosed

record queuedFrame =
  qf_payload :: bytes
  qf_class :: frame_class

record BoundedQueue =
  bq_queues :: "(frame_class, queuedFrame list) fmap"
  bq_notify :: bool
  bq_closed :: bool
  bq_bytes :: int
  bq_frames :: int
  bq_maxBytes :: int
  bq_maxFrames :: int
  bq_cursor :: nat

definition fairClassOrder :: "frame_class list" where
  "fairClassOrder =
     [FrameClassHeartbeat, FrameClassReliableControl, FrameClassHeartbeat, FrameClassPeerPayload,
      FrameClassFileControl, FrameClassFilePayload]"

definition NewBoundedQueue :: "int \<Rightarrow> int \<Rightarrow> BoundedQueue option" where
  "NewBoundedQueue maxBytes maxFrames =
     (if maxBytes < AbsoluteFrameLimit \<or> maxBytes > 64 * 1024 * 1024 \<or> maxFrames < 1 \<or> maxFrames > 4096
      then None
      else Some \<lparr>bq_queues = fmempty, bq_notify = False, bq_closed = False, bq_bytes = 0,
        bq_frames = 0, bq_maxBytes = maxBytes, bq_maxFrames = maxFrames, bq_cursor = 0\<rparr>)"

definition BoundedQueue_Enqueue ::
  "(Envelope \<Rightarrow> bytes option) \<Rightarrow> BoundedQueue \<Rightarrow> Envelope option \<Rightarrow> BoundedQueue \<times> queue_error option" where
  "BoundedQueue_Enqueue marshal queue envelope =
     (case envelope of
        None \<Rightarrow> (queue, Some (QueueFrameError ErrUnknownFrame))
      | Some envelope \<Rightarrow>
          (case envelopeClass (env_Frame envelope) of (frameName, class) \<Rightarrow>
            if class = FrameClassUnknown then (queue, Some (QueueFrameError ErrUnknownFrame))
            else case marshal envelope of
                None \<Rightarrow> (queue, Some QueueMarshalError)
              | Some payload \<Rightarrow>
                  (case ValidateFrameSize frameName (int (length payload)) of
                     Some err \<Rightarrow> (queue, Some (QueueFrameError err))
                   | None \<Rightarrow>
                       if bq_closed queue then (queue, Some ErrQueueClosed)
                       else if bq_frames queue + 1 > bq_maxFrames queue \<or>
                         bq_bytes queue + int (length payload) > bq_maxBytes queue
                       then (queue, Some ErrQueueFull)
                       else (queue
                         \<lparr>bq_queues := fmupd class
                            (fmget [] (bq_queues queue) class @ [\<lparr>qf_payload = payload, qf_class = class\<rparr>])
                            (bq_queues queue),
                          bq_frames := bq_frames queue + 1,
                          bq_bytes := bq_bytes queue + int (length payload),
                          bq_notify := True\<rparr>, None))))"

definition DecodeNodeDelivery ::
  "(bytes \<Rightarrow> Envelope option) \<Rightarrow> (Envelope \<Rightarrow> bool) \<Rightarrow> string \<Rightarrow> bytes \<Rightarrow> u64 \<Rightarrow> frame_error + Envelope" where
  "DecodeNodeDelivery unmarshal hasUnknown channel payload expectedEpoch =
     (if payload = [] \<or> int (length payload) > AbsoluteFrameLimit \<or> expectedEpoch = 0
      then Inl ErrFrameTooLarge
      else case unmarshal payload of
          None \<Rightarrow> Inl ErrUnknownFrame
        | Some envelope \<Rightarrow>
            if hasUnknown envelope then Inl ErrUnknownFrame
            else (case envelopeClass (env_Frame envelope) of (frameName, class) \<Rightarrow>
              if env_ProtocolVersion envelope \<noteq> 1 \<or> env_ConnectionEpoch envelope \<noteq> expectedEpoch \<or>
                ValidateFrameSize frameName (int (length payload)) \<noteq> None
              then Inl ErrUnknownFrame
              else if \<not> ((channel = ''downlink'' \<and> class = FrameClassReliableControl) \<or>
                (channel = ''peer'' \<and> class = FrameClassPeerPayload) \<or>
                (channel = ''file-control'' \<and> class = FrameClassFileControl))
              then Inl ErrUnknownFrame
              else Inr envelope))"

text \<open>
  Removing the head \<open>frame\<close> of a class, of which \<open>rest\<close> remains, and the loop
  \<open>for range len(fairClassOrder)\<close> of \<open>nextLocked\<close> with the iterations left.
\<close>

definition bq_remove ::
  "BoundedQueue \<Rightarrow> frame_class \<Rightarrow> queuedFrame \<Rightarrow> queuedFrame list \<Rightarrow> BoundedQueue" where
  "bq_remove queue class frame rest =
     (let queue = queue
        \<lparr>bq_queues := (if rest = [] then fmdrop class (bq_queues queue)
                        else fmupd class rest (bq_queues queue)),
         bq_frames := bq_frames queue - 1,
         bq_bytes := bq_bytes queue - int (length (qf_payload frame))\<rparr>
      in if bq_frames queue > 0 then queue\<lparr>bq_notify := True\<rparr> else queue)"

fun next_loop :: "nat \<Rightarrow> BoundedQueue \<Rightarrow> BoundedQueue \<times> queuedFrame option" where
  "next_loop 0 queue = (queue, None)"
| "next_loop (Suc n) queue =
     (let class = fairClassOrder ! (bq_cursor queue mod length fairClassOrder);
          queue = queue\<lparr>bq_cursor := (bq_cursor queue + 1) mod length fairClassOrder\<rparr>
      in case fmget [] (bq_queues queue) class of
          [] \<Rightarrow> next_loop n queue
        | frame # rest \<Rightarrow> (bq_remove queue class frame rest, Some frame))"

definition nextLocked :: "BoundedQueue \<Rightarrow> BoundedQueue \<times> queuedFrame option" where
  "nextLocked queue = next_loop (length fairClassOrder) queue"

text \<open>
  One round of the loop in \<open>Dequeue\<close>: a frame is returned, or the queue is
  closed, or the caller has to wait for its context or a notification.
\<close>

datatype dequeue_result = Dequeued bytes | DequeueClosed | DequeueWait

definition BoundedQueue_Dequeue :: "BoundedQueue \<Rightarrow> BoundedQueue \<times> dequeue_result" where
  "BoundedQueue_Dequeue queue =
     (case nextLocked queue of
        (queue, Some frame) \<Rightarrow> (queue, Dequeued (qf_payload frame))
      | (queue, None) \<Rightarrow> (queue, if bq_closed queue then DequeueClosed else DequeueWait))"

definition BoundedQueue_Close :: "BoundedQueue \<Rightarrow> BoundedQueue" where
  "BoundedQueue_Close queue = queue\<lparr>bq_closed := True, bq_notify := True\<rparr>"

definition BoundedQueue_Usage :: "BoundedQueue \<Rightarrow> int \<times> int" where
  "BoundedQueue_Usage queue = (bq_frames queue, bq_bytes queue)"

subsection \<open>What is queued, and the accounting invariant\<close>

abbreviation bq_backlog :: "BoundedQueue \<Rightarrow> frame_class \<Rightarrow> queuedFrame list" where
  "bq_backlog q c \<equiv> fmget [] (bq_queues q) c"

definition queue_classes :: "frame_class list" where
  "queue_classes = [FrameClassHeartbeat, FrameClassReliableControl, FrameClassPeerPayload,
     FrameClassFileControl, FrameClassFilePayload]"

definition payload_sum :: "queuedFrame list \<Rightarrow> int" where
  "payload_sum fs = (\<Sum>f\<leftarrow>fs. int (length (qf_payload f)))"

definition bq_ok :: "BoundedQueue \<Rightarrow> bool" where
  "bq_ok q \<longleftrightarrow> bq_cursor q < 6 \<and>
     bq_frames q = (\<Sum>c\<leftarrow>queue_classes. int (length (bq_backlog q c))) \<and>
     bq_bytes q = (\<Sum>c\<leftarrow>queue_classes. payload_sum (bq_backlog q c)) \<and>
     bq_frames q \<le> bq_maxFrames q \<and> bq_bytes q \<le> bq_maxBytes q \<and>
     bq_backlog q FrameClassUnknown = [] \<and>
     (\<forall>c. \<forall>f\<in>set (bq_backlog q c).
        qf_class f = c \<and> int (length (qf_payload f)) \<le> frame_size_limit c)"

lemma payload_sum_simps [simp]:
  "payload_sum [] = 0" "payload_sum (f # fs) = int (length (qf_payload f)) + payload_sum fs"
  "payload_sum (fs @ gs) = payload_sum fs + payload_sum gs"
  by (simp_all add: payload_sum_def)

lemma payload_sum_nonneg: "0 \<le> payload_sum fs"
  unfolding payload_sum_def by (intro sum_list_nonneg) auto

text \<open>The two sums over the classes move with the one class an operation touches.\<close>

lemma class_sum_upd:
  fixes g h :: "frame_class \<Rightarrow> int"
  assumes "\<And>d. d \<noteq> c \<Longrightarrow> h d = g d" and "c \<noteq> FrameClassUnknown"
  shows "(\<Sum>d\<leftarrow>queue_classes. h d) = (\<Sum>d\<leftarrow>queue_classes. g d) + (h c - g c)"
  using assms by (cases c) (simp_all add: queue_classes_def)

lemma bq_new_ok: "NewBoundedQueue mb mf = Some q \<Longrightarrow> bq_ok q"
  by (auto simp: NewBoundedQueue_def bq_ok_def queue_classes_def frame_limits split: if_splits)

lemma fairClassOrder_length [simp]: "length fairClassOrder = 6"
  by (simp add: fairClassOrder_def)

lemma fairClassOrder_known: "fairClassOrder ! (i mod 6) \<noteq> FrameClassUnknown"
proof -
  have "fairClassOrder ! (i mod 6) \<in> set fairClassOrder" by (rule nth_mem) simp
  then show ?thesis by (auto simp: fairClassOrder_def)
qed

text \<open>Enqueue: either the queue is unchanged and an error says why, or one frame is appended.\<close>

lemma Enqueue_cases:
  assumes "BoundedQueue_Enqueue marshal q env = (q', err)"
  obtains (refused) e where "err = Some e" and "q' = q"
  | (queued) e c payload where "err = None" and "env = Some e"
      and "c = snd (envelopeClass (env_Frame e))" and "c \<noteq> FrameClassUnknown"
      and "marshal e = Some payload" and "int (length payload) \<le> frame_size_limit c"
      and "\<not> bq_closed q" and "bq_frames q + 1 \<le> bq_maxFrames q"
      and "bq_bytes q + int (length payload) \<le> bq_maxBytes q"
      and "q' = q\<lparr>bq_queues := fmupd c (bq_backlog q c @ [\<lparr>qf_payload = payload, qf_class = c\<rparr>])
             (bq_queues q), bq_frames := bq_frames q + 1,
             bq_bytes := bq_bytes q + int (length payload), bq_notify := True\<rparr>"
proof (cases env)
  case None
  with assms have "err = Some (QueueFrameError ErrUnknownFrame)" and "q' = q"
    by (simp_all add: BoundedQueue_Enqueue_def)
  then show ?thesis by (rule refused)
next
  case (Some e)
  obtain name c where nc: "envelopeClass (env_Frame e) = (name, c)" by fastforce
  have cl: "ClassifyFrame name = c" using envelopeClass_classify [of "env_Frame e"] nc by simp
  show ?thesis
  proof (cases err)
    case None
    then obtain payload where "marshal e = Some payload" "c \<noteq> FrameClassUnknown"
      "ValidateFrameSize name (int (length payload)) = None"
      using assms Some nc by (auto simp: BoundedQueue_Enqueue_def split: option.splits if_splits)
    with None Some nc cl assms show ?thesis
      by (intro queued) (auto simp: BoundedQueue_Enqueue_def ValidateFrameSize_ok split: if_splits)
  next
    case err: (Some x)
    then show ?thesis using assms Some nc
      by (intro refused) (auto simp: BoundedQueue_Enqueue_def split: option.splits if_splits)
  qed
qed

lemma Enqueue_ok:
  assumes "bq_ok q" and "BoundedQueue_Enqueue marshal q env = (q', err)"
  shows "bq_ok q'"
  using assms(2)
proof (cases rule: Enqueue_cases)
  case (queued e c payload)
  let ?f = "\<lparr>qf_payload = payload, qf_class = c\<rparr>"
  have bl: "bq_backlog q' d = (if d = c then bq_backlog q c @ [?f] else bq_backlog q d)" for d
    using queued by simp
  have "(\<Sum>d\<leftarrow>queue_classes. int (length (bq_backlog q' d)))
      = (\<Sum>d\<leftarrow>queue_classes. int (length (bq_backlog q d))) + 1"
    using queued(4) by (subst class_sum_upd [where c = c and g = "\<lambda>d. int (length (bq_backlog q d))"])
      (auto simp: bl)
  moreover have "(\<Sum>d\<leftarrow>queue_classes. payload_sum (bq_backlog q' d))
      = (\<Sum>d\<leftarrow>queue_classes. payload_sum (bq_backlog q d)) + int (length payload)"
    using queued(4) by (subst class_sum_upd [where c = c and g = "\<lambda>d. payload_sum (bq_backlog q d)"])
      (auto simp: bl)
  ultimately show ?thesis
    using assms(1) queued unfolding bq_ok_def by (auto simp: bl)
qed (use assms(1) in simp)

text \<open>One dequeue attempt, in terms of the backlogs.\<close>

lemma next_loop_none:
  "next_loop n q = (q', None) \<Longrightarrow>
     (\<forall>j<n. bq_backlog q (fairClassOrder ! ((bq_cursor q + j) mod 6)) = []) \<and>
     q' = (if n = 0 then q else q\<lparr>bq_cursor := (bq_cursor q + n) mod 6\<rparr>)"
proof (induction n arbitrary: q)
  case (Suc n)
  let ?q = "q\<lparr>bq_cursor := (bq_cursor q + 1) mod 6\<rparr>"
  have empty: "bq_backlog q (fairClassOrder ! (bq_cursor q mod 6)) = []" and rest: "next_loop n ?q = (q', None)"
    using Suc.prems by (auto simp: Let_def split: list.splits)
  have "bq_backlog q (fairClassOrder ! ((bq_cursor q + j) mod 6)) = []" if "j < Suc n" for j
  proof (cases j)
    case (Suc k)
    with Suc.IH [OF rest] that show ?thesis by (simp add: mod_add_left_eq)
  qed (use empty in simp)
  with Suc.IH [OF rest] show ?case by (cases n) (simp_all add: mod_simps)
qed simp

lemma next_loop_some:
  "next_loop n q = (q', Some f) \<Longrightarrow> \<exists>i<n. \<exists>c rest. c = fairClassOrder ! ((bq_cursor q + i) mod 6) \<and>
     (\<forall>j<i. bq_backlog q (fairClassOrder ! ((bq_cursor q + j) mod 6)) = []) \<and>
     bq_backlog q c = f # rest \<and>
     q' = bq_remove (q\<lparr>bq_cursor := (bq_cursor q + i + 1) mod 6\<rparr>) c f rest"
proof (induction n arbitrary: q)
  case (Suc n)
  let ?c = "fairClassOrder ! (bq_cursor q mod 6)"
  let ?q = "q\<lparr>bq_cursor := (bq_cursor q + 1) mod 6\<rparr>"
  show ?case
  proof (cases "bq_backlog q ?c")
    case (Cons g rest)
    with Suc.prems show ?thesis by (intro exI [of _ 0]) (auto simp: Let_def)
  next
    case Nil
    then have "next_loop n ?q = (q', Some f)" using Suc.prems by (simp add: Let_def)
    from Suc.IH [OF this] obtain i rest where i: "i < n"
      and empty: "\<forall>j<i. bq_backlog q (fairClassOrder ! ((bq_cursor q + Suc j) mod 6)) = []"
      and head: "bq_backlog q (fairClassOrder ! ((bq_cursor q + Suc i) mod 6)) = f # rest"
      and q': "q' = bq_remove (q\<lparr>bq_cursor := (bq_cursor q + Suc i + 1) mod 6\<rparr>)
        (fairClassOrder ! ((bq_cursor q + Suc i) mod 6)) f rest"
      by (simp add: mod_simps) blast
    have "\<forall>j<Suc i. bq_backlog q (fairClassOrder ! ((bq_cursor q + j) mod 6)) = []"
      using empty Nil by (auto simp: less_Suc_eq_0_disj)
    with i head q' show ?thesis by (intro exI [of _ "Suc i"]) auto
  qed
qed simp

lemma bq_remove_ok:
  assumes "bq_ok q" and "c \<noteq> FrameClassUnknown" and "bq_backlog q c = f # rest" and "cur < 6"
  shows "bq_ok (bq_remove (q\<lparr>bq_cursor := cur\<rparr>) c f rest)"
proof -
  let ?q' = "bq_remove (q\<lparr>bq_cursor := cur\<rparr>) c f rest"
  have bl: "bq_backlog ?q' d = (if d = c then rest else bq_backlog q d)" for d
    by (simp add: bq_remove_def Let_def)
  have "(\<Sum>d\<leftarrow>queue_classes. int (length (bq_backlog ?q' d)))
      = (\<Sum>d\<leftarrow>queue_classes. int (length (bq_backlog q d))) - 1"
    using assms(2,3) by (subst class_sum_upd [where c = c and g = "\<lambda>d. int (length (bq_backlog q d))"])
      (auto simp: bl)
  moreover have "(\<Sum>d\<leftarrow>queue_classes. payload_sum (bq_backlog ?q' d))
      = (\<Sum>d\<leftarrow>queue_classes. payload_sum (bq_backlog q d)) - int (length (qf_payload f))"
    using assms(2,3) by (subst class_sum_upd [where c = c and g = "\<lambda>d. payload_sum (bq_backlog q d)"])
      (auto simp: bl)
  moreover have "bq_frames ?q' = bq_frames q - 1"
    and "bq_bytes ?q' = bq_bytes q - int (length (qf_payload f))"
    and "bq_maxFrames ?q' = bq_maxFrames q" and "bq_maxBytes ?q' = bq_maxBytes q" and "bq_cursor ?q' = cur"
    by (simp_all add: bq_remove_def Let_def)
  ultimately show ?thesis
    using assms unfolding bq_ok_def by (auto simp: bl)
qed

lemma nextLocked_ok:
  assumes "bq_ok q" and "nextLocked q = (q', r)"
  shows "bq_ok q'"
proof (cases r)
  case None
  with assms next_loop_none [of 6 q q'] show ?thesis
    by (auto simp: nextLocked_def bq_ok_def)
next
  case (Some f)
  with assms(2) next_loop_some [of 6 q q' f]
  obtain i c rest where "c = fairClassOrder ! ((bq_cursor q + i) mod 6)" "bq_backlog q c = f # rest"
    "q' = bq_remove (q\<lparr>bq_cursor := (bq_cursor q + i + 1) mod 6\<rparr>) c f rest"
    by (auto simp: nextLocked_def)
  with bq_remove_ok assms(1) fairClassOrder_known show ?thesis by simp
qed

text \<open>With nothing queued, the cursor goes round once and the queue is as before.\<close>

lemma nextLocked_none:
  assumes "bq_ok q" and "nextLocked q = (q', None)"
  shows "q' = q \<and> (\<forall>c. bq_backlog q c = []) \<and> bq_frames q = 0 \<and> bq_bytes q = 0"
proof -
  have all: "\<forall>j<6. bq_backlog q (fairClassOrder ! ((bq_cursor q + j) mod 6)) = []"
    and q': "q' = q\<lparr>bq_cursor := (bq_cursor q + 6) mod 6\<rparr>"
    using next_loop_none [of 6 q q'] assms(2) by (simp_all add: nextLocked_def)
  have cur: "bq_cursor q < 6" using assms(1) by (simp add: bq_ok_def)
  have "bq_backlog q (fairClassOrder ! k) = []" if "k < 6" for k
  proof -
    have "\<exists>j<6. (bq_cursor q + j) mod 6 = k"
    proof (cases "bq_cursor q \<le> k")
      case True
      with that show ?thesis by (intro exI [of _ "k - bq_cursor q"]) auto
    next
      case False
      with cur that show ?thesis by (intro exI [of _ "k + 6 - bq_cursor q"]) auto
    qed
    with all show ?thesis by metis
  qed
  from this [of 0] this [of 1] this [of 3] this [of 4] this [of 5]
  have "bq_backlog q c = []" for c
    using assms(1) by (cases c) (simp_all add: fairClassOrder_def bq_ok_def)
  with q' cur assms(1) show ?thesis by (simp add: bq_ok_def queue_classes_def)
qed

subsection \<open>The queue as a cyclic service and as a notified queue\<close>

datatype bq_call = CallEnqueue "Envelope option" | CallClose

fun bq_produce :: "(Envelope \<Rightarrow> bytes option) \<Rightarrow> bq_call \<Rightarrow> BoundedQueue \<Rightarrow> BoundedQueue" where
  "bq_produce marshal (CallEnqueue e) q = fst (BoundedQueue_Enqueue marshal q e)"
| "bq_produce marshal CallClose q = BoundedQueue_Close q"

text \<open>The frames a call adds, read off its error result.\<close>

fun bq_accepted :: "(Envelope \<Rightarrow> bytes option) \<Rightarrow> bq_call \<Rightarrow> BoundedQueue \<Rightarrow> queuedFrame list" where
  "bq_accepted marshal (CallEnqueue e) q =
     (case (e, snd (BoundedQueue_Enqueue marshal q e)) of
        (Some env, None) \<Rightarrow> (case marshal env of
            Some payload \<Rightarrow> [\<lparr>qf_payload = payload, qf_class = snd (envelopeClass (env_Frame env))\<rparr>]
          | None \<Rightarrow> [])
      | _ \<Rightarrow> [])"
| "bq_accepted marshal CallClose q = []"

definition bq_take :: "BoundedQueue \<Rightarrow> (queuedFrame \<times> BoundedQueue) option" where
  "bq_take q = (case nextLocked q of (q', Some f) \<Rightarrow> Some (f, q') | (q', None) \<Rightarrow> None)"

lemma bq_produce_ok: "bq_ok q \<Longrightarrow> bq_ok (bq_produce marshal p q)"
proof (cases p)
  case (CallEnqueue e)
  assume "bq_ok q"
  with Enqueue_ok [of q marshal e] CallEnqueue show ?thesis
    by (metis bq_produce.simps(1) prod.collapse)
qed (simp add: bq_ok_def BoundedQueue_Close_def)

lemma bq_produce_backlog:
  "bq_backlog (bq_produce marshal p q) c
     = bq_backlog q c @ filter (\<lambda>f. qf_class f = c) (bq_accepted marshal p q)"
proof (cases p)
  case (CallEnqueue e)
  obtain q' err where r: "BoundedQueue_Enqueue marshal q e = (q', err)" by fastforce
  then have p: "bq_produce marshal p q = q'" and acc: "bq_accepted marshal p q =
      (case (e, err) of
        (Some env, None) \<Rightarrow> (case marshal env of
            Some payload \<Rightarrow> [\<lparr>qf_payload = payload, qf_class = snd (envelopeClass (env_Frame env))\<rparr>]
          | None \<Rightarrow> [])
      | _ \<Rightarrow> [])"
    using CallEnqueue by simp_all
  from r show ?thesis
    unfolding p acc by (cases rule: Enqueue_cases) (auto split: option.splits)
qed (simp add: BoundedQueue_Close_def)

lemma bq_produce_cursor: "bq_cursor (bq_produce marshal p q) = bq_cursor q"
proof (cases p)
  case (CallEnqueue e)
  obtain q' err where r: "BoundedQueue_Enqueue marshal q e = (q', err)" by fastforce
  then have p: "bq_produce marshal p q = q'" using CallEnqueue by simp
  from r show ?thesis unfolding p by (cases rule: Enqueue_cases) auto
qed (simp add: BoundedQueue_Close_def)

lemma bq_take_cases:
  "bq_take q = Some (f, q') \<longleftrightarrow> nextLocked q = (q', Some f)"
  "bq_take q = None \<longleftrightarrow> (\<exists>q'. nextLocked q = (q', None))"
  by (auto simp: bq_take_def split: prod.splits option.splits)

lemma bq_take_some:
  assumes "bq_ok q" and "nextLocked q = (q', Some f)"
  shows "\<exists>i. qf_class f = fairClassOrder ! ((bq_cursor q + i) mod length fairClassOrder) \<and>
      (\<forall>j<i. bq_backlog q (fairClassOrder ! ((bq_cursor q + j) mod length fairClassOrder)) = []) \<and>
      (\<forall>c. bq_backlog q c = (if qf_class f = c then [f] else []) @ bq_backlog q' c) \<and>
      bq_cursor q' = (bq_cursor q + i + 1) mod length fairClassOrder"
proof -
  obtain i c rest where c: "c = fairClassOrder ! ((bq_cursor q + i) mod 6)"
    and empty: "\<forall>j<i. bq_backlog q (fairClassOrder ! ((bq_cursor q + j) mod 6)) = []"
    and head: "bq_backlog q c = f # rest"
    and q': "q' = bq_remove (q\<lparr>bq_cursor := (bq_cursor q + i + 1) mod 6\<rparr>) c f rest"
    using next_loop_some [of 6 q q' f] assms(2) by (auto simp: nextLocked_def)
  have "f \<in> set (bq_backlog q c)" using head by simp
  then have "qf_class f = c" using assms(1) by (auto simp: bq_ok_def)
  moreover have "bq_backlog q' d = (if d = c then rest else bq_backlog q d)" for d
    by (simp add: q' bq_remove_def Let_def)
  moreover have "bq_cursor q' = (bq_cursor q + i + 1) mod 6"
    by (simp add: q' bq_remove_def Let_def)
  ultimately show ?thesis using c empty head by (intro exI [of _ i]) auto
qed

interpretation bq: cyclic_service fairClassOrder qf_class bq_ok bq_backlog bq_cursor
  "bq_accepted marshal" "bq_produce marshal" bq_take for marshal
proof (unfold_locales, goal_cases)
  case 1
  show ?case by (simp add: fairClassOrder_def)
next
  case (2 q p)
  then show ?case by (rule bq_produce_ok)
next
  case (3 q p c)
  show ?case by (rule bq_produce_backlog)
next
  case (4 q p)
  show ?case by (rule bq_produce_cursor)
next
  case (5 q f q')
  then show ?case using nextLocked_ok by (simp add: bq_take_cases)
next
  case (6 q c)
  then show ?case using nextLocked_none by (auto simp: bq_take_cases)
next
  case (7 q f q')
  then show ?case using bq_take_some [of q q' f] by (simp add: bq_take_cases)
qed

definition bq_ready :: "BoundedQueue \<Rightarrow> bool" where
  "bq_ready q \<longleftrightarrow> bq_closed q \<or> (\<exists>c\<in>set fairClassOrder. bq_backlog q c \<noteq> [])"

definition bq_poll :: "BoundedQueue \<Rightarrow> BoundedQueue" where
  "bq_poll q = fst (BoundedQueue_Dequeue q)"

definition bq_clear :: "BoundedQueue \<Rightarrow> BoundedQueue" where
  "bq_clear q = q\<lparr>bq_notify := False\<rparr>"

lemma bq_poll_unready: "\<not> bq_ready q \<Longrightarrow> \<not> bq_ready (bq_poll q)"
proof -
  assume un: "\<not> bq_ready q"
  obtain q' r where n: "nextLocked q = (q', r)" by fastforce
  have "r = None"
  proof (rule ccontr)
    assume "r \<noteq> None"
    then obtain f where "r = Some f" by blast
    with next_loop_some [of 6 q q' f] n obtain i rest
      where "bq_backlog q (fairClassOrder ! ((bq_cursor q + i) mod 6)) = f # rest"
      by (auto simp: nextLocked_def)
    moreover have "fairClassOrder ! ((bq_cursor q + i) mod 6) \<in> set fairClassOrder"
      by (rule nth_mem) simp
    ultimately show False using un by (auto simp: bq_ready_def)
  qed
  with n next_loop_none [of 6 q q'] have "bq_queues q' = bq_queues q" "bq_closed q' = bq_closed q"
    by (auto simp: nextLocked_def)
  with n \<open>r = None\<close> un show ?thesis
    by (simp add: bq_poll_def BoundedQueue_Dequeue_def bq_ready_def)
qed

interpretation bq_wait: notified "bq_produce marshal" bq_poll bq_ready bq_notify bq_clear for marshal
proof (unfold_locales, goal_cases)
  case (1 q p)
  show ?case
  proof (cases p)
    case (CallEnqueue e)
    obtain q' err where r: "BoundedQueue_Enqueue marshal q e = (q', err)" by fastforce
    then have p: "bq_produce marshal p q = q'" using CallEnqueue by simp
    from r show ?thesis using 1 unfolding p by (cases rule: Enqueue_cases) auto
  qed (simp add: BoundedQueue_Close_def)
next
  case (2 q p)
  show ?case
  proof (cases p)
    case (CallEnqueue e)
    obtain q' err where r: "BoundedQueue_Enqueue marshal q e = (q', err)" by fastforce
    then have p: "bq_produce marshal p q = q'" using CallEnqueue by simp
    from r show ?thesis using 2 unfolding p by (cases rule: Enqueue_cases) auto
  qed (simp add: BoundedQueue_Close_def)
next
  case (3 q)
  then show ?case by (rule bq_poll_unready)
qed

subsection \<open>Properties\<close>

lemma Enqueue_limits:
  "BoundedQueue_Enqueue marshal q e = (q', err) \<Longrightarrow>
     bq_maxFrames q' = bq_maxFrames q \<and> bq_maxBytes q' = bq_maxBytes q"
  by (erule Enqueue_cases) auto

lemma nextLocked_limits:
  "nextLocked q = (q', r) \<Longrightarrow> bq_maxFrames q' = bq_maxFrames q \<and> bq_maxBytes q' = bq_maxBytes q"
  using next_loop_none [of 6 q q'] next_loop_some [of 6 q q']
  by (cases r) (auto simp: nextLocked_def bq_remove_def Let_def)

lemma bq_run_limits:
  "bq_maxFrames (fst (qrun (bq_produce marshal) bq_take q ops)) = bq_maxFrames q \<and>
   bq_maxBytes (fst (qrun (bq_produce marshal) bq_take q ops)) = bq_maxBytes q"
proof (induction ops arbitrary: q)
  case (Cons x ops)
  show ?case
  proof (cases x)
    case (Put p)
    have "bq_maxFrames (bq_produce marshal p q) = bq_maxFrames q \<and>
        bq_maxBytes (bq_produce marshal p q) = bq_maxBytes q"
    proof (cases p)
      case (CallEnqueue e)
      with Enqueue_limits [of marshal q e] show ?thesis by (metis bq_produce.simps(1) prod.collapse)
    qed (simp add: BoundedQueue_Close_def)
    with Cons [of "bq_produce marshal p q"] Put show ?thesis by simp
  next
    case Take
    show ?thesis
    proof (cases "bq_take q")
      case None
      with Cons Take show ?thesis by simp
    next
      case (Some r)
      obtain f q' where r: "r = (f, q')" by fastforce
      with Some have "nextLocked q = (q', Some f)" by (simp add: bq_take_cases(1))
      from nextLocked_limits [OF this] Cons [of q'] show ?thesis
        using Take Some r by (simp add: split_beta)
    qed
  qed
qed simp

lemma bq_poll_ok: "bq_ok q \<Longrightarrow> bq_ok (bq_poll q)"
proof -
  assume ok: "bq_ok q"
  obtain q' r where n: "nextLocked q = (q', r)" by fastforce
  show "bq_ok (bq_poll q)"
  proof (cases r)
    case None
    with nextLocked_none [OF ok, of q'] n ok show ?thesis
      by (simp add: bq_poll_def BoundedQueue_Dequeue_def)
  next
    case (Some f)
    with nextLocked_ok [OF ok, of q'] n show ?thesis
      by (simp add: bq_poll_def BoundedQueue_Dequeue_def)
  qed
qed

lemma bq_system_ok:
  "bq_ok (wt_queue s) \<Longrightarrow>
     bq_ok (wt_queue (wrun (bq_produce marshal) bq_poll bq_ready bq_notify bq_clear s events))"
proof (induction events arbitrary: s)
  case (Cons e events)
  have "bq_ok (wt_queue (wstep (bq_produce marshal) bq_poll bq_ready bq_notify bq_clear s e))"
    using Cons.prems bq_produce_ok bq_poll_ok
    by (cases e) (auto simp: bq_clear_def bq_ok_def [of "bq_queues_update _ _"] bq_ok_def [of "_\<lparr>bq_notify := _\<rparr>"]
        bq_ok_def [of "wt_queue s"])
  with Cons.IH show ?case by simp
qed simp

text \<open>A dequeue finds nothing, or reports the queue closed, only when everything was delivered.\<close>

lemma Dequeue_empty:
  assumes "bq_ok q" and "BoundedQueue_Dequeue q = (q', r)" and "\<forall>b. r \<noteq> Dequeued b"
  shows "BoundedQueue_Usage q = (0, 0) \<and> q' = q \<and> r = (if bq_closed q then DequeueClosed else DequeueWait)"
proof -
  have none: "nextLocked q = (q', None)"
    and res: "r = (if bq_closed q' then DequeueClosed else DequeueWait)"
    using assms(2,3) by (auto simp: BoundedQueue_Dequeue_def split: prod.splits option.splits)
  from nextLocked_none [OF assms(1) none] res show ?thesis
    by (auto simp: BoundedQueue_Usage_def)
qed

text \<open>
  Accounting of the outbound queue: after any sequence of enqueue
  attempts, closes and dequeues the counters that guard admission are exactly
  the number of queued frames and the sum of their payload sizes, they stay
  within the limits the queue was made with, and every class leaves the queue
  in the order in which it was admitted, nothing lost and nothing invented.
\<close>

theorem bounded_queue_accounting:
  assumes "NewBoundedQueue maxBytes maxFrames = Some q"
    and "qrun (bq_produce marshal) bq_take q ops = (q', out)"
  shows "BoundedQueue_Usage q' =
      ((\<Sum>c\<leftarrow>queue_classes. int (length (bq_backlog q' c))),
       (\<Sum>c\<leftarrow>queue_classes. payload_sum (bq_backlog q' c))) \<and>
    fst (BoundedQueue_Usage q') \<le> maxFrames \<and> snd (BoundedQueue_Usage q') \<le> maxBytes \<and>
    (\<forall>c. filter (\<lambda>f. qf_class f = c) out @ bq_backlog q' c
      = filter (\<lambda>f. qf_class f = c) (qadmitted (bq_accepted marshal) (bq_produce marshal) bq_take q ops))"
proof -
  have ok: "bq_ok q" using assms(1) by (rule bq_new_ok)
  have new: "bq_backlog q c = []" "bq_maxFrames q = maxFrames" "bq_maxBytes q = maxBytes" for c
    using assms(1) by (auto simp: NewBoundedQueue_def split: if_splits)
  have "bq_ok q'" using bq.run_inv [OF ok, of marshal ops] assms(2) by simp
  moreover have "bq_maxFrames q' = maxFrames" "bq_maxBytes q' = maxBytes"
    using bq_run_limits [of marshal q ops] new assms(2) by simp_all
  moreover have "filter (\<lambda>f. qf_class f = c) out @ bq_backlog q' c
      = filter (\<lambda>f. qf_class f = c) (qadmitted (bq_accepted marshal) (bq_produce marshal) bq_take q ops)" for c
    using bq.fifo [OF ok, of c marshal ops] new assms(2) by simp
  ultimately show ?thesis by (simp add: BoundedQueue_Usage_def bq_ok_def)
qed

abbreviation test_envelope :: "envelope_frame \<Rightarrow> bytes \<Rightarrow> Envelope" where
  "test_envelope f b \<equiv> \<lparr>env_ProtocolVersion = 1, env_ConnectionEpoch = 7, env_Frame = f, env_content = b\<rparr>"

abbreviation test_queue :: BoundedQueue where
  "test_queue \<equiv> \<lparr>bq_queues = fmempty, bq_notify = False, bq_closed = False, bq_bytes = 0,
     bq_frames = 0, bq_maxBytes = 131072, bq_maxFrames = 3, bq_cursor = 0\<rparr>"

abbreviation test_marshal :: "Envelope \<Rightarrow> bytes option" where
  "test_marshal \<equiv> \<lambda>e. Some (env_content e)"

abbreviation test_ops :: "bq_call qop list" where
  "test_ops \<equiv> [Put (CallEnqueue (Some (test_envelope Envelope_FileChunk [1, 2]))),
     Put (CallEnqueue (Some (test_envelope Envelope_Ping [3]))), Take]"

lemma test_new: "NewBoundedQueue 131072 3 = Some test_queue"
  by (simp add: NewBoundedQueue_def frame_limits)

theorem bounded_queue_accounting_witness:
  "fst (BoundedQueue_Usage (fst (qrun (bq_produce test_marshal) bq_take test_queue test_ops))) \<le> 3"
proof -
  have run: "qrun (bq_produce test_marshal) bq_take test_queue test_ops
      = (fst (qrun (bq_produce test_marshal) bq_take test_queue test_ops),
         snd (qrun (bq_produce test_marshal) bq_take test_queue test_ops))"
    by (simp only: prod.collapse)
  show ?thesis
    by (rule bounded_queue_accounting [OF test_new run, THEN conjunct2, THEN conjunct1])
qed

text \<open>
  No class starves: whatever happened before and whatever is enqueued
  meanwhile, if a class has enough queued then \<open>6 * n\<close> dequeue attempts
  deliver at least \<open>n\<close> of its frames, and twice as many heartbeats, which
  have two turns in the schedule.
\<close>

theorem bounded_queue_fair_share:
  assumes "NewBoundedQueue maxBytes maxFrames = Some q0"
    and "q = fst (qrun (bq_produce marshal) bq_take q0 history)"
    and "c \<noteq> FrameClassUnknown"
    and "n * (if c = FrameClassHeartbeat then 2 else 1) \<le> length (bq_backlog q c)"
    and "6 * n \<le> takes ops"
  shows "n * (if c = FrameClassHeartbeat then 2 else 1)
    \<le> length (filter (\<lambda>f. qf_class f = c) (snd (qrun (bq_produce marshal) bq_take q ops)))"
proof -
  have "bq_ok q" using bq.run_inv bq_new_ok assms(1,2) by blast
  moreover have "count_list fairClassOrder c = (if c = FrameClassHeartbeat then 2 else 1)"
    using assms(3) by (cases c) (simp_all add: fairClassOrder_def)
  ultimately show ?thesis
    using bq.share [of q n ops c marshal] assms(4,5) by (simp add: mult.commute)
qed

theorem bounded_queue_fair_share_witness:
  "1 \<le> length (filter (\<lambda>f. qf_class f = FrameClassFilePayload)
     (snd (qrun (bq_produce test_marshal) bq_take
        (fst (qrun (bq_produce test_marshal) bq_take test_queue test_ops)) (replicate 6 Take))))"
proof -
  have queued: "1 * (if FrameClassFilePayload = FrameClassHeartbeat then 2 else 1)
      \<le> length (bq_backlog (fst (qrun (bq_produce test_marshal) bq_take test_queue test_ops)) FrameClassFilePayload)"
    by code_simp
  have "6 * 1 \<le> takes (replicate 6 (Take :: bq_call qop))"
    by (simp add: takes_def)
  from bounded_queue_fair_share [OF test_new refl _ queued this] show ?thesis by simp
qed

text \<open>
  A consumer never sleeps over work: in every interleaving of enqueues
  and closes with the single writer goroutine, when that goroutine waits while
  something is queued or the queue is closed, the notification is pending and
  its wake-up frees it. And a dequeue finds nothing, or reports the queue
  closed, only when every admitted frame has been delivered.
\<close>

theorem bounded_queue_no_lost_wakeup:
  assumes "NewBoundedQueue maxBytes maxFrames = Some q0"
    and "s = wrun (bq_produce marshal) bq_poll bq_ready bq_notify bq_clear
      \<lparr>wt_queue = q0, wt_waiting = False\<rparr> events"
  shows "(wt_waiting s \<and> bq_ready (wt_queue s) \<longrightarrow> bq_notify (wt_queue s) \<and>
      \<not> wt_waiting (wstep (bq_produce marshal) bq_poll bq_ready bq_notify bq_clear s Wake)) \<and>
    (\<forall>q' r. BoundedQueue_Dequeue (wt_queue s) = (q', r) \<and> (\<forall>b. r \<noteq> Dequeued b) \<longrightarrow>
      BoundedQueue_Usage (wt_queue s) = (0, 0) \<and> q' = wt_queue s \<and>
      r = (if bq_closed (wt_queue s) then DequeueClosed else DequeueWait))"
proof -
  have "bq_wait.awake \<lparr>wt_queue = q0, wt_waiting = False\<rparr>"
    by (simp add: bq_wait.awake_def)
  then have "bq_wait.awake s"
    unfolding assms(2) by (rule bq_wait.no_lost_wakeup)
  moreover have "bq_ok (wt_queue s)"
    unfolding assms(2) by (rule bq_system_ok) (simp add: bq_new_ok [OF assms(1)])
  ultimately show ?thesis using Dequeue_empty by (simp add: bq_wait.awake_def)
qed

theorem bounded_queue_no_lost_wakeup_witness:
  "\<not> wt_waiting (wstep (bq_produce test_marshal) bq_poll bq_ready bq_notify bq_clear
     (wrun (bq_produce test_marshal) bq_poll bq_ready bq_notify bq_clear
        \<lparr>wt_queue = test_queue, wt_waiting = False\<rparr> [Poll, Produce CallClose]) Wake)"
proof -
  have "wt_waiting (wrun (bq_produce test_marshal) bq_poll bq_ready bq_notify bq_clear
        \<lparr>wt_queue = test_queue, wt_waiting = False\<rparr> [Poll, Produce CallClose])"
    by code_simp
  moreover have "bq_ready (wt_queue (wrun (bq_produce test_marshal) bq_poll bq_ready bq_notify bq_clear
        \<lparr>wt_queue = test_queue, wt_waiting = False\<rparr> [Poll, Produce CallClose]))"
    by code_simp
  ultimately show ?thesis
    using bounded_queue_no_lost_wakeup [OF test_new refl, of test_marshal "[Poll, Produce CallClose]"]
    by blast
qed

end
