(* ===== verification/Peer_Crypto.thy ===== *)
theory Peer_Crypto
  imports Relay_Prelude
begin

text \<open>
  The canonical encodings, key derivation and record protection of remote/v2,
  \<open>server/internal/peerprotocol/v2/crypto.go\<close>. The cryptographic primitives
  (SHA-256, HMAC, HKDF, Ed25519, X25519, XChaCha20-Poly1305) are a parameter,
  the record \<open>primitives\<close>; what is relied on about them is stated as named
  hypotheses below.
\<close>

subsection \<open>Primitives\<close>

record primitives =
  sha256 :: "bytes \<Rightarrow> bytes"
  hmac_sha256 :: "bytes \<Rightarrow> bytes \<Rightarrow> bytes"
  hkdf_sha256 :: "bytes \<Rightarrow> bytes \<Rightarrow> bytes \<Rightarrow> nat \<Rightarrow> bytes option"
  ed25519_public :: "bytes \<Rightarrow> bytes"
  ed25519_sign :: "bytes \<Rightarrow> bytes \<Rightarrow> bytes"
  ed25519_verify :: "bytes \<Rightarrow> bytes \<Rightarrow> bytes \<Rightarrow> bool"
  x25519_public :: "bytes \<Rightarrow> bytes"
  x25519 :: "bytes \<Rightarrow> bytes \<Rightarrow> bytes option"
  aead_seal :: "bytes \<Rightarrow> bytes \<Rightarrow> bytes \<Rightarrow> bytes \<Rightarrow> bytes"
  aead_open :: "bytes \<Rightarrow> bytes \<Rightarrow> bytes \<Rightarrow> bytes \<Rightarrow> bytes option"

text \<open>
  What the documentation of the primitives promises: output sizes, that a
  signature made with a private key verifies under its public key, that both
  sides of a key agreement compute the same secret, and that opening inverts
  sealing and succeeds on nothing else (the ciphertext is determined by key,
  nonce, plaintext and associated data).
\<close>

definition digest_sizes :: "primitives \<Rightarrow> bool" where
  "digest_sizes P \<longleftrightarrow> (\<forall>m. length (sha256 P m) = 32) \<and> (\<forall>k m. length (hmac_sha256 P k m) = 32) \<and>
     (\<forall>s salt i n r. hkdf_sha256 P s salt i n = Some r \<longrightarrow> length r = n)"

definition signatures_verify :: "primitives \<Rightarrow> bool" where
  "signatures_verify P \<longleftrightarrow>
     (\<forall>k m. length (ed25519_sign P k m) = 64 \<and> length (ed25519_public P k) = 32 \<and>
        ed25519_verify P (ed25519_public P k) m (ed25519_sign P k m))"

definition agreement_symmetric :: "primitives \<Rightarrow> bool" where
  "agreement_symmetric P \<longleftrightarrow>
     (\<forall>a b. x25519 P a (x25519_public P b) = x25519 P b (x25519_public P a) \<and>
        length (x25519_public P a) = 32)"

definition aead_inverse :: "primitives \<Rightarrow> bool" where
  "aead_inverse P \<longleftrightarrow> (\<forall>k n p c a. aead_open P k n c a = Some p \<longleftrightarrow> c = aead_seal P k n p a) \<and>
     (\<forall>k n p a. length (aead_seal P k n p a) = length p + 16)"

subsection \<open>Constants and types\<close>

definition ProtocolMajor :: u64 where "ProtocolMajor = 2"
definition RootKeySize :: nat where "RootKeySize = 32"
definition X25519PublicKeySize :: nat where "X25519PublicKeySize = 32"
definition Ed25519SignatureSize :: nat where "Ed25519SignatureSize = 64"
definition MaximumPlaintextBytes :: nat where "MaximumPlaintextBytes = 2 ^ 20"

text \<open>Sizes fixed by the imported packages: Ed25519 keys, the cipher's overhead.\<close>

definition Ed25519PrivateKeySize :: nat where "Ed25519PrivateKeySize = 64"
definition Ed25519PublicKeySize :: nat where "Ed25519PublicKeySize = 32"
definition AEADOverhead :: nat where "AEADOverhead = 16"

lemmas size_defs = RootKeySize_def X25519PublicKeySize_def Ed25519SignatureSize_def
  MaximumPlaintextBytes_def Ed25519PrivateKeySize_def Ed25519PublicKeySize_def AEADOverhead_def

datatype crypto_error =
    ErrInvalidHandshake
  | ErrInvalidMetadata
  | ErrAuthentication
  | ErrDeriveKey

type_synonym Direction = "8 word"
type_synonym FrameType = "8 word"

definition DirectionClientToDevice :: Direction where "DirectionClientToDevice = 1"
definition DirectionDeviceToClient :: Direction where "DirectionDeviceToClient = 2"
definition FrameChannelOpen :: FrameType where "FrameChannelOpen = 1"
definition FrameLinkLeaseRenewed :: FrameType where "FrameLinkLeaseRenewed = 25"

record HandshakeBinding =
  hb_GrantID :: string
  hb_LinkID :: string
  hb_ClientID :: string
  hb_DeviceID :: string
  hb_RelayNodeID :: string
  hb_RelayCellID :: string
  hb_TargetConnectionEpoch :: u64
  hb_ClientIdentityVersion :: u64
  hb_DeviceIdentityVersion :: u64
  hb_ClientEphemeralPublic :: bytes
  hb_DeviceEphemeralPublic :: bytes
  hb_ClientChallenge :: bytes
  hb_DeviceChallenge :: bytes
  hb_ExpiresAtUnixMilli :: u64

record RecordMetadata =
  rm_LinkID :: string
  rm_ChannelID :: string
  rm_StreamID :: string
  rm_KeyID :: u64
  rm_Direction :: Direction
  rm_FrameType :: FrameType
  rm_StreamSequence :: u64

subsection \<open>Validation and canonical encodings\<close>

definition validField :: "string \<Rightarrow> bool" where
  "validField value \<longleftrightarrow>
     value = TrimSpace value \<and> value \<noteq> '''' \<and> length value \<le> 256 \<and> \<not> ContainsNUL value"

definition validDirection :: "Direction \<Rightarrow> bool" where
  "validDirection direction \<longleftrightarrow>
     direction = DirectionClientToDevice \<or> direction = DirectionDeviceToClient"

definition validHandshakeBinding :: "HandshakeBinding \<Rightarrow> bool \<Rightarrow> bool" where
  "validHandshakeBinding binding complete \<longleftrightarrow>
     (if \<not> validField (hb_GrantID binding) \<or> \<not> validField (hb_LinkID binding) \<or>
         \<not> validField (hb_ClientID binding) \<or> \<not> validField (hb_DeviceID binding) \<or>
         hb_ClientID binding = hb_DeviceID binding \<or> \<not> validField (hb_RelayNodeID binding) \<or>
         \<not> validField (hb_RelayCellID binding) \<or> hb_TargetConnectionEpoch binding = 0 \<or>
         hb_ClientIdentityVersion binding = 0 \<or> sint (hb_ExpiresAtUnixMilli binding) \<le> 0 \<or>
         length (hb_ClientEphemeralPublic binding) \<noteq> X25519PublicKeySize \<or>
         length (hb_ClientChallenge binding) \<noteq> 32
      then False
      else if \<not> complete
      then length (hb_DeviceEphemeralPublic binding) = 0 \<and> length (hb_DeviceChallenge binding) = 0 \<and>
        hb_DeviceIdentityVersion binding = 0
      else hb_DeviceIdentityVersion binding > 0 \<and>
        length (hb_DeviceEphemeralPublic binding) = X25519PublicKeySize \<and>
        length (hb_DeviceChallenge binding) = 32)"

definition validRecordMetadata :: "RecordMetadata \<Rightarrow> bool" where
  "validRecordMetadata metadata \<longleftrightarrow>
     validField (rm_LinkID metadata) \<and> validField (rm_ChannelID metadata) \<and>
     validField (rm_StreamID metadata) \<and> rm_KeyID metadata > 0 \<and> rm_StreamSequence metadata > 0 \<and>
     validDirection (rm_Direction metadata) \<and> rm_FrameType metadata \<ge> FrameChannelOpen \<and>
     rm_FrameType metadata \<le> FrameLinkLeaseRenewed"

text \<open>\<open>binary.BigEndian\<close>: the bytes of a word of \<open>n\<close> bytes, the most significant first.\<close>

definition big_endian :: "nat \<Rightarrow> 'a::len word \<Rightarrow> bytes" where
  "big_endian n x = map (\<lambda>i. ucast (drop_bit (8 * i) x)) (rev [0..<n])"

definition boolByte :: "bool \<Rightarrow> 8 word" where
  "boolByte value = (if value then 1 else 0)"

definition appendBytes :: "bytes \<Rightarrow> bytes \<Rightarrow> bytes" where
  "appendBytes destination value =
     destination @ big_endian 4 (word_of_nat (length value) :: u32) @ value"

fun appendFields :: "bytes \<Rightarrow> string list \<Rightarrow> bytes" where
  "appendFields destination [] = destination"
| "appendFields destination (value # values) =
     appendFields (appendBytes destination (go_bytes value)) values"

definition digit_char :: "nat \<Rightarrow> char" where
  "digit_char n = ''0123456789'' ! n"

fun decimal :: "nat \<Rightarrow> string" where
  "decimal n = (if n < 10 then [digit_char n] else decimal (n div 10) @ [digit_char (n mod 10)])"

declare decimal.simps [simp del]

definition uint64Text :: "u64 \<Rightarrow> string" where
  "uint64Text value = decimal (unat value)"

definition canonicalHandshake :: "HandshakeBinding \<Rightarrow> bool \<Rightarrow> bytes" where
  "canonicalHandshake binding complete =
     (let encoded = appendFields []
        [''wenzwork-remote-v2/handshake'', uint64Text ProtocolMajor, hb_GrantID binding,
         hb_LinkID binding, hb_ClientID binding, hb_DeviceID binding, hb_RelayNodeID binding,
         hb_RelayCellID binding, uint64Text (hb_TargetConnectionEpoch binding),
         uint64Text (hb_ClientIdentityVersion binding), uint64Text (hb_DeviceIdentityVersion binding)];
        encoded = appendBytes encoded (hb_ClientEphemeralPublic binding);
        encoded = appendBytes encoded (hb_DeviceEphemeralPublic binding);
        encoded = appendBytes encoded (hb_ClientChallenge binding);
        encoded = appendBytes encoded (hb_DeviceChallenge binding);
        encoded = encoded @ big_endian 8 (hb_ExpiresAtUnixMilli binding);
        encoded = appendBytes encoded [boolByte complete]
      in encoded)"

definition canonicalRecordMetadata :: "RecordMetadata \<Rightarrow> bytes" where
  "canonicalRecordMetadata metadata =
     appendFields []
       [''wenzwork-remote-v2/record'', rm_LinkID metadata, rm_ChannelID metadata, rm_StreamID metadata,
        uint64Text (rm_KeyID metadata), uint64Text (ucast (rm_Direction metadata)),
        uint64Text (ucast (rm_FrameType metadata))]
     @ big_endian 8 (rm_StreamSequence metadata)"

definition CanonicalInitTranscript :: "HandshakeBinding \<Rightarrow> crypto_error + bytes" where
  "CanonicalInitTranscript binding =
     (if \<not> validHandshakeBinding binding False then Inl ErrInvalidHandshake
      else Inr (canonicalHandshake binding False))"

definition CanonicalHandshakeTranscript :: "HandshakeBinding \<Rightarrow> crypto_error + bytes" where
  "CanonicalHandshakeTranscript binding =
     (if \<not> validHandshakeBinding binding True then Inl ErrInvalidHandshake
      else Inr (canonicalHandshake binding True))"

subsection \<open>Handshake signatures and the root key\<close>

definition SignLinkInit :: "primitives \<Rightarrow> bytes \<Rightarrow> HandshakeBinding \<Rightarrow> crypto_error + bytes" where
  "SignLinkInit P privateKey binding =
     (if length privateKey \<noteq> Ed25519PrivateKeySize then Inl ErrInvalidHandshake
      else case CanonicalInitTranscript binding of
          Inl err \<Rightarrow> Inl err
        | Inr transcript \<Rightarrow> Inr (ed25519_sign P privateKey transcript))"

definition VerifyLinkInit ::
  "primitives \<Rightarrow> bytes \<Rightarrow> HandshakeBinding \<Rightarrow> bytes \<Rightarrow> crypto_error option" where
  "VerifyLinkInit P publicKey binding signature =
     (if length publicKey \<noteq> Ed25519PublicKeySize \<or> length signature \<noteq> Ed25519SignatureSize
      then Some ErrInvalidHandshake
      else case CanonicalInitTranscript binding of
          Inl err \<Rightarrow> Some ErrInvalidHandshake
        | Inr transcript \<Rightarrow>
            if \<not> ed25519_verify P publicKey transcript signature then Some ErrInvalidHandshake else None)"

definition SignLinkAccept :: "primitives \<Rightarrow> bytes \<Rightarrow> HandshakeBinding \<Rightarrow> crypto_error + bytes" where
  "SignLinkAccept P privateKey binding =
     (if length privateKey \<noteq> Ed25519PrivateKeySize then Inl ErrInvalidHandshake
      else case CanonicalHandshakeTranscript binding of
          Inl err \<Rightarrow> Inl err
        | Inr transcript \<Rightarrow> Inr (ed25519_sign P privateKey transcript))"

definition VerifyLinkAccept ::
  "primitives \<Rightarrow> bytes \<Rightarrow> HandshakeBinding \<Rightarrow> bytes \<Rightarrow> crypto_error option" where
  "VerifyLinkAccept P publicKey binding signature =
     (if length publicKey \<noteq> Ed25519PublicKeySize \<or> length signature \<noteq> Ed25519SignatureSize
      then Some ErrInvalidHandshake
      else case CanonicalHandshakeTranscript binding of
          Inl err \<Rightarrow> Some ErrInvalidHandshake
        | Inr transcript \<Rightarrow>
            if \<not> ed25519_verify P publicKey transcript signature then Some ErrInvalidHandshake else None)"

definition TranscriptHash :: "primitives \<Rightarrow> HandshakeBinding \<Rightarrow> crypto_error + bytes" where
  "TranscriptHash P binding =
     (case CanonicalHandshakeTranscript binding of
        Inl err \<Rightarrow> Inl err
      | Inr transcript \<Rightarrow> Inr (sha256 P transcript))"

definition hkdfBytes ::
  "primitives \<Rightarrow> bytes \<Rightarrow> bytes \<Rightarrow> bytes \<Rightarrow> nat \<Rightarrow> crypto_error + bytes" where
  "hkdfBytes P secret salt info outputSize =
     (if length secret = 0 \<or> outputSize \<le> 0 \<or> outputSize > 4096 then Inl ErrInvalidHandshake
      else case hkdf_sha256 P secret salt info outputSize of
          None \<Rightarrow> Inl ErrDeriveKey
        | Some result \<Rightarrow> Inr result)"

definition root_info :: "HandshakeBinding \<Rightarrow> bytes" where
  "root_info binding = appendFields [] [''wenzwork-remote-v2/root'', hb_LinkID binding, ''1'']"

definition DeriveRootKey :: "primitives \<Rightarrow> bytes \<Rightarrow> HandshakeBinding \<Rightarrow> crypto_error + bytes" where
  "DeriveRootKey P sharedSecret binding =
     (if length sharedSecret \<noteq> X25519PublicKeySize then Inl ErrInvalidHandshake
      else case CanonicalHandshakeTranscript binding of
          Inl err \<Rightarrow> Inl err
        | Inr transcript \<Rightarrow>
            hkdfBytes P sharedSecret (sha256 P transcript) (root_info binding) RootKeySize)"

definition LinkConfirmationMAC :: "primitives \<Rightarrow> bytes \<Rightarrow> HandshakeBinding \<Rightarrow> crypto_error + bytes" where
  "LinkConfirmationMAC P rootKey binding =
     (if length rootKey \<noteq> RootKeySize then Inl ErrInvalidHandshake
      else case CanonicalHandshakeTranscript binding of
          Inl err \<Rightarrow> Inl err
        | Inr transcript \<Rightarrow>
            Inr (hmac_sha256 P rootKey
              (go_bytes ''wenzwork-remote-v2/link-confirm'' @ sha256 P transcript)))"

definition VerifyLinkConfirmationMAC ::
  "primitives \<Rightarrow> bytes \<Rightarrow> HandshakeBinding \<Rightarrow> bytes \<Rightarrow> crypto_error option" where
  "VerifyLinkConfirmationMAC P rootKey binding value =
     (case LinkConfirmationMAC P rootKey binding of
        Inl err \<Rightarrow> Some ErrAuthentication
      | Inr expected \<Rightarrow>
          if length value \<noteq> length expected \<or> expected \<noteq> value then Some ErrAuthentication else None)"

subsection \<open>Derived keys\<close>

definition key_info ::
  "string \<Rightarrow> string \<Rightarrow> u64 \<Rightarrow> Direction \<Rightarrow> string \<Rightarrow> string \<Rightarrow> bytes" where
  "key_info layer linkID keyID direction channelID streamID =
     appendFields [] [''wenzwork-remote-v2/key'', layer, linkID, uint64Text keyID,
       uint64Text (ucast direction), channelID, streamID]"

definition deriveKey ::
  "primitives \<Rightarrow> bytes \<Rightarrow> string \<Rightarrow> u64 \<Rightarrow> Direction \<Rightarrow> string \<Rightarrow> string \<Rightarrow> string \<Rightarrow> crypto_error + bytes" where
  "deriveKey P rootKey linkID keyID direction layer channelID streamID =
     (if length rootKey \<noteq> RootKeySize \<or> \<not> validField linkID \<or> keyID = 0 \<or> \<not> validDirection direction \<or>
         (layer \<noteq> ''control'' \<and> layer \<noteq> ''channel'' \<and> layer \<noteq> ''stream'') \<or>
         (layer = ''channel'' \<and> \<not> validField channelID) \<or>
         (layer = ''stream'' \<and> (\<not> validField channelID \<or> \<not> validField streamID))
      then Inl ErrInvalidHandshake
      else hkdfBytes P rootKey [] (key_info layer linkID keyID direction channelID streamID) RootKeySize)"

definition DeriveControlKey ::
  "primitives \<Rightarrow> bytes \<Rightarrow> string \<Rightarrow> u64 \<Rightarrow> Direction \<Rightarrow> crypto_error + bytes" where
  "DeriveControlKey P rootKey linkID keyID direction =
     deriveKey P rootKey linkID keyID direction ''control'' '''' ''''"

definition DeriveChannelKey ::
  "primitives \<Rightarrow> bytes \<Rightarrow> string \<Rightarrow> u64 \<Rightarrow> Direction \<Rightarrow> string \<Rightarrow> crypto_error + bytes" where
  "DeriveChannelKey P rootKey linkID keyID direction channelID =
     deriveKey P rootKey linkID keyID direction ''channel'' channelID ''''"

definition DeriveStreamKey ::
  "primitives \<Rightarrow> bytes \<Rightarrow> string \<Rightarrow> u64 \<Rightarrow> Direction \<Rightarrow> string \<Rightarrow> string \<Rightarrow> crypto_error + bytes" where
  "DeriveStreamKey P rootKey linkID keyID direction channelID streamID =
     deriveKey P rootKey linkID keyID direction ''stream'' channelID streamID"

subsection \<open>Records\<close>

definition AssociatedData :: "RecordMetadata \<Rightarrow> crypto_error + bytes" where
  "AssociatedData metadata =
     (if \<not> validRecordMetadata metadata then Inl ErrInvalidMetadata
      else Inr (canonicalRecordMetadata metadata))"

definition Nonce :: "primitives \<Rightarrow> bytes \<Rightarrow> RecordMetadata \<Rightarrow> crypto_error + bytes" where
  "Nonce P streamKey metadata =
     (if length streamKey \<noteq> RootKeySize \<or> \<not> validRecordMetadata metadata then Inl ErrInvalidMetadata
      else case hkdfBytes P streamKey [] (go_bytes ''wenzwork-remote-v2/nonce-key'') 32 of
          Inl err \<Rightarrow> Inl err
        | Inr nonceKey \<Rightarrow>
            (let withoutSequence = metadata\<lparr>rm_StreamSequence := 0\<rparr>;
                 digest = hmac_sha256 P nonceKey (canonicalRecordMetadata withoutSequence)
             in Inr (take 16 digest @ big_endian 8 (rm_StreamSequence metadata))))"

definition recordInputs ::
  "primitives \<Rightarrow> bytes \<Rightarrow> RecordMetadata \<Rightarrow> crypto_error + bytes \<times> bytes" where
  "recordInputs P streamKey metadata =
     (if length streamKey \<noteq> RootKeySize \<or> \<not> validRecordMetadata metadata then Inl ErrInvalidMetadata
      else case Nonce P streamKey metadata of
          Inl err \<Rightarrow> Inl err
        | Inr nonce \<Rightarrow> Inr (nonce, canonicalRecordMetadata metadata))"

definition Seal :: "primitives \<Rightarrow> bytes \<Rightarrow> bytes \<Rightarrow> RecordMetadata \<Rightarrow> crypto_error + bytes" where
  "Seal P streamKey plaintext metadata =
     (if length plaintext = 0 \<or> length plaintext > MaximumPlaintextBytes then Inl ErrInvalidMetadata
      else case recordInputs P streamKey metadata of
          Inl err \<Rightarrow> Inl err
        | Inr (nonce, aad) \<Rightarrow> Inr (aead_seal P streamKey nonce plaintext aad))"

definition Open :: "primitives \<Rightarrow> bytes \<Rightarrow> bytes \<Rightarrow> RecordMetadata \<Rightarrow> crypto_error + bytes" where
  "Open P streamKey ciphertext metadata =
     (if length ciphertext \<le> AEADOverhead \<or> length ciphertext > MaximumPlaintextBytes + AEADOverhead
      then Inl ErrInvalidMetadata
      else case recordInputs P streamKey metadata of
          Inl err \<Rightarrow> Inl err
        | Inr (nonce, aad) \<Rightarrow>
            (case aead_open P streamKey nonce ciphertext aad of
               None \<Rightarrow> Inl ErrAuthentication
             | Some plaintext \<Rightarrow>
                 if length plaintext = 0 \<or> length plaintext > MaximumPlaintextBytes
                 then Inl ErrAuthentication else Inr plaintext))"

subsection \<open>The encodings are injective\<close>

lemma big_endian_length [simp]: "length (big_endian n x) = n"
  by (simp add: big_endian_def)

lemma big_endian_inj:
  fixes x y :: "'a::len word"
  assumes "big_endian n x = big_endian n y" and "LENGTH('a) \<le> 8 * n"
  shows "x = y"
proof (rule bit_word_eqI)
  fix k assume k: "k < LENGTH('a)"
  then have "k div 8 < n" using assms(2) by auto
  moreover have "\<forall>i\<in>set (rev [0..<n]). (ucast (drop_bit (8 * i) x) :: 8 word) = ucast (drop_bit (8 * i) y)"
    using assms(1) unfolding big_endian_def map_eq_conv .
  ultimately have "bit (ucast (drop_bit (8 * (k div 8)) x) :: 8 word) (k mod 8)
      = bit (ucast (drop_bit (8 * (k div 8)) y) :: 8 word) (k mod 8)" by simp
  then show "bit x k = bit y k" by (simp add: bit_unsigned_iff bit_drop_bit_eq)
qed

lemma digit_char_inj: "m < 10 \<Longrightarrow> n < 10 \<Longrightarrow> digit_char m = digit_char n \<Longrightarrow> m = n"
  using nth_eq_iff_index_eq [of "''0123456789''" m n] by (simp add: digit_char_def)

lemma decimal_digit: "last (decimal n) = digit_char (n mod 10)"
  by (subst decimal.simps) simp

lemma decimal_nonempty [simp]: "decimal n \<noteq> []" "[] \<noteq> decimal n"
  by (subst decimal.simps, simp)+

lemma decimal_inj: "decimal m = decimal n \<Longrightarrow> m = n"
proof (induction m arbitrary: n rule: less_induct)
  case (less m)
  have digit: "m mod 10 = n mod 10"
    using decimal_digit [of m] decimal_digit [of n] less.prems digit_char_inj [of "m mod 10" "n mod 10"]
    by simp
  have butlast: "butlast (decimal k) = (if k < 10 then [] else decimal (k div 10))" for k
    by (subst decimal.simps) simp
  have shorter: "(if m < 10 then [] else decimal (m div 10)) = (if n < 10 then [] else decimal (n div 10))"
    using less.prems butlast by metis
  then show ?case
  proof (cases "m < 10")
    case True
    with digit shorter show ?thesis by (auto split: if_splits)
  next
    case False
    with shorter have "decimal (m div 10) = decimal (n div 10)"
      by (auto split: if_splits)
    then have "m div 10 = n div 10" using less.IH False by simp
    with digit show ?thesis by (metis div_mult_mod_eq)
  qed
qed

lemma uint64Text_inj [simp]: "uint64Text x = uint64Text y \<longleftrightarrow> x = y"
  unfolding uint64Text_def using decimal_inj unsigned_word_eqI by blast

lemma decimal_length: "n < 10 ^ d \<Longrightarrow> 0 < d \<Longrightarrow> length (decimal n) \<le> d"
proof (induction d arbitrary: n)
  case (Suc d)
  show ?case
  proof (cases "n < 10")
    case True
    then show ?thesis by (subst decimal.simps) simp
  next
    case False
    then have "n div 10 < 10 ^ d" and "0 < d" using Suc.prems by (auto intro: gr0I)
    with Suc.IH [of "n div 10"] False show ?thesis by (subst decimal.simps) simp
  qed
qed simp

lemma uint64Text_length: "length (uint64Text x) \<le> 20"
  unfolding uint64Text_def by (rule decimal_length) (use unat_lt_64 [of x] in simp_all)

text \<open>A length-prefixed field can be read back, so a sequence of them is injective.\<close>

definition frame_bytes :: "bytes \<Rightarrow> bytes" where
  "frame_bytes v = appendBytes [] v"

abbreviation short :: "'a list \<Rightarrow> bool" where
  "short v \<equiv> length v < 2 ^ 32"

lemma unat_of_nat_32: "n < 2 ^ 32 \<Longrightarrow> unat (word_of_nat n :: u32) = n"
  by (simp add: unsigned_of_nat take_bit_nat_eq_self)

lemma frame_bytes_inj:
  assumes "frame_bytes a @ r = frame_bytes b @ s" and "short a" and "short b"
  shows "a = b \<and> r = s"
proof -
  have "big_endian 4 (word_of_nat (length a) :: u32) = big_endian 4 (word_of_nat (length b) :: u32)"
    and rest: "a @ r = b @ s"
    using assms(1) by (simp_all add: frame_bytes_def appendBytes_def)
  then have "(word_of_nat (length a) :: u32) = word_of_nat (length b)"
    by (intro big_endian_inj [of 4]) simp_all
  then have "length a = length b"
    using assms(2,3) unat_of_nat_32 by metis
  with rest show ?thesis by simp
qed

lemma appendBytes_frame: "appendBytes d v = d @ frame_bytes v"
  by (simp add: frame_bytes_def appendBytes_def)

lemma appendFields_frames: "appendFields d vs = d @ concat (map (frame_bytes \<circ> go_bytes) vs)"
  by (induction vs arbitrary: d) (simp_all add: appendBytes_frame)

lemma fields_cons:
  assumes "concat (map (frame_bytes \<circ> go_bytes) (v # vs)) @ r
      = concat (map (frame_bytes \<circ> go_bytes) (w # ws)) @ s" and "short v" and "short w"
  shows "v = w \<and> concat (map (frame_bytes \<circ> go_bytes) vs) @ r = concat (map (frame_bytes \<circ> go_bytes) ws) @ s"
  using frame_bytes_inj [of "go_bytes v" "concat (map (frame_bytes \<circ> go_bytes) vs) @ r" "go_bytes w"
      "concat (map (frame_bytes \<circ> go_bytes) ws) @ s"] assms by simp

lemma fields_inj:
  assumes "concat (map (frame_bytes \<circ> go_bytes) vs) @ r = concat (map (frame_bytes \<circ> go_bytes) ws) @ s"
    and "length vs = length ws" and "\<forall>v\<in>set vs. short v" and "\<forall>w\<in>set ws. short w"
  shows "vs = ws \<and> r = s"
  using assms(2,1,3,4)
proof (induction vs ws rule: list_induct2)
  case (Cons v vs w ws)
  from fields_cons [OF Cons.prems(1)] Cons.prems Cons.IH show ?case by simp
qed simp

lemma validField_short: "validField v \<Longrightarrow> short v"
  by (simp add: validField_def)

lemma uint64Text_short: "short (uint64Text x)"
  using uint64Text_length [of x] by simp

text \<open>The transcript of a handshake: its fields, four byte strings, the expiry and the phase.\<close>

definition handshake_fields :: "HandshakeBinding \<Rightarrow> string list" where
  "handshake_fields b =
     [''wenzwork-remote-v2/handshake'', uint64Text ProtocolMajor, hb_GrantID b, hb_LinkID b,
      hb_ClientID b, hb_DeviceID b, hb_RelayNodeID b, hb_RelayCellID b,
      uint64Text (hb_TargetConnectionEpoch b), uint64Text (hb_ClientIdentityVersion b),
      uint64Text (hb_DeviceIdentityVersion b)]"

definition handshake_strings :: "HandshakeBinding \<Rightarrow> bytes list" where
  "handshake_strings b = [hb_ClientEphemeralPublic b, hb_DeviceEphemeralPublic b,
     hb_ClientChallenge b, hb_DeviceChallenge b]"

lemma canonicalHandshake_eq:
  "canonicalHandshake b c = concat (map (frame_bytes \<circ> go_bytes) (handshake_fields b)) @
     concat (map frame_bytes (handshake_strings b)) @ big_endian 8 (hb_ExpiresAtUnixMilli b) @
     frame_bytes [boolByte c]"
  by (simp add: canonicalHandshake_def handshake_fields_def handshake_strings_def
      appendFields_frames appendBytes_frame Let_def)

lemma frames_inj:
  assumes "concat (map frame_bytes vs) @ r = concat (map frame_bytes ws) @ s"
    and "length vs = length ws" and "\<forall>v\<in>set vs. short v" and "\<forall>w\<in>set ws. short w"
  shows "vs = ws \<and> r = s"
  using assms(2,1,3,4)
proof (induction vs ws rule: list_induct2)
  case (Cons v vs w ws)
  have "v = w \<and> concat (map frame_bytes vs) @ r = concat (map frame_bytes ws) @ s"
    using Cons.prems frame_bytes_inj [of v _ w] by simp
  with Cons show ?case by simp
qed simp

lemma valid_handshake_short:
  assumes "validHandshakeBinding b c"
  shows "\<forall>v\<in>set (handshake_fields b). short v" and "\<forall>v\<in>set (handshake_strings b). short v"
  using assms uint64Text_short
  by (auto simp: validHandshakeBinding_def handshake_fields_def handshake_strings_def size_defs
      intro: validField_short [simplified] split: if_splits)

lemma canonicalHandshake_inj:
  assumes "validHandshakeBinding b c" and "validHandshakeBinding b' c'"
    and "canonicalHandshake b c = canonicalHandshake b' c'"
  shows "b = b' \<and> c = c'"
proof -
  have "length (handshake_fields b) = length (handshake_fields b')"
    and "length (handshake_strings b) = length (handshake_strings b')"
    by (simp_all add: handshake_fields_def handshake_strings_def)
  note len = this
  from assms(3) have f: "handshake_fields b = handshake_fields b'"
    and r1: "concat (map frame_bytes (handshake_strings b)) @ big_endian 8 (hb_ExpiresAtUnixMilli b) @
      frame_bytes [boolByte c] = concat (map frame_bytes (handshake_strings b')) @
      big_endian 8 (hb_ExpiresAtUnixMilli b') @ frame_bytes [boolByte c']"
    unfolding canonicalHandshake_eq
    using fields_inj [OF _ len(1) valid_handshake_short(1) [OF assms(1)] valid_handshake_short(1) [OF assms(2)]]
    by blast+
  from r1 have g: "handshake_strings b = handshake_strings b'"
    and r2: "big_endian 8 (hb_ExpiresAtUnixMilli b) @ frame_bytes [boolByte c]
      = big_endian 8 (hb_ExpiresAtUnixMilli b') @ frame_bytes [boolByte c']"
    using frames_inj [OF _ len(2) valid_handshake_short(2) [OF assms(1)] valid_handshake_short(2) [OF assms(2)]]
    by blast+
  from r2 have e: "hb_ExpiresAtUnixMilli b = hb_ExpiresAtUnixMilli b'"
    by (intro big_endian_inj [of 8]) simp_all
  from r2 have "[boolByte c] = [boolByte c']"
    using frame_bytes_inj [of "[boolByte c]" "[]" "[boolByte c']" "[]"] by simp
  then have "c = c'" by (simp add: boolByte_def split: if_splits)
  moreover have "b = b'"
    using f g e by (cases b; cases b') (simp add: handshake_fields_def handshake_strings_def)
  ultimately show ?thesis by simp
qed

lemma ucast_8_64_inj [simp]: "(ucast (d :: 8 word) :: u64) = ucast e \<longleftrightarrow> d = e"
proof
  assume eq: "(ucast d :: u64) = ucast e"
  show "d = e"
  proof (rule bit_word_eqI)
    fix n assume "n < LENGTH(8)"
    moreover have "bit (ucast d :: u64) n = bit (ucast e :: u64) n" using eq by simp
    ultimately show "bit d n = bit e n" by (simp add: bit_unsigned_iff)
  qed
qed simp

lemma canonicalRecord_inj:
  assumes "validRecordMetadata m" and "validRecordMetadata m'"
    and "canonicalRecordMetadata m = canonicalRecordMetadata m'"
  shows "m = m'"
proof -
  let ?f = "\<lambda>m. [''wenzwork-remote-v2/record'', rm_LinkID m, rm_ChannelID m, rm_StreamID m,
        uint64Text (rm_KeyID m), uint64Text (ucast (rm_Direction m)), uint64Text (ucast (rm_FrameType m))]"
  have short: "\<forall>v\<in>set (?f m). short v" "\<forall>v\<in>set (?f m'). short v"
    using assms(1,2) uint64Text_short by (auto simp: validRecordMetadata_def intro: validField_short [simplified])
  have "concat (map (frame_bytes \<circ> go_bytes) (?f m)) @ big_endian 8 (rm_StreamSequence m)
      = concat (map (frame_bytes \<circ> go_bytes) (?f m')) @ big_endian 8 (rm_StreamSequence m')"
    using assms(3) by (simp add: canonicalRecordMetadata_def appendFields_frames)
  from fields_inj [OF this _ short] have f: "?f m = ?f m'"
    and "big_endian 8 (rm_StreamSequence m) = big_endian 8 (rm_StreamSequence m')" by auto
  then have "rm_StreamSequence m = rm_StreamSequence m'" by (intro big_endian_inj [of 8]) simp_all
  with f show ?thesis by (cases m; cases m') simp
qed

subsection \<open>A concrete instance of the primitives\<close>

text \<open>
  A concrete instance of the hypotheses: a tag of 16 zero bytes appended to
  the plaintext, and constant digests. It has the sizes and the laws, which is
  all that the hypotheses ask.
\<close>

definition plain_primitives :: primitives where
  "plain_primitives = \<lparr>sha256 = (\<lambda>m. replicate 32 1), hmac_sha256 = (\<lambda>k m. replicate 32 2),
     hkdf_sha256 = (\<lambda>s salt i n. Some (replicate n 3)),
     ed25519_public = (\<lambda>k. replicate 32 4), ed25519_sign = (\<lambda>k m. replicate 64 5),
     ed25519_verify = (\<lambda>k m s. s = replicate 64 5),
     x25519_public = (\<lambda>k. replicate 32 6), x25519 = (\<lambda>a b. Some (replicate 32 7)),
     aead_seal = (\<lambda>k n p a. p @ replicate 16 0),
     aead_open = (\<lambda>k n c a. if length c \<ge> 16 \<and> drop (length c - 16) c = replicate 16 0
       then Some (take (length c - 16) c) else None)\<rparr>"

lemma plain_seal [simp]: "aead_seal plain_primitives k n p a = p @ replicate 16 0"
  by (simp add: plain_primitives_def)

lemma plain_aead: "aead_inverse plain_primitives"
proof -
  have "(length c \<ge> 16 \<and> drop (length c - 16) c = replicate 16 0 \<and> take (length c - 16) c = p)
      \<longleftrightarrow> c = p @ replicate 16 (0 :: 8 word)" for c p
    by (metis (no_types, lifting) add_diff_cancel_right' append_eq_conv_conj append_take_drop_id le_add2
        length_append length_replicate)
  then show ?thesis
    by (auto simp: aead_inverse_def plain_primitives_def)
qed

lemma plain_sizes: "digest_sizes plain_primitives" "signatures_verify plain_primitives"
    "agreement_symmetric plain_primitives"
  by (auto simp: digest_sizes_def signatures_verify_def agreement_symmetric_def plain_primitives_def)

subsection \<open>Properties\<close>

text \<open>
  C23. A signed handshake transcript determines the handshake: two bindings
  with the same transcript are equal in every field, and the transcript the
  client signs first is never one that the device signs, so neither signature
  can be presented for another link, identity, key, challenge or phase.
\<close>

theorem handshake_transcript_binds:
  assumes "CanonicalInitTranscript b = Inr t \<or> CanonicalHandshakeTranscript b = Inr t"
    and "CanonicalInitTranscript b' = Inr t \<or> CanonicalHandshakeTranscript b' = Inr t"
  shows "b = b' \<and> (CanonicalInitTranscript b = Inr t \<longleftrightarrow> CanonicalInitTranscript b' = Inr t) \<and>
    \<not> (CanonicalInitTranscript b = Inr t \<and> CanonicalHandshakeTranscript b' = Inr t)"
proof -
  have init: "CanonicalInitTranscript d = Inr t \<longleftrightarrow> validHandshakeBinding d False \<and> t = canonicalHandshake d False"
    and accept: "CanonicalHandshakeTranscript d = Inr t \<longleftrightarrow> validHandshakeBinding d True \<and> t = canonicalHandshake d True" for d
    by (auto simp: CanonicalInitTranscript_def CanonicalHandshakeTranscript_def)
  show ?thesis
    using assms canonicalHandshake_inj unfolding init accept by blast
qed

definition sample_binding :: HandshakeBinding where
  "sample_binding = \<lparr>hb_GrantID = ''g'', hb_LinkID = ''l'', hb_ClientID = ''c'', hb_DeviceID = ''d'',
     hb_RelayNodeID = ''n'', hb_RelayCellID = ''e'', hb_TargetConnectionEpoch = 5,
     hb_ClientIdentityVersion = 1, hb_DeviceIdentityVersion = 0,
     hb_ClientEphemeralPublic = replicate 32 9, hb_DeviceEphemeralPublic = [],
     hb_ClientChallenge = replicate 32 4, hb_DeviceChallenge = [], hb_ExpiresAtUnixMilli = 1000\<rparr>"

lemma sample_binding_valid: "validHandshakeBinding sample_binding False"
  by code_simp

theorem handshake_transcript_binds_witness:
  "\<not> (CanonicalInitTranscript sample_binding = Inr (canonicalHandshake sample_binding False) \<and>
     CanonicalHandshakeTranscript sample_binding = Inr (canonicalHandshake sample_binding False))"
proof -
  have "CanonicalInitTranscript sample_binding = Inr (canonicalHandshake sample_binding False)"
    by (simp add: CanonicalInitTranscript_def sample_binding_valid)
  then show ?thesis
    using handshake_transcript_binds [of sample_binding "canonicalHandshake sample_binding False" sample_binding]
    by blast
qed

text \<open>
  C21. Records: opening inverts sealing, and a ciphertext opens exactly when
  it is what sealing that plaintext with the same key and metadata gives, so
  none of the metadata can be changed unless the cipher itself accepts the
  ciphertext under other associated data; the associated data determines the
  metadata.
\<close>

theorem record_open_iff_seal:
  assumes "aead_inverse P"
  shows "(Open P k c m = Inr p \<longleftrightarrow> Seal P k p m = Inr c) \<and>
    (AssociatedData m = Inr a \<and> AssociatedData m' = Inr a \<longrightarrow> m = m')"
proof -
  have "length (aead_seal P k n p a) = length p + 16" and
    open_iff: "aead_open P k n c a = Some p \<longleftrightarrow> c = aead_seal P k n p a" for k n p a c
    using assms by (auto simp: aead_inverse_def)
  note law = this
  have "Open P k c m = Inr p \<longleftrightarrow> Seal P k p m = Inr c"
  proof
    assume "Open P k c m = Inr p"
    then show "Seal P k p m = Inr c"
      using law by (auto simp: Open_def Seal_def split: if_splits sum.splits option.splits)
  next
    assume "Seal P k p m = Inr c"
    then obtain n a where p: "p \<noteq> []" "length p \<le> MaximumPlaintextBytes"
      and inputs: "recordInputs P k m = Inr (n, a)" and c: "c = aead_seal P k n p a"
      by (auto simp: Seal_def split: if_splits sum.splits)
    have "aead_open P k n c a = Some p" and "length c = length p + 16" using law c by blast+
    with p inputs show "Open P k c m = Inr p" by (simp add: Open_def AEADOverhead_def)
  qed
  moreover have "AssociatedData m = Inr a \<and> AssociatedData m' = Inr a \<longrightarrow> m = m'"
    using canonicalRecord_inj by (auto simp: AssociatedData_def split: if_splits)
  ultimately show ?thesis by blast
qed

definition sample_record :: "u64 \<Rightarrow> RecordMetadata" where
  "sample_record n = \<lparr>rm_LinkID = ''l'', rm_ChannelID = ''c'', rm_StreamID = ''s'', rm_KeyID = 1,
     rm_Direction = 1, rm_FrameType = 5, rm_StreamSequence = n\<rparr>"

lemma sample_record_valid: "n \<noteq> 0 \<Longrightarrow> validRecordMetadata (sample_record n)"
proof -
  have "validField ''l''" "validField ''c''" "validField ''s''" by code_simp+
  then show "n \<noteq> 0 \<Longrightarrow> ?thesis"
    by (simp add: validRecordMetadata_def sample_record_def validDirection_def DirectionClientToDevice_def
        FrameChannelOpen_def FrameLinkLeaseRenewed_def word_gt_0)
qed

lemma sample_nonce: "n \<noteq> 0 \<Longrightarrow>
    Nonce plain_primitives (replicate 32 0) (sample_record n) = Inr (replicate 16 2 @ big_endian 8 n)"
  by (simp add: Nonce_def sample_record_valid size_defs hkdfBytes_def plain_primitives_def Let_def)
    (simp add: sample_record_def)

theorem record_open_iff_seal_witness:
  "Open plain_primitives (replicate 32 0) ([1, 2] @ replicate 16 0) (sample_record 3) = Inr [1, 2]"
proof -
  have "Seal plain_primitives (replicate 32 0) [1, 2] (sample_record 3) = Inr ([1, 2] @ replicate 16 0)"
    by (simp add: Seal_def recordInputs_def sample_nonce sample_record_valid RootKeySize_def
        MaximumPlaintextBytes_def)
  with record_open_iff_seal [OF plain_aead] show ?thesis by blast
qed

text \<open>
  Nonces: the nonce of a record has the 24 bytes XChaCha20 asks for and
  ends in the stream sequence, so under one key two records with different
  sequences never share a nonce, whatever HMAC computes.
\<close>

theorem record_nonces_differ:
  assumes "digest_sizes P" and "Nonce P k m = Inr n" and "Nonce P k m' = Inr n'"
    and "rm_StreamSequence m \<noteq> rm_StreamSequence m'"
  shows "n \<noteq> n' \<and> length n = 24"
proof -
  have tails: "drop 16 n = big_endian 8 (rm_StreamSequence m) \<and> length n = 24"
    if "Nonce P k m = Inr n" for m n
  proof -
    from that obtain nonceKey where n: "n = take 16 (hmac_sha256 P nonceKey
        (canonicalRecordMetadata (m\<lparr>rm_StreamSequence := 0\<rparr>))) @ big_endian 8 (rm_StreamSequence m)"
      unfolding Nonce_def Let_def
      by (cases "hkdfBytes P k [] (go_bytes ''wenzwork-remote-v2/nonce-key'') 32")
        (auto simp del: go_bytes_simps split: if_splits)
    moreover have "length (hmac_sha256 P a b) = 32" for a b
      using assms(1) unfolding digest_sizes_def by blast
    ultimately show ?thesis by simp
  qed
  have "big_endian 8 (rm_StreamSequence m) \<noteq> big_endian 8 (rm_StreamSequence m')"
    using assms(4) big_endian_inj [of 8 "rm_StreamSequence m" "rm_StreamSequence m'"] by auto
  with tails [OF assms(2)] tails [OF assms(3)] show ?thesis by metis
qed

theorem record_nonces_differ_witness:
  "Nonce plain_primitives (replicate 32 0) (sample_record 1) \<noteq> Nonce plain_primitives (replicate 32 0) (sample_record 2)"
proof -
  have n: "Nonce plain_primitives (replicate 32 0) (sample_record 1) = Inr (replicate 16 2 @ big_endian 8 (1 :: u64))"
    and n': "Nonce plain_primitives (replicate 32 0) (sample_record 2) = Inr (replicate 16 2 @ big_endian 8 (2 :: u64))"
    by (simp_all add: sample_nonce)
  have "rm_StreamSequence (sample_record 1) \<noteq> rm_StreamSequence (sample_record 2)"
    by (simp add: sample_record_def)
  from record_nonces_differ [OF plain_sizes(1) n n' this] show ?thesis
    unfolding n n' by blast
qed

text \<open>
  Key separation: keys derived for different layers, links, key
  generations, directions, channels or streams come from different HKDF
  inputs, and none of these is the input of a root key.
\<close>

theorem derived_keys_separate:
  assumes "deriveKey P root linkID keyID direction layer channelID streamID \<noteq> Inl ErrInvalidHandshake"
    and "deriveKey P root' linkID' keyID' direction' layer' channelID' streamID' \<noteq> Inl ErrInvalidHandshake"
    and "length channelID \<le> 256" "length streamID \<le> 256" "length channelID' \<le> 256" "length streamID' \<le> 256"
  shows "(key_info layer linkID keyID direction channelID streamID
      = key_info layer' linkID' keyID' direction' channelID' streamID' \<longleftrightarrow>
      (layer, linkID, keyID, direction, channelID, streamID)
        = (layer', linkID', keyID', direction', channelID', streamID')) \<and>
    key_info layer linkID keyID direction channelID streamID \<noteq> root_info b"
proof -
  let ?f = "\<lambda>layer linkID keyID direction channelID streamID.
    [''wenzwork-remote-v2/key'', layer, linkID, uint64Text keyID, uint64Text (ucast (direction :: Direction)),
     channelID, streamID]"
  have short: "\<forall>v\<in>set (?f layer linkID keyID direction channelID streamID). short v"
    if "deriveKey P root linkID keyID direction layer channelID streamID \<noteq> Inl ErrInvalidHandshake"
      and "length channelID \<le> 256" "length streamID \<le> 256"
    for root linkID keyID direction layer channelID streamID
    using that uint64Text_short validField_short [of linkID]
    by (auto simp: deriveKey_def split: if_splits)
  note s1 = short [OF assms(1,3,4)] and s2 = short [OF assms(2,5,6)]
  have eq: "key_info l k i d c s = concat (map (frame_bytes \<circ> go_bytes) (?f l k i d c s)) @ []" for l k i d c s
    by (simp add: key_info_def appendFields_frames)
  have "key_info layer linkID keyID direction channelID streamID
      = key_info layer' linkID' keyID' direction' channelID' streamID' \<longleftrightarrow>
      ?f layer linkID keyID direction channelID streamID = ?f layer' linkID' keyID' direction' channelID' streamID'"
    using fields_inj [OF _ _ s1 s2, of "[]" "[]"] unfolding eq by fastforce
  moreover have "key_info layer linkID keyID direction channelID streamID \<noteq> root_info b"
  proof
    assume "key_info layer linkID keyID direction channelID streamID = root_info b"
    then have "concat (map (frame_bytes \<circ> go_bytes) (?f layer linkID keyID direction channelID streamID)) @ []
        = concat (map (frame_bytes \<circ> go_bytes) [''wenzwork-remote-v2/root'', hb_LinkID b, ''1'']) @ []"
      unfolding eq root_info_def appendFields_frames append_Nil append_Nil2 .
    from fields_cons [OF this] show False by simp
  qed
  ultimately show ?thesis by auto
qed

theorem derived_keys_separate_witness:
  "key_info ''stream'' ''l'' 1 1 ''c'' ''s'' \<noteq> key_info ''channel'' ''l'' 1 1 ''c'' ''''"
proof -
  have "deriveKey plain_primitives (replicate 32 0) ''l'' 1 1 ''stream'' ''c'' ''s'' \<noteq> Inl ErrInvalidHandshake"
    and "deriveKey plain_primitives (replicate 32 0) ''l'' 1 1 ''channel'' ''c'' '''' \<noteq> Inl ErrInvalidHandshake"
    by code_simp+
  from derived_keys_separate [OF this] show ?thesis by simp
qed

end
