(* ===== verification/Sequencer.thy ===== *)
theory Sequencer
  imports Peer_Crypto Relay_Interfaces
begin

text \<open>
  The per-stream sequence numbers and the replay protection of remote/v2,
  the \<open>Sequencer\<close> and \<open>replayWindow\<close> of
  \<open>server/internal/peerprotocol/v2/link.go\<close>. The mutex makes each method one
  step on the state; a nil receiver, on which the methods return at once, is
  not a state.
\<close>

subsection \<open>The replay window\<close>

record replayWindow =
  rw_maximum :: u64
  rw_width :: u64
  rw_seen :: "u64 fset"

definition newReplayWindow :: "u64 \<Rightarrow> replayWindow" where
  "newReplayWindow width = \<lparr>rw_maximum = 0, rw_width = width, rw_seen = {||}\<rparr>"

definition window_accept :: "replayWindow \<Rightarrow> u64 \<Rightarrow> replayWindow \<times> bool" where
  "window_accept window sequence =
     (if sequence = 0 then (window, False)
      else if sequence |\<in>| rw_seen window then (window, False)
      else if rw_maximum window > rw_width window \<and> sequence \<le> rw_maximum window - rw_width window
      then (window, False)
      else
        (let window = window\<lparr>rw_seen := finsert sequence (rw_seen window)\<rparr>;
             window = (if sequence > rw_maximum window then window\<lparr>rw_maximum := sequence\<rparr> else window);
             minimum = (if rw_maximum window > rw_width window
                        then rw_maximum window - rw_width window else 0)
         in (window\<lparr>rw_seen := ffilter (\<lambda>seen. \<not> seen \<le> minimum) (rw_seen window)\<rparr>, True)))"

subsection \<open>The sequencer\<close>

datatype seq_error =
    ErrSequence
  | ErrReplay
  | ErrStreamClosed
  | ErrStreamReuse
  | ErrSequenceLimit

record sequenceKey =
  sk_keyID :: u64
  sk_direction :: Direction
  sk_streamID :: string

text \<open>Keys are ordered by their fields, so that maps over them can be computed.\<close>

instantiation sequenceKey_ext :: (linorder) linorder
begin

definition less_eq_sequenceKey_ext :: "'a sequenceKey_scheme \<Rightarrow> 'a sequenceKey_scheme \<Rightarrow> bool" where
  "less_eq_sequenceKey_ext a b \<longleftrightarrow> sk_keyID a < sk_keyID b \<or> sk_keyID a = sk_keyID b \<and>
     (sk_direction a < sk_direction b \<or> sk_direction a = sk_direction b \<and>
     (sk_streamID a < sk_streamID b \<or> sk_streamID a = sk_streamID b \<and>
      sequenceKey.more a \<le> sequenceKey.more b))"

definition less_sequenceKey_ext :: "'a sequenceKey_scheme \<Rightarrow> 'a sequenceKey_scheme \<Rightarrow> bool" where
  "less_sequenceKey_ext a b \<longleftrightarrow> sk_keyID a < sk_keyID b \<or> sk_keyID a = sk_keyID b \<and>
     (sk_direction a < sk_direction b \<or> sk_direction a = sk_direction b \<and>
     (sk_streamID a < sk_streamID b \<or> sk_streamID a = sk_streamID b \<and>
      sequenceKey.more a < sequenceKey.more b))"

instance
  by standard (auto simp: less_eq_sequenceKey_ext_def less_sequenceKey_ext_def intro!: sequenceKey.equality)

end

record streamTombstone =
  st_maximumSeen :: u64
  st_closedAt :: instant

record Sequencer =
  sq_next :: "(sequenceKey, u64) fmap"
  sq_inbound :: "(sequenceKey, replayWindow) fmap"
  sq_tombstones :: "(sequenceKey, streamTombstone) fmap"
  sq_activeStreams :: "string fset"
  sq_usedStreamIDs :: "string fset"
  sq_knownKeys :: "u64 fset"
  sq_window :: u64
  sq_tombstoneLimit :: nat
  sq_activeLimit :: nat
  sq_streamLimit :: nat

definition DefaultSequencerTombstoneLimit :: int where "DefaultSequencerTombstoneLimit = 8192"
definition DefaultSequencerActiveLimit :: int where "DefaultSequencerActiveLimit = 1536"
definition DefaultSequencerStreamLimit :: int where "DefaultSequencerStreamLimit = 131072"

definition NewSequencerWithResourceLimits :: "u64 \<Rightarrow> int \<Rightarrow> int \<Rightarrow> int \<Rightarrow> Sequencer" where
  "NewSequencerWithResourceLimits window tombstoneLimit activeLimit streamLimit =
     (let window = (if window = 0 then 4096 else window);
          window = (if window > 65536 then 65536 else window);
          tombstoneLimit = (if tombstoneLimit \<le> 0 then DefaultSequencerTombstoneLimit else tombstoneLimit);
          activeLimit = (if activeLimit \<le> 0 then DefaultSequencerActiveLimit else activeLimit);
          streamLimit = (if streamLimit \<le> 0 then DefaultSequencerStreamLimit else streamLimit)
      in \<lparr>sq_next = fmempty, sq_inbound = fmempty, sq_tombstones = fmempty, sq_activeStreams = {||},
          sq_usedStreamIDs = {||}, sq_knownKeys = {||}, sq_window = window,
          sq_tombstoneLimit = nat tombstoneLimit, sq_activeLimit = nat activeLimit,
          sq_streamLimit = nat streamLimit\<rparr>)"

definition NewSequencerWithLimits :: "u64 \<Rightarrow> int \<Rightarrow> int \<Rightarrow> Sequencer" where
  "NewSequencerWithLimits window tombstoneLimit activeLimit =
     NewSequencerWithResourceLimits window tombstoneLimit activeLimit DefaultSequencerStreamLimit"

definition NewSequencer :: "u64 \<Rightarrow> Sequencer" where
  "NewSequencer window =
     NewSequencerWithLimits window DefaultSequencerTombstoneLimit DefaultSequencerActiveLimit"

definition OpenStream :: "Sequencer \<Rightarrow> string \<Rightarrow> Sequencer \<times> seq_error option" where
  "OpenStream q streamID =
     (if \<not> validField streamID then (q, Some ErrSequence)
      else if streamID |\<in>| sq_activeStreams q then (q, Some ErrStreamReuse)
      else if streamID |\<in>| sq_usedStreamIDs q then (q, Some ErrStreamReuse)
      else if fcard (sq_activeStreams q) \<ge> sq_activeLimit q then (q, Some ErrSequenceLimit)
      else if fcard (sq_usedStreamIDs q) \<ge> sq_streamLimit q then (q, Some ErrSequenceLimit)
      else (q\<lparr>sq_usedStreamIDs := finsert streamID (sq_usedStreamIDs q),
               sq_activeStreams := finsert streamID (sq_activeStreams q)\<rparr>, None))"

text \<open>
  The set \<open>keys\<close> of the entries a closing stream leaves behind: both
  directions under every known key, and every key that has a counter or a
  window for the stream.
\<close>

definition stream_keys :: "Sequencer \<Rightarrow> string \<Rightarrow> sequenceKey fset" where
  "stream_keys q streamID =
     (\<lambda>keyID. \<lparr>sk_keyID = keyID, sk_direction = DirectionClientToDevice, sk_streamID = streamID\<rparr>)
        |`| sq_knownKeys q |\<union>|
     (\<lambda>keyID. \<lparr>sk_keyID = keyID, sk_direction = DirectionDeviceToClient, sk_streamID = streamID\<rparr>)
        |`| sq_knownKeys q |\<union>|
     ffilter (\<lambda>key. sk_streamID key = streamID) (fmdom (sq_next q)) |\<union>|
     ffilter (\<lambda>key. sk_streamID key = streamID) (fmdom (sq_inbound q))"

text \<open>\<open>now\<close> is the clock's reading, used when the caller passes the zero instant.\<close>

definition CloseStream ::
  "Sequencer \<Rightarrow> string \<Rightarrow> instant \<Rightarrow> instant \<Rightarrow> Sequencer \<times> seq_error option" where
  "CloseStream q streamID closedAt now =
     (if \<not> validField streamID then (q, Some ErrSequence)
      else if streamID |\<notin>| sq_usedStreamIDs q then (q, Some ErrSequence)
      else if streamID |\<notin>| sq_activeStreams q then (q, None)
      else
        (let keys = stream_keys q streamID;
             additional = fcard (ffilter (\<lambda>key. fmlookup (sq_tombstones q) key = None) keys)
         in if fmlen (sq_tombstones q) + additional > sq_tombstoneLimit q
            then (q, Some ErrSequenceLimit)
            else
              (let closedAt = (if IsZero closedAt then now else closedAt);
                   maximum = (\<lambda>key. case fmlookup (sq_inbound q) key of
                       Some window \<Rightarrow>
                         (if rw_maximum window > fmget 0 (sq_next q) key then rw_maximum window
                          else fmget 0 (sq_next q) key)
                     | None \<Rightarrow> fmget 0 (sq_next q) key)
               in (q\<lparr>sq_next := fmdrop_fset keys (sq_next q),
                     sq_inbound := fmdrop_fset keys (sq_inbound q),
                     sq_tombstones := sq_tombstones q ++\<^sub>f fmtabulate keys
                       (\<lambda>key. \<lparr>st_maximumSeen = maximum key, st_closedAt = closedAt\<rparr>),
                     sq_activeStreams := sq_activeStreams q |-| {|streamID|}\<rparr>, None))))"

record SequencerStats =
  OutboundEntries :: nat
  InboundEntries :: nat
  Tombstones :: nat
  ActiveStreams :: nat
  UsedStreamIDs :: nat
  KeyCount :: nat
  MaximumClosedSequence :: u64
  OldestClosedAt :: instant
  MaximumStreamsPerLink :: nat

text \<open>The loop over the tombstones, for the order \<open>visited\<close> in which Go visits them.\<close>

fun stats_loop :: "SequencerStats \<Rightarrow> streamTombstone list \<Rightarrow> SequencerStats" where
  "stats_loop stats [] = stats"
| "stats_loop stats (tombstone # ts) =
     (let stats = (if st_maximumSeen tombstone > MaximumClosedSequence stats
                   then stats\<lparr>MaximumClosedSequence := st_maximumSeen tombstone\<rparr> else stats);
          stats = (if IsZero (OldestClosedAt stats) \<or> st_closedAt tombstone < OldestClosedAt stats
                   then stats\<lparr>OldestClosedAt := st_closedAt tombstone\<rparr> else stats)
      in stats_loop stats ts)"

definition Sequencer_Stats :: "Sequencer \<Rightarrow> streamTombstone list \<Rightarrow> SequencerStats" where
  "Sequencer_Stats q visited =
     stats_loop \<lparr>OutboundEntries = fmlen (sq_next q), InboundEntries = fmlen (sq_inbound q),
       Tombstones = fmlen (sq_tombstones q), ActiveStreams = fcard (sq_activeStreams q),
       UsedStreamIDs = fcard (sq_usedStreamIDs q), KeyCount = fcard (sq_knownKeys q),
       MaximumClosedSequence = 0, OldestClosedAt = 0, MaximumStreamsPerLink = sq_streamLimit q\<rparr> visited"

definition ShouldRekey :: "Sequencer \<Rightarrow> u64 \<Rightarrow> bool" where
  "ShouldRekey q keyID =
     (if keyID = 0 then False
      else
        (let count = fcard (ffilter (\<lambda>key. sk_keyID key = keyID) (fmdom (sq_tombstones q)));
             threshold = sq_tombstoneLimit q div 4;
             threshold = (if threshold < 1 then 1 else threshold)
         in count \<ge> threshold))"

definition ShouldRollover :: "Sequencer \<Rightarrow> bool" where
  "ShouldRollover q \<longleftrightarrow>
     fcard (sq_usedStreamIDs q) * 4 \<ge> sq_streamLimit q * 3 \<or>
     fmlen (sq_tombstones q) * 4 \<ge> sq_tombstoneLimit q * 3"

definition Next :: "Sequencer \<Rightarrow> u64 \<Rightarrow> Direction \<Rightarrow> string \<Rightarrow> Sequencer \<times> (seq_error + u64)" where
  "Next q keyID direction streamID =
     (if keyID = 0 \<or> \<not> validDirection direction \<or> \<not> validField streamID then (q, Inl ErrSequence)
      else
        (let key = \<lparr>sk_keyID = keyID, sk_direction = direction, sk_streamID = streamID\<rparr>
         in if fmlookup (sq_tombstones q) key \<noteq> None then (q, Inl ErrStreamClosed)
            else
              (let q = q\<lparr>sq_knownKeys := finsert keyID (sq_knownKeys q)\<rparr>;
                   next = fmget 0 (sq_next q) key + 1
               in if next = 0 then (q, Inl ErrSequence)
                  else (q\<lparr>sq_next := fmupd key next (sq_next q)\<rparr>, Inr next))))"

definition NextOutboundSequence :: "Sequencer \<Rightarrow> u64 \<Rightarrow> Direction \<Rightarrow> string \<Rightarrow> seq_error + u64" where
  "NextOutboundSequence q keyID direction streamID =
     (if keyID = 0 \<or> \<not> validDirection direction \<or> \<not> validField streamID then Inl ErrSequence
      else
        (let key = \<lparr>sk_keyID = keyID, sk_direction = direction, sk_streamID = streamID\<rparr>
         in if fmlookup (sq_tombstones q) key \<noteq> None then Inl ErrStreamClosed
            else
              (let next = fmget 0 (sq_next q) key + 1
               in if next = 0 then Inl ErrSequence else Inr next)))"

definition metadata_key :: "RecordMetadata \<Rightarrow> sequenceKey" where
  "metadata_key m = \<lparr>sk_keyID = rm_KeyID m, sk_direction = rm_Direction m, sk_streamID = rm_StreamID m\<rparr>"

definition AcceptInbound :: "Sequencer \<Rightarrow> RecordMetadata \<Rightarrow> Sequencer \<times> seq_error option" where
  "AcceptInbound q metadata =
     (if \<not> validRecordMetadata metadata then (q, Some ErrSequence)
      else
        (let key = metadata_key metadata
         in if fmlookup (sq_tombstones q) key \<noteq> None then (q, Some ErrStreamClosed)
            else
              (let q = q\<lparr>sq_knownKeys := finsert (rm_KeyID metadata) (sq_knownKeys q)\<rparr>;
                   window = (case fmlookup (sq_inbound q) key of
                       None \<Rightarrow> newReplayWindow (sq_window q)
                     | Some window \<Rightarrow> window)
               in case window_accept window (rm_StreamSequence metadata) of (window, accepted) \<Rightarrow>
                    (q\<lparr>sq_inbound := fmupd key window (sq_inbound q)\<rparr>,
                     if \<not> accepted then Some ErrReplay else None))))"

definition Sequencer_RetireKey :: "Sequencer \<Rightarrow> u64 \<Rightarrow> Sequencer" where
  "Sequencer_RetireKey q keyID =
     (if keyID = 0 then q
      else q\<lparr>sq_next := fmkeep (\<lambda>key _. sk_keyID key \<noteq> keyID) (sq_next q),
             sq_inbound := fmkeep (\<lambda>key _. sk_keyID key \<noteq> keyID) (sq_inbound q),
             sq_tombstones := fmkeep (\<lambda>key _. sk_keyID key \<noteq> keyID) (sq_tombstones q),
             sq_knownKeys := sq_knownKeys q |-| {|keyID|}\<rparr>)"

definition Sequencer_ResetKey :: "Sequencer \<Rightarrow> u64 \<Rightarrow> Sequencer" where
  "Sequencer_ResetKey q keyID = Sequencer_RetireKey q keyID"

definition Sequencer_Reset :: "Sequencer \<Rightarrow> Sequencer" where
  "Sequencer_Reset q = q\<lparr>sq_next := fmempty, sq_inbound := fmempty, sq_tombstones := fmempty,
     sq_activeStreams := {||}, sq_usedStreamIDs := {||}, sq_knownKeys := {||}\<rparr>"

subsection \<open>Calls on a sequencer\<close>

datatype seq_call =
    CallOpenStream string
  | CallCloseStream string instant instant
  | CallNext u64 Direction string
  | CallAcceptInbound RecordMetadata
  | CallRetireKey u64
  | CallReset

datatype seq_result = SeqDone "seq_error option" | SeqNumber "seq_error + u64"

fun seq_step :: "Sequencer \<Rightarrow> seq_call \<Rightarrow> Sequencer \<times> seq_result" where
  "seq_step q (CallOpenStream s) = (case OpenStream q s of (q', e) \<Rightarrow> (q', SeqDone e))"
| "seq_step q (CallCloseStream s t now) = (case CloseStream q s t now of (q', e) \<Rightarrow> (q', SeqDone e))"
| "seq_step q (CallNext k d s) = (case Next q k d s of (q', r) \<Rightarrow> (q', SeqNumber r))"
| "seq_step q (CallAcceptInbound m) = (case AcceptInbound q m of (q', e) \<Rightarrow> (q', SeqDone e))"
| "seq_step q (CallRetireKey k) = (Sequencer_RetireKey q k, SeqDone None)"
| "seq_step q CallReset = (Sequencer_Reset q, SeqDone None)"

text \<open>What is observed: sequences issued and records accepted under a key, streams opened.\<close>

fun issued :: "u64 \<Rightarrow> seq_call \<Rightarrow> seq_result \<Rightarrow> (sequenceKey \<times> u64) list" where
  "issued k (CallNext k' d s) (SeqNumber (Inr n)) =
     (if k' = k then [(\<lparr>sk_keyID = k', sk_direction = d, sk_streamID = s\<rparr>, n)] else [])"
| "issued k _ _ = []"

fun admitted_records :: "u64 \<Rightarrow> seq_call \<Rightarrow> seq_result \<Rightarrow> (sequenceKey \<times> u64) list" where
  "admitted_records k (CallAcceptInbound m) (SeqDone None) =
     (if rm_KeyID m = k then [(metadata_key m, rm_StreamSequence m)] else [])"
| "admitted_records k _ _ = []"

fun opened :: "seq_call \<Rightarrow> seq_result \<Rightarrow> string list" where
  "opened (CallOpenStream s) (SeqDone None) = [s]"
| "opened _ _ = []"

subsection \<open>The window accepts each sequence at most once\<close>

definition window_floor :: "replayWindow \<Rightarrow> u64" where
  "window_floor w = (if rw_maximum w > rw_width w then rw_maximum w - rw_width w else 0)"

definition window_spent :: "replayWindow \<Rightarrow> u64 \<Rightarrow> bool" where
  "window_spent w s \<longleftrightarrow> s \<le> window_floor w \<or> s |\<in>| rw_seen w"

lemma window_floor_mono:
  assumes "rw_width w' = rw_width w" and "rw_maximum w \<le> rw_maximum w'"
  shows "window_floor w \<le> window_floor w'"
proof (cases "rw_maximum w > rw_width w")
  case True
  then have "rw_maximum w' > rw_width w" using assms(2) by simp
  with True assms show ?thesis
    by (simp add: window_floor_def word_le_nat_alt unat_sub word_less_nat_alt)
qed (simp add: window_floor_def)

lemma window_accept_iff: "snd (window_accept w s) \<longleftrightarrow> \<not> window_spent w s"
  by (auto simp: window_accept_def window_spent_def window_floor_def Let_def)

lemma window_refused: "window_spent w s \<Longrightarrow> window_accept w s = (w, False)"
  by (auto simp: window_accept_def window_spent_def window_floor_def split: if_splits)

lemma window_accepted:
  assumes "\<not> window_spent w s"
  shows "window_accept w s =
    (let w' = w\<lparr>rw_maximum := max s (rw_maximum w)\<rparr>
     in (w'\<lparr>rw_seen := ffilter (\<lambda>x. window_floor w' < x) (finsert s (rw_seen w))\<rparr>, True))"
  using assms
  by (auto simp: window_accept_def window_spent_def window_floor_def Let_def max_def not_le
      intro!: replayWindow.equality)

lemma window_spent_kept: "window_spent w x \<Longrightarrow> window_spent (fst (window_accept w s)) x"
proof (cases "window_spent w s")
  case False
  assume x: "window_spent w x"
  let ?w = "w\<lparr>rw_maximum := max s (rw_maximum w)\<rparr>"
  have "window_floor w \<le> window_floor ?w" by (rule window_floor_mono) simp_all
  moreover have "window_floor (fst (window_accept w s)) = window_floor ?w"
    by (simp add: window_accepted [OF False] Let_def window_floor_def)
  moreover have "rw_seen (fst (window_accept w s))
      = ffilter (\<lambda>x. window_floor ?w < x) (finsert s (rw_seen w))"
    by (simp add: window_accepted [OF False] Let_def)
  ultimately show ?thesis
    using x by (fastforce simp: window_spent_def not_le [symmetric])
qed (simp add: window_refused)

lemma window_spends: "window_spent (fst (window_accept w s)) s"
proof (cases "window_spent w s")
  case False
  then show ?thesis
    by (auto simp: window_accepted Let_def window_spent_def window_floor_def word_gt_0)
qed (simp add: window_refused)

abbreviation window_obs :: "u64 \<Rightarrow> bool \<Rightarrow> u64 list" where
  "window_obs s accepted \<equiv> (if accepted then [s] else [])"

interpretation window: at_most_once window_accept window_obs window_spent "\<lambda>_. True" "\<lambda>_. True"
proof (unfold_locales, goal_cases)
  case (2 w s w' r)
  then show ?case using window_accept_iff [of w s] window_spends [of w s] by auto
next
  case (3 w s w' r x)
  then show ?case using window_spent_kept [of w x s] by simp
qed simp

text \<open>
  The window is the sliding window it is meant to be: its state is a function
  of the sequences accepted so far.
\<close>

definition window_low :: "u64 \<Rightarrow> u64 list \<Rightarrow> u64" where
  "window_low width accepted =
     (let m = fold max accepted 0 in if m > width then m - width else 0)"

definition window_holds :: "replayWindow \<Rightarrow> u64 \<Rightarrow> u64 list \<Rightarrow> bool" where
  "window_holds w width accepted \<longleftrightarrow> rw_width w = width \<and> rw_maximum w = fold max accepted 0 \<and>
     (\<forall>x. x |\<in>| rw_seen w \<longleftrightarrow> x \<in> set accepted \<and> x > window_low width accepted)"

lemma fold_max_snoc: "fold max (xs @ [x]) (a :: 'a :: linorder) = max x (fold max xs a)"
  by simp

lemma window_holds_floor: "window_holds w width acc \<Longrightarrow> window_floor w = window_low width acc"
  by (simp add: window_holds_def window_floor_def window_low_def Let_def)

lemma window_holds_spent:
  assumes "window_holds w width acc"
  shows "window_spent w s \<longleftrightarrow> s \<le> window_low width acc \<or> s \<in> set acc"
proof -
  have "s |\<in>| rw_seen w \<longleftrightarrow> s \<in> set acc \<and> \<not> s \<le> window_low width acc"
    using assms by (simp add: window_holds_def not_le)
  then show ?thesis
    unfolding window_spent_def window_holds_floor [OF assms] by argo
qed

lemma window_holds_step:
  assumes "window_holds w width acc"
  shows "window_holds (fst (window_accept w s)) width (acc @ window_obs s (snd (window_accept w s)))"
proof (cases "window_spent w s")
  case True
  then show ?thesis using assms by (simp add: window_refused)
next
  case False
  let ?w = "w\<lparr>rw_maximum := max s (rw_maximum w)\<rparr>"
  have low: "window_floor ?w = window_low width (acc @ [s])"
    using assms by (simp add: window_holds_def window_floor_def window_low_def Let_def)
  have "window_floor w \<le> window_floor ?w" by (rule window_floor_mono) simp_all
  then have "window_low width acc \<le> window_low width (acc @ [s])"
    using low window_holds_floor [OF assms] by simp
  moreover have acc: "fst (window_accept w s)
      = ?w\<lparr>rw_seen := ffilter (\<lambda>x. window_low width (acc @ [s]) < x) (finsert s (rw_seen w))\<rparr>"
    and "snd (window_accept w s)"
    unfolding low [symmetric] by (simp_all add: window_accepted [OF False] Let_def)
  moreover have "x |\<in>| rw_seen w \<longleftrightarrow> x \<in> set acc \<and> x > window_low width acc" for x
    using assms by (simp add: window_holds_def)
  ultimately show ?thesis
    using assms by (fastforce simp: window_holds_def)
qed

lemma window_holds_run:
  "window_holds w width acc \<Longrightarrow>
     window_holds (run_calls window_accept w ss) width (acc @ observe window_accept window_obs w ss)"
proof (induction ss arbitrary: w acc)
  case (Cons s ss)
  have "window_holds (run_calls window_accept (fst (window_accept w s)) ss) width
      ((acc @ window_obs s (snd (window_accept w s))) @
       observe window_accept window_obs (fst (window_accept w s)) ss)"
    by (rule Cons.IH [OF window_holds_step [OF Cons.prems]])
  then show ?case by (simp add: split_beta)
qed simp

lemma window_seen_bounded:
  assumes "window_holds w width acc"
  shows "fcard (rw_seen w) \<le> unat width"
proof -
  have "fset (rw_seen w) \<subseteq> {x. window_floor w < x \<and> x \<le> rw_maximum w}"
  proof
    fix x assume "x \<in> fset (rw_seen w)"
    then have "x \<in> set acc" and "x > window_low width acc" using assms by (auto simp: window_holds_def)
    moreover have "x \<in> set acc \<Longrightarrow> x \<le> fold max acc 0"
      by (metis List.finite_set Max.set_eq_fold Max_ge insertCI list.simps(15))
    ultimately show "x \<in> {x. window_floor w < x \<and> x \<le> rw_maximum w}"
      using assms window_holds_floor [OF assms] by (simp add: window_holds_def)
  qed
  then have "unat ` fset (rw_seen w) \<subseteq> {unat (window_floor w)<..unat (rw_maximum w)}"
    by (auto simp: word_less_nat_alt word_le_nat_alt)
  then have "card (unat ` fset (rw_seen w)) \<le> unat (rw_maximum w) - unat (window_floor w)"
    using card_mono [of "{unat (window_floor w)<..unat (rw_maximum w)}"] by simp
  moreover have "card (unat ` fset (rw_seen w)) = fcard (rw_seen w)"
    unfolding fcard.rep_eq by (rule card_image) (auto intro: inj_onI unsigned_word_eqI)
  moreover have "unat (rw_maximum w) - unat (window_floor w) \<le> unat width"
    using assms by (auto simp: window_holds_def window_floor_def unat_sub word_less_nat_alt word_le_nat_alt)
  ultimately show ?thesis by simp
qed

subsection \<open>Every operation, case by case\<close>

lemma stream_keys_iff:
  "sk |\<in>| stream_keys q s \<longleftrightarrow> sk_streamID sk = s \<and>
     (sk_keyID sk |\<in>| sq_knownKeys q \<and> validDirection (sk_direction sk) \<or>
      fmlookup (sq_next q) sk \<noteq> None \<or> fmlookup (sq_inbound q) sk \<noteq> None)"
  by (cases sk) (auto simp: stream_keys_def validDirection_def fmlookup_dom_iff fimage_iff)

lemma CloseStream_cases:
  assumes "CloseStream q s t now = (q', e)"
  obtains (same) "q' = q" and "e \<noteq> None \<or> s |\<notin>| sq_activeStreams q"
  | (closed) "e = None" and "s |\<in>| sq_activeStreams q"
      and "sq_activeStreams q' = sq_activeStreams q |-| {|s|}"
      and "sq_usedStreamIDs q' = sq_usedStreamIDs q" and "sq_knownKeys q' = sq_knownKeys q"
      and "sq_next q' = fmdrop_fset (stream_keys q s) (sq_next q)"
      and "sq_inbound q' = fmdrop_fset (stream_keys q s) (sq_inbound q)"
      and "\<And>sk. fmlookup (sq_tombstones q') sk = None \<longleftrightarrow>
             sk |\<notin>| stream_keys q s \<and> fmlookup (sq_tombstones q) sk = None"
      and "fmlen (sq_tombstones q') \<le> sq_tombstoneLimit q"
      and "sq_window q' = sq_window q" and "sq_tombstoneLimit q' = sq_tombstoneLimit q"
      and "sq_activeLimit q' = sq_activeLimit q" and "sq_streamLimit q' = sq_streamLimit q"
proof (cases "q' = q \<and> (e \<noteq> None \<or> s |\<notin>| sq_activeStreams q)")
  case False
  let ?additional = "fcard (ffilter (\<lambda>key. fmlookup (sq_tombstones q) key = None) (stream_keys q s))"
  have guards: "validField s" "s |\<in>| sq_usedStreamIDs q" "s |\<in>| sq_activeStreams q"
    "fmlen (sq_tombstones q) + ?additional \<le> sq_tombstoneLimit q"
    using False assms by (auto simp: CloseStream_def Let_def split: if_splits)
  then obtain f where e: "e = None" and q': "q' = q
      \<lparr>sq_next := fmdrop_fset (stream_keys q s) (sq_next q),
       sq_inbound := fmdrop_fset (stream_keys q s) (sq_inbound q),
       sq_tombstones := sq_tombstones q ++\<^sub>f fmtabulate (stream_keys q s) f,
       sq_activeStreams := sq_activeStreams q |-| {|s|}\<rparr>"
    using assms unfolding CloseStream_def Let_def by auto
  show ?thesis
    by (rule closed) (use guards q' e in \<open>auto simp: fmlen_add_tabulate\<close>)
qed (use same in auto)

lemma OpenStream_cases:
  assumes "OpenStream q s = (q', e)"
  obtains (refused) r where "e = Some r" and "q' = q"
  | (opened) "e = None" and "validField s" and "s |\<notin>| sq_usedStreamIDs q"
      and "s |\<notin>| sq_activeStreams q" and "fcard (sq_activeStreams q) < sq_activeLimit q"
      and "fcard (sq_usedStreamIDs q) < sq_streamLimit q"
      and "q' = q\<lparr>sq_usedStreamIDs := finsert s (sq_usedStreamIDs q),
                   sq_activeStreams := finsert s (sq_activeStreams q)\<rparr>"
  using assms by (auto simp: OpenStream_def split: if_splits)

lemma Next_cases:
  assumes "Next q k d s = (q', r)"
  obtains (refused) x where "r = Inl x" and "q' = q"
  | (overflow) sk where "r = Inl ErrSequence" and "k \<noteq> 0"
      and "q' = q\<lparr>sq_knownKeys := finsert k (sq_knownKeys q)\<rparr>"
  | (issued) sk n where "r = Inr n" and "k \<noteq> 0" and "validDirection d" and "validField s"
      and "sk = \<lparr>sk_keyID = k, sk_direction = d, sk_streamID = s\<rparr>"
      and "fmlookup (sq_tombstones q) sk = None" and "n = fmget 0 (sq_next q) sk + 1" and "n \<noteq> 0"
      and "q' = q\<lparr>sq_knownKeys := finsert k (sq_knownKeys q), sq_next := fmupd sk n (sq_next q)\<rparr>"
proof (cases "k = 0 \<or> \<not> validDirection d \<or> \<not> validField s \<or>
    fmlookup (sq_tombstones q) \<lparr>sk_keyID = k, sk_direction = d, sk_streamID = s\<rparr> \<noteq> None")
  case True
  then have "\<exists>x. r = Inl x \<and> q' = q"
    using assms unfolding Next_def Let_def by (auto split: if_splits)
  with refused show ?thesis by blast
next
  case False
  let ?sk = "\<lparr>sk_keyID = k, sk_direction = d, sk_streamID = s\<rparr>"
  have eq: "(q', r) = (if fmget 0 (sq_next q) ?sk + 1 = 0
      then (q\<lparr>sq_knownKeys := finsert k (sq_knownKeys q)\<rparr>, Inl ErrSequence)
      else (q\<lparr>sq_knownKeys := finsert k (sq_knownKeys q),
              sq_next := fmupd ?sk (fmget 0 (sq_next q) ?sk + 1) (sq_next q)\<rparr>,
            Inr (fmget 0 (sq_next q) ?sk + 1)))"
    using False assms by (simp add: Next_def Let_def cong: if_cong)
  show ?thesis
  proof (cases "fmget 0 (sq_next q) ?sk + 1 = 0")
    case True
    with overflow eq False show ?thesis by simp
  next
    case no_wrap: False
    show ?thesis by (rule issued [of "fmget 0 (sq_next q) ?sk + 1" ?sk]) (use False no_wrap eq in simp_all)
  qed
qed

lemma AcceptInbound_cases:
  assumes "AcceptInbound q m = (q', e)"
  obtains (refused) x where "e = Some x" and "q' = q" and "x \<noteq> ErrReplay"
  | (windowed) w where "validRecordMetadata m" and "fmlookup (sq_tombstones q) (metadata_key m) = None"
      and "w = (case fmlookup (sq_inbound q) (metadata_key m) of
             None \<Rightarrow> newReplayWindow (sq_window q) | Some window \<Rightarrow> window)"
      and "e = (if snd (window_accept w (rm_StreamSequence m)) then None else Some ErrReplay)"
      and "q' = q\<lparr>sq_knownKeys := finsert (rm_KeyID m) (sq_knownKeys q),
             sq_inbound := fmupd (metadata_key m) (fst (window_accept w (rm_StreamSequence m))) (sq_inbound q)\<rparr>"
proof (cases "validRecordMetadata m \<and> fmlookup (sq_tombstones q) (metadata_key m) = None")
  case True
  show ?thesis
    by (rule windowed [OF conjunct1 [OF True] conjunct2 [OF True] refl];
        use True assms in \<open>cases "fmlookup (sq_inbound q) (metadata_key m)"\<close>;
        simp add: AcceptInbound_def Let_def split_beta prod_eq_iff; fastforce)
next
  case False
  show ?thesis
    by (rule refused [of "if validRecordMetadata m then ErrStreamClosed else ErrSequence"])
      (use False assms in \<open>auto simp: AcceptInbound_def Let_def split: if_splits\<close>)
qed

lemma RetireKey_lookup:
  "fmlookup (sq_next (Sequencer_RetireKey q k)) sk
     = (if k \<noteq> 0 \<and> sk_keyID sk = k then None else fmlookup (sq_next q) sk)"
  "fmlookup (sq_inbound (Sequencer_RetireKey q k)) sk
     = (if k \<noteq> 0 \<and> sk_keyID sk = k then None else fmlookup (sq_inbound q) sk)"
  "fmlookup (sq_tombstones (Sequencer_RetireKey q k)) sk
     = (if k \<noteq> 0 \<and> sk_keyID sk = k then None else fmlookup (sq_tombstones q) sk)"
  by (auto simp: Sequencer_RetireKey_def split: option.splits)

subsection \<open>The invariant\<close>

definition seq_ok :: "Sequencer \<Rightarrow> bool" where
  "seq_ok q \<longleftrightarrow>
     (\<forall>sk. fmlookup (sq_tombstones q) sk \<noteq> None \<longrightarrow>
        fmlookup (sq_next q) sk = None \<and> fmlookup (sq_inbound q) sk = None) \<and>
     (\<forall>sk. fmlookup (sq_next q) sk \<noteq> None \<or> fmlookup (sq_inbound q) sk \<noteq> None \<or>
        fmlookup (sq_tombstones q) sk \<noteq> None \<longrightarrow> sk_keyID sk |\<in>| sq_knownKeys q) \<and>
     (\<forall>sk w. fmlookup (sq_inbound q) sk = Some w \<longrightarrow> rw_width w = sq_window q) \<and>
     sq_activeStreams q |\<subseteq>| sq_usedStreamIDs q \<and>
     fcard (sq_activeStreams q) \<le> sq_activeLimit q \<and> fcard (sq_usedStreamIDs q) \<le> sq_streamLimit q \<and>
     fmlen (sq_tombstones q) \<le> sq_tombstoneLimit q"

definition seq_limits :: "Sequencer \<Rightarrow> u64 \<times> nat \<times> nat \<times> nat" where
  "seq_limits q = (sq_window q, sq_tombstoneLimit q, sq_activeLimit q, sq_streamLimit q)"

lemma window_accept_width [simp]: "rw_width (fst (window_accept w s)) = rw_width w"
  by (simp add: window_accept_def Let_def)

lemma seq_new_ok: "seq_ok (NewSequencerWithResourceLimits w t a s)"
  by (simp add: NewSequencerWithResourceLimits_def Let_def seq_ok_def)

lemma OpenStream_ok:
  assumes "seq_ok q" and "OpenStream q s = (q', e)"
  shows "seq_ok q' \<and> seq_limits q' = seq_limits q"
  using assms(2) by (cases rule: OpenStream_cases)
    (use assms(1) in \<open>auto simp: seq_ok_def seq_limits_def fcard_finsert_if\<close>)

lemma CloseStream_ok:
  assumes "seq_ok q" and "CloseStream q s t now = (q', e)"
  shows "seq_ok q' \<and> seq_limits q' = seq_limits q"
  using assms(2)
proof (cases rule: CloseStream_cases)
  case closed
  have "fcard (sq_activeStreams q |-| {|s|}) \<le> fcard (sq_activeStreams q)"
    by (rule fcard_mono) auto
  then show ?thesis
    using assms(1) closed by (auto simp: seq_ok_def seq_limits_def stream_keys_iff)
qed (use assms(1) in simp)

lemma Next_ok:
  assumes "seq_ok q" and "Next q k d s = (q', r)"
  shows "seq_ok q' \<and> seq_limits q' = seq_limits q"
  using assms(2) by (cases rule: Next_cases)
    (use assms(1) in \<open>auto simp: seq_ok_def seq_limits_def\<close>)

lemma AcceptInbound_ok:
  assumes "seq_ok q" and "AcceptInbound q m = (q', e)"
  shows "seq_ok q' \<and> seq_limits q' = seq_limits q"
  using assms(2)
proof (cases rule: AcceptInbound_cases)
  case (windowed w)
  have "rw_width w = sq_window q"
    using assms(1) windowed(3)
    by (auto simp: seq_ok_def newReplayWindow_def split: option.splits)
  moreover have "sk_keyID (metadata_key m) = rm_KeyID m" by (simp add: metadata_key_def)
  ultimately show ?thesis
    using assms(1) windowed(2,5) by (auto simp: seq_ok_def seq_limits_def)
qed (use assms(1) in simp)

lemma RetireKey_ok: "seq_ok q \<Longrightarrow> seq_ok (Sequencer_RetireKey q k) \<and> seq_limits (Sequencer_RetireKey q k) = seq_limits q"
  using fmlen_keep [of "\<lambda>key _. sk_keyID key \<noteq> k" "sq_tombstones q"]
  by (auto simp: seq_ok_def seq_limits_def Sequencer_RetireKey_def split: option.splits if_splits)

lemma Reset_ok: "seq_ok (Sequencer_Reset q) \<and> seq_limits (Sequencer_Reset q) = seq_limits q"
  by (simp add: Sequencer_Reset_def seq_ok_def seq_limits_def)

lemmas seq_ops_ok = OpenStream_ok [OF _ prod.collapse [symmetric]] CloseStream_ok [OF _ prod.collapse [symmetric]]
  Next_ok [OF _ prod.collapse [symmetric]] AcceptInbound_ok [OF _ prod.collapse [symmetric]]

lemma seq_step_ok: "seq_ok q \<Longrightarrow> seq_ok (fst (seq_step q c)) \<and> seq_limits (fst (seq_step q c)) = seq_limits q"
  by (cases c) (simp_all add: split_beta seq_ops_ok RetireKey_ok Reset_ok)

subsection \<open>What is spent\<close>

definition keeps :: "u64 \<Rightarrow> seq_call \<Rightarrow> bool" where
  "keeps k c \<longleftrightarrow> c \<noteq> CallRetireKey k \<and> c \<noteq> CallReset"

definition issue_spent :: "u64 \<Rightarrow> Sequencer \<Rightarrow> sequenceKey \<times> u64 \<Rightarrow> bool" where
  "issue_spent k q x \<longleftrightarrow> sk_keyID (fst x) = k \<and>
     (fmlookup (sq_tombstones q) (fst x) \<noteq> None \<or> snd x \<le> fmget 0 (sq_next q) (fst x))"

definition record_spent :: "u64 \<Rightarrow> Sequencer \<Rightarrow> sequenceKey \<times> u64 \<Rightarrow> bool" where
  "record_spent k q x \<longleftrightarrow> sk_keyID (fst x) = k \<and>
     (fmlookup (sq_tombstones q) (fst x) \<noteq> None \<or>
      (\<exists>w. fmlookup (sq_inbound q) (fst x) = Some w \<and> window_spent w (snd x)))"

lemma close_keeps_spent:
  assumes "CloseStream q s t now = (q', e)" and "issue_spent k q x \<or> record_spent k q x"
  shows "(issue_spent k q x \<longrightarrow> issue_spent k q' x) \<and> (record_spent k q x \<longrightarrow> record_spent k q' x)"
  using assms(1)
proof (cases rule: CloseStream_cases)
  case closed
  show ?thesis
  proof (cases "fst x |\<in>| stream_keys q s")
    case True
    then have "fmlookup (sq_tombstones q') (fst x) \<noteq> None" using closed(8) by blast
    then show ?thesis by (simp add: issue_spent_def record_spent_def)
  next
    case False
    then have "fmlookup (sq_next q') (fst x) = fmlookup (sq_next q) (fst x)"
      "fmlookup (sq_inbound q') (fst x) = fmlookup (sq_inbound q) (fst x)"
      "(fmlookup (sq_tombstones q') (fst x) = None) = (fmlookup (sq_tombstones q) (fst x) = None)"
      using closed by simp_all
    then show ?thesis by (simp add: issue_spent_def record_spent_def fmget_def)
  qed
qed simp

lemma next_fresh:
  assumes "Next q k d s = (q', Inr n)"
  shows "\<not> issue_spent k q (\<lparr>sk_keyID = k, sk_direction = d, sk_streamID = s\<rparr>, n) \<and>
    issue_spent k q' (\<lparr>sk_keyID = k, sk_direction = d, sk_streamID = s\<rparr>, n)"
  using assms
proof (cases rule: Next_cases)
  case (issued sk n')
  have "fmget 0 (sq_next q) sk < fmget 0 (sq_next q) sk + 1"
    by (rule word_Suc_no_wrap(1)) (use issued in simp)
  with issued show ?thesis by (auto simp: issue_spent_def)
qed simp_all

lemma next_keeps_spent:
  assumes "Next q k d s = (q', r)"
  shows "(issue_spent k' q x \<longrightarrow> issue_spent k' q' x) \<and> (record_spent k' q x \<longrightarrow> record_spent k' q' x)"
  using assms
proof (cases rule: Next_cases)
  case (issued sk n)
  have "fmget 0 (sq_next q) sk < fmget 0 (sq_next q) sk + 1"
    by (rule word_Suc_no_wrap(1)) (use issued in simp)
  with issued show ?thesis by (auto simp: issue_spent_def record_spent_def)
qed (simp_all add: issue_spent_def record_spent_def)

lemma inbound_keeps_spent:
  assumes "AcceptInbound q m = (q', e)"
  shows "(issue_spent k q x \<longrightarrow> issue_spent k q' x) \<and> (record_spent k q x \<longrightarrow> record_spent k q' x)"
  using assms
proof (cases rule: AcceptInbound_cases)
  case (windowed w)
  show ?thesis
  proof (cases "fst x = metadata_key m")
    case True
    with windowed(5) show ?thesis
      using window_spent_kept [of w "snd x" "rm_StreamSequence m"] windowed(2,3)
      by (auto simp: issue_spent_def record_spent_def)
  qed (use windowed(5) in \<open>auto simp: issue_spent_def record_spent_def\<close>)
qed simp

lemma inbound_fresh:
  assumes "AcceptInbound q m = (q', None)"
  shows "\<not> record_spent (rm_KeyID m) q (metadata_key m, rm_StreamSequence m) \<and>
    record_spent (rm_KeyID m) q' (metadata_key m, rm_StreamSequence m)"
  using assms
proof (cases rule: AcceptInbound_cases)
  case (windowed w)
  then have "snd (window_accept w (rm_StreamSequence m))" by (simp split: if_splits)
  with windowed show ?thesis
    using window_accept_iff [of w "rm_StreamSequence m"] window_spends [of w "rm_StreamSequence m"]
    by (auto simp: record_spent_def metadata_key_def)
qed simp

lemma retire_keeps_spent:
  "j \<noteq> k \<Longrightarrow> issue_spent k q x \<Longrightarrow> issue_spent k (Sequencer_RetireKey q j) x"
  "j \<noteq> k \<Longrightarrow> record_spent k q x \<Longrightarrow> record_spent k (Sequencer_RetireKey q j) x"
  by (auto simp: issue_spent_def record_spent_def RetireKey_lookup fmget_def)

lemma open_keeps_spent:
  assumes "OpenStream q s = (q', e)"
  shows "(issue_spent k q x \<longrightarrow> issue_spent k q' x) \<and> (record_spent k q x \<longrightarrow> record_spent k q' x)"
  using assms by (cases rule: OpenStream_cases) (auto simp: issue_spent_def record_spent_def)

lemma step_keeps_spent:
  assumes "keeps k c" and "seq_step q c = (q', r)"
  shows "(issue_spent k q x \<longrightarrow> issue_spent k q' x) \<and> (record_spent k q x \<longrightarrow> record_spent k q' x)"
proof (cases c)
  case (CallOpenStream s)
  then show ?thesis
    using assms open_keeps_spent [of q s q'] by (auto split: prod.splits)
next
  case (CallCloseStream s t now)
  then show ?thesis
    using assms close_keeps_spent [of q s t now q'] by (auto split: prod.splits)
next
  case (CallNext k' d s)
  then show ?thesis
    using assms next_keeps_spent [of q k' d s q'] by (auto split: prod.splits)
next
  case (CallAcceptInbound m)
  then show ?thesis
    using assms inbound_keeps_spent [of q m q'] by (auto split: prod.splits)
qed (use assms in \<open>auto simp: keeps_def intro: retire_keeps_spent\<close>)

lemma issued_cases:
  assumes "x \<in> set (issued k c r)"
  obtains d s n where "c = CallNext k d s" and "r = SeqNumber (Inr n)"
    and "x = (\<lparr>sk_keyID = k, sk_direction = d, sk_streamID = s\<rparr>, n)" and "issued k c r = [x]"
  using assms by (cases "(k, c, r)" rule: issued.cases) (auto split: if_splits)

lemma admitted_cases:
  assumes "x \<in> set (admitted_records k c r)"
  obtains m where "c = CallAcceptInbound m" and "r = SeqDone None" and "rm_KeyID m = k"
    and "x = (metadata_key m, rm_StreamSequence m)" and "admitted_records k c r = [x]"
  using assms by (cases "(k, c, r)" rule: admitted_records.cases) (auto split: if_splits)

lemma opened_cases:
  assumes "x \<in> set (opened c r)"
  obtains "c = CallOpenStream x" and "r = SeqDone None" and "opened c r = [x]"
  using assms by (cases "(c, r)" rule: opened.cases) (auto split: if_splits)

lemma distinct_from_singletons: "(\<And>x. x \<in> set xs \<Longrightarrow> xs = [x]) \<Longrightarrow> distinct xs"
proof (cases xs)
  case (Cons y ys)
  assume single: "\<And>x. x \<in> set xs \<Longrightarrow> xs = [x]"
  have "xs = [y]" by (rule single) (simp add: Cons)
  then show ?thesis by simp
qed simp

interpretation outbound: at_most_once seq_step "issued k" "issue_spent k" "keeps k" seq_ok for k
proof (unfold_locales, goal_cases)
  case (1 q c)
  then show ?case using seq_step_ok by blast
next
  case (2 q c q' r)
  have "distinct (issued k c r)" by (rule distinct_from_singletons) (auto elim: issued_cases)
  moreover have "\<not> issue_spent k q x \<and> issue_spent k q' x" if "x \<in> set (issued k c r)" for x
    using that
  proof (cases rule: issued_cases)
    case (1 d s n)
    with 2 have "Next q k d s = (q', Inr n)" by (auto split: prod.splits)
    with next_fresh 1 show ?thesis by simp
  qed
  ultimately show ?case by blast
next
  case (3 q c q' r x)
  then show ?case using step_keeps_spent by blast
qed

interpretation replay: at_most_once seq_step "admitted_records k" "record_spent k" "keeps k" seq_ok for k
proof (unfold_locales, goal_cases)
  case (1 q c)
  then show ?case using seq_step_ok by blast
next
  case (2 q c q' r)
  have "distinct (admitted_records k c r)" by (rule distinct_from_singletons) (auto elim: admitted_cases)
  moreover have "\<not> record_spent k q x \<and> record_spent k q' x" if "x \<in> set (admitted_records k c r)" for x
    using that
  proof (cases rule: admitted_cases)
    case (1 m)
    with 2 have "AcceptInbound q m = (q', None)" by (auto split: prod.splits)
    from inbound_fresh [OF this] 1 show ?thesis by simp
  qed
  ultimately show ?case by blast
next
  case (3 q c q' r x)
  then show ?case using step_keeps_spent by blast
qed

abbreviation stream_used :: "Sequencer \<Rightarrow> string \<Rightarrow> bool" where
  "stream_used q s \<equiv> s |\<in>| sq_usedStreamIDs q"

lemma step_used:
  assumes "c \<noteq> CallReset" and "seq_step q c = (q', r)" and "stream_used q s"
  shows "stream_used q' s"
proof (cases c)
  case (CallOpenStream t)
  then have "OpenStream q t = (q', snd (OpenStream q t))" using assms by (auto split: prod.splits)
  then show ?thesis by (cases rule: OpenStream_cases) (use assms in auto)
next
  case (CallCloseStream t u now)
  then have "CloseStream q t u now = (q', snd (CloseStream q t u now))" using assms by (auto split: prod.splits)
  then show ?thesis by (cases rule: CloseStream_cases) (use assms in auto)
next
  case (CallNext k d t)
  then have "Next q k d t = (q', snd (Next q k d t))" using assms by (auto split: prod.splits)
  then show ?thesis by (cases rule: Next_cases) (use assms in auto)
next
  case (CallAcceptInbound m)
  then have "AcceptInbound q m = (q', snd (AcceptInbound q m))" using assms by (auto split: prod.splits)
  then show ?thesis by (cases rule: AcceptInbound_cases) (use assms in auto)
qed (use assms in \<open>auto simp: Sequencer_RetireKey_def\<close>)

interpretation streams: at_most_once seq_step opened stream_used "\<lambda>c. c \<noteq> CallReset" seq_ok
proof (unfold_locales, goal_cases)
  case (1 q c)
  then show ?case using seq_step_ok by blast
next
  case (2 q c q' r)
  have "distinct (opened c r)" by (rule distinct_from_singletons) (auto elim: opened_cases)
  moreover have "\<not> stream_used q x \<and> stream_used q' x" if "x \<in> set (opened c r)" for x
    using that
  proof (cases rule: opened_cases)
    case 1
    with 2 have "OpenStream q x = (q', None)" by (auto split: prod.splits)
    then show ?thesis by (cases rule: OpenStream_cases) auto
  qed
  ultimately show ?case by blast
next
  case (3 q c q' r x)
  then show ?case using step_used by blast
qed

lemma tombstone_kept:
  assumes "keeps (sk_keyID sk) c" and "fmlookup (sq_tombstones q) sk \<noteq> None"
  shows "fmlookup (sq_tombstones (fst (seq_step q c))) sk \<noteq> None"
proof (cases c)
  case (CallOpenStream s)
  then show ?thesis using assms by (auto simp: OpenStream_def split_beta)
next
  case (CallCloseStream s t now)
  have "CloseStream q s t now = (fst (seq_step q c), snd (CloseStream q s t now))"
    using CallCloseStream by (simp add: split_beta)
  then show ?thesis by (cases rule: CloseStream_cases) (use assms in auto)
next
  case (CallNext k d s)
  have "Next q k d s = (fst (seq_step q c), snd (Next q k d s))"
    using CallNext by (simp add: split_beta)
  then show ?thesis by (cases rule: Next_cases) (use assms in auto)
next
  case (CallAcceptInbound m)
  have "AcceptInbound q m = (fst (seq_step q c), snd (AcceptInbound q m))"
    using CallAcceptInbound by (simp add: split_beta)
  then show ?thesis by (cases rule: AcceptInbound_cases) (use assms in auto)
qed (use assms in \<open>auto simp: keeps_def RetireKey_lookup\<close>)

lemma tombstone_forever:
  "\<forall>c\<in>set cs. keeps (sk_keyID sk) c \<Longrightarrow> fmlookup (sq_tombstones q) sk \<noteq> None \<Longrightarrow>
     fmlookup (sq_tombstones (run_calls seq_step q cs)) sk \<noteq> None"
  by (induction cs arbitrary: q) (simp_all del: not_None_eq add: tombstone_kept)

lemma seq_run_ok: "seq_ok q \<Longrightarrow> seq_ok (run_calls seq_step q cs) \<and> seq_limits (run_calls seq_step q cs) = seq_limits q"
  by (induction cs arbitrary: q) (auto simp: seq_step_ok)

subsection \<open>Properties\<close>

text \<open>
  C22. The replay window of width \<open>w\<close> is exact: after any attempts, a
  sequence is accepted precisely when it was not accepted before and is not
  below the sliding window, that is, more than \<open>w\<close> behind the largest
  accepted one; and it remembers at most \<open>w\<close> sequences.
\<close>

theorem replay_window_exact:
  "(let window = run_calls window_accept (newReplayWindow w) attempts;
        accepted = observe window_accept window_obs (newReplayWindow w) attempts
    in distinct accepted \<and> fcard (rw_seen window) \<le> unat w \<and>
      (\<forall>s. snd (window_accept window s) \<longleftrightarrow> s \<notin> set accepted \<and> window_low w accepted < s))"
proof -
  have "window_holds (newReplayWindow w) w []"
    by (simp add: window_holds_def newReplayWindow_def)
  from window_holds_run [OF this, of attempts]
  have holds: "window_holds (run_calls window_accept (newReplayWindow w) attempts) w
      (observe window_accept window_obs (newReplayWindow w) attempts)" by simp
  show ?thesis
    unfolding Let_def window_accept_iff window_holds_spent [OF holds]
    using window.observed_distinct window_seen_bounded [OF holds] by (auto simp: not_le)
qed

text \<open>
  C5. A key generation is used safely: from whatever state a sequencer got
  into, until that key is retired or the link reset, no outbound sequence is
  handed out twice for one direction and stream, and no inbound record is
  accepted twice, though streams are opened and closed and other keys come
  and go in between.
\<close>

theorem sequences_used_once:
  assumes "q = run_calls seq_step (NewSequencerWithResourceLimits w t a s) past"
    and "\<forall>c\<in>set cs. keeps k c"
  shows "distinct (observe seq_step (issued k) q cs) \<and>
    distinct (observe seq_step (admitted_records k) q cs)"
proof -
  have "seq_ok q" using seq_run_ok seq_new_ok assms(1) by blast
  then show ?thesis
    using outbound.observed_distinct replay.observed_distinct assms(2) by blast
qed

abbreviation "test_sequencer \<equiv> NewSequencerWithResourceLimits 4 8 2 4"

theorem sequences_used_once_witness:
  "distinct (observe seq_step (issued 1) test_sequencer
     [CallNext 1 1 ''s'', CallNext 2 1 ''s'', CallRetireKey 2, CallNext 1 1 ''s''])"
proof -
  have "\<forall>c\<in>set [CallNext 1 1 ''s'', CallNext 2 1 ''s'', CallRetireKey 2, CallNext 1 1 ''s'']. keeps 1 c"
    by (simp add: keeps_def)
  moreover have "test_sequencer = run_calls seq_step test_sequencer []" by simp
  ultimately show ?thesis using sequences_used_once by blast
qed

text \<open>
  Stream identifiers are never reused within a link and every set the
  sequencer keeps stays within its limit: until a reset each identifier opens
  at most once, and always the open streams are used ones, at most the active
  limit, at most the stream limit were ever used, at most the tombstone limit
  is remembered, and a closed entry has neither counter nor window left.
\<close>

theorem stream_ids_and_limits:
  assumes "q = run_calls seq_step (NewSequencerWithResourceLimits w t a s) past"
    and "CallReset \<notin> set cs" and "0 < t" "0 < a" "0 < s"
  shows "distinct (observe seq_step opened q cs) \<and>
    (\<forall>x\<in>set (observe seq_step opened q cs). \<not> stream_used q x) \<and>
    sq_activeStreams q |\<subseteq>| sq_usedStreamIDs q \<and> int (fcard (sq_activeStreams q)) \<le> a \<and>
    int (fcard (sq_usedStreamIDs q)) \<le> s \<and> int (fmlen (sq_tombstones q)) \<le> t \<and>
    (\<forall>sk. fmlookup (sq_tombstones q) sk \<noteq> None \<longrightarrow>
       fmlookup (sq_next q) sk = None \<and> fmlookup (sq_inbound q) sk = None)"
proof -
  have ok: "seq_ok q" and lim: "seq_limits q = seq_limits (NewSequencerWithResourceLimits w t a s)"
    using seq_run_ok seq_new_ok assms(1) by blast+
  have "\<forall>c\<in>set cs. c \<noteq> CallReset" using assms(2) by auto
  then have "distinct (observe seq_step opened q cs)"
    and "\<forall>x\<in>set (observe seq_step opened q cs). \<not> stream_used q x"
    using streams.observed_distinct [OF ok] streams.not_observed_again [OF ok] by blast+
  with ok lim assms(3-5) show ?thesis
    by (auto simp: seq_ok_def seq_limits_def NewSequencerWithResourceLimits_def Let_def)
qed

theorem stream_ids_and_limits_witness:
  "distinct (observe seq_step opened test_sequencer [CallOpenStream ''a'', CallOpenStream ''a''])"
  using stream_ids_and_limits [of test_sequencer 4 8 2 4 "[]" "[CallOpenStream ''a'', CallOpenStream ''a'']"]
  by simp

text \<open>
  A closed stream stays closed: once closing an open stream has
  succeeded, for every key known at that time both directions refuse it, to
  send and to receive, until that key is retired or the link reset.
\<close>

theorem closed_stream_refused:
  assumes "CloseStream q s closedAt now = (q1, None)" and "s |\<in>| sq_activeStreams q"
    and "k |\<in>| sq_knownKeys q" and "k \<noteq> 0" and "validDirection d"
    and "\<forall>c\<in>set cs. keeps k c" and "q2 = run_calls seq_step q1 cs"
    and "validRecordMetadata m" and "metadata_key m = \<lparr>sk_keyID = k, sk_direction = d, sk_streamID = s\<rparr>"
  shows "Next q2 k d s = (q2, Inl ErrStreamClosed) \<and>
    NextOutboundSequence q2 k d s = Inl ErrStreamClosed \<and>
    AcceptInbound q2 m = (q2, Some ErrStreamClosed)"
proof -
  let ?sk = "\<lparr>sk_keyID = k, sk_direction = d, sk_streamID = s\<rparr>"
  have "?sk |\<in>| stream_keys q s" using assms(3,5) by (simp add: stream_keys_iff)
  with assms(1,2) have "fmlookup (sq_tombstones q1) ?sk \<noteq> None"
    by (auto elim: CloseStream_cases)
  with tombstone_forever [of cs ?sk q1] assms(6,7) have closed: "fmlookup (sq_tombstones q2) ?sk \<noteq> None"
    by simp
  moreover have "validField s"
    using assms(8,9) by (simp add: validRecordMetadata_def metadata_key_def)
  ultimately show ?thesis
    using assms(4,5,8,9) by (simp add: Next_def NextOutboundSequence_def AcceptInbound_def)
qed

lemma valid_s: "validField ''s''" by code_simp

theorem closed_stream_refused_witness:
  "AcceptInbound (fst (CloseStream (run_calls seq_step test_sequencer [CallOpenStream ''s'', CallNext 1 1 ''s'']) ''s'' 5 9))
     \<lparr>rm_LinkID = ''s'', rm_ChannelID = ''s'', rm_StreamID = ''s'', rm_KeyID = 1, rm_Direction = 2,
      rm_FrameType = 5, rm_StreamSequence = 1\<rparr>
   = (fst (CloseStream (run_calls seq_step test_sequencer [CallOpenStream ''s'', CallNext 1 1 ''s'']) ''s'' 5 9),
      Some ErrStreamClosed)"
proof -
  let ?q = "run_calls seq_step test_sequencer [CallOpenStream ''s'', CallNext 1 1 ''s'']"
  let ?m = "\<lparr>rm_LinkID = ''s'', rm_ChannelID = ''s'', rm_StreamID = ''s'', rm_KeyID = 1, rm_Direction = 2,
      rm_FrameType = 5, rm_StreamSequence = 1\<rparr>"
  have dir: "validDirection 1" "validDirection 2"
    by (simp_all add: validDirection_def DirectionClientToDevice_def DirectionDeviceToClient_def)
  have "snd (CloseStream ?q ''s'' 5 9) = None" by code_simp
  then have close: "CloseStream ?q ''s'' 5 9 = (fst (CloseStream ?q ''s'' 5 9), None)"
    by (metis prod.collapse)
  have "''s'' |\<in>| sq_activeStreams ?q" and "1 |\<in>| sq_knownKeys ?q"
    by (simp_all add: OpenStream_def Next_def valid_s dir NewSequencerWithResourceLimits_def Let_def fmget_def)
  moreover have "validRecordMetadata ?m"
    by (simp add: validRecordMetadata_def valid_s dir FrameChannelOpen_def FrameLinkLeaseRenewed_def)
  ultimately show ?thesis
    using closed_stream_refused [OF close, of 1 2 "[]" "fst (CloseStream ?q ''s'' 5 9)" ?m] dir
    by (simp add: metadata_key_def)
qed

end
