(* ===== verification/Link_Rekey.thy ===== *)
theory Link_Rekey
  imports Peer_Crypto
begin

text \<open>
  The key generations of a link and the rekey exchange, \<open>LinkState\<close> of
  \<open>server/internal/peerprotocol/v2/link.go\<close>. The mutex makes each method one
  step. A pointer that may be nil is an option; cloning a message is the
  identity on values. Randomness is an argument: the ephemeral private key and
  the 18 bytes of the rekey identifier that the random source would give, or
  \<open>None\<close> if reading it fails. Overwriting a key (\<open>wipe\<close>) before dropping the
  reference has no effect on the state that remains.
\<close>

subsection \<open>Messages and state\<close>

datatype link_error =
    LinkCrypto crypto_error
  | ErrRekeyConflict
  | ErrLinkClosed
  | ErrKeyUnavailable
  | ErrRekeyRandom

record RekeyInit =
  ri_LinkID :: string
  ri_RekeyID :: string
  ri_NextKeyID :: u64
  ri_EphemeralPublic :: bytes
  ri_IdentitySignature :: bytes

record RekeyAck =
  ra_LinkID :: string
  ra_RekeyID :: string
  ra_NextKeyID :: u64
  ra_EphemeralPublic :: bytes
  ra_IdentitySignature :: bytes

record StreamBoundary =
  sb_StreamID :: string
  sb_NextSequence :: u64

record RekeyCommit =
  rc_LinkID :: string
  rc_RekeyID :: string
  rc_NextKeyID :: u64
  rc_Boundaries :: "StreamBoundary list"

record RekeyRetry =
  rr_Init :: "RekeyInit option"
  rr_Ack :: "RekeyAck option"
  rr_Commit :: "RekeyCommit option"
  rr_OldKeyID :: u64
  rr_Initiator :: bool

record rekeyPending =
  pe_id :: string
  pe_nextKeyID :: u64
  pe_initiator :: bool
  pe_privateKey :: "bytes option"
  pe_publicKey :: bytes
  pe_nextRootKey :: bytes
  pe_init :: "RekeyInit option"
  pe_ack :: "RekeyAck option"

record completedRekey =
  co_id :: string
  co_nextKeyID :: u64
  co_oldKeyID :: u64
  co_initiator :: bool
  co_init :: "RekeyInit option"
  co_ack :: "RekeyAck option"
  co_commit :: "RekeyCommit option"

definition completedRekeyHistoryLimit :: nat where "completedRekeyHistoryLimit = 4"

record LinkState =
  ls_linkID :: string
  ls_roots :: "(u64, bytes) fmap"
  ls_activeKey :: u64
  ls_pending :: "rekeyPending option"
  ls_completed :: "(string, completedRekey) fmap"
  ls_completedOrder :: "string list"
  ls_closed :: bool

definition NewLinkState :: "string \<Rightarrow> bytes \<Rightarrow> link_error + LinkState" where
  "NewLinkState linkID rootKey =
     (if \<not> validField linkID \<or> length rootKey \<noteq> RootKeySize then Inl (LinkCrypto ErrInvalidHandshake)
      else Inr \<lparr>ls_linkID = linkID, ls_roots = fmupd 1 rootKey fmempty, ls_activeKey = 1,
        ls_pending = None, ls_completed = fmempty, ls_completedOrder = [], ls_closed = False\<rparr>)"

subsection \<open>Encodings, signatures and key derivation\<close>

definition canonicalRekey :: "string \<Rightarrow> string \<Rightarrow> string \<Rightarrow> u64 \<Rightarrow> bytes \<Rightarrow> bytes" where
  "canonicalRekey kind linkID rekeyID keyID publicKey =
     appendBytes (appendFields [] [''wenzwork-remote-v2/rekey'', kind, linkID, rekeyID, uint64Text keyID])
       publicKey"

definition validRekeyFields :: "string \<Rightarrow> string \<Rightarrow> u64 \<Rightarrow> bytes \<Rightarrow> bool" where
  "validRekeyFields linkID rekeyID keyID publicKey \<longleftrightarrow>
     validField linkID \<and> validField rekeyID \<and> keyID > 1 \<and> length publicKey = X25519PublicKeySize"

definition signRekeyInit :: "primitives \<Rightarrow> bytes \<Rightarrow> RekeyInit \<Rightarrow> link_error + bytes" where
  "signRekeyInit P privateKey init =
     (if length privateKey \<noteq> Ed25519PrivateKeySize \<or>
         \<not> validRekeyFields (ri_LinkID init) (ri_RekeyID init) (ri_NextKeyID init) (ri_EphemeralPublic init)
      then Inl ErrRekeyConflict
      else Inr (ed25519_sign P privateKey (canonicalRekey ''init'' (ri_LinkID init) (ri_RekeyID init)
        (ri_NextKeyID init) (ri_EphemeralPublic init))))"

definition signRekeyAck :: "primitives \<Rightarrow> bytes \<Rightarrow> RekeyAck \<Rightarrow> link_error + bytes" where
  "signRekeyAck P privateKey ack =
     (if length privateKey \<noteq> Ed25519PrivateKeySize \<or>
         \<not> validRekeyFields (ra_LinkID ack) (ra_RekeyID ack) (ra_NextKeyID ack) (ra_EphemeralPublic ack)
      then Inl ErrRekeyConflict
      else Inr (ed25519_sign P privateKey (canonicalRekey ''ack'' (ra_LinkID ack) (ra_RekeyID ack)
        (ra_NextKeyID ack) (ra_EphemeralPublic ack))))"

definition validateRekeySignature :: "primitives \<Rightarrow> string \<Rightarrow> RekeyInit \<Rightarrow> bytes \<Rightarrow> link_error option" where
  "validateRekeySignature P linkID init publicKey =
     (if \<not> validRekeyFields (ri_LinkID init) (ri_RekeyID init) (ri_NextKeyID init) (ri_EphemeralPublic init) \<or>
         ri_LinkID init \<noteq> linkID \<or> length publicKey \<noteq> Ed25519PublicKeySize \<or>
         length (ri_IdentitySignature init) \<noteq> Ed25519SignatureSize \<or>
         \<not> ed25519_verify P publicKey (canonicalRekey ''init'' (ri_LinkID init) (ri_RekeyID init)
            (ri_NextKeyID init) (ri_EphemeralPublic init)) (ri_IdentitySignature init)
      then Some ErrRekeyConflict else None)"

definition validateRekeyInit :: "primitives \<Rightarrow> string \<Rightarrow> u64 \<Rightarrow> RekeyInit \<Rightarrow> bytes \<Rightarrow> link_error option" where
  "validateRekeyInit P linkID expectedKeyID init publicKey =
     (if ri_NextKeyID init \<noteq> expectedKeyID then Some ErrRekeyConflict
      else validateRekeySignature P linkID init publicKey)"

definition validateRekeySignatureAck :: "primitives \<Rightarrow> string \<Rightarrow> RekeyAck \<Rightarrow> bytes \<Rightarrow> link_error option" where
  "validateRekeySignatureAck P linkID ack publicKey =
     (if \<not> validRekeyFields (ra_LinkID ack) (ra_RekeyID ack) (ra_NextKeyID ack) (ra_EphemeralPublic ack) \<or>
         ra_LinkID ack \<noteq> linkID \<or> length publicKey \<noteq> Ed25519PublicKeySize \<or>
         length (ra_IdentitySignature ack) \<noteq> Ed25519SignatureSize \<or>
         \<not> ed25519_verify P publicKey (canonicalRekey ''ack'' (ra_LinkID ack) (ra_RekeyID ack)
            (ra_NextKeyID ack) (ra_EphemeralPublic ack)) (ra_IdentitySignature ack)
      then Some ErrRekeyConflict else None)"

definition validateRekeyAck :: "primitives \<Rightarrow> string \<Rightarrow> u64 \<Rightarrow> RekeyAck \<Rightarrow> bytes \<Rightarrow> link_error option" where
  "validateRekeyAck P linkID expectedKeyID ack publicKey =
     (if ra_NextKeyID ack \<noteq> expectedKeyID then Some ErrRekeyConflict
      else validateRekeySignatureAck P linkID ack publicKey)"

definition GenerateEphemeralKey :: "bytes option \<Rightarrow> link_error + bytes" where
  "GenerateEphemeralKey random =
     (case random of None \<Rightarrow> Inl (LinkCrypto ErrInvalidHandshake) | Some privateKey \<Rightarrow> Inr privateKey)"

definition X25519SharedSecret :: "primitives \<Rightarrow> bytes \<Rightarrow> bytes \<Rightarrow> link_error + bytes" where
  "X25519SharedSecret P privateKey peerPublicKey =
     (if length peerPublicKey \<noteq> X25519PublicKeySize then Inl (LinkCrypto ErrInvalidHandshake)
      else case x25519 P privateKey peerPublicKey of
          None \<Rightarrow> Inl (LinkCrypto ErrInvalidHandshake)
        | Some sharedSecret \<Rightarrow>
            if length sharedSecret \<noteq> X25519PublicKeySize then Inl (LinkCrypto ErrInvalidHandshake)
            else Inr sharedSecret)"

definition rekey_info :: "string \<Rightarrow> string \<Rightarrow> u64 \<Rightarrow> bytes" where
  "rekey_info linkID rekeyID keyID =
     appendFields [] [''wenzwork-remote-v2/rekey-root'', linkID, rekeyID, uint64Text keyID]"

definition deriveRekeyRoot ::
  "primitives \<Rightarrow> bytes \<Rightarrow> bytes \<Rightarrow> string \<Rightarrow> string \<Rightarrow> u64 \<Rightarrow> link_error + bytes" where
  "deriveRekeyRoot P oldRoot sharedSecret linkID rekeyID keyID =
     (if length oldRoot \<noteq> RootKeySize \<or> length sharedSecret \<noteq> X25519PublicKeySize \<or>
         \<not> validField linkID \<or> \<not> validField rekeyID \<or> keyID < 2
      then Inl ErrRekeyConflict
      else case hkdfBytes P sharedSecret (sha256 P oldRoot) (rekey_info linkID rekeyID keyID) RootKeySize of
          Inl err \<Rightarrow> Inl (LinkCrypto err)
        | Inr root \<Rightarrow> Inr root)"

text \<open>\<open>base64.RawURLEncoding\<close>: six bits a character, no padding.\<close>

definition base64_url :: "nat \<Rightarrow> char" where
  "base64_url n = ''ABCDEFGHIJKLMNOPQRSTUVWXYZabcdefghijklmnopqrstuvwxyz0123456789-_'' ! n"

fun base64_encode :: "bytes \<Rightarrow> string" where
  "base64_encode (a # b # c # rest) =
     (let v = unat a * 65536 + unat b * 256 + unat c
      in base64_url (v div 262144) # base64_url (v div 4096 mod 64) # base64_url (v div 64 mod 64) #
         base64_url (v mod 64) # base64_encode rest)"
| "base64_encode [a, b] =
     (let v = unat a * 65536 + unat b * 256
      in [base64_url (v div 262144), base64_url (v div 4096 mod 64), base64_url (v div 64 mod 64)])"
| "base64_encode [a] =
     (let v = unat a * 65536 in [base64_url (v div 262144), base64_url (v div 4096 mod 64)])"
| "base64_encode [] = []"

definition randomRekeyID :: "bytes option \<Rightarrow> link_error + string" where
  "randomRekeyID random =
     (case random of None \<Rightarrow> Inl ErrRekeyRandom | Some bytes \<Rightarrow> Inr (base64_encode bytes))"

subsection \<open>Comparing messages\<close>

definition canonicalBoundaries :: "StreamBoundary list \<Rightarrow> StreamBoundary list" where
  "canonicalBoundaries boundaries = sort_key sb_StreamID boundaries"

fun valid_boundaries_loop :: "string \<Rightarrow> StreamBoundary list \<Rightarrow> bool" where
  "valid_boundaries_loop previous [] = True"
| "valid_boundaries_loop previous (boundary # bs) =
     (if \<not> validField (sb_StreamID boundary) \<or> sb_NextSequence boundary = 0 \<or> sb_StreamID boundary = previous
      then False else valid_boundaries_loop (sb_StreamID boundary) bs)"

definition validBoundaries :: "StreamBoundary list \<Rightarrow> bool" where
  "validBoundaries boundaries = valid_boundaries_loop '''' (canonicalBoundaries boundaries)"

definition sameRekeyInit :: "RekeyInit option \<Rightarrow> RekeyInit option \<Rightarrow> bool" where
  "sameRekeyInit left right = (case (left, right) of (Some l, Some r) \<Rightarrow> l = r | _ \<Rightarrow> False)"

definition sameRekeyAck :: "RekeyAck option \<Rightarrow> RekeyAck option \<Rightarrow> bool" where
  "sameRekeyAck left right = (case (left, right) of (Some l, Some r) \<Rightarrow> l = r | _ \<Rightarrow> False)"

definition sameRekeyCommit :: "RekeyCommit option \<Rightarrow> RekeyCommit option \<Rightarrow> bool" where
  "sameRekeyCommit left right =
     (case (left, right) of
        (Some l, Some r) \<Rightarrow>
          rc_LinkID l = rc_LinkID r \<and> rc_RekeyID l = rc_RekeyID r \<and> rc_NextKeyID l = rc_NextKeyID r \<and>
          validBoundaries (rc_Boundaries l) \<and> validBoundaries (rc_Boundaries r) \<and>
          canonicalBoundaries (rc_Boundaries l) = canonicalBoundaries (rc_Boundaries r)
      | _ \<Rightarrow> False)"

subsection \<open>History and activation\<close>

definition completedRekeyLocked :: "LinkState \<Rightarrow> string \<Rightarrow> u64 \<Rightarrow> completedRekey option" where
  "completedRekeyLocked state rekeyID nextKeyID =
     (if rekeyID = '''' then None
      else case fmlookup (ls_completed state) rekeyID of
          None \<Rightarrow> None
        | Some value \<Rightarrow> if co_nextKeyID value \<noteq> nextKeyID then None else Some value)"

fun trim_completed ::
  "string list \<Rightarrow> (string, completedRekey) fmap \<Rightarrow> string list \<times> (string, completedRekey) fmap" where
  "trim_completed [] completed = ([], completed)"
| "trim_completed (oldest # order) completed =
     (if length (oldest # order) > completedRekeyHistoryLimit
      then trim_completed order (fmdrop oldest completed)
      else (oldest # order, completed))"

definition rememberCompletedLocked :: "LinkState \<Rightarrow> rekeyPending \<Rightarrow> RekeyCommit \<Rightarrow> LinkState" where
  "rememberCompletedLocked state pending commit =
     (let order = (if fmlookup (ls_completed state) (pe_id pending) \<noteq> None
                   then remove1 (pe_id pending) (ls_completedOrder state) else ls_completedOrder state);
          completed = fmupd (pe_id pending)
            \<lparr>co_id = pe_id pending, co_nextKeyID = pe_nextKeyID pending,
             co_oldKeyID = pe_nextKeyID pending - 1, co_initiator = pe_initiator pending,
             co_init = pe_init pending, co_ack = pe_ack pending, co_commit = Some commit\<rparr>
            (ls_completed state)
      in case trim_completed (order @ [pe_id pending]) completed of (order, completed) \<Rightarrow>
           state\<lparr>ls_completed := completed, ls_completedOrder := order\<rparr>)"

definition activatePendingLocked :: "LinkState \<Rightarrow> RekeyCommit \<Rightarrow> LinkState" where
  "activatePendingLocked state commit =
     (case ls_pending state of
        None \<Rightarrow> state
      | Some pending \<Rightarrow>
          if length (pe_nextRootKey pending) \<noteq> RootKeySize then state
          else
            (let state = rememberCompletedLocked state pending commit;
                 state = state\<lparr>ls_roots := fmupd (pe_nextKeyID pending) (pe_nextRootKey pending) (ls_roots state),
                   ls_activeKey := pe_nextKeyID pending, ls_pending := None\<rparr>
             in state\<lparr>ls_roots := fmkeep (\<lambda>keyID _. \<not> keyID + 1 < ls_activeKey state) (ls_roots state)\<rparr>))"

subsection \<open>Operations\<close>

definition RootKey :: "LinkState \<Rightarrow> u64 \<Rightarrow> link_error + bytes" where
  "RootKey state keyID =
     (if keyID = 0 then Inl ErrKeyUnavailable
      else if ls_closed state then Inl ErrLinkClosed
      else if length (fmget [] (ls_roots state) keyID) \<noteq> RootKeySize then Inl ErrKeyUnavailable
      else Inr (fmget [] (ls_roots state) keyID))"

definition InitiateRekey ::
  "primitives \<Rightarrow> LinkState \<Rightarrow> bytes \<Rightarrow> bytes option \<Rightarrow> bytes option \<Rightarrow> LinkState \<times> (link_error + RekeyInit)" where
  "InitiateRekey P state identityPrivate keyRandom idRandom =
     (if length identityPrivate \<noteq> Ed25519PrivateKeySize then (state, Inl (LinkCrypto ErrInvalidHandshake))
      else if ls_closed state then (state, Inl ErrLinkClosed)
      else case ls_pending state of
          Some pending \<Rightarrow>
            (case pe_init pending of
               Some init \<Rightarrow> (state, Inr init)
             | None \<Rightarrow> (state, Inl ErrRekeyConflict))
        | None \<Rightarrow>
            (case GenerateEphemeralKey keyRandom of
               Inl err \<Rightarrow> (state, Inl err)
             | Inr privateKey \<Rightarrow>
                 (case randomRekeyID idRandom of
                    Inl err \<Rightarrow> (state, Inl err)
                  | Inr rekeyID \<Rightarrow>
                      (let nextKeyID = ls_activeKey state + 1;
                           publicKey = x25519_public P privateKey;
                           init = \<lparr>ri_LinkID = ls_linkID state, ri_RekeyID = rekeyID,
                             ri_NextKeyID = nextKeyID, ri_EphemeralPublic = publicKey,
                             ri_IdentitySignature = []\<rparr>
                       in case signRekeyInit P identityPrivate init of
                            Inl err \<Rightarrow> (state, Inl err)
                          | Inr signature \<Rightarrow>
                              (let init = init\<lparr>ri_IdentitySignature := signature\<rparr>
                               in (state\<lparr>ls_pending := Some \<lparr>pe_id = rekeyID, pe_nextKeyID = nextKeyID,
                                     pe_initiator = True, pe_privateKey = Some privateKey,
                                     pe_publicKey = publicKey, pe_nextRootKey = [], pe_init = Some init,
                                     pe_ack = None\<rparr>\<rparr>, Inr init))))))"

text \<open>The part of \<open>ReceiveRekeyInit\<close> that answers a new request.\<close>

definition respond_rekey ::
  "primitives \<Rightarrow> LinkState \<Rightarrow> RekeyInit \<Rightarrow> bytes \<Rightarrow> bytes option \<Rightarrow> LinkState \<times> (link_error + RekeyAck)" where
  "respond_rekey P state init responderPrivate keyRandom =
     (case GenerateEphemeralKey keyRandom of
        Inl err \<Rightarrow> (state, Inl err)
      | Inr privateKey \<Rightarrow>
          (case X25519SharedSecret P privateKey (ri_EphemeralPublic init) of
             Inl err \<Rightarrow> (state, Inl err)
           | Inr sharedSecret \<Rightarrow>
               (case deriveRekeyRoot P (fmget [] (ls_roots state) (ls_activeKey state)) sharedSecret
                   (ls_linkID state) (ri_RekeyID init) (ri_NextKeyID init) of
                  Inl err \<Rightarrow> (state, Inl err)
                | Inr nextRootKey \<Rightarrow>
                    (let ack = \<lparr>ra_LinkID = ls_linkID state, ra_RekeyID = ri_RekeyID init,
                       ra_NextKeyID = ri_NextKeyID init, ra_EphemeralPublic = x25519_public P privateKey,
                       ra_IdentitySignature = []\<rparr>
                     in case signRekeyAck P responderPrivate ack of
                          Inl err \<Rightarrow> (state, Inl err)
                        | Inr signature \<Rightarrow>
                            (let ack = ack\<lparr>ra_IdentitySignature := signature\<rparr>
                             in (state\<lparr>ls_pending := Some \<lparr>pe_id = ri_RekeyID init,
                                   pe_nextKeyID = ri_NextKeyID init, pe_initiator = False,
                                   pe_privateKey = Some privateKey, pe_publicKey = ra_EphemeralPublic ack,
                                   pe_nextRootKey = nextRootKey, pe_init = Some init, pe_ack = Some ack\<rparr>\<rparr>,
                                 Inr ack))))))"

definition ReceiveRekeyInit ::
  "primitives \<Rightarrow> LinkState \<Rightarrow> RekeyInit \<Rightarrow> bytes \<Rightarrow> bytes \<Rightarrow> bytes option \<Rightarrow>
     LinkState \<times> (link_error + RekeyAck)" where
  "ReceiveRekeyInit P state init initiatorPublic responderPrivate keyRandom =
     (if length initiatorPublic \<noteq> Ed25519PublicKeySize \<or> length responderPrivate \<noteq> Ed25519PrivateKeySize
      then (state, Inl (LinkCrypto ErrInvalidHandshake))
      else if ls_closed state then (state, Inl ErrLinkClosed)
      else case completedRekeyLocked state (ri_RekeyID init) (ri_NextKeyID init) of
          Some completed \<Rightarrow>
            if co_init completed = None \<or> co_ack completed = None \<or>
               \<not> sameRekeyInit (co_init completed) (Some init) \<or>
               validateRekeySignature P (ls_linkID state) init initiatorPublic \<noteq> None
            then (state, Inl ErrRekeyConflict)
            else (state, Inr (the (co_ack completed)))
        | None \<Rightarrow>
            (case validateRekeyInit P (ls_linkID state) (ls_activeKey state + 1) init initiatorPublic of
               Some err \<Rightarrow> (state, Inl err)
             | None \<Rightarrow>
                 (case ls_pending state of
                    Some pending \<Rightarrow>
                      if pe_id pending = ri_RekeyID init \<and> pe_nextKeyID pending = ri_NextKeyID init \<and>
                         pe_ack pending \<noteq> None \<and> sameRekeyInit (pe_init pending) (Some init)
                      then (state, Inr (the (pe_ack pending)))
                      else (state, Inl ErrRekeyConflict)
                  | None \<Rightarrow> respond_rekey P state init responderPrivate keyRandom)))"

definition ReceiveRekeyAck ::
  "primitives \<Rightarrow> LinkState \<Rightarrow> RekeyAck \<Rightarrow> bytes \<Rightarrow> LinkState \<times> link_error option" where
  "ReceiveRekeyAck P state ack responderPublic =
     (if length responderPublic \<noteq> Ed25519PublicKeySize then (state, Some (LinkCrypto ErrInvalidHandshake))
      else if ls_closed state then (state, Some ErrLinkClosed)
      else case completedRekeyLocked state (ra_RekeyID ack) (ra_NextKeyID ack) of
          Some completed \<Rightarrow>
            if co_ack completed = None \<or> \<not> sameRekeyAck (co_ack completed) (Some ack) \<or>
               validateRekeySignatureAck P (ls_linkID state) ack responderPublic \<noteq> None
            then (state, Some ErrRekeyConflict)
            else (state, None)
        | None \<Rightarrow>
            (case ls_pending state of
               None \<Rightarrow> (state, Some ErrRekeyConflict)
             | Some pending \<Rightarrow>
                 if pe_id pending \<noteq> ra_RekeyID ack \<or> pe_nextKeyID pending \<noteq> ra_NextKeyID ack \<or>
                    \<not> pe_initiator pending
                 then (state, Some ErrRekeyConflict)
                 else
                   (case validateRekeyAck P (ls_linkID state) (ls_activeKey state + 1) ack responderPublic of
                      Some err \<Rightarrow> (state, Some err)
                    | None \<Rightarrow>
                        if pe_ack pending \<noteq> None
                        then (if \<not> sameRekeyAck (pe_ack pending) (Some ack)
                              then (state, Some ErrRekeyConflict) else (state, None))
                        else
                          (case pe_privateKey pending of
                             None \<Rightarrow> (state, Some ErrRekeyConflict)
                           | Some privateKey \<Rightarrow>
                               (case X25519SharedSecret P privateKey (ra_EphemeralPublic ack) of
                                  Inl err \<Rightarrow> (state, Some err)
                                | Inr sharedSecret \<Rightarrow>
                                    (case deriveRekeyRoot P (fmget [] (ls_roots state) (ls_activeKey state))
                                        sharedSecret (ls_linkID state) (ra_RekeyID ack) (ra_NextKeyID ack) of
                                       Inl err \<Rightarrow> (state, Some err)
                                     | Inr nextRootKey \<Rightarrow>
                                         (state\<lparr>ls_pending := Some (pending\<lparr>pe_nextRootKey := nextRootKey,
                                            pe_ack := Some ack, pe_privateKey := None\<rparr>)\<rparr>, None)))))))"

definition CommitRekey ::
  "LinkState \<Rightarrow> StreamBoundary list \<Rightarrow> LinkState \<times> (link_error + RekeyCommit)" where
  "CommitRekey state boundaries =
     (if ls_closed state then (state, Inl ErrLinkClosed)
      else case ls_pending state of
          None \<Rightarrow>
            (if ls_completedOrder state \<noteq> []
             then (case fmlookup (ls_completed state) (last (ls_completedOrder state)) of
                 Some completed \<Rightarrow>
                   (case co_commit completed of
                      Some commit \<Rightarrow> (state, Inr commit)
                    | None \<Rightarrow> (state, Inl ErrRekeyConflict))
               | None \<Rightarrow> (state, Inl ErrRekeyConflict))
             else (state, Inl ErrRekeyConflict))
        | Some pending \<Rightarrow>
            if \<not> pe_initiator pending \<or> length (pe_nextRootKey pending) \<noteq> RootKeySize \<or>
               \<not> validBoundaries boundaries
            then (state, Inl ErrRekeyConflict)
            else
              (let commit = \<lparr>rc_LinkID = ls_linkID state, rc_RekeyID = pe_id pending,
                 rc_NextKeyID = pe_nextKeyID pending, rc_Boundaries = canonicalBoundaries boundaries\<rparr>
               in (activatePendingLocked state commit, Inr commit)))"

definition LastRekeyRetry :: "LinkState \<Rightarrow> link_error + RekeyRetry" where
  "LastRekeyRetry state =
     (if ls_closed state then Inl ErrLinkClosed
      else if ls_completedOrder state = [] then Inl ErrKeyUnavailable
      else case fmlookup (ls_completed state) (last (ls_completedOrder state)) of
          None \<Rightarrow> Inl ErrKeyUnavailable
        | Some completed \<Rightarrow>
            Inr \<lparr>rr_Init = co_init completed, rr_Ack = co_ack completed, rr_Commit = co_commit completed,
              rr_OldKeyID = co_oldKeyID completed, rr_Initiator = co_initiator completed\<rparr>)"

definition ReceiveRekeyCommit :: "LinkState \<Rightarrow> RekeyCommit \<Rightarrow> LinkState \<times> link_error option" where
  "ReceiveRekeyCommit state commit =
     (if ls_closed state then (state, Some ErrLinkClosed)
      else if \<not> validBoundaries (rc_Boundaries commit) \<or> rc_LinkID commit \<noteq> ls_linkID state
      then (state, Some ErrRekeyConflict)
      else case completedRekeyLocked state (rc_RekeyID commit) (rc_NextKeyID commit) of
          Some completed \<Rightarrow>
            if co_commit completed = None \<or> \<not> sameRekeyCommit (co_commit completed) (Some commit)
            then (state, Some ErrRekeyConflict) else (state, None)
        | None \<Rightarrow>
            (case ls_pending state of
               None \<Rightarrow> (state, Some ErrRekeyConflict)
             | Some pending \<Rightarrow>
                 if length (pe_nextRootKey pending) \<noteq> RootKeySize \<or> pe_initiator pending \<or>
                    rc_RekeyID commit \<noteq> pe_id pending \<or> rc_NextKeyID commit \<noteq> pe_nextKeyID pending
                 then (state, Some ErrRekeyConflict)
                 else (activatePendingLocked state commit, None)))"

definition Link_RetireKey :: "LinkState \<Rightarrow> u64 \<Rightarrow> LinkState \<times> bool" where
  "Link_RetireKey state keyID =
     (if keyID = 0 then (state, False)
      else if keyID = ls_activeKey state then (state, False)
      else if length (fmget [] (ls_roots state) keyID) > 0
      then (state\<lparr>ls_roots := fmdrop keyID (ls_roots state)\<rparr>, True)
      else (state, False))"

definition Link_Close :: "LinkState \<Rightarrow> LinkState" where
  "Link_Close state =
     (if ls_closed state then state
      else state\<lparr>ls_closed := True, ls_roots := fmempty, ls_pending := None, ls_completed := fmempty,
                 ls_completedOrder := []\<rparr>)"

subsection \<open>Every operation, case by case\<close>

lemma InitiateRekey_cases:
  assumes "InitiateRekey P s k kr ir = (s', r)"
  obtains (same) "s' = s"
  | (started) p i e where "\<not> ls_closed s" and "ls_pending s = None" and "r = Inr i"
      and "s' = s\<lparr>ls_pending := Some p\<rparr>" and "ls_activeKey s + 1 > 1"
      and "p = \<lparr>pe_id = ri_RekeyID i, pe_nextKeyID = ls_activeKey s + 1, pe_initiator = True,
             pe_privateKey = Some e, pe_publicKey = ri_EphemeralPublic i, pe_nextRootKey = [],
             pe_init = Some i, pe_ack = None\<rparr>"
      and "ri_NextKeyID i = ls_activeKey s + 1" and "ri_LinkID i = ls_linkID s"
      and "validField (ri_RekeyID i)"
proof (cases "s' = s")
  case False
  let ?i = "\<lambda>e ident. \<lparr>ri_LinkID = ls_linkID s, ri_RekeyID = ident, ri_NextKeyID = ls_activeKey s + 1,
    ri_EphemeralPublic = x25519_public P e, ri_IdentitySignature = []\<rparr>"
  have guards: "length k = Ed25519PrivateKeySize" "\<not> ls_closed s"
    using False assms by (auto simp: InitiateRekey_def split: if_splits)
  moreover have none: "ls_pending s = None"
    using False assms guards by (auto simp: InitiateRekey_def split: option.splits)
  moreover obtain e where e: "GenerateEphemeralKey kr = Inr e"
    using False assms guards none by (cases "GenerateEphemeralKey kr") (simp_all add: InitiateRekey_def)
  moreover obtain ident where ident: "randomRekeyID ir = Inr ident"
    using False assms guards none e by (cases "randomRekeyID ir") (simp_all add: InitiateRekey_def)
  moreover obtain g where g: "signRekeyInit P k (?i e ident) = Inr g"
    using False assms guards none e ident
    by (cases "signRekeyInit P k (?i e ident)") (simp_all add: InitiateRekey_def Let_def)
  ultimately show ?thesis
    using assms
    by (intro started [of "(?i e ident)\<lparr>ri_IdentitySignature := g\<rparr>" _ e])
      (auto simp: InitiateRekey_def Let_def signRekeyInit_def validRekeyFields_def split: if_splits)
qed (rule same)

lemma respond_rekey_cases:
  assumes "respond_rekey P s i k kr = (s', r)"
  obtains (same) e where "s' = s" and "r = Inl e"
  | (responded) p a e root where "r = Inr a" and "s' = s\<lparr>ls_pending := Some p\<rparr>"
      and "p = \<lparr>pe_id = ri_RekeyID i, pe_nextKeyID = ri_NextKeyID i, pe_initiator = False,
             pe_privateKey = Some e, pe_publicKey = ra_EphemeralPublic a, pe_nextRootKey = root,
             pe_init = Some i, pe_ack = Some a\<rparr>"
      and "ra_RekeyID a = ri_RekeyID i" and "ra_NextKeyID a = ri_NextKeyID i"
      and "\<exists>secret. deriveRekeyRoot P (fmget [] (ls_roots s) (ls_activeKey s)) secret
             (ls_linkID s) (ri_RekeyID i) (ri_NextKeyID i) = Inr root"
proof (cases r)
  case (Inl e)
  with assms have "s' = s"
    by (auto simp: respond_rekey_def Let_def split: option.splits sum.splits)
  with Inl same show ?thesis by blast
next
  case (Inr a)
  let ?root = "\<lambda>z. deriveRekeyRoot P (fmget [] (ls_roots s) (ls_activeKey s)) z
    (ls_linkID s) (ri_RekeyID i) (ri_NextKeyID i)"
  let ?a = "\<lambda>e. \<lparr>ra_LinkID = ls_linkID s, ra_RekeyID = ri_RekeyID i, ra_NextKeyID = ri_NextKeyID i,
    ra_EphemeralPublic = x25519_public P e, ra_IdentitySignature = []\<rparr>"
  obtain e where e: "GenerateEphemeralKey kr = Inr e"
    using Inr assms by (cases "GenerateEphemeralKey kr") (simp_all add: respond_rekey_def)
  moreover obtain z where z: "X25519SharedSecret P e (ri_EphemeralPublic i) = Inr z"
    using Inr assms e by (cases "X25519SharedSecret P e (ri_EphemeralPublic i)") (simp_all add: respond_rekey_def)
  moreover obtain root where root: "?root z = Inr root"
    using Inr assms e z by (cases "?root z") (simp_all add: respond_rekey_def)
  moreover obtain g where g: "signRekeyAck P k (?a e) = Inr g"
    using Inr assms e z root by (cases "signRekeyAck P k (?a e)") (simp_all add: respond_rekey_def Let_def)
  ultimately show ?thesis
    using Inr assms by (intro responded [of "(?a e)\<lparr>ra_IdentitySignature := g\<rparr>" _ e root])
      (auto simp: respond_rekey_def Let_def)
qed

lemma deriveRekeyRoot_size:
  "digest_sizes P \<Longrightarrow> deriveRekeyRoot P old z l i k = Inr root \<Longrightarrow>
     length root = RootKeySize \<and> validField i \<and> validField l \<and> 2 \<le> k"
  by (auto simp: deriveRekeyRoot_def hkdfBytes_def digest_sizes_def split: if_splits option.splits sum.splits)

lemma ReceiveRekeyInit_cases:
  assumes "ReceiveRekeyInit P s i ipub k kr = (s', r)"
  obtains (same) "s' = s"
  | (responded) p a e root where "\<not> ls_closed s" and "ls_pending s = None"
      and "completedRekeyLocked s (ri_RekeyID i) (ri_NextKeyID i) = None" and "r = Inr a"
      and "s' = s\<lparr>ls_pending := Some p\<rparr>" and "ri_NextKeyID i = ls_activeKey s + 1"
      and "validateRekeySignature P (ls_linkID s) i ipub = None"
      and "p = \<lparr>pe_id = ri_RekeyID i, pe_nextKeyID = ri_NextKeyID i, pe_initiator = False,
             pe_privateKey = Some e, pe_publicKey = ra_EphemeralPublic a, pe_nextRootKey = root,
             pe_init = Some i, pe_ack = Some a\<rparr>"
      and "ra_RekeyID a = ri_RekeyID i" and "ra_NextKeyID a = ri_NextKeyID i"
      and "\<exists>secret. deriveRekeyRoot P (fmget [] (ls_roots s) (ls_activeKey s)) secret
             (ls_linkID s) (ri_RekeyID i) (ri_NextKeyID i) = Inr root"
proof (cases "s' = s")
  case False
  have guards: "length ipub = Ed25519PublicKeySize" "length k = Ed25519PrivateKeySize" "\<not> ls_closed s"
    using False assms by (auto simp: ReceiveRekeyInit_def split: if_splits)
  moreover have fresh: "completedRekeyLocked s (ri_RekeyID i) (ri_NextKeyID i) = None"
    using False assms guards by (auto simp: ReceiveRekeyInit_def split: option.splits if_splits)
  moreover have val: "validateRekeyInit P (ls_linkID s) (ls_activeKey s + 1) i ipub = None"
    using False assms guards fresh by (auto simp: ReceiveRekeyInit_def split: option.splits)
  moreover have none: "ls_pending s = None"
    using False assms guards fresh val by (auto simp: ReceiveRekeyInit_def split: option.splits if_splits)
  ultimately have res: "respond_rekey P s i k kr = (s', r)"
    using assms by (simp add: ReceiveRekeyInit_def)
  from val have "ri_NextKeyID i = ls_activeKey s + 1" "validateRekeySignature P (ls_linkID s) i ipub = None"
    by (simp_all add: validateRekeyInit_def split: if_splits)
  with res guards fresh none show ?thesis
    by (cases rule: respond_rekey_cases) (use False responded in auto)
qed (rule same)

lemma ReceiveRekeyAck_cases:
  assumes "ReceiveRekeyAck P s a rpub = (s', r)"
  obtains (same) "s' = s"
  | (keyed) p root where "\<not> ls_closed s" and "ls_pending s = Some p" and "pe_initiator p"
      and "pe_ack p = None" and "r = None" and "pe_id p = ra_RekeyID a"
      and "pe_nextKeyID p = ra_NextKeyID a" and "ra_NextKeyID a = ls_activeKey s + 1"
      and "s' = s\<lparr>ls_pending := Some (p\<lparr>pe_nextRootKey := root, pe_ack := Some a, pe_privateKey := None\<rparr>)\<rparr>"
      and "\<exists>secret. deriveRekeyRoot P (fmget [] (ls_roots s) (ls_activeKey s)) secret
             (ls_linkID s) (ra_RekeyID a) (ra_NextKeyID a) = Inr root"
proof (cases "s' = s")
  case False
  let ?root = "\<lambda>z. deriveRekeyRoot P (fmget [] (ls_roots s) (ls_activeKey s)) z
    (ls_linkID s) (ra_RekeyID a) (ra_NextKeyID a)"
  have guards: "length rpub = Ed25519PublicKeySize" "\<not> ls_closed s"
    using False assms by (auto simp: ReceiveRekeyAck_def split: if_splits)
  moreover have fresh: "completedRekeyLocked s (ra_RekeyID a) (ra_NextKeyID a) = None"
    using False assms guards by (auto simp: ReceiveRekeyAck_def split: option.splits if_splits)
  moreover obtain p where p: "ls_pending s = Some p"
    using False assms guards fresh by (auto simp: ReceiveRekeyAck_def split: option.splits)
  moreover have ids: "pe_id p = ra_RekeyID a" "pe_nextKeyID p = ra_NextKeyID a" "pe_initiator p"
    using False assms guards fresh p by (auto simp: ReceiveRekeyAck_def split: if_splits)
  moreover have val: "validateRekeyAck P (ls_linkID s) (ls_activeKey s + 1) a rpub = None"
    using False assms guards fresh p ids by (auto simp: ReceiveRekeyAck_def split: option.splits)
  moreover have none: "pe_ack p = None"
    using False assms guards fresh p ids val by (auto simp: ReceiveRekeyAck_def split: if_splits)
  moreover obtain e where e: "pe_privateKey p = Some e"
    using False assms guards fresh p ids val none by (auto simp: ReceiveRekeyAck_def split: option.splits)
  moreover obtain z where z: "X25519SharedSecret P e (ra_EphemeralPublic a) = Inr z"
    using False assms guards fresh p ids val none e
    by (cases "X25519SharedSecret P e (ra_EphemeralPublic a)") (simp_all add: ReceiveRekeyAck_def)
  moreover obtain root where "?root z = Inr root"
    using False assms guards fresh p ids val none e z by (cases "?root z") (simp_all add: ReceiveRekeyAck_def)
  ultimately show ?thesis
    using assms by (intro keyed [of p root])
      (auto simp: ReceiveRekeyAck_def validateRekeyAck_def split: if_splits)
qed (rule same)

lemma CommitRekey_cases:
  assumes "CommitRekey s bs = (s', r)"
  obtains (same) "s' = s"
  | (committed) p c where "\<not> ls_closed s" and "ls_pending s = Some p" and "pe_initiator p"
      and "length (pe_nextRootKey p) = RootKeySize" and "validBoundaries bs" and "r = Inr c"
      and "c = \<lparr>rc_LinkID = ls_linkID s, rc_RekeyID = pe_id p, rc_NextKeyID = pe_nextKeyID p,
             rc_Boundaries = canonicalBoundaries bs\<rparr>"
      and "s' = activatePendingLocked s c"
proof (cases "s' = s")
  case False
  then have "\<not> ls_closed s" using assms by (auto simp: CommitRekey_def)
  moreover obtain p where "ls_pending s = Some p"
    using False assms by (auto simp: CommitRekey_def split: if_splits option.splits)
  ultimately show ?thesis
    using False assms by (intro committed [of p]) (auto simp: CommitRekey_def Let_def split: if_splits)
qed (rule same)

lemma ReceiveRekeyCommit_cases:
  assumes "ReceiveRekeyCommit s c = (s', r)"
  obtains (same) "s' = s"
  | (committed) p where "\<not> ls_closed s" and "ls_pending s = Some p" and "\<not> pe_initiator p"
      and "length (pe_nextRootKey p) = RootKeySize" and "validBoundaries (rc_Boundaries c)"
      and "rc_LinkID c = ls_linkID s" and "rc_RekeyID c = pe_id p" and "rc_NextKeyID c = pe_nextKeyID p"
      and "r = None" and "s' = activatePendingLocked s c"
      and "completedRekeyLocked s (rc_RekeyID c) (rc_NextKeyID c) = None"
proof (cases "s' = s")
  case False
  then have guards: "\<not> ls_closed s" "validBoundaries (rc_Boundaries c)" "rc_LinkID c = ls_linkID s"
    using assms by (auto simp: ReceiveRekeyCommit_def split: if_splits)
  moreover have fresh: "completedRekeyLocked s (rc_RekeyID c) (rc_NextKeyID c) = None"
    using False assms guards by (auto simp: ReceiveRekeyCommit_def split: option.splits if_splits)
  moreover obtain p where "ls_pending s = Some p"
    using False assms guards fresh by (auto simp: ReceiveRekeyCommit_def split: option.splits)
  ultimately show ?thesis
    using False assms by (intro committed [of p]) (auto simp: ReceiveRekeyCommit_def split: if_splits)
qed (rule same)

subsection \<open>Calls on a link\<close>

datatype link_call =
    CallInitiate bytes "bytes option" "bytes option"
  | CallReceiveInit RekeyInit bytes bytes "bytes option"
  | CallReceiveAck RekeyAck bytes
  | CallCommit "StreamBoundary list"
  | CallReceiveCommit RekeyCommit
  | CallLinkRetire u64
  | CallLinkClose

fun link_step :: "primitives \<Rightarrow> LinkState \<Rightarrow> link_call \<Rightarrow> LinkState" where
  "link_step P s (CallInitiate k kr ir) = fst (InitiateRekey P s k kr ir)"
| "link_step P s (CallReceiveInit i pub k kr) = fst (ReceiveRekeyInit P s i pub k kr)"
| "link_step P s (CallReceiveAck a pub) = fst (ReceiveRekeyAck P s a pub)"
| "link_step P s (CallCommit bs) = fst (CommitRekey s bs)"
| "link_step P s (CallReceiveCommit c) = fst (ReceiveRekeyCommit s c)"
| "link_step P s (CallLinkRetire k) = fst (Link_RetireKey s k)"
| "link_step P s CallLinkClose = Link_Close s"

fun link_run :: "primitives \<Rightarrow> LinkState \<Rightarrow> link_call list \<Rightarrow> LinkState" where
  "link_run P s [] = s"
| "link_run P s (c # cs) = link_run P (link_step P s c) cs"

subsection \<open>The invariant of a link\<close>

definition pending_ok :: "LinkState \<Rightarrow> rekeyPending \<Rightarrow> bool" where
  "pending_ok s p \<longleftrightarrow> pe_nextKeyID p = ls_activeKey s + 1 \<and> validField (pe_id p) \<and> pe_init p \<noteq> None \<and>
     (if pe_initiator p \<and> pe_ack p = None then pe_nextRootKey p = [] \<and> pe_privateKey p \<noteq> None
      else pe_ack p \<noteq> None \<and> length (pe_nextRootKey p) = RootKeySize)"

definition history_ok :: "LinkState \<Rightarrow> bool" where
  "history_ok s \<longleftrightarrow> distinct (ls_completedOrder s) \<and>
     length (ls_completedOrder s) \<le> completedRekeyHistoryLimit \<and>
     set (ls_completedOrder s) = fset (fmdom (ls_completed s)) \<and>
     (\<forall>x c. fmlookup (ls_completed s) x = Some c \<longrightarrow>
        co_id c = x \<and> co_init c \<noteq> None \<and> co_ack c \<noteq> None \<and> co_commit c \<noteq> None)"

definition link_ok :: "LinkState \<Rightarrow> bool" where
  "link_ok s \<longleftrightarrow>
     (if ls_closed s
      then ls_roots s = fmempty \<and> ls_pending s = None \<and> ls_completed s = fmempty \<and> ls_completedOrder s = []
      else ls_activeKey s \<noteq> 0 \<and> fmlookup (ls_roots s) (ls_activeKey s) \<noteq> None \<and>
        (\<forall>k r. fmlookup (ls_roots s) k = Some r \<longrightarrow>
           (k = ls_activeKey s \<or> k + 1 = ls_activeKey s) \<and> length r = RootKeySize) \<and>
        (\<forall>p. ls_pending s = Some p \<longrightarrow> pending_ok s p) \<and> history_ok s \<and>
        (\<forall>x c. fmlookup (ls_completed s) x = Some c \<longrightarrow> co_nextKeyID c \<le> ls_activeKey s))"

lemma trim_completed_drop:
  "distinct order \<Longrightarrow> trim_completed order m = (order', m') \<Longrightarrow>
     order' = drop (length order - completedRekeyHistoryLimit) order \<and>
     (\<forall>x. fmlookup m' x = (if x \<in> set (take (length order - completedRekeyHistoryLimit) order)
        then None else fmlookup m x))"
proof (induction order m rule: trim_completed.induct)
  case (2 oldest order completed)
  show ?case
  proof (cases "length (oldest # order) > completedRekeyHistoryLimit")
    case True
    with 2 have IH: "order' = drop (length order - completedRekeyHistoryLimit) order"
      "\<forall>x. fmlookup m' x = (if x \<in> set (take (length order - completedRekeyHistoryLimit) order)
        then None else fmlookup (fmdrop oldest completed) x)" by auto
    have "length (oldest # order) - completedRekeyHistoryLimit
        = Suc (length order - completedRekeyHistoryLimit)" using True by simp
    with IH show ?thesis by auto
  qed (use 2 in auto)
qed simp

lemma remember_ok:
  assumes "history_ok s" and "pe_init p \<noteq> None" and "pe_ack p \<noteq> None"
  shows "history_ok (rememberCompletedLocked s p c)"
    and "\<exists>o' m'. rememberCompletedLocked s p c = s\<lparr>ls_completed := m', ls_completedOrder := o'\<rparr> \<and>
      o' \<noteq> [] \<and> last o' = pe_id p \<and> fmlookup m' (pe_id p) = Some
        \<lparr>co_id = pe_id p, co_nextKeyID = pe_nextKeyID p, co_oldKeyID = pe_nextKeyID p - 1,
         co_initiator = pe_initiator p, co_init = pe_init p, co_ack = pe_ack p, co_commit = Some c\<rparr> \<and>
      (\<forall>x d. x \<noteq> pe_id p \<and> fmlookup m' x = Some d \<longrightarrow> fmlookup (ls_completed s) x = Some d)"
proof -
  define o1 where "o1 = (if fmlookup (ls_completed s) (pe_id p) \<noteq> None
    then remove1 (pe_id p) (ls_completedOrder s) else ls_completedOrder s) @ [pe_id p]"
  define co where "co = \<lparr>co_id = pe_id p, co_nextKeyID = pe_nextKeyID p, co_oldKeyID = pe_nextKeyID p - 1,
    co_initiator = pe_initiator p, co_init = pe_init p, co_ack = pe_ack p, co_commit = Some c\<rparr>"
  define m1 where "m1 = fmupd (pe_id p) co (ls_completed s)"
  obtain o' m' where t: "trim_completed o1 m1 = (o', m')" by fastforce
  have dist: "distinct o1" and dom: "set o1 = fset (fmdom m1)"
    using assms(1) by (auto simp: o1_def m1_def history_ok_def fmlookup_dom_iff)
  let ?n = "length o1 - completedRekeyHistoryLimit"
  from trim_completed_drop [OF dist t] have o': "o' = drop ?n o1"
    and m': "\<forall>x. fmlookup m' x = (if x \<in> set (take ?n o1) then None else fmlookup m1 x)" by auto
  have split: "set (take ?n o1) \<inter> set o' = {}" "set (take ?n o1) \<union> set o' = set o1"
    unfolding o' using dist by (auto simp: set_take_disj_set_drop_if_distinct)
      (metis append_take_drop_id set_append Un_iff)+
  have eq: "rememberCompletedLocked s p c = s\<lparr>ls_completed := m', ls_completedOrder := o'\<rparr>"
    using t by (auto simp: rememberCompletedLocked_def o1_def m1_def co_def Let_def)
  have last: "?n < length o1" "last o1 = pe_id p"
    by (simp_all add: o1_def completedRekeyHistoryLimit_def)
  then have o'_last: "o' \<noteq> []" "last o' = pe_id p" by (auto simp: o' last_drop)
  then have "pe_id p \<in> set o'" by (metis last_in_set)
  then have p_in: "fmlookup m' (pe_id p) = Some co" using m' split by (auto simp: m1_def)
  have "fset (fmdom m') = set o'"
  proof
    show "fset (fmdom m') \<subseteq> set o'"
    proof
      fix x assume "x \<in> fset (fmdom m')"
      then obtain d where "fmlookup m' x = Some d" by (auto simp: fmlookup_dom_iff)
      with m' have "x \<notin> set (take ?n o1)" "fmlookup m1 x = Some d" by (auto split: if_splits)
      then have "x \<in> set o1" using dom fmdomI by metis
      with \<open>x \<notin> set (take ?n o1)\<close> split(2) show "x \<in> set o'" by blast
    qed
    show "set o' \<subseteq> fset (fmdom m')"
      using m' split dom by (fastforce simp: fmlookup_dom_iff)
  qed
  moreover have "co_id d = x \<and> co_init d \<noteq> None \<and> co_ack d \<noteq> None \<and> co_commit d \<noteq> None"
    if "fmlookup m' x = Some d" for x d
    using that m' assms by (auto simp: m1_def co_def history_ok_def split: if_splits)
  moreover have "distinct o'" "length o' \<le> completedRekeyHistoryLimit"
    using dist by (auto simp: o')
  ultimately show "history_ok (rememberCompletedLocked s p c)"
    unfolding eq history_ok_def by simp
  have "\<forall>x d. x \<noteq> pe_id p \<and> fmlookup m' x = Some d \<longrightarrow> fmlookup (ls_completed s) x = Some d"
    using m' by (auto simp: m1_def split: if_splits)
  then show "\<exists>o' m'. rememberCompletedLocked s p c = s\<lparr>ls_completed := m', ls_completedOrder := o'\<rparr> \<and>
      o' \<noteq> [] \<and> last o' = pe_id p \<and> fmlookup m' (pe_id p) = Some
        \<lparr>co_id = pe_id p, co_nextKeyID = pe_nextKeyID p, co_oldKeyID = pe_nextKeyID p - 1,
         co_initiator = pe_initiator p, co_init = pe_init p, co_ack = pe_ack p, co_commit = Some c\<rparr> \<and>
      (\<forall>x d. x \<noteq> pe_id p \<and> fmlookup m' x = Some d \<longrightarrow> fmlookup (ls_completed s) x = Some d)"
    using eq o'_last p_in unfolding co_def by blast
qed

text \<open>Activation: the new root is active, its predecessor is kept, older ones are gone.\<close>

lemma activate_ok:
  assumes ok: "link_ok s" and "\<not> ls_closed s" and p: "ls_pending s = Some p"
    and root: "length (pe_nextRootKey p) = RootKeySize" and room: "unat (ls_activeKey s) + 2 < 2 ^ 64"
    and s': "s' = activatePendingLocked s c"
  shows "link_ok s' \<and> \<not> ls_closed s' \<and> ls_activeKey s' = ls_activeKey s + 1 \<and> ls_pending s' = None \<and>
    ls_linkID s' = ls_linkID s \<and>
    fmlookup (ls_roots s') (ls_activeKey s + 1) = Some (pe_nextRootKey p) \<and>
    fmlookup (ls_roots s') (ls_activeKey s) = fmlookup (ls_roots s) (ls_activeKey s) \<and>
    ls_completedOrder s' \<noteq> [] \<and> last (ls_completedOrder s') = pe_id p \<and>
    fmlookup (ls_completed s') (pe_id p) = Some
      \<lparr>co_id = pe_id p, co_nextKeyID = pe_nextKeyID p, co_oldKeyID = pe_nextKeyID p - 1,
       co_initiator = pe_initiator p, co_init = pe_init p, co_ack = pe_ack p, co_commit = Some c\<rparr>"
proof -
  let ?a = "ls_activeKey s"
  have pok: "pending_ok s p" and hist: "history_ok s"
    using ok assms(2) p by (auto simp: link_ok_def)
  then have "pe_init p \<noteq> None" "pe_ack p \<noteq> None"
    using root by (auto simp: pending_ok_def RootKeySize_def split: if_splits)
  note rem = remember_ok [OF hist this, of c]
  from rem(2) obtain o' m' where r: "rememberCompletedLocked s p c = s\<lparr>ls_completed := m', ls_completedOrder := o'\<rparr>"
    and o': "o' \<noteq> []" "last o' = pe_id p" and m': "fmlookup m' (pe_id p) = Some
        \<lparr>co_id = pe_id p, co_nextKeyID = pe_nextKeyID p, co_oldKeyID = pe_nextKeyID p - 1,
         co_initiator = pe_initiator p, co_init = pe_init p, co_ack = pe_ack p, co_commit = Some c\<rparr>"
    and old: "\<forall>x d. x \<noteq> pe_id p \<and> fmlookup m' x = Some d \<longrightarrow> fmlookup (ls_completed s) x = Some d"
    by blast
  have succ: "pe_nextKeyID p = ?a + 1" using pok by (simp add: pending_ok_def)
  have S1: "unat (?a + 1) = Suc (unat ?a)" "?a < ?a + 1"
    using word_Suc_no_wrap [OF unat_no_wrap] room by auto
  have S2: "?a + 1 < ?a + 1 + 1"
    by (rule word_Suc_no_wrap(1), rule unat_no_wrap) (use room S1 in simp)
  let ?s1 = "s\<lparr>ls_completed := m', ls_completedOrder := o',
    ls_roots := fmupd (?a + 1) (pe_nextRootKey p) (ls_roots s), ls_activeKey := ?a + 1, ls_pending := None\<rparr>"
  have s'_eq: "s' = ?s1\<lparr>ls_roots := fmkeep (\<lambda>k _. \<not> k + 1 < ?a + 1) (ls_roots ?s1)\<rparr>"
    using p root succ by (simp add: s' activatePendingLocked_def r Let_def)
  have keep: "fmlookup (ls_roots s') k =
      (if k = ?a + 1 then Some (pe_nextRootKey p) else if k + 1 < ?a + 1 then None else fmlookup (ls_roots s) k)" for k
    using S2 by (auto simp: s'_eq split: option.splits)
  have "(k = ?a + 1 \<or> k = ?a) \<and> length x = RootKeySize" if "fmlookup (ls_roots s') k = Some x" for k x
  proof (cases "k = ?a + 1")
    case False
    with that keep have "fmlookup (ls_roots s) k = Some x" "\<not> k + 1 < ?a + 1" by (auto split: if_splits)
    moreover from this(1) have "k = ?a \<or> k + 1 = ?a" and "length x = RootKeySize"
      using ok assms(2) by (auto simp: link_ok_def)
    ultimately show ?thesis using S1 by auto
  qed (use that keep root in simp)
  moreover have "history_ok s'"
    using rem(1) by (simp add: history_ok_def s'_eq r)
  moreover have fields: "ls_closed s' = ls_closed s" "ls_activeKey s' = ?a + 1" "ls_pending s' = None"
    "ls_linkID s' = ls_linkID s" "ls_completedOrder s' = o'" "ls_completed s' = m'"
    by (simp_all add: s'_eq)
  moreover have "?a + 1 \<noteq> 0" using S1 by auto
  moreover have "co_nextKeyID d \<le> ?a + 1" if "fmlookup m' x = Some d" for x d
  proof (cases "x = pe_id p")
    case False
    with that old have "fmlookup (ls_completed s) x = Some d" by blast
    then have "co_nextKeyID d \<le> ?a" using ok assms(2) by (auto simp: link_ok_def)
    also have "?a \<le> ?a + 1" using S1(2) by simp
    finally show ?thesis .
  qed (use that m' succ in auto)
  ultimately have "link_ok s'"
    using assms(2) keep [of "?a + 1"] unfolding link_ok_def by simp
  moreover have "?a \<noteq> ?a + 1" using S1(2) by simp
  ultimately show ?thesis
    using keep [of ?a] keep [of "?a + 1"] o' m' assms(2) fields by simp
qed

lemma link_new_ok: "NewLinkState linkID rootKey = Inr s \<Longrightarrow> link_ok s \<and> \<not> ls_closed s \<and> ls_activeKey s = 1"
  by (auto simp: NewLinkState_def link_ok_def history_ok_def split: if_splits)

text \<open>One call: the invariant is kept, and the active key moves forward by at most one.\<close>

definition link_advance :: "LinkState \<Rightarrow> LinkState \<Rightarrow> bool" where
  "link_advance s s' \<longleftrightarrow> link_ok s' \<and> (ls_closed s \<longrightarrow> s' = s) \<and>
     (ls_activeKey s' = ls_activeKey s \<or>
      unat (ls_activeKey s') = Suc (unat (ls_activeKey s)) \<and> ls_activeKey s' = ls_activeKey s + 1)"

lemma set_pending_ok:
  "link_ok s \<Longrightarrow> \<not> ls_closed s \<Longrightarrow> pending_ok s p \<Longrightarrow> link_advance s (s\<lparr>ls_pending := Some p\<rparr>)"
  by (auto simp: link_advance_def link_ok_def pending_ok_def history_ok_def)

lemma activate_advances:
  assumes "link_ok s" and "\<not> ls_closed s" and "ls_pending s = Some p"
    and "length (pe_nextRootKey p) = RootKeySize" and "unat (ls_activeKey s) + 2 < 2 ^ 64"
  shows "link_advance s (activatePendingLocked s c)"
proof -
  have "unat (ls_activeKey s + 1) = Suc (unat (ls_activeKey s))"
    by (rule word_Suc_no_wrap(2), rule unat_no_wrap) (use assms(5) in simp)
  with activate_ok [OF assms refl, of c] assms(2) show ?thesis
    unfolding link_advance_def by simp
qed

lemma link_step_advances:
  assumes sizes: "digest_sizes P" and ok: "link_ok s" and room: "unat (ls_activeKey s) + 2 < 2 ^ 64"
  shows "link_advance s (link_step P s c)"
proof (cases c)
  case (CallInitiate k kr ir)
  obtain s' r where i: "InitiateRekey P s k kr ir = (s', r)" by fastforce
  from i have "link_advance s s'"
  proof (cases rule: InitiateRekey_cases)
    case (started p x e)
    show ?thesis
      unfolding started(4) by (rule set_pending_ok [OF ok]) (use started in \<open>auto simp: pending_ok_def\<close>)
  qed (use ok in \<open>simp add: link_advance_def\<close>)
  with i CallInitiate show ?thesis by simp
next
  case (CallReceiveInit x pub k kr)
  obtain s' r where i: "ReceiveRekeyInit P s x pub k kr = (s', r)" by fastforce
  from i have "link_advance s s'"
  proof (cases rule: ReceiveRekeyInit_cases)
    case (responded p a e root)
    then obtain z where "deriveRekeyRoot P (fmget [] (ls_roots s) (ls_activeKey s)) z
        (ls_linkID s) (ri_RekeyID x) (ri_NextKeyID x) = Inr root" by blast
    from deriveRekeyRoot_size [OF sizes this] responded show ?thesis
      using ok by (auto intro!: set_pending_ok simp: pending_ok_def)
  qed (use ok in \<open>simp add: link_advance_def\<close>)
  with i CallReceiveInit show ?thesis by simp
next
  case (CallReceiveAck a pub)
  obtain s' r where i: "ReceiveRekeyAck P s a pub = (s', r)" by fastforce
  from i have "link_advance s s'"
  proof (cases rule: ReceiveRekeyAck_cases)
    case (keyed p root)
    then obtain z where "deriveRekeyRoot P (fmget [] (ls_roots s) (ls_activeKey s)) z
        (ls_linkID s) (ra_RekeyID a) (ra_NextKeyID a) = Inr root" by blast
    from deriveRekeyRoot_size [OF sizes this] keyed ok show ?thesis
      by (auto intro!: set_pending_ok simp: pending_ok_def link_ok_def)
  qed (use ok in \<open>simp add: link_advance_def\<close>)
  with i CallReceiveAck show ?thesis by simp
next
  case (CallCommit bs)
  obtain s' r where i: "CommitRekey s bs = (s', r)" by fastforce
  from i have "link_advance s s'"
    by (cases rule: CommitRekey_cases) (use ok room activate_advances in \<open>auto simp: link_advance_def\<close>)
  with i CallCommit show ?thesis by simp
next
  case (CallReceiveCommit m)
  obtain s' r where i: "ReceiveRekeyCommit s m = (s', r)" by fastforce
  from i have "link_advance s s'"
    by (cases rule: ReceiveRekeyCommit_cases) (use ok room activate_advances in \<open>auto simp: link_advance_def\<close>)
  with i CallReceiveCommit show ?thesis by simp
next
  case (CallLinkRetire k)
  have "ls_closed s \<Longrightarrow> Link_RetireKey s k = (s, False)"
    using ok by (simp add: link_ok_def Link_RetireKey_def)
  then have "link_advance s (fst (Link_RetireKey s k))"
    using ok by (auto simp: link_advance_def link_ok_def Link_RetireKey_def pending_ok_def history_ok_def)
  with CallLinkRetire show ?thesis by simp
next
  case CallLinkClose
  then show ?thesis
    using ok by (auto simp: link_advance_def link_ok_def Link_Close_def history_ok_def)
qed

subsection \<open>Successful steps in detail\<close>

lemma initiate_success:
  assumes "InitiateRekey P s k kr ir = (s', Inr i)" and "ls_pending s = None"
  shows "\<exists>e. s' = s\<lparr>ls_pending := Some \<lparr>pe_id = ri_RekeyID i, pe_nextKeyID = ls_activeKey s + 1,
       pe_initiator = True, pe_privateKey = Some e, pe_publicKey = x25519_public P e,
       pe_nextRootKey = [], pe_init = Some i, pe_ack = None\<rparr>\<rparr> \<and>
     ri_EphemeralPublic i = x25519_public P e \<and> ri_LinkID i = ls_linkID s \<and>
     ri_NextKeyID i = ls_activeKey s + 1 \<and>
     validRekeyFields (ri_LinkID i) (ri_RekeyID i) (ri_NextKeyID i) (ri_EphemeralPublic i) \<and>
     ri_IdentitySignature i = ed25519_sign P k (canonicalRekey ''init'' (ri_LinkID i) (ri_RekeyID i)
       (ri_NextKeyID i) (ri_EphemeralPublic i))"
  using assms
  by (cases "GenerateEphemeralKey kr"; cases "randomRekeyID ir")
    (auto simp: InitiateRekey_def signRekeyInit_def Let_def split: if_splits)

lemma respond_success:
  assumes "respond_rekey P s i k kr = (s', Inr a)"
  shows "\<exists>e z root. X25519SharedSecret P e (ri_EphemeralPublic i) = Inr z \<and>
     deriveRekeyRoot P (fmget [] (ls_roots s) (ls_activeKey s)) z (ls_linkID s) (ri_RekeyID i)
       (ri_NextKeyID i) = Inr root \<and>
     s' = s\<lparr>ls_pending := Some \<lparr>pe_id = ri_RekeyID i, pe_nextKeyID = ri_NextKeyID i,
       pe_initiator = False, pe_privateKey = Some e, pe_publicKey = x25519_public P e,
       pe_nextRootKey = root, pe_init = Some i, pe_ack = Some a\<rparr>\<rparr> \<and>
     ra_EphemeralPublic a = x25519_public P e \<and> ra_LinkID a = ls_linkID s \<and>
     ra_RekeyID a = ri_RekeyID i \<and> ra_NextKeyID a = ri_NextKeyID i \<and>
     validRekeyFields (ra_LinkID a) (ra_RekeyID a) (ra_NextKeyID a) (ra_EphemeralPublic a) \<and>
     ra_IdentitySignature a = ed25519_sign P k (canonicalRekey ''ack'' (ra_LinkID a) (ra_RekeyID a)
       (ra_NextKeyID a) (ra_EphemeralPublic a))"
proof -
  obtain e where e: "GenerateEphemeralKey kr = Inr e"
    using assms by (cases "GenerateEphemeralKey kr") (simp_all add: respond_rekey_def)
  moreover obtain z where z: "X25519SharedSecret P e (ri_EphemeralPublic i) = Inr z"
    using assms e by (cases "X25519SharedSecret P e (ri_EphemeralPublic i)") (simp_all add: respond_rekey_def)
  moreover obtain root where "deriveRekeyRoot P (fmget [] (ls_roots s) (ls_activeKey s)) z (ls_linkID s)
      (ri_RekeyID i) (ri_NextKeyID i) = Inr root"
    using assms e z
    by (cases "deriveRekeyRoot P (fmget [] (ls_roots s) (ls_activeKey s)) z (ls_linkID s)
      (ri_RekeyID i) (ri_NextKeyID i)") (simp_all add: respond_rekey_def)
  ultimately show ?thesis
    using assms by (intro exI [of _ e] exI [of _ z] exI [of _ root])
      (auto simp: respond_rekey_def signRekeyAck_def Let_def split: if_splits)
qed

lemma ack_signature_valid:
  assumes "signatures_verify P"
    and "validRekeyFields (ra_LinkID a) (ra_RekeyID a) (ra_NextKeyID a) (ra_EphemeralPublic a)"
    and "ra_IdentitySignature a = ed25519_sign P k (canonicalRekey ''ack'' (ra_LinkID a) (ra_RekeyID a)
       (ra_NextKeyID a) (ra_EphemeralPublic a))"
  shows "validateRekeySignatureAck P (ra_LinkID a) a (ed25519_public P k) = None"
  using assms by (simp add: validateRekeySignatureAck_def signatures_verify_def size_defs)

lemma next_not_completed:
  assumes "link_ok s" and "\<not> ls_closed s" and "k = ls_activeKey s + 1" and "ls_activeKey s + 1 \<noteq> 0"
  shows "completedRekeyLocked s i k = None"
proof -
  have "ls_activeKey s < ls_activeKey s + 1" using word_Suc_no_wrap(1) assms(4) by blast
  moreover have "co_nextKeyID c \<le> ls_activeKey s" if "fmlookup (ls_completed s) i = Some c" for c
    using that assms(1,2) by (auto simp: link_ok_def)
  ultimately show ?thesis
    using assms(3) by (force simp: completedRekeyLocked_def split: option.splits)
qed

text \<open>The initiator's side of a successful exchange.\<close>

lemma ack_success:
  assumes "link_ok s" and "\<not> ls_closed s" and "ls_activeKey s + 1 \<noteq> 0"
    and "ls_pending s = Some p" and "pe_initiator p" and "pe_ack p = None" and "pe_privateKey p = Some e"
    and "pe_id p = ra_RekeyID a" and "ra_NextKeyID a = ls_activeKey s + 1" and "ra_LinkID a = ls_linkID s"
    and "length pub = Ed25519PublicKeySize" and "validateRekeySignatureAck P (ra_LinkID a) a pub = None"
    and "X25519SharedSecret P e (ra_EphemeralPublic a) = Inr z"
    and "deriveRekeyRoot P (fmget [] (ls_roots s) (ls_activeKey s)) z (ls_linkID s) (ra_RekeyID a)
       (ra_NextKeyID a) = Inr root"
  shows "ReceiveRekeyAck P s a pub = (s\<lparr>ls_pending := Some (p\<lparr>pe_nextRootKey := root,
     pe_ack := Some a, pe_privateKey := None\<rparr>)\<rparr>, None)"
proof -
  have "pe_nextKeyID p = ls_activeKey s + 1"
    using assms(1,2,4) by (auto simp: link_ok_def pending_ok_def)
  then show ?thesis
    using assms next_not_completed [OF assms(1,2,9,3), of "ra_RekeyID a"]
    by (simp add: ReceiveRekeyAck_def validateRekeyAck_def)
qed

lemma commit_success:
  assumes "\<not> ls_closed s" and "ls_pending s = Some p" and "pe_initiator p"
    and "length (pe_nextRootKey p) = RootKeySize" and "validBoundaries bs"
    and "c = \<lparr>rc_LinkID = ls_linkID s, rc_RekeyID = pe_id p, rc_NextKeyID = pe_nextKeyID p,
             rc_Boundaries = canonicalBoundaries bs\<rparr>"
  shows "CommitRekey s bs = (activatePendingLocked s c, Inr c)"
  using assms by (simp add: CommitRekey_def Let_def)

lemma receive_commit_success:
  assumes "link_ok s" and "\<not> ls_closed s" and "ls_activeKey s + 1 \<noteq> 0" and "ls_pending s = Some p"
    and "\<not> pe_initiator p" and "length (pe_nextRootKey p) = RootKeySize"
    and "validBoundaries (rc_Boundaries c)" and "rc_LinkID c = ls_linkID s"
    and "rc_RekeyID c = pe_id p" and "rc_NextKeyID c = ls_activeKey s + 1"
  shows "ReceiveRekeyCommit s c = (activatePendingLocked s c, None)"
proof -
  have "pe_nextKeyID p = ls_activeKey s + 1"
    using assms(1,2,4) by (auto simp: link_ok_def pending_ok_def)
  then show ?thesis
    using assms next_not_completed [OF assms(1,2,10,3), of "rc_RekeyID c"]
    by (simp add: ReceiveRekeyCommit_def)
qed

lemma canonicalBoundaries_idem [simp]:
  "canonicalBoundaries (canonicalBoundaries bs) = canonicalBoundaries bs"
  "validBoundaries (canonicalBoundaries bs) = validBoundaries bs"
proof -
  have "sort_key sb_StreamID (sort_key sb_StreamID bs) = sort_key sb_StreamID bs"
    by (rule sort_key_id_if_sorted) simp
  then show "canonicalBoundaries (canonicalBoundaries bs) = canonicalBoundaries bs"
    and "validBoundaries (canonicalBoundaries bs) = validBoundaries bs"
    by (simp_all add: canonicalBoundaries_def validBoundaries_def)
qed

lemma shared_secret_symmetric:
  assumes "agreement_symmetric P" and "X25519SharedSecret P e (x25519_public P f) = Inr z"
  shows "X25519SharedSecret P f (x25519_public P e) = Inr z"
  using assms by (simp add: X25519SharedSecret_def agreement_symmetric_def size_defs)

lemma link_run_ok:
  assumes "digest_sizes P" and "link_ok s" and "unat (ls_activeKey s) + length cs + 2 < 2 ^ 64"
  shows "link_ok (link_run P s cs) \<and> ls_activeKey s \<le> ls_activeKey (link_run P s cs) \<and>
    unat (ls_activeKey (link_run P s cs)) \<le> unat (ls_activeKey s) + length cs \<and>
    (ls_closed s \<longrightarrow> link_run P s cs = s)"
  using assms(2,3)
proof (induction cs arbitrary: s)
  case (Cons c cs)
  have "unat (ls_activeKey s) + 2 < 2 ^ 64" using Cons.prems by simp
  from link_step_advances [OF assms(1) Cons.prems(1) this, of c]
  have step: "link_ok (link_step P s c)" "ls_closed s \<longrightarrow> link_step P s c = s"
    "unat (ls_activeKey s) \<le> unat (ls_activeKey (link_step P s c))"
    "unat (ls_activeKey (link_step P s c)) \<le> Suc (unat (ls_activeKey s))"
    by (auto simp: link_advance_def)
  then have "unat (ls_activeKey (link_step P s c)) + length cs + 2 < 2 ^ 64"
    using Cons.prems(2) by simp
  from Cons.IH [OF step(1) this] step show ?case
    by (auto simp: word_le_nat_alt)
qed simp

text \<open>At most two generations are kept: the root map has the active key and at most its predecessor.\<close>

lemma link_roots_bounded:
  assumes "link_ok s"
  shows "fmlen (ls_roots s) \<le> 2"
proof (cases "ls_closed s")
  case False
  have "fmdom (ls_roots s) |\<subseteq>| {|ls_activeKey s, ls_activeKey s - 1|}"
  proof
    fix k assume "k |\<in>| fmdom (ls_roots s)"
    then have "k = ls_activeKey s \<or> k + 1 = ls_activeKey s"
      using assms False by (auto simp: link_ok_def fmlookup_dom_iff)
    then show "k |\<in>| {|ls_activeKey s, ls_activeKey s - 1|}" by (auto simp: eq_diff_eq)
  qed
  then have "fmlen (ls_roots s) \<le> fcard {|ls_activeKey s, ls_activeKey s - 1|}"
    unfolding fmlen_def by (rule fcard_mono)
  also have "\<dots> \<le> 2" by (simp add: fcard_finsert_if)
  finally show ?thesis .
qed (use assms in \<open>simp add: link_ok_def\<close>)

text \<open>After the acknowledgement both ends have the same next root pending.\<close>

lemma rekey_acknowledged:
  assumes "digest_sizes P" "signatures_verify P" "agreement_symmetric P"
    and "link_ok A" "link_ok B" "\<not> ls_closed A" "\<not> ls_closed B"
    and "ls_pending A = None" "ls_pending B = None"
    and "ls_linkID A = ls_linkID B" "ls_activeKey A = ls_activeKey B"
    and "fmlookup (ls_roots A) (ls_activeKey A) = fmlookup (ls_roots B) (ls_activeKey B)"
    and "unat (ls_activeKey A) + 2 < 2 ^ 64"
    and "InitiateRekey P A kA random ident = (A1, Inr init)"
    and "ReceiveRekeyInit P B init (ed25519_public P kA) kB random' = (B1, Inr ack)"
  shows "\<exists>A2 pA pB. ReceiveRekeyAck P A1 ack (ed25519_public P kB) = (A2, None) \<and>
    A2 = A\<lparr>ls_pending := Some pA\<rparr> \<and> B1 = B\<lparr>ls_pending := Some pB\<rparr> \<and> link_ok A2 \<and> link_ok B1 \<and>
    pe_initiator pA \<and> \<not> pe_initiator pB \<and> pe_id pA = pe_id pB \<and>
    pe_nextKeyID pA = ls_activeKey A + 1 \<and> pe_nextRootKey pA = pe_nextRootKey pB \<and>
    length (pe_nextRootKey pB) = RootKeySize"
proof -
  let ?a = "ls_activeKey A"
  have next0: "?a + 1 \<noteq> 0" by (rule unat_no_wrap) (use assms(13) in simp)
  obtain e where A1: "A1 = A\<lparr>ls_pending := Some \<lparr>pe_id = ri_RekeyID init, pe_nextKeyID = ?a + 1,
       pe_initiator = True, pe_privateKey = Some e, pe_publicKey = x25519_public P e,
       pe_nextRootKey = [], pe_init = Some init, pe_ack = None\<rparr>\<rparr>"
    and i: "ri_EphemeralPublic init = x25519_public P e" "ri_LinkID init = ls_linkID A"
      "ri_NextKeyID init = ?a + 1" "validRekeyFields (ri_LinkID init) (ri_RekeyID init) (ri_NextKeyID init) (ri_EphemeralPublic init)"
    using initiate_success [OF assms(14,8)] by blast
  have "completedRekeyLocked B (ri_RekeyID init) (ri_NextKeyID init) = None"
    by (rule next_not_completed [OF assms(5,7)]) (use i assms(11) next0 in simp_all)
  then have res: "respond_rekey P B init kB random' = (B1, Inr ack)"
    using assms(15,7,9) by (auto simp: ReceiveRekeyInit_def split: if_splits option.splits)
  obtain f z root where z: "X25519SharedSecret P f (x25519_public P e) = Inr z"
    and root: "deriveRekeyRoot P (fmget [] (ls_roots B) (ls_activeKey B)) z (ls_linkID B)
       (ri_RekeyID init) (ri_NextKeyID init) = Inr root"
    and B1: "B1 = B\<lparr>ls_pending := Some \<lparr>pe_id = ri_RekeyID init, pe_nextKeyID = ri_NextKeyID init,
       pe_initiator = False, pe_privateKey = Some f, pe_publicKey = x25519_public P f,
       pe_nextRootKey = root, pe_init = Some init, pe_ack = Some ack\<rparr>\<rparr>"
    and a: "ra_EphemeralPublic ack = x25519_public P f" "ra_LinkID ack = ls_linkID B"
     "ra_RekeyID ack = ri_RekeyID init" "ra_NextKeyID ack = ri_NextKeyID init"
     "validRekeyFields (ra_LinkID ack) (ra_RekeyID ack) (ra_NextKeyID ack) (ra_EphemeralPublic ack)"
     "ra_IdentitySignature ack = ed25519_sign P kB (canonicalRekey ''ack'' (ra_LinkID ack) (ra_RekeyID ack)
       (ra_NextKeyID ack) (ra_EphemeralPublic ack))"
    using respond_success [OF res] unfolding i(1) by blast
  have size_root: "length root = RootKeySize" using deriveRekeyRoot_size [OF assms(1) root] by blast
  have okA1: "link_ok A1" and okB1: "link_ok B1"
    using set_pending_ok [OF assms(4,6)] set_pending_ok [OF assms(5,7)] i a assms(11) size_root
    unfolding A1 B1 by (auto simp: link_advance_def pending_ok_def validRekeyFields_def)
  have pub: "length (ed25519_public P kB) = Ed25519PublicKeySize"
    using assms(2) by (simp add: signatures_verify_def size_defs)
  define pA where "pA = \<lparr>pe_id = ri_RekeyID init, pe_nextKeyID = ?a + 1,
       pe_initiator = True, pe_privateKey = None, pe_publicKey = x25519_public P e,
       pe_nextRootKey = root, pe_init = Some init, pe_ack = Some ack\<rparr>"
  define pB where "pB = \<lparr>pe_id = ri_RekeyID init, pe_nextKeyID = ri_NextKeyID init,
       pe_initiator = False, pe_privateKey = Some f, pe_publicKey = x25519_public P f,
       pe_nextRootKey = root, pe_init = Some init, pe_ack = Some ack\<rparr>"
  define A2 where "A2 = A1\<lparr>ls_pending := Some pA\<rparr>"
  have pending: "ls_pending A2 = Some pA" "ls_pending B1 = Some pB"
    by (simp_all add: A2_def B1 pB_def)
  have ackA: "ReceiveRekeyAck P A1 ack (ed25519_public P kB) = (A2, None)"
    using ack_success [OF okA1 _ _ _ _ _ _ _ _ _ pub ack_signature_valid [OF assms(2) a(5,6)]
        shared_secret_symmetric [OF assms(3) z, folded a(1)]] root a(3,4) i(3) a(2) assms(6,10-12) next0
    by (simp add: A1 A2_def pA_def fmget_def)
  have okA2: "link_ok A2"
    using okA1 i(4) size_root assms(6)
    by (auto simp: A1 A2_def pA_def link_ok_def pending_ok_def history_ok_def)
  show ?thesis
    using ackA okA2 okB1 size_root i(3)
    by (intro exI [of _ A2] exI [of _ pA] exI [of _ pB]) (simp add: A1 B1 A2_def pA_def pB_def)
qed

subsection \<open>Retransmissions\<close>

lemma completed_pending [simp]:
  "completedRekeyLocked (s\<lparr>ls_pending := p\<rparr>) i k = completedRekeyLocked s i k"
  by (simp add: completedRekeyLocked_def)

lemma initiate_again:
  assumes "InitiateRekey P s k kr ir = (s', Inr i)" and "length k' = Ed25519PrivateKeySize"
  shows "InitiateRekey P s' k' kr' ir' = (s', Inr i)"
proof (cases "ls_pending s")
  case None
  then obtain e where "s' = s\<lparr>ls_pending := Some \<lparr>pe_id = ri_RekeyID i, pe_nextKeyID = ls_activeKey s + 1,
       pe_initiator = True, pe_privateKey = Some e, pe_publicKey = x25519_public P e,
       pe_nextRootKey = [], pe_init = Some i, pe_ack = None\<rparr>\<rparr>"
    using initiate_success [OF assms(1)] by blast
  moreover have "\<not> ls_closed s" using assms(1) by (auto simp: InitiateRekey_def split: if_splits)
  ultimately show ?thesis using assms(2) by (simp add: InitiateRekey_def)
next
  case (Some p)
  with assms show ?thesis by (auto simp: InitiateRekey_def split: if_splits option.splits)
qed

lemma receive_init_again:
  assumes "ReceiveRekeyInit P s i pub k kr = (s', Inr a)" and "length k' = Ed25519PrivateKeySize"
  shows "ReceiveRekeyInit P s' i pub k' kr' = (s', Inr a)"
  using assms(1)
proof (cases rule: ReceiveRekeyInit_cases)
  case same
  have "respond_rekey P s i k kr \<noteq> (s, Inr a)" if "ls_pending s = None"
    using that respond_success [of P s i k kr s a] by (cases s) auto
  then show ?thesis
    using assms same by (auto simp: ReceiveRekeyInit_def split: if_splits option.splits)
next
  case (responded p a' e root)
  then have "length pub = Ed25519PublicKeySize"
    using assms(1) by (auto simp: ReceiveRekeyInit_def split: if_splits)
  with responded assms(2) show ?thesis
    by (simp add: ReceiveRekeyInit_def validateRekeyInit_def sameRekeyInit_def)
qed

lemma receive_ack_again:
  assumes "ReceiveRekeyAck P s a pub = (s', None)"
  shows "ReceiveRekeyAck P s' a pub = (s', None)"
proof (cases "s' = s")
  case False
  from assms(1) show ?thesis
  proof (cases rule: ReceiveRekeyAck_cases)
    case (keyed p root)
    have "length pub = Ed25519PublicKeySize"
      using assms by (auto simp: ReceiveRekeyAck_def split: if_splits)
    moreover have "completedRekeyLocked s (ra_RekeyID a) (ra_NextKeyID a) = None"
      using assms False keyed(1) calculation by (auto simp: ReceiveRekeyAck_def split: if_splits option.splits)
    moreover have "validateRekeyAck P (ls_linkID s) (ls_activeKey s + 1) a pub = None"
      using assms calculation keyed(1-3,6,7) by (auto simp: ReceiveRekeyAck_def split: option.splits)
    ultimately show ?thesis using keyed
      by (simp add: ReceiveRekeyAck_def sameRekeyAck_def)
  qed (use False in simp)
qed (use assms in simp)

lemma commit_again:
  assumes "link_ok s" and "unat (ls_activeKey s) + 2 < 2 ^ 64" and "CommitRekey s bs = (s', Inr c)"
  shows "CommitRekey s' bs' = (s', Inr c)"
proof (cases "ls_pending s")
  case None
  with assms(3) show ?thesis by (auto simp: CommitRekey_def split: if_splits option.splits)
next
  case (Some p)
  then have facts: "\<not> ls_closed s" "length (pe_nextRootKey p) = RootKeySize" "s' = activatePendingLocked s c"
    using assms(3) by (auto simp: CommitRekey_def Let_def split: if_splits)
  from activate_ok [OF assms(1) facts(1) Some facts(2) assms(2) facts(3)] show ?thesis
    by (simp add: CommitRekey_def)
qed

lemma receive_commit_again:
  assumes "link_ok s" and "unat (ls_activeKey s) + 2 < 2 ^ 64" and "ReceiveRekeyCommit s c = (s', None)"
  shows "ReceiveRekeyCommit s' c = (s', None)"
  using assms(3)
proof (cases rule: ReceiveRekeyCommit_cases)
  case (committed p)
  have "pe_id p \<noteq> ''''"
    using assms(1) committed(1,2) by (auto simp: link_ok_def pending_ok_def validField_def)
  with activate_ok [OF assms(1) committed(1,2,4) assms(2) committed(10)] committed(5-8) show ?thesis
    by (simp add: ReceiveRekeyCommit_def completedRekeyLocked_def sameRekeyCommit_def)
qed (use assms in simp)

text \<open>After activation the history still answers the messages of the exchange.\<close>

lemma init_after_commit:
  assumes "link_ok s" and "unat (ls_activeKey s) + 2 < 2 ^ 64" and "ls_pending s = None"
    and "ReceiveRekeyInit P s i pub k kr = (s1, Inr a)" and "s1 \<noteq> s" and "link_ok s1"
    and "ReceiveRekeyCommit s1 c = (s2, None)" and "s2 \<noteq> s1" and "length k' = Ed25519PrivateKeySize"
  shows "ReceiveRekeyInit P s2 i pub k' kr' = (s2, Inr a)"
  using assms(4)
proof (cases rule: ReceiveRekeyInit_cases)
  case (responded p a' e root)
  have "length pub = Ed25519PublicKeySize"
    using assms(4) by (auto simp: ReceiveRekeyInit_def split: if_splits)
  note resp = responded this
  from assms(7) show ?thesis
  proof (cases rule: ReceiveRekeyCommit_cases)
    case (committed p')
    have p': "p' = p" using committed(2) resp(5) by simp
    have room: "unat (ls_activeKey s1) + 2 < 2 ^ 64" using assms(2) resp(5) by simp
    have "pe_id p \<noteq> ''''"
      using assms(6) committed(1,2) p' by (auto simp: link_ok_def pending_ok_def validField_def)
    with activate_ok [OF assms(6) committed(1,2,4) room committed(10)] resp assms(9) show ?thesis
      by (simp add: ReceiveRekeyInit_def completedRekeyLocked_def sameRekeyInit_def p')
  qed (use assms(8) in simp)
qed (use assms(5) in simp)

subsection \<open>Properties\<close>

text \<open>
  C24. A link keeps at most two key generations: after any sequence of calls,
  messages and failures in any order, only the active generation and the one
  before it have a root, the active root is always there until the link is
  closed, and a closed link has no root, pending rekey or history left and
  stays closed. The active generation never goes back, the history is bounded.
\<close>

theorem link_key_generations:
  assumes "digest_sizes P" and "NewLinkState linkID rootKey = Inr s0"
    and "length cs + 3 < 2 ^ 64" and "s = link_run P s0 cs" and "length more_calls + length cs + 3 < 2 ^ 64"
  shows "(\<exists>r. RootKey s (ls_activeKey s) = Inr r) \<noteq> ls_closed s \<and> fmlen (ls_roots s) \<le> 2 \<and>
    (\<forall>k r. RootKey s k = Inr r \<longrightarrow> k = ls_activeKey s \<or> k + 1 = ls_activeKey s) \<and>
    (ls_closed s \<longrightarrow> ls_roots s = fmempty \<and> ls_pending s = None \<and> ls_completed s = fmempty) \<and>
    length (ls_completedOrder s) \<le> 4 \<and>
    ls_activeKey s \<le> ls_activeKey (link_run P s more_calls) \<and>
    (ls_closed s \<longrightarrow> link_run P s more_calls = s)"
proof -
  have init: "link_ok s0" "ls_activeKey s0 = 1" using link_new_ok [OF assms(2)] by auto
  have run: "link_ok s" "unat (ls_activeKey s) \<le> 1 + length cs"
    using link_run_ok [OF assms(1) init(1), of cs] init(2) assms(3,4) by auto
  have "unat (ls_activeKey s) + length more_calls + 2 < 2 ^ 64"
    using run(2) assms(5) by simp
  note later = link_run_ok [OF assms(1) run(1) this]
  have "(\<exists>r. RootKey s (ls_activeKey s) = Inr r) \<noteq> ls_closed s"
    using run(1) by (auto simp: link_ok_def RootKey_def fmget_def split: if_splits)
  moreover have "k = ls_activeKey s \<or> k + 1 = ls_activeKey s" if "RootKey s k = Inr r" for k r
    using that run(1) by (auto simp: link_ok_def RootKey_def fmget_def RootKeySize_def split: if_splits option.splits)
  moreover have "length (ls_completedOrder s) \<le> 4"
    using run(1) by (auto simp: link_ok_def history_ok_def completedRekeyHistoryLimit_def split: if_splits)
  moreover have "ls_closed s \<longrightarrow> ls_roots s = fmempty \<and> ls_pending s = None \<and> ls_completed s = fmempty"
    using run(1) by (simp add: link_ok_def)
  ultimately show ?thesis using later link_roots_bounded [OF run(1)] by blast
qed

definition sample_link :: LinkState where
  "sample_link = \<lparr>ls_linkID = ''l'', ls_roots = fmupd 1 (replicate 32 8) fmempty, ls_activeKey = 1,
     ls_pending = None, ls_completed = fmempty, ls_completedOrder = [], ls_closed = False\<rparr>"

lemma valid_l: "validField ''l''" by code_simp

lemma sample_link_new: "NewLinkState ''l'' (replicate 32 8) = Inr sample_link"
  by (simp add: NewLinkState_def sample_link_def valid_l RootKeySize_def)

theorem link_key_generations_witness:
  "ls_roots (link_run plain_primitives sample_link [CallLinkClose, CallCommit []]) = fmempty"
proof -
  have "ls_closed (link_run plain_primitives sample_link [CallLinkClose, CallCommit []])"
    by (simp add: Link_Close_def CommitRekey_def sample_link_def)
  with link_key_generations [OF plain_sizes(1) sample_link_new _ refl,
      of "[CallLinkClose, CallCommit []]" "[]"]
  show ?thesis by simp
qed

text \<open>
  C6. A rekey exchange succeeds and both ends agree: when two links are in
  step and neither has a rekey pending, the init of one, answered by the
  other, can be completed. The acknowledgement is accepted, the commit made and
  received, both ends then have the next generation active with the same root,
  and both still have the previous one.
\<close>

theorem rekey_agreement:
  assumes "digest_sizes P" "signatures_verify P" "agreement_symmetric P"
    and "link_ok A" "link_ok B" "\<not> ls_closed A" "\<not> ls_closed B"
    and "ls_pending A = None" "ls_pending B = None"
    and "ls_linkID A = ls_linkID B" "ls_activeKey A = ls_activeKey B"
    and "fmlookup (ls_roots A) (ls_activeKey A) = fmlookup (ls_roots B) (ls_activeKey B)"
    and "unat (ls_activeKey A) + 2 < 2 ^ 64" and "validBoundaries bs"
    and "InitiateRekey P A kA random ident = (A1, Inr init)"
    and "ReceiveRekeyInit P B init (ed25519_public P kA) kB random' = (B1, Inr ack)"
  shows "\<exists>A2 A3 B2 commit root.
    ReceiveRekeyAck P A1 ack (ed25519_public P kB) = (A2, None) \<and>
    CommitRekey A2 bs = (A3, Inr commit) \<and> ReceiveRekeyCommit B1 commit = (B2, None) \<and>
    ls_activeKey A3 = ls_activeKey A + 1 \<and> ls_activeKey B2 = ls_activeKey A + 1 \<and>
    RootKey A3 (ls_activeKey A + 1) = Inr root \<and> RootKey B2 (ls_activeKey A + 1) = Inr root \<and>
    RootKey A3 (ls_activeKey A) = RootKey A (ls_activeKey A) \<and>
    RootKey B2 (ls_activeKey B) = RootKey B (ls_activeKey B)"
proof -
  let ?a = "ls_activeKey A"
  have next0: "?a + 1 \<noteq> 0" by (rule unat_no_wrap) (use assms(13) in simp)
  obtain A2 pA pB where ackA: "ReceiveRekeyAck P A1 ack (ed25519_public P kB) = (A2, None)"
    and A2: "A2 = A\<lparr>ls_pending := Some pA\<rparr>" and B1: "B1 = B\<lparr>ls_pending := Some pB\<rparr>"
    and ok: "link_ok A2" "link_ok B1" and p: "pe_initiator pA" "\<not> pe_initiator pB" "pe_id pA = pe_id pB"
      "pe_nextKeyID pA = ?a + 1" "pe_nextRootKey pA = pe_nextRootKey pB"
    and root: "length (pe_nextRootKey pB) = RootKeySize"
    using rekey_acknowledged [OF assms(1-13,15,16)] by blast
  define commit where "commit = \<lparr>rc_LinkID = ls_linkID A, rc_RekeyID = pe_id pA,
     rc_NextKeyID = ?a + 1, rc_Boundaries = canonicalBoundaries bs\<rparr>"
  have pending: "ls_pending A2 = Some pA" "ls_pending B1 = Some pB" by (simp_all add: A2 B1)
  have commitA: "CommitRekey A2 bs = (activatePendingLocked A2 commit, Inr commit)"
    by (rule commit_success [OF _ pending(1)]) (use assms(6,14) root p in \<open>simp_all add: A2 commit_def\<close>)
  have commitB: "ReceiveRekeyCommit B1 commit = (activatePendingLocked B1 commit, None)"
    by (rule receive_commit_success [OF ok(2) _ _ pending(2)])
      (use assms(7,10,11,14) root p next0 in \<open>simp_all add: B1 commit_def\<close>)
  have room: "unat (ls_activeKey A2) + 2 < 2 ^ 64" "unat (ls_activeKey B1) + 2 < 2 ^ 64"
    "\<not> ls_closed A2" "\<not> ls_closed B1"
    using assms(6,7,11,13) by (simp_all add: A2 B1)
  have "ls_activeKey (activatePendingLocked A2 commit) = ?a + 1 \<and>
      fmlookup (ls_roots (activatePendingLocked A2 commit)) (?a + 1) = Some (pe_nextRootKey pB) \<and>
      fmlookup (ls_roots (activatePendingLocked A2 commit)) ?a = fmlookup (ls_roots A) ?a \<and>
      \<not> ls_closed (activatePendingLocked A2 commit)"
    using activate_ok [OF ok(1) room(3) pending(1) _ room(1) refl, of commit] root p(5) by (simp add: A2)
  moreover have "ls_activeKey (activatePendingLocked B1 commit) = ?a + 1 \<and>
      fmlookup (ls_roots (activatePendingLocked B1 commit)) (?a + 1) = Some (pe_nextRootKey pB) \<and>
      fmlookup (ls_roots (activatePendingLocked B1 commit)) ?a = fmlookup (ls_roots B) ?a \<and>
      \<not> ls_closed (activatePendingLocked B1 commit)"
    using activate_ok [OF ok(2) room(4) pending(2) _ room(2) refl, of commit] root assms(11) by (simp add: B1)
  ultimately show ?thesis
    using ackA commitA commitB root assms(6,7,11) next0
    by (auto simp: RootKey_def fmget_def intro!: exI [of _ "pe_nextRootKey pB"])
qed

abbreviation "sample_rekey_id \<equiv> replicate 24 (CHR ''A'')"

definition sample_init :: RekeyInit where
  "sample_init = \<lparr>ri_LinkID = ''l'', ri_RekeyID = sample_rekey_id, ri_NextKeyID = 2,
     ri_EphemeralPublic = replicate 32 6, ri_IdentitySignature = replicate 64 5\<rparr>"

definition sample_ack :: RekeyAck where
  "sample_ack = \<lparr>ra_LinkID = ''l'', ra_RekeyID = sample_rekey_id, ra_NextKeyID = 2,
     ra_EphemeralPublic = replicate 32 6, ra_IdentitySignature = replicate 64 5\<rparr>"

lemma sample_id: "randomRekeyID (Some (replicate 18 0)) = Inr sample_rekey_id" "validField sample_rekey_id"
proof -
  show "randomRekeyID (Some (replicate 18 0)) = Inr sample_rekey_id"
  proof -
    have "replicate 18 (0 :: 8 word) = [0, 0, 0, 0, 0, 0, 0, 0, 0, 0, 0, 0, 0, 0, 0, 0, 0, 0]"
      by (simp add: numeral_eq_Suc)
    moreover have "sample_rekey_id = ''AAAAAAAAAAAAAAAAAAAAAAAA''" by (simp add: numeral_eq_Suc)
    ultimately show ?thesis by (simp add: randomRekeyID_def base64_url_def)
  qed
  show "validField sample_rekey_id"
    by (simp add: validField_def TrimSpace_def ContainsNUL_def go_spaces_def starts_with_def numeral_eq_Suc)
qed

lemma plain_simps:
  "ed25519_sign plain_primitives k m = replicate 64 5" "ed25519_public plain_primitives k = replicate 32 4"
  "x25519_public plain_primitives k = replicate 32 6" "x25519 plain_primitives a b = Some (replicate 32 7)"
  "ed25519_verify plain_primitives k m s = (s = replicate 64 5)"
  "hkdf_sha256 plain_primitives z salt i n = Some (replicate n 3)"
  by (simp_all add: plain_primitives_def)

lemma sample_initiate:
  "InitiateRekey plain_primitives sample_link (replicate 64 1) (Some []) (Some (replicate 18 0))
     = (fst (InitiateRekey plain_primitives sample_link (replicate 64 1) (Some []) (Some (replicate 18 0))),
        Inr sample_init)"
  using sample_id valid_l
  by (simp add: InitiateRekey_def sample_link_def GenerateEphemeralKey_def signRekeyInit_def
      validRekeyFields_def sample_init_def plain_simps Let_def size_defs)

lemma sample_respond:
  "ReceiveRekeyInit plain_primitives sample_link sample_init (replicate 32 4) (replicate 64 1) (Some [])
     = (fst (ReceiveRekeyInit plain_primitives sample_link sample_init (replicate 32 4) (replicate 64 1) (Some [])),
        Inr sample_ack)"
  using sample_id valid_l
  by (simp add: ReceiveRekeyInit_def respond_rekey_def sample_link_def GenerateEphemeralKey_def
      completedRekeyLocked_def validateRekeyInit_def validateRekeySignature_def X25519SharedSecret_def
      deriveRekeyRoot_def hkdfBytes_def signRekeyAck_def fmget_def
      validRekeyFields_def sample_init_def sample_ack_def plain_simps Let_def size_defs)

lemma sample_link_ok: "link_ok sample_link" "\<not> ls_closed sample_link" "ls_pending sample_link = None"
    "ls_activeKey sample_link = 1"
  using link_new_ok [OF sample_link_new] by (simp_all add: sample_link_def)

theorem rekey_agreement_witness:
  "\<exists>A2 A3 B2 commit. CommitRekey A2 [] = (A3, Inr commit) \<and>
     ReceiveRekeyCommit (fst (ReceiveRekeyInit plain_primitives sample_link sample_init (replicate 32 4)
       (replicate 64 1) (Some []))) commit = (B2, None) \<and> ls_activeKey A3 = 2 \<and> ls_activeKey B2 = 2"
proof -
  have "validBoundaries []" by (simp add: validBoundaries_def canonicalBoundaries_def)
  with rekey_agreement [OF plain_sizes sample_link_ok(1,1,2,2,3,3) refl refl refl _ _ sample_initiate,
      of "[]" "replicate 64 1" "Some []", unfolded plain_simps, OF _ _ sample_respond]
  show ?thesis using sample_link_ok(4) by force
qed

text \<open>
  Retransmissions are harmless: repeating any call or message of a rekey
  exchange that was answered once gives the same answer and leaves the state
  as it is, whatever randomness, and whatever boundaries of a later commit, the
  repetition brings.
\<close>

theorem rekey_retransmission:
  assumes "link_ok s" and "unat (ls_activeKey s) + 2 < 2 ^ 64"
    and "length k = Ed25519PrivateKeySize"
  shows "(InitiateRekey P s k0 kr ir = (s1, Inr i) \<longrightarrow> InitiateRekey P s1 k kr' ir' = (s1, Inr i)) \<and>
    (ReceiveRekeyInit P s i pub k0 kr = (s1, Inr a) \<longrightarrow> ReceiveRekeyInit P s1 i pub k kr' = (s1, Inr a)) \<and>
    (ReceiveRekeyAck P s a pub = (s1, None) \<longrightarrow> ReceiveRekeyAck P s1 a pub = (s1, None)) \<and>
    (CommitRekey s bs = (s1, Inr c) \<longrightarrow> CommitRekey s1 bs' = (s1, Inr c)) \<and>
    (ReceiveRekeyCommit s c = (s1, None) \<longrightarrow> ReceiveRekeyCommit s1 c = (s1, None)) \<and>
    (ls_pending s = None \<and> s1 \<noteq> s \<and> link_ok s1 \<and> s2 \<noteq> s1 \<and>
       ReceiveRekeyInit P s i pub k0 kr = (s1, Inr a) \<and> ReceiveRekeyCommit s1 c = (s2, None) \<longrightarrow>
       ReceiveRekeyInit P s2 i pub k kr' = (s2, Inr a))"
  using initiate_again [OF _ assms(3)] receive_init_again [OF _ assms(3)] receive_ack_again
    commit_again [OF assms(1,2)] receive_commit_again [OF assms(1,2)] init_after_commit [OF assms(1,2)] assms(3)
  by metis

theorem rekey_retransmission_witness:
  "InitiateRekey plain_primitives
     (fst (InitiateRekey plain_primitives sample_link (replicate 64 1) (Some []) (Some (replicate 18 0))))
     (replicate 64 2) None None
   = (fst (InitiateRekey plain_primitives sample_link (replicate 64 1) (Some []) (Some (replicate 18 0))),
      Inr sample_init)"
proof -
  have "unat (ls_activeKey sample_link) + 2 < 2 ^ 64" and "length (replicate 64 (2 :: 8 word)) = Ed25519PrivateKeySize"
    by (simp_all add: sample_link_ok(4) Ed25519PrivateKeySize_def)
  from rekey_retransmission [OF sample_link_ok(1) this] sample_initiate show ?thesis by blast
qed

text \<open>
  C40. A link that has answered a rekey request and is then asked to start one
  itself does not report the conflict: it returns the request of its peer as
  if it were its own, unchanged and with the peer's signature.
\<close>

theorem initiate_echoes_peer_request:
  assumes "ls_pending s = None" and "ReceiveRekeyInit P s i pub k kr = (s1, Inr a)" and "s1 \<noteq> s"
    and "length k' = Ed25519PrivateKeySize"
  shows "InitiateRekey P s1 k' kr' ir' = (s1, Inr i)"
  using assms(2)
proof (cases rule: ReceiveRekeyInit_cases)
  case (responded p a' e root)
  then show ?thesis using assms(4) by (simp add: InitiateRekey_def)
qed (use assms(3) in simp)

theorem initiate_echoes_peer_request_witness:
  "snd (InitiateRekey plain_primitives (fst (ReceiveRekeyInit plain_primitives sample_link sample_init
     (replicate 32 4) (replicate 64 1) (Some []))) (replicate 64 2) None None) = Inr sample_init"
proof -
  let ?s1 = "fst (ReceiveRekeyInit plain_primitives sample_link sample_init (replicate 32 4) (replicate 64 1) (Some []))"
  have len: "length (replicate 64 (2 :: 8 word)) = Ed25519PrivateKeySize"
    by (simp add: Ed25519PrivateKeySize_def)
  have "?s1 \<noteq> sample_link"
  proof
    assume same: "?s1 = sample_link"
    have "completedRekeyLocked sample_link x y = None" for x y
      by (simp add: completedRekeyLocked_def sample_link_def)
    then have "respond_rekey plain_primitives sample_link sample_init (replicate 64 1) (Some [])
        = (sample_link, Inr sample_ack)"
      using sample_respond same sample_link_ok(2,3)
      by (auto simp: ReceiveRekeyInit_def split: if_splits option.splits)
    from respond_success [OF this] show False by (auto simp: sample_link_def)
  qed
  from initiate_echoes_peer_request [OF sample_link_ok(3) sample_respond this len] show ?thesis by simp
qed

end
