(* ===== verification/V2_Queue.thy ===== *)
theory V2_Queue
  imports Relay_Interfaces
begin

text \<open>
  The priority queue of a remote/v2 carrier and the budget all carriers of a
  relay share, from \<open>server/internal/relayserver/v2_carrier.go\<close>. A queued
  envelope is of type \<open>'e\<close>; what the queue reads of it (is there a body, how
  many bytes does \<open>proto.Size\<close> count) is a parameter. The shared budget is a
  pointer in the code, so the operations of a queue take it and return it;
  \<open>None\<close> is the nil budget.
\<close>

subsection \<open>Priorities and limits\<close>

text \<open>\<open>v2PriorityOther\<close> stands for every value outside the three priorities.\<close>

datatype v2Priority = v2PriorityOther | v2PriorityControl | v2PriorityInteractive | v2PriorityBulk

definition valid_priority :: "v2Priority \<Rightarrow> bool" where
  "valid_priority c \<longleftrightarrow> c \<noteq> v2PriorityOther"

definition v2MaximumCarrierFrame :: int where "v2MaximumCarrierFrame = 4 * 2 ^ 20"
definition v2DefaultControlBytes :: int where "v2DefaultControlBytes = 512 * 2 ^ 10"
definition v2DefaultInteractiveBytes :: int where "v2DefaultInteractiveBytes = 2 * 2 ^ 20"
definition v2DefaultBulkBytes :: int where "v2DefaultBulkBytes = 8 * 2 ^ 20"
definition v2DefaultQueueFrames :: int where "v2DefaultQueueFrames = 256"
definition v2DefaultGlobalQueueBytes :: int where "v2DefaultGlobalQueueBytes = 256 * 2 ^ 20"
definition v2DefaultGlobalQueueFrames :: int where "v2DefaultGlobalQueueFrames = 65536"

datatype v2_error = ErrV2QueueFull | ErrV2QueueClosed | ErrV2Route | ErrV2TransientRoute

record V2QueueLimits =
  ql_ControlBytes :: int
  ql_InteractiveBytes :: int
  ql_BulkBytes :: int
  ql_Frames :: int
  ql_ControlFrames :: int
  ql_InteractiveFrames :: int
  ql_BulkFrames :: int

definition limits_normalized :: "V2QueueLimits \<Rightarrow> V2QueueLimits" where
  "limits_normalized limits =
     (let limits = (if ql_ControlBytes limits \<le> 0 then limits\<lparr>ql_ControlBytes := v2DefaultControlBytes\<rparr> else limits);
          limits = (if ql_InteractiveBytes limits \<le> 0 then limits\<lparr>ql_InteractiveBytes := v2DefaultInteractiveBytes\<rparr> else limits);
          limits = (if ql_BulkBytes limits \<le> 0 then limits\<lparr>ql_BulkBytes := v2DefaultBulkBytes\<rparr> else limits);
          frameDefault = ql_Frames limits;
          frameDefault = (if frameDefault \<le> 0 then v2DefaultQueueFrames else frameDefault);
          limits = (if ql_ControlFrames limits \<le> 0 then limits\<lparr>ql_ControlFrames := frameDefault\<rparr> else limits);
          limits = (if ql_InteractiveFrames limits \<le> 0 then limits\<lparr>ql_InteractiveFrames := frameDefault\<rparr> else limits);
          limits = (if ql_BulkFrames limits \<le> 0 then limits\<lparr>ql_BulkFrames := frameDefault\<rparr> else limits)
      in limits)"

definition limits_valid :: "V2QueueLimits \<Rightarrow> bool" where
  "limits_valid limits \<longleftrightarrow>
     ql_ControlBytes limits \<ge> 4 * 2 ^ 10 \<and> ql_ControlBytes limits \<le> 16 * 2 ^ 20 \<and>
     ql_InteractiveBytes limits \<ge> 4 * 2 ^ 10 \<and> ql_InteractiveBytes limits \<le> 32 * 2 ^ 20 \<and>
     ql_BulkBytes limits \<ge> 4 * 2 ^ 10 \<and> ql_BulkBytes limits \<le> 64 * 2 ^ 20 \<and>
     ql_ControlFrames limits \<ge> 1 \<and> ql_ControlFrames limits \<le> 4096 \<and>
     ql_InteractiveFrames limits \<ge> 1 \<and> ql_InteractiveFrames limits \<le> 4096 \<and>
     ql_BulkFrames limits \<ge> 1 \<and> ql_BulkFrames limits \<le> 4096"

subsection \<open>The shared budget\<close>

text \<open>The two arrays indexed by priority are functions of it.\<close>

record V2QueueBudget =
  vb_maxBytes :: int
  vb_maxFrames :: int
  vb_bytes :: int
  vb_frames :: int
  vb_classBytes :: "v2Priority \<Rightarrow> int"
  vb_classFrames :: "v2Priority \<Rightarrow> int"
  vb_rejected :: u64

definition NewV2QueueBudget :: "int \<Rightarrow> int \<Rightarrow> V2QueueBudget option" where
  "NewV2QueueBudget maxBytes maxFrames =
     (if maxBytes < 2 ^ 20 \<or> maxBytes > 4 * 2 ^ 30 \<or> maxFrames < 1 \<or> maxFrames > 1000000 then None
      else Some \<lparr>vb_maxBytes = maxBytes, vb_maxFrames = maxFrames, vb_bytes = 0, vb_frames = 0,
        vb_classBytes = (\<lambda>_. 0), vb_classFrames = (\<lambda>_. 0), vb_rejected = 0\<rparr>)"

definition budget_reserve :: "V2QueueBudget \<Rightarrow> v2Priority \<Rightarrow> int \<Rightarrow> V2QueueBudget \<times> bool" where
  "budget_reserve budget class bytes =
     (let valid = (bytes > 0 \<and> valid_priority class);
          projectedBytes = vb_bytes budget + bytes;
          projectedFrames = vb_frames budget + 1;
          valid = (if valid \<and> class = v2PriorityBulk
            then vb_classBytes budget class + bytes \<le> vb_maxBytes budget * 3 div 4 \<and>
              vb_classFrames budget class + 1 \<le> vb_maxFrames budget * 3 div 4
            else valid);
          nonControlBytes = vb_classBytes budget v2PriorityInteractive + vb_classBytes budget v2PriorityBulk + bytes;
          nonControlFrames = vb_classFrames budget v2PriorityInteractive + vb_classFrames budget v2PriorityBulk + 1;
          valid = (if valid \<and> class = v2PriorityInteractive
            then nonControlBytes \<le> vb_maxBytes budget * 7 div 8 \<and>
              nonControlFrames \<le> vb_maxFrames budget * 7 div 8
            else valid)
      in if \<not> valid \<or> projectedBytes > vb_maxBytes budget \<or> projectedFrames > vb_maxFrames budget
         then (budget\<lparr>vb_rejected := vb_rejected budget + 1\<rparr>, False)
         else (budget\<lparr>vb_bytes := projectedBytes, vb_frames := projectedFrames,
           vb_classBytes := (vb_classBytes budget)(class := vb_classBytes budget class + bytes),
           vb_classFrames := (vb_classFrames budget)(class := vb_classFrames budget class + 1)\<rparr>, True))"

definition budget_release :: "V2QueueBudget \<Rightarrow> v2Priority \<Rightarrow> int \<Rightarrow> int \<Rightarrow> V2QueueBudget" where
  "budget_release budget class bytes frames =
     (if \<not> valid_priority class \<or> bytes < 0 \<or> frames < 0 then budget
      else budget\<lparr>vb_bytes := max 0 (vb_bytes budget - bytes), vb_frames := max 0 (vb_frames budget - frames),
        vb_classBytes := (vb_classBytes budget)(class := max 0 (vb_classBytes budget class - bytes)),
        vb_classFrames := (vb_classFrames budget)(class := max 0 (vb_classFrames budget class - frames))\<rparr>)"

record V2QueueBudgetSnapshot =
  bs_Bytes :: int
  bs_Frames :: int
  bs_MaxBytes :: int
  bs_MaxFrames :: int
  bs_Rejected :: u64
  bs_ControlBytes :: int
  bs_InteractiveBytes :: int
  bs_BulkBytes :: int
  bs_ControlFrames :: int
  bs_InteractiveFrames :: int
  bs_BulkFrames :: int

definition budget_Snapshot :: "V2QueueBudget \<Rightarrow> V2QueueBudgetSnapshot" where
  "budget_Snapshot budget =
     \<lparr>bs_Bytes = vb_bytes budget, bs_Frames = vb_frames budget, bs_MaxBytes = vb_maxBytes budget,
      bs_MaxFrames = vb_maxFrames budget, bs_Rejected = vb_rejected budget,
      bs_ControlBytes = vb_classBytes budget v2PriorityControl,
      bs_InteractiveBytes = vb_classBytes budget v2PriorityInteractive,
      bs_BulkBytes = vb_classBytes budget v2PriorityBulk,
      bs_ControlFrames = vb_classFrames budget v2PriorityControl,
      bs_InteractiveFrames = vb_classFrames budget v2PriorityInteractive,
      bs_BulkFrames = vb_classFrames budget v2PriorityBulk\<rparr>"

text \<open>A nil budget admits everything and releases nothing.\<close>

definition reserve_opt :: "V2QueueBudget option \<Rightarrow> v2Priority \<Rightarrow> int \<Rightarrow> V2QueueBudget option \<times> bool" where
  "reserve_opt budget class bytes =
     (case budget of None \<Rightarrow> (None, True)
      | Some b \<Rightarrow> (case budget_reserve b class bytes of (b, ok) \<Rightarrow> (Some b, ok)))"

definition release_opt :: "V2QueueBudget option \<Rightarrow> v2Priority \<Rightarrow> int \<Rightarrow> int \<Rightarrow> V2QueueBudget option" where
  "release_opt budget class bytes frames =
     (case budget of None \<Rightarrow> None | Some b \<Rightarrow> Some (budget_release b class bytes frames))"

subsection \<open>The queue of a carrier\<close>

record 'e v2QueuedFrame =
  vf_envelope :: 'e
  vf_class :: v2Priority
  vf_bytes :: int

record 'e v2PriorityQueue =
  vq_queues :: "(v2Priority, 'e v2QueuedFrame list) fmap"
  vq_bytes :: "(v2Priority, int) fmap"
  vq_frames :: "(v2Priority, int) fmap"
  vq_limits :: V2QueueLimits
  vq_notify :: bool
  vq_closed :: bool
  vq_scheduleIndex :: nat
  vq_rejected :: u64

definition v2PrioritySchedule :: "v2Priority list" where
  "v2PrioritySchedule =
     [v2PriorityControl, v2PriorityControl, v2PriorityControl, v2PriorityControl,
      v2PriorityInteractive, v2PriorityInteractive,
      v2PriorityBulk]"

definition newV2PriorityQueue :: "V2QueueLimits \<Rightarrow> 'e v2PriorityQueue option" where
  "newV2PriorityQueue limits =
     (let limits = limits_normalized limits
      in if \<not> limits_valid limits then None
         else Some \<lparr>vq_queues = fmempty, vq_bytes = fmempty, vq_frames = fmempty, vq_limits = limits,
           vq_notify = False, vq_closed = False, vq_scheduleIndex = 0, vq_rejected = 0\<rparr>)"

fun limitFor :: "'e v2PriorityQueue \<Rightarrow> v2Priority \<Rightarrow> int" where
  "limitFor queue v2PriorityControl = ql_ControlBytes (vq_limits queue)"
| "limitFor queue v2PriorityInteractive = ql_InteractiveBytes (vq_limits queue)"
| "limitFor queue _ = ql_BulkBytes (vq_limits queue)"

fun frameLimitFor :: "'e v2PriorityQueue \<Rightarrow> v2Priority \<Rightarrow> int" where
  "frameLimitFor queue v2PriorityControl = ql_ControlFrames (vq_limits queue)"
| "frameLimitFor queue v2PriorityInteractive = ql_InteractiveFrames (vq_limits queue)"
| "frameLimitFor queue _ = ql_BulkFrames (vq_limits queue)"

definition queuedFramesLocked :: "'e v2PriorityQueue \<Rightarrow> int" where
  "queuedFramesLocked queue =
     fmget 0 (vq_frames queue) v2PriorityControl + fmget 0 (vq_frames queue) v2PriorityInteractive +
     fmget 0 (vq_frames queue) v2PriorityBulk"

definition vq_signal :: "'e v2PriorityQueue \<Rightarrow> 'e v2PriorityQueue" where
  "vq_signal queue = queue\<lparr>vq_notify := True\<rparr>"

definition vq_reject :: "'e v2PriorityQueue \<Rightarrow> 'e v2PriorityQueue" where
  "vq_reject queue = queue\<lparr>vq_rejected := vq_rejected queue + 1\<rparr>"

text \<open>\<open>hasBody\<close> is \<open>envelope.Body != nil\<close>, \<open>protoSize\<close> is \<open>proto.Size\<close>; the clone is equal.\<close>

definition vq_enqueue ::
  "('e \<Rightarrow> bool) \<Rightarrow> ('e \<Rightarrow> int) \<Rightarrow> 'e v2PriorityQueue \<times> V2QueueBudget option \<Rightarrow> 'e option \<Rightarrow> v2Priority \<Rightarrow>
     ('e v2PriorityQueue \<times> V2QueueBudget option) \<times> v2_error option" where
  "vq_enqueue hasBody protoSize qb envelope class =
     (case (qb, envelope) of
        ((queue, budget), None) \<Rightarrow> ((queue, budget), Some ErrV2QueueFull)
      | ((queue, budget), Some envelope) \<Rightarrow>
          if \<not> hasBody envelope \<or> \<not> valid_priority class then ((queue, budget), Some ErrV2QueueFull)
          else
            (let bytes = protoSize envelope + 96
             in if bytes \<le> 0 \<or> bytes > v2MaximumCarrierFrame
                then ((vq_reject queue, budget), Some ErrV2QueueFull)
                else if vq_closed queue then ((vq_reject queue, budget), Some ErrV2QueueClosed)
                else if fmget 0 (vq_frames queue) class + 1 > frameLimitFor queue class \<or>
                  fmget 0 (vq_bytes queue) class + bytes > limitFor queue class
                then ((vq_reject queue, budget), Some ErrV2QueueFull)
                else (case reserve_opt budget class bytes of
                    (budget, False) \<Rightarrow> ((vq_reject queue, budget), Some ErrV2QueueFull)
                  | (budget, True) \<Rightarrow>
                      ((vq_signal (queue
                        \<lparr>vq_queues := fmupd class (fmget [] (vq_queues queue) class @
                           [\<lparr>vf_envelope = envelope, vf_class = class, vf_bytes = bytes\<rparr>]) (vq_queues queue),
                         vq_bytes := fmupd class (fmget 0 (vq_bytes queue) class + bytes) (vq_bytes queue),
                         vq_frames := fmupd class (fmget 0 (vq_frames queue) class + 1) (vq_frames queue)\<rparr>),
                        budget), None))))"

text \<open>
  One round of \<open>dequeue\<close>: the scan over the offsets of the schedule, and
  taking the head \<open>frame\<close> of a class whose other frames are \<open>rest\<close>.
\<close>

definition vq_remove ::
  "'e v2PriorityQueue \<times> V2QueueBudget option \<Rightarrow> nat \<Rightarrow> 'e v2QueuedFrame \<Rightarrow> 'e v2QueuedFrame list \<Rightarrow>
     'e v2PriorityQueue \<times> V2QueueBudget option" where
  "vq_remove qb index frame rest =
     (case qb of (queue, budget) \<Rightarrow>
       (let class = v2PrioritySchedule ! index;
            queue = queue
              \<lparr>vq_queues := (if rest = [] then fmdrop class (vq_queues queue)
                              else fmupd class rest (vq_queues queue)),
               vq_bytes := fmupd class (fmget 0 (vq_bytes queue) class - vf_bytes frame) (vq_bytes queue),
               vq_frames := fmupd class (fmget 0 (vq_frames queue) class - 1) (vq_frames queue)\<rparr>;
            budget = release_opt budget class (vf_bytes frame) 1;
            queue = queue\<lparr>vq_scheduleIndex := (index + 1) mod length v2PrioritySchedule\<rparr>;
            queue = (if queuedFramesLocked queue > 0 then vq_signal queue else queue)
        in (queue, budget)))"

fun vq_scan ::
  "nat list \<Rightarrow> 'e v2PriorityQueue \<times> V2QueueBudget option \<Rightarrow>
     ('e v2QueuedFrame \<times> ('e v2PriorityQueue \<times> V2QueueBudget option)) option" where
  "vq_scan [] qb = None"
| "vq_scan (offset # offsets) qb =
     (let index = (vq_scheduleIndex (fst qb) + offset) mod length v2PrioritySchedule
      in case fmget [] (vq_queues (fst qb)) (v2PrioritySchedule ! index) of
          [] \<Rightarrow> vq_scan offsets qb
        | frame # rest \<Rightarrow> Some (frame, vq_remove qb index frame rest))"

definition vq_take ::
  "'e v2PriorityQueue \<times> V2QueueBudget option \<Rightarrow>
     ('e v2QueuedFrame \<times> ('e v2PriorityQueue \<times> V2QueueBudget option)) option" where
  "vq_take qb = vq_scan [0..<length v2PrioritySchedule] qb"

datatype 'e v2_dequeued = V2Frame "'e v2QueuedFrame" | V2Closed | V2Wait

definition vq_dequeue ::
  "'e v2PriorityQueue \<times> V2QueueBudget option \<Rightarrow> ('e v2PriorityQueue \<times> V2QueueBudget option) \<times> 'e v2_dequeued" where
  "vq_dequeue qb =
     (case vq_take qb of
        Some (frame, qb) \<Rightarrow> (qb, V2Frame frame)
      | None \<Rightarrow> (qb, if vq_closed (fst qb) then V2Closed else V2Wait))"

record V2QueueSnapshot =
  qs_ControlFrames :: int
  qs_InteractiveFrames :: int
  qs_BulkFrames :: int
  qs_ControlBytes :: int
  qs_InteractiveBytes :: int
  qs_BulkBytes :: int
  qs_Rejected :: u64

definition vq_snapshot :: "'e v2PriorityQueue \<Rightarrow> V2QueueSnapshot" where
  "vq_snapshot queue =
     \<lparr>qs_ControlFrames = fmget 0 (vq_frames queue) v2PriorityControl,
      qs_InteractiveFrames = fmget 0 (vq_frames queue) v2PriorityInteractive,
      qs_BulkFrames = fmget 0 (vq_frames queue) v2PriorityBulk,
      qs_ControlBytes = fmget 0 (vq_bytes queue) v2PriorityControl,
      qs_InteractiveBytes = fmget 0 (vq_bytes queue) v2PriorityInteractive,
      qs_BulkBytes = fmget 0 (vq_bytes queue) v2PriorityBulk,
      qs_Rejected = vq_rejected queue\<rparr>"

definition vq_close ::
  "'e v2PriorityQueue \<times> V2QueueBudget option \<Rightarrow> 'e v2PriorityQueue \<times> V2QueueBudget option" where
  "vq_close qb =
     (case qb of (queue, budget) \<Rightarrow>
       if vq_closed queue then (queue, budget)
       else
         (let budget = fold (\<lambda>class b. release_opt b class (fmget 0 (vq_bytes queue) class)
                (fmget 0 (vq_frames queue) class))
                [v2PriorityControl, v2PriorityInteractive, v2PriorityBulk] budget
          in (vq_signal (queue\<lparr>vq_closed := True, vq_queues := fmempty, vq_bytes := fmempty,
                vq_frames := fmempty\<rparr>), budget)))"

subsection \<open>The budget accounts for what is reserved\<close>

definition budget_ok :: "V2QueueBudget \<Rightarrow> bool" where
  "budget_ok b \<longleftrightarrow>
     vb_bytes b = vb_classBytes b v2PriorityControl + vb_classBytes b v2PriorityInteractive + vb_classBytes b v2PriorityBulk \<and>
     vb_frames b = vb_classFrames b v2PriorityControl + vb_classFrames b v2PriorityInteractive + vb_classFrames b v2PriorityBulk \<and>
     (\<forall>c. 0 \<le> vb_classBytes b c \<and> 0 \<le> vb_classFrames b c) \<and>
     vb_bytes b \<le> vb_maxBytes b \<and> vb_frames b \<le> vb_maxFrames b \<and>
     vb_classBytes b v2PriorityBulk \<le> vb_maxBytes b * 3 div 4 \<and>
     vb_classFrames b v2PriorityBulk \<le> vb_maxFrames b * 3 div 4"

lemma budget_new_ok: "NewV2QueueBudget maxBytes maxFrames = Some b \<Longrightarrow> budget_ok b"
  by (auto simp: NewV2QueueBudget_def budget_ok_def split: if_splits)

lemma reserve_cases:
  assumes "budget_reserve b c n = (b', r)"
  obtains (refused) "\<not> r" and "b' = b\<lparr>vb_rejected := vb_rejected b + 1\<rparr>"
  | (reserved) "r" and "valid_priority c" and "0 < n" and "vb_bytes b + n \<le> vb_maxBytes b"
      and "vb_frames b + 1 \<le> vb_maxFrames b"
      and "c = v2PriorityBulk \<longrightarrow> vb_classBytes b c + n \<le> vb_maxBytes b * 3 div 4 \<and>
             vb_classFrames b c + 1 \<le> vb_maxFrames b * 3 div 4"
      and "c = v2PriorityInteractive \<longrightarrow>
             vb_classBytes b v2PriorityInteractive + vb_classBytes b v2PriorityBulk + n \<le> vb_maxBytes b * 7 div 8 \<and>
             vb_classFrames b v2PriorityInteractive + vb_classFrames b v2PriorityBulk + 1 \<le> vb_maxFrames b * 7 div 8"
      and "b' = b\<lparr>vb_bytes := vb_bytes b + n, vb_frames := vb_frames b + 1,
             vb_classBytes := (vb_classBytes b)(c := vb_classBytes b c + n),
             vb_classFrames := (vb_classFrames b)(c := vb_classFrames b c + 1)\<rparr>"
proof (cases r)
  case True
  with assms show ?thesis
    by (intro reserved) (auto simp: budget_reserve_def Let_def split: if_splits)
next
  case False
  with assms show ?thesis
    by (intro refused) (auto simp: budget_reserve_def Let_def split: if_splits)
qed

lemma reserve_budget_ok:
  assumes "budget_ok b" and "budget_reserve b c n = (b', r)"
  shows "budget_ok b'"
  using assms(2)
proof (cases rule: reserve_cases)
  case refused
  then show ?thesis using assms(1) by (simp add: budget_ok_def)
next
  case reserved
  then show ?thesis using assms(1) by (cases c) (auto simp: budget_ok_def valid_priority_def)
qed

lemma release_budget_ok:
  assumes "budget_ok b" and "0 \<le> n" "n \<le> vb_classBytes b c" "0 \<le> m" "m \<le> vb_classFrames b c"
  shows "budget_ok (budget_release b c n m)"
proof -
  have "0 \<le> vb_classBytes b d \<and> 0 \<le> vb_classFrames b d" for d using assms(1) by (simp add: budget_ok_def)
  note nonneg = this [of v2PriorityControl] this [of v2PriorityInteractive] this [of v2PriorityBulk]
  show ?thesis
  proof (cases "valid_priority c")
    case True
    have "vb_classBytes b c \<le> vb_bytes b" "vb_classFrames b c \<le> vb_frames b"
      using assms(1) nonneg True by (cases c; simp add: budget_ok_def valid_priority_def)+
    then have "max 0 (vb_bytes b - n) = vb_bytes b - n" "max 0 (vb_frames b - m) = vb_frames b - m"
      "max 0 (vb_classBytes b c - n) = vb_classBytes b c - n" "max 0 (vb_classFrames b c - m) = vb_classFrames b c - m"
      using assms by auto
    with True assms show ?thesis
      by (cases c) (auto simp: budget_ok_def budget_release_def valid_priority_def)
  qed (use assms(1) in \<open>simp add: budget_release_def\<close>)
qed

interpretation budget: ledger budget_reserve budget_release vb_classBytes vb_classFrames budget_ok valid_priority
proof (unfold_locales, goal_cases)
  case (1 b c n)
  then show ?case using reserve_budget_ok by (metis prod.collapse)
next
  case (2 b c n b' d)
  from 2(2) show ?case by (cases rule: reserve_cases) auto
next
  case (3 b c n b' d)
  from 3(2) show ?case by (cases rule: reserve_cases) auto
next
  case (4 b n c m)
  then show ?case by (rule release_budget_ok)
next
  case (5 b c n m d)
  then show ?case by (simp add: budget_release_def)
qed

subsection \<open>The queue's invariant\<close>

abbreviation vq_backlog :: "'e v2PriorityQueue \<Rightarrow> v2Priority \<Rightarrow> 'e v2QueuedFrame list" where
  "vq_backlog q c \<equiv> fmget [] (vq_queues q) c"

definition frame_sum :: "'e v2QueuedFrame list \<Rightarrow> int" where
  "frame_sum fs = (\<Sum>f\<leftarrow>fs. vf_bytes f)"

lemma frame_sum_simps [simp]:
  "frame_sum [] = 0" "frame_sum (f # fs) = vf_bytes f + frame_sum fs" "frame_sum (fs @ gs) = frame_sum fs + frame_sum gs"
  by (simp_all add: frame_sum_def)

definition class_ok :: "'e v2PriorityQueue \<Rightarrow> v2Priority \<Rightarrow> bool" where
  "class_ok q c \<longleftrightarrow> fmget 0 (vq_bytes q) c = frame_sum (vq_backlog q c) \<and>
     fmget 0 (vq_frames q) c = int (length (vq_backlog q c)) \<and>
     fmget 0 (vq_bytes q) c \<le> limitFor q c \<and> fmget 0 (vq_frames q) c \<le> frameLimitFor q c \<and>
     (\<forall>f\<in>set (vq_backlog q c). vf_class f = c \<and> 0 < vf_bytes f \<and> vf_bytes f \<le> v2MaximumCarrierFrame)"

definition vq_ok :: "'e v2PriorityQueue \<Rightarrow> bool" where
  "vq_ok q \<longleftrightarrow> vq_scheduleIndex q < 7 \<and> limits_valid (vq_limits q) \<and> (\<forall>c. class_ok q c) \<and>
     vq_backlog q v2PriorityOther = [] \<and> (vq_closed q \<longrightarrow> (\<forall>c. vq_backlog q c = []))"

lemma limitFor_cong:
  "vq_limits q' = vq_limits q \<Longrightarrow> limitFor q' c = limitFor q c \<and> frameLimitFor q' c = frameLimitFor q c"
  by (cases c) simp_all

lemma limits_positive: "limits_valid (vq_limits q) \<Longrightarrow> 0 \<le> limitFor q c \<and> 0 \<le> frameLimitFor q c"
  by (cases c) (auto simp: limits_valid_def)

lemma vq_new_ok: "newV2PriorityQueue limits = Some q \<Longrightarrow> vq_ok q \<and> \<not> vq_closed q \<and> (\<forall>c. vq_backlog q c = [])"
  by (auto simp: newV2PriorityQueue_def Let_def vq_ok_def class_ok_def limits_positive split: if_splits)

lemma frame_sum_nonneg: "vq_ok q \<Longrightarrow> 0 \<le> frame_sum (vq_backlog q c)"
  unfolding frame_sum_def by (intro sum_list_nonneg) (fastforce simp: vq_ok_def class_ok_def)

lemma vq_signal_simps [simp]:
  "vq_queues (vq_signal q) = vq_queues q" "vq_bytes (vq_signal q) = vq_bytes q"
  "vq_frames (vq_signal q) = vq_frames q" "vq_limits (vq_signal q) = vq_limits q"
  "vq_closed (vq_signal q) = vq_closed q" "vq_scheduleIndex (vq_signal q) = vq_scheduleIndex q"
  "vq_notify (vq_signal q)" "vq_rejected (vq_signal q) = vq_rejected q"
  by (simp_all add: vq_signal_def)

lemma vq_reject_simps [simp]:
  "vq_queues (vq_reject q) = vq_queues q" "vq_bytes (vq_reject q) = vq_bytes q"
  "vq_frames (vq_reject q) = vq_frames q" "vq_limits (vq_reject q) = vq_limits q"
  "vq_closed (vq_reject q) = vq_closed q" "vq_scheduleIndex (vq_reject q) = vq_scheduleIndex q"
  "vq_notify (vq_reject q) = vq_notify q"
  by (simp_all add: vq_reject_def)

lemma vq_reject_ok [simp]: "vq_ok (vq_reject q) = vq_ok q"
  using limitFor_cong [of "vq_reject q" q] by (simp add: vq_ok_def class_ok_def)

lemma vq_enqueue_cases:
  assumes "vq_enqueue hb ps (q, b) env c = ((q', b'), err)"
  obtains (refused) e where "err = Some e" and "q' = q \<or> q' = vq_reject q" and "b' = b"
  | (exhausted) e where "err = Some e" and "q' = vq_reject q"
      and "\<exists>n. reserve_opt b c n = (b', False)"
  | (queued) e n where "err = None" and "env = Some e" and "hb e" and "valid_priority c"
      and "n = ps e + 96" and "0 < n" and "n \<le> v2MaximumCarrierFrame" and "\<not> vq_closed q"
      and "fmget 0 (vq_frames q) c + 1 \<le> frameLimitFor q c" and "fmget 0 (vq_bytes q) c + n \<le> limitFor q c"
      and "reserve_opt b c n = (b', True)"
      and "q' = vq_signal (q\<lparr>vq_queues := fmupd c (vq_backlog q c @
             [\<lparr>vf_envelope = e, vf_class = c, vf_bytes = n\<rparr>]) (vq_queues q),
             vq_bytes := fmupd c (fmget 0 (vq_bytes q) c + n) (vq_bytes q),
             vq_frames := fmupd c (fmget 0 (vq_frames q) c + 1) (vq_frames q)\<rparr>)"
proof (cases err)
  case None
  then obtain e where e: "env = Some e" using assms by (cases env) (auto simp: vq_enqueue_def)
  let ?n = "ps e + 96"
  obtain b2 r where res: "reserve_opt b c ?n = (b2, r)" by fastforce
  from assms e None res show ?thesis
    by (intro queued [of e ?n]) (auto simp: vq_enqueue_def Let_def split: if_splits bool.splits)
next
  case (Some x)
  show ?thesis
  proof (cases "b' = b \<and> (q' = q \<or> q' = vq_reject q)")
    case True
    with Some refused show ?thesis by blast
  next
    case False
    then obtain e where e: "env = Some e" using assms by (cases env) (auto simp: vq_enqueue_def)
    obtain b2 r where res: "reserve_opt b c (ps e + 96) = (b2, r)" by fastforce
    have "\<not> r" "q' = vq_reject q" "b' = b2"
      using assms e Some res False by (auto simp: vq_enqueue_def Let_def split: if_splits bool.splits)
    with res Some show ?thesis by (intro exhausted [of x]) auto
  qed
qed

lemma vq_enqueue_ok:
  assumes "vq_ok q" and "vq_enqueue hb ps (q, b) env c = ((q', b'), err)"
  shows "vq_ok q'"
  using assms(2)
proof (cases rule: vq_enqueue_cases)
  case (queued e n)
  have lim: "limitFor q' d = limitFor q d \<and> frameLimitFor q' d = frameLimitFor q d" for d
    by (rule limitFor_cong) (simp add: queued)
  have blg: "vq_backlog q' d = (if d = c then vq_backlog q c @
      [\<lparr>vf_envelope = e, vf_class = c, vf_bytes = n\<rparr>] else vq_backlog q d)" for d
    by (simp add: queued)
  have "class_ok q' d" for d
  proof -
    have "fmget 0 (vq_bytes q') d = (if d = c then fmget 0 (vq_bytes q) c + n else fmget 0 (vq_bytes q) d)"
      "fmget 0 (vq_frames q') d = (if d = c then fmget 0 (vq_frames q) c + 1 else fmget 0 (vq_frames q) d)"
      by (simp_all add: queued(12))
    moreover have "class_ok q d" using assms(1) by (simp add: vq_ok_def)
    ultimately show ?thesis using lim [of d] blg [of d] queued(6,7,9,10) by (auto simp: class_ok_def)
  qed
  moreover have "vq_scheduleIndex q' = vq_scheduleIndex q" "vq_limits q' = vq_limits q" "\<not> vq_closed q'"
    using queued(8) by (simp_all add: queued(12))
  ultimately show ?thesis
    using assms(1) blg queued(4) by (simp add: vq_ok_def valid_priority_def)
qed (use assms(1) in auto)

lemma schedule_length [simp]: "length v2PrioritySchedule = 7"
  by (simp add: v2PrioritySchedule_def)

lemma schedule_valid: "i < 7 \<Longrightarrow> valid_priority (v2PrioritySchedule ! i)"
proof -
  assume "i < 7"
  then have "v2PrioritySchedule ! i \<in> set v2PrioritySchedule" by (intro nth_mem) simp
  then show ?thesis by (auto simp: v2PrioritySchedule_def valid_priority_def)
qed

lemma vq_scan_some:
  assumes "vq_scan offsets (q, b) = Some (f, qb')"
  shows "\<exists>k rest. k < length offsets \<and>
    (\<forall>j<k. vq_backlog q (v2PrioritySchedule ! ((vq_scheduleIndex q + offsets ! j) mod 7)) = []) \<and>
    vq_backlog q (v2PrioritySchedule ! ((vq_scheduleIndex q + offsets ! k) mod 7)) = f # rest \<and>
    qb' = vq_remove (q, b) ((vq_scheduleIndex q + offsets ! k) mod 7) f rest"
  using assms
proof (induction offsets)
  case (Cons x offsets)
  let ?bl = "vq_backlog q (v2PrioritySchedule ! ((vq_scheduleIndex q + x) mod 7))"
  show ?case
  proof (cases ?bl)
    case Nil
    with Cons obtain k rest where k: "k < length offsets"
      and empty: "\<forall>j<k. vq_backlog q (v2PrioritySchedule ! ((vq_scheduleIndex q + offsets ! j) mod 7)) = []"
      and f: "vq_backlog q (v2PrioritySchedule ! ((vq_scheduleIndex q + offsets ! k) mod 7)) = f # rest"
        "qb' = vq_remove (q, b) ((vq_scheduleIndex q + offsets ! k) mod 7) f rest"
      by (auto simp: Let_def)
    show ?thesis
      by (rule exI [of _ "Suc k"], rule exI [of _ rest]) (use Nil k empty f in \<open>auto simp: less_Suc_eq_0_disj\<close>)
  next
    case (Cons g rest)
    with Cons.prems show ?thesis
      by (intro exI [of _ 0] exI [of _ rest]) (auto simp: Let_def)
  qed
qed simp

lemma vq_scan_none:
  "vq_scan offsets (q, b) = None \<longleftrightarrow>
     (\<forall>x\<in>set offsets. vq_backlog q (v2PrioritySchedule ! ((vq_scheduleIndex q + x) mod 7)) = [])"
  by (induction offsets) (auto simp: Let_def split: list.splits)

lemma vq_take_none:
  assumes "vq_take (q, b) = None"
  shows "\<forall>c\<in>set v2PrioritySchedule. vq_backlog q c = []"
proof
  fix c assume "c \<in> set v2PrioritySchedule"
  then obtain i where i: "i < 7" "c = v2PrioritySchedule ! i"
    by (metis in_set_conv_nth schedule_length)
  let ?s = "vq_scheduleIndex q mod 7"
  have "?s < 7" by simp
  then have "(?s + (i + 7 - ?s) mod 7) mod 7 = i"
    using i(1) by (simp add: mod_add_right_eq)
  then have "(vq_scheduleIndex q + (i + 7 - ?s) mod 7) mod 7 = i"
    by (simp add: mod_add_left_eq)
  moreover have "\<forall>x\<in>set [0..<7]. vq_backlog q (v2PrioritySchedule ! ((vq_scheduleIndex q + x) mod 7)) = []"
    using assms unfolding vq_take_def schedule_length vq_scan_none .
  then have "vq_backlog q (v2PrioritySchedule ! ((vq_scheduleIndex q + (i + 7 - ?s) mod 7) mod 7)) = []"
    by (rule bspec) simp
  ultimately show "vq_backlog q c = []" using i(2) by simp
qed

lemma vq_take_some:
  assumes "vq_take (q, b) = Some (f, qb')"
  obtains i c rest where "i < 7" and "c = v2PrioritySchedule ! ((vq_scheduleIndex q + i) mod 7)"
    and "\<forall>j<i. vq_backlog q (v2PrioritySchedule ! ((vq_scheduleIndex q + j) mod 7)) = []"
    and "vq_backlog q c = f # rest" and "valid_priority c"
    and "qb' = vq_remove (q, b) ((vq_scheduleIndex q + i) mod 7) f rest"
proof -
  from vq_scan_some [of "[0..<7]" q b f qb'] assms obtain k rest where k: "k < 7"
    "\<forall>j<k. vq_backlog q (v2PrioritySchedule ! ((vq_scheduleIndex q + [0..<7] ! j) mod 7)) = []"
    "vq_backlog q (v2PrioritySchedule ! ((vq_scheduleIndex q + [0..<7] ! k) mod 7)) = f # rest"
    "qb' = vq_remove (q, b) ((vq_scheduleIndex q + [0..<7] ! k) mod 7) f rest"
    by (auto simp: vq_take_def)
  have "[0..<7] ! j = j" if "j \<le> k" for j using that k(1) by (subst nth_upt) auto
  with k show ?thesis
    by (intro that [of k "v2PrioritySchedule ! ((vq_scheduleIndex q + k) mod 7)" rest])
      (auto intro: schedule_valid)
qed

text \<open>Removing the head of a class.\<close>

lemma vq_remove_fields:
  assumes "vq_remove (q, b) i f rest = (q', b')" and "c = v2PrioritySchedule ! i"
  shows "vq_backlog q' d = (if d = c then rest else vq_backlog q d)"
    "fmget 0 (vq_bytes q') d = (if d = c then fmget 0 (vq_bytes q) c - vf_bytes f else fmget 0 (vq_bytes q) d)"
    "fmget 0 (vq_frames q') d = (if d = c then fmget 0 (vq_frames q) c - 1 else fmget 0 (vq_frames q) d)"
    "vq_limits q' = vq_limits q" "vq_closed q' = vq_closed q" "vq_scheduleIndex q' = (i + 1) mod 7"
    "b' = release_opt b c (vf_bytes f) 1" "vq_notify q \<Longrightarrow> vq_notify q'"
    "queuedFramesLocked q' > 0 \<Longrightarrow> vq_notify q'"
  using assms by (auto simp: vq_remove_def Let_def queuedFramesLocked_def split: if_splits)

lemma vq_take_ok:
  assumes "vq_ok q" and "vq_take (q, b) = Some (f, (q', b'))"
  shows "vq_ok q'"
proof -
  obtain i c rest where c: "c = v2PrioritySchedule ! ((vq_scheduleIndex q + i) mod 7)"
    and head: "vq_backlog q c = f # rest" and valid: "valid_priority c"
    and rem: "vq_remove (q, b) ((vq_scheduleIndex q + i) mod 7) f rest = (q', b')"
    using vq_take_some [OF assms(2)] by metis
  note fields = vq_remove_fields [OF rem c]
  have lim: "limitFor q' d = limitFor q d \<and> frameLimitFor q' d = frameLimitFor q d" for d
    by (rule limitFor_cong) (rule fields)
  have okc: "class_ok q d" for d using assms(1) by (simp add: vq_ok_def)
  have pos: "0 < vf_bytes f" using okc [of c] head by (simp add: class_ok_def)
  have "class_ok q' d" for d
    using okc [of d] lim [of d] fields(1-3) [of d] head pos by (auto simp: class_ok_def)
  moreover have "\<not> vq_closed q" using assms(1) head by (auto simp: vq_ok_def)
  ultimately show ?thesis
    using assms(1) fields(1) [of v2PriorityOther] fields(4-6) valid
    by (auto simp: vq_ok_def valid_priority_def)
qed

subsection \<open>The queue as cyclic service and as a wait for a notification\<close>

text \<open>
  The steps that do not take a frame: this carrier enqueues, or the budget is
  changed by the other carriers.
\<close>

datatype 'e vq_input = V2Enqueue "'e option" v2Priority | V2Elsewhere "V2QueueBudget option"

fun vq_put ::
  "('e \<Rightarrow> bool) \<Rightarrow> ('e \<Rightarrow> int) \<Rightarrow> 'e vq_input \<Rightarrow> 'e v2PriorityQueue \<times> V2QueueBudget option \<Rightarrow>
     'e v2PriorityQueue \<times> V2QueueBudget option" where
  "vq_put hb ps (V2Enqueue e c) qb = fst (vq_enqueue hb ps qb e c)"
| "vq_put hb ps (V2Elsewhere b) qb = (fst qb, b)"

fun vq_accepted ::
  "('e \<Rightarrow> bool) \<Rightarrow> ('e \<Rightarrow> int) \<Rightarrow> 'e vq_input \<Rightarrow> 'e v2PriorityQueue \<times> V2QueueBudget option \<Rightarrow>
     'e v2QueuedFrame list" where
  "vq_accepted hb ps (V2Enqueue e c) qb =
     (case (e, snd (vq_enqueue hb ps qb e c)) of
        (Some e, None) \<Rightarrow> [\<lparr>vf_envelope = e, vf_class = c, vf_bytes = ps e + 96\<rparr>]
      | _ \<Rightarrow> [])"
| "vq_accepted hb ps (V2Elsewhere b) qb = []"

lemma vq_put_effect:
  assumes "vq_put hb ps p (q, b) = (q', b')"
  shows "vq_backlog q' c = vq_backlog q c @ filter (\<lambda>f. vf_class f = c) (vq_accepted hb ps p (q, b))"
    and "vq_scheduleIndex q' = vq_scheduleIndex q" and "vq_limits q' = vq_limits q"
    and "vq_closed q' = vq_closed q"
proof -
  have "vq_backlog q' c = vq_backlog q c @ filter (\<lambda>f. vf_class f = c) (vq_accepted hb ps p (q, b)) \<and>
    vq_scheduleIndex q' = vq_scheduleIndex q \<and> vq_limits q' = vq_limits q \<and> vq_closed q' = vq_closed q"
  proof (cases p)
    case (V2Enqueue e k)
    obtain err where r: "vq_enqueue hb ps (q, b) e k = ((q', b'), err)"
      using assms V2Enqueue by (cases "vq_enqueue hb ps (q, b) e k") simp
    then have acc: "vq_accepted hb ps p (q, b) = (case (e, err) of
        (Some e, None) \<Rightarrow> [\<lparr>vf_envelope = e, vf_class = k, vf_bytes = ps e + 96\<rparr>] | _ \<Rightarrow> [])"
      using V2Enqueue by simp
    from r show ?thesis
      unfolding acc by (cases rule: vq_enqueue_cases) (auto split: option.splits)
  qed (use assms in auto)
  then show "vq_backlog q' c = vq_backlog q c @ filter (\<lambda>f. vf_class f = c) (vq_accepted hb ps p (q, b))"
    "vq_scheduleIndex q' = vq_scheduleIndex q" "vq_limits q' = vq_limits q" "vq_closed q' = vq_closed q" by blast+
qed

lemma vq_put_ok: "vq_ok (fst qb) \<Longrightarrow> vq_ok (fst (vq_put hb ps p qb))"
proof (cases p)
  case (V2Enqueue e c)
  assume "vq_ok (fst qb)"
  moreover obtain q' b' err where "vq_enqueue hb ps (fst qb, snd qb) e c = ((q', b'), err)"
    by (metis prod.collapse)
  ultimately show ?thesis
    using V2Enqueue vq_enqueue_ok [of "fst qb" hb ps "snd qb" e c q' b' err] by simp
qed simp

interpretation vq: cyclic_service v2PrioritySchedule vf_class "\<lambda>qb. vq_ok (fst qb)"
  "\<lambda>qb. vq_backlog (fst qb)" "\<lambda>qb. vq_scheduleIndex (fst qb)" "vq_accepted hb ps" "vq_put hb ps" vq_take
  for hb ps
proof (unfold_locales, goal_cases)
  case 1
  show ?case by (simp add: v2PrioritySchedule_def)
next
  case (2 q p)
  then show ?case by (rule vq_put_ok)
next
  case (3 q p c)
  then show ?case using vq_put_effect(1) [of hb ps p "fst q" "snd q" _ _ c] by (metis prod.collapse)
next
  case (4 q p)
  then show ?case using vq_put_effect(2) [of hb ps p "fst q" "snd q"] by (metis prod.collapse)
next
  case (5 q f q')
  then show ?case using vq_take_ok [of "fst q" "snd q" f "fst q'" "snd q'"] by simp
next
  case (6 q c)
  then show ?case using vq_take_none [of "fst q" "snd q"] by simp
next
  case (7 q f q')
  from 7(2) have "vq_take (fst q, snd q) = Some (f, q')" by simp
  then obtain i c rest where i: "c = v2PrioritySchedule ! ((vq_scheduleIndex (fst q) + i) mod 7)"
    "\<forall>j<i. vq_backlog (fst q) (v2PrioritySchedule ! ((vq_scheduleIndex (fst q) + j) mod 7)) = []"
    "vq_backlog (fst q) c = f # rest" and "valid_priority c"
    and "q' = vq_remove (fst q, snd q) ((vq_scheduleIndex (fst q) + i) mod 7) f rest"
    by (rule vq_take_some)
  then have rem: "vq_remove (fst q, snd q) ((vq_scheduleIndex (fst q) + i) mod 7) f rest = (fst q', snd q')"
    by simp
  have "vf_class f = c" using 7(1) i(3) by (auto simp: vq_ok_def class_ok_def)
  moreover note vq_remove_fields(1,6) [OF rem i(1)]
  ultimately show ?case
    using i by (intro exI [of _ i]) (auto simp: mod_Suc_eq)
qed

definition vq_ready :: "'e v2PriorityQueue \<times> V2QueueBudget option \<Rightarrow> bool" where
  "vq_ready qb \<longleftrightarrow> vq_closed (fst qb) \<or> (\<exists>c\<in>set v2PrioritySchedule. vq_backlog (fst qb) c \<noteq> [])"

definition vq_poll where "vq_poll qb = fst (vq_dequeue qb)"

definition vq_clear :: "'e v2PriorityQueue \<times> V2QueueBudget option \<Rightarrow> 'e v2PriorityQueue \<times> V2QueueBudget option" where
  "vq_clear qb = ((fst qb)\<lparr>vq_notify := False\<rparr>, snd qb)"

datatype 'e vq_action = V2Put "'e vq_input" | V2Close

fun vq_produce ::
  "('e \<Rightarrow> bool) \<Rightarrow> ('e \<Rightarrow> int) \<Rightarrow> 'e vq_action \<Rightarrow> 'e v2PriorityQueue \<times> V2QueueBudget option \<Rightarrow>
     'e v2PriorityQueue \<times> V2QueueBudget option" where
  "vq_produce hb ps (V2Put p) qb = vq_put hb ps p qb"
| "vq_produce hb ps V2Close qb = vq_close qb"

lemma vq_close_fields:
  "vq_closed (fst (vq_close (q, b)))" "\<not> vq_closed q \<Longrightarrow> vq_notify (fst (vq_close (q, b)))"
  "vq_notify q \<Longrightarrow> vq_notify (fst (vq_close (q, b)))"
  "\<not> vq_closed q \<Longrightarrow> vq_backlog (fst (vq_close (q, b))) c = []"
  "vq_closed q \<Longrightarrow> vq_close (q, b) = (q, b)"
  by (simp_all add: vq_close_def Let_def)

lemma vq_take_unready: "\<not> vq_ready (q, b) \<Longrightarrow> vq_take (q, b) = None"
proof (rule ccontr)
  assume un: "\<not> vq_ready (q, b)" and "vq_take (q, b) \<noteq> None"
  then obtain f qb' where "vq_take (q, b) = Some (f, qb')" by (metis option.exhaust surj_pair)
  then show False
  proof (rule vq_take_some)
    fix i c rest
    assume "c = v2PrioritySchedule ! ((vq_scheduleIndex q + i) mod 7)" "vq_backlog q c = f # rest"
    moreover have "v2PrioritySchedule ! ((vq_scheduleIndex q + i) mod 7) \<in> set v2PrioritySchedule"
      by (rule nth_mem) simp
    ultimately show False using un by (auto simp: vq_ready_def)
  qed
qed

interpretation vq_wait: notified "vq_produce hb ps" vq_poll vq_ready "\<lambda>qb. vq_notify (fst qb)" vq_clear
  for hb ps
proof (unfold_locales, goal_cases)
  case (1 qb p)
  show ?case
  proof (cases p)
    case V2Close
    with 1 vq_close_fields(2) [of "fst qb" "snd qb"] show ?thesis by (simp add: vq_ready_def)
  next
    case (V2Put x)
    show ?thesis
    proof (cases x)
      case (V2Enqueue e c)
      obtain q' b' err where r: "vq_enqueue hb ps (fst qb, snd qb) e c = ((q', b'), err)"
        by (metis prod.collapse)
      from r show ?thesis
        by (cases rule: vq_enqueue_cases) (use 1 V2Put V2Enqueue r in \<open>auto simp: vq_ready_def\<close>)
    qed (use 1 V2Put in \<open>simp add: vq_ready_def\<close>)
  qed
next
  case (2 qb p)
  show ?case
  proof (cases p)
    case V2Close
    with 2 vq_close_fields(3) [of "fst qb" "snd qb"] show ?thesis by simp
  next
    case (V2Put x)
    show ?thesis
    proof (cases x)
      case (V2Enqueue e c)
      obtain q' b' err where r: "vq_enqueue hb ps (fst qb, snd qb) e c = ((q', b'), err)"
        by (metis prod.collapse)
      from r show ?thesis
        by (cases rule: vq_enqueue_cases) (use 2 V2Put V2Enqueue r in auto)
    qed (use 2 V2Put in simp)
  qed
next
  case (3 qb)
  then show ?case using vq_take_unready [of "fst qb" "snd qb"] by (simp add: vq_poll_def vq_dequeue_def)
qed

subsection \<open>All the carriers of a relay on one budget\<close>

record 'e relay_queues =
  rq_budget :: V2QueueBudget
  rq_queues :: "(string, 'e v2PriorityQueue) fmap"

datatype 'e rq_event =
    RqOpen string V2QueueLimits
  | RqEnqueue string "'e option" v2Priority
  | RqDequeue string
  | RqClose string

definition rq_store ::
  "'e relay_queues \<Rightarrow> string \<Rightarrow> 'e v2PriorityQueue \<times> V2QueueBudget option \<Rightarrow> 'e relay_queues" where
  "rq_store w carrier qb =
     (case snd qb of None \<Rightarrow> w
      | Some budget \<Rightarrow> w\<lparr>rq_budget := budget, rq_queues := fmupd carrier (fst qb) (rq_queues w)\<rparr>)"

fun rq_step :: "('e \<Rightarrow> bool) \<Rightarrow> ('e \<Rightarrow> int) \<Rightarrow> 'e relay_queues \<Rightarrow> 'e rq_event \<Rightarrow> 'e relay_queues" where
  "rq_step hb ps w (RqOpen carrier limits) =
     (case (fmlookup (rq_queues w) carrier, newV2PriorityQueue limits) of
        (None, Some q) \<Rightarrow> rq_store w carrier (q, Some (rq_budget w))
      | _ \<Rightarrow> w)"
| "rq_step hb ps w (RqEnqueue carrier e c) =
     (case fmlookup (rq_queues w) carrier of
        None \<Rightarrow> w
      | Some q \<Rightarrow> rq_store w carrier (fst (vq_enqueue hb ps (q, Some (rq_budget w)) e c)))"
| "rq_step hb ps w (RqDequeue carrier) =
     (case fmlookup (rq_queues w) carrier of
        None \<Rightarrow> w
      | Some q \<Rightarrow> rq_store w carrier (fst (vq_dequeue (q, Some (rq_budget w)))))"
| "rq_step hb ps w (RqClose carrier) =
     (case fmlookup (rq_queues w) carrier of
        None \<Rightarrow> w
      | Some q \<Rightarrow> rq_store w carrier (vq_close (q, Some (rq_budget w))))"

definition rq_bytes :: "('k, 'e v2PriorityQueue) fmap \<Rightarrow> 'k \<Rightarrow> v2Priority \<Rightarrow> int" where
  "rq_bytes qs k c = (case fmlookup qs k of None \<Rightarrow> 0 | Some q \<Rightarrow> fmget 0 (vq_bytes q) c)"

definition rq_frames :: "('k, 'e v2PriorityQueue) fmap \<Rightarrow> 'k \<Rightarrow> v2Priority \<Rightarrow> int" where
  "rq_frames qs k c = (case fmlookup qs k of None \<Rightarrow> 0 | Some q \<Rightarrow> fmget 0 (vq_frames q) c)"

definition rq_covers :: "V2QueueBudget \<Rightarrow> (string, 'e v2PriorityQueue) fmap \<Rightarrow> bool" where
  "rq_covers b qs \<longleftrightarrow> budget.covers (fset (fmdom qs)) b (rq_bytes qs) (rq_frames qs)"

definition rq_ok :: "'e relay_queues \<Rightarrow> bool" where
  "rq_ok w \<longleftrightarrow> rq_covers (rq_budget w) (rq_queues w) \<and>
     (\<forall>k q. fmlookup (rq_queues w) k = Some q \<longrightarrow> vq_ok q)"

lemma rq_covers_reserve:
  assumes "rq_covers b qs" and "fmlookup qs k = Some q" and "budget_reserve b c n = (b', True)"
    and "\<And>d. fmget 0 (vq_bytes q') d = fmget 0 (vq_bytes q) d + (if d = c then n else 0)"
    and "\<And>d. fmget 0 (vq_frames q') d = fmget 0 (vq_frames q) d + (if d = c then 1 else 0)"
  shows "rq_covers b' (fmupd k q' qs)"
proof -
  have dom: "fset (fmdom (fmupd k q' qs)) = fset (fmdom qs)" "k \<in> fset (fmdom qs)"
    using assms(2) by (auto simp: fmlookup_dom_iff)
  show ?thesis
    unfolding rq_covers_def dom(1)
    by (rule budget.covers_reserve [OF assms(1) [unfolded rq_covers_def] dom(2) assms(3)])
      (auto simp: rq_bytes_def rq_frames_def assms fun_eq_iff)
qed

lemma rq_covers_release:
  assumes "rq_covers b qs" and "fmlookup qs k = Some q" and "valid_priority c"
    and "0 \<le> n" "n \<le> fmget 0 (vq_bytes q) c" "0 \<le> m" "m \<le> fmget 0 (vq_frames q) c"
    and "\<And>d. fmget 0 (vq_bytes q') d = fmget 0 (vq_bytes q) d - (if d = c then n else 0)"
    and "\<And>d. fmget 0 (vq_frames q') d = fmget 0 (vq_frames q) d - (if d = c then m else 0)"
  shows "rq_covers (budget_release b c n m) (fmupd k q' qs)"
proof -
  have dom: "fset (fmdom (fmupd k q' qs)) = fset (fmdom qs)" "k \<in> fset (fmdom qs)"
    using assms(2) by (auto simp: fmlookup_dom_iff)
  show ?thesis
    unfolding rq_covers_def dom(1)
    by (rule budget.covers_release [OF assms(1) [unfolded rq_covers_def] dom(2) assms(3)])
      (auto simp: rq_bytes_def rq_frames_def assms fun_eq_iff)
qed

text \<open>Only the byte and frame counts of a queue matter for the budget.\<close>

lemma rq_covers_same:
  assumes "rq_covers b qs" and "fmlookup qs k = Some q"
    and "\<And>d. fmget 0 (vq_bytes q') d = fmget 0 (vq_bytes q) d" and "\<And>d. fmget 0 (vq_frames q') d = fmget 0 (vq_frames q) d"
  shows "rq_covers b (fmupd k q' qs)"
proof -
  have "fset (fmdom (fmupd k q' qs)) = fset (fmdom qs)"
    using assms(2) by (auto simp: fmlookup_dom_iff)
  moreover have "rq_bytes (fmupd k q' qs) = rq_bytes qs" "rq_frames (fmupd k q' qs) = rq_frames qs"
    using assms(2-4) by (auto simp: rq_bytes_def rq_frames_def fun_eq_iff)
  ultimately show ?thesis using assms(1) by (simp add: rq_covers_def)
qed

lemma rq_covers_open:
  assumes "rq_covers b qs" and "fmlookup qs k = None"
    and "\<And>d. fmget 0 (vq_bytes q) d = 0" and "\<And>d. fmget 0 (vq_frames q) d = 0"
  shows "rq_covers b (fmupd k q qs)"
proof -
  have k: "k \<notin> fset (fmdom qs)" "fset (fmdom (fmupd k q qs)) = insert k (fset (fmdom qs))"
    using assms(2) by (auto simp: fmlookup_dom_iff)
  have zero: "rq_bytes (fmupd k q qs) j = rq_bytes qs j \<and> rq_frames (fmupd k q qs) j = rq_frames qs j" for j
    using assms(2-4) by (auto simp: rq_bytes_def rq_frames_def fun_eq_iff)
  moreover have "rq_bytes qs k d = 0" "rq_frames qs k d = 0" for d
    using assms(2) by (simp_all add: rq_bytes_def rq_frames_def)
  ultimately show ?thesis
    using assms(1) k by (simp add: rq_covers_def budget.covers_def)
qed

text \<open>Closing gives back all three classes.\<close>

lemma rq_covers_close:
  assumes "rq_covers b qs" and "fmlookup qs k = Some q" and "vq_ok q" and "vq_close (q, Some b) = (q', Some b')"
  shows "rq_covers b' (fmupd k q' qs)"
proof (cases "vq_closed q")
  case True
  with assms(4) have "q' = q" "b' = b" by (simp_all add: vq_close_def)
  then show ?thesis using rq_covers_same [OF assms(1,2), of q] assms(1,2) by simp
next
  case False
  let ?B = "\<lambda>c. fmget 0 (vq_bytes q) c" and ?F = "\<lambda>c. fmget 0 (vq_frames q) c"
  have pos: "0 \<le> ?B c \<and> 0 \<le> ?F c" for c
  proof -
    have "class_ok q c" using assms(3) by (simp add: vq_ok_def)
    with frame_sum_nonneg [OF assms(3), of c] show ?thesis by (simp add: class_ok_def)
  qed
  have other: "?B v2PriorityOther = 0 \<and> ?F v2PriorityOther = 0"
    using assms(3) by (auto simp: vq_ok_def class_ok_def)
  define drop1 where "drop1 c r = r\<lparr>vq_bytes := fmupd c 0 (vq_bytes r), vq_frames := fmupd c 0 (vq_frames r)\<rparr>"
    for c and r :: "'a v2PriorityQueue"
  have one: "rq_covers (budget_release b0 c (?B c) (?F c)) (fmupd k (drop1 c r) (fmupd k r qs))"
    if "rq_covers b0 (fmupd k r qs)" "valid_priority c" "fmget 0 (vq_bytes r) c = ?B c" "fmget 0 (vq_frames r) c = ?F c"
    for b0 c r
    by (rule rq_covers_release [OF that(1) _ that(2)]) (use that pos in \<open>auto simp: drop1_def\<close>)
  let ?q1 = "drop1 v2PriorityControl q"
  let ?q2 = "drop1 v2PriorityInteractive ?q1"
  let ?q3 = "drop1 v2PriorityBulk ?q2"
  have b': "b' = budget_release (budget_release (budget_release b v2PriorityControl (?B v2PriorityControl) (?F v2PriorityControl))
      v2PriorityInteractive (?B v2PriorityInteractive) (?F v2PriorityInteractive))
      v2PriorityBulk (?B v2PriorityBulk) (?F v2PriorityBulk)"
    using assms(4) False by (simp add: vq_close_def Let_def release_opt_def)
  have q': "fmget 0 (vq_bytes q') d = 0 \<and> fmget 0 (vq_frames q') d = 0" for d
    using assms(4) False by (auto simp: vq_close_def Let_def)
  have "rq_covers b (fmupd k q qs)" by (rule rq_covers_same [OF assms(1,2)]) simp_all
  from one [OF this] have "rq_covers (budget_release b v2PriorityControl (?B v2PriorityControl) (?F v2PriorityControl)) (fmupd k ?q1 qs)"
    by (simp add: valid_priority_def)
  from one [OF this, of v2PriorityInteractive] have "rq_covers (budget_release
      (budget_release b v2PriorityControl (?B v2PriorityControl) (?F v2PriorityControl))
      v2PriorityInteractive (?B v2PriorityInteractive) (?F v2PriorityInteractive)) (fmupd k ?q2 qs)"
    by (simp add: valid_priority_def drop1_def)
  from one [OF this, of v2PriorityBulk] have "rq_covers b' (fmupd k ?q3 qs)"
    unfolding b' by (simp add: valid_priority_def drop1_def)
  from rq_covers_same [OF this, of k ?q3 q'] show ?thesis
  proof -
    have "fmget 0 (vq_bytes ?q3) d = 0 \<and> fmget 0 (vq_frames ?q3) d = 0" for d
      using other by (cases d) (simp_all add: drop1_def)
    with q' rq_covers_same [OF \<open>rq_covers b' (fmupd k ?q3 qs)\<close>, of k ?q3 q'] show ?thesis by simp
  qed
qed

lemma rq_store_ok:
  assumes "rq_ok w" and "rq_covers b (fmupd k q (rq_queues w))" and "vq_ok q"
  shows "rq_ok (rq_store w k (q, Some b))"
  using assms by (auto simp: rq_ok_def rq_store_def)

lemma rq_enqueue_ok:
  assumes ok: "rq_ok w" and k: "fmlookup (rq_queues w) k = Some q"
  shows "rq_ok (rq_store w k (fst (vq_enqueue hb ps (q, Some (rq_budget w)) e c)))"
proof -
  obtain q' b' err where r: "vq_enqueue hb ps (q, Some (rq_budget w)) e c = ((q', b'), err)"
    by (metis prod.collapse)
  have cov: "rq_covers (rq_budget w) (rq_queues w)" and qok: "vq_ok q" using ok k by (auto simp: rq_ok_def)
  have q'ok: "vq_ok q'" by (rule vq_enqueue_ok [OF qok r])
  from r have "\<exists>b. b' = Some b \<and> rq_covers b (fmupd k q' (rq_queues w))"
  proof (cases rule: vq_enqueue_cases)
    case (refused x)
    then have "rq_covers (rq_budget w) (fmupd k q' (rq_queues w))"
      by (intro rq_covers_same [OF cov k]) auto
    with refused show ?thesis by blast
  next
    case (exhausted x)
    then obtain n where "reserve_opt (Some (rq_budget w)) c n = (b', False)" by blast
    then obtain b where b: "b' = Some b" "budget_reserve (rq_budget w) c n = (b, False)"
      by (cases "budget_reserve (rq_budget w) c n") (simp add: reserve_opt_def)
    then have "rq_covers b (rq_queues w)"
      using cov budget.covers_refused unfolding rq_covers_def by blast
    then have "rq_covers b (fmupd k q' (rq_queues w))"
      by (rule rq_covers_same [OF _ k]) (simp_all add: exhausted)
    with b show ?thesis by blast
  next
    case (queued x n)
    obtain b where b: "b' = Some b" "budget_reserve (rq_budget w) c n = (b, True)"
      using queued(11) by (cases "budget_reserve (rq_budget w) c n") (simp add: reserve_opt_def)
    have "rq_covers b (fmupd k q' (rq_queues w))"
      by (rule rq_covers_reserve [OF cov k b(2)]) (simp_all add: queued(12))
    with b show ?thesis by blast
  qed
  with rq_store_ok [OF ok _ q'ok] r show ?thesis by auto
qed

lemma rq_dequeue_ok:
  assumes ok: "rq_ok w" and k: "fmlookup (rq_queues w) k = Some q"
  shows "rq_ok (rq_store w k (fst (vq_dequeue (q, Some (rq_budget w)))))"
proof -
  have cov: "rq_covers (rq_budget w) (rq_queues w)" and qok: "vq_ok q" using ok k by (auto simp: rq_ok_def)
  show ?thesis
  proof (cases "vq_take (q, Some (rq_budget w))")
    case None
    have "rq_covers (rq_budget w) (fmupd k q (rq_queues w))" by (rule rq_covers_same [OF cov k]) simp_all
    with None rq_store_ok [OF ok _ qok] show ?thesis by (simp add: vq_dequeue_def)
  next
    case (Some r)
    obtain f q' b' where r: "r = (f, (q', b'))" by (metis prod.collapse)
    with Some have t: "vq_take (q, Some (rq_budget w)) = Some (f, (q', b'))" by simp
    then obtain i c rest where c: "c = v2PrioritySchedule ! ((vq_scheduleIndex q + i) mod 7)"
      and head: "vq_backlog q c = f # rest" and valid: "valid_priority c"
      and rem: "vq_remove (q, Some (rq_budget w)) ((vq_scheduleIndex q + i) mod 7) f rest = (q', b')"
      using vq_take_some [OF t] by metis
    note fields = vq_remove_fields [OF rem c]
    have ck: "class_ok q c" using qok by (simp add: vq_ok_def)
    have "0 \<le> frame_sum rest"
      unfolding frame_sum_def by (intro sum_list_nonneg) (use ck head in \<open>fastforce simp: class_ok_def\<close>)
    then have le: "0 \<le> vf_bytes f" "vf_bytes f \<le> fmget 0 (vq_bytes q) c" "1 \<le> fmget 0 (vq_frames q) c"
      using ck head by (auto simp: class_ok_def)
    have "rq_covers (budget_release (rq_budget w) c (vf_bytes f) 1) (fmupd k q' (rq_queues w))"
      by (rule rq_covers_release [OF cov k valid le(1,2) _ le(3)]) (simp_all add: fields)
    moreover have "b' = Some (budget_release (rq_budget w) c (vf_bytes f) 1)"
      using fields(7) by (simp add: release_opt_def)
    ultimately show ?thesis
      using rq_store_ok [OF ok _ vq_take_ok [OF qok t]] t by (simp add: vq_dequeue_def)
  qed
qed

lemma vq_close_ok: "vq_ok q \<Longrightarrow> vq_ok (fst (vq_close (q, b)))"
proof (cases "vq_closed q")
  case False
  assume ok: "vq_ok q"
  have "limitFor (fst (vq_close (q, b))) c = limitFor q c \<and> frameLimitFor (fst (vq_close (q, b))) c = frameLimitFor q c" for c
    by (rule limitFor_cong) (simp add: vq_close_def Let_def)
  moreover have "0 \<le> limitFor q c \<and> 0 \<le> frameLimitFor q c" for c
    by (rule limits_positive) (use ok in \<open>simp add: vq_ok_def\<close>)
  ultimately have "class_ok (fst (vq_close (q, b))) c" for c
    using False by (simp add: class_ok_def vq_close_def Let_def)
  then show ?thesis using ok False by (simp add: vq_ok_def vq_close_def Let_def)
qed (simp add: vq_close_def)

lemma fold_release_opt_Some:
  "\<exists>b'. fold (\<lambda>c b. release_opt b c (B c) (F c)) cs (Some b) = Some b'"
  by (induction cs arbitrary: b) (auto simp: release_opt_def)

lemma rq_step_ok: "rq_ok w \<Longrightarrow> rq_ok (rq_step hb ps w e)"
proof (cases e)
  case (RqOpen k limits)
  assume ok: "rq_ok w"
  show ?thesis
  proof (cases "fmlookup (rq_queues w) k = None \<and> newV2PriorityQueue limits \<noteq> (None :: 'a v2PriorityQueue option)")
    case True
    then obtain q :: "'a v2PriorityQueue" where q: "newV2PriorityQueue limits = Some q" by blast
    from vq_new_ok [OF q] have qok: "vq_ok q" and empty: "vq_backlog q c = []" for c by auto
    then have "fmget 0 (vq_bytes q) d = 0 \<and> fmget 0 (vq_frames q) d = 0" for d
      by (simp add: vq_ok_def class_ok_def)
    then have "rq_covers (rq_budget w) (fmupd k q (rq_queues w))"
      using ok True by (intro rq_covers_open) (auto simp: rq_ok_def)
    from rq_store_ok [OF ok this qok] True q RqOpen show ?thesis by simp
  next
    case False
    then have "rq_step hb ps w e = w"
      using RqOpen by (auto split: option.splits)
    with ok show ?thesis by simp
  qed
next
  case (RqEnqueue k x c)
  then show "rq_ok w \<Longrightarrow> ?thesis"
    using rq_enqueue_ok [of w k] by (simp split: option.split)
next
  case (RqDequeue k)
  then show "rq_ok w \<Longrightarrow> ?thesis"
    using rq_dequeue_ok [of w k] by (simp split: option.split)
next
  case (RqClose k)
  assume ok: "rq_ok w"
  show ?thesis
  proof (cases "fmlookup (rq_queues w) k")
    case (Some q)
    have qok: "vq_ok q" and cov: "rq_covers (rq_budget w) (rq_queues w)" using ok Some by (auto simp: rq_ok_def)
    obtain q' b' where c: "vq_close (q, Some (rq_budget w)) = (q', Some b')"
      using fold_release_opt_Some [of "fmget 0 (vq_bytes q)" "fmget 0 (vq_frames q)" _ "rq_budget w"]
      by (auto simp: vq_close_def Let_def split: if_splits) (metis option.exhaust surj_pair)+
    from rq_store_ok [OF ok rq_covers_close [OF cov Some qok c]] vq_close_ok [OF qok, of "Some (rq_budget w)"]
    show ?thesis using RqClose Some c by simp
  qed (use RqClose ok in simp)
qed

lemma rq_run_ok: "rq_ok w \<Longrightarrow> rq_ok (fold (\<lambda>e w. rq_step hb ps w e) es w)"
  by (induction es arbitrary: w) (simp_all add: rq_step_ok)

lemma reserve_limits:
  "vb_maxBytes (fst (budget_reserve b c n)) = vb_maxBytes b \<and> vb_maxFrames (fst (budget_reserve b c n)) = vb_maxFrames b"
  by (simp add: budget_reserve_def Let_def)

lemma release_limits [simp]:
  "vb_maxBytes (budget_release b c n m) = vb_maxBytes b" "vb_maxFrames (budget_release b c n m) = vb_maxFrames b"
  by (simp_all add: budget_release_def)

definition same_limits :: "V2QueueBudget \<Rightarrow> V2QueueBudget option \<Rightarrow> bool" where
  "same_limits b b' \<longleftrightarrow> (\<exists>x. b' = Some x \<and> vb_maxBytes x = vb_maxBytes b \<and> vb_maxFrames x = vb_maxFrames b)"

lemma enqueue_limits: "same_limits b (snd (fst (vq_enqueue hb ps (q, Some b) e c)))"
proof -
  obtain q' b' err where r: "vq_enqueue hb ps (q, Some b) e c = ((q', b'), err)" by (metis prod.collapse)
  have res: "same_limits b b2" if "reserve_opt (Some b) c n = (b2, x)" for n b2 x
    using that reserve_limits [of b c n]
    by (cases "budget_reserve b c n") (auto simp: reserve_opt_def same_limits_def)
  from r have "same_limits b b'"
    by (cases rule: vq_enqueue_cases) (use res in \<open>auto simp: same_limits_def\<close>)
  with r show ?thesis by simp
qed

lemma dequeue_limits: "same_limits b (snd (fst (vq_dequeue (q, Some b))))"
proof (cases "vq_take (q, Some b)")
  case (Some r)
  obtain f q' b' where t: "vq_take (q, Some b) = Some (f, (q', b'))" using Some by (metis prod.collapse)
  then obtain i c rest where "c = v2PrioritySchedule ! ((vq_scheduleIndex q + i) mod 7)"
    and "vq_remove (q, Some b) ((vq_scheduleIndex q + i) mod 7) f rest = (q', b')"
    using vq_take_some [OF t] by metis
  from vq_remove_fields(7) [OF this(2,1)] t show ?thesis
    by (simp add: vq_dequeue_def release_opt_def same_limits_def)
qed (simp add: vq_dequeue_def same_limits_def)

lemma close_limits: "same_limits b (snd (vq_close (q, Some b)))"
  by (simp add: vq_close_def Let_def release_opt_def same_limits_def)

lemma rq_store_limits:
  "same_limits (rq_budget w) (snd qb) \<Longrightarrow>
     vb_maxBytes (rq_budget (rq_store w k qb)) = vb_maxBytes (rq_budget w) \<and>
     vb_maxFrames (rq_budget (rq_store w k qb)) = vb_maxFrames (rq_budget w)"
  by (auto simp: same_limits_def rq_store_def)

lemma rq_run_limits:
  "vb_maxBytes (rq_budget (fold (\<lambda>e w. rq_step hb ps w e) es w)) = vb_maxBytes (rq_budget w) \<and>
   vb_maxFrames (rq_budget (fold (\<lambda>e w. rq_step hb ps w e) es w)) = vb_maxFrames (rq_budget w)"
proof (induction es arbitrary: w)
  case (Cons e es)
  have "vb_maxBytes (rq_budget (rq_step hb ps w e)) = vb_maxBytes (rq_budget w) \<and>
      vb_maxFrames (rq_budget (rq_step hb ps w e)) = vb_maxFrames (rq_budget w)"
  proof (cases e)
    case (RqOpen k limits)
    then show ?thesis
      using rq_store_limits [of w "(_, Some (rq_budget w))" k] by (auto simp: same_limits_def split: option.splits)
  next
    case (RqEnqueue k x c)
    then show ?thesis
      by (cases "fmlookup (rq_queues w) k") (simp_all add: rq_store_limits [OF enqueue_limits])
  next
    case (RqDequeue k)
    then show ?thesis
      by (cases "fmlookup (rq_queues w) k") (simp_all add: rq_store_limits [OF dequeue_limits])
  next
    case (RqClose k)
    then show ?thesis
      by (cases "fmlookup (rq_queues w) k") (simp_all add: rq_store_limits [OF close_limits])
  qed
  with Cons show ?case by simp
qed simp

text \<open>With no interactive frame queued, a quarter of the budget is always left to control frames.\<close>

lemma control_quarter:
  assumes "budget_ok b" and "vb_classBytes b v2PriorityInteractive = 0" and "vb_classFrames b v2PriorityInteractive = 0"
    and "0 < n" and "vb_classBytes b v2PriorityControl + n \<le> vb_maxBytes b - vb_maxBytes b * 3 div 4"
    and "vb_classFrames b v2PriorityControl + 1 \<le> vb_maxFrames b - vb_maxFrames b * 3 div 4"
  shows "snd (budget_reserve b v2PriorityControl n)"
  using assms by (simp add: budget_reserve_def Let_def budget_ok_def valid_priority_def)

text \<open>Limits for concrete runs: the defaults, with sixteen frames per priority.\<close>

abbreviation "test_limits \<equiv> \<lparr>ql_ControlBytes = 0, ql_InteractiveBytes = 0, ql_BulkBytes = 0, ql_Frames = 16,
  ql_ControlFrames = 0, ql_InteractiveFrames = 0, ql_BulkFrames = 0\<rparr>"

lemma test_limits_queue:
  obtains q :: "'e v2PriorityQueue" where "newV2PriorityQueue test_limits = Some q"
  by (simp add: newV2PriorityQueue_def Let_def limits_normalized_def limits_valid_def
      v2DefaultControlBytes_def v2DefaultInteractiveBytes_def v2DefaultBulkBytes_def)

subsection \<open>Properties\<close>

text \<open>
  C13. The shared budget is exact: after any interleaving of carriers being
  attached, enqueueing, dequeueing and closing, what the budget counts for each
  class is what the queues of all carriers hold, so nothing leaks and nothing
  is given back twice; the totals stay within the configured limits, bulk
  within three quarters; with every queue empty the budget is free again.
\<close>

theorem relay_budget_exact:
  assumes "NewV2QueueBudget maxBytes maxFrames = Some b"
    and "w = fold (\<lambda>e w. rq_step hb ps w e) es \<lparr>rq_budget = b, rq_queues = fmempty\<rparr>"
  shows "(\<forall>c. vb_classBytes (rq_budget w) c
        = (\<Sum>k\<in>fset (fmdom (rq_queues w)). frame_sum (vq_backlog (the (fmlookup (rq_queues w) k)) c)) \<and>
      vb_classFrames (rq_budget w) c
        = (\<Sum>k\<in>fset (fmdom (rq_queues w)). int (length (vq_backlog (the (fmlookup (rq_queues w) k)) c)))) \<and>
    vb_bytes (rq_budget w) \<le> maxBytes \<and> vb_frames (rq_budget w) \<le> maxFrames \<and>
    vb_classBytes (rq_budget w) v2PriorityBulk \<le> maxBytes * 3 div 4 \<and>
    ((\<forall>k q c. fmlookup (rq_queues w) k = Some q \<longrightarrow> vq_backlog q c = []) \<longrightarrow>
      vb_bytes (rq_budget w) = 0 \<and> vb_frames (rq_budget w) = 0)"
proof -
  have "rq_ok \<lparr>rq_budget = b, rq_queues = fmempty :: (string, 'a v2PriorityQueue) fmap\<rparr>"
    using budget_new_ok [OF assms(1)] assms(1)
    by (auto simp: rq_ok_def rq_covers_def budget.covers_def NewV2QueueBudget_def split: if_splits)
  then have ok: "rq_ok w" unfolding assms(2) by (rule rq_run_ok)
  then have covers: "budget.covers (fset (fmdom (rq_queues w))) (rq_budget w) (rq_bytes (rq_queues w)) (rq_frames (rq_queues w))"
    by (simp add: rq_ok_def rq_covers_def)
  have at: "rq_bytes (rq_queues w) k c = frame_sum (vq_backlog (the (fmlookup (rq_queues w) k)) c) \<and>
      rq_frames (rq_queues w) k c = int (length (vq_backlog (the (fmlookup (rq_queues w) k)) c))"
    if "k \<in> fset (fmdom (rq_queues w))" for k c
    using that ok by (auto simp: rq_ok_def rq_bytes_def rq_frames_def vq_ok_def class_ok_def fmlookup_dom_iff)
  have exact: "vb_classBytes (rq_budget w) c
        = (\<Sum>k\<in>fset (fmdom (rq_queues w)). frame_sum (vq_backlog (the (fmlookup (rq_queues w) k)) c)) \<and>
      vb_classFrames (rq_budget w) c
        = (\<Sum>k\<in>fset (fmdom (rq_queues w)). int (length (vq_backlog (the (fmlookup (rq_queues w) k)) c)))" for c
    using covers at by (simp add: budget.covers_def cong: sum.cong)
  moreover have "budget_ok (rq_budget w)" using covers by (simp add: budget.covers_def)
  moreover have "vb_maxBytes (rq_budget w) = maxBytes" "vb_maxFrames (rq_budget w) = maxFrames"
    using rq_run_limits [of hb ps es "\<lparr>rq_budget = b, rq_queues = fmempty\<rparr>"] assms
    by (auto simp: NewV2QueueBudget_def split: if_splits)
  moreover have "vb_classBytes (rq_budget w) c = 0 \<and> vb_classFrames (rq_budget w) c = 0"
    if "\<forall>k q c. fmlookup (rq_queues w) k = Some q \<longrightarrow> vq_backlog q c = []" for c
  proof -
    have "vq_backlog (the (fmlookup (rq_queues w) k)) c = []" if "k \<in> fset (fmdom (rq_queues w))" for k
      using that \<open>\<forall>k q c. _ k q c\<close> by (auto simp: fmlookup_dom_iff)
    then show ?thesis using exact [of c] by simp
  qed
  ultimately show ?thesis by (auto simp: budget_ok_def)
qed

theorem relay_budget_exact_witness:
  "\<exists>b. NewV2QueueBudget (2 ^ 20) 8 = Some b \<and>
     vb_bytes (rq_budget (fold (\<lambda>e w. rq_step (\<lambda>_. True) (\<lambda>n. n) w e)
       [RqOpen ''a'' test_limits, RqEnqueue ''a'' (Some 4) v2PriorityBulk, RqClose ''a'']
       \<lparr>rq_budget = b, rq_queues = fmempty\<rparr>)) \<le> 2 ^ 20"
proof -
  obtain b where b: "NewV2QueueBudget (2 ^ 20) 8 = Some b" by (simp add: NewV2QueueBudget_def)
  with relay_budget_exact [OF b refl, of "\<lambda>_. True" "\<lambda>n. n"
      "[RqOpen ''a'' test_limits, RqEnqueue ''a'' (Some 4) v2PriorityBulk, RqClose ''a'']"]
  show ?thesis by blast
qed

text \<open>
  C32. Weighted service: whatever happened before and is enqueued meanwhile, a
  priority with enough queued gets its weight of every seven dequeues: four for
  control, two for interactive, one for bulk; within a priority frames leave in
  the order of admission, and none is lost while the queue is open.
\<close>

theorem priority_share:
  assumes "newV2PriorityQueue limits = Some q0"
    and "qb = fst (qrun (vq_put hb ps) vq_take (q0, b) history)"
    and "weight = (case c of v2PriorityOther \<Rightarrow> 0 | v2PriorityControl \<Rightarrow> 4 | v2PriorityInteractive \<Rightarrow> 2 | v2PriorityBulk \<Rightarrow> 1)"
  shows "(n * weight \<le> length (vq_backlog (fst qb) c) \<and> 7 * n \<le> takes ops \<longrightarrow>
      n * weight \<le> length (filter (\<lambda>f. vf_class f = c) (snd (qrun (vq_put hb ps) vq_take qb ops)))) \<and>
    filter (\<lambda>f. vf_class f = c) (snd (qrun (vq_put hb ps) vq_take qb ops)) @
        vq_backlog (fst (fst (qrun (vq_put hb ps) vq_take qb ops))) c
      = vq_backlog (fst qb) c @ filter (\<lambda>f. vf_class f = c) (qadmitted (vq_accepted hb ps) (vq_put hb ps) vq_take qb ops)"
proof -
  have "vq_ok (fst (q0, b))" using vq_new_ok [OF assms(1)] by simp
  then have ok: "vq_ok (fst qb)" using vq.run_inv [of "(q0, b)"] assms(2) by blast
  have "count_list v2PrioritySchedule c = weight"
    unfolding assms(3) by (cases c) (simp_all add: v2PrioritySchedule_def)
  then show ?thesis
    using vq.share [OF ok, of n ops c hb ps] vq.fifo [OF ok, of c hb ps ops] by (simp add: mult.commute)
qed

theorem priority_share_witness:
  "\<exists>q. newV2PriorityQueue test_limits = Some (q :: nat v2PriorityQueue) \<and>
     (\<exists>f. f \<in> set (snd (qrun (vq_put (\<lambda>_. True) int) vq_take
        (fst (qrun (vq_put (\<lambda>_. True) int) vq_take (q, None) [Put (V2Enqueue (Some 5) v2PriorityBulk)]))
        (replicate 7 Take))) \<and> vf_class f = v2PriorityBulk)"
proof -
  obtain q :: "nat v2PriorityQueue" where q: "newV2PriorityQueue test_limits = Some q"
    by (rule test_limits_queue)
  define qb where "qb = fst (qrun (vq_put (\<lambda>_. True) int) vq_take (q, None) [Put (V2Enqueue (Some 5) v2PriorityBulk)])"
  have "length (vq_backlog (fst qb) v2PriorityBulk) = 1"
    using q by (auto simp: qb_def newV2PriorityQueue_def Let_def limits_normalized_def limits_valid_def
        v2DefaultControlBytes_def v2DefaultInteractiveBytes_def v2DefaultBulkBytes_def vq_enqueue_def valid_priority_def
        v2MaximumCarrierFrame_def reserve_opt_def)
  moreover have "takes (replicate 7 Take :: nat vq_input qop list) = 7" by (simp add: eval_nat_numeral)
  ultimately have "1 \<le> length (filter (\<lambda>f. vf_class f = v2PriorityBulk)
      (snd (qrun (vq_put (\<lambda>_. True) int) vq_take qb (replicate 7 Take))))"
    using priority_share [OF q qb_def refl, of 1 v2PriorityBulk "replicate 7 Take"] by simp
  then obtain f where "f \<in> set (filter (\<lambda>f. vf_class f = v2PriorityBulk)
      (snd (qrun (vq_put (\<lambda>_. True) int) vq_take qb (replicate 7 Take))))"
    by (metis list.set_sel(1) list.size(3) not_one_le_zero)
  with q show ?thesis unfolding qb_def by auto
qed

text \<open>
  The write loop of a carrier never sleeps over work: in every
  interleaving of enqueues, closing and changes of the shared budget, when the
  loop waits while a frame is queued or the queue is closed, the notification
  is pending; and dequeue finds nothing only when every class is empty.
\<close>

theorem carrier_queue_no_lost_wakeup:
  assumes "newV2PriorityQueue limits = Some q0"
    and "s = wrun (vq_produce hb ps) vq_poll vq_ready (\<lambda>qb. vq_notify (fst qb)) vq_clear
      \<lparr>wt_queue = (q0, b), wt_waiting = False\<rparr> events"
  shows "(wt_waiting s \<and> vq_ready (wt_queue s) \<longrightarrow> vq_notify (fst (wt_queue s))) \<and>
    (snd (vq_dequeue (wt_queue s)) = V2Wait \<longrightarrow> \<not> vq_ready (wt_queue s)) \<and>
    (snd (vq_dequeue (wt_queue s)) = V2Closed \<longrightarrow> (\<forall>c\<in>set v2PrioritySchedule. vq_backlog (fst (wt_queue s)) c = []))"
proof -
  have "vq_wait.awake \<lparr>wt_queue = (q0, b), wt_waiting = False\<rparr>" by (simp add: vq_wait.awake_def)
  then have "vq_wait.awake s" unfolding assms(2) by (rule vq_wait.no_lost_wakeup)
  moreover have "vq_take (wt_queue s) = None \<longrightarrow> (\<forall>c\<in>set v2PrioritySchedule. vq_backlog (fst (wt_queue s)) c = [])"
    using vq_take_none [of "fst (wt_queue s)" "snd (wt_queue s)"] by simp
  ultimately show ?thesis
    by (auto simp: vq_wait.awake_def vq_dequeue_def vq_ready_def split: option.splits if_splits)
qed

theorem carrier_queue_no_lost_wakeup_witness:
  "\<exists>q. newV2PriorityQueue test_limits = Some (q :: nat v2PriorityQueue) \<and>
     (snd (vq_dequeue (q, None)) = V2Wait \<longrightarrow> \<not> vq_ready (q, None))"
proof -
  obtain q :: "nat v2PriorityQueue" where q: "newV2PriorityQueue test_limits = Some q"
    by (rule test_limits_queue)
  from carrier_queue_no_lost_wakeup [OF q refl, of "\<lambda>_. True" int None "[]"] q show ?thesis by simp
qed

text \<open>
  The share of the budget set aside for control frames can be taken by
  bulk frames: bulk is checked against its own three quarters only, not
  against the seven eighths of bulk and interactive together, so after seven
  interactive reservations and one bulk reservation of a budget of eight
  frames every control reservation is refused.
\<close>

theorem control_reserve_exhausted:
  "\<exists>b0 b7 b8. NewV2QueueBudget (2 ^ 20) 8 = Some b0 \<and>
     b7 = fold (\<lambda>_ b. fst (budget_reserve b v2PriorityInteractive 100)) [0..<7] b0 \<and>
     budget_reserve b7 v2PriorityBulk 100 = (b8, True) \<and>
     vb_classFrames b8 v2PriorityControl = 0 \<and>
     vb_classFrames b8 v2PriorityInteractive + vb_classFrames b8 v2PriorityBulk > vb_maxFrames b8 * 7 div 8 \<and>
     (\<forall>n. \<not> snd (budget_reserve b8 v2PriorityControl n))"
proof -
  let ?b0 = "\<lparr>vb_maxBytes = 2 ^ 20, vb_maxFrames = 8, vb_bytes = 0, vb_frames = 0,
        vb_classBytes = (\<lambda>_. 0), vb_classFrames = (\<lambda>_. 0), vb_rejected = 0\<rparr>"
  have "[0..<7] = [0, 1, 2, 3, 4, 5, 6 :: nat]" by (simp add: upt_rec)
  then have "\<exists>b8. budget_reserve (fold (\<lambda>_ b. fst (budget_reserve b v2PriorityInteractive 100)) [0..<7] ?b0)
      v2PriorityBulk 100 = (b8, True) \<and> vb_classFrames b8 v2PriorityControl = 0 \<and>
      vb_classFrames b8 v2PriorityInteractive + vb_classFrames b8 v2PriorityBulk > vb_maxFrames b8 * 7 div 8 \<and>
      vb_frames b8 = 8 \<and> vb_maxFrames b8 = 8"
    by (simp add: budget_reserve_def Let_def valid_priority_def)
  then show ?thesis
    by (auto simp: NewV2QueueBudget_def budget_reserve_def [of _ v2PriorityControl] Let_def)
qed

end
