(* ===== verification/V2_Carrier.thy ===== *)
theory V2_Carrier
  imports V2_Queue
begin

text \<open>
  The remote/v2 carrier of \<open>server/internal/relayserver/v2_carrier.go\<close>: the
  messages of \<open>api/remote/v2\<close> it carries, packet numbering in the write loop,
  acceptance of incoming packets, the liveness watchdog and the priority of a
  link frame. The socket, its context and the goroutines are events: whether a
  write succeeded and what the clock shows are arguments. The relay-wide
  budget is threaded as in \<open>V2_Queue\<close>. The clock is monotonic and starts at 0,
  so that division of instants is \<open>div\<close>.
\<close>

subsection \<open>Messages\<close>

text \<open>
  The enumerations are open \<open>int32\<close> values in the generated code, and a
  \<open>oneof\<close> is an optional datatype.
\<close>

type_synonym ProtocolErrorCode = int
type_synonym proto_FrameType = int

definition ERROR_UNSPECIFIED :: ProtocolErrorCode where "ERROR_UNSPECIFIED = 0"
definition ERROR_ROUTE_STALE :: ProtocolErrorCode where "ERROR_ROUTE_STALE = 5"
definition ERROR_BACKPRESSURE :: ProtocolErrorCode where "ERROR_BACKPRESSURE = 8"
definition ERROR_STREAM_NOT_FOUND :: ProtocolErrorCode where "ERROR_STREAM_NOT_FOUND = 9"
definition ERROR_RESUME_EXPIRED :: ProtocolErrorCode where "ERROR_RESUME_EXPIRED = 11"

definition FRAME_TYPE_CHANNEL_OPEN :: proto_FrameType where "FRAME_TYPE_CHANNEL_OPEN = 1"
definition FRAME_TYPE_STREAM_OPEN :: proto_FrameType where "FRAME_TYPE_STREAM_OPEN = 4"
definition FRAME_TYPE_STREAM_DATA :: proto_FrameType where "FRAME_TYPE_STREAM_DATA = 5"
definition FRAME_TYPE_RPC_REQUEST :: proto_FrameType where "FRAME_TYPE_RPC_REQUEST = 8"
definition FRAME_TYPE_RPC_RESPONSE :: proto_FrameType where "FRAME_TYPE_RPC_RESPONSE = 9"
definition FRAME_TYPE_RPC_EVENT :: proto_FrameType where "FRAME_TYPE_RPC_EVENT = 10"
definition FRAME_TYPE_FILE_CHUNK :: proto_FrameType where "FRAME_TYPE_FILE_CHUNK = 12"

record EncryptedRecord =
  er_LinkId :: string
  er_ChannelId :: string
  er_StreamId :: string
  er_KeyId :: u64
  er_Direction :: int
  er_FrameType :: proto_FrameType
  er_StreamSequence :: u64
  er_Ciphertext :: bytes

record LinkInit =
  li_GrantId :: string
  li_LinkId :: string
  li_ClientId :: string
  li_DeviceId :: string
  li_RelayNodeId :: string
  li_RelayCellId :: string
  li_TargetConnectionEpoch :: u64
  li_ClientIdentityKeyVersion :: u64
  li_ClientEphemeralPublicKey :: bytes
  li_ClientChallenge :: bytes
  li_ExpiresAt :: "instant option"
  li_IdentitySignature :: bytes
  li_DeviceConnectionGrant :: string

record LinkAccept =
  la_GrantId :: string
  la_LinkId :: string
  la_ClientId :: string
  la_DeviceId :: string
  la_RelayNodeId :: string
  la_RelayCellId :: string
  la_TargetConnectionEpoch :: u64
  la_DeviceIdentityKeyVersion :: u64
  la_ClientEphemeralPublicKey :: bytes
  la_DeviceEphemeralPublicKey :: bytes
  la_ClientChallenge :: bytes
  la_DeviceChallenge :: bytes
  la_ExpiresAt :: "instant option"
  la_IdentitySignature :: bytes

datatype LinkBody = Body_LinkInit LinkInit | Body_LinkAccept LinkAccept | Body_Encrypted EncryptedRecord

record LinkEnvelope =
  le_LinkId :: string
  le_Body :: "LinkBody option"

definition GetLinkInit :: "LinkEnvelope \<Rightarrow> LinkInit option" where
  "GetLinkInit link = (case le_Body link of Some (Body_LinkInit x) \<Rightarrow> Some x | _ \<Rightarrow> None)"

definition GetEncrypted :: "LinkEnvelope \<Rightarrow> EncryptedRecord option" where
  "GetEncrypted link = (case le_Body link of Some (Body_Encrypted x) \<Rightarrow> Some x | _ \<Rightarrow> None)"

record CarrierHello =
  ch_Grant :: string
  ch_GrantId :: string
  ch_ClientId :: string
  ch_ClientIdentityKeyVersion :: u64
  ch_ClientChallenge :: bytes
  ch_ClientProof :: bytes
  ch_DeviceConnectionTicket :: string
  ch_DeviceId :: string
  ch_DeviceConnectionEpoch :: u64
  ch_DeviceProof :: bytes

record CarrierReady =
  cy_CarrierId :: string
  cy_CarrierEpoch :: u64
  cy_HeartbeatIntervalSeconds :: u32
  cy_ControlQueueByteLimit :: u32
  cy_InteractiveQueueByteLimit :: u32
  cy_BulkQueueByteLimit :: u32

record CarrierGoAway =
  cg_Reason :: ProtocolErrorCode
  cg_ReconnectAfterMillis :: u32

record StreamAck =
  sa_ChannelId :: string
  sa_StreamId :: string
  sa_AcknowledgedSequence :: u64

record CarrierResume =
  cr_LinkId :: string
  cr_LastAckByStream :: "StreamAck list"

record CarrierStreamRejected =
  sr_LinkId :: string
  sr_ChannelId :: string
  sr_StreamId :: string
  sr_Reason :: ProtocolErrorCode

datatype CarrierBody =
    Body_Hello CarrierHello
  | Body_Ready CarrierReady
  | Body_Link LinkEnvelope
  | Body_Ping (ping_millis: u64)
  | Body_Pong (pong_millis: u64)
  | Body_GoAway CarrierGoAway
  | Body_Resume CarrierResume
  | Body_StreamRejected CarrierStreamRejected

text \<open>\<open>ce_Unknown\<close> is what \<open>ProtoReflect().GetUnknown()\<close> returns.\<close>

record CarrierEnvelope =
  ce_ProtocolMajor :: u32
  ce_CarrierId :: string
  ce_CarrierEpoch :: u64
  ce_PacketSequence :: u64
  ce_AcknowledgedSequence :: u64
  ce_Body :: "CarrierBody option"
  ce_Unknown :: bytes

definition body_envelope :: "CarrierBody \<Rightarrow> CarrierEnvelope" where
  "body_envelope body = \<lparr>ce_ProtocolMajor = 0, ce_CarrierId = [], ce_CarrierEpoch = 0, ce_PacketSequence = 0,
     ce_AcknowledgedSequence = 0, ce_Body = Some body, ce_Unknown = []\<rparr>"

definition GetPong :: "CarrierEnvelope \<Rightarrow> u64 option" where
  "GetPong envelope = (case ce_Body envelope of Some (Body_Pong millis) \<Rightarrow> Some millis | _ \<Rightarrow> None)"

definition has_body :: "CarrierEnvelope \<Rightarrow> bool" where
  "has_body envelope \<longleftrightarrow> ce_Body envelope \<noteq> None"

subsection \<open>The carrier\<close>

text \<open>\<open>v2CarrierOther\<close> stands for every other value of the role's \<open>uint8\<close>.\<close>

datatype v2CarrierRole = v2CarrierOther | v2CarrierClient | v2CarrierDevice

text \<open>
  \<open>vc_closed\<close> is set once \<open>closeOnce\<close> has run, \<open>vc_watched\<close> once
  \<open>watchdogOnce\<close> has, \<open>vc_done\<close> once the write loop has returned.
\<close>

record v2Carrier =
  vc_id :: string
  vc_epoch :: u64
  vc_role :: v2CarrierRole
  vc_clientID :: string
  vc_deviceID :: string
  vc_queue :: "CarrierEnvelope v2PriorityQueue"
  vc_done :: bool
  vc_nextPacket :: u64
  vc_lastReceived :: u64
  vc_lastPeerAcknowledged :: u64
  vc_closed :: bool
  vc_lastInbound :: int
  vc_lastOutbound :: int
  vc_lastPong :: int
  vc_lastPing :: int
  vc_lastAckProgress :: int
  vc_rttMillis :: int
  vc_heartbeat :: int
  vc_watched :: bool
  vc_closeReason :: "string option"

type_synonym carrier_state = "v2Carrier \<times> V2QueueBudget option"

definition v2DefaultHeartbeatSeconds :: int where "v2DefaultHeartbeatSeconds = 25"

definition v2HeartbeatTimeout :: "int \<Rightarrow> duration" where
  "v2HeartbeatTimeout seconds =
     (let seconds = (if seconds = 0 then v2DefaultHeartbeatSeconds else seconds);
          timeout = seconds * 2 * Second + 3 * Second
      in if timeout < 15 * Second then 15 * Second else timeout)"

text \<open>
  \<open>newV2Carrier\<close> on an open connection with a parent context; \<open>Inl None\<close> is
  the error of \<open>newV2PriorityQueue\<close>.
\<close>

definition newV2Carrier ::
  "instant \<Rightarrow> string \<Rightarrow> u64 \<Rightarrow> v2CarrierRole \<Rightarrow> string \<Rightarrow> string \<Rightarrow> V2QueueLimits \<Rightarrow> v2_error option + v2Carrier" where
  "newV2Carrier now i epoch role clientID deviceID limits =
     (if i = [] \<or> epoch = 0 \<or> (role \<noteq> v2CarrierClient \<and> role \<noteq> v2CarrierDevice) then Inl (Some ErrV2Route)
      else (case newV2PriorityQueue limits of
          None \<Rightarrow> Inl None
        | Some queue \<Rightarrow> Inr \<lparr>vc_id = i, vc_epoch = epoch, vc_role = role, vc_clientID = clientID, vc_deviceID = deviceID,
            vc_queue = queue, vc_done = False, vc_nextPacket = 0, vc_lastReceived = 0, vc_lastPeerAcknowledged = 0,
            vc_closed = False, vc_lastInbound = now, vc_lastOutbound = now, vc_lastPong = now, vc_lastPing = 0,
            vc_lastAckProgress = now, vc_rttMillis = 0, vc_heartbeat = 0, vc_watched = False, vc_closeReason = None\<rparr>))"

definition closeWithReason :: "string \<Rightarrow> carrier_state \<Rightarrow> carrier_state" where
  "closeWithReason reason cb =
     (case cb of (carrier, budget) \<Rightarrow>
       if vc_closed carrier then (carrier, budget)
       else
         (let carrier = (if reason \<noteq> [] then carrier\<lparr>vc_closeReason := Some reason\<rparr> else carrier);
              (queue, budget) = vq_close (vc_queue carrier, budget)
          in (carrier\<lparr>vc_closed := True, vc_queue := queue\<rparr>, budget)))"

definition carrier_close :: "carrier_state \<Rightarrow> carrier_state" where
  "carrier_close cb = closeWithReason ''closed'' cb"

definition enqueueEnvelope ::
  "(CarrierEnvelope \<Rightarrow> int) \<Rightarrow> CarrierEnvelope \<Rightarrow> v2Priority \<Rightarrow> carrier_state \<Rightarrow> carrier_state \<times> v2_error option" where
  "enqueueEnvelope protoSize envelope class cb =
     (case cb of (carrier, budget) \<Rightarrow>
       if \<not> has_body envelope then ((carrier, budget), Some ErrV2QueueClosed)
       else (case vq_enqueue has_body protoSize (vc_queue carrier, budget) (Some envelope) class of
           ((queue, budget), err) \<Rightarrow> ((carrier\<lparr>vc_queue := queue\<rparr>, budget), err)))"

definition v2LinkPriority :: "LinkEnvelope \<Rightarrow> v2Priority" where
  "v2LinkPriority link =
     (case GetEncrypted link of
        None \<Rightarrow> v2PriorityControl
      | Some record \<Rightarrow>
          if er_FrameType record = FRAME_TYPE_FILE_CHUNK then v2PriorityBulk
          else if er_FrameType record \<in> {FRAME_TYPE_RPC_RESPONSE, FRAME_TYPE_RPC_EVENT, FRAME_TYPE_STREAM_DATA}
          then v2PriorityInteractive
          else v2PriorityControl)"

definition enqueueLink ::
  "(CarrierEnvelope \<Rightarrow> int) \<Rightarrow> LinkEnvelope \<Rightarrow> carrier_state \<Rightarrow> carrier_state \<times> v2_error option" where
  "enqueueLink protoSize link cb =
     enqueueEnvelope protoSize (body_envelope (Body_Link link)) (v2LinkPriority link) cb"

definition rejectStreamWithReason ::
  "(CarrierEnvelope \<Rightarrow> int) \<Rightarrow> string \<Rightarrow> string \<Rightarrow> string \<Rightarrow> ProtocolErrorCode \<Rightarrow> carrier_state \<Rightarrow>
     carrier_state \<times> v2_error option" where
  "rejectStreamWithReason protoSize linkID channelID streamID reason cb =
     (if linkID = [] \<or> reason = ERROR_UNSPECIFIED then (cb, Some ErrV2Route)
      else enqueueEnvelope protoSize
        (body_envelope (Body_StreamRejected \<lparr>sr_LinkId = linkID, sr_ChannelId = channelID, sr_StreamId = streamID,
           sr_Reason = reason\<rparr>)) v2PriorityControl cb)"

definition rejectStream ::
  "(CarrierEnvelope \<Rightarrow> int) \<Rightarrow> string \<Rightarrow> string \<Rightarrow> string \<Rightarrow> carrier_state \<Rightarrow> carrier_state \<times> v2_error option" where
  "rejectStream protoSize linkID channelID streamID cb =
     rejectStreamWithReason protoSize linkID channelID streamID ERROR_BACKPRESSURE cb"

definition v2LinkMetadata :: "LinkEnvelope \<Rightarrow> string \<times> string \<times> string" where
  "v2LinkMetadata link =
     (case GetEncrypted link of
        Some record \<Rightarrow> (er_LinkId record, er_ChannelId record, er_StreamId record)
      | None \<Rightarrow> (le_LinkId link, [], []))"

subsection \<open>Packets\<close>

text \<open>The critical section of the write loop that numbers a packet; \<open>None\<close> when the numbers are used up.\<close>

definition stamp_packet :: "instant \<Rightarrow> CarrierEnvelope \<Rightarrow> v2Carrier \<Rightarrow> (v2Carrier \<times> CarrierEnvelope) option" where
  "stamp_packet now envelope carrier =
     (if vc_nextPacket carrier = - 1 then None
      else
        (let hadNoOutstandingPackets = (vc_lastPeerAcknowledged carrier = vc_nextPacket carrier);
             carrier = carrier\<lparr>vc_nextPacket := vc_nextPacket carrier + 1\<rparr>;
             carrier = (if hadNoOutstandingPackets then carrier\<lparr>vc_lastAckProgress := now\<rparr> else carrier)
         in Some (carrier, envelope\<lparr>ce_ProtocolMajor := 2, ce_CarrierId := vc_id carrier,
              ce_CarrierEpoch := vc_epoch carrier, ce_PacketSequence := vc_nextPacket carrier,
              ce_AcknowledgedSequence := vc_lastReceived carrier\<rparr>)))"

text \<open>
  One round of \<open>writeLoop\<close>: \<open>marshal\<close> is \<open>proto.Marshal\<close>, \<open>written\<close> tells
  whether \<open>conn.Write\<close> succeeded. The result is the packet put on the wire.
\<close>

definition write_step ::
  "(CarrierEnvelope \<Rightarrow> bytes option) \<Rightarrow> instant \<Rightarrow> bool \<Rightarrow> carrier_state \<Rightarrow> carrier_state \<times> CarrierEnvelope option" where
  "write_step marshal now written cb =
     (case cb of (carrier, budget) \<Rightarrow>
       if vc_done carrier then ((carrier, budget), None)
       else (case vq_dequeue (vc_queue carrier, budget) of
           ((queue, budget), V2Wait) \<Rightarrow> ((carrier\<lparr>vc_queue := queue\<rparr>, budget), None)
         | ((queue, budget), V2Closed) \<Rightarrow> ((carrier\<lparr>vc_queue := queue, vc_done := True\<rparr>, budget), None)
         | ((queue, budget), V2Frame frame) \<Rightarrow>
             (case stamp_packet now (vf_envelope frame) (carrier\<lparr>vc_queue := queue\<rparr>) of
                None \<Rightarrow> (closeWithReason ''write_error'' (carrier\<lparr>vc_queue := queue, vc_done := True\<rparr>, budget), None)
              | Some (carrier, envelope) \<Rightarrow>
                  (case marshal envelope of
                     None \<Rightarrow> (carrier_close (carrier\<lparr>vc_done := True\<rparr>, budget), None)
                   | Some payload \<Rightarrow>
                       if payload = [] \<or> int (length payload) > v2MaximumCarrierFrame
                       then (carrier_close (carrier\<lparr>vc_done := True\<rparr>, budget), None)
                       else if \<not> written then (carrier_close (carrier\<lparr>vc_done := True\<rparr>, budget), None)
                       else ((carrier\<lparr>vc_lastOutbound := now\<rparr>, budget), Some envelope)))))"

definition acceptIncoming :: "instant \<Rightarrow> CarrierEnvelope \<Rightarrow> v2Carrier \<Rightarrow> v2Carrier \<times> v2_error option" where
  "acceptIncoming now envelope carrier =
     (if ce_ProtocolMajor envelope \<noteq> 2 \<or> ce_CarrierId envelope \<noteq> vc_id carrier \<or>
        ce_CarrierEpoch envelope \<noteq> vc_epoch carrier \<or> ce_PacketSequence envelope = 0 \<or> ce_Unknown envelope \<noteq> []
      then (carrier, Some ErrV2Route)
      else if ce_PacketSequence envelope \<noteq> vc_lastReceived carrier + 1 \<or>
        ce_AcknowledgedSequence envelope > vc_nextPacket carrier
      then (carrier, Some ErrV2Route)
      else
        (let carrier = carrier\<lparr>vc_lastReceived := ce_PacketSequence envelope, vc_lastInbound := now\<rparr>;
             acknowledged = ce_AcknowledgedSequence envelope;
             carrier = (if acknowledged > vc_lastPeerAcknowledged carrier
               then carrier\<lparr>vc_lastPeerAcknowledged := acknowledged, vc_lastAckProgress := now\<rparr> else carrier);
             carrier = (case GetPong envelope of
                 None \<Rightarrow> carrier
               | Some millis \<Rightarrow>
                   (let probe = sint millis
                    in if probe \<noteq> 0 \<and> probe = vc_lastPing carrier
                       then carrier\<lparr>vc_lastPong := now, vc_rttMillis := (now - probe * Millisecond) div Millisecond\<rparr>
                       else carrier))
         in (carrier, None)))"

subsection \<open>The watchdog\<close>

definition watchdog_seconds :: "int \<Rightarrow> int" where
  "watchdog_seconds seconds = (if seconds < 1 \<or> seconds > 300 then v2DefaultHeartbeatSeconds else seconds)"

definition startWatchdog :: "int \<Rightarrow> instant \<Rightarrow> v2Carrier \<Rightarrow> v2Carrier" where
  "startWatchdog seconds now carrier =
     (if vc_watched carrier then carrier
      else carrier\<lparr>vc_watched := True, vc_heartbeat := watchdog_seconds seconds, vc_lastInbound := now,
        vc_lastOutbound := now, vc_lastPong := now, vc_lastAckProgress := now,
        vc_lastPing := now div Millisecond\<rparr>)"

datatype watchdog_result = WatchdogStopped | WatchdogClosed string | WatchdogWait duration

text \<open>One expiry of the timer at \<open>now\<close>; \<open>WatchdogWait\<close> is the delay it is reset to.\<close>

definition watchdog_tick ::
  "(CarrierEnvelope \<Rightarrow> int) \<Rightarrow> instant \<Rightarrow> carrier_state \<Rightarrow> carrier_state \<times> watchdog_result" where
  "watchdog_tick protoSize now cb =
     (case cb of (carrier, budget) \<Rightarrow>
       if vc_closed carrier then ((carrier, budget), WatchdogStopped)
       else
         (let interval = max Second (vc_heartbeat carrier * Second);
              latest = (if vc_lastPong carrier > vc_lastInbound carrier then vc_lastPong carrier else vc_lastInbound carrier);
              timeout = v2HeartbeatTimeout (vc_heartbeat carrier);
              activityAge = max 0 (now - latest)
          in if activityAge > timeout then (closeWithReason ''heartbeat_timeout'' (carrier, budget), WatchdogClosed ''heartbeat_timeout'')
             else
               (let outstanding = (vc_nextPacket carrier > vc_lastPeerAcknowledged carrier);
                    ackAge = max 0 (now - vc_lastAckProgress carrier)
                in if outstanding \<and> ackAge > timeout then (closeWithReason ''ack_timeout'' (carrier, budget), WatchdogClosed ''ack_timeout'')
                   else
                     (let lastProbe = vc_lastPing carrier * Millisecond;
                          probeBase = (if \<not> outstanding then max (vc_lastOutbound carrier) lastProbe else lastProbe);
                          probeAge = max 0 (now - probeBase);
                          (cb, probed) =
                            (if probeAge \<ge> interval
                             then (let probe = word_of_int (now div Millisecond)
                               in enqueueEnvelope protoSize (body_envelope (Body_Ping probe)) v2PriorityControl
                                    (carrier\<lparr>vc_lastPing := sint (probe :: u64)\<rparr>, budget))
                             else ((carrier, budget), None));
                          probeAge = (if probeAge \<ge> interval then 0 else probeAge);
                          delay = max Millisecond (min (interval - probeAge) (timeout - activityAge));
                          delay = (if outstanding then max Millisecond (min delay (timeout - ackAge)) else delay)
                      in if probed \<noteq> None then (closeWithReason ''heartbeat_send_failed'' cb, WatchdogClosed ''heartbeat_send_failed'')
                         else (cb, WatchdogWait delay)))))"

subsection \<open>What each operation leaves alone\<close>

text \<open>The identity of a carrier and its packet counters; what the watchdog reads.\<close>

definition numbers :: "v2Carrier \<Rightarrow> (string \<times> u64) \<times> u64 \<times> u64 \<times> u64 \<times> bool" where
  "numbers c = ((vc_id c, vc_epoch c), vc_nextPacket c, vc_lastReceived c, vc_lastPeerAcknowledged c, vc_done c)"

definition liveness :: "v2Carrier \<Rightarrow> int \<times> int \<times> int \<times> bool" where
  "liveness c = (vc_lastInbound c, vc_lastPong c, vc_heartbeat c, vc_watched c)"

lemma close_keeps [simp]:
  "numbers (fst (closeWithReason r cb)) = numbers (fst cb)"
  "liveness (fst (closeWithReason r cb)) = liveness (fst cb)"
  "vc_closed (fst (closeWithReason r cb))"
  by (cases cb, simp add: closeWithReason_def numbers_def liveness_def split_beta Let_def)+

lemma carrier_close_keeps [simp]:
  "numbers (fst (carrier_close cb)) = numbers (fst cb)"
  "liveness (fst (carrier_close cb)) = liveness (fst cb)"
  "vc_closed (fst (carrier_close cb))"
  by (simp_all add: carrier_close_def)

lemma enqueue_keeps [simp]:
  "numbers (fst (fst (enqueueEnvelope ps e c cb))) = numbers (fst cb)"
  "liveness (fst (fst (enqueueEnvelope ps e c cb))) = liveness (fst cb)"
  "vc_closed (fst (fst (enqueueEnvelope ps e c cb))) = vc_closed (fst cb)"
  by (cases cb, simp add: enqueueEnvelope_def numbers_def liveness_def split_beta)+

lemma enqueue_ops_keep [simp]:
  "numbers (fst (fst (enqueueLink ps l cb))) = numbers (fst cb)"
  "liveness (fst (fst (enqueueLink ps l cb))) = liveness (fst cb)"
  "vc_closed (fst (fst (enqueueLink ps l cb))) = vc_closed (fst cb)"
  "numbers (fst (fst (rejectStreamWithReason ps i j k r cb))) = numbers (fst cb)"
  "liveness (fst (fst (rejectStreamWithReason ps i j k r cb))) = liveness (fst cb)"
  "vc_closed (fst (fst (rejectStreamWithReason ps i j k r cb))) = vc_closed (fst cb)"
  by (simp_all add: enqueueLink_def rejectStreamWithReason_def)

lemma watch_keeps [simp]:
  "numbers (startWatchdog s now c) = numbers c"
  "vc_closed (startWatchdog s now c) = vc_closed c"
  "vc_watched c \<Longrightarrow> startWatchdog s now c = c"
  by (simp_all add: startWatchdog_def numbers_def)

text \<open>The timer's expiry, by cases of its outcome.\<close>

definition latest_activity :: "v2Carrier \<Rightarrow> instant" where
  "latest_activity c = max (vc_lastPong c) (vc_lastInbound c)"

lemma delay_bounds:
  fixes interval :: int
  assumes "0 \<le> p" and "0 < ms" and "ms \<le> interval"
  shows "ms \<le> (if out then max ms (min (max ms (min (interval - p) quiet)) ack) else max ms (min (interval - p) quiet))"
    and "(if out then max ms (min (max ms (min (interval - p) quiet)) ack) else max ms (min (interval - p) quiet)) \<le> interval"
    and "(if out then max ms (min (max ms (min (interval - p) quiet)) ack) else max ms (min (interval - p) quiet)) \<le> max ms quiet"
  using assms by (auto simp: max_def min_def)

lemma tick_cases:
  assumes "watchdog_tick ps now (c, b) = (cb', r)"
  obtains (stopped) "vc_closed c" and "cb' = (c, b)" and "r = WatchdogStopped"
  | (closed) reason where "\<not> vc_closed c" and "r = WatchdogClosed reason" and "vc_closed (fst cb')"
      and "numbers (fst cb') = numbers c" and "liveness (fst cb') = liveness c"
  | (wait) d where "\<not> vc_closed c" and "r = WatchdogWait d" and "Millisecond \<le> d"
      and "d \<le> max Second (vc_heartbeat c * Second)"
      and "d \<le> max Millisecond (v2HeartbeatTimeout (vc_heartbeat c) - max 0 (now - latest_activity c))"
      and "now - latest_activity c \<le> v2HeartbeatTimeout (vc_heartbeat c)"
      and "numbers (fst cb') = numbers c" and "liveness (fst cb') = liveness c" and "\<not> vc_closed (fst cb')"
proof (cases "vc_closed c")
  case True
  with assms show ?thesis by (intro stopped) (simp_all add: watchdog_tick_def)
next
  case open_c: False
  let ?latest = "if vc_lastPong c > vc_lastInbound c then vc_lastPong c else vc_lastInbound c"
  let ?timeout = "v2HeartbeatTimeout (vc_heartbeat c)"
  let ?age = "max 0 (now - ?latest)"
  let ?interval = "max Second (vc_heartbeat c * Second)"
  let ?outstanding = "vc_lastPeerAcknowledged c < vc_nextPacket c"
  let ?ack = "max 0 (now - vc_lastAckProgress c)"
  let ?probeAge = "max 0 (now - (if \<not> ?outstanding then max (vc_lastOutbound c) (vc_lastPing c * Millisecond)
      else vc_lastPing c * Millisecond))"
  let ?pinged = "(c\<lparr>vc_lastPing := sint (word_of_int (now div Millisecond) :: u64)\<rparr>, b)"
  let ?delay = "\<lambda>p. max Millisecond (min (?interval - p) (?timeout - ?age))"
  let ?wait = "\<lambda>p. if ?outstanding then max Millisecond (min (?delay p) (?timeout - ?ack)) else ?delay p"
  have latest: "?latest = latest_activity c" by (simp add: latest_activity_def)
  consider (silent) "?age > ?timeout" | (unacked) "\<not> ?age > ?timeout" "?outstanding \<and> ?ack > ?timeout"
    | (alive) "\<not> ?age > ?timeout" "\<not> (?outstanding \<and> ?ack > ?timeout)" by blast
  then show ?thesis
  proof cases
    case silent
    with assms open_c show ?thesis
      by (intro closed) (auto simp: watchdog_tick_def Let_def)
  next
    case unacked
    with assms open_c show ?thesis
      by (intro closed) (auto simp: watchdog_tick_def Let_def)
  next
    case alive
    define sent where "sent = (if ?probeAge \<ge> ?interval
        then enqueueEnvelope ps (body_envelope (Body_Ping (word_of_int (now div Millisecond)))) v2PriorityControl ?pinged
        else ((c, b), None))"
    define w where "w = ?wait (if ?probeAge \<ge> ?interval then 0 else ?probeAge)"
    have result: "watchdog_tick ps now (c, b) =
        (if snd sent \<noteq> None then (closeWithReason ''heartbeat_send_failed'' (fst sent), WatchdogClosed ''heartbeat_send_failed'')
         else (fst sent, WatchdogWait w))"
      unfolding watchdog_tick_def w_def sent_def Let_def using open_c alive
      by (simp only: prod.case if_False split_beta fst_conv snd_conv)
    have keeps: "numbers (fst (fst sent)) = numbers c" "liveness (fst (fst sent)) = liveness c" "\<not> vc_closed (fst (fst sent))"
      using open_c by (simp_all add: sent_def numbers_def [of "_\<lparr>vc_lastPing := _\<rparr>"] liveness_def [of "_\<lparr>vc_lastPing := _\<rparr>"])
        (simp_all add: numbers_def liveness_def)
    show ?thesis
    proof (cases "snd sent")
      case None
      have "Millisecond \<le> w" "w \<le> ?interval" "w \<le> max Millisecond (?timeout - ?age)"
      proof -
        let ?p = "if ?probeAge \<ge> ?interval then 0 else ?probeAge"
        have "0 \<le> ?p" by simp
        then show "Millisecond \<le> w" "w \<le> ?interval" "w \<le> max Millisecond (?timeout - ?age)"
          unfolding w_def by (rule delay_bounds; simp add: duration_defs)+
      qed
      with None result assms keeps open_c alive show ?thesis
        by (intro wait [of w]) (auto simp: latest)
    next
      case (Some e)
      with result assms keeps open_c show ?thesis
        by (intro closed [of "''heartbeat_send_failed''"]) auto
    qed
  qed
qed

subsection \<open>A carrier's history\<close>

text \<open>
  What can happen to a carrier, in any order: frames queued by the hub, rounds
  of the write loop, packets arriving, expiries of the watchdog, closing, and
  changes of the shared budget by other carriers. A step returns the packet it
  put on the wire and the error of an arriving packet.
\<close>

datatype carrier_event =
    CeEnqueue CarrierEnvelope v2Priority
  | CeLink LinkEnvelope
  | CeReject string string string ProtocolErrorCode
  | CeWrite instant bool
  | CeAccept instant CarrierEnvelope
  | CeWatch int instant
  | CeTick instant
  | CeClose string
  | CeElsewhere "V2QueueBudget option"

type_synonym carrier_result = "CarrierEnvelope option \<times> v2_error option"

fun carrier_step ::
  "(CarrierEnvelope \<Rightarrow> int) \<Rightarrow> (CarrierEnvelope \<Rightarrow> bytes option) \<Rightarrow> carrier_state \<Rightarrow> carrier_event \<Rightarrow>
     carrier_state \<times> carrier_result" where
  "carrier_step ps marshal cb (CeEnqueue e c) = (case enqueueEnvelope ps e c cb of (cb, err) \<Rightarrow> (cb, (None, err)))"
| "carrier_step ps marshal cb (CeLink l) = (case enqueueLink ps l cb of (cb, err) \<Rightarrow> (cb, (None, err)))"
| "carrier_step ps marshal cb (CeReject i j k r) =
     (case rejectStreamWithReason ps i j k r cb of (cb, err) \<Rightarrow> (cb, (None, err)))"
| "carrier_step ps marshal cb (CeWrite now ok) = (case write_step marshal now ok cb of (cb, p) \<Rightarrow> (cb, (p, None)))"
| "carrier_step ps marshal cb (CeAccept now e) =
     (case acceptIncoming now e (fst cb) of (c, err) \<Rightarrow> ((c, snd cb), (None, err)))"
| "carrier_step ps marshal cb (CeWatch s now) = ((startWatchdog s now (fst cb), snd cb), (None, None))"
| "carrier_step ps marshal cb (CeTick now) = (fst (watchdog_tick ps now cb), (None, None))"
| "carrier_step ps marshal cb (CeClose r) = (closeWithReason r cb, (None, None))"
| "carrier_step ps marshal cb (CeElsewhere b) = ((fst cb, b), (None, None))"

definition sent_packets :: "carrier_event \<Rightarrow> carrier_result \<Rightarrow> CarrierEnvelope list" where
  "sent_packets e r = (case fst r of None \<Rightarrow> [] | Some p \<Rightarrow> [p])"

definition accepted_packets :: "carrier_event \<Rightarrow> carrier_result \<Rightarrow> CarrierEnvelope list" where
  "accepted_packets e r = (case (e, snd r) of (CeAccept _ p, None) \<Rightarrow> [p] | _ \<Rightarrow> [])"

lemma numbers_eqD:
  assumes "numbers c' = numbers c"
  shows "vc_id c' = vc_id c" "vc_epoch c' = vc_epoch c" "vc_nextPacket c' = vc_nextPacket c"
    "vc_lastReceived c' = vc_lastReceived c" "vc_lastPeerAcknowledged c' = vc_lastPeerAcknowledged c" "vc_done c' = vc_done c"
  using assms by (simp_all add: numbers_def)

lemma tick_keeps [simp]:
  "numbers (fst (fst (watchdog_tick ps now cb))) = numbers (fst cb)"
  "liveness (fst (fst (watchdog_tick ps now cb))) = liveness (fst cb)"
proof -
  obtain cb' r where t: "watchdog_tick ps now (fst cb, snd cb) = (cb', r)" by (metis prod.collapse)
  from t have "numbers (fst cb') = numbers (fst cb) \<and> liveness (fst cb') = liveness (fst cb)"
    by (cases rule: tick_cases) simp_all
  with t show "numbers (fst (fst (watchdog_tick ps now cb))) = numbers (fst cb)"
    "liveness (fst (fst (watchdog_tick ps now cb))) = liveness (fst cb)" by simp_all
qed

text \<open>The outcomes of a round of the write loop.\<close>

lemma write_cases:
  assumes "write_step marshal now ok cb = (cb', p)"
  obtains (quiet) "p = None" and "numbers (fst cb') = numbers (fst cb)"
  | (stops) "p = None" and "\<not> vc_done (fst cb)" and "vc_done (fst cb')" and "vc_id (fst cb') = vc_id (fst cb)"
      and "vc_epoch (fst cb') = vc_epoch (fst cb)" and "vc_lastReceived (fst cb') = vc_lastReceived (fst cb)"
      and "vc_lastPeerAcknowledged (fst cb') = vc_lastPeerAcknowledged (fst cb)"
      and "vc_nextPacket (fst cb') = vc_nextPacket (fst cb) \<or>
        vc_nextPacket (fst cb) \<noteq> - 1 \<and> vc_nextPacket (fst cb') = vc_nextPacket (fst cb) + 1"
  | (writes) e where "p = Some e" and "\<not> vc_done (fst cb)" and "vc_nextPacket (fst cb) \<noteq> - 1"
      and "numbers (fst cb') = ((vc_id (fst cb), vc_epoch (fst cb)), vc_nextPacket (fst cb) + 1,
        vc_lastReceived (fst cb), vc_lastPeerAcknowledged (fst cb), False)"
      and "ce_PacketSequence e = vc_nextPacket (fst cb) + 1" and "ce_AcknowledgedSequence e = vc_lastReceived (fst cb)"
      and "ce_CarrierId e = vc_id (fst cb)" and "ce_CarrierEpoch e = vc_epoch (fst cb)" and "ce_ProtocolMajor e = 2"
proof -
  obtain c b where cb: "cb = (c, b)" by (cases cb)
  note w = assms [unfolded cb write_step_def, simplified]
  show thesis
  proof (cases "vc_done c")
    case True
    with w show thesis by (intro quiet) (auto simp: cb)
  next
    case running: False
    obtain q b' r where d: "vq_dequeue (vc_queue c, b) = ((q, b'), r)" by (metis prod.collapse)
    show thesis
    proof (cases r)
      case V2Wait
      with w d running show thesis by (intro quiet) (auto simp: cb numbers_def)
    next
      case V2Closed
      with w d running show thesis by (intro stops) (auto simp: cb)
    next
      case (V2Frame f)
      let ?c = "c\<lparr>vc_queue := q\<rparr>"
      show thesis
      proof (cases "vc_nextPacket c = - 1")
        case True
        then have "cb' = closeWithReason ''write_error'' (c\<lparr>vc_queue := q, vc_done := True\<rparr>, b')" "p = None"
          using w d running V2Frame by (simp_all add: stamp_packet_def)
        with close_keeps(1) [of "''write_error''" "(c\<lparr>vc_queue := q, vc_done := True\<rparr>, b')"]
        show thesis by (intro stops) (simp_all add: cb numbers_def running)
      next
        case False
        obtain c2 e where s: "stamp_packet now (vf_envelope f) ?c = Some (c2, e)" 
          using False by (simp add: stamp_packet_def Let_def)
        then have c2: "numbers c2 = ((vc_id c, vc_epoch c), vc_nextPacket c + 1, vc_lastReceived c,
            vc_lastPeerAcknowledged c, vc_done c)"
          and e: "ce_PacketSequence e = vc_nextPacket c + 1" "ce_AcknowledgedSequence e = vc_lastReceived c"
            "ce_CarrierId e = vc_id c" "ce_CarrierEpoch e = vc_epoch c" "ce_ProtocolMajor e = 2"
          using False by (auto simp: stamp_packet_def Let_def numbers_def split: if_splits)
        have fails: "cb' = carrier_close (c2\<lparr>vc_done := True\<rparr>, b') \<and> p = None \<or>
            cb' = (c2\<lparr>vc_lastOutbound := now\<rparr>, b') \<and> p = Some e"
          using w d running V2Frame s by (auto split: option.splits if_splits)
        then show thesis
        proof
          assume c: "cb' = carrier_close (c2\<lparr>vc_done := True\<rparr>, b') \<and> p = None"
          then show thesis
            using carrier_close_keeps(1) [of "(c2\<lparr>vc_done := True\<rparr>, b')"] c2 False
            by (intro stops) (simp_all add: cb numbers_def running)
        next
          assume "cb' = (c2\<lparr>vc_lastOutbound := now\<rparr>, b') \<and> p = Some e"
          with c2 e running False show thesis by (intro writes) (simp_all add: cb numbers_def)
        qed
      qed
    qed
  qed
qed

lemma accept_cases:
  assumes "acceptIncoming now e c = (c', err)"
  obtains (refused) "err = Some ErrV2Route" and "c' = c"
  | (accepted) "err = None" and "ce_PacketSequence e = vc_lastReceived c + 1" and "ce_PacketSequence e \<noteq> 0"
      and "ce_CarrierId e = vc_id c" and "ce_CarrierEpoch e = vc_epoch c" and "ce_AcknowledgedSequence e \<le> vc_nextPacket c"
      and "numbers c' = ((vc_id c, vc_epoch c), vc_nextPacket c, vc_lastReceived c + 1,
        max (vc_lastPeerAcknowledged c) (ce_AcknowledgedSequence e), vc_done c)"
proof (cases "err = None")
  case True
  with assms show thesis
    by (intro accepted) (auto simp: acceptIncoming_def numbers_def Let_def max_def split: if_splits option.splits)
next
  case False
  with assms show thesis
    by (intro refused) (auto simp: acceptIncoming_def Let_def split: if_splits)
qed

lemma write_liveness [simp]: "liveness (fst (fst (write_step marshal now ok cb))) = liveness (fst cb)"
proof -
  obtain c b where cb: "cb = (c, b)" by (cases cb)
  have stamp: "liveness (fst x) = liveness c'" if "stamp_packet now e c' = Some x" for x e c'
    using that by (auto simp: stamp_packet_def Let_def liveness_def split: if_splits)
  have upd: "liveness (c'\<lparr>vc_done := d\<rparr>) = liveness c'" "liveness (c'\<lparr>vc_queue := q\<rparr>) = liveness c'"
    "liveness (c'\<lparr>vc_lastOutbound := x\<rparr>) = liveness c'" for c' d q x
    by (simp_all add: liveness_def)
  have "liveness (fst (fst (write_step marshal now ok (c, b)))) = liveness c"
    unfolding write_step_def using stamp
    by (auto simp: upd split: prod.splits v2_dequeued.splits option.splits)
  then show ?thesis by (simp add: cb)
qed

lemma write_closed: "vc_closed (fst cb) \<Longrightarrow> vc_closed (fst (fst (write_step marshal now ok cb)))"
  by (cases cb) (auto simp: write_step_def stamp_packet_def Let_def split: prod.splits v2_dequeued.splits option.splits if_splits)

lemma step_closed: "vc_closed (fst cb) \<Longrightarrow> vc_closed (fst (fst (carrier_step ps marshal cb e)))"
proof (cases e)
  case (CeAccept now x)
  assume "vc_closed (fst cb)"
  with CeAccept show ?thesis
    by (auto simp: acceptIncoming_def Let_def split: option.split)
next
  case (CeTick now)
  assume closed: "vc_closed (fst cb)"
  obtain cb' r where t: "watchdog_tick ps now (fst cb, snd cb) = (cb', r)" by (metis prod.collapse)
  then have "vc_closed (fst cb')" using closed by (cases rule: tick_cases) simp_all
  with CeTick t show ?thesis by simp
qed (auto simp: split_beta intro: write_closed)

text \<open>What the packets sent and accepted so far say about the counters.\<close>

definition history_ok :: "string \<Rightarrow> u64 \<Rightarrow> v2Carrier \<Rightarrow> CarrierEnvelope list \<Rightarrow> CarrierEnvelope list \<Rightarrow> bool" where
  "history_ok i epoch c sent recv \<longleftrightarrow>
     vc_id c = i \<and> vc_epoch c = epoch \<and>
     map (\<lambda>p. unat (ce_PacketSequence p)) sent = [1..<Suc (length sent)] \<and>
     map (\<lambda>p. unat (ce_PacketSequence p)) recv = [1..<Suc (length recv)] \<and>
     unat (vc_lastReceived c) = length recv \<and>
     (\<not> vc_done c \<longrightarrow> unat (vc_nextPacket c) = length sent) \<and>
     length sent \<le> unat (vc_nextPacket c) \<and> unat (vc_nextPacket c) \<le> Suc (length sent) \<and>
     vc_lastPeerAcknowledged c \<le> vc_nextPacket c \<and>
     sorted (map (\<lambda>p. unat (ce_AcknowledgedSequence p)) sent) \<and>
     (\<forall>p\<in>set sent. unat (ce_AcknowledgedSequence p) \<le> length recv \<and> ce_CarrierId p = i \<and> ce_CarrierEpoch p = epoch \<and>
        ce_ProtocolMajor p = 2)"

lemma history_same:
  "history_ok i ep c sent recv \<Longrightarrow> numbers c' = numbers c \<Longrightarrow> history_ok i ep c' sent recv"
  using numbers_eqD [of c' c] by (simp add: history_ok_def)

lemma history_write:
  assumes "history_ok i ep (fst cb) sent recv" and "write_step marshal now ok cb = (cb', p)"
  shows "history_ok i ep (fst cb') (sent @ (case p of None \<Rightarrow> [] | Some e \<Rightarrow> [e])) recv"
  using assms(2)
proof (cases rule: write_cases)
  case quiet
  with assms(1) show ?thesis by (auto intro: history_same)
next
  case stops
  then have "vc_nextPacket (fst cb') = vc_nextPacket (fst cb) \<or>
      vc_nextPacket (fst cb) < vc_nextPacket (fst cb') \<and>
      unat (vc_nextPacket (fst cb')) = Suc (unat (vc_nextPacket (fst cb)))"
    using word_Suc_no_wrap [of "vc_nextPacket (fst cb)"] by (auto simp: add_eq_0_iff2)
  with stops show ?thesis using assms(1)
    by (elim disjE) (auto simp: history_ok_def)
next
  case (writes e)
  have "unat (vc_nextPacket (fst cb) + 1) = Suc (unat (vc_nextPacket (fst cb)))"
    using writes(3) by (intro word_Suc_no_wrap) (simp add: add_eq_0_iff2)
  moreover have "vc_id (fst cb') = vc_id (fst cb)" "vc_epoch (fst cb') = vc_epoch (fst cb)"
    "vc_nextPacket (fst cb') = vc_nextPacket (fst cb) + 1" "vc_lastReceived (fst cb') = vc_lastReceived (fst cb)"
    "vc_lastPeerAcknowledged (fst cb') = vc_lastPeerAcknowledged (fst cb)" "\<not> vc_done (fst cb')"
    using writes(4) by (simp_all add: numbers_def)
  moreover have "vc_nextPacket (fst cb) < vc_nextPacket (fst cb) + 1"
    using writes(3) by (intro word_Suc_no_wrap) (simp add: add_eq_0_iff2)
  ultimately show ?thesis using assms(1) writes
    by (auto simp: history_ok_def sorted_append)
qed

lemma history_accept:
  assumes "history_ok i ep c sent recv" and "acceptIncoming now e c = (c', err)"
  shows "history_ok i ep c' sent (recv @ (if err = None then [e] else []))"
  using assms(2)
proof (cases rule: accept_cases)
  case refused
  with assms(1) show ?thesis by simp
next
  case accepted
  have "unat (vc_lastReceived c + 1) = Suc (unat (vc_lastReceived c))"
    using accepted(2,3) by (intro word_Suc_no_wrap) simp
  moreover have "vc_id c' = vc_id c" "vc_epoch c' = vc_epoch c" "vc_nextPacket c' = vc_nextPacket c"
    "vc_lastReceived c' = vc_lastReceived c + 1" "vc_done c' = vc_done c"
    "vc_lastPeerAcknowledged c' = max (vc_lastPeerAcknowledged c) (ce_AcknowledgedSequence e)"
    using accepted(7) by (simp_all add: numbers_def)
  ultimately show ?thesis using assms(1) accepted
    by (auto simp: history_ok_def le_SucI)
qed

lemma history_step:
  assumes h: "history_ok i ep (fst cb) sent recv" and s: "carrier_step ps marshal cb ev = (cb', r)"
  shows "history_ok i ep (fst cb') (sent @ sent_packets ev r) (recv @ accepted_packets ev r)"
proof (cases ev)
  case (CeWrite now ok)
  obtain cb1 p where "write_step marshal now ok cb = (cb1, p)" by (cases "write_step marshal now ok cb")
  with history_write [OF h this] s CeWrite show ?thesis by (auto simp: sent_packets_def accepted_packets_def)
next
  case (CeAccept now e)
  obtain c1 err where "acceptIncoming now e (fst cb) = (c1, err)" by (cases "acceptIncoming now e (fst cb)")
  with history_accept [OF h this] s CeAccept show ?thesis
    by (cases err) (auto simp: sent_packets_def accepted_packets_def)
next
  case (CeElsewhere b)
  with h s show ?thesis by (auto simp: sent_packets_def accepted_packets_def)
next
  case (CeEnqueue e c)
  with s enqueue_keeps(1) [of ps e c cb] history_same [OF h] show ?thesis
    by (cases "enqueueEnvelope ps e c cb") (auto simp: sent_packets_def accepted_packets_def)
next
  case (CeLink l)
  with s enqueue_ops_keep(1) [of ps l cb] history_same [OF h] show ?thesis
    by (cases "enqueueLink ps l cb") (auto simp: sent_packets_def accepted_packets_def)
next
  case (CeReject j k l x)
  with s enqueue_ops_keep(4) [of ps j k l x cb] history_same [OF h] show ?thesis
    by (cases "rejectStreamWithReason ps j k l x cb") (auto simp: sent_packets_def accepted_packets_def)
qed (use s history_same [OF h] in \<open>auto simp: sent_packets_def accepted_packets_def\<close>)

subsection \<open>The watchdog against a silent peer\<close>

text \<open>
  From \<open>now\<close> on the timer expires when the watchdog asked for it, each time
  after the next batch of other events; the result is the instant at which the
  carrier is found closed.
\<close>

fun watchdog_run ::
  "(CarrierEnvelope \<Rightarrow> int) \<Rightarrow> (CarrierEnvelope \<Rightarrow> bytes option) \<Rightarrow> instant \<Rightarrow> carrier_state \<Rightarrow>
     carrier_event list list \<Rightarrow> instant option" where
  "watchdog_run ps marshal now cb [] = None"
| "watchdog_run ps marshal now cb (events # rest) =
     (case watchdog_tick ps now (run_calls (carrier_step ps marshal) cb events) of
        (cb, WatchdogWait delay) \<Rightarrow> watchdog_run ps marshal (now + delay) cb rest
      | (cb, _) \<Rightarrow> Some now)"

fun silent_event :: "carrier_event \<Rightarrow> bool" where
  "silent_event (CeAccept now e) \<longleftrightarrow> False"
| "silent_event _ \<longleftrightarrow> True"

lemma silent_step:
  assumes "silent_event e" and "vc_watched (fst cb)"
  shows "liveness (fst (fst (carrier_step ps marshal cb e))) = liveness (fst cb)"
  using assms by (cases e) (simp_all add: split_beta)

lemma silent_run:
  assumes "\<forall>e\<in>set es. silent_event e" and "vc_watched (fst cb)"
  shows "liveness (fst (run_calls (carrier_step ps marshal) cb es)) = liveness (fst cb)"
  using assms
proof (induction es arbitrary: cb)
  case (Cons e es)
  from silent_step [of e cb ps marshal] Cons.prems
  have same: "liveness (fst (fst (carrier_step ps marshal cb e))) = liveness (fst cb)" by simp
  then have "vc_watched (fst (fst (carrier_step ps marshal cb e)))"
    using Cons.prems by (simp add: liveness_def)
  with Cons.IH [of "fst (carrier_step ps marshal cb e)"] Cons.prems same show ?case by simp
qed simp

lemma liveness_eqD:
  assumes "liveness c' = liveness c"
  shows "latest_activity c' = latest_activity c" "vc_heartbeat c' = vc_heartbeat c" "vc_watched c' = vc_watched c"
  using assms by (simp_all add: liveness_def latest_activity_def)

lemma watchdog_run_closes:
  assumes "vc_watched (fst cb)" and "\<forall>es\<in>set batches. \<forall>e\<in>set es. silent_event e"
    and "T = latest_activity (fst cb) + v2HeartbeatTimeout (vc_heartbeat (fst cb))"
    and "latest_activity (fst cb) \<le> now" and "now \<le> T + Millisecond"
    and "(T + Millisecond - now) div Millisecond < int (length batches)"
  shows "\<exists>t. watchdog_run ps marshal now cb batches = Some t \<and> t \<le> T + Millisecond"
  using assms
proof (induction batches arbitrary: cb now)
  case Nil
  have "0 \<le> (T + Millisecond - now) div Millisecond"
    using Nil.prems by (simp add: duration_defs pos_imp_zdiv_nonneg_iff)
  with Nil.prems show ?case by simp
next
  case (Cons es rest)
  define cb1 where "cb1 = run_calls (carrier_step ps marshal) cb es"
  have same: "liveness (fst cb1) = liveness (fst cb)"
    unfolding cb1_def using Cons.prems by (intro silent_run) auto
  obtain cb2 r where t: "watchdog_tick ps now (fst cb1, snd cb1) = (cb2, r)" by (metis prod.collapse)
  then have run: "watchdog_run ps marshal now cb (es # rest) =
      (case r of WatchdogWait d \<Rightarrow> watchdog_run ps marshal (now + d) cb2 rest | _ \<Rightarrow> Some now)"
    by (simp add: cb1_def [symmetric])
  from t show ?case
  proof (cases rule: tick_cases)
    case (wait d)
    note live = liveness_eqD [OF same] liveness_eqD [OF wait(8)]
    have ms: "0 < Millisecond" by (simp add: duration_defs)
    have le: "now \<le> T" using wait(6) Cons.prems(3) live by simp
    have d: "d \<le> max Millisecond (T - now)"
      using wait(5) Cons.prems(3,4) live by (simp add: algebra_simps)
    have "(T + Millisecond - (now + d)) div Millisecond \<le> (T + Millisecond - (now + Millisecond)) div Millisecond"
      using wait(3) ms by (intro zdiv_mono1) simp_all
    also have "\<dots> = (T + Millisecond - now) div Millisecond - 1"
    proof -
      have "T + Millisecond - now = (T - now) + Millisecond" by simp
      with ms show ?thesis by (metis add_diff_cancel_left' add_diff_cancel_right' div_add_self2 diff_add_eq_diff_diff_swap less_irrefl)
    qed
    finally have fewer: "(T + Millisecond - (now + d)) div Millisecond < int (length rest)"
      using Cons.prems(6) by simp
    have "now + d \<le> T + Millisecond" using d le ms by (simp add: max_def split: if_splits)
    moreover have "latest_activity (fst cb2) \<le> now + d" using Cons.prems(4) wait(3) ms live by simp
    ultimately have "\<exists>t. watchdog_run ps marshal (now + d) cb2 rest = Some t \<and> t \<le> T + Millisecond"
      using Cons.prems(1-3) live fewer by (intro Cons.IH) simp_all
    with run wait(2) show ?thesis by simp
  qed (use run Cons.prems in simp_all)
qed

lemma watched_step:
  assumes "vc_watched (fst cb)"
  shows "vc_watched (fst (fst (carrier_step ps marshal cb e))) \<and>
    vc_heartbeat (fst (fst (carrier_step ps marshal cb e))) = vc_heartbeat (fst cb)"
proof (cases "silent_event e")
  case True
  from liveness_eqD [OF silent_step [OF this assms]] assms show ?thesis by simp
next
  case False
  then obtain now x where e: "e = CeAccept now x" by (cases e) simp_all
  then have "carrier_step ps marshal cb e =
      ((fst (acceptIncoming now x (fst cb)), snd cb), (None, snd (acceptIncoming now x (fst cb))))"
    by (simp add: split_beta)
  moreover have "vc_watched (fst (acceptIncoming now x c)) = vc_watched c \<and>
      vc_heartbeat (fst (acceptIncoming now x c)) = vc_heartbeat c" for c
    by (simp add: acceptIncoming_def Let_def split: option.split)
  ultimately show ?thesis using assms by simp
qed

lemma watched_run:
  assumes "vc_watched (fst cb)"
  shows "vc_watched (fst (run_calls (carrier_step ps marshal) cb es)) \<and>
    vc_heartbeat (fst (run_calls (carrier_step ps marshal) cb es)) = vc_heartbeat (fst cb)"
  using assms
proof (induction es arbitrary: cb)
  case (Cons e es)
  from watched_step [OF Cons.prems] Cons.IH [of "fst (carrier_step ps marshal cb e)"] show ?case by simp
qed simp

lemma watchdog_seconds_bounds: "1 \<le> watchdog_seconds s \<and> watchdog_seconds s \<le> 300"
  by (simp add: watchdog_seconds_def v2DefaultHeartbeatSeconds_def)

lemma heartbeat_timeout_bounds:
  assumes "1 \<le> h" and "h \<le> 300"
  shows "15 * Second \<le> v2HeartbeatTimeout h" and "v2HeartbeatTimeout h \<le> 603 * Second"
  using assms by (auto simp: v2HeartbeatTimeout_def Let_def duration_defs)

lemma history_run:
  assumes "newV2Carrier now i epoch role clientID deviceID limits = Inr c0"
  shows "history_ok i epoch (fst (run_calls (carrier_step ps marshal) (c0, b) es))
    (observe (carrier_step ps marshal) sent_packets (c0, b) es) (observe (carrier_step ps marshal) accepted_packets (c0, b) es)"
proof (induction es rule: rev_induct)
  case Nil
  from assms show ?case
    by (auto simp: history_ok_def newV2Carrier_def split: if_splits option.splits)
next
  case (snoc e es)
  obtain cb' r where "carrier_step ps marshal (run_calls (carrier_step ps marshal) (c0, b) es) e = (cb', r)"
    by (metis prod.collapse)
  with history_step [OF snoc.IH this] show ?case
    by (simp add: run_calls_append observe_append)
qed

subsection \<open>Properties\<close>

text \<open>
  C20. Packet numbering: however frames are queued, written, accepted and
  dropped, the packets a carrier puts on the wire are numbered 1, 2, 3 and so
  on under its own identity, the packets it accepts have exactly these numbers
  in this order, every acknowledgement it sends names a packet it has
  accepted, acknowledgements never go back, and it never believes an
  acknowledgement of a packet it has not numbered.
\<close>

theorem carrier_packets_in_order:
  assumes "newV2Carrier now i epoch role clientID deviceID limits = Inr c0"
    and "sent = observe (carrier_step ps marshal) sent_packets (c0, b) events"
    and "recv = observe (carrier_step ps marshal) accepted_packets (c0, b) events"
  shows "map (\<lambda>p. unat (ce_PacketSequence p)) sent = [1..<Suc (length sent)] \<and>
    map (\<lambda>p. unat (ce_PacketSequence p)) recv = [1..<Suc (length recv)] \<and>
    (\<forall>p\<in>set sent. unat (ce_AcknowledgedSequence p) \<le> length recv \<and> ce_CarrierId p = i \<and> ce_CarrierEpoch p = epoch) \<and>
    sorted (map (\<lambda>p. unat (ce_AcknowledgedSequence p)) sent) \<and>
    unat (vc_lastPeerAcknowledged (fst (run_calls (carrier_step ps marshal) (c0, b) events))) \<le> Suc (length sent)"
  using history_run [OF assms(1), of ps marshal b events] assms(2,3)
  by (auto simp: history_ok_def word_le_nat_alt)

lemma newV2Carrier_fields:
  assumes "newV2Carrier now i epoch role clientID deviceID limits = Inr c"
  shows "numbers c = ((i, epoch), 0, 0, 0, False)" and "\<not> vc_watched c" and "latest_activity c = now"
    and "newV2PriorityQueue limits = Some (vc_queue c)"
  using assms by (auto simp: newV2Carrier_def numbers_def latest_activity_def split: if_splits option.splits)

lemma sample_carrier:
  obtains c0 where "newV2Carrier 0 ''c'' 1 v2CarrierClient ''u'' ''d'' test_limits = Inr c0"
proof -
  obtain q :: "CarrierEnvelope v2PriorityQueue" where q: "newV2PriorityQueue test_limits = Some q"
    by (rule test_limits_queue)
  then show thesis using that unfolding newV2Carrier_def q by simp
qed

definition sample_ping :: "u64 \<Rightarrow> CarrierEnvelope" where
  "sample_ping n = (body_envelope (Body_Ping 7))\<lparr>ce_ProtocolMajor := 2, ce_CarrierId := ''c'', ce_CarrierEpoch := 1,
     ce_PacketSequence := n\<rparr>"

theorem carrier_packets_in_order_witness:
  "\<exists>c0. newV2Carrier 0 ''c'' 1 v2CarrierClient ''u'' ''d'' test_limits = Inr c0 \<and>
     (let events = [CeAccept 1 (sample_ping 1), CeEnqueue (sample_ping 0) v2PriorityControl, CeWrite 2 True, CeAccept 3 (sample_ping 1)];
        step = carrier_step (\<lambda>_. 10) (\<lambda>_. Some [0]);
        sent = observe step sent_packets (c0, None) events;
        recv = observe step accepted_packets (c0, None) events in
      map (\<lambda>p. unat (ce_PacketSequence p)) sent = [1..<Suc (length sent)] \<and>
      map (\<lambda>p. unat (ce_PacketSequence p)) recv = [1..<Suc (length recv)] \<and> 0 < length recv)"
proof -
  obtain c0 where c0: "newV2Carrier 0 ''c'' 1 v2CarrierClient ''u'' ''d'' test_limits = Inr c0" by (rule sample_carrier)
  have "snd (acceptIncoming 1 (sample_ping 1) c0) = None"
    using newV2Carrier_fields(1) [OF c0]
    by (simp add: sample_ping_def body_envelope_def acceptIncoming_def numbers_def Let_def)
  then have "0 < length (observe (carrier_step (\<lambda>_. 10) (\<lambda>_. Some [0])) accepted_packets (c0, None)
      (CeAccept 1 (sample_ping 1) # es))" for es
    by (simp add: split_beta accepted_packets_def)
  with carrier_packets_in_order [OF c0 refl refl, of "\<lambda>_. 10" "\<lambda>_. Some [0]" None
      "[CeAccept 1 (sample_ping 1), CeEnqueue (sample_ping 0) v2PriorityControl, CeWrite 2 True, CeAccept 3 (sample_ping 1)]"] c0
  show ?thesis unfolding Let_def by blast
qed

text \<open>
  C30. A silent peer is noticed: once the watchdog runs, if from some moment on
  no packet of the peer is accepted, then whatever else happens to the carrier
  it is closed at the latest one millisecond after the heartbeat timeout since
  the last activity, hence within ten minutes and four seconds, and the timer
  expires only a bounded number of times before that.
\<close>

theorem silent_peer_detected:
  assumes "\<not> vc_watched c0" and "cb = run_calls (carrier_step ps marshal) (startWatchdog seconds start c0, b) events"
    and "\<forall>es\<in>set batches. \<forall>e\<in>set es. silent_event e"
    and "T = latest_activity (fst cb) + v2HeartbeatTimeout (watchdog_seconds seconds)"
    and "latest_activity (fst cb) \<le> now" and "now \<le> T + Millisecond"
    and "(T + Millisecond - now) div Millisecond < int (length batches)"
  shows "\<exists>t. watchdog_run ps marshal now cb batches = Some t \<and> t \<le> T + Millisecond \<and>
    t \<le> latest_activity (fst cb) + 604 * Second"
proof -
  have "vc_watched (startWatchdog seconds start c0) \<and>
      vc_heartbeat (startWatchdog seconds start c0) = watchdog_seconds seconds"
    using assms(1) by (simp add: startWatchdog_def)
  then have w: "vc_watched (fst cb)" "vc_heartbeat (fst cb) = watchdog_seconds seconds"
    using watched_run [of "(startWatchdog seconds start c0, b)" ps marshal events] assms(2) by auto
  then have "\<exists>t. watchdog_run ps marshal now cb batches = Some t \<and> t \<le> T + Millisecond"
    using assms by (intro watchdog_run_closes) simp_all
  moreover have "T + Millisecond \<le> latest_activity (fst cb) + 604 * Second"
    using heartbeat_timeout_bounds(2) [of "watchdog_seconds seconds"] watchdog_seconds_bounds [of seconds] assms(4)
    by (simp add: duration_defs)
  ultimately show ?thesis by force
qed

theorem silent_peer_detected_witness:
  "\<exists>c0 t. newV2Carrier 0 ''c'' 1 v2CarrierClient ''u'' ''d'' test_limits = Inr c0 \<and>
     watchdog_run (\<lambda>_. 10) (\<lambda>_. Some [0]) Second (startWatchdog 1 0 c0, None) (replicate 20000 []) = Some t \<and>
     t \<le> 15 * Second + Millisecond"
proof -
  obtain c0 where c0: "newV2Carrier 0 ''c'' 1 v2CarrierClient ''u'' ''d'' test_limits = Inr c0" by (rule sample_carrier)
  note w = newV2Carrier_fields(2) [OF c0]
  define batches :: "carrier_event list list" where "batches = replicate 20000 []"
  have b: "length batches = 20000" "\<forall>es\<in>set batches. \<forall>e\<in>set es. silent_event e"
    unfolding batches_def by (simp_all only: length_replicate set_replicate_conv_if) simp
  have latest: "latest_activity (fst (startWatchdog 1 0 c0, None)) = 0"
    using w by (simp add: latest_activity_def startWatchdog_def)
  have start: "(startWatchdog 1 0 c0, None) = run_calls (carrier_step (\<lambda>_. 10) (\<lambda>_. Some [0])) (startWatchdog 1 0 c0, None) []"
    by simp
  have timeout: "15 * Second = latest_activity (fst (startWatchdog 1 0 c0, None)) + v2HeartbeatTimeout (watchdog_seconds 1)"
    using latest by (simp add: v2HeartbeatTimeout_def watchdog_seconds_def duration_defs)
  have enough: "(15 * Second + Millisecond - Second) div Millisecond < int (length batches)"
    by (simp add: b duration_defs)
  have soon: "latest_activity (fst (startWatchdog 1 0 c0, None)) \<le> Second" "Second \<le> 15 * Second + Millisecond"
    by (simp_all only: latest) (simp_all add: duration_defs)
  from silent_peer_detected [OF w start b(2) timeout soon enough] obtain t where
    "watchdog_run (\<lambda>_. 10) (\<lambda>_. Some [0]) Second (startWatchdog 1 0 c0, None) batches = Some t"
    "t \<le> 15 * Second + Millisecond" by blast
  with c0 show ?thesis unfolding batches_def by blast
qed

end
