(* ===== verification/Route_Registry.thy ===== *)
theory Route_Registry
  imports Relay_Interfaces
begin

text \<open>
  The in-memory route registry of \<open>server/internal/relayrouter/registry.go\<close>:
  which relay connection a device currently has, fenced by the user's
  assignment, the device's grant and the connection epoch. Expired routes are
  removed when they are met; the theory shows that this is not observable
  against a table that drops them at once. Every method holds the mutex
  throughout, so it is one step.
\<close>

subsection \<open>Data\<close>

text \<open>\<open>DeviceStatusOther\<close> stands for every other string, \<open>ErrRouteTTL\<close> for the unnamed TTL error.\<close>

datatype registry_error =
    ErrRouteStoreUnavailable
  | ErrFenceUnavailable
  | ErrAssignmentStale
  | ErrGrantStale
  | ErrConnectionStale
  | ErrRouteNotFound
  | ErrPeerTicketReplay
  | ErrPeerCredentialValidation
  | ErrPeerRouteValidation
  | ErrRouteTTL

datatype DeviceStatus = DeviceActive | DeviceRevoked | DeviceQuarantined | DeviceStatusOther string

record AssignmentFence =
  af_Version :: u64
  af_AllowedCellIDs :: "string list"

record GrantFence =
  gf_Version :: u64
  gf_Status :: DeviceStatus

record Route =
  rt_DeviceID :: string
  rt_UserID :: string
  rt_CellID :: string
  rt_NodeID :: string
  rt_ConnectionID :: string
  rt_ConnectionEpoch :: u64
  rt_AssignmentVersion :: u64
  rt_GrantVersion :: u64
  rt_ProtocolVersion :: u32
  rt_ConnectedAt :: instant
  rt_LastHeartbeatAt :: instant
  rt_ExpiresAt :: instant

record Registry =
  rr_fenceAvailable :: bool
  rr_assignmentFences :: "(string, AssignmentFence) fmap"
  rr_grantFences :: "(string, GrantFence) fmap"
  rr_routes :: "(string, Route) fmap"

subsection \<open>Operations\<close>

definition NewRegistry :: Registry where
  "NewRegistry = \<lparr>rr_fenceAvailable = True, rr_assignmentFences = fmempty, rr_grantFences = fmempty, rr_routes = fmempty\<rparr>"

definition SetFenceAvailable :: "bool \<Rightarrow> Registry \<Rightarrow> Registry" where
  "SetFenceAvailable available r = r\<lparr>rr_fenceAvailable := available\<rparr>"

definition PutAssignmentFence :: "string \<Rightarrow> AssignmentFence \<Rightarrow> Registry \<Rightarrow> Registry" where
  "PutAssignmentFence userID fence r = r\<lparr>rr_assignmentFences := fmupd userID fence (rr_assignmentFences r)\<rparr>"

definition PutGrantFence :: "string \<Rightarrow> GrantFence \<Rightarrow> Registry \<Rightarrow> Registry" where
  "PutGrantFence deviceID fence r = r\<lparr>rr_grantFences := fmupd deviceID fence (rr_grantFences r)\<rparr>"

definition validateFenceLocked :: "Route \<Rightarrow> Registry \<Rightarrow> registry_error option" where
  "validateFenceLocked route r =
     (if \<not> rr_fenceAvailable r then Some ErrFenceUnavailable
      else (case fmlookup (rr_assignmentFences r) (rt_UserID route) of
          None \<Rightarrow> Some ErrAssignmentStale
        | Some assignment \<Rightarrow>
            if af_Version assignment \<noteq> rt_AssignmentVersion route \<or> rt_CellID route \<notin> set (af_AllowedCellIDs assignment)
            then Some ErrAssignmentStale
            else (case fmlookup (rr_grantFences r) (rt_DeviceID route) of
                None \<Rightarrow> Some ErrGrantStale
              | Some grant \<Rightarrow>
                  if gf_Version grant \<noteq> rt_GrantVersion route \<or> gf_Status grant \<noteq> DeviceActive
                  then Some ErrGrantStale else None)))"

definition delete_route :: "string \<Rightarrow> Registry \<Rightarrow> Registry" where
  "delete_route deviceID r = r\<lparr>rr_routes := fmdrop deviceID (rr_routes r)\<rparr>"

definition Register :: "Route \<Rightarrow> duration \<Rightarrow> instant \<Rightarrow> Registry \<Rightarrow> Registry \<times> registry_error option" where
  "Register route ttl now r =
     (case validateFenceLocked route r of
        Some err \<Rightarrow> (r, Some err)
      | None \<Rightarrow>
          if (case fmlookup (rr_routes r) (rt_DeviceID route) of
                None \<Rightarrow> False
              | Some current \<Rightarrow> After (rt_ExpiresAt current) now \<and>
                  rt_ConnectionEpoch route \<le> rt_ConnectionEpoch current)
          then (r, Some ErrConnectionStale)
          else if ttl \<le> 0 then (r, Some ErrRouteTTL)
          else
            (let route = route\<lparr>rt_ConnectedAt := now, rt_LastHeartbeatAt := now, rt_ExpiresAt := now + ttl\<rparr>
             in (r\<lparr>rr_routes := fmupd (rt_DeviceID route) route (rr_routes r)\<rparr>, None)))"

definition Renew ::
  "string \<Rightarrow> string \<Rightarrow> u64 \<Rightarrow> duration \<Rightarrow> instant \<Rightarrow> Registry \<Rightarrow> Registry \<times> registry_error option" where
  "Renew deviceID connectionID epoch ttl now r =
     (case fmlookup (rr_routes r) deviceID of
        None \<Rightarrow> (delete_route deviceID r, Some ErrRouteNotFound)
      | Some current \<Rightarrow>
          if \<not> After (rt_ExpiresAt current) now then (delete_route deviceID r, Some ErrRouteNotFound)
          else if rt_ConnectionID current \<noteq> connectionID \<or> rt_ConnectionEpoch current \<noteq> epoch
          then (r, Some ErrConnectionStale)
          else (case validateFenceLocked current r of
              Some err \<Rightarrow> (delete_route deviceID r, Some err)
            | None \<Rightarrow>
                if ttl \<le> 0 then (r, Some ErrRouteTTL)
                else
                  (let current = current\<lparr>rt_LastHeartbeatAt := now, rt_ExpiresAt := now + ttl\<rparr>
                   in (r\<lparr>rr_routes := fmupd deviceID current (rr_routes r)\<rparr>, None))))"

definition Resolve :: "string \<Rightarrow> instant \<Rightarrow> Registry \<Rightarrow> Registry \<times> (registry_error + Route)" where
  "Resolve deviceID now r =
     (case fmlookup (rr_routes r) deviceID of
        None \<Rightarrow> (delete_route deviceID r, Inl ErrRouteNotFound)
      | Some current \<Rightarrow>
          if \<not> After (rt_ExpiresAt current) now then (delete_route deviceID r, Inl ErrRouteNotFound)
          else (case validateFenceLocked current r of
              Some err \<Rightarrow> (delete_route deviceID r, Inl err)
            | None \<Rightarrow> (r, Inr current)))"

definition CompareAndDelete :: "string \<Rightarrow> string \<Rightarrow> u64 \<Rightarrow> Registry \<Rightarrow> Registry \<times> bool" where
  "CompareAndDelete deviceID connectionID epoch r =
     (case fmlookup (rr_routes r) deviceID of
        None \<Rightarrow> (r, False)
      | Some current \<Rightarrow>
          if rt_ConnectionID current \<noteq> connectionID \<or> rt_ConnectionEpoch current \<noteq> epoch then (r, False)
          else (delete_route deviceID r, True))"

definition Registry_Snapshot :: "instant \<Rightarrow> Registry \<Rightarrow> Registry \<times> (string, Route) fmap" where
  "Registry_Snapshot now r =
     (let routes = fmkeep (\<lambda>deviceID route. After (rt_ExpiresAt route) now) (rr_routes r)
      in (r\<lparr>rr_routes := routes\<rparr>, routes))"

subsection \<open>Histories\<close>

datatype registry_call =
    CallSetFence bool
  | CallPutAssignment string AssignmentFence
  | CallPutGrant string GrantFence
  | CallRegister Route duration instant
  | CallRenew string string u64 duration instant
  | CallResolve string instant
  | CallDelete string string u64
  | CallSnapshot instant

datatype registry_result =
    ResultUnit
  | ResultError "registry_error option"
  | ResultRoute "registry_error + Route"
  | ResultBool bool
  | ResultRoutes "(string, Route) fmap"

fun registry_step :: "Registry \<Rightarrow> registry_call \<Rightarrow> Registry \<times> registry_result" where
  "registry_step r (CallSetFence a) = (SetFenceAvailable a r, ResultUnit)"
| "registry_step r (CallPutAssignment u f) = (PutAssignmentFence u f r, ResultUnit)"
| "registry_step r (CallPutGrant d f) = (PutGrantFence d f r, ResultUnit)"
| "registry_step r (CallRegister route ttl now) = apsnd ResultError (Register route ttl now r)"
| "registry_step r (CallRenew d c e ttl now) = apsnd ResultError (Renew d c e ttl now r)"
| "registry_step r (CallResolve d now) = apsnd ResultRoute (Resolve d now r)"
| "registry_step r (CallDelete d c e) = apsnd ResultBool (CompareAndDelete d c e r)"
| "registry_step r (CallSnapshot now) = apsnd ResultRoutes (Registry_Snapshot now r)"

fun call_time :: "registry_call \<Rightarrow> instant option" where
  "call_time (CallRegister route ttl now) = Some now"
| "call_time (CallRenew d c e ttl now) = Some now"
| "call_time (CallResolve d now) = Some now"
| "call_time (CallSnapshot now) = Some now"
| "call_time _ = None"

text \<open>What was last written before now, read off the history alone.\<close>

definition last_grant :: "string \<Rightarrow> registry_call list \<Rightarrow> GrantFence option" where
  "last_grant d calls =
     fold (\<lambda>c g. case c of CallPutGrant d' f \<Rightarrow> if d' = d then Some f else g | _ \<Rightarrow> g) calls None"

definition last_assignment :: "string \<Rightarrow> registry_call list \<Rightarrow> AssignmentFence option" where
  "last_assignment u calls =
     fold (\<lambda>c g. case c of CallPutAssignment u' f \<Rightarrow> if u' = u then Some f else g | _ \<Rightarrow> g) calls None"

abbreviation registry_run :: "Registry \<Rightarrow> registry_call list \<Rightarrow> Registry" where
  "registry_run \<equiv> run_calls registry_step"

named_theorems registry_ops \<open>definitions of the registry's operations\<close>

declare SetFenceAvailable_def [registry_ops] PutAssignmentFence_def [registry_ops] PutGrantFence_def [registry_ops]
  Register_def [registry_ops] Renew_def [registry_ops] Resolve_def [registry_ops] CompareAndDelete_def [registry_ops]
  Registry_Snapshot_def [registry_ops] delete_route_def [registry_ops]

text \<open>Each call changes the fences as its name says, and stores a route under its own device.\<close>

definition routes_ok :: "Registry \<Rightarrow> bool" where
  "routes_ok r \<longleftrightarrow> (\<forall>d route. fmlookup (rr_routes r) d = Some route \<longrightarrow>
     rt_DeviceID route = d \<and> rt_LastHeartbeatAt route < rt_ExpiresAt route)"

lemma step_routes_ok: "routes_ok r \<Longrightarrow> routes_ok (fst (registry_step r c))"
  by (cases c) (auto simp: registry_ops routes_ok_def Let_def split: option.splits if_splits)

lemma step_grants:
  "rr_grantFences (fst (registry_step r c)) =
     (case c of CallPutGrant d f \<Rightarrow> fmupd d f (rr_grantFences r) | _ \<Rightarrow> rr_grantFences r)"
  by (cases c) (auto simp: registry_ops Let_def split: option.splits)

lemma step_assignments:
  "rr_assignmentFences (fst (registry_step r c)) =
     (case c of CallPutAssignment u f \<Rightarrow> fmupd u f (rr_assignmentFences r) | _ \<Rightarrow> rr_assignmentFences r)"
  by (cases c) (auto simp: registry_ops Let_def split: option.splits)

lemma run_fences:
  "fmlookup (rr_grantFences (registry_run NewRegistry calls)) d = last_grant d calls \<and>
   fmlookup (rr_assignmentFences (registry_run NewRegistry calls)) u = last_assignment u calls"
proof (induction calls rule: rev_induct)
  case (snoc c calls)
  then show ?case
    by (simp add: run_calls_append step_grants step_assignments last_grant_def last_assignment_def
        split: registry_call.split)
qed (simp add: NewRegistry_def last_grant_def last_assignment_def)

lemma run_routes_ok: "routes_ok (registry_run NewRegistry calls)"
proof (rule run_calls_invariant [where ok = routes_ok])
  show "routes_ok NewRegistry" by (simp add: routes_ok_def NewRegistry_def)
qed (rule step_routes_ok)

lemma fence_passes:
  "validateFenceLocked route r = None \<longleftrightarrow>
     rr_fenceAvailable r \<and>
     (\<exists>a. fmlookup (rr_assignmentFences r) (rt_UserID route) = Some a \<and> af_Version a = rt_AssignmentVersion route \<and>
       rt_CellID route \<in> set (af_AllowedCellIDs a)) \<and>
     fmlookup (rr_grantFences r) (rt_DeviceID route) =
       Some \<lparr>gf_Version = rt_GrantVersion route, gf_Status = DeviceActive\<rparr>"
  by (auto simp: validateFenceLocked_def split: option.splits)

lemma fence_routes [simp]: "validateFenceLocked route (r\<lparr>rr_routes := m\<rparr>) = validateFenceLocked route r"
  by (auto simp: validateFenceLocked_def split: option.splits)

text \<open>The connection of a route: all that is registered, without the three instants.\<close>

definition connection_of :: "Route \<Rightarrow> Route" where
  "connection_of route = route\<lparr>rt_ConnectedAt := 0, rt_LastHeartbeatAt := 0, rt_ExpiresAt := 0\<rparr>"

definition registered_in :: "registry_call list \<Rightarrow> Route \<Rightarrow> bool" where
  "registered_in calls route \<longleftrightarrow>
     (\<exists>c\<in>set calls. case c of CallRegister route' ttl now \<Rightarrow> connection_of route' = connection_of route | _ \<Rightarrow> False)"

lemma connection_of_upd [simp]:
  "connection_of (route\<lparr>rt_ConnectedAt := x\<rparr>) = connection_of route"
  "connection_of (route\<lparr>rt_LastHeartbeatAt := x\<rparr>) = connection_of route"
  "connection_of (route\<lparr>rt_ExpiresAt := x\<rparr>) = connection_of route"
  by (simp_all add: connection_of_def)

lemma step_stored:
  assumes "fmlookup (rr_routes (fst (registry_step r c))) d = Some route"
  shows "(\<exists>old. fmlookup (rr_routes r) d = Some old \<and> connection_of old = connection_of route) \<or>
    (\<exists>new ttl now. c = CallRegister new ttl now \<and> connection_of new = connection_of route)"
  using assms
  by (cases c) (auto simp: registry_ops Let_def split: option.splits if_splits)

lemma run_stored:
  "fmlookup (rr_routes (registry_run NewRegistry calls)) d = Some route \<Longrightarrow> registered_in calls route"
proof (induction calls arbitrary: route rule: rev_induct)
  case (snoc c calls)
  from snoc.prems have "fmlookup (rr_routes (fst (registry_step (registry_run NewRegistry calls) c))) d = Some route"
    by (simp add: run_calls_append)
  then show ?case
  proof (cases rule: disjE [OF step_stored, consumes 1])
    case 1
    then obtain old where old: "registered_in calls old" and eq: "connection_of old = connection_of route"
      using snoc.IH by blast
    from old have "registered_in calls route" unfolding registered_in_def eq .
    then show ?thesis by (auto simp: registered_in_def)
  next
    case 2
    then show ?thesis by (auto simp: registered_in_def)
  qed
qed (simp add: NewRegistry_def)

lemma resolve_result:
  assumes "snd (Resolve d now r) = Inr route"
  shows "fmlookup (rr_routes r) d = Some route" and "now < rt_ExpiresAt route" and "validateFenceLocked route r = None"
  using assms by (auto simp: Resolve_def split: option.splits if_splits)

subsection \<open>A newer connection is out of reach of an older one\<close>

text \<open>Calls that are not made for the connection \<open>new\<close>, before it expires and with its fences as they are.\<close>

fun other_call :: "Route \<Rightarrow> registry_call \<Rightarrow> bool" where
  "other_call new (CallSetFence a) \<longleftrightarrow> a"
| "other_call new (CallPutAssignment u f) \<longleftrightarrow> u \<noteq> rt_UserID new"
| "other_call new (CallPutGrant d f) \<longleftrightarrow> d \<noteq> rt_DeviceID new"
| "other_call new (CallRegister route ttl now) \<longleftrightarrow> now < rt_ExpiresAt new \<and>
     (rt_DeviceID route = rt_DeviceID new \<longrightarrow> rt_ConnectionEpoch route \<le> rt_ConnectionEpoch new)"
| "other_call new (CallRenew d c e ttl now) \<longleftrightarrow> now < rt_ExpiresAt new \<and>
     (d = rt_DeviceID new \<longrightarrow> c \<noteq> rt_ConnectionID new \<or> e \<noteq> rt_ConnectionEpoch new)"
| "other_call new (CallResolve d now) \<longleftrightarrow> now < rt_ExpiresAt new"
| "other_call new (CallDelete d c e) \<longleftrightarrow>
     (d = rt_DeviceID new \<longrightarrow> c \<noteq> rt_ConnectionID new \<or> e \<noteq> rt_ConnectionEpoch new)"
| "other_call new (CallSnapshot now) \<longleftrightarrow> now < rt_ExpiresAt new"

definition holds_route :: "Route \<Rightarrow> Registry \<Rightarrow> bool" where
  "holds_route new r \<longleftrightarrow> fmlookup (rr_routes r) (rt_DeviceID new) = Some new \<and> validateFenceLocked new r = None"

lemma other_fence:
  assumes "other_call new c" and "validateFenceLocked new r = None"
  shows "validateFenceLocked new (fst (registry_step r c)) = None"
proof -
  have available: "rr_fenceAvailable (fst (registry_step r c)) = (case c of CallSetFence a \<Rightarrow> a | _ \<Rightarrow> rr_fenceAvailable r)"
    by (cases c) (auto simp: registry_ops Let_def split: option.splits)
  have "rr_fenceAvailable r" using assms(2) by (simp add: fence_passes)
  then have "rr_fenceAvailable (fst (registry_step r c)) = rr_fenceAvailable r"
    unfolding available using assms(1) by (cases c) simp_all
  moreover have "fmlookup (rr_grantFences (fst (registry_step r c))) (rt_DeviceID new) = fmlookup (rr_grantFences r) (rt_DeviceID new)"
    unfolding step_grants using assms(1) by (cases c) simp_all
  moreover have "fmlookup (rr_assignmentFences (fst (registry_step r c))) (rt_UserID new) = fmlookup (rr_assignmentFences r) (rt_UserID new)"
    unfolding step_assignments using assms(1) by (cases c) simp_all
  ultimately show ?thesis using assms(2) unfolding fence_passes by simp
qed

lemma other_step: "other_call new c \<Longrightarrow> holds_route new r \<Longrightarrow> holds_route new (fst (registry_step r c))"
proof -
  assume c: "other_call new c" and r: "holds_route new r"
  have new: "fmlookup (rr_routes r) (rt_DeviceID new) = Some new" and valid: "validateFenceLocked new r = None"
    using r by (simp_all add: holds_route_def)
  have "fmlookup (rr_routes (fst (registry_step r c))) (rt_DeviceID new) = Some new"
  proof (cases c)
    case (CallRegister route ttl now)
    with c new show ?thesis
      by (cases "rt_DeviceID route = rt_DeviceID new") (simp_all add: Register_def Let_def split: option.split)
  next
    case (CallRenew d i e ttl now)
    with c new show ?thesis
      by (cases "d = rt_DeviceID new") (auto simp: Renew_def Let_def delete_route_def split: option.split)
  next
    case (CallResolve d now)
    with c new valid show ?thesis
      by (cases "d = rt_DeviceID new") (simp_all add: Resolve_def delete_route_def split: option.split)
  next
    case (CallDelete d i e)
    with c new show ?thesis
      by (cases "d = rt_DeviceID new") (auto simp: CompareAndDelete_def delete_route_def split: option.split)
  next
    case (CallSnapshot now)
    with c new show ?thesis by (simp add: Registry_Snapshot_def Let_def)
  qed (use new in \<open>simp_all add: registry_ops\<close>)
  with other_fence [OF c] r show ?thesis by (simp add: holds_route_def)
qed

lemma other_run: "holds_route new r \<Longrightarrow> \<forall>c\<in>set calls. other_call new c \<Longrightarrow> holds_route new (registry_run r calls)"
  by (induction calls arbitrary: r) (simp_all add: other_step)

subsection \<open>Expiry at once\<close>

text \<open>
  The table a reader would expect: every timed call first drops what has
  expired by then.
\<close>

definition purge :: "instant \<Rightarrow> Registry \<Rightarrow> Registry" where
  "purge now r = r\<lparr>rr_routes := fmkeep (\<lambda>deviceID route. After (rt_ExpiresAt route) now) (rr_routes r)\<rparr>"

definition eager_step :: "Registry \<Rightarrow> registry_call \<Rightarrow> Registry \<times> registry_result" where
  "eager_step r c = (case call_time c of None \<Rightarrow> registry_step r c | Some now \<Rightarrow> registry_step (purge now r) c)"

fun in_order :: "instant \<Rightarrow> registry_call list \<Rightarrow> bool" where
  "in_order t [] \<longleftrightarrow> True"
| "in_order t (c # cs) \<longleftrightarrow>
     (case call_time c of None \<Rightarrow> in_order t cs | Some now \<Rightarrow> t \<le> now \<and> in_order now cs)"

text \<open>The time of the last timed call.\<close>

fun last_time :: "instant \<Rightarrow> registry_call list \<Rightarrow> instant" where
  "last_time t [] = t"
| "last_time t (c # cs) = last_time (case call_time c of None \<Rightarrow> t | Some now \<Rightarrow> now) cs"

text \<open>
  The call that can tell the two apart: \<open>CompareAndDelete\<close>, which reads no
  clock, meets the connection it names in a route that has expired and that no
  call has removed.
\<close>

definition deletes_expired :: "instant \<Rightarrow> Registry \<Rightarrow> registry_call \<Rightarrow> bool" where
  "deletes_expired t r c \<longleftrightarrow>
     (case c of
        CallDelete d i e \<Rightarrow>
          (case fmlookup (rr_routes r) d of
             None \<Rightarrow> False
           | Some route \<Rightarrow> rt_ConnectionID route = i \<and> rt_ConnectionEpoch route = e \<and> rt_ExpiresAt route \<le> t)
      | _ \<Rightarrow> False)"

lemma purge_lookup [simp]:
  "fmlookup (rr_routes (purge t r)) d =
     (case fmlookup (rr_routes r) d of None \<Rightarrow> None
      | Some route \<Rightarrow> if t < rt_ExpiresAt route then Some route else None)"
  by (simp add: purge_def)

lemma purge_fields [simp]:
  "rr_fenceAvailable (purge t r) = rr_fenceAvailable r" "rr_assignmentFences (purge t r) = rr_assignmentFences r"
  "rr_grantFences (purge t r) = rr_grantFences r" "validateFenceLocked route (purge t r) = validateFenceLocked route r"
  by (simp_all add: purge_def)

lemma registry_eqI:
  fixes r s :: Registry
  assumes "rr_fenceAvailable r = rr_fenceAvailable s" and "rr_assignmentFences r = rr_assignmentFences s"
    and "rr_grantFences r = rr_grantFences s" and "\<And>d. fmlookup (rr_routes r) d = fmlookup (rr_routes s) d"
  shows "r = s"
  using assms by (intro Registry.equality fmap_ext) simp_all

lemma purge_purge: "t \<le> t' \<Longrightarrow> purge t' (purge t r) = purge t' r"
  by (rule registry_eqI) (auto split: option.split)

lemma timed_step:
  assumes "call_time c = Some now"
  shows "snd (registry_step (purge now r) c) = snd (registry_step r c)"
    and "purge now (fst (registry_step (purge now r) c)) = purge now (fst (registry_step r c))"
    and "purge now (fst (registry_step (purge now r) c)) = fst (registry_step (purge now r) c)"
proof -
  have "snd (registry_step (purge now r) c) = snd (registry_step r c) \<and>
    purge now (fst (registry_step (purge now r) c)) = purge now (fst (registry_step r c)) \<and>
    purge now (fst (registry_step (purge now r) c)) = fst (registry_step (purge now r) c)"
    (is "?A \<and> ?B \<and> ?C")
  proof (intro conjI)
    show ?A
      using assms by (cases c) (auto simp: registry_ops Let_def purge_def split: option.splits intro!: fmap_ext)
    show ?B
      using assms by (cases c)
        (auto simp: registry_ops Let_def split: option.splits intro!: registry_eqI)
    show ?C
      using assms by (cases c)
        (auto simp: registry_ops Let_def split: option.splits intro!: registry_eqI)
  qed
  then show "snd (registry_step (purge now r) c) = snd (registry_step r c)"
    and "purge now (fst (registry_step (purge now r) c)) = purge now (fst (registry_step r c))"
    and "purge now (fst (registry_step (purge now r) c)) = fst (registry_step (purge now r) c)" by auto
qed

lemma untimed_step:
  assumes "call_time c = None"
  shows "snd (registry_step (purge t r) c) = (if deletes_expired t r c then ResultBool False else snd (registry_step r c))"
    and "deletes_expired t r c \<Longrightarrow> snd (registry_step r c) = ResultBool True"
    and "purge t (fst (registry_step (purge t r) c)) = purge t (fst (registry_step r c))"
    and "purge t (fst (registry_step (purge t r) c)) = fst (registry_step (purge t r) c)"
proof -
  show "snd (registry_step (purge t r) c) = (if deletes_expired t r c then ResultBool False else snd (registry_step r c))"
    using assms by (cases c) (auto simp: deletes_expired_def registry_ops not_less split: option.splits)
  show "deletes_expired t r c \<Longrightarrow> snd (registry_step r c) = ResultBool True"
    using assms by (cases c) (auto simp: deletes_expired_def registry_ops split: option.splits)
  show "purge t (fst (registry_step (purge t r) c)) = purge t (fst (registry_step r c))"
    using assms by (cases c) (auto simp: registry_ops split: option.splits intro!: registry_eqI)
  show "purge t (fst (registry_step (purge t r) c)) = fst (registry_step (purge t r) c)"
    using assms by (cases c) (auto simp: registry_ops split: option.splits intro!: registry_eqI)
qed

text \<open>The simulation: what has not expired is the same in the lazy and the eager table.\<close>

abbreviation eager_run :: "Registry \<Rightarrow> registry_call list \<Rightarrow> Registry" where
  "eager_run \<equiv> run_calls eager_step"

lemma eager_simulates:
  "in_order t calls \<Longrightarrow> purge t r = s \<Longrightarrow> purge t s = s \<Longrightarrow>
     purge (last_time t calls) (registry_run r calls) = eager_run s calls \<and>
     purge (last_time t calls) (eager_run s calls) = eager_run s calls"
proof (induction calls arbitrary: t r s)
  case (Cons c calls)
  show ?case
  proof (cases "call_time c")
    case None
    have step: "eager_step s c = registry_step (purge t r) c" using None Cons.prems by (simp add: eager_step_def)
    note u = untimed_step [OF None, of t r]
    have "in_order t calls" using Cons.prems(1) None by simp
    from Cons.IH [OF this, of "fst (registry_step r c)" "fst (eager_step s c)"] show ?thesis
      using u by (simp add: step None)
  next
    case (Some now)
    then have le: "t \<le> now" and rest: "in_order now calls" using Cons.prems by simp_all
    have "purge now s = purge now r" using purge_purge [OF le, of r] Cons.prems(2) by simp
    then have step: "eager_step s c = registry_step (purge now r) c" using Some by (simp add: eager_step_def)
    note u = timed_step [OF Some, of r]
    from Cons.IH [OF rest, of "fst (registry_step r c)" "fst (eager_step s c)"] show ?thesis
      using u by (simp add: step Some)
  qed
qed simp

lemma in_order_append: "in_order t (cs @ ds) \<longleftrightarrow> in_order t cs \<and> in_order (last_time t cs) ds"
  by (induction cs arbitrary: t) (auto split: option.split)

lemma eager_answers:
  assumes "purge t r = s" and "in_order t [c]"
  shows "snd (eager_step s c) = (if deletes_expired t r c then ResultBool False else snd (registry_step r c))"
proof (cases "call_time c")
  case None
  then show ?thesis using untimed_step(1) [OF None, of t r] assms(1) by (simp add: eager_step_def)
next
  case (Some now)
  then have "purge now s = purge now r" using purge_purge [of t now r] assms by simp
  moreover have "\<not> deletes_expired t r c" using Some by (cases c) (simp_all add: deletes_expired_def)
  ultimately show ?thesis using timed_step(1) [OF Some, of r] Some by (simp add: eager_step_def)
qed

subsection \<open>Properties\<close>

text \<open>
  C18. A resolved route is current: whatever was called before, the route
  \<open>Resolve\<close> returns for a device is that device's, has not expired, was put
  there by a registration of exactly this connection, and is authorised by
  what was last written of its user's assignment (version and cell) and of its
  device's grant (version, active); a revoked or newer grant lets none through.
\<close>

theorem resolved_route_current:
  assumes "snd (Resolve d now (registry_run NewRegistry calls)) = Inr route"
  shows "rt_DeviceID route = d \<and> now < rt_ExpiresAt route \<and> registered_in calls route \<and>
    last_grant d calls = Some \<lparr>gf_Version = rt_GrantVersion route, gf_Status = DeviceActive\<rparr> \<and>
    (\<exists>a. last_assignment (rt_UserID route) calls = Some a \<and> af_Version a = rt_AssignmentVersion route \<and>
       rt_CellID route \<in> set (af_AllowedCellIDs a))"
proof -
  note res = resolve_result [OF assms]
  have d: "rt_DeviceID route = d" using res(1) run_routes_ok [of calls] by (simp add: routes_ok_def)
  moreover have "registered_in calls route" by (rule run_stored [OF res(1)])
  ultimately show ?thesis
    using res(2) res(3) [unfolded fence_passes] run_fences [of calls d "rt_UserID route"] by simp
qed

definition sample_route :: "string \<Rightarrow> u64 \<Rightarrow> Route" where
  "sample_route c epoch = \<lparr>rt_DeviceID = ''d'', rt_UserID = ''u'', rt_CellID = ''x'', rt_NodeID = ''n'',
     rt_ConnectionID = c, rt_ConnectionEpoch = epoch, rt_AssignmentVersion = 1, rt_GrantVersion = 1,
     rt_ProtocolVersion = 2, rt_ConnectedAt = 0, rt_LastHeartbeatAt = 0, rt_ExpiresAt = 0\<rparr>"

definition sample_calls :: "registry_call list" where
  "sample_calls = [CallPutAssignment ''u'' \<lparr>af_Version = 1, af_AllowedCellIDs = [''x'']\<rparr>,
     CallPutGrant ''d'' \<lparr>gf_Version = 1, gf_Status = DeviceActive\<rparr>, CallRegister (sample_route ''c'' 1) 10 5]"

lemma sample_holds:
  "holds_route ((sample_route ''c'' 1)\<lparr>rt_ConnectedAt := 5, rt_LastHeartbeatAt := 5, rt_ExpiresAt := 15\<rparr>)
     (registry_run NewRegistry sample_calls)"
  by (simp add: sample_calls_def sample_route_def holds_route_def validateFenceLocked_def NewRegistry_def
      PutAssignmentFence_def PutGrantFence_def Register_def)

theorem resolved_route_current_witness:
  "\<exists>route. snd (Resolve ''d'' 7 (registry_run NewRegistry sample_calls)) = Inr route \<and>
     registered_in sample_calls route \<and> rt_ExpiresAt route = 15"
proof -
  have "snd (Resolve ''d'' 7 (registry_run NewRegistry sample_calls))
      = Inr ((sample_route ''c'' 1)\<lparr>rt_ConnectedAt := 5, rt_LastHeartbeatAt := 5, rt_ExpiresAt := 15\<rparr>)"
    using sample_holds by (simp add: Resolve_def holds_route_def sample_route_def)
  from this resolved_route_current [OF this] show ?thesis by auto
qed

text \<open>
  C25. An older connection cannot reach its successor: after a successful
  registration, any renewals and deletions made for other connections of the
  device, any registrations with an older or equal epoch and any lookups leave
  the new route in place until it expires, so it is what \<open>Resolve\<close> returns.
\<close>

theorem newer_connection_kept:
  assumes "Register route ttl now (registry_run NewRegistry calls) = (r, None)"
    and "new = route\<lparr>rt_ConnectedAt := now, rt_LastHeartbeatAt := now, rt_ExpiresAt := now + ttl\<rparr>"
    and "\<forall>c\<in>set later. other_call new c"
    and "t < now + ttl"
  shows "snd (Resolve (rt_DeviceID route) t (registry_run r later)) = Inr new"
proof -
  have "holds_route new r"
    using assms(1) unfolding assms(2)
    by (auto simp: Register_def Let_def holds_route_def fence_passes split: option.splits if_splits)
  then have "holds_route new (registry_run r later)" using assms(3) by (rule other_run)
  with assms(2,4) show ?thesis by (auto simp: Resolve_def holds_route_def)
qed

theorem newer_connection_kept_witness:
  "\<exists>r. Register (sample_route ''c2'' 2) 10 6 (registry_run NewRegistry sample_calls) = (r, None) \<and>
     (\<exists>new. snd (Resolve ''d'' 9 (registry_run r [CallRenew ''d'' ''c'' 1 10 7, CallDelete ''d'' ''c'' 1,
        CallRegister (sample_route ''c'' 1) 10 8])) = Inr new \<and> rt_ConnectionID new = ''c2'')"
proof -
  have "\<exists>r. Register (sample_route ''c2'' 2) 10 6 (registry_run NewRegistry sample_calls) = (r, None)"
  proof -
    have "validateFenceLocked (sample_route ''c2'' 2) (registry_run NewRegistry sample_calls) = None"
      using sample_holds by (simp add: holds_route_def fence_passes sample_route_def)
    moreover have "fmlookup (rr_routes (registry_run NewRegistry sample_calls)) (rt_DeviceID (sample_route ''c2'' 2))
        = Some ((sample_route ''c'' 1)\<lparr>rt_ConnectedAt := 5, rt_LastHeartbeatAt := 5, rt_ExpiresAt := 15\<rparr>)"
      using sample_holds by (simp add: holds_route_def sample_route_def)
    moreover have "\<not> (2 :: u64) \<le> 1" by (simp add: word_le_nat_alt)
    ultimately show ?thesis by (simp add: Register_def Let_def) (simp add: sample_route_def)
  qed
  then obtain r where r: "Register (sample_route ''c2'' 2) 10 6 (registry_run NewRegistry sample_calls) = (r, None)" by blast
  have dev: "rt_DeviceID (sample_route ''c2'' 2) = ''d''" by (simp add: sample_route_def)
  from newer_connection_kept [OF r refl, of "[CallRenew ''d'' ''c'' 1 10 7, CallDelete ''d'' ''c'' 1,
      CallRegister (sample_route ''c'' 1) 10 8]" 9] r
  show ?thesis by (simp add: sample_route_def)
qed

text \<open>
  C31. Routes are removed only when they are met, and that shows in one place.
  Beside the registry runs a table that drops every route at the moment it
  expires; after any calls in the order of their times it holds just the routes
  of the registry that have not expired, and the next call gets the same answer
  from both, unless it is a \<open>CompareAndDelete\<close> whose route has expired and is
  still there: then the registry answers that it deleted it, and the table that
  there was none.
\<close>

theorem lazy_expiry_refines_eager:
  fixes calls :: "registry_call list" and t :: instant
  defines "r \<equiv> registry_run NewRegistry calls" and "s \<equiv> eager_run NewRegistry calls" and "now \<equiv> last_time t calls"
  assumes "in_order t (calls @ [c])"
  shows "s = purge now r \<and>
    (if deletes_expired now r c then snd (registry_step r c) = ResultBool True \<and> snd (eager_step s c) = ResultBool False
     else snd (registry_step r c) = snd (eager_step s c))"
proof -
  have o: "in_order t calls" "in_order now [c]" using assms(4) by (simp_all add: in_order_append now_def)
  have "purge t NewRegistry = NewRegistry" by (rule registry_eqI) (simp_all add: NewRegistry_def)
  then have p: "purge now r = s" using eager_simulates [OF o(1)] by (simp add: now_def r_def s_def)
  have "deletes_expired now r c \<Longrightarrow> call_time c = None" by (cases c) (simp_all add: deletes_expired_def)
  then show ?thesis using eager_answers [OF p o(2)] untimed_step(2) [of c now r] p by auto
qed

theorem lazy_expiry_refines_eager_witness:
  "snd (registry_step (registry_run NewRegistry (sample_calls @ [CallResolve ''e'' 20])) (CallDelete ''d'' ''c'' 1)) = ResultBool True \<and>
   snd (eager_step (eager_run NewRegistry (sample_calls @ [CallResolve ''e'' 20])) (CallDelete ''d'' ''c'' 1)) = ResultBool False"
proof -
  let ?calls = "sample_calls @ [CallResolve ''e'' 20]"
  have "in_order 0 (?calls @ [CallDelete ''d'' ''c'' 1])" and now: "last_time 0 ?calls = 20"
    by (simp_all add: sample_calls_def)
  note answers = conjunct2 [OF lazy_expiry_refines_eager [OF this(1), unfolded now]]
  have "fmlookup (rr_routes (registry_run NewRegistry ?calls)) ''d''
      = Some ((sample_route ''c'' 1)\<lparr>rt_ConnectedAt := 5, rt_LastHeartbeatAt := 5, rt_ExpiresAt := 15\<rparr>)"
    using sample_holds by (simp add: run_calls_append holds_route_def Resolve_def delete_route_def sample_route_def split: option.split)
  then have "deletes_expired 20 (registry_run NewRegistry ?calls) (CallDelete ''d'' ''c'' 1)"
    by (simp add: deletes_expired_def sample_route_def)
  with answers show ?thesis by (simp only: if_True)
qed

end
