(* ===== verification/Base64url.thy ===== *)
theory Base64url
  imports Relay_Prelude
begin

text \<open>
  What the server uses of Go's \<open>encoding/base64\<close> and \<open>strings.Split\<close>:
  \<open>base64.RawURLEncoding\<close>, the URL alphabet without padding, as an encoder and
  as a decoder, the latter also in its \<open>Strict\<close> mode, which rejects a last
  character with bits that are not used. The decoder ignores line breaks.
\<close>

subsection \<open>The alphabet\<close>

definition b64_alphabet :: string where
  "b64_alphabet = ''ABCDEFGHIJKLMNOPQRSTUVWXYZabcdefghijklmnopqrstuvwxyz0123456789-_''"

definition b64_char :: "nat \<Rightarrow> char" where
  "b64_char n = b64_alphabet ! n"

fun index_of :: "char \<Rightarrow> string \<Rightarrow> nat option" where
  "index_of c [] = None"
| "index_of c (d # ds) = (if c = d then Some 0 else map_option Suc (index_of c ds))"

definition b64_index :: "char \<Rightarrow> nat option" where
  "b64_index c = index_of c b64_alphabet"

lemma b64_alphabet_length [simp]: "length b64_alphabet = 64"
  by (simp add: b64_alphabet_def)

lemma b64_alphabet_distinct: "distinct b64_alphabet"
  by (simp add: b64_alphabet_def)

lemma index_of_nth: "distinct ds \<Longrightarrow> n < length ds \<Longrightarrow> index_of (ds ! n) ds = Some n"
  by (induction ds arbitrary: n) (auto simp: nth_Cons split: nat.split)

lemma index_of_Some: "index_of c ds = Some n \<Longrightarrow> n < length ds \<and> ds ! n = c"
  by (induction ds arbitrary: n) (auto split: if_splits)

lemma b64_index_char [simp]: "n < 64 \<Longrightarrow> b64_index (b64_char n) = Some n"
  unfolding b64_index_def b64_char_def by (rule index_of_nth) (simp_all add: b64_alphabet_distinct)

lemma b64_index_Some: "b64_index c = Some n \<Longrightarrow> n < 64 \<and> b64_char n = c"
  using index_of_Some [of c b64_alphabet n] by (simp add: b64_index_def b64_char_def)

text \<open>No character of the alphabet is a line break or the dot between the parts of a token.\<close>

lemma b64_alphabet_others: "set b64_alphabet \<inter> {CHR 0x0A, CHR 0x0D, CHR ''.''} = {}"
  by (simp add: b64_alphabet_def)

lemma b64_char_others: "n < 64 \<Longrightarrow> b64_char n \<notin> {CHR 0x0A, CHR 0x0D, CHR ''.''}"
proof -
  assume "n < 64"
  then have "b64_char n \<in> set b64_alphabet" unfolding b64_char_def by (intro nth_mem) simp
  then show ?thesis using b64_alphabet_others by auto
qed

subsection \<open>Encoding and decoding\<close>

fun sextets :: "bytes \<Rightarrow> nat list" where
  "sextets [] = []"
| "sextets [a] = [unat a div 4, (unat a mod 4) * 16]"
| "sextets [a, b] = [unat a div 4, (unat a mod 4) * 16 + unat b div 16, (unat b mod 16) * 4]"
| "sextets (a # b # c # rest) =
     [unat a div 4, (unat a mod 4) * 16 + unat b div 16, (unat b mod 16) * 4 + unat c div 64, unat c mod 64] @ sextets rest"

fun octets :: "bool \<Rightarrow> nat list \<Rightarrow> bytes option" where
  "octets strict [] = Some []"
| "octets strict [w] = None"
| "octets strict [w, x] =
     (if strict \<and> x mod 16 \<noteq> 0 then None else Some [word_of_nat (w * 4 + x div 16)])"
| "octets strict [w, x, y] =
     (if strict \<and> y mod 4 \<noteq> 0 then None
      else Some [word_of_nat (w * 4 + x div 16), word_of_nat ((x mod 16) * 16 + y div 4)])"
| "octets strict (w # x # y # z # rest) =
     map_option (\<lambda>bs. [word_of_nat (w * 4 + x div 16), word_of_nat ((x mod 16) * 16 + y div 4),
       word_of_nat ((y mod 4) * 64 + z)] @ bs) (octets strict rest)"

definition EncodeToString :: "bytes \<Rightarrow> string" where
  "EncodeToString bs = map b64_char (sextets bs)"

definition DecodeString :: "bool \<Rightarrow> string \<Rightarrow> bytes option" where
  "DecodeString strict s =
     (case those (map b64_index (filter (\<lambda>c. c \<noteq> CHR 0x0A \<and> c \<noteq> CHR 0x0D) s)) of
        None \<Rightarrow> None
      | Some xs \<Rightarrow> octets strict xs)"

lemma unat_byte: "unat (a :: 8 word) < 256"
  using unsigned_less [of a] by simp

lemma unat_of_byte: "n < 256 \<Longrightarrow> unat (word_of_nat n :: 8 word) = n"
  by (simp add: unsigned_of_nat take_bit_nat_eq_self)

lemma byte_eqI: "n = unat (a :: 8 word) \<Longrightarrow> word_of_nat n = a"
  by simp

lemma sextets_small: "x \<in> set (sextets bs) \<Longrightarrow> x < 64"
proof (induction bs rule: sextets.induct)
  case (4 a b c rest)
  have "unat a < 256" "unat b < 256" "unat c < 256" by (rule unat_byte)+
  with 4 show ?case by auto
next
  case (2 a)
  with unat_byte [of a] show ?case by auto
next
  case (3 a b)
  with unat_byte [of a] unat_byte [of b] show ?case by auto
qed simp

lemma octets_sextets: "octets strict (sextets bs) = Some bs"
proof (induction bs rule: sextets.induct)
  case (2 a)
  show ?case by (simp add: byte_eqI)
next
  case (3 a b)
  have "(unat a mod 4 * 16 + unat b div 16) div 16 = unat a mod 4" "(unat a mod 4 * 16 + unat b div 16) mod 16 = unat b div 16"
    using unat_byte [of b] by (simp_all add: div_add1_eq)
  then show ?case by simp
next
  case (4 a b c rest)
  have "(unat a mod 4 * 16 + unat b div 16) div 16 = unat a mod 4" "(unat a mod 4 * 16 + unat b div 16) mod 16 = unat b div 16"
    "(unat b mod 16 * 4 + unat c div 64) div 4 = unat b mod 16" "(unat b mod 16 * 4 + unat c div 64) mod 4 = unat c div 64"
    using unat_byte [of b] unat_byte [of c] by (simp_all add: div_add1_eq)
  with 4 show ?case by simp
qed simp

text \<open>In strict mode the sextets are determined by what they decode to.\<close>

lemma sextets_octets:
  "octets True xs = Some bs \<Longrightarrow> \<forall>x\<in>set xs. x < 64 \<Longrightarrow> sextets bs = xs"
proof (induction True xs arbitrary: bs rule: octets.induct)
  case (3 w x)
  then have "unat (word_of_nat (w * 4 + x div 16) :: 8 word) = w * 4 + x div 16" by (intro unat_of_byte) auto
  with 3 show ?case by (auto split: if_splits)
next
  case (4 w x y)
  then have "unat (word_of_nat (w * 4 + x div 16) :: 8 word) = w * 4 + x div 16"
    "unat (word_of_nat (x mod 16 * 16 + y div 4) :: 8 word) = x mod 16 * 16 + y div 4" by (intro unat_of_byte; auto)+
  with 4 show ?case by (auto split: if_splits)
next
  case (5 w x y z rest)
  then have "unat (word_of_nat (w * 4 + x div 16) :: 8 word) = w * 4 + x div 16"
    "unat (word_of_nat (x mod 16 * 16 + y div 4) :: 8 word) = x mod 16 * 16 + y div 4"
    "unat (word_of_nat (y mod 4 * 64 + z) :: 8 word) = y mod 4 * 64 + z" by (intro unat_of_byte; auto)+
  with 5 show ?case by auto
qed auto
subsection \<open>The decoder inverts the encoder, and in strict mode only one encoding decodes\<close>

lemma those_index: "\<forall>x\<in>set xs. x < 64 \<Longrightarrow> those (map b64_index (map b64_char xs)) = Some xs"
  by (induction xs) simp_all

lemma those_index_Some: "those (map b64_index s) = Some xs \<Longrightarrow> (\<forall>x\<in>set xs. x < 64) \<and> map b64_char xs = s"
proof (induction s arbitrary: xs)
  case (Cons c s)
  then obtain x ys where x: "b64_index c = Some x" "those (map b64_index s) = Some ys" "xs = x # ys"
    by (auto split: option.splits)
  with Cons.IH [OF x(2)] b64_index_Some [OF x(1)] show ?case by simp
qed simp

lemma encoded_others: "c \<in> set (EncodeToString bs) \<Longrightarrow> c \<notin> {CHR 0x0A, CHR 0x0D, CHR ''.''}"
  using b64_char_others sextets_small by (auto simp: EncodeToString_def)

lemma encoded_alphabet: "set (EncodeToString bs) \<subseteq> set b64_alphabet"
  using sextets_small by (auto simp: EncodeToString_def b64_char_def intro!: nth_mem)

lemma Decode_Encode [simp]: "DecodeString strict (EncodeToString bs) = Some bs"
proof -
  have "filter (\<lambda>c. c \<noteq> CHR 0x0A \<and> c \<noteq> CHR 0x0D) (EncodeToString bs) = EncodeToString bs"
    using encoded_others by (intro filter_True) auto
  then show ?thesis
    using those_index [of "sextets bs"] sextets_small octets_sextets
    by (simp add: DecodeString_def EncodeToString_def del: map_map)
qed

lemma Encode_inj [simp]: "EncodeToString bs = EncodeToString cs \<longleftrightarrow> bs = cs"
  by (metis Decode_Encode option.inject)

lemma Decode_strict_unique:
  assumes "DecodeString True s = Some bs" and "CHR 0x0A \<notin> set s" and "CHR 0x0D \<notin> set s"
  shows "EncodeToString bs = s"
proof -
  have "filter (\<lambda>c. c \<noteq> CHR 0x0A \<and> c \<noteq> CHR 0x0D) s = s" using assms(2,3) by (intro filter_True) auto
  then obtain xs where "those (map b64_index s) = Some xs" "octets True xs = Some bs"
    using assms(1) by (auto simp: DecodeString_def split: option.splits)
  with those_index_Some sextets_octets show ?thesis by (fastforce simp: EncodeToString_def)
qed

lemma Encode_length: "length (EncodeToString bs) = (length bs * 4 + 2) div 3"
proof -
  have "length (sextets bs) = (length bs * 4 + 2) div 3"
    by (induction bs rule: sextets.induct) simp_all
  then show ?thesis by (simp add: EncodeToString_def)
qed

subsection \<open>Splitting at a character\<close>

fun split_at :: "char \<Rightarrow> string \<Rightarrow> string list" where
  "split_at c [] = [[]]"
| "split_at c (d # s) =
     (if d = c then [] # split_at c s
      else (case split_at c s of [] \<Rightarrow> [[d]] | part # parts \<Rightarrow> (d # part) # parts))"

lemma split_at_nonempty [simp]: "split_at c s \<noteq> []"
  by (induction s) (simp_all split: list.split)

lemma split_at_none: "c \<notin> set s \<Longrightarrow> split_at c s = [s]"
  by (induction s) auto

lemma split_at_append: "c \<notin> set s \<Longrightarrow> split_at c (s @ c # t) = s # split_at c t"
  by (induction s) (auto split: list.split)

fun join_with :: "char \<Rightarrow> string list \<Rightarrow> string" where
  "join_with c [] = []"
| "join_with c [s] = s"
| "join_with c (s # t # ss) = s @ c # join_with c (t # ss)"

lemma join_split: "join_with c (split_at c s) = s"
proof (induction s)
  case (Cons d s)
  obtain x xs where x: "split_at c s = x # xs" by (cases "split_at c s") simp_all
  with Cons show ?case by (cases xs) auto
qed simp

end
