(* ===== verification/Remote_Tickets.thy ===== *)
theory Remote_Tickets
  imports Peer_Crypto Base64url
begin

text \<open>
  Tickets and proofs of \<open>server/internal/remoteauth\<close>: the signed tickets of
  \<open>ticket.go\<close> with the validations of their claims, and the identity proofs of
  \<open>proof.go\<close> and \<open>peer_proof.go\<close>. \<open>encoding/json\<close> on the two record types of a
  token is a parameter, as the primitives of \<open>crypto\<close> are.
\<close>

subsection \<open>Time in seconds\<close>

text \<open>\<open>Unix\<close> and \<open>UnixMilli\<close> count from 1970, the instants from the zero of \<open>time.Time\<close>.\<close>

definition unix_epoch :: int where "unix_epoch = 62135596800"

definition Unix :: "instant \<Rightarrow> int" where
  "Unix t = t div Second - unix_epoch"

definition UnixMilli :: "instant \<Rightarrow> int" where
  "UnixMilli t = t div Millisecond - unix_epoch * 1000"

definition time_Unix :: "int \<Rightarrow> instant" where
  "time_Unix s = (s + unix_epoch) * Second"

lemma Unix_time [simp]: "Unix (time_Unix s) = s"
  by (simp add: Unix_def time_Unix_def duration_defs)

subsection \<open>Tickets\<close>

datatype ticket_error =
    ErrTicketMalformed
  | ErrTicketSignature
  | ErrTicketClaims
  | ErrTicketExpired
  | ErrTicketNotActive
  | ErrTicketIssuer
  | ErrTicketMarshal

definition maxTicketBytes :: nat where "maxTicketBytes = 16 * 1024"

record Claims =
  cl_Issuer :: string
  cl_Audience :: string
  cl_Subject :: string
  cl_UserID :: string
  cl_AssignmentID :: string
  cl_AssignmentVersion :: u64
  cl_AllowedCellIDs :: "string list"
  cl_GrantVersion :: u64
  cl_Scopes :: "string list"
  cl_ProtocolMin :: u32
  cl_ProtocolMax :: u32
  cl_Confirmation :: string
  cl_IdentityKey :: string
  cl_SessionID :: string
  cl_TransferID :: string
  cl_SourceDeviceID :: string
  cl_TargetDeviceID :: string
  cl_SourceGrantVersion :: u64
  cl_TargetGrantVersion :: u64
  cl_SourceKeyThumbprint :: string
  cl_TargetKeyThumbprint :: string
  cl_SourceIdentityKey :: string
  cl_TargetIdentityKey :: string
  cl_SourceKeyVersion :: u64
  cl_TargetKeyVersion :: u64
  cl_SourceCredentialType :: string
  cl_RelayNodeID :: string
  cl_RelayCellID :: string
  cl_TargetConnectionEpoch :: u64
  cl_Direction :: string
  cl_ProjectID :: string
  cl_MaxDurationSeconds :: u32
  cl_MaxBytes :: u64
  cl_MaxFileCount :: u32
  cl_MaxManifestBytes :: u32
  cl_AllowedChunkSize :: u32
  cl_RequireLocalApproval :: bool
  cl_JWTID :: string
  cl_IssuedAt :: int
  cl_NotBefore :: int
  cl_ExpiresAt :: int

definition HasScope :: "Claims \<Rightarrow> string \<Rightarrow> bool" where
  "HasScope c scope \<longleftrightarrow> scope \<in> set (cl_Scopes c)"

definition PublicKeyThumbprint :: "primitives \<Rightarrow> bytes \<Rightarrow> string" where
  "PublicKeyThumbprint P publicKey = EncodeToString (sha256 P publicKey)"

definition DecodeIdentityPublicKey :: "primitives \<Rightarrow> string \<Rightarrow> string \<Rightarrow> ticket_error + bytes" where
  "DecodeIdentityPublicKey P encoded thumbprint =
     (case DecodeString True encoded of
        None \<Rightarrow> Inl ErrTicketClaims
      | Some key \<Rightarrow>
          if length key \<noteq> Ed25519PublicKeySize \<or> EncodeToString key \<noteq> encoded \<or> PublicKeyThumbprint P key \<noteq> thumbprint
          then Inl ErrTicketClaims else Inr key)"

definition identityClaimMatches :: "primitives \<Rightarrow> string \<Rightarrow> string \<Rightarrow> bool" where
  "identityClaimMatches P encoded thumbprint =
     (case DecodeIdentityPublicKey P encoded thumbprint of Inl _ \<Rightarrow> False | Inr _ \<Rightarrow> True)"

definition ValidateConnection ::
  "primitives \<Rightarrow> Claims \<Rightarrow> string \<Rightarrow> string \<Rightarrow> string \<Rightarrow> string \<Rightarrow> u64 \<Rightarrow> u64 \<Rightarrow> u32 \<Rightarrow> ticket_error option" where
  "ValidateConnection P c deviceID userID cellID keyThumbprint assignmentVersion grantVersion protocolVersion =
     (if deviceID = [] \<or> userID = [] \<or> cellID = [] \<or> keyThumbprint = [] \<or> assignmentVersion = 0 \<or> grantVersion = 0 \<or>
        protocolVersion = 0 \<or> cl_Audience c \<noteq> ''relay'' \<or> cl_Subject c \<noteq> deviceID \<or> cl_UserID c \<noteq> userID \<or>
        cl_AssignmentID c = [] \<or> cl_Confirmation c \<noteq> keyThumbprint \<or> cl_AssignmentVersion c \<noteq> assignmentVersion \<or>
        cl_GrantVersion c \<noteq> grantVersion \<or> \<not> identityClaimMatches P (cl_IdentityKey c) keyThumbprint \<or>
        \<not> HasScope c ''remote.connect'' \<or> cl_ProtocolMin c = 0 \<or> cl_ProtocolMax c < cl_ProtocolMin c \<or>
        cellID \<notin> set (cl_AllowedCellIDs c) \<or> protocolVersion < cl_ProtocolMin c \<or> protocolVersion > cl_ProtocolMax c
      then Some ErrTicketClaims else None)"

definition ValidatePeer ::
  "primitives \<Rightarrow> Claims \<Rightarrow> string \<Rightarrow> string \<Rightarrow> string \<Rightarrow> string \<Rightarrow> string \<Rightarrow> u64 \<Rightarrow> u64 \<Rightarrow> ticket_error option" where
  "ValidatePeer P c sourceDeviceID targetDeviceID sourceThumbprint targetThumbprint requiredScope sourceGrantVersion targetGrantVersion =
     (if sourceDeviceID = [] \<or> targetDeviceID = [] \<or> sourceThumbprint = [] \<or> targetThumbprint = [] \<or> requiredScope = [] \<or>
        sourceGrantVersion = 0 \<or> targetGrantVersion = 0 \<or> cl_Audience c \<noteq> ''relay-peer'' \<or> cl_SessionID c = [] \<or>
        cl_SourceDeviceID c \<noteq> sourceDeviceID \<or> cl_TargetDeviceID c \<noteq> targetDeviceID \<or>
        cl_SourceGrantVersion c \<noteq> sourceGrantVersion \<or> cl_TargetGrantVersion c \<noteq> targetGrantVersion \<or>
        cl_SourceKeyThumbprint c \<noteq> sourceThumbprint \<or> cl_TargetKeyThumbprint c \<noteq> targetThumbprint \<or>
        (cl_SourceCredentialType c \<noteq> ''device'' \<and> cl_SourceCredentialType c \<noteq> ''controller'') \<or>
        cl_SourceKeyVersion c = 0 \<or> cl_TargetKeyVersion c = 0 \<or>
        \<not> identityClaimMatches P (cl_SourceIdentityKey c) sourceThumbprint \<or>
        \<not> identityClaimMatches P (cl_TargetIdentityKey c) targetThumbprint \<or>
        \<not> HasScope c requiredScope \<or> cl_MaxDurationSeconds c = 0 \<or> cl_MaxBytes c = 0
      then Some ErrTicketClaims else None)"

definition ValidatePeerRelay :: "Claims \<Rightarrow> string \<Rightarrow> string \<Rightarrow> u64 \<Rightarrow> ticket_error option" where
  "ValidatePeerRelay c nodeID cellID targetConnectionEpoch =
     (if nodeID = [] \<or> cellID = [] \<or> targetConnectionEpoch = 0 \<or> cl_Audience c \<noteq> ''relay-peer'' \<or> cl_Subject c = [] \<or>
        cl_Subject c \<noteq> cl_SourceDeviceID c \<or> cl_Confirmation c = [] \<or> cl_Confirmation c \<noteq> cl_SourceKeyThumbprint c \<or>
        cl_RelayNodeID c \<noteq> nodeID \<or> cl_RelayCellID c \<noteq> cellID \<or> cl_TargetConnectionEpoch c \<noteq> targetConnectionEpoch
      then Some ErrTicketClaims else None)"

definition ValidateFile ::
  "primitives \<Rightarrow> Claims \<Rightarrow> string \<Rightarrow> string \<Rightarrow> string \<Rightarrow> string \<Rightarrow> u64 \<Rightarrow> u64 \<Rightarrow> ticket_error option" where
  "ValidateFile P c sourceDeviceID targetDeviceID sourceThumbprint targetThumbprint sourceGrantVersion targetGrantVersion =
     (if sourceDeviceID = [] \<or> targetDeviceID = [] \<or> sourceThumbprint = [] \<or> targetThumbprint = [] \<or>
        sourceGrantVersion = 0 \<or> targetGrantVersion = 0 \<or> cl_Audience c \<noteq> ''relay-file'' \<or> cl_TransferID c = [] \<or>
        cl_Subject c \<noteq> sourceDeviceID \<or> cl_Confirmation c \<noteq> sourceThumbprint \<or> cl_SourceCredentialType c \<noteq> ''device'' \<or>
        cl_SourceDeviceID c \<noteq> sourceDeviceID \<or> cl_TargetDeviceID c \<noteq> targetDeviceID \<or>
        cl_SourceGrantVersion c \<noteq> sourceGrantVersion \<or> cl_TargetGrantVersion c \<noteq> targetGrantVersion \<or>
        cl_SourceKeyThumbprint c \<noteq> sourceThumbprint \<or> cl_TargetKeyThumbprint c \<noteq> targetThumbprint \<or>
        cl_SourceKeyVersion c = 0 \<or> cl_TargetKeyVersion c = 0 \<or>
        \<not> identityClaimMatches P (cl_SourceIdentityKey c) sourceThumbprint \<or>
        \<not> identityClaimMatches P (cl_TargetIdentityKey c) targetThumbprint \<or> cl_Direction c \<noteq> ''push'' \<or>
        \<not> HasScope c ''remote.peer.file.send'' \<or> \<not> HasScope c ''remote.peer.file.receive'' \<or> cl_MaxDurationSeconds c = 0 \<or>
        cl_MaxBytes c = 0 \<or> cl_MaxFileCount c = 0 \<or> cl_MaxManifestBytes c = 0 \<or> cl_AllowedChunkSize c = 0
      then Some ErrTicketClaims else None)"

definition ValidateFileRelay :: "Claims \<Rightarrow> string \<Rightarrow> string \<Rightarrow> u64 \<Rightarrow> ticket_error option" where
  "ValidateFileRelay c nodeID cellID targetConnectionEpoch =
     (if nodeID = [] \<or> cellID = [] \<or> targetConnectionEpoch = 0 \<or> cl_Audience c \<noteq> ''relay-file'' \<or> cl_Subject c = [] \<or>
        cl_Subject c \<noteq> cl_SourceDeviceID c \<or> cl_Confirmation c = [] \<or> cl_Confirmation c \<noteq> cl_SourceKeyThumbprint c \<or>
        cl_RelayNodeID c \<noteq> nodeID \<or> cl_RelayCellID c \<noteq> cellID \<or> cl_TargetConnectionEpoch c \<noteq> targetConnectionEpoch
      then Some ErrTicketClaims else None)"

definition Claims_Validate :: "Claims \<Rightarrow> string \<Rightarrow> string \<Rightarrow> instant \<Rightarrow> duration \<Rightarrow> ticket_error option" where
  "Claims_Validate c expectedIssuer expectedAudience now leeway =
     (if cl_Issuer c = [] \<or> cl_Audience c = [] \<or> cl_JWTID c = [] \<or> cl_IssuedAt c \<le> 0 \<or> cl_NotBefore c \<le> 0 \<or>
        cl_ExpiresAt c \<le> 0 \<or> cl_ExpiresAt c \<le> cl_IssuedAt c then Some ErrTicketClaims
      else if expectedIssuer \<noteq> [] \<and> cl_Issuer c \<noteq> expectedIssuer then Some ErrTicketClaims
      else if expectedAudience \<noteq> [] \<and> cl_Audience c \<noteq> expectedAudience then Some ErrTicketClaims
      else if Unix (now + leeway) < cl_NotBefore c then Some ErrTicketNotActive
      else if Unix (now - leeway) \<ge> cl_ExpiresAt c then Some ErrTicketExpired
      else None)"

subsection \<open>Tokens\<close>

record tokenHeader =
  hd_Algorithm :: string
  hd_KeyID :: string
  hd_Type :: string

text \<open>
  \<open>json.Marshal\<close> and \<open>decodeStrict\<close> on the header and on the claims of a token.
  Decoding gives back what was marshalled when its strings are valid UTF-8;
  \<open>json_faithful\<close> states it of one header and one set of claims.
\<close>

record 'c json =
  js_marshalHeader :: "tokenHeader \<Rightarrow> bytes option"
  js_marshalClaims :: "'c \<Rightarrow> bytes option"
  js_decodeHeader :: "bytes \<Rightarrow> tokenHeader option"
  js_decodeClaims :: "bytes \<Rightarrow> 'c option"

definition json_faithful :: "'c json \<Rightarrow> tokenHeader \<Rightarrow> 'c \<Rightarrow> bool" where
  "json_faithful J h c \<longleftrightarrow>
     (\<exists>b. js_marshalHeader J h = Some b \<and> js_decodeHeader J b = Some h) \<and>
     (\<exists>b. js_marshalClaims J c = Some b \<and> js_decodeClaims J b = Some c)"

record Issuer =
  is_Issuer :: string
  is_KeyID :: string
  is_PrivateKey :: bytes

record Verifier =
  ve_Issuer :: string
  ve_Keys :: "(string, bytes) fmap"
  ve_Leeway :: duration

definition signed_token :: "primitives \<Rightarrow> bytes \<Rightarrow> bytes \<Rightarrow> bytes \<Rightarrow> string" where
  "signed_token P privateKey header claims =
     (let signed = EncodeToString header @ ''.'' @ EncodeToString claims
      in signed @ ''.'' @ EncodeToString (ed25519_sign P privateKey (go_bytes signed)))"

definition Issuer_Sign :: "primitives \<Rightarrow> Claims json \<Rightarrow> Issuer \<Rightarrow> Claims \<Rightarrow> ticket_error + string" where
  "Issuer_Sign P J i claims =
     (if is_Issuer i = [] \<or> is_KeyID i = [] \<or> length (is_PrivateKey i) \<noteq> Ed25519PrivateKeySize then Inl ErrTicketIssuer
      else
        (let claims = (if cl_Issuer claims = [] then claims\<lparr>cl_Issuer := is_Issuer i\<rparr> else claims)
         in if cl_Issuer claims \<noteq> is_Issuer i then Inl ErrTicketClaims
            else (case js_marshalHeader J \<lparr>hd_Algorithm = ''EdDSA'', hd_KeyID = is_KeyID i, hd_Type = ''JWT''\<rparr> of
                None \<Rightarrow> Inl ErrTicketMarshal
              | Some headerBytes \<Rightarrow>
                  (case js_marshalClaims J claims of
                     None \<Rightarrow> Inl ErrTicketMarshal
                   | Some claimsBytes \<Rightarrow> Inr (signed_token P (is_PrivateKey i) headerBytes claimsBytes)))))"

definition Verifier_Verify ::
  "primitives \<Rightarrow> Claims json \<Rightarrow> Verifier \<Rightarrow> string \<Rightarrow> string \<Rightarrow> instant \<Rightarrow> ticket_error + Claims" where
  "Verifier_Verify P J v token expectedAudience now =
     (if length token = 0 \<or> length token > maxTicketBytes then Inl ErrTicketMalformed
      else (case split_at CHR ''.'' token of
          [headerPart, claimsPart, signaturePart] \<Rightarrow>
            (case map_option (js_decodeHeader J) (DecodeString False headerPart) of
               Some (Some header) \<Rightarrow>
                 if hd_Algorithm header \<noteq> ''EdDSA'' \<or> hd_Type header \<noteq> ''JWT'' \<or> hd_KeyID header = [] then Inl ErrTicketMalformed
                 else (case fmlookup (ve_Keys v) (hd_KeyID header) of
                     None \<Rightarrow> Inl ErrTicketSignature
                   | Some publicKey \<Rightarrow>
                       if length publicKey \<noteq> Ed25519PublicKeySize then Inl ErrTicketSignature
                       else (case DecodeString False signaturePart of
                           None \<Rightarrow> Inl ErrTicketSignature
                         | Some signature \<Rightarrow>
                             if length signature \<noteq> Ed25519SignatureSize \<or>
                               \<not> ed25519_verify P publicKey (go_bytes (headerPart @ ''.'' @ claimsPart)) signature
                             then Inl ErrTicketSignature
                             else (case map_option (js_decodeClaims J) (DecodeString False claimsPart) of
                                 Some (Some claims) \<Rightarrow>
                                   (case Claims_Validate claims (ve_Issuer v) expectedAudience now (ve_Leeway v) of
                                      Some err \<Rightarrow> Inl err
                                    | None \<Rightarrow> Inr claims)
                               | _ \<Rightarrow> Inl ErrTicketMalformed)))
             | _ \<Rightarrow> Inl ErrTicketMalformed)
        | _ \<Rightarrow> Inl ErrTicketMalformed))"
subsection \<open>Identity proofs\<close>

datatype proof_error = ErrProofExpired | ErrProofInvalid | ErrProofFields | ErrProofRandom

record Challenge =
  ch_Nonce :: bytes
  ch_TicketJWTID :: string
  ch_CellID :: string
  ch_NodeID :: string
  ch_ConnectionEpoch :: u64
  ch_Deadline :: instant

text \<open>\<open>random\<close> is what \<open>io.ReadFull\<close> reads for the nonce.\<close>

definition NewChallengeFrom ::
  "bytes option \<Rightarrow> string \<Rightarrow> string \<Rightarrow> string \<Rightarrow> u64 \<Rightarrow> instant \<Rightarrow> duration \<Rightarrow> proof_error + Challenge" where
  "NewChallengeFrom random ticketJWTID cellID nodeID connectionEpoch now ttl =
     (if ticketJWTID = [] \<or> cellID = [] \<or> nodeID = [] \<or> connectionEpoch = 0 \<or> ttl \<le> 0 then Inl ErrProofFields
      else (case random of
          None \<Rightarrow> Inl ErrProofRandom
        | Some nonce \<Rightarrow> Inr \<lparr>ch_Nonce = nonce, ch_TicketJWTID = ticketJWTID, ch_CellID = cellID, ch_NodeID = nodeID,
            ch_ConnectionEpoch = connectionEpoch, ch_Deadline = now + ttl\<rparr>))"

definition challenge_bytes :: "Challenge \<Rightarrow> proof_error + bytes" where
  "challenge_bytes c =
     (if length (ch_Nonce c) \<noteq> 32 \<or> ch_TicketJWTID c = [] \<or> ch_CellID c = [] \<or> ch_NodeID c = [] \<or>
        ch_ConnectionEpoch c = 0 \<or> IsZero (ch_Deadline c) then Inl ErrProofInvalid
      else Inr
        (let encoded = appendBytes [] (go_bytes ''wenzwork-relay-proof-v1'');
             encoded = appendBytes encoded (ch_Nonce c);
             encoded = appendBytes encoded (go_bytes (ch_TicketJWTID c));
             encoded = appendBytes encoded (go_bytes (ch_CellID c));
             encoded = appendBytes encoded (go_bytes (ch_NodeID c));
             encoded = encoded @ big_endian 8 (ch_ConnectionEpoch c);
             encoded = encoded @ big_endian 8 (word_of_int (UnixMilli (ch_Deadline c)) :: u64)
         in encoded))"

definition SignChallenge :: "primitives \<Rightarrow> bytes \<Rightarrow> Challenge \<Rightarrow> proof_error + bytes" where
  "SignChallenge P privateKey challenge =
     (if length privateKey \<noteq> Ed25519PrivateKeySize then Inl ErrProofInvalid
      else (case challenge_bytes challenge of
          Inl err \<Rightarrow> Inl err
        | Inr encoded \<Rightarrow> Inr (ed25519_sign P privateKey encoded)))"

definition VerifyChallenge :: "primitives \<Rightarrow> bytes \<Rightarrow> string \<Rightarrow> Challenge \<Rightarrow> bytes \<Rightarrow> instant \<Rightarrow> proof_error option" where
  "VerifyChallenge P publicKey expectedThumbprint challenge signature now =
     (if \<not> now < ch_Deadline challenge then Some ErrProofExpired
      else if length publicKey \<noteq> Ed25519PublicKeySize \<or> PublicKeyThumbprint P publicKey \<noteq> expectedThumbprint
      then Some ErrProofInvalid
      else (case challenge_bytes challenge of
          Inl _ \<Rightarrow> Some ErrProofInvalid
        | Inr encoded \<Rightarrow> if \<not> ed25519_verify P publicKey encoded signature then Some ErrProofInvalid else None))"

record PeerOpenIdentityProof =
  po_TicketJWTID :: string
  po_SessionID :: string
  po_SourceDeviceID :: string
  po_TargetDeviceID :: string
  po_EphemeralPublicKey :: bytes

record PeerReadyIdentityProof =
  pr_TicketJWTID :: string
  pr_SessionID :: string
  pr_SourceDeviceID :: string
  pr_TargetDeviceID :: string
  pr_SourceEphemeralPublicKey :: bytes
  pr_TargetEphemeralPublicKey :: bytes

definition peerEphemeralPublicKeySize :: nat where "peerEphemeralPublicKeySize = 32"

definition validPeerProofFields :: "string list \<Rightarrow> bool" where
  "validPeerProofFields values \<longleftrightarrow> (\<forall>field\<in>set values. \<not> (field = [] \<or> length field > 128 \<or> ContainsNUL field))"

definition peer_open_bytes :: "PeerOpenIdentityProof \<Rightarrow> proof_error + bytes" where
  "peer_open_bytes p =
     (if \<not> validPeerProofFields [po_TicketJWTID p, po_SessionID p, po_SourceDeviceID p, po_TargetDeviceID p] \<or>
        po_SourceDeviceID p = po_TargetDeviceID p \<or> length (po_EphemeralPublicKey p) \<noteq> peerEphemeralPublicKeySize
      then Inl ErrProofInvalid
      else Inr (fold (\<lambda>field encoded. appendBytes encoded field)
        [go_bytes ''wenzwork-relay-peer-open-v1'', go_bytes (po_TicketJWTID p), go_bytes (po_SessionID p),
         go_bytes (po_SourceDeviceID p), go_bytes (po_TargetDeviceID p), po_EphemeralPublicKey p] []))"

definition peer_ready_bytes :: "PeerReadyIdentityProof \<Rightarrow> proof_error + bytes" where
  "peer_ready_bytes p =
     (if \<not> validPeerProofFields [pr_TicketJWTID p, pr_SessionID p, pr_SourceDeviceID p, pr_TargetDeviceID p] \<or>
        pr_SourceDeviceID p = pr_TargetDeviceID p \<or> length (pr_SourceEphemeralPublicKey p) \<noteq> peerEphemeralPublicKeySize \<or>
        length (pr_TargetEphemeralPublicKey p) \<noteq> peerEphemeralPublicKeySize
      then Inl ErrProofInvalid
      else Inr (fold (\<lambda>field encoded. appendBytes encoded field)
        [go_bytes ''wenzwork-relay-peer-ready-v1'', go_bytes (pr_TicketJWTID p), go_bytes (pr_SessionID p),
         go_bytes (pr_SourceDeviceID p), go_bytes (pr_TargetDeviceID p), pr_SourceEphemeralPublicKey p,
         pr_TargetEphemeralPublicKey p] []))"

definition SignPeerOpenIdentity :: "primitives \<Rightarrow> bytes \<Rightarrow> PeerOpenIdentityProof \<Rightarrow> proof_error + bytes" where
  "SignPeerOpenIdentity P privateKey p =
     (if length privateKey \<noteq> Ed25519PrivateKeySize then Inl ErrProofInvalid
      else (case peer_open_bytes p of Inl err \<Rightarrow> Inl err | Inr encoded \<Rightarrow> Inr (ed25519_sign P privateKey encoded)))"

definition VerifyPeerOpenIdentity ::
  "primitives \<Rightarrow> bytes \<Rightarrow> string \<Rightarrow> PeerOpenIdentityProof \<Rightarrow> bytes \<Rightarrow> proof_error option" where
  "VerifyPeerOpenIdentity P publicKey expectedThumbprint p signature =
     (if length publicKey \<noteq> Ed25519PublicKeySize \<or> PublicKeyThumbprint P publicKey \<noteq> expectedThumbprint \<or>
        length signature \<noteq> Ed25519SignatureSize then Some ErrProofInvalid
      else (case peer_open_bytes p of
          Inl _ \<Rightarrow> Some ErrProofInvalid
        | Inr encoded \<Rightarrow> if \<not> ed25519_verify P publicKey encoded signature then Some ErrProofInvalid else None))"

definition SignPeerReadyIdentity :: "primitives \<Rightarrow> bytes \<Rightarrow> PeerReadyIdentityProof \<Rightarrow> proof_error + bytes" where
  "SignPeerReadyIdentity P privateKey p =
     (if length privateKey \<noteq> Ed25519PrivateKeySize then Inl ErrProofInvalid
      else (case peer_ready_bytes p of Inl err \<Rightarrow> Inl err | Inr encoded \<Rightarrow> Inr (ed25519_sign P privateKey encoded)))"

definition VerifyPeerReadyIdentity ::
  "primitives \<Rightarrow> bytes \<Rightarrow> string \<Rightarrow> PeerReadyIdentityProof \<Rightarrow> bytes \<Rightarrow> proof_error option" where
  "VerifyPeerReadyIdentity P publicKey expectedThumbprint p signature =
     (if length publicKey \<noteq> Ed25519PublicKeySize \<or> PublicKeyThumbprint P publicKey \<noteq> expectedThumbprint \<or>
        length signature \<noteq> Ed25519SignatureSize then Some ErrProofInvalid
      else (case peer_ready_bytes p of
          Inl _ \<Rightarrow> Some ErrProofInvalid
        | Inr encoded \<Rightarrow> if \<not> ed25519_verify P publicKey encoded signature then Some ErrProofInvalid else None))"

subsection \<open>The structure of a token\<close>

lemma signed_token_parts:
  "split_at CHR ''.'' (signed_token P k h c) =
     [EncodeToString h, EncodeToString c, EncodeToString (ed25519_sign P k (go_bytes (EncodeToString h @ ''.'' @ EncodeToString c)))]"
proof -
  have dot: "CHR ''.'' \<notin> set (EncodeToString b)" for b using encoded_others by blast
  then show ?thesis
    by (simp add: signed_token_def Let_def split_at_append split_at_none)
qed

lemma signed_token_length:
  "length (signed_token P k h c) = (length h * 4 + 2) div 3 + (length c * 4 + 2) div 3 +
     (length (ed25519_sign P k (go_bytes (EncodeToString h @ ''.'' @ EncodeToString c))) * 4 + 2) div 3 + 2"
  by (simp add: signed_token_def Let_def Encode_length)

text \<open>A public key passes as the identity key of its own thumbprint, and of no other key's encoding.\<close>

lemma DecodeIdentityPublicKey_iff:
  "DecodeIdentityPublicKey P encoded thumbprint = Inr key \<longleftrightarrow>
     length key = Ed25519PublicKeySize \<and> encoded = EncodeToString key \<and> thumbprint = PublicKeyThumbprint P key"
  by (auto simp: DecodeIdentityPublicKey_def split: option.splits)

lemma identityClaimMatches_iff:
  "identityClaimMatches P encoded thumbprint \<longleftrightarrow>
     (\<exists>key. length key = Ed25519PublicKeySize \<and> encoded = EncodeToString key \<and> thumbprint = PublicKeyThumbprint P key)"
  unfolding DecodeIdentityPublicKey_iff [symmetric]
  by (simp add: identityClaimMatches_def split: sum.split)

text \<open>When a token verifies.\<close>

lemma Verifier_Verify_iff:
  "Verifier_Verify P J v token audience now = Inr claims \<longleftrightarrow>
     token \<noteq> [] \<and> length token \<le> maxTicketBytes \<and>
     (\<exists>h c s hb cb sb header key. split_at CHR ''.'' token = [h, c, s] \<and>
        DecodeString False h = Some hb \<and> js_decodeHeader J hb = Some header \<and>
        hd_Algorithm header = ''EdDSA'' \<and> hd_Type header = ''JWT'' \<and> hd_KeyID header \<noteq> [] \<and>
        fmlookup (ve_Keys v) (hd_KeyID header) = Some key \<and> length key = Ed25519PublicKeySize \<and>
        DecodeString False s = Some sb \<and> length sb = Ed25519SignatureSize \<and>
        ed25519_verify P key (go_bytes (h @ ''.'' @ c)) sb \<and>
        DecodeString False c = Some cb \<and> js_decodeClaims J cb = Some claims \<and>
        Claims_Validate claims (ve_Issuer v) audience now (ve_Leeway v) = None)"
  unfolding Verifier_Verify_def
  by (auto split: if_splits list.splits option.splits)

end
