(* ===== verification/Device_Link_Grant.thy ===== *)
theory Device_Link_Grant
  imports Remote_Tickets
begin

text \<open>
  Device link grants, \<open>server/internal/remoteauth/device_link_grant.go\<close>: the
  signed credential with which a client opens carriers to a relay and links to
  a device, and the proof that the client holds its identity key.
\<close>

subsection \<open>Claims\<close>

datatype grant_error = ErrDeviceLinkGrant

definition DeviceLinkGrantAudience :: string where "DeviceLinkGrantAudience = ''relay-device-link-v2''"
definition DeviceLinkGrantType :: string where "DeviceLinkGrantType = ''WenzWorkDeviceLinkGrantV2''"
definition deviceLinkGrantMaxBytes :: nat where "deviceLinkGrantMaxBytes = 8 * 1024"

record DeviceLinkGrantClaims =
  dc_Issuer :: string
  dc_Audience :: string
  dc_GrantID :: string
  dc_ClientID :: string
  dc_DeviceID :: string
  dc_RelayNodeID :: string
  dc_RelayCellID :: string
  dc_TargetConnectionEpoch :: u64
  dc_ClientIdentityKey :: string
  dc_ClientKeyThumbprint :: string
  dc_ClientIdentityKeyVersion :: u64
  dc_DeviceKeyThumbprint :: string
  dc_DeviceIdentityKeyVersion :: u64
  dc_ClientGrantVersion :: u64
  dc_DeviceGrantVersion :: u64
  dc_AllowedScopes :: "string list"
  dc_MaximumLifetimeSeconds :: u32
  dc_IssuedAt :: int
  dc_NotBefore :: int
  dc_ExpiresAt :: int

definition PersistentDeviceLinkGrantExpiresAtUnix :: int where
  "PersistentDeviceLinkGrantExpiresAtUnix = 253402300799"

definition Persistent :: "DeviceLinkGrantClaims \<Rightarrow> bool" where
  "Persistent claims \<longleftrightarrow>
     dc_MaximumLifetimeSeconds claims = 0 \<and> dc_ExpiresAt claims = PersistentDeviceLinkGrantExpiresAtUnix"

definition PersistentDeviceLinkGrantExpiry :: instant where
  "PersistentDeviceLinkGrantExpiry = time_Unix PersistentDeviceLinkGrantExpiresAtUnix"

definition IsPersistentDeviceLinkGrantExpiry :: "instant \<Rightarrow> bool" where
  "IsPersistentDeviceLinkGrantExpiry t \<longleftrightarrow> \<not> IsZero t \<and> Unix t = PersistentDeviceLinkGrantExpiresAtUnix"

definition has_prefix :: "string \<Rightarrow> string \<Rightarrow> bool" where
  "has_prefix s p \<longleftrightarrow> take (length p) s = p"

text \<open>The loop of \<open>validDeviceLinkScopes\<close> with the scopes seen so far.\<close>

fun scopes_loop :: "string set \<Rightarrow> string list \<Rightarrow> bool" where
  "scopes_loop seen [] \<longleftrightarrow> True"
| "scopes_loop seen (scope # scopes) \<longleftrightarrow>
     (if \<not> has_prefix scope ''remote.peer.'' \<or> length scope > 80 \<or> TrimSpace scope \<noteq> scope \<or>
        (\<exists>c\<in>set scope. c = CHR 0x0D \<or> c = CHR 0x0A \<or> c = CHR 0x00) then False
      else if scope \<in> seen then False
      else scopes_loop (insert scope seen) scopes)"

definition validDeviceLinkScopes :: "string list \<Rightarrow> bool" where
  "validDeviceLinkScopes scopes \<longleftrightarrow>
     (if scopes = [] \<or> length scopes > 16 then False else scopes_loop {} scopes)"

definition Grant_Validate :: "primitives \<Rightarrow> DeviceLinkGrantClaims \<Rightarrow> string \<Rightarrow> instant \<Rightarrow> duration \<Rightarrow> grant_error option" where
  "Grant_Validate P claims expectedIssuer now leeway =
     (if dc_Issuer claims = [] \<or> dc_Audience claims \<noteq> DeviceLinkGrantAudience \<or> dc_GrantID claims = [] \<or> dc_ClientID claims = [] \<or>
        dc_DeviceID claims = [] \<or> dc_ClientID claims = dc_DeviceID claims \<or> dc_RelayNodeID claims = [] \<or> dc_RelayCellID claims = [] \<or>
        dc_TargetConnectionEpoch claims = 0 \<or> dc_ClientIdentityKeyVersion claims = 0 \<or> dc_DeviceIdentityKeyVersion claims = 0 \<or>
        dc_ClientGrantVersion claims = 0 \<or> dc_DeviceGrantVersion claims = 0 \<or> \<not> validDeviceLinkScopes (dc_AllowedScopes claims) \<or>
        dc_IssuedAt claims \<le> 0 \<or> dc_NotBefore claims \<le> 0 \<or> dc_ExpiresAt claims \<le> dc_IssuedAt claims \<or>
        (expectedIssuer \<noteq> [] \<and> dc_Issuer claims \<noteq> expectedIssuer)
      then Some ErrDeviceLinkGrant
      else if \<not> Persistent claims \<and> (dc_MaximumLifetimeSeconds claims = 0 \<or> dc_MaximumLifetimeSeconds claims > 15 * 60 \<or>
        dc_ExpiresAt claims - dc_IssuedAt claims > uint (dc_MaximumLifetimeSeconds claims) + 5)
      then Some ErrDeviceLinkGrant
      else if Unix (now + leeway) < dc_NotBefore claims \<or>
        (\<not> Persistent claims \<and> Unix (now - leeway) \<ge> dc_ExpiresAt claims)
      then Some ErrDeviceLinkGrant
      else (case DecodeIdentityPublicKey P (dc_ClientIdentityKey claims) (dc_ClientKeyThumbprint claims) of
          Inl _ \<Rightarrow> Some ErrDeviceLinkGrant
        | Inr clientKey \<Rightarrow>
            if length clientKey \<noteq> Ed25519PublicKeySize \<or> length (dc_ClientKeyThumbprint claims) \<noteq> 43 \<or>
              length (dc_DeviceKeyThumbprint claims) \<noteq> 43
            then Some ErrDeviceLinkGrant else None))"

subsection \<open>Signing and verifying\<close>

record DeviceLinkGrantIssuer =
  gi_Issuer :: string
  gi_KeyID :: string
  gi_PrivateKey :: bytes

record DeviceLinkGrantVerifier =
  gv_Issuer :: string
  gv_Keys :: "(string, bytes) fmap"
  gv_Leeway :: duration

type_synonym grant_json = "DeviceLinkGrantClaims json"

definition grant_header :: "string \<Rightarrow> tokenHeader" where
  "grant_header keyID = \<lparr>hd_Algorithm = ''EdDSA'', hd_KeyID = keyID, hd_Type = DeviceLinkGrantType\<rparr>"

definition Grant_Sign ::
  "primitives \<Rightarrow> grant_json \<Rightarrow> DeviceLinkGrantIssuer \<Rightarrow> DeviceLinkGrantClaims \<Rightarrow> grant_error + string" where
  "Grant_Sign P J issuer claims =
     (if gi_Issuer issuer = [] \<or> gi_KeyID issuer = [] \<or> length (gi_PrivateKey issuer) \<noteq> Ed25519PrivateKeySize
      then Inl ErrDeviceLinkGrant
      else
        (let claims = (if dc_Issuer claims = [] then claims\<lparr>dc_Issuer := gi_Issuer issuer\<rparr> else claims)
         in if dc_Issuer claims \<noteq> gi_Issuer issuer \<or>
              Grant_Validate P claims (gi_Issuer issuer) (time_Unix (dc_IssuedAt claims)) 0 \<noteq> None
            then Inl ErrDeviceLinkGrant
            else (case js_marshalHeader J (grant_header (gi_KeyID issuer)) of
                None \<Rightarrow> Inl ErrDeviceLinkGrant
              | Some header \<Rightarrow>
                  (case js_marshalClaims J claims of
                     None \<Rightarrow> Inl ErrDeviceLinkGrant
                   | Some payload \<Rightarrow> Inr (signed_token P (gi_PrivateKey issuer) header payload)))))"

definition Grant_Verify ::
  "primitives \<Rightarrow> grant_json \<Rightarrow> DeviceLinkGrantVerifier \<Rightarrow> string \<Rightarrow> instant \<Rightarrow> grant_error + DeviceLinkGrantClaims" where
  "Grant_Verify P J verifier grant now =
     (if length grant = 0 \<or> length grant > deviceLinkGrantMaxBytes then Inl ErrDeviceLinkGrant
      else (case split_at CHR ''.'' grant of
          [part0, part1, part2] \<Rightarrow>
            (case map_option (js_decodeHeader J) (DecodeString True part0) of
               Some (Some header) \<Rightarrow>
                 if hd_Algorithm header \<noteq> ''EdDSA'' \<or> hd_Type header \<noteq> DeviceLinkGrantType \<or> hd_KeyID header = []
                 then Inl ErrDeviceLinkGrant
                 else
                   (let publicKey = fmget [] (gv_Keys verifier) (hd_KeyID header)
                    in if length publicKey \<noteq> Ed25519PublicKeySize then Inl ErrDeviceLinkGrant
                       else (case DecodeString True part2 of
                           None \<Rightarrow> Inl ErrDeviceLinkGrant
                         | Some signature \<Rightarrow>
                             if length signature \<noteq> Ed25519SignatureSize \<or>
                               \<not> ed25519_verify P publicKey (go_bytes (part0 @ ''.'' @ part1)) signature
                             then Inl ErrDeviceLinkGrant
                             else (case map_option (js_decodeClaims J) (DecodeString True part1) of
                                 Some (Some claims) \<Rightarrow>
                                   if Grant_Validate P claims (gv_Issuer verifier) now (gv_Leeway verifier) \<noteq> None
                                   then Inl ErrDeviceLinkGrant else Inr claims
                               | _ \<Rightarrow> Inl ErrDeviceLinkGrant)))
             | _ \<Rightarrow> Inl ErrDeviceLinkGrant)
        | _ \<Rightarrow> Inl ErrDeviceLinkGrant))"

subsection \<open>Proof of the client's key\<close>

record CarrierProof =
  cp_GrantID :: string
  cp_CarrierID :: string
  cp_CarrierEpoch :: u64
  cp_Challenge :: bytes

definition validGrantField :: "string \<Rightarrow> bool" where
  "validGrantField value = (let value = TrimSpace value in value \<noteq> [] \<and> length value \<le> 256 \<and> \<not> ContainsNUL value)"

definition validCarrierProof :: "CarrierProof \<Rightarrow> bool" where
  "validCarrierProof p \<longleftrightarrow>
     validGrantField (cp_GrantID p) \<and> validGrantField (cp_CarrierID p) \<and> cp_CarrierEpoch p > 0 \<and> length (cp_Challenge p) = 32"

definition canonicalCarrierProof :: "CarrierProof \<Rightarrow> bytes" where
  "canonicalCarrierProof p =
     (let encoded = appendBytes [] (go_bytes ''wenzwork-remote-v2/carrier-proof'');
          encoded = appendBytes encoded (go_bytes (cp_GrantID p));
          encoded = appendBytes encoded (go_bytes (cp_CarrierID p));
          encoded = encoded @ big_endian 8 (cp_CarrierEpoch p)
      in appendBytes encoded (cp_Challenge p))"

definition SignCarrierProof :: "primitives \<Rightarrow> bytes \<Rightarrow> CarrierProof \<Rightarrow> grant_error + bytes" where
  "SignCarrierProof P privateKey p =
     (if length privateKey \<noteq> Ed25519PrivateKeySize \<or> \<not> validCarrierProof p then Inl ErrDeviceLinkGrant
      else Inr (ed25519_sign P privateKey (canonicalCarrierProof p)))"

definition VerifyCarrierProof :: "primitives \<Rightarrow> bytes \<Rightarrow> CarrierProof \<Rightarrow> bytes \<Rightarrow> grant_error option" where
  "VerifyCarrierProof P publicKey p signature =
     (if length publicKey \<noteq> Ed25519PublicKeySize \<or> length signature \<noteq> Ed25519SignatureSize \<or> \<not> validCarrierProof p \<or>
        \<not> ed25519_verify P publicKey (canonicalCarrierProof p) signature then Some ErrDeviceLinkGrant else None)"

definition GrantFingerprint :: "primitives \<Rightarrow> string \<Rightarrow> string" where
  "GrantFingerprint P grant =
     (if grant = [] then [] else EncodeToString (take 12 (sha256 P (go_bytes grant))))"

subsection \<open>When a grant verifies\<close>

text \<open>The scopes: at most sixteen, all of the peer namespace, none twice.\<close>

definition scope_ok :: "string \<Rightarrow> bool" where
  "scope_ok scope \<longleftrightarrow> has_prefix scope ''remote.peer.'' \<and> length scope \<le> 80 \<and> TrimSpace scope = scope \<and>
     set scope \<inter> {CHR 0x0D, CHR 0x0A, CHR 0x00} = {}"

lemma scopes_loop_Cons:
  "scopes_loop seen (scope # scopes) \<longleftrightarrow> scope_ok scope \<and> scope \<notin> seen \<and> scopes_loop (insert scope seen) scopes"
proof -
  have "set scope \<inter> {CHR 0x0D, CHR 0x0A, CHR 0x00} = {} \<longleftrightarrow> \<not> (\<exists>c\<in>set scope. c = CHR 0x0D \<or> c = CHR 0x0A \<or> c = CHR 0x00)"
    by blast
  then show ?thesis unfolding scopes_loop.simps scope_ok_def not_less [symmetric] by argo
qed

lemma scopes_loop_iff:
  "scopes_loop seen scopes \<longleftrightarrow> (\<forall>scope\<in>set scopes. scope_ok scope) \<and> distinct scopes \<and> seen \<inter> set scopes = {}"
  by (induction scopes arbitrary: seen) (auto simp: scopes_loop_Cons simp del: scopes_loop.simps(2))

lemma validDeviceLinkScopes_iff:
  "validDeviceLinkScopes scopes \<longleftrightarrow>
     scopes \<noteq> [] \<and> length scopes \<le> 16 \<and> distinct scopes \<and> (\<forall>scope\<in>set scopes. scope_ok scope)"
  by (auto simp: validDeviceLinkScopes_def scopes_loop_iff)

text \<open>What does not depend on the clock, and what does.\<close>

definition grant_shape :: "primitives \<Rightarrow> string \<Rightarrow> DeviceLinkGrantClaims \<Rightarrow> bool" where
  "grant_shape P expectedIssuer c \<longleftrightarrow>
     (dc_Issuer c \<noteq> [] \<and> dc_Audience c = DeviceLinkGrantAudience \<and> dc_GrantID c \<noteq> [] \<and> dc_ClientID c \<noteq> [] \<and>
      dc_DeviceID c \<noteq> [] \<and> dc_ClientID c \<noteq> dc_DeviceID c \<and> dc_RelayNodeID c \<noteq> [] \<and> dc_RelayCellID c \<noteq> [] \<and>
      dc_TargetConnectionEpoch c \<noteq> 0 \<and> dc_ClientIdentityKeyVersion c \<noteq> 0 \<and> dc_DeviceIdentityKeyVersion c \<noteq> 0 \<and>
      dc_ClientGrantVersion c \<noteq> 0 \<and> dc_DeviceGrantVersion c \<noteq> 0 \<and> validDeviceLinkScopes (dc_AllowedScopes c) \<and>
      0 < dc_IssuedAt c \<and> 0 < dc_NotBefore c \<and> dc_IssuedAt c < dc_ExpiresAt c \<and>
      (expectedIssuer = [] \<or> dc_Issuer c = expectedIssuer)) \<and>
     (Persistent c \<or> dc_MaximumLifetimeSeconds c \<noteq> 0 \<and> dc_MaximumLifetimeSeconds c \<le> 15 * 60 \<and>
        dc_ExpiresAt c - dc_IssuedAt c \<le> uint (dc_MaximumLifetimeSeconds c) + 5) \<and>
     (\<exists>key. length key = Ed25519PublicKeySize \<and> dc_ClientIdentityKey c = EncodeToString key \<and>
        dc_ClientKeyThumbprint c = PublicKeyThumbprint P key) \<and>
     length (dc_ClientKeyThumbprint c) = 43 \<and> length (dc_DeviceKeyThumbprint c) = 43"

definition grant_timely :: "duration \<Rightarrow> instant \<Rightarrow> DeviceLinkGrantClaims \<Rightarrow> bool" where
  "grant_timely leeway now c \<longleftrightarrow>
     dc_NotBefore c \<le> Unix (now + leeway) \<and> (Persistent c \<or> Unix (now - leeway) < dc_ExpiresAt c)"

lemma client_key_iff:
  "(case DecodeIdentityPublicKey P (dc_ClientIdentityKey c) (dc_ClientKeyThumbprint c) of
      Inl _ \<Rightarrow> Some ErrDeviceLinkGrant
    | Inr clientKey \<Rightarrow>
        if length clientKey \<noteq> Ed25519PublicKeySize \<or> length (dc_ClientKeyThumbprint c) \<noteq> 43 \<or> length (dc_DeviceKeyThumbprint c) \<noteq> 43
        then Some ErrDeviceLinkGrant else None) = None \<longleftrightarrow>
   (\<exists>key. length key = Ed25519PublicKeySize \<and> dc_ClientIdentityKey c = EncodeToString key \<and>
      dc_ClientKeyThumbprint c = PublicKeyThumbprint P key) \<and>
   length (dc_ClientKeyThumbprint c) = 43 \<and> length (dc_DeviceKeyThumbprint c) = 43"
proof (cases "DecodeIdentityPublicKey P (dc_ClientIdentityKey c) (dc_ClientKeyThumbprint c)")
  case (Inl err)
  then have "\<not> (length key = Ed25519PublicKeySize \<and> dc_ClientIdentityKey c = EncodeToString key \<and>
      dc_ClientKeyThumbprint c = PublicKeyThumbprint P key)" for key
    unfolding DecodeIdentityPublicKey_iff [symmetric] by simp
  then show ?thesis unfolding Inl sum.case by blast
next
  case (Inr key)
  then have "length key = Ed25519PublicKeySize \<and> dc_ClientIdentityKey c = EncodeToString key \<and>
      dc_ClientKeyThumbprint c = PublicKeyThumbprint P key"
    unfolding DecodeIdentityPublicKey_iff .
  then show ?thesis unfolding Inr sum.case by simp
qed

lemma guards_None: "(if A then Some e else if B then Some e else if C then Some e else r) = None \<longleftrightarrow> \<not> A \<and> \<not> B \<and> \<not> C \<and> r = None"
  by simp

lemma regroup: "(a \<and> b \<and> t \<and> d) = ((a \<and> b \<and> d) \<and> t)"
  by blast

lemma Grant_Validate_iff:
  "Grant_Validate P c expectedIssuer now leeway = None \<longleftrightarrow> grant_shape P expectedIssuer c \<and> grant_timely leeway now c"
  unfolding Grant_Validate_def guards_None client_key_iff grant_shape_def grant_timely_def
    de_Morgan_disj de_Morgan_conj not_not not_le not_less
  by (rule regroup)

lemma Grant_Verify_iff:
  "Grant_Verify P J v token now = Inr c \<longleftrightarrow>
     token \<noteq> [] \<and> length token \<le> deviceLinkGrantMaxBytes \<and>
     (\<exists>part0 part1 part2 hb cb signature header. split_at CHR ''.'' token = [part0, part1, part2] \<and>
        DecodeString True part0 = Some hb \<and> js_decodeHeader J hb = Some header \<and>
        hd_Algorithm header = ''EdDSA'' \<and> hd_Type header = DeviceLinkGrantType \<and> hd_KeyID header \<noteq> [] \<and>
        length (fmget [] (gv_Keys v) (hd_KeyID header)) = Ed25519PublicKeySize \<and>
        DecodeString True part2 = Some signature \<and> length signature = Ed25519SignatureSize \<and>
        ed25519_verify P (fmget [] (gv_Keys v) (hd_KeyID header)) (go_bytes (part0 @ ''.'' @ part1)) signature \<and>
        DecodeString True part1 = Some cb \<and> js_decodeClaims J cb = Some c \<and>
        grant_shape P (gv_Issuer v) c \<and> grant_timely (gv_Leeway v) now c)"
  unfolding Grant_Verify_def Grant_Validate_iff [symmetric] Let_def
  by (auto split: if_splits list.splits option.splits)

subsection \<open>What is signed\<close>

text \<open>The messages that identity keys of clients and devices sign, here and in the handshake of a link.\<close>

datatype statement =
    CarrierStatement CarrierProof
  | ChallengeStatement Challenge
  | PeerOpenStatement PeerOpenIdentityProof
  | PeerReadyStatement PeerReadyIdentityProof

fun statement_bytes :: "statement \<Rightarrow> bytes option" where
  "statement_bytes (CarrierStatement p) = (if validCarrierProof p then Some (canonicalCarrierProof p) else None)"
| "statement_bytes (ChallengeStatement c) = (case challenge_bytes c of Inl _ \<Rightarrow> None | Inr b \<Rightarrow> Some b)"
| "statement_bytes (PeerOpenStatement p) = (case peer_open_bytes p of Inl _ \<Rightarrow> None | Inr b \<Rightarrow> Some b)"
| "statement_bytes (PeerReadyStatement p) = (case peer_ready_bytes p of Inl _ \<Rightarrow> None | Inr b \<Rightarrow> Some b)"

text \<open>
  A statement as length-prefixed fields and a rest of fixed length; a deadline
  is signed in milliseconds modulo \<open>2 ^ 64\<close>.
\<close>

fun statement_fields :: "statement \<Rightarrow> bytes list" where
  "statement_fields (CarrierStatement p) =
     [go_bytes ''wenzwork-remote-v2/carrier-proof'', go_bytes (cp_GrantID p), go_bytes (cp_CarrierID p)]"
| "statement_fields (ChallengeStatement c) =
     [go_bytes ''wenzwork-relay-proof-v1'', ch_Nonce c, go_bytes (ch_TicketJWTID c), go_bytes (ch_CellID c), go_bytes (ch_NodeID c)]"
| "statement_fields (PeerOpenStatement p) =
     [go_bytes ''wenzwork-relay-peer-open-v1'', go_bytes (po_TicketJWTID p), go_bytes (po_SessionID p),
      go_bytes (po_SourceDeviceID p), go_bytes (po_TargetDeviceID p), po_EphemeralPublicKey p]"
| "statement_fields (PeerReadyStatement p) =
     [go_bytes ''wenzwork-relay-peer-ready-v1'', go_bytes (pr_TicketJWTID p), go_bytes (pr_SessionID p),
      go_bytes (pr_SourceDeviceID p), go_bytes (pr_TargetDeviceID p), pr_SourceEphemeralPublicKey p, pr_TargetEphemeralPublicKey p]"

fun statement_rest :: "statement \<Rightarrow> bytes" where
  "statement_rest (CarrierStatement p) = big_endian 8 (cp_CarrierEpoch p) @ frame_bytes (cp_Challenge p)"
| "statement_rest (ChallengeStatement c) =
     big_endian 8 (ch_ConnectionEpoch c) @ big_endian 8 (word_of_int (UnixMilli (ch_Deadline c)) :: u64)"
| "statement_rest _ = []"

definition signable :: "statement \<Rightarrow> bool" where
  "signable s \<longleftrightarrow> (\<forall>field\<in>set (statement_fields s). short field)"

fun signed_content :: "statement \<Rightarrow> statement" where
  "signed_content (ChallengeStatement c) =
     ChallengeStatement (c\<lparr>ch_Deadline := uint (word_of_int (UnixMilli (ch_Deadline c)) :: u64)\<rparr>)"
| "signed_content s = s"

lemma statement_bytes_eq:
  "statement_bytes s = Some b \<Longrightarrow> b = concat (map frame_bytes (statement_fields s)) @ statement_rest s"
  by (cases s) (auto simp: canonicalCarrierProof_def challenge_bytes_def peer_open_bytes_def peer_ready_bytes_def
      appendBytes_frame Let_def split: if_splits)

lemma carrier_challenge: "statement_bytes (CarrierStatement p) = Some b \<Longrightarrow> length (cp_Challenge p) = 32"
  by (simp add: validCarrierProof_def split: if_splits)

text \<open>The first field is the purpose of the signature, one for each kind of statement.\<close>

lemma statement_kind:
  assumes "concat (map frame_bytes (statement_fields s)) @ statement_rest s = concat (map frame_bytes (statement_fields t)) @ statement_rest t"
    and "signable s" and "signable t"
  shows "hd (statement_fields s) = hd (statement_fields t)"
proof -
  obtain x xs y ys where f: "statement_fields s = x # xs" "statement_fields t = y # ys"
    by (cases s; cases t) auto
  with assms frame_bytes_inj [of x "concat (map frame_bytes xs) @ statement_rest s" y] show ?thesis
    by (simp add: signable_def)
qed

subsection \<open>From the issuer to the verifier\<close>

lemma Grant_Sign_Inr:
  assumes "Grant_Sign P J issuer claims = Inr token"
  shows "\<exists>header payload. gi_KeyID issuer \<noteq> [] \<and>
    js_marshalHeader J (grant_header (gi_KeyID issuer)) = Some header \<and>
    js_marshalClaims J (claims\<lparr>dc_Issuer := gi_Issuer issuer\<rparr>) = Some payload \<and>
    token = signed_token P (gi_PrivateKey issuer) header payload \<and>
    grant_shape P (gi_Issuer issuer) (claims\<lparr>dc_Issuer := gi_Issuer issuer\<rparr>)"
proof -
  let ?c = "if dc_Issuer claims = [] then claims\<lparr>dc_Issuer := gi_Issuer issuer\<rparr> else claims"
  have "dc_Issuer ?c = gi_Issuer issuer" using assms by (auto simp: Grant_Sign_def Let_def split: if_splits)
  then have c: "?c = claims\<lparr>dc_Issuer := gi_Issuer issuer\<rparr>" by (auto split: if_splits)
  show ?thesis
    using assms unfolding Grant_Sign_def Let_def c
    by (auto simp: Grant_Validate_iff split: if_splits option.splits)
qed

lemma Grant_Verify_signed:
  assumes "signatures_verify P" and "Grant_Sign P J issuer claims = Inr token" and "length token \<le> deviceLinkGrantMaxBytes"
    and "json_faithful J (grant_header (gi_KeyID issuer)) (claims\<lparr>dc_Issuer := gi_Issuer issuer\<rparr>)"
    and "fmlookup (gv_Keys verifier) (gi_KeyID issuer) = Some (ed25519_public P (gi_PrivateKey issuer))"
  shows "Grant_Verify P J verifier token now =
    (if Grant_Validate P (claims\<lparr>dc_Issuer := gi_Issuer issuer\<rparr>) (gv_Issuer verifier) now (gv_Leeway verifier) \<noteq> None
     then Inl ErrDeviceLinkGrant else Inr (claims\<lparr>dc_Issuer := gi_Issuer issuer\<rparr>))"
proof -
  let ?c = "claims\<lparr>dc_Issuer := gi_Issuer issuer\<rparr>" and ?key = "ed25519_public P (gi_PrivateKey issuer)"
  obtain header payload where t: "gi_KeyID issuer \<noteq> []"
      "js_marshalHeader J (grant_header (gi_KeyID issuer)) = Some header" "js_marshalClaims J ?c = Some payload"
      "token = signed_token P (gi_PrivateKey issuer) header payload"
    using Grant_Sign_Inr [OF assms(2)] by blast
  have codec: "js_decodeHeader J header = Some (grant_header (gi_KeyID issuer))" "js_decodeClaims J payload = Some ?c"
    using assms(4) t(2,3) by (simp_all add: json_faithful_def)
  have key: "fmget [] (gv_Keys verifier) (gi_KeyID issuer) = ?key" "length ?key = Ed25519PublicKeySize"
    using assms(1,5) by (simp_all add: fmget_def signatures_verify_def size_defs)
  have "token \<noteq> []" by (simp add: t(4) signed_token_def Let_def)
  then show ?thesis
    using assms(1,3) t(1) codec key
    by (simp add: Grant_Verify_def t(4) signed_token_parts grant_header_def signatures_verify_def size_defs Let_def)
qed

text \<open>The verifier looks at the length first.\<close>

lemma Grant_Verify_long: "deviceLinkGrantMaxBytes < length token \<Longrightarrow> Grant_Verify P J verifier token now = Inl ErrDeviceLinkGrant"
  by (simp add: Grant_Verify_def)

text \<open>The form of a token; the signature has 64 bytes and two dots separate the parts.\<close>

lemma signed_token_form:
  assumes "signatures_verify P"
  shows "\<exists>signature. split_at CHR ''.'' (signed_token P k h c) = [EncodeToString h, EncodeToString c, EncodeToString signature] \<and>
    set (signed_token P k h c) \<subseteq> insert CHR ''.'' (set b64_alphabet) \<and>
    (length h + length c \<le> 6077 \<longrightarrow> length (signed_token P k h c) \<le> 8192)"
proof -
  have "length (signed_token P k h c) \<le> 8192" if "length h + length c \<le> 6077"
    using that assms by (simp add: signed_token_length signatures_verify_def)
  moreover have "set (signed_token P k h c) \<subseteq> insert CHR ''.'' (set b64_alphabet)"
    using encoded_alphabet by (auto simp: signed_token_def Let_def)
  ultimately show ?thesis by (auto simp: signed_token_parts)
qed

lemma signed_token_dot: "CHR ''.'' \<in> set (signed_token P k h c)"
  by (simp add: signed_token_def Let_def)

lemma grant_timely_issuer [simp]: "grant_timely leeway now (claims\<lparr>dc_Issuer := i\<rparr>) = grant_timely leeway now claims"
  by (simp add: grant_timely_def Persistent_def)

text \<open>A grant for concrete runs.\<close>

definition sample_claims :: DeviceLinkGrantClaims where
  "sample_claims = \<lparr>dc_Issuer = ''control'', dc_Audience = DeviceLinkGrantAudience, dc_GrantID = ''g'', dc_ClientID = ''u'',
     dc_DeviceID = ''d'', dc_RelayNodeID = ''n'', dc_RelayCellID = ''x'', dc_TargetConnectionEpoch = 1,
     dc_ClientIdentityKey = EncodeToString (replicate 32 4),
     dc_ClientKeyThumbprint = PublicKeyThumbprint plain_primitives (replicate 32 4), dc_ClientIdentityKeyVersion = 1,
     dc_DeviceKeyThumbprint = EncodeToString (replicate 32 8), dc_DeviceIdentityKeyVersion = 1, dc_ClientGrantVersion = 1,
     dc_DeviceGrantVersion = 1, dc_AllowedScopes = [''remote.peer.files'', ''remote.peer.terminal''],
     dc_MaximumLifetimeSeconds = 60, dc_IssuedAt = 100, dc_NotBefore = 100, dc_ExpiresAt = 160\<rparr>"

definition sample_json :: grant_json where
  "sample_json = \<lparr>js_marshalHeader = (\<lambda>h. if h = grant_header ''k1'' then Some [1] else None),
     js_marshalClaims = (\<lambda>c. if c = sample_claims then Some [2, 3] else None),
     js_decodeHeader = (\<lambda>b. if b = [1] then Some (grant_header ''k1'') else None),
     js_decodeClaims = (\<lambda>b. if b = [2, 3] then Some sample_claims else None)\<rparr>"

definition sample_issuer :: DeviceLinkGrantIssuer where
  "sample_issuer = \<lparr>gi_Issuer = ''control'', gi_KeyID = ''k1'', gi_PrivateKey = replicate 64 7\<rparr>"

definition sample_verifier :: DeviceLinkGrantVerifier where
  "sample_verifier = \<lparr>gv_Issuer = ''control'',
     gv_Keys = fmap_of_list [(''k1'', ed25519_public plain_primitives (replicate 64 7))], gv_Leeway = 2 * Second\<rparr>"

definition sample_token :: string where
  "sample_token = signed_token plain_primitives (replicate 64 7) [1] [2, 3]"

lemma sample_shape: "grant_shape plain_primitives ''control'' sample_claims"
proof -
  have "length (EncodeToString (replicate 32 (n :: 8 word))) = 43" for n by (simp add: Encode_length)
  then have len: "length (dc_ClientKeyThumbprint sample_claims) = 43" "length (dc_DeviceKeyThumbprint sample_claims) = 43"
    by (simp_all add: sample_claims_def PublicKeyThumbprint_def plain_primitives_def)
  have scopes: "validDeviceLinkScopes (dc_AllowedScopes sample_claims)" by code_simp
  have "\<exists>key. length key = Ed25519PublicKeySize \<and> dc_ClientIdentityKey sample_claims = EncodeToString key \<and>
      dc_ClientKeyThumbprint sample_claims = PublicKeyThumbprint plain_primitives key"
    by (rule exI [of _ "replicate 32 4"]) (simp add: sample_claims_def size_defs)
  moreover have "dc_MaximumLifetimeSeconds sample_claims \<noteq> 0 \<and> dc_MaximumLifetimeSeconds sample_claims \<le> 15 * 60 \<and>
      dc_ExpiresAt sample_claims - dc_IssuedAt sample_claims \<le> uint (dc_MaximumLifetimeSeconds sample_claims) + 5"
    by (simp add: sample_claims_def word_le_nat_alt)
  ultimately show ?thesis
    unfolding grant_shape_def using len scopes by (intro conjI disjI2) (simp_all add: sample_claims_def)
qed

lemma sample_signed: "Grant_Sign plain_primitives sample_json sample_issuer sample_claims = Inr sample_token"
proof -
  have "Grant_Validate plain_primitives sample_claims ''control'' (time_Unix (dc_IssuedAt sample_claims)) 0 = None"
    using sample_shape unfolding Grant_Validate_iff by (simp add: grant_timely_def) (simp add: sample_claims_def)
  then show ?thesis
    by (simp add: Grant_Sign_def sample_issuer_def sample_json_def size_defs sample_token_def Let_def) (simp add: sample_claims_def)
qed

subsection \<open>Properties\<close>

text \<open>
  C3. A grant comes back from the relay as the control plane signed it. The
  token the issuer signs is three parts of URL-safe base64 without padding,
  separated by dots; under the issuer's public key and name it verifies to the
  claims that were signed, with the issuer filled in, exactly when it is not
  longer than eight kibibytes and the time is one the claims allow with the
  verifier's leeway, and is refused otherwise. The issuer does not look at the
  length; a token fits when the encoded header and claims have at most 6077
  bytes together.
\<close>

theorem grant_roundtrip:
  assumes "signatures_verify P"
    and "Grant_Sign P J issuer claims = Inr token"
    and "json_faithful J (grant_header (gi_KeyID issuer)) (claims\<lparr>dc_Issuer := gi_Issuer issuer\<rparr>)"
    and "fmlookup (gv_Keys verifier) (gi_KeyID issuer) = Some (ed25519_public P (gi_PrivateKey issuer))"
    and "gv_Issuer verifier = gi_Issuer issuer"
  shows "Grant_Verify P J verifier token now =
      (if length token \<le> 8192 \<and> grant_timely (gv_Leeway verifier) now claims then Inr (claims\<lparr>dc_Issuer := gi_Issuer issuer\<rparr>)
       else Inl ErrDeviceLinkGrant) \<and>
    (\<exists>header payload signature.
       js_marshalHeader J (grant_header (gi_KeyID issuer)) = Some header \<and>
       js_marshalClaims J (claims\<lparr>dc_Issuer := gi_Issuer issuer\<rparr>) = Some payload \<and>
       split_at CHR ''.'' token = [EncodeToString header, EncodeToString payload, EncodeToString signature] \<and>
       set token \<subseteq> insert CHR ''.'' (set b64_alphabet) \<and>
       (length header + length payload \<le> 6077 \<longrightarrow> length token \<le> 8192))"
proof -
  obtain header payload where t: "js_marshalHeader J (grant_header (gi_KeyID issuer)) = Some header"
      "js_marshalClaims J (claims\<lparr>dc_Issuer := gi_Issuer issuer\<rparr>) = Some payload"
      "token = signed_token P (gi_PrivateKey issuer) header payload"
      "grant_shape P (gi_Issuer issuer) (claims\<lparr>dc_Issuer := gi_Issuer issuer\<rparr>)"
    using Grant_Sign_Inr [OF assms(2)] by blast
  have "Grant_Verify P J verifier token now =
      (if length token \<le> 8192 \<and> grant_timely (gv_Leeway verifier) now claims then Inr (claims\<lparr>dc_Issuer := gi_Issuer issuer\<rparr>)
       else Inl ErrDeviceLinkGrant)"
    using Grant_Verify_signed [OF assms(1,2) _ assms(3,4)] Grant_Verify_long [of token P J verifier now] t(4) assms(5)
    by (cases "length token \<le> 8192") (auto simp: Grant_Validate_iff deviceLinkGrantMaxBytes_def)
  with t(1,2) signed_token_form [OF assms(1), of "gi_PrivateKey issuer" header payload] show ?thesis
    unfolding t(3) by blast
qed

theorem grant_roundtrip_witness:
  "Grant_Verify plain_primitives sample_json sample_verifier sample_token (time_Unix 120) = Inr sample_claims \<and>
   Grant_Verify plain_primitives sample_json sample_verifier sample_token (time_Unix 170) = Inl ErrDeviceLinkGrant"
proof -
  have c: "sample_claims\<lparr>dc_Issuer := ''control''\<rparr> = sample_claims" by (simp add: sample_claims_def)
  have len: "length sample_token \<le> 8192"
    by (simp add: sample_token_def signed_token_length plain_primitives_def)
  have "Grant_Verify plain_primitives sample_json sample_verifier sample_token now =
      (if grant_timely (2 * Second) now sample_claims then Inr sample_claims else Inl ErrDeviceLinkGrant)" for now
    using grant_roundtrip [OF plain_sizes(2) sample_signed, of sample_verifier now] len
    by (simp add: sample_issuer_def sample_verifier_def json_faithful_def sample_json_def c)
  then show ?thesis
    by (simp add: grant_timely_def Persistent_def Unix_def time_Unix_def duration_defs unix_epoch_def) (simp add: sample_claims_def)
qed

text \<open>
  C12. What a client or a device signs with its identity key can be used for
  nothing else: over the carrier proof, the relay challenge and the two proofs
  of a peer session, whose canonical forms are length-prefixed and begin with
  their purpose, two statements with the same signed bytes are of the same
  kind and agree in every field (the deadline of a challenge to the
  millisecond, modulo \<open>2 ^ 64\<close>), as long as no field is longer than the
  prefix can tell.
\<close>

theorem signed_statements_bind:
  assumes s: "statement_bytes s = Some b" and t: "statement_bytes t = Some b" and short: "signable s" "signable t"
  shows "signed_content s = signed_content t"
proof -
  have eq: "concat (map frame_bytes (statement_fields s)) @ statement_rest s =
      concat (map frame_bytes (statement_fields t)) @ statement_rest t"
    using statement_bytes_eq [OF s] statement_bytes_eq [OF t] by simp
  have kind: "hd (statement_fields s) = hd (statement_fields t)" by (rule statement_kind [OF eq short])
  then have "length (statement_fields s) = length (statement_fields t)"
    by (cases s; cases t) simp_all
  from frames_inj [OF eq this] short
  have same: "statement_fields s = statement_fields t" "statement_rest s = statement_rest t" by (auto simp: signable_def)
  show ?thesis
  proof (cases s)
    case (CarrierStatement p)
    with kind obtain q where q: "t = CarrierStatement q" by (cases t) simp_all
    have n: "length (cp_Challenge p) = 32" "length (cp_Challenge q) = 32"
      using carrier_challenge s t CarrierStatement q by blast+
    from same CarrierStatement q have "big_endian 8 (cp_CarrierEpoch p) = big_endian 8 (cp_CarrierEpoch q)"
      "frame_bytes (cp_Challenge p) = frame_bytes (cp_Challenge q)" by simp_all
    then have "cp_CarrierEpoch p = cp_CarrierEpoch q" "cp_Challenge p = cp_Challenge q"
      using big_endian_inj [of 8 "cp_CarrierEpoch p"] frame_bytes_inj [of "cp_Challenge p" "[]" "cp_Challenge q" "[]"] n by simp_all
    with same CarrierStatement q show ?thesis by simp
  next
    case (ChallengeStatement p)
    with kind obtain q where q: "t = ChallengeStatement q" by (cases t) simp_all
    from same ChallengeStatement q have "big_endian 8 (ch_ConnectionEpoch p) = big_endian 8 (ch_ConnectionEpoch q)"
      "big_endian 8 (word_of_int (UnixMilli (ch_Deadline p)) :: u64) = big_endian 8 (word_of_int (UnixMilli (ch_Deadline q)) :: u64)"
      by simp_all
    then have "ch_ConnectionEpoch p = ch_ConnectionEpoch q"
      "(word_of_int (UnixMilli (ch_Deadline p)) :: u64) = word_of_int (UnixMilli (ch_Deadline q))"
      using big_endian_inj [of 8 "ch_ConnectionEpoch p"] big_endian_inj [of 8 "word_of_int (UnixMilli (ch_Deadline p)) :: u64"] by simp_all
    with same ChallengeStatement q show ?thesis by simp
  next
    case (PeerOpenStatement p)
    with kind same show ?thesis by (cases t) simp_all
  next
    case (PeerReadyStatement p)
    with kind same show ?thesis by (cases t) simp_all
  qed
qed

definition sample_proof :: "u64 \<Rightarrow> CarrierProof" where
  "sample_proof epoch = \<lparr>cp_GrantID = ''g'', cp_CarrierID = ''c'', cp_CarrierEpoch = epoch, cp_Challenge = replicate 32 6\<rparr>"

theorem signed_statements_bind_witness:
  "statement_bytes (CarrierStatement (sample_proof 1)) \<noteq> None \<and>
   statement_bytes (CarrierStatement (sample_proof 1)) \<noteq> statement_bytes (CarrierStatement (sample_proof 2))"
proof -
  have valid: "validCarrierProof (sample_proof 1)" "validCarrierProof (sample_proof 2)" by code_simp+
  have short: "signable (CarrierStatement (sample_proof n))" for n
    by (simp add: signable_def sample_proof_def go_bytes_def)
  from signed_statements_bind [of "CarrierStatement (sample_proof 1)" _ "CarrierStatement (sample_proof 2)", OF _ _ short short] valid
  show ?thesis by (auto simp: sample_proof_def)
qed

end
