(* ===== verification/V2_Hub.thy ===== *)
theory V2_Hub
  imports V2_Carrier Route_Registry Device_Link_Grant
begin

text \<open>
  The hub of a remote/v2 relay, \<open>server/internal/relayserver/v2_hub.go\<close>: which
  carriers are attached, which of them is the current one of a device, and
  which link between a client and a device is bound to which carriers. The
  carriers are shared objects: a world holds the hub, a heap of carriers
  addressed by reference, and the budget their queues share. An iteration over
  a Go map visits the keys in any order; \<open>ord\<close> stands for that order.
\<close>

subsection \<open>State\<close>

definition v2LinkRouteGrace :: duration where "v2LinkRouteGrace = 5 * Minute"
definition v2MaximumLinkRoutes :: nat where "v2MaximumLinkRoutes = 65536"

record v2LinkRoute =
  lr_linkID :: string
  lr_clientID :: string
  lr_deviceID :: string
  lr_clientCarrierID :: string
  lr_targetEpoch :: u64
  lr_clientSuspendedUntil :: instant
  lr_deviceSuspendedUntil :: instant

type_synonym carrier_ref = nat

record V2Hub =
  hub_carriers :: "(string, carrier_ref) fmap"
  hub_deviceCarriers :: "(string, string) fmap"
  hub_deviceRoutes :: "(string, Route) fmap"
  hub_links :: "(string, v2LinkRoute) fmap"
  hub_routeChanges :: bool

record world =
  w_hub :: V2Hub
  w_heap :: "carrier_ref \<Rightarrow> v2Carrier"
  w_budget :: "V2QueueBudget option"

type_synonym map_order = "string fset \<Rightarrow> string list"

definition NewV2Hub :: V2Hub where
  "NewV2Hub = \<lparr>hub_carriers = fmempty, hub_deviceCarriers = fmempty, hub_deviceRoutes = fmempty,
     hub_links = fmempty, hub_routeChanges = False\<rparr>"

text \<open>An operation of the carrier at a reference, and the lookups \<open>hub.carriers[hub.deviceCarriers[d]]\<close>.\<close>

definition on_carrier :: "carrier_ref \<Rightarrow> (carrier_state \<Rightarrow> carrier_state \<times> 'r) \<Rightarrow> world \<Rightarrow> world \<times> 'r" where
  "on_carrier ref f w =
     (case f (w_heap w ref, w_budget w) of
        ((c, b), r) \<Rightarrow> (w\<lparr>w_heap := (w_heap w)(ref := c), w_budget := b\<rparr>, r))"

definition close_ref :: "carrier_ref \<Rightarrow> world \<Rightarrow> world" where
  "close_ref ref w = fst (on_carrier ref (\<lambda>cb. (carrier_close cb, ())) w)"

definition set_hub :: "V2Hub \<Rightarrow> world \<Rightarrow> world" where
  "set_hub hub w = w\<lparr>w_hub := hub\<rparr>"

definition device_carrier :: "V2Hub \<Rightarrow> string \<Rightarrow> carrier_ref option" where
  "device_carrier hub deviceID = fmlookup (hub_carriers hub) (fmget [] (hub_deviceCarriers hub) deviceID)"

definition signalRouteChange :: "world \<Rightarrow> world" where
  "signalRouteChange w = set_hub ((w_hub w)\<lparr>hub_routeChanges := True\<rparr>) w"

definition reject_on ::
  "(CarrierEnvelope \<Rightarrow> int) \<Rightarrow> carrier_ref \<Rightarrow> string \<Rightarrow> string \<Rightarrow> string \<Rightarrow> ProtocolErrorCode \<Rightarrow> world \<Rightarrow>
     world \<times> v2_error option" where
  "reject_on ps ref linkID channelID streamID reason w =
     on_carrier ref (rejectStreamWithReason ps linkID channelID streamID reason) w"

definition sendV2LinkRouteStale ::
  "(CarrierEnvelope \<Rightarrow> int) \<Rightarrow> carrier_ref \<Rightarrow> string \<Rightarrow> world \<Rightarrow> world \<times> v2_error option" where
  "sendV2LinkRouteStale ps ref linkID w =
     (if linkID = [] then (w, Some ErrV2Route) else reject_on ps ref linkID [] [] ERROR_ROUTE_STALE w)"

definition rejectUnknownV2Link ::
  "(CarrierEnvelope \<Rightarrow> int) \<Rightarrow> carrier_ref \<Rightarrow> string \<Rightarrow> world \<Rightarrow> world \<times> v2_error option" where
  "rejectUnknownV2Link ps ref linkID w =
     (if linkID = [] then (w, Some ErrV2Route) else reject_on ps ref linkID [] [] ERROR_STREAM_NOT_FOUND w)"

subsection \<open>Expiry\<close>

definition link_expired :: "instant \<Rightarrow> v2LinkRoute \<Rightarrow> bool" where
  "link_expired now route \<longleftrightarrow>
     (\<not> IsZero (lr_clientSuspendedUntil route) \<and> \<not> After (lr_clientSuspendedUntil route) now) \<or>
     (\<not> IsZero (lr_deviceSuspendedUntil route) \<and> \<not> After (lr_deviceSuspendedUntil route) now)"

definition prune_link ::
  "(CarrierEnvelope \<Rightarrow> int) \<Rightarrow> instant \<Rightarrow> string \<Rightarrow> world \<Rightarrow> world" where
  "prune_link ps now linkID w =
     (case fmlookup (hub_links (w_hub w)) linkID of
        None \<Rightarrow> w
      | Some route \<Rightarrow>
          if \<not> link_expired now route then w
          else
            (let w = set_hub ((w_hub w)\<lparr>hub_links := fmdrop linkID (hub_links (w_hub w))\<rparr>) w
             in case device_carrier (w_hub w) (lr_deviceID route) of
                 None \<Rightarrow> w
               | Some target \<Rightarrow> fst (reject_on ps target linkID [] [] ERROR_RESUME_EXPIRED w)))"

definition pruneExpiredLocked :: "(CarrierEnvelope \<Rightarrow> int) \<Rightarrow> map_order \<Rightarrow> instant \<Rightarrow> world \<Rightarrow> world" where
  "pruneExpiredLocked ps ord now w = fold (prune_link ps now) (ord (fmdom (hub_links (w_hub w)))) w"

subsection \<open>Attaching and detaching carriers\<close>

definition attachClient :: "carrier_ref \<Rightarrow> world \<Rightarrow> world \<times> v2_error option" where
  "attachClient ref w =
     (let carrier = w_heap w ref; hub = w_hub w
      in if vc_role carrier \<noteq> v2CarrierClient \<or> vc_clientID carrier = [] \<or> vc_deviceID carrier = [] then (w, Some ErrV2Route)
         else if fmlookup (hub_carriers hub) (vc_id carrier) \<notin> {None, Some ref} then (w, Some ErrV2Route)
         else (set_hub (hub\<lparr>hub_carriers := fmupd (vc_id carrier) ref (hub_carriers hub)\<rparr>) w, None))"

definition retarget_links :: "v2Carrier \<Rightarrow> V2Hub \<Rightarrow> V2Hub" where
  "retarget_links carrier hub = hub\<lparr>hub_links := fmmap (\<lambda>route.
     if lr_deviceID route = vc_deviceID carrier
     then route\<lparr>lr_targetEpoch := vc_epoch carrier, lr_deviceSuspendedUntil := 0\<rparr> else route) (hub_links hub)\<rparr>"

text \<open>The links of the device whose client carrier is attached, with that carrier.\<close>

definition stale_client_links :: "map_order \<Rightarrow> string \<Rightarrow> V2Hub \<Rightarrow> (carrier_ref \<times> string) list" where
  "stale_client_links ord deviceID hub =
     List.map_filter (\<lambda>linkID.
       case fmlookup (hub_links hub) linkID of
         None \<Rightarrow> None
       | Some route \<Rightarrow>
           if lr_deviceID route \<noteq> deviceID then None
           else map_option (\<lambda>target. (target, linkID)) (fmlookup (hub_carriers hub) (lr_clientCarrierID route)))
       (ord (fmdom (hub_links hub)))"

definition attachDeviceBeforePublish ::
  "(CarrierEnvelope \<Rightarrow> int) \<Rightarrow> map_order \<Rightarrow> instant \<Rightarrow> carrier_ref \<Rightarrow> Route \<Rightarrow>
     (carrier_state \<Rightarrow> carrier_state \<times> v2_error option) option \<Rightarrow> world \<Rightarrow> world \<times> v2_error option" where
  "attachDeviceBeforePublish ps ord now ref route beforePublish w =
     (let carrier = w_heap w ref
      in if vc_role carrier \<noteq> v2CarrierDevice \<or> vc_deviceID carrier = [] \<or> rt_DeviceID route \<noteq> vc_deviceID carrier \<or>
           rt_ConnectionID route \<noteq> vc_id carrier \<or> rt_ConnectionEpoch route \<noteq> vc_epoch carrier \<or> rt_ProtocolVersion route \<noteq> 2
         then (w, Some ErrV2Route)
         else
           (let w = pruneExpiredLocked ps ord now w; hub = w_hub w;
                previousID = fmget [] (hub_deviceCarriers hub) (vc_deviceID carrier);
                previous = fmlookup (hub_carriers hub) previousID
            in if fmlookup (hub_carriers hub) (vc_id carrier) \<notin> {None, Some ref} then (w, Some ErrV2Route)
               else if previous \<noteq> None \<and> previous \<noteq> Some ref \<and>
                 vc_epoch carrier \<le> vc_epoch (w_heap w (the previous)) then (w, Some ErrV2Route)
               else
                 (case (case beforePublish of None \<Rightarrow> (w, None) | Some publish \<Rightarrow> on_carrier ref publish w) of
                    (w, Some err) \<Rightarrow> (w, Some err)
                  | (w, None) \<Rightarrow>
                      (let hub = retarget_links carrier (hub
                             \<lparr>hub_carriers := fmupd (vc_id carrier) ref (hub_carriers hub),
                              hub_deviceCarriers := fmupd (vc_deviceID carrier) (vc_id carrier) (hub_deviceCarriers hub),
                              hub_deviceRoutes := fmupd (vc_deviceID carrier) route (hub_deviceRoutes hub)\<rparr>);
                           stale = stale_client_links ord (vc_deviceID carrier) hub;
                           w = set_hub hub w;
                           w = (if previous \<noteq> None \<and> previous \<noteq> Some ref then close_ref (the previous) w else w);
                           w = signalRouteChange w
                       in (fold (\<lambda>(client, linkID) w. fst (sendV2LinkRouteStale ps client linkID w)) stale w, None)))))"

definition attachDevice ::
  "(CarrierEnvelope \<Rightarrow> int) \<Rightarrow> map_order \<Rightarrow> instant \<Rightarrow> carrier_ref \<Rightarrow> Route \<Rightarrow> world \<Rightarrow> world \<times> v2_error option" where
  "attachDevice ps ord now ref route w = attachDeviceBeforePublish ps ord now ref route None w"

definition suspend_device :: "string \<Rightarrow> instant \<Rightarrow> V2Hub \<Rightarrow> V2Hub" where
  "suspend_device deviceID expires hub = hub\<lparr>hub_links := fmmap (\<lambda>route.
     if lr_deviceID route = deviceID then route\<lparr>lr_deviceSuspendedUntil := expires\<rparr> else route) (hub_links hub)\<rparr>"

definition suspend_client :: "string \<Rightarrow> instant \<Rightarrow> V2Hub \<Rightarrow> V2Hub" where
  "suspend_client carrierID expires hub = hub\<lparr>hub_links := fmmap (\<lambda>route.
     if lr_clientCarrierID route = carrierID then route\<lparr>lr_clientSuspendedUntil := expires\<rparr> else route) (hub_links hub)\<rparr>"

definition client_bound :: "string \<Rightarrow> V2Hub \<Rightarrow> bool" where
  "client_bound carrierID hub \<longleftrightarrow>
     (\<exists>linkID |\<in>| fmdom (hub_links hub). map_option lr_clientCarrierID (fmlookup (hub_links hub) linkID) = Some carrierID)"

text \<open>\<open>now\<close> and \<open>later\<close> are the two readings of the clock.\<close>

definition detach :: "(CarrierEnvelope \<Rightarrow> int) \<Rightarrow> map_order \<Rightarrow> instant \<Rightarrow> instant \<Rightarrow> carrier_ref \<Rightarrow> world \<Rightarrow> world" where
  "detach ps ord now later ref w =
     (let carrier = w_heap w ref;
          w = pruneExpiredLocked ps ord now w; hub = w_hub w
      in if fmlookup (hub_carriers hub) (vc_id carrier) \<noteq> Some ref then w
         else
           (let hub = hub\<lparr>hub_carriers := fmdrop (vc_id carrier) (hub_carriers hub)\<rparr>
            in if vc_role carrier = v2CarrierDevice \<and>
                 fmget [] (hub_deviceCarriers hub) (vc_deviceID carrier) = vc_id carrier
               then signalRouteChange (set_hub (suspend_device (vc_deviceID carrier) (later + v2LinkRouteGrace)
                 (hub\<lparr>hub_deviceCarriers := fmdrop (vc_deviceID carrier) (hub_deviceCarriers hub),
                    hub_deviceRoutes := fmdrop (vc_deviceID carrier) (hub_deviceRoutes hub)\<rparr>)) w)
               else if vc_role carrier = v2CarrierClient
               then
                 (let changed = client_bound (vc_id carrier) hub;
                      w = set_hub (suspend_client (vc_id carrier) (later + v2LinkRouteGrace) hub) w
                  in if changed then signalRouteChange w else w)
               else set_hub hub w))"

definition dropLink :: "string \<Rightarrow> world \<Rightarrow> world" where
  "dropLink linkID w =
     (if linkID = [] then w
      else set_hub ((w_hub w)\<lparr>hub_links := fmdrop linkID (hub_links (w_hub w))\<rparr>) w)"

definition owns_side :: "V2Hub \<Rightarrow> v2Carrier \<Rightarrow> v2LinkRoute \<Rightarrow> bool" where
  "owns_side hub source route \<longleftrightarrow>
     (case vc_role source of
        v2CarrierClient \<Rightarrow> lr_clientCarrierID route = vc_id source
      | v2CarrierDevice \<Rightarrow> lr_deviceID route = vc_deviceID source \<and> lr_targetEpoch route = vc_epoch source \<and>
          fmget [] (hub_deviceCarriers hub) (lr_deviceID route) = vc_id source
      | v2CarrierOther \<Rightarrow> False)"

definition dropLinkFromCarrier :: "carrier_ref \<Rightarrow> string \<Rightarrow> world \<Rightarrow> world" where
  "dropLinkFromCarrier source linkID w =
     (if linkID = [] then w
      else (case fmlookup (hub_links (w_hub w)) linkID of
          None \<Rightarrow> w
        | Some route \<Rightarrow> if owns_side (w_hub w) (w_heap w source) route then dropLink linkID w else w))"

subsection \<open>What the relay's runtime asks\<close>

definition ResidentRoutes :: "(CarrierEnvelope \<Rightarrow> int) \<Rightarrow> map_order \<Rightarrow> instant \<Rightarrow> world \<Rightarrow> world \<times> Route list" where
  "ResidentRoutes ps ord now w =
     (let w = pruneExpiredLocked ps ord now w; hub = w_hub w
      in (w, List.map_filter (\<lambda>deviceID.
           case (fmlookup (hub_deviceRoutes hub) deviceID, device_carrier hub deviceID) of
             (Some route, Some ref) \<Rightarrow>
               if vc_id (w_heap w ref) = rt_ConnectionID route \<and> vc_epoch (w_heap w ref) = rt_ConnectionEpoch route
               then Some route else None
           | _ \<Rightarrow> None) (ord (fmdom (hub_deviceRoutes hub)))))"

definition RejectResident ::
  "(CarrierEnvelope \<Rightarrow> int) \<Rightarrow> map_order \<Rightarrow> instant \<Rightarrow> string \<Rightarrow> string \<Rightarrow> u64 \<Rightarrow> world \<Rightarrow> world \<times> bool" where
  "RejectResident ps ord now deviceID connectionID epoch w =
     (if deviceID = [] \<or> connectionID = [] \<or> epoch = 0 then (w, False)
      else
        (let w = pruneExpiredLocked ps ord now w; hub = w_hub w
         in case device_carrier hub deviceID of
             None \<Rightarrow> (w, False)
           | Some ref \<Rightarrow>
               if vc_id (w_heap w ref) \<noteq> connectionID \<or> vc_epoch (w_heap w ref) \<noteq> epoch then (w, False)
               else
                 (close_ref ref (signalRouteChange (set_hub (suspend_device deviceID (now + v2LinkRouteGrace)
                    (hub\<lparr>hub_deviceCarriers := fmdrop deviceID (hub_deviceCarriers hub),
                       hub_deviceRoutes := fmdrop deviceID (hub_deviceRoutes hub)\<rparr>)) w)), True)))"

definition CloseAll :: "map_order \<Rightarrow> world \<Rightarrow> world" where
  "CloseAll ord w =
     (let refs = List.map_filter (fmlookup (hub_carriers (w_hub w))) (ord (fmdom (hub_carriers (w_hub w))))
      in fold close_ref refs (signalRouteChange (set_hub ((w_hub w)\<lparr>hub_carriers := fmempty,
           hub_deviceCarriers := fmempty, hub_deviceRoutes := fmempty, hub_links := fmempty\<rparr>) w)))"

definition ActiveCarriers :: "world \<Rightarrow> int" where
  "ActiveCarriers w = int (fmlen (hub_carriers (w_hub w)))"

definition ActiveLinkRoutes :: "(CarrierEnvelope \<Rightarrow> int) \<Rightarrow> map_order \<Rightarrow> instant \<Rightarrow> world \<Rightarrow> world \<times> int" where
  "ActiveLinkRoutes ps ord now w =
     (let w = pruneExpiredLocked ps ord now w in (w, int (fmlen (hub_links (w_hub w)))))"

definition hasDevice :: "string \<Rightarrow> u64 \<Rightarrow> world \<Rightarrow> bool" where
  "hasDevice deviceID epoch w \<longleftrightarrow> deviceID \<noteq> [] \<and> epoch \<noteq> 0 \<and>
     (case device_carrier (w_hub w) deviceID of
        None \<Rightarrow> False
      | Some ref \<Rightarrow> vc_epoch (w_heap w ref) = epoch)"

subsection \<open>Routing\<close>

text \<open>
  The critical section of \<open>routeClientLink\<close> ends in one of these: an error, a
  stale device, an unknown link, or a plan for what follows outside the mutex
  (is there a route, the target, is its epoch the link's, was the link created
  now, which links it superseded).
\<close>

datatype client_plan =
    PlanRefused v2_error
  | PlanStale
  | PlanUnknown
  | PlanDeliver bool "carrier_ref option" bool bool "v2LinkRoute list"

definition init_matches :: "DeviceLinkGrantClaims \<Rightarrow> string \<Rightarrow> LinkInit \<Rightarrow> bool" where
  "init_matches claims linkID init \<longleftrightarrow>
     \<not> (li_LinkId init \<noteq> linkID \<or> li_GrantId init \<noteq> dc_GrantID claims \<or> li_DeviceConnectionGrant init = [] \<or>
        li_ClientId init \<noteq> dc_ClientID claims \<or> li_DeviceId init \<noteq> dc_DeviceID claims \<or>
        li_RelayNodeId init \<noteq> dc_RelayNodeID claims \<or> li_RelayCellId init \<noteq> dc_RelayCellID claims \<or>
        li_TargetConnectionEpoch init \<noteq> dc_TargetConnectionEpoch claims \<or>
        li_ClientIdentityKeyVersion init \<noteq> dc_ClientIdentityKeyVersion claims)"

definition persistent_route :: "DeviceLinkGrantClaims \<Rightarrow> v2Carrier \<Rightarrow> Route option \<Rightarrow> bool" where
  "persistent_route claims target current \<longleftrightarrow>
     Persistent claims \<and> dc_TargetConnectionEpoch claims \<le> vc_epoch target \<and>
     (case current of
        None \<Rightarrow> False
      | Some route \<Rightarrow> rt_DeviceID route = dc_DeviceID claims \<and> rt_ConnectionID route = vc_id target \<and>
          rt_ConnectionEpoch route = vc_epoch target \<and> rt_GrantVersion route = dc_DeviceGrantVersion claims)"

definition superseded_by :: "string \<Rightarrow> DeviceLinkGrantClaims \<Rightarrow> string \<Rightarrow> string \<Rightarrow> v2LinkRoute \<Rightarrow> bool" where
  "superseded_by linkID claims sourceID existingID existing \<longleftrightarrow>
     existingID \<noteq> linkID \<and>
     ((lr_clientID existing = dc_ClientID claims \<and> lr_deviceID existing = dc_DeviceID claims) \<or>
      lr_clientCarrierID existing = sourceID)"

definition deliver_plan :: "DeviceLinkGrantClaims \<Rightarrow> string \<Rightarrow> bool \<Rightarrow> v2LinkRoute list \<Rightarrow> world \<Rightarrow> client_plan" where
  "deliver_plan claims linkID created superseded w =
     (let hub = w_hub w; resolved = fmlookup (hub_links hub) linkID;
          target = device_carrier hub (dc_DeviceID claims)
      in PlanDeliver (resolved \<noteq> None) target
           (case (target, resolved) of
              (Some ref, Some route) \<Rightarrow> vc_epoch (w_heap w ref) = lr_targetEpoch route
            | (Some ref, None) \<Rightarrow> vc_epoch (w_heap w ref) = 0
            | (None, _) \<Rightarrow> False) created superseded)"

definition create_link ::
  "map_order \<Rightarrow> carrier_ref \<Rightarrow> DeviceLinkGrantClaims \<Rightarrow> string \<Rightarrow> world \<Rightarrow> world \<times> client_plan" where
  "create_link ord source claims linkID w =
     (let hub = w_hub w
      in case device_carrier hub (dc_DeviceID claims) of
          None \<Rightarrow> (w, PlanStale)
        | Some target \<Rightarrow>
            if vc_epoch (w_heap w target) \<noteq> dc_TargetConnectionEpoch claims \<and>
              \<not> persistent_route claims (w_heap w target) (fmlookup (hub_deviceRoutes hub) (dc_DeviceID claims))
            then (w, PlanStale)
            else
              (let stale = superseded_by linkID claims (vc_id (w_heap w source));
                   superseded = List.map_filter (\<lambda>existingID.
                     case fmlookup (hub_links hub) existingID of
                       None \<Rightarrow> None
                     | Some existing \<Rightarrow> if stale existingID existing then Some existing else None)
                     (ord (fmdom (hub_links hub)));
                   hub = hub\<lparr>hub_links := fmkeep (\<lambda>existingID existing. \<not> stale existingID existing) (hub_links hub)\<rparr>
               in if fmlen (hub_links hub) \<ge> v2MaximumLinkRoutes then (set_hub hub w, PlanRefused ErrV2Route)
                  else
                    (let w = set_hub (hub\<lparr>hub_links := fmupd linkID
                           \<lparr>lr_linkID = linkID, lr_clientID = dc_ClientID claims, lr_deviceID = dc_DeviceID claims,
                            lr_clientCarrierID = vc_id (w_heap w source), lr_targetEpoch = vc_epoch (w_heap w target),
                            lr_clientSuspendedUntil = 0, lr_deviceSuspendedUntil = 0\<rparr> (hub_links hub)\<rparr>) w
                     in (w, deliver_plan claims linkID True superseded w))))"

definition rebind_link :: "carrier_ref \<Rightarrow> string \<Rightarrow> v2LinkRoute \<Rightarrow> world \<Rightarrow> world" where
  "rebind_link source linkID existing w =
     set_hub ((w_hub w)\<lparr>hub_links := fmupd linkID
       (existing\<lparr>lr_clientCarrierID := vc_id (w_heap w source), lr_clientSuspendedUntil := 0\<rparr>) (hub_links (w_hub w))\<rparr>) w"

definition client_locked ::
  "map_order \<Rightarrow> carrier_ref \<Rightarrow> DeviceLinkGrantClaims \<Rightarrow> LinkEnvelope \<Rightarrow> string \<Rightarrow> world \<Rightarrow> world \<times> client_plan" where
  "client_locked ord source claims link linkID w =
     (let hub = w_hub w
      in case GetLinkInit link of
          Some init \<Rightarrow>
            if \<not> init_matches claims linkID init then (w, PlanRefused ErrV2Route)
            else (case fmlookup (hub_links hub) linkID of
                Some existing \<Rightarrow>
                  if lr_clientID existing \<noteq> dc_ClientID claims \<or> lr_deviceID existing \<noteq> dc_DeviceID claims
                  then (w, PlanRefused ErrV2Route)
                  else if fmlookup (hub_carriers hub) (lr_clientCarrierID existing) \<notin> {None, Some source}
                  then (w, PlanRefused ErrV2Route)
                  else (let w = rebind_link source linkID existing w in (w, deliver_plan claims linkID False [] w))
              | None \<Rightarrow> create_link ord source claims linkID w)
        | None \<Rightarrow>
            (case fmlookup (hub_links hub) linkID of
               None \<Rightarrow> (w, PlanUnknown)
             | Some route \<Rightarrow>
                 if lr_clientID route \<noteq> dc_ClientID claims \<or> lr_deviceID route \<noteq> dc_DeviceID claims \<or>
                   lr_clientCarrierID route \<noteq> vc_id (w_heap w source) then (w, PlanUnknown)
                 else
                   (let w = set_hub (hub\<lparr>hub_links := fmupd linkID (route\<lparr>lr_clientSuspendedUntil := 0\<rparr>) (hub_links hub)\<rparr>) w
                    in (w, deliver_plan claims linkID False [] w))))"

text \<open>Handing the frame to a carrier; a full queue is reported to both ends.\<close>

definition deliver_link ::
  "(CarrierEnvelope \<Rightarrow> int) \<Rightarrow> carrier_ref \<Rightarrow> carrier_ref \<Rightarrow> LinkEnvelope \<Rightarrow> (world \<Rightarrow> world) \<Rightarrow> world \<Rightarrow> world \<times> v2_error option" where
  "deliver_link ps source target link undo w =
     (case v2LinkMetadata link of (linkID, channelID, streamID) \<Rightarrow>
       (case on_carrier target (enqueueLink ps link) w of
          (w, None) \<Rightarrow> (w, None)
        | (w, Some err) \<Rightarrow>
            (let w = undo w
             in if err = ErrV2QueueFull
                then (let w = fst (on_carrier source (rejectStream ps linkID channelID streamID) w);
                          w = fst (on_carrier target (rejectStream ps linkID channelID streamID) w)
                      in (w, None))
                else (w, Some ErrV2TransientRoute))))"

definition client_unlocked ::
  "(CarrierEnvelope \<Rightarrow> int) \<Rightarrow> carrier_ref \<Rightarrow> LinkEnvelope \<Rightarrow> string \<Rightarrow> client_plan \<Rightarrow> world \<Rightarrow> world \<times> v2_error option" where
  "client_unlocked ps source link linkID plan w =
     (case plan of
        PlanRefused err \<Rightarrow> (w, Some err)
      | PlanStale \<Rightarrow> (fst (sendV2LinkRouteStale ps source linkID w), Some ErrV2TransientRoute)
      | PlanUnknown \<Rightarrow> rejectUnknownV2Link ps source linkID w
      | PlanDeliver routeExists target targetReady created superseded \<Rightarrow>
          (let w = (case target of
                 None \<Rightarrow> w
               | Some ref \<Rightarrow> fold (\<lambda>stale w. fst (reject_on ps ref (lr_linkID stale) [] [] ERROR_RESUME_EXPIRED w)) superseded w)
           in if \<not> routeExists \<and> \<not> created then rejectUnknownV2Link ps source linkID w
              else if \<not> targetReady then (w, Some ErrV2TransientRoute)
              else deliver_link ps source (the target) link (if created then dropLink linkID else id) w))"

definition routeClientLink ::
  "(CarrierEnvelope \<Rightarrow> int) \<Rightarrow> map_order \<Rightarrow> instant \<Rightarrow> carrier_ref \<Rightarrow> DeviceLinkGrantClaims \<Rightarrow> LinkEnvelope \<Rightarrow>
     world \<Rightarrow> world \<times> v2_error option" where
  "routeClientLink ps ord now source claims link w =
     (if vc_role (w_heap w source) \<noteq> v2CarrierClient \<or> dc_ClientID claims \<noteq> vc_clientID (w_heap w source) \<or>
        dc_DeviceID claims \<noteq> vc_deviceID (w_heap w source) then (w, Some ErrV2Route)
      else (case v2LinkMetadata link of (linkID, channelID, streamID) \<Rightarrow>
          if linkID = [] \<or> le_LinkId link \<noteq> linkID then (w, Some ErrV2Route)
          else (case client_locked ord source claims link linkID (pruneExpiredLocked ps ord now w) of
              (w, plan) \<Rightarrow> client_unlocked ps source link linkID plan w)))"

text \<open>The checks of a device's frame: the link is its device's, at its epoch, and it is the current carrier.\<close>

definition device_owns :: "V2Hub \<Rightarrow> v2Carrier \<Rightarrow> v2LinkRoute \<Rightarrow> bool" where
  "device_owns hub source route \<longleftrightarrow>
     \<not> (lr_deviceID route \<noteq> vc_deviceID source \<or> lr_targetEpoch route \<noteq> vc_epoch source \<or>
        fmget [] (hub_deviceCarriers hub) (lr_deviceID route) \<noteq> vc_id source)"

definition routeDeviceLink ::
  "(CarrierEnvelope \<Rightarrow> int) \<Rightarrow> map_order \<Rightarrow> instant \<Rightarrow> carrier_ref \<Rightarrow> LinkEnvelope \<Rightarrow> world \<Rightarrow> world \<times> v2_error option" where
  "routeDeviceLink ps ord now source link w =
     (if vc_role (w_heap w source) \<noteq> v2CarrierDevice then (w, Some ErrV2Route)
      else (case v2LinkMetadata link of (linkID, channelID, streamID) \<Rightarrow>
          if linkID = [] \<or> le_LinkId link \<noteq> linkID \<or> GetLinkInit link \<noteq> None then (w, Some ErrV2Route)
          else
            (let w = pruneExpiredLocked ps ord now w; hub = w_hub w
             in case fmlookup (hub_links hub) linkID of
                 None \<Rightarrow> (w, Some ErrV2Route)
               | Some route \<Rightarrow>
                   if \<not> device_owns hub (w_heap w source) route then (w, Some ErrV2Route)
                   else (case fmlookup (hub_carriers hub) (lr_clientCarrierID route) of
                       None \<Rightarrow> (w, None)
                     | Some target \<Rightarrow> deliver_link ps source target link id w))))"

definition resumeClient ::
  "(CarrierEnvelope \<Rightarrow> int) \<Rightarrow> map_order \<Rightarrow> instant \<Rightarrow> instant \<Rightarrow> carrier_ref \<Rightarrow> DeviceLinkGrantClaims \<Rightarrow> CarrierResume \<Rightarrow>
     world \<Rightarrow> world \<times> v2_error option" where
  "resumeClient ps ord now later source claims resume w =
     (if vc_role (w_heap w source) \<noteq> v2CarrierClient \<or> cr_LinkId resume = [] \<or>
        dc_ClientID claims \<noteq> vc_clientID (w_heap w source) \<or> dc_DeviceID claims \<noteq> vc_deviceID (w_heap w source)
      then (w, Some ErrV2Route)
      else
        (let w = pruneExpiredLocked ps ord now w; hub = w_hub w
         in case fmlookup (hub_links hub) (cr_LinkId resume) of
             None \<Rightarrow> (w, Some ErrV2Route)
           | Some route \<Rightarrow>
               if lr_clientID route \<noteq> dc_ClientID claims \<or> lr_deviceID route \<noteq> dc_DeviceID claims then (w, Some ErrV2Route)
               else if fmlookup (hub_carriers hub) (lr_clientCarrierID route) \<notin> {None, Some source} then (w, Some ErrV2Route)
               else
                 (let w = rebind_link source (lr_linkID route) route w;
                      unavailable = (if IsZero (lr_deviceSuspendedUntil route) \<or> After (lr_deviceSuspendedUntil route) later
                        then ErrV2TransientRoute else ErrV2Route)
                  in case device_carrier (w_hub w) (lr_deviceID route) of
                      None \<Rightarrow> (w, Some unavailable)
                    | Some target \<Rightarrow>
                        if vc_epoch (w_heap w target) \<noteq> lr_targetEpoch route then (w, Some unavailable)
                        else (case on_carrier target (enqueueEnvelope ps (body_envelope (Body_Resume resume)) v2PriorityControl) w of
                            (w, None) \<Rightarrow> (w, None)
                          | (w, Some err) \<Rightarrow> (w, Some ErrV2Route)))))"

definition resumeDevice ::
  "(CarrierEnvelope \<Rightarrow> int) \<Rightarrow> map_order \<Rightarrow> instant \<Rightarrow> carrier_ref \<Rightarrow> CarrierResume \<Rightarrow> world \<Rightarrow> world \<times> v2_error option" where
  "resumeDevice ps ord now source resume w =
     (if vc_role (w_heap w source) \<noteq> v2CarrierDevice \<or> cr_LinkId resume = [] then (w, Some ErrV2Route)
      else
        (let w = pruneExpiredLocked ps ord now w; hub = w_hub w
         in case fmlookup (hub_links hub) (cr_LinkId resume) of
             None \<Rightarrow> (w, Some ErrV2Route)
           | Some route \<Rightarrow>
               if \<not> device_owns hub (w_heap w source) route then (w, Some ErrV2Route)
               else (case fmlookup (hub_carriers hub) (lr_clientCarrierID route) of
                   None \<Rightarrow> (w, None)
                 | Some target \<Rightarrow>
                     (case on_carrier target (enqueueEnvelope ps (body_envelope (Body_Resume resume)) v2PriorityControl) w of
                        (w, None) \<Rightarrow> (w, None)
                      | (w, Some err) \<Rightarrow> (w, Some ErrV2TransientRoute)))))"

definition routeStreamRejected ::
  "(CarrierEnvelope \<Rightarrow> int) \<Rightarrow> carrier_ref \<Rightarrow> CarrierStreamRejected \<Rightarrow> world \<Rightarrow> world \<times> v2_error option" where
  "routeStreamRejected ps source rejected w =
     (let hub = w_hub w; carrier = w_heap w source;
          forward = (\<lambda>target. case target of
              None \<Rightarrow> (w, None)
            | Some ref \<Rightarrow> on_carrier ref (enqueueEnvelope ps (body_envelope (Body_StreamRejected rejected)) v2PriorityControl) w)
      in if sr_LinkId rejected = [] \<or> sr_Reason rejected = ERROR_UNSPECIFIED then (w, Some ErrV2Route)
         else (case fmlookup (hub_links hub) (sr_LinkId rejected) of
             None \<Rightarrow> (w, Some ErrV2Route)
           | Some route \<Rightarrow>
               (case vc_role carrier of
                  v2CarrierClient \<Rightarrow>
                    if lr_clientID route \<noteq> vc_clientID carrier \<or> lr_deviceID route \<noteq> vc_deviceID carrier \<or>
                      lr_clientCarrierID route \<noteq> vc_id carrier then (w, Some ErrV2Route)
                    else forward (device_carrier hub (lr_deviceID route))
                | v2CarrierDevice \<Rightarrow>
                    if lr_deviceID route \<noteq> vc_deviceID carrier \<or>
                      fmget [] (hub_deviceCarriers hub) (lr_deviceID route) \<noteq> vc_id carrier then (w, Some ErrV2Route)
                    else forward (fmlookup (hub_carriers hub) (lr_clientCarrierID route))
                | v2CarrierOther \<Rightarrow> (w, Some ErrV2Route))))"

subsection \<open>The calls of a client, piece by piece\<close>

text \<open>
  The operations above run a call to its end. In the program other calls run
  between the pieces of one: the mutex is released before a frame is handed
  to a carrier. \<open>client_begin\<close> is the critical section of a call and
  \<open>client_pc\<close> what is left of it: the rejections of its own carrier, the
  notices for the links that were superseded, the hand-over of the frame, after
  a failure the removal of the link that was created, and the reports
  of a full queue. \<open>client_next\<close> is one such piece. The carriers are those
  that the section found.
\<close>

datatype client_call =
    ClientLink LinkEnvelope
  | ClientResume CarrierResume
  | ClientRejected CarrierStreamRejected
  | ClientDrop string

fun call_link :: "client_call \<Rightarrow> string" where
  "call_link (ClientLink link) = fst (v2LinkMetadata link)"
| "call_link (ClientResume resume) = cr_LinkId resume"
| "call_link (ClientRejected rejected) = sr_LinkId rejected"
| "call_link (ClientDrop k) = k"

datatype client_pc =
    CallReturned "v2_error option"
  | CallStale string
  | CallUnknown string
  | CallNotices LinkEnvelope string bool "carrier_ref option" bool bool "v2LinkRoute list"
  | CallDeliver LinkEnvelope string carrier_ref bool
  | CallUndo LinkEnvelope string carrier_ref v2_error
  | CallFailed LinkEnvelope carrier_ref v2_error
  | CallFull LinkEnvelope carrier_ref
  | CallResume CarrierResume carrier_ref
  | CallForward CarrierStreamRejected carrier_ref

fun plan_pc :: "LinkEnvelope \<Rightarrow> string \<Rightarrow> client_plan \<Rightarrow> client_pc" where
  "plan_pc link linkID (PlanRefused err) = CallReturned (Some err)"
| "plan_pc link linkID PlanStale = CallStale linkID"
| "plan_pc link linkID PlanUnknown = CallUnknown linkID"
| "plan_pc link linkID (PlanDeliver routeExists target targetReady created superseded) =
     CallNotices link linkID routeExists target targetReady created superseded"

definition begin_link ::
  "(CarrierEnvelope \<Rightarrow> int) \<Rightarrow> map_order \<Rightarrow> instant \<Rightarrow> carrier_ref \<Rightarrow> DeviceLinkGrantClaims \<Rightarrow> LinkEnvelope \<Rightarrow>
     world \<Rightarrow> world \<times> client_pc" where
  "begin_link ps ord now source claims link w =
     (if vc_role (w_heap w source) \<noteq> v2CarrierClient \<or> dc_ClientID claims \<noteq> vc_clientID (w_heap w source) \<or>
        dc_DeviceID claims \<noteq> vc_deviceID (w_heap w source) then (w, CallReturned (Some ErrV2Route))
      else (case v2LinkMetadata link of (linkID, channelID, streamID) \<Rightarrow>
          if linkID = [] \<or> le_LinkId link \<noteq> linkID then (w, CallReturned (Some ErrV2Route))
          else (case client_locked ord source claims link linkID (pruneExpiredLocked ps ord now w) of
              (w, plan) \<Rightarrow> (w, plan_pc link linkID plan))))"

definition begin_resume ::
  "(CarrierEnvelope \<Rightarrow> int) \<Rightarrow> map_order \<Rightarrow> instant \<Rightarrow> instant \<Rightarrow> carrier_ref \<Rightarrow> DeviceLinkGrantClaims \<Rightarrow> CarrierResume \<Rightarrow>
     world \<Rightarrow> world \<times> client_pc" where
  "begin_resume ps ord now later source claims resume w =
     (if vc_role (w_heap w source) \<noteq> v2CarrierClient \<or> cr_LinkId resume = [] \<or>
        dc_ClientID claims \<noteq> vc_clientID (w_heap w source) \<or> dc_DeviceID claims \<noteq> vc_deviceID (w_heap w source)
      then (w, CallReturned (Some ErrV2Route))
      else
        (let w = pruneExpiredLocked ps ord now w; hub = w_hub w
         in case fmlookup (hub_links hub) (cr_LinkId resume) of
             None \<Rightarrow> (w, CallReturned (Some ErrV2Route))
           | Some route \<Rightarrow>
               if lr_clientID route \<noteq> dc_ClientID claims \<or> lr_deviceID route \<noteq> dc_DeviceID claims \<or>
                 fmlookup (hub_carriers hub) (lr_clientCarrierID route) \<notin> {None, Some source}
               then (w, CallReturned (Some ErrV2Route))
               else
                 (let w = rebind_link source (lr_linkID route) route w;
                      unavailable = (if IsZero (lr_deviceSuspendedUntil route) \<or> After (lr_deviceSuspendedUntil route) later
                        then ErrV2TransientRoute else ErrV2Route)
                  in case device_carrier (w_hub w) (lr_deviceID route) of
                      None \<Rightarrow> (w, CallReturned (Some unavailable))
                    | Some target \<Rightarrow> (w, if vc_epoch (w_heap w target) \<noteq> lr_targetEpoch route then CallReturned (Some unavailable)
                        else CallResume resume target))))"

definition begin_rejected :: "carrier_ref \<Rightarrow> CarrierStreamRejected \<Rightarrow> world \<Rightarrow> client_pc" where
  "begin_rejected source rejected w =
     (let hub = w_hub w; carrier = w_heap w source;
          forward = (\<lambda>target. case target of None \<Rightarrow> CallReturned None | Some ref \<Rightarrow> CallForward rejected ref)
      in if sr_LinkId rejected = [] \<or> sr_Reason rejected = ERROR_UNSPECIFIED then CallReturned (Some ErrV2Route)
         else (case fmlookup (hub_links hub) (sr_LinkId rejected) of
             None \<Rightarrow> CallReturned (Some ErrV2Route)
           | Some route \<Rightarrow>
               (case vc_role carrier of
                  v2CarrierClient \<Rightarrow>
                    if lr_clientID route \<noteq> vc_clientID carrier \<or> lr_deviceID route \<noteq> vc_deviceID carrier \<or>
                      lr_clientCarrierID route \<noteq> vc_id carrier then CallReturned (Some ErrV2Route)
                    else forward (device_carrier hub (lr_deviceID route))
                | v2CarrierDevice \<Rightarrow>
                    if lr_deviceID route \<noteq> vc_deviceID carrier \<or>
                      fmget [] (hub_deviceCarriers hub) (lr_deviceID route) \<noteq> vc_id carrier then CallReturned (Some ErrV2Route)
                    else forward (fmlookup (hub_carriers hub) (lr_clientCarrierID route))
                | v2CarrierOther \<Rightarrow> CallReturned (Some ErrV2Route))))"

fun client_begin ::
  "(CarrierEnvelope \<Rightarrow> int) \<Rightarrow> map_order \<Rightarrow> instant \<Rightarrow> instant \<Rightarrow> carrier_ref \<Rightarrow> DeviceLinkGrantClaims \<Rightarrow> client_call \<Rightarrow>
     world \<Rightarrow> world \<times> client_pc" where
  "client_begin ps ord now later r claims (ClientLink link) w = begin_link ps ord now r claims link w"
| "client_begin ps ord now later r claims (ClientResume resume) w = begin_resume ps ord now later r claims resume w"
| "client_begin ps ord now later r claims (ClientRejected rejected) w = (w, begin_rejected r rejected w)"
| "client_begin ps ord now later r claims (ClientDrop k) w = (dropLinkFromCarrier r k w, CallReturned None)"

fun client_next :: "(CarrierEnvelope \<Rightarrow> int) \<Rightarrow> carrier_ref \<Rightarrow> world \<times> client_pc \<Rightarrow> world \<times> client_pc" where
  "client_next ps r (w, CallReturned x) = (w, CallReturned x)"
| "client_next ps r (w, CallStale k) = (fst (sendV2LinkRouteStale ps r k w), CallReturned (Some ErrV2TransientRoute))"
| "client_next ps r (w, CallUnknown k) = (case rejectUnknownV2Link ps r k w of (w, x) \<Rightarrow> (w, CallReturned x))"
| "client_next ps r (w, CallNotices link k exists target ready created (stale # superseded)) =
     (case target of None \<Rightarrow> w | Some ref \<Rightarrow> fst (reject_on ps ref (lr_linkID stale) [] [] ERROR_RESUME_EXPIRED w),
      CallNotices link k exists target ready created superseded)"
| "client_next ps r (w, CallNotices link k exists target ready created []) =
     (w, if \<not> exists \<and> \<not> created then CallUnknown k
         else if \<not> ready then CallReturned (Some ErrV2TransientRoute) else CallDeliver link k (the target) created)"
| "client_next ps r (w, CallDeliver link k target created) =
     (case on_carrier target (enqueueLink ps link) w of
        (w, None) \<Rightarrow> (w, CallReturned None)
      | (w, Some err) \<Rightarrow> (w, if created then CallUndo link k target err else CallFailed link target err))"
| "client_next ps r (w, CallUndo link k target err) = (dropLink k w, CallFailed link target err)"
| "client_next ps r (w, CallFailed link target err) =
     (if err = ErrV2QueueFull
      then (case v2LinkMetadata link of (i, j, l) \<Rightarrow> (fst (on_carrier r (rejectStream ps i j l) w), CallFull link target))
      else (w, CallReturned (Some ErrV2TransientRoute)))"
| "client_next ps r (w, CallFull link target) =
     (case v2LinkMetadata link of (i, j, l) \<Rightarrow> (fst (on_carrier target (rejectStream ps i j l) w), CallReturned None))"
| "client_next ps r (w, CallResume resume target) =
     (case on_carrier target (enqueueEnvelope ps (body_envelope (Body_Resume resume)) v2PriorityControl) w of
        (w, None) \<Rightarrow> (w, CallReturned None)
      | (w, Some err) \<Rightarrow> (w, CallReturned (Some ErrV2Route)))"
| "client_next ps r (w, CallForward rejected target) =
     (case on_carrier target (enqueueEnvelope ps (body_envelope (Body_StreamRejected rejected)) v2PriorityControl) w of
        (w, x) \<Rightarrow> (w, CallReturned x))"

subsection \<open>What the operations leave alone\<close>

text \<open>The identity of a carrier never changes.\<close>

definition ident :: "v2Carrier \<Rightarrow> string \<times> u64 \<times> v2CarrierRole \<times> string \<times> string" where
  "ident c = (vc_id c, vc_epoch c, vc_role c, vc_clientID c, vc_deviceID c)"

definition idents :: "world \<Rightarrow> carrier_ref \<Rightarrow> string \<times> u64 \<times> v2CarrierRole \<times> string \<times> string" where
  "idents w r = ident (w_heap w r)"

lemma ident_eqD:
  assumes "ident c' = ident c"
  shows "vc_id c' = vc_id c" "vc_epoch c' = vc_epoch c" "vc_role c' = vc_role c"
    "vc_clientID c' = vc_clientID c" "vc_deviceID c' = vc_deviceID c"
  using assms by (simp_all add: ident_def)

lemma idents_eqD:
  assumes "idents w' = idents w"
  shows "vc_id (w_heap w' r) = vc_id (w_heap w r)" "vc_epoch (w_heap w' r) = vc_epoch (w_heap w r)"
    "vc_role (w_heap w' r) = vc_role (w_heap w r)" "vc_clientID (w_heap w' r) = vc_clientID (w_heap w r)"
    "vc_deviceID (w_heap w' r) = vc_deviceID (w_heap w r)"
  using ident_eqD [of "w_heap w' r" "w_heap w r"] fun_cong [OF assms, of r] by (simp_all add: idents_def)

definition keeps_ident :: "(carrier_state \<Rightarrow> carrier_state \<times> 'r) \<Rightarrow> bool" where
  "keeps_ident f \<longleftrightarrow> (\<forall>cb. ident (fst (fst (f cb))) = ident (fst cb))"

lemma enqueue_ident: "keeps_ident (enqueueEnvelope ps e c)"
  by (simp add: keeps_ident_def enqueueEnvelope_def ident_def split_beta)

lemma carrier_ops_ident [simp]:
  "keeps_ident (enqueueEnvelope ps e c)" "keeps_ident (enqueueLink ps l)"
  "keeps_ident (rejectStreamWithReason ps i j k r)" "keeps_ident (rejectStream ps i j k)"
  "keeps_ident (\<lambda>cb. (carrier_close cb, ()))"
  using enqueue_ident
  by (auto simp: keeps_ident_def enqueueLink_def rejectStreamWithReason_def rejectStream_def carrier_close_def
      closeWithReason_def ident_def split_beta Let_def)

lemma on_carrier_hub [simp]: "w_hub (fst (on_carrier r f w)) = w_hub w"
  by (simp add: on_carrier_def split_beta)

lemma on_carrier_ident [simp]: "keeps_ident f \<Longrightarrow> idents (fst (on_carrier r f w)) = idents w"
  by (auto simp: on_carrier_def split_beta idents_def keeps_ident_def)

lemma on_carrier_other: "r' \<noteq> r \<Longrightarrow> w_heap (fst (on_carrier r f w)) r' = w_heap w r'"
  by (simp add: on_carrier_def split_beta)

lemma set_hub_simps [simp]:
  "w_hub (set_hub h w) = h" "idents (set_hub h w) = idents w" "w_heap (set_hub h w) = w_heap w"
  by (simp_all add: set_hub_def idents_def fun_eq_iff)

lemma send_simps [simp]:
  "w_hub (fst (reject_on ps r i j k x w)) = w_hub w" "idents (fst (reject_on ps r i j k x w)) = idents w"
  "w_hub (fst (sendV2LinkRouteStale ps r i w)) = w_hub w" "idents (fst (sendV2LinkRouteStale ps r i w)) = idents w"
  "w_hub (fst (rejectUnknownV2Link ps r i w)) = w_hub w" "idents (fst (rejectUnknownV2Link ps r i w)) = idents w"
  "w_hub (close_ref r w) = w_hub w" "idents (close_ref r w) = idents w"
  by (simp_all add: reject_on_def sendV2LinkRouteStale_def rejectUnknownV2Link_def close_ref_def)

lemma send_other:
  "r' \<noteq> r \<Longrightarrow> w_heap (fst (reject_on ps r i j k x w)) r' = w_heap w r'"
  "r' \<noteq> r \<Longrightarrow> w_heap (fst (sendV2LinkRouteStale ps r i w)) r' = w_heap w r'"
  "r' \<noteq> r \<Longrightarrow> w_heap (fst (rejectUnknownV2Link ps r i w)) r' = w_heap w r'"
  "r' \<noteq> r \<Longrightarrow> w_heap (close_ref r w) r' = w_heap w r'"
  by (simp_all add: reject_on_def sendV2LinkRouteStale_def rejectUnknownV2Link_def close_ref_def on_carrier_other)

lemma signal_simps [simp]:
  "w_hub (signalRouteChange w) = (w_hub w)\<lparr>hub_routeChanges := True\<rparr>" "idents (signalRouteChange w) = idents w"
  "w_heap (signalRouteChange w) = w_heap w"
  by (simp_all add: signalRouteChange_def)

lemma fold_sends:
  assumes "\<And>x w. w_hub (f x w) = w_hub w \<and> idents (f x w) = idents w"
  shows "w_hub (fold f xs w) = w_hub w" and "idents (fold f xs w) = idents w"
  using assms by (induction xs arbitrary: w) simp_all

subsection \<open>Expiry removes exactly what has expired\<close>

lemma prune_link_hub:
  "w_hub (prune_link ps now k w) = (w_hub w)\<lparr>hub_links :=
     (case fmlookup (hub_links (w_hub w)) k of
        None \<Rightarrow> hub_links (w_hub w)
      | Some route \<Rightarrow> if link_expired now route then fmdrop k (hub_links (w_hub w)) else hub_links (w_hub w))\<rparr>"
  by (simp add: prune_link_def Let_def split: option.split)

lemma prune_link_idents [simp]: "idents (prune_link ps now k w) = idents w"
  by (simp add: prune_link_def Let_def split: option.split)

definition surviving :: "instant \<Rightarrow> string set \<Rightarrow> (string, v2LinkRoute) fmap \<Rightarrow> (string, v2LinkRoute) fmap" where
  "surviving now ks links = fmkeep (\<lambda>k route. k \<in> ks \<longrightarrow> \<not> link_expired now route) links"

lemma prune_hub:
  "w_hub (fold (prune_link ps now) ks w) = (w_hub w)\<lparr>hub_links := surviving now (set ks) (hub_links (w_hub w))\<rparr>"
proof (induction ks arbitrary: w)
  case Nil
  have "surviving now {} m = m" for m by (rule fmap_ext) (simp add: surviving_def split: option.split)
  then show ?case by simp
next
  case (Cons k ks)
  have "surviving now (set ks) (case fmlookup m k of None \<Rightarrow> m | Some route \<Rightarrow> if link_expired now route then fmdrop k m else m)
      = surviving now (insert k (set ks)) m" for m
    by (rule fmap_ext) (auto simp: surviving_def split: option.splits)
  then show ?case by (simp add: Cons.IH prune_link_hub)
qed

lemma prune_simps [simp]:
  "w_hub (pruneExpiredLocked ps ord now w) = (w_hub w)\<lparr>hub_links :=
     surviving now (set (ord (fmdom (hub_links (w_hub w))))) (hub_links (w_hub w))\<rparr>"
  "idents (pruneExpiredLocked ps ord now w) = idents w"
proof -
  have "idents (fold (prune_link ps now) ks w) = idents w" for ks
    by (induction ks arbitrary: w) simp_all
  then show "idents (pruneExpiredLocked ps ord now w) = idents w" by (simp add: pruneExpiredLocked_def)
qed (simp add: pruneExpiredLocked_def prune_hub)

lemma surviving_lookup [simp]:
  "fmlookup (surviving now ks links) k =
     (case fmlookup links k of None \<Rightarrow> None
      | Some route \<Rightarrow> if k \<in> ks \<and> link_expired now route then None else Some route)"
  by (simp add: surviving_def split: option.split)

lemma surviving_len: "fmlen (surviving now ks links) \<le> fmlen links"
  by (simp add: surviving_def fmlen_keep)

lemma prune_heap:
  assumes "w_heap (pruneExpiredLocked ps ord now w) r \<noteq> w_heap w r"
  shows "\<exists>k route. fmlookup (hub_links (w_hub w)) k = Some route \<and> link_expired now route \<and>
    device_carrier (w_hub w) (lr_deviceID route) = Some r"
proof -
  have "w_heap (fold (prune_link ps now) ks w) r \<noteq> w_heap w r \<longrightarrow>
      (\<exists>k route. fmlookup (hub_links (w_hub w)) k = Some route \<and> link_expired now route \<and>
        device_carrier (w_hub w) (lr_deviceID route) = Some r)" for ks
  proof (induction ks rule: rev_induct)
    case (snoc k ks)
    let ?w = "fold (prune_link ps now) ks w"
    have hub: "device_carrier (w_hub ?w) d = device_carrier (w_hub w) d" for d
      by (simp add: prune_hub device_carrier_def)
    show ?case
    proof (intro impI)
      assume neq: "w_heap (fold (prune_link ps now) (ks @ [k]) w) r \<noteq> w_heap w r"
      show "\<exists>k route. fmlookup (hub_links (w_hub w)) k = Some route \<and> link_expired now route \<and>
        device_carrier (w_hub w) (lr_deviceID route) = Some r"
      proof (cases "w_heap ?w r \<noteq> w_heap w r")
        case False
        then have "w_heap (prune_link ps now k ?w) r \<noteq> w_heap ?w r" using neq by simp
        then obtain route where "fmlookup (hub_links (w_hub ?w)) k = Some route" "link_expired now route"
          "device_carrier (w_hub ?w) (lr_deviceID route) = Some r"
          by (auto simp: prune_link_def Let_def device_carrier_def send_other split: option.splits if_splits)
            (metis send_other(1) set_hub_simps(3))+
        then show ?thesis using hub by (auto simp: prune_hub split: option.splits if_splits)
      qed (use snoc in blast)
    qed
  qed simp
  with assms show ?thesis by (simp add: pruneExpiredLocked_def)
qed

subsection \<open>The invariant of the hub\<close>

text \<open>The identities of the carriers by reference, and their parts.\<close>

type_synonym identities = "carrier_ref \<Rightarrow> string \<times> u64 \<times> v2CarrierRole \<times> string \<times> string"

definition id_of :: "identities \<Rightarrow> carrier_ref \<Rightarrow> string" where "id_of ids r = fst (ids r)"
definition epoch_of :: "identities \<Rightarrow> carrier_ref \<Rightarrow> u64" where "epoch_of ids r = fst (snd (ids r))"
definition role_of :: "identities \<Rightarrow> carrier_ref \<Rightarrow> v2CarrierRole" where "role_of ids r = fst (snd (snd (ids r)))"
definition device_of :: "identities \<Rightarrow> carrier_ref \<Rightarrow> string" where "device_of ids r = snd (snd (snd (snd (ids r))))"

lemma of_idents [simp]:
  "id_of (idents w) r = vc_id (w_heap w r)" "epoch_of (idents w) r = vc_epoch (w_heap w r)"
  "role_of (idents w) r = vc_role (w_heap w r)" "device_of (idents w) r = vc_deviceID (w_heap w r)"
  by (simp_all add: id_of_def epoch_of_def role_of_def device_of_def idents_def ident_def)

text \<open>
  Carriers are filed under their own name; the current carrier of a device is
  attached, is a carrier of that device, and its route names it and its epoch.
\<close>

definition filed :: "identities \<Rightarrow> string \<Rightarrow> carrier_ref \<Rightarrow> bool" where
  "filed ids i r \<longleftrightarrow> i \<noteq> [] \<and> id_of ids r = i"

definition current :: "V2Hub \<Rightarrow> identities \<Rightarrow> string \<Rightarrow> string \<Rightarrow> bool" where
  "current h ids d i \<longleftrightarrow>
     (\<exists>r route. fmlookup (hub_carriers h) i = Some r \<and> role_of ids r = v2CarrierDevice \<and> device_of ids r = d \<and>
        fmlookup (hub_deviceRoutes h) d = Some route \<and> rt_DeviceID route = d \<and> rt_ConnectionID route = i \<and>
        rt_ConnectionEpoch route = epoch_of ids r)"

definition carriers_ok :: "V2Hub \<Rightarrow> identities \<Rightarrow> bool" where
  "carriers_ok h ids \<longleftrightarrow>
     (\<forall>i r. fmlookup (hub_carriers h) i = Some r \<longrightarrow> filed ids i r) \<and>
     (\<forall>d i. fmlookup (hub_deviceCarriers h) d = Some i \<longrightarrow> current h ids d i) \<and>
     (\<forall>d. fmlookup (hub_deviceCarriers h) d = None \<longrightarrow> fmlookup (hub_deviceRoutes h) d = None)"

text \<open>
  A link is filed under its own name, it aims at the epoch of its device's
  current carrier and is marked as waiting when there is none; a client and a
  device have at most one link, and the number of links is bounded.
\<close>

definition link_ok :: "V2Hub \<Rightarrow> identities \<Rightarrow> string \<Rightarrow> v2LinkRoute \<Rightarrow> bool" where
  "link_ok h ids k l \<longleftrightarrow> k \<noteq> [] \<and> lr_linkID l = k \<and>
     (case device_carrier h (lr_deviceID l) of
        None \<Rightarrow> lr_deviceSuspendedUntil l \<noteq> 0
      | Some r \<Rightarrow> lr_targetEpoch l = epoch_of ids r)"

definition pairs_ok :: "(string, v2LinkRoute) fmap \<Rightarrow> bool" where
  "pairs_ok m \<longleftrightarrow> (\<forall>k l k' l'. fmlookup m k = Some l \<and> fmlookup m k' = Some l' \<and>
     lr_clientID l = lr_clientID l' \<and> lr_deviceID l = lr_deviceID l' \<longrightarrow> k = k')"

definition links_ok :: "V2Hub \<Rightarrow> identities \<Rightarrow> bool" where
  "links_ok h ids \<longleftrightarrow>
     (\<forall>k l. fmlookup (hub_links h) k = Some l \<longrightarrow> link_ok h ids k l) \<and>
     pairs_ok (hub_links h) \<and> fmlen (hub_links h) \<le> v2MaximumLinkRoutes"

definition hub_ok :: "world \<Rightarrow> bool" where
  "hub_ok w \<longleftrightarrow> carriers_ok (w_hub w) (idents w) \<and> links_ok (w_hub w) (idents w)"

lemma hub_ok_cong: "w_hub w' = w_hub w \<Longrightarrow> idents w' = idents w \<Longrightarrow> hub_ok w' = hub_ok w"
  by (simp add: hub_ok_def)

lemma filed_at:
  assumes "carriers_ok h ids" and "fmlookup (hub_carriers h) i = Some r"
  shows "filed ids i r" and "i \<noteq> []"
proof -
  show "filed ids i r" using assms unfolding carriers_ok_def by blast
  then show "i \<noteq> []" by (simp add: filed_def)
qed

lemma carriers_ok_core:
  assumes "hub_carriers h' = hub_carriers h" and "hub_deviceCarriers h' = hub_deviceCarriers h"
    and "hub_deviceRoutes h' = hub_deviceRoutes h"
  shows "carriers_ok h' ids = carriers_ok h ids" and "device_carrier h' = device_carrier h"
  using assms by (simp_all add: carriers_ok_def current_def device_carrier_def fun_eq_iff)

lemma link_ok_device:
  assumes "device_carrier h' (lr_deviceID l) = device_carrier h (lr_deviceID l)"
  shows "link_ok h' ids k l = link_ok h ids k l"
  using assms by (simp add: link_ok_def)

lemma hub_ok_signal [simp]:
  "carriers_ok (h\<lparr>hub_routeChanges := b\<rparr>) ids = carriers_ok h ids"
  "links_ok (h\<lparr>hub_routeChanges := b\<rparr>) ids = links_ok h ids"
  "carriers_ok (h\<lparr>hub_links := m\<rparr>) ids = carriers_ok h ids"
  "device_carrier (h\<lparr>hub_links := m\<rparr>) = device_carrier h"
  "device_carrier (h\<lparr>hub_routeChanges := b\<rparr>) = device_carrier h"
  by (simp_all add: carriers_ok_def current_def links_ok_def link_ok_def device_carrier_def fun_eq_iff)

text \<open>Changing links only: removing some, and rewriting those that stay.\<close>

definition same_route :: "v2LinkRoute \<Rightarrow> v2LinkRoute \<Rightarrow> bool" where
  "same_route l old \<longleftrightarrow> lr_linkID l = lr_linkID old \<and> lr_clientID l = lr_clientID old \<and> lr_deviceID l = lr_deviceID old \<and>
     lr_targetEpoch l = lr_targetEpoch old \<and> lr_deviceSuspendedUntil l = lr_deviceSuspendedUntil old"

definition thinned :: "(string, v2LinkRoute) fmap \<Rightarrow> (string, v2LinkRoute) fmap \<Rightarrow> bool" where
  "thinned m n \<longleftrightarrow> (\<forall>k l. fmlookup m k = Some l \<longrightarrow> (\<exists>old. fmlookup n k = Some old \<and> same_route l old))"

lemma thinned_pairs: "pairs_ok n \<Longrightarrow> thinned m n \<Longrightarrow> pairs_ok m"
  unfolding pairs_ok_def thinned_def same_route_def by metis

lemma thinned_len: "thinned m n \<Longrightarrow> fmlen m \<le> fmlen n"
  by (rule fmlen_mono) (fastforce simp: thinned_def fmdom_iff)

lemma links_ok_thinned:
  assumes "links_ok h ids" and "thinned m (hub_links h)"
  shows "links_ok (h\<lparr>hub_links := m\<rparr>) ids"
  unfolding links_ok_def
proof (intro conjI allI impI)
  fix k l assume "fmlookup (hub_links (h\<lparr>hub_links := m\<rparr>)) k = Some l"
  then obtain old where "fmlookup (hub_links h) k = Some old" "same_route l old"
    using assms(2) by (auto simp: thinned_def)
  moreover from this(1) have "link_ok h ids k old" using assms(1) by (simp add: links_ok_def)
  ultimately show "link_ok (h\<lparr>hub_links := m\<rparr>) ids k l"
    by (simp add: link_ok_def same_route_def split: option.splits)
next
  show "pairs_ok (hub_links (h\<lparr>hub_links := m\<rparr>))"
    using assms thinned_pairs by (auto simp: links_ok_def)
  show "fmlen (hub_links (h\<lparr>hub_links := m\<rparr>)) \<le> v2MaximumLinkRoutes"
    using assms(1) thinned_len [OF assms(2)] by (simp add: links_ok_def)
qed

lemma hub_ok_thinned:
  assumes "hub_ok w" and "w_hub w' = (w_hub w)\<lparr>hub_links := m\<rparr>" and "idents w' = idents w" and "thinned m (hub_links (w_hub w))"
  shows "hub_ok w'"
  using assms links_ok_thinned [of "w_hub w" "idents w" m] by (simp add: hub_ok_def)

lemma thinned_intros [intro, simp]:
  "thinned (surviving now ks m) m" "thinned (fmdrop k m) m" "thinned (fmkeep P m) m" "thinned m m"
  by (auto simp: thinned_def same_route_def split: option.splits if_splits)

lemma thinned_upd: "fmlookup m k = Some old \<Longrightarrow> same_route l old \<Longrightarrow> thinned (fmupd k l m) m"
  by (auto simp: thinned_def same_route_def)

lemma hub_ok_prune: "hub_ok w \<Longrightarrow> hub_ok (pruneExpiredLocked ps ord now w)"
  by (rule hub_ok_thinned [OF _ prune_simps(1) prune_simps(2)]) simp_all

lemma hub_ok_drop: "hub_ok w \<Longrightarrow> hub_ok (dropLink k w)"
  unfolding dropLink_def by (auto intro: hub_ok_thinned)

lemma hub_ok_drop_from: "hub_ok w \<Longrightarrow> hub_ok (dropLinkFromCarrier r k w)"
  by (simp add: dropLinkFromCarrier_def hub_ok_drop split: option.split)

text \<open>Where the name of a new carrier is free or its own, the devices keep their carriers.\<close>

lemma attach_keeps_devices:
  assumes ok: "carriers_ok h ids" and id: "i \<noteq> []"
    and free: "fmlookup (hub_carriers h) i = None \<or> fmlookup (hub_carriers h) i = Some r"
  shows "device_carrier (h\<lparr>hub_carriers := fmupd i r (hub_carriers h)\<rparr>) d = device_carrier h d"
proof (cases "fmlookup (hub_deviceCarriers h) d")
  case None
  with id show ?thesis by (simp add: device_carrier_def fmget_def)
next
  case (Some j)
  then have "current h ids d j" using ok by (simp add: carriers_ok_def)
  then have "fmlookup (hub_carriers h) j \<noteq> None" by (auto simp: current_def)
  with Some free show ?thesis by (auto simp: device_carrier_def fmget_def)
qed

lemma current_add:
  assumes "current h ids d j" and "fmlookup (hub_carriers h) i = None \<or> fmlookup (hub_carriers h) i = Some r"
  shows "current (h\<lparr>hub_carriers := fmupd i r (hub_carriers h)\<rparr>) ids d j"
proof -
  have "fmlookup (fmupd i r (hub_carriers h)) j = fmlookup (hub_carriers h) j"
    using assms by (auto simp: current_def)
  with assms(1) show ?thesis by (simp add: current_def)
qed

lemma hub_ok_attach_client:
  assumes ok: "hub_ok w" and id: "vc_id (w_heap w r) \<noteq> []"
  shows "hub_ok (fst (attachClient r w))"
proof (cases "fst (attachClient r w) = w")
  case False
  let ?i = "vc_id (w_heap w r)"
  let ?h = "(w_hub w)\<lparr>hub_carriers := fmupd ?i r (hub_carriers (w_hub w))\<rparr>"
  have w': "fst (attachClient r w) = set_hub ?h w"
    and free: "fmlookup (hub_carriers (w_hub w)) ?i = None \<or> fmlookup (hub_carriers (w_hub w)) ?i = Some r"
    using False by (auto simp: attachClient_def Let_def split: if_splits)
  have c: "carriers_ok (w_hub w) (idents w)" and l: "links_ok (w_hub w) (idents w)" using ok by (simp_all add: hub_ok_def)
  note dev = attach_keeps_devices [OF c id free]
  have "links_ok ?h (idents w)" using l dev by (simp add: links_ok_def link_ok_def)
  moreover have "carriers_ok ?h (idents w)"
    using c current_add [OF _ free] id by (auto simp: carriers_ok_def filed_def)
  ultimately show ?thesis by (simp add: w' hub_ok_def)
qed (use ok in simp)

text \<open>Rewriting all links, with the devices changed as well.\<close>

lemma fmlen_fmmap [simp]: "fmlen (fmmap f m) = fmlen m"
  by (simp add: fmlen_def)

lemma links_ok_fmmap:
  assumes "links_ok h ids"
    and "\<And>l. lr_linkID (f l) = lr_linkID l \<and> lr_clientID (f l) = lr_clientID l \<and> lr_deviceID (f l) = lr_deviceID l"
    and "\<And>k l. link_ok h ids k l \<Longrightarrow> link_ok h' ids k (f l)"
    and "hub_links h' = fmmap f (hub_links h)"
  shows "links_ok h' ids"
proof -
  have "pairs_ok (fmmap f m)" if p: "pairs_ok m" for m
    unfolding pairs_ok_def
  proof (intro allI impI)
    fix k l k' l'
    assume a: "fmlookup (fmmap f m) k = Some l \<and> fmlookup (fmmap f m) k' = Some l' \<and>
      lr_clientID l = lr_clientID l' \<and> lr_deviceID l = lr_deviceID l'"
    then obtain x y where "fmlookup m k = Some x" "fmlookup m k' = Some y" "l = f x" "l' = f y"
      by (auto simp: map_option_eq_Some)
    with a assms(2) have "fmlookup m k = Some x \<and> fmlookup m k' = Some y \<and> lr_clientID x = lr_clientID y \<and> lr_deviceID x = lr_deviceID y"
      by simp
    with p show "k = k'" unfolding pairs_ok_def by blast
  qed
  moreover have "link_ok h' ids k (f l)" if "fmlookup (hub_links h) k = Some l" for k l
    using that assms(1,3) by (simp add: links_ok_def)
  ultimately show ?thesis using assms(1,4) by (auto simp: links_ok_def map_option_eq_Some)
qed

lemma device_carrier_upd:
  assumes ok: "carriers_ok h ids" and id: "i \<noteq> []"
    and free: "fmlookup (hub_carriers h) i = None \<or> fmlookup (hub_carriers h) i = Some r"
    and h': "hub_carriers h' = fmupd i r (hub_carriers h)" "hub_deviceCarriers h' = fmupd d i (hub_deviceCarriers h)"
  shows "device_carrier h' d' = (if d' = d then Some r else device_carrier h d')"
  using attach_keeps_devices [OF ok id free, of d'] h' by (auto simp: device_carrier_def)

lemma hub_ok_publish:
  assumes ok: "carriers_ok h ids" "links_ok h ids" and r: "filed ids i r" "role_of ids r = v2CarrierDevice" "device_of ids r = d"
    and free: "fmlookup (hub_carriers h) i = None \<or> fmlookup (hub_carriers h) i = Some r"
    and route: "rt_DeviceID route = d" "rt_ConnectionID route = i" "rt_ConnectionEpoch route = e" and e: "e = epoch_of ids r"
    and h': "hub_carriers h' = fmupd i r (hub_carriers h)" "hub_deviceCarriers h' = fmupd d i (hub_deviceCarriers h)"
      "hub_deviceRoutes h' = fmupd d route (hub_deviceRoutes h)"
      "hub_links h' = fmmap (\<lambda>l. if lr_deviceID l = d then l\<lparr>lr_targetEpoch := e, lr_deviceSuspendedUntil := 0\<rparr> else l) (hub_links h)"
  shows "carriers_ok h' ids" and "links_ok h' ids"
proof -
  have id: "i \<noteq> []" using r by (simp add: filed_def)
  note dev = device_carrier_upd [OF ok(1) id free h'(1,2)]
  have "current h' ids d' j" if "fmlookup (hub_deviceCarriers h') d' = Some j" for d' j
  proof (cases "d' = d")
    case True
    with that h' r route e show ?thesis by (simp add: current_def)
  next
    case False
    with that h' ok(1) have "current h ids d' j" by (simp add: carriers_ok_def)
    from current_add [OF this free] False h' show ?thesis by (simp add: current_def)
  qed
  then show "carriers_ok h' ids" using ok(1) h' r by (auto simp: carriers_ok_def)
  show "links_ok h' ids"
    by (rule links_ok_fmmap [OF ok(2) _ _ h'(4)]) (auto simp: link_ok_def dev e)
qed

text \<open>The outcomes of attaching a device carrier.\<close>

definition published_hub :: "v2Carrier \<Rightarrow> carrier_ref \<Rightarrow> Route \<Rightarrow> V2Hub \<Rightarrow> V2Hub" where
  "published_hub c r route h = retarget_links c (h\<lparr>hub_carriers := fmupd (vc_id c) r (hub_carriers h),
      hub_deviceCarriers := fmupd (vc_deviceID c) (vc_id c) (hub_deviceCarriers h),
      hub_deviceRoutes := fmupd (vc_deviceID c) route (hub_deviceRoutes h)\<rparr>)"

definition sends_stale :: "(CarrierEnvelope \<Rightarrow> int) \<Rightarrow> (carrier_ref \<times> string) list \<Rightarrow> world \<Rightarrow> world" where
  "sends_stale ps = fold (\<lambda>(client, linkID) w. fst (sendV2LinkRouteStale ps client linkID w))"

lemma reject_closed [simp]: "vc_closed (w_heap (fst (reject_on ps r i j k x w)) p) = vc_closed (w_heap w p)"
  using enqueue_ops_keep(6) [of ps i j k x "(w_heap w r, w_budget w)"]
  by (cases "p = r") (simp_all add: reject_on_def on_carrier_def split_beta)

lemma sends_stale_simps [simp]:
  "w_hub (sends_stale ps xs w) = w_hub w" "idents (sends_stale ps xs w) = idents w"
  "vc_closed (w_heap (sends_stale ps xs w) p) = vc_closed (w_heap w p)"
  unfolding sends_stale_def
  by (induction xs arbitrary: w, simp_all add: split_beta) (simp add: sendV2LinkRouteStale_def)

lemma close_ref_closed [simp]: "vc_closed (w_heap (close_ref r w) r)"
  by (simp add: close_ref_def on_carrier_def split_beta)

lemma attach_device_cases:
  assumes publish: "\<And>f. beforePublish = Some f \<Longrightarrow> keeps_ident f"
    and w': "w' = fst (attachDeviceBeforePublish ps ord now r route beforePublish w)"
  obtains (refused) "w_hub w' = w_hub w \<or> w_hub w' = w_hub (pruneExpiredLocked ps ord now w)" and "idents w' = idents w"
  | (attached) "vc_role (w_heap w r) = v2CarrierDevice" and "rt_DeviceID route = vc_deviceID (w_heap w r)"
      and "rt_ConnectionID route = vc_id (w_heap w r)" and "rt_ConnectionEpoch route = vc_epoch (w_heap w r)"
      and "fmlookup (hub_carriers (w_hub w)) (vc_id (w_heap w r)) = None \<or>
        fmlookup (hub_carriers (w_hub w)) (vc_id (w_heap w r)) = Some r"
      and "\<And>p. device_carrier (w_hub w) (vc_deviceID (w_heap w r)) = Some p \<Longrightarrow> p \<noteq> r \<Longrightarrow>
        vc_epoch (w_heap w p) < vc_epoch (w_heap w r) \<and> vc_closed (w_heap w' p)"
      and "w_hub w' = (published_hub (w_heap w r) r route (w_hub (pruneExpiredLocked ps ord now w)))\<lparr>hub_routeChanges := True\<rparr>"
      and "idents w' = idents w"
proof -
  define w1 where "w1 = pruneExpiredLocked ps ord now w"
  define published where "published = (case beforePublish of None \<Rightarrow> (w1, None) | Some publish \<Rightarrow> on_carrier r publish w1)"
  let ?c = "w_heap w r"
  let ?h = "published_hub ?c r route (w_hub w1)"
  have id1: "idents w1 = idents w" by (simp add: w1_def)
  have pub: "w_hub (fst published) = w_hub w1" "idents (fst published) = idents w"
    using publish id1 by (auto simp: published_def split: option.split)
  define bad where "bad \<longleftrightarrow> vc_role ?c \<noteq> v2CarrierDevice \<or> vc_deviceID ?c = [] \<or> rt_DeviceID route \<noteq> vc_deviceID ?c \<or>
    rt_ConnectionID route \<noteq> vc_id ?c \<or> rt_ConnectionEpoch route \<noteq> vc_epoch ?c \<or> rt_ProtocolVersion route \<noteq> 2"
  define taken where "taken \<longleftrightarrow> fmlookup (hub_carriers (w_hub w1)) (vc_id ?c) \<notin> {None, Some r}"
  define previous where "previous = fmlookup (hub_carriers (w_hub w1)) (fmget [] (hub_deviceCarriers (w_hub w1)) (vc_deviceID ?c))"
  define old where "old \<longleftrightarrow> previous \<noteq> None \<and> previous \<noteq> Some r \<and> vc_epoch ?c \<le> vc_epoch (w_heap w1 (the previous))"
  define finish where "finish v = sends_stale ps (stale_client_links ord (vc_deviceID ?c) ?h)
      (signalRouteChange (if previous \<noteq> None \<and> previous \<noteq> Some r then close_ref (the previous) (set_hub ?h v) else set_hub ?h v))"
    for v
  have result: "attachDeviceBeforePublish ps ord now r route beforePublish w =
      (if bad then (w, Some ErrV2Route) else if taken then (w1, Some ErrV2Route) else if old then (w1, Some ErrV2Route)
       else (case published of (v, Some err) \<Rightarrow> (v, Some err) | (v, None) \<Rightarrow> (finish v, None)))"
    unfolding attachDeviceBeforePublish_def Let_def w1_def published_def bad_def taken_def previous_def old_def finish_def
      published_hub_def sends_stale_def by (rule refl)
  consider "w' \<in> {w, w1, fst published}" | "\<not> bad" "\<not> taken" "\<not> old" "w' = finish (fst published)"
    unfolding w' result by (cases published; cases "snd published"; cases bad; cases taken; cases old) auto
  then show thesis
  proof cases
    case 1
    then show thesis using pub id1 by (intro refused) (auto simp: w1_def)
  next
    case 2
    have previous: "previous = device_carrier (w_hub w) (vc_deviceID ?c)"
      by (simp add: previous_def device_carrier_def w1_def)
    have "vc_epoch (w_heap w p) < vc_epoch ?c \<and> vc_closed (w_heap w' p)"
      if "device_carrier (w_hub w) (vc_deviceID ?c) = Some p" "p \<noteq> r" for p
      using that 2(3,4) previous idents_eqD(2) [OF id1, of p]
      by (auto simp: old_def finish_def)
    moreover have "w_hub w' = ?h\<lparr>hub_routeChanges := True\<rparr>" "idents w' = idents w"
      using 2(4) pub by (simp_all add: finish_def)
    ultimately show thesis
      using 2(1,2) by (intro attached) (auto simp: bad_def taken_def w1_def)
  qed
qed

lemma hub_ok_attach_device:
  assumes ok: "hub_ok w" and id: "vc_id (w_heap w r) \<noteq> []"
    and publish: "\<And>f. beforePublish = Some f \<Longrightarrow> keeps_ident f"
  shows "hub_ok (fst (attachDeviceBeforePublish ps ord now r route beforePublish w))"
proof (rule attach_device_cases [OF publish refl, of beforePublish ps ord now r route w])
  let ?w' = "fst (attachDeviceBeforePublish ps ord now r route beforePublish w)"
  assume "w_hub ?w' = w_hub w \<or> w_hub ?w' = w_hub (pruneExpiredLocked ps ord now w)" "idents ?w' = idents w"
  then show ?thesis using ok hub_ok_prune [OF ok, of ps ord now] by (auto simp: hub_ok_def)
next
  let ?w' = "fst (attachDeviceBeforePublish ps ord now r route beforePublish w)"
  assume attached: "vc_role (w_heap w r) = v2CarrierDevice" "rt_DeviceID route = vc_deviceID (w_heap w r)"
    "rt_ConnectionID route = vc_id (w_heap w r)" "rt_ConnectionEpoch route = vc_epoch (w_heap w r)"
    "fmlookup (hub_carriers (w_hub w)) (vc_id (w_heap w r)) = None \<or> fmlookup (hub_carriers (w_hub w)) (vc_id (w_heap w r)) = Some r"
    and new: "w_hub ?w' = (published_hub (w_heap w r) r route (w_hub (pruneExpiredLocked ps ord now w)))\<lparr>hub_routeChanges := True\<rparr>"
      "idents ?w' = idents w"
  define h1 where "h1 = w_hub (pruneExpiredLocked ps ord now w)"
  let ?h = "published_hub (w_heap w r) r route h1"
  have h1: "carriers_ok h1 (idents w)" "links_ok h1 (idents w)"
    using hub_ok_prune [OF ok, of ps ord now] by (simp_all only: hub_ok_def h1_def prune_simps(2))
  have free: "fmlookup (hub_carriers h1) (vc_id (w_heap w r)) = None \<or> fmlookup (hub_carriers h1) (vc_id (w_heap w r)) = Some r"
    using attached(5) by (simp add: h1_def)
  have "carriers_ok ?h (idents w)" "links_ok ?h (idents w)"
    by (rule hub_ok_publish [OF h1 _ _ _ free, where e = "vc_epoch (w_heap w r)" and route = route and d = "vc_deviceID (w_heap w r)"];
        simp add: id attached filed_def published_hub_def retarget_links_def)+
  with new [folded h1_def] show ?thesis by (simp add: hub_ok_def)
qed

lemma drop_device:
  assumes ok: "carriers_ok h ids" and alone: "\<And>d'. fmlookup (hub_deviceCarriers h) d' = Some i \<Longrightarrow> d' = d"
    and h': "hub_carriers h' = hub_carriers h \<or> hub_carriers h' = fmdrop i (hub_carriers h)"
      "hub_deviceCarriers h' = fmdrop d (hub_deviceCarriers h)" "hub_deviceRoutes h' = fmdrop d (hub_deviceRoutes h)"
  shows "carriers_ok h' ids" and "d' \<noteq> d \<Longrightarrow> device_carrier h' d' = device_carrier h d'"
    and "device_carrier h' d = None"
proof -
  have same: "fmlookup (hub_carriers h') j = fmlookup (hub_carriers h) j"
    if "fmlookup (hub_deviceCarriers h) d' = Some j" "d' \<noteq> d" for d' j
    using h'(1) alone that by auto
  have empty: "fmlookup (hub_carriers h) [] = None"
    using filed_at(2) [OF ok, of "[]"] by (cases "fmlookup (hub_carriers h) []") simp_all
  have "current h' ids d' j" if "fmlookup (hub_deviceCarriers h') d' = Some j" for d' j
  proof -
    have d': "d' \<noteq> d" "fmlookup (hub_deviceCarriers h) d' = Some j" using that h' by (auto split: if_splits)
    then have "current h ids d' j" using ok by (simp add: carriers_ok_def)
    with same [OF d'(2,1)] d' h'(3) show ?thesis by (simp add: current_def)
  qed
  moreover have "filed ids j r" if "fmlookup (hub_carriers h') j = Some r" for j r
    using that h'(1) ok by (auto simp: carriers_ok_def split: if_splits)
  ultimately show "carriers_ok h' ids" using ok h' by (auto simp: carriers_ok_def)
  show "device_carrier h' d' = device_carrier h d'" if "d' \<noteq> d"
  proof (cases "fmlookup (hub_deviceCarriers h) d'")
    case None
    with that h' empty show ?thesis by (auto simp: device_carrier_def fmget_def)
  next
    case (Some j)
    with that h' same [OF this that] show ?thesis by (simp add: device_carrier_def fmget_def)
  qed
  show "device_carrier h' d = None" using h' empty by (auto simp: device_carrier_def fmget_def)
qed

lemma links_ok_suspend:
  assumes "links_ok h ids" and "expires \<noteq> 0"
    and "\<And>d'. d' \<noteq> d \<Longrightarrow> device_carrier h' d' = device_carrier h d'" and "device_carrier h' d = None"
    and "hub_links h' = fmmap (\<lambda>l. if lr_deviceID l = d then l\<lparr>lr_deviceSuspendedUntil := expires\<rparr> else l) (hub_links h)"
  shows "links_ok h' ids"
  by (rule links_ok_fmmap [OF assms(1) _ _ assms(5)]) (auto simp: link_ok_def assms)

lemma carrier_drop:
  assumes ok: "carriers_ok h ids" and free: "\<And>d. fmlookup (hub_deviceCarriers h) d \<noteq> Some i" and id: "i \<noteq> []"
    and h': "hub_carriers h' = fmdrop i (hub_carriers h)" "hub_deviceCarriers h' = hub_deviceCarriers h"
      "hub_deviceRoutes h' = hub_deviceRoutes h"
  shows "carriers_ok h' ids" and "device_carrier h' d = device_carrier h d"
proof -
  have "current h' ids d j" if "fmlookup (hub_deviceCarriers h') d = Some j" for d j
  proof -
    have "j \<noteq> i" "current h ids d j" using that free [of d] h' ok by (auto simp: carriers_ok_def)
    then show ?thesis using h' by (simp add: current_def)
  qed
  then show "carriers_ok h' ids" using ok h' by (auto simp: carriers_ok_def)
  show "device_carrier h' d = device_carrier h d"
    using free [of d] id h' by (cases "fmlookup (hub_deviceCarriers h) d") (auto simp: device_carrier_def fmget_def)
qed

text \<open>The carrier's name is in use by a device only if it is that device's carrier.\<close>

lemma device_name:
  assumes "carriers_ok h ids" and "fmlookup (hub_carriers h) i = Some r" and "fmlookup (hub_deviceCarriers h) d = Some i"
  shows "device_of ids r = d" and "role_of ids r = v2CarrierDevice"
proof -
  have "current h ids d i" using assms by (simp add: carriers_ok_def)
  with assms(2) show "device_of ids r = d" "role_of ids r = v2CarrierDevice" by (auto simp: current_def)
qed

text \<open>The devices of \<open>w'\<close> keep their carrier or lose it.\<close>

definition loses :: "world \<Rightarrow> world \<Rightarrow> bool" where
  "loses w w' \<longleftrightarrow> (\<forall>d. device_carrier (w_hub w') d = None \<or> device_carrier (w_hub w') d = device_carrier (w_hub w) d)"

lemma loses_hub:
  assumes "device_carrier (w_hub v) = device_carrier (w_hub w)"
    and "\<And>d'. d' \<noteq> d \<Longrightarrow> device_carrier h' d' = device_carrier (w_hub v) d'" and "device_carrier h' d = None"
    and "hub_carriers (w_hub w') = hub_carriers h'" and "hub_deviceCarriers (w_hub w') = hub_deviceCarriers h'"
  shows "loses w w'"
  unfolding loses_def
proof
  fix e
  have "device_carrier (w_hub w') e = device_carrier h' e" using assms(4,5) by (simp add: device_carrier_def)
  with assms(1-3) show "device_carrier (w_hub w') e = None \<or> device_carrier (w_hub w') e = device_carrier (w_hub w) e"
    by (cases "e = d") simp_all
qed

lemma loses_same: "device_carrier (w_hub w') = device_carrier (w_hub w) \<Longrightarrow> loses w w'"
  by (simp add: loses_def)

lemma prune_devices [simp]: "device_carrier (w_hub (pruneExpiredLocked ps ord now w)) = device_carrier (w_hub w)"
  by (simp add: device_carrier_def fun_eq_iff)

lemma hub_ok_detach:
  assumes ok: "hub_ok w" and time: "0 \<le> later"
  shows "hub_ok (detach ps ord now later r w)" and "loses w (detach ps ord now later r w)"
proof -
  define w1 where "w1 = pruneExpiredLocked ps ord now w"
  let ?i = "vc_id (w_heap w r)" and ?d = "vc_deviceID (w_heap w r)"
  have ok1: "hub_ok w1" unfolding w1_def by (rule hub_ok_prune [OF ok])
  have id1: "idents w1 = idents w" by (simp add: w1_def)
  have c1: "carriers_ok (w_hub w1) (idents w)" and l1: "links_ok (w_hub w1) (idents w)"
    using ok1 id1 by (simp_all add: hub_ok_def)
  have expires: "later + v2LinkRouteGrace \<noteq> 0" using time by (simp add: v2LinkRouteGrace_def duration_defs)
  have dev1: "device_carrier (w_hub w1) = device_carrier (w_hub w)" by (simp add: w1_def)
  have "hub_ok (detach ps ord now later r w) \<and> loses w (detach ps ord now later r w)"
  proof (cases "fmlookup (hub_carriers (w_hub w1)) ?i = Some r")
    case False
    then show ?thesis using ok1 loses_same [OF dev1] by (simp add: detach_def Let_def w1_def)
  next
    case here: True
    have id: "?i \<noteq> []" by (rule filed_at(2) [OF c1 here])
    have alone: "d' = ?d" if "fmlookup (hub_deviceCarriers (w_hub w1)) d' = Some ?i" for d'
      using device_name(1) [OF c1 here that] by simp
    show ?thesis
    proof (cases "vc_role (w_heap w r) = v2CarrierDevice \<and> fmget [] (hub_deviceCarriers (w_hub w1)) ?d = ?i")
      case True
      define h' where "h' = suspend_device ?d (later + v2LinkRouteGrace) ((w_hub w1)\<lparr>hub_carriers := fmdrop ?i (hub_carriers (w_hub w1)),
          hub_deviceCarriers := fmdrop ?d (hub_deviceCarriers (w_hub w1)), hub_deviceRoutes := fmdrop ?d (hub_deviceRoutes (w_hub w1))\<rparr>)"
      have w': "detach ps ord now later r w = signalRouteChange (set_hub h' w1)"
        using here True by (simp add: detach_def Let_def w1_def [symmetric] h'_def)
      have fields: "hub_carriers h' = fmdrop ?i (hub_carriers (w_hub w1))"
        "hub_deviceCarriers h' = fmdrop ?d (hub_deviceCarriers (w_hub w1))" "hub_deviceRoutes h' = fmdrop ?d (hub_deviceRoutes (w_hub w1))"
        "hub_links h' = fmmap (\<lambda>l. if lr_deviceID l = ?d then l\<lparr>lr_deviceSuspendedUntil := later + v2LinkRouteGrace\<rparr> else l)
          (hub_links (w_hub w1))"
        by (simp_all add: h'_def suspend_device_def)
      note dropped = drop_device [OF c1 alone disjI2 [OF fields(1)] fields(2,3)]
      have "links_ok h' (idents w)" by (rule links_ok_suspend [OF l1 expires dropped(2,3) fields(4)])
      moreover have "loses w (detach ps ord now later r w)"
        by (rule loses_hub [OF dev1 dropped(2,3)]) (simp_all add: w')
      ultimately show ?thesis using dropped(1) w' id1 by (simp add: hub_ok_def)
    next
      case False
      have free: "fmlookup (hub_deviceCarriers (w_hub w1)) d' \<noteq> Some ?i" for d'
        using device_name [OF c1 here, of d'] False by (auto simp: fmget_def)
      define h' where "h' = (w_hub w1)\<lparr>hub_carriers := fmdrop ?i (hub_carriers (w_hub w1))\<rparr>"
      have dropped: "carriers_ok h' (idents w)" "device_carrier h' d = device_carrier (w_hub w1) d" for d
        using carrier_drop [OF c1 free id, of h'] by (simp_all add: h'_def)
      have l': "links_ok h' (idents w)"
        using l1 dropped(2) by (simp add: links_ok_def link_ok_def h'_def)
      have moved: "links_ok (suspend_client ?i (later + v2LinkRouteGrace) h') (idents w)"
        "carriers_ok (suspend_client ?i (later + v2LinkRouteGrace) h') (idents w)"
      proof -
        show "links_ok (suspend_client ?i (later + v2LinkRouteGrace) h') (idents w)"
        unfolding suspend_client_def
        by (rule links_ok_thinned [OF l'])
          (auto simp: thinned_def same_route_def map_option_eq_Some)
        show "carriers_ok (suspend_client ?i (later + v2LinkRouteGrace) h') (idents w)"
          using dropped(1) by (simp add: suspend_client_def)
      qed
      have outcome: "w_hub (detach ps ord now later r w) \<in>
          {h', suspend_client ?i (later + v2LinkRouteGrace) h', (suspend_client ?i (later + v2LinkRouteGrace) h')\<lparr>hub_routeChanges := True\<rparr>}
          \<and> idents (detach ps ord now later r w) = idents w"
        using here False id1 by (auto simp: detach_def Let_def w1_def [symmetric] h'_def)
      have "device_carrier (w_hub v) = device_carrier (w_hub w)"
        if "w_hub v \<in> {h', suspend_client ?i (later + v2LinkRouteGrace) h',
          (suspend_client ?i (later + v2LinkRouteGrace) h')\<lparr>hub_routeChanges := True\<rparr>}" for v
        using that dropped(2) dev1 by (auto simp: suspend_client_def device_carrier_def fun_eq_iff)
      then have "loses w (detach ps ord now later r w)" by (rule loses_same) (rule conjunct1 [OF outcome])
      with outcome l' dropped(1) moved show ?thesis by (elim conjE insertE) (simp_all add: hub_ok_def)
    qed
  qed
  then show "hub_ok (detach ps ord now later r w)" and "loses w (detach ps ord now later r w)" by simp_all
qed

lemma hub_ok_reject:
  assumes ok: "hub_ok w" and time: "0 \<le> now"
  shows "hub_ok (fst (RejectResident ps ord now d i epoch w))" and "loses w (fst (RejectResident ps ord now d i epoch w))"
proof -
  define w1 where "w1 = pruneExpiredLocked ps ord now w"
  have ok1: "hub_ok w1" unfolding w1_def by (rule hub_ok_prune [OF ok])
  have dev1: "device_carrier (w_hub w1) = device_carrier (w_hub w)" by (simp add: w1_def)
  have c1: "carriers_ok (w_hub w1) (idents w1)" and l1: "links_ok (w_hub w1) (idents w1)"
    using ok1 by (simp_all add: hub_ok_def)
  define h' where "h' = suspend_device d (now + v2LinkRouteGrace) ((w_hub w1)\<lparr>hub_deviceCarriers := fmdrop d (hub_deviceCarriers (w_hub w1)),
      hub_deviceRoutes := fmdrop d (hub_deviceRoutes (w_hub w1))\<rparr>)"
  consider "fst (RejectResident ps ord now d i epoch w) \<in> {w, w1}"
    | r where "device_carrier (w_hub w1) d = Some r" "fst (RejectResident ps ord now d i epoch w) = close_ref r (signalRouteChange (set_hub h' w1))"
    unfolding RejectResident_def Let_def w1_def [symmetric] h'_def [symmetric]
    by (cases "d = [] \<or> i = [] \<or> epoch = 0"; cases "device_carrier (w_hub w1) d";
        cases "vc_id (w_heap w1 (the (device_carrier (w_hub w1) d))) \<noteq> i \<or>
          vc_epoch (w_heap w1 (the (device_carrier (w_hub w1) d))) \<noteq> epoch") simp_all
  then have "hub_ok (fst (RejectResident ps ord now d i epoch w)) \<and> loses w (fst (RejectResident ps ord now d i epoch w))"
  proof cases
    case 1
    have "loses w w" "loses w w1" by (simp_all add: w1_def loses_same)
    with 1 ok ok1 show ?thesis by auto
  next
    case 2
    let ?j = "fmget [] (hub_deviceCarriers (w_hub w1)) d"
    have at: "fmlookup (hub_carriers (w_hub w1)) ?j = Some r" using 2(1) by (simp add: device_carrier_def)
    then have "?j \<noteq> []" by (rule filed_at(2) [OF c1])
    then have dj: "fmlookup (hub_deviceCarriers (w_hub w1)) d = Some ?j" by (auto simp: fmget_def split: option.splits)
    have alone: "d' = d" if "fmlookup (hub_deviceCarriers (w_hub w1)) d' = Some ?j" for d'
      using device_name(1) [OF c1 at that] device_name(1) [OF c1 at dj] by simp
    have fields: "hub_carriers h' = hub_carriers (w_hub w1)"
      "hub_deviceCarriers h' = fmdrop d (hub_deviceCarriers (w_hub w1))" "hub_deviceRoutes h' = fmdrop d (hub_deviceRoutes (w_hub w1))"
      "hub_links h' = fmmap (\<lambda>l. if lr_deviceID l = d then l\<lparr>lr_deviceSuspendedUntil := now + v2LinkRouteGrace\<rparr> else l)
        (hub_links (w_hub w1))"
      by (simp_all add: h'_def suspend_device_def)
    note dropped = drop_device [OF c1 alone disjI1 [OF fields(1)] fields(2,3)]
    have expires: "now + v2LinkRouteGrace \<noteq> 0" using time by (simp add: v2LinkRouteGrace_def duration_defs)
    have "links_ok h' (idents w1)" by (rule links_ok_suspend [OF l1 expires dropped(2,3) fields(4)])
    moreover have "loses w (fst (RejectResident ps ord now d i epoch w))"
      by (rule loses_hub [where v = w1, OF _ dropped(2,3)]) (simp_all add: dev1 2(2))
    ultimately show ?thesis using dropped(1) 2(2) by (simp add: hub_ok_def)
  qed
  then show "hub_ok (fst (RejectResident ps ord now d i epoch w))" and "loses w (fst (RejectResident ps ord now d i epoch w))" by simp_all
qed

lemma hub_ok_close_all: "hub_ok (CloseAll ord w)"
proof -
  have "w_hub (fold close_ref rs v) = w_hub v \<and> idents (fold close_ref rs v) = idents v" for rs v
    by (induction rs arbitrary: v) simp_all
  then show ?thesis
    by (simp add: CloseAll_def Let_def hub_ok_def carriers_ok_def links_ok_def pairs_ok_def)
qed

text \<open>The critical section of a client's frame.\<close>

lemma hub_ok_relink:
  assumes "hub_ok w" and "fmlookup (hub_links (w_hub w)) k = Some old" and "same_route l old"
  shows "hub_ok (set_hub ((w_hub w)\<lparr>hub_links := fmupd k l (hub_links (w_hub w))\<rparr>) w)"
  by (rule hub_ok_thinned [where m = "fmupd k l (hub_links (w_hub w))", OF assms(1)])
    (use thinned_upd [OF assms(2,3)] in simp_all)

lemma hub_ok_rebind:
  assumes "hub_ok w" and "fmlookup (hub_links (w_hub w)) k = Some old"
  shows "hub_ok (rebind_link r k old w)"
  unfolding rebind_link_def by (rule hub_ok_relink [OF assms]) (simp add: same_route_def)

lemma rebind_simps [simp]:
  "idents (rebind_link r k old w) = idents w" "w_heap (rebind_link r k old w) = w_heap w"
  by (simp_all add: rebind_link_def)

lemma hub_ok_create:
  assumes ok: "hub_ok w" and k: "k \<noteq> []" and new: "fmlookup (hub_links (w_hub w)) k = None"
  shows "hub_ok (fst (create_link ord r claims k w))" and "idents (fst (create_link ord r claims k w)) = idents w"
proof -
  let ?stale = "superseded_by k claims (vc_id (w_heap w r))"
  define m where "m = fmkeep (\<lambda>j l. \<not> ?stale j l) (hub_links (w_hub w))"
  define l where "l target = \<lparr>lr_linkID = k, lr_clientID = dc_ClientID claims, lr_deviceID = dc_DeviceID claims,
      lr_clientCarrierID = vc_id (w_heap w r), lr_targetEpoch = vc_epoch (w_heap w target),
      lr_clientSuspendedUntil = 0, lr_deviceSuspendedUntil = 0\<rparr>" for target
  have kept: "hub_ok (set_hub ((w_hub w)\<lparr>hub_links := m\<rparr>) w)"
    by (rule hub_ok_thinned [where m = m, OF ok]) (simp_all add: m_def)
  have outcomes: "fst (create_link ord r claims k w) \<in> {w, set_hub ((w_hub w)\<lparr>hub_links := m\<rparr>) w} \<or>
      (\<exists>target. device_carrier (w_hub w) (dc_DeviceID claims) = Some target \<and> fmlen m < v2MaximumLinkRoutes \<and>
        fst (create_link ord r claims k w) = set_hub ((w_hub w)\<lparr>hub_links := fmupd k (l target) m\<rparr>) w)"
    unfolding create_link_def Let_def m_def l_def
    by (cases "device_carrier (w_hub w) (dc_DeviceID claims)") auto
  have "hub_ok (set_hub ((w_hub w)\<lparr>hub_links := fmupd k (l target) m\<rparr>) w)"
    if target: "device_carrier (w_hub w) (dc_DeviceID claims) = Some target" and room: "fmlen m < v2MaximumLinkRoutes" for target
  proof -
    let ?h = "(w_hub w)\<lparr>hub_links := fmupd k (l target) m\<rparr>"
    have c: "carriers_ok (w_hub w) (idents w)" and lk: "links_ok ((w_hub w)\<lparr>hub_links := m\<rparr>) (idents w)"
      using ok kept by (simp_all add: hub_ok_def)
    have mk: "fmlookup m k = None" using new by (simp add: m_def)
    have "link_ok ?h (idents w) j x" if "fmlookup (fmupd k (l target) m) j = Some x" for j x
      using that lk target k by (auto simp: links_ok_def link_ok_def l_def split: if_splits option.splits)
    moreover have "pairs_ok (fmupd k (l target) m)"
    proof -
      have other: "\<not> (lr_clientID x = dc_ClientID claims \<and> lr_deviceID x = dc_DeviceID claims)"
        if "fmlookup m j = Some x" "j \<noteq> k" for j x
        using that by (auto simp: m_def superseded_by_def split: option.splits if_splits)
      have "pairs_ok m" using lk by (simp add: links_ok_def)
      then have p: "j = j'" if "fmlookup m j = Some x" "fmlookup m j' = Some x'" "lr_clientID x = lr_clientID x'"
          "lr_deviceID x = lr_deviceID x'" for j j' x x'
        using that unfolding pairs_ok_def by blast
      show ?thesis
        unfolding pairs_ok_def
      proof (intro allI impI, elim conjE)
        fix j x j' x'
        assume a: "fmlookup (fmupd k (l target) m) j = Some x" "fmlookup (fmupd k (l target) m) j' = Some x'"
          "lr_clientID x = lr_clientID x'" "lr_deviceID x = lr_deviceID x'"
        show "j = j'"
        proof (cases "j = k \<or> j' = k")
          case True
          with a other [of j x] other [of j' x'] show ?thesis by (auto simp: l_def split: if_splits)
        next
          case False
          with a show ?thesis by (intro p [of j x j' x']) (auto split: if_splits)
        qed
      qed
    qed
    moreover have "fmlen (fmupd k (l target) m) \<le> v2MaximumLinkRoutes"
      using room mk by (simp add: fmlen_upd)
    ultimately show ?thesis using c by (simp add: hub_ok_def links_ok_def)
  qed
  with outcomes ok kept show "hub_ok (fst (create_link ord r claims k w))" by auto
  from outcomes show "idents (fst (create_link ord r claims k w)) = idents w" by auto
qed

lemma hub_ok_client_section:
  assumes ok: "hub_ok w" and k: "k \<noteq> []"
  shows "hub_ok (fst (client_locked ord r claims link k w))" and "idents (fst (client_locked ord r claims link k w)) = idents w"
proof -
  have outcomes: "fst (client_locked ord r claims link k w) = w \<or>
    (\<exists>old. fmlookup (hub_links (w_hub w)) k = Some old \<and>
       (fst (client_locked ord r claims link k w) = rebind_link r k old w \<or>
        fst (client_locked ord r claims link k w) = set_hub ((w_hub w)\<lparr>hub_links :=
          fmupd k (old\<lparr>lr_clientSuspendedUntil := 0\<rparr>) (hub_links (w_hub w))\<rparr>) w)) \<or>
    (fmlookup (hub_links (w_hub w)) k = None \<and> fst (client_locked ord r claims link k w) = fst (create_link ord r claims k w))"
    unfolding client_locked_def Let_def
    by (cases "GetLinkInit link"; cases "fmlookup (hub_links (w_hub w)) k") simp_all
  then show "hub_ok (fst (client_locked ord r claims link k w))"
    using ok hub_ok_rebind [OF ok] hub_ok_relink [OF ok] hub_ok_create(1) [OF ok k]
    by (elim disjE exE conjE) (simp_all add: same_route_def)
  show "idents (fst (client_locked ord r claims link k w)) = idents w"
    using outcomes hub_ok_create(2) [OF ok k] by (elim disjE exE conjE) simp_all
qed

lemma hub_ok_sends [simp]:
  "hub_ok (fst (reject_on ps r i j k x w)) = hub_ok w" "hub_ok (fst (sendV2LinkRouteStale ps r i w)) = hub_ok w"
  "hub_ok (fst (rejectUnknownV2Link ps r i w)) = hub_ok w" "hub_ok (close_ref r w) = hub_ok w"
  by (rule hub_ok_cong; simp)+

lemma fst_case_error [simp]: "fst (case x of (w, None) \<Rightarrow> (w, a) | (w, Some e) \<Rightarrow> (w, b e)) = fst x"
  by (cases x; cases "snd x") auto

text \<open>Handing out a frame touches the hub only where a link just created is dropped again.\<close>

lemma dropLink_idents [simp]: "idents (dropLink k w) = idents w" "w_heap (dropLink k w) = w_heap w"
  by (simp_all add: dropLink_def)

lemma deliver_outcome:
  assumes "\<And>v. idents (undo v) = idents v"
  shows "idents (fst (deliver_link ps r target link undo w)) = idents w \<and>
    (w_hub (fst (deliver_link ps r target link undo w)) = w_hub w \<or>
     (\<exists>v. w_hub v = w_hub w \<and> idents v = idents w \<and> w_hub (fst (deliver_link ps r target link undo w)) = w_hub (undo v)))"
proof -
  obtain i j k where m: "v2LinkMetadata link = (i, j, k)" by (cases "v2LinkMetadata link")
  obtain v err where e: "on_carrier target (enqueueLink ps link) w = (v, err)" by (cases "on_carrier target (enqueueLink ps link) w")
  then have v: "w_hub v = w_hub w" "idents v = idents w"
    using on_carrier_hub [of target "enqueueLink ps link" w] on_carrier_ident [of "enqueueLink ps link" target w] by simp_all
  have "fst (deliver_link ps r target link undo w) \<in> {v, undo v,
      fst (on_carrier target (rejectStream ps i j k) (fst (on_carrier r (rejectStream ps i j k) (undo v))))}"
    by (simp add: deliver_link_def m e Let_def split: option.split)
  then show ?thesis using v assms by (elim insertE) auto
qed

lemma hub_ok_deliver:
  assumes "hub_ok w" and "undo = id \<or> undo = dropLink k"
  shows "hub_ok (fst (deliver_link ps r target link undo w))" and "idents (fst (deliver_link ps r target link undo w)) = idents w"
proof -
  have u: "idents (undo v) = idents v" for v using assms(2) by auto
  note out = deliver_outcome [of undo ps r target link w, OF u]
  then show "idents (fst (deliver_link ps r target link undo w)) = idents w" by simp
  have "hub_ok (undo v)" if "w_hub v = w_hub w" "idents v = idents w" for v
    using that assms hub_ok_cong [of v w] hub_ok_drop by auto
  then show "hub_ok (fst (deliver_link ps r target link undo w))"
    using out assms(1) u by (auto simp: hub_ok_def)
qed

lemma fold_rejects [simp]:
  "w_hub (fold (\<lambda>l w. fst (reject_on ps r (f l) [] [] x w)) ls w) = w_hub w"
  "idents (fold (\<lambda>l w. fst (reject_on ps r (f l) [] [] x w)) ls w) = idents w"
  by (induction ls arbitrary: w) simp_all

lemma hub_ok_client_rest:
  assumes "hub_ok w"
  shows "hub_ok (fst (client_unlocked ps r link k plan w))" and "idents (fst (client_unlocked ps r link k plan w)) = idents w"
proof -
  have "hub_ok (fst (client_unlocked ps r link k plan w)) \<and> idents (fst (client_unlocked ps r link k plan w)) = idents w"
  proof (cases plan)
    case (PlanDeliver ex target ready created superseded)
    define v where "v = (case target of None \<Rightarrow> w
      | Some ref \<Rightarrow> fold (\<lambda>stale w. fst (reject_on ps ref (lr_linkID stale) [] [] ERROR_RESUME_EXPIRED w)) superseded w)"
    have v: "w_hub v = w_hub w" "idents v = idents w" by (simp_all add: v_def split: option.split)
    then have ok: "hub_ok v" using assms hub_ok_cong [of v w] by simp
    have "fst (client_unlocked ps r link k plan w) \<in> {v, fst (rejectUnknownV2Link ps r k v)} \<or>
        (\<exists>undo. (undo = id \<or> undo = dropLink k) \<and>
          fst (client_unlocked ps r link k plan w) = fst (deliver_link ps r (the target) link undo v))"
      unfolding client_unlocked_def PlanDeliver Let_def client_plan.case v_def [symmetric] by auto
    then show ?thesis
      using ok v hub_ok_deliver [OF ok, of id k] hub_ok_deliver [OF ok, of "dropLink k" k]
      by (elim disjE insertE exE conjE) simp_all
  qed (use assms in \<open>simp_all add: client_unlocked_def\<close>)
  then show "hub_ok (fst (client_unlocked ps r link k plan w))" "idents (fst (client_unlocked ps r link k plan w)) = idents w" by auto
qed

lemma hub_ok_route_client: "hub_ok w \<Longrightarrow> hub_ok (fst (routeClientLink ps ord now r claims link w))"
proof -
  assume ok: "hub_ok w"
  define w1 where "w1 = pruneExpiredLocked ps ord now w"
  have ok1: "hub_ok w1" unfolding w1_def by (rule hub_ok_prune [OF ok])
  obtain i j k where m: "v2LinkMetadata link = (i, j, k)" by (cases "v2LinkMetadata link")
  obtain v plan where v: "client_locked ord r claims link i w1 = (v, plan)" by (cases "client_locked ord r claims link i w1")
  have "fst (routeClientLink ps ord now r claims link w) = w \<or>
      (i \<noteq> [] \<and> fst (routeClientLink ps ord now r claims link w) = fst (client_unlocked ps r link i plan v))"
    unfolding routeClientLink_def m prod.case w1_def [symmetric] v by simp
  then show ?thesis
    using ok hub_ok_client_section(1) [OF ok1, of i ord r claims link] hub_ok_client_rest(1) [of v ps r link i plan] v by auto
qed

lemma hub_ok_route_device: "hub_ok w \<Longrightarrow> hub_ok (fst (routeDeviceLink ps ord now r link w))"
proof -
  assume ok: "hub_ok w"
  define w1 where "w1 = pruneExpiredLocked ps ord now w"
  have ok1: "hub_ok w1" unfolding w1_def by (rule hub_ok_prune [OF ok])
  obtain i j k where m: "v2LinkMetadata link = (i, j, k)" by (cases "v2LinkMetadata link")
  have "fst (routeDeviceLink ps ord now r link w) \<in> {w, w1} \<or>
      (\<exists>target. fst (routeDeviceLink ps ord now r link w) = fst (deliver_link ps r target link id w1))"
    unfolding routeDeviceLink_def m prod.case Let_def w1_def [symmetric]
    by (auto split: option.split)
  then show ?thesis using ok ok1 hub_ok_deliver(1) [OF ok1, of id] by auto
qed

lemma hub_ok_resume_client: "hub_ok w \<Longrightarrow> hub_ok (fst (resumeClient ps ord now later r claims resume w))"
proof -
  assume ok: "hub_ok w"
  define w1 where "w1 = pruneExpiredLocked ps ord now w"
  have ok1: "hub_ok w1" unfolding w1_def by (rule hub_ok_prune [OF ok])
  let ?k = "cr_LinkId resume"
  define fin where "fin route v = (case device_carrier (w_hub v) (lr_deviceID route) of
        None \<Rightarrow> (v, Some (if IsZero (lr_deviceSuspendedUntil route) \<or> After (lr_deviceSuspendedUntil route) later
          then ErrV2TransientRoute else ErrV2Route))
      | Some target \<Rightarrow>
          if vc_epoch (w_heap v target) \<noteq> lr_targetEpoch route
          then (v, Some (if IsZero (lr_deviceSuspendedUntil route) \<or> After (lr_deviceSuspendedUntil route) later
            then ErrV2TransientRoute else ErrV2Route))
          else (case on_carrier target (enqueueEnvelope ps (body_envelope (Body_Resume resume)) v2PriorityControl) v of
              (w, None) \<Rightarrow> (w, None)
            | (w, Some err) \<Rightarrow> (w, Some ErrV2Route)))" for route :: v2LinkRoute and v
  have fin: "w_hub (fst (fin route v)) = w_hub v" "idents (fst (fin route v)) = idents v" for route v
    by (simp_all add: fin_def split: option.split)
  have outcomes: "fst (resumeClient ps ord now later r claims resume w) \<in> {w, w1} \<or>
      (\<exists>old. fmlookup (hub_links (w_hub w1)) ?k = Some old \<and>
        fst (resumeClient ps ord now later r claims resume w) = fst (fin old (rebind_link r (lr_linkID old) old w1)))"
    unfolding resumeClient_def Let_def w1_def [symmetric] fin_def [symmetric]
    by (cases "fmlookup (hub_links (w_hub w1)) ?k") simp_all
  have "hub_ok (fst (fin old (rebind_link r (lr_linkID old) old w1)))"
    if old: "fmlookup (hub_links (w_hub w1)) ?k = Some old" for old
  proof -
    have "link_ok (w_hub w1) (idents w1) ?k old" using old ok1 by (simp add: hub_ok_def links_ok_def)
    then have "lr_linkID old = ?k" by (simp add: link_ok_def)
    then have "hub_ok (rebind_link r (lr_linkID old) old w1)" using hub_ok_rebind [OF ok1 old] by simp
    then show ?thesis by (simp add: hub_ok_def fin)
  qed
  with outcomes ok ok1 show ?thesis by (elim disjE exE conjE insertE) simp_all
qed

lemma hub_ok_resume_device: "hub_ok w \<Longrightarrow> hub_ok (fst (resumeDevice ps ord now r resume w))"
proof -
  assume ok: "hub_ok w"
  define w1 where "w1 = pruneExpiredLocked ps ord now w"
  have ok1: "hub_ok w1" unfolding w1_def by (rule hub_ok_prune [OF ok])
  have "fst (resumeDevice ps ord now r resume w) \<in> {w, w1} \<or>
      (\<exists>target e c. fst (resumeDevice ps ord now r resume w) = fst (on_carrier target (enqueueEnvelope ps e c) w1))"
    unfolding resumeDevice_def Let_def w1_def [symmetric]
    by (auto split: option.split)
  moreover have "hub_ok (fst (on_carrier target (enqueueEnvelope ps e c) w1))" for target e c
    using ok1 by (simp add: hub_ok_def)
  ultimately show ?thesis using ok ok1 by auto
qed

lemma hub_ok_route_rejected: "hub_ok w \<Longrightarrow> hub_ok (fst (routeStreamRejected ps r rejected w))"
proof -
  assume ok: "hub_ok w"
  have "fst (routeStreamRejected ps r rejected w) = w \<or>
      (\<exists>target e c. fst (routeStreamRejected ps r rejected w) = fst (on_carrier target (enqueueEnvelope ps e c) w))"
    unfolding routeStreamRejected_def Let_def
    by (auto split: option.split v2CarrierRole.split)
  then show ?thesis using ok by (auto simp: hub_ok_def)
qed

text \<open>The pieces of a client's call.\<close>

lemma hub_ok_begin_resume:
  assumes ok: "hub_ok w"
  shows "hub_ok (fst (begin_resume ps ord now later r claims resume w))"
proof -
  define w1 where "w1 = pruneExpiredLocked ps ord now w"
  have ok1: "hub_ok w1" unfolding w1_def by (rule hub_ok_prune [OF ok])
  let ?k = "cr_LinkId resume"
  have "fst (begin_resume ps ord now later r claims resume w) \<in> {w, w1} \<or>
      (\<exists>old. fmlookup (hub_links (w_hub w1)) ?k = Some old \<and>
        fst (begin_resume ps ord now later r claims resume w) = rebind_link r (lr_linkID old) old w1)"
    unfolding begin_resume_def Let_def w1_def [symmetric]
    by (cases "fmlookup (hub_links (w_hub w1)) ?k") (simp_all split: option.split)
  moreover have "hub_ok (rebind_link r (lr_linkID old) old w1)" if old: "fmlookup (hub_links (w_hub w1)) ?k = Some old" for old
  proof -
    have "link_ok (w_hub w1) (idents w1) ?k old" using old ok1 by (simp add: hub_ok_def links_ok_def)
    then have "lr_linkID old = ?k" by (simp add: link_ok_def)
    then show ?thesis using hub_ok_rebind [OF ok1 old] by simp
  qed
  ultimately show ?thesis using ok ok1 by auto
qed

lemma hub_ok_client_begin: "hub_ok w \<Longrightarrow> hub_ok (fst (client_begin ps ord now later r claims call w))"
proof (cases call)
  case (ClientLink link)
  assume ok: "hub_ok w"
  obtain i j k where m: "v2LinkMetadata link = (i, j, k)" by (cases "v2LinkMetadata link")
  have "fst (begin_link ps ord now r claims link w) = w \<or> i \<noteq> [] \<and>
      fst (begin_link ps ord now r claims link w) = fst (client_locked ord r claims link i (pruneExpiredLocked ps ord now w))"
    unfolding begin_link_def m prod.case by (simp split: prod.split)
  with ok hub_ok_client_section(1) [OF hub_ok_prune [OF ok]] ClientLink show ?thesis by auto
qed (simp_all add: hub_ok_begin_resume hub_ok_drop_from)

text \<open>A piece sends to a carrier, or removes a link.\<close>

lemma client_next_outcome:
  obtains "fst (client_next ps r (w, pc)) = w"
  | q and f :: "carrier_state \<Rightarrow> carrier_state \<times> v2_error option" where "keeps_ident f" "fst (client_next ps r (w, pc)) = fst (on_carrier q f w)"
  | k where "fst (client_next ps r (w, pc)) = dropLink k w"
proof (cases pc)
  case (CallStale k)
  then show thesis
    using that(1) that(2) [of "rejectStreamWithReason ps k [] [] ERROR_ROUTE_STALE" r]
    by (cases "k = []") (simp_all add: sendV2LinkRouteStale_def reject_on_def)
next
  case (CallUnknown k)
  then show thesis
    using that(1) that(2) [of "rejectStreamWithReason ps k [] [] ERROR_STREAM_NOT_FOUND" r]
    by (cases "k = []") (simp_all add: rejectUnknownV2Link_def reject_on_def case_prod_beta)
next
  case (CallNotices link k ex target ready created gone)
  show thesis
  proof (cases gone)
    case Nil
    with CallNotices that(1) show thesis by simp
  next
    case (Cons stale rest)
    show thesis
    proof (cases target)
      case None
      with CallNotices Cons that(1) show thesis by simp
    next
      case (Some q)
      with CallNotices Cons that(2) [of "rejectStreamWithReason ps (lr_linkID stale) [] [] ERROR_RESUME_EXPIRED" q]
      show thesis by (simp add: reject_on_def)
    qed
  qed
next
  case (CallDeliver link k target created)
  have "fst (client_next ps r (w, pc)) = fst (on_carrier target (enqueueLink ps link) w)"
    unfolding CallDeliver by (simp split: prod.split option.split)
  then show thesis by (intro that(2) [of "enqueueLink ps link" target]) simp_all
next
  case (CallFailed link target err)
  obtain i j l where m: "v2LinkMetadata link = (i, j, l)" by (cases "v2LinkMetadata link")
  show thesis
  proof (cases "err = ErrV2QueueFull")
    case True
    with CallFailed m that(2) [of "rejectStream ps i j l" r] show thesis by simp
  qed (use CallFailed that(1) in simp)
next
  case (CallFull link target)
  obtain i j l where m: "v2LinkMetadata link = (i, j, l)" by (cases "v2LinkMetadata link")
  with CallFull that(2) [of "rejectStream ps i j l" target] show thesis by simp
next
  case (CallResume resume target)
  have "fst (client_next ps r (w, pc)) = fst (on_carrier target (enqueueEnvelope ps (body_envelope (Body_Resume resume)) v2PriorityControl) w)"
    unfolding CallResume by (simp split: prod.split option.split)
  then show thesis by (intro that(2)) simp_all
next
  case (CallForward rejected target)
  have "fst (client_next ps r (w, pc)) = fst (on_carrier target (enqueueEnvelope ps (body_envelope (Body_StreamRejected rejected)) v2PriorityControl) w)"
    unfolding CallForward by (simp split: prod.split)
  then show thesis by (intro that(2)) simp_all
qed (use that in simp_all)

lemma hub_ok_client_next: "hub_ok w \<Longrightarrow> hub_ok (fst (client_next ps r (w, pc)))"
  by (rule client_next_outcome [of ps r w pc]) (simp_all add: hub_ok_def [of "fst (on_carrier _ _ _)"] hub_ok_def [of w] hub_ok_drop)

subsection \<open>The relay as a state machine\<close>

text \<open>
  Every handler is a step; the pieces of a client's call are steps on their own
  as well, so that anything may happen between them, and so is anything the
  carriers do by themselves. Carriers have a name (see
  \<open>newV2Carrier\<close>), and the clock is not before the zero instant.
\<close>

inductive hub_step :: "(CarrierEnvelope \<Rightarrow> int) \<Rightarrow> map_order \<Rightarrow> world \<Rightarrow> world \<Rightarrow> bool" for ps ord where
  step_attach_client: "vc_id (w_heap w r) \<noteq> [] \<Longrightarrow> hub_step ps ord w (fst (attachClient r w))"
| step_attach_device: "vc_id (w_heap w r) \<noteq> [] \<Longrightarrow> (\<And>f. publish = Some f \<Longrightarrow> keeps_ident f) \<Longrightarrow>
    hub_step ps ord w (fst (attachDeviceBeforePublish ps ord now r route publish w))"
| step_detach: "0 \<le> later \<Longrightarrow> hub_step ps ord w (detach ps ord now later r w)"
| step_drop: "hub_step ps ord w (dropLink k w)"
| step_drop_from: "hub_step ps ord w (dropLinkFromCarrier r k w)"
| step_resident: "hub_step ps ord w (fst (ResidentRoutes ps ord now w))"
| step_reject: "0 \<le> now \<Longrightarrow> hub_step ps ord w (fst (RejectResident ps ord now d i e w))"
| step_close_all: "hub_step ps ord w (CloseAll ord w)"
| step_active: "hub_step ps ord w (fst (ActiveLinkRoutes ps ord now w))"
| step_client_section: "k \<noteq> [] \<Longrightarrow> hub_step ps ord w (fst (client_locked ord r claims link k (pruneExpiredLocked ps ord now w)))"
| step_client_begin: "hub_step ps ord w (fst (client_begin ps ord now later r claims call w))"
| step_client_next: "hub_step ps ord w (fst (client_next ps r (w, pc)))"
| step_route_client: "hub_step ps ord w (fst (routeClientLink ps ord now r claims link w))"
| step_route_device: "hub_step ps ord w (fst (routeDeviceLink ps ord now r link w))"
| step_resume_client: "hub_step ps ord w (fst (resumeClient ps ord now later r claims resume w))"
| step_resume_device: "hub_step ps ord w (fst (resumeDevice ps ord now r resume w))"
| step_rejected: "hub_step ps ord w (fst (routeStreamRejected ps r rejected w))"
| step_carriers: "w_hub w' = w_hub w \<Longrightarrow> idents w' = idents w \<Longrightarrow> hub_step ps ord w w'"

lemma hub_step_ok:
  assumes "hub_step ps ord w w'" and "hub_ok w"
  shows "hub_ok w'"
  using assms
proof (cases rule: hub_step.cases)
  case (step_attach_device r publish now route)
  then show ?thesis using assms(2) by (auto intro: hub_ok_attach_device)
qed (auto simp: ResidentRoutes_def ActiveLinkRoutes_def Let_def intro: hub_ok_attach_client hub_ok_detach hub_ok_drop
    hub_ok_drop_from hub_ok_prune hub_ok_reject hub_ok_close_all hub_ok_client_section hub_ok_client_begin hub_ok_client_next hub_ok_route_client
    hub_ok_route_device hub_ok_resume_client hub_ok_resume_device hub_ok_route_rejected dest: hub_ok_cong)

lemma hub_reachable_ok: "(hub_step ps ord)\<^sup>*\<^sup>* w w' \<Longrightarrow> hub_ok w \<Longrightarrow> hub_ok w'"
  by (induction rule: rtranclp_induct) (simp_all add: hub_step_ok)

lemma new_hub_ok: "w_hub w = NewV2Hub \<Longrightarrow> hub_ok w"
  by (simp add: hub_ok_def carriers_ok_def links_ok_def pairs_ok_def NewV2Hub_def)

subsection \<open>What routing leaves of the hub\<close>

text \<open>Handling links leaves the carriers and devices of the hub alone.\<close>

definition hub_core :: "V2Hub \<Rightarrow> (string, carrier_ref) fmap \<times> (string, string) fmap \<times> (string, Route) fmap" where
  "hub_core h = (hub_carriers h, hub_deviceCarriers h, hub_deviceRoutes h)"

lemma hub_core_links [simp]: "hub_core (h\<lparr>hub_links := m\<rparr>) = hub_core h" "hub_core (h\<lparr>hub_routeChanges := b\<rparr>) = hub_core h"
  by (simp_all add: hub_core_def)

lemma hub_core_device: "hub_core h' = hub_core h \<Longrightarrow> device_carrier h' = device_carrier h \<and> hub_carriers h' = hub_carriers h"
  by (auto simp: hub_core_def device_carrier_def fun_eq_iff)

lemma core_drop [simp]: "hub_core (w_hub (dropLink k w)) = hub_core (w_hub w)"
  by (simp add: dropLink_def)

lemma core_drop_from [simp]: "hub_core (w_hub (dropLinkFromCarrier r k w)) = hub_core (w_hub w)"
  by (simp add: dropLinkFromCarrier_def split: option.split)

lemma core_create [simp]: "hub_core (w_hub (fst (create_link ord r claims k w))) = hub_core (w_hub w)"
  by (simp add: create_link_def Let_def split: option.split)

lemma core_rebind [simp]: "hub_core (w_hub (rebind_link r k old w)) = hub_core (w_hub w)"
  by (simp add: rebind_link_def)

lemma core_section [simp]: "hub_core (w_hub (fst (client_locked ord r claims link k w))) = hub_core (w_hub w)"
  by (simp add: client_locked_def Let_def split: option.split)

lemma section_heap [simp]: "w_heap (fst (client_locked ord r claims link k w)) = w_heap w"
  by (simp add: client_locked_def create_link_def Let_def split: option.split)

lemma core_deliver:
  assumes "undo = id \<or> undo = dropLink k"
  shows "hub_core (w_hub (fst (deliver_link ps r target link undo w))) = hub_core (w_hub w)"
  using deliver_outcome [of undo ps r target link w] assms by auto

text \<open>A predicate kept by everything that goes on after the critical section of a client's frame.\<close>

lemma client_rest_induct:
  assumes base: "P w"
    and send: "\<And>v q f. P v \<Longrightarrow> q = r \<or> target = Some q \<Longrightarrow> keeps_ident f \<Longrightarrow> P (fst (on_carrier q (f :: _ \<Rightarrow> _ \<times> v2_error option) v))"
    and undo: "\<And>v. P v \<Longrightarrow> created \<Longrightarrow> P (dropLink k v)"
    and ready: "ready \<Longrightarrow> target \<noteq> None"
  shows "P (fst (client_unlocked ps r link k (PlanDeliver ex target ready created superseded) w))"
proof -
  have reject: "P (fst (reject_on ps q i j l x v))" if "P v" "q = r \<or> target = Some q" for q i j l x v
    unfolding reject_on_def using that by (intro send) simp_all
  have rejects: "P (fold (\<lambda>stale w. fst (reject_on ps q (lr_linkID stale) [] [] ERROR_RESUME_EXPIRED w)) ls v)"
    if "P v" "target = Some q" for q v and ls :: "v2LinkRoute list"
    using that by (induction ls arbitrary: v) (simp_all add: reject)
  define v where "v = (case target of None \<Rightarrow> w
      | Some ref \<Rightarrow> fold (\<lambda>stale w. fst (reject_on ps ref (lr_linkID stale) [] [] ERROR_RESUME_EXPIRED w)) superseded w)"
  have v: "P v" using base rejects by (simp add: v_def split: option.split)
  have unknown: "P (fst (rejectUnknownV2Link ps r k v))"
    using v reject by (simp add: rejectUnknownV2Link_def)
  have deliver: "P (fst (deliver_link ps r q link u v))"
    if q: "target = Some q" and u: "u = id \<or> created \<and> u = dropLink k" for q u
  proof -
    obtain i j l where m: "v2LinkMetadata link = (i, j, l)" by (cases "v2LinkMetadata link")
    obtain x err where x: "on_carrier q (enqueueLink ps link) v = (x, err)" by (cases "on_carrier q (enqueueLink ps link) v")
    have "P x" using send [OF v, of q "enqueueLink ps link"] q x by simp
    then have ux: "P (u x)" using u undo by auto
    have full: "P (fst (on_carrier q (rejectStream ps i j l) (fst (on_carrier r (rejectStream ps i j l) (u x)))))"
      using ux q by (intro send) simp_all
    show ?thesis using \<open>P x\<close> ux full by (simp add: deliver_link_def m x Let_def split: option.split)
  qed
  have result: "client_unlocked ps r link k (PlanDeliver ex target ready created superseded) w =
      (if \<not> ex \<and> \<not> created then rejectUnknownV2Link ps r k v
       else if \<not> ready then (v, Some ErrV2TransientRoute)
       else deliver_link ps r (the target) link (if created then dropLink k else id) v)"
    unfolding client_unlocked_def Let_def client_plan.case v_def [symmetric] by (rule refl)
  show ?thesis
    unfolding result using v unknown ready by (auto intro: deliver)
qed

subsection \<open>Handing a device over\<close>

definition handed_over :: "world \<Rightarrow> world \<Rightarrow> bool" where
  "handed_over w w' \<longleftrightarrow> (\<forall>d r r'. device_carrier (w_hub w) d = Some r \<and> device_carrier (w_hub w') d = Some r' \<and> r \<noteq> r' \<longrightarrow>
     vc_epoch (w_heap w r) < vc_epoch (w_heap w r') \<and> vc_closed (w_heap w' r))"

lemma handed_core: "hub_core (w_hub w') = hub_core (w_hub w) \<Longrightarrow> handed_over w w'"
  using hub_core_device [of "w_hub w'" "w_hub w"] by (auto simp: handed_over_def)

lemma handed_lost:
  assumes "loses w w'"
  shows "handed_over w w'"
  unfolding handed_over_def
proof (intro allI impI)
  fix d r r'
  assume "device_carrier (w_hub w) d = Some r \<and> device_carrier (w_hub w') d = Some r' \<and> r \<noteq> r'"
  with assms [unfolded loses_def, rule_format, of d] show "vc_epoch (w_heap w r) < vc_epoch (w_heap w r') \<and> vc_closed (w_heap w' r)" by auto
qed

lemma core_prune [simp]: "hub_core (w_hub (pruneExpiredLocked ps ord now w)) = hub_core (w_hub w)"
  by simp

lemma core_on_carrier [simp]: "hub_core (w_hub (fst (on_carrier r f w))) = hub_core (w_hub w)"
  by simp

lemma core_client_rest [simp]: "hub_core (w_hub (fst (client_unlocked ps r link k plan w))) = hub_core (w_hub w)"
proof (cases plan)
  case (PlanDeliver ex target ready created superseded)
  define v where "v = (case target of None \<Rightarrow> w
    | Some ref \<Rightarrow> fold (\<lambda>stale w. fst (reject_on ps ref (lr_linkID stale) [] [] ERROR_RESUME_EXPIRED w)) superseded w)"
  have v: "w_hub v = w_hub w" by (simp add: v_def split: option.split)
  have "fst (client_unlocked ps r link k plan w) \<in> {v, fst (rejectUnknownV2Link ps r k v)} \<or>
      (\<exists>undo. (undo = id \<or> undo = dropLink k) \<and>
        fst (client_unlocked ps r link k plan w) = fst (deliver_link ps r (the target) link undo v))"
    unfolding client_unlocked_def PlanDeliver Let_def client_plan.case v_def [symmetric] by auto
  then show ?thesis using v core_deliver [of _ k ps r "the target" link v] by auto
qed (simp_all add: client_unlocked_def)

lemma core_routes [simp]:
  "hub_core (w_hub (fst (routeClientLink ps ord now r claims link w))) = hub_core (w_hub w)"
  "hub_core (w_hub (fst (routeDeviceLink ps ord now r link w))) = hub_core (w_hub w)"
  "hub_core (w_hub (fst (resumeClient ps ord now later r claims resume w))) = hub_core (w_hub w)"
  "hub_core (w_hub (fst (resumeDevice ps ord now r resume w))) = hub_core (w_hub w)"
  "hub_core (w_hub (fst (routeStreamRejected ps r rejected w))) = hub_core (w_hub w)"
proof -
  define w1 where "w1 = pruneExpiredLocked ps ord now w"
  have w1: "hub_core (w_hub w1) = hub_core (w_hub w)" by (simp add: w1_def)
  obtain i j x where m: "v2LinkMetadata link = (i, j, x)" by (cases "v2LinkMetadata link")
  obtain v plan where v: "client_locked ord r claims link i w1 = (v, plan)" by (cases "client_locked ord r claims link i w1")
  have "hub_core (w_hub v) = hub_core (w_hub w)" using core_section [of ord r claims link i w1] v w1 by simp
  then show "hub_core (w_hub (fst (routeClientLink ps ord now r claims link w))) = hub_core (w_hub w)"
    unfolding routeClientLink_def m prod.case w1_def [symmetric] v by simp
  show "hub_core (w_hub (fst (routeDeviceLink ps ord now r link w))) = hub_core (w_hub w)"
    unfolding routeDeviceLink_def m prod.case Let_def w1_def [symmetric]
    using w1 core_deliver [of id] by (auto split: option.split)
  show "hub_core (w_hub (fst (resumeClient ps ord now later r claims resume w))) = hub_core (w_hub w)"
    unfolding resumeClient_def Let_def w1_def [symmetric] using w1 by (simp split: option.split)
  show "hub_core (w_hub (fst (resumeDevice ps ord now r resume w))) = hub_core (w_hub w)"
    unfolding resumeDevice_def Let_def w1_def [symmetric] using w1 by (simp split: option.split)
  show "hub_core (w_hub (fst (routeStreamRejected ps r rejected w))) = hub_core (w_hub w)"
    unfolding routeStreamRejected_def Let_def by (simp split: option.split v2CarrierRole.split)
qed

lemma core_client_call [simp]:
  "hub_core (w_hub (fst (client_begin ps ord now later r claims call w))) = hub_core (w_hub w)"
  "hub_core (w_hub (fst (client_next ps r (w, pc)))) = hub_core (w_hub w)"
proof -
  show "hub_core (w_hub (fst (client_begin ps ord now later r claims call w))) = hub_core (w_hub w)"
  proof (cases call)
    case (ClientLink link)
    have "hub_core (w_hub (fst (client_locked ord r claims link i (pruneExpiredLocked ps ord now w)))) = hub_core (w_hub w)" for i
      by (simp only: core_section core_prune)
    then show ?thesis unfolding ClientLink client_begin.simps begin_link_def by (simp add: case_prod_beta)
  next
    case (ClientResume resume)
    define w1 where "w1 = pruneExpiredLocked ps ord now w"
    have "hub_core (w_hub w1) = hub_core (w_hub w)" by (simp add: w1_def)
    then show ?thesis
      unfolding ClientResume client_begin.simps begin_resume_def Let_def w1_def [symmetric] by (simp split: option.split)
  qed simp_all
  show "hub_core (w_hub (fst (client_next ps r (w, pc)))) = hub_core (w_hub w)"
    by (rule client_next_outcome [of ps r w pc]) simp_all
qed

lemma hub_step_handed_over:
  assumes step: "hub_step ps ord w w'" and ok: "hub_ok w"
  shows "handed_over w w'"
  using step
proof (cases rule: hub_step.cases)
  case (step_attach_client r)
  have "device_carrier (w_hub w') d = device_carrier (w_hub w) d" for d
  proof (cases "w' = w")
    case False
    then have "w_hub w' = (w_hub w)\<lparr>hub_carriers := fmupd (vc_id (w_heap w r)) r (hub_carriers (w_hub w))\<rparr>"
      and free: "fmlookup (hub_carriers (w_hub w)) (vc_id (w_heap w r)) = None \<or>
        fmlookup (hub_carriers (w_hub w)) (vc_id (w_heap w r)) = Some r"
      using step_attach_client by (auto simp: attachClient_def Let_def split: if_splits)
    then show ?thesis
      using attach_keeps_devices [OF _ step_attach_client(2) free, of "idents w" d] ok by (simp add: hub_ok_def)
  qed simp
  then show ?thesis by (intro handed_lost) (simp add: loses_def)
next
  case (step_attach_device r publish now route)
  show ?thesis
  proof (rule attach_device_cases [OF step_attach_device(3) step_attach_device(1)])
    assume "w_hub w' = w_hub w \<or> w_hub w' = w_hub (pruneExpiredLocked ps ord now w)"
    then show ?thesis by (intro handed_core) auto
  next
    assume free: "fmlookup (hub_carriers (w_hub w)) (vc_id (w_heap w r)) = None \<or>
        fmlookup (hub_carriers (w_hub w)) (vc_id (w_heap w r)) = Some r"
      and older: "\<And>p. device_carrier (w_hub w) (vc_deviceID (w_heap w r)) = Some p \<Longrightarrow> p \<noteq> r \<Longrightarrow>
        vc_epoch (w_heap w p) < vc_epoch (w_heap w r) \<and> vc_closed (w_heap w' p)"
      and new: "w_hub w' = (published_hub (w_heap w r) r route (w_hub (pruneExpiredLocked ps ord now w)))\<lparr>hub_routeChanges := True\<rparr>"
      and same: "idents w' = idents w"
    have c: "carriers_ok (w_hub w) (idents w)" using ok by (simp add: hub_ok_def)
    have "device_carrier (w_hub w') d = (if d = vc_deviceID (w_heap w r) then Some r else device_carrier (w_hub w) d)" for d
      by (rule device_carrier_upd [OF c step_attach_device(2) free]; simp add: new published_hub_def retarget_links_def)
    with older idents_eqD(2) [OF same] show ?thesis by (auto simp: handed_over_def split: if_splits)
  qed
next
  case (step_detach later now r)
  then show ?thesis using hub_ok_detach(2) [OF ok] handed_lost by simp
next
  case (step_reject now d i e)
  then show ?thesis using hub_ok_reject(2) [OF ok] handed_lost by simp
next
  case step_close_all
  have hub: "w_hub (fold close_ref rs v) = w_hub v" for rs v
    by (induction rs arbitrary: v) simp_all
  have "device_carrier (w_hub w') d = None" for d
    by (simp add: step_close_all CloseAll_def Let_def hub device_carrier_def)
  then show ?thesis by (intro handed_lost) (simp add: loses_def)
next
  case (step_carriers)
  then show ?thesis by (intro handed_core) simp
qed (auto intro!: handed_core simp: ResidentRoutes_def ActiveLinkRoutes_def Let_def)

text \<open>What the invariant says of the current carrier of a device.\<close>

lemma hub_ok_device:
  assumes ok: "hub_ok w" and r: "device_carrier (w_hub w) d = Some r"
  shows "vc_role (w_heap w r) = v2CarrierDevice" and "vc_deviceID (w_heap w r) = d"
    and "\<exists>route. fmlookup (hub_deviceRoutes (w_hub w)) d = Some route \<and> rt_ConnectionID route = vc_id (w_heap w r) \<and>
      rt_ConnectionEpoch route = vc_epoch (w_heap w r)"
proof -
  have c: "carriers_ok (w_hub w) (idents w)" using ok by (simp add: hub_ok_def)
  let ?i = "fmget [] (hub_deviceCarriers (w_hub w)) d"
  have at: "fmlookup (hub_carriers (w_hub w)) ?i = Some r" using r by (simp add: device_carrier_def)
  then have i: "?i \<noteq> []" "vc_id (w_heap w r) = ?i" using c by (auto simp: carriers_ok_def filed_def)
  then have "fmlookup (hub_deviceCarriers (w_hub w)) d = Some ?i" by (auto simp: fmget_def split: option.splits)
  then have "current (w_hub w) (idents w) d ?i" using c by (simp add: carriers_ok_def)
  with at i show "vc_role (w_heap w r) = v2CarrierDevice" and "vc_deviceID (w_heap w r) = d"
    and "\<exists>route. fmlookup (hub_deviceRoutes (w_hub w)) d = Some route \<and> rt_ConnectionID route = vc_id (w_heap w r) \<and>
      rt_ConnectionEpoch route = vc_epoch (w_heap w r)"
    by (auto simp: current_def)
qed

lemma hub_ok_link:
  assumes ok: "hub_ok w" and l: "fmlookup (hub_links (w_hub w)) k = Some l"
  shows "lr_linkID l = k" and "device_carrier (w_hub w) (lr_deviceID l) = None \<Longrightarrow> lr_deviceSuspendedUntil l \<noteq> 0"
    and "device_carrier (w_hub w) (lr_deviceID l) = Some r \<Longrightarrow> lr_targetEpoch l = vc_epoch (w_heap w r)"
proof -
  have "link_ok (w_hub w) (idents w) k l" using assms by (simp add: hub_ok_def links_ok_def)
  then show "lr_linkID l = k" and "device_carrier (w_hub w) (lr_deviceID l) = None \<Longrightarrow> lr_deviceSuspendedUntil l \<noteq> 0"
    and "device_carrier (w_hub w) (lr_deviceID l) = Some r \<Longrightarrow> lr_targetEpoch l = vc_epoch (w_heap w r)"
    by (simp_all add: link_ok_def)
qed

text \<open>A relay for concrete runs: one client, two connections of one device, and another client.\<close>

definition sample_carrier_at :: "string \<Rightarrow> u64 \<Rightarrow> v2CarrierRole \<Rightarrow> string \<Rightarrow> v2Carrier" where
  "sample_carrier_at i epoch role client = \<lparr>vc_id = i, vc_epoch = epoch, vc_role = role, vc_clientID = client, vc_deviceID = ''d'',
     vc_queue = \<lparr>vq_queues = fmempty, vq_bytes = fmempty, vq_frames = fmempty, vq_limits = limits_normalized test_limits,
       vq_notify = False, vq_closed = False, vq_scheduleIndex = 0, vq_rejected = 0\<rparr>,
     vc_done = False, vc_nextPacket = 0, vc_lastReceived = 0, vc_lastPeerAcknowledged = 0,
     vc_closed = False, vc_lastInbound = 0, vc_lastOutbound = 0, vc_lastPong = 0, vc_lastPing = 0,
     vc_lastAckProgress = 0, vc_rttMillis = 0, vc_heartbeat = 0, vc_watched = False, vc_closeReason = None\<rparr>"

definition sample_relay :: world where
  "sample_relay = \<lparr>w_hub = NewV2Hub,
     w_heap = (\<lambda>r. if r = 0 then sample_carrier_at ''c'' 1 v2CarrierClient ''u''
       else if r = 1 then sample_carrier_at ''a'' 1 v2CarrierDevice []
       else if r = 2 then sample_carrier_at ''b'' 2 v2CarrierDevice []
       else sample_carrier_at ''o'' 1 v2CarrierClient ''v''),
     w_budget = None\<rparr>"

definition sample_device_route :: "string \<Rightarrow> u64 \<Rightarrow> Route" where
  "sample_device_route i epoch = \<lparr>rt_DeviceID = ''d'', rt_UserID = ''u'', rt_CellID = ''x'', rt_NodeID = ''n'', rt_ConnectionID = i,
     rt_ConnectionEpoch = epoch, rt_AssignmentVersion = 1, rt_GrantVersion = 1, rt_ProtocolVersion = 2,
     rt_ConnectedAt = 0, rt_LastHeartbeatAt = 0, rt_ExpiresAt = 1\<rparr>"

definition sample_order :: map_order where
  "sample_order ks = (if ''l'' |\<in>| ks then [''l''] else [])"

definition relay_a :: world where
  "relay_a = fst (attachDevice (\<lambda>_. 10) sample_order 1 1 (sample_device_route ''a'' 1) sample_relay)"

definition relay_b :: world where
  "relay_b = fst (attachDevice (\<lambda>_. 10) sample_order 1 2 (sample_device_route ''b'' 2) relay_a)"

lemma relay_a_hub: "w_hub relay_a = \<lparr>hub_carriers = fmupd ''a'' 1 fmempty, hub_deviceCarriers = fmupd ''d'' ''a'' fmempty,
    hub_deviceRoutes = fmupd ''d'' (sample_device_route ''a'' 1) fmempty, hub_links = fmempty, hub_routeChanges = True\<rparr>"
  "w_heap relay_a = w_heap sample_relay"
  by (simp_all add: relay_a_def attachDevice_def attachDeviceBeforePublish_def sample_relay_def sample_carrier_at_def
      sample_device_route_def NewV2Hub_def pruneExpiredLocked_def sample_order_def Let_def fmget_def retarget_links_def
      stale_client_links_def signalRouteChange_def set_hub_def map_filter_simps)

lemma relay_b_hub: "hub_deviceCarriers (w_hub relay_b) = fmupd ''d'' ''b'' (fmupd ''d'' ''a'' fmempty)"
  "fmlookup (hub_carriers (w_hub relay_b)) ''b'' = Some 2"
  unfolding relay_b_def attachDevice_def attachDeviceBeforePublish_def Let_def
  by (simp_all add: relay_a_hub sample_relay_def sample_carrier_at_def
      sample_device_route_def pruneExpiredLocked_def sample_order_def Let_def fmget_def retarget_links_def
      stale_client_links_def map_filter_simps word_le_nat_alt)

lemma relay_devices: "device_carrier (w_hub relay_a) ''d'' = Some 1" "device_carrier (w_hub relay_b) ''d'' = Some 2"
  by (simp_all add: device_carrier_def relay_a_hub relay_b_hub fmget_def)

lemma relay_steps: "hub_step (\<lambda>_. 10) sample_order sample_relay relay_a" "hub_step (\<lambda>_. 10) sample_order relay_a relay_b"
proof -
  have n: "vc_id (w_heap sample_relay 1) \<noteq> []" "vc_id (w_heap relay_a 2) \<noteq> []"
    by (simp_all add: relay_a_hub(2) sample_relay_def sample_carrier_at_def)
  show "hub_step (\<lambda>_. 10) sample_order sample_relay relay_a"
    unfolding relay_a_def attachDevice_def by (rule step_attach_device [OF n(1)]) simp
  show "hub_step (\<lambda>_. 10) sample_order relay_a relay_b"
    unfolding relay_b_def attachDevice_def by (rule step_attach_device [OF n(2)]) simp
qed

text \<open>The client opens the link \<open>l\<close> to the device.\<close>

definition sample_grant :: "string \<Rightarrow> DeviceLinkGrantClaims" where
  "sample_grant client = \<lparr>dc_Issuer = ''i'', dc_Audience = ''m'', dc_GrantID = ''g'', dc_ClientID = client, dc_DeviceID = ''d'',
     dc_RelayNodeID = ''n'', dc_RelayCellID = ''x'', dc_TargetConnectionEpoch = 1, dc_ClientIdentityKey = ''k'',
     dc_ClientKeyThumbprint = ''t'', dc_ClientIdentityKeyVersion = 1, dc_DeviceKeyThumbprint = ''s'',
     dc_DeviceIdentityKeyVersion = 1, dc_ClientGrantVersion = 1, dc_DeviceGrantVersion = 1, dc_AllowedScopes = [''file.read''],
     dc_MaximumLifetimeSeconds = 60, dc_IssuedAt = 0, dc_NotBefore = 0, dc_ExpiresAt = 60\<rparr>"

definition sample_link :: LinkEnvelope where
  "sample_link = \<lparr>le_LinkId = ''l'', le_Body = Some (Body_LinkInit \<lparr>li_GrantId = ''g'', li_LinkId = ''l'', li_ClientId = ''u'',
     li_DeviceId = ''d'', li_RelayNodeId = ''n'', li_RelayCellId = ''x'', li_TargetConnectionEpoch = 1,
     li_ClientIdentityKeyVersion = 1, li_ClientEphemeralPublicKey = [], li_ClientChallenge = [], li_ExpiresAt = None,
     li_IdentitySignature = [], li_DeviceConnectionGrant = ''h''\<rparr>)\<rparr>"

definition relay_l :: world where
  "relay_l = fst (client_locked sample_order 0 (sample_grant ''u'') sample_link ''l''
     (pruneExpiredLocked (\<lambda>_. 10) sample_order 1 relay_a))"

lemma relay_l_reached: "(hub_step (\<lambda>_. 10) sample_order)\<^sup>*\<^sup>* sample_relay relay_l"
proof -
  have "hub_step (\<lambda>_. 10) sample_order relay_a relay_l"
    unfolding relay_l_def by (rule step_client_section) simp
  with relay_steps(1) show ?thesis by auto
qed

lemma relay_l_core: "hub_core (w_hub relay_l) = hub_core (w_hub relay_a)"
  by (simp add: relay_l_def)

lemma relay_l_heap: "w_heap relay_l = w_heap sample_relay"
proof -
  have "pruneExpiredLocked (\<lambda>_. 10) sample_order 1 relay_a = relay_a"
    by (simp add: pruneExpiredLocked_def relay_a_hub sample_order_def)
  then show ?thesis by (simp add: relay_l_def relay_a_hub(2))
qed

lemma relay_l_links: "fmlookup (hub_links (w_hub relay_l)) ''l'' = Some \<lparr>lr_linkID = ''l'', lr_clientID = ''u'', lr_deviceID = ''d'',
    lr_clientCarrierID = ''c'', lr_targetEpoch = 1, lr_clientSuspendedUntil = 0, lr_deviceSuspendedUntil = 0\<rparr>"
proof -
  have "init_matches (sample_grant ''u'') ''l'' (the (GetLinkInit sample_link))" "GetLinkInit sample_link \<noteq> None"
    by (simp_all add: init_matches_def sample_grant_def GetLinkInit_def sample_link_def)
  moreover have "pruneExpiredLocked (\<lambda>_. 10) sample_order 1 relay_a = relay_a"
    by (simp add: pruneExpiredLocked_def relay_a_hub sample_order_def)
  ultimately show ?thesis
    by (auto simp: relay_l_def client_locked_def create_link_def Let_def device_carrier_def relay_a_hub fmget_def sample_order_def
      sample_relay_def sample_carrier_at_def sample_grant_def v2MaximumLinkRoutes_def)
qed

subsection \<open>Properties\<close>

text \<open>
  C9. From the empty hub, whatever the carriers and their peers do, in any
  order: at most 65536 links are kept, a client and a device share at most one,
  every link is filed under its own id and aims at the epoch of the carrier its
  device has now, or is marked as waiting for the device to come back; the
  current carrier of a device is an attached carrier of that device, and the
  route the hub reports for it names that carrier and its epoch.
\<close>

theorem hub_invariant:
  assumes new: "w_hub w0 = NewV2Hub" and steps: "(hub_step ps ord)\<^sup>*\<^sup>* w0 w"
  shows "fmlen (hub_links (w_hub w)) \<le> 65536 \<and>
    (\<forall>k l k' l'. fmlookup (hub_links (w_hub w)) k = Some l \<and> fmlookup (hub_links (w_hub w)) k' = Some l' \<and>
      lr_clientID l = lr_clientID l' \<and> lr_deviceID l = lr_deviceID l' \<longrightarrow> k = k') \<and>
    (\<forall>k l. fmlookup (hub_links (w_hub w)) k = Some l \<longrightarrow> lr_linkID l = k \<and>
      (case device_carrier (w_hub w) (lr_deviceID l) of
         None \<Rightarrow> lr_deviceSuspendedUntil l \<noteq> 0
       | Some r \<Rightarrow> lr_targetEpoch l = vc_epoch (w_heap w r))) \<and>
    (\<forall>d r. device_carrier (w_hub w) d = Some r \<longrightarrow> vc_role (w_heap w r) = v2CarrierDevice \<and> vc_deviceID (w_heap w r) = d \<and>
      (\<exists>route. fmlookup (hub_deviceRoutes (w_hub w)) d = Some route \<and> rt_ConnectionID route = vc_id (w_heap w r) \<and>
         rt_ConnectionEpoch route = vc_epoch (w_heap w r)))"
proof -
  have ok: "hub_ok w" by (rule hub_reachable_ok [OF steps new_hub_ok [OF new]])
  then have "fmlen (hub_links (w_hub w)) \<le> 65536" and pairs: "pairs_ok (hub_links (w_hub w))"
    by (simp_all add: hub_ok_def links_ok_def v2MaximumLinkRoutes_def)
  moreover note pairs [unfolded pairs_ok_def]
  moreover have "\<forall>k l. fmlookup (hub_links (w_hub w)) k = Some l \<longrightarrow> lr_linkID l = k \<and>
      (case device_carrier (w_hub w) (lr_deviceID l) of
         None \<Rightarrow> lr_deviceSuspendedUntil l \<noteq> 0
       | Some r \<Rightarrow> lr_targetEpoch l = vc_epoch (w_heap w r))"
    using hub_ok_link [OF ok] by (simp split: option.split)
  ultimately show ?thesis using hub_ok_device [OF ok] by blast
qed

theorem hub_invariant_witness:
  "vc_deviceID (w_heap relay_l 1) = ''d'' \<and> lr_linkID (the (fmlookup (hub_links (w_hub relay_l)) ''l'')) = ''l''"
proof -
  have new: "w_hub sample_relay = NewV2Hub" by (simp add: sample_relay_def)
  have dev: "device_carrier (w_hub relay_l) ''d'' = Some 1"
    using relay_devices(1) hub_core_device [OF relay_l_core] by simp
  from hub_invariant [OF new relay_l_reached] dev relay_l_links show ?thesis by simp
qed

text \<open>
  C8. Handing a device over: when a step of the relay replaces the carrier of
  a device by another, the new one has a higher connection epoch and the old
  one is closed. So while a device stays attached its epoch only grows, and an
  older connection cannot take it back.
\<close>

theorem device_handover_monotone:
  assumes new: "w_hub w0 = NewV2Hub" and steps: "(hub_step ps ord)\<^sup>*\<^sup>* w0 w"
    and step: "hub_step ps ord w w'"
    and before: "device_carrier (w_hub w) d = Some r" and after: "device_carrier (w_hub w') d = Some r'" and moved: "r \<noteq> r'"
  shows "vc_epoch (w_heap w r) < vc_epoch (w_heap w r') \<and> vc_closed (w_heap w' r)"
proof -
  have "hub_ok w" by (rule hub_reachable_ok [OF steps new_hub_ok [OF new]])
  from hub_step_handed_over [OF step this] before after moved show ?thesis by (auto simp: handed_over_def)
qed

theorem device_handover_monotone_witness:
  "vc_epoch (w_heap relay_a 1) < vc_epoch (w_heap relay_a 2) \<and> vc_closed (w_heap relay_b 1)"
proof -
  have new: "w_hub sample_relay = NewV2Hub" by (simp add: sample_relay_def)
  have steps: "(hub_step (\<lambda>_. 10) sample_order)\<^sup>*\<^sup>* sample_relay relay_a" using relay_steps(1) by auto
  show ?thesis
    by (rule device_handover_monotone [OF new steps relay_steps(2) relay_devices]) simp
qed

end
