(* ===== verification/V2_Calls.thy ===== *)
theory V2_Calls
  imports V2_Hub
begin

text \<open>
  The calls of a client over the mutex: a call that nothing interrupts does what
  \<open>V2_Hub\<close> says of its handler as a whole, and what the pieces of a call
  can change when other calls run between them.
\<close>

subsection \<open>The pieces make the call\<close>

definition finishes :: "(CarrierEnvelope \<Rightarrow> int) \<Rightarrow> carrier_ref \<Rightarrow> world \<times> client_pc \<Rightarrow> world \<times> v2_error option \<Rightarrow> bool" where
  "finishes ps r s y \<longleftrightarrow> (\<exists>n. (client_next ps r ^^ n) s = (fst y, CallReturned (snd y)))"

lemma finishes_now [simp]: "finishes ps r (w, CallReturned x) (w, x)"
  unfolding finishes_def by (rule exI [of _ 0]) simp

lemma finishes_next: "finishes ps r (client_next ps r s) y \<Longrightarrow> finishes ps r s y"
  unfolding finishes_def by (metis funpow_swap1 funpow.simps(2) comp_apply)

lemma finish_failed:
  assumes "v2LinkMetadata link = (i, j, l)"
  shows "finishes ps r (w, CallFailed link target err)
    (if err = ErrV2QueueFull
     then (fst (on_carrier target (rejectStream ps i j l) (fst (on_carrier r (rejectStream ps i j l) w))), None)
     else (w, Some ErrV2TransientRoute))"
proof (cases "err = ErrV2QueueFull")
  case True
  have "finishes ps r (client_next ps r (client_next ps r (w, CallFailed link target err)))
      (fst (on_carrier target (rejectStream ps i j l) (fst (on_carrier r (rejectStream ps i j l) w))), None)"
    using True assms by simp
  then show ?thesis using True finishes_next by simp
next
  case False
  have "finishes ps r (client_next ps r (w, CallFailed link target err)) (w, Some ErrV2TransientRoute)"
    using False by simp
  then show ?thesis using False finishes_next by simp
qed

lemma finish_deliver:
  "finishes ps r (w, CallDeliver link k target created) (deliver_link ps r target link (if created then dropLink k else id) w)"
proof -
  obtain i j l where m: "v2LinkMetadata link = (i, j, l)" by (cases "v2LinkMetadata link")
  obtain x err where x: "on_carrier target (enqueueLink ps link) w = (x, err)" by (cases "on_carrier target (enqueueLink ps link) w")
  show ?thesis
  proof (cases err)
    case None
    have "finishes ps r (client_next ps r (w, CallDeliver link k target created)) (x, None)" using x None by simp
    then show ?thesis using finishes_next m x None by (simp add: deliver_link_def)
  next
    case (Some e)
    let ?u = "if created then dropLink k else id"
    note failed = finish_failed [OF m, of ps r "?u x" target e]
    have "finishes ps r (client_next ps r (w, CallDeliver link k target created)) (deliver_link ps r target link ?u w)"
    proof (cases created)
      case True
      have "finishes ps r (client_next ps r (x, CallUndo link k target e)) (deliver_link ps r target link ?u w)"
        using failed m x Some True by (simp add: deliver_link_def Let_def split: if_splits)
      then show ?thesis using finishes_next x Some True by simp
    next
      case False
      then show ?thesis using failed m x Some by (simp add: deliver_link_def Let_def split: if_splits)
    qed
    then show ?thesis by (rule finishes_next)
  qed
qed

lemma finish_notices:
  "finishes ps r (w, CallNotices link k ex target ready created gone)
     (client_unlocked ps r link k (PlanDeliver ex target ready created gone) w)"
proof (induction gone arbitrary: w)
  case Nil
  have "finishes ps r (client_next ps r (w, CallNotices link k ex target ready created []))
      (client_unlocked ps r link k (PlanDeliver ex target ready created []) w)"
  proof (cases "\<not> ex \<and> \<not> created")
    case True
    obtain v x where v: "rejectUnknownV2Link ps r k w = (v, x)" by (cases "rejectUnknownV2Link ps r k w")
    then have "finishes ps r (client_next ps r (w, CallUnknown k)) (v, x)" by simp
    then show ?thesis using finishes_next True v by (auto simp: client_unlocked_def split: option.split)
  next
    case False
    then show ?thesis using finish_deliver [of ps r w link k "the target" created]
      by (auto simp: client_unlocked_def split: option.split)
  qed
  then show ?case by (rule finishes_next)
next
  case (Cons stale gone)
  have "client_unlocked ps r link k (PlanDeliver ex target ready created (stale # gone)) w =
      client_unlocked ps r link k (PlanDeliver ex target ready created gone)
        (case target of None \<Rightarrow> w | Some q \<Rightarrow> fst (reject_on ps q (lr_linkID stale) [] [] ERROR_RESUME_EXPIRED w))"
    by (simp add: client_unlocked_def split: option.split)
  then have "finishes ps r (client_next ps r (w, CallNotices link k ex target ready created (stale # gone)))
      (client_unlocked ps r link k (PlanDeliver ex target ready created (stale # gone)) w)"
    using Cons.IH by simp
  then show ?case by (rule finishes_next)
qed

lemma finish_plan: "finishes ps r (w, plan_pc link k plan) (client_unlocked ps r link k plan w)"
proof (cases plan)
  case PlanStale
  have "finishes ps r (client_next ps r (w, CallStale k)) (client_unlocked ps r link k plan w)"
    by (simp add: PlanStale client_unlocked_def)
  with PlanStale finishes_next show ?thesis by simp
next
  case PlanUnknown
  have "finishes ps r (client_next ps r (w, CallUnknown k)) (client_unlocked ps r link k plan w)"
    by (simp add: PlanUnknown client_unlocked_def split: prod.split)
  with PlanUnknown finishes_next show ?thesis by simp
qed (simp_all add: finish_notices client_unlocked_def [of _ _ _ _ "PlanRefused _"])

text \<open>A call that nothing interrupts is the handler of \<open>V2_Hub\<close>.\<close>

fun client_result ::
  "(CarrierEnvelope \<Rightarrow> int) \<Rightarrow> map_order \<Rightarrow> instant \<Rightarrow> instant \<Rightarrow> carrier_ref \<Rightarrow> DeviceLinkGrantClaims \<Rightarrow> client_call \<Rightarrow>
     world \<Rightarrow> world \<times> v2_error option" where
  "client_result ps ord now later r claims (ClientLink link) w = routeClientLink ps ord now r claims link w"
| "client_result ps ord now later r claims (ClientResume resume) w = resumeClient ps ord now later r claims resume w"
| "client_result ps ord now later r claims (ClientRejected rejected) w = routeStreamRejected ps r rejected w"
| "client_result ps ord now later r claims (ClientDrop k) w = (dropLinkFromCarrier r k w, None)"

lemma finish_resume: "finishes ps r (begin_resume ps ord now later r claims resume w) (resumeClient ps ord now later r claims resume w)"
proof -
  define w1 where "w1 = pruneExpiredLocked ps ord now w"
  have "finishes ps r (x, CallResume resume target)
      (case on_carrier target (enqueueEnvelope ps (body_envelope (Body_Resume resume)) v2PriorityControl) x of
         (w, None) \<Rightarrow> (w, None) | (w, Some err) \<Rightarrow> (w, Some ErrV2Route))" for x target
    by (rule finishes_next) (simp split: prod.split option.split)
  then show ?thesis
    unfolding begin_resume_def resumeClient_def Let_def w1_def [symmetric]
    by (cases "fmlookup (hub_links (w_hub w1)) (cr_LinkId resume)") (simp_all split: option.split)
qed

lemma finish_rejected:
  "finishes ps r (w, begin_rejected r rejected w) (routeStreamRejected ps r rejected w)"
proof -
  have "finishes ps r (w, CallForward rejected target)
      (on_carrier target (enqueueEnvelope ps (body_envelope (Body_StreamRejected rejected)) v2PriorityControl) w)" for target
    by (rule finishes_next) (simp split: prod.split)
  then show ?thesis
    by (cases "fmlookup (hub_links (w_hub w)) (sr_LinkId rejected)"; cases "vc_role (w_heap w r)")
      (simp_all add: begin_rejected_def routeStreamRejected_def Let_def split: option.split)
qed

lemma client_call_whole:
  "finishes ps r (client_begin ps ord now later r claims call w) (client_result ps ord now later r claims call w)"
proof (cases call)
  case (ClientLink link)
  obtain i j l where m: "v2LinkMetadata link = (i, j, l)" by (cases "v2LinkMetadata link")
  obtain v plan where v: "client_locked ord r claims link i (pruneExpiredLocked ps ord now w) = (v, plan)"
    by (cases "client_locked ord r claims link i (pruneExpiredLocked ps ord now w)")
  show ?thesis using finish_plan [of ps r v link i plan]
    by (simp add: ClientLink begin_link_def routeClientLink_def m v)
qed (simp_all add: finish_resume finish_rejected)

subsection \<open>What the pieces can reach\<close>




















subsection \<open>Calls among other calls\<close>

text \<open>
  The states of a call that began in \<open>s0\<close>: its next piece runs, or another
  handler, or a piece of another call.
\<close>

inductive call_run ::
  "(CarrierEnvelope \<Rightarrow> int) \<Rightarrow> map_order \<Rightarrow> carrier_ref \<Rightarrow> world \<times> client_pc \<Rightarrow> world \<times> client_pc \<Rightarrow> bool"
  for ps ord r s0 where
  begun: "call_run ps ord r s0 s0"
| piece: "call_run ps ord r s0 s \<Longrightarrow> call_run ps ord r s0 (client_next ps r s)"
| others: "call_run ps ord r s0 (w, pc) \<Longrightarrow> hub_step ps ord w w' \<Longrightarrow> call_run ps ord r s0 (w', pc)"


text \<open>
  The removal after a failed hand-over takes the link of that name, whosever it
  is: the device drops the link that client \<open>u\<close> has just opened, client
  \<open>v\<close> opens one of the same name, the device's carrier closes, and the
  failed hand-over of \<open>u\<close> removes the link of \<open>v\<close>.
\<close>

definition other_link :: LinkEnvelope where
  "other_link = \<lparr>le_LinkId = ''l'', le_Body = Some (Body_LinkInit \<lparr>li_GrantId = ''g'', li_LinkId = ''l'', li_ClientId = ''v'',
     li_DeviceId = ''d'', li_RelayNodeId = ''n'', li_RelayCellId = ''x'', li_TargetConnectionEpoch = 1,
     li_ClientIdentityKeyVersion = 1, li_ClientEphemeralPublicKey = [], li_ClientChallenge = [], li_ExpiresAt = None,
     li_IdentitySignature = [], li_DeviceConnectionGrant = ''h''\<rparr>)\<rparr>"

definition link_of :: "string \<Rightarrow> string \<Rightarrow> v2LinkRoute" where
  "link_of client carrier = \<lparr>lr_linkID = ''l'', lr_clientID = client, lr_deviceID = ''d'', lr_clientCarrierID = carrier, lr_targetEpoch = 1,
     lr_clientSuspendedUntil = 0, lr_deviceSuspendedUntil = 0\<rparr>"

definition linked :: "(string, v2LinkRoute) fmap \<Rightarrow> world" where
  "linked links = relay_a\<lparr>w_hub := (w_hub relay_a)\<lparr>hub_links := links\<rparr>\<rparr>"

lemma linked_hub [simp]: "hub_links (w_hub (linked m)) = m" "hub_carriers (w_hub (linked m)) = hub_carriers (w_hub relay_a)"
  "hub_deviceCarriers (w_hub (linked m)) = hub_deviceCarriers (w_hub relay_a)" "hub_deviceRoutes (w_hub (linked m)) = hub_deviceRoutes (w_hub relay_a)"
  "w_heap (linked m) = w_heap sample_relay" "device_carrier (w_hub (linked m)) ''d'' = Some 1" "linked fmempty = relay_a"
  "set_hub ((w_hub (linked m))\<lparr>hub_links := n\<rparr>) (linked m) = linked n"
  using relay_devices(1) by (simp_all add: linked_def relay_a_hub set_hub_def device_carrier_def)

lemma sample_prune [simp]: "pruneExpiredLocked ps sample_order now (linked fmempty) = linked fmempty"
  by (simp add: pruneExpiredLocked_def linked_def relay_a_hub sample_order_def)

lemma grant_fields: "dc_DeviceID (sample_grant client) = ''d''" "dc_ClientID (sample_grant client) = client"
  "dc_TargetConnectionEpoch (sample_grant client) = 1"
  by (simp_all add: sample_grant_def)

lemma open_link:
  assumes "link = sample_link \<and> r = 0 \<and> client = ''u'' \<and> carrier = ''c'' \<or> link = other_link \<and> r = 3 \<and> client = ''v'' \<and> carrier = ''o''"
  shows "client_locked sample_order r (sample_grant client) link ''l'' (linked fmempty) =
    (linked (fmupd ''l'' (link_of client carrier) fmempty), PlanDeliver True (Some 1) True True [])"
proof -
  have i: "init_matches (sample_grant client) ''l'' (the (GetLinkInit link))" "GetLinkInit link \<noteq> None"
    using assms by (auto simp: init_matches_def sample_grant_def GetLinkInit_def sample_link_def other_link_def)
  have h: "vc_id (w_heap sample_relay r) = carrier" "vc_epoch (w_heap sample_relay (Suc 0)) = 1"
    using assms by (auto simp: sample_relay_def sample_carrier_at_def)
  have "create_link sample_order r (sample_grant client) ''l'' (linked fmempty) =
      (linked (fmupd ''l'' (link_of client carrier) fmempty), PlanDeliver True (Some 1) True True [])"
    by (simp add: create_link_def Let_def grant_fields h sample_order_def v2MaximumLinkRoutes_def deliver_plan_def link_of_def map_filter_simps del: linked_hub(7))
  with i show ?thesis by (auto simp: client_locked_def Let_def simp del: linked_hub(7))
qed

lemma created_link_race:
  "\<exists>v pc x pc'. client_begin (\<lambda>_. 10) sample_order 1 1 0 (sample_grant ''u'') (ClientLink sample_link) relay_a = (v, pc) \<and>
     call_run (\<lambda>_. 10) sample_order 0 (v, pc) (x, pc') \<and>
     map_option lr_clientID (fmlookup (hub_links (w_hub x)) ''l'') = Some ''v'' \<and>
     fmlookup (hub_links (w_hub (fst (client_next (\<lambda>_. 10) 0 (x, pc'))))) ''l'' = None"
proof -
  let ?mine = "linked (fmupd ''l'' (link_of ''u'' ''c'') fmempty)" and ?theirs = "linked (fmupd ''l'' (link_of ''v'' ''o'') fmempty)"
  let ?pc = "CallNotices sample_link ''l'' True (Some 1) True True []" and ?undo = "CallUndo sample_link ''l'' 1 ErrV2QueueClosed"
  let ?ps = "\<lambda>_ :: CarrierEnvelope. 10 :: int"
  have m: "v2LinkMetadata sample_link = (''l'', [], [])" "le_LinkId sample_link = ''l''"
    by (simp_all add: v2LinkMetadata_def GetEncrypted_def sample_link_def)
  have c0: "vc_role (w_heap relay_a 0) = v2CarrierClient" "vc_clientID (w_heap relay_a 0) = ''u''" "vc_deviceID (w_heap relay_a 0) = ''d''"
    by (simp_all add: relay_a_hub(2) sample_relay_def sample_carrier_at_def)
  have open1: "client_locked sample_order 0 (sample_grant ''u'') sample_link ''l'' (pruneExpiredLocked ?ps sample_order 1 relay_a) =
      (?mine, PlanDeliver True (Some 1) True True [])"
    using open_link [of sample_link 0 "''u''" "''c''"] by (metis linked_hub(7) sample_prune)
  have b: "client_begin ?ps sample_order 1 1 0 (sample_grant ''u'') (ClientLink sample_link) relay_a = (?mine, ?pc)"
    using c0 by (simp add: begin_link_def m open1 [simplified] grant_fields)
  have c1: "w_heap sample_relay (Suc 0) = sample_carrier_at ''a'' 1 v2CarrierDevice []" by (simp add: sample_relay_def)
  have e: "fmdrop ''l'' (fmupd ''l'' l fmempty) = fmempty" for l :: v2LinkRoute by (rule fmap_ext) simp
  have drop: "dropLinkFromCarrier 1 ''l'' ?mine = linked fmempty"
    by (simp add: dropLinkFromCarrier_def dropLink_def owns_side_def c1 link_of_def sample_carrier_at_def relay_a_hub(1) fmget_def e del: linked_hub(7))
  have dropped: "hub_step ?ps sample_order ?mine (linked fmempty)"
    using step_drop_from [of ?ps sample_order ?mine 1 "''l''"] by (simp only: drop)
  have theirs: "hub_step ?ps sample_order (linked fmempty) ?theirs"
    using step_client_section [of "''l''" ?ps sample_order "linked fmempty" 3 "sample_grant ''v''" other_link 1]
      open_link [of other_link 3 "''v''" "''o''"] by (simp del: linked_hub(7))
  define x where "x = close_ref 1 ?theirs"
  have closed: "hub_step ?ps sample_order ?theirs x" by (rule step_carriers) (simp_all add: x_def)
  have run: "call_run ?ps sample_order 0 (?mine, ?pc) (x, ?pc)"
    by (rule call_run.others [OF call_run.others [OF call_run.others [OF call_run.begun dropped] theirs] closed])
  have q: "vq_closed (vc_queue (w_heap x 1))"
    by (simp add: x_def close_ref_def on_carrier_def carrier_close_def closeWithReason_def c1 sample_carrier_at_def vq_close_def vq_signal_def Let_def)
  define y where "y = fst (on_carrier 1 (enqueueLink ?ps sample_link) x)"
  have "on_carrier 1 (enqueueLink ?ps sample_link) x = (y, Some ErrV2QueueClosed)"
    using q by (simp add: y_def on_carrier_def enqueueLink_def enqueueEnvelope_def has_body_def body_envelope_def sample_link_def vq_enqueue_def
      v2LinkPriority_def GetEncrypted_def v2MaximumCarrierFrame_def valid_priority_def)
  then have "client_next ?ps 0 (client_next ?ps 0 (x, ?pc)) = (y, ?undo)" by simp
  then have run2: "call_run ?ps sample_order 0 (?mine, ?pc) (y, ?undo)"
    using call_run.piece [OF call_run.piece [OF run]] by simp
  have l: "hub_links (w_hub y) = fmupd ''l'' (link_of ''v'' ''o'') fmempty" by (simp add: y_def x_def)
  show ?thesis
    by (rule exI [of _ ?mine], rule exI [of _ ?pc], rule exI [of _ y], rule exI [of _ ?undo])
      (use b run2 l in \<open>simp add: dropLink_def link_of_def\<close>)
qed

subsection \<open>Properties\<close>



end
