(* ===== verification/V2_Handler.thy ===== *)
theory V2_Handler
  imports V2_Hub
begin

text \<open>
  The connections of a remote/v2 relay, \<open>server/internal/relayserver/v2_handler.go\<close>
  and \<open>v2_device_auth.go\<close>: how a WebSocket is admitted as the carrier of a client
  or of a device, the store that makes a grant usable once, and what is done
  with each envelope of an admitted carrier. A grant store and the device
  authenticator are interfaces of the handler, as in the code; time is read
  several times in one call, \<open>clk n\<close> is the \<open>n\<close>-th reading. What
  \<open>recordFailure\<close> hands to the operator is kept as a list.
\<close>

subsection \<open>The store of used grants\<close>

record InMemoryV2GrantUseStore =
  gu_used :: "(string, instant) fmap"
  gu_revoked :: "(string, instant) fmap"

definition NewInMemoryV2GrantUseStore :: InMemoryV2GrantUseStore where
  "NewInMemoryV2GrantUseStore = \<lparr>gu_used = fmempty, gu_revoked = fmempty\<rparr>"

text \<open>\<open>before\<close> is the time of the check outside the mutex, \<open>now\<close> the time inside it.\<close>

definition ConsumeDeviceLinkGrant ::
  "instant \<Rightarrow> instant \<Rightarrow> string \<Rightarrow> instant \<Rightarrow> InMemoryV2GrantUseStore \<Rightarrow> InMemoryV2GrantUseStore \<times> (v2_error + bool)" where
  "ConsumeDeviceLinkGrant before now grantID expiresAt store =
     (if grantID = [] \<or> IsZero expiresAt \<or> \<not> After expiresAt before then (store, Inl ErrV2Route)
      else
        (let store = store\<lparr>gu_used := fmkeep (\<lambda>i expiry. After expiry now) (gu_used store)\<rparr>;
             store = store\<lparr>gu_revoked := fmkeep (\<lambda>i expiry. After expiry now) (gu_revoked store)\<rparr>
         in if fmlookup (gu_revoked store) grantID \<noteq> None then (store, Inr False)
            else if IsPersistentDeviceLinkGrantExpiry expiresAt then (store, Inr True)
            else if fmlookup (gu_used store) grantID \<noteq> None then (store, Inr False)
            else (store\<lparr>gu_used := fmupd grantID expiresAt (gu_used store)\<rparr>, Inr True)))"

definition RevokeDeviceLinkGrant ::
  "instant \<Rightarrow> string \<Rightarrow> instant \<Rightarrow> InMemoryV2GrantUseStore \<Rightarrow> InMemoryV2GrantUseStore \<times> v2_error option" where
  "RevokeDeviceLinkGrant now grantID expiresAt store =
     (if grantID = [] \<or> IsZero expiresAt \<or> \<not> After expiresAt now then (store, Some ErrV2Route)
      else (store\<lparr>gu_revoked := fmupd grantID expiresAt (gu_revoked store)\<rparr>, None))"

subsection \<open>Authenticating a device\<close>

record V2DevicePrincipal =
  dp_DeviceID :: string
  dp_UserID :: string
  dp_ConnectionEpoch :: u64
  dp_AssignmentVersion :: u64
  dp_GrantVersion :: u64

type_synonym device_authenticator = "CarrierEnvelope \<Rightarrow> CarrierHello \<Rightarrow> instant \<Rightarrow> v2_error + V2DevicePrincipal"

text \<open>\<open>da_Verify\<close> is the \<open>Verify\<close> of the verifier, \<open>None\<close> when there is none.\<close>

record V2TicketDeviceAuthenticator =
  da_Verify :: "(string \<Rightarrow> string \<Rightarrow> instant \<Rightarrow> ticket_error + Claims) option"
  da_CellID :: string
  da_NodeID :: string

definition AuthenticateV2Device :: "primitives \<Rightarrow> V2TicketDeviceAuthenticator \<Rightarrow> device_authenticator" where
  "AuthenticateV2Device P authenticator envelope hello now =
     (case da_Verify authenticator of
        None \<Rightarrow> Inl ErrV2Route
      | Some verify \<Rightarrow>
          if da_CellID authenticator = [] \<or> da_NodeID authenticator = [] then Inl ErrV2Route
          else (case verify (ch_DeviceConnectionTicket hello) ''relay'' now of
              Inl _ \<Rightarrow> Inl ErrV2Route
            | Inr claims \<Rightarrow>
                if cl_Subject claims = [] \<or> cl_Subject claims \<noteq> ch_DeviceId hello \<or>
                  ch_DeviceConnectionEpoch hello \<noteq> ce_CarrierEpoch envelope then Inl ErrV2Route
                else (case DecodeIdentityPublicKey P (cl_IdentityKey claims) (cl_Confirmation claims) of
                    Inl _ \<Rightarrow> Inl ErrV2Route
                  | Inr publicKey \<Rightarrow>
                      if ValidateConnection P claims (cl_Subject claims) (cl_UserID claims) (da_CellID authenticator)
                        (PublicKeyThumbprint P publicKey) (cl_AssignmentVersion claims) (cl_GrantVersion claims) 2 \<noteq> None
                      then Inl ErrV2Route
                      else if VerifyCarrierProof P publicKey \<lparr>cp_GrantID = cl_JWTID claims, cp_CarrierID = ce_CarrierId envelope,
                        cp_CarrierEpoch = ce_CarrierEpoch envelope, cp_Challenge = ch_ClientChallenge hello\<rparr> (ch_DeviceProof hello) \<noteq> None
                      then Inl ErrV2Route
                      else Inr \<lparr>dp_DeviceID = cl_Subject claims, dp_UserID = cl_UserID claims,
                        dp_ConnectionEpoch = ce_CarrierEpoch envelope, dp_AssignmentVersion = cl_AssignmentVersion claims,
                        dp_GrantVersion = cl_GrantVersion claims\<rparr>)))"

subsection \<open>The handler\<close>

definition V2Subprotocol :: string where "V2Subprotocol = ''wenzwork-relay.v2''"

record V2ProtocolFailure =
  pf_Stage :: string
  pf_Reason :: string
  pf_Role :: string
  pf_ProtocolMajor :: u32
  pf_FrameSizeBytes :: nat

text \<open>
  The interface \<open>V2GrantUseStore\<close> on a store of type \<open>'s\<close>; the two readings of
  the clock are those of the store in memory.
\<close>

type_synonym 's grant_use_store = "instant \<Rightarrow> instant \<Rightarrow> string \<Rightarrow> instant \<Rightarrow> 's \<Rightarrow> 's \<times> (v2_error + bool)"

record 's V2Handler =
  hn_CellID :: string
  hn_NodeID :: string
  hn_BrowserOriginPatterns :: "string list"
  hn_ClientGrantVerifier :: DeviceLinkGrantVerifier
  hn_DeviceAuthenticator :: "device_authenticator option"
  hn_GrantUses :: "'s grant_use_store"
  hn_QueueLimits :: V2QueueLimits
  hn_HeartbeatSeconds :: u32

text \<open>What the handler calls that is not its own: \<open>crypto\<close>, \<open>encoding/json\<close>, \<open>uuid.Validate\<close>, \<open>proto.Size\<close>, and the order of maps.\<close>

record libraries =
  lb_crypto :: primitives
  lb_json :: grant_json
  lb_uuid :: "string \<Rightarrow> bool"
  lb_size :: "CarrierEnvelope \<Rightarrow> int"
  lb_order :: map_order

text \<open>The state a relay's connections share.\<close>

record 's relay =
  rl_world :: world
  rl_uses :: 's
  rl_failures :: "V2ProtocolFailure list"

type_synonym clock = "nat \<Rightarrow> instant"

definition recordFailure :: "string \<Rightarrow> string \<Rightarrow> string \<Rightarrow> u32 \<Rightarrow> nat \<Rightarrow> 's relay \<Rightarrow> 's relay" where
  "recordFailure stage reason role protocolMajor frameSize relay =
     relay\<lparr>rl_failures := rl_failures relay @ [\<lparr>pf_Stage = stage, pf_Reason = reason, pf_Role = role,
       pf_ProtocolMajor = protocolMajor, pf_FrameSizeBytes = frameSize\<rparr>]\<rparr>"

definition set_world :: "world \<Rightarrow> 's relay \<Rightarrow> 's relay" where
  "set_world w relay = relay\<lparr>rl_world := w\<rparr>"

definition set_carrier :: "carrier_ref \<Rightarrow> v2Carrier \<Rightarrow> 's relay \<Rightarrow> 's relay" where
  "set_carrier ref carrier relay =
     set_world ((rl_world relay)\<lparr>w_heap := (w_heap (rl_world relay))(ref := carrier)\<rparr>) relay"

definition UpdateBrowserOriginPatterns :: "string list \<Rightarrow> 's V2Handler \<Rightarrow> 's V2Handler" where
  "UpdateBrowserOriginPatterns patterns handler = handler\<lparr>hn_BrowserOriginPatterns := patterns\<rparr>"

definition QueueBudgetSnapshot :: "'s relay \<Rightarrow> V2QueueBudgetSnapshot option" where
  "QueueBudgetSnapshot relay = map_option budget_Snapshot (w_budget (rl_world relay))"

text \<open>\<open>handler.now\<close>; the caller of it replaces a zero instant by \<open>time.Now\<close>.\<close>

definition handshake_now :: "instant option \<Rightarrow> instant \<Rightarrow> instant" where
  "handshake_now injected now = (case injected of None \<Rightarrow> now | Some t \<Rightarrow> if IsZero t then now else t)"

subsection \<open>Before the upgrade\<close>

record http_request =
  rq_Method :: string
  rq_Path :: string
  rq_RawQuery :: string
  rq_Authorization :: string
  rq_Subprotocols :: "string list"

datatype http_answer = StatusNotFound | StatusBadRequest string | StatusServiceUnavailable | Upgrade

definition hasOnlyV2Subprotocol :: "string list \<Rightarrow> bool" where
  "hasOnlyV2Subprotocol values =
     (let protocols = filter (\<lambda>p. p \<noteq> []) (map TrimSpace (concat (map (split_at CHR '','') values)))
      in length protocols = 1 \<and> protocols ! 0 = V2Subprotocol)"

definition check_request :: "'s V2Handler \<Rightarrow> http_request \<Rightarrow> http_answer" where
  "check_request handler request =
     (if rq_Method request \<noteq> ''GET'' \<or> rq_Path request \<noteq> ''/v2/connect'' then StatusNotFound
      else if rq_RawQuery request \<noteq> [] \<or> rq_Authorization request \<noteq> []
      then StatusBadRequest ''remote/v2 credentials are accepted only in CARRIER_HELLO''
      else if \<not> hasOnlyV2Subprotocol (rq_Subprotocols request) then StatusBadRequest ''remote/v2 subprotocol required''
      else if hn_CellID handler = [] \<or> hn_NodeID handler = [] \<or> gv_Keys (hn_ClientGrantVerifier handler) = fmempty \<or>
        hn_DeviceAuthenticator handler = None then StatusServiceUnavailable
      else Upgrade)"

text \<open>
  Reading an envelope: \<open>message\<close> is what \<open>connection.Read\<close> returned, with
  whether it was a binary message; \<open>unmarshal\<close> is \<open>proto.Unmarshal\<close>.
\<close>

definition readV2CarrierEnvelope ::
  "(bytes \<Rightarrow> CarrierEnvelope option) \<Rightarrow> (bool \<times> bytes) option \<Rightarrow> CarrierEnvelope option \<times> nat" where
  "readV2CarrierEnvelope unmarshal message =
     (case message of
        None \<Rightarrow> (None, 0)
      | Some (binary, payload) \<Rightarrow>
          if \<not> binary \<or> length payload = 0 \<or> int (length payload) > v2MaximumCarrierFrame then (None, length payload)
          else (case unmarshal payload of
              None \<Rightarrow> (None, length payload)
            | Some envelope \<Rightarrow> if length (ce_Unknown envelope) \<noteq> 0 then (None, length payload) else (Some envelope, length payload)))"

definition GetHello :: "CarrierEnvelope \<Rightarrow> CarrierHello option" where
  "GetHello envelope = (case ce_Body envelope of Some (Body_Hello hello) \<Rightarrow> Some hello | _ \<Rightarrow> None)"

definition validateV2HelloEnvelope :: "(string \<Rightarrow> bool) \<Rightarrow> CarrierEnvelope \<Rightarrow> v2_error option" where
  "validateV2HelloEnvelope uuid envelope =
     (case GetHello envelope of
        None \<Rightarrow> Some ErrV2Route
      | Some hello \<Rightarrow>
          if ce_ProtocolMajor envelope \<noteq> 2 \<or> ce_CarrierId envelope = [] \<or> \<not> uuid (ce_CarrierId envelope) \<or>
            ce_CarrierEpoch envelope = 0 \<or> ce_PacketSequence envelope \<noteq> 1 \<or> ce_AcknowledgedSequence envelope \<noteq> 0 \<or>
            length (ce_Unknown envelope) \<noteq> 0 then Some ErrV2Route
          else
            (let isClient = (TrimSpace (ch_Grant hello) \<noteq> []); isDevice = (TrimSpace (ch_DeviceConnectionTicket hello) \<noteq> [])
             in if isClient = isDevice then Some ErrV2Route
                else if isClient then
                  (if ch_GrantId hello = [] \<or> ch_ClientId hello = [] \<or> ch_ClientIdentityKeyVersion hello = 0 \<or>
                     length (ch_ClientChallenge hello) \<noteq> 32 \<or> length (ch_ClientProof hello) \<noteq> Ed25519SignatureSize \<or>
                     ch_DeviceId hello \<noteq> [] \<or> ch_DeviceConnectionEpoch hello \<noteq> 0 \<or> length (ch_DeviceProof hello) \<noteq> 0
                   then Some ErrV2Route else None)
                else if ch_DeviceId hello = [] \<or> ch_DeviceConnectionEpoch hello = 0 \<or> length (ch_ClientChallenge hello) \<noteq> 32 \<or>
                  length (ch_DeviceProof hello) \<noteq> Ed25519SignatureSize \<or> ch_GrantId hello \<noteq> [] \<or> ch_ClientId hello \<noteq> [] \<or>
                  ch_ClientIdentityKeyVersion hello \<noteq> 0 \<or> length (ch_ClientProof hello) \<noteq> 0 then Some ErrV2Route
                else None))"

subsection \<open>Admitting a carrier\<close>

definition authenticateClient ::
  "libraries \<Rightarrow> 's V2Handler \<Rightarrow> CarrierEnvelope \<Rightarrow> CarrierHello \<Rightarrow> instant \<Rightarrow> v2_error + DeviceLinkGrantClaims" where
  "authenticateClient L handler envelope hello now =
     (case Grant_Verify (lb_crypto L) (lb_json L) (hn_ClientGrantVerifier handler) (ch_Grant hello) now of
        Inl _ \<Rightarrow> Inl ErrV2Route
      | Inr claims \<Rightarrow>
          if dc_RelayNodeID claims \<noteq> hn_NodeID handler \<or> dc_RelayCellID claims \<noteq> hn_CellID handler \<or>
            dc_GrantID claims \<noteq> ch_GrantId hello \<or> dc_ClientID claims \<noteq> ch_ClientId hello \<or>
            dc_ClientIdentityKeyVersion claims \<noteq> ch_ClientIdentityKeyVersion hello \<or> ce_CarrierEpoch envelope = 0 \<or>
            length (ch_ClientChallenge hello) \<noteq> 32
          then Inl ErrV2Route
          else (case DecodeIdentityPublicKey (lb_crypto L) (dc_ClientIdentityKey claims) (dc_ClientKeyThumbprint claims) of
              Inl _ \<Rightarrow> Inl ErrV2Route
            | Inr clientKey \<Rightarrow>
                if VerifyCarrierProof (lb_crypto L) clientKey \<lparr>cp_GrantID = dc_GrantID claims, cp_CarrierID = ce_CarrierId envelope,
                  cp_CarrierEpoch = ce_CarrierEpoch envelope, cp_Challenge = ch_ClientChallenge hello\<rparr> (ch_ClientProof hello) \<noteq> None
                then Inl ErrV2Route else Inr claims))"

definition sendReady :: "libraries \<Rightarrow> 's V2Handler \<Rightarrow> carrier_state \<Rightarrow> carrier_state \<times> v2_error option" where
  "sendReady L handler cb =
     (let heartbeat = (if hn_HeartbeatSeconds handler = 0 then 25 else hn_HeartbeatSeconds handler);
          limits = limits_normalized (hn_QueueLimits handler)
      in enqueueEnvelope (lb_size L)
           (body_envelope (Body_Ready \<lparr>cy_CarrierId = vc_id (fst cb), cy_CarrierEpoch = vc_epoch (fst cb),
              cy_HeartbeatIntervalSeconds = heartbeat, cy_ControlQueueByteLimit = word_of_int (ql_ControlBytes limits),
              cy_InteractiveQueueByteLimit = word_of_int (ql_InteractiveBytes limits),
              cy_BulkQueueByteLimit = word_of_int (ql_BulkBytes limits)\<rparr>)) v2PriorityControl cb)"

text \<open>How a handshake ends: a close code and its reason, a silent end, or a served carrier.\<close>

datatype handshake_result =
    ClosePolicyViolation string
  | CloseTryAgainLater string
  | CloseNow
  | ServeClient DeviceLinkGrantClaims
  | ServeDevice

definition watched :: "'s V2Handler \<Rightarrow> instant \<Rightarrow> carrier_ref \<Rightarrow> 's relay \<Rightarrow> 's relay" where
  "watched handler now ref relay =
     (let heartbeat = (if hn_HeartbeatSeconds handler = 0 then v2DefaultHeartbeatSeconds else uint (hn_HeartbeatSeconds handler))
      in set_carrier ref (startWatchdog heartbeat now (w_heap (rl_world relay) ref)) relay)"

text \<open>The deferred calls of a served connection.\<close>

definition end_carrier :: "libraries \<Rightarrow> clock \<Rightarrow> carrier_ref \<Rightarrow> 's relay \<Rightarrow> 's relay" where
  "end_carrier L clk ref relay =
     set_world (close_ref ref (detach (lb_size L) (lb_order L) (clk 0) (clk 1) ref (rl_world relay))) relay"

definition client_refused :: "nat \<Rightarrow> 's relay \<Rightarrow> 's relay \<times> handshake_result" where
  "client_refused frameSize relay =
     (recordFailure ''carrier_handshake'' ''client_authentication_failed'' ''client'' 2 frameSize relay,
      ClosePolicyViolation ''remote/v2 client authentication failed'')"

definition client_attached ::
  "libraries \<Rightarrow> 's V2Handler \<Rightarrow> clock \<Rightarrow> carrier_ref \<Rightarrow> CarrierEnvelope \<Rightarrow> nat \<Rightarrow> DeviceLinkGrantClaims \<Rightarrow>
     's relay \<Rightarrow> 's relay \<times> handshake_result" where
  "client_attached L handler clk ref first frameSize claims relay =
     (case acceptIncoming (clk 4) first (w_heap (rl_world relay) ref) of
        (carrier, Some _) \<Rightarrow>
          (end_carrier L (\<lambda>n. clk (7 + n)) ref
             (recordFailure ''carrier_handshake'' ''packet_sequence_invalid'' ''client'' 2 frameSize relay), CloseNow)
      | (carrier, None) \<Rightarrow>
          (let relay = set_carrier ref carrier relay
           in case on_carrier ref (sendReady L handler) (rl_world relay) of
               (w, Some _) \<Rightarrow> (end_carrier L (\<lambda>n. clk (7 + n)) ref (set_world w relay), CloseNow)
             | (w, None) \<Rightarrow> (watched handler (clk 5) ref (set_world w relay), ServeClient claims)))"

definition client_handshake ::
  "libraries \<Rightarrow> 's V2Handler \<Rightarrow> clock \<Rightarrow> carrier_ref \<Rightarrow> CarrierEnvelope \<Rightarrow> CarrierHello \<Rightarrow> nat \<Rightarrow>
     's relay \<Rightarrow> 's relay \<times> handshake_result" where
  "client_handshake L handler clk ref first hello frameSize relay =
     (case authenticateClient L handler first hello (clk 0) of
        Inl _ \<Rightarrow> client_refused frameSize relay
      | Inr claims \<Rightarrow>
          (case hn_GrantUses handler (clk 1) (clk 2) (dc_GrantID claims) (time_Unix (dc_ExpiresAt claims)) (rl_uses relay) of
             (uses, Inl _) \<Rightarrow>
               (recordFailure ''carrier_handshake'' ''grant_store_unavailable'' ''client'' 2 frameSize (relay\<lparr>rl_uses := uses\<rparr>),
                CloseTryAgainLater ''remote/v2 grant store unavailable'')
           | (uses, Inr consumed) \<Rightarrow>
               (let relay = relay\<lparr>rl_uses := uses\<rparr>
                in if \<not> consumed then client_refused frameSize relay
                   else (case newV2Carrier (clk 3) (ce_CarrierId first) (ce_CarrierEpoch first) v2CarrierClient
                       (dc_ClientID claims) (dc_DeviceID claims) (hn_QueueLimits handler) of
                       Inl _ \<Rightarrow> client_refused frameSize relay
                     | Inr carrier \<Rightarrow>
                         (case attachClient ref (rl_world (set_carrier ref carrier relay)) of
                            (w, Some _) \<Rightarrow> client_refused frameSize (set_world w relay)
                          | (w, None) \<Rightarrow> client_attached L handler clk ref first frameSize claims (set_world w relay))))))"

definition device_failed :: "string \<Rightarrow> nat \<Rightarrow> 's relay \<Rightarrow> 's relay" where
  "device_failed reason frameSize relay = recordFailure ''carrier_handshake'' reason ''device'' 2 frameSize relay"

definition principal_route :: "'s V2Handler \<Rightarrow> CarrierEnvelope \<Rightarrow> V2DevicePrincipal \<Rightarrow> Route" where
  "principal_route handler first who =
     \<lparr>rt_DeviceID = dp_DeviceID who, rt_UserID = dp_UserID who, rt_CellID = hn_CellID handler,
      rt_NodeID = hn_NodeID handler, rt_ConnectionID = ce_CarrierId first, rt_ConnectionEpoch = dp_ConnectionEpoch who,
      rt_AssignmentVersion = dp_AssignmentVersion who, rt_GrantVersion = dp_GrantVersion who,
      rt_ProtocolVersion = 2, rt_ConnectedAt = 0, rt_LastHeartbeatAt = 0, rt_ExpiresAt = 0\<rparr>"

definition principal_refused :: "CarrierEnvelope \<Rightarrow> CarrierHello \<Rightarrow> V2DevicePrincipal \<Rightarrow> bool" where
  "principal_refused first hello who \<longleftrightarrow>
     dp_DeviceID who = [] \<or> dp_ConnectionEpoch who = 0 \<or> dp_DeviceID who \<noteq> ch_DeviceId hello \<or>
     dp_ConnectionEpoch who \<noteq> ch_DeviceConnectionEpoch hello \<or> dp_ConnectionEpoch who \<noteq> ce_CarrierEpoch first"

definition principal_incomplete :: "V2DevicePrincipal \<Rightarrow> bool" where
  "principal_incomplete who \<longleftrightarrow> dp_UserID who = [] \<or> dp_AssignmentVersion who = 0 \<or> dp_GrantVersion who = 0"

definition device_handshake ::
  "libraries \<Rightarrow> 's V2Handler \<Rightarrow> device_authenticator \<Rightarrow> clock \<Rightarrow> carrier_ref \<Rightarrow> CarrierEnvelope \<Rightarrow> CarrierHello \<Rightarrow> nat \<Rightarrow>
     's relay \<Rightarrow> 's relay \<times> handshake_result" where
  "device_handshake L handler authenticator clk ref first hello frameSize relay =
     (case authenticator first hello (clk 0) of
        Inl _ \<Rightarrow> (device_failed ''device_authentication_failed'' frameSize relay,
                  ClosePolicyViolation ''remote/v2 device authentication failed'')
      | Inr who \<Rightarrow>
          if principal_refused first hello who
          then (device_failed ''device_authentication_failed'' frameSize relay,
                ClosePolicyViolation ''remote/v2 device authentication failed'')
          else
            (let route = principal_route handler first who;
                 unavailable = (\<lambda>relay. (device_failed ''device_route_failed'' frameSize relay,
                   CloseTryAgainLater ''remote/v2 device route unavailable''))
             in case newV2Carrier (clk 1) (ce_CarrierId first) (ce_CarrierEpoch first) v2CarrierDevice [] (dp_DeviceID who)
                 (hn_QueueLimits handler) of
                 Inl _ \<Rightarrow> unavailable relay
               | Inr carrier \<Rightarrow>
                   if principal_incomplete who
                   then unavailable relay
                   else (case acceptIncoming (clk 2) first carrier of
                       (carrier, Some _) \<Rightarrow>
                         (let relay = set_carrier ref carrier relay;
                              relay = device_failed ''packet_sequence_invalid'' frameSize relay
                          in (set_world (close_ref ref (rl_world relay)) relay, CloseNow))
                     | (carrier, None) \<Rightarrow>
                         (let relay = set_carrier ref carrier relay
                          in case attachDeviceBeforePublish (lb_size L) (lb_order L) (clk 3) ref route
                              (Some (sendReady L handler)) (rl_world relay) of
                              (w, Some _) \<Rightarrow> unavailable (set_world (close_ref ref w) relay)
                            | (w, None) \<Rightarrow> (watched handler (clk 4) ref (set_world w relay), ServeDevice)))))"

text \<open>The connection from its first message on.\<close>

definition handshake ::
  "libraries \<Rightarrow> 's V2Handler \<Rightarrow> device_authenticator \<Rightarrow> clock \<Rightarrow> carrier_ref \<Rightarrow> bool \<Rightarrow> CarrierEnvelope option \<times> nat \<Rightarrow>
     's relay \<Rightarrow> 's relay \<times> handshake_result" where
  "handshake L handler authenticator clk ref negotiated message relay =
     (if \<not> negotiated then
        (recordFailure ''carrier_handshake'' ''subprotocol_invalid'' ''unknown'' 0 0 relay,
         ClosePolicyViolation ''remote/v2 subprotocol required'')
      else (case message of
          (None, frameSize) \<Rightarrow>
            (recordFailure ''carrier_handshake'' ''hello_invalid'' ''unknown'' 0 frameSize relay,
             ClosePolicyViolation ''remote/v2 hello required'')
        | (Some first, frameSize) \<Rightarrow>
            (case GetHello first of
               Some hello \<Rightarrow>
                 if validateV2HelloEnvelope (lb_uuid L) first \<noteq> None then
                   (recordFailure ''carrier_handshake'' ''hello_invalid'' ''unknown'' (ce_ProtocolMajor first) frameSize relay,
                    ClosePolicyViolation ''remote/v2 hello invalid'')
                 else if ch_Grant hello \<noteq> [] then client_handshake L handler clk ref first hello frameSize relay
                 else device_handshake L handler authenticator clk ref first hello frameSize relay
             | None \<Rightarrow>
                 (recordFailure ''carrier_handshake'' ''hello_invalid'' ''unknown'' (ce_ProtocolMajor first) frameSize relay,
                  ClosePolicyViolation ''remote/v2 hello invalid''))))"

subsection \<open>Serving a carrier\<close>

text \<open>One round of a serving loop returns whether the loop goes on.\<close>

definition ERROR_REVOKED :: ProtocolErrorCode where "ERROR_REVOKED = 14"

definition persistentGrantRejection ::
  "'s V2Handler \<Rightarrow> clock \<Rightarrow> DeviceLinkGrantClaims \<Rightarrow> 's relay \<Rightarrow> 's relay \<times> ProtocolErrorCode" where
  "persistentGrantRejection handler clk claims relay =
     (if \<not> Persistent claims then (relay, ERROR_UNSPECIFIED)
      else (case hn_GrantUses handler (clk 1) (clk 2) (dc_GrantID claims) (time_Unix (dc_ExpiresAt claims)) (rl_uses relay) of
          (uses, Inl _) \<Rightarrow> (relay\<lparr>rl_uses := uses\<rparr>, ERROR_BACKPRESSURE)
        | (uses, Inr accepted) \<Rightarrow> (relay\<lparr>rl_uses := uses\<rparr>, if \<not> accepted then ERROR_REVOKED else ERROR_UNSPECIFIED)))"

definition send_pong :: "libraries \<Rightarrow> carrier_ref \<Rightarrow> u64 \<Rightarrow> 's relay \<Rightarrow> 's relay \<times> bool" where
  "send_pong L ref millis relay =
     (case on_carrier ref (enqueueEnvelope (lb_size L) (body_envelope (Body_Pong millis)) v2PriorityControl) (rl_world relay) of
        (w, err) \<Rightarrow> (set_world w relay, err = None))"

text \<open>What follows an error of the hub on a link, a resume or a rejection; \<open>role\<close> names the side.\<close>

definition link_failed :: "libraries \<Rightarrow> string \<Rightarrow> carrier_ref \<Rightarrow> LinkEnvelope \<Rightarrow> nat \<Rightarrow> v2_error \<Rightarrow> 's relay \<Rightarrow> 's relay" where
  "link_failed L role ref link frameSize err relay =
     (if err = ErrV2TransientRoute then recordFailure ''link_route'' ''route_stale'' role 2 frameSize relay
      else
        (let relay = recordFailure ''link_route'' ''route_invalid'' role 2 frameSize relay
         in case v2LinkMetadata link of (linkID, channelID, streamID) \<Rightarrow>
             (let relay = set_world (dropLinkFromCarrier ref linkID (rl_world relay)) relay
              in if linkID \<noteq> []
                 then set_world (fst (on_carrier ref (rejectStream (lb_size L) linkID channelID streamID) (rl_world relay))) relay
                 else relay)))"

definition resume_failed :: "libraries \<Rightarrow> string \<Rightarrow> carrier_ref \<Rightarrow> CarrierResume \<Rightarrow> nat \<Rightarrow> v2_error \<Rightarrow> 's relay \<Rightarrow> 's relay" where
  "resume_failed L role ref resume frameSize err relay =
     (if err = ErrV2TransientRoute then recordFailure ''carrier_resume'' ''route_stale'' role 2 frameSize relay
      else
        (let relay = recordFailure ''carrier_resume'' ''resume_invalid'' role 2 frameSize relay
         in if cr_LinkId resume \<noteq> []
            then set_world (fst (reject_on (lb_size L) ref (cr_LinkId resume) [] [] ERROR_RESUME_EXPIRED (rl_world relay))) relay
            else relay))"

definition rejected_round :: "libraries \<Rightarrow> string \<Rightarrow> carrier_ref \<Rightarrow> CarrierStreamRejected \<Rightarrow> nat \<Rightarrow> 's relay \<Rightarrow> 's relay" where
  "rejected_round L role ref rejected frameSize relay =
     (case routeStreamRejected (lb_size L) ref rejected (rl_world relay) of
        (w, None) \<Rightarrow> set_world w relay
      | (w, Some _) \<Rightarrow> recordFailure ''stream_rejected'' ''route_invalid'' role 2 frameSize (set_world w relay))"

definition client_link_round ::
  "libraries \<Rightarrow> 's V2Handler \<Rightarrow> clock \<Rightarrow> carrier_ref \<Rightarrow> DeviceLinkGrantClaims \<Rightarrow> LinkEnvelope \<Rightarrow> nat \<Rightarrow> 's relay \<Rightarrow> 's relay" where
  "client_link_round L handler clk ref claims link frameSize relay =
     (case (if GetLinkInit link \<noteq> None \<and> Persistent claims then persistentGrantRejection handler clk claims relay
            else (relay, ERROR_UNSPECIFIED)) of
        (relay, reason) \<Rightarrow>
          if reason \<noteq> ERROR_UNSPECIFIED then
            (case v2LinkMetadata link of (linkID, _, _) \<Rightarrow>
              if linkID \<noteq> [] then set_world (fst (reject_on (lb_size L) ref linkID [] [] reason (rl_world relay))) relay else relay)
          else (case routeClientLink (lb_size L) (lb_order L) (clk 3) ref claims link (rl_world relay) of
              (w, None) \<Rightarrow> set_world w relay
            | (w, Some err) \<Rightarrow> link_failed L ''client'' ref link frameSize err (set_world w relay)))"

definition frame_invalid :: "string \<Rightarrow> nat \<Rightarrow> 's relay \<Rightarrow> 's relay \<times> bool" where
  "frame_invalid role frameSize relay = (recordFailure ''carrier'' ''frame_invalid'' role 2 frameSize relay, False)"

definition serve_client_round ::
  "libraries \<Rightarrow> 's V2Handler \<Rightarrow> clock \<Rightarrow> carrier_ref \<Rightarrow> DeviceLinkGrantClaims \<Rightarrow> CarrierEnvelope option \<times> nat \<Rightarrow>
     's relay \<Rightarrow> 's relay \<times> bool" where
  "serve_client_round L handler clk ref claims message relay =
     (case message of
        (None, frameSize) \<Rightarrow> frame_invalid ''client'' frameSize relay
      | (Some envelope, frameSize) \<Rightarrow>
          (case acceptIncoming (clk 0) envelope (w_heap (rl_world relay) ref) of
             (carrier, Some _) \<Rightarrow> frame_invalid ''client'' frameSize (set_carrier ref carrier relay)
           | (carrier, None) \<Rightarrow>
               (let relay = set_carrier ref carrier relay
                in case ce_Body envelope of
                    Some (Body_Ping millis) \<Rightarrow> send_pong L ref millis relay
                  | Some (Body_Link link) \<Rightarrow> (client_link_round L handler clk ref claims link frameSize relay, True)
                  | Some (Body_Resume resume) \<Rightarrow>
                      (case resumeClient (lb_size L) (lb_order L) (clk 3) (clk 4) ref claims resume (rl_world relay) of
                         (w, None) \<Rightarrow> (set_world w relay, True)
                       | (w, Some err) \<Rightarrow> (resume_failed L ''client'' ref resume frameSize err (set_world w relay), True))
                  | Some (Body_StreamRejected rejected) \<Rightarrow> (rejected_round L ''client'' ref rejected frameSize relay, True)
                  | Some (Body_Pong _) \<Rightarrow> (relay, True)
                  | _ \<Rightarrow> frame_invalid ''client'' frameSize relay)))"

definition serve_device_round ::
  "libraries \<Rightarrow> clock \<Rightarrow> carrier_ref \<Rightarrow> CarrierEnvelope option \<times> nat \<Rightarrow> 's relay \<Rightarrow> 's relay \<times> bool" where
  "serve_device_round L clk ref message relay =
     (case message of
        (None, frameSize) \<Rightarrow> frame_invalid ''device'' frameSize relay
      | (Some envelope, frameSize) \<Rightarrow>
          (case acceptIncoming (clk 0) envelope (w_heap (rl_world relay) ref) of
             (carrier, Some _) \<Rightarrow> frame_invalid ''device'' frameSize (set_carrier ref carrier relay)
           | (carrier, None) \<Rightarrow>
               (let relay = set_carrier ref carrier relay
                in case ce_Body envelope of
                    Some (Body_Ping millis) \<Rightarrow> send_pong L ref millis relay
                  | Some (Body_Link link) \<Rightarrow>
                      (case routeDeviceLink (lb_size L) (lb_order L) (clk 3) ref link (rl_world relay) of
                         (w, None) \<Rightarrow> (set_world w relay, True)
                       | (w, Some err) \<Rightarrow> (link_failed L ''device'' ref link frameSize err (set_world w relay), True))
                  | Some (Body_Resume resume) \<Rightarrow>
                      (case resumeDevice (lb_size L) (lb_order L) (clk 3) ref resume (rl_world relay) of
                         (w, None) \<Rightarrow> (set_world w relay, True)
                       | (w, Some err) \<Rightarrow> (resume_failed L ''device'' ref resume frameSize err (set_world w relay), True))
                  | Some (Body_StreamRejected rejected) \<Rightarrow> (rejected_round L ''device'' ref rejected frameSize relay, True)
                  | Some (Body_Pong _) \<Rightarrow> (relay, True)
                  | _ \<Rightarrow> frame_invalid ''device'' frameSize relay)))"

subsection \<open>What an operation of the hub adds\<close>

text \<open>The carriers attached, and the client and device of each link.\<close>

definition attached :: "world \<Rightarrow> carrier_ref set" where
  "attached w = {r. \<exists>i. fmlookup (hub_carriers (w_hub w)) i = Some r}"

definition link_pairs :: "world \<Rightarrow> (string \<times> string) set" where
  "link_pairs w = {p. \<exists>k l. fmlookup (hub_links (w_hub w)) k = Some l \<and> p = (lr_clientID l, lr_deviceID l)}"

text \<open>\<open>w'\<close> comes from \<open>w\<close> with at most the links of \<open>A\<close> and the carriers of \<open>R\<close> added.\<close>

definition adds :: "(string \<times> string) set \<Rightarrow> carrier_ref set \<Rightarrow> world \<Rightarrow> world \<Rightarrow> bool" where
  "adds A R w w' \<longleftrightarrow> attached w' \<subseteq> attached w \<union> R \<and> link_pairs w' \<subseteq> link_pairs w \<union> A \<and> idents w' = idents w"

named_theorems adds_intros

lemma adds_trans: "adds A R w v \<Longrightarrow> adds A R v w' \<Longrightarrow> adds A R w w'"
  by (auto simp: adds_def)

lemma adds_mono: "adds {} {} w w' \<Longrightarrow> adds A R w w'"
  by (auto simp: adds_def)

lemma adds_refl [simp]: "adds A R w w"
  by (simp add: adds_def)

lemma adds_hub [adds_intros]: "w_hub w' = w_hub w \<Longrightarrow> idents w' = idents w \<Longrightarrow> adds A R w w'"
  by (simp add: adds_def attached_def link_pairs_def)

lemma adds_core:
  assumes "hub_core (w_hub w') = hub_core (w_hub w)" and "idents w' = idents w" and "link_pairs w' \<subseteq> link_pairs w \<union> A"
  shows "adds A R w w'"
  using assms hub_core_device [of "w_hub w'" "w_hub w"] by (auto simp: adds_def attached_def)

lemma link_pairs_cong: "w_hub w' = w_hub w \<Longrightarrow> link_pairs w' = link_pairs w"
  by (simp add: link_pairs_def)

lemma thinned_link_pairs: "thinned (hub_links (w_hub w')) (hub_links (w_hub w)) \<Longrightarrow> link_pairs w' \<subseteq> link_pairs w"
  unfolding thinned_def link_pairs_def same_route_def by fastforce

lemma adds_thinned:
  assumes "w_hub w' = (w_hub w)\<lparr>hub_links := m\<rparr>" and "thinned m (hub_links (w_hub w))" and "idents w' = idents w"
  shows "adds A R w w'"
  using thinned_link_pairs [of w' w] assms by (intro adds_core) auto

lemma adds_on_carrier [adds_intros]: "keeps_ident f \<Longrightarrow> adds A R w (fst (on_carrier r f w))"
  by (rule adds_hub) simp_all

lemma adds_sends [adds_intros, simp]:
  "adds A R w (fst (reject_on ps r i j k x w))" "adds A R w (fst (sendV2LinkRouteStale ps r i w))"
  "adds A R w (fst (rejectUnknownV2Link ps r i w))" "adds A R w (close_ref r w)"
  by (rule adds_hub; simp)+

lemma adds_prune [adds_intros, simp]: "adds A R w (pruneExpiredLocked ps ord now w)"
  by (rule adds_thinned) auto

lemma adds_drop [adds_intros, simp]: "adds A R w (dropLink k w)" "adds A R w (dropLinkFromCarrier r k w)"
proof -
  show d: "adds A R w (dropLink k w)"
  proof (cases "k = []")
    case False
    show ?thesis by (rule adds_thinned [where m = "fmdrop k (hub_links (w_hub w))"]) (simp_all add: dropLink_def False)
  qed (simp add: dropLink_def)
  then show "adds A R w (dropLinkFromCarrier r k w)"
    by (simp add: dropLinkFromCarrier_def split: option.split)
qed

lemma adds_relink:
  assumes "fmlookup (hub_links (w_hub w)) k = Some old" and "same_route l old"
  shows "adds A R w (set_hub ((w_hub w)\<lparr>hub_links := fmupd k l (hub_links (w_hub w))\<rparr>) w)"
  by (rule adds_thinned [where m = "fmupd k l (hub_links (w_hub w))"]) (use thinned_upd [OF assms] in simp_all)

lemma adds_rebind: "fmlookup (hub_links (w_hub w)) k = Some old \<Longrightarrow> adds A R w (rebind_link r k old w)"
  unfolding rebind_link_def by (rule adds_relink) (simp_all add: same_route_def)

lemma create_link_pairs: "link_pairs (fst (create_link ord r claims k w)) \<subseteq> link_pairs w \<union> {(dc_ClientID claims, dc_DeviceID claims)}"
  by (auto simp: create_link_def Let_def link_pairs_def split: option.splits if_splits)

lemma create_link_idents: "idents (fst (create_link ord r claims k w)) = idents w"
  by (simp add: create_link_def Let_def split: option.split)

lemma adds_section:
  "adds {(dc_ClientID claims, dc_DeviceID claims)} R w (fst (client_locked ord r claims link k w))"
proof -
  let ?A = "{(dc_ClientID claims, dc_DeviceID claims)}"
  have create: "adds ?A R w (fst (create_link ord r claims k w))"
    by (rule adds_core [OF core_create create_link_idents create_link_pairs])
  have wait: "adds ?A R w (set_hub ((w_hub w)\<lparr>hub_links := fmupd k (old\<lparr>lr_clientSuspendedUntil := 0\<rparr>) (hub_links (w_hub w))\<rparr>) w)"
    if "fmlookup (hub_links (w_hub w)) k = Some old" for old
    by (rule adds_relink [OF that]) (simp add: same_route_def)
  show ?thesis
    using create wait adds_rebind [of w k _ ?A R r]
    by (simp add: client_locked_def Let_def split: option.split)
qed

lemma adds_deliver:
  assumes "undo = id \<or> undo = dropLink k"
  shows "adds A R w (fst (deliver_link ps r target link undo w))"
proof -
  have u: "idents (undo v) = idents v" for v using assms by auto
  have "link_pairs (undo v) \<subseteq> link_pairs v" for v using assms adds_drop(1) [of "{}" "{}" v k] by (auto simp: adds_def)
  then have "link_pairs (fst (deliver_link ps r target link undo w)) \<subseteq> link_pairs w"
    using deliver_outcome [of undo ps r target link w, OF u] link_pairs_cong by (metis order_refl)
  then show ?thesis
    using core_deliver [OF assms] deliver_outcome [of undo ps r target link w, OF u] by (intro adds_core) auto
qed

lemma adds_client_rest: "adds A R w (fst (client_unlocked ps r link k plan w))"
proof (cases plan)
  case (PlanDeliver ex target ready created superseded)
  define v where "v = (case target of None \<Rightarrow> w
    | Some ref \<Rightarrow> fold (\<lambda>stale w. fst (reject_on ps ref (lr_linkID stale) [] [] ERROR_RESUME_EXPIRED w)) superseded w)"
  have v: "adds A R w v" by (rule adds_hub) (simp_all add: v_def split: option.split)
  have "fst (client_unlocked ps r link k plan w) \<in> {v, fst (rejectUnknownV2Link ps r k v)} \<or>
      (\<exists>undo. (undo = id \<or> undo = dropLink k) \<and>
        fst (client_unlocked ps r link k plan w) = fst (deliver_link ps r (the target) link undo v))"
    unfolding client_unlocked_def PlanDeliver Let_def client_plan.case v_def [symmetric] by auto
  moreover have "adds A R w (fst (deliver_link ps r (the target) link undo v))" if "undo = id \<or> undo = dropLink k" for undo
    by (rule adds_trans [OF v adds_deliver [OF that]])
  ultimately show ?thesis using v adds_trans [OF v adds_sends(3)] by auto
qed (simp_all add: client_unlocked_def)

lemma adds_route_client:
  "adds {(dc_ClientID claims, dc_DeviceID claims)} R w (fst (routeClientLink ps ord now r claims link w))"
proof -
  obtain i j x where m: "v2LinkMetadata link = (i, j, x)" by (cases "v2LinkMetadata link")
  define w1 where "w1 = pruneExpiredLocked ps ord now w"
  obtain v plan where v: "client_locked ord r claims link i w1 = (v, plan)" by (cases "client_locked ord r claims link i w1")
  have "adds {(dc_ClientID claims, dc_DeviceID claims)} R w (fst (client_unlocked ps r link i plan v))"
    using adds_section [of claims R w1 ord r link i] v
    by (auto simp: w1_def intro: adds_trans [OF adds_prune] adds_trans [OF _ adds_client_rest])
  then show ?thesis unfolding routeClientLink_def m prod.case w1_def [symmetric] v by auto
qed

lemma adds_route_device: "adds A R w (fst (routeDeviceLink ps ord now r link w))"
proof -
  obtain i j x where m: "v2LinkMetadata link = (i, j, x)" by (cases "v2LinkMetadata link")
  define w1 where "w1 = pruneExpiredLocked ps ord now w"
  have w1: "adds A R w w1" by (simp add: w1_def)
  have "adds A R w (fst (deliver_link ps r target link id w1))" for target by (rule adds_trans [OF w1 adds_deliver]) simp
  with w1 show ?thesis unfolding routeDeviceLink_def m prod.case Let_def w1_def [symmetric] by (auto split: option.split)
qed

lemma adds_resume_device: "adds A R w (fst (resumeDevice ps ord now r resume w))"
proof -
  define w1 where "w1 = pruneExpiredLocked ps ord now w"
  have w1: "adds A R w w1" by (simp add: w1_def)
  have "adds A R w (fst (on_carrier target (enqueueEnvelope ps e c) w1))" for target e c
    by (rule adds_trans [OF w1 adds_on_carrier]) simp
  with w1 show ?thesis unfolding resumeDevice_def Let_def w1_def [symmetric] by (simp split: option.split)
qed

lemma adds_rejected: "adds A R w (fst (routeStreamRejected ps r rejected w))"
  unfolding routeStreamRejected_def Let_def by (auto intro: adds_on_carrier split: option.split v2CarrierRole.split)

lemma adds_resume_client:
  assumes "hub_ok w"
  shows "adds A R w (fst (resumeClient ps ord now later r claims resume w))"
proof -
  define w1 where "w1 = pruneExpiredLocked ps ord now w"
  have w1: "adds A R w w1" and ok1: "hub_ok w1" using hub_ok_prune [OF assms] by (simp_all add: w1_def)
  have relink: "adds A R w (rebind_link r (lr_linkID old) old w1)"
    "adds A R w (fst (on_carrier target (enqueueEnvelope ps e c) (rebind_link r (lr_linkID old) old w1)))"
    if "fmlookup (hub_links (w_hub w1)) k = Some old" for k old target e c
  proof -
    have "fmlookup (hub_links (w_hub w1)) (lr_linkID old) = Some old" using hub_ok_link(1) [OF ok1 that] that by simp
    then show r: "adds A R w (rebind_link r (lr_linkID old) old w1)" by (rule adds_trans [OF w1 adds_rebind])
    show "adds A R w (fst (on_carrier target (enqueueEnvelope ps e c) (rebind_link r (lr_linkID old) old w1)))"
      by (rule adds_trans [OF r adds_on_carrier]) simp
  qed
  show ?thesis
    unfolding resumeClient_def Let_def w1_def [symmetric]
    using w1 by (auto intro: relink split: option.split)
qed

lemma adds_attach_client: "adds A {r} w (fst (attachClient r w))"
  by (auto simp: attachClient_def Let_def adds_def attached_def link_pairs_def)

lemma link_pairs_fmmap:
  assumes "hub_links (w_hub w') = fmmap f (hub_links h)" and "\<And>l. lr_clientID (f l) = lr_clientID l \<and> lr_deviceID (f l) = lr_deviceID l"
    and "thinned (hub_links h) (hub_links (w_hub w))"
  shows "link_pairs w' \<subseteq> link_pairs w"
proof -
  have "link_pairs w' = {p. \<exists>k l. fmlookup (hub_links h) k = Some l \<and> p = (lr_clientID l, lr_deviceID l)}"
    using assms(1,2) by (fastforce simp: link_pairs_def)
  then show ?thesis using assms(3) by (fastforce simp: link_pairs_def thinned_def same_route_def)
qed

lemma attached_own_name:
  assumes "hub_ok w" and "fmlookup (hub_carriers (w_hub w)) i = Some r"
  shows "i = vc_id (w_heap w r)" and "i \<noteq> []"
  using assms filed_at [of "w_hub w" "idents w" i r] by (auto simp: hub_ok_def filed_def)

lemma detach_adds:
  assumes ok: "hub_ok w"
  shows "adds A R w (detach ps ord now later r w)" and "r \<notin> attached (detach ps ord now later r w)"
proof -
  define w1 where "w1 = pruneExpiredLocked ps ord now w"
  have ok1: "hub_ok w1" and w1: "adds A R w w1" and id1: "idents w1 = idents w" using hub_ok_prune [OF ok] by (simp_all add: w1_def)
  let ?c = "w_heap w r" and ?w' = "detach ps ord now later r w"
  have name: "vc_id (w_heap w1 r) = vc_id ?c" using idents_eqD(1) [OF id1] .
  have "(w_hub ?w' = w_hub w1 \<and> fmlookup (hub_carriers (w_hub w1)) (vc_id ?c) \<noteq> Some r) \<or>
      hub_carriers (w_hub ?w') = fmdrop (vc_id ?c) (hub_carriers (w_hub w1))"
    by (auto simp: detach_def Let_def w1_def [symmetric] suspend_device_def suspend_client_def)
  then show "r \<notin> attached ?w'"
    using attached_own_name(1) [OF ok1, of _ r] name by (auto simp: attached_def split: if_splits)
  have carriers: "attached ?w' \<subseteq> attached w1"
    by (auto simp: detach_def Let_def w1_def [symmetric] suspend_device_def suspend_client_def attached_def split: if_splits)
  have ids: "idents ?w' = idents w"
    using id1 by (auto simp: detach_def Let_def w1_def [symmetric])
  have "link_pairs ?w' \<subseteq> link_pairs w1"
  proof -
    have "hub_links (w_hub ?w') \<in> {hub_links (w_hub w1),
        fmmap (\<lambda>l. if lr_deviceID l = vc_deviceID ?c then l\<lparr>lr_deviceSuspendedUntil := later + v2LinkRouteGrace\<rparr> else l)
          (hub_links (w_hub w1)),
        fmmap (\<lambda>l. if lr_clientCarrierID l = vc_id ?c then l\<lparr>lr_clientSuspendedUntil := later + v2LinkRouteGrace\<rparr> else l)
          (hub_links (w_hub w1))}"
      by (simp add: detach_def Let_def w1_def [symmetric] suspend_device_def suspend_client_def)
    then show ?thesis
    proof (elim insertE emptyE)
      assume "hub_links (w_hub ?w') = hub_links (w_hub w1)"
      then show ?thesis by (simp add: link_pairs_def)
    qed (erule link_pairs_fmmap; simp)+
  qed
  with carriers ids w1 show "adds A R w ?w'" by (auto simp: adds_def)
qed

lemma adds_attach_device:
  assumes "beforePublish = Some (publish :: carrier_state \<Rightarrow> carrier_state \<times> v2_error option)" and "keeps_ident publish"
  shows "adds A {r} w (fst (attachDeviceBeforePublish ps ord now r route beforePublish w))"
proof (rule attach_device_cases [OF _ refl, of beforePublish ps ord now r route w])
  let ?w' = "fst (attachDeviceBeforePublish ps ord now r route beforePublish w)"
  show "keeps_ident f" if "beforePublish = Some f" for f using assms that by simp
  show "adds A {r} w ?w'" if h: "w_hub ?w' = w_hub w \<or> w_hub ?w' = w_hub (pruneExpiredLocked ps ord now w)" and i: "idents ?w' = idents w"
    using h
  proof
    assume "w_hub ?w' = w_hub (pruneExpiredLocked ps ord now w)"
    then have "adds A {r} (pruneExpiredLocked ps ord now w) ?w'" using i by (intro adds_hub) simp_all
    then show ?thesis by (rule adds_trans [OF adds_prune])
  qed (use i in \<open>auto intro: adds_hub\<close>)
  show "adds A {r} w ?w'"
    if h: "w_hub ?w' = (published_hub (w_heap w r) r route (w_hub (pruneExpiredLocked ps ord now w)))\<lparr>hub_routeChanges := True\<rparr>"
      and i: "idents ?w' = idents w"
  proof -
    have "hub_links (w_hub ?w') = fmmap (\<lambda>route. if lr_deviceID route = vc_deviceID (w_heap w r)
        then route\<lparr>lr_targetEpoch := vc_epoch (w_heap w r), lr_deviceSuspendedUntil := 0\<rparr> else route)
        (hub_links (w_hub (pruneExpiredLocked ps ord now w)))"
      by (simp add: h published_hub_def retarget_links_def)
    then have "link_pairs ?w' \<subseteq> link_pairs w" by (rule link_pairs_fmmap) auto
    moreover have "attached ?w' \<subseteq> attached w \<union> {r}" by (auto simp: attached_def h published_hub_def retarget_links_def)
    ultimately show ?thesis using i by (auto simp: adds_def)
  qed
qed

text \<open>A device that is refused is not attached.\<close>

lemma attach_device_error:
  assumes "attachDeviceBeforePublish ps ord now r route beforePublish w = (w', Some e)"
    and "\<And>f. beforePublish = Some f \<Longrightarrow> keeps_ident f"
  shows "hub_carriers (w_hub w') = hub_carriers (w_hub w)"
proof -
  have p: "hub_carriers (w_hub (fst (case beforePublish of None \<Rightarrow> (v, None) | Some publish \<Rightarrow> on_carrier r publish v))) = hub_carriers (w_hub v)"
    for v by (simp split: option.split)
  show ?thesis
    using assms(1) p [of "pruneExpiredLocked ps ord now w"] unfolding attachDeviceBeforePublish_def Let_def
    by (auto split: if_splits prod.splits option.splits)
qed

lemma adds_reject_resident: "adds A R w (fst (RejectResident ps ord now d i epoch w))"
proof -
  define w1 where "w1 = pruneExpiredLocked ps ord now w"
  define h' where "h' = suspend_device d (now + v2LinkRouteGrace) ((w_hub w1)\<lparr>hub_deviceCarriers := fmdrop d (hub_deviceCarriers (w_hub w1)),
      hub_deviceRoutes := fmdrop d (hub_deviceRoutes (w_hub w1))\<rparr>)"
  have w1: "adds A R w w1" by (simp add: w1_def)
  have "link_pairs (set_hub h' w1) \<subseteq> link_pairs w1"
    by (rule link_pairs_fmmap [where h = "w_hub w1" and
          f = "\<lambda>l. if lr_deviceID l = d then l\<lparr>lr_deviceSuspendedUntil := now + v2LinkRouteGrace\<rparr> else l"])
      (simp_all add: h'_def suspend_device_def)
  then have "adds A R w1 (set_hub h' w1)" by (auto simp: adds_def attached_def h'_def suspend_device_def)
  moreover have "adds A R (set_hub h' w1) (signalRouteChange (set_hub h' w1))"
    by (simp add: adds_def attached_def link_pairs_def)
  ultimately have "adds A R w (close_ref r (signalRouteChange (set_hub h' w1)))" for r
    using adds_trans [OF adds_trans [OF w1] adds_sends(4)] adds_trans by metis
  with w1 show ?thesis
    unfolding RejectResident_def Let_def w1_def [symmetric] h'_def [symmetric] by (simp split: option.split)
qed

lemma adds_close_all: "adds A R w (CloseAll ord w)"
proof -
  have "w_hub (fold close_ref rs v) = w_hub v \<and> idents (fold close_ref rs v) = idents v" for rs v
    by (induction rs arbitrary: v) simp_all
  then show ?thesis by (simp add: CloseAll_def Let_def adds_def attached_def link_pairs_def)
qed

subsection \<open>What a call of the handler adds\<close>

text \<open>Between worlds with a sound hub.\<close>

definition sound :: "(string \<times> string) set \<Rightarrow> carrier_ref set \<Rightarrow> world \<Rightarrow> world \<Rightarrow> bool" where
  "sound A R w w' \<longleftrightarrow> (hub_ok w \<longrightarrow> hub_ok w' \<and> adds A R w w')"

lemma sound_trans: "sound A R w v \<Longrightarrow> sound A R v w' \<Longrightarrow> sound A R w w'"
  by (auto simp: sound_def intro: adds_trans)

lemma sound_refl [simp]: "sound A R w w"
  by (simp add: sound_def)

lemma sound_hub: "w_hub w' = w_hub w \<Longrightarrow> idents w' = idents w \<Longrightarrow> sound A R w w'"
  using hub_ok_cong [of w' w] by (simp add: sound_def adds_hub)

lemma accept_ident [simp]: "ident (fst (acceptIncoming now e c)) = ident c"
  by (auto simp: acceptIncoming_def Let_def ident_def split: option.split)

lemma watchdog_ident [simp]: "ident (startWatchdog n now c) = ident c"
  by (simp add: startWatchdog_def ident_def)

lemma ready_ident [simp]: "keeps_ident (sendReady L handler)"
  using enqueue_ident unfolding sendReady_def Let_def keeps_ident_def by blast

lemma world_simps [simp]:
  "rl_world (recordFailure stage reason role major n relay) = rl_world relay" "rl_world (set_world w relay) = w"
  "w_hub (rl_world (set_carrier r c relay)) = w_hub (rl_world relay)"
  "w_heap (rl_world (set_carrier r c relay)) = (w_heap (rl_world relay))(r := c)"
  by (simp_all add: recordFailure_def set_world_def set_carrier_def)

lemma set_carrier_sound:
  assumes "ident c = ident (w_heap (rl_world relay) r)"
  shows "sound A R (rl_world relay) (rl_world (set_carrier r c relay))"
  by (rule sound_hub) (use assms in \<open>simp_all add: idents_def fun_eq_iff\<close>)

lemma on_carrier_sound: "keeps_ident f \<Longrightarrow> sound A R w (fst (on_carrier r f w))"
  by (rule sound_hub) simp_all

lemma watched_sound: "sound A R (rl_world relay) (rl_world (watched handler now r relay))"
  unfolding watched_def Let_def by (rule set_carrier_sound) simp

lemma end_sound:
  assumes "\<forall>n. 0 \<le> clk n"
  shows "sound A R (rl_world relay) (rl_world (end_carrier L clk r relay))"
    and "hub_ok (rl_world relay) \<Longrightarrow> r \<notin> attached (rl_world (end_carrier L clk r relay))"
proof -
  let ?w = "detach (lb_size L) (lb_order L) (clk 0) (clk 1) r (rl_world relay)"
  have "sound A R ?w (close_ref r ?w)" by (rule sound_hub) simp_all
  moreover have "sound A R (rl_world relay) ?w"
    using hub_ok_detach(1) detach_adds(1) assms by (simp add: sound_def)
  ultimately show "sound A R (rl_world relay) (rl_world (end_carrier L clk r relay))"
    unfolding end_carrier_def world_simps by (rule sound_trans [rotated])
  show "r \<notin> attached (rl_world (end_carrier L clk r relay))" if "hub_ok (rl_world relay)"
    using detach_adds(2) [OF that] by (simp add: end_carrier_def attached_def)
qed

text \<open>A carrier that is not attached may be replaced.\<close>

lemma fresh_carrier:
  assumes ok: "hub_ok (rl_world relay)" and fresh: "r \<notin> attached (rl_world relay)"
  shows "hub_ok (rl_world (set_carrier r c relay))"
proof -
  let ?w = "rl_world relay" and ?w' = "rl_world (set_carrier r c relay)"
  have other: "idents ?w' p = idents ?w p" if "fmlookup (hub_carriers (w_hub ?w)) i = Some p" for i p
    using fresh that by (auto simp: idents_def attached_def)
  have "filed (idents ?w') i p \<longleftrightarrow> filed (idents ?w) i p" if "fmlookup (hub_carriers (w_hub ?w)) i = Some p" for i p
    unfolding filed_def id_of_def other [OF that] by (rule refl)
  moreover have "current (w_hub ?w) (idents ?w') d i \<longleftrightarrow> current (w_hub ?w) (idents ?w) d i" for d i
    unfolding current_def role_of_def device_of_def epoch_of_def using other by (metis (no_types, lifting))
  moreover have "link_ok (w_hub ?w) (idents ?w') k l \<longleftrightarrow> link_ok (w_hub ?w) (idents ?w) k l" for k l
    using other by (auto simp: link_ok_def epoch_of_def device_carrier_def split: option.split)
  ultimately show ?thesis
    using ok unfolding hub_ok_def carriers_ok_def links_ok_def world_simps by metis
qed

lemma attach_client_sound: "vc_id (w_heap w r) \<noteq> [] \<Longrightarrow> sound A {r} w (fst (attachClient r w))"
  using hub_ok_attach_client adds_attach_client by (simp add: sound_def)

lemma client_attached_outcome:
  assumes result: "client_attached L handler clk ref first frameSize claims relay = (relay', res)" and time: "\<forall>n. 0 \<le> clk n"
  shows "sound {} {} (rl_world relay) (rl_world relay')"
    and "res = ServeClient claims \<or> res = CloseNow \<and> (hub_ok (rl_world relay) \<longrightarrow> ref \<notin> attached (rl_world relay'))"
proof -
  obtain c e where accept: "acceptIncoming (clk 4) first (w_heap (rl_world relay) ref) = (c, e)" by (cases "acceptIncoming (clk 4) first (w_heap (rl_world relay) ref)")
  let ?r1 = "set_carrier ref c relay"
  obtain w x where ready: "on_carrier ref (sendReady L handler) (rl_world ?r1) = (w, x)"
    by (cases "on_carrier ref (sendReady L handler) (rl_world ?r1)")
  have later: "\<forall>n. 0 \<le> clk (7 + n)" using time by simp
  have "ident c = ident (w_heap (rl_world relay) ref)" using accept_ident [of "clk 4" first "w_heap (rl_world relay) ref"] accept by simp
  then have s1: "sound {} {} (rl_world relay) (rl_world ?r1)" by (rule set_carrier_sound)
  have s2: "sound {} {} (rl_world ?r1) w" using on_carrier_sound [OF ready_ident, of "{}" "{}" "rl_world ?r1" ref L handler] ready by simp
  note s3 = sound_trans [OF s1 s2]
  define fin where "fin = set_world w ?r1"
  have fin: "rl_world fin = w" by (simp add: fin_def)
  consider (bad) "e \<noteq> None" | (lost) "e = None" "x \<noteq> None" | (fine) "e = None" "x = None" by blast
  then have "sound {} {} (rl_world relay) (rl_world relay') \<and>
      (res = ServeClient claims \<or> res = CloseNow \<and> (hub_ok (rl_world relay) \<longrightarrow> ref \<notin> attached (rl_world relay')))"
  proof cases
    case bad
    define failed where "failed = recordFailure ''carrier_handshake'' ''packet_sequence_invalid'' ''client'' 2 frameSize relay"
    from bad result accept have "relay' = end_carrier L (\<lambda>n. clk (7 + n)) ref failed" "res = CloseNow"
      by (auto simp: client_attached_def failed_def)
    moreover have "rl_world failed = rl_world relay" by (simp add: failed_def)
    ultimately show ?thesis using end_sound(1) [OF later, of "{}" "{}" failed L ref] end_sound(2) [OF later, of failed ref L] by simp
  next
    case lost
    with result accept ready have "relay' = end_carrier L (\<lambda>n. clk (7 + n)) ref fin" "res = CloseNow"
      by (auto simp: client_attached_def fin_def)
    moreover have "hub_ok w" if "hub_ok (rl_world relay)" using s3 that by (simp add: sound_def)
    ultimately show ?thesis
      using end_sound(1) [OF later, of "{}" "{}" fin L ref] end_sound(2) [OF later, of fin ref L] sound_trans [OF s3] fin by auto
  next
    case fine
    with result accept ready have "relay' = watched handler (clk 5) ref fin" "res = ServeClient claims"
      by (auto simp: client_attached_def fin_def)
    then show ?thesis using watched_sound [of "{}" "{}" fin handler "clk 5" ref] sound_trans [OF s3] fin by auto
  qed
  then show "sound {} {} (rl_world relay) (rl_world relay')"
    and "res = ServeClient claims \<or> res = CloseNow \<and> (hub_ok (rl_world relay) \<longrightarrow> ref \<notin> attached (rl_world relay'))" by auto
qed

text \<open>Handshakes start from a reference no carrier has; \<open>others\<close> are the carriers elsewhere.\<close>

definition others :: "carrier_ref \<Rightarrow> world \<Rightarrow> world \<Rightarrow> bool" where
  "others r w w' \<longleftrightarrow> (\<forall>p. p \<noteq> r \<longrightarrow> idents w' p = idents w p)"

text \<open>
  A handshake on reference \<open>r\<close> adds no link and at most the carrier at \<open>r\<close>;
  \<open>who\<close> is that carrier's identity when it is served.
\<close>

definition shaken ::
  "carrier_ref \<Rightarrow> world \<Rightarrow> world \<Rightarrow> (string \<times> u64 \<times> v2CarrierRole \<times> string \<times> string) option \<Rightarrow> bool" where
  "shaken r w w' who \<longleftrightarrow> hub_ok w' \<and> others r w w' \<and> link_pairs w' \<subseteq> link_pairs w \<and> attached w' \<subseteq> attached w \<union> {r} \<and>
     (case who of None \<Rightarrow> r \<notin> attached w' | Some i \<Rightarrow> idents w' r = i)"

lemma shaken_refused: "hub_ok w \<Longrightarrow> r \<notin> attached w \<Longrightarrow> w_hub w' = w_hub w \<Longrightarrow> others r w w' \<Longrightarrow> hub_ok w' \<Longrightarrow> shaken r w w' None"
  by (auto simp: shaken_def attached_def link_pairs_def)

lemma shaken_carrier:
  assumes ok: "hub_ok (rl_world relay)" and fresh: "r \<notin> attached (rl_world relay)"
    and s: "sound {} {r} (rl_world (set_carrier r c relay)) w'"
  shows "r \<notin> attached w' \<Longrightarrow> shaken r (rl_world relay) w' None" and "shaken r (rl_world relay) w' (Some (ident c))"
proof -
  have "hub_ok w'" "adds {} {r} (rl_world (set_carrier r c relay)) w'"
    using s fresh_carrier [OF ok fresh] by (simp_all add: sound_def)
  moreover have "idents (rl_world (set_carrier r c relay)) = (idents (rl_world relay))(r := ident c)"
    by (simp add: idents_def fun_eq_iff)
  ultimately have "shaken r (rl_world relay) w' (Some (ident c)) \<and> (r \<notin> attached w' \<longrightarrow> shaken r (rl_world relay) w' None)"
    by (auto simp: shaken_def adds_def others_def link_pairs_def attached_def)
  then show "r \<notin> attached w' \<Longrightarrow> shaken r (rl_world relay) w' None" and "shaken r (rl_world relay) w' (Some (ident c))" by simp_all
qed

lemma newV2Carrier_ident:
  assumes "newV2Carrier now i epoch role clientID deviceID limits = Inr c"
  shows "ident c = (i, epoch, role, clientID, deviceID)" and "i \<noteq> []" and "vc_id c = i"
  using assms by (auto simp: newV2Carrier_def ident_def split: if_splits option.splits)

lemma attach_client_ok: "attachClient r w = (w', None) \<Longrightarrow> w_heap w' = w_heap w"
  by (auto simp: attachClient_def Let_def split: if_splits)

lemma attach_client_refused: "attachClient r w = (w', Some e) \<Longrightarrow> w' = w"
  by (auto simp: attachClient_def Let_def split: if_splits)

lemma client_handshake_outcome:
  assumes result: "client_handshake L handler clk ref first hello frameSize relay = (relay', res)"
    and ok: "hub_ok (rl_world relay)" and fresh: "ref \<notin> attached (rl_world relay)" and time: "\<forall>n. 0 \<le> clk n"
  shows "(\<exists>claims. res = ServeClient claims \<and> authenticateClient L handler first hello (clk 0) = Inr claims \<and>
      shaken ref (rl_world relay) (rl_world relay')
        (Some (ce_CarrierId first, ce_CarrierEpoch first, v2CarrierClient, dc_ClientID claims, dc_DeviceID claims))) \<or>
    (\<forall>claims. res \<noteq> ServeClient claims) \<and> res \<noteq> ServeDevice \<and> shaken ref (rl_world relay) (rl_world relay') None"
    (is "?served \<or> ?refused")
proof -
  have same: ?refused if "rl_world relay' = rl_world relay" "\<forall>claims. res \<noteq> ServeClient claims" "res \<noteq> ServeDevice"
    using that ok fresh by (auto intro: shaken_refused simp: others_def)
  show ?thesis
  proof (cases "authenticateClient L handler first hello (clk 0)")
    case (Inl e)
    with result have "relay' = fst (client_refused frameSize relay)" "res = snd (client_refused frameSize relay)"
      by (simp_all add: client_handshake_def)
    then show ?thesis using same by (simp add: client_refused_def)
  next
    case claims: (Inr claims)
    obtain uses consumed where use: "hn_GrantUses handler (clk 1) (clk 2) (dc_GrantID claims) (time_Unix (dc_ExpiresAt claims)) (rl_uses relay) =
        (uses, consumed)" by (cases "hn_GrantUses handler (clk 1) (clk 2) (dc_GrantID claims) (time_Unix (dc_ExpiresAt claims)) (rl_uses relay)")
    define used where "used = relay\<lparr>rl_uses := uses\<rparr>"
    have used: "rl_world used = rl_world relay" by (simp add: used_def)
    show ?thesis
    proof (cases "consumed = Inr True")
      case False
      with result claims use have "rl_world relay' = rl_world relay" "\<forall>claims. res \<noteq> ServeClient claims" "res \<noteq> ServeDevice"
        by (auto simp: client_handshake_def client_refused_def split: sum.splits bool.splits)
      then show ?thesis using same by blast
    next
      case consumed: True
      show ?thesis
      proof (cases "newV2Carrier (clk 3) (ce_CarrierId first) (ce_CarrierEpoch first) v2CarrierClient (dc_ClientID claims)
          (dc_DeviceID claims) (hn_QueueLimits handler)")
        case (Inl e)
        with result claims use consumed have "rl_world relay' = rl_world relay" "\<forall>claims. res \<noteq> ServeClient claims" "res \<noteq> ServeDevice"
          by (auto simp: client_handshake_def client_refused_def)
        then show ?thesis using same by blast
      next
        case new: (Inr c)
        note i = newV2Carrier_ident [OF new]
        let ?w0 = "rl_world (set_carrier ref c used)"
        obtain w x where attach: "attachClient ref ?w0 = (w, x)" by (cases "attachClient ref ?w0")
        have s0: "sound {} {ref} ?w0 w" using attach_client_sound [of ?w0 ref] i attach by simp
        note carrier = shaken_carrier [of used ref c, unfolded used, OF ok fresh]
        show ?thesis
        proof (cases x)
          case (Some e)
          have r: "relay' = fst (client_refused frameSize (set_world w used))" "res = snd (client_refused frameSize (set_world w used))"
            using result claims use consumed new attach Some by (simp_all add: client_handshake_def used_def)
          have "ref \<notin> attached w" using attach_client_refused [of ref ?w0 w e] attach Some fresh used by (simp add: attached_def)
          with carrier(1) [OF s0] r show ?thesis by (simp add: client_refused_def)
        next
          case None
          then have r: "client_attached L handler clk ref first frameSize claims (set_world w used) = (relay', res)"
            using result claims use consumed new attach by (simp add: client_handshake_def used_def)
          have s: "sound {} {ref} ?w0 (rl_world relay')"
            using sound_trans [OF s0] client_attached_outcome(1) [OF r time] by (auto simp: sound_def adds_mono)
          have "hub_ok w" using s0 fresh_carrier [of used ref c] ok fresh used by (simp add: sound_def)
          with client_attached_outcome(2) [OF r time] carrier [OF s] claims i(1) show ?thesis by auto
        qed
      qed
    qed
  qed
qed

lemma accept_carrier_ident: "acceptIncoming now e c = (c', x) \<Longrightarrow> ident c' = ident c"
  using accept_ident [of now e c] by simp

lemma ident_vc_id: "ident c = (i, epoch, role, clientID, deviceID) \<Longrightarrow> vc_id c = i"
  by (simp add: ident_def)

lemma device_handshake_outcome:
  assumes result: "device_handshake L handler authenticator clk ref first hello frameSize relay = (relay', res)"
    and ok: "hub_ok (rl_world relay)" and fresh: "ref \<notin> attached (rl_world relay)"
  shows "(\<exists>who. res = ServeDevice \<and> authenticator first hello (clk 0) = Inr who \<and> dp_DeviceID who = ch_DeviceId hello \<and>
      dp_ConnectionEpoch who = ce_CarrierEpoch first \<and>
      shaken ref (rl_world relay) (rl_world relay')
        (Some (ce_CarrierId first, ce_CarrierEpoch first, v2CarrierDevice, [], dp_DeviceID who))) \<or>
    (\<forall>claims. res \<noteq> ServeClient claims) \<and> res \<noteq> ServeDevice \<and> shaken ref (rl_world relay) (rl_world relay') None"
    (is "?served \<or> ?refused")
proof -
  have same: ?refused if "rl_world relay' = rl_world relay" "\<forall>claims. res \<noteq> ServeClient claims" "res \<noteq> ServeDevice"
    using that ok fresh by (auto intro: shaken_refused simp: others_def)
  let ?new = "\<lambda>who. newV2Carrier (clk 1) (ce_CarrierId first) (ce_CarrierEpoch first) v2CarrierDevice [] (dp_DeviceID who) (hn_QueueLimits handler)"
  note def = device_handshake_def
  consider (denied) e where "authenticator first hello (clk 0) = Inl e"
    | (wrong) who where "authenticator first hello (clk 0) = Inr who" "principal_refused first hello who"
    | (failed) who e where "authenticator first hello (clk 0) = Inr who" "\<not> principal_refused first hello who" "?new who = Inl e"
    | (partial) who c where "authenticator first hello (clk 0) = Inr who" "\<not> principal_refused first hello who" "?new who = Inr c" "principal_incomplete who"
    | (created) who c where "authenticator first hello (clk 0) = Inr who" "\<not> principal_refused first hello who" "?new who = Inr c" "\<not> principal_incomplete who"
    by (metis sum.exhaust)
  then show ?thesis
  proof cases
    case denied
    with result show ?thesis using same by (auto simp: def device_failed_def)
  next
    case wrong
    with result show ?thesis using same by (auto simp: def device_failed_def)
  next
    case failed
    with result show ?thesis using same by (auto simp: def device_failed_def Let_def)
  next
    case partial
    with result show ?thesis using same by (auto simp: def device_failed_def Let_def)
  next
    case (created who c)
    obtain c' x where accept: "acceptIncoming (clk 2) first c = (c', x)" by (cases "acceptIncoming (clk 2) first c")
    have i: "ident c' = (ce_CarrierId first, ce_CarrierEpoch first, v2CarrierDevice, [], dp_DeviceID who)" "ce_CarrierId first \<noteq> []"
      using newV2Carrier_ident [OF created(3)] accept_carrier_ident [OF accept] by simp_all
    let ?relay = "set_carrier ref c' relay"
    note carrier = shaken_carrier [of relay ref c', OF ok fresh]
    show ?thesis
    proof (cases x)
      case (Some e)
      then have r: "relay' = set_world (close_ref ref (rl_world ?relay)) (device_failed ''packet_sequence_invalid'' frameSize ?relay)"
          "res = CloseNow"
        using result created accept by (simp_all add: def Let_def device_failed_def)
      have "sound {} {ref} (rl_world ?relay) (close_ref ref (rl_world ?relay))" by (rule sound_hub) simp_all
      from carrier(1) [OF this] fresh r show ?thesis by (simp add: attached_def)
    next
      case None
      let ?publish = "Some (sendReady L handler)" and ?route = "principal_route handler first who"
      obtain w y where attach: "attachDeviceBeforePublish (lb_size L) (lb_order L) (clk 3) ref ?route ?publish (rl_world ?relay) = (w, y)"
        by (cases "attachDeviceBeforePublish (lb_size L) (lb_order L) (clk 3) ref ?route ?publish (rl_world ?relay)")
      have name: "vc_id (w_heap (rl_world ?relay) ref) \<noteq> []" using ident_vc_id [OF i(1)] i(2) by simp
      have s: "sound {} {ref} (rl_world ?relay) w"
        using hub_ok_attach_device [OF _ name, of ?publish "lb_size L" "lb_order L" "clk 3" ?route]
          adds_attach_device [of ?publish "sendReady L handler" "{}" ref "rl_world ?relay" "lb_size L" "lb_order L" "clk 3" ?route] attach
        by (simp add: sound_def)
      show ?thesis
      proof (cases y)
        case (Some e)
        have r: "relay' = device_failed ''device_route_failed'' frameSize (set_world (close_ref ref w) ?relay)"
            "res = CloseTryAgainLater ''remote/v2 device route unavailable''"
          using result created accept None attach Some by (simp_all add: def Let_def)
        have "sound {} {ref} (rl_world ?relay) (close_ref ref w)" by (rule sound_trans [OF s]) (rule sound_hub; simp)
        moreover have "ref \<notin> attached w"
          using attach Some fresh attach_device_error [of "lb_size L" "lb_order L" "clk 3" ref ?route ?publish "rl_world ?relay" w e]
          by (auto simp: attached_def)
        ultimately show ?thesis using carrier(1) r by (simp add: attached_def device_failed_def)
      next
        case None
        then have r: "relay' = watched handler (clk 4) ref (set_world w ?relay)" "res = ServeDevice"
          using result created accept \<open>x = None\<close> attach by (simp_all add: def Let_def)
        have "sound {} {ref} (rl_world ?relay) (rl_world relay')"
          unfolding r using sound_trans [OF s] watched_sound [of "{}" "{ref}" "set_world w ?relay" handler "clk 4" ref] by simp
        from carrier(2) [OF this] i created r show ?thesis by (auto simp: principal_refused_def)
      qed
    qed
  qed
qed

lemma hub_call_sound:
  "sound {(dc_ClientID claims, dc_DeviceID claims)} R w (fst (routeClientLink ps ord now r claims link w))"
  "sound A R w (fst (resumeClient ps ord now later r claims resume w))" "sound A R w (fst (routeDeviceLink ps ord now r link w))"
  "sound A R w (fst (resumeDevice ps ord now r resume w))" "sound A R w (fst (routeStreamRejected ps r rejected w))"
  "sound A R w (dropLinkFromCarrier r k w)" "sound A R w (fst (reject_on ps r i j k x w))"
  using hub_ok_route_client adds_route_client hub_ok_resume_client adds_resume_client hub_ok_route_device adds_route_device
    hub_ok_resume_device adds_resume_device hub_ok_route_rejected adds_rejected hub_ok_drop_from
  by (auto simp: sound_def)

lemma link_failed_sound: "sound A R (rl_world relay) (rl_world (link_failed L role r link n err relay))"
proof -
  obtain i j k where m: "v2LinkMetadata link = (i, j, k)" by (cases "v2LinkMetadata link")
  have "sound A R w (fst (on_carrier r (rejectStream (lb_size L) i j k) (dropLinkFromCarrier r i w)))" for w
    by (rule sound_trans [OF hub_call_sound(6) on_carrier_sound]) simp
  then show ?thesis using hub_call_sound(6) by (simp add: link_failed_def m Let_def)
qed

lemma resume_failed_sound: "sound A R (rl_world relay) (rl_world (resume_failed L role r resume n err relay))"
  using hub_call_sound(7) by (simp add: resume_failed_def Let_def)

lemma rejected_round_sound: "sound A R (rl_world relay) (rl_world (rejected_round L role r rejected n relay))"
  using hub_call_sound(5) [of A R "rl_world relay" "lb_size L" r rejected]
  by (auto simp: rejected_round_def split: prod.split option.split)

lemma rejection_world [simp]: "rl_world (fst (persistentGrantRejection handler clk claims relay)) = rl_world relay"
  by (simp add: persistentGrantRejection_def split: prod.split sum.split)

lemma client_link_sound:
  "sound {(dc_ClientID claims, dc_DeviceID claims)} R (rl_world relay) (rl_world (client_link_round L handler clk r claims link n relay))"
proof -
  let ?A = "{(dc_ClientID claims, dc_DeviceID claims)}"
  define checked where "checked = (if GetLinkInit link \<noteq> None \<and> Persistent claims then persistentGrantRejection handler clk claims relay
    else (relay, ERROR_UNSPECIFIED))"
  obtain relay1 reason where c: "checked = (relay1, reason)" by (cases checked)
  have world: "rl_world relay1 = rl_world relay"
  proof -
    have "rl_world (fst checked) = rl_world relay" by (simp add: checked_def)
    with c show ?thesis by simp
  qed
  obtain i j k where m: "v2LinkMetadata link = (i, j, k)" by (cases "v2LinkMetadata link")
  obtain w x where route: "routeClientLink (lb_size L) (lb_order L) (clk 3) r claims link (rl_world relay) = (w, x)"
    by (cases "routeClientLink (lb_size L) (lb_order L) (clk 3) r claims link (rl_world relay)")
  have s: "sound ?A R (rl_world relay) w"
    using hub_call_sound(1) [of claims R "rl_world relay" "lb_size L" "lb_order L" "clk 3" r link] route by simp
  have failed: "sound ?A R (rl_world relay) (rl_world (link_failed L role r link n err (set_world w relay1)))" for role err
    using sound_trans [OF s] link_failed_sound [of ?A R "set_world w relay1"] by simp
  have "client_link_round L handler clk r claims link n relay =
      (if reason \<noteq> ERROR_UNSPECIFIED
       then (if i \<noteq> [] then set_world (fst (reject_on (lb_size L) r i [] [] reason (rl_world relay))) relay1 else relay1)
       else (case x of None \<Rightarrow> set_world w relay1 | Some err \<Rightarrow> link_failed L ''client'' r link n err (set_world w relay1)))"
    unfolding client_link_round_def checked_def [symmetric] c prod.case m world route
    by (cases x) simp_all
  then show ?thesis using s failed hub_call_sound(7) by (simp add: world split: option.split)
qed

lemma send_pong_sound: "sound A R (rl_world relay) (rl_world (fst (send_pong L r millis relay)))"
  using on_carrier_sound [of "enqueueEnvelope (lb_size L) (body_envelope (Body_Pong millis)) v2PriorityControl"]
  by (simp add: send_pong_def split_beta)

lemma frame_invalid_world [simp]: "rl_world (fst (frame_invalid role n relay)) = rl_world relay"
  by (simp add: frame_invalid_def)

lemma client_round_sound:
  "sound {(dc_ClientID claims, dc_DeviceID claims)} R (rl_world relay) (rl_world (fst (serve_client_round L handler clk r claims message relay)))"
proof -
  let ?A = "{(dc_ClientID claims, dc_DeviceID claims)}"
  obtain envelope n where msg: "message = (envelope, n)" by (cases message)
  show ?thesis
  proof (cases envelope)
    case (Some e)
    obtain c x where accept: "acceptIncoming (clk 0) e (w_heap (rl_world relay) r) = (c, x)"
      by (cases "acceptIncoming (clk 0) e (w_heap (rl_world relay) r)")
    define relay1 where "relay1 = set_carrier r c relay"
    have s: "sound ?A R (rl_world relay) (rl_world relay1)"
      unfolding relay1_def by (rule set_carrier_sound) (rule accept_carrier_ident [OF accept])
    note go = sound_trans [OF s]
    have resumed: "sound ?A R (rl_world relay) (rl_world (fst (case resumeClient (lb_size L) (lb_order L) (clk 3) (clk 4) r claims resume
        (rl_world relay1) of (w, None) \<Rightarrow> (set_world w relay1, True)
      | (w, Some err) \<Rightarrow> (resume_failed L ''client'' r resume n err (set_world w relay1), True))))" for resume
    proof -
      obtain w y where res: "resumeClient (lb_size L) (lb_order L) (clk 3) (clk 4) r claims resume (rl_world relay1) = (w, y)"
        by (cases "resumeClient (lb_size L) (lb_order L) (clk 3) (clk 4) r claims resume (rl_world relay1)")
      have sw: "sound ?A R (rl_world relay) w"
        using go hub_call_sound(2) [of ?A R "rl_world relay1" "lb_size L" "lb_order L" "clk 3" "clk 4" r claims resume] res by simp
      then show ?thesis
        using sound_trans [OF sw] resume_failed_sound [of ?A R "set_world w relay1"] by (simp add: res split: option.split)
    qed
    show ?thesis
      unfolding serve_client_round_def msg prod.case Some option.case accept Let_def relay1_def [symmetric]
      using s resumed go send_pong_sound [of ?A R relay1] client_link_sound [of claims R relay1] rejected_round_sound [of ?A R relay1]
      by (cases x; cases "ce_Body e") (simp_all split: CarrierBody.split)
  qed (simp add: serve_client_round_def msg)
qed

lemma device_round_sound: "sound A R (rl_world relay) (rl_world (fst (serve_device_round L clk r message relay)))"
proof -
  obtain envelope n where msg: "message = (envelope, n)" by (cases message)
  show ?thesis
  proof (cases envelope)
    case (Some e)
    obtain c x where accept: "acceptIncoming (clk 0) e (w_heap (rl_world relay) r) = (c, x)"
      by (cases "acceptIncoming (clk 0) e (w_heap (rl_world relay) r)")
    define relay1 where "relay1 = set_carrier r c relay"
    have s: "sound A R (rl_world relay) (rl_world relay1)"
      unfolding relay1_def by (rule set_carrier_sound) (rule accept_carrier_ident [OF accept])
    note go = sound_trans [OF s]
    have resumed: "sound A R (rl_world relay) (rl_world (fst (case resumeDevice (lb_size L) (lb_order L) (clk 3) r resume
        (rl_world relay1) of (w, None) \<Rightarrow> (set_world w relay1, True)
      | (w, Some err) \<Rightarrow> (resume_failed L ''device'' r resume n err (set_world w relay1), True))))" for resume
    proof -
      obtain w y where res: "resumeDevice (lb_size L) (lb_order L) (clk 3) r resume (rl_world relay1) = (w, y)"
        by (cases "resumeDevice (lb_size L) (lb_order L) (clk 3) r resume (rl_world relay1)")
      have sw: "sound A R (rl_world relay) w"
        using go hub_call_sound(4) [of A R "rl_world relay1" "lb_size L" "lb_order L" "clk 3" r resume] res by simp
      then show ?thesis
        using sound_trans [OF sw] resume_failed_sound [of A R "set_world w relay1"] by (simp add: res split: option.split)
    qed
    have routed: "sound A R (rl_world relay) (rl_world (fst (case routeDeviceLink (lb_size L) (lb_order L) (clk 3) r link
        (rl_world relay1) of (w, None) \<Rightarrow> (set_world w relay1, True)
      | (w, Some err) \<Rightarrow> (link_failed L ''device'' r link n err (set_world w relay1), True))))" for link
    proof -
      obtain w y where res: "routeDeviceLink (lb_size L) (lb_order L) (clk 3) r link (rl_world relay1) = (w, y)"
        by (cases "routeDeviceLink (lb_size L) (lb_order L) (clk 3) r link (rl_world relay1)")
      have sw: "sound A R (rl_world relay) w"
        using go hub_call_sound(3) [of A R "rl_world relay1" "lb_size L" "lb_order L" "clk 3" r link] res by simp
      then show ?thesis
        using sound_trans [OF sw] link_failed_sound [of A R "set_world w relay1"] by (simp add: res split: option.split)
    qed
    show ?thesis
      unfolding serve_device_round_def msg prod.case Some option.case accept Let_def relay1_def [symmetric]
      using s resumed routed go send_pong_sound [of A R relay1] rejected_round_sound [of A R relay1]
      by (cases x; cases "ce_Body e") (simp_all split: CarrierBody.split)
  qed (simp add: serve_device_round_def msg)
qed

subsection \<open>The relay and its connections\<close>

text \<open>
  A running relay: the shared state, the connections being served with the
  claims of the clients among them, a counter of references, and the first
  messages of all connections so far, each with the time it was handled at.
\<close>

record 's system =
  sy_relay :: "'s relay"
  sy_next :: carrier_ref
  sy_clients :: "(carrier_ref, DeviceLinkGrantClaims) fmap"
  sy_devices :: "carrier_ref fset"
  sy_hellos :: "(carrier_ref \<times> instant \<times> CarrierEnvelope) list"

definition set_relay :: "'s relay \<Rightarrow> 's system \<Rightarrow> 's system" where
  "set_relay relay s = s\<lparr>sy_relay := relay\<rparr>"

text \<open>At the start no carrier is attached; \<open>heap\<close> is what the references hold by then.\<close>

definition new_system :: "(carrier_ref \<Rightarrow> v2Carrier) \<Rightarrow> V2QueueBudget option \<Rightarrow> 's \<Rightarrow> 's system" where
  "new_system heap budget uses =
     \<lparr>sy_relay = \<lparr>rl_world = \<lparr>w_hub = NewV2Hub, w_heap = heap, w_budget = budget\<rparr>, rl_uses = uses, rl_failures = []\<rparr>,
      sy_next = 0, sy_clients = fmempty, sy_devices = {||}, sy_hellos = []\<rparr>"

text \<open>
  The steps: a connection with its first message, a round of a serving loop
  that goes on or ends it, the critical section of a client's frame on its own
  (what follows it is outside the mutex, so other steps may come in between),
  a link given up afterwards, what the carriers' own loops do, what the runtime
  asks of the hub, and any change of the store of used grants, which relays
  share. No clock shows an instant before the zero of \<open>time.Time\<close>.
\<close>

inductive relay_step :: "libraries \<Rightarrow> 's V2Handler \<Rightarrow> device_authenticator \<Rightarrow> 's system \<Rightarrow> 's system \<Rightarrow> bool"
  for L handler authenticator where
  connect: "\<forall>n. 0 \<le> clk n \<Longrightarrow>
    handshake L handler authenticator clk (sy_next s) negotiated message (sy_relay s) = (relay, res) \<Longrightarrow>
    relay_step L handler authenticator s
      \<lparr>sy_relay = relay, sy_next = Suc (sy_next s),
       sy_clients = (case res of ServeClient claims \<Rightarrow> fmupd (sy_next s) claims (sy_clients s) | _ \<Rightarrow> sy_clients s),
       sy_devices = (if res = ServeDevice then finsert (sy_next s) (sy_devices s) else sy_devices s),
       sy_hellos = (case fst message of None \<Rightarrow> sy_hellos s | Some first \<Rightarrow> (sy_next s, clk 0, first) # sy_hellos s)\<rparr>"
| client_round: "fmlookup (sy_clients s) r = Some claims \<Longrightarrow>
    serve_client_round L handler clk r claims message (sy_relay s) = (relay, True) \<Longrightarrow>
    relay_step L handler authenticator s (set_relay relay s)"
| client_end: "fmlookup (sy_clients s) r = Some claims \<Longrightarrow> \<forall>n. 0 \<le> clk n \<Longrightarrow>
    serve_client_round L handler clk r claims message (sy_relay s) = (relay, False) \<Longrightarrow>
    relay_step L handler authenticator s
      ((set_relay (end_carrier L (\<lambda>n. clk (5 + n)) r relay) s)\<lparr>sy_clients := fmdrop r (sy_clients s)\<rparr>)"
| device_round: "r |\<in>| sy_devices s \<Longrightarrow>
    serve_device_round L clk r message (sy_relay s) = (relay, True) \<Longrightarrow>
    relay_step L handler authenticator s (set_relay relay s)"
| device_end: "r |\<in>| sy_devices s \<Longrightarrow> \<forall>n. 0 \<le> clk n \<Longrightarrow>
    serve_device_round L clk r message (sy_relay s) = (relay, False) \<Longrightarrow>
    relay_step L handler authenticator s
      ((set_relay (end_carrier L (\<lambda>n. clk (5 + n)) r relay) s)\<lparr>sy_devices := sy_devices s |-| {|r|}\<rparr>)"
| client_section: "fmlookup (sy_clients s) r = Some claims \<Longrightarrow> k \<noteq> [] \<Longrightarrow>
    relay_step L handler authenticator s (set_relay (set_world
      (fst (client_locked (lb_order L) r claims link k (pruneExpiredLocked (lb_size L) (lb_order L) now (rl_world (sy_relay s)))))
      (sy_relay s)) s)"
| give_up: "relay_step L handler authenticator s (set_relay (set_world (dropLink k (rl_world (sy_relay s))) (sy_relay s)) s)"
| carrier_loop: "relay_step L handler authenticator s (set_relay (set_world
      (fst (on_carrier r (write_step marshal now written) (rl_world (sy_relay s)))) (sy_relay s)) s)"
| carrier_watchdog: "relay_step L handler authenticator s (set_relay (set_world
      (fst (on_carrier r (watchdog_tick (lb_size L) now) (rl_world (sy_relay s)))) (sy_relay s)) s)"
| reject_resident: "0 \<le> now \<Longrightarrow> relay_step L handler authenticator s (set_relay (set_world
      (fst (RejectResident (lb_size L) (lb_order L) now d i epoch (rl_world (sy_relay s)))) (sy_relay s)) s)"
| close_all: "relay_step L handler authenticator s
      (set_relay (set_world (CloseAll (lb_order L) (rl_world (sy_relay s))) (sy_relay s)) s)"
| store: "relay_step L handler authenticator s (set_relay ((sy_relay s)\<lparr>rl_uses := uses\<rparr>) s)"

text \<open>
  Who a reference is, judged by the first message of its connection: a client
  whose grant verifies, is addressed to this relay and names the client, and
  who signed this carrier, its epoch and the challenge with the key the grant
  names; or a device the authenticator vouches for.
\<close>

definition grant_holder ::
  "libraries \<Rightarrow> 's V2Handler \<Rightarrow> CarrierEnvelope \<Rightarrow> CarrierHello \<Rightarrow> instant \<Rightarrow> DeviceLinkGrantClaims \<Rightarrow> bool" where
  "grant_holder L handler first hello now claims \<longleftrightarrow>
     Grant_Verify (lb_crypto L) (lb_json L) (hn_ClientGrantVerifier handler) (ch_Grant hello) now = Inr claims \<and>
     dc_RelayNodeID claims = hn_NodeID handler \<and> dc_RelayCellID claims = hn_CellID handler \<and>
     dc_GrantID claims = ch_GrantId hello \<and> dc_ClientID claims = ch_ClientId hello \<and>
     dc_ClientIdentityKeyVersion claims = ch_ClientIdentityKeyVersion hello \<and>
     (\<exists>key. dc_ClientIdentityKey claims = EncodeToString key \<and> dc_ClientKeyThumbprint claims = PublicKeyThumbprint (lb_crypto L) key \<and>
        ed25519_verify (lb_crypto L) key (canonicalCarrierProof \<lparr>cp_GrantID = ch_GrantId hello, cp_CarrierID = ce_CarrierId first,
          cp_CarrierEpoch = ce_CarrierEpoch first, cp_Challenge = ch_ClientChallenge hello\<rparr>) (ch_ClientProof hello))"

lemma authenticateClient_holder:
  assumes "authenticateClient L handler first hello now = Inr claims"
  shows "grant_holder L handler first hello now claims"
proof -
  obtain key where "DecodeIdentityPublicKey (lb_crypto L) (dc_ClientIdentityKey claims) (dc_ClientKeyThumbprint claims) = Inr key"
      "VerifyCarrierProof (lb_crypto L) key \<lparr>cp_GrantID = dc_GrantID claims, cp_CarrierID = ce_CarrierId first,
        cp_CarrierEpoch = ce_CarrierEpoch first, cp_Challenge = ch_ClientChallenge hello\<rparr> (ch_ClientProof hello) = None"
    using assms by (auto simp: authenticateClient_def split: sum.splits if_splits)
  moreover have "Grant_Verify (lb_crypto L) (lb_json L) (hn_ClientGrantVerifier handler) (ch_Grant hello) now = Inr claims \<and>
      dc_RelayNodeID claims = hn_NodeID handler \<and> dc_RelayCellID claims = hn_CellID handler \<and>
      dc_GrantID claims = ch_GrantId hello \<and> dc_ClientID claims = ch_ClientId hello \<and>
      dc_ClientIdentityKeyVersion claims = ch_ClientIdentityKeyVersion hello"
    using assms by (auto simp: authenticateClient_def split: sum.splits if_splits)
  ultimately show ?thesis
    unfolding DecodeIdentityPublicKey_iff by (auto simp: grant_holder_def VerifyCarrierProof_def split: if_splits)
qed

definition hello_of_client ::
  "libraries \<Rightarrow> 's V2Handler \<Rightarrow> (carrier_ref \<times> instant \<times> CarrierEnvelope) list \<Rightarrow> carrier_ref \<Rightarrow> DeviceLinkGrantClaims \<Rightarrow> CarrierEnvelope \<Rightarrow> bool" where
  "hello_of_client L handler hellos r claims first \<longleftrightarrow>
     (\<exists>now hello. (r, now, first) \<in> set hellos \<and> GetHello first = Some hello \<and>
        grant_holder L handler first hello now claims)"

definition hello_of_device ::
  "device_authenticator \<Rightarrow> (carrier_ref \<times> instant \<times> CarrierEnvelope) list \<Rightarrow> carrier_ref \<Rightarrow> V2DevicePrincipal \<Rightarrow> CarrierEnvelope \<Rightarrow> bool" where
  "hello_of_device authenticator hellos r who first \<longleftrightarrow>
     (\<exists>now hello. (r, now, first) \<in> set hellos \<and> GetHello first = Some hello \<and> authenticator first hello now = Inr who \<and>
        dp_DeviceID who = ch_DeviceId hello \<and> dp_ConnectionEpoch who = ce_CarrierEpoch first)"

definition client_carrier ::
  "libraries \<Rightarrow> 's V2Handler \<Rightarrow> 's system \<Rightarrow> carrier_ref \<Rightarrow> DeviceLinkGrantClaims \<Rightarrow> bool" where
  "client_carrier L handler s r claims \<longleftrightarrow> r < sy_next s \<and>
     (\<exists>first. hello_of_client L handler (sy_hellos s) r claims first \<and>
        idents (rl_world (sy_relay s)) r =
          (ce_CarrierId first, ce_CarrierEpoch first, v2CarrierClient, dc_ClientID claims, dc_DeviceID claims))"

definition device_served :: "device_authenticator \<Rightarrow> 's system \<Rightarrow> carrier_ref \<Rightarrow> bool" where
  "device_served authenticator s r \<longleftrightarrow> r < sy_next s \<and>
     (\<exists>who first. hello_of_device authenticator (sy_hellos s) r who first \<and>
        idents (rl_world (sy_relay s)) r = (ce_CarrierId first, ce_CarrierEpoch first, v2CarrierDevice, [], dp_DeviceID who))"

definition granted :: "libraries \<Rightarrow> 's V2Handler \<Rightarrow> 's system \<Rightarrow> string \<times> string \<Rightarrow> bool" where
  "granted L handler s p \<longleftrightarrow>
     (\<exists>r claims first. hello_of_client L handler (sy_hellos s) r claims first \<and> p = (dc_ClientID claims, dc_DeviceID claims))"

definition system_ok :: "libraries \<Rightarrow> 's V2Handler \<Rightarrow> device_authenticator \<Rightarrow> 's system \<Rightarrow> bool" where
  "system_ok L handler authenticator s \<longleftrightarrow>
     hub_ok (rl_world (sy_relay s)) \<and>
     (\<forall>r claims. fmlookup (sy_clients s) r = Some claims \<longrightarrow> client_carrier L handler s r claims) \<and>
     (\<forall>r. r |\<in>| sy_devices s \<longrightarrow> device_served authenticator s r) \<and>
     (\<forall>r\<in>attached (rl_world (sy_relay s)). r |\<in>| fmdom (sy_clients s) \<or> r |\<in>| sy_devices s) \<and>
     (\<forall>p\<in>link_pairs (rl_world (sy_relay s)). granted L handler s p)"

text \<open>A step that changes the shared state only.\<close>

lemma system_ok_world:
  assumes ok: "system_ok L handler authenticator s" and s': "s' = set_relay relay s"
    and w: "sound A {} (rl_world (sy_relay s)) (rl_world relay)" and A: "\<forall>p\<in>A. granted L handler s p"
  shows "system_ok L handler authenticator s'"
proof -
  have a: "hub_ok (rl_world relay)" "adds A {} (rl_world (sy_relay s)) (rl_world relay)"
    using ok w by (auto simp: system_ok_def sound_def)
  then have same: "client_carrier L handler s' = client_carrier L handler s" "device_served authenticator s' = device_served authenticator s"
      "granted L handler s' = granted L handler s"
    by (auto simp: s' set_relay_def client_carrier_def device_served_def granted_def adds_def fun_eq_iff)
  have fields: "sy_relay s' = relay" "sy_clients s' = sy_clients s" "sy_devices s' = sy_devices s" by (simp_all add: s' set_relay_def)
  show ?thesis
    using ok a A unfolding system_ok_def same fields by (auto simp: adds_def)
qed

lemma system_ok_end:
  assumes ok: "system_ok L handler authenticator s" and r: "r \<notin> attached (rl_world (sy_relay s))"
  shows "system_ok L handler authenticator (s\<lparr>sy_clients := fmdrop r (sy_clients s)\<rparr>)"
    and "system_ok L handler authenticator (s\<lparr>sy_devices := sy_devices s |-| {|r|}\<rparr>)"
proof -
  have same: "client_carrier L handler (s\<lparr>sy_clients := c\<rparr>) = client_carrier L handler s"
    "client_carrier L handler (s\<lparr>sy_devices := d\<rparr>) = client_carrier L handler s"
    "device_served authenticator (s\<lparr>sy_clients := c\<rparr>) = device_served authenticator s"
    "device_served authenticator (s\<lparr>sy_devices := d\<rparr>) = device_served authenticator s"
    "granted L handler (s\<lparr>sy_clients := c\<rparr>) = granted L handler s"
    "granted L handler (s\<lparr>sy_devices := d\<rparr>) = granted L handler s" for c d
    by (auto simp: client_carrier_def device_served_def granted_def fun_eq_iff)
  show "system_ok L handler authenticator (s\<lparr>sy_clients := fmdrop r (sy_clients s)\<rparr>)"
    and "system_ok L handler authenticator (s\<lparr>sy_devices := sy_devices s |-| {|r|}\<rparr>)"
    using ok r unfolding system_ok_def same by auto
qed

lemma handshake_outcome:
  assumes result: "handshake L handler authenticator clk r negotiated message relay = (relay', res)"
    and ok: "hub_ok (rl_world relay)" and fresh: "r \<notin> attached (rl_world relay)" and time: "\<forall>n. 0 \<le> clk n"
  obtains (client) claims first hello where "res = ServeClient claims" "fst message = Some first" "GetHello first = Some hello"
      "authenticateClient L handler first hello (clk 0) = Inr claims"
      "shaken r (rl_world relay) (rl_world relay')
        (Some (ce_CarrierId first, ce_CarrierEpoch first, v2CarrierClient, dc_ClientID claims, dc_DeviceID claims))"
  | (device) who first hello where "res = ServeDevice" "fst message = Some first" "GetHello first = Some hello"
      "authenticator first hello (clk 0) = Inr who" "dp_DeviceID who = ch_DeviceId hello" "dp_ConnectionEpoch who = ce_CarrierEpoch first"
      "shaken r (rl_world relay) (rl_world relay')
        (Some (ce_CarrierId first, ce_CarrierEpoch first, v2CarrierDevice, [], dp_DeviceID who))"
  | (neither) "\<forall>claims. res \<noteq> ServeClient claims" "res \<noteq> ServeDevice" "shaken r (rl_world relay) (rl_world relay') None"
proof -
  obtain envelope n where msg: "message = (envelope, n)" by (cases message)
  have same: "shaken r (rl_world relay) (rl_world relay') None" if "rl_world relay' = rl_world relay"
    using that ok fresh by (auto intro: shaken_refused simp: others_def)
  consider (plain) "rl_world relay' = rl_world relay" "\<forall>claims. res \<noteq> ServeClient claims" "res \<noteq> ServeDevice"
    | (client) first hello where "envelope = Some first" "GetHello first = Some hello"
        "client_handshake L handler clk r first hello n relay = (relay', res)"
    | (device) first hello where "envelope = Some first" "GetHello first = Some hello"
        "device_handshake L handler authenticator clk r first hello n relay = (relay', res)"
    using result unfolding handshake_def msg
    by (cases negotiated; cases envelope; cases "GetHello (the envelope)")
      (auto split: if_splits)
  then show thesis
  proof cases
    case plain
    then show thesis using same neither by blast
  next
    case c: (client first hello)
    from client_handshake_outcome [OF c(3) ok fresh time] show thesis
    proof (elim disjE exE conjE)
      fix claims
      assume "res = ServeClient claims" "authenticateClient L handler first hello (clk 0) = Inr claims"
        "shaken r (rl_world relay) (rl_world relay')
          (Some (ce_CarrierId first, ce_CarrierEpoch first, v2CarrierClient, dc_ClientID claims, dc_DeviceID claims))"
      then show thesis using client [of claims first hello] c msg by simp
    qed (rule neither)
  next
    case d: (device first hello)
    from device_handshake_outcome [OF d(3) ok fresh] show thesis
    proof (elim disjE exE conjE)
      fix who
      assume "res = ServeDevice" "authenticator first hello (clk 0) = Inr who" "dp_DeviceID who = ch_DeviceId hello"
        "dp_ConnectionEpoch who = ce_CarrierEpoch first" "shaken r (rl_world relay) (rl_world relay')
          (Some (ce_CarrierId first, ce_CarrierEpoch first, v2CarrierDevice, [], dp_DeviceID who))"
      then show thesis using device [of first hello who] d msg by simp
    qed (rule neither)
  qed
qed

lemma unattached_next: "system_ok L handler authenticator s \<Longrightarrow> sy_next s \<notin> attached (rl_world (sy_relay s))"
  by (fastforce simp: system_ok_def client_carrier_def device_served_def fmlookup_dom_iff)

lemma system_ok_connect:
  assumes ok: "system_ok L handler authenticator s" and time: "\<forall>n. 0 \<le> clk n"
    and result: "handshake L handler authenticator clk (sy_next s) negotiated message (sy_relay s) = (relay, res)"
  shows "system_ok L handler authenticator \<lparr>sy_relay = relay, sy_next = Suc (sy_next s),
       sy_clients = (case res of ServeClient claims \<Rightarrow> fmupd (sy_next s) claims (sy_clients s) | _ \<Rightarrow> sy_clients s),
       sy_devices = (if res = ServeDevice then finsert (sy_next s) (sy_devices s) else sy_devices s),
       sy_hellos = (case fst message of None \<Rightarrow> sy_hellos s | Some first \<Rightarrow> (sy_next s, clk 0, first) # sy_hellos s)\<rparr>"
    (is "system_ok L handler authenticator ?s")
proof -
  let ?w = "rl_world (sy_relay s)" and ?w' = "rl_world relay"
  have hub: "hub_ok ?w" using ok by (simp add: system_ok_def)
  have more: "set (sy_hellos s) \<subseteq> set (sy_hellos ?s)" by (auto split: option.split)
  have "hello_of_client L handler (sy_hellos ?s) r claims first" if "hello_of_client L handler (sy_hellos s) r claims first" for r claims first
    using that more unfolding hello_of_client_def by blast
  moreover have "hello_of_device authenticator (sy_hellos ?s) r who first" if "hello_of_device authenticator (sy_hellos s) r who first" for r who first
    using that more unfolding hello_of_device_def by blast
  moreover have new: "\<exists>who. shaken (sy_next s) ?w ?w' who"
    by (rule handshake_outcome [OF result hub unattached_next [OF ok] time]) blast+
  ultimately have old: "client_carrier L handler s r claims \<Longrightarrow> client_carrier L handler ?s r claims"
    "device_served authenticator s r \<Longrightarrow> device_served authenticator ?s r" "granted L handler s p \<Longrightarrow> granted L handler ?s p" for r claims p
    by (auto simp: client_carrier_def device_served_def granted_def shaken_def others_def less_Suc_eq) metis+
  show ?thesis
  proof (rule handshake_outcome [OF result hub unattached_next [OF ok] time], goal_cases)
    case client: (1 claims first hello)
    then have "client_carrier L handler ?s (sy_next s) claims"
      using authenticateClient_holder by (fastforce simp: client_carrier_def hello_of_client_def shaken_def)
    with old ok client show ?thesis by (auto simp: system_ok_def shaken_def)
  next
    case device: (2 who first hello)
    have h: "hello_of_device authenticator (sy_hellos ?s) (sy_next s) who first"
      unfolding hello_of_device_def by (rule exI [of _ "clk 0"], rule exI [of _ hello]) (simp add: device)
    have "device_served authenticator ?s (sy_next s)"
      unfolding device_served_def
      by (rule conjI, simp, rule exI [of _ who], rule exI [of _ first]) (use h device in \<open>simp add: shaken_def\<close>)
    with old ok device show ?thesis by (auto simp: system_ok_def shaken_def)
  next
    case neither: 3
    with old ok show ?thesis by (auto simp: system_ok_def shaken_def split: handshake_result.split)
  qed
qed

lemma close_ident [simp]: "ident (fst (closeWithReason reason cb)) = ident (fst cb)"
  by (cases cb) (simp add: closeWithReason_def ident_def Let_def split: prod.split)

lemma stamp_ident: "stamp_packet now e c = Some (c', e') \<Longrightarrow> ident c' = ident c"
  by (auto simp: stamp_packet_def Let_def ident_def split: if_splits)

lemma ident_queue [simp]: "ident (c\<lparr>vc_queue := q\<rparr>) = ident c" "ident (c\<lparr>vc_done := b\<rparr>) = ident c" "ident (c\<lparr>vc_lastOutbound := n\<rparr>) = ident c"
    "ident (c\<lparr>vc_lastPing := m\<rparr>) = ident c"
  by (simp_all add: ident_def)

lemma write_ident [simp]: "keeps_ident (write_step marshal now written)"
  unfolding keeps_ident_def write_step_def carrier_close_def
  by (auto simp: split_beta dest: stamp_ident split: prod.split v2_dequeued.split option.split)

lemma enqueue_ident_fst [simp]: "ident (fst (fst (enqueueEnvelope ps e p cb))) = ident (fst cb)"
  using enqueue_ident [of ps e p] by (cases cb) (simp add: keeps_ident_def)

lemma tick_ident [simp]: "keeps_ident (watchdog_tick ps now)"
proof -
  have "ident (fst (fst (watchdog_tick ps now (c, b)))) = ident c" for c b
    by (simp only: watchdog_tick_def Let_def prod.case split_beta fst_conv close_ident if_distrib [of fst] if_distrib [of ident]
        enqueue_ident_fst ident_queue if_cancel)
  then show ?thesis by (simp add: keeps_ident_def split_paired_all)
qed

lemma section_sound:
  assumes "k \<noteq> []"
  shows "sound {(dc_ClientID claims, dc_DeviceID claims)} R w (fst (client_locked ord r claims link k (pruneExpiredLocked ps ord now w)))"
  using hub_ok_client_section(1) [OF hub_ok_prune assms, of w] adds_trans [OF adds_prune adds_section] by (simp add: sound_def)

lemma granted_client: "system_ok L handler authenticator s \<Longrightarrow> fmlookup (sy_clients s) r = Some claims \<Longrightarrow>
    \<forall>p\<in>{(dc_ClientID claims, dc_DeviceID claims)}. granted L handler s p"
  by (fastforce simp: system_ok_def client_carrier_def granted_def)

lemma relay_step_ok:
  assumes step: "relay_step L handler authenticator s s'" and ok: "system_ok L handler authenticator s"
  shows "system_ok L handler authenticator s'"
  using step
proof (cases rule: relay_step.cases)
  case (connect clk negotiated message relay res)
  show ?thesis unfolding connect(1) by (rule system_ok_connect [OF ok connect(2,3)])
next
  case (client_round r claims clk message relay)
  from client_round_sound [of claims "{}" "sy_relay s" L handler clk r message] client_round(3)
  have "sound {(dc_ClientID claims, dc_DeviceID claims)} {} (rl_world (sy_relay s)) (rl_world relay)" by simp
  from system_ok_world [OF ok client_round(1) this granted_client [OF ok client_round(2)]] show ?thesis .
next
  case (client_end r claims clk message relay)
  from client_round_sound [of claims "{}" "sy_relay s" L handler clk r message] client_end(4)
  have s: "sound {(dc_ClientID claims, dc_DeviceID claims)} {} (rl_world (sy_relay s)) (rl_world relay)" by simp
  have time: "\<forall>n. 0 \<le> clk (5 + n)" using client_end(3) by simp
  let ?relay = "end_carrier L (\<lambda>n. clk (5 + n)) r relay"
  have "system_ok L handler authenticator (set_relay ?relay s)"
    by (rule system_ok_world [OF ok refl sound_trans [OF s end_sound(1) [OF time]] granted_client [OF ok client_end(2)]])
  moreover have "r \<notin> attached (rl_world (sy_relay (set_relay ?relay s)))"
    using end_sound(2) [OF time, of relay] s ok by (simp add: set_relay_def system_ok_def sound_def)
  ultimately have "system_ok L handler authenticator ((set_relay ?relay s)\<lparr>sy_clients := fmdrop r (sy_clients (set_relay ?relay s))\<rparr>)"
    by (rule system_ok_end(1))
  then show ?thesis by (simp add: client_end(1) set_relay_def)
next
  case (device_round r clk message relay)
  from device_round_sound [of "{}" "{}" "sy_relay s" L clk r message] device_round(3)
  have "sound {} {} (rl_world (sy_relay s)) (rl_world relay)" by simp
  from system_ok_world [OF ok device_round(1) this] show ?thesis by simp
next
  case (device_end r clk message relay)
  from device_round_sound [of "{}" "{}" "sy_relay s" L clk r message] device_end(4)
  have s: "sound {} {} (rl_world (sy_relay s)) (rl_world relay)" by simp
  have time: "\<forall>n. 0 \<le> clk (5 + n)" using device_end(3) by simp
  let ?relay = "end_carrier L (\<lambda>n. clk (5 + n)) r relay"
  have "system_ok L handler authenticator (set_relay ?relay s)"
    by (rule system_ok_world [OF ok refl sound_trans [OF s end_sound(1) [OF time]]]) simp
  moreover have "r \<notin> attached (rl_world (sy_relay (set_relay ?relay s)))"
    using end_sound(2) [OF time, of relay] s ok by (simp add: set_relay_def system_ok_def sound_def)
  ultimately have "system_ok L handler authenticator ((set_relay ?relay s)\<lparr>sy_devices := sy_devices (set_relay ?relay s) |-| {|r|}\<rparr>)"
    by (rule system_ok_end(2))
  then show ?thesis by (simp add: device_end(1) set_relay_def)
next
  case (client_section r claims k link now)
  from system_ok_world [OF ok client_section(1) _ granted_client [OF ok client_section(2)]] section_sound [OF client_section(3)]
  show ?thesis by simp
next
  case (give_up k)
  have "sound {} {} (rl_world (sy_relay s)) (dropLink k (rl_world (sy_relay s)))" by (simp add: sound_def hub_ok_drop)
  with system_ok_world [OF ok give_up, of "{}"] show ?thesis by simp
next
  case (carrier_loop r marshal now written)
  with system_ok_world [OF ok carrier_loop, of "{}"] on_carrier_sound [OF write_ident] show ?thesis by simp
next
  case (carrier_watchdog r now)
  with system_ok_world [OF ok carrier_watchdog, of "{}"] on_carrier_sound [OF tick_ident] show ?thesis by simp
next
  case (reject_resident now d i epoch)
  have "sound {} {} (rl_world (sy_relay s)) (fst (RejectResident (lb_size L) (lb_order L) now d i epoch (rl_world (sy_relay s))))"
    using hub_ok_reject(1) reject_resident(2) adds_reject_resident by (simp add: sound_def)
  with system_ok_world [OF ok reject_resident(1), of "{}"] show ?thesis by simp
next
  case close_all
  have "sound {} {} (rl_world (sy_relay s)) (CloseAll (lb_order L) (rl_world (sy_relay s)))"
    using hub_ok_close_all adds_close_all by (simp add: sound_def)
  with system_ok_world [OF ok close_all, of "{}"] show ?thesis by simp
next
  case (store uses)
  with system_ok_world [OF ok store, of "{}"] show ?thesis by simp
qed

lemma relay_reachable_ok:
  assumes "(relay_step L handler authenticator)\<^sup>*\<^sup>* (new_system heap budget uses) s"
  shows "system_ok L handler authenticator s"
  using assms
proof (induction rule: rtranclp_induct)
  case base
  have "hub_ok \<lparr>w_hub = NewV2Hub, w_heap = heap, w_budget = budget\<rparr>" by (rule new_hub_ok) simp
  then show ?case by (simp add: system_ok_def new_system_def attached_def link_pairs_def NewV2Hub_def)
qed (rule relay_step_ok)

subsection \<open>A client that does everything right\<close>

definition client_hello :: "string \<Rightarrow> DeviceLinkGrantClaims \<Rightarrow> bytes \<Rightarrow> bytes \<Rightarrow> CarrierHello" where
  "client_hello token claims challenge signature =
     \<lparr>ch_Grant = token, ch_GrantId = dc_GrantID claims, ch_ClientId = dc_ClientID claims,
      ch_ClientIdentityKeyVersion = dc_ClientIdentityKeyVersion claims, ch_ClientChallenge = challenge, ch_ClientProof = signature,
      ch_DeviceConnectionTicket = [], ch_DeviceId = [], ch_DeviceConnectionEpoch = 0, ch_DeviceProof = []\<rparr>"

definition hello_packet :: "string \<Rightarrow> u64 \<Rightarrow> CarrierHello \<Rightarrow> CarrierEnvelope" where
  "hello_packet i epoch hello =
     \<lparr>ce_ProtocolMajor = 2, ce_CarrierId = i, ce_CarrierEpoch = epoch, ce_PacketSequence = 1, ce_AcknowledgedSequence = 0,
      ce_Body = Some (Body_Hello hello), ce_Unknown = []\<rparr>"

definition carrier_proof :: "DeviceLinkGrantClaims \<Rightarrow> string \<Rightarrow> u64 \<Rightarrow> bytes \<Rightarrow> CarrierProof" where
  "carrier_proof claims i epoch challenge =
     \<lparr>cp_GrantID = dc_GrantID claims, cp_CarrierID = i, cp_CarrierEpoch = epoch, cp_Challenge = challenge\<rparr>"

lemma SignCarrierProof_Inr:
  assumes "signatures_verify P" and "SignCarrierProof P key p = Inr signature"
  shows "VerifyCarrierProof P (ed25519_public P key) p signature = None" and "validCarrierProof p" and "length signature = 64"
  using assms by (auto simp: SignCarrierProof_def VerifyCarrierProof_def signatures_verify_def size_defs split: if_splits)

lemma authenticate_own_key:
  assumes "Grant_Verify (lb_crypto L) (lb_json L) (hn_ClientGrantVerifier handler) (ch_Grant hello) now = Inr claims"
    and "dc_RelayNodeID claims = hn_NodeID handler" "dc_RelayCellID claims = hn_CellID handler"
    and "grant_shape (lb_crypto L) issuer claims" and "dc_ClientIdentityKey claims = EncodeToString publicKey"
    and "VerifyCarrierProof (lb_crypto L) publicKey (carrier_proof claims (ce_CarrierId envelope) (ce_CarrierEpoch envelope) (ch_ClientChallenge hello))
       (ch_ClientProof hello) = None"
    and "ch_GrantId hello = dc_GrantID claims" "ch_ClientId hello = dc_ClientID claims"
      "ch_ClientIdentityKeyVersion hello = dc_ClientIdentityKeyVersion claims" "ce_CarrierEpoch envelope \<noteq> 0"
      "length (ch_ClientChallenge hello) = 32"
  shows "authenticateClient L handler envelope hello now = Inr claims"
proof -
  obtain key where "length key = Ed25519PublicKeySize" "dc_ClientIdentityKey claims = EncodeToString key"
      "dc_ClientKeyThumbprint claims = PublicKeyThumbprint (lb_crypto L) key"
    using assms(4) by (auto simp: grant_shape_def)
  then have "DecodeIdentityPublicKey (lb_crypto L) (dc_ClientIdentityKey claims) (dc_ClientKeyThumbprint claims) = Inr publicKey"
    using assms(5) by (simp add: DecodeIdentityPublicKey_def)
  then show ?thesis
    using assms by (simp add: authenticateClient_def carrier_proof_def)
qed

text \<open>A new carrier's first frame fits as soon as the budget has room for it.\<close>

lemma first_enqueue:
  assumes new: "newV2Carrier now i epoch role clientID deviceID limits = Inr c"
    and q: "vc_queue c' = vc_queue c" and e: "has_body e" "0 \<le> ps e" "ps e \<le> 4000"
    and room: "snd (reserve_opt budget v2PriorityControl (ps e + 96))"
  shows "snd (enqueueEnvelope ps e v2PriorityControl (c', budget)) = None"
proof -
  obtain queue where queue: "newV2PriorityQueue limits = Some queue" "vc_queue c = queue"
    using new by (auto simp: newV2Carrier_def split: if_splits option.splits)
  from queue(1) have "limits_valid (vq_limits queue)" "vq_bytes queue = fmempty" "vq_frames queue = fmempty" "\<not> vq_closed queue"
    by (auto simp: newV2PriorityQueue_def Let_def split: if_splits)
  then have "fmget 0 (vq_frames queue) v2PriorityControl + 1 \<le> frameLimitFor queue v2PriorityControl"
    "fmget 0 (vq_bytes queue) v2PriorityControl + (ps e + 96) \<le> limitFor queue v2PriorityControl" "\<not> vq_closed queue"
    using e by (simp_all add: limits_valid_def fmget_def)
  with e room q queue show ?thesis
    by (auto simp: enqueueEnvelope_def vq_enqueue_def Let_def valid_priority_def v2MaximumCarrierFrame_def
        split: prod.split bool.split)
qed

lemma client_handshake_served:
  assumes auth: "authenticateClient L handler first hello (clk 0) = Inr claims"
    and use: "hn_GrantUses handler (clk 1) (clk 2) (dc_GrantID claims) (time_Unix (dc_ExpiresAt claims)) (rl_uses relay) = (uses, Inr True)"
    and named: "ce_CarrierId first \<noteq> []" "ce_CarrierEpoch first \<noteq> 0" "dc_ClientID claims \<noteq> []" "dc_DeviceID claims \<noteq> []"
    and packet: "ce_ProtocolMajor first = 2" "ce_PacketSequence first = 1" "ce_AcknowledgedSequence first = 0" "ce_Unknown first = []"
    and free: "fmlookup (hub_carriers (w_hub (rl_world relay))) (ce_CarrierId first) = None"
    and limits: "limits_valid (limits_normalized (hn_QueueLimits handler))"
    and room: "\<And>ready. let n = lb_size L (body_envelope (Body_Ready ready)) in
      0 \<le> n \<and> n \<le> 4000 \<and> snd (reserve_opt (w_budget (rl_world relay)) v2PriorityControl (n + 96))"
  shows "snd (client_handshake L handler clk r first hello n relay) = ServeClient claims"
    and "fmlookup (hub_carriers (w_hub (rl_world (fst (client_handshake L handler clk r first hello n relay))))) (ce_CarrierId first) = Some r"
proof -
  obtain c where c: "newV2Carrier (clk 3) (ce_CarrierId first) (ce_CarrierEpoch first) v2CarrierClient
      (dc_ClientID claims) (dc_DeviceID claims) (hn_QueueLimits handler) = Inr c"
    using named limits by (simp add: newV2Carrier_def newV2PriorityQueue_def Let_def)
  then have fields: "vc_id c = ce_CarrierId first" "vc_epoch c = ce_CarrierEpoch first" "vc_role c = v2CarrierClient"
      "vc_clientID c = dc_ClientID claims" "vc_deviceID c = dc_DeviceID claims" "vc_lastReceived c = 0" "vc_nextPacket c = 0"
    by (auto simp: newV2Carrier_def split: if_splits option.splits)
  define relay1 where "relay1 = set_carrier r c (relay\<lparr>rl_uses := uses\<rparr>)"
  have world1: "w_hub (rl_world relay1) = w_hub (rl_world relay)" "w_heap (rl_world relay1) r = c" "w_budget (rl_world relay1) = w_budget (rl_world relay)"
    by (simp_all add: relay1_def) (simp add: set_carrier_def set_world_def)
  define hub where "hub = (w_hub (rl_world relay))\<lparr>hub_carriers := fmupd (ce_CarrierId first) r (hub_carriers (w_hub (rl_world relay)))\<rparr>"
  have attach: "attachClient r (rl_world relay1) = (set_hub hub (rl_world relay1), None)"
    using named free by (simp add: attachClient_def Let_def world1 fields hub_def)
  define relay2 where "relay2 = set_world (set_hub hub (rl_world relay1)) (relay\<lparr>rl_uses := uses\<rparr>)"
  have world2: "w_heap (rl_world relay2) r = c" "w_budget (rl_world relay2) = w_budget (rl_world relay)" "w_hub (rl_world relay2) = hub"
    using world1 by (simp_all add: relay2_def set_hub_def)
  have start: "client_handshake L handler clk r first hello n relay = client_attached L handler clk r first n claims relay2"
    using auth use c attach by (simp add: client_handshake_def relay1_def relay2_def Let_def)
  obtain c' where accept: "acceptIncoming (clk 4) first c = (c', None)" "vc_queue c' = vc_queue c"
    using packet fields by (auto simp: acceptIncoming_def Let_def split: option.split)
  have "snd (sendReady L handler (c', w_budget (rl_world relay))) = None"
    unfolding sendReady_def Let_def
    by (rule first_enqueue [OF c accept(2)]) (use room in \<open>simp_all add: has_body_def body_envelope_def Let_def\<close>)
  moreover have "w_budget (rl_world (set_carrier r c' relay2)) = w_budget (rl_world relay)"
    using world2 by (simp add: set_carrier_def set_world_def)
  ultimately obtain w where ready: "on_carrier r (sendReady L handler) (rl_world (set_carrier r c' relay2)) = (w, None)" "w_hub w = hub"
    using world2 on_carrier_hub [of r "sendReady L handler" "rl_world (set_carrier r c' relay2)"]
    by (cases "on_carrier r (sendReady L handler) (rl_world (set_carrier r c' relay2))") (auto simp: on_carrier_def split_beta)
  have result: "client_attached L handler clk r first n claims relay2 =
      (watched handler (clk 5) r (set_world w (set_carrier r c' relay2)), ServeClient claims)"
    by (simp add: client_attached_def world2 accept ready)
  show "snd (client_handshake L handler clk r first hello n relay) = ServeClient claims" by (simp add: start result)
  have "w_hub (rl_world (watched handler (clk 5) r (set_world w (set_carrier r c' relay2)))) = hub"
    by (simp add: watched_def Let_def ready)
  then show "fmlookup (hub_carriers (w_hub (rl_world (fst (client_handshake L handler clk r first hello n relay))))) (ce_CarrierId first) = Some r"
    by (simp add: start result hub_def)
qed

subsection \<open>What a store of used grants promises\<close>

datatype grant_call =
    CallConsume instant instant string instant
  | CallRevoke instant string instant

fun call_grant :: "grant_call \<Rightarrow> string" where
  "call_grant (CallConsume before now g e) = g"
| "call_grant (CallRevoke now g e) = g"

fun call_expiry :: "grant_call \<Rightarrow> instant" where
  "call_expiry (CallConsume before now g e) = e"
| "call_expiry (CallRevoke now g e) = e"

fun grant_call_time :: "grant_call \<Rightarrow> instant" where
  "grant_call_time (CallConsume before now g e) = now"
| "grant_call_time (CallRevoke now g e) = now"

fun grant_run ::
  "'s grant_use_store \<Rightarrow> (instant \<Rightarrow> string \<Rightarrow> instant \<Rightarrow> 's \<Rightarrow> 's \<times> v2_error option) \<Rightarrow> grant_call list \<Rightarrow> 's \<Rightarrow> 's" where
  "grant_run consume revoke [] s = s"
| "grant_run consume revoke (CallConsume before now g e # calls) s = grant_run consume revoke calls (fst (consume before now g e s))"
| "grant_run consume revoke (CallRevoke now g e # calls) s = grant_run consume revoke calls (fst (revoke now g e s))"

text \<open>Calls that name the grant \<open>g\<close> with its own expiry \<open>e\<close>, all before it.\<close>

definition calls_before :: "string \<Rightarrow> instant \<Rightarrow> grant_call list \<Rightarrow> bool" where
  "calls_before g e calls \<longleftrightarrow> (\<forall>call\<in>set calls. (call_grant call = g \<longrightarrow> call_expiry call = e) \<and> After e (grant_call_time call))"

locale grant_use_store =
  fixes consume :: "'s grant_use_store"
    and revoke :: "instant \<Rightarrow> string \<Rightarrow> instant \<Rightarrow> 's \<Rightarrow> 's \<times> v2_error option"
    and spent :: "'s \<Rightarrow> string \<Rightarrow> instant \<Rightarrow> bool"
  assumes accepted: "consume before now g e s = (s', Inr True) \<Longrightarrow> \<not> IsPersistentDeviceLinkGrantExpiry e \<Longrightarrow> spent s' g e"
    and revoked: "revoke now g e s = (s', None) \<Longrightarrow> spent s' g e"
    and kept_consume: "spent s g e \<Longrightarrow> After e now \<Longrightarrow> (g' = g \<Longrightarrow> e' = e) \<Longrightarrow> spent (fst (consume before now g' e' s)) g e"
    and kept_revoke: "spent s g e \<Longrightarrow> (g' = g \<Longrightarrow> e' = e) \<Longrightarrow> spent (fst (revoke now g' e' s)) g e"
    and refused: "spent s g e \<Longrightarrow> After e now \<Longrightarrow> snd (consume before now g e s) \<noteq> Inr True"
begin

lemma spent_run: "spent s g e \<Longrightarrow> calls_before g e calls \<Longrightarrow> spent (grant_run consume revoke calls s) g e"
proof (induction calls arbitrary: s)
  case (Cons call calls)
  then show ?case
    by (cases call) (auto simp: calls_before_def intro!: Cons.IH kept_consume kept_revoke)
qed simp

lemma used_once:
  assumes "consume before now g e s = (s1, Inr True) \<and> \<not> IsPersistentDeviceLinkGrantExpiry e \<or> revoke now g e s = (s1, None)"
    and "calls_before g e calls" and "After e now'"
  shows "snd (consume before' now' g e (grant_run consume revoke calls s1)) \<noteq> Inr True"
proof -
  have "spent s1 g e" using assms(1) accepted revoked by blast
  then show ?thesis using spent_run assms(2,3) refused by blast
qed

end

definition memory_spent :: "InMemoryV2GrantUseStore \<Rightarrow> string \<Rightarrow> instant \<Rightarrow> bool" where
  "memory_spent store g e \<longleftrightarrow>
     fmlookup (gu_revoked store) g = Some e \<or> fmlookup (gu_used store) g = Some e \<and> \<not> IsPersistentDeviceLinkGrantExpiry e"

interpretation memory: grant_use_store ConsumeDeviceLinkGrant RevokeDeviceLinkGrant memory_spent
proof unfold_locales
  fix before now g g' e e' s s'
  show "memory_spent s' g e" if "ConsumeDeviceLinkGrant before now g e s = (s', Inr True)" "\<not> IsPersistentDeviceLinkGrantExpiry e"
    using that by (auto simp: ConsumeDeviceLinkGrant_def memory_spent_def Let_def split: if_splits)
  show "memory_spent s' g e" if "RevokeDeviceLinkGrant now g e s = (s', None)"
    using that by (auto simp: RevokeDeviceLinkGrant_def memory_spent_def split: if_splits)
  show "memory_spent (fst (ConsumeDeviceLinkGrant before now g' e' s)) g e"
    if "memory_spent s g e" "After e now" "g' = g \<Longrightarrow> e' = e"
    using that by (auto simp: ConsumeDeviceLinkGrant_def memory_spent_def Let_def)
  show "memory_spent (fst (RevokeDeviceLinkGrant now g' e' s)) g e" if "memory_spent s g e" "g' = g \<Longrightarrow> e' = e"
    using that by (auto simp: RevokeDeviceLinkGrant_def memory_spent_def)
  show "snd (ConsumeDeviceLinkGrant before now g e s) \<noteq> Inr True" if "memory_spent s g e" "After e now"
    using that by (auto simp: ConsumeDeviceLinkGrant_def memory_spent_def Let_def)
qed

text \<open>
  The expiry is compared before the mutex is taken and the entries are pruned
  after: where the expiry lies between the two readings, the entry that would
  refuse the grant is gone and the grant is accepted again.
\<close>

lemma grant_replayed_at_expiry:
  assumes "g \<noteq> []" "\<not> IsZero e" "After e before" "\<not> After e now"
    and "fmlookup (gu_used s) g = Some e" and "fmlookup (gu_revoked s) g \<in> {None, Some e}"
  shows "snd (ConsumeDeviceLinkGrant before now g e s) = Inr True"
  using assms by (auto simp: ConsumeDeviceLinkGrant_def Let_def)

text \<open>A relay, and a client with a grant for it, for concrete runs.\<close>

definition sample_libraries :: libraries where
  "sample_libraries = \<lparr>lb_crypto = plain_primitives, lb_json = sample_json, lb_uuid = (\<lambda>i. i \<noteq> []), lb_size = (\<lambda>_. 200),
     lb_order = sample_order\<rparr>"

definition sample_handler :: "InMemoryV2GrantUseStore V2Handler" where
  "sample_handler = \<lparr>hn_CellID = ''x'', hn_NodeID = ''n'', hn_BrowserOriginPatterns = [],
     hn_ClientGrantVerifier = sample_verifier,
     hn_DeviceAuthenticator = Some (\<lambda>_ _ _. Inl ErrV2Route), hn_GrantUses = ConsumeDeviceLinkGrant,
     hn_QueueLimits = \<lparr>ql_ControlBytes = 0, ql_InteractiveBytes = 0, ql_BulkBytes = 0, ql_Frames = 0, ql_ControlFrames = 0,
       ql_InteractiveFrames = 0, ql_BulkFrames = 0\<rparr>, hn_HeartbeatSeconds = 0\<rparr>"

definition sample_start :: "InMemoryV2GrantUseStore system" where
  "sample_start = new_system (\<lambda>_. sample_carrier_at [] 0 v2CarrierOther []) None NewInMemoryV2GrantUseStore"

definition sample_clock :: clock where "sample_clock n = time_Unix 120"

definition sample_hello :: CarrierHello where
  "sample_hello = client_hello sample_token sample_claims (replicate 32 6) (replicate 64 5)"

lemma sample_proof_signed:
  "SignCarrierProof plain_primitives (replicate 64 7) (carrier_proof sample_claims ''c'' 1 (replicate 32 6)) = Inr (replicate 64 5)"
proof -
  have "validCarrierProof (carrier_proof sample_claims ''c'' 1 (replicate 32 6))"
    unfolding carrier_proof_def sample_claims_def by code_simp
  then show ?thesis by (simp add: SignCarrierProof_def size_defs plain_primitives_def)
qed

lemma sample_claims_issuer: "sample_claims\<lparr>dc_Issuer := gi_Issuer sample_issuer\<rparr> = sample_claims"
    "sample_claims\<lparr>dc_Issuer := ''control''\<rparr> = sample_claims"
  by (simp_all add: sample_claims_def sample_issuer_def)

lemma sample_consumed: "ConsumeDeviceLinkGrant (sample_clock 1) (sample_clock 2) (dc_GrantID sample_claims)
    (time_Unix (dc_ExpiresAt sample_claims)) NewInMemoryV2GrantUseStore =
  (\<lparr>gu_used = fmupd ''g'' (time_Unix 160) fmempty, gu_revoked = fmempty\<rparr>, Inr True)"
  by (simp add: ConsumeDeviceLinkGrant_def sample_clock_def sample_claims_def NewInMemoryV2GrantUseStore_def time_Unix_def unix_epoch_def
      duration_defs IsPersistentDeviceLinkGrantExpiry_def Unix_def PersistentDeviceLinkGrantExpiresAtUnix_def Let_def)

lemma sample_limits: "limits_valid (limits_normalized (hn_QueueLimits sample_handler))"
  by (simp add: sample_handler_def limits_valid_def limits_normalized_def v2DefaultControlBytes_def v2DefaultInteractiveBytes_def
      v2DefaultBulkBytes_def v2DefaultQueueFrames_def Let_def)

lemma sample_timely: "grant_timely (2 * Second) (sample_clock n) sample_claims"
  by (simp add: grant_timely_def Unix_def sample_clock_def time_Unix_def duration_defs unix_epoch_def) (simp add: sample_claims_def)

lemma sample_token_short: "length sample_token \<le> deviceLinkGrantMaxBytes"
  by (simp add: sample_token_def signed_token_length plain_primitives_def deviceLinkGrantMaxBytes_def)

lemma sample_json_ok: "json_faithful sample_json (grant_header (gi_KeyID sample_issuer)) sample_claims"
  by (simp add: json_faithful_def sample_json_def sample_issuer_def)

lemma sample_authenticated:
  "authenticateClient sample_libraries sample_handler (hello_packet ''c'' 1 sample_hello) sample_hello (sample_clock n) = Inr sample_claims"
proof (rule authenticate_own_key [where issuer = "''control''" and publicKey = "replicate 32 4"])
  show "Grant_Verify (lb_crypto sample_libraries) (lb_json sample_libraries) (hn_ClientGrantVerifier sample_handler) (ch_Grant sample_hello)
      (sample_clock n) = Inr sample_claims"
    using Grant_Verify_signed [OF plain_sizes(2) sample_signed sample_token_short _ _, of sample_verifier "sample_clock n"]
      sample_json_ok sample_timely [of n] sample_shape
    by (simp add: sample_claims_issuer sample_libraries_def sample_handler_def sample_hello_def client_hello_def sample_issuer_def
        sample_verifier_def Grant_Validate_iff)
  show "VerifyCarrierProof (lb_crypto sample_libraries) (replicate 32 4) (carrier_proof sample_claims (ce_CarrierId (hello_packet ''c'' 1 sample_hello))
      (ce_CarrierEpoch (hello_packet ''c'' 1 sample_hello)) (ch_ClientChallenge sample_hello)) (ch_ClientProof sample_hello) = None"
    using SignCarrierProof_Inr(1) [OF plain_sizes(2) sample_proof_signed]
    by (simp add: sample_libraries_def hello_packet_def sample_hello_def client_hello_def) (simp add: plain_primitives_def)
  show "grant_shape (lb_crypto sample_libraries) ''control'' sample_claims" using sample_shape by (simp add: sample_libraries_def)
qed (simp_all add: sample_claims_def sample_handler_def sample_hello_def client_hello_def hello_packet_def)

lemma sample_handshake:
  "\<exists>relay'. handshake sample_libraries sample_handler authenticator sample_clock 0 True
      (Some (hello_packet ''c'' 1 sample_hello), 300) (sy_relay sample_start) = (relay', ServeClient sample_claims) \<and>
    fmlookup (hub_carriers (w_hub (rl_world relay'))) ''c'' = Some 0"
proof -
  let ?first = "hello_packet ''c'' 1 sample_hello"
  define result where "result = client_handshake sample_libraries sample_handler sample_clock 0 ?first sample_hello 300 (sy_relay sample_start)"
  have "CHR ''.'' \<in> set sample_token" by (simp add: sample_token_def signed_token_dot)
  then have token: "TrimSpace sample_token \<noteq> []" "sample_token \<noteq> []" using TrimSpace_keeps by auto
  have "snd result = ServeClient sample_claims \<and> fmlookup (hub_carriers (w_hub (rl_world (fst result)))) ''c'' = Some 0"
    using client_handshake_served [where r = 0 and n = 300 and relay = "sy_relay sample_start", OF sample_authenticated _ _ _ _ _ _ _ _ _ _ sample_limits]
      sample_consumed
    by (simp add: result_def sample_start_def new_system_def sample_handler_def hello_packet_def sample_claims_def NewV2Hub_def
        sample_libraries_def reserve_opt_def Let_def)
  moreover have "handshake sample_libraries sample_handler authenticator sample_clock 0 True (Some ?first, 300) (sy_relay sample_start) = result"
    using token by (simp add: handshake_def result_def validateV2HelloEnvelope_def GetHello_def hello_packet_def Let_def sample_hello_def
        client_hello_def sample_libraries_def size_defs TrimSpace_def) (simp add: sample_claims_def)
  ultimately show ?thesis by (cases result) simp
qed

subsection \<open>Properties\<close>

text \<open>
  C1. Nobody uses a remote/v2 relay without having been authenticated. In
  every state a relay reaches from its start, whatever is sent to it and
  however the connections interleave: every carrier attached to the hub is
  served now, on the connection whose first message it was admitted with; that
  message named the carrier, and either carried a grant and a proof that
  authenticate the carrier's client, or satisfied the device authenticator for
  the carrier's device and epoch; and every link joins a client and a device
  for which such a grant was presented.
\<close>

theorem relay_admits_authenticated:
  assumes "(relay_step L handler authenticator)\<^sup>*\<^sup>* (new_system heap budget uses) s"
  defines "w \<equiv> rl_world (sy_relay s)"
  shows "(\<forall>i r. fmlookup (hub_carriers (w_hub w)) i = Some r \<longrightarrow>
      (\<exists>claims first. fmlookup (sy_clients s) r = Some claims \<and> hello_of_client L handler (sy_hellos s) r claims first \<and>
        ce_CarrierId first = i \<and> vc_epoch (w_heap w r) = ce_CarrierEpoch first \<and> vc_role (w_heap w r) = v2CarrierClient \<and>
        vc_clientID (w_heap w r) = dc_ClientID claims \<and> vc_deviceID (w_heap w r) = dc_DeviceID claims) \<or>
      (\<exists>who first. r |\<in>| sy_devices s \<and> hello_of_device authenticator (sy_hellos s) r who first \<and>
        ce_CarrierId first = i \<and> vc_epoch (w_heap w r) = dp_ConnectionEpoch who \<and> vc_role (w_heap w r) = v2CarrierDevice \<and>
        vc_deviceID (w_heap w r) = dp_DeviceID who)) \<and>
    (\<forall>k l. fmlookup (hub_links (w_hub w)) k = Some l \<longrightarrow>
      (\<exists>r claims first. hello_of_client L handler (sy_hellos s) r claims first \<and>
        lr_clientID l = dc_ClientID claims \<and> lr_deviceID l = dc_DeviceID claims))"
proof -
  have ok: "system_ok L handler authenticator s" by (rule relay_reachable_ok [OF assms(1)])
  have hub: "hub_ok w" using ok by (simp add: system_ok_def w_def)
  have carriers: "(\<exists>claims first. fmlookup (sy_clients s) r = Some claims \<and> hello_of_client L handler (sy_hellos s) r claims first \<and>
        ce_CarrierId first = i \<and> vc_epoch (w_heap w r) = ce_CarrierEpoch first \<and> vc_role (w_heap w r) = v2CarrierClient \<and>
        vc_clientID (w_heap w r) = dc_ClientID claims \<and> vc_deviceID (w_heap w r) = dc_DeviceID claims) \<or>
      (\<exists>who first. r |\<in>| sy_devices s \<and> hello_of_device authenticator (sy_hellos s) r who first \<and>
        ce_CarrierId first = i \<and> vc_epoch (w_heap w r) = dp_ConnectionEpoch who \<and> vc_role (w_heap w r) = v2CarrierDevice \<and>
        vc_deviceID (w_heap w r) = dp_DeviceID who)"
    if i: "fmlookup (hub_carriers (w_hub w)) i = Some r" for i r
  proof -
    have name: "vc_id (w_heap w r) = i" using attached_own_name(1) [OF hub i] by simp
    have "r \<in> attached w" using i by (auto simp: attached_def)
    then consider claims where "fmlookup (sy_clients s) r = Some claims" "client_carrier L handler s r claims"
      | "r |\<in>| sy_devices s" "device_served authenticator s r"
      using ok by (fastforce simp: system_ok_def w_def fmlookup_dom_iff)
    then show ?thesis
    proof cases
      case 1
      then obtain first where f: "hello_of_client L handler (sy_hellos s) r claims first"
          "ident (w_heap w r) = (ce_CarrierId first, ce_CarrierEpoch first, v2CarrierClient, dc_ClientID claims, dc_DeviceID claims)"
        by (auto simp: client_carrier_def idents_def w_def)
      with 1 name show ?thesis by (intro disjI1 exI [of _ claims] exI [of _ first]) (simp add: ident_def)
    next
      case 2
      then obtain who first where f: "hello_of_device authenticator (sy_hellos s) r who first"
          "ident (w_heap w r) = (ce_CarrierId first, ce_CarrierEpoch first, v2CarrierDevice, [], dp_DeviceID who)"
        by (auto simp: device_served_def idents_def w_def)
      moreover from f(1) have "dp_ConnectionEpoch who = ce_CarrierEpoch first" by (auto simp: hello_of_device_def)
      ultimately show ?thesis using 2 name by (intro disjI2 exI [of _ who] exI [of _ first]) (simp add: ident_def)
    qed
  qed
  have "\<exists>r claims first. hello_of_client L handler (sy_hellos s) r claims first \<and>
        lr_clientID l = dc_ClientID claims \<and> lr_deviceID l = dc_DeviceID claims"
    if "fmlookup (hub_links (w_hub w)) k = Some l" for k l
  proof -
    have "(lr_clientID l, lr_deviceID l) \<in> link_pairs w" using that by (auto simp: link_pairs_def)
    then show ?thesis using ok by (fastforce simp: system_ok_def w_def granted_def)
  qed
  with carriers show ?thesis by blast
qed

theorem relay_admits_authenticated_witness:
  "\<exists>s. (relay_step sample_libraries sample_handler (\<lambda>_ _ _. Inl ErrV2Route))\<^sup>*\<^sup>* sample_start s \<and>
     fmlookup (hub_carriers (w_hub (rl_world (sy_relay s)))) ''c'' = Some 0 \<and> fmlookup (sy_clients s) 0 = Some sample_claims \<and>
     (\<exists>first. hello_of_client sample_libraries sample_handler (sy_hellos s) 0 sample_claims first \<and> ce_CarrierId first = ''c'')"
proof -
  let ?no = "\<lambda>_ _ _. Inl ErrV2Route" and ?first = "hello_packet ''c'' 1 sample_hello"
  obtain relay where h: "handshake sample_libraries sample_handler ?no sample_clock 0 True (Some ?first, 300) (sy_relay sample_start) =
      (relay, ServeClient sample_claims)" "fmlookup (hub_carriers (w_hub (rl_world relay))) ''c'' = Some 0"
    using sample_handshake by blast
  define s where "s = \<lparr>sy_relay = relay, sy_next = Suc 0, sy_clients = fmupd 0 sample_claims fmempty, sy_devices = {||},
    sy_hellos = [(0, sample_clock 0, ?first)]\<rparr>"
  have "\<forall>n. 0 \<le> sample_clock n" by (simp add: sample_clock_def time_Unix_def unix_epoch_def duration_defs)
  then have "relay_step sample_libraries sample_handler ?no sample_start s"
    using connect [of sample_clock sample_libraries sample_handler ?no sample_start True "(Some ?first, 300)" relay "ServeClient sample_claims"] h
    by (simp add: s_def sample_start_def new_system_def)
  then have run: "(relay_step sample_libraries sample_handler ?no)\<^sup>*\<^sup>* sample_start s" by blast
  have at: "fmlookup (hub_carriers (w_hub (rl_world (sy_relay s)))) ''c'' = Some 0" "fmlookup (sy_clients s) 0 = Some sample_claims"
    using h by (simp_all add: s_def)
  from relay_admits_authenticated [OF run [unfolded sample_start_def]] at
  have "\<exists>first. hello_of_client sample_libraries sample_handler (sy_hellos s) 0 sample_claims first \<and> ce_CarrierId first = ''c''"
    by (force simp: s_def)
  with run at show ?thesis by blast
qed

text \<open>
  C11. A client that holds a current grant and its identity key gets in: signed
  by an issuer the relay trusts and addressed to this relay, with a proof made
  for this carrier and challenge, on a store that has not seen the grant, under
  a free carrier name and with room for one frame, the first message is
  answered by serving the client with the claims the issuer signed, and the
  carrier is attached.
\<close>

theorem honest_client_served:
  assumes "signatures_verify (lb_crypto L)"
    and "Grant_Sign (lb_crypto L) (lb_json L) issuer terms = Inr token" and "length token \<le> deviceLinkGrantMaxBytes"
    and "claims = terms\<lparr>dc_Issuer := gi_Issuer issuer\<rparr>"
    and "json_faithful (lb_json L) (grant_header (gi_KeyID issuer)) claims"
    and "fmlookup (gv_Keys (hn_ClientGrantVerifier handler)) (gi_KeyID issuer) = Some (ed25519_public (lb_crypto L) (gi_PrivateKey issuer))"
    and "gv_Issuer (hn_ClientGrantVerifier handler) = gi_Issuer issuer"
    and "grant_timely (gv_Leeway (hn_ClientGrantVerifier handler)) (clk 0) terms"
    and "dc_RelayNodeID terms = hn_NodeID handler" and "dc_RelayCellID terms = hn_CellID handler"
    and "dc_ClientIdentityKey terms = EncodeToString (ed25519_public (lb_crypto L) key)"
    and "SignCarrierProof (lb_crypto L) key (carrier_proof terms i epoch challenge) = Inr signature" and "lb_uuid L i"
    and "hn_GrantUses handler (clk 1) (clk 2) (dc_GrantID terms) (time_Unix (dc_ExpiresAt terms)) (rl_uses relay) = (uses, Inr True)"
    and "fmlookup (hub_carriers (w_hub (rl_world relay))) i = None"
    and "limits_valid (limits_normalized (hn_QueueLimits handler))"
    and "\<And>ready. let b = lb_size L (body_envelope (Body_Ready ready)) in
      0 \<le> b \<and> b \<le> 4000 \<and> snd (reserve_opt (w_budget (rl_world relay)) v2PriorityControl (b + 96))"
  shows "\<exists>relay'. handshake L handler authenticator clk r True (Some (hello_packet i epoch (client_hello token claims challenge signature)), n)
      relay = (relay', ServeClient claims) \<and> fmlookup (hub_carriers (w_hub (rl_world relay'))) i = Some r"
proof -
  let ?hello = "client_hello token claims challenge signature"
  let ?first = "hello_packet i epoch ?hello"
  define result where "result = handshake L handler authenticator clk r True (Some ?first, n) relay"
  have shape: "grant_shape (lb_crypto L) (gi_Issuer issuer) claims" and token: "CHR ''.'' \<in> set token"
    using Grant_Sign_Inr [OF assms(2)] assms(4) signed_token_dot by auto
  note proof_ok = SignCarrierProof_Inr [OF assms(1,12)]
  have valid: "i \<noteq> []" "epoch \<noteq> 0" "length challenge = 32"
    using proof_ok(2) by (auto simp: validCarrierProof_def carrier_proof_def validGrantField_def TrimSpace_def)
  have verified: "Grant_Verify (lb_crypto L) (lb_json L) (hn_ClientGrantVerifier handler) token (clk 0) = Inr claims"
    using Grant_Verify_signed [OF assms(1,2,3) _ assms(6), of "clk 0"] assms(4,5,7,8) shape by (simp add: Grant_Validate_iff)
  have "carrier_proof claims i epoch challenge = carrier_proof terms i epoch challenge" by (simp add: carrier_proof_def assms(4))
  then have auth: "authenticateClient L handler ?first ?hello (clk 0) = Inr claims"
    using verified shape valid proof_ok(1) assms(4,9,10,11)
    by (intro authenticate_own_key [of _ _ _ _ _ "gi_Issuer issuer" "ed25519_public (lb_crypto L) key"])
      (simp_all add: client_hello_def hello_packet_def)
  have "token \<noteq> []" using token by auto
  moreover have "validateV2HelloEnvelope (lb_uuid L) ?first = None"
    using shape valid proof_ok(3) assms(13) TrimSpace_keeps [OF token]
    by (simp add: validateV2HelloEnvelope_def GetHello_def hello_packet_def client_hello_def grant_shape_def size_defs Let_def TrimSpace_def)
  ultimately have "result = client_handshake L handler clk r ?first ?hello n relay"
    by (simp add: result_def handshake_def) (simp add: GetHello_def hello_packet_def client_hello_def)
  then have "snd result = ServeClient claims \<and> fmlookup (hub_carriers (w_hub (rl_world (fst result)))) i = Some r"
    using client_handshake_served [where clk = clk and L = L and handler = handler and relay = relay and r = r and n = n and uses = uses, OF auth] assms(4,14,15,16,17) shape valid
    by (simp add: hello_packet_def grant_shape_def)
  then show ?thesis by (cases result) (simp add: result_def)
qed

theorem honest_client_served_witness:
  "\<exists>relay'. handshake sample_libraries sample_handler (\<lambda>_ _ _. Inl ErrV2Route) sample_clock 7 True
      (Some (hello_packet ''c'' 1 (client_hello sample_token sample_claims (replicate 32 6) (replicate 64 5))), 300)
      (sy_relay sample_start) = (relay', ServeClient sample_claims) \<and>
    fmlookup (hub_carriers (w_hub (rl_world relay'))) ''c'' = Some 7"
proof (rule honest_client_served [where issuer = sample_issuer and terms = sample_claims and key = "replicate 64 7"])
  show "signatures_verify (lb_crypto sample_libraries)" by (simp add: sample_libraries_def plain_sizes)
  show "Grant_Sign (lb_crypto sample_libraries) (lb_json sample_libraries) sample_issuer sample_claims = Inr sample_token"
    using sample_signed by (simp add: sample_libraries_def)
  show "json_faithful (lb_json sample_libraries) (grant_header (gi_KeyID sample_issuer)) sample_claims"
    using sample_json_ok by (simp add: sample_libraries_def)
  show "grant_timely (gv_Leeway (hn_ClientGrantVerifier sample_handler)) (sample_clock 0) sample_claims"
    using sample_timely [of 0] by (simp add: sample_handler_def sample_verifier_def)
  show "SignCarrierProof (lb_crypto sample_libraries) (replicate 64 7) (carrier_proof sample_claims ''c'' 1 (replicate 32 6)) = Inr (replicate 64 5)"
    using sample_proof_signed by (simp add: sample_libraries_def)
  show "hn_GrantUses sample_handler (sample_clock 1) (sample_clock 2) (dc_GrantID sample_claims) (time_Unix (dc_ExpiresAt sample_claims))
      (rl_uses (sy_relay sample_start)) = (\<lparr>gu_used = fmupd ''g'' (time_Unix 160) fmempty, gu_revoked = fmempty\<rparr>, Inr True)"
    using sample_consumed by (simp add: sample_handler_def sample_start_def new_system_def)
qed (simp_all add: sample_token_short sample_claims_issuer sample_limits, simp_all add: sample_libraries_def sample_handler_def sample_verifier_def
    sample_issuer_def sample_claims_def sample_start_def new_system_def NewV2Hub_def reserve_opt_def plain_primitives_def)

text \<open>
  C10. A bounded grant is used once and a revoked grant is not used: after the
  store has accepted a bounded grant, or has been told to revoke a grant of
  any kind, no later call accepts that grant before its expiry, whatever other
  consumptions and revocations come in between, as long as the grant is always
  named with the same expiry.
\<close>

theorem grant_used_once:
  assumes "ConsumeDeviceLinkGrant before now g e s = (s1, Inr True) \<and> \<not> IsPersistentDeviceLinkGrantExpiry e \<or>
      RevokeDeviceLinkGrant now g e s = (s1, None)"
    and "calls_before g e calls" and "After e now'"
  shows "snd (ConsumeDeviceLinkGrant before' now' g e (grant_run ConsumeDeviceLinkGrant RevokeDeviceLinkGrant calls s1)) \<noteq> Inr True"
  by (rule memory.used_once [OF assms])

theorem grant_used_once_witness:
  "snd (ConsumeDeviceLinkGrant 5 5 ''g'' 9 (grant_run ConsumeDeviceLinkGrant RevokeDeviceLinkGrant
      [CallConsume 4 4 ''h'' 6, CallRevoke 5 ''h'' 7] (fst (ConsumeDeviceLinkGrant 3 3 ''g'' 9 NewInMemoryV2GrantUseStore)))) \<noteq> Inr True"
proof (rule grant_used_once [where before = 3 and now = 3 and s = NewInMemoryV2GrantUseStore])
  have "snd (ConsumeDeviceLinkGrant 3 3 ''g'' 9 NewInMemoryV2GrantUseStore) = Inr True" "\<not> IsPersistentDeviceLinkGrantExpiry 9"
    by (simp_all add: ConsumeDeviceLinkGrant_def NewInMemoryV2GrantUseStore_def Let_def IsPersistentDeviceLinkGrantExpiry_def Unix_def
        unix_epoch_def PersistentDeviceLinkGrantExpiresAtUnix_def duration_defs)
  then show "ConsumeDeviceLinkGrant 3 3 ''g'' 9 NewInMemoryV2GrantUseStore =
      (fst (ConsumeDeviceLinkGrant 3 3 ''g'' 9 NewInMemoryV2GrantUseStore), Inr True) \<and> \<not> IsPersistentDeviceLinkGrantExpiry 9 \<or>
      RevokeDeviceLinkGrant 3 ''g'' 9 NewInMemoryV2GrantUseStore =
        (fst (ConsumeDeviceLinkGrant 3 3 ''g'' 9 NewInMemoryV2GrantUseStore), None)"
    by (metis prod.collapse)
qed (simp_all add: calls_before_def)

end
