(* ===== verification/Connection_Manager.thy ===== *)
theory Connection_Manager
  imports Bounded_Queue Route_Registry
begin

text \<open>
  The connections of a relay node,
  \<open>server/internal/relayserver/sessions.go\<close>: sessions with their write loops,
  the table of attached sessions, drains and revocation. Sessions are shared
  objects: a world holds the manager, a heap of sessions and the timers of the
  goroutines that wait to close something. The socket is the interface
  \<open>frameConnection\<close>: whether a write succeeds is an input, and the session
  records how the socket was closed. An atomic variable of the code is a field;
  the mutex makes every critical section one step.
\<close>

subsection \<open>Sessions\<close>

datatype manager_error =
    ErrNodeDraining
  | ErrConnectionCapacity
  | ErrSessionNotFound
  | ErrQueueLimits
  | ErrContext
  | SessionQueueError queue_error

datatype StatusCode = StatusGoingAway | StatusPolicyViolation

datatype GoAwayReason =
    GO_AWAY_UNSPECIFIED | GO_AWAY_NODE_DRAINING | GO_AWAY_CELL_DRAINING | GO_AWAY_ASSIGNMENT_CHANGED
  | GO_AWAY_GRANT_REVOKED | GO_AWAY_SERVER_OVERLOADED | GO_AWAY_ENDPOINT_CHANGED

record GoAway =
  ga_Reason :: GoAwayReason
  ga_ReconnectAfterMillis :: u32
  ga_RefreshAssignment :: bool

record Session =
  se_endpointID :: string
  se_deviceID :: string
  se_connectionID :: string
  se_epoch :: u64
  se_route :: "Route option"
  se_queue :: BoundedQueue
  se_cancelled :: bool
  se_done :: bool
  se_once :: bool
  se_close :: "(StatusCode \<times> string) option"

definition newSession :: "string \<Rightarrow> string \<Rightarrow> string \<Rightarrow> u64 \<Rightarrow> manager_error + Session" where
  "newSession endpointID deviceID connectionID epoch =
     (if endpointID = [] \<or> deviceID = [] \<or> connectionID = [] \<or> epoch = 0 then Inl ErrSessionNotFound
      else (case NewBoundedQueue DefaultQueueBytes DefaultQueueFrames of
          None \<Rightarrow> Inl ErrQueueLimits
        | Some queue \<Rightarrow> Inr \<lparr>se_endpointID = endpointID, se_deviceID = deviceID, se_connectionID = connectionID,
            se_epoch = epoch, se_route = None, se_queue = queue, se_cancelled = False, se_done = False,
            se_once = False, se_close = None\<rparr>))"

text \<open>
  One round of the write loop; \<open>written\<close> says whether the socket took the
  frame. The result is the length of a frame that was handed to the socket.
\<close>

definition write_round :: "bool \<Rightarrow> Session \<Rightarrow> Session \<times> int option" where
  "write_round written session =
     (if se_done session then (session, None)
      else (case BoundedQueue_Dequeue (se_queue session) of
          (queue, Dequeued payload) \<Rightarrow>
            (let session = session\<lparr>se_queue := queue\<rparr>
             in (if written then session else session\<lparr>se_cancelled := True, se_done := True\<rparr>, Some (int (length payload))))
        | (queue, DequeueClosed) \<Rightarrow> (session\<lparr>se_queue := queue, se_done := True\<rparr>, None)
        | (queue, DequeueWait) \<Rightarrow>
            (session\<lparr>se_queue := queue, se_done := se_cancelled session\<rparr>, None)))"

definition Session_Enqueue ::
  "(Envelope \<Rightarrow> bytes option) \<Rightarrow> Envelope option \<Rightarrow> Session \<Rightarrow> Session \<times> manager_error option" where
  "Session_Enqueue marshal envelope session =
     (case envelope of
        None \<Rightarrow> (session, Some ErrSessionNotFound)
      | Some e \<Rightarrow>
          if env_ConnectionEpoch e \<noteq> se_epoch session then (session, Some ErrSessionNotFound)
          else (case BoundedQueue_Enqueue marshal (se_queue session) envelope of
              (queue, err) \<Rightarrow> (session\<lparr>se_queue := queue\<rparr>, map_option SessionQueueError err)))"

definition session_stop :: "StatusCode \<Rightarrow> string \<Rightarrow> Session \<Rightarrow> Session" where
  "session_stop status reason session =
     (if se_once session then session
      else session\<lparr>se_once := True, se_cancelled := True, se_queue := BoundedQueue_Close (se_queue session),
        se_close := Some (status, reason)\<rparr>)"

text \<open>\<open>content\<close> stands for the generated message type.\<close>

definition goAwayEnvelope :: "(GoAway \<Rightarrow> bytes) \<Rightarrow> u64 \<Rightarrow> GoAwayReason \<Rightarrow> duration \<Rightarrow> bool \<Rightarrow> Envelope" where
  "goAwayEnvelope content epoch reason reconnectAfter refreshAssignment =
     (let reconnectMillis = reconnectAfter div Millisecond;
          reconnectMillis = (if reconnectMillis < 0 then 0 else reconnectMillis);
          reconnectMillis = (if reconnectMillis > 2 ^ 32 - 1 then 2 ^ 32 - 1 else reconnectMillis)
      in \<lparr>env_ProtocolVersion = 1, env_ConnectionEpoch = epoch, env_Frame = Envelope_GoAway,
          env_content = content \<lparr>ga_Reason = reason, ga_ReconnectAfterMillis = word_of_int reconnectMillis,
            ga_RefreshAssignment = refreshAssignment\<rparr>\<rparr>)"

subsection \<open>The manager\<close>

record ConnectionMetrics =
  me_Active :: int
  me_Peak :: int
  me_ActiveHandshakes :: int
  me_HandshakeSucceeded :: int
  me_HandshakeFailed :: int
  me_QueueRejected :: int
  me_QueueFrames :: int
  me_QueueBytes :: int
  me_HandshakeRejected :: int
  me_SupersededSessions :: int
  me_DrainStarted :: int
  me_RouteRejected :: int
  me_RateLimited :: int
  me_IngressFrames :: int
  me_IngressBytes :: int
  me_EgressFrames :: int
  me_EgressBytes :: int
  me_WriteLagMicros :: int

type_synonym session_ref = nat

record ConnectionManager =
  cm_sessions :: "(string, session_ref) fmap"
  cm_maxConnections :: int
  cm_handshakes :: int
  cm_maxHandshakes :: int
  cm_draining :: bool
  cm_revoked :: bool
  cm_drainGeneration :: u64
  cm_active :: int
  cm_peak :: int
  cm_queueRejected :: int
  cm_handshakeReject :: int
  cm_superseded :: int
  cm_drains :: int
  cm_handshakeOK :: int
  cm_handshakeFailed :: int
  cm_routeRejected :: int
  cm_rateLimited :: int
  cm_ingressFrames :: int
  cm_ingressBytes :: int
  cm_egressFrames :: int
  cm_egressBytes :: int
  cm_writeLagMicros :: int
  cm_routeChanges :: bool

text \<open>The goroutines that wait for a timer, with the time they wait.\<close>

datatype node_timer =
    StopTimer session_ref string
  | DrainTimer u64
  | RevokeTimer u64

record node =
  no_manager :: ConnectionManager
  no_heap :: "session_ref \<Rightarrow> Session"
  no_next :: session_ref
  no_timers :: "(duration \<times> node_timer) list"

definition NewConnectionManager :: "int \<Rightarrow> int \<Rightarrow> ConnectionManager option" where
  "NewConnectionManager maxConnections maxConcurrentHandshakes =
     (if maxConnections < 1 \<or> maxConnections > 10000000 \<or> maxConcurrentHandshakes < 1 \<or> maxConcurrentHandshakes > 100000
      then None
      else Some \<lparr>cm_sessions = fmempty, cm_maxConnections = maxConnections, cm_handshakes = 0,
        cm_maxHandshakes = maxConcurrentHandshakes, cm_draining = False, cm_revoked = False, cm_drainGeneration = 0,
        cm_active = 0, cm_peak = 0, cm_queueRejected = 0, cm_handshakeReject = 0, cm_superseded = 0, cm_drains = 0,
        cm_handshakeOK = 0, cm_handshakeFailed = 0, cm_routeRejected = 0, cm_rateLimited = 0, cm_ingressFrames = 0,
        cm_ingressBytes = 0, cm_egressFrames = 0, cm_egressBytes = 0, cm_writeLagMicros = 0, cm_routeChanges = False\<rparr>)"

definition on_manager :: "(ConnectionManager \<Rightarrow> ConnectionManager) \<Rightarrow> node \<Rightarrow> node" where
  "on_manager f w = w\<lparr>no_manager := f (no_manager w)\<rparr>"

definition on_session :: "session_ref \<Rightarrow> (Session \<Rightarrow> Session) \<Rightarrow> node \<Rightarrow> node" where
  "on_session r f w = w\<lparr>no_heap := (no_heap w)(r := f (no_heap w r))\<rparr>"

definition start_timer :: "duration \<Rightarrow> node_timer \<Rightarrow> node \<Rightarrow> node" where
  "start_timer after timer w = w\<lparr>no_timers := no_timers w @ [(after, timer)]\<rparr>"

definition signal_routes :: "node \<Rightarrow> node" where
  "signal_routes = on_manager (\<lambda>m. m\<lparr>cm_routeChanges := True\<rparr>)"

definition Accepting :: "ConnectionManager \<Rightarrow> bool" where
  "Accepting manager \<longleftrightarrow> \<not> cm_draining manager \<and> \<not> cm_revoked manager"

text \<open>
  Taking a slot for a handshake, and the second look at the flags after that.
  When the slot and the end of the context are both ready, \<open>slotFirst\<close> says
  which one \<open>select\<close> picks.
\<close>

definition acquire_slot :: "bool \<Rightarrow> bool \<Rightarrow> ConnectionManager \<Rightarrow> ConnectionManager \<times> manager_error option" where
  "acquire_slot cancelled slotFirst manager =
     (if \<not> Accepting manager then (manager, Some ErrNodeDraining)
      else if cm_handshakes manager < cm_maxHandshakes manager \<and> (\<not> cancelled \<or> slotFirst)
      then (manager\<lparr>cm_handshakes := cm_handshakes manager + 1\<rparr>, None)
      else if cancelled then (manager, Some ErrContext)
      else (manager\<lparr>cm_handshakeReject := cm_handshakeReject manager + 1\<rparr>, Some ErrConnectionCapacity))"

definition acquire_confirm :: "ConnectionManager \<Rightarrow> ConnectionManager \<times> manager_error option" where
  "acquire_confirm manager =
     (if \<not> Accepting manager
      then (manager\<lparr>cm_handshakes := cm_handshakes manager - 1\<rparr>, Some ErrNodeDraining)
      else (manager, None))"

definition AcquireHandshake :: "bool \<Rightarrow> bool \<Rightarrow> ConnectionManager \<Rightarrow> ConnectionManager \<times> manager_error option" where
  "AcquireHandshake cancelled slotFirst manager =
     (case acquire_slot cancelled slotFirst manager of
        (manager, Some err) \<Rightarrow> (manager, Some err)
      | (manager, None) \<Rightarrow> acquire_confirm manager)"

definition ReleaseHandshake :: "ConnectionManager \<Rightarrow> ConnectionManager" where
  "ReleaseHandshake manager =
     (if cm_handshakes manager > 0 then manager\<lparr>cm_handshakes := cm_handshakes manager - 1\<rparr> else manager)"
subsection \<open>Attaching and detaching\<close>

text \<open>The critical section of \<open>AttachEndpoint\<close>, and what it does to the session it supersedes.\<close>

definition attach_locked ::
  "(Envelope \<Rightarrow> bytes option) \<Rightarrow> (GoAway \<Rightarrow> bytes) \<Rightarrow> Session \<Rightarrow> node \<Rightarrow> node \<times> (manager_error + session_ref)" where
  "attach_locked marshal content session w =
     (let manager = no_manager w;
          endpointID = se_endpointID session;
          current = fmlookup (cm_sessions manager) endpointID
      in if \<not> Accepting manager then (w, Inl ErrNodeDraining)
         else if current \<noteq> None \<and> se_epoch session \<le> se_epoch (no_heap w (the current)) then (w, Inl ErrSessionNotFound)
         else if current = None \<and> int (fmlen (cm_sessions manager)) \<ge> cm_maxConnections manager
         then (w, Inl ErrConnectionCapacity)
         else
           (let ref = no_next w;
                manager = manager\<lparr>cm_sessions := fmupd endpointID ref (cm_sessions manager)\<rparr>;
                manager = (if current = None
                  then manager\<lparr>cm_active := cm_active manager + 1, cm_peak := max (cm_peak manager) (cm_active manager + 1)\<rparr>
                  else manager\<lparr>cm_superseded := cm_superseded manager + 1\<rparr>);
                w = w\<lparr>no_manager := manager, no_heap := (no_heap w)(ref := session), no_next := ref + 1\<rparr>
            in case current of
                None \<Rightarrow> (w, Inr ref)
              | Some old \<Rightarrow>
                  (let w = on_session old (\<lambda>s. fst (Session_Enqueue marshal
                         (Some (goAwayEnvelope content (se_epoch s) GO_AWAY_GRANT_REVOKED 0 True)) s)) w
                   in (start_timer (250 * Millisecond) (StopTimer old ''superseded connection'') w, Inr ref))))"

definition AttachEndpoint ::
  "(Envelope \<Rightarrow> bytes option) \<Rightarrow> (GoAway \<Rightarrow> bytes) \<Rightarrow> string \<Rightarrow> string \<Rightarrow> string \<Rightarrow> u64 \<Rightarrow> node \<Rightarrow>
     node \<times> (manager_error + session_ref)" where
  "AttachEndpoint marshal content endpointID deviceID connectionID epoch w =
     (if \<not> Accepting (no_manager w) then (w, Inl ErrNodeDraining)
      else (case newSession endpointID deviceID connectionID epoch of
          Inl err \<Rightarrow> (w, Inl err)
        | Inr session \<Rightarrow> attach_locked marshal content session w))"

definition Attach ::
  "(Envelope \<Rightarrow> bytes option) \<Rightarrow> (GoAway \<Rightarrow> bytes) \<Rightarrow> string \<Rightarrow> string \<Rightarrow> u64 \<Rightarrow> node \<Rightarrow> node \<times> (manager_error + session_ref)" where
  "Attach marshal content deviceID connectionID epoch w = AttachEndpoint marshal content deviceID deviceID connectionID epoch w"

text \<open>The session of an endpoint, if it is this connection at this epoch.\<close>

definition exact_session :: "string \<Rightarrow> string \<Rightarrow> u64 \<Rightarrow> node \<Rightarrow> session_ref option" where
  "exact_session endpointID connectionID epoch w =
     (case fmlookup (cm_sessions (no_manager w)) endpointID of
        None \<Rightarrow> None
      | Some ref \<Rightarrow>
          if se_connectionID (no_heap w ref) = connectionID \<and> se_epoch (no_heap w ref) = epoch then Some ref else None)"

definition drop_session :: "string \<Rightarrow> node \<Rightarrow> node" where
  "drop_session endpointID = on_manager (\<lambda>m. m\<lparr>cm_sessions := fmdrop endpointID (cm_sessions m), cm_active := cm_active m - 1\<rparr>)"

definition DetachEndpoint :: "string \<Rightarrow> string \<Rightarrow> u64 \<Rightarrow> node \<Rightarrow> node" where
  "DetachEndpoint endpointID connectionID epoch w =
     (case exact_session endpointID connectionID epoch w of
        None \<Rightarrow> w
      | Some ref \<Rightarrow>
          (let routeChanged = se_route (no_heap w ref) \<noteq> None;
               w = drop_session endpointID w;
               w = on_session ref (\<lambda>s. s\<lparr>se_cancelled := True, se_queue := BoundedQueue_Close (se_queue s)\<rparr>) w
           in if routeChanged then signal_routes w else w))"

definition Detach :: "string \<Rightarrow> string \<Rightarrow> u64 \<Rightarrow> node \<Rightarrow> node" where
  "Detach deviceID connectionID epoch w = DetachEndpoint deviceID connectionID epoch w"

definition BindResidentRoute :: "instant \<Rightarrow> string \<Rightarrow> string \<Rightarrow> u64 \<Rightarrow> Route \<Rightarrow> node \<Rightarrow> node \<times> manager_error option" where
  "BindResidentRoute now endpointID connectionID epoch route w =
     (if endpointID = [] \<or> connectionID = [] \<or> epoch = 0 \<or> rt_DeviceID route = [] \<or> rt_UserID route = [] \<or>
        rt_CellID route = [] \<or> rt_NodeID route = [] \<or> rt_ConnectionID route \<noteq> connectionID \<or>
        rt_ConnectionEpoch route \<noteq> epoch \<or> rt_AssignmentVersion route = 0 \<or> rt_GrantVersion route = 0 \<or>
        rt_ProtocolVersion route = 0
      then (w, Some ErrSessionNotFound)
      else (case exact_session endpointID connectionID epoch w of
          None \<Rightarrow> (w, Some ErrSessionNotFound)
        | Some ref \<Rightarrow>
            if se_endpointID (no_heap w ref) \<noteq> se_deviceID (no_heap w ref) \<or> se_deviceID (no_heap w ref) \<noteq> rt_DeviceID route
            then (w, Some ErrSessionNotFound)
            else (signal_routes (on_session ref (\<lambda>s. s\<lparr>se_route := Some (route\<lparr>rt_ConnectedAt := now\<rparr>)\<rparr>) w), None)))"

definition manager_ResidentRoutes :: "(string fset \<Rightarrow> string list) \<Rightarrow> node \<Rightarrow> Route list" where
  "manager_ResidentRoutes ord w =
     List.map_filter (\<lambda>e.
       case fmlookup (cm_sessions (no_manager w)) e of
         None \<Rightarrow> None
       | Some ref \<Rightarrow> if se_endpointID (no_heap w ref) = se_deviceID (no_heap w ref) then se_route (no_heap w ref) else None)
       (ord (fmdom (cm_sessions (no_manager w))))"

definition manager_RejectResident ::
  "(Envelope \<Rightarrow> bytes option) \<Rightarrow> (GoAway \<Rightarrow> bytes) \<Rightarrow> string \<Rightarrow> string \<Rightarrow> u64 \<Rightarrow> GoAwayReason \<Rightarrow> node \<Rightarrow> node \<times> bool" where
  "manager_RejectResident marshal content deviceID connectionID epoch reason w =
     (if deviceID = [] \<or> connectionID = [] \<or> epoch = 0 then (w, False)
      else (case exact_session deviceID connectionID epoch w of
          None \<Rightarrow> (w, False)
        | Some ref \<Rightarrow>
            if se_route (no_heap w ref) = None then (w, False)
            else
              (let w = signal_routes (drop_session deviceID w);
                   w = on_session ref (\<lambda>s. fst (Session_Enqueue marshal
                     (Some (goAwayEnvelope content epoch reason 0 True)) s)) w
               in (start_timer (250 * Millisecond) (StopTimer ref ''Host rejected resident route'') w, True))))"

definition EnqueueEndpoint ::
  "(Envelope \<Rightarrow> bytes option) \<Rightarrow> string \<Rightarrow> u64 \<Rightarrow> Envelope option \<Rightarrow> node \<Rightarrow> node \<times> manager_error option" where
  "EnqueueEndpoint marshal endpointID epoch envelope w =
     (case fmlookup (cm_sessions (no_manager w)) endpointID of
        None \<Rightarrow> (w, Some ErrSessionNotFound)
      | Some ref \<Rightarrow>
          if se_epoch (no_heap w ref) \<noteq> epoch then (w, Some ErrSessionNotFound)
          else
            (let err = snd (Session_Enqueue marshal envelope (no_heap w ref));
                 w = on_session ref (\<lambda>s. fst (Session_Enqueue marshal envelope s)) w;
                 w = (if err = Some (SessionQueueError ErrQueueFull)
                   then on_manager (\<lambda>m. m\<lparr>cm_queueRejected := cm_queueRejected m + 1\<rparr>) w else w)
             in (w, err)))"

definition manager_Enqueue ::
  "(Envelope \<Rightarrow> bytes option) \<Rightarrow> string \<Rightarrow> u64 \<Rightarrow> Envelope option \<Rightarrow> node \<Rightarrow> node \<times> manager_error option" where
  "manager_Enqueue marshal deviceID epoch envelope w = EnqueueEndpoint marshal deviceID epoch envelope w"

definition HasResident :: "string \<Rightarrow> u64 \<Rightarrow> node \<Rightarrow> bool" where
  "HasResident deviceID epoch w \<longleftrightarrow> deviceID \<noteq> [] \<and> epoch \<noteq> 0 \<and>
     (case fmlookup (cm_sessions (no_manager w)) deviceID of
        None \<Rightarrow> False
      | Some ref \<Rightarrow> se_deviceID (no_heap w ref) = deviceID \<and> se_epoch (no_heap w ref) = epoch)"

subsection \<open>Draining and revocation\<close>

text \<open>The sessions share nothing, so the order in which they are told or closed does not matter.\<close>

definition attached :: "node \<Rightarrow> session_ref \<Rightarrow> bool" where
  "attached w r \<longleftrightarrow> r |\<in>| fmran (cm_sessions (no_manager w))"

definition NotifyAll ::
  "(Envelope \<Rightarrow> bytes option) \<Rightarrow> (GoAway \<Rightarrow> bytes) \<Rightarrow> GoAwayReason \<Rightarrow> duration \<Rightarrow> bool \<Rightarrow> node \<Rightarrow> node" where
  "NotifyAll marshal content reason reconnectAfter refreshAssignment w =
     w\<lparr>no_heap := (\<lambda>r. let s = no_heap w r
       in if attached w r
          then fst (Session_Enqueue marshal (Some (goAwayEnvelope content (se_epoch s) reason reconnectAfter refreshAssignment)) s)
          else s)\<rparr>"

definition manager_CloseAll :: "StatusCode \<Rightarrow> string \<Rightarrow> node \<Rightarrow> node" where
  "manager_CloseAll status reason w =
     (let routeChanged = (\<exists>r |\<in>| fmran (cm_sessions (no_manager w)). se_route (no_heap w r) \<noteq> None);
          w = w\<lparr>no_heap := (\<lambda>r. if attached w r then session_stop status reason (no_heap w r) else no_heap w r),
            no_manager := (no_manager w)\<lparr>cm_sessions := fmempty, cm_active := 0\<rparr>\<rparr>
      in if routeChanged then signal_routes w else w)"

definition BeginDrain ::
  "(Envelope \<Rightarrow> bytes option) \<Rightarrow> (GoAway \<Rightarrow> bytes) \<Rightarrow> GoAwayReason \<Rightarrow> duration \<Rightarrow> bool \<Rightarrow> duration \<Rightarrow> node \<Rightarrow> node" where
  "BeginDrain marshal content reason reconnectAfter refreshAssignment deadline w =
     (if cm_revoked (no_manager w) \<or> cm_draining (no_manager w) then w
      else
        (let w = on_manager (\<lambda>m. m\<lparr>cm_draining := True, cm_drains := cm_drains m + 1,
               cm_drainGeneration := cm_drainGeneration m + 1\<rparr>) w;
             generation = cm_drainGeneration (no_manager w);
             deadline = (if deadline < Second then Second else deadline);
             deadline = (if deadline > 30 * Minute then 30 * Minute else deadline)
         in start_timer deadline (DrainTimer generation) (NotifyAll marshal content reason reconnectAfter refreshAssignment w)))"

definition Revoke :: "(Envelope \<Rightarrow> bytes option) \<Rightarrow> (GoAway \<Rightarrow> bytes) \<Rightarrow> node \<Rightarrow> node" where
  "Revoke marshal content w =
     (if cm_revoked (no_manager w) then w
      else
        (let w = on_manager (\<lambda>m. m\<lparr>cm_revoked := True, cm_draining := True, cm_drains := cm_drains m + 1,
               cm_drainGeneration := cm_drainGeneration m + 1\<rparr>) w;
             generation = cm_drainGeneration (no_manager w)
         in start_timer Second (RevokeTimer generation) (NotifyAll marshal content GO_AWAY_GRANT_REVOKED 0 True w)))"

definition Resume :: "ConnectionManager \<Rightarrow> ConnectionManager" where
  "Resume manager =
     (if cm_revoked manager \<or> \<not> cm_draining manager then manager
      else manager\<lparr>cm_draining := False, cm_drainGeneration := cm_drainGeneration manager + 1\<rparr>)"

text \<open>
  What the goroutines do when their timer fires. The one that waits for a
  session gives up when the write loop has ended; with both ready, \<open>doneFirst\<close>
  says which one \<open>select\<close> picks.
\<close>

definition stop_fired :: "bool \<Rightarrow> session_ref \<Rightarrow> string \<Rightarrow> node \<Rightarrow> node" where
  "stop_fired doneFirst r reason w =
     (if se_done (no_heap w r) \<and> doneFirst then w else on_session r (session_stop StatusPolicyViolation reason) w)"

definition drain_fired :: "u64 \<Rightarrow> node \<Rightarrow> node" where
  "drain_fired generation w =
     (if cm_draining (no_manager w) \<and> cm_drainGeneration (no_manager w) = generation
      then manager_CloseAll StatusGoingAway ''relay draining'' w else w)"

definition revoke_fired :: "u64 \<Rightarrow> node \<Rightarrow> node" where
  "revoke_fired generation w =
     (if cm_revoked (no_manager w) \<and> cm_drainGeneration (no_manager w) = generation
      then manager_CloseAll StatusPolicyViolation ''relay identity revoked'' w else w)"

definition timer_fired :: "bool \<Rightarrow> node_timer \<Rightarrow> node \<Rightarrow> node" where
  "timer_fired doneFirst timer w =
     (case timer of
        StopTimer r reason \<Rightarrow> stop_fired doneFirst r reason w
      | DrainTimer generation \<Rightarrow> drain_fired generation w
      | RevokeTimer generation \<Rightarrow> revoke_fired generation w)"

lemmas fired_defs = timer_fired_def stop_fired_def drain_fired_def revoke_fired_def

subsection \<open>Metrics\<close>

definition Metrics :: "(string fset \<Rightarrow> string list) \<Rightarrow> node \<Rightarrow> ConnectionMetrics" where
  "Metrics ord w =
     (let manager = no_manager w;
          usages = map (\<lambda>r. BoundedQueue_Usage (se_queue (no_heap w r)))
            (List.map_filter (fmlookup (cm_sessions manager)) (ord (fmdom (cm_sessions manager))))
      in \<lparr>me_Active = cm_active manager, me_Peak = cm_peak manager, me_ActiveHandshakes = cm_handshakes manager,
          me_HandshakeSucceeded = cm_handshakeOK manager, me_HandshakeFailed = cm_handshakeFailed manager,
          me_QueueRejected = cm_queueRejected manager, me_QueueFrames = sum_list (map fst usages),
          me_QueueBytes = sum_list (map snd usages), me_HandshakeRejected = cm_handshakeReject manager,
          me_SupersededSessions = cm_superseded manager, me_DrainStarted = cm_drains manager,
          me_RouteRejected = cm_routeRejected manager, me_RateLimited = cm_rateLimited manager,
          me_IngressFrames = cm_ingressFrames manager, me_IngressBytes = cm_ingressBytes manager,
          me_EgressFrames = cm_egressFrames manager, me_EgressBytes = cm_egressBytes manager,
          me_WriteLagMicros = cm_writeLagMicros manager\<rparr>)"

definition RecordHandshake :: "bool \<Rightarrow> ConnectionManager \<Rightarrow> ConnectionManager" where
  "RecordHandshake success m =
     (if success then m\<lparr>cm_handshakeOK := cm_handshakeOK m + 1\<rparr> else m\<lparr>cm_handshakeFailed := cm_handshakeFailed m + 1\<rparr>)"

definition RecordRouteRejection :: "ConnectionManager \<Rightarrow> ConnectionManager" where
  "RecordRouteRejection m = m\<lparr>cm_routeRejected := cm_routeRejected m + 1\<rparr>"

definition RecordRateLimit :: "ConnectionManager \<Rightarrow> ConnectionManager" where
  "RecordRateLimit m = m\<lparr>cm_rateLimited := cm_rateLimited m + 1\<rparr>"

definition RecordIngress :: "int \<Rightarrow> ConnectionManager \<Rightarrow> ConnectionManager" where
  "RecordIngress n m =
     (if n < 0 then m else m\<lparr>cm_ingressFrames := cm_ingressFrames m + 1, cm_ingressBytes := cm_ingressBytes m + n\<rparr>)"

definition RecordEgress :: "int \<Rightarrow> duration \<Rightarrow> ConnectionManager \<Rightarrow> ConnectionManager" where
  "RecordEgress n latency m =
     (if n < 0 then m
      else
        (let micros = latency div 1000; micros = (if micros < 0 then 0 else micros)
         in m\<lparr>cm_egressFrames := cm_egressFrames m + 1, cm_egressBytes := cm_egressBytes m + n, cm_writeLagMicros := micros\<rparr>))"

subsection \<open>Histories\<close>

text \<open>
  What happens to a node: the calls, the write rounds of the sessions and the
  timers. The critical section of \<open>AttachEndpoint\<close> and the second half of
  \<open>AcquireHandshake\<close> are events on their own as well, since other calls can
  come before them; receiving from the empty channel of handshakes waits.
  \<open>BeginDrain\<close>, \<open>Revoke\<close> and \<open>Resume\<close> are called one after the other, by
  the heartbeat loop of the node.
\<close>

datatype cm_event =
    EvAttach string string string u64
  | EvAttachLocked string string string u64
  | EvDetach string string u64
  | EvBind instant string string u64 Route
  | EvReject string string u64 GoAwayReason
  | EvEnqueue string u64 "Envelope option"
  | EvNotify GoAwayReason duration bool
  | EvCloseAll StatusCode string
  | EvDrain GoAwayReason duration bool duration
  | EvRevoke
  | EvResume
  | EvTimer nat bool
  | EvWrite session_ref bool duration
  | EvAcquire bool bool
  | EvConfirm
  | EvRelease
  | EvHandshake bool
  | EvRouteRejection
  | EvRateLimit
  | EvIngress int

fun cm_step :: "(Envelope \<Rightarrow> bytes option) \<Rightarrow> (GoAway \<Rightarrow> bytes) \<Rightarrow> node \<Rightarrow> cm_event \<Rightarrow> node" where
  "cm_step marshal content w (EvAttach e d c n) = fst (AttachEndpoint marshal content e d c n w)"
| "cm_step marshal content w (EvAttachLocked e d c n) =
     (case newSession e d c n of Inl err \<Rightarrow> w | Inr session \<Rightarrow> fst (attach_locked marshal content session w))"
| "cm_step marshal content w (EvDetach e c n) = DetachEndpoint e c n w"
| "cm_step marshal content w (EvBind now e c n route) = fst (BindResidentRoute now e c n route w)"
| "cm_step marshal content w (EvReject d c n reason) = fst (manager_RejectResident marshal content d c n reason w)"
| "cm_step marshal content w (EvEnqueue e n envelope) = fst (EnqueueEndpoint marshal e n envelope w)"
| "cm_step marshal content w (EvNotify reason after refresh) = NotifyAll marshal content reason after refresh w"
| "cm_step marshal content w (EvCloseAll status reason) = manager_CloseAll status reason w"
| "cm_step marshal content w (EvDrain reason after refresh deadline) = BeginDrain marshal content reason after refresh deadline w"
| "cm_step marshal content w EvRevoke = Revoke marshal content w"
| "cm_step marshal content w EvResume = on_manager Resume w"
| "cm_step marshal content w (EvTimer i doneFirst) =
     (if i < length (no_timers w)
      then timer_fired doneFirst (snd (no_timers w ! i)) (w\<lparr>no_timers := take i (no_timers w) @ drop (Suc i) (no_timers w)\<rparr>)
      else w)"
| "cm_step marshal content w (EvWrite r written latency) =
     (if r < no_next w
      then (let w' = on_session r (\<lambda>s. fst (write_round written s)) w
            in case snd (write_round written (no_heap w r)) of
                None \<Rightarrow> w'
              | Some n \<Rightarrow> on_manager (RecordEgress n latency) w')
      else w)"
| "cm_step marshal content w (EvAcquire cancelled slotFirst) = on_manager (\<lambda>m. fst (AcquireHandshake cancelled slotFirst m)) w"
| "cm_step marshal content w EvConfirm = (if cm_handshakes (no_manager w) > 0 then on_manager (\<lambda>m. fst (acquire_confirm m)) w else w)"
| "cm_step marshal content w EvRelease = on_manager ReleaseHandshake w"
| "cm_step marshal content w (EvHandshake success) = on_manager (RecordHandshake success) w"
| "cm_step marshal content w EvRouteRejection = on_manager RecordRouteRejection w"
| "cm_step marshal content w EvRateLimit = on_manager RecordRateLimit w"
| "cm_step marshal content w (EvIngress n) = on_manager (RecordIngress n) w"

definition new_node :: "ConnectionManager \<Rightarrow> (session_ref \<Rightarrow> Session) \<Rightarrow> node" where
  "new_node manager heap = \<lparr>no_manager = manager, no_heap = heap, no_next = 0, no_timers = []\<rparr>"

definition cm_run :: "(Envelope \<Rightarrow> bytes option) \<Rightarrow> (GoAway \<Rightarrow> bytes) \<Rightarrow> node \<Rightarrow> cm_event list \<Rightarrow> node" where
  "cm_run marshal content w es = fold (\<lambda>e w. cm_step marshal content w e) es w"

lemma cm_run_simps [simp]:
  "cm_run marshal content w [] = w"
  "cm_run marshal content w (e # es) = cm_run marshal content (cm_step marshal content w e) es"
  "cm_run marshal content w (es @ fs) = cm_run marshal content (cm_run marshal content w es) fs"
  by (simp_all add: cm_run_def)

lemma node_simps [simp]:
  "no_manager (on_manager f w) = f (no_manager w)" "no_heap (on_manager f w) = no_heap w"
  "no_next (on_manager f w) = no_next w" "no_timers (on_manager f w) = no_timers w"
  "no_manager (on_session r g w) = no_manager w" "no_next (on_session r g w) = no_next w"
  "no_timers (on_session r g w) = no_timers w" "no_heap (on_session r g w) = (no_heap w)(r := g (no_heap w r))"
  "no_manager (start_timer d t w) = no_manager w" "no_heap (start_timer d t w) = no_heap w"
  "no_next (start_timer d t w) = no_next w" "no_timers (start_timer d t w) = no_timers w @ [(d, t)]"
  by (simp_all add: on_manager_def on_session_def start_timer_def)

subsection \<open>What the operations of a session keep\<close>

definition session_ident :: "Session \<Rightarrow> string \<times> string \<times> string \<times> u64" where
  "session_ident s = (se_endpointID s, se_deviceID s, se_connectionID s, se_epoch s)"

definition route_of_session :: "Session \<Rightarrow> Route \<Rightarrow> bool" where
  "route_of_session s route \<longleftrightarrow> se_endpointID s = se_deviceID s \<and> rt_DeviceID route = se_deviceID s \<and>
     rt_ConnectionID route = se_connectionID s \<and> rt_ConnectionEpoch route = se_epoch s"

definition session_ok :: "Session \<Rightarrow> bool" where
  "session_ok s \<longleftrightarrow> bq_ok (se_queue s) \<and> bq_maxBytes (se_queue s) = DefaultQueueBytes \<and>
     (se_done s \<longrightarrow> se_cancelled s \<or> bq_closed (se_queue s)) \<and>
     (se_once s \<longrightarrow> se_cancelled s) \<and> (\<forall>route. se_route s = Some route \<longrightarrow> route_of_session s route)"

lemma session_ok_done: "session_ok s \<Longrightarrow> se_done s \<Longrightarrow> se_cancelled s \<or> bq_closed (se_queue s)"
  by (simp add: session_ok_def)

text \<open>A change of a session that does not close it.\<close>

definition gentle :: "Session \<Rightarrow> Session \<Rightarrow> bool" where
  "gentle s s' \<longleftrightarrow> session_ident s' = session_ident s \<and> (session_ok s \<longrightarrow> session_ok s') \<and>
     (se_cancelled s \<longrightarrow> se_cancelled s') \<and> bq_closed (se_queue s') = bq_closed (se_queue s) \<and> se_once s' = se_once s"

lemma gentle_refl [simp]: "gentle s s"
  by (simp add: gentle_def)

lemma new_session_ok:
  assumes "newSession e d c n = Inr s"
  shows "session_ok s" and "session_ident s = (e, d, c, n)" and "\<not> se_once s" and "\<not> bq_closed (se_queue s)"
    and "e \<noteq> []" and "n \<noteq> 0"
proof -
  obtain q where q: "NewBoundedQueue DefaultQueueBytes DefaultQueueFrames = Some q"
    using assms by (auto simp: newSession_def split: if_splits option.splits)
  then have "bq_maxBytes q = DefaultQueueBytes" "\<not> bq_closed q"
    by (auto simp: NewBoundedQueue_def split: if_splits)
  with assms q bq_new_ok [OF q]
  show "session_ok s" and "session_ident s = (e, d, c, n)" and "\<not> se_once s" and "\<not> bq_closed (se_queue s)"
    and "e \<noteq> []" and "n \<noteq> 0"
    by (auto simp: newSession_def session_ok_def session_ident_def split: if_splits)
qed

lemma Session_Enqueue_gentle [simp]: "gentle s (fst (Session_Enqueue marshal envelope s))"
proof (cases envelope)
  case (Some e)
  obtain q err where q: "BoundedQueue_Enqueue marshal (se_queue s) envelope = (q, err)"
    by (cases "BoundedQueue_Enqueue marshal (se_queue s) envelope")
  have "bq_closed q = bq_closed (se_queue s) \<and> bq_maxBytes q = bq_maxBytes (se_queue s)"
    using q by (cases rule: Enqueue_cases) simp_all
  with Enqueue_ok [OF _ q] Some q show ?thesis
    by (auto simp: Session_Enqueue_def gentle_def session_ident_def session_ok_def route_of_session_def)
qed (simp add: Session_Enqueue_def)

lemma nextLocked_keeps:
  "nextLocked q = (q', r) \<Longrightarrow> bq_maxBytes q' = bq_maxBytes q \<and> bq_closed q' = bq_closed q"
  using next_loop_none [of 6 q q'] next_loop_some [of 6 q q']
  by (cases r) (auto simp: nextLocked_def bq_remove_def Let_def split: if_splits)

lemma write_round_gentle [simp]: "gentle s (fst (write_round written s))"
proof -
  obtain q r where q: "BoundedQueue_Dequeue (se_queue s) = (q, r)" by (cases "BoundedQueue_Dequeue (se_queue s)")
  obtain x where x: "nextLocked (se_queue s) = (q, x)"
    using q by (auto simp: BoundedQueue_Dequeue_def split: prod.splits option.splits)
  have keeps: "bq_maxBytes q = bq_maxBytes (se_queue s)" "bq_closed q = bq_closed (se_queue s)"
    using nextLocked_keeps [OF x] by simp_all
  have "r = DequeueClosed \<Longrightarrow> bq_closed q"
    using q by (auto simp: BoundedQueue_Dequeue_def split: prod.splits option.splits if_splits)
  with nextLocked_ok [OF _ x] keeps q show ?thesis
    by (auto simp: write_round_def gentle_def session_ident_def session_ok_def route_of_session_def Let_def
        split: dequeue_result.splits)
qed

lemma stop_keeps [simp]:
  "session_ident (session_stop status reason s) = session_ident s"
  "session_ok s \<Longrightarrow> session_ok (session_stop status reason s)"
  "session_ok s \<Longrightarrow> se_cancelled (session_stop status reason s)"
  "se_cancelled s \<Longrightarrow> se_cancelled (session_stop status reason s)"
  by (auto simp: session_stop_def session_ident_def session_ok_def route_of_session_def BoundedQueue_Close_def bq_ok_def)

subsection \<open>The invariant of a node\<close>

text \<open>
  A session that is no longer attached has been cancelled, or its queue has
  been closed, or a goroutine waits to stop it.
\<close>

definition stop_pending :: "node \<Rightarrow> session_ref \<Rightarrow> bool" where
  "stop_pending w r \<longleftrightarrow> (\<exists>d reason. (d, StopTimer r reason) \<in> set (no_timers w))"

definition released :: "node \<Rightarrow> session_ref \<Rightarrow> bool" where
  "released w r \<longleftrightarrow> se_cancelled (no_heap w r) \<or> bq_closed (se_queue (no_heap w r)) \<or> stop_pending w r"

definition slot_ok :: "node \<Rightarrow> string \<Rightarrow> session_ref \<Rightarrow> bool" where
  "slot_ok w e r \<longleftrightarrow> r < no_next w \<and> e \<noteq> [] \<and> se_endpointID (no_heap w r) = e \<and> se_epoch (no_heap w r) \<noteq> 0 \<and>
     \<not> se_once (no_heap w r) \<and> \<not> bq_closed (se_queue (no_heap w r)) \<and> \<not> stop_pending w r"

definition counts_ok :: "ConnectionManager \<Rightarrow> bool" where
  "counts_ok m \<longleftrightarrow> cm_active m = int (fmlen (cm_sessions m)) \<and> cm_active m \<le> cm_maxConnections m \<and>
     cm_active m \<le> cm_peak m \<and> cm_peak m \<le> cm_maxConnections m \<and>
     0 \<le> cm_handshakes m \<and> cm_handshakes m \<le> cm_maxHandshakes m \<and> (cm_revoked m \<longrightarrow> cm_draining m)"

definition node_ok :: "node \<Rightarrow> bool" where
  "node_ok w \<longleftrightarrow> counts_ok (no_manager w) \<and>
     (\<forall>r < no_next w. session_ok (no_heap w r)) \<and>
     (\<forall>r < no_next w. attached w r \<or> released w r) \<and>
     (\<forall>e r. fmlookup (cm_sessions (no_manager w)) e = Some r \<longrightarrow> slot_ok w e r) \<and>
     (\<forall>r. stop_pending w r \<longrightarrow> r < no_next w)"

lemma node_okD:
  assumes "node_ok w"
  shows "counts_ok (no_manager w)" and "r < no_next w \<Longrightarrow> session_ok (no_heap w r)"
    and "r < no_next w \<Longrightarrow> attached w r \<or> released w r"
    and "fmlookup (cm_sessions (no_manager w)) e = Some r \<Longrightarrow> slot_ok w e r"
    and "stop_pending w r \<Longrightarrow> r < no_next w"
  using assms by (simp_all add: node_ok_def)

lemma attached_iff: "attached w r \<longleftrightarrow> (\<exists>e. fmlookup (cm_sessions (no_manager w)) e = Some r)"
  by (auto simp: attached_def intro: fmranI elim: fmranE)

lemma attached_slot: "node_ok w \<Longrightarrow> attached w r \<Longrightarrow> slot_ok w (se_endpointID (no_heap w r)) r"
  by (metis attached_iff node_okD(4) slot_ok_def)

text \<open>Gentle changes of sessions, with whatever counters, keep the invariant.\<close>

lemma node_ok_gentle:
  assumes ok: "node_ok w" and counts: "counts_ok (no_manager w')"
    and same: "cm_sessions (no_manager w') = cm_sessions (no_manager w)" "no_next w' = no_next w"
    and pending: "\<And>r. stop_pending w' r = stop_pending w r"
    and gentle: "\<And>r. gentle (no_heap w r) (no_heap w' r)"
  shows "node_ok w'"
proof -
  have att: "attached w' r = attached w r" for r using same by (simp add: attached_def)
  have keep: "session_ok (no_heap w r) \<Longrightarrow> session_ok (no_heap w' r)" "released w r \<Longrightarrow> released w' r"
    "slot_ok w e r \<Longrightarrow> slot_ok w' e r" for e r
    using gentle [of r] pending same by (auto simp: gentle_def released_def slot_ok_def session_ident_def)
  from ok counts keep att pending same show ?thesis by (simp add: node_ok_def) blast
qed

lemma node_ok_counters:
  assumes "node_ok w" and "counts_ok (f (no_manager w))" and "cm_sessions (f (no_manager w)) = cm_sessions (no_manager w)"
  shows "node_ok (on_manager f w)"
  by (rule node_ok_gentle [OF assms(1)]) (use assms in \<open>simp_all add: stop_pending_def\<close>)

lemma node_ok_signal: "node_ok w \<Longrightarrow> node_ok (signal_routes w)"
  unfolding signal_routes_def by (rule node_ok_counters) (simp_all add: node_ok_def counts_ok_def)

lemma node_ok_session: "node_ok w \<Longrightarrow> gentle (no_heap w r) (f (no_heap w r)) \<Longrightarrow> node_ok (on_session r f w)"
  by (rule node_ok_gentle) (auto simp: node_ok_def stop_pending_def)

lemma fmlen_drop_le: "fmlookup m k = Some v \<Longrightarrow> int (fmlen (fmdrop k m)) = int (fmlen m) - 1"
  using fmlen_pos [of m k v] by (simp add: fmlen_drop)

lemma attached_cong: "cm_sessions (no_manager w') = cm_sessions (no_manager w) \<Longrightarrow> attached w' r = attached w r"
  by (simp add: attached_def)

text \<open>Taking an exact session out of the table, when it is released in the same step.\<close>

lemma node_ok_removed:
  assumes ok: "node_ok w" and at: "fmlookup (cm_sessions (no_manager w)) e = Some r"
    and table: "cm_sessions (no_manager w') = fmdrop e (cm_sessions (no_manager w))" and counts: "counts_ok (no_manager w')"
    and same: "no_next w' = no_next w" "\<And>q. q \<noteq> r \<Longrightarrow> no_heap w' q = no_heap w q" "\<And>q. q \<noteq> r \<Longrightarrow> stop_pending w' q = stop_pending w q"
    and gone: "session_ok (no_heap w' r)" "released w' r"
  shows "node_ok w'"
proof -
  have slot: "slot_ok w e r" by (rule node_okD(4) [OF ok at])
  then have r: "r < no_next w" by (simp add: slot_ok_def)
  have only: "q \<noteq> r" if "fmlookup (cm_sessions (no_manager w)) e' = Some q" "e' \<noteq> e" for e' q
    using node_okD(4) [OF ok that(1)] slot that(2) by (auto simp: slot_ok_def)
  have "attached w' q \<or> released w' q" if q: "q < no_next w" for q
  proof (cases "q = r")
    case False
    consider (att) "attached w q" | (rel) "released w q" using node_okD(3) [OF ok q] by auto
    then show ?thesis
    proof cases
      case att
      then obtain e' where e': "fmlookup (cm_sessions (no_manager w)) e' = Some q" by (auto simp: attached_iff)
      with at False have "e' \<noteq> e" by auto
      with e' show ?thesis by (auto simp: attached_iff table)
    next
      case rel
      with False same show ?thesis by (simp add: released_def)
    qed
  qed (use gone in simp)
  moreover have "slot_ok w' e' q" if "fmlookup (cm_sessions (no_manager w')) e' = Some q" for e' q
  proof -
    have e': "fmlookup (cm_sessions (no_manager w)) e' = Some q" "e' \<noteq> e" using that table by (auto split: if_splits)
    with only [OF e'] node_okD(4) [OF ok e'(1)] same show ?thesis by (simp add: slot_ok_def)
  qed
  moreover have "session_ok (no_heap w' q)" if "q < no_next w" for q
    using gone node_okD(2) [OF ok that] same(2) by (cases "q = r") simp_all
  moreover have "q < no_next w" if "stop_pending w' q" for q
    using that r same(3) node_okD(5) [OF ok, of q] by (cases "q = r") simp_all
  ultimately show ?thesis using counts same(1) by (simp add: node_ok_def)
qed

lemma counts_ok_drop:
  assumes "counts_ok m" and "fmlookup (cm_sessions m) e = Some r"
  shows "counts_ok (m\<lparr>cm_sessions := fmdrop e (cm_sessions m), cm_active := cm_active m - 1\<rparr>)"
  using assms fmlen_drop_le [OF assms(2)] by (simp add: counts_ok_def)

lemma exact_session_at:
  assumes "exact_session e c n w = Some r"
  shows "fmlookup (cm_sessions (no_manager w)) e = Some r" and "se_connectionID (no_heap w r) = c" and "se_epoch (no_heap w r) = n"
  using assms by (auto simp: exact_session_def split: option.splits if_splits)

lemma gentle_ok: "gentle s s' \<Longrightarrow> session_ok s \<Longrightarrow> session_ok s'"
  by (simp add: gentle_def)

lemma node_ok_detach: "node_ok w \<Longrightarrow> node_ok (DetachEndpoint e c n w)"
proof (cases "exact_session e c n w")
  case (Some r)
  assume ok: "node_ok w"
  note at = exact_session_at(1) [OF Some]
  define w1 where "w1 = on_session r (\<lambda>s. s\<lparr>se_cancelled := True, se_queue := BoundedQueue_Close (se_queue s)\<rparr>) (drop_session e w)"
  have s: "session_ok (no_heap w r)" using node_okD(2,4) [OF ok] at by (auto simp: slot_ok_def)
  have "node_ok w1"
    by (rule node_ok_removed [OF ok at])
      (use s counts_ok_drop [OF node_okD(1) [OF ok] at] in \<open>simp_all add: w1_def drop_session_def stop_pending_def released_def
        session_ok_def route_of_session_def BoundedQueue_Close_def bq_ok_def\<close>)
  then show ?thesis using Some node_ok_signal by (simp add: DetachEndpoint_def Let_def w1_def)
qed (simp add: DetachEndpoint_def)

lemma node_ok_reject: "node_ok w \<Longrightarrow> node_ok (fst (manager_RejectResident marshal content d c n reason w))"
proof -
  assume ok: "node_ok w"
  have "fst (manager_RejectResident marshal content d c n reason w) = w \<or>
      (\<exists>r. exact_session d c n w = Some r \<and> fst (manager_RejectResident marshal content d c n reason w) =
        start_timer (250 * Millisecond) (StopTimer r ''Host rejected resident route'')
          (on_session r (\<lambda>s. fst (Session_Enqueue marshal (Some (goAwayEnvelope content n reason 0 True)) s))
            (signal_routes (drop_session d w))))"
    unfolding manager_RejectResident_def Let_def by (simp split: option.split)
  then show ?thesis
  proof (elim disjE exE conjE)
    fix r
    assume 2: "exact_session d c n w = Some r" "fst (manager_RejectResident marshal content d c n reason w) =
        start_timer (250 * Millisecond) (StopTimer r ''Host rejected resident route'')
          (on_session r (\<lambda>s. fst (Session_Enqueue marshal (Some (goAwayEnvelope content n reason 0 True)) s))
            (signal_routes (drop_session d w)))"
    note at = exact_session_at(1) [OF 2(1)]
    have s: "session_ok (no_heap w r)" using node_okD(2,4) [OF ok] at by (auto simp: slot_ok_def)
    show ?thesis
      unfolding 2(2)
      by (rule node_ok_removed [OF ok at])
        (use counts_ok_drop [OF node_okD(1) [OF ok] at] gentle_ok [OF Session_Enqueue_gentle s]
          in \<open>auto simp: drop_session_def signal_routes_def stop_pending_def released_def counts_ok_def\<close>)
  qed (use ok in simp)
qed

text \<open>Attaching: a new session, and an older one of the endpoint that will be stopped.\<close>

lemma attach_cases:
  fixes w session
  defines "e \<equiv> se_endpointID session" and "m \<equiv> no_manager w"
  obtains (refused) err where "attach_locked marshal content session w = (w, Inl err)"
  | (fresh) "Accepting m" and "fmlookup (cm_sessions m) e = None" and "int (fmlen (cm_sessions m)) < cm_maxConnections m"
      and "attach_locked marshal content session w =
        (w\<lparr>no_manager := m\<lparr>cm_sessions := fmupd e (no_next w) (cm_sessions m), cm_active := cm_active m + 1,
             cm_peak := max (cm_peak m) (cm_active m + 1)\<rparr>,
           no_heap := (no_heap w)(no_next w := session), no_next := no_next w + 1\<rparr>, Inr (no_next w))"
  | (superseded) old where "Accepting m" and "fmlookup (cm_sessions m) e = Some old"
      and "se_epoch (no_heap w old) < se_epoch session"
      and "attach_locked marshal content session w =
        (start_timer (250 * Millisecond) (StopTimer old ''superseded connection'')
          (on_session old (\<lambda>s. fst (Session_Enqueue marshal (Some (goAwayEnvelope content (se_epoch s) GO_AWAY_GRANT_REVOKED 0 True)) s))
            (w\<lparr>no_manager := m\<lparr>cm_sessions := fmupd e (no_next w) (cm_sessions m), cm_superseded := cm_superseded m + 1\<rparr>,
               no_heap := (no_heap w)(no_next w := session), no_next := no_next w + 1\<rparr>)), Inr (no_next w))"
proof (cases "fmlookup (cm_sessions m) e")
  case None
  then show thesis using refused fresh
    by (cases "Accepting m"; cases "int (fmlen (cm_sessions m)) \<ge> cm_maxConnections m")
      (simp_all add: attach_locked_def Let_def e_def m_def)
next
  case (Some old)
  then show thesis using refused superseded
    by (cases "Accepting m"; cases "se_epoch session \<le> se_epoch (no_heap w old)")
      (simp_all add: attach_locked_def Let_def e_def m_def)
qed

lemma node_ok_add:
  assumes ok: "node_ok w" and session: "newSession e d c n = Inr session"
    and table: "cm_sessions (no_manager w') = fmupd e (no_next w) (cm_sessions (no_manager w))" and counts: "counts_ok (no_manager w')"
    and same: "no_next w' = no_next w + 1" "no_heap w' (no_next w) = session" "\<not> stop_pending w' (no_next w)"
    and others: "\<And>q. q < no_next w \<Longrightarrow> gentle (no_heap w q) (no_heap w' q)"
    and timers: "\<And>q. stop_pending w' q = (stop_pending w q \<or> fmlookup (cm_sessions (no_manager w)) e = Some q)"
  shows "node_ok w'"
proof -
  note new = new_session_ok [OF session]
  have slot: "slot_ok w' e' q" if "fmlookup (cm_sessions (no_manager w')) e' = Some q" for e' q
  proof (cases "e' = e")
    case True
    with that table same new show ?thesis by (auto simp: slot_ok_def session_ident_def)
  next
    case False
    then have e': "fmlookup (cm_sessions (no_manager w)) e' = Some q" using that table by simp
    have s: "slot_ok w e' q" by (rule node_okD(4) [OF ok e'])
    have "fmlookup (cm_sessions (no_manager w)) e \<noteq> Some q"
      using node_okD(4) [OF ok, of e q] s False by (auto simp: slot_ok_def)
    with s same others [of q] timers [of q] show ?thesis by (auto simp: slot_ok_def gentle_def session_ident_def)
  qed
  have held: "attached w' q \<or> released w' q" if q: "q < no_next w + 1" for q
  proof (cases "q = no_next w")
    case True
    with table show ?thesis by (auto simp: attached_iff)
  next
    case False
    with q have q: "q < no_next w" by simp
    consider (rel) "released w q" | (att) e' where "fmlookup (cm_sessions (no_manager w)) e' = Some q"
      using node_okD(3) [OF ok q] by (auto simp: attached_iff)
    then show ?thesis
    proof cases
      case rel
      with others [OF q] timers [of q] show ?thesis by (auto simp: released_def gentle_def)
    next
      case att
      with table timers [of q] show ?thesis by (cases "e' = e") (auto simp: attached_iff released_def intro: exI [of _ e'])
    qed
  qed
  have sound: "session_ok (no_heap w' q)" if "q < no_next w + 1" for q
    using that new same gentle_ok [OF others] node_okD(2) [OF ok] by (cases "q = no_next w") simp_all
  have old: "q < no_next w + 1" if "stop_pending w' q" for q
    using that timers [of q] node_okD(4,5) [OF ok] by (auto simp: slot_ok_def intro: less_SucI)
  from slot held sound old counts same(1) show ?thesis by (simp add: node_ok_def)
qed

lemma node_ok_attach:
  assumes ok: "node_ok w" and session: "newSession e d c n = Inr session"
  shows "node_ok (fst (attach_locked marshal content session w))"
proof -
  have e: "se_endpointID session = e" using new_session_ok(2) [OF session] by (simp add: session_ident_def)
  have fresh_ref: "\<not> stop_pending w (no_next w)" "fmlookup (cm_sessions (no_manager w)) e' \<noteq> Some (no_next w)" for e'
    using node_okD(4,5) [OF ok] by (auto simp: slot_ok_def)
  show ?thesis
  proof (cases rule: attach_cases [of marshal content session w])
    case fresh
    then show ?thesis
      using e fresh_ref node_okD(1) [OF ok]
      by (intro node_ok_add [OF ok session]) (simp_all add: stop_pending_def counts_ok_def fmlen_upd)
  next
    case (superseded old)
    have old: "old < no_next w" using node_okD(4) [OF ok superseded(2)] by (simp add: slot_ok_def)
    show ?thesis
      unfolding superseded(4) fst_conv
      by (rule node_ok_add [OF ok session])
        (use e old superseded(2) fresh_ref node_okD(1) [OF ok] in \<open>auto simp: stop_pending_def counts_ok_def fmlen_upd\<close>)
  qed (use ok in simp)
qed

text \<open>Closing everything.\<close>

lemma node_ok_close_all: "node_ok w \<Longrightarrow> node_ok (manager_CloseAll status reason w)"
proof -
  assume ok: "node_ok w"
  define w1 where "w1 = w\<lparr>no_heap := (\<lambda>r. if attached w r then session_stop status reason (no_heap w r) else no_heap w r),
            no_manager := (no_manager w)\<lparr>cm_sessions := fmempty, cm_active := 0\<rparr>\<rparr>"
  have "released w1 r" if "r < no_next w" for r
    using node_okD(2,3) [OF ok that] by (auto simp: released_def w1_def stop_pending_def)
  moreover have "session_ok (no_heap w1 r)" if "r < no_next w" for r
    using node_okD(2) [OF ok that] by (simp add: w1_def)
  moreover have "counts_ok (no_manager w1)" using node_okD(1) [OF ok] by (simp add: counts_ok_def w1_def)
  moreover have "stop_pending w1 r = stop_pending w r" for r by (simp add: stop_pending_def w1_def)
  ultimately have "node_ok w1"
    using node_okD(5) [OF ok] by (simp add: node_ok_def w1_def)
  then show ?thesis using node_ok_signal by (simp add: manager_CloseAll_def Let_def w1_def)
qed

lemma node_ok_bind: "node_ok w \<Longrightarrow> node_ok (fst (BindResidentRoute now e c n route w))"
proof -
  assume ok: "node_ok w"
  have "fst (BindResidentRoute now e c n route w) = w \<or>
      (\<exists>r. exact_session e c n w = Some r \<and> route_of_session (no_heap w r) route \<and>
        fst (BindResidentRoute now e c n route w) =
          signal_routes (on_session r (\<lambda>s. s\<lparr>se_route := Some (route\<lparr>rt_ConnectedAt := now\<rparr>)\<rparr>) w))"
    using exact_session_at [of e c n w]
    by (auto simp: BindResidentRoute_def route_of_session_def split: option.split)
  then show ?thesis
  proof (elim disjE exE conjE)
    fix r
    assume bind: "route_of_session (no_heap w r) route"
      and w': "fst (BindResidentRoute now e c n route w) =
          signal_routes (on_session r (\<lambda>s. s\<lparr>se_route := Some (route\<lparr>rt_ConnectedAt := now\<rparr>)\<rparr>) w)"
    have "gentle (no_heap w r) ((no_heap w r)\<lparr>se_route := Some (route\<lparr>rt_ConnectedAt := now\<rparr>)\<rparr>)"
      using bind by (auto simp: gentle_def session_ident_def session_ok_def route_of_session_def)
    then show ?thesis unfolding w' by (intro node_ok_signal node_ok_session [OF ok])
  qed (use ok in simp)
qed

lemma node_ok_enqueue: "node_ok w \<Longrightarrow> node_ok (fst (EnqueueEndpoint marshal e n envelope w))"
proof -
  assume ok: "node_ok w"
  define w1 where "w1 = (\<lambda>r. on_session r (\<lambda>s. fst (Session_Enqueue marshal envelope s)) w)"
  have ok1: "node_ok (w1 r)" for r unfolding w1_def by (rule node_ok_session [OF ok]) simp
  then have "node_ok (on_manager (\<lambda>m. m\<lparr>cm_queueRejected := cm_queueRejected m + 1\<rparr>) (w1 r))" for r
    by (rule node_ok_counters) (use node_okD(1) [OF ok1 [of r]] in \<open>simp_all add: counts_ok_def\<close>)
  with ok ok1 show ?thesis by (simp add: EnqueueEndpoint_def Let_def w1_def split: option.split)
qed

lemma node_ok_notify: "node_ok w \<Longrightarrow> node_ok (NotifyAll marshal content reason after refresh w)"
  by (rule node_ok_gentle [where w = w]) (simp_all add: NotifyAll_def Let_def stop_pending_def node_ok_def)

lemma node_ok_start:
  assumes "node_ok w" and "\<And>r reason. t \<noteq> StopTimer r reason"
  shows "node_ok (start_timer d t w)"
  by (rule node_ok_gentle [OF assms(1)]) (use assms in \<open>auto simp: stop_pending_def node_ok_def\<close>)

lemma node_ok_drain: "node_ok w \<Longrightarrow> node_ok (BeginDrain marshal content reason after refresh deadline w)"
  unfolding BeginDrain_def Let_def
  by (auto intro!: node_ok_start node_ok_notify node_ok_counters simp: node_okD(1) counts_ok_def dest: node_okD(1))

lemma node_ok_revoke: "node_ok w \<Longrightarrow> node_ok (Revoke marshal content w)"
  unfolding Revoke_def Let_def
  by (auto intro!: node_ok_start node_ok_notify node_ok_counters simp: node_okD(1) counts_ok_def dest: node_okD(1))

text \<open>A timer fires: its goroutine is gone, and so is what it waited for.\<close>

lemma node_ok_timer:
  assumes ok: "node_ok w" and i: "i < length (no_timers w)"
  shows "node_ok (timer_fired doneFirst (snd (no_timers w ! i)) (w\<lparr>no_timers := take i (no_timers w) @ drop (Suc i) (no_timers w)\<rparr>))"
proof -
  let ?ts = "take i (no_timers w) @ drop (Suc i) (no_timers w)"
  define w1 where "w1 = w\<lparr>no_timers := ?ts\<rparr>"
  have ts: "set (no_timers w) = insert (no_timers w ! i) (set ?ts)"
    using arg_cong [OF id_take_nth_drop [OF i], of set] by simp
  obtain d t where t: "no_timers w ! i = (d, t)" by (cases "no_timers w ! i")
  show ?thesis
  proof (cases t)
    case (StopTimer r reason)
    have r: "r < no_next w" using node_okD(5) [OF ok, of r] nth_mem [OF i] t StopTimer by (auto simp: stop_pending_def)
    have s: "session_ok (no_heap w r)" by (rule node_okD(2) [OF ok r])
    have free: "\<not> attached w r"
    proof
      assume "attached w r"
      then have "slot_ok w (se_endpointID (no_heap w r)) r" by (rule attached_slot [OF ok])
      with nth_mem [OF i] t StopTimer show False by (auto simp: slot_ok_def stop_pending_def)
    qed
    have pending: "stop_pending w q = (stop_pending w1 q \<or> q = r)" for q
      using ts t StopTimer by (auto simp: stop_pending_def w1_def)
    define w' where "w' = (if se_done (no_heap w r) \<and> doneFirst then w1 else on_session r (session_stop StatusPolicyViolation reason) w1)"
    have w': "no_manager w' = no_manager w" "no_next w' = no_next w" "no_timers w' = ?ts" "q \<noteq> r \<Longrightarrow> no_heap w' q = no_heap w q" for q
      by (simp_all add: w'_def w1_def)
    have here: "session_ok (no_heap w' r)" "released w' r"
      using s session_ok_done [OF s]
      by (auto simp: w'_def w1_def released_def)
    have others: "released w' q" if "released w q" "q \<noteq> r" for q
      using that pending [of q] w' by (auto simp: released_def stop_pending_def w1_def)
    have "slot_ok w' e q" if "fmlookup (cm_sessions (no_manager w)) e = Some q" for e q
    proof -
      have "q \<noteq> r" using that free by (auto simp: attached_iff)
      with node_okD(4) [OF ok that] pending [of q] w' show ?thesis by (auto simp: slot_ok_def stop_pending_def w1_def)
    qed
    moreover have "attached w' q \<or> released w' q" if "q < no_next w" for q
      using node_okD(3) [OF ok that] here others w'(1) attached_cong [of w' w q] by (cases "q = r") auto
    moreover have "session_ok (no_heap w' q)" if "q < no_next w" for q
      using node_okD(2) [OF ok that] here w'(4) by (cases "q = r") simp_all
    moreover have "q < no_next w" if "stop_pending w' q" for q
      using node_okD(5) [OF ok, of q] that pending [of q] w' by (simp add: stop_pending_def w1_def)
    ultimately have "node_ok w'" using w' node_okD(1) [OF ok] by (simp add: node_ok_def)
    moreover have "no_heap w1 = no_heap w" by (simp add: w1_def)
    then have "timer_fired doneFirst (snd (no_timers w ! i)) w1 = w'"
      by (simp add: fired_defs t StopTimer w'_def)
    ultimately show ?thesis by (simp add: w1_def)
  next
    case (DrainTimer g)
    with t have "no_timers w ! i = (d, DrainTimer g)" by simp
    with ts have "stop_pending w1 q = stop_pending w q" for q by (auto simp: stop_pending_def w1_def)
    then have "node_ok w1" by (intro node_ok_gentle [OF ok]) (use node_okD(1) [OF ok] in \<open>simp_all add: w1_def\<close>)
    then show ?thesis using node_ok_close_all t DrainTimer by (simp add: fired_defs w1_def)
  next
    case (RevokeTimer g)
    with t have "no_timers w ! i = (d, RevokeTimer g)" by simp
    with ts have "stop_pending w1 q = stop_pending w q" for q by (auto simp: stop_pending_def w1_def)
    then have "node_ok w1" by (intro node_ok_gentle [OF ok]) (use node_okD(1) [OF ok] in \<open>simp_all add: w1_def\<close>)
    then show ?thesis using node_ok_close_all t RevokeTimer by (simp add: fired_defs w1_def)
  qed
qed

lemma node_ok_write:
  assumes ok: "node_ok w"
  shows "node_ok (cm_step marshal content w (EvWrite r written latency))"
proof -
  define w1 where "w1 = on_session r (\<lambda>s. fst (write_round written s)) w"
  have ok1: "node_ok w1" unfolding w1_def by (rule node_ok_session [OF ok]) simp
  have "node_ok (on_manager (RecordEgress n latency) w1)" for n
    by (rule node_ok_counters [OF ok1]) (use node_okD(1) [OF ok1] in \<open>simp_all add: RecordEgress_def counts_ok_def Let_def\<close>)
  with ok ok1 show ?thesis by (simp add: w1_def [symmetric] Let_def split: option.split)
qed

lemma cm_step_ok:
  assumes ok: "node_ok w"
  shows "node_ok (cm_step marshal content w ev)"
proof -
  have counts: "counts_ok (no_manager w)" by (rule node_okD(1) [OF ok])
  show ?thesis
  proof (cases ev)
    case (EvAttach e d c n)
    then show ?thesis using ok node_ok_attach by (auto simp: AttachEndpoint_def split: sum.split)
  next
    case (EvAttachLocked e d c n)
    then show ?thesis using ok node_ok_attach by (auto split: sum.split)
  next
    case (EvTimer i doneFirst)
    then show ?thesis using ok node_ok_timer by simp
  next
    case (EvWrite r written latency)
    then show ?thesis using node_ok_write [OF ok] by simp
  next
    case EvResume
    show ?thesis unfolding EvResume cm_step.simps
      by (rule node_ok_counters [OF ok]) (use counts in \<open>simp_all add: Resume_def counts_ok_def\<close>)
  next
    case (EvAcquire cancelled slotFirst)
    show ?thesis unfolding EvAcquire cm_step.simps
      by (rule node_ok_counters [OF ok])
        (use counts in \<open>auto simp: AcquireHandshake_def acquire_slot_def acquire_confirm_def Accepting_def counts_ok_def\<close>)
  next
    case EvConfirm
    show ?thesis unfolding EvConfirm cm_step.simps using ok counts
      by (auto intro!: node_ok_counters simp: acquire_confirm_def counts_ok_def)
  next
    case EvRelease
    show ?thesis unfolding EvRelease cm_step.simps
      by (rule node_ok_counters [OF ok]) (use counts in \<open>simp_all add: ReleaseHandshake_def counts_ok_def\<close>)
  next
    case (EvHandshake success)
    show ?thesis unfolding EvHandshake cm_step.simps
      by (rule node_ok_counters [OF ok]) (use counts in \<open>simp_all add: RecordHandshake_def counts_ok_def\<close>)
  next
    case EvRouteRejection
    show ?thesis unfolding EvRouteRejection cm_step.simps
      by (rule node_ok_counters [OF ok]) (use counts in \<open>simp_all add: RecordRouteRejection_def counts_ok_def\<close>)
  next
    case EvRateLimit
    show ?thesis unfolding EvRateLimit cm_step.simps
      by (rule node_ok_counters [OF ok]) (use counts in \<open>simp_all add: RecordRateLimit_def counts_ok_def\<close>)
  next
    case (EvIngress n)
    show ?thesis unfolding EvIngress cm_step.simps
      by (rule node_ok_counters [OF ok]) (use counts in \<open>simp_all add: RecordIngress_def counts_ok_def\<close>)
  qed (use ok in \<open>simp_all add: node_ok_detach node_ok_bind node_ok_reject node_ok_enqueue node_ok_notify node_ok_close_all
      node_ok_drain node_ok_revoke\<close>)
qed

lemma cm_run_ok: "node_ok w \<Longrightarrow> node_ok (cm_run marshal content w es)"
  by (induction es arbitrary: w) (simp_all add: cm_step_ok)

lemma new_node_ok: "NewConnectionManager mc mh = Some m \<Longrightarrow> node_ok (new_node m heap)"
  by (auto simp: NewConnectionManager_def new_node_def node_ok_def counts_ok_def stop_pending_def split: if_splits)

subsection \<open>Limits and revocation over a history\<close>

lemma signal_manager [simp]:
  "cm_maxConnections (no_manager (signal_routes w)) = cm_maxConnections (no_manager w)"
  "cm_sessions (no_manager (signal_routes w)) = cm_sessions (no_manager w)"
  "cm_revoked (no_manager (signal_routes w)) = cm_revoked (no_manager w)"
  "cm_drainGeneration (no_manager (signal_routes w)) = cm_drainGeneration (no_manager w)"
  "no_next (signal_routes w) = no_next w" "no_timers (signal_routes w) = no_timers w" "no_heap (signal_routes w) = no_heap w"
  by (simp_all add: signal_routes_def)

lemma close_all_manager [simp]:
  "cm_maxConnections (no_manager (manager_CloseAll status reason w)) = cm_maxConnections (no_manager w)"
  "cm_sessions (no_manager (manager_CloseAll status reason w)) = fmempty"
  "cm_revoked (no_manager (manager_CloseAll status reason w)) = cm_revoked (no_manager w)"
  "cm_drainGeneration (no_manager (manager_CloseAll status reason w)) = cm_drainGeneration (no_manager w)"
  "no_next (manager_CloseAll status reason w) = no_next w" "no_timers (manager_CloseAll status reason w) = no_timers w"
  by (simp_all add: manager_CloseAll_def Let_def)

lemma notify_manager [simp]:
  "no_manager (NotifyAll marshal content reason after refresh w) = no_manager w"
  "no_next (NotifyAll marshal content reason after refresh w) = no_next w"
  "no_timers (NotifyAll marshal content reason after refresh w) = no_timers w"
  by (simp_all add: NotifyAll_def)

lemma attach_limit: "cm_maxConnections (no_manager (fst (attach_locked marshal content s w))) = cm_maxConnections (no_manager w)"
  by (cases rule: attach_cases [of marshal content s w]) simp_all

lemma cm_step_limit: "cm_maxConnections (no_manager (cm_step marshal content w ev)) = cm_maxConnections (no_manager w)"
proof (cases ev)
  case (EvAttach e d c n)
  then show ?thesis using attach_limit by (simp add: AttachEndpoint_def split: sum.split)
next
  case (EvAttachLocked e d c n)
  then show ?thesis using attach_limit by (simp split: sum.split)
next
  case (EvTimer i doneFirst)
  then show ?thesis by (simp add: fired_defs split: node_timer.split)
qed (simp_all add: DetachEndpoint_def BindResidentRoute_def manager_RejectResident_def EnqueueEndpoint_def BeginDrain_def Revoke_def
    drop_session_def Resume_def AcquireHandshake_def acquire_slot_def acquire_confirm_def ReleaseHandshake_def RecordHandshake_def
    RecordRouteRejection_def RecordRateLimit_def RecordIngress_def RecordEgress_def Let_def split: option.split)

lemma cm_run_limit: "cm_maxConnections (no_manager (cm_run marshal content w es)) = cm_maxConnections (no_manager w)"
  by (induction es arbitrary: w) (simp_all add: cm_step_limit)

text \<open>The bytes queued on all attached sessions.\<close>

lemma queued_bytes_bound:
  assumes ok: "node_ok w" and ord: "distinct (ord (fmdom (cm_sessions (no_manager w))))"
    "set (ord (fmdom (cm_sessions (no_manager w)))) = fset (fmdom (cm_sessions (no_manager w)))"
  shows "me_QueueBytes (Metrics ord w) \<le> DefaultQueueBytes * cm_active (no_manager w)"
proof -
  let ?m = "cm_sessions (no_manager w)"
  let ?rs = "List.map_filter (fmlookup ?m) (ord (fmdom ?m))"
  have len: "length ?rs \<le> fmlen ?m"
  proof -
    have "length ?rs \<le> length (ord (fmdom ?m))" by (simp add: List.map_filter_def)
    also have "\<dots> = fmlen ?m" using distinct_card [OF ord(1)] ord(2) by (simp add: fmlen_def fcard.rep_eq)
    finally show ?thesis .
  qed
  have "snd (BoundedQueue_Usage (se_queue (no_heap w r))) \<le> DefaultQueueBytes" if r: "r \<in> set ?rs" for r
  proof -
    obtain e where "fmlookup ?m e = Some r" using r by (auto simp: List.map_filter_def)
    from node_okD(4) [OF ok this] have "r < no_next w" by (simp add: slot_ok_def)
    from node_okD(2) [OF ok this] show ?thesis by (simp add: session_ok_def BoundedQueue_Usage_def bq_ok_def)
  qed
  then have "sum_list (map snd (map (\<lambda>r. BoundedQueue_Usage (se_queue (no_heap w r))) ?rs)) \<le> (\<Sum>r\<leftarrow>?rs. DefaultQueueBytes)"
    unfolding map_map o_def by (rule sum_list_mono)
  also have "\<dots> = DefaultQueueBytes * int (length ?rs)" by (simp add: sum_list_triv)
  also have "\<dots> \<le> DefaultQueueBytes * cm_active (no_manager w)"
    using len node_okD(1) [OF ok] by (intro mult_left_mono) (simp_all add: counts_ok_def DefaultQueueBytes_def)
  finally show ?thesis by (simp add: Metrics_def Let_def)
qed

text \<open>After a revocation at generation \<open>g\<close> of a node with the sessions \<open>old\<close>.\<close>

definition revoked_since :: "u64 \<Rightarrow> (string, session_ref) fmap \<Rightarrow> session_ref \<Rightarrow> node \<Rightarrow> bool" where
  "revoked_since g old n w \<longleftrightarrow> cm_revoked (no_manager w) \<and> cm_drainGeneration (no_manager w) = g \<and> no_next w = n \<and>
     (\<forall>e r. fmlookup (cm_sessions (no_manager w)) e = Some r \<longrightarrow> fmlookup old e = Some r) \<and>
     ((Second, RevokeTimer g) \<in> set (no_timers w) \<or> cm_sessions (no_manager w) = fmempty)"

lemma revoked_since_keeps:
  assumes "revoked_since g old n w" and "cm_revoked (no_manager w') = cm_revoked (no_manager w)"
    "cm_drainGeneration (no_manager w') = cm_drainGeneration (no_manager w)" "no_next w' = no_next w"
    "cm_sessions (no_manager w') = cm_sessions (no_manager w)" "set (no_timers w) \<subseteq> set (no_timers w')"
  shows "revoked_since g old n w'"
  using assms by (auto simp: revoked_since_def)

lemma revoked_since_drop:
  assumes "revoked_since g old n w" and "cm_revoked (no_manager w') = cm_revoked (no_manager w)"
    "cm_drainGeneration (no_manager w') = cm_drainGeneration (no_manager w)" "no_next w' = no_next w"
    "cm_sessions (no_manager w') = fmdrop e (cm_sessions (no_manager w))" "set (no_timers w) \<subseteq> set (no_timers w')"
  shows "revoked_since g old n w'"
  using assms by (auto simp: revoked_since_def)

lemma revoked_since_step:
  assumes r: "revoked_since g old n w"
  shows "revoked_since g old n (cm_step marshal content w ev)"
proof -
  have off: "\<not> Accepting (no_manager w)" "cm_revoked (no_manager w)" using r by (simp_all add: revoked_since_def Accepting_def)
  show ?thesis
  proof (cases ev)
    case (EvAttach e d c n)
    then show ?thesis using r off by (simp add: AttachEndpoint_def)
  next
    case (EvAttachLocked e d c n)
    then show ?thesis using r off by (simp add: attach_locked_def Let_def split: sum.split)
  next
    case (EvDetach e c k)
    show ?thesis unfolding EvDetach cm_step.simps
    proof (cases "exact_session e c k w")
      case (Some q)
      show "revoked_since g old n (DetachEndpoint e c k w)"
        by (rule revoked_since_drop [OF r, where e = e]) (simp_all add: DetachEndpoint_def Some Let_def drop_session_def)
    qed (use r in \<open>simp add: DetachEndpoint_def\<close>)
  next
    case (EvReject d c k reason)
    show ?thesis unfolding EvReject cm_step.simps
    proof (cases "d = [] \<or> c = [] \<or> k = 0 \<or> exact_session d c k w = None \<or> se_route (no_heap w (the (exact_session d c k w))) = None")
      case True
      then have "fst (manager_RejectResident marshal content d c k reason w) = w"
        by (auto simp: manager_RejectResident_def split: option.split)
      with r show "revoked_since g old n (fst (manager_RejectResident marshal content d c k reason w))" by simp
    next
      case False
      then show "revoked_since g old n (fst (manager_RejectResident marshal content d c k reason w))"
        by (intro revoked_since_drop [OF r, where e = d]) (auto simp: manager_RejectResident_def Let_def drop_session_def)
    qed
  next
    case (EvCloseAll status reason)
    then show ?thesis using r by (simp add: revoked_since_def)
  next
    case (EvTimer i doneFirst)
    define ts where "ts = take i (no_timers w) @ drop (Suc i) (no_timers w)"
    show ?thesis
    proof (cases "i < length (no_timers w)")
      case True
      have set: "set (no_timers w) = insert (no_timers w ! i) (set ts)"
        using arg_cong [OF id_take_nth_drop [OF True], of set] by (simp add: ts_def)
      obtain d t where t: "no_timers w ! i = (d, t)" by (cases "no_timers w ! i")
      show ?thesis
      proof (cases "t = RevokeTimer g")
        case True
        with t r \<open>i < length (no_timers w)\<close> show ?thesis unfolding EvTimer
          by (simp add: fired_defs revoked_since_def)
      next
        case False
        then have "(Second, RevokeTimer g) \<in> set ts \<or> cm_sessions (no_manager w) = fmempty"
          using r set t by (auto simp: revoked_since_def)
        then have "revoked_since g old n (w\<lparr>no_timers := ts\<rparr>)" using r by (simp add: revoked_since_def)
        then have "revoked_since g old n (timer_fired doneFirst t (w\<lparr>no_timers := ts\<rparr>))"
          by (auto simp: fired_defs revoked_since_def split: node_timer.split)
        with \<open>i < length (no_timers w)\<close> t show ?thesis unfolding EvTimer by (simp add: ts_def)
      qed
    qed (use r EvTimer in simp)
  qed (use off in \<open>auto intro!: revoked_since_keeps [OF r] simp: BindResidentRoute_def EnqueueEndpoint_def BeginDrain_def Revoke_def
      Resume_def AcquireHandshake_def acquire_slot_def acquire_confirm_def ReleaseHandshake_def RecordHandshake_def
      RecordRouteRejection_def RecordRateLimit_def RecordIngress_def RecordEgress_def Let_def split: option.split\<close>)
qed

lemma revoked_since_run: "revoked_since g old n w \<Longrightarrow> revoked_since g old n (cm_run marshal content w es)"
  by (induction es arbitrary: w) (simp_all add: revoked_since_step)

lemma Revoke_revoked:
  assumes "\<not> cm_revoked (no_manager w)"
  shows "revoked_since (cm_drainGeneration (no_manager w) + 1) (cm_sessions (no_manager w)) (no_next w) (Revoke marshal content w)"
  using assms by (simp add: Revoke_def Let_def revoked_since_def)

subsection \<open>Properties\<close>

text \<open>
  C27. Bounds of a relay node: whatever calls, write rounds and timers happen,
  the number of attached sessions is what the counter says and stays within the
  configured maximum, as do its peak and the handshakes in progress; every
  session is attached under its own endpoint, a route is reported only for the
  very connection it was bound to, and all outbound queues together hold at
  most four MiB for each attached session.
\<close>

theorem node_bounds:
  fixes marshal :: "Envelope \<Rightarrow> bytes option" and content :: "GoAway \<Rightarrow> bytes" and heap :: "session_ref \<Rightarrow> Session"
    and es :: "cm_event list"
  assumes new: "NewConnectionManager maxConnections maxHandshakes = Some m"
    and ord: "\<And>ks. distinct (ord ks) \<and> set (ord ks) = fset ks"
  defines "w \<equiv> cm_run marshal content (new_node m heap) es"
  shows "cm_active (no_manager w) = int (fmlen (cm_sessions (no_manager w))) \<and>
    cm_active (no_manager w) \<le> cm_peak (no_manager w) \<and> cm_peak (no_manager w) \<le> maxConnections \<and>
    0 \<le> cm_handshakes (no_manager w) \<and> cm_handshakes (no_manager w) \<le> cm_maxHandshakes (no_manager w) \<and>
    (\<forall>e r. fmlookup (cm_sessions (no_manager w)) e = Some r \<longrightarrow> se_endpointID (no_heap w r) = e \<and>
       (\<forall>route. se_route (no_heap w r) = Some route \<longrightarrow> rt_DeviceID route = e \<and>
          rt_ConnectionID route = se_connectionID (no_heap w r) \<and> rt_ConnectionEpoch route = se_epoch (no_heap w r))) \<and>
    me_QueueBytes (Metrics ord w) \<le> 4 * 1024 * 1024 * maxConnections"
proof -
  have ok: "node_ok w" unfolding w_def by (rule cm_run_ok [OF new_node_ok [OF new]])
  have limit: "cm_maxConnections (no_manager w) = maxConnections"
    using new by (auto simp: w_def cm_run_limit new_node_def NewConnectionManager_def split: if_splits)
  have "me_QueueBytes (Metrics ord w) \<le> DefaultQueueBytes * cm_active (no_manager w)"
    using ord by (intro queued_bytes_bound [OF ok]) simp_all
  moreover have "se_endpointID (no_heap w r) = e \<and> (\<forall>route. se_route (no_heap w r) = Some route \<longrightarrow> rt_DeviceID route = e \<and>
      rt_ConnectionID route = se_connectionID (no_heap w r) \<and> rt_ConnectionEpoch route = se_epoch (no_heap w r))"
    if "fmlookup (cm_sessions (no_manager w)) e = Some r" for e r
    using node_okD(4) [OF ok that] node_okD(2) [OF ok, of r]
    by (simp add: slot_ok_def session_ok_def route_of_session_def)
  moreover have "counts_ok (no_manager w)" by (rule node_okD(1) [OF ok])
  ultimately show ?thesis using limit by (simp add: counts_ok_def DefaultQueueBytes_def)
qed

lemma sorted_keys: "distinct (sorted_list_of_set (fset ks)) \<and> set (sorted_list_of_set (fset ks)) = fset (ks :: string fset)"
  by simp

lemma sample_manager:
  obtains m where "NewConnectionManager 1 1 = Some m" "cm_sessions m = fmempty" "\<not> cm_revoked m" "\<not> cm_draining m"
    "cm_maxConnections m = 1"
  by (simp add: NewConnectionManager_def)

lemma sample_attached:
  assumes "NewConnectionManager 1 1 = Some m"
  shows "fmlookup (cm_sessions (no_manager (cm_run marshal content (new_node m heap) [EvAttach ''e'' ''e'' ''c'' 1]))) ''e'' = Some 0"
    and "no_next (cm_run marshal content (new_node m heap) [EvAttach ''e'' ''e'' ''c'' 1]) = 1"
  using assms by (auto simp: NewConnectionManager_def new_node_def AttachEndpoint_def Accepting_def newSession_def
      NewBoundedQueue_def DefaultQueueBytes_def DefaultQueueFrames_def AbsoluteFrameLimit_def attach_locked_def Let_def)

theorem node_bounds_witness:
  "\<exists>m. NewConnectionManager 1 1 = Some m \<and>
     cm_active (no_manager (cm_run (\<lambda>_. None) (\<lambda>_. []) (new_node m (\<lambda>_. undefined))
       [EvAttach ''e'' ''e'' ''c'' 1, EvAttach ''f'' ''f'' ''c'' 1])) \<le> 1"
proof -
  obtain m where m: "NewConnectionManager 1 1 = Some m" by (rule sample_manager)
  from node_bounds [OF m sorted_keys, of "\<lambda>_. None" "\<lambda>_. []" "\<lambda>_. undefined" "[EvAttach ''e'' ''e'' ''c'' 1, EvAttach ''f'' ''f'' ''c'' 1]"] m
  show ?thesis by (intro exI [of _ m]) linarith
qed

text \<open>
  C26. No session is leaked and none is closed by mistake: at any moment every
  session that was ever attached and has left the table (detached, superseded,
  rejected by the host, closed with all others) has been cancelled, or its queue
  is closed, or a goroutine is waiting to stop it; and a session in the table is
  not closed and nothing waits to stop it, so the delayed end of a superseded
  connection never hits its successor.
\<close>

theorem no_session_leaked:
  fixes marshal :: "Envelope \<Rightarrow> bytes option" and content :: "GoAway \<Rightarrow> bytes" and heap :: "session_ref \<Rightarrow> Session"
    and es :: "cm_event list"
  assumes new: "NewConnectionManager maxConnections maxHandshakes = Some m"
  defines "w \<equiv> cm_run marshal content (new_node m heap) es"
  shows "\<forall>r < no_next w.
    (r |\<notin>| fmran (cm_sessions (no_manager w)) \<longrightarrow>
       se_cancelled (no_heap w r) \<or> bq_closed (se_queue (no_heap w r)) \<or> (\<exists>d reason. (d, StopTimer r reason) \<in> set (no_timers w))) \<and>
    (r |\<in>| fmran (cm_sessions (no_manager w)) \<longrightarrow>
       \<not> bq_closed (se_queue (no_heap w r)) \<and> \<not> se_once (no_heap w r) \<and> (\<forall>d reason. (d, StopTimer r reason) \<notin> set (no_timers w)))"
proof (intro allI impI)
  fix r
  assume r: "r < no_next w"
  have ok: "node_ok w" unfolding w_def by (rule cm_run_ok [OF new_node_ok [OF new]])
  have "attached w r \<Longrightarrow> slot_ok w (se_endpointID (no_heap w r)) r" by (rule attached_slot [OF ok])
  with node_okD(3) [OF ok r] show "(r |\<notin>| fmran (cm_sessions (no_manager w)) \<longrightarrow>
       se_cancelled (no_heap w r) \<or> bq_closed (se_queue (no_heap w r)) \<or> (\<exists>d reason. (d, StopTimer r reason) \<in> set (no_timers w))) \<and>
    (r |\<in>| fmran (cm_sessions (no_manager w)) \<longrightarrow>
       \<not> bq_closed (se_queue (no_heap w r)) \<and> \<not> se_once (no_heap w r) \<and> (\<forall>d reason. (d, StopTimer r reason) \<notin> set (no_timers w)))"
    by (simp add: attached_def released_def slot_ok_def stop_pending_def) blast
qed

theorem no_session_leaked_witness:
  "\<exists>m. NewConnectionManager 1 1 = Some m \<and>
     \<not> bq_closed (se_queue (no_heap (cm_run (\<lambda>_. None) (\<lambda>_. []) (new_node m (\<lambda>_. undefined)) [EvAttach ''e'' ''e'' ''c'' 1]) 0))"
proof -
  obtain m where m: "NewConnectionManager 1 1 = Some m" by (rule sample_manager)
  note at = sample_attached [OF m, of "\<lambda>_. None" "\<lambda>_. []" "\<lambda>_. undefined"]
  from no_session_leaked [OF m, of "\<lambda>_. None" "\<lambda>_. []" "\<lambda>_. undefined" "[EvAttach ''e'' ''e'' ''c'' 1]"] at m
  show ?thesis by (auto intro: fmranI)
qed

text \<open>
  C19. Revocation is final: once \<open>Revoke\<close> has run, whatever else is called on
  the node (resuming included), it accepts nothing, no session is created and
  only sessions attached before can still be in the table; and they are there
  only as long as the goroutine that closes all of them is waiting for its
  second to pass.
\<close>

theorem revocation_final:
  fixes marshal :: "Envelope \<Rightarrow> bytes option" and content :: "GoAway \<Rightarrow> bytes" and heap :: "session_ref \<Rightarrow> Session"
    and es and fs :: "cm_event list"
  assumes "NewConnectionManager maxConnections maxHandshakes = Some m"
  defines "w \<equiv> cm_run marshal content (new_node m heap) es"
  assumes "\<not> cm_revoked (no_manager w)"
  defines "w' \<equiv> cm_run marshal content (Revoke marshal content w) fs"
  shows "\<not> Accepting (no_manager w') \<and> no_next w' = no_next w \<and>
    (\<forall>e r. fmlookup (cm_sessions (no_manager w')) e = Some r \<longrightarrow> fmlookup (cm_sessions (no_manager w)) e = Some r) \<and>
    (cm_sessions (no_manager w') = fmempty \<or> (Second, RevokeTimer (cm_drainGeneration (no_manager w'))) \<in> set (no_timers w'))"
  using revoked_since_run [OF Revoke_revoked [OF assms(3), of marshal content], of marshal content fs]
  by (auto simp: revoked_since_def Accepting_def w'_def)

theorem revocation_final_witness:
  "\<exists>m. NewConnectionManager 1 1 = Some m \<and>
     (let w = cm_run (\<lambda>_. None) (\<lambda>_. []) (Revoke (\<lambda>_. None) (\<lambda>_. [])
        (cm_run (\<lambda>_. None) (\<lambda>_. []) (new_node m (\<lambda>_. undefined)) [EvAttach ''e'' ''e'' ''c'' 1])) [EvResume, EvTimer 0 False]
      in \<not> Accepting (no_manager w) \<and> no_next w = 1)"
proof -
  obtain m where m: "NewConnectionManager 1 1 = Some m" "cm_sessions m = fmempty" "\<not> cm_revoked m" "\<not> cm_draining m"
    "cm_maxConnections m = 1" by (rule sample_manager)
  define w where "w = cm_run (\<lambda>_. None) (\<lambda>_. []) (new_node m (\<lambda>_. undefined)) [EvAttach ''e'' ''e'' ''c'' 1]"
  have "\<not> cm_revoked (no_manager w)"
    using m(2-5) by (simp add: w_def new_node_def AttachEndpoint_def attach_locked_def Let_def split: sum.split)
  from revocation_final [OF m(1), of "\<lambda>_. None" "\<lambda>_. []" "\<lambda>_. undefined" "[EvAttach ''e'' ''e'' ''c'' 1]" "[EvResume, EvTimer 0 False]",
      folded w_def, OF this] sample_attached(2) [OF m(1), of "\<lambda>_. None" "\<lambda>_. []" "\<lambda>_. undefined", folded w_def] m(1)
  show ?thesis by (intro exI [of _ m]) (simp add: w_def Let_def)
qed

end
