(* ===== verification/Operation_Journal.thy ===== *)
theory Operation_Journal
  imports Remote_Tickets V2_Carrier
begin

text \<open>
  The operation journal of the device agent, \<open>server/cmd/device-agent/v2_operation_store.go\<close>
  and \<open>v2_side_effect_store.go\<close>: the three SQLite tables that make a
  mutation of a remote controller happen at most once across retries and
  restarts of the agent, and the operations on them.

  A table is a finite map from its primary key; every \<open>CHECK\<close> of the schema is
  a guard of the insertion. A call opens the database, runs one transaction
  under the store's mutex and closes it, so a call is one step; what the
  database does is an argument of type \<open>tx_outcome\<close>. \<open>uuid.Validate\<close> and
  \<open>proto.Marshal\<close> are a parameter.
\<close>

subsection \<open>Messages, errors and libraries\<close>

text \<open>The deadline of a request is only handed to the dispatcher.\<close>

record RpcRequest =
  rq_operation_id :: string
  rq_attempt_id :: string
  rq_method :: string
  rq_expected_revision :: "u64 option"
  rq_payload :: bytes

record RpcResponse =
  rp_operation_id :: string
  rp_attempt_id :: string
  rp_revision :: u64
  rp_error_code :: ProtocolErrorCode
  rp_replayed :: bool
  rp_payload :: bytes
  rp_safe_error_code :: string
  rp_retryable :: bool
  rp_retry_after_seconds :: u32

record RpcEvent =
  ev_operation_id :: string
  ev_event_sequence :: u64
  ev_payload :: bytes
  ev_event_id :: string
  ev_high_watermark :: u64

text \<open>\<open>errStore\<close> stands for every error of the database, of a row that fails its validation and of a context.\<close>

datatype rpc_error =
    errRPCInvalid
  | errRPCIdempotency
  | errRPCBusy
  | errRPCNotFound
  | errRPCRevision
  | errV2OperationJournalCapacity
  | errV2OperationInProgress
  | errSideEffectState
  | errStore

text \<open>
  \<open>jl_unmarshal\<close> gives the message with its unknown fields;
  \<open>jl_response_size\<close> and \<open>jl_event_size\<close> are \<open>proto.Size\<close>.
\<close>

record journal_library =
  jl_uuid :: "string \<Rightarrow> bool"
  jl_marshal :: "RpcResponse \<Rightarrow> bytes option"
  jl_unmarshal :: "bytes \<Rightarrow> (RpcResponse \<times> bytes) option"
  jl_response_size :: "RpcResponse \<Rightarrow> int"
  jl_event_size :: "RpcEvent \<Rightarrow> int"

subsection \<open>The tables\<close>

definition Hour :: duration where "Hour = 60 * Minute"
definition v2OperationRetention :: duration where "v2OperationRetention = 24 * Hour"
definition v2OperationMaximumRowsPerController :: int where "v2OperationMaximumRowsPerController = 20000"
definition v2OperationMaximumBytesPerController :: int where "v2OperationMaximumBytesPerController = 256 * 2 ^ 20"
definition v2OperationMaximumRowsPerDevice :: int where "v2OperationMaximumRowsPerDevice = 100000"
definition v2OperationMaximumBytesPerDevice :: int where "v2OperationMaximumBytesPerDevice = 2 ^ 30"
definition maximumPeerRPCPlaintext :: nat where "maximumPeerRPCPlaintext = 60 * 2 ^ 10"
definition sha256_Size :: nat where "sha256_Size = 32"

record operation_row =
  or_digest :: bytes
  or_blob :: bytes
  or_controller :: string
  or_project :: string
  or_created :: int
  or_expires :: int

record claim_row =
  cr_digest :: bytes
  cr_controller :: string
  cr_project :: string
  cr_method :: string
  cr_created :: int
  cr_expires :: int

datatype v2SideEffectState = v2SideEffectPrepared | v2SideEffectStarted | v2SideEffectCommitted

record effect_row =
  er_digest :: bytes
  er_controller :: string
  er_project :: string
  er_method :: string
  er_state :: v2SideEffectState
  er_created :: int
  er_updated :: int
  er_expires :: int

record journal =
  j_operations :: "(string, operation_row) fmap"
  j_claims :: "(string, claim_row) fmap"
  j_effects :: "(string, effect_row) fmap"

definition empty_journal :: journal where
  "empty_journal = \<lparr>j_operations = fmempty, j_claims = fmempty, j_effects = fmempty\<rparr>"

record v2OperationMutationContext =
  mc_OperationID :: string
  mc_Digest :: bytes
  mc_Controller :: string
  mc_Project :: string
  mc_Method :: string
  mc_Now :: instant

text \<open>\<open>COUNT(*)\<close> and \<open>SUM(...)\<close> over the rows of a table.\<close>

definition table_sum :: "('r \<Rightarrow> int) \<Rightarrow> (string, 'r) fmap \<Rightarrow> int" where
  "table_sum f t = (\<Sum>k\<in>fset (fmdom t). f (the (fmlookup t k)))"

definition count_of :: "('r \<Rightarrow> string) \<Rightarrow> string \<Rightarrow> (string, 'r) fmap \<Rightarrow> int" where
  "count_of controller c t = table_sum (\<lambda>r. if controller r = c then 1 else 0) t"

abbreviation count_rows :: "(string, 'r) fmap \<Rightarrow> int" where
  "count_rows t \<equiv> table_sum (\<lambda>_. 1) t"

subsection \<open>Transactions\<close>

text \<open>
  \<open>tx_failed\<close>: opening, a statement or the commit failed and nothing was
  changed. \<open>tx_unclear\<close>: the commit reported an error although its effects are
  durable. A body that returns an error is rolled back.
\<close>

datatype tx_outcome = tx_applied | tx_failed | tx_unclear

fun run_tx :: "tx_outcome \<Rightarrow> ('s \<Rightarrow> rpc_error + 's \<times> 'a) \<Rightarrow> 's \<Rightarrow> 's \<times> (rpc_error + 'a)" where
  "run_tx tx_failed body j = (j, Inl errStore)"
| "run_tx tx_applied body j = (case body j of Inl e \<Rightarrow> (j, Inl e) | Inr (j', v) \<Rightarrow> (j', Inr v))"
| "run_tx tx_unclear body j = (case body j of Inl e \<Rightarrow> (j, Inl e) | Inr (j', v) \<Rightarrow> (j', Inl errStore))"

definition sweepV2OperationRows :: "journal \<Rightarrow> instant \<Rightarrow> rpc_error + journal" where
  "sweepV2OperationRows j now =
     (if IsZero now then Inl errRPCInvalid
      else Inr (j\<lparr>j_operations := fmkeep (\<lambda>_ r. \<not> or_expires r \<le> UnixMilli now) (j_operations j),
                  j_claims := fmkeep (\<lambda>_ r. \<not> cr_expires r \<le> UnixMilli now) (j_claims j),
                  j_effects := fmkeep (\<lambda>_ r. \<not> er_expires r \<le> UnixMilli now) (j_effects j)\<rparr>))"

definition sweepV2Operations :: "tx_outcome \<Rightarrow> journal \<Rightarrow> instant \<Rightarrow> journal \<times> (rpc_error + unit)" where
  "sweepV2Operations io j now =
     (if IsZero now then (j, Inl errRPCInvalid)
      else run_tx io (\<lambda>j. case sweepV2OperationRows j now of Inl e \<Rightarrow> Inl e | Inr j' \<Rightarrow> Inr (j', ())) j)"

definition enforceV2OperationJournalCapacity :: "journal \<Rightarrow> string \<Rightarrow> int \<Rightarrow> rpc_error option" where
  "enforceV2OperationJournalCapacity j controllerID incomingBytes =
     (let deviceRows = count_rows (j_operations j);
          deviceBytes = table_sum (\<lambda>r. int (length (or_blob r))) (j_operations j);
          deviceClaims = count_rows (j_claims j);
          deviceSideEffects = count_rows (j_effects j)
      in if deviceRows + deviceClaims + deviceSideEffects \<ge> v2OperationMaximumRowsPerDevice \<or>
            deviceBytes + incomingBytes > v2OperationMaximumBytesPerDevice
         then Some errV2OperationJournalCapacity
         else
           let controllerRows = count_of or_controller controllerID (j_operations j);
               controllerBytes = table_sum (\<lambda>r. if or_controller r = controllerID then int (length (or_blob r)) else 0) (j_operations j);
               controllerClaims = count_of cr_controller controllerID (j_claims j);
               controllerSideEffects = count_of er_controller controllerID (j_effects j)
           in if controllerRows + controllerClaims + controllerSideEffects \<ge> v2OperationMaximumRowsPerController \<or>
                 controllerBytes + incomingBytes > v2OperationMaximumBytesPerController
              then Some errV2OperationJournalCapacity else None)"

text \<open>\<open>INSERT\<close> with the constraints of the schema.\<close>

definition insert_operation :: "journal \<Rightarrow> string \<Rightarrow> operation_row \<Rightarrow> rpc_error + journal" where
  "insert_operation j i r =
     (if fmlookup (j_operations j) i \<noteq> None \<or> length i \<noteq> 36 \<or> length (or_digest r) \<noteq> 32 \<or> or_blob r = [] \<or>
         or_expires r \<le> or_created r
      then Inl errStore else Inr (j\<lparr>j_operations := fmupd i r (j_operations j)\<rparr>))"

definition insert_claim :: "journal \<Rightarrow> string \<Rightarrow> claim_row \<Rightarrow> rpc_error + journal" where
  "insert_claim j i r =
     (if fmlookup (j_claims j) i \<noteq> None \<or> length i \<noteq> 36 \<or> length (cr_digest r) \<noteq> 32 \<or>
         length (cr_method r) < 1 \<or> length (cr_method r) > 120 \<or> cr_expires r \<le> cr_created r
      then Inl errStore else Inr (j\<lparr>j_claims := fmupd i r (j_claims j)\<rparr>))"

definition insert_effect :: "journal \<Rightarrow> string \<Rightarrow> effect_row \<Rightarrow> rpc_error + journal" where
  "insert_effect j i r =
     (if fmlookup (j_effects j) i \<noteq> None \<or> length i \<noteq> 36 \<or> length (er_digest r) \<noteq> 32 \<or>
         length (er_method r) < 1 \<or> length (er_method r) > 120 \<or> er_updated r < er_created r \<or>
         er_expires r \<le> er_updated r
      then Inl errStore else Inr (j\<lparr>j_effects := fmupd i r (j_effects j)\<rparr>))"

definition digest_differs :: "bytes \<Rightarrow> bytes \<Rightarrow> bool" where
  "digest_differs stored digest \<longleftrightarrow> length stored \<noteq> sha256_Size \<or> stored \<noteq> digest"

definition validV2OperationMutationContext :: "journal_library \<Rightarrow> v2OperationMutationContext \<Rightarrow> bool" where
  "validV2OperationMutationContext L v \<longleftrightarrow>
     jl_uuid L (mc_OperationID v) \<and> \<not> IsZero (mc_Now v) \<and>
     length (mc_Method v) \<ge> 1 \<and> length (mc_Method v) \<le> 120 \<and>
     (mc_Controller v = [] \<or> jl_uuid L (mc_Controller v)) \<and>
     (mc_Project v = [] \<or> jl_uuid L (mc_Project v))"

subsection \<open>Operations and claims\<close>

definition markV2OperationEffectCommitted ::
  "journal_library \<Rightarrow> journal \<Rightarrow> v2OperationMutationContext \<Rightarrow> rpc_error + journal" where
  "markV2OperationEffectCommitted L j v =
     (if \<not> validV2OperationMutationContext L v then Inl errRPCInvalid
      else
        let now = mc_Now v;
            j = j\<lparr>j_claims := fmkeep (\<lambda>_ r. \<not> cr_expires r \<le> UnixMilli now) (j_claims j)\<rparr>
        in case fmlookup (j_operations j) (mc_OperationID v) of
             Some completed \<Rightarrow> if digest_differs (or_digest completed) (mc_Digest v) then Inl errRPCIdempotency else Inr j
           | None \<Rightarrow>
               (case fmlookup (j_claims j) (mc_OperationID v) of
                  Some existing \<Rightarrow> if digest_differs (cr_digest existing) (mc_Digest v) then Inl errRPCIdempotency else Inr j
                | None \<Rightarrow>
                    (case enforceV2OperationJournalCapacity j (mc_Controller v) 0 of
                       Some e \<Rightarrow> Inl e
                     | None \<Rightarrow>
                         insert_claim j (mc_OperationID v)
                           \<lparr>cr_digest = mc_Digest v, cr_controller = mc_Controller v, cr_project = mc_Project v,
                            cr_method = mc_Method v, cr_created = UnixMilli now,
                            cr_expires = UnixMilli (now + v2OperationRetention)\<rparr>)))"

text \<open>The business changes of the transaction are not part of the journal; \<open>None\<close> is a context without mutation.\<close>

definition commitBusinessTransaction ::
  "journal_library \<Rightarrow> tx_outcome \<Rightarrow> journal \<Rightarrow> v2OperationMutationContext option \<Rightarrow> journal \<times> (rpc_error + unit)" where
  "commitBusinessTransaction L io j value =
     run_tx io (\<lambda>j. case value of
                      None \<Rightarrow> Inr (j, ())
                    | Some v \<Rightarrow> (case markV2OperationEffectCommitted L j v of Inl e \<Rightarrow> Inl e | Inr j' \<Rightarrow> Inr (j', ()))) j"

text \<open>A read fails when \<open>readable\<close> is false.\<close>

definition loadV2OperationClaim ::
  "journal_library \<Rightarrow> bool \<Rightarrow> journal \<Rightarrow> string \<Rightarrow> bytes \<Rightarrow> instant \<Rightarrow> rpc_error + bool" where
  "loadV2OperationClaim L readable j operationID digest now =
     (if \<not> jl_uuid L operationID \<or> IsZero now then Inl errRPCInvalid
      else if \<not> readable then Inl errStore
      else case fmlookup (j_claims j) operationID of
             None \<Rightarrow> Inr False
           | Some r \<Rightarrow>
               if \<not> cr_expires r > UnixMilli now then Inr False
               else if length (cr_digest r) \<noteq> sha256_Size then Inl errStore
               else if cr_digest r \<noteq> digest then Inl errRPCIdempotency
               else Inr True)"

definition loadV2Operation ::
  "journal_library \<Rightarrow> bool \<Rightarrow> journal \<Rightarrow> string \<Rightarrow> bytes \<Rightarrow> instant \<Rightarrow> rpc_error + RpcResponse option" where
  "loadV2Operation L readable j operationID digest now =
     (if \<not> jl_uuid L operationID \<or> IsZero now then Inl errRPCInvalid
      else if \<not> readable then Inl errStore
      else case fmlookup (j_operations j) operationID of
             None \<Rightarrow> Inr None
           | Some r \<Rightarrow>
               if \<not> or_expires r > UnixMilli now then Inr None
               else if length (or_digest r) \<noteq> sha256_Size \<or> or_blob r = [] then Inl errStore
               else if or_digest r \<noteq> digest then Inl errRPCIdempotency
               else case jl_unmarshal L (or_blob r) of
                      None \<Rightarrow> Inl errStore
                    | Some (response, unknown) \<Rightarrow>
                        if unknown \<noteq> [] \<or> rp_operation_id response \<noteq> operationID then Inl errStore
                        else Inr (Some response))"

text \<open>
  The transaction of \<open>saveV2OperationScoped\<close>: an operation already stored with
  the same digest only loses its other rows; otherwise these rows are checked,
  removed and replaced by the encoded response.
\<close>

definition drop_claim :: "journal \<Rightarrow> string \<Rightarrow> bytes \<Rightarrow> rpc_error + journal" where
  "drop_claim j operationID digest =
     (case fmlookup (j_claims j) operationID of
        None \<Rightarrow> Inr j
      | Some r \<Rightarrow>
          if digest_differs (cr_digest r) digest then Inl errRPCIdempotency
          else Inr (j\<lparr>j_claims := fmdrop operationID (j_claims j)\<rparr>))"

definition drop_effect :: "journal \<Rightarrow> string \<Rightarrow> bytes \<Rightarrow> rpc_error + journal" where
  "drop_effect j operationID digest =
     (case fmlookup (j_effects j) operationID of
        None \<Rightarrow> Inr j
      | Some r \<Rightarrow>
          if digest_differs (er_digest r) digest then Inl errRPCIdempotency
          else Inr (j\<lparr>j_effects := fmdrop operationID (j_effects j)\<rparr>))"

definition save_rows ::
  "journal \<Rightarrow> string \<Rightarrow> bytes \<Rightarrow> bytes \<Rightarrow> instant \<Rightarrow> string \<Rightarrow> string \<Rightarrow> rpc_error + journal" where
  "save_rows j operationID digest encoded now controllerID projectID =
     (case fmlookup (j_operations j) operationID of
        Some existing \<Rightarrow>
          if digest_differs (or_digest existing) digest then Inl errRPCIdempotency
          else Inr (j\<lparr>j_claims := fmkeep (\<lambda>i r. \<not> (i = operationID \<and> cr_digest r = digest)) (j_claims j),
                      j_effects := fmkeep (\<lambda>i r. \<not> (i = operationID \<and> er_digest r = digest)) (j_effects j)\<rparr>)
      | None \<Rightarrow>
          (case drop_claim j operationID digest of
             Inl e \<Rightarrow> Inl e
           | Inr j1 \<Rightarrow>
               (case drop_effect j1 operationID digest of
                  Inl e \<Rightarrow> Inl e
                | Inr j2 \<Rightarrow>
                    (case enforceV2OperationJournalCapacity j2 controllerID (int (length encoded)) of
                       Some e \<Rightarrow> Inl e
                     | None \<Rightarrow>
                         insert_operation j2 operationID
                           \<lparr>or_digest = digest, or_blob = encoded, or_controller = controllerID, or_project = projectID,
                            or_created = UnixMilli now, or_expires = UnixMilli (now + v2OperationRetention)\<rparr>))))"

definition saveV2OperationScoped ::
  "journal_library \<Rightarrow> tx_outcome \<Rightarrow> journal \<Rightarrow> string \<Rightarrow> bytes \<Rightarrow> RpcResponse \<Rightarrow> instant \<Rightarrow> string \<Rightarrow> string \<Rightarrow>
   journal \<times> (rpc_error + unit)" where
  "saveV2OperationScoped L io j operationID digest response now controllerID projectID =
     (if \<not> jl_uuid L operationID \<or> rp_operation_id response \<noteq> operationID \<or> IsZero now then (j, Inl errRPCInvalid)
      else if (controllerID \<noteq> [] \<and> \<not> jl_uuid L controllerID) \<or> (projectID \<noteq> [] \<and> \<not> jl_uuid L projectID)
      then (j, Inl errRPCInvalid)
      else case jl_marshal L response of
             None \<Rightarrow> (j, Inl errStore)
           | Some encoded \<Rightarrow>
               if length encoded = 0 \<or> length encoded > maximumPeerRPCPlaintext then (j, Inl errRPCInvalid)
               else run_tx io (\<lambda>j. case sweepV2OperationRows j now of
                                     Inl e \<Rightarrow> Inl e
                                   | Inr j1 \<Rightarrow>
                                       (case save_rows j1 operationID digest encoded now controllerID projectID of
                                          Inl e \<Rightarrow> Inl e
                                        | Inr j2 \<Rightarrow> Inr (j2, ()))) j)"

definition saveV2Operation ::
  "journal_library \<Rightarrow> tx_outcome \<Rightarrow> journal \<Rightarrow> string \<Rightarrow> bytes \<Rightarrow> RpcResponse \<Rightarrow> instant \<Rightarrow> journal \<times> (rpc_error + unit)" where
  "saveV2Operation L io j operationID digest response now =
     saveV2OperationScoped L io j operationID digest response now [] []"

record v2OperationJournalSnapshot =
  js_Rows :: int
  js_ClaimRows :: int
  js_SideEffectRows :: int
  js_BlobBytes :: int

definition journal_snapshot :: "journal \<Rightarrow> v2OperationJournalSnapshot" where
  "journal_snapshot j =
     \<lparr>js_Rows = count_rows (j_operations j), js_ClaimRows = count_rows (j_claims j),
      js_SideEffectRows = count_rows (j_effects j),
      js_BlobBytes = table_sum (\<lambda>r. int (length (or_blob r))) (j_operations j)\<rparr>"

subsection \<open>Side effects\<close>

definition v2RPCDurableSideEffectMethod :: "string \<Rightarrow> bool" where
  "v2RPCDurableSideEffectMethod method \<longleftrightarrow> method \<in>
     {''file.write-text'', ''file.create-text'', ''file.mkdir'', ''file.rename'', ''file.move'', ''file.delete'',
      ''file.upload.complete'', ''terminal.open'', ''terminal.execute'', ''terminal.write'', ''terminal.resize'',
      ''terminal.signal'', ''terminal.close'', ''project.create'', ''agent.environment.update'', ''ai.config.update'',
      ''ai.config.delete''}"

definition validateV2SideEffectRow :: "v2OperationMutationContext \<Rightarrow> effect_row \<Rightarrow> rpc_error + v2SideEffectState" where
  "validateV2SideEffectRow v r =
     (if length (er_digest r) \<noteq> sha256_Size then Inl errStore
      else if er_digest r \<noteq> mc_Digest v then Inl errRPCIdempotency
      else if er_controller r \<noteq> mc_Controller v \<or> er_project r \<noteq> mc_Project v \<or> er_method r \<noteq> mc_Method v
      then Inl errStore
      else Inr (er_state r))"

definition loadV2SideEffectTx ::
  "journal \<Rightarrow> v2OperationMutationContext \<Rightarrow> rpc_error + v2SideEffectState option" where
  "loadV2SideEffectTx j v =
     (case fmlookup (j_effects j) (mc_OperationID v) of
        None \<Rightarrow> Inr None
      | Some r \<Rightarrow> (case validateV2SideEffectRow v r of Inl e \<Rightarrow> Inl e | Inr state \<Rightarrow> Inr (Some state)))"

definition loadV2SideEffect ::
  "journal_library \<Rightarrow> bool \<Rightarrow> journal \<Rightarrow> v2OperationMutationContext \<Rightarrow> instant \<Rightarrow> rpc_error + v2SideEffectState option" where
  "loadV2SideEffect L readable j v now =
     (if \<not> validV2OperationMutationContext L v \<or> IsZero now then Inl errRPCInvalid
      else if \<not> readable then Inl errStore
      else case fmlookup (j_effects j) (mc_OperationID v) of
             None \<Rightarrow> Inr None
           | Some r \<Rightarrow>
               if \<not> er_expires r > UnixMilli now then Inr None
               else (case validateV2SideEffectRow v r of Inl e \<Rightarrow> Inl e | Inr state \<Rightarrow> Inr (Some state)))"

text \<open>The digest of a row of the first two tables, which the loop of \<open>prepareV2SideEffect\<close> reads in this order.\<close>

definition durable_digest :: "journal \<Rightarrow> string \<Rightarrow> bytes option" where
  "durable_digest j operationID =
     (case fmlookup (j_operations j) operationID of
        Some r \<Rightarrow> Some (or_digest r)
      | None \<Rightarrow> (case fmlookup (j_claims j) operationID of Some r \<Rightarrow> Some (cr_digest r) | None \<Rightarrow> None))"

definition prepare_rows :: "journal \<Rightarrow> v2OperationMutationContext \<Rightarrow> rpc_error + journal \<times> v2SideEffectState" where
  "prepare_rows j v =
     (let now = mc_Now v in
      case durable_digest j (mc_OperationID v) of
        Some durableDigest \<Rightarrow>
          if digest_differs durableDigest (mc_Digest v) then Inl errRPCIdempotency else Inr (j, v2SideEffectCommitted)
      | None \<Rightarrow>
          (case loadV2SideEffectTx j v of
             Inl e \<Rightarrow> Inl e
           | Inr (Some state) \<Rightarrow> Inr (j, state)
           | Inr None \<Rightarrow>
               (case enforceV2OperationJournalCapacity j (mc_Controller v) 0 of
                  Some e \<Rightarrow> Inl e
                | None \<Rightarrow>
                    (case insert_effect j (mc_OperationID v)
                       \<lparr>er_digest = mc_Digest v, er_controller = mc_Controller v, er_project = mc_Project v,
                        er_method = mc_Method v, er_state = v2SideEffectPrepared, er_created = UnixMilli now,
                        er_updated = UnixMilli now, er_expires = UnixMilli (now + v2OperationRetention)\<rparr> of
                       Inl e \<Rightarrow> Inl e
                     | Inr j' \<Rightarrow> Inr (j', v2SideEffectPrepared)))))"

definition prepareV2SideEffect ::
  "journal_library \<Rightarrow> tx_outcome \<Rightarrow> journal \<Rightarrow> v2OperationMutationContext \<Rightarrow> journal \<times> (rpc_error + v2SideEffectState)" where
  "prepareV2SideEffect L io j v =
     (if \<not> validV2OperationMutationContext L v \<or> \<not> v2RPCDurableSideEffectMethod (mc_Method v) then (j, Inl errRPCInvalid)
      else run_tx io (\<lambda>j. case sweepV2OperationRows j (mc_Now v) of Inl e \<Rightarrow> Inl e | Inr j1 \<Rightarrow> prepare_rows j1 v) j)"

definition v2OperationRetention_Milliseconds :: int where
  "v2OperationRetention_Milliseconds = v2OperationRetention div Millisecond"

text \<open>In an \<open>UPDATE\<close> the right-hand sides read the old values of the columns. \<open>clock\<close> is \<open>time.Now\<close>.\<close>

definition transition_rows ::
  "instant \<Rightarrow> journal \<Rightarrow> v2OperationMutationContext \<Rightarrow> v2SideEffectState \<Rightarrow> v2SideEffectState \<Rightarrow> rpc_error + journal" where
  "transition_rows clock j v from to =
     (case loadV2SideEffectTx j v of
        Inl e \<Rightarrow> Inl e
      | Inr None \<Rightarrow> Inl errSideEffectState
      | Inr (Some current) \<Rightarrow>
          if current \<noteq> from then Inl errSideEffectState
          else
            let now = (if clock < mc_Now v then mc_Now v else clock);
                r = the (fmlookup (j_effects j) (mc_OperationID v));
                updated = max (er_updated r) (UnixMilli now);
                r' = r\<lparr>er_state := to, er_updated := updated, er_expires := updated + v2OperationRetention_Milliseconds\<rparr>
            in if er_updated r' < er_created r' \<or> er_expires r' \<le> er_updated r' then Inl errStore
               else Inr (j\<lparr>j_effects := fmupd (mc_OperationID v) r' (j_effects j)\<rparr>))"

definition transitionV2SideEffect ::
  "journal_library \<Rightarrow> tx_outcome \<Rightarrow> instant \<Rightarrow> journal \<Rightarrow> v2OperationMutationContext \<Rightarrow> v2SideEffectState \<Rightarrow>
   v2SideEffectState \<Rightarrow> journal \<times> (rpc_error + unit)" where
  "transitionV2SideEffect L io clock j v from to =
     (if \<not> validV2OperationMutationContext L v \<or>
         ((from \<noteq> v2SideEffectPrepared \<or> to \<noteq> v2SideEffectStarted) \<and>
          (from \<noteq> v2SideEffectStarted \<or> to \<noteq> v2SideEffectCommitted))
      then (j, Inl errRPCInvalid)
      else run_tx io (\<lambda>j. case transition_rows clock j v from to of Inl e \<Rightarrow> Inl e | Inr j' \<Rightarrow> Inr (j', ())) j)"

definition delete_rows :: "journal \<Rightarrow> v2OperationMutationContext \<Rightarrow> rpc_error + journal" where
  "delete_rows j v =
     (case loadV2SideEffectTx j v of
        Inl e \<Rightarrow> Inl e
      | Inr None \<Rightarrow> Inr j
      | Inr (Some state) \<Rightarrow>
          Inr (j\<lparr>j_effects := fmkeep (\<lambda>i r. \<not> (i = mc_OperationID v \<and> er_digest r = mc_Digest v)) (j_effects j)\<rparr>))"

definition deleteV2SideEffect ::
  "journal_library \<Rightarrow> tx_outcome \<Rightarrow> journal \<Rightarrow> v2OperationMutationContext \<Rightarrow> journal \<times> (rpc_error + unit)" where
  "deleteV2SideEffect L io j v =
     (if \<not> validV2OperationMutationContext L v then (j, Inl errRPCInvalid)
      else run_tx io (\<lambda>j. case delete_rows j v of Inl e \<Rightarrow> Inl e | Inr j' \<Rightarrow> Inr (j', ())) j)"

subsection \<open>The tracker of a request\<close>

datatype v2SideEffectTrackerOutcome = v2SideEffectActive | v2SideEffectNoEffect | v2SideEffectRolledBack

record v2SideEffectTracker =
  st_value :: v2OperationMutationContext
  st_state :: v2SideEffectState
  st_outcome :: v2SideEffectTrackerOutcome
  st_uncertain :: bool

definition new_tracker :: "v2OperationMutationContext \<Rightarrow> v2SideEffectTracker" where
  "new_tracker v = \<lparr>st_value = v, st_state = v2SideEffectPrepared, st_outcome = v2SideEffectActive, st_uncertain = False\<rparr>"

text \<open>The tracker of a context is an option; each call locks the tracker, so it is one step.\<close>

definition beginV2SideEffect ::
  "journal_library \<Rightarrow> tx_outcome \<Rightarrow> instant \<Rightarrow> journal \<Rightarrow> v2SideEffectTracker option \<Rightarrow>
   journal \<times> v2SideEffectTracker option \<times> rpc_error option" where
  "beginV2SideEffect L io clock j tracker =
     (case tracker of
        None \<Rightarrow> (j, None, None)
      | Some t \<Rightarrow>
          if st_uncertain t \<or> st_outcome t \<noteq> v2SideEffectActive \<or> st_state t \<noteq> v2SideEffectPrepared
          then (j, Some t, Some errSideEffectState)
          else (case transitionV2SideEffect L io clock j (st_value t) v2SideEffectPrepared v2SideEffectStarted of
                  (j', Inl e) \<Rightarrow> (j', Some (t\<lparr>st_uncertain := True\<rparr>), Some e)
                | (j', Inr _) \<Rightarrow> (j', Some (t\<lparr>st_state := v2SideEffectStarted\<rparr>), None)))"

definition commitV2SideEffect ::
  "journal_library \<Rightarrow> tx_outcome \<Rightarrow> instant \<Rightarrow> journal \<Rightarrow> v2SideEffectTracker option \<Rightarrow>
   journal \<times> v2SideEffectTracker option \<times> rpc_error option" where
  "commitV2SideEffect L io clock j tracker =
     (case tracker of
        None \<Rightarrow> (j, None, None)
      | Some t \<Rightarrow>
          if st_uncertain t \<or> st_outcome t \<noteq> v2SideEffectActive \<or> st_state t \<noteq> v2SideEffectStarted
          then (j, Some t, Some errSideEffectState)
          else (case transitionV2SideEffect L io clock j (st_value t) v2SideEffectStarted v2SideEffectCommitted of
                  (j', Inl e) \<Rightarrow> (j', Some (t\<lparr>st_uncertain := True\<rparr>), Some e)
                | (j', Inr _) \<Rightarrow> (j', Some (t\<lparr>st_state := v2SideEffectCommitted\<rparr>), None)))"

definition completeV2WithoutSideEffect ::
  "v2SideEffectTracker option \<Rightarrow> v2SideEffectTracker option \<times> rpc_error option" where
  "completeV2WithoutSideEffect tracker =
     (case tracker of
        None \<Rightarrow> (None, None)
      | Some t \<Rightarrow>
          if st_uncertain t \<or> st_outcome t \<noteq> v2SideEffectActive \<or> st_state t \<noteq> v2SideEffectPrepared
          then (Some t, Some errSideEffectState)
          else (Some (t\<lparr>st_outcome := v2SideEffectNoEffect\<rparr>), None))"

definition rollbackV2SideEffect ::
  "journal_library \<Rightarrow> tx_outcome \<Rightarrow> journal \<Rightarrow> v2SideEffectTracker option \<Rightarrow>
   journal \<times> v2SideEffectTracker option \<times> rpc_error option" where
  "rollbackV2SideEffect L io j tracker =
     (case tracker of
        None \<Rightarrow> (j, None, None)
      | Some t \<Rightarrow>
          if st_uncertain t \<or> st_outcome t \<noteq> v2SideEffectActive \<or> st_state t \<noteq> v2SideEffectStarted
          then (j, Some t, Some errSideEffectState)
          else (case deleteV2SideEffect L io j (st_value t) of
                  (j', Inl e) \<Rightarrow> (j', Some (t\<lparr>st_uncertain := True\<rparr>), Some e)
                | (j', Inr _) \<Rightarrow> (j', Some (t\<lparr>st_outcome := v2SideEffectRolledBack\<rparr>), None)))"

text \<open>The state is \<open>None\<close> where the code has the empty string.\<close>

definition responseDisposition ::
  "v2SideEffectTracker option \<Rightarrow> v2SideEffectState option \<times> v2SideEffectTrackerOutcome \<times> bool" where
  "responseDisposition tracker =
     (case tracker of
        None \<Rightarrow> (None, v2SideEffectNoEffect, False)
      | Some t \<Rightarrow> (Some (st_state t), st_outcome t, st_uncertain t))"

definition discardPrepared ::
  "journal_library \<Rightarrow> tx_outcome \<Rightarrow> journal \<Rightarrow> v2SideEffectTracker option \<Rightarrow>
   journal \<times> v2SideEffectTracker option \<times> rpc_error option" where
  "discardPrepared L io j tracker =
     (case tracker of
        None \<Rightarrow> (j, None, None)
      | Some t \<Rightarrow>
          if st_uncertain t \<or> st_outcome t = v2SideEffectRolledBack then (j, Some t, None)
          else if st_state t \<noteq> v2SideEffectPrepared then (j, Some t, Some errSideEffectState)
          else (case deleteV2SideEffect L io j (st_value t) of
                  (j', Inl e) \<Rightarrow> (j', Some t, Some e)
                | (j', Inr _) \<Rightarrow> (j', Some (t\<lparr>st_outcome := v2SideEffectRolledBack\<rparr>), None)))"

subsection \<open>Time\<close>

lemma UnixMilli_mono: "t \<le> u \<Longrightarrow> UnixMilli t \<le> UnixMilli u"
  by (simp add: UnixMilli_def duration_defs zdiv_mono1)

lemma UnixMilli_retention [simp]: "UnixMilli (t + v2OperationRetention) = UnixMilli t + v2OperationRetention_Milliseconds"
proof -
  have "v2OperationRetention = v2OperationRetention_Milliseconds * Millisecond"
    by (simp add: v2OperationRetention_Milliseconds_def v2OperationRetention_def Hour_def duration_defs)
  then show ?thesis by (simp add: UnixMilli_def duration_defs)
qed

lemma retention_value: "v2OperationRetention_Milliseconds = 86400000"
  by (simp add: v2OperationRetention_Milliseconds_def v2OperationRetention_def Hour_def duration_defs)

lemma retention_positive [simp]: "0 < v2OperationRetention_Milliseconds" "\<not> v2OperationRetention_Milliseconds \<le> 0"
  by (simp_all add: retention_value)

subsection \<open>What a transaction leaves\<close>

lemma run_tx_cases:
  obtains (unchanged) e where "run_tx io body j = (j, Inl e)"
  | (unclear) j' v where "io = tx_unclear" "body j = Inr (j', v)" "run_tx io body j = (j', Inl errStore)"
  | (applied) j' v where "io = tx_applied" "body j = Inr (j', v)" "run_tx io body j = (j', Inr v)"
  by (cases io; cases "body j") auto

lemma run_tx_result:
  assumes "run_tx io body j = (j', result)"
  shows "j' = j \<or> (\<exists>v. body j = Inr (j', v))" and "result = Inr v \<Longrightarrow> body j = Inr (j', v)"
  using assms by (cases io; cases "body j"; auto)+

lemma run_tx_fst: "(\<And>k v. body j = Inr (k, v) \<Longrightarrow> Q k) \<Longrightarrow> Q j \<Longrightarrow> Q (fst (run_tx io body j))"
  by (cases rule: run_tx_cases [of io body j]) auto

text \<open>A row is kept by a change at a time \<open>ms\<close>, unless it had expired by then.\<close>

definition kept_row :: "('r \<Rightarrow> int) \<Rightarrow> int \<Rightarrow> 'r option \<Rightarrow> 'r option \<Rightarrow> bool" where
  "kept_row ex ms a b \<longleftrightarrow> b = a \<or> (b = None \<and> (\<forall>r. a = Some r \<longrightarrow> ex r \<le> ms))"

definition kept_at :: "int \<Rightarrow> string \<Rightarrow> journal \<Rightarrow> journal \<Rightarrow> bool" where
  "kept_at ms i j j' \<longleftrightarrow>
     kept_row or_expires ms (fmlookup (j_operations j) i) (fmlookup (j_operations j') i) \<and>
     kept_row cr_expires ms (fmlookup (j_claims j) i) (fmlookup (j_claims j') i) \<and>
     kept_row er_expires ms (fmlookup (j_effects j) i) (fmlookup (j_effects j') i)"

lemma kept_row_refl [simp, intro]: "kept_row ex ms a a"
  by (simp add: kept_row_def)

lemma kept_at_refl [simp, intro]: "kept_at ms i j j"
  by (simp add: kept_at_def)

lemma kept_row_trans: "kept_row ex ms a b \<Longrightarrow> kept_row ex ms b c \<Longrightarrow> kept_row ex ms a c"
  by (auto simp: kept_row_def)

lemma kept_at_trans: "kept_at ms i j k \<Longrightarrow> kept_at ms i k l \<Longrightarrow> kept_at ms i j l"
  unfolding kept_at_def by (blast intro: kept_row_trans)

lemma kept_row_mono: "kept_row ex ms a b \<Longrightarrow> ms \<le> ms' \<Longrightarrow> kept_row ex ms' a b"
  by (auto simp: kept_row_def)

lemma kept_at_mono: "kept_at ms i j k \<Longrightarrow> ms \<le> ms' \<Longrightarrow> kept_at ms' i j k"
  unfolding kept_at_def by (blast intro: kept_row_mono)

lemma kept_row_sweep: "kept_row ex ms (fmlookup t i) (fmlookup (fmkeep (\<lambda>_ r. \<not> ex r \<le> ms) t) i)"
  by (auto simp: kept_row_def split: option.splits)

lemma kept_sweep:
  assumes "sweepV2OperationRows j now = Inr j'"
  shows "kept_at (UnixMilli now) i j j'"
  using assms by (auto simp: sweepV2OperationRows_def kept_at_def simp del: fmlookup_keep intro: kept_row_sweep split: if_splits)

lemma swept_rows:
  assumes "sweepV2OperationRows j now = Inr j'"
  shows "fmlookup (j_operations j') i = Some r \<Longrightarrow> fmlookup (j_operations j) i = Some r \<and> UnixMilli now < or_expires r"
    and "fmlookup (j_claims j') i = Some c \<Longrightarrow> fmlookup (j_claims j) i = Some c \<and> UnixMilli now < cr_expires c"
    and "fmlookup (j_effects j') i = Some e \<Longrightarrow> fmlookup (j_effects j) i = Some e \<and> UnixMilli now < er_expires e"
  using assms by (auto simp: sweepV2OperationRows_def split: if_splits option.splits)

lemma insert_rows:
  "insert_operation j i r = Inr j' \<Longrightarrow>
     j' = j\<lparr>j_operations := fmupd i r (j_operations j)\<rparr> \<and> fmlookup (j_operations j) i = None"
  "insert_claim j i c = Inr j' \<Longrightarrow> j' = j\<lparr>j_claims := fmupd i c (j_claims j)\<rparr> \<and> fmlookup (j_claims j) i = None"
  "insert_effect j i e = Inr j' \<Longrightarrow> j' = j\<lparr>j_effects := fmupd i e (j_effects j)\<rparr> \<and> fmlookup (j_effects j) i = None"
  by (auto simp: insert_operation_def insert_claim_def insert_effect_def split: if_splits)

text \<open>Committing a business mutation keeps the other operations and protects its own.\<close>

lemma mark_other:
  assumes "markV2OperationEffectCommitted L j v = Inr j'" and "i \<noteq> mc_OperationID v"
  shows "kept_at (UnixMilli (mc_Now v)) i j j'"
  using assms
  by (auto simp: markV2OperationEffectCommitted_def Let_def kept_at_def simp del: fmlookup_keep
        intro: kept_row_sweep dest!: insert_rows(2) split: if_splits option.splits)

lemma mark_own:
  assumes "markV2OperationEffectCommitted L j v = Inr j'"
  shows "j_operations j' = j_operations j" and "j_effects j' = j_effects j"
    and "fmlookup (j_claims j') (mc_OperationID v) = Some c \<Longrightarrow>
           fmlookup (j_claims j) (mc_OperationID v) = Some c \<or>
           cr_expires c = UnixMilli (mc_Now v) + v2OperationRetention_Milliseconds"
    and "fmlookup (j_claims j) (mc_OperationID v) = Some c \<Longrightarrow> UnixMilli (mc_Now v) < cr_expires c \<Longrightarrow>
           fmlookup (j_claims j') (mc_OperationID v) = Some c"
    and "fmlookup (j_operations j') (mc_OperationID v) \<noteq> None \<or> fmlookup (j_claims j') (mc_OperationID v) \<noteq> None"
  using assms
  by (auto simp: markV2OperationEffectCommitted_def Let_def dest!: insert_rows(2) split: if_splits option.splits)

text \<open>Storing a response removes the other rows of the operation.\<close>

lemma save_other:
  assumes "save_rows j i0 digest encoded now c p = Inr j'" and "i \<noteq> i0"
  shows "kept_at ms i j j'"
  using assms
  by (auto simp: save_rows_def drop_claim_def drop_effect_def kept_at_def dest!: insert_rows(1)
        split: if_splits option.splits sum.splits)

lemma save_own:
  assumes "save_rows j i0 digest encoded now c p = Inr j'" and "fmlookup (j_operations j) i0 = None"
  shows "fmlookup (j_operations j') i0 = Some \<lparr>or_digest = digest, or_blob = encoded, or_controller = c, or_project = p,
           or_created = UnixMilli now, or_expires = UnixMilli now + v2OperationRetention_Milliseconds\<rparr>"
    and "fmlookup (j_claims j') i0 = None" and "fmlookup (j_effects j') i0 = None"
  using assms
  by (auto simp: save_rows_def drop_claim_def drop_effect_def dest!: insert_rows(1)
        split: if_splits option.splits sum.splits)

text \<open>Preparing changes nothing but the side effect row of its operation.\<close>

lemma prepare_rows_eq:
  assumes "prepare_rows j v = Inr (j', s)"
  shows "j_operations j' = j_operations j" and "j_claims j' = j_claims j"
    and "i \<noteq> mc_OperationID v \<Longrightarrow> fmlookup (j_effects j') i = fmlookup (j_effects j) i"
    and "fmlookup (j_effects j') (mc_OperationID v) = fmlookup (j_effects j) (mc_OperationID v) \<or>
         durable_digest j (mc_OperationID v) = None \<and> fmlookup (j_effects j) (mc_OperationID v) = None \<and>
         fmlookup (j_effects j') (mc_OperationID v) =
           Some \<lparr>er_digest = mc_Digest v, er_controller = mc_Controller v, er_project = mc_Project v,
                 er_method = mc_Method v, er_state = v2SideEffectPrepared, er_created = UnixMilli (mc_Now v),
                 er_updated = UnixMilli (mc_Now v), er_expires = UnixMilli (mc_Now v) + v2OperationRetention_Milliseconds\<rparr>"
    and "s = v2SideEffectPrepared \<Longrightarrow> durable_digest j (mc_OperationID v) = None \<and>
         (\<exists>r. fmlookup (j_effects j') (mc_OperationID v) = Some r \<and> er_state r = v2SideEffectPrepared)"
  using assms
  by (auto simp: prepare_rows_def loadV2SideEffectTx_def validateV2SideEffectRow_def Let_def dest!: insert_rows(3)
        split: if_splits option.splits sum.splits)

lemma durable_digest_None:
  "durable_digest j i = None \<longleftrightarrow> fmlookup (j_operations j) i = None \<and> fmlookup (j_claims j) i = None"
  by (simp add: durable_digest_def split: option.splits)

text \<open>A transition finds the row in the state it starts from and renews its time.\<close>

lemma transition_rows_eq:
  assumes "transition_rows clock j v from to = Inr j'"
  obtains r where "fmlookup (j_effects j) (mc_OperationID v) = Some r" and "er_state r = from"
    and "j' = j\<lparr>j_effects := fmupd (mc_OperationID v)
           (r\<lparr>er_state := to, er_updated := max (er_updated r) (UnixMilli (max clock (mc_Now v))),
              er_expires := max (er_updated r) (UnixMilli (max clock (mc_Now v))) + v2OperationRetention_Milliseconds\<rparr>)
           (j_effects j)\<rparr>"
  using assms
  by (auto simp: transition_rows_def loadV2SideEffectTx_def validateV2SideEffectRow_def Let_def max_def not_less
        split: if_splits option.splits sum.splits)

lemma delete_rows_eq:
  assumes "delete_rows j v = Inr j'"
  shows "j_operations j' = j_operations j" and "j_claims j' = j_claims j"
    and "i \<noteq> mc_OperationID v \<Longrightarrow> fmlookup (j_effects j') i = fmlookup (j_effects j) i"
    and "fmlookup (j_effects j') i \<in> {None, fmlookup (j_effects j) i}"
  using assms
  by (auto simp: delete_rows_def loadV2SideEffectTx_def split: if_splits option.splits sum.splits)

subsection \<open>Sums over a table\<close>

lemma table_sum_insert: "fmlookup t k = None \<Longrightarrow> table_sum f (fmupd k r t) = table_sum f t + f r"
proof -
  assume n: "fmlookup t k = None"
  then have k: "k \<notin> fset (fmdom t)" by (simp add: fmdom_notI)
  have "(\<Sum>i\<in>fset (fmdom t). f (the (fmlookup (fmupd k r t) i))) = table_sum f t"
    unfolding table_sum_def by (rule sum.cong) (use k in auto)
  with k show ?thesis by (simp add: table_sum_def)
qed

lemma table_sum_replace:
  assumes "fmlookup t k = Some r" and "f r' = f r"
  shows "table_sum f (fmupd k r' t) = table_sum f t"
proof -
  have "fmdom (fmupd k r' t) = fmdom t" using assms(1) by (simp add: fmdomI finsert_absorb)
  then show ?thesis unfolding table_sum_def by (intro sum.cong) (use assms in auto)
qed

lemma table_sum_sub:
  assumes sub: "\<And>k r. fmlookup t' k = Some r \<Longrightarrow> fmlookup t k = Some r" and pos: "\<And>r. 0 \<le> f r"
  shows "table_sum f t' \<le> table_sum f t"
proof -
  have s: "fset (fmdom t') \<subseteq> fset (fmdom t)" using sub by (auto simp: fmlookup_dom_iff)
  have "table_sum f t' = (\<Sum>k\<in>fset (fmdom t'). f (the (fmlookup t k)))"
    unfolding table_sum_def by (rule sum.cong) (use sub in \<open>auto simp: fmlookup_dom_iff\<close>)
  also have "\<dots> \<le> table_sum f t" unfolding table_sum_def by (rule sum_mono2) (use s pos in auto)
  finally show ?thesis .
qed

lemma table_sum_nonneg: "(\<And>r. 0 \<le> f r) \<Longrightarrow> 0 \<le> table_sum f t"
  by (simp add: table_sum_def sum_nonneg)

subsection \<open>The limits\<close>

definition journal_rows :: "journal \<Rightarrow> int" where
  "journal_rows j = count_rows (j_operations j) + count_rows (j_claims j) + count_rows (j_effects j)"

definition journal_bytes :: "journal \<Rightarrow> int" where
  "journal_bytes j = table_sum (\<lambda>r. int (length (or_blob r))) (j_operations j)"

definition controller_rows :: "string \<Rightarrow> journal \<Rightarrow> int" where
  "controller_rows c j =
     count_of or_controller c (j_operations j) + count_of cr_controller c (j_claims j) + count_of er_controller c (j_effects j)"

definition controller_bytes :: "string \<Rightarrow> journal \<Rightarrow> int" where
  "controller_bytes c j = table_sum (\<lambda>r. if or_controller r = c then int (length (or_blob r)) else 0) (j_operations j)"

definition journal_limited :: "journal \<Rightarrow> bool" where
  "journal_limited j \<longleftrightarrow>
     journal_rows j \<le> v2OperationMaximumRowsPerDevice \<and> journal_bytes j \<le> v2OperationMaximumBytesPerDevice \<and>
     (\<forall>c. controller_rows c j \<le> v2OperationMaximumRowsPerController \<and>
          controller_bytes c j \<le> v2OperationMaximumBytesPerController)"

lemmas journal_sums = journal_rows_def journal_bytes_def controller_rows_def controller_bytes_def count_of_def

text \<open>What the schema and the operations promise of a row.\<close>

definition operation_row_ok :: "string \<Rightarrow> operation_row \<Rightarrow> bool" where
  "operation_row_ok i r \<longleftrightarrow> length i = 36 \<and> length (or_digest r) = 32 \<and> or_blob r \<noteq> [] \<and>
     length (or_blob r) \<le> maximumPeerRPCPlaintext \<and> or_expires r = or_created r + v2OperationRetention_Milliseconds"

definition claim_row_ok :: "string \<Rightarrow> claim_row \<Rightarrow> bool" where
  "claim_row_ok i r \<longleftrightarrow> length i = 36 \<and> length (cr_digest r) = 32 \<and> 1 \<le> length (cr_method r) \<and> length (cr_method r) \<le> 120 \<and>
     cr_expires r = cr_created r + v2OperationRetention_Milliseconds"

definition effect_row_ok :: "string \<Rightarrow> effect_row \<Rightarrow> bool" where
  "effect_row_ok i r \<longleftrightarrow> length i = 36 \<and> length (er_digest r) = 32 \<and> v2RPCDurableSideEffectMethod (er_method r) \<and>
     er_created r \<le> er_updated r \<and> er_expires r = er_updated r + v2OperationRetention_Milliseconds"

definition journal_typed :: "journal \<Rightarrow> bool" where
  "journal_typed j \<longleftrightarrow>
     (\<forall>i r. fmlookup (j_operations j) i = Some r \<longrightarrow> operation_row_ok i r) \<and>
     (\<forall>i r. fmlookup (j_claims j) i = Some r \<longrightarrow> claim_row_ok i r) \<and>
     (\<forall>i r. fmlookup (j_effects j) i = Some r \<longrightarrow> effect_row_ok i r)"

text \<open>The journals a store reaches by its operations, whatever the database and the clock do.\<close>

inductive journal_reachable :: "journal_library \<Rightarrow> journal \<Rightarrow> bool" for L where
  empty: "journal_reachable L empty_journal"
| sweep: "journal_reachable L j \<Longrightarrow> journal_reachable L (fst (sweepV2Operations io j now))"
| business: "journal_reachable L j \<Longrightarrow> journal_reachable L (fst (commitBusinessTransaction L io j value))"
| save: "journal_reachable L j \<Longrightarrow> journal_reachable L (fst (saveV2OperationScoped L io j i digest response now c p))"
| prepare: "journal_reachable L j \<Longrightarrow> journal_reachable L (fst (prepareV2SideEffect L io j v))"
| transition: "journal_reachable L j \<Longrightarrow> journal_reachable L (fst (transitionV2SideEffect L io clock j v from to))"
| delete: "journal_reachable L j \<Longrightarrow> journal_reachable L (fst (deleteV2SideEffect L io j v))"

definition sub_journal :: "journal \<Rightarrow> journal \<Rightarrow> bool" where
  "sub_journal j' j \<longleftrightarrow>
     (\<forall>k r. fmlookup (j_operations j') k = Some r \<longrightarrow> fmlookup (j_operations j) k = Some r) \<and>
     (\<forall>k r. fmlookup (j_claims j') k = Some r \<longrightarrow> fmlookup (j_claims j) k = Some r) \<and>
     (\<forall>k r. fmlookup (j_effects j') k = Some r \<longrightarrow> fmlookup (j_effects j) k = Some r)"

definition journal_ok :: "journal \<Rightarrow> bool" where
  "journal_ok j \<longleftrightarrow> journal_limited j \<and> journal_typed j"

lemma sub_rows: "sub_journal j' j \<Longrightarrow> journal_rows j' \<le> journal_rows j"
  unfolding journal_sums sub_journal_def by (intro add_mono table_sum_sub) auto

lemma sub_bytes: "sub_journal j' j \<Longrightarrow> journal_bytes j' \<le> journal_bytes j"
  unfolding journal_sums sub_journal_def by (intro table_sum_sub) auto

lemma sub_controller_rows: "sub_journal j' j \<Longrightarrow> controller_rows c j' \<le> controller_rows c j"
  unfolding journal_sums sub_journal_def by (intro add_mono table_sum_sub) auto

lemma sub_controller_bytes: "sub_journal j' j \<Longrightarrow> controller_bytes c j' \<le> controller_bytes c j"
  unfolding journal_sums sub_journal_def by (intro table_sum_sub) auto

lemma sub_ok:
  assumes "sub_journal j' j" and "journal_ok j"
  shows "journal_ok j'"
proof -
  have "journal_limited j'"
    using assms sub_rows [OF assms(1)] sub_bytes [OF assms(1)] sub_controller_rows [OF assms(1)] sub_controller_bytes [OF assms(1)]
    by (auto simp: journal_ok_def journal_limited_def intro: order_trans)
  moreover have "journal_typed j'" using assms by (auto simp: journal_ok_def journal_typed_def sub_journal_def)
  ultimately show ?thesis by (simp add: journal_ok_def)
qed

text \<open>Room for one row, and for \<open>n\<close> bytes.\<close>

definition has_room :: "journal \<Rightarrow> string \<Rightarrow> int \<Rightarrow> bool" where
  "has_room j c n \<longleftrightarrow>
     journal_rows j + 1 \<le> v2OperationMaximumRowsPerDevice \<and> journal_bytes j + n \<le> v2OperationMaximumBytesPerDevice \<and>
     controller_rows c j + 1 \<le> v2OperationMaximumRowsPerController \<and>
     controller_bytes c j + n \<le> v2OperationMaximumBytesPerController"

lemma capacity_room: "enforceV2OperationJournalCapacity j c n = None \<Longrightarrow> has_room j c n"
  by (simp add: enforceV2OperationJournalCapacity_def has_room_def journal_sums Let_def split: if_splits)

lemma insert_operation_ok:
  assumes i: "insert_operation j i r = Inr j'" and room: "has_room j (or_controller r) (int (length (or_blob r)))"
    and row: "length (or_blob r) \<le> maximumPeerRPCPlaintext" "or_expires r = or_created r + v2OperationRetention_Milliseconds"
    and ok: "journal_ok j"
  shows "journal_ok j'"
proof -
  have n: "fmlookup (j_operations j) i = None" and j': "j' = j\<lparr>j_operations := fmupd i r (j_operations j)\<rparr>"
    using insert_rows(1) [OF i] by auto
  have "operation_row_ok i r" using i row by (auto simp: insert_operation_def operation_row_ok_def split: if_splits)
  then have "journal_typed j'" using ok by (auto simp: journal_ok_def journal_typed_def j')
  moreover have "journal_limited j'"
    using ok room unfolding journal_ok_def journal_limited_def has_room_def journal_sums j'
    by (simp add: table_sum_insert [OF n])
  ultimately show ?thesis by (simp add: journal_ok_def)
qed

lemma insert_claim_ok:
  assumes i: "insert_claim j i r = Inr j'" and room: "has_room j (cr_controller r) 0"
    and row: "cr_expires r = cr_created r + v2OperationRetention_Milliseconds" and ok: "journal_ok j"
  shows "journal_ok j'"
proof -
  have n: "fmlookup (j_claims j) i = None" and j': "j' = j\<lparr>j_claims := fmupd i r (j_claims j)\<rparr>"
    using insert_rows(2) [OF i] by auto
  have "claim_row_ok i r"
    using i row by (auto simp: insert_claim_def claim_row_ok_def not_less Suc_le_eq split: if_splits)
  then have "journal_typed j'" using ok by (auto simp: journal_ok_def journal_typed_def j')
  moreover have "journal_limited j'"
    using ok room unfolding journal_ok_def journal_limited_def has_room_def journal_sums j'
    by (simp add: table_sum_insert [OF n])
  ultimately show ?thesis by (simp add: journal_ok_def)
qed

lemma insert_effect_ok:
  assumes i: "insert_effect j i r = Inr j'" and room: "has_room j (er_controller r) 0"
    and row: "er_expires r = er_updated r + v2OperationRetention_Milliseconds" "v2RPCDurableSideEffectMethod (er_method r)"
    and ok: "journal_ok j"
  shows "journal_ok j'"
proof -
  have n: "fmlookup (j_effects j) i = None" and j': "j' = j\<lparr>j_effects := fmupd i r (j_effects j)\<rparr>"
    using insert_rows(3) [OF i] by auto
  have "effect_row_ok i r" using i row by (auto simp: insert_effect_def effect_row_ok_def split: if_splits)
  then have "journal_typed j'" using ok by (auto simp: journal_ok_def journal_typed_def j')
  moreover have "journal_limited j'"
    using ok room unfolding journal_ok_def journal_limited_def has_room_def journal_sums j'
    by (simp add: table_sum_insert [OF n])
  ultimately show ?thesis by (simp add: journal_ok_def)
qed

text \<open>Every operation keeps the journal within its limits and its rows well formed.\<close>

lemma sub_sweep: "sweepV2OperationRows j now = Inr j' \<Longrightarrow> sub_journal j' j"
  using swept_rows unfolding sub_journal_def by blast

lemma run_tx_ok: "journal_ok j \<Longrightarrow> (\<And>k v. body j = Inr (k, v) \<Longrightarrow> journal_ok k) \<Longrightarrow> journal_ok (fst (run_tx io body j))"
  by (rule run_tx_fst)

lemma mark_ok:
  assumes "markV2OperationEffectCommitted L j v = Inr j'" and "journal_ok j"
  shows "journal_ok j'"
proof -
  let ?j = "j\<lparr>j_claims := fmkeep (\<lambda>_ r. \<not> cr_expires r \<le> UnixMilli (mc_Now v)) (j_claims j)\<rparr>"
  have "sub_journal ?j j" by (auto simp: sub_journal_def split: option.splits if_splits)
  then have "journal_ok ?j" using assms(2) by (rule sub_ok)
  moreover have "j' = ?j \<or> enforceV2OperationJournalCapacity ?j (mc_Controller v) 0 = None \<and>
      insert_claim ?j (mc_OperationID v) \<lparr>cr_digest = mc_Digest v, cr_controller = mc_Controller v, cr_project = mc_Project v,
        cr_method = mc_Method v, cr_created = UnixMilli (mc_Now v),
        cr_expires = UnixMilli (mc_Now v + v2OperationRetention)\<rparr> = Inr j'"
    using assms(1) by (auto simp: markV2OperationEffectCommitted_def Let_def split: if_splits option.splits)
  ultimately show ?thesis using insert_claim_ok [where j = ?j and j' = j'] capacity_room by fastforce
qed

lemma drop_sub:
  "drop_claim j i d = Inr j' \<Longrightarrow> sub_journal j' j" "drop_effect j i d = Inr j' \<Longrightarrow> sub_journal j' j"
  by (auto simp: drop_claim_def drop_effect_def sub_journal_def split: option.splits if_splits)

lemma save_rows_ok:
  assumes s: "save_rows j i digest encoded now c p = Inr j'" and e: "length encoded \<le> maximumPeerRPCPlaintext" and ok: "journal_ok j"
  shows "journal_ok j'"
proof (cases "fmlookup (j_operations j) i")
  case (Some r)
  with s have "sub_journal j' j"
    by (auto simp: save_rows_def sub_journal_def split: if_splits option.splits)
  then show ?thesis using ok by (rule sub_ok)
next
  case None
  with s obtain j1 j2 where j1: "drop_claim j i digest = Inr j1" and j2: "drop_effect j1 i digest = Inr j2"
    and room: "enforceV2OperationJournalCapacity j2 c (int (length encoded)) = None"
    and ins: "insert_operation j2 i \<lparr>or_digest = digest, or_blob = encoded, or_controller = c, or_project = p,
                 or_created = UnixMilli now, or_expires = UnixMilli (now + v2OperationRetention)\<rparr> = Inr j'"
    by (auto simp: save_rows_def split: sum.splits option.splits)
  have "journal_ok j2" using ok drop_sub(1) [OF j1] drop_sub(2) [OF j2] by (blast intro: sub_ok)
  with insert_operation_ok [OF ins] e capacity_room [OF room] show ?thesis by simp
qed

lemma prepare_rows_ok:
  assumes "prepare_rows j v = Inr (j', s)" and "v2RPCDurableSideEffectMethod (mc_Method v)" and "journal_ok j"
  shows "journal_ok j'"
proof -
  have "j' = j \<or> enforceV2OperationJournalCapacity j (mc_Controller v) 0 = None \<and>
      insert_effect j (mc_OperationID v) \<lparr>er_digest = mc_Digest v, er_controller = mc_Controller v, er_project = mc_Project v,
        er_method = mc_Method v, er_state = v2SideEffectPrepared, er_created = UnixMilli (mc_Now v),
        er_updated = UnixMilli (mc_Now v), er_expires = UnixMilli (mc_Now v + v2OperationRetention)\<rparr> = Inr j'"
    using assms(1) by (auto simp: prepare_rows_def Let_def split: if_splits option.splits sum.splits)
  then show ?thesis using insert_effect_ok [where j = j and j' = j'] capacity_room assms(2,3) by fastforce
qed

lemma transition_rows_ok:
  assumes t: "transition_rows clock j v from to = Inr j'" and ok: "journal_ok j"
  shows "journal_ok j'"
proof -
  obtain r where r: "fmlookup (j_effects j) (mc_OperationID v) = Some r"
    and j': "j' = j\<lparr>j_effects := fmupd (mc_OperationID v)
           (r\<lparr>er_state := to, er_updated := max (er_updated r) (UnixMilli (max clock (mc_Now v))),
              er_expires := max (er_updated r) (UnixMilli (max clock (mc_Now v))) + v2OperationRetention_Milliseconds\<rparr>)
           (j_effects j)\<rparr>"
    by (rule transition_rows_eq [OF t])
  have "effect_row_ok (mc_OperationID v) r" using ok r by (auto simp: journal_ok_def journal_typed_def)
  then have "journal_typed j'" using ok by (auto simp: journal_ok_def journal_typed_def effect_row_ok_def j')
  moreover have "journal_limited j'"
    using ok unfolding journal_ok_def journal_limited_def journal_sums j' by (simp add: table_sum_replace [OF r])
  ultimately show ?thesis by (simp add: journal_ok_def)
qed

lemma delete_rows_sub: "delete_rows j v = Inr j' \<Longrightarrow> sub_journal j' j"
  using delete_rows_eq unfolding sub_journal_def by (metis empty_iff insert_iff option.distinct(1))

lemma save_call_ok:
  "sweepV2OperationRows j now = Inr j1 \<Longrightarrow> save_rows j1 i digest encoded now c p = Inr k \<Longrightarrow>
   length encoded \<le> maximumPeerRPCPlaintext \<Longrightarrow> journal_ok j \<Longrightarrow> journal_ok k"
  by (rule save_rows_ok [OF _ _ sub_ok [OF sub_sweep]])

lemma prepare_call_ok:
  "sweepV2OperationRows j now = Inr j1 \<Longrightarrow> prepare_rows j1 v = Inr (k, s) \<Longrightarrow>
   v2RPCDurableSideEffectMethod (mc_Method v) \<Longrightarrow> journal_ok j \<Longrightarrow> journal_ok k"
  by (rule prepare_rows_ok [OF _ _ sub_ok [OF sub_sweep]])

lemma journal_reachable_ok: "journal_reachable L j \<Longrightarrow> journal_ok j"
proof (induction rule: journal_reachable.induct)
  case empty
  show ?case
    by (auto simp: journal_ok_def journal_limited_def journal_typed_def empty_journal_def journal_sums table_sum_def
        v2OperationMaximumRowsPerDevice_def v2OperationMaximumBytesPerDevice_def
        v2OperationMaximumRowsPerController_def v2OperationMaximumBytesPerController_def)
next
  case (sweep j io now)
  then show ?case
    by (auto simp: sweepV2Operations_def split: sum.splits intro!: run_tx_ok dest: sub_ok [OF sub_sweep])
next
  case (business j io v)
  then show ?case
    by (auto simp: commitBusinessTransaction_def split: sum.splits option.splits intro!: run_tx_ok dest: mark_ok)
next
  case (save j io i digest response now c p)
  then show ?case
    by (auto simp: saveV2OperationScoped_def not_less split: sum.splits option.splits intro!: run_tx_ok
        intro: save_call_ok)
next
  case (prepare j io v)
  then show ?case
    by (auto simp: prepareV2SideEffect_def split: sum.splits intro!: run_tx_ok intro: prepare_call_ok)
next
  case (transition j io clock v s s')
  then show ?case
    by (auto simp: transitionV2SideEffect_def split: sum.splits intro!: run_tx_ok intro: transition_rows_ok)
next
  case (delete j io v)
  then show ?case
    by (auto simp: deleteV2SideEffect_def split: sum.splits intro!: run_tx_ok intro: sub_ok [OF delete_rows_sub])
qed

subsection \<open>Properties\<close>

definition sample_uuid :: "char \<Rightarrow> string" where
  "sample_uuid c = replicate 36 c"

definition sample_journal_library :: journal_library where
  "sample_journal_library = \<lparr>jl_uuid = (\<lambda>i. length i = 36), jl_marshal = (\<lambda>p. Some (10 # rp_payload p)),
     jl_unmarshal = (\<lambda>_. None), jl_response_size = (\<lambda>_. 1), jl_event_size = (\<lambda>_. 1)\<rparr>"

definition sample_mutation :: v2OperationMutationContext where
  "sample_mutation = \<lparr>mc_OperationID = sample_uuid (CHR ''a''), mc_Digest = replicate 32 7, mc_Controller = sample_uuid (CHR ''c''),
     mc_Project = [], mc_Method = ''file.delete'', mc_Now = Second\<rparr>"

definition sample_prepared :: journal where
  "sample_prepared = fst (prepareV2SideEffect sample_journal_library tx_applied empty_journal sample_mutation)"

lemma sample_prepared_reachable: "journal_reachable sample_journal_library sample_prepared"
  unfolding sample_prepared_def by (intro journal_reachable.intros)

lemma sample_prepared_row: "fmlookup (j_effects sample_prepared) (sample_uuid (CHR ''a'')) \<noteq> None"
  by (simp add: sample_prepared_def prepareV2SideEffect_def sample_journal_library_def sample_mutation_def sample_uuid_def
      validV2OperationMutationContext_def v2RPCDurableSideEffectMethod_def duration_defs sweepV2OperationRows_def empty_journal_def
      prepare_rows_def durable_digest_def loadV2SideEffectTx_def enforceV2OperationJournalCapacity_def table_sum_def count_of_def
      insert_effect_def v2OperationMaximumRowsPerDevice_def v2OperationMaximumBytesPerDevice_def
      v2OperationMaximumRowsPerController_def v2OperationMaximumBytesPerController_def)

text \<open>
  C28. Whatever operations the agent performs on its journal, and whatever the
  database and the clock do: the three tables together hold at most 100,000
  rows and the stored responses at most one gibibyte, and of one controller at
  most 20,000 rows and 256 mebibytes.
\<close>

theorem journal_within_limits:
  assumes "journal_reachable L j"
  shows "js_Rows (journal_snapshot j) + js_ClaimRows (journal_snapshot j) + js_SideEffectRows (journal_snapshot j) \<le> 100000 \<and>
    js_BlobBytes (journal_snapshot j) \<le> 1073741824 \<and>
    (\<forall>c. count_of or_controller c (j_operations j) + count_of cr_controller c (j_claims j) +
           count_of er_controller c (j_effects j) \<le> 20000 \<and>
         table_sum (\<lambda>r. if or_controller r = c then int (length (or_blob r)) else 0) (j_operations j) \<le> 268435456)"
  using journal_reachable_ok [OF assms]
  by (simp add: journal_ok_def journal_limited_def journal_snapshot_def journal_sums v2OperationMaximumRowsPerDevice_def
      v2OperationMaximumBytesPerDevice_def v2OperationMaximumRowsPerController_def v2OperationMaximumBytesPerController_def)

theorem journal_within_limits_witness:
  "fmlookup (j_effects sample_prepared) (sample_uuid (CHR ''a'')) \<noteq> None \<and>
   js_SideEffectRows (journal_snapshot sample_prepared) \<le> 100000"
  using journal_within_limits [OF sample_prepared_reachable] sample_prepared_row
    table_sum_nonneg [of "\<lambda>_. 1" "j_operations sample_prepared"] table_sum_nonneg [of "\<lambda>_. 1" "j_claims sample_prepared"]
  by (simp add: journal_snapshot_def)

text \<open>
  C37. Every row of a journal the agent reaches is well formed: keyed by an
  identifier of 36 characters, with a digest of 32 bytes, a response that is
  not empty and within the limit of a message, a method the journal admits,
  times in order, and an expiry 24 hours after the row was written or, for a
  side effect, last changed.
\<close>

theorem journal_rows_well_formed:
  assumes "journal_reachable L j"
  shows "(\<forall>i r. fmlookup (j_operations j) i = Some r \<longrightarrow> length i = 36 \<and> length (or_digest r) = 32 \<and> or_blob r \<noteq> [] \<and>
      length (or_blob r) \<le> maximumPeerRPCPlaintext \<and> or_expires r = or_created r + 86400000) \<and>
    (\<forall>i r. fmlookup (j_claims j) i = Some r \<longrightarrow> length i = 36 \<and> length (cr_digest r) = 32 \<and>
      1 \<le> length (cr_method r) \<and> length (cr_method r) \<le> 120 \<and> cr_expires r = cr_created r + 86400000) \<and>
    (\<forall>i r. fmlookup (j_effects j) i = Some r \<longrightarrow> length i = 36 \<and> length (er_digest r) = 32 \<and>
      v2RPCDurableSideEffectMethod (er_method r) \<and> er_created r \<le> er_updated r \<and> er_expires r = er_updated r + 86400000)"
  using journal_reachable_ok [OF assms]
  by (auto simp: journal_ok_def journal_typed_def operation_row_ok_def claim_row_ok_def effect_row_ok_def retention_value)

theorem journal_rows_well_formed_witness:
  "\<exists>r. fmlookup (j_effects sample_prepared) (sample_uuid (CHR ''a'')) = Some r \<and>
     er_created r \<le> er_updated r \<and> er_expires r = er_updated r + 86400000"
  using journal_rows_well_formed [OF sample_prepared_reachable] sample_prepared_row by auto

end
