(* ===== verification/Operation_Executor.thy ===== *)
theory Operation_Executor
  imports Operation_Journal
begin

text \<open>
  The execution of a remote procedure call by the device agent: the in-flight
  coordinator \<open>v2_operation_coordinator.go\<close> and, of \<open>network_v2.go\<close>,
  \<open>executeRPC\<close> with the digest, the hot cache of a link, the resolution and the
  persistence of a response.

  The state is what the calls share: the journal, the coordinator, the caches
  of the links. Every access to the database, to the coordinator or to a cache
  is a step of its own, so the steps of concurrent calls interleave, and a
  crash may happen between any two of them. The handler of the dispatcher is
  the environment: it may call the tracker and commit business transactions in
  any order, and returns any response. \<open>legacyRPCRequest\<close> fails only on nil
  arguments, its error branch is \<open>rpc_invalid\<close>.
\<close>

subsection \<open>Methods and digests\<close>

definition v2RPCDurableGenerationMethod :: "string \<Rightarrow> bool" where
  "v2RPCDurableGenerationMethod method \<longleftrightarrow>
     method \<in> {''conversation.send'', ''conversation.chat.send'', ''chat.send'', ''conversation.regenerate''}"

definition v2RPCLiveMethod :: "string \<Rightarrow> bool" where
  "v2RPCLiveMethod method \<longleftrightarrow> v2RPCDurableGenerationMethod method \<or>
     method \<in> {''conversation.generation.attach'', ''terminal.attach''}"

definition HasSuffix :: "string \<Rightarrow> string \<Rightarrow> bool" where
  "HasSuffix s suffix \<longleftrightarrow> length suffix \<le> length s \<and> drop (length s - length suffix) s = suffix"

definition v2RPCReadOnlyMethod :: "string \<Rightarrow> bool" where
  "v2RPCReadOnlyMethod method \<longleftrightarrow>
     HasSuffix method ''.get'' \<or> HasSuffix method ''.list'' \<or> HasSuffix method ''.stat'' \<or> HasSuffix method ''.query'' \<or>
     method \<in> {''conversation.search'', ''conversation.messages.before'', ''conversation.message.content'',
       ''conversation.events'', ''conversation.generation.attach'', ''event.subscribe'', ''terminal.attach'',
       ''task.logs'', ''task.logs.download.prepare''}"

definition operation_encoding :: "string \<Rightarrow> string \<Rightarrow> string \<Rightarrow> RpcRequest \<Rightarrow> bytes" where
  "operation_encoding controllerID projectID scope request =
     go_bytes ''wenzwork-remote-v2/operation-v2'' @ [0] @ go_bytes controllerID @ [0] @ go_bytes projectID @ [0] @
     go_bytes scope @ [0] @ go_bytes (rq_method request) @ [0] @ rq_payload request @
     (case rq_expected_revision request of Some revision \<Rightarrow> 1 # go_bytes (uint64Text revision) | None \<Rightarrow> [0])"

definition v2RPCOperationDigest :: "primitives \<Rightarrow> string \<Rightarrow> string \<Rightarrow> string \<Rightarrow> RpcRequest \<Rightarrow> bytes" where
  "v2RPCOperationDigest P controllerID projectID scope request =
     sha256 P (operation_encoding controllerID projectID scope request)"

subsection \<open>Responses\<close>

definition ERROR_FRAME_INVALID :: ProtocolErrorCode where "ERROR_FRAME_INVALID = 2"

definition v2RPCDurableOutcome :: "RpcResponse \<Rightarrow> bool" where
  "v2RPCDurableOutcome response \<longleftrightarrow> rp_error_code response = ERROR_UNSPECIFIED \<and> rp_safe_error_code response = []"

definition failed_response :: "RpcRequest \<Rightarrow> string \<Rightarrow> bool \<Rightarrow> u32 \<Rightarrow> RpcResponse" where
  "failed_response request safeCode retryable retryAfter =
     \<lparr>rp_operation_id = rq_operation_id request, rp_attempt_id = rq_attempt_id request, rp_revision = 0,
      rp_error_code = ERROR_FRAME_INVALID, rp_replayed = False, rp_payload = [], rp_safe_error_code = safeCode,
      rp_retryable = retryable, rp_retry_after_seconds = retryAfter\<rparr>"

definition v2RPCUnknownCommitResponse :: "RpcRequest \<Rightarrow> RpcResponse" where
  "v2RPCUnknownCommitResponse request = failed_response request ''operation_commit_unknown'' True 1"

definition v2RPCOperationStoreUnavailableResponse :: "RpcRequest \<Rightarrow> RpcResponse" where
  "v2RPCOperationStoreUnavailableResponse request = failed_response request ''operation_store_unavailable'' True 1"

text \<open>The response \<open>sendRPCProtocolError\<close> sends.\<close>

definition protocol_error :: "RpcRequest \<Rightarrow> string \<Rightarrow> bool \<Rightarrow> RpcResponse" where
  "protocol_error request safeCode retryable = failed_response request safeCode retryable 0"

text \<open>The answer of the dispatcher, an envelope of the first protocol version.\<close>

datatype RpcErrorCode =
    RPC_ERROR_CODE_UNSPECIFIED
  | RPC_ERROR_CODE_INVALID_ARGUMENT
  | RPC_ERROR_CODE_NOT_FOUND
  | RPC_ERROR_CODE_FORBIDDEN
  | RPC_ERROR_CODE_REVISION_CONFLICT
  | RPC_ERROR_CODE_IDEMPOTENCY_CONFLICT
  | RPC_ERROR_CODE_BUSY
  | RPC_ERROR_CODE_CANCELLED
  | RPC_ERROR_CODE_INTERNAL
  | RPC_ERROR_CODE_PROJECT_MISMATCH
  | RPC_ERROR_CODE_CAPABILITY_UNAVAILABLE
  | RPC_ERROR_CODE_DEADLINE_EXCEEDED
  | RPC_ERROR_CODE_RESOURCE_EXHAUSTED

record RpcError =
  re_code :: RpcErrorCode
  re_safe_message :: string
  re_retryable :: bool
  re_retry_after_seconds :: u32

record legacy_response =
  lr_header :: "(u64 \<times> bool) option"
  lr_error :: "RpcError option"
  lr_json_payload :: bytes

definition v2RPCSemanticErrorCode :: "string \<Rightarrow> bool" where
  "v2RPCSemanticErrorCode v \<longleftrightarrow>
     3 \<le> length v \<and> length v \<le> 80 \<and> CHR ''_'' \<in> set v \<and>
     (\<forall>c\<in>set v. c = CHR ''_'' \<or> (CHR ''A'' \<le> c \<and> c \<le> CHR ''Z'') \<or> (CHR ''0'' \<le> c \<and> c \<le> CHR ''9''))"

definition v2RPCErrorCodeName :: "RpcErrorCode \<Rightarrow> string" where
  "v2RPCErrorCodeName code =
     (case code of
        RPC_ERROR_CODE_INVALID_ARGUMENT \<Rightarrow> ''invalid_argument''
      | RPC_ERROR_CODE_NOT_FOUND \<Rightarrow> ''not_found''
      | RPC_ERROR_CODE_FORBIDDEN \<Rightarrow> ''forbidden''
      | RPC_ERROR_CODE_REVISION_CONFLICT \<Rightarrow> ''revision_conflict''
      | RPC_ERROR_CODE_IDEMPOTENCY_CONFLICT \<Rightarrow> ''idempotency_conflict''
      | RPC_ERROR_CODE_BUSY \<Rightarrow> ''busy''
      | RPC_ERROR_CODE_CANCELLED \<Rightarrow> ''cancelled''
      | RPC_ERROR_CODE_INTERNAL \<Rightarrow> ''internal''
      | RPC_ERROR_CODE_PROJECT_MISMATCH \<Rightarrow> ''project_mismatch''
      | RPC_ERROR_CODE_CAPABILITY_UNAVAILABLE \<Rightarrow> ''capability_unavailable''
      | RPC_ERROR_CODE_DEADLINE_EXCEEDED \<Rightarrow> ''deadline_exceeded''
      | RPC_ERROR_CODE_RESOURCE_EXHAUSTED \<Rightarrow> ''resource_exhausted''
      | _ \<Rightarrow> ''remote_operation_failed'')"

definition v2RPCSafeErrorCode :: "RpcError \<Rightarrow> string" where
  "v2RPCSafeErrorCode failure =
     (let semantic = TrimSpace (re_safe_message failure)
      in if v2RPCSemanticErrorCode semantic then semantic else v2RPCErrorCodeName (re_code failure))"

definition v2RPCResponseFromLegacy :: "RpcRequest \<Rightarrow> legacy_response option \<Rightarrow> RpcResponse" where
  "v2RPCResponseFromLegacy request envelope =
     (case envelope of
        None \<Rightarrow> failed_response request ''device_response_invalid'' True 0
      | Some legacy \<Rightarrow>
          let response = \<lparr>rp_operation_id = rq_operation_id request, rp_attempt_id = rq_attempt_id request,
                rp_revision = (case lr_header legacy of Some (revision, _) \<Rightarrow> revision | None \<Rightarrow> 0),
                rp_error_code = ERROR_UNSPECIFIED,
                rp_replayed = (case lr_header legacy of Some (_, replayed) \<Rightarrow> replayed | None \<Rightarrow> False),
                rp_payload = [], rp_safe_error_code = [], rp_retryable = False, rp_retry_after_seconds = 0\<rparr>
          in case lr_error legacy of
               Some failure \<Rightarrow>
                 response\<lparr>rp_error_code := ERROR_FRAME_INVALID, rp_safe_error_code := v2RPCSafeErrorCode failure,
                   rp_retryable := re_retryable failure, rp_retry_after_seconds := re_retry_after_seconds failure\<rparr>
             | None \<Rightarrow> response\<lparr>rp_payload := lr_json_payload legacy\<rparr>)"

subsection \<open>The in-flight coordinator\<close>

definition v2MaximumInFlightOperations :: nat where "v2MaximumInFlightOperations = 512"

text \<open>\<open>if_finished\<close>: the channel \<open>done\<close> is closed.\<close>

record v2InFlightOperation =
  if_digest :: bytes
  if_finished :: bool
  if_response :: "RpcResponse option"

text \<open>
  The part of \<open>agentState\<close> used here: the business store (\<open>None\<close> is nil) and
  \<open>v2Operations\<close>, whose values point into a heap of which \<open>ag_next\<close> is the next
  free address.
\<close>

record agentState =
  ag_business :: "journal option"
  ag_operations :: "(string, nat) fmap"
  ag_heap :: "nat \<Rightarrow> v2InFlightOperation"
  ag_next :: nat

definition claimV2Operation :: "agentState \<Rightarrow> string \<Rightarrow> bytes \<Rightarrow> agentState \<times> (rpc_error + nat \<times> bool)" where
  "claimV2Operation s operationID digest =
     (if operationID = [] then (s, Inl errRPCInvalid)
      else case fmlookup (ag_operations s) operationID of
             Some existing \<Rightarrow>
               if if_digest (ag_heap s existing) \<noteq> digest then (s, Inl errRPCIdempotency) else (s, Inr (existing, False))
           | None \<Rightarrow>
               if fmlen (ag_operations s) \<ge> v2MaximumInFlightOperations then (s, Inl errRPCBusy)
               else
                 let claim = ag_next s
                 in (s\<lparr>ag_heap := (ag_heap s)(claim := \<lparr>if_digest = digest, if_finished = False, if_response = None\<rparr>),
                       ag_next := claim + 1, ag_operations := fmupd operationID claim (ag_operations s)\<rparr>,
                     Inr (claim, True)))"

definition finishV2Operation :: "agentState \<Rightarrow> string \<Rightarrow> nat \<Rightarrow> RpcResponse option \<Rightarrow> agentState" where
  "finishV2Operation s operationID claim response =
     (if fmlookup (ag_operations s) operationID \<noteq> Some claim then s
      else
        let c = ag_heap s claim;
            c = (if response \<noteq> None then c\<lparr>if_response := response\<rparr> else c)
        in s\<lparr>ag_operations := fmdrop operationID (ag_operations s),
             ag_heap := (ag_heap s)(claim := c\<lparr>if_finished := True\<rparr>)\<rparr>)"

text \<open>\<open>wait\<close> returns when the context is done or the claim finished; \<open>None\<close> is still waiting.\<close>

definition claim_wait :: "v2InFlightOperation \<Rightarrow> bool \<Rightarrow> (rpc_error + RpcResponse) option" where
  "claim_wait claim cancelled =
     (if cancelled then Some (Inl errV2OperationInProgress)
      else if if_finished claim then
        Some (case if_response claim of None \<Rightarrow> Inl errV2OperationInProgress | Some response \<Rightarrow> Inr response)
      else None)"

definition v2InFlightOperationCount :: "agentState \<Rightarrow> nat" where
  "v2InFlightOperationCount s = fmlen (ag_operations s)"

subsection \<open>The hot cache of a link\<close>

definition v2MaximumCachedOperations :: nat where "v2MaximumCachedOperations = 128"
definition v2CachedOperationTTL :: duration where "v2CachedOperationTTL = 5 * Minute"
definition v2MaximumOperationBytes :: int where "v2MaximumOperationBytes = 4 * 2 ^ 20"
definition v2MaximumOperationEvents :: nat where "v2MaximumOperationEvents = 64"
definition v2MaximumOperationEventBytes :: int where "v2MaximumOperationEventBytes = 256 * 2 ^ 10"

record v2AgentOperation =
  ao_digest :: bytes
  ao_response :: RpcResponse
  ao_events :: "RpcEvent list"
  ao_cachedAt :: instant
  ao_bytes :: int

text \<open>The fields of \<open>v2AgentLink\<close> used here; \<open>al_ClientID\<close> is \<open>binding.ClientID\<close>.\<close>

record v2AgentLink =
  al_ClientID :: string
  al_closed :: bool
  al_operations :: "(string, v2AgentOperation) fmap"
  al_operationBytes :: int

definition operation_stale :: "instant \<Rightarrow> v2AgentOperation \<Rightarrow> bool" where
  "operation_stale now operation \<longleftrightarrow>
     IsZero (ao_cachedAt operation) \<or> now - ao_cachedAt operation > v2CachedOperationTTL"

definition drop_operation :: "string \<Rightarrow> v2AgentLink \<Rightarrow> v2AgentLink" where
  "drop_operation i link =
     (case fmlookup (al_operations link) i of
        None \<Rightarrow> link
      | Some operation \<Rightarrow>
          link\<lparr>al_operationBytes := al_operationBytes link - ao_bytes operation,
               al_operations := fmdrop i (al_operations link)\<rparr>)"

definition cachedOperation ::
  "instant \<Rightarrow> v2AgentLink \<Rightarrow> string \<Rightarrow> bytes \<Rightarrow> v2AgentLink \<times> v2AgentOperation option" where
  "cachedOperation now link operationID digest =
     (if operationID = [] then (link, None)
      else case fmlookup (al_operations link) operationID of
             None \<Rightarrow> (link, None)
           | Some operation \<Rightarrow>
               if operation_stale now operation then (drop_operation operationID link, None)
               else (link, if ao_digest operation = digest then Some operation else None))"

text \<open>
  \<open>keys\<close> gives the keys of a map in the order an iteration visits them. The
  oldest entry is the first of those with the least \<open>cachedAt\<close>; the empty
  string stands for none.
\<close>

definition oldest_operation :: "v2AgentLink \<Rightarrow> string list \<Rightarrow> string" where
  "oldest_operation link keys =
     fst (fold (\<lambda>i (oldestID, oldest).
                  case fmlookup (al_operations link) i of
                    None \<Rightarrow> (oldestID, oldest)
                  | Some operation \<Rightarrow>
                      if oldestID = [] \<or> ao_cachedAt operation < oldest then (i, ao_cachedAt operation)
                      else (oldestID, oldest))
               keys ([], 0))"

text \<open>The loop that makes room; every round removes an entry, so \<open>fuel\<close> above their number is enough.\<close>

primrec evict_operations :: "nat \<Rightarrow> (v2AgentLink \<Rightarrow> string list) \<Rightarrow> int \<Rightarrow> v2AgentLink \<Rightarrow> v2AgentLink" where
  "evict_operations 0 keys weight link = link"
| "evict_operations (Suc fuel) keys weight link =
     (if fmlen (al_operations link) \<ge> v2MaximumCachedOperations \<or>
         al_operationBytes link + weight > v2MaximumOperationBytes
      then
        let oldestID = oldest_operation link (keys link)
        in if oldestID = [] then link else evict_operations fuel keys weight (drop_operation oldestID link)
      else link)"

definition cacheOperation ::
  "journal_library \<Rightarrow> (v2AgentLink \<Rightarrow> string list) \<Rightarrow> instant \<Rightarrow> v2AgentLink \<Rightarrow> string \<Rightarrow> bytes \<Rightarrow> RpcResponse \<Rightarrow>
   RpcEvent list \<Rightarrow> v2AgentLink" where
  "cacheOperation L keys now link operationID digest response events =
     (if operationID = [] then link
      else if length events > v2MaximumOperationEvents then link
      else
        let eventBytes = sum_list (map (jl_event_size L) events);
            weight = jl_response_size L response + eventBytes
        in if eventBytes > v2MaximumOperationEventBytes \<or> weight \<le> 0 \<or> weight > v2MaximumOperationBytes then link
           else if al_closed link then link
           else
             let link = fold drop_operation
                   (filter (\<lambda>i. case fmlookup (al_operations link) i of None \<Rightarrow> False | Some operation \<Rightarrow> operation_stale now operation)
                      (keys link)) link;
                 link = drop_operation operationID link;
                 link = evict_operations (Suc (fmlen (al_operations link))) keys weight link
             in link\<lparr>al_operations := fmupd operationID
                       \<lparr>ao_digest = digest, ao_response = response, ao_events = events, ao_cachedAt = now, ao_bytes = weight\<rparr>
                       (al_operations link),
                     al_operationBytes := al_operationBytes link + weight\<rparr>)"

subsection \<open>Resolution and persistence of a response\<close>

definition resolveV2SideEffectResponse ::
  "journal_library \<Rightarrow> tx_outcome \<Rightarrow> instant \<Rightarrow> journal \<Rightarrow> RpcRequest \<Rightarrow> RpcResponse \<Rightarrow> v2SideEffectTracker option \<Rightarrow>
   journal \<times> RpcResponse" where
  "resolveV2SideEffectResponse L io clock j request response tracker =
     (case tracker of
        None \<Rightarrow> (j, response)
      | Some _ \<Rightarrow>
          (case responseDisposition tracker of
             (state, outcome, uncertain) \<Rightarrow>
               if v2RPCDurableOutcome response then
                 if \<not> uncertain \<and> (state = Some v2SideEffectCommitted \<or> outcome = v2SideEffectNoEffect) then (j, response)
                 else
                   let j' = (if \<not> uncertain \<and> state = Some v2SideEffectPrepared \<and> outcome = v2SideEffectActive
                             then fst (beginV2SideEffect L io clock j tracker) else j)
                   in (j', v2RPCUnknownCommitResponse request)
               else if outcome = v2SideEffectRolledBack then (j, response)
               else if uncertain \<or> state = Some v2SideEffectStarted \<or> state = Some v2SideEffectCommitted
               then (j, v2RPCUnknownCommitResponse request)
               else (case discardPrepared L io j tracker of
                       (j', _, None) \<Rightarrow> (j', response)
                     | (j', _, Some _) \<Rightarrow> (j', v2RPCOperationStoreUnavailableResponse request))))"

definition persistV2Operation ::
  "journal_library \<Rightarrow> (v2AgentLink \<Rightarrow> string list) \<Rightarrow> tx_outcome \<Rightarrow> instant \<Rightarrow> journal option \<Rightarrow> v2AgentLink \<Rightarrow> RpcRequest \<Rightarrow>
   string \<Rightarrow> bytes \<Rightarrow> RpcResponse \<Rightarrow> RpcEvent list \<Rightarrow> journal option \<times> v2AgentLink \<times> RpcResponse" where
  "persistV2Operation L keys io now business link request projectID digest response events =
     (if \<not> v2RPCDurableOutcome response then (business, link, response)
      else case business of
             None \<Rightarrow> (None, link, v2RPCUnknownCommitResponse request)
           | Some j \<Rightarrow>
               (case saveV2OperationScoped L io j (rq_operation_id request) digest response now (al_ClientID link) projectID of
                  (j', Inl _) \<Rightarrow> (Some j', link, v2RPCUnknownCommitResponse request)
                | (j', Inr _) \<Rightarrow>
                    (Some j', cacheOperation L keys now link (rq_operation_id request) digest response events, response)))"

subsection \<open>The calls in progress\<close>

text \<open>
  Where a call of \<open>executeRPC\<close> for a mutation stands: waiting for another call
  of the same operation; about to look into the hot cache; about to read the
  operation row, the claim row (with the clock read before), to prepare; its
  handler running; about to resolve, to persist, to finish.
\<close>

datatype rpc_phase =
    ph_wait
  | ph_cache
  | ph_operation
  | ph_claim instant
  | ph_prepare
  | ph_handler
  | ph_resolve RpcResponse "RpcEvent list"
  | ph_persist RpcResponse "RpcEvent list"
  | ph_finish RpcResponse "RpcEvent list"

record rpc_run =
  rr_link :: nat
  rr_request :: RpcRequest
  rr_context :: v2OperationMutationContext
  rr_claim :: nat
  rr_tracker :: "v2SideEffectTracker option"
  rr_phase :: rpc_phase

record effect_record =
  ef_operation :: string
  ef_call :: nat
  ef_time :: instant

record mutation_record =
  mu_operation :: string
  mu_call :: nat
  mu_request :: instant
  mu_commit :: instant
  mu_expires :: int

text \<open>
  The world of the calls. \<open>ex_effects\<close> and \<open>ex_mutations\<close> record what happened
  outside of the journal: an external effect of an operation that a call may
  have caused since its \<open>beginV2SideEffect\<close> returned nil, unless it rolled it
  back, and a business transaction that became durable, with the expiry of the
  journal row that keeps it from being repeated. \<open>ex_sent\<close> records the responses handed to the links.
\<close>

record executor =
  ex_agent :: agentState
  ex_links :: "nat \<Rightarrow> v2AgentLink"
  ex_runs :: "(nat, rpc_run) fmap"
  ex_next :: nat
  ex_now :: instant
  ex_effects :: "effect_record list"
  ex_mutations :: "mutation_record list"
  ex_sent :: "(nat \<times> RpcEvent list \<times> RpcResponse) list"

definition new_link :: "string \<Rightarrow> v2AgentLink" where
  "new_link client = \<lparr>al_ClientID = client, al_closed = False, al_operations = fmempty, al_operationBytes = 0\<rparr>"

definition start_agent :: "journal option \<Rightarrow> agentState" where
  "start_agent business = \<lparr>ag_business = business, ag_operations = fmempty,
     ag_heap = (\<lambda>_. \<lparr>if_digest = [], if_finished = False, if_response = None\<rparr>), ag_next = 0\<rparr>"

definition start_executor :: "instant \<Rightarrow> journal option \<Rightarrow> (nat \<Rightarrow> string) \<Rightarrow> executor" where
  "start_executor now business clients =
     \<lparr>ex_agent = start_agent business, ex_links = (\<lambda>l. new_link (clients l)), ex_runs = fmempty, ex_next = 0, ex_now = now,
      ex_effects = [], ex_mutations = [], ex_sent = []\<rparr>"

abbreviation run_operation :: "rpc_run \<Rightarrow> string" where
  "run_operation r \<equiv> rq_operation_id (rr_request r)"

definition the_journal :: "executor \<Rightarrow> journal" where
  "the_journal x = (case ag_business (ex_agent x) of Some j \<Rightarrow> j | None \<Rightarrow> empty_journal)"

definition set_journal :: "journal \<Rightarrow> executor \<Rightarrow> executor" where
  "set_journal j x = x\<lparr>ex_agent := (ex_agent x)\<lparr>ag_business := map_option (\<lambda>_. j) (ag_business (ex_agent x))\<rparr>\<rparr>"

definition set_run :: "nat \<Rightarrow> rpc_run \<Rightarrow> executor \<Rightarrow> executor" where
  "set_run n r x = x\<lparr>ex_runs := fmupd n r (ex_runs x)\<rparr>"

definition send :: "nat \<Rightarrow> RpcEvent list \<Rightarrow> RpcResponse \<Rightarrow> executor \<Rightarrow> executor" where
  "send link events response x = x\<lparr>ex_sent := ex_sent x @ [(link, events, response)]\<rparr>"

text \<open>The end of a call: the claim is finished (a second time by the deferred call, without effect) and the response sent.\<close>

definition end_run ::
  "nat \<Rightarrow> rpc_run \<Rightarrow> RpcResponse option \<Rightarrow> RpcEvent list \<Rightarrow> RpcResponse \<Rightarrow> executor \<Rightarrow> executor" where
  "end_run n r finished events response x =
     send (rr_link r) events response
       (x\<lparr>ex_agent := finishV2Operation (ex_agent x) (run_operation r) (rr_claim r) finished,
          ex_runs := fmdrop n (ex_runs x)\<rparr>)"

abbreviation fail_run :: "nat \<Rightarrow> rpc_run \<Rightarrow> string \<Rightarrow> bool \<Rightarrow> executor \<Rightarrow> executor" where
  "fail_run n r safeCode retryable x \<equiv> end_run n r None [] (protocol_error (rr_request r) safeCode retryable) x"

text \<open>The answer to a call whose operation was committed without a stored response.\<close>

definition unknown_run :: "nat \<Rightarrow> rpc_run \<Rightarrow> executor \<Rightarrow> executor" where
  "unknown_run n r x =
     (let response = (v2RPCUnknownCommitResponse (rr_request r))\<lparr>rp_replayed := True\<rparr>
      in end_run n r (Some response) [] response x)"

subsection \<open>The steps of a call\<close>

text \<open>\<open>executeRPC\<close> up to \<open>claimV2Operation\<close>; \<open>requested\<close> is the clock that was read before the claim.\<close>

definition rpc_receive :: "primitives \<Rightarrow> nat \<Rightarrow> string \<Rightarrow> string \<Rightarrow> RpcRequest \<Rightarrow> instant \<Rightarrow> executor \<Rightarrow> executor" where
  "rpc_receive P l projectID scope request requested x =
     (let client = al_ClientID (ex_links x l);
          digest = v2RPCOperationDigest P client projectID scope request;
          context = \<lparr>mc_OperationID = rq_operation_id request, mc_Digest = digest, mc_Controller = client,
                     mc_Project = projectID, mc_Method = rq_method request, mc_Now = requested\<rparr>
      in case claimV2Operation (ex_agent x) (rq_operation_id request) digest of
           (s, Inl errRPCIdempotency) \<Rightarrow> send l [] (protocol_error request ''operation_conflict'' False) x
         | (s, Inl _) \<Rightarrow> send l [] (protocol_error request ''operation_capacity_exhausted'' False) x
         | (s, Inr (claim, owner)) \<Rightarrow>
             set_run (ex_next x)
               \<lparr>rr_link = l, rr_request = request, rr_context = context, rr_claim = claim, rr_tracker = None,
                rr_phase = (if owner then ph_cache else ph_wait)\<rparr>
               (x\<lparr>ex_agent := s, ex_next := ex_next x + 1\<rparr>))"

text \<open>A read-only method touches none of the shared state: the handler answers it.\<close>

definition rpc_observe :: "nat \<Rightarrow> RpcRequest \<Rightarrow> legacy_response option \<Rightarrow> RpcEvent list \<Rightarrow> executor \<Rightarrow> executor" where
  "rpc_observe l request answer events x = send l events (v2RPCResponseFromLegacy request answer) x"

definition rpc_wait :: "nat \<Rightarrow> rpc_run \<Rightarrow> bool \<Rightarrow> executor \<Rightarrow> executor" where
  "rpc_wait n r cancelled x =
     (case claim_wait (ag_heap (ex_agent x) (rr_claim r)) cancelled of
        None \<Rightarrow> x
      | Some (Inl _) \<Rightarrow>
          send (rr_link r) [] (protocol_error (rr_request r) ''operation_in_progress'' True) (x\<lparr>ex_runs := fmdrop n (ex_runs x)\<rparr>)
      | Some (Inr response) \<Rightarrow>
          send (rr_link r) [] (response\<lparr>rp_attempt_id := rq_attempt_id (rr_request r), rp_replayed := True\<rparr>)
            (x\<lparr>ex_runs := fmdrop n (ex_runs x)\<rparr>))"

text \<open>The call ends with the response of a cached operation.\<close>

definition replay_run :: "nat \<Rightarrow> rpc_run \<Rightarrow> v2AgentOperation \<Rightarrow> executor \<Rightarrow> executor" where
  "replay_run n r cached x =
     end_run n r (Some (ao_response cached)) (ao_events cached)
       ((ao_response cached)\<lparr>rp_attempt_id := rq_attempt_id (rr_request r), rp_replayed := True\<rparr>) x"

text \<open>The beginning of the dispatch, or of the preparation for a method with external effects.\<close>

definition enter_prepare :: "nat \<Rightarrow> rpc_run \<Rightarrow> executor \<Rightarrow> executor" where
  "enter_prepare n r x =
     (if v2RPCDurableSideEffectMethod (rq_method (rr_request r)) then
        if ag_business (ex_agent x) = None then fail_run n r ''operation_store_unavailable'' True x
        else set_run n (r\<lparr>rr_phase := ph_prepare\<rparr>) x
      else set_run n (r\<lparr>rr_phase := ph_handler\<rparr>) x)"

definition rpc_cache :: "nat \<Rightarrow> rpc_run \<Rightarrow> executor \<Rightarrow> executor" where
  "rpc_cache n r x =
     (case cachedOperation (ex_now x) (ex_links x (rr_link r)) (run_operation r) (mc_Digest (rr_context r)) of
        (link, found) \<Rightarrow>
          let x = x\<lparr>ex_links := (ex_links x)(rr_link r := link)\<rparr>
          in case found of
               Some cached \<Rightarrow> replay_run n r cached x
             | None \<Rightarrow>
                 if ag_business (ex_agent x) \<noteq> None then set_run n (r\<lparr>rr_phase := ph_operation\<rparr>) x
                 else enter_prepare n r x)"

definition rpc_operation ::
  "journal_library \<Rightarrow> (v2AgentLink \<Rightarrow> string list) \<Rightarrow> bool \<Rightarrow> nat \<Rightarrow> rpc_run \<Rightarrow> executor \<Rightarrow> executor" where
  "rpc_operation L keys readable n r x =
     (let digest = mc_Digest (rr_context r); lookupNow = ex_now x
      in case loadV2Operation L readable (the_journal x) (run_operation r) digest lookupNow of
           Inr (Some stored) \<Rightarrow>
             let x = x\<lparr>ex_links := (ex_links x)(rr_link r :=
                   cacheOperation L keys lookupNow (ex_links x (rr_link r)) (run_operation r) digest stored [])\<rparr>
             in replay_run n r \<lparr>ao_digest = digest, ao_response = stored, ao_events = [], ao_cachedAt = lookupNow, ao_bytes = 0\<rparr> x
         | Inl e \<Rightarrow>
             if e \<noteq> errRPCIdempotency then fail_run n r ''operation_store_unavailable'' True x
             else fail_run n r ''operation_conflict'' False x
         | Inr None \<Rightarrow> set_run n (r\<lparr>rr_phase := ph_claim lookupNow\<rparr>) x)"

definition rpc_claim :: "journal_library \<Rightarrow> bool \<Rightarrow> instant \<Rightarrow> nat \<Rightarrow> rpc_run \<Rightarrow> executor \<Rightarrow> executor" where
  "rpc_claim L readable lookupNow n r x =
     (case loadV2OperationClaim L readable (the_journal x) (run_operation r) (mc_Digest (rr_context r)) lookupNow of
        Inl e \<Rightarrow>
          if e = errRPCIdempotency then fail_run n r ''operation_conflict'' False x
          else fail_run n r ''operation_store_unavailable'' True x
      | Inr True \<Rightarrow> unknown_run n r x
      | Inr False \<Rightarrow> enter_prepare n r x)"

definition rpc_prepare :: "journal_library \<Rightarrow> tx_outcome \<Rightarrow> nat \<Rightarrow> rpc_run \<Rightarrow> executor \<Rightarrow> executor" where
  "rpc_prepare L io n r x =
     (case prepareV2SideEffect L io (the_journal x) (rr_context r) of
        (j, result) \<Rightarrow>
          let x = set_journal j x
          in case result of
               Inl errRPCIdempotency \<Rightarrow> fail_run n r ''operation_conflict'' False x
             | Inl errV2OperationJournalCapacity \<Rightarrow> fail_run n r ''operation_capacity_exhausted'' False x
             | Inl _ \<Rightarrow> fail_run n r ''operation_store_unavailable'' True x
             | Inr v2SideEffectPrepared \<Rightarrow>
                 set_run n (r\<lparr>rr_tracker := Some (new_tracker (rr_context r)), rr_phase := ph_handler\<rparr>) x
             | Inr _ \<Rightarrow> unknown_run n r x)"

definition rpc_invalid :: "journal_library \<Rightarrow> tx_outcome \<Rightarrow> nat \<Rightarrow> rpc_run \<Rightarrow> executor \<Rightarrow> executor" where
  "rpc_invalid L io n r x =
     fail_run n r ''request_invalid'' False
       (set_journal (fst (discardPrepared L io (the_journal x) (rr_tracker r))) x)"

text \<open>The calls of the handler on the tracker in its context, and its business transactions.\<close>

definition rpc_begin :: "journal_library \<Rightarrow> tx_outcome \<Rightarrow> nat \<Rightarrow> rpc_run \<Rightarrow> executor \<Rightarrow> executor" where
  "rpc_begin L io n r x =
     (case beginV2SideEffect L io (ex_now x) (the_journal x) (rr_tracker r) of
        (j, tracker, failure) \<Rightarrow>
          let x = set_run n (r\<lparr>rr_tracker := tracker\<rparr>) (set_journal j x)
          in if failure = None \<and> tracker \<noteq> None
             then x\<lparr>ex_effects := ex_effects x @ [\<lparr>ef_operation = run_operation r, ef_call = n, ef_time = ex_now x\<rparr>]\<rparr> else x)"

definition rpc_commit :: "journal_library \<Rightarrow> tx_outcome \<Rightarrow> nat \<Rightarrow> rpc_run \<Rightarrow> executor \<Rightarrow> executor" where
  "rpc_commit L io n r x =
     (case commitV2SideEffect L io (ex_now x) (the_journal x) (rr_tracker r) of
        (j, tracker, failure) \<Rightarrow> set_run n (r\<lparr>rr_tracker := tracker\<rparr>) (set_journal j x))"

definition rpc_complete :: "nat \<Rightarrow> rpc_run \<Rightarrow> executor \<Rightarrow> executor" where
  "rpc_complete n r x = set_run n (r\<lparr>rr_tracker := fst (completeV2WithoutSideEffect (rr_tracker r))\<rparr>) x"

text \<open>A handler that asks for a roll back has undone the effect, or it never took place.\<close>

definition may_roll_back :: "v2SideEffectTracker option \<Rightarrow> bool" where
  "may_roll_back tracker \<longleftrightarrow>
     (case tracker of None \<Rightarrow> False
      | Some t \<Rightarrow> \<not> st_uncertain t \<and> st_outcome t = v2SideEffectActive \<and> st_state t = v2SideEffectStarted)"

definition rpc_rollback :: "journal_library \<Rightarrow> tx_outcome \<Rightarrow> nat \<Rightarrow> rpc_run \<Rightarrow> executor \<Rightarrow> executor" where
  "rpc_rollback L io n r x =
     (case rollbackV2SideEffect L io (the_journal x) (rr_tracker r) of
        (j, tracker, failure) \<Rightarrow>
          let x = set_run n (r\<lparr>rr_tracker := tracker\<rparr>) (set_journal j x)
          in if may_roll_back (rr_tracker r)
             then x\<lparr>ex_effects := filter (\<lambda>e. \<not> (ef_operation e = run_operation r \<and> ef_call e = n)) (ex_effects x)\<rparr> else x)"

text \<open>When the row that tells of a committed operation expires: its response, or its claim.\<close>

definition guard_expiry :: "journal \<Rightarrow> string \<Rightarrow> int" where
  "guard_expiry j i =
     (case fmlookup (j_operations j) i of
        Some r \<Rightarrow> or_expires r
      | None \<Rightarrow> (case fmlookup (j_claims j) i of Some r \<Rightarrow> cr_expires r | None \<Rightarrow> 0))"

text \<open>The transaction is durable if it was applied, whatever the commit reported.\<close>

definition rpc_business :: "journal_library \<Rightarrow> tx_outcome \<Rightarrow> nat \<Rightarrow> rpc_run \<Rightarrow> executor \<Rightarrow> executor" where
  "rpc_business L io n r x =
     (let j = the_journal x;
          durable = (io \<noteq> tx_failed \<and> \<not> Sum_Type.isl (markV2OperationEffectCommitted L j (rr_context r)));
          x = set_journal (fst (commitBusinessTransaction L io j (Some (rr_context r)))) x
      in if durable
         then x\<lparr>ex_mutations := ex_mutations x @
                [\<lparr>mu_operation = run_operation r, mu_call = n, mu_request = mc_Now (rr_context r), mu_commit = ex_now x,
                  mu_expires = guard_expiry (the_journal x) (run_operation r)\<rparr>]\<rparr> else x)"

definition rpc_return :: "nat \<Rightarrow> rpc_run \<Rightarrow> legacy_response option \<Rightarrow> RpcEvent list \<Rightarrow> executor \<Rightarrow> executor" where
  "rpc_return n r answer events x =
     set_run n (r\<lparr>rr_phase := ph_resolve (v2RPCResponseFromLegacy (rr_request r) answer) events\<rparr>) x"

text \<open>The rest of \<open>executeRPC\<close>; a live method has sent its events already and persists none.\<close>

definition rpc_resolve ::
  "journal_library \<Rightarrow> tx_outcome \<Rightarrow> RpcResponse \<Rightarrow> RpcEvent list \<Rightarrow> nat \<Rightarrow> rpc_run \<Rightarrow> executor \<Rightarrow> executor" where
  "rpc_resolve L io response events n r x =
     (case resolveV2SideEffectResponse L io (ex_now x) (the_journal x) (rr_request r) response (rr_tracker r) of
        (j, response') \<Rightarrow> set_run n (r\<lparr>rr_phase := ph_persist response' events\<rparr>) (set_journal j x))"

definition rpc_persist ::
  "journal_library \<Rightarrow> (v2AgentLink \<Rightarrow> string list) \<Rightarrow> tx_outcome \<Rightarrow> RpcResponse \<Rightarrow> RpcEvent list \<Rightarrow> nat \<Rightarrow> rpc_run \<Rightarrow>
   executor \<Rightarrow> executor" where
  "rpc_persist L keys io response events n r x =
     (let events' = (if v2RPCLiveMethod (rq_method (rr_request r)) then [] else events)
      in case persistV2Operation L keys io (ex_now x) (ag_business (ex_agent x)) (ex_links x (rr_link r)) (rr_request r)
                (mc_Project (rr_context r)) (mc_Digest (rr_context r)) response events' of
           (business, link, response') \<Rightarrow>
             set_run n (r\<lparr>rr_phase := ph_finish response' events\<rparr>)
               (x\<lparr>ex_agent := (ex_agent x)\<lparr>ag_business := business\<rparr>, ex_links := (ex_links x)(rr_link r := link)\<rparr>))"

definition rpc_finish :: "RpcResponse \<Rightarrow> RpcEvent list \<Rightarrow> nat \<Rightarrow> rpc_run \<Rightarrow> executor \<Rightarrow> executor" where
  "rpc_finish response events n r x =
     end_run n r (Some response) (if v2RPCLiveMethod (rq_method (rr_request r)) then [] else events) response x"

text \<open>The process dies: nothing but the database survives. Links, calls and claims are new.\<close>

definition rpc_crash :: "(nat \<Rightarrow> string) \<Rightarrow> executor \<Rightarrow> executor" where
  "rpc_crash clients x = x\<lparr>ex_agent := start_agent (ag_business (ex_agent x)), ex_links := (\<lambda>l. new_link (clients l)), ex_runs := fmempty\<rparr>"

definition close_link :: "nat \<Rightarrow> executor \<Rightarrow> executor" where
  "close_link l x = x\<lparr>ex_links := (ex_links x)(l := (ex_links x l)\<lparr>al_closed := True\<rparr>)\<rparr>"

text \<open>
  One step of the agent. The clock does not go back. A read may fail, the
  outcome of a transaction is free, and the handler of a call does what it
  likes.
\<close>

inductive ex_step :: "primitives \<Rightarrow> journal_library \<Rightarrow> (v2AgentLink \<Rightarrow> string list) \<Rightarrow> executor \<Rightarrow> executor \<Rightarrow> bool"
  for P L keys where
  tick: "0 \<le> d \<Longrightarrow> ex_step P L keys x (x\<lparr>ex_now := ex_now x + d\<rparr>)"
| receive: "\<not> v2RPCReadOnlyMethod (rq_method request) \<Longrightarrow> requested \<le> ex_now x \<Longrightarrow>
    ex_step P L keys x (rpc_receive P l projectID scope request requested x)"
| observe: "v2RPCReadOnlyMethod (rq_method request) \<Longrightarrow> ex_step P L keys x (rpc_observe l request answer events x)"
| wait: "fmlookup (ex_runs x) n = Some r \<Longrightarrow> rr_phase r = ph_wait \<Longrightarrow> ex_step P L keys x (rpc_wait n r cancelled x)"
| cache: "fmlookup (ex_runs x) n = Some r \<Longrightarrow> rr_phase r = ph_cache \<Longrightarrow> ex_step P L keys x (rpc_cache n r x)"
| operation: "fmlookup (ex_runs x) n = Some r \<Longrightarrow> rr_phase r = ph_operation \<Longrightarrow>
    ex_step P L keys x (rpc_operation L keys readable n r x)"
| look_claim: "fmlookup (ex_runs x) n = Some r \<Longrightarrow> rr_phase r = ph_claim lookupNow \<Longrightarrow>
    ex_step P L keys x (rpc_claim L readable lookupNow n r x)"
| prepare: "fmlookup (ex_runs x) n = Some r \<Longrightarrow> rr_phase r = ph_prepare \<Longrightarrow> ex_step P L keys x (rpc_prepare L io n r x)"
| invalid: "fmlookup (ex_runs x) n = Some r \<Longrightarrow> rr_phase r = ph_handler \<Longrightarrow> ex_step P L keys x (rpc_invalid L io n r x)"
| handler_begin: "fmlookup (ex_runs x) n = Some r \<Longrightarrow> rr_phase r = ph_handler \<Longrightarrow> ex_step P L keys x (rpc_begin L io n r x)"
| handler_commit: "fmlookup (ex_runs x) n = Some r \<Longrightarrow> rr_phase r = ph_handler \<Longrightarrow> ex_step P L keys x (rpc_commit L io n r x)"
| handler_complete: "fmlookup (ex_runs x) n = Some r \<Longrightarrow> rr_phase r = ph_handler \<Longrightarrow> ex_step P L keys x (rpc_complete n r x)"
| handler_rollback: "fmlookup (ex_runs x) n = Some r \<Longrightarrow> rr_phase r = ph_handler \<Longrightarrow> ex_step P L keys x (rpc_rollback L io n r x)"
| handler_business: "fmlookup (ex_runs x) n = Some r \<Longrightarrow> rr_phase r = ph_handler \<Longrightarrow> ag_business (ex_agent x) \<noteq> None \<Longrightarrow>
    ex_step P L keys x (rpc_business L io n r x)"
| handler_return: "fmlookup (ex_runs x) n = Some r \<Longrightarrow> rr_phase r = ph_handler \<Longrightarrow>
    ex_step P L keys x (rpc_return n r answer events x)"
| resolve: "fmlookup (ex_runs x) n = Some r \<Longrightarrow> rr_phase r = ph_resolve response events \<Longrightarrow>
    ex_step P L keys x (rpc_resolve L io response events n r x)"
| persist: "fmlookup (ex_runs x) n = Some r \<Longrightarrow> rr_phase r = ph_persist response events \<Longrightarrow>
    ex_step P L keys x (rpc_persist L keys io response events n r x)"
| finish: "fmlookup (ex_runs x) n = Some r \<Longrightarrow> rr_phase r = ph_finish response events \<Longrightarrow>
    ex_step P L keys x (rpc_finish response events n r x)"
| sweep: "ex_step P L keys x (set_journal (fst (sweepV2Operations io (the_journal x) (ex_now x))) x)"
| close: "ex_step P L keys x (close_link l x)"
| crash: "ex_step P L keys x (rpc_crash clients x)"

text \<open>The states an agent reaches, from an empty journal or without a store.\<close>

inductive ex_reachable :: "primitives \<Rightarrow> journal_library \<Rightarrow> (v2AgentLink \<Rightarrow> string list) \<Rightarrow> executor \<Rightarrow> bool"
  for P L keys where
  start: "business \<in> {None, Some empty_journal} \<Longrightarrow> 0 < now \<Longrightarrow> ex_reachable P L keys (start_executor now business clients)"
| step: "ex_reachable P L keys x \<Longrightarrow> ex_step P L keys x y \<Longrightarrow> ex_reachable P L keys y"

end
