(* ===== verification/Operation_Once.thy ===== *)
theory Operation_Once
  imports Operation_Executor
begin

text \<open>
  The calls of the device agent execute an operation at most once: the
  invariants of the states an agent reaches (\<open>Operation_Executor\<close>) and the
  properties that rest on them.
\<close>

subsection \<open>Invariants\<close>

text \<open>
  An operation is fenced until a time \<open>e\<close> against a repetition of its external
  effect, or of its business transaction, by a row that lasts until then.
\<close>

definition effect_fenced :: "journal \<Rightarrow> string \<Rightarrow> int \<Rightarrow> bool" where
  "effect_fenced j i e \<longleftrightarrow>
     (\<exists>r. fmlookup (j_operations j) i = Some r \<and> e \<le> or_expires r) \<or>
     (\<exists>r. fmlookup (j_effects j) i = Some r \<and> er_state r \<noteq> v2SideEffectPrepared \<and> e \<le> er_expires r)"

definition mutation_fenced :: "journal \<Rightarrow> string \<Rightarrow> int \<Rightarrow> bool" where
  "mutation_fenced j i e \<longleftrightarrow>
     (\<exists>r. fmlookup (j_operations j) i = Some r \<and> e \<le> or_expires r) \<or>
     (\<exists>r. fmlookup (j_claims j) i = Some r \<and> e \<le> cr_expires r)"

text \<open>A stored response and a side effect row exclude each other, and a side effect row lives 24 hours from its update.\<close>

definition row_ok :: "journal \<Rightarrow> string \<Rightarrow> bool" where
  "row_ok j i \<longleftrightarrow>
     (fmlookup (j_operations j) i = None \<or> fmlookup (j_effects j) i = None) \<and>
     (\<forall>r. fmlookup (j_effects j) i = Some r \<longrightarrow> er_expires r = er_updated r + v2OperationRetention_Milliseconds)"

definition owner :: "rpc_run \<Rightarrow> bool" where
  "owner r \<longleftrightarrow> rr_phase r \<noteq> ph_wait"

definition passed :: "rpc_phase \<Rightarrow> bool" where
  "passed p \<longleftrightarrow> (case p of ph_prepare \<Rightarrow> True | ph_handler \<Rightarrow> True | ph_resolve _ _ \<Rightarrow> True | ph_persist _ _ \<Rightarrow> True | _ \<Rightarrow> False)"

definition looked :: "rpc_phase \<Rightarrow> bool" where
  "looked p \<longleftrightarrow> passed p \<or> (case p of ph_claim _ \<Rightarrow> True | _ \<Rightarrow> False)"

definition dispatched :: "rpc_phase \<Rightarrow> bool" where
  "dispatched p \<longleftrightarrow> (case p of ph_handler \<Rightarrow> True | ph_resolve _ _ \<Rightarrow> True | ph_persist _ _ \<Rightarrow> True | ph_finish _ _ \<Rightarrow> True | _ \<Rightarrow> False)"

definition tracking :: "rpc_phase \<Rightarrow> bool" where
  "tracking p \<longleftrightarrow> (case p of ph_handler \<Rightarrow> True | ph_resolve _ _ \<Rightarrow> True | _ \<Rightarrow> False)"

definition look_time :: "rpc_phase \<Rightarrow> instant" where
  "look_time p = (case p of ph_claim t \<Rightarrow> t | _ \<Rightarrow> 0)"

lemma phase_simps [simp]:
  "passed ph_prepare" "passed ph_handler" "passed (ph_resolve a b)" "passed (ph_persist a b)"
  "\<not> passed ph_wait" "\<not> passed ph_cache" "\<not> passed ph_operation" "\<not> passed (ph_claim t)" "\<not> passed (ph_finish a b)"
  "looked ph_prepare" "looked ph_handler" "looked (ph_resolve a b)" "looked (ph_persist a b)" "looked (ph_claim t)"
  "\<not> looked ph_wait" "\<not> looked ph_cache" "\<not> looked ph_operation" "\<not> looked (ph_finish a b)"
  "tracking ph_handler" "tracking (ph_resolve a b)"
  "\<not> tracking ph_prepare" "\<not> tracking (ph_persist a b)"
  "\<not> tracking ph_wait" "\<not> tracking ph_cache" "\<not> tracking ph_operation" "\<not> tracking (ph_claim t)" "\<not> tracking (ph_finish a b)"
  "dispatched ph_handler" "dispatched (ph_resolve a b)" "dispatched (ph_persist a b)" "dispatched (ph_finish a b)"
  "\<not> dispatched ph_wait" "\<not> dispatched ph_cache" "\<not> dispatched ph_operation" "\<not> dispatched (ph_claim t)" "\<not> dispatched ph_prepare"
  "look_time (ph_claim t) = t" "look_time ph_wait = 0" "look_time ph_cache = 0" "look_time ph_operation = 0"
  "look_time ph_prepare = 0" "look_time ph_handler = 0" "look_time (ph_resolve a b) = 0" "look_time (ph_persist a b) = 0"
  "look_time (ph_finish a b) = 0"
  by (simp_all add: passed_def looked_def tracking_def dispatched_def look_time_def)

abbreviation ex_ms :: "executor \<Rightarrow> int" where
  "ex_ms x \<equiv> UnixMilli (ex_now x)"

text \<open>What a call knows: it owns its operation; no row that it has looked for is younger than its look.\<close>

definition run_static :: "rpc_run \<Rightarrow> bool" where
  "run_static r \<longleftrightarrow> mc_OperationID (rr_context r) = run_operation r \<and>
     (\<forall>t. rr_tracker r = Some t \<longrightarrow> st_value t = rr_context r) \<and> (rr_tracker r = None \<or> dispatched (rr_phase r))"

definition run_timed :: "executor \<Rightarrow> rpc_run \<Rightarrow> bool" where
  "run_timed x r \<longleftrightarrow> mc_Now (rr_context r) \<le> ex_now x \<and> look_time (rr_phase r) \<le> ex_now x \<and> 0 < ex_now x"

definition run_stored :: "executor \<Rightarrow> rpc_run \<Rightarrow> bool" where
  "run_stored x r \<longleftrightarrow> (rr_phase r = ph_prepare \<or> rr_tracker r \<noteq> None \<longrightarrow> ag_business (ex_agent x) \<noteq> None)"

definition run_called :: "executor \<Rightarrow> nat \<Rightarrow> rpc_run \<Rightarrow> bool" where
  "run_called x n r \<longleftrightarrow> n < ex_next x \<and> (rr_tracker r = None \<longrightarrow> (\<forall>e\<in>set (ex_effects x). ef_call e \<noteq> n))"

definition run_base :: "executor \<Rightarrow> nat \<Rightarrow> rpc_run \<Rightarrow> bool" where
  "run_base x n r \<longleftrightarrow> run_static r \<and> run_timed x r \<and> run_stored x r \<and> run_called x n r"

lemmas run_base_defs = run_base_def run_static_def run_timed_def run_stored_def run_called_def

definition run_owns :: "executor \<Rightarrow> rpc_run \<Rightarrow> bool" where
  "run_owns x r \<longleftrightarrow> fmlookup (ag_operations (ex_agent x)) (run_operation r) = Some (rr_claim r)"

definition run_looked :: "executor \<Rightarrow> rpc_run \<Rightarrow> bool" where
  "run_looked x r \<longleftrightarrow>
     (\<forall>row. fmlookup (j_operations (the_journal x)) (run_operation r) = Some row \<longrightarrow> or_expires row \<le> ex_ms x)"

definition run_passed :: "executor \<Rightarrow> nat \<Rightarrow> rpc_run \<Rightarrow> bool" where
  "run_passed x n r \<longleftrightarrow>
     (\<forall>row. fmlookup (j_claims (the_journal x)) (run_operation r) = Some row \<longrightarrow>
        cr_expires row \<le> ex_ms x \<or>
        cr_expires row = UnixMilli (mc_Now (rr_context r)) + v2OperationRetention_Milliseconds) \<and>
     (\<forall>m\<in>set (ex_mutations x). mu_operation m = run_operation r \<longrightarrow> mu_call m \<noteq> n \<longrightarrow> mu_expires m \<le> ex_ms x)"

definition run_tracked :: "executor \<Rightarrow> nat \<Rightarrow> rpc_run \<Rightarrow> bool" where
  "run_tracked x n r \<longleftrightarrow>
     (\<forall>t. rr_tracker r = Some t \<longrightarrow>
        (\<forall>e\<in>set (ex_effects x). ef_operation e = run_operation r \<longrightarrow> ef_call e \<noteq> n \<longrightarrow>
           UnixMilli (ef_time e) + v2OperationRetention_Milliseconds \<le> ex_ms x) \<and>
        (st_state t = v2SideEffectPrepared \<longrightarrow> (\<forall>e\<in>set (ex_effects x). ef_call e \<noteq> n)))"

definition run_ok :: "executor \<Rightarrow> nat \<Rightarrow> rpc_run \<Rightarrow> bool" where
  "run_ok x n r \<longleftrightarrow> run_base x n r \<and> (owner r \<longrightarrow> run_owns x r) \<and> (looked (rr_phase r) \<longrightarrow> run_looked x r) \<and>
     (passed (rr_phase r) \<longrightarrow> run_passed x n r) \<and> (tracking (rr_phase r) \<longrightarrow> run_tracked x n r)"

definition op_ok :: "executor \<Rightarrow> string \<Rightarrow> bool" where
  "op_ok x i \<longleftrightarrow>
     row_ok (the_journal x) i \<and>
     (\<forall>e\<in>set (ex_effects x). ef_operation e = i \<longrightarrow>
        UnixMilli (ef_time e) + v2OperationRetention_Milliseconds \<le> ex_ms x \<or>
        effect_fenced (the_journal x) i (UnixMilli (ef_time e) + v2OperationRetention_Milliseconds)) \<and>
     (\<forall>m\<in>set (ex_mutations x). mu_operation m = i \<longrightarrow>
        mu_expires m \<le> ex_ms x \<or> mutation_fenced (the_journal x) i (mu_expires m))"

definition effects_apart :: "effect_record \<Rightarrow> effect_record \<Rightarrow> bool" where
  "effects_apart e e' \<longleftrightarrow>
     (ef_operation e = ef_operation e' \<longrightarrow>
        UnixMilli (ef_time e) + v2OperationRetention_Milliseconds \<le> UnixMilli (ef_time e'))"

definition mutations_apart :: "mutation_record \<Rightarrow> mutation_record \<Rightarrow> bool" where
  "mutations_apart m m' \<longleftrightarrow>
     (mu_operation m = mu_operation m' \<and> mu_call m \<noteq> mu_call m' \<longrightarrow> mu_expires m \<le> UnixMilli (mu_commit m'))"

definition mutation_protected :: "mutation_record \<Rightarrow> bool" where
  "mutation_protected m \<longleftrightarrow>
     mu_request m \<le> mu_commit m \<and>
     (mu_expires m = UnixMilli (mu_request m) + v2OperationRetention_Milliseconds \<or> mu_expires m \<le> UnixMilli (mu_commit m))"

definition ledger_ok :: "executor \<Rightarrow> bool" where
  "ledger_ok x \<longleftrightarrow>
     (\<forall>e\<in>set (ex_effects x). ef_time e \<le> ex_now x \<and> ef_call e < ex_next x) \<and>
     (\<forall>m\<in>set (ex_mutations x). mu_commit m \<le> ex_now x \<and> mutation_protected m) \<and>
     sorted_wrt effects_apart (ex_effects x) \<and> sorted_wrt mutations_apart (ex_mutations x)"

definition sole_owner :: "string set \<Rightarrow> nat \<Rightarrow> executor \<Rightarrow> bool" where
  "sole_owner A n x \<longleftrightarrow> (\<forall>m r. fmlookup (ex_runs x) m = Some r \<longrightarrow> owner r \<longrightarrow> run_operation r \<in> A \<longrightarrow> m = n)"

definition ex_ok :: "executor \<Rightarrow> bool" where
  "ex_ok x \<longleftrightarrow> 0 < ex_now x \<and>
     (\<forall>n r. fmlookup (ex_runs x) n = Some r \<longrightarrow> run_ok x n r) \<and>
     (\<forall>n r. fmlookup (ex_runs x) n = Some r \<longrightarrow> owner r \<longrightarrow> sole_owner {run_operation r} n x) \<and>
     (\<forall>i. op_ok x i) \<and> ledger_ok x"

text \<open>A change by the call \<open>n\<close> to the operations \<open>A\<close>.\<close>

definition frame :: "string set \<Rightarrow> nat \<Rightarrow> executor \<Rightarrow> executor \<Rightarrow> bool" where
  "frame A n x y \<longleftrightarrow>
     ex_now y = ex_now x \<and> ex_next x \<le> ex_next y \<and>
     (ag_business (ex_agent y) = None \<longleftrightarrow> ag_business (ex_agent x) = None) \<and>
     (\<forall>i. i \<notin> A \<longrightarrow> kept_at (ex_ms x) i (the_journal x) (the_journal y)) \<and>
     (\<forall>i. i \<notin> A \<longrightarrow> fmlookup (ag_operations (ex_agent y)) i = fmlookup (ag_operations (ex_agent x)) i) \<and>
     (\<forall>m. m \<noteq> n \<longrightarrow> fmlookup (ex_runs y) m = fmlookup (ex_runs x) m) \<and>
     (\<forall>e\<in>set (ex_effects y). e \<in> set (ex_effects x) \<or> ef_operation e \<in> A \<and> ef_call e = n) \<and>
     (\<forall>m\<in>set (ex_mutations y). m \<in> set (ex_mutations x) \<or> mu_operation m \<in> A \<and> mu_call m = n)"

lemma kept_fences:
  assumes "kept_at ms i j j'"
  shows "e \<le> ms \<or> effect_fenced j i e \<Longrightarrow> e \<le> ms \<or> effect_fenced j' i e"
    and "e \<le> ms \<or> mutation_fenced j i e \<Longrightarrow> e \<le> ms \<or> mutation_fenced j' i e"
  using assms by (auto simp: kept_at_def kept_row_def effect_fenced_def mutation_fenced_def)

lemma kept_row_ok: "kept_at ms i j j' \<Longrightarrow> row_ok j i \<Longrightarrow> row_ok j' i"
  by (auto simp: kept_at_def kept_row_def row_ok_def)

lemma kept_op_ok:
  assumes "frame A n x y" and "i \<notin> A" and "op_ok x i"
  shows "op_ok y i"
proof -
  have kept: "kept_at (ex_ms x) i (the_journal x) (the_journal y)" and now: "ex_now y = ex_now x"
    and e: "\<forall>e\<in>set (ex_effects y). ef_operation e = i \<longrightarrow> e \<in> set (ex_effects x)"
    and m: "\<forall>m\<in>set (ex_mutations y). mu_operation m = i \<longrightarrow> m \<in> set (ex_mutations x)"
    using assms(1,2) by (auto simp: frame_def)
  show ?thesis
    unfolding op_ok_def now
  proof (intro conjI ballI impI)
    show "row_ok (the_journal y) i" using kept_row_ok [OF kept] assms(3) by (simp add: op_ok_def)
  next
    fix d assume "d \<in> set (ex_effects y)" "ef_operation d = i"
    with e assms(3) show "UnixMilli (ef_time d) + v2OperationRetention_Milliseconds \<le> ex_ms x \<or>
        effect_fenced (the_journal y) i (UnixMilli (ef_time d) + v2OperationRetention_Milliseconds)"
      by (intro kept_fences(1) [OF kept]) (simp add: op_ok_def)
  next
    fix d assume "d \<in> set (ex_mutations y)" "mu_operation d = i"
    with m assms(3) show "mu_expires d \<le> ex_ms x \<or> mutation_fenced (the_journal y) i (mu_expires d)"
      by (intro kept_fences(2) [OF kept]) (simp add: op_ok_def)
  qed
qed

lemma frame_run_base:
  assumes "frame A n x y" and "run_base x m r" and "m \<noteq> n"
  shows "run_base y m r"
proof -
  have "\<forall>e\<in>set (ex_effects y). ef_call e = m \<longrightarrow> e \<in> set (ex_effects x)"
    using assms(1,3) by (auto simp: frame_def)
  then have "run_called x m r \<Longrightarrow> run_called y m r" using assms(1) by (auto simp: run_called_def frame_def)
  moreover have "run_timed x r \<Longrightarrow> run_timed y r" "run_stored x r \<Longrightarrow> run_stored y r"
    using assms(1) by (simp_all add: run_timed_def run_stored_def frame_def)
  ultimately show ?thesis using assms(2) by (simp add: run_base_def)
qed

lemma frame_run_ok:
  assumes f: "frame A n x y" and ok: "run_ok x m r" and mn: "m \<noteq> n" and A: "owner r \<Longrightarrow> run_operation r \<notin> A"
  shows "run_ok y m r"
proof (cases "owner r")
  case False
  then have "rr_phase r = ph_wait" by (simp add: owner_def)
  with ok frame_run_base [OF f _ mn] False show ?thesis by (simp add: run_ok_def)
next
  case True
  then have i: "run_operation r \<notin> A" by (rule A)
  with f have k: "kept_at (ex_ms x) (run_operation r) (the_journal x) (the_journal y)" and now: "ex_now y = ex_now x"
    and a: "fmlookup (ag_operations (ex_agent y)) (run_operation r) = fmlookup (ag_operations (ex_agent x)) (run_operation r)"
    by (simp_all add: frame_def)
  have o: "fmlookup (j_operations (the_journal y)) (run_operation r) \<in>
      {None, fmlookup (j_operations (the_journal x)) (run_operation r)}"
    and c: "fmlookup (j_claims (the_journal y)) (run_operation r) \<in>
      {None, fmlookup (j_claims (the_journal x)) (run_operation r)}"
    using k by (auto simp: kept_at_def kept_row_def)
  have e: "\<forall>e\<in>set (ex_effects y). ef_operation e = run_operation r \<or> ef_call e = m \<longrightarrow> e \<in> set (ex_effects x)"
    and u: "\<forall>u\<in>set (ex_mutations y). mu_operation u = run_operation r \<longrightarrow> u \<in> set (ex_mutations x)"
    using f i mn by (auto simp: frame_def)
  have "run_owns x r \<Longrightarrow> run_owns y r" by (simp add: run_owns_def a)
  moreover have "run_looked x r \<Longrightarrow> run_looked y r" using o by (auto simp: run_looked_def now)
  moreover have "run_passed x m r \<Longrightarrow> run_passed y m r" using c u by (auto simp: run_passed_def now)
  moreover have "run_tracked x m r \<Longrightarrow> run_tracked y m r" using e by (auto simp: run_tracked_def now)
  ultimately show ?thesis
    using ok frame_run_base [OF f _ mn] by (simp add: run_ok_def)
qed

text \<open>A call that acts on its own operation keeps the invariants if it keeps those of the operation and its own.\<close>

lemma frame_ok:
  assumes ok: "ex_ok x" and f: "frame A n x y" and sole: "sole_owner A n x"
    and own: "\<And>i. i \<in> A \<Longrightarrow> op_ok y i" and ledger: "ledger_ok y"
    and r: "\<And>r. fmlookup (ex_runs y) n = Some r \<Longrightarrow> run_ok y n r \<and> (owner r \<longrightarrow> sole_owner {run_operation r} n x)"
  shows "ex_ok y"
  unfolding ex_ok_def
proof (intro conjI allI impI)
  show "0 < ex_now y" using ok f by (simp add: ex_ok_def frame_def)
next
  fix m r' assume m: "fmlookup (ex_runs y) m = Some r'"
  show "run_ok y m r'"
  proof (cases "m = n")
    case False
    with m f have x: "fmlookup (ex_runs x) m = Some r'" by (simp add: frame_def)
    with ok have "run_ok x m r'" by (simp add: ex_ok_def)
    moreover have "owner r' \<Longrightarrow> run_operation r' \<notin> A" using sole x False by (auto simp: sole_owner_def)
    ultimately show ?thesis using frame_run_ok [OF f _ False] by blast
  qed (use r m in simp)
next
  fix m r' assume m: "fmlookup (ex_runs y) m = Some r'" and o: "owner r'"
  have runs: "fmlookup (ex_runs y) k = fmlookup (ex_runs x) k" if "k \<noteq> n" for k using f that by (simp add: frame_def)
  show "sole_owner {run_operation r'} m y"
  proof (cases "m = n")
    case True
    with r m o have "sole_owner {run_operation r'} n x" by simp
    then show ?thesis unfolding sole_owner_def True by (metis runs)
  next
    case False
    with m have x: "fmlookup (ex_runs x) m = Some r'" by (simp add: runs)
    then have s: "sole_owner {run_operation r'} m x" using ok o by (simp add: ex_ok_def)
    have "run_operation r'' \<noteq> run_operation r'" if "fmlookup (ex_runs y) n = Some r''" "owner r''" for r''
      using r [OF that(1)] that(2) x o False by (auto simp: sole_owner_def)
    with s show ?thesis unfolding sole_owner_def by (metis runs singletonD singletonI)
  qed
next
  fix i show "op_ok y i" using own [of i] kept_op_ok [OF f, of i] ok by (cases "i \<in> A") (auto simp: ex_ok_def)
qed (rule ledger)

subsection \<open>The parts of a step\<close>

lemma the_journal_set [simp]:
  "the_journal (set_journal j x) = (if ag_business (ex_agent x) = None then empty_journal else j)"
  by (auto simp: the_journal_def set_journal_def)

lemma set_journal_fields [simp]:
  "ex_now (set_journal j x) = ex_now x" "ex_next (set_journal j x) = ex_next x" "ex_runs (set_journal j x) = ex_runs x"
  "ex_effects (set_journal j x) = ex_effects x" "ex_mutations (set_journal j x) = ex_mutations x"
  "ag_operations (ex_agent (set_journal j x)) = ag_operations (ex_agent x)"
  "ag_business (ex_agent (set_journal j x)) = None \<longleftrightarrow> ag_business (ex_agent x) = None"
  "ex_links (set_journal j x) = ex_links x"
  by (simp_all add: set_journal_def)

lemma set_run_fields [simp]:
  "ex_now (set_run n r x) = ex_now x" "ex_next (set_run n r x) = ex_next x"
  "fmlookup (ex_runs (set_run n r x)) m = (if m = n then Some r else fmlookup (ex_runs x) m)"
  "ex_effects (set_run n r x) = ex_effects x" "ex_mutations (set_run n r x) = ex_mutations x"
  "ex_agent (set_run n r x) = ex_agent x" "the_journal (set_run n r x) = the_journal x"
  by (auto simp: set_run_def the_journal_def)

lemma send_fields [simp]:
  "ex_now (send l e p x) = ex_now x" "ex_next (send l e p x) = ex_next x" "ex_runs (send l e p x) = ex_runs x"
  "ex_effects (send l e p x) = ex_effects x" "ex_mutations (send l e p x) = ex_mutations x"
  "ex_agent (send l e p x) = ex_agent x" "the_journal (send l e p x) = the_journal x"
  by (simp_all add: send_def the_journal_def)

lemma finish_fields [simp]:
  "ag_business (finishV2Operation s i c p) = ag_business s"
  "i' \<noteq> i \<Longrightarrow> fmlookup (ag_operations (finishV2Operation s i c p)) i' = fmlookup (ag_operations s) i'"
  by (auto simp: finishV2Operation_def Let_def)

lemma end_run_fields [simp]:
  "ex_now (end_run n r f e p x) = ex_now x" "ex_next (end_run n r f e p x) = ex_next x"
  "fmlookup (ex_runs (end_run n r f e p x)) m = (if m = n then None else fmlookup (ex_runs x) m)"
  "ex_effects (end_run n r f e p x) = ex_effects x" "ex_mutations (end_run n r f e p x) = ex_mutations x"
  "ag_business (ex_agent (end_run n r f e p x)) = ag_business (ex_agent x)"
  "the_journal (end_run n r f e p x) = the_journal x"
  "i \<noteq> run_operation r \<Longrightarrow>
     fmlookup (ag_operations (ex_agent (end_run n r f e p x))) i = fmlookup (ag_operations (ex_agent x)) i"
  by (simp_all add: end_run_def) (simp_all add: the_journal_def)

text \<open>\<open>run_ok\<close>, \<open>op_ok\<close> and \<open>ledger_ok\<close> look at few fields.\<close>

lemma run_ok_cong:
  assumes "ex_now y = ex_now x" and "ex_next y = ex_next x" and "ag_operations (ex_agent y) = ag_operations (ex_agent x)"
    and "ag_business (ex_agent y) = None \<longleftrightarrow> ag_business (ex_agent x) = None" and "the_journal y = the_journal x"
    and "ex_effects y = ex_effects x" and "ex_mutations y = ex_mutations x"
  shows "run_ok y n r \<longleftrightarrow> run_ok x n r"
  using assms by (simp add: run_ok_def run_base_defs run_owns_def run_looked_def run_passed_def run_tracked_def)

lemma op_ok_cong:
  assumes "ex_now y = ex_now x" and "the_journal y = the_journal x"
    and "ex_effects y = ex_effects x" and "ex_mutations y = ex_mutations x"
  shows "op_ok y i \<longleftrightarrow> op_ok x i"
  using assms by (simp add: op_ok_def)

lemma ledger_ok_cong:
  assumes "ex_now y = ex_now x" and "ex_next y = ex_next x"
    and "ex_effects y = ex_effects x" and "ex_mutations y = ex_mutations x"
  shows "ledger_ok y \<longleftrightarrow> ledger_ok x"
  using assms by (simp add: ledger_ok_def)

lemma ex_okD:
  assumes "ex_ok x"
  shows "fmlookup (ex_runs x) n = Some r \<Longrightarrow> run_ok x n r"
    and "fmlookup (ex_runs x) n = Some r \<Longrightarrow> owner r \<Longrightarrow> sole_owner {run_operation r} n x"
    and "op_ok x i" and "ledger_ok x" and "0 < ex_now x"
  using assms by (simp_all add: ex_ok_def)

text \<open>An owner acts on its operation.\<close>

lemma owner_ok:
  assumes ok: "ex_ok x" and n: "fmlookup (ex_runs x) n = Some r" "owner r"
    and f: "frame {run_operation r} n x y" and own: "op_ok y (run_operation r)" and ledger: "ledger_ok y"
    and r: "\<And>r'. fmlookup (ex_runs y) n = Some r' \<Longrightarrow> run_ok y n r' \<and> run_operation r' = run_operation r"
  shows "ex_ok y"
  by (rule frame_ok [OF ok f ex_okD(2) [OF ok n] _ ledger]) (use own r ex_okD(2) [OF ok n] in auto)

lemma end_ok:
  assumes ok: "ex_ok x" and n: "fmlookup (ex_runs x) n = Some r" "owner r"
  shows "ex_ok (end_run n r f e p x)"
  by (rule owner_ok [OF ok n])
    (simp_all add: frame_def ex_okD(3,4) [OF ok] op_ok_cong [of "end_run n r f e p x" x] ledger_ok_cong [of "end_run n r f e p x" x])

lemma set_run_ok:
  assumes ok: "ex_ok x" and n: "fmlookup (ex_runs x) n = Some r" "owner r"
    and r': "run_ok x n r'" "run_operation r' = run_operation r"
  shows "ex_ok (set_run n r' x)"
  by (rule owner_ok [OF ok n])
    (simp_all add: frame_def ex_okD(3,4) [OF ok] r' op_ok_cong [of "set_run n r' x" x] ledger_ok_cong [of "set_run n r' x" x]
      run_ok_cong [of "set_run n r' x" x])

lemma set_journal_ok:
  assumes ok: "ex_ok x" and n: "fmlookup (ex_runs x) n = Some r" "owner r"
    and other: "\<And>i. i \<noteq> run_operation r \<Longrightarrow> kept_at (ex_ms x) i (the_journal x) (the_journal (set_journal j x))"
    and own: "op_ok (set_journal j x) (run_operation r)" "run_ok (set_journal j x) n r"
  shows "ex_ok (set_journal j x)"
  by (rule owner_ok [OF ok n]) (use n other own in \<open>simp_all add: frame_def ex_okD(4) [OF ok] ledger_ok_cong [of "set_journal j x" x]\<close>)

text \<open>Links and the messages sent are not looked at.\<close>

lemma links_ok: "ex_ok (x\<lparr>ex_links := l\<rparr>) \<longleftrightarrow> ex_ok x"
  by (simp add: ex_ok_def op_ok_cong [of "x\<lparr>ex_links := l\<rparr>" x] ledger_ok_cong [of "x\<lparr>ex_links := l\<rparr>" x]
      run_ok_cong [of "x\<lparr>ex_links := l\<rparr>" x] sole_owner_def the_journal_def)

lemma send_ok: "ex_ok (send l e p x) \<longleftrightarrow> ex_ok x"
  by (simp add: ex_ok_def op_ok_cong [of "send l e p x" x] ledger_ok_cong [of "send l e p x" x]
      run_ok_cong [of "send l e p x" x] sole_owner_def)

lemma unknown_ok: "ex_ok x \<Longrightarrow> fmlookup (ex_runs x) n = Some r \<Longrightarrow> owner r \<Longrightarrow> ex_ok (unknown_run n r x)"
  by (simp add: unknown_run_def Let_def end_ok)

lemma replay_ok: "ex_ok x \<Longrightarrow> fmlookup (ex_runs x) n = Some r \<Longrightarrow> owner r \<Longrightarrow> ex_ok (replay_run n r c x)"
  by (simp add: replay_run_def end_ok)

subsection \<open>The steps before the handler\<close>

lemma time_ok:
  assumes ok: "ex_ok x" and d: "0 \<le> d"
  shows "ex_ok (x\<lparr>ex_now := ex_now x + d\<rparr>)"
proof -
  let ?y = "x\<lparr>ex_now := ex_now x + d\<rparr>"
  have ms: "ex_ms x \<le> ex_ms ?y" using d by (simp add: UnixMilli_mono)
  have j: "the_journal ?y = the_journal x" by (simp add: the_journal_def)
  have "run_ok ?y n r" if "fmlookup (ex_runs x) n = Some r" for n r
  proof -
    have "run_base x n r \<Longrightarrow> run_base ?y n r"
      using d by (simp add: run_base_defs)
    moreover have "run_owns x r \<Longrightarrow> run_owns ?y r" by (simp add: run_owns_def)
    moreover have "run_looked x r \<Longrightarrow> run_looked ?y r" unfolding run_looked_def j using ms by (meson order_trans)
    moreover have "run_passed x n r \<Longrightarrow> run_passed ?y n r" unfolding run_passed_def j using ms by (auto intro: order_trans)
    moreover have "run_tracked x n r \<Longrightarrow> run_tracked ?y n r" unfolding run_tracked_def using ms by (auto intro: order_trans)
    ultimately show ?thesis using ex_okD(1) [OF ok that] by (simp add: run_ok_def)
  qed
  moreover have "op_ok ?y i" for i
    using ex_okD(3) [OF ok, of i] ms unfolding op_ok_def j by (auto intro: order_trans)
  moreover have "ledger_ok ?y" using ex_okD(4) [OF ok] d by (fastforce simp: ledger_ok_def)
  ultimately show ?thesis using ok d by (simp add: ex_ok_def sole_owner_def)
qed

lemma phase_ok:
  assumes "run_ok x n r" and "owner r \<or> p = ph_wait" and "p = ph_prepare \<Longrightarrow> ag_business (ex_agent x) \<noteq> None"
    and "look_time p \<le> ex_now x" and "looked p \<Longrightarrow> looked (rr_phase r) \<or> run_looked x r"
    and "passed p \<Longrightarrow> passed (rr_phase r) \<or> run_passed x n r"
    and "tracking p \<Longrightarrow> tracking (rr_phase r) \<or> rr_tracker r = None" and "dispatched p \<or> rr_tracker r = None"
  shows "run_ok x n (r\<lparr>rr_phase := p\<rparr>)"
proof -
  let ?r = "r\<lparr>rr_phase := p\<rparr>"
  have same: "run_owns x ?r = run_owns x r" "run_looked x ?r = run_looked x r" "run_passed x n ?r = run_passed x n r"
    "run_tracked x n ?r = run_tracked x n r"
    by (simp_all add: run_owns_def run_looked_def run_passed_def run_tracked_def)
  have "run_static ?r" "run_stored x ?r" "run_called x n ?r"
    using assms(1,3,8) by (auto simp: run_ok_def run_base_defs)
  moreover have "run_timed x ?r" using assms(1,4) by (simp add: run_ok_def run_base_def run_timed_def)
  ultimately have "run_base x n ?r" by (simp add: run_base_def)
  moreover have "owner ?r \<Longrightarrow> run_owns x r" using assms(1,2) by (auto simp: run_ok_def owner_def)
  moreover have "looked p \<Longrightarrow> run_looked x r" "passed p \<Longrightarrow> run_passed x n r" using assms(1,5,6) by (auto simp: run_ok_def)
  moreover have "tracking p \<Longrightarrow> run_tracked x n r" using assms(1,7) by (auto simp: run_ok_def run_tracked_def)
  ultimately show ?thesis by (simp add: run_ok_def same)
qed

lemma receive_ok:
  assumes ok: "ex_ok x" and early: "requested \<le> ex_now x"
  shows "ex_ok (rpc_receive P l projectID scope request requested x)"
proof -
  define client where "client = al_ClientID (ex_links x l)"
  define digest where "digest = v2RPCOperationDigest P client projectID scope request"
  define context' where "context' = \<lparr>mc_OperationID = rq_operation_id request, mc_Digest = digest, mc_Controller = client,
                     mc_Project = projectID, mc_Method = rq_method request, mc_Now = requested\<rparr>"
  let ?i = "rq_operation_id request"
  let ?r = "\<lambda>claim owns. \<lparr>rr_link = l, rr_request = request, rr_context = context', rr_claim = claim, rr_tracker = None,
                rr_phase = (if owns then ph_cache else ph_wait)\<rparr>"
  have calls: "\<forall>e\<in>set (ex_effects x). ef_call e < ex_next x" using ex_okD(4) [OF ok] by (simp add: ledger_ok_def)
  have ledger: "ledger_ok (set_run (ex_next x) r (x\<lparr>ex_agent := s, ex_next := ex_next x + 1\<rparr>))" for r s
    using ex_okD(4) [OF ok] by (fastforce simp: ledger_ok_def)
  have add: "ex_ok (set_run (ex_next x) (?r claim owns) (x\<lparr>ex_agent := s, ex_next := ex_next x + 1\<rparr>))"
    if s: "ag_business s = ag_business (ex_agent x)"
      and other: "\<And>i. i \<noteq> ?i \<or> \<not> owns \<Longrightarrow> fmlookup (ag_operations s) i = fmlookup (ag_operations (ex_agent x)) i"
      and own: "owns \<Longrightarrow> fmlookup (ag_operations s) ?i = Some claim \<and> fmlookup (ag_operations (ex_agent x)) ?i = None"
    for s claim owns
  proof (rule frame_ok [OF ok, where A = "if owns then {?i} else {}" and n = "ex_next x"])
    let ?y = "set_run (ex_next x) (?r claim owns) (x\<lparr>ex_agent := s, ex_next := ex_next x + 1\<rparr>)"
    have j: "the_journal (x\<lparr>ex_agent := s, ex_next := Suc (ex_next x)\<rparr>) = the_journal x" by (simp add: the_journal_def s)
    show "frame (if owns then {?i} else {}) (ex_next x) x ?y"
      using other by (auto simp: frame_def s j)
    have free: "run_operation r \<noteq> ?i" if "fmlookup (ex_runs x) m = Some r" "owner r" "owns" for m r
      using ex_okD(1) [OF ok that(1)] that own by (auto simp: run_ok_def run_owns_def)
    show "sole_owner (if owns then {?i} else {}) (ex_next x) x" using free by (auto simp: sole_owner_def)
    show "op_ok ?y i" for i using ex_okD(3) [OF ok, of i] j by (simp add: op_ok_def)
    show "ledger_ok ?y" by (rule ledger)
    fix r assume "fmlookup (ex_runs ?y) (ex_next x) = Some r"
    then have r: "r = ?r claim owns" by simp
    have "run_base ?y (ex_next x) r" using calls early ex_okD(5) [OF ok] by (auto simp: run_base_defs r context'_def)
    moreover have "owner r \<Longrightarrow> run_owns ?y r" using own by (auto simp: run_owns_def r owner_def split: if_splits)
    moreover have "owner r \<Longrightarrow> sole_owner {run_operation r} (ex_next x) x"
      using free by (auto simp: sole_owner_def r owner_def split: if_splits)
    moreover have "\<not> looked (rr_phase r)" "\<not> passed (rr_phase r)" "\<not> tracking (rr_phase r)" by (simp_all add: r)
    ultimately show "run_ok ?y (ex_next x) r \<and> (owner r \<longrightarrow> sole_owner {run_operation r} (ex_next x) x)"
      by (simp add: run_ok_def)
  qed
  show ?thesis
  proof (cases "claimV2Operation (ex_agent x) ?i digest")
    case (Pair s result)
    have eq: "rpc_receive P l projectID scope request requested x =
      (case (s, result) of
           (s, Inl errRPCIdempotency) \<Rightarrow> send l [] (protocol_error request ''operation_conflict'' False) x
         | (s, Inl _) \<Rightarrow> send l [] (protocol_error request ''operation_capacity_exhausted'' False) x
         | (s, Inr (claim, owns)) \<Rightarrow> set_run (ex_next x) (?r claim owns) (x\<lparr>ex_agent := s, ex_next := ex_next x + 1\<rparr>))"
      unfolding rpc_receive_def Let_def Pair [symmetric] digest_def context'_def client_def ..
    show ?thesis
    proof (cases result)
      case (Inl e)
      then show ?thesis using ok by (cases e) (simp_all add: eq send_ok)
    next
      case (Inr c)
      obtain claim owns where c: "c = (claim, owns)" by (cases c)
      have "ag_business s = ag_business (ex_agent x) \<and>
          (\<forall>i. i \<noteq> ?i \<or> \<not> owns \<longrightarrow> fmlookup (ag_operations s) i = fmlookup (ag_operations (ex_agent x)) i) \<and>
          (owns \<longrightarrow> fmlookup (ag_operations s) ?i = Some claim \<and> fmlookup (ag_operations (ex_agent x)) ?i = None)"
        using Pair unfolding Inr c
        by (auto simp: claimV2Operation_def Let_def split: if_splits option.splits)
      then show ?thesis using add [of s owns claim] by (simp add: eq Inr c)
    qed
  qed
qed

lemma wait_ok:
  assumes ok: "ex_ok x" and n: "fmlookup (ex_runs x) n = Some r" and "rr_phase r = ph_wait"
  shows "ex_ok (rpc_wait n r cancelled x)"
proof -
  let ?y = "x\<lparr>ex_runs := fmdrop n (ex_runs x)\<rparr>"
  have j: "the_journal ?y = the_journal x" by (simp add: the_journal_def)
  have "frame {} n x ?y" by (simp add: frame_def j)
  then have "ex_ok ?y"
    by (rule frame_ok [OF ok]) (use ex_okD(4) [OF ok] in \<open>simp_all add: sole_owner_def ledger_ok_cong [of ?y x]\<close>)
  then show ?thesis
    using ok by (simp add: rpc_wait_def send_ok split: option.splits sum.splits)
qed

lemma enter_prepare_ok:
  assumes ok: "ex_ok x" and n: "fmlookup (ex_runs x) n = Some r" "owner r" and r: "run_looked x r" "run_passed x n r"
    and "rr_tracker r = None"
  shows "ex_ok (enter_prepare n r x)"
proof -
  have "run_ok x n (r\<lparr>rr_phase := ph_handler\<rparr>)"
    by (rule phase_ok [OF ex_okD(1) [OF ok n(1)]]) (use assms ex_okD(5) [OF ok] in auto)
  moreover have "ag_business (ex_agent x) \<noteq> None \<Longrightarrow> run_ok x n (r\<lparr>rr_phase := ph_prepare\<rparr>)"
    by (rule phase_ok [OF ex_okD(1) [OF ok n(1)]]) (use assms ex_okD(5) [OF ok] in auto)
  ultimately show ?thesis
    using n ok by (auto simp: enter_prepare_def intro!: end_ok set_run_ok)
qed

lemma cache_ok:
  assumes ok: "ex_ok x" and n: "fmlookup (ex_runs x) n = Some r" and p: "rr_phase r = ph_cache"
  shows "ex_ok (rpc_cache n r x)"
proof -
  have o: "owner r" and t: "rr_tracker r = None"
    using ex_okD(1) [OF ok n] p by (auto simp: owner_def run_ok_def run_base_defs)
  obtain link found where c: "cachedOperation (ex_now x) (ex_links x (rr_link r)) (run_operation r) (mc_Digest (rr_context r)) = (link, found)"
    by fastforce
  let ?x = "x\<lparr>ex_links := (ex_links x)(rr_link r := link)\<rparr>"
  have ok': "ex_ok ?x" and n': "fmlookup (ex_runs ?x) n = Some r" using ok n by (simp_all add: links_ok)
  have "ex_ok (set_run n (r\<lparr>rr_phase := ph_operation\<rparr>) ?x)"
    by (rule set_run_ok [OF ok' n' o phase_ok [OF ex_okD(1) [OF ok' n']]]) (use o t ex_okD(5) [OF ok] in auto)
  moreover have "ex_ok (enter_prepare n r ?x)" if "ag_business (ex_agent x) = None"
  proof (rule enter_prepare_ok [OF ok' n' o _ _ t])
    have e: "the_journal ?x = empty_journal" using that by (simp add: the_journal_def)
    then show "run_looked ?x r" by (simp add: run_looked_def empty_journal_def)
    have "m \<in> set (ex_mutations x) \<Longrightarrow> mu_expires m \<le> ex_ms x" for m
      using ex_okD(3) [OF ok', of "mu_operation m"] e
      by (auto simp: op_ok_def mutation_fenced_def empty_journal_def)
    with e show "run_passed ?x n r" by (simp add: run_passed_def empty_journal_def)
  qed
  ultimately show ?thesis
    using replay_ok [OF ok' n' o] by (simp add: rpc_cache_def c Let_def split: option.splits)
qed

lemma operation_ok:
  assumes ok: "ex_ok x" and n: "fmlookup (ex_runs x) n = Some r" and p: "rr_phase r = ph_operation"
  shows "ex_ok (rpc_operation L keys readable n r x)"
proof -
  have o: "owner r" and t: "rr_tracker r = None"
    using ex_okD(1) [OF ok n] p by (auto simp: owner_def run_ok_def run_base_defs)
  let ?load = "loadV2Operation L readable (the_journal x) (run_operation r) (mc_Digest (rr_context r)) (ex_now x)"
  have "ex_ok (replay_run n r c (x\<lparr>ex_links := l\<rparr>))" for l c
    by (rule replay_ok) (use ok n o in \<open>simp_all add: links_ok\<close>)
  moreover have "ex_ok (set_run n (r\<lparr>rr_phase := ph_claim (ex_now x)\<rparr>) x)" if "?load = Inr None"
  proof (rule set_run_ok [OF ok n o phase_ok [OF ex_okD(1) [OF ok n]]])
    have "run_looked x r"
      using that by (auto simp: run_looked_def loadV2Operation_def not_less split: if_splits option.splits)
    then show "looked (ph_claim (ex_now x)) \<Longrightarrow> looked (rr_phase r) \<or> run_looked x r" by simp
  qed (use o t ex_okD(5) [OF ok] in auto)
  ultimately show ?thesis
    using end_ok [OF ok n o] by (simp add: rpc_operation_def Let_def split: sum.splits option.splits)
qed

lemma look_claim_ok:
  assumes ok: "ex_ok x" and n: "fmlookup (ex_runs x) n = Some r" and p: "rr_phase r = ph_claim lookupNow"
  shows "ex_ok (rpc_claim L readable lookupNow n r x)"
proof -
  have o: "owner r" and t: "rr_tracker r = None" and l: "run_looked x r" and late: "lookupNow \<le> ex_now x"
    using ex_okD(1) [OF ok n] p by (auto simp: owner_def run_ok_def run_base_defs)
  let ?load = "loadV2OperationClaim L readable (the_journal x) (run_operation r) (mc_Digest (rr_context r)) lookupNow"
  have "ex_ok (enter_prepare n r x)" if "?load = Inr False"
  proof (rule enter_prepare_ok [OF ok n o l _ t])
    have c: "cr_expires c \<le> ex_ms x" if "fmlookup (j_claims (the_journal x)) (run_operation r) = Some c" for c
      using that \<open>?load = Inr False\<close> UnixMilli_mono [OF late]
      by (simp add: loadV2OperationClaim_def split: if_splits)
    have "mu_expires m \<le> ex_ms x" if "m \<in> set (ex_mutations x)" "mu_operation m = run_operation r" for m
      using that ex_okD(3) [OF ok, of "run_operation r"] l c
      by (fastforce simp: op_ok_def mutation_fenced_def run_looked_def)
    with c show "run_passed x n r" by (simp add: run_passed_def)
  qed
  then show ?thesis
    using end_ok [OF ok n o] unknown_ok [OF ok n o] by (simp add: rpc_claim_def split: sum.splits bool.splits)
qed

subsection \<open>The journal under the operations of the store\<close>

text \<open>A change by the owner of \<open>i\<close> that neither stores a response nor a claim, and loses no fence.\<close>

definition mild :: "int \<Rightarrow> string \<Rightarrow> journal \<Rightarrow> journal \<Rightarrow> bool" where
  "mild ms i j j' \<longleftrightarrow>
     (\<forall>k. k \<noteq> i \<longrightarrow> kept_at ms k j j') \<and> (row_ok j i \<longrightarrow> row_ok j' i) \<and>
     (\<forall>e. e \<le> ms \<or> effect_fenced j i e \<longrightarrow> e \<le> ms \<or> effect_fenced j' i e) \<and>
     (\<forall>e. e \<le> ms \<or> mutation_fenced j i e \<longrightarrow> e \<le> ms \<or> mutation_fenced j' i e) \<and>
     fmlookup (j_operations j') i \<in> {None, fmlookup (j_operations j) i} \<and>
     fmlookup (j_claims j') i \<in> {None, fmlookup (j_claims j) i}"

lemma mild_refl [simp, intro]: "mild ms i j j"
  by (simp add: mild_def)

lemma kept_mild:
  assumes "\<And>k. kept_at ms k j j'"
  shows "mild ms i j j'"
proof -
  have "fmlookup (j_operations j') i \<in> {None, fmlookup (j_operations j) i}"
    "fmlookup (j_claims j') i \<in> {None, fmlookup (j_claims j) i}"
    using assms [of i] by (auto simp: kept_at_def kept_row_def)
  then show ?thesis
    using assms kept_row_ok [OF assms [of i]] kept_fences [OF assms [of i]] by (simp add: mild_def)
qed

lemma mild_trans:
  assumes "mild ms i j k" and "mild ms i k l"
  shows "mild ms i j l"
  using assms unfolding mild_def by (auto intro: kept_at_trans)

lemma prepare_rows_mild:
  assumes p: "prepare_rows j v = Inr (j', s)"
  shows "mild ms (mc_OperationID v) j j'"
proof -
  let ?i = "mc_OperationID v"
  note eq = prepare_rows_eq [OF p]
  have k: "kept_at ms k j j'" if "k \<noteq> ?i" for k by (simp add: kept_at_def eq(1,2) eq(3) [OF that])
  show ?thesis
    unfolding mild_def
  proof (intro conjI allI impI)
    show "row_ok j ?i \<Longrightarrow> row_ok j' ?i" using eq(4) by (auto simp: row_ok_def eq(1) durable_digest_None)
    fix e
    show "e \<le> ms \<or> effect_fenced j ?i e \<Longrightarrow> e \<le> ms \<or> effect_fenced j' ?i e"
      using eq(4) by (auto simp: effect_fenced_def eq(1))
    show "e \<le> ms \<or> mutation_fenced j ?i e \<Longrightarrow> e \<le> ms \<or> mutation_fenced j' ?i e"
      by (simp add: mutation_fenced_def eq(1,2))
  qed (simp_all add: k eq(1,2))
qed

lemma prepare_store:
  assumes p: "prepareV2SideEffect L io j v = (j', result)" and late: "UnixMilli (mc_Now v) \<le> ms"
  shows "mild ms (mc_OperationID v) j j'"
    and "result = Inr v2SideEffectPrepared \<Longrightarrow> effect_fenced j (mc_OperationID v) e \<Longrightarrow> e \<le> ms"
proof -
  let ?body = "\<lambda>j. case sweepV2OperationRows j (mc_Now v) of Inl e \<Rightarrow> Inl e | Inr j1 \<Rightarrow> prepare_rows j1 v"
  have "j' = j \<and> Sum_Type.isl result \<or> run_tx io ?body j = (j', result)"
    using p by (auto simp: prepareV2SideEffect_def split: if_splits)
  then have cases: "j' = j \<or> (\<exists>s. ?body j = Inr (j', s))"
    and res: "result = Inr s \<Longrightarrow> ?body j = Inr (j', s)" for s
    using run_tx_result [of io ?body j j' result] by auto
  have sw: "kept_at ms k j j1" if "sweepV2OperationRows j (mc_Now v) = Inr j1" for j1 k
    using kept_sweep [OF that] late by (rule kept_at_mono)
  show "mild ms (mc_OperationID v) j j'"
  proof -
    consider "j' = j" | j1 s where "sweepV2OperationRows j (mc_Now v) = Inr j1" "prepare_rows j1 v = Inr (j', s)"
      using cases by (auto split: sum.splits)
    then show ?thesis
      by cases (auto intro: mild_trans [OF kept_mild [OF sw] prepare_rows_mild])
  qed
  assume "result = Inr v2SideEffectPrepared" and f: "effect_fenced j (mc_OperationID v) e"
  with res obtain j1 where s: "sweepV2OperationRows j (mc_Now v) = Inr j1" and q: "prepare_rows j1 v = Inr (j', v2SideEffectPrepared)"
    by (auto split: sum.splits)
  have "e \<le> ms \<or> effect_fenced j1 (mc_OperationID v) e" using kept_fences(1) [OF sw [OF s]] f by blast
  then show "e \<le> ms"
    using prepare_rows_eq(4,5) [OF q] by (auto simp: effect_fenced_def durable_digest_None)
qed

lemma transition_rows_mild:
  assumes t: "transition_rows clock j v from to = Inr j'" and ok: "row_ok j (mc_OperationID v)"
    and to: "to \<noteq> v2SideEffectPrepared"
  shows "mild ms (mc_OperationID v) j j'"
    and "effect_fenced j' (mc_OperationID v) (UnixMilli clock + v2OperationRetention_Milliseconds)"
proof -
  let ?i = "mc_OperationID v"
  obtain r where r: "fmlookup (j_effects j) ?i = Some r" "er_state r = from"
    and j': "j' = j\<lparr>j_effects := fmupd (mc_OperationID v)
           (r\<lparr>er_state := to, er_updated := max (er_updated r) (UnixMilli (max clock (mc_Now v))),
              er_expires := max (er_updated r) (UnixMilli (max clock (mc_Now v))) + v2OperationRetention_Milliseconds\<rparr>)
           (j_effects j)\<rparr>"
    by (rule transition_rows_eq [OF t])
  have o: "fmlookup (j_operations j) ?i = None" and x: "er_expires r = er_updated r + v2OperationRetention_Milliseconds"
    using ok r by (auto simp: row_ok_def)
  have c: "UnixMilli clock \<le> UnixMilli (max clock (mc_Now v))" by (simp add: UnixMilli_mono)
  show "mild ms ?i j j'"
    unfolding mild_def
    using r o x to by (auto simp: j' kept_at_def row_ok_def effect_fenced_def mutation_fenced_def)
  show "effect_fenced j' ?i (UnixMilli clock + v2OperationRetention_Milliseconds)"
    using c to by (simp add: j' effect_fenced_def le_max_iff_disj)
qed

lemma transition_store:
  assumes t: "transitionV2SideEffect L io clock j v from to = (j', result)" and ok: "row_ok j (mc_OperationID v)"
  shows "mild ms (mc_OperationID v) j j'"
    and "result = Inr u \<Longrightarrow> effect_fenced j' (mc_OperationID v) (UnixMilli clock + v2OperationRetention_Milliseconds)"
    and "result = Inr u \<Longrightarrow> from = v2SideEffectPrepared \<Longrightarrow>
           fmlookup (j_operations j) (mc_OperationID v) = None \<and> (\<forall>e. \<not> effect_fenced j (mc_OperationID v) e)"
proof -
  let ?body = "\<lambda>j. case transition_rows clock j v from to of Inl e \<Rightarrow> Inl e | Inr j' \<Rightarrow> Inr (j', ())"
  have "j' = j \<and> Sum_Type.isl result \<or> to \<noteq> v2SideEffectPrepared \<and> run_tx io ?body j = (j', result)"
    using t by (auto simp: transitionV2SideEffect_def split: if_splits)
  then have cases: "j' = j \<and> Sum_Type.isl result \<or> to \<noteq> v2SideEffectPrepared \<and> transition_rows clock j v from to = Inr j'"
    and res: "result = Inr s \<Longrightarrow> to \<noteq> v2SideEffectPrepared \<and> transition_rows clock j v from to = Inr j'" for s
    by (cases io; cases "transition_rows clock j v from to"; auto)+
  show "mild ms (mc_OperationID v) j j'" using cases transition_rows_mild(1) [OF _ ok] by blast
  show "result = Inr u \<Longrightarrow> effect_fenced j' (mc_OperationID v) (UnixMilli clock + v2OperationRetention_Milliseconds)"
    using res transition_rows_mild(2) [OF _ ok] by blast
  assume "result = Inr u" and f: "from = v2SideEffectPrepared"
  then have "transition_rows clock j v from to = Inr j'" using res by blast
  then obtain r where "fmlookup (j_effects j) (mc_OperationID v) = Some r" "er_state r = from" by (rule transition_rows_eq)
  with ok f show "fmlookup (j_operations j) (mc_OperationID v) = None \<and> (\<forall>e. \<not> effect_fenced j (mc_OperationID v) e)"
    by (auto simp: row_ok_def effect_fenced_def)
qed

subsection \<open>The steps of the handler and after\<close>

lemma run_set_journal [simp]:
  "run_base (set_journal j x) n r = run_base x n r" "run_owns (set_journal j x) r = run_owns x r"
  "run_tracked (set_journal j x) n r = run_tracked x n r"
  by (simp_all only: run_base_def run_timed_def run_stored_def run_called_def run_owns_def run_tracked_def set_journal_fields)

lemma mild_ok:
  assumes ok: "ex_ok x" and n: "fmlookup (ex_runs x) n = Some r" "owner r"
    and j: "ag_business (ex_agent x) \<noteq> None \<Longrightarrow> mild (ex_ms x) (run_operation r) (the_journal x) j"
  shows "ex_ok (set_journal j x)"
proof -
  let ?y = "set_journal j x"
  have m: "mild (ex_ms x) (run_operation r) (the_journal x) (the_journal ?y)"
  proof (cases "ag_business (ex_agent x) = None")
    case True
    then have "the_journal x = empty_journal" by (simp add: the_journal_def)
    with True show ?thesis by simp
  qed (use j in auto)
  have looked: "run_looked x r \<Longrightarrow> run_looked ?y r"
    using m unfolding run_looked_def mild_def by (auto simp del: the_journal_set)
  have passed: "run_passed x n r \<Longrightarrow> run_passed ?y n r"
    using m unfolding run_passed_def mild_def by (auto simp del: the_journal_set)
  have run: "run_ok ?y n r"
    using ex_okD(1) [OF ok n(1)] looked passed
    by (simp add: run_ok_def del: the_journal_set)
  have "op_ok ?y (run_operation r)"
    using ex_okD(3) [OF ok, of "run_operation r"] m unfolding op_ok_def mild_def set_journal_fields by blast
  then show ?thesis
    using m run by (intro set_journal_ok [OF ok n]) (simp_all add: mild_def del: the_journal_set)
qed

lemma tracker_ok:
  assumes ok: "run_ok x n r" and p: "rr_phase r = ph_handler" and t: "rr_tracker r = Some t"
    and t': "st_value t' = st_value t" "st_state t' = v2SideEffectPrepared \<Longrightarrow> st_state t = v2SideEffectPrepared"
  shows "run_ok x n (r\<lparr>rr_tracker := Some t'\<rparr>)"
proof -
  let ?r = "r\<lparr>rr_tracker := Some t'\<rparr>"
  have same: "run_owns x ?r = run_owns x r" "run_looked x ?r = run_looked x r" "run_passed x n ?r = run_passed x n r" "owner ?r = owner r"
    by (simp_all add: run_owns_def run_looked_def run_passed_def owner_def)
  have "run_base x n ?r" using ok p t t'(1) by (simp add: run_ok_def run_base_defs)
  moreover have "run_tracked x n r \<Longrightarrow> run_tracked x n ?r" using t t'(2) by (auto simp: run_tracked_def)
  ultimately show ?thesis using ok by (simp add: run_ok_def same)
qed

lemma set_same: "fmlookup (ex_runs x) n = Some r \<Longrightarrow> ex_ok x \<Longrightarrow> owner r \<Longrightarrow> ex_ok (set_run n r x)"
  by (rule set_run_ok) (auto dest: ex_okD(1))

lemma tracker_step_ok:
  assumes ok: "ex_ok x" and n: "fmlookup (ex_runs x) n = Some r" and p: "rr_phase r = ph_handler" and t: "rr_tracker r = Some t"
    and t': "st_value t' = st_value t" "st_state t' = v2SideEffectPrepared \<Longrightarrow> st_state t = v2SideEffectPrepared"
    and j: "mild (ex_ms x) (run_operation r) (the_journal x) j"
  shows "ex_ok (set_run n (r\<lparr>rr_tracker := Some t'\<rparr>) (set_journal j x))"
proof -
  have o: "owner r" using p by (simp add: owner_def)
  have ok': "ex_ok (set_journal j x)" by (rule mild_ok [OF ok n o j])
  have n': "fmlookup (ex_runs (set_journal j x)) n = Some r" using n by simp
  show ?thesis
    by (rule set_run_ok [OF ok' n' o tracker_ok [OF ex_okD(1) [OF ok' n'] p t t']]) simp_all
qed

lemma same_tracker: "rr_tracker r = t \<Longrightarrow> r\<lparr>rr_tracker := t\<rparr> = r"
  by (drule sym) simp

lemma set_journal_same [simp]: "set_journal (the_journal x) x = x"
  by (cases "ag_business (ex_agent x)") (simp_all add: set_journal_def the_journal_def)

lemma set_journal_None: "ag_business (ex_agent x) = None \<Longrightarrow> set_journal j x = x"
  by (simp add: set_journal_def)

lemma begin_cases:
  assumes "beginV2SideEffect L io clock j tracker = (j', tracker', failure)"
  obtains (nothing) "j' = j" "tracker' = tracker" "tracker = None \<or> failure \<noteq> None"
  | (failed) t e where "tracker = Some t" "transitionV2SideEffect L io clock j (st_value t) v2SideEffectPrepared v2SideEffectStarted = (j', Inl e)"
      "tracker' = Some (t\<lparr>st_uncertain := True\<rparr>)" "failure = Some e"
  | (started) t u where "tracker = Some t" "st_state t = v2SideEffectPrepared"
      "transitionV2SideEffect L io clock j (st_value t) v2SideEffectPrepared v2SideEffectStarted = (j', Inr u)"
      "tracker' = Some (t\<lparr>st_state := v2SideEffectStarted\<rparr>)" "failure = None"
  using assms by (fastforce simp: beginV2SideEffect_def split: option.splits if_splits prod.splits sum.splits)

lemma begin_ok:
  assumes ok: "ex_ok x" and n: "fmlookup (ex_runs x) n = Some r" and p: "rr_phase r = ph_handler"
  shows "ex_ok (rpc_begin L io n r x)"
proof -
  have o: "owner r" using p by (simp add: owner_def)
  have run: "run_ok x n r" by (rule ex_okD(1) [OF ok n])
  have row: "row_ok (the_journal x) (run_operation r)" using ex_okD(3) [OF ok] by (simp add: op_ok_def)
  have vt: "mc_OperationID (st_value t) = run_operation r \<and> ag_business (ex_agent x) \<noteq> None" if "rr_tracker r = Some t" for t
    using run that by (simp add: run_ok_def run_base_defs)
  obtain j tracker failure where b: "beginV2SideEffect L io (ex_now x) (the_journal x) (rr_tracker r) = (j, tracker, failure)"
    by (rule prod_cases3)
  from b show ?thesis
  proof (cases rule: begin_cases)
    case nothing
    then show ?thesis
      using set_same [OF n ok o] by (auto simp: rpc_begin_def b)
  next
    case (failed t e)
    have "mild (ex_ms x) (run_operation r) (the_journal x) j"
      using transition_store(1) [OF failed(2)] row vt [OF failed(1)] by simp
    then show ?thesis
      using tracker_step_ok [OF ok n p failed(1), of "t\<lparr>st_uncertain := True\<rparr>" j] failed(3,4) by (simp add: rpc_begin_def b)
  next
    case (started t u)
    let ?r = "r\<lparr>rr_tracker := tracker\<rparr>"
    let ?x = "set_run n ?r (set_journal j x)"
    let ?e = "\<lparr>ef_operation = run_operation r, ef_call = n, ef_time = ex_now x\<rparr>"
    let ?y = "?x\<lparr>ex_effects := ex_effects ?x @ [?e]\<rparr>"
    have "mild (ex_ms x) (run_operation r) (the_journal x) j"
      using transition_store(1) [OF started(3)] row vt [OF started(1)] by simp
    then have ok': "ex_ok ?x"
      using tracker_step_ok [OF ok n p started(1), of "t\<lparr>st_state := v2SideEffectStarted\<rparr>" j] started(4) by simp
    have n': "fmlookup (ex_runs ?x) n = Some ?r" and o': "owner ?r" using o by (simp_all add: owner_def)
    have fence: "effect_fenced (the_journal ?x) (run_operation r) (ex_ms x + v2OperationRetention_Milliseconds)"
      using transition_store(2) [OF started(3)] row vt [OF started(1)] by auto
    have old: "UnixMilli (ef_time e) + v2OperationRetention_Milliseconds \<le> ex_ms x"
      if "e \<in> set (ex_effects x)" "ef_operation e = run_operation r" for e
      using that run p started(1,2) by (auto simp: run_ok_def run_tracked_def)
    have j: "the_journal ?y = the_journal ?x" by (simp add: the_journal_def)
    have "ex_ok ?y"
    proof (rule owner_ok [OF ok' n' o'])
      show "frame {run_operation ?r} n ?x ?y" using j by (simp add: frame_def)
      show "op_ok ?y (run_operation ?r)"
        using ex_okD(3) [OF ok', of "run_operation r"] fence j by (auto simp: op_ok_def)
      show "ledger_ok ?y"
        using ex_okD(4) [OF ok'] run old
        by (auto simp: ledger_ok_def sorted_wrt_append effects_apart_def run_ok_def run_base_defs)
      fix r' assume "fmlookup (ex_runs ?y) n = Some r'"
      then have r': "r' = ?r" by simp
      have "run_ok ?y n ?r"
        using ex_okD(1) [OF ok' n'] j started(4)
        by (simp add: run_ok_def run_base_defs run_owns_def run_looked_def run_passed_def run_tracked_def)
      then show "run_ok ?y n r' \<and> run_operation r' = run_operation ?r" by (simp add: r')
    qed
    then show ?thesis using started(4,5) by (simp add: rpc_begin_def b)
  qed
qed

lemma commit_ok:
  assumes ok: "ex_ok x" and n: "fmlookup (ex_runs x) n = Some r" and p: "rr_phase r = ph_handler"
  shows "ex_ok (rpc_commit L io n r x)"
proof -
  have o: "owner r" using p by (simp add: owner_def)
  have row: "row_ok (the_journal x) (run_operation r)" using ex_okD(3) [OF ok] by (simp add: op_ok_def)
  show ?thesis
  proof (cases "rr_tracker r")
    case None
    then show ?thesis
      using set_same [OF n ok o] by (simp add: rpc_commit_def commitV2SideEffect_def same_tracker)
  next
    case (Some t)
    have v: "mc_OperationID (st_value t) = run_operation r"
      using ex_okD(1) [OF ok n] Some by (simp add: run_ok_def run_base_defs)
    obtain j result where tr: "transitionV2SideEffect L io (ex_now x) (the_journal x) (st_value t) v2SideEffectStarted v2SideEffectCommitted = (j, result)"
      by fastforce
    have "mild (ex_ms x) (run_operation r) (the_journal x) j" using transition_store(1) [OF tr] row v by simp
    then have step: "ex_ok (set_run n (r\<lparr>rr_tracker := Some t'\<rparr>) (set_journal j x))"
      if "st_value t' = st_value t" "st_state t' = v2SideEffectPrepared \<Longrightarrow> st_state t = v2SideEffectPrepared" for t'
      using tracker_step_ok [OF ok n p Some] that by blast
    show ?thesis
      using step [of "t\<lparr>st_uncertain := True\<rparr>"] step [of "t\<lparr>st_state := v2SideEffectCommitted\<rparr>"]
        set_same [OF n ok o] tr Some
      by (simp add: rpc_commit_def commitV2SideEffect_def same_tracker split: sum.splits)
  qed
qed

lemma complete_ok:
  assumes ok: "ex_ok x" and n: "fmlookup (ex_runs x) n = Some r" and p: "rr_phase r = ph_handler"
  shows "ex_ok (rpc_complete n r x)"
proof -
  have o: "owner r" using p by (simp add: owner_def)
  show ?thesis
  proof (cases "rr_tracker r")
    case None
    then show ?thesis 
      using set_same [OF n ok o] by (simp add: rpc_complete_def completeV2WithoutSideEffect_def same_tracker)
  next
    case (Some t)
    then show ?thesis
      using set_same [OF n ok o] tracker_step_ok [OF ok n p Some, of "t\<lparr>st_outcome := v2SideEffectNoEffect\<rparr>" "the_journal x"]
      by (simp add: rpc_complete_def completeV2WithoutSideEffect_def same_tracker)
  qed
qed

text \<open>A side effect row may be deleted when no effect of the operation needs it.\<close>

lemma delete_store:
  assumes "deleteV2SideEffect L io j v = (j', result)"
  shows "j' = j \<or> delete_rows j v = Inr j'"
proof -
  let ?body = "\<lambda>j. case delete_rows j v of Inl e \<Rightarrow> Inl e | Inr j' \<Rightarrow> Inr (j', ())"
  have "j' = j \<or> run_tx io ?body j = (j', result)" using assms by (auto simp: deleteV2SideEffect_def split: if_splits)
  then show ?thesis using run_tx_result(1) [of io ?body j j' result] by (auto split: sum.splits)
qed

lemma delete_ok:
  assumes ok: "ex_ok x" and n: "fmlookup (ex_runs x) n = Some r" "owner r"
    and d: "j = the_journal x \<or> delete_rows (the_journal x) v = Inr j" and v: "mc_OperationID v = run_operation r"
    and out: "\<forall>e\<in>set (ex_effects x). ef_operation e = run_operation r \<longrightarrow>
                UnixMilli (ef_time e) + v2OperationRetention_Milliseconds \<le> ex_ms x"
  shows "ex_ok (set_journal j x)"
proof (cases "delete_rows (the_journal x) v = Inr j \<and> ag_business (ex_agent x) \<noteq> None")
  case False
  then have "set_journal j x = x" using d by (cases "j = the_journal x") (auto simp: set_journal_None)
  then show ?thesis using ok by simp
next
  case True
  then have del: "delete_rows (the_journal x) v = Inr j" and j: "the_journal (set_journal j x) = j" by auto
  note eq = delete_rows_eq [OF del]
  show ?thesis
  proof (rule set_journal_ok [OF ok n])
    fix i assume "i \<noteq> run_operation r"
    then show "kept_at (ex_ms x) i (the_journal x) (the_journal (set_journal j x))"
      using eq(3) [of i] v unfolding j kept_at_def by (simp add: eq(1,2))
  next
    have "row_ok j (run_operation r)"
      using ex_okD(3) [OF ok, of "run_operation r"] eq(4) [of "run_operation r"] by (auto simp: op_ok_def row_ok_def eq(1))
    then show "op_ok (set_journal j x) (run_operation r)"
      using ex_okD(3) [OF ok, of "run_operation r"] out
      unfolding op_ok_def j by (auto simp: mutation_fenced_def eq(1,2))
    show "run_ok (set_journal j x) n r"
      using ex_okD(1) [OF ok n(1)] unfolding run_ok_def run_looked_def run_passed_def j by (simp add: eq(1,2))
  qed
qed

lemma effects_commute:
  "(set_run n r (set_journal j x))\<lparr>ex_effects := l\<rparr> = set_run n r (set_journal j (x\<lparr>ex_effects := l\<rparr>))"
  by (simp add: set_run_def set_journal_def)

lemma rollback_ok:
  assumes ok: "ex_ok x" and n: "fmlookup (ex_runs x) n = Some r" and p: "rr_phase r = ph_handler"
  shows "ex_ok (rpc_rollback L io n r x)"
proof -
  have o: "owner r" using p by (simp add: owner_def)
  show ?thesis
  proof (cases "may_roll_back (rr_tracker r)")
    case False
    then obtain f where "rollbackV2SideEffect L io (the_journal x) (rr_tracker r) = (the_journal x, rr_tracker r, f)"
      by (auto simp: rollbackV2SideEffect_def may_roll_back_def split: option.splits)
    then show ?thesis using set_same [OF n ok o] False by (simp add: rpc_rollback_def)
  next
    case True
    then obtain t where t: "rr_tracker r = Some t" "st_state t = v2SideEffectStarted" "\<not> st_uncertain t" "st_outcome t = v2SideEffectActive"
      by (auto simp: may_roll_back_def split: option.splits)
    let ?mine = "\<lambda>e. ef_operation e = run_operation r \<and> ef_call e = n"
    let ?z = "x\<lparr>ex_effects := filter (\<lambda>e. \<not> ?mine e) (ex_effects x)\<rparr>"
    have j: "the_journal ?z = the_journal x" by (simp add: the_journal_def)
    have run: "run_ok x n r" by (rule ex_okD(1) [OF ok n])
    have z: "ex_ok ?z"
    proof (rule owner_ok [OF ok n o])
      show "frame {run_operation r} n x ?z" using j by (simp add: frame_def)
      show "op_ok ?z (run_operation r)" using ex_okD(3) [OF ok, of "run_operation r"] j by (simp add: op_ok_def)
      show "ledger_ok ?z" using ex_okD(4) [OF ok] by (simp add: ledger_ok_def sorted_wrt_filter)
      fix r' assume "fmlookup (ex_runs ?z) n = Some r'"
      then have "r' = r" using n by simp
      moreover have "run_ok ?z n r"
        using run t j by (simp add: run_ok_def run_base_defs run_owns_def run_looked_def run_passed_def run_tracked_def)
      ultimately show "run_ok ?z n r' \<and> run_operation r' = run_operation r" by simp
    qed
    obtain j' result where d: "deleteV2SideEffect L io (the_journal x) (st_value t) = (j', result)" by fastforce
    have v: "mc_OperationID (st_value t) = run_operation r"
      using run t(1) by (simp add: run_ok_def run_base_defs)
    have out: "\<forall>e\<in>set (ex_effects ?z). ef_operation e = run_operation r \<longrightarrow>
        UnixMilli (ef_time e) + v2OperationRetention_Milliseconds \<le> ex_ms ?z"
      using run t(1) p by (auto simp: run_ok_def run_tracked_def)
    have n': "fmlookup (ex_runs ?z) n = Some r" using n by simp
    have s: "ex_ok (set_journal j' ?z)"
      by (rule delete_ok [OF z n' o _ v out]) (use delete_store [OF d] in \<open>simp only: j\<close>)
    have n'': "fmlookup (ex_runs (set_journal j' ?z)) n = Some r" using n by simp
    have fin: "ex_ok (set_run n (r\<lparr>rr_tracker := Some t'\<rparr>) (set_journal j' ?z))"
      if "st_value t' = st_value t" "st_state t' = st_state t" for t'
      by (rule set_run_ok [OF s n'' o tracker_ok [OF ex_okD(1) [OF s n''] p t(1)]]) (use that in simp_all)
    have "\<exists>t' f. rollbackV2SideEffect L io (the_journal x) (rr_tracker r) = (j', Some t', f) \<and>
        st_value t' = st_value t \<and> st_state t' = st_state t"
      using t d by (cases result) (simp_all add: rollbackV2SideEffect_def)
    then obtain t' f where rb: "rollbackV2SideEffect L io (the_journal x) (rr_tracker r) = (j', Some t', f)"
      "st_value t' = st_value t" "st_state t' = st_state t" by blast
    have "rpc_rollback L io n r x = set_run n (r\<lparr>rr_tracker := Some t'\<rparr>) (set_journal j' ?z)"
      using True by (simp add: rpc_rollback_def rb(1) effects_commute)
    then show ?thesis using fin [OF rb(2,3)] by simp
  qed
qed

lemma business_ok:
  assumes ok: "ex_ok x" and n: "fmlookup (ex_runs x) n = Some r" and p: "rr_phase r = ph_handler"
    and b: "ag_business (ex_agent x) \<noteq> None"
  shows "ex_ok (rpc_business L io n r x)"
proof -
  have o: "owner r" using p by (simp add: owner_def)
  have run: "run_ok x n r" by (rule ex_okD(1) [OF ok n])
  let ?i = "run_operation r" and ?j = "the_journal x" and ?v = "rr_context r"
  show ?thesis
  proof (cases "io \<noteq> tx_failed \<and> \<not> Sum_Type.isl (markV2OperationEffectCommitted L ?j ?v)")
    case False
    then have "fst (commitBusinessTransaction L io ?j (Some ?v)) = ?j"
      by (cases io) (auto simp: commitBusinessTransaction_def split: sum.splits)
    with False ok show ?thesis by (auto simp: rpc_business_def Let_def)
  next
    case True
    then obtain j where m: "markV2OperationEffectCommitted L ?j ?v = Inr j"
      by (cases "markV2OperationEffectCommitted L ?j ?v") auto
    have c: "fst (commitBusinessTransaction L io ?j (Some ?v)) = j"
      using True m by (cases io) (auto simp: commitBusinessTransaction_def)
    let ?m = "\<lparr>mu_operation = ?i, mu_call = n, mu_request = mc_Now ?v, mu_commit = ex_now x, mu_expires = guard_expiry j ?i\<rparr>"
    let ?y = "(set_journal j x)\<lparr>ex_mutations := ex_mutations x @ [?m]\<rparr>"
    have y: "rpc_business L io n r x = ?y" using True b by (auto simp: rpc_business_def Let_def c)
    have jy: "the_journal ?y = j" using b by (auto simp: the_journal_def set_journal_def)
    have v: "mc_OperationID ?v = ?i" and late: "UnixMilli (mc_Now ?v) \<le> ex_ms x"
      using run by (auto simp: run_ok_def run_base_defs intro: UnixMilli_mono)
    have l: "run_looked x r" and q: "run_passed x n r" using run p by (simp_all add: run_ok_def)
    note own = mark_own [OF m, unfolded v]
    have claims: "cr_expires row \<le> ex_ms x \<or> cr_expires row = UnixMilli (mc_Now ?v) + v2OperationRetention_Milliseconds"
      if "fmlookup (j_claims j) ?i = Some row" for row
      using own(3) [OF that] q by (auto simp: run_passed_def)
    have guard: "mutation_fenced j ?i (guard_expiry j ?i)"
      using own(5) by (auto simp: mutation_fenced_def guard_expiry_def split: option.splits)
    have prot: "guard_expiry j ?i \<le> ex_ms x \<or> guard_expiry j ?i = UnixMilli (mc_Now ?v) + v2OperationRetention_Milliseconds"
      using own(5) l claims by (auto simp: guard_expiry_def run_looked_def own(1) split: option.splits)
    have keep: "e \<le> ex_ms x \<or> mutation_fenced ?j ?i e \<Longrightarrow> e \<le> ex_ms x \<or> mutation_fenced j ?i e" for e
      using own(4) late by (fastforce simp: mutation_fenced_def own(1))
    show ?thesis
      unfolding y
    proof (rule owner_ok [OF ok n o])
      have "kept_at (ex_ms x) i ?j j" if "i \<noteq> ?i" for i
        using mark_other [OF m, of i] that v late by (auto intro: kept_at_mono)
      then show "frame {?i} n x ?y" using jy b by (auto simp: frame_def)
      show "op_ok ?y ?i"
        unfolding op_ok_def jy
      proof (intro conjI ballI impI)
        show "row_ok j ?i" using ex_okD(3) [OF ok, of ?i] by (simp add: op_ok_def row_ok_def own(1,2))
      next
        fix e assume "e \<in> set (ex_effects ?y)" "ef_operation e = ?i"
        then show "UnixMilli (ef_time e) + v2OperationRetention_Milliseconds \<le> ex_ms ?y \<or>
            effect_fenced j ?i (UnixMilli (ef_time e) + v2OperationRetention_Milliseconds)"
          using ex_okD(3) [OF ok, of ?i] by (simp add: op_ok_def effect_fenced_def own(1,2))
      next
        fix u assume "u \<in> set (ex_mutations ?y)" "mu_operation u = ?i"
        then show "mu_expires u \<le> ex_ms ?y \<or> mutation_fenced j ?i (mu_expires u)"
          using ex_okD(3) [OF ok, of ?i] keep guard by (auto simp: op_ok_def)
      qed
      have "mutations_apart u ?m" if "u \<in> set (ex_mutations x)" for u
        using that q by (auto simp: mutations_apart_def run_passed_def)
      then show "ledger_ok ?y"
        using ex_okD(4) [OF ok] prot run
        by (auto simp: ledger_ok_def sorted_wrt_append mutation_protected_def run_ok_def run_base_defs)
      fix r' assume "fmlookup (ex_runs ?y) n = Some r'"
      then have r': "r' = r" using n by simp
      have "run_looked ?y r" using l by (simp add: run_looked_def jy own(1))
      moreover have "run_passed ?y n r" using q claims by (auto simp: run_passed_def jy)
      moreover have "run_base x n r" "run_owns x r" "run_tracked x n r" using run p o by (simp_all add: run_ok_def)
      then have "run_base ?y n r" "run_owns ?y r" "run_tracked ?y n r"
        by (simp_all add: run_base_def run_timed_def run_stored_def run_called_def run_owns_def run_tracked_def)
      ultimately show "run_ok ?y n r' \<and> run_operation r' = ?i" by (simp add: r' run_ok_def)
    qed
  qed
qed

lemma return_ok:
  assumes ok: "ex_ok x" and n: "fmlookup (ex_runs x) n = Some r" and p: "rr_phase r = ph_handler"
  shows "ex_ok (rpc_return n r answer events x)"
  unfolding rpc_return_def
  by (rule set_run_ok [OF ok n _ phase_ok [OF ex_okD(1) [OF ok n]]]) (use p ex_okD(5) [OF ok] in \<open>auto simp: owner_def\<close>)

text \<open>Discarding a prepared row, and the resolution of the response.\<close>

lemma discard_cases:
  "fst (discardPrepared L io j tracker) = j \<or>
   (\<exists>t. tracker = Some t \<and> st_state t = v2SideEffectPrepared \<and>
      fst (discardPrepared L io j tracker) = fst (deleteV2SideEffect L io j (st_value t)))"
proof (cases tracker)
  case (Some t)
  then show ?thesis
    by (cases "deleteV2SideEffect L io j (st_value t)"; cases "snd (deleteV2SideEffect L io j (st_value t))")
      (simp_all add: discardPrepared_def)
qed (simp add: discardPrepared_def)

lemma resolve_journal:
  "fst (resolveV2SideEffectResponse L io clock j request response tracker) \<in>
     {j, fst (beginV2SideEffect L io clock j tracker), fst (discardPrepared L io j tracker)}"
proof (cases tracker)
  case (Some t)
  obtain j' t' f where "discardPrepared L io j tracker = (j', t', f)" by (rule prod_cases3)
  with Some show ?thesis
    by (cases f) (simp_all add: resolveV2SideEffectResponse_def responseDisposition_def Let_def)
qed (simp add: resolveV2SideEffectResponse_def)

lemma discard_ok:
  assumes ok: "ex_ok x" and n: "fmlookup (ex_runs x) n = Some r" and p: "tracking (rr_phase r)"
  shows "ex_ok (set_journal (fst (discardPrepared L io (the_journal x) (rr_tracker r))) x)"
proof -
  have o: "owner r" using p by (auto simp: owner_def)
  have run: "run_ok x n r" by (rule ex_okD(1) [OF ok n])
  from discard_cases [of L io "the_journal x" "rr_tracker r"] show ?thesis
  proof
    assume "fst (discardPrepared L io (the_journal x) (rr_tracker r)) = the_journal x"
    then show ?thesis using ok by simp
  next
    assume "\<exists>t. rr_tracker r = Some t \<and> st_state t = v2SideEffectPrepared \<and>
      fst (discardPrepared L io (the_journal x) (rr_tracker r)) = fst (deleteV2SideEffect L io (the_journal x) (st_value t))"
    then obtain t where t: "rr_tracker r = Some t" "st_state t = v2SideEffectPrepared"
      and eq: "fst (discardPrepared L io (the_journal x) (rr_tracker r)) = fst (deleteV2SideEffect L io (the_journal x) (st_value t))"
      by blast
    have v: "mc_OperationID (st_value t) = run_operation r" using run t(1) by (simp add: run_ok_def run_base_defs)
    have "\<forall>e\<in>set (ex_effects x). ef_operation e = run_operation r \<longrightarrow>
        UnixMilli (ef_time e) + v2OperationRetention_Milliseconds \<le> ex_ms x"
      using run p t by (auto simp: run_ok_def run_tracked_def)
    then show ?thesis unfolding eq by (rule delete_ok [OF ok n o delete_store [OF prod.collapse [symmetric]] v])
  qed
qed

lemma begin_mild:
  assumes b: "beginV2SideEffect L io clock j tracker = (j', tracker', failure)" and ok: "row_ok j i"
    and v: "\<And>t. tracker = Some t \<Longrightarrow> mc_OperationID (st_value t) = i"
  shows "mild ms i j j'"
  using b
proof (cases rule: begin_cases)
  case (failed t e)
  then show ?thesis using transition_store(1) [OF failed(2)] ok v by simp
next
  case (started t u)
  then show ?thesis using transition_store(1) [OF started(3)] ok v by simp
qed simp

lemma resolve_ok:
  assumes ok: "ex_ok x" and n: "fmlookup (ex_runs x) n = Some r" and p: "rr_phase r = ph_resolve response events"
  shows "ex_ok (rpc_resolve L io response events n r x)"
proof -
  have o: "owner r" using p by (simp add: owner_def)
  have run: "run_ok x n r" by (rule ex_okD(1) [OF ok n])
  have row: "row_ok (the_journal x) (run_operation r)" using ex_okD(3) [OF ok] by (simp add: op_ok_def)
  have v: "mc_OperationID (st_value t) = run_operation r" if "rr_tracker r = Some t" for t
    using run that by (simp add: run_ok_def run_base_defs)
  obtain j response' where res: "resolveV2SideEffectResponse L io (ex_now x) (the_journal x) (rr_request r) response (rr_tracker r) = (j, response')"
    by fastforce
  then have "j = the_journal x \<or> j = fst (beginV2SideEffect L io (ex_now x) (the_journal x) (rr_tracker r)) \<or>
      j = fst (discardPrepared L io (the_journal x) (rr_tracker r))"
    using resolve_journal [of L io "ex_now x" "the_journal x" "rr_request r" response "rr_tracker r"] by simp
  moreover have "mild (ex_ms x) (run_operation r) (the_journal x) (fst (beginV2SideEffect L io (ex_now x) (the_journal x) (rr_tracker r)))"
    using begin_mild [OF _ row v, where tracker = "rr_tracker r"] by (metis prod.collapse)
  ultimately have s: "ex_ok (set_journal j x)"
    using ok mild_ok [OF ok n o] discard_ok [OF ok n, of L io] p by auto
  have n': "fmlookup (ex_runs (set_journal j x)) n = Some r" using n by simp
  have "ex_ok (set_run n (r\<lparr>rr_phase := ph_persist response' events\<rparr>) (set_journal j x))"
    by (rule set_run_ok [OF s n' o phase_ok [OF ex_okD(1) [OF s n']]]) (use p o ex_okD(5) [OF ok] in auto)
  then show ?thesis by (simp add: rpc_resolve_def res)
qed

lemma prepare_ok:
  assumes ok: "ex_ok x" and n: "fmlookup (ex_runs x) n = Some r" and p: "rr_phase r = ph_prepare"
  shows "ex_ok (rpc_prepare L io n r x)"
proof -
  have o: "owner r" using p by (simp add: owner_def)
  have run: "run_ok x n r" by (rule ex_okD(1) [OF ok n])
  then have base: "run_base x n r" and b: "ag_business (ex_agent x) \<noteq> None" and t: "rr_tracker r = None"
    and v: "mc_OperationID (rr_context r) = run_operation r" and late: "UnixMilli (mc_Now (rr_context r)) \<le> ex_ms x"
    using p by (auto simp: run_ok_def run_base_defs intro: UnixMilli_mono)
  obtain j result where pr: "prepareV2SideEffect L io (the_journal x) (rr_context r) = (j, result)" by fastforce
  let ?x = "set_journal j x"
  have s: "ex_ok ?x" by (rule mild_ok [OF ok n o]) (use prepare_store(1) [OF pr late] v in simp)
  have n': "fmlookup (ex_runs ?x) n = Some r" using n by simp
  have run': "run_ok ?x n r" by (rule ex_okD(1) [OF s n'])
  let ?r = "r\<lparr>rr_tracker := Some (new_tracker (rr_context r)), rr_phase := ph_handler\<rparr>"
  have ready: "ex_ok (set_run n ?r ?x)" if prepared: "result = Inr v2SideEffectPrepared"
  proof (rule set_run_ok [OF s n' o])
    have none: "\<forall>e\<in>set (ex_effects x). ef_call e \<noteq> n" using base t by (simp add: run_base_defs)
    have "UnixMilli (ef_time e) + v2OperationRetention_Milliseconds \<le> ex_ms x"
      if "e \<in> set (ex_effects x)" "ef_operation e = run_operation r" for e
      using prepare_store(2) [OF pr late prepared] that ex_okD(3) [OF ok, of "run_operation r"] v
      by (auto simp: op_ok_def)
    with none have "run_tracked ?x n ?r" by (simp add: run_tracked_def)
    moreover have "run_static ?r" using v by (simp add: run_static_def new_tracker_def)
    moreover have "run_timed ?x ?r" "run_stored ?x ?r" "run_called ?x n ?r"
      using run' b by (simp_all add: run_ok_def run_base_def run_timed_def run_stored_def run_called_def p)
    moreover have "run_owns ?x r" "run_looked ?x r" "run_passed ?x n r" using run' o p by (simp_all add: run_ok_def)
    then have "run_owns ?x ?r" "run_looked ?x ?r" "run_passed ?x n ?r"
      by (simp_all add: run_owns_def run_looked_def run_passed_def)
    ultimately show "run_ok ?x n ?r" by (simp add: run_ok_def run_base_def)
  qed simp
  have failed: "ex_ok (fail_run n r c b ?x)" "ex_ok (unknown_run n r ?x)" for c b
    by (rule end_ok [OF s n' o], rule unknown_ok [OF s n' o])
  show ?thesis
  proof (cases result)
    case (Inl e)
    then show ?thesis using failed(1) by (cases e) (simp_all add: rpc_prepare_def pr)
  next
    case (Inr state)
    then show ?thesis using failed(2) ready by (cases state) (simp_all add: rpc_prepare_def pr)
  qed
qed

text \<open>Storing the response of an operation that has no live row yet.\<close>

lemma save_store:
  assumes save: "saveV2OperationScoped L io j i digest response now c p = (j', result)"
    and old: "\<And>row. fmlookup (j_operations j) i = Some row \<Longrightarrow> or_expires row \<le> UnixMilli now"
  shows "j' = j \<and> Sum_Type.isl result \<or>
    (\<forall>k. k \<noteq> i \<longrightarrow> kept_at (UnixMilli now) k j j') \<and>
    (\<exists>encoded. jl_marshal L response = Some encoded \<and> encoded \<noteq> [] \<and> length digest = 32 \<and> jl_uuid L i \<and>
      rp_operation_id response = i \<and> now \<noteq> 0 \<and>
      fmlookup (j_operations j') i = Some \<lparr>or_digest = digest, or_blob = encoded, or_controller = c, or_project = p,
        or_created = UnixMilli now, or_expires = UnixMilli now + v2OperationRetention_Milliseconds\<rparr>) \<and>
    fmlookup (j_claims j') i = None \<and> fmlookup (j_effects j') i = None"
proof -
  have "j' = j \<and> Sum_Type.isl result \<or>
      (\<exists>encoded j1. jl_marshal L response = Some encoded \<and> encoded \<noteq> [] \<and> jl_uuid L i \<and>
         rp_operation_id response = i \<and> now \<noteq> 0 \<and> sweepV2OperationRows j now = Inr j1 \<and>
         save_rows j1 i digest encoded now c p = Inr j')"
  proof (cases "jl_marshal L response")
    case (Some encoded)
    then show ?thesis
      using save
      by (cases io; cases "sweepV2OperationRows j now";
          cases "save_rows (case sweepV2OperationRows j now of Inl _ \<Rightarrow> j | Inr j1 \<Rightarrow> j1) i digest encoded now c p")
        (auto simp: saveV2OperationScoped_def split: if_splits)
  qed (use save in \<open>auto simp: saveV2OperationScoped_def split: if_splits\<close>)
  then show ?thesis
  proof
    assume "\<exists>encoded j1. jl_marshal L response = Some encoded \<and> encoded \<noteq> [] \<and> jl_uuid L i \<and>
         rp_operation_id response = i \<and> now \<noteq> 0 \<and> sweepV2OperationRows j now = Inr j1 \<and>
         save_rows j1 i digest encoded now c p = Inr j'"
    then obtain encoded j1 where e: "jl_marshal L response = Some encoded" "encoded \<noteq> []" "jl_uuid L i"
        "rp_operation_id response = i" "now \<noteq> 0"
      and s: "sweepV2OperationRows j now = Inr j1" and r: "save_rows j1 i digest encoded now c p = Inr j'" by blast
    have "fmlookup (j_operations j1) i = None"
      using swept_rows(1) [OF s] old by (cases "fmlookup (j_operations j1) i") fastforce+
    note own = save_own [OF r this]
    have "length digest = 32"
      using r \<open>fmlookup (j_operations j1) i = None\<close>
      by (auto simp: save_rows_def insert_operation_def split: sum.splits option.splits if_splits)
    have "kept_at (UnixMilli now) k j j'" if "k \<noteq> i" for k
      using kept_at_trans [OF kept_sweep [OF s] save_other [OF r that]] .
    then show ?thesis using e own \<open>length digest = 32\<close> by blast
  qed simp
qed

lemma same_business: "ag_business (ex_agent x) = b \<Longrightarrow> x\<lparr>ex_agent := (ex_agent x)\<lparr>ag_business := b\<rparr>\<rparr> = x"
  by (drule sym) simp

lemma persist_ok:
  assumes ok: "ex_ok x" and n: "fmlookup (ex_runs x) n = Some r" and p: "rr_phase r = ph_persist response events"
  shows "ex_ok (rpc_persist L keys io response events n r x)"
proof -
  have o: "owner r" using p by (simp add: owner_def)
  have run: "run_ok x n r" by (rule ex_okD(1) [OF ok n])
  let ?i = "run_operation r"
  have looked: "run_looked x r" using run p by (simp add: run_ok_def)
  have done_ok: "ex_ok (set_run n (r\<lparr>rr_phase := ph_finish q events\<rparr>) (x\<lparr>ex_links := l\<rparr>))" for q l
    by (rule set_run_ok [OF _ _ o phase_ok [OF ex_okD(1)]]) (use ok n o ex_okD(5) [OF ok] in \<open>simp_all add: links_ok\<close>)
  have saved: "ex_ok (set_run n (r\<lparr>rr_phase := ph_finish q events\<rparr>)
        (x\<lparr>ex_agent := (ex_agent x)\<lparr>ag_business := Some j'\<rparr>, ex_links := l\<rparr>))"
    if j: "ag_business (ex_agent x) = Some j"
      and s: "saveV2OperationScoped L io j ?i digest response (ex_now x) c project = (j', result)" for q l j j' digest c project result
  proof -
    have J: "the_journal x = j" using j by (simp add: the_journal_def)
    let ?y = "set_run n (r\<lparr>rr_phase := ph_finish q events\<rparr>)
        (x\<lparr>ex_agent := (ex_agent x)\<lparr>ag_business := Some j'\<rparr>, ex_links := l\<rparr>)"
    have Jy: "the_journal ?y = j'" by (simp add: the_journal_def set_run_def)
    have eqx: "x\<lparr>ex_agent := (ex_agent x)\<lparr>ag_business := Some j\<rparr>, ex_links := l\<rparr> = x\<lparr>ex_links := l\<rparr>" using j by simp
    from save_store [OF s] looked consider "j' = j"
      | "\<forall>k. k \<noteq> ?i \<longrightarrow> kept_at (ex_ms x) k j j'"
        "\<exists>row. fmlookup (j_operations j') ?i = Some row \<and> or_expires row = ex_ms x + v2OperationRetention_Milliseconds"
        "fmlookup (j_effects j') ?i = None"
      by (fastforce simp: run_looked_def J)
    then show ?thesis
    proof cases
      case 1
      then show ?thesis using done_ok [of q l] eqx by simp
    next
      case 2
      show ?thesis
      proof (rule owner_ok [OF ok n o])
        show "frame {?i} n x ?y" using 2(1) j Jy J unfolding frame_def by (simp del: the_journal_set)
        have fence: "e \<le> ex_ms x + v2OperationRetention_Milliseconds \<Longrightarrow> effect_fenced j' ?i e \<and> mutation_fenced j' ?i e" for e
          using 2(2) by (auto simp: effect_fenced_def mutation_fenced_def)
        have "UnixMilli (ef_time e) \<le> ex_ms x" if "e \<in> set (ex_effects x)" for e
          using ex_okD(4) [OF ok] that by (simp add: ledger_ok_def UnixMilli_mono)
        moreover have "mu_expires m \<le> ex_ms x + v2OperationRetention_Milliseconds" if "m \<in> set (ex_mutations x)" for m
        proof -
          have "mu_request m \<le> mu_commit m" "mu_commit m \<le> ex_now x"
            "mu_expires m = UnixMilli (mu_request m) + v2OperationRetention_Milliseconds \<or> mu_expires m \<le> UnixMilli (mu_commit m)"
            using ex_okD(4) [OF ok] that by (simp_all add: ledger_ok_def mutation_protected_def)
          then show ?thesis
            using UnixMilli_mono [of "mu_request m" "ex_now x"] UnixMilli_mono [of "mu_commit m" "ex_now x"]
              retention_positive by linarith
        qed
        moreover have "row_ok j' ?i" using 2(3) by (simp add: row_ok_def)
        ultimately show "op_ok ?y ?i" using fence unfolding op_ok_def Jy by simp
        show "ledger_ok ?y" using ex_okD(4) [OF ok] by (simp add: ledger_ok_def)
        fix r' assume "fmlookup (ex_runs ?y) n = Some r'"
        then have r': "r' = r\<lparr>rr_phase := ph_finish q events\<rparr>" by simp
        have "run_base x n r" "run_owns x r" using run o by (simp_all add: run_ok_def)
        then have "run_base ?y n r'" "run_owns ?y r'"
          by (simp_all add: r' run_base_def run_static_def run_timed_def run_stored_def run_called_def run_owns_def)
        then show "run_ok ?y n r' \<and> run_operation r' = ?i" by (simp add: r' run_ok_def)
      qed
    qed
  qed
  show ?thesis
  proof (cases "v2RPCDurableOutcome response \<and> ag_business (ex_agent x) \<noteq> None")
    case False
    then show ?thesis using done_ok [of _ "ex_links x"]
      by (cases "ag_business (ex_agent x)") (auto simp: rpc_persist_def persistV2Operation_def Let_def same_business)
  next
    case True
    then obtain j where j: "ag_business (ex_agent x) = Some j" by blast
    let ?save = "saveV2OperationScoped L io j ?i (mc_Digest (rr_context r)) response (ex_now x)
        (al_ClientID (ex_links x (rr_link r))) (mc_Project (rr_context r))"
    obtain j' result where s: "?save = (j', result)" by fastforce
    show ?thesis
      using True saved [OF j s] saved [OF j s, of "v2RPCUnknownCommitResponse (rr_request r)" "ex_links x"]
      by (cases result) (simp_all add: rpc_persist_def persistV2Operation_def Let_def j s)
  qed
qed

lemma sweep_ok:
  assumes ok: "ex_ok x"
  shows "ex_ok (set_journal (fst (sweepV2Operations io (the_journal x) (ex_now x))) x)"
proof -
  let ?j = "fst (sweepV2Operations io (the_journal x) (ex_now x))"
  let ?y = "set_journal ?j x"
  have kept: "kept_at (ex_ms x) i (the_journal x) ?j" for i
  proof (cases "sweepV2OperationRows (the_journal x) (ex_now x)")
    case (Inl e)
    then show ?thesis by (cases io) (simp_all add: sweepV2Operations_def)
  next
    case (Inr j')
    then show ?thesis using kept_sweep [OF Inr] by (cases io) (simp_all add: sweepV2Operations_def)
  qed
  have "kept_at (ex_ms x) i (the_journal x) (the_journal ?y)" for i
    using kept by (cases "ag_business (ex_agent x) = None") (auto simp: set_journal_None)
  then have "frame {} n x ?y" for n by (simp add: frame_def del: the_journal_set)
  then have f: "frame {} (ex_next x) x ?y" by blast
  show ?thesis
  proof (rule frame_ok [OF ok f])
    show "ledger_ok ?y" using ex_okD(4) [OF ok] by (simp add: ledger_ok_def)
    fix r assume "fmlookup (ex_runs ?y) (ex_next x) = Some r"
    then have "run_ok x (ex_next x) r" using ex_okD(1) [OF ok] by simp
    then show "run_ok ?y (ex_next x) r \<and> (owner r \<longrightarrow> sole_owner {run_operation r} (ex_next x) x)"
      by (simp add: run_ok_def run_base_def run_called_def)
  qed (simp_all add: sole_owner_def)
qed

lemma crash_ok:
  assumes ok: "ex_ok x"
  shows "ex_ok (rpc_crash clients x)"
proof -
  have j: "the_journal (rpc_crash clients x) = the_journal x"
    by (simp add: rpc_crash_def the_journal_def start_agent_def)
  have f: "ex_now (rpc_crash clients x) = ex_now x" "ex_next (rpc_crash clients x) = ex_next x"
    "ex_effects (rpc_crash clients x) = ex_effects x" "ex_mutations (rpc_crash clients x) = ex_mutations x"
    "ex_runs (rpc_crash clients x) = fmempty"
    by (simp_all add: rpc_crash_def)
  show ?thesis
    using ex_okD(3,4,5) [OF ok]
    by (simp add: ex_ok_def f op_ok_cong [OF f(1) j f(3,4)] ledger_ok_cong [OF f(1,2,3,4)])
qed

lemma start_ok: "business \<in> {None, Some empty_journal} \<Longrightarrow> 0 < now \<Longrightarrow> ex_ok (start_executor now business clients)"
  by (auto simp: ex_ok_def start_executor_def start_agent_def op_ok_def ledger_ok_def row_ok_def the_journal_def empty_journal_def)

lemma step_ok: "ex_step P L keys x y \<Longrightarrow> ex_ok x \<Longrightarrow> ex_ok y"
proof (induction rule: ex_step.induct)
  case (invalid x n r io)
  have o: "owner r" using invalid(2) by (simp add: owner_def)
  show ?case
    unfolding rpc_invalid_def
    by (rule end_ok [OF discard_ok [OF invalid(3,1)] _ o]) (use invalid in simp_all)
next
  case (finish x n r response events)
  then show ?case by (simp add: rpc_finish_def end_ok owner_def)
next
  case (close x l)
  then show ?case by (simp add: close_link_def links_ok)
qed (simp_all add: time_ok receive_ok rpc_observe_def send_ok wait_ok cache_ok operation_ok look_claim_ok prepare_ok begin_ok
  commit_ok complete_ok rollback_ok business_ok return_ok resolve_ok persist_ok sweep_ok crash_ok)

lemma reachable_ok: "ex_reachable P L keys x \<Longrightarrow> ex_ok x"
  by (induction rule: ex_reachable.induct) (auto intro: start_ok step_ok)

subsection \<open>Stored responses stay\<close>

text \<open>Side effects and business transactions do not touch the responses; a sweep takes those that have expired.\<close>

abbreviation responses :: "executor \<Rightarrow> (string, operation_row) fmap" where
  "responses x \<equiv> j_operations (the_journal x)"

lemma transition_responses:
  "j_operations (fst (transitionV2SideEffect L io clock j v from to)) = j_operations j"
proof -
  have "j_operations j' = j_operations j" if "transition_rows clock j v from to = Inr j'" for j'
    by (rule transition_rows_eq [OF that]) simp
  then show ?thesis
    unfolding transitionV2SideEffect_def
    by (auto intro!: run_tx_fst [where Q = "\<lambda>k. j_operations k = j_operations j"] split: sum.splits)
qed

lemma delete_responses: "j_operations (fst (deleteV2SideEffect L io j v)) = j_operations j"
  using delete_store [OF prod.collapse [symmetric], of L io j v] delete_rows_eq(1) by auto

lemma begin_responses: "j_operations (fst (beginV2SideEffect L io clock j tracker)) = j_operations j"
proof (cases tracker)
  case (Some t)
  then show ?thesis
    using transition_responses [of L io clock j "st_value t" v2SideEffectPrepared v2SideEffectStarted]
    by (auto simp: beginV2SideEffect_def split: prod.splits sum.splits)
qed (simp add: beginV2SideEffect_def)

lemma commit_responses: "j_operations (fst (commitV2SideEffect L io clock j tracker)) = j_operations j"
proof (cases tracker)
  case (Some t)
  then show ?thesis
    using transition_responses [of L io clock j "st_value t" v2SideEffectStarted v2SideEffectCommitted]
    by (auto simp: commitV2SideEffect_def split: prod.splits sum.splits)
qed (simp add: commitV2SideEffect_def)

lemma rollback_responses: "j_operations (fst (rollbackV2SideEffect L io j tracker)) = j_operations j"
proof (cases tracker)
  case (Some t)
  then show ?thesis
    using delete_responses [of L io j "st_value t"]
    by (auto simp: rollbackV2SideEffect_def split: prod.splits sum.splits)
qed (simp add: rollbackV2SideEffect_def)

lemma discard_responses: "j_operations (fst (discardPrepared L io j tracker)) = j_operations j"
  using discard_cases [of L io j tracker] delete_responses by auto

lemma resolve_responses:
  "j_operations (fst (resolveV2SideEffectResponse L io clock j request response tracker)) = j_operations j"
  using resolve_journal [of L io clock j request response tracker] begin_responses discard_responses by auto

lemma business_responses: "j_operations (fst (commitBusinessTransaction L io j (Some v))) = j_operations j"
  using mark_own(1) by (cases io; cases "markV2OperationEffectCommitted L j v") (auto simp: commitBusinessTransaction_def)

lemma responses_journal: "j_operations j = responses x \<Longrightarrow> responses (set_journal j x) = responses x"
  by (cases "ag_business (ex_agent x)") (simp_all add: set_journal_None)

lemma journal_fields:
  "the_journal (x\<lparr>ex_effects := e\<rparr>) = the_journal x" "the_journal (x\<lparr>ex_mutations := m\<rparr>) = the_journal x"
  "the_journal (x\<lparr>ex_links := l\<rparr>) = the_journal x" "the_journal (x\<lparr>ex_runs := r\<rparr>) = the_journal x"
  by (simp_all add: the_journal_def)

lemma step_now: "ex_step P L keys x y \<Longrightarrow> ex_now x \<le> ex_now y"
  by (induction rule: ex_step.induct)
    (auto simp: rpc_receive_def rpc_observe_def rpc_wait_def rpc_cache_def rpc_operation_def rpc_claim_def rpc_prepare_def
      rpc_invalid_def rpc_begin_def rpc_commit_def rpc_complete_def rpc_rollback_def rpc_business_def rpc_return_def rpc_resolve_def
      rpc_persist_def rpc_finish_def close_link_def rpc_crash_def replay_run_def enter_prepare_def unknown_run_def Let_def
      split: prod.splits sum.splits option.splits rpc_error.splits v2SideEffectState.splits bool.splits)

text \<open>A response that has not expired is there after every step: who could write to its operation has looked for it.\<close>

lemma step_responses:
  assumes step: "ex_step P L keys x y" and ok: "ex_ok x"
    and row: "fmlookup (responses x) i = Some row" and live: "ex_ms x < or_expires row"
  shows "fmlookup (responses y) i = Some row"
proof -
  have same: "fmlookup (responses y) i = Some row" if "responses y = responses x" using that row by simp
  have kept: "fmlookup (responses (set_journal j x)) i = Some row" if "kept_at (ex_ms x) i (the_journal x) j" for j
    using that row live by (cases "ag_business (ex_agent x) = None") (auto simp: kept_at_def kept_row_def set_journal_None)
  have free: "run_operation r \<noteq> i" if "fmlookup (ex_runs x) n = Some r" "looked (rr_phase r)" for n r
    using ex_okD(1) [OF ok that(1)] that(2) row live by (auto simp: run_ok_def run_looked_def)
  from step show ?thesis
  proof (cases rule: ex_step.cases)
    case (prepare n r io)
    obtain j result where pr: "prepareV2SideEffect L io (the_journal x) (rr_context r) = (j, result)" by fastforce
    have v: "mc_OperationID (rr_context r) = run_operation r" and late: "UnixMilli (mc_Now (rr_context r)) \<le> ex_ms x"
      using ex_okD(1) [OF ok prepare(2)] by (auto simp: run_ok_def run_base_defs intro: UnixMilli_mono)
    have "i \<noteq> run_operation r" using free [OF prepare(2)] prepare(3) by auto
    then have "kept_at (ex_ms x) i (the_journal x) j" using prepare_store(1) [OF pr late] v by (simp add: mild_def)
    from kept [OF this] show ?thesis
      unfolding prepare(1) rpc_prepare_def pr prod.case Let_def unknown_run_def
      by (cases result) (simp_all del: the_journal_set split: rpc_error.split v2SideEffectState.split)
  next
    case (persist n r response events io)
    have i: "i \<noteq> run_operation r" using free [OF persist(2)] persist(3) by auto
    show ?thesis
    proof (cases "v2RPCDurableOutcome response \<and> ag_business (ex_agent x) \<noteq> None")
      case False
      then show ?thesis
        using same unfolding persist(1)
        by (cases "ag_business (ex_agent x)") (auto simp: rpc_persist_def persistV2Operation_def Let_def the_journal_def)
    next
      case True
      then obtain j where j: "ag_business (ex_agent x) = Some j" by blast
      let ?save = "saveV2OperationScoped L io j (run_operation r) (mc_Digest (rr_context r)) response (ex_now x)
          (al_ClientID (ex_links x (rr_link r))) (mc_Project (rr_context r))"
      obtain j' result where s: "?save = (j', result)" by fastforce
      have "run_looked x r" using ex_okD(1) [OF ok persist(2)] persist(3) by (simp add: run_ok_def)
      then have "kept_at (ex_ms x) i j j'"
        using save_store [OF s] i j by (auto simp: run_looked_def the_journal_def)
      then have "fmlookup (j_operations j') i = Some row"
        using row live j by (auto simp: kept_at_def kept_row_def the_journal_def)
      then show ?thesis
        using True unfolding persist(1)
        by (cases result) (simp_all add: rpc_persist_def persistV2Operation_def Let_def j s the_journal_def)
    qed
  next
    case (sweep io)
    have "kept_at (ex_ms x) i (the_journal x) (fst (sweepV2Operations io (the_journal x) (ex_now x)))"
      using kept_sweep by (cases io; cases "sweepV2OperationRows (the_journal x) (ex_now x)") (auto simp: sweepV2Operations_def)
    from kept [OF this] show ?thesis unfolding sweep .
  next
    case (handler_begin n r io)
    obtain j t e where b: "beginV2SideEffect L io (ex_now x) (the_journal x) (rr_tracker r) = (j, t, e)" by (rule prod_cases3)
    then have "responses (set_journal j x) = responses x"
      using begin_responses [of L io "ex_now x" "the_journal x" "rr_tracker r"] by (simp add: responses_journal del: the_journal_set)
    moreover have "the_journal y = the_journal (set_journal j x)"
      unfolding handler_begin(1) by (simp add: rpc_begin_def b Let_def journal_fields del: the_journal_set)
    ultimately show ?thesis using same by simp
  next
    case (handler_commit n r io)
    obtain j t e where b: "commitV2SideEffect L io (ex_now x) (the_journal x) (rr_tracker r) = (j, t, e)" by (rule prod_cases3)
    then have "responses (set_journal j x) = responses x"
      using commit_responses [of L io "ex_now x" "the_journal x" "rr_tracker r"] by (simp add: responses_journal del: the_journal_set)
    moreover have "the_journal y = the_journal (set_journal j x)"
      unfolding handler_commit(1) by (simp add: rpc_commit_def b del: the_journal_set)
    ultimately show ?thesis using same by simp
  next
    case (handler_rollback n r io)
    obtain j t e where b: "rollbackV2SideEffect L io (the_journal x) (rr_tracker r) = (j, t, e)" by (rule prod_cases3)
    then have "responses (set_journal j x) = responses x"
      using rollback_responses [of L io "the_journal x" "rr_tracker r"] by (simp add: responses_journal del: the_journal_set)
    moreover have "the_journal y = the_journal (set_journal j x)"
      unfolding handler_rollback(1) by (simp add: rpc_rollback_def b Let_def journal_fields del: the_journal_set)
    ultimately show ?thesis using same by simp
  next
    case (handler_business n r io)
    let ?j = "fst (commitBusinessTransaction L io (the_journal x) (Some (rr_context r)))"
    have "responses (set_journal ?j x) = responses x"
      using business_responses by (simp add: responses_journal del: the_journal_set)
    moreover have "the_journal y = the_journal (set_journal ?j x)"
      unfolding handler_business(1) by (simp add: rpc_business_def Let_def journal_fields del: the_journal_set)
    ultimately show ?thesis using same by simp
  next
    case (resolve n r response events io)
    obtain j q where b: "resolveV2SideEffectResponse L io (ex_now x) (the_journal x) (rr_request r) response (rr_tracker r) = (j, q)"
      by fastforce
    then have "responses (set_journal j x) = responses x"
      using resolve_responses [of L io "ex_now x" "the_journal x" "rr_request r" response "rr_tracker r"]
      by (simp add: responses_journal del: the_journal_set)
    moreover have "the_journal y = the_journal (set_journal j x)"
      unfolding resolve(1) by (simp add: rpc_resolve_def b del: the_journal_set)
    ultimately show ?thesis using same by simp
  next
    case (invalid n r io)
    show ?thesis
      using same discard_responses [of L io "the_journal x" "rr_tracker r"] unfolding invalid(1)
      by (simp add: rpc_invalid_def responses_journal del: the_journal_set)
  next
    case (receive request requested l projectID scope)
    show ?thesis
      unfolding receive(1) rpc_receive_def Let_def
      using row by (auto simp: the_journal_def claimV2Operation_def Let_def split: prod.splits sum.splits rpc_error.splits if_splits option.splits)
  next
    case (wait n r cancelled)
    show ?thesis
      unfolding wait(1) rpc_wait_def using row by (auto simp: journal_fields split: option.splits sum.splits)
  next
    case (cache n r)
    show ?thesis
      unfolding cache(1) rpc_cache_def Let_def replay_run_def enter_prepare_def
      using row by (auto simp: journal_fields split: prod.splits option.splits)
  next
    case (operation n r readable)
    show ?thesis
      unfolding operation(1) rpc_operation_def Let_def replay_run_def
      using row by (auto simp: journal_fields split: sum.splits option.splits)
  next
    case (look_claim n r lookupNow readable)
    show ?thesis
      unfolding look_claim(1) rpc_claim_def unknown_run_def enter_prepare_def
      using row by (auto simp: Let_def split: sum.splits bool.splits)
  qed (use row in \<open>simp_all add: rpc_observe_def rpc_complete_def rpc_return_def rpc_finish_def close_link_def rpc_crash_def
      start_agent_def the_journal_def\<close>)
qed

lemma steps_responses:
  assumes "(ex_step P L keys)\<^sup>*\<^sup>* x z" and ok: "ex_ok x"
    and row: "fmlookup (responses x) i = Some row" and live: "ex_ms z < or_expires row"
  shows "fmlookup (responses z) i = Some row \<and> ex_ok z \<and> ex_now x \<le> ex_now z"
  using assms(1) live
proof (induction rule: rtranclp_induct)
  case base
  then show ?case using ok row by simp
next
  case (step y z)
  have now: "ex_now y \<le> ex_now z" by (rule step_now [OF step.hyps(2)])
  then have "ex_ms y < or_expires row" using step.prems UnixMilli_mono [OF now] by linarith
  with step.IH have y: "fmlookup (responses y) i = Some row" "ex_ok y" "ex_now x \<le> ex_now y" and "ex_ms y < or_expires row" by simp_all
  then show ?case using step_responses [OF step.hyps(2) y(2,1)] step_ok [OF step.hyps(2)] now by simp
qed

text \<open>What a call has stored when it is left with a successful answer.\<close>

lemma persisted_success:
  assumes ok: "ex_ok x" and n: "fmlookup (ex_runs x) n = Some r" and p: "rr_phase r = ph_persist response events"
    and y: "fmlookup (ex_runs (rpc_persist L keys io response events n r x)) n = Some r'" "rr_phase r' = ph_finish answer events"
    and d: "v2RPCDurableOutcome answer"
  obtains encoded row where "answer = response" and "jl_marshal L response = Some encoded" and "encoded \<noteq> []"
    and "length (mc_Digest (rr_context r)) = 32" and "jl_uuid L (run_operation r)" and "rp_operation_id response = run_operation r"
    and "fmlookup (responses (rpc_persist L keys io response events n r x)) (run_operation r) = Some row"
    and "or_digest row = mc_Digest (rr_context r)" and "or_blob row = encoded"
    and "or_expires row = ex_ms x + v2OperationRetention_Milliseconds"
proof -
  let ?y = "rpc_persist L keys io response events n r x" and ?i = "run_operation r"
  have old: "run_looked x r" using ex_okD(1) [OF ok n] p by (simp add: run_ok_def)
  have failed: "\<not> v2RPCDurableOutcome (v2RPCUnknownCommitResponse q)" for q
    by (simp add: v2RPCDurableOutcome_def v2RPCUnknownCommitResponse_def failed_response_def ERROR_FRAME_INVALID_def ERROR_UNSPECIFIED_def)
  let ?save = "\<lambda>j. saveV2OperationScoped L io j ?i (mc_Digest (rr_context r)) response (ex_now x)
        (al_ClientID (ex_links x (rr_link r))) (mc_Project (rr_context r))"
  have "v2RPCDurableOutcome response \<and> answer = response \<and>
      (\<exists>j j' u. ag_business (ex_agent x) = Some j \<and> ?save j = (j', Inr u) \<and> the_journal ?y = j')"
  proof (cases "v2RPCDurableOutcome response \<and> ag_business (ex_agent x) \<noteq> None")
    case False
    then show ?thesis
      using y d failed
      by (cases "v2RPCDurableOutcome response"; cases "ag_business (ex_agent x)") (auto simp: rpc_persist_def persistV2Operation_def Let_def)
  next
    case True
    then obtain j where b: "ag_business (ex_agent x) = Some j" by blast
    obtain j' result where s: "?save j = (j', result)" by fastforce
    show ?thesis
      using y d failed True
      by (cases result) (auto simp: rpc_persist_def persistV2Operation_def Let_def b s the_journal_def)
  qed
  then obtain j j' u where a: "answer = response" and b: "ag_business (ex_agent x) = Some j" and s: "?save j = (j', Inr u)"
    and J: "the_journal ?y = j'" by blast
  have "the_journal x = j" using b by (simp add: the_journal_def)
  then show ?thesis using save_store [OF s] old a that unfolding J by (auto simp: run_looked_def)
qed

subsection \<open>What a digest binds\<close>

lemma nul_split:
  assumes "z \<notin> set a" "z \<notin> set b" "a @ z # u = b @ z # v"
  shows "a = b \<and> u = v"
  using assms
proof (induction a arbitrary: b)
  case Nil
  then show ?case by (cases b) auto
next
  case (Cons x xs)
  then show ?case by (cases b) auto
qed

lemma go_bytes_nul: "\<not> ContainsNUL s \<Longrightarrow> 0 \<notin> set (go_bytes s)"
proof
  assume n: "\<not> ContainsNUL s" and "0 \<in> set (go_bytes s)"
  then obtain c where c: "c \<in> set s" "(of_char c :: 8 word) = 0" by (auto simp: go_bytes_def)
  have "(of_char (CHR 0x00) :: 8 word) = 0" by simp
  with c have "c = CHR 0x00" using injD [OF of_char_byte_inj, of c "CHR 0x00"] by simp
  with n c show False by (simp add: ContainsNUL_def)
qed

lemma digit_byte: "n < 10 \<Longrightarrow> (of_char (digit_char n) :: 8 word) \<notin> {0, 1}"
proof -
  assume "n < 10"
  then have "n \<in> {0, 1, 2, 3, 4, 5, 6, 7, 8, 9}" by auto
  then show ?thesis by (auto simp: digit_char_def)
qed

lemma decimal_bytes: "b \<in> set (go_bytes (decimal n)) \<Longrightarrow> b \<notin> {0, 1}"
proof (induction n rule: decimal.induct)
  case (1 n)
  then show ?case using digit_byte by (cases "n < 10") (auto simp: decimal.simps [of n] go_bytes_def)
qed

lemma revision_bytes: "0 \<notin> set (go_bytes (uint64Text v))" "1 \<notin> set (go_bytes (uint64Text v))" "go_bytes (uint64Text v) \<noteq> []"
proof -
  show "0 \<notin> set (go_bytes (uint64Text v))" "1 \<notin> set (go_bytes (uint64Text v))"
    using decimal_bytes [of 0 "unat v"] decimal_bytes [of 1 "unat v"] by (auto simp: uint64Text_def)
  show "go_bytes (uint64Text v) \<noteq> []" by (simp add: uint64Text_def go_bytes_def)
qed

definition revision_suffix :: "u64 option \<Rightarrow> bytes" where
  "revision_suffix r = (case r of Some v \<Rightarrow> 1 # go_bytes (uint64Text v) | None \<Rightarrow> [0])"

lemma revision_suffix_inj:
  assumes "p @ revision_suffix r = q @ revision_suffix s"
  shows "p = q \<and> r = s"
proof (cases r)
  case None
  show ?thesis
  proof (cases s)
    case (Some v)
    with None assms have "last (1 # go_bytes (uint64Text v)) = 0" by (metis last_ConsL last_appendR list.distinct(1) option.simps(4,5) revision_suffix_def)
    then have "0 \<in> set (go_bytes (uint64Text v))" using revision_bytes(3) [of v] by (metis last_ConsR last_in_set)
    then show ?thesis using revision_bytes(1) by simp
  qed (use None assms in \<open>simp add: revision_suffix_def\<close>)
next
  case r: (Some u)
  show ?thesis
  proof (cases s)
    case None
    with r assms have "last (1 # go_bytes (uint64Text u)) = 0" by (metis last_ConsL last_appendR list.distinct(1) option.simps(4,5) revision_suffix_def)
    then have "0 \<in> set (go_bytes (uint64Text u))" using revision_bytes(3) [of u] by (metis last_ConsR last_in_set)
    then show ?thesis using revision_bytes(1) by simp
  next
    case (Some v)
    have "rev (go_bytes (uint64Text u)) @ 1 # rev p = rev (go_bytes (uint64Text v)) @ 1 # rev q"
      using arg_cong [OF assms, of rev] by (simp add: r Some revision_suffix_def)
    then have "rev (go_bytes (uint64Text u)) = rev (go_bytes (uint64Text v)) \<and> rev p = rev q"
      by (rule nul_split [rotated 2]) (simp_all add: revision_bytes)
    then show ?thesis by (simp add: r Some)
  qed
qed

lemma operation_encoding_eq:
  "operation_encoding c p s request =
     go_bytes ''wenzwork-remote-v2/operation-v2'' @ 0 # go_bytes c @ 0 # go_bytes p @ 0 # go_bytes s @ 0 #
       go_bytes (rq_method request) @ 0 # rq_payload request @ revision_suffix (rq_expected_revision request)"
  by (simp add: operation_encoding_def revision_suffix_def)

lemma operation_encoding_inj:
  assumes eq: "operation_encoding c p s request = operation_encoding c' p' s' request'"
    and clean: "\<not> ContainsNUL c" "\<not> ContainsNUL p" "\<not> ContainsNUL s" "\<not> ContainsNUL (rq_method request)"
      "\<not> ContainsNUL c'" "\<not> ContainsNUL p'" "\<not> ContainsNUL s'" "\<not> ContainsNUL (rq_method request')"
  shows "c = c' \<and> p = p' \<and> s = s' \<and> rq_method request = rq_method request' \<and> rq_payload request = rq_payload request' \<and>
     rq_expected_revision request = rq_expected_revision request'"
proof -
  note nul = clean [THEN go_bytes_nul]
  from eq have 1: "go_bytes c @ 0 # go_bytes p @ 0 # go_bytes s @ 0 # go_bytes (rq_method request) @ 0 #
        rq_payload request @ revision_suffix (rq_expected_revision request) =
      go_bytes c' @ 0 # go_bytes p' @ 0 # go_bytes s' @ 0 # go_bytes (rq_method request') @ 0 #
        rq_payload request' @ revision_suffix (rq_expected_revision request')"
    by (simp add: operation_encoding_eq)
  note 2 = nul_split [OF nul(1) nul(5) 1]
  note 3 = nul_split [OF nul(2) nul(6) conjunct2 [OF 2]]
  note 4 = nul_split [OF nul(3) nul(7) conjunct2 [OF 3]]
  note 5 = nul_split [OF nul(4) nul(8) conjunct2 [OF 4]]
  from 2 3 4 5 revision_suffix_inj [OF conjunct2 [OF 5]] show ?thesis by simp
qed

subsection \<open>The hot cache\<close>

definition keys_exact :: "(v2AgentLink \<Rightarrow> string list) \<Rightarrow> bool" where
  "keys_exact keys \<longleftrightarrow> (\<forall>link. set (keys link) = fset (fmdom (al_operations link)))"

definition cache_accounted :: "v2AgentLink \<Rightarrow> bool" where
  "cache_accounted link \<longleftrightarrow>
     al_operationBytes link = table_sum ao_bytes (al_operations link) \<and> fmlen (al_operations link) \<le> v2MaximumCachedOperations \<and>
     al_operationBytes link \<le> v2MaximumOperationBytes \<and>
     (\<forall>i operation. fmlookup (al_operations link) i = Some operation \<longrightarrow> i \<noteq> [] \<and> 0 < ao_bytes operation)"

lemma table_sum_drop: "fmlookup t k = Some r \<Longrightarrow> table_sum f (fmdrop k t) = table_sum f t - f r"
proof -
  assume r: "fmlookup t k = Some r"
  have "table_sum f (fmupd k r (fmdrop k t)) = table_sum f (fmdrop k t) + f r" by (rule table_sum_insert) simp
  moreover have "fmupd k r (fmdrop k t) = t" by (rule fmap_ext) (use r in auto)
  ultimately show ?thesis by simp
qed

lemma drop_operation_ok: "cache_accounted link \<Longrightarrow> cache_accounted (drop_operation i link)"
  by (auto simp: cache_accounted_def drop_operation_def table_sum_drop fmlen_drop split: option.splits if_splits)
    (smt (verit) table_sum_drop)+

lemma fold_drop_ok: "cache_accounted link \<Longrightarrow> cache_accounted (fold drop_operation is link)"
  by (induction "is" arbitrary: link) (simp_all add: drop_operation_ok)

lemma drop_operation_lookup:
  "fmlookup (al_operations (drop_operation i link)) k = (if k = i then None else fmlookup (al_operations link) k)"
  by (simp add: drop_operation_def split: option.splits)

lemma oldest_fold:
  fixes link :: v2AgentLink
  defines "f \<equiv> \<lambda>i (oldestID, oldest). case fmlookup (al_operations link) i of None \<Rightarrow> (oldestID, oldest)
                  | Some operation \<Rightarrow> if oldestID = [] \<or> ao_cachedAt operation < oldest then (i, ao_cachedAt operation)
                      else (oldestID, oldest)"
  shows "fst (fold f is p) \<in> insert (fst p) {i. fmlookup (al_operations link) i \<noteq> None}"
    and "(\<forall>i. fmlookup (al_operations link) i \<noteq> None \<longrightarrow> i \<noteq> []) \<Longrightarrow>
      fst p \<noteq> [] \<or> (\<exists>i\<in>set is. fmlookup (al_operations link) i \<noteq> None) \<Longrightarrow> fst (fold f is p) \<noteq> []"
proof (induction "is" arbitrary: p)
  case (Cons i "is")
  { case 1
    show ?case using Cons(1) [of "f i p"] by (cases p) (auto simp: f_def split: option.splits if_splits) }
  { case 2
    have "fst (f i p) \<noteq> [] \<or> (\<exists>k\<in>set is. fmlookup (al_operations link) k \<noteq> None)"
      using 2 by (cases p) (auto simp: f_def split: option.splits)
    then show ?case using Cons(2) [OF 2(1), of "f i p"] by simp }
qed auto

lemma oldest_present:
  assumes ok: "cache_accounted link" and k: "keys_exact keys" and ne: "al_operations link \<noteq> fmempty"
  shows "oldest_operation link (keys link) \<noteq> [] \<and> fmlookup (al_operations link) (oldest_operation link (keys link)) \<noteq> None"
proof -
  have pos: "\<forall>i. fmlookup (al_operations link) i \<noteq> None \<longrightarrow> i \<noteq> []" using ok by (auto simp: cache_accounted_def)
  from ne obtain i where i: "fmlookup (al_operations link) i \<noteq> None" by (metis fmap_ext fmempty_lookup)
  then have "i \<in> set (keys link)" using k by (auto simp: keys_exact_def fmlookup_dom_iff)
  then have n: "oldest_operation link (keys link) \<noteq> []"
    unfolding oldest_operation_def by (intro oldest_fold(2) pos) (use i in auto)
  moreover have "oldest_operation link (keys link) \<in> insert [] {i. fmlookup (al_operations link) i \<noteq> None}"
    unfolding oldest_operation_def using oldest_fold(1) [where p = "([], 0)"] by simp
  ultimately show ?thesis by auto
qed

lemma evict_room:
  assumes "cache_accounted link" and k: "keys_exact keys" and "fmlen (al_operations link) < fuel"
    and w: "weight \<le> v2MaximumOperationBytes" and "fmlookup (al_operations link) i = None"
  shows "cache_accounted (evict_operations fuel keys weight link) \<and>
    fmlen (al_operations (evict_operations fuel keys weight link)) < v2MaximumCachedOperations \<and>
    al_operationBytes (evict_operations fuel keys weight link) + weight \<le> v2MaximumOperationBytes \<and>
    fmlookup (al_operations (evict_operations fuel keys weight link)) i = None"
  using assms(1,3,5)
proof (induction fuel arbitrary: link)
  case (Suc fuel)
  show ?case
  proof (cases "fmlen (al_operations link) \<ge> v2MaximumCachedOperations \<or> al_operationBytes link + weight > v2MaximumOperationBytes")
    case True
    let ?o = "oldest_operation link (keys link)"
    have "al_operations link \<noteq> fmempty"
      using True w Suc.prems(1) by (auto simp: cache_accounted_def table_sum_def v2MaximumCachedOperations_def)
    then have o: "?o \<noteq> []" "fmlookup (al_operations link) ?o \<noteq> None" using oldest_present [OF Suc.prems(1) k] by auto
    have "fmlen (al_operations (drop_operation ?o link)) < fuel"
      using o(2) Suc.prems(2) fmlen_pos by (fastforce simp: drop_operation_def fmlen_drop)
    then have "cache_accounted (evict_operations fuel keys weight (drop_operation ?o link)) \<and>
        fmlen (al_operations (evict_operations fuel keys weight (drop_operation ?o link))) < v2MaximumCachedOperations \<and>
        al_operationBytes (evict_operations fuel keys weight (drop_operation ?o link)) + weight \<le> v2MaximumOperationBytes \<and>
        fmlookup (al_operations (evict_operations fuel keys weight (drop_operation ?o link))) i = None"
      by (intro Suc.IH drop_operation_ok Suc.prems(1)) (simp_all add: drop_operation_lookup Suc.prems(3))
    then show ?thesis using True o(1) by (simp add: Let_def)
  qed (use Suc.prems in auto)
qed simp

lemma cacheOperation_ok:
  assumes ok: "cache_accounted link" and k: "keys_exact keys"
  shows "cache_accounted (cacheOperation L keys now link i digest response events)"
proof -
  define weight where "weight = jl_response_size L response + sum_list (map (jl_event_size L) events)"
  define fresh where "fresh = drop_operation i (fold drop_operation
      (filter (\<lambda>i. case fmlookup (al_operations link) i of None \<Rightarrow> False | Some operation \<Rightarrow> operation_stale now operation) (keys link)) link)"
  define roomy where "roomy = evict_operations (Suc (fmlen (al_operations fresh))) keys weight fresh"
  define r where "r = \<lparr>ao_digest = digest, ao_response = response, ao_events = events, ao_cachedAt = now, ao_bytes = weight\<rparr>"
  have f: "cache_accounted fresh" "fmlookup (al_operations fresh) i = None"
    by (simp_all add: fresh_def drop_operation_ok fold_drop_ok ok drop_operation_lookup)
  have "cache_accounted (roomy\<lparr>al_operations := fmupd i r (al_operations roomy), al_operationBytes := al_operationBytes roomy + weight\<rparr>)"
    if "0 < weight" "weight \<le> v2MaximumOperationBytes" "i \<noteq> []"
  proof -
    have room: "cache_accounted roomy \<and> fmlen (al_operations roomy) < v2MaximumCachedOperations \<and>
        al_operationBytes roomy + weight \<le> v2MaximumOperationBytes \<and> fmlookup (al_operations roomy) i = None"
      unfolding roomy_def by (rule evict_room [OF f(1) k _ that(2) f(2)]) simp
    then show ?thesis
      using that by (auto simp: cache_accounted_def table_sum_insert fmlen_upd r_def)
  qed
  then show ?thesis
    using ok unfolding cacheOperation_def Let_def weight_def fresh_def roomy_def r_def by simp
qed

lemma cachedOperation_ok: "cache_accounted link \<Longrightarrow> cache_accounted (fst (cachedOperation now link i digest))"
  by (simp add: cachedOperation_def drop_operation_ok split: option.splits)

lemma end_run_links [simp]:
  "ex_links (end_run n r f e p x) = ex_links x" "ex_links (send l e p x) = ex_links x" "ex_links (set_run n r x) = ex_links x"
  "ex_links (unknown_run n r x) = ex_links x" "ex_links (replay_run n r c x) = ex_links x" "ex_links (enter_prepare n r x) = ex_links x"
  by (simp_all add: end_run_def send_def set_run_def unknown_run_def replay_run_def enter_prepare_def Let_def)

lemma new_link_accounted: "cache_accounted (new_link c)"
  by (simp add: cache_accounted_def new_link_def table_sum_def v2MaximumOperationBytes_def)

lemma close_accounted: "cache_accounted (link\<lparr>al_closed := True\<rparr>) \<longleftrightarrow> cache_accounted link"
  by (simp add: cache_accounted_def)

lemma step_accounted:
  assumes "ex_step P L keys x y" and k: "keys_exact keys" and ok: "\<And>l. cache_accounted (ex_links x l)"
  shows "cache_accounted (ex_links y l)"
  using assms(1) ok
proof (induction rule: ex_step.induct)
  case (receive request requested x l' projectID scope)
  then show ?case by (auto simp: rpc_receive_def Let_def split: prod.splits sum.splits rpc_error.splits)
next
  case (wait x n r cancelled)
  then show ?case by (auto simp: rpc_wait_def split: option.splits sum.splits)
next
  case (cache x n r)
  then show ?case
    using cachedOperation_ok [of "ex_links x (rr_link r)" "ex_now x" "run_operation r" "mc_Digest (rr_context r)"]
    by (auto simp: rpc_cache_def Let_def split: prod.splits option.splits)
next
  case (operation x n r readable)
  then show ?case using cacheOperation_ok [OF _ k] by (auto simp: rpc_operation_def Let_def split: sum.splits option.splits)
next
  case (look_claim x n r lookupNow readable)
  then show ?case by (auto simp: rpc_claim_def split: sum.splits bool.splits)
next
  case (prepare x n r io)
  then show ?case by (auto simp: rpc_prepare_def Let_def split: prod.splits sum.splits rpc_error.splits v2SideEffectState.splits)
next
  case (handler_begin x n r io)
  then show ?case by (auto simp: rpc_begin_def Let_def split: prod.splits)
next
  case (handler_commit x n r io)
  then show ?case by (auto simp: rpc_commit_def Let_def split: prod.splits)
next
  case (handler_rollback x n r io)
  then show ?case by (auto simp: rpc_rollback_def Let_def split: prod.splits)
next
  case (handler_business x n r io)
  then show ?case by (auto simp: rpc_business_def Let_def)
next
  case (resolve x n r response events io)
  then show ?case by (auto simp: rpc_resolve_def split: prod.splits)
next
  case (persist x n r response events io)
  then show ?case
    using cacheOperation_ok [OF _ k] by (auto simp: rpc_persist_def persistV2Operation_def Let_def split: prod.splits option.splits sum.splits)
next
  case (close x l)
  then show ?case by (auto simp: close_link_def close_accounted)
next
  case (crash x clients)
  then show ?case by (simp add: rpc_crash_def new_link_accounted)
qed (simp_all add: rpc_observe_def rpc_invalid_def rpc_complete_def rpc_return_def rpc_finish_def)

lemma reachable_accounted:
  assumes "ex_reachable P L keys x" and "keys_exact keys"
  shows "cache_accounted (ex_links x l)"
  using assms(1)
proof (induction arbitrary: l rule: ex_reachable.induct)
  case (start business now clients)
  then show ?case by (simp add: start_executor_def new_link_accounted)
next
  case (step x y)
  then show ?case by (blast intro: step_accounted [OF _ assms(2)])
qed

subsection \<open>Sample runs\<close>

text \<open>The default next step of a call outside its handler, and an action of its handler.\<close>

definition drive_call ::
  "journal_library \<Rightarrow> (v2AgentLink \<Rightarrow> string list) \<Rightarrow> nat \<Rightarrow> executor \<Rightarrow> executor" where
  "drive_call L keys n x =
     (case fmlookup (ex_runs x) n of
        None \<Rightarrow> x
      | Some r \<Rightarrow>
          (case rr_phase r of
             ph_wait \<Rightarrow> rpc_wait n r False x
           | ph_cache \<Rightarrow> rpc_cache n r x
           | ph_operation \<Rightarrow> rpc_operation L keys True n r x
           | ph_claim lookupNow \<Rightarrow> rpc_claim L True lookupNow n r x
           | ph_prepare \<Rightarrow> rpc_prepare L tx_applied n r x
           | ph_handler \<Rightarrow> x
           | ph_resolve response events \<Rightarrow> rpc_resolve L tx_applied response events n r x
           | ph_persist response events \<Rightarrow> rpc_persist L keys tx_applied response events n r x
           | ph_finish response events \<Rightarrow> rpc_finish response events n r x))"

definition handle :: "(nat \<Rightarrow> rpc_run \<Rightarrow> executor \<Rightarrow> executor) \<Rightarrow> nat \<Rightarrow> executor \<Rightarrow> executor" where
  "handle f n x =
     (case fmlookup (ex_runs x) n of
        None \<Rightarrow> x
      | Some r \<Rightarrow> if rr_phase r = ph_handler \<and> ag_business (ex_agent x) \<noteq> None then f n r x else x)"

lemma drive_reachable: "ex_reachable P L keys x \<Longrightarrow> ex_reachable P L keys (drive_call L keys n x)"
  by (auto simp: drive_call_def split: option.splits rpc_phase.splits intro: ex_reachable.step ex_step.intros)

lemma drives_reachable: "ex_reachable P L keys x \<Longrightarrow> ex_reachable P L keys ((drive_call L keys n ^^ k) x)"
  by (induction k) (simp_all add: drive_reachable)

lemma handle_reachable:
  assumes "ex_reachable P L keys x"
    and "f \<in> {rpc_begin L io, rpc_business L io, \<lambda>n r. rpc_return n r answer events}"
  shows "ex_reachable P L keys (handle f n x)"
  using assms
  by (auto simp: handle_def split: option.splits
      intro: ex_reachable.step [OF assms(1) handler_begin] ex_reachable.step [OF assms(1) handler_business]
        ex_reachable.step [OF assms(1) handler_return])

definition sample_keys :: "v2AgentLink \<Rightarrow> string list" where
  "sample_keys link = sorted_list_of_set (fset (fmdom (al_operations link)))"

lemma sample_keys_exact: "keys_exact sample_keys"
  by (simp add: keys_exact_def sample_keys_def)

definition sample_digests :: primitives where
  "sample_digests = plain_primitives\<lparr>sha256 := (\<lambda>_. replicate 32 0)\<rparr>"

definition sample_call :: "string \<Rightarrow> RpcRequest" where
  "sample_call method = \<lparr>rq_operation_id = replicate 36 (CHR ''a''), rq_attempt_id = ''1'', rq_method = method,
     rq_expected_revision = None, rq_payload = [1]\<rparr>"

definition sample_answer :: legacy_response where
  "sample_answer = \<lparr>lr_header = None, lr_error = None, lr_json_payload = [5]\<rparr>"

definition sample_codec :: journal_library where
  "sample_codec = \<lparr>jl_uuid = (\<lambda>i. length i = 36), jl_marshal = (\<lambda>p. Some (10 # rp_payload p)),
     jl_unmarshal = (\<lambda>_. Some (v2RPCResponseFromLegacy (sample_call ''task.create'') (Some sample_answer), [])),
     jl_response_size = (\<lambda>_. 1), jl_event_size = (\<lambda>_. 1)\<rparr>"

definition sample_start :: executor where
  "sample_start = start_executor Second (Some empty_journal) (\<lambda>_. replicate 36 (CHR ''c''))"

text \<open>A call up to its handler: five steps at most.\<close>

definition sample_enter :: "string \<Rightarrow> nat \<Rightarrow> executor \<Rightarrow> executor" where
  "sample_enter method n x =
     (drive_call sample_codec sample_keys n ^^ 5) (rpc_receive sample_digests 0 [] [] (sample_call method) (ex_now x) x)"

text \<open>The agent dies, and comes back a day later.\<close>

definition sample_restart :: "executor \<Rightarrow> executor" where
  "sample_restart x =
     (let x = rpc_crash (\<lambda>_. replicate 36 (CHR ''c'')) x in x\<lparr>ex_now := ex_now x + v2OperationRetention\<rparr>)"

lemma sample_start_reachable: "ex_reachable sample_digests sample_codec sample_keys sample_start"
  unfolding sample_start_def by (rule ex_reachable.start) (simp_all add: duration_defs)

lemma sample_enter_reachable:
  assumes "\<not> v2RPCReadOnlyMethod method" and "ex_reachable sample_digests sample_codec sample_keys x"
  shows "ex_reachable sample_digests sample_codec sample_keys (sample_enter method n x)"
  unfolding sample_enter_def
  by (rule drives_reachable [OF ex_reachable.step [OF assms(2) receive]]) (simp_all add: sample_call_def assms(1))

lemma sample_restart_reachable:
  assumes "ex_reachable sample_digests sample_codec sample_keys x"
  shows "ex_reachable sample_digests sample_codec sample_keys (sample_restart x)"
proof -
  have "0 \<le> v2OperationRetention" by (simp add: v2OperationRetention_def Hour_def duration_defs)
  then show ?thesis
    unfolding sample_restart_def Let_def by (rule ex_reachable.step [OF ex_reachable.step [OF assms crash] tick])
qed

definition sample_effects :: executor where
  "sample_effects =
     handle (rpc_begin sample_codec tx_applied) 1 (sample_enter ''file.delete'' 1 (sample_restart
       (handle (rpc_begin sample_codec tx_applied) 0 (sample_enter ''file.delete'' 0 sample_start))))"

definition sample_mutations :: executor where
  "sample_mutations =
     handle (rpc_business sample_codec tx_applied) 1 (sample_enter ''task.create'' 1 (sample_restart
       (handle (rpc_business sample_codec tx_applied) 0 (sample_enter ''task.create'' 0 sample_start))))"

definition sample_answered :: executor where
  "sample_answered =
     drive_call sample_codec sample_keys 0 (handle (\<lambda>n r. rpc_return n r (Some sample_answer) []) 0
       (handle (rpc_business sample_codec tx_applied) 0 (sample_enter ''task.create'' 0 sample_start)))"

lemma sample_methods: "\<not> v2RPCReadOnlyMethod ''file.delete''" "\<not> v2RPCReadOnlyMethod ''task.create''"
  by (simp_all add: v2RPCReadOnlyMethod_def HasSuffix_def)

lemma samples_reachable:
  "ex_reachable sample_digests sample_codec sample_keys sample_effects"
  "ex_reachable sample_digests sample_codec sample_keys sample_mutations"
  "ex_reachable sample_digests sample_codec sample_keys sample_answered"
  unfolding sample_effects_def sample_mutations_def sample_answered_def
  by (intro handle_reachable sample_enter_reachable sample_restart_reachable sample_start_reachable drive_reachable sample_methods; blast)+

lemma set_run_again [simp]: "set_run n r' (set_run n r x) = set_run n r' x"
  by (simp add: set_run_def)

text \<open>The way of a fresh operation to its handler.\<close>

definition sample_context :: "string \<Rightarrow> instant \<Rightarrow> v2OperationMutationContext" where
  "sample_context procedure now = \<lparr>mc_OperationID = replicate 36 (CHR ''a''), mc_Digest = replicate 32 0,
     mc_Controller = replicate 36 (CHR ''c''), mc_Project = [], mc_Method = procedure, mc_Now = now\<rparr>"

definition sample_run :: "string \<Rightarrow> instant \<Rightarrow> nat \<Rightarrow> v2SideEffectTracker option \<Rightarrow> rpc_phase \<Rightarrow> rpc_run" where
  "sample_run procedure now claim tracker p = \<lparr>rr_link = 0, rr_request = sample_call procedure, rr_context = sample_context procedure now,
     rr_claim = claim, rr_tracker = tracker, rr_phase = p\<rparr>"

definition sample_claimed :: "executor \<Rightarrow> executor" where
  "sample_claimed x =
     (let s = ex_agent x; claim = ag_next s
      in x\<lparr>ex_agent := s\<lparr>ag_heap := (ag_heap s)(claim := \<lparr>if_digest = replicate 32 0, if_finished = False, if_response = None\<rparr>),
               ag_next := claim + 1, ag_operations := fmupd (replicate 36 (CHR ''a'')) claim (ag_operations s)\<rparr>,
           ex_next := ex_next x + 1\<rparr>)"

definition sample_ready :: "journal \<Rightarrow> executor \<Rightarrow> bool" where
  "sample_ready j x \<longleftrightarrow> ag_operations (ex_agent x) = fmempty \<and> ag_business (ex_agent x) = Some j \<and>
     ex_links x 0 = new_link (replicate 36 (CHR ''c'')) \<and> 0 < ex_now x"

lemma sample_claimed_fields [simp]:
  "ex_now (sample_claimed x) = ex_now x" "ex_links (sample_claimed x) = ex_links x" "the_journal (sample_claimed x) = the_journal x"
  "ag_business (ex_agent (sample_claimed x)) = ag_business (ex_agent x)" "ex_effects (sample_claimed x) = ex_effects x"
  "ex_mutations (sample_claimed x) = ex_mutations x" "ex_next (sample_claimed x) = Suc (ex_next x)"
  by (simp_all add: sample_claimed_def Let_def the_journal_def)

lemma sample_to_claim:
  fixes x :: executor and procedure :: string
  defines "r \<equiv> sample_run procedure (ex_now x) (ag_next (ex_agent x)) None"
  assumes ready: "sample_ready j x" and o: "fmlookup (j_operations j) (replicate 36 (CHR ''a'')) = None"
  shows "(drive_call sample_codec sample_keys (ex_next x) ^^ 2) (rpc_receive sample_digests 0 [] [] (sample_call procedure) (ex_now x) x) =
     set_run (ex_next x) (r (ph_claim (ex_now x))) (sample_claimed x)"
proof -
  let ?n = "ex_next x" and ?y = "sample_claimed x"
  have j: "the_journal x = j" "ag_operations (ex_agent x) = fmempty" "ag_business (ex_agent x) = Some j"
    "ex_links x 0 = new_link (replicate 36 (CHR ''c''))" "ex_now x \<noteq> 0"
    using ready by (auto simp: sample_ready_def the_journal_def)
  have "rpc_receive sample_digests 0 [] [] (sample_call procedure) (ex_now x) x = set_run ?n (r ph_cache) ?y"
    by (simp add: rpc_receive_def claimV2Operation_def j sample_call_def sample_digests_def v2RPCOperationDigest_def Let_def
        v2MaximumInFlightOperations_def new_link_def sample_claimed_def r_def sample_run_def sample_context_def)
  moreover have "drive_call sample_codec sample_keys ?n (set_run ?n (r ph_cache) ?y) = set_run ?n (r ph_operation) ?y"
  proof -
    have "z\<lparr>ex_links := ex_links z\<rparr> = z" for z :: executor by simp
    moreover have "(ex_links x)(0 := ex_links x 0) = ex_links x" by simp
    ultimately have "(set_run ?n (r ph_cache) ?y)\<lparr>ex_links := (ex_links x)(0 := ex_links x 0)\<rparr> = set_run ?n (r ph_cache) ?y"
      by (metis end_run_links(3) sample_claimed_fields(2))
    then show ?thesis
      by (simp add: drive_call_def rpc_cache_def cachedOperation_def r_def sample_run_def sample_call_def j new_link_def Let_def)
  qed
  moreover have "drive_call sample_codec sample_keys ?n (set_run ?n (r ph_operation) ?y) = set_run ?n (r (ph_claim (ex_now x))) ?y"
    using o
    by (simp add: drive_call_def rpc_operation_def loadV2Operation_def r_def sample_run_def sample_call_def j sample_codec_def Let_def)
  ultimately show ?thesis by (simp add: numeral_2_eq_2)
qed

lemma sample_enter_split:
  "sample_enter procedure n x = drive_call sample_codec sample_keys n (drive_call sample_codec sample_keys n (drive_call sample_codec sample_keys n
     ((drive_call sample_codec sample_keys n ^^ 2) (rpc_receive sample_digests 0 [] [] (sample_call procedure) (ex_now x) x))))"
  by (simp add: sample_enter_def eval_nat_numeral)

lemma sample_enter_effect:
  assumes ready: "sample_ready j x" and o: "fmlookup (j_operations j) (replicate 36 (CHR ''a'')) = None"
    and c: "fmlookup (j_claims j) (replicate 36 (CHR ''a'')) = None"
    and p: "prepareV2SideEffect sample_codec tx_applied j (sample_context procedure (ex_now x)) = (j', Inr v2SideEffectPrepared)"
    and m: "v2RPCDurableSideEffectMethod procedure"
  shows "sample_enter procedure (ex_next x) x = set_run (ex_next x)
     (sample_run procedure (ex_now x) (ag_next (ex_agent x)) (Some (new_tracker (sample_context procedure (ex_now x)))) ph_handler)
     (set_journal j' (sample_claimed x))"
proof -
  let ?n = "ex_next x" and ?y = "sample_claimed x"
  let ?r = "sample_run procedure (ex_now x) (ag_next (ex_agent x))"
  have j: "the_journal x = j" "ag_business (ex_agent x) = Some j" "ex_now x \<noteq> 0"
    using ready by (auto simp: sample_ready_def the_journal_def)
  have "drive_call sample_codec sample_keys ?n (set_run ?n (?r None (ph_claim (ex_now x))) ?y) = set_run ?n (?r None ph_prepare) ?y"
    using c m by (simp add: drive_call_def rpc_claim_def loadV2OperationClaim_def sample_run_def sample_call_def j sample_codec_def
        enter_prepare_def)
  moreover have "set_journal j' (set_run ?n r z) = set_run ?n r (set_journal j' z)" for r z
    by (simp add: set_journal_def set_run_def)
  then have "drive_call sample_codec sample_keys ?n (set_run ?n (?r None ph_prepare) ?y) =
      set_run ?n (?r (Some (new_tracker (sample_context procedure (ex_now x)))) ph_handler) (set_journal j' ?y)"
    using p by (simp add: drive_call_def rpc_prepare_def sample_run_def j Let_def)
  moreover have "drive_call sample_codec sample_keys ?n (set_run ?n (?r t ph_handler) z) = set_run ?n (?r t ph_handler) z" for t z
    by (simp add: drive_call_def sample_run_def)
  ultimately show ?thesis using sample_to_claim [OF ready o] by (simp add: sample_enter_split)
qed

lemma sample_enter_mutation:
  assumes ready: "sample_ready j x" and o: "fmlookup (j_operations j) (replicate 36 (CHR ''a'')) = None"
    and c: "\<And>row. fmlookup (j_claims j) (replicate 36 (CHR ''a'')) = Some row \<Longrightarrow> cr_expires row \<le> UnixMilli (ex_now x)"
    and m: "\<not> v2RPCDurableSideEffectMethod procedure"
  shows "sample_enter procedure (ex_next x) x =
     set_run (ex_next x) (sample_run procedure (ex_now x) (ag_next (ex_agent x)) None ph_handler) (sample_claimed x)"
proof -
  let ?n = "ex_next x" and ?y = "sample_claimed x"
  let ?r = "sample_run procedure (ex_now x) (ag_next (ex_agent x)) None"
  have j: "the_journal x = j" "ex_now x \<noteq> 0"
    using ready by (auto simp: sample_ready_def the_journal_def)
  have "drive_call sample_codec sample_keys ?n (set_run ?n (?r (ph_claim (ex_now x))) ?y) = set_run ?n (?r ph_handler) ?y"
    using c m by (auto simp: drive_call_def rpc_claim_def loadV2OperationClaim_def sample_run_def sample_call_def j sample_codec_def
        enter_prepare_def split: option.splits)
  moreover have "drive_call sample_codec sample_keys ?n (set_run ?n (?r ph_handler) z) = set_run ?n (?r ph_handler) z" for z
    by (simp add: drive_call_def sample_run_def)
  ultimately show ?thesis using sample_to_claim [OF ready o] by (simp add: sample_enter_split)
qed

text \<open>The journal with a side effect row of the sample operation, and what the store does to it.\<close>

definition sample_row_journal :: "v2SideEffectState \<Rightarrow> instant \<Rightarrow> journal" where
  "sample_row_journal state now = empty_journal\<lparr>j_effects := fmupd (replicate 36 (CHR ''a''))
     \<lparr>er_digest = replicate 32 0, er_controller = replicate 36 (CHR ''c''), er_project = [], er_method = ''file.delete'',
      er_state = state, er_created = UnixMilli now, er_updated = UnixMilli now,
      er_expires = UnixMilli now + v2OperationRetention_Milliseconds\<rparr> fmempty\<rparr>"

lemma fmkeep_single: "\<not> Q k v \<Longrightarrow> fmkeep Q (fmupd k v fmempty) = fmempty"
  by (rule fmap_ext) auto

lemma empty_journal_fields [simp]:
  "j_operations empty_journal = fmempty" "j_claims empty_journal = fmempty" "j_effects empty_journal = fmempty"
  by (simp_all add: empty_journal_def)

lemma empty_journal_room: "enforceV2OperationJournalCapacity empty_journal c 0 = None"
  by (simp add: enforceV2OperationJournalCapacity_def table_sum_def count_of_def v2OperationMaximumRowsPerDevice_def
      v2OperationMaximumBytesPerDevice_def v2OperationMaximumRowsPerController_def v2OperationMaximumBytesPerController_def)

lemma sample_sweep:
  assumes "now \<noteq> 0" and "j = empty_journal \<or> (\<exists>state t. j = sample_row_journal state t \<and> now = t + v2OperationRetention)"
  shows "sweepV2OperationRows j now = Inr empty_journal"
  using assms by (auto simp: sweepV2OperationRows_def sample_row_journal_def fmkeep_single)

lemma sample_prepare:
  assumes "now \<noteq> 0" and "j = empty_journal \<or> (\<exists>state t. j = sample_row_journal state t \<and> now = t + v2OperationRetention)"
  shows "prepareV2SideEffect sample_codec tx_applied j (sample_context ''file.delete'' now)
     = (sample_row_journal v2SideEffectPrepared now, Inr v2SideEffectPrepared)"
proof -
  have "loadV2SideEffectTx empty_journal v = Inr None" for v by (simp add: loadV2SideEffectTx_def)
  moreover have "durable_digest empty_journal i = None" for i by (simp add: durable_digest_def)
  ultimately have "prepare_rows empty_journal (sample_context ''file.delete'' now)
      = Inr (sample_row_journal v2SideEffectPrepared now, v2SideEffectPrepared)"
    by (simp add: prepare_rows_def empty_journal_room insert_effect_def sample_context_def sample_row_journal_def Let_def)
  then show ?thesis
    using assms(1) sample_sweep [OF assms]
    by (simp add: prepareV2SideEffect_def sample_codec_def sample_context_def validV2OperationMutationContext_def
        v2RPCDurableSideEffectMethod_def)
qed

lemma sample_transition:
  assumes "now \<noteq> 0"
  shows "transitionV2SideEffect sample_codec tx_applied now (sample_row_journal v2SideEffectPrepared now)
      (sample_context ''file.delete'' now) v2SideEffectPrepared v2SideEffectStarted
    = (sample_row_journal v2SideEffectStarted now, Inr ())"
  using assms
  by (simp add: transitionV2SideEffect_def sample_codec_def sample_context_def validV2OperationMutationContext_def
      transition_rows_def loadV2SideEffectTx_def validateV2SideEffectRow_def sample_row_journal_def sha256_Size_def Let_def)

text \<open>An attempt at the sample operation on an agent that is ready for it causes the effect.\<close>

lemma sample_attempt:
  assumes ready: "sample_ready j x"
    and j: "j = empty_journal \<or> (\<exists>state t. j = sample_row_journal state t \<and> ex_now x = t + v2OperationRetention)"
  defines "y \<equiv> handle (rpc_begin sample_codec tx_applied) (ex_next x) (sample_enter ''file.delete'' (ex_next x) x)"
  shows "the_journal y = sample_row_journal v2SideEffectStarted (ex_now x)" and "ex_now y = ex_now x"
    and "ex_next y = ex_next x + 1" and "ag_business (ex_agent y) \<noteq> None"
    and "ex_effects y = ex_effects x @ [\<lparr>ef_operation = replicate 36 (CHR ''a''), ef_call = ex_next x, ef_time = ex_now x\<rparr>]"
proof -
  have n: "ex_now x \<noteq> 0" and b: "ag_business (ex_agent x) = Some j" using ready by (auto simp: sample_ready_def)
  have "fmlookup (j_operations j) i = None \<and> fmlookup (j_claims j) i = None" for i
    using j by (auto simp: sample_row_journal_def empty_journal_def)
  then have e: "sample_enter ''file.delete'' (ex_next x) x = set_run (ex_next x)
     (sample_run ''file.delete'' (ex_now x) (ag_next (ex_agent x)) (Some (new_tracker (sample_context ''file.delete'' (ex_now x)))) ph_handler)
     (set_journal (sample_row_journal v2SideEffectPrepared (ex_now x)) (sample_claimed x))"
    by (intro sample_enter_effect [OF ready]) (simp_all add: sample_prepare [OF n j] v2RPCDurableSideEffectMethod_def)
  have y: "y = (let z = set_run (ex_next x) (sample_run ''file.delete'' (ex_now x) (ag_next (ex_agent x))
            (Some ((new_tracker (sample_context ''file.delete'' (ex_now x)))\<lparr>st_state := v2SideEffectStarted\<rparr>)) ph_handler)
          (set_journal (sample_row_journal v2SideEffectStarted (ex_now x))
            (set_run (ex_next x) (sample_run ''file.delete'' (ex_now x) (ag_next (ex_agent x))
               (Some (new_tracker (sample_context ''file.delete'' (ex_now x)))) ph_handler)
              (set_journal (sample_row_journal v2SideEffectPrepared (ex_now x)) (sample_claimed x))))
        in z\<lparr>ex_effects := ex_effects z @ [\<lparr>ef_operation = replicate 36 (CHR ''a''), ef_call = ex_next x, ef_time = ex_now x\<rparr>]\<rparr>)"
    unfolding y_def e
    by (simp add: handle_def sample_run_def b rpc_begin_def beginV2SideEffect_def new_tracker_def sample_transition [OF n]
        Let_def sample_call_def)
  show "the_journal y = sample_row_journal v2SideEffectStarted (ex_now x)" "ex_now y = ex_now x" "ex_next y = ex_next x + 1"
    "ag_business (ex_agent y) \<noteq> None"
    "ex_effects y = ex_effects x @ [\<lparr>ef_operation = replicate 36 (CHR ''a''), ef_call = ex_next x, ef_time = ex_now x\<rparr>]"
    by (simp_all add: y Let_def b the_journal_def [of "_\<lparr>ex_effects := _\<rparr>"])
      (use the_journal_set b in \<open>auto simp: the_journal_def\<close>)
qed

lemma sample_restart_ready:
  assumes "ag_business (ex_agent x) \<noteq> None" and "0 < ex_now x"
  shows "sample_ready (the_journal x) (sample_restart x)" and "ex_now (sample_restart x) = ex_now x + v2OperationRetention"
    and "ex_next (sample_restart x) = ex_next x" and "ex_effects (sample_restart x) = ex_effects x"
    and "ex_mutations (sample_restart x) = ex_mutations x"
proof -
  have "0 < v2OperationRetention" by (simp add: v2OperationRetention_def Hour_def duration_defs)
  then show "sample_ready (the_journal x) (sample_restart x)"
    using assms by (auto simp: sample_ready_def sample_restart_def rpc_crash_def start_agent_def the_journal_def)
qed (simp_all add: sample_restart_def rpc_crash_def Let_def)

lemma sample_start_ready: "sample_ready empty_journal sample_start" "ex_next sample_start = 0" "ex_now sample_start = Second"
  "ex_effects sample_start = []" "ex_mutations sample_start = []"
  by (simp_all add: sample_ready_def sample_start_def start_executor_def start_agent_def duration_defs)

lemma sample_effects_made:
  "ex_effects sample_effects =
     [\<lparr>ef_operation = replicate 36 (CHR ''a''), ef_call = 0, ef_time = Second\<rparr>,
      \<lparr>ef_operation = replicate 36 (CHR ''a''), ef_call = 1, ef_time = Second + v2OperationRetention\<rparr>]"
proof -
  define y where "y = handle (rpc_begin sample_codec tx_applied) 0 (sample_enter ''file.delete'' 0 sample_start)"
  note first = sample_attempt [OF sample_start_ready(1) disjI1 [OF refl], unfolded sample_start_ready, folded y_def]
  have "0 < ex_now y" by (simp add: first duration_defs)
  note again = sample_restart_ready [OF first(4) this]
  have "the_journal y = empty_journal \<or> (\<exists>state t. the_journal y = sample_row_journal state t \<and>
      ex_now (sample_restart y) = t + v2OperationRetention)"
    unfolding first(1,2) again(2) by blast
  note second = sample_attempt [OF again(1) this]
  show ?thesis using second(5) by (simp add: sample_effects_def again first flip: y_def)
qed

definition sample_claim_journal :: "instant \<Rightarrow> journal" where
  "sample_claim_journal now = empty_journal\<lparr>j_claims := fmupd (replicate 36 (CHR ''a''))
     \<lparr>cr_digest = replicate 32 0, cr_controller = replicate 36 (CHR ''c''), cr_project = [], cr_method = ''task.create'',
      cr_created = UnixMilli now, cr_expires = UnixMilli now + v2OperationRetention_Milliseconds\<rparr> fmempty\<rparr>"

lemma sample_mark:
  assumes n: "now \<noteq> 0" and j: "j = empty_journal \<or> (\<exists>t. j = sample_claim_journal t \<and> now = t + v2OperationRetention)"
  shows "markV2OperationEffectCommitted sample_codec j (sample_context ''task.create'' now) = Inr (sample_claim_journal now)"
proof -
  have s: "j\<lparr>j_claims := fmkeep (\<lambda>_ r. \<not> cr_expires r \<le> UnixMilli now) (j_claims j)\<rparr> = empty_journal"
    using j by (auto simp: sample_claim_journal_def fmkeep_single)
  have "j_operations j = fmempty" using j by (auto simp: sample_claim_journal_def)
  have "validV2OperationMutationContext sample_codec (sample_context ''task.create'' now)"
    using n by (simp add: validV2OperationMutationContext_def sample_codec_def sample_context_def)
  moreover have "mc_Now (sample_context ''task.create'' now) = now" by (simp add: sample_context_def)
  ultimately show ?thesis
    unfolding markV2OperationEffectCommitted_def Let_def
    by (simp only: s if_False not_True_eq_False)
      (simp add: empty_journal_room insert_claim_def sample_context_def sample_claim_journal_def)
qed

lemma sample_mutation_attempt:
  assumes ready: "sample_ready j x"
    and j: "j = empty_journal \<or> (\<exists>t. j = sample_claim_journal t \<and> ex_now x = t + v2OperationRetention)"
  defines "y \<equiv> handle (rpc_business sample_codec tx_applied) (ex_next x) (sample_enter ''task.create'' (ex_next x) x)"
  shows "the_journal y = sample_claim_journal (ex_now x)" and "ex_now y = ex_now x" and "ex_next y = ex_next x + 1"
    and "ag_business (ex_agent y) \<noteq> None"
    and "ex_mutations y = ex_mutations x @ [\<lparr>mu_operation = replicate 36 (CHR ''a''), mu_call = ex_next x, mu_request = ex_now x,
           mu_commit = ex_now x, mu_expires = UnixMilli (ex_now x) + v2OperationRetention_Milliseconds\<rparr>]"
    and "fmlookup (ex_runs y) (ex_next x) =
           Some (sample_run ''task.create'' (ex_now x) (ag_next (ex_agent x)) None ph_handler)"
    and "ex_links y = ex_links x"
proof -
  have n: "ex_now x \<noteq> 0" and b: "ag_business (ex_agent x) = Some j" "the_journal x = j"
    using ready by (auto simp: sample_ready_def the_journal_def)
  have e: "sample_enter ''task.create'' (ex_next x) x =
     set_run (ex_next x) (sample_run ''task.create'' (ex_now x) (ag_next (ex_agent x)) None ph_handler) (sample_claimed x)"
    by (rule sample_enter_mutation [OF ready])
      (use j in \<open>auto simp: sample_claim_journal_def v2RPCDurableSideEffectMethod_def\<close>)
  let ?z = "set_journal (sample_claim_journal (ex_now x)) (set_run (ex_next x)
      (sample_run ''task.create'' (ex_now x) (ag_next (ex_agent x)) None ph_handler) (sample_claimed x))"
  have y: "y = ?z\<lparr>ex_mutations := ex_mutations ?z @ [\<lparr>mu_operation = replicate 36 (CHR ''a''), mu_call = ex_next x,
        mu_request = ex_now x, mu_commit = ex_now x,
        mu_expires = UnixMilli (ex_now x) + v2OperationRetention_Milliseconds\<rparr>]\<rparr>"
    unfolding y_def e
    using sample_mark [OF n j]
    by (simp add: handle_def sample_run_def b rpc_business_def commitBusinessTransaction_def Let_def sample_call_def
        guard_expiry_def) (simp add: sample_claim_journal_def sample_context_def)
  have "the_journal y = the_journal ?z" unfolding y by (simp add: the_journal_def)
  then show "the_journal y = sample_claim_journal (ex_now x)" using b by simp
  show "ag_business (ex_agent y) \<noteq> None" using b by (simp add: y set_journal_def)
  show "ex_now y = ex_now x" "ex_next y = ex_next x + 1" "ex_links y = ex_links x"
    "ex_mutations y = ex_mutations x @ [\<lparr>mu_operation = replicate 36 (CHR ''a''), mu_call = ex_next x, mu_request = ex_now x,
           mu_commit = ex_now x, mu_expires = UnixMilli (ex_now x) + v2OperationRetention_Milliseconds\<rparr>]"
    "fmlookup (ex_runs y) (ex_next x) = Some (sample_run ''task.create'' (ex_now x) (ag_next (ex_agent x)) None ph_handler)"
    by (simp_all add: y)
qed

lemma sample_mutations_made:
  "map mu_call (ex_mutations sample_mutations) = [0, 1] \<and>
   map mu_operation (ex_mutations sample_mutations) = [replicate 36 (CHR ''a''), replicate 36 (CHR ''a'')]"
proof -
  define y where "y = handle (rpc_business sample_codec tx_applied) 0 (sample_enter ''task.create'' 0 sample_start)"
  note first = sample_mutation_attempt [OF sample_start_ready(1) disjI1 [OF refl], unfolded sample_start_ready, folded y_def]
  have "0 < ex_now y" by (simp add: first duration_defs)
  note again = sample_restart_ready [OF first(4) this]
  have "the_journal y = empty_journal \<or> (\<exists>t. the_journal y = sample_claim_journal t \<and>
      ex_now (sample_restart y) = t + v2OperationRetention)"
    unfolding first(1,2) again(2) by blast
  note second = sample_mutation_attempt [OF again(1) this]
  show ?thesis using second(5) by (simp add: sample_mutations_def again first flip: y_def)
qed

definition sample_response :: RpcResponse where
  "sample_response = v2RPCResponseFromLegacy (sample_call ''task.create'') (Some sample_answer)"

lemma sample_response_fields [simp]:
  "rp_operation_id sample_response = replicate 36 (CHR ''a'')" "rp_payload sample_response = [5]" "v2RPCDurableOutcome sample_response"
  by (simp_all add: sample_response_def v2RPCResponseFromLegacy_def sample_answer_def sample_call_def v2RPCDurableOutcome_def)

lemma sample_answered_eq:
  "ex_now sample_answered = Second" "the_journal sample_answered = sample_claim_journal Second"
  "ag_business (ex_agent sample_answered) \<noteq> None" "ex_links sample_answered = (\<lambda>_. new_link (replicate 36 (CHR ''c'')))"
  "fmlookup (ex_runs sample_answered) 0 = Some (sample_run ''task.create'' Second 0 None (ph_persist sample_response []))"
proof -
  define y where "y = handle (rpc_business sample_codec tx_applied) 0 (sample_enter ''task.create'' 0 sample_start)"
  note first = sample_mutation_attempt [OF sample_start_ready(1) disjI1 [OF refl], unfolded sample_start_ready, folded y_def]
  obtain j where b: "ag_business (ex_agent y) = Some j" using first(4) by blast
  have r: "fmlookup (ex_runs y) 0 = Some (sample_run ''task.create'' Second 0 None ph_handler)"
    using first(6) by (simp add: sample_start_def start_executor_def start_agent_def)
  let ?r = "\<lambda>p. sample_run ''task.create'' Second 0 None p"
  have p: "rr_phase (?r q) = q" "(?r q)\<lparr>rr_phase := q'\<rparr> = ?r q'" "rr_request (?r q) = sample_call ''task.create''"
    "rr_tracker (?r q) = None" for q q'
    by (simp_all add: sample_run_def)
  have "handle (\<lambda>n r. rpc_return n r (Some sample_answer) []) 0 y = set_run 0 (?r (ph_resolve sample_response [])) y"
    by (simp add: handle_def r b p rpc_return_def sample_response_def)
  then have e: "sample_answered = set_run 0 (?r (ph_persist sample_response [])) (set_run 0 (?r (ph_resolve sample_response [])) y)"
    unfolding sample_answered_def y_def [symmetric]
    by (simp add: drive_call_def p rpc_resolve_def resolveV2SideEffectResponse_def)
      (metis set_journal_same set_run_again set_run_fields(7))
  show "ex_now sample_answered = Second" "the_journal sample_answered = sample_claim_journal Second"
    "ag_business (ex_agent sample_answered) \<noteq> None" "ex_links sample_answered = (\<lambda>_. new_link (replicate 36 (CHR ''c'')))"
    "fmlookup (ex_runs sample_answered) 0 = Some (?r (ph_persist sample_response []))"
    using first by (simp_all add: e) (simp add: sample_start_def start_executor_def)
qed

lemma sample_save:
  assumes j: "j = sample_claim_journal Second"
  shows "\<exists>j'. saveV2OperationScoped sample_codec tx_applied j (replicate 36 (CHR ''a'')) (replicate 32 0) sample_response Second
      (replicate 36 (CHR ''c'')) [] = (j', Inr ())"
proof -
  have s: "Second \<noteq> 0" by (simp add: duration_defs)
  have sweep: "sweepV2OperationRows j Second = Inr j"
  proof -
    have "fmkeep (\<lambda>_ r. \<not> cr_expires r \<le> UnixMilli Second) (j_claims j) = j_claims j"
      by (rule fmap_ext) (auto simp: j sample_claim_journal_def split: option.splits)
    then show ?thesis using s by (simp add: sweepV2OperationRows_def j sample_claim_journal_def)
  qed
  have "\<exists>j'. save_rows j (replicate 36 (CHR ''a'')) (replicate 32 0) [10, 5] Second (replicate 36 (CHR ''c'')) [] = Inr j'"
  proof -
    have "drop_claim j (replicate 36 (CHR ''a'')) (replicate 32 0) = Inr empty_journal"
      by (simp add: j drop_claim_def sample_claim_journal_def digest_differs_def sha256_Size_def)
        (simp add: empty_journal_def fmdrop_fmupd_same)
    moreover have "drop_effect empty_journal i d = Inr empty_journal" for i d by (simp add: drop_effect_def)
    moreover have "enforceV2OperationJournalCapacity empty_journal c 2 = None" for c
      by (simp add: enforceV2OperationJournalCapacity_def table_sum_def count_of_def v2OperationMaximumRowsPerDevice_def
          v2OperationMaximumBytesPerDevice_def v2OperationMaximumRowsPerController_def v2OperationMaximumBytesPerController_def)
    ultimately show ?thesis by (simp add: save_rows_def j sample_claim_journal_def insert_operation_def)
  qed
  then obtain j' where j': "save_rows j (replicate 36 (CHR ''a'')) (replicate 32 0) [10, 5] Second (replicate 36 (CHR ''c'')) [] = Inr j'"
    by blast
  have "saveV2OperationScoped sample_codec tx_applied j (replicate 36 (CHR ''a'')) (replicate 32 0) sample_response Second
      (replicate 36 (CHR ''c'')) [] = (j', Inr ())"
    using s sweep j' by (simp add: saveV2OperationScoped_def sample_codec_def maximumPeerRPCPlaintext_def)
  then show ?thesis by blast
qed

lemma sample_cached:
  "fmlookup (al_operations (cacheOperation sample_codec sample_keys now (new_link c) (replicate 36 (CHR ''a'')) d p [])) (replicate 36 (CHR ''a'')) \<noteq> None"
  by (simp add: cacheOperation_def sample_codec_def v2MaximumOperationEvents_def v2MaximumOperationEventBytes_def
      v2MaximumOperationBytes_def new_link_def Let_def)

lemma sample_saved:
  defines "y \<equiv> rpc_persist sample_codec sample_keys tx_applied sample_response [] 0
     (sample_run ''task.create'' Second 0 None (ph_persist sample_response [])) sample_answered"
  shows "fmlookup (ex_runs y) 0 = Some (sample_run ''task.create'' Second 0 None (ph_finish sample_response []))"
    and "fmlookup (al_operations (ex_links y 0)) (replicate 36 (CHR ''a'')) \<noteq> None"
proof -
  obtain j where b: "ag_business (ex_agent sample_answered) = Some j" using sample_answered_eq(3) by blast
  then have "j = sample_claim_journal Second" using sample_answered_eq(2) by (simp add: the_journal_def)
  then obtain j' where "saveV2OperationScoped sample_codec tx_applied j (replicate 36 (CHR ''a'')) (replicate 32 0) sample_response Second
      (replicate 36 (CHR ''c'')) [] = (j', Inr ())"
    using sample_save by blast
  then show "fmlookup (ex_runs y) 0 = Some (sample_run ''task.create'' Second 0 None (ph_finish sample_response []))"
    and "fmlookup (al_operations (ex_links y 0)) (replicate 36 (CHR ''a'')) \<noteq> None"
    unfolding y_def
    using sample_cached [of Second "replicate 36 (CHR ''c'')" "replicate 32 0" sample_response]
    by (simp_all add: rpc_persist_def persistV2Operation_def sample_answered_eq b sample_run_def sample_context_def sample_call_def
        new_link_def Let_def)
qed

text \<open>What may come after: the response has been stored, a second passes, the rows are swept and the agent restarts.\<close>

definition sample_stored :: executor where
  "sample_stored = rpc_persist sample_codec sample_keys tx_applied sample_response [] 0
     (sample_run ''task.create'' Second 0 None (ph_persist sample_response [])) sample_answered"

definition sample_later :: "executor \<Rightarrow> executor" where
  "sample_later y =
     (let y = y\<lparr>ex_now := ex_now y + Second\<rparr>;
          y = set_journal (fst (sweepV2Operations tx_applied (the_journal y) (ex_now y))) y
      in rpc_crash (\<lambda>_. []) y)"

lemma sample_later_steps: "(ex_step P L keys)\<^sup>*\<^sup>* y (sample_later y)"
proof -
  have "0 \<le> Second" by (simp add: duration_defs)
  note tick = ex_step.tick [OF this, of P L keys y]
  show ?thesis
    unfolding sample_later_def Let_def
    by (rule converse_rtranclp_into_rtranclp [where r = "ex_step P L keys", OF tick],
        rule converse_rtranclp_into_rtranclp [where r = "ex_step P L keys", OF ex_step.sweep],
        rule r_into_rtranclp [where r = "ex_step P L keys", OF ex_step.crash])
qed

subsection \<open>Properties\<close>

text \<open>
  C2. An external effect is executed at most once in 24 hours. Whatever calls
  arrive on whatever links, however their steps interleave, whatever the
  database answers and whenever the agent dies and restarts: between two
  effects of the same operation that were not rolled back lie at least 24
  hours.
\<close>

theorem effects_executed_once:
  assumes "ex_reachable P L keys x" and "i < j" and "j < length (ex_effects x)"
    and "ef_operation (ex_effects x ! i) = ef_operation (ex_effects x ! j)"
  shows "UnixMilli (ef_time (ex_effects x ! i)) + 86400000 \<le> UnixMilli (ef_time (ex_effects x ! j))"
proof -
  have "sorted_wrt effects_apart (ex_effects x)"
    using ex_okD(4) [OF reachable_ok [OF assms(1)]] by (simp add: ledger_ok_def)
  then have "effects_apart (ex_effects x ! i) (ex_effects x ! j)" using assms(2,3) by (simp add: sorted_wrt_iff_nth_less)
  then show ?thesis using assms(4) by (simp add: effects_apart_def retention_value)
qed

theorem effects_executed_once_witness:
  "length (ex_effects sample_effects) = 2 \<and>
   UnixMilli (ef_time (ex_effects sample_effects ! 0)) + 86400000 \<le> UnixMilli (ef_time (ex_effects sample_effects ! 1))"
  using effects_executed_once [OF samples_reachable(1), of 0 1] by (simp add: sample_effects_made)

text \<open>
  C4. A business mutation that one call made durable is not made again by
  another call of the operation before the journal row that records it
  expires; and this is 24 hours after the request arrived, unless a row of an
  earlier attempt that has just expired was still in the table.
\<close>

theorem mutations_committed_once:
  assumes "ex_reachable P L keys x" and "i < j" and "j < length (ex_mutations x)"
    and "mu_operation (ex_mutations x ! i) = mu_operation (ex_mutations x ! j)"
    and "mu_call (ex_mutations x ! i) \<noteq> mu_call (ex_mutations x ! j)"
  shows "mu_expires (ex_mutations x ! i) \<le> UnixMilli (mu_commit (ex_mutations x ! j)) \<and>
    (mu_expires (ex_mutations x ! i) = UnixMilli (mu_request (ex_mutations x ! i)) + 86400000 \<or>
     mu_expires (ex_mutations x ! i) \<le> UnixMilli (mu_commit (ex_mutations x ! i)))"
proof -
  have l: "ledger_ok x" by (rule ex_okD(4) [OF reachable_ok [OF assms(1)]])
  then have "mutations_apart (ex_mutations x ! i) (ex_mutations x ! j)"
    using assms(2,3) by (simp add: ledger_ok_def sorted_wrt_iff_nth_less)
  moreover have "mutation_protected (ex_mutations x ! i)" using l assms(2,3) by (simp add: ledger_ok_def)
  ultimately show ?thesis using assms(4,5) by (simp add: mutations_apart_def mutation_protected_def retention_value)
qed

theorem mutations_committed_once_witness:
  "length (ex_mutations sample_mutations) = 2 \<and>
   mu_expires (ex_mutations sample_mutations ! 0) \<le> UnixMilli (mu_commit (ex_mutations sample_mutations ! 1))"
proof -
  let ?ms = "ex_mutations sample_mutations"
  have len: "length ?ms = 2" using arg_cong [OF conjunct1 [OF sample_mutations_made], of length] by simp
  have "mu_operation (?ms ! 0) = mu_operation (?ms ! 1)" "mu_call (?ms ! 0) \<noteq> mu_call (?ms ! 1)"
    using nth_map [of 0 ?ms mu_operation] nth_map [of 1 ?ms mu_operation] nth_map [of 0 ?ms mu_call] nth_map [of 1 ?ms mu_call]
      sample_mutations_made len by simp_all
  with mutations_committed_once [OF samples_reachable(2), of 0 1] len show ?thesis by simp
qed

text \<open>
  C14. A success is answered only when its response is stored, and it stays
  stored: a call that persists its response and is left with a successful
  answer has stored just this answer. Whatever the agent does next, other
  calls, sweeps, failing transactions and crashes with restarts in any order,
  for 24 hours a look into the journal for the same operation and digest gives
  it again, and a call of the operation that looks is answered with it, marked
  as replayed, and executes nothing. The response is one that protobuf reads
  back as it wrote it.
\<close>

theorem success_stored_and_replayed:
  assumes x: "ex_reachable P L keys x" and n: "fmlookup (ex_runs x) n = Some r" and p: "rr_phase r = ph_persist response events"
    and y: "fmlookup (ex_runs (rpc_persist L keys io response events n r x)) n = Some r'" "rr_phase r' = ph_finish answer events"
    and d: "v2RPCDurableOutcome answer"
    and codec: "\<And>encoded. jl_marshal L response = Some encoded \<Longrightarrow> jl_unmarshal L encoded = Some (response, [])"
    and later: "(ex_step P L keys)\<^sup>*\<^sup>* (rpc_persist L keys io response events n r x) z"
    and t: "UnixMilli (ex_now z) < UnixMilli (ex_now x) + 86400000"
  shows "answer = response \<and>
    loadV2Operation L True (the_journal z) (run_operation r) (mc_Digest (rr_context r)) (ex_now z) = Inr (Some response) \<and>
    (\<forall>m q. fmlookup (ex_runs z) m = Some q \<and> rr_phase q = ph_operation \<and> run_operation q = run_operation r \<and>
       mc_Digest (rr_context q) = mc_Digest (rr_context r) \<longrightarrow>
       fmlookup (ex_runs (rpc_operation L keys True m q z)) m = None \<and>
       ex_sent (rpc_operation L keys True m q z) =
         ex_sent z @ [(rr_link q, [], response\<lparr>rp_attempt_id := rq_attempt_id (rr_request q), rp_replayed := True\<rparr>)])"
proof -
  let ?y = "rpc_persist L keys io response events n r x" and ?i = "run_operation r"
  have ok: "ex_ok x" by (rule reachable_ok [OF x])
  have oky: "ex_ok ?y" by (rule step_ok [OF ex_step.persist [OF n p] ok])
  have now: "ex_now ?y = ex_now x" by (simp add: rpc_persist_def split: prod.split)
  obtain encoded row where a: "answer = response" and e: "jl_marshal L response = Some encoded" "encoded \<noteq> []"
      "length (mc_Digest (rr_context r)) = 32" "jl_uuid L ?i" "rp_operation_id response = ?i"
    and row: "fmlookup (responses ?y) ?i = Some row" "or_digest row = mc_Digest (rr_context r)" "or_blob row = encoded"
      "or_expires row = ex_ms x + v2OperationRetention_Milliseconds"
    by (rule persisted_success [OF ok n p y d])
  have z: "fmlookup (responses z) ?i = Some row" "ex_ok z"
    using steps_responses [OF later oky row(1)] t row(4) by (simp_all add: retention_value)
  have "ex_now z \<noteq> 0" using ex_okD(5) [OF z(2)] by simp
  then have load: "loadV2Operation L True (the_journal z) ?i (mc_Digest (rr_context r)) (ex_now z) = Inr (Some response)"
    using z(1) row e t codec [OF e(1)] by (auto simp: loadV2Operation_def sha256_Size_def retention_value)
  then show ?thesis using a by (simp add: rpc_operation_def Let_def replay_run_def end_run_def send_def)
qed

theorem success_stored_and_replayed_witness:
  "loadV2Operation sample_codec True (the_journal (sample_later sample_stored)) (replicate 36 (CHR ''a'')) (replicate 32 0) (2 * Second)
     = Inr (Some sample_response)"
proof -
  let ?y = "rpc_persist sample_codec sample_keys tx_applied sample_response [] 0
     (sample_run ''task.create'' Second 0 None (ph_persist sample_response [])) sample_answered"
  have t: "UnixMilli (2 * Second) < UnixMilli Second + 86400000" by (simp add: UnixMilli_def duration_defs)
  have now: "ex_now sample_answered = Second" "ex_now ?y = Second"
    by (simp_all add: sample_answered_eq(1) rpc_persist_def split: prod.split)
  then have z: "ex_now (sample_later ?y) = 2 * Second" by (simp add: sample_later_def set_journal_def rpc_crash_def Let_def)
  have "run_operation (sample_run ''task.create'' Second 0 None (ph_persist sample_response [])) = replicate 36 (CHR ''a'')"
    "mc_Digest (rr_context (sample_run ''task.create'' Second 0 None (ph_persist sample_response []))) = replicate 32 0"
    by (simp_all add: sample_run_def sample_call_def sample_context_def)
  with success_stored_and_replayed [where response = sample_response and events = "[]" and io = tx_applied and
      answer = sample_response and z = "sample_later ?y",
      OF samples_reachable(3) sample_answered_eq(5) _ sample_saved(1) _ _ _ sample_later_steps]
  show ?thesis
    using t unfolding z now sample_stored_def by (simp add: sample_run_def) (simp add: sample_codec_def sample_response_def)
qed

text \<open>
  C29. The digest that identifies an operation is taken of an encoding that
  binds the controller, the project, the scope, the method, the payload and
  the expected revision: for names without NUL, equal encodings are of
  requests equal in all of them.
\<close>

theorem operation_digest_binds:
  assumes "operation_encoding c p s request = operation_encoding c' p' s' request'"
    and "\<not> ContainsNUL c" "\<not> ContainsNUL p" "\<not> ContainsNUL s" "\<not> ContainsNUL (rq_method request)"
    and "\<not> ContainsNUL c'" "\<not> ContainsNUL p'" "\<not> ContainsNUL s'" "\<not> ContainsNUL (rq_method request')"
  shows "c = c' \<and> p = p' \<and> s = s' \<and> rq_method request = rq_method request' \<and> rq_payload request = rq_payload request' \<and>
     rq_expected_revision request = rq_expected_revision request'"
  by (rule operation_encoding_inj [OF assms])

theorem operation_digest_binds_witness:
  "operation_encoding ''c'' ''p'' ''s'' (sample_call ''task.create'') \<noteq>
   operation_encoding ''c'' ''p'' ''s'' ((sample_call ''task.create'')\<lparr>rq_expected_revision := Some 7\<rparr>)"
  using operation_digest_binds [of "''c''" "''p''" "''s''" "sample_call ''task.create''" "''c''" "''p''" "''s''"
      "(sample_call ''task.create'')\<lparr>rq_expected_revision := Some 7\<rparr>"]
  by (auto simp: ContainsNUL_def sample_call_def)

text \<open>
  The hot cache of a link is accounted exactly and bounded: in every state
  the agent reaches its byte count is the sum of the weights of its entries
  and at most four mebibytes, and it has at most 128 entries.
\<close>

theorem hot_cache_bounded:
  assumes "ex_reachable P L keys x" and "keys_exact keys"
  shows "al_operationBytes (ex_links x l) = table_sum ao_bytes (al_operations (ex_links x l)) \<and>
    al_operationBytes (ex_links x l) \<le> 4194304 \<and> fmlen (al_operations (ex_links x l)) \<le> 128"
  using reachable_accounted [OF assms, of l]
  by (auto simp: cache_accounted_def v2MaximumOperationBytes_def v2MaximumCachedOperations_def)

theorem hot_cache_bounded_witness:
  "fmlen (al_operations (ex_links (drive_call sample_codec sample_keys 0 sample_answered) 0)) \<in> {1..128}"
proof -
  let ?y = "drive_call sample_codec sample_keys 0 sample_answered"
  have y: "?y = rpc_persist sample_codec sample_keys tx_applied sample_response [] 0
     (sample_run ''task.create'' Second 0 None (ph_persist sample_response [])) sample_answered"
    by (simp add: drive_call_def sample_answered_eq(5) sample_run_def)
  have "fmlookup (al_operations (ex_links ?y 0)) (replicate 36 (CHR ''a'')) \<noteq> None"
    unfolding y by (rule sample_saved(2))
  then have "0 < fmlen (al_operations (ex_links ?y 0))" using fmlen_pos by fastforce
  with hot_cache_bounded [OF drive_reachable [OF samples_reachable(3)] sample_keys_exact, of 0 0] show ?thesis by simp
qed

end
