(* ===== verification/Workflow_Graph.thy ===== *)
theory Workflow_Graph
  imports Operation_Journal
begin

text \<open>
  The graphs of workflow revisions, \<open>server/cmd/device-agent/task_workflow_v2.go\<close>:
  a workflow is a graph of task nodes between a start and a finish node. What
  \<open>normalizeWorkflowV2Revision\<close> checks of the graph, the search for reachable
  nodes and the topological order. Of a task definition only the fields the
  workflow engine reads are modelled, the rest is a byte string; the
  normalisation of the definition of a task, which depends on its kind and on
  the file system, is an argument (\<open>norm\<close>).
\<close>

subsection \<open>Revisions\<close>

text \<open>\<open>Node_other\<close>, \<open>Edge_other\<close> and \<open>Policy_other\<close> stand for every other string, \<open>Edge_unset\<close>, \<open>Policy_unset\<close> and \<open>Scope_unset\<close> for the empty one.\<close>

datatype workflowV2NodeType = Node_start | Node_task | Node_finish | Node_other

datatype workflowV2EdgeType = Edge_onSuccess | Edge_onFailure | Edge_always | Edge_unset | Edge_other

datatype workflowV2FailurePolicy = Policy_stopOnFailure | Policy_continueOnFailure | Policy_unset | Policy_other

datatype taskV2Scope = Scope_topLevel | Scope_workflowNode | Scope_unset | Scope_other

record taskV2Definition =
  td_ID :: string
  td_ProjectID :: string
  td_workflow :: bool
  td_Scope :: taskV2Scope
  td_OwnerWorkflowTaskID :: "string option"
  td_revision :: "(string \<times> u64) option"
  td_alone :: bool
  td_rest :: bytes

text \<open>
  \<open>td_revision\<close> is what \<open>workflowV2DefinitionRevision\<close> reads of the
  configuration; \<open>td_alone\<close>: no parent task, no root task, no schedule, no
  immediate run, no CLI session to resume and no related tasks;
  \<open>wn_placed\<close>: both coordinates of the position are numbers of at most a million.
\<close>

record workflowV2Node =
  wn_ID :: string
  wn_Type :: workflowV2NodeType
  wn_TaskDefinitionID :: "string option"
  wn_TaskDefinition :: "taskV2Definition option"
  wn_SourceTaskID :: "string option"
  wn_SourceTaskRevision :: "u64 option"
  wn_placed :: bool

record workflowV2Edge =
  we_ID :: string
  we_SourceID :: string
  we_TargetID :: string
  we_Type :: workflowV2EdgeType
  we_Label :: string

record workflowV2Revision =
  wr_ID :: string
  wr_WorkflowTaskID :: string
  wr_Version :: u64
  wr_Description :: string
  wr_FailurePolicy :: workflowV2FailurePolicy
  wr_MaximumParallelism :: u32
  wr_GraphDigest :: string
  wr_Nodes :: "workflowV2Node list"
  wr_Edges :: "workflowV2Edge list"

definition maximumWorkflowV2Nodes :: nat where "maximumWorkflowV2Nodes = 128"
definition maximumWorkflowV2Edges :: nat where "maximumWorkflowV2Edges = 512"
definition maximumWorkflowV2Identifier :: nat where "maximumWorkflowV2Identifier = 128"
definition maximumWorkflowV2Description :: nat where "maximumWorkflowV2Description = 64 * 2 ^ 10"
definition maximumWorkflowV2Parallelism :: nat where "maximumWorkflowV2Parallelism = 64"

text \<open>The runes of a valid UTF-8 string, as \<open>utf8.ValidString\<close> and a loop over a string decode it.\<close>

definition continuation :: "nat \<Rightarrow> nat \<Rightarrow> nat \<Rightarrow> bool" where
  "continuation low high b \<longleftrightarrow> low \<le> b \<and> b \<le> high"

fun utf8_runes :: "nat list \<Rightarrow> nat list option" where
  "utf8_runes [] = Some []"
| "utf8_runes (a # s) =
     (if a < 0x80 then map_option (Cons a) (utf8_runes s)
      else case s of
        [] \<Rightarrow> None
      | b # s' \<Rightarrow>
          if 0xC2 \<le> a \<and> a \<le> 0xDF \<and> continuation 0x80 0xBF b then
            map_option (Cons ((a - 0xC0) * 0x40 + (b - 0x80))) (utf8_runes s')
          else case s' of
            [] \<Rightarrow> None
          | c # s'' \<Rightarrow>
              if 0xE0 \<le> a \<and> a \<le> 0xEF \<and> continuation (if a = 0xE0 then 0xA0 else 0x80) (if a = 0xED then 0x9F else 0xBF) b \<and>
                 continuation 0x80 0xBF c then
                map_option (Cons ((a - 0xE0) * 0x1000 + (b - 0x80) * 0x40 + (c - 0x80))) (utf8_runes s'')
              else case s'' of
                [] \<Rightarrow> None
              | d # s''' \<Rightarrow>
                  if 0xF0 \<le> a \<and> a \<le> 0xF4 \<and> continuation (if a = 0xF0 then 0x90 else 0x80) (if a = 0xF4 then 0x8F else 0xBF) b \<and>
                     continuation 0x80 0xBF c \<and> continuation 0x80 0xBF d then
                    map_option (Cons ((a - 0xF0) * 0x40000 + (b - 0x80) * 0x1000 + (c - 0x80) * 0x40 + (d - 0x80))) (utf8_runes s''')
                  else None)"

definition IsControl :: "nat \<Rightarrow> bool" where
  "IsControl r \<longleftrightarrow> r < 0x20 \<or> (0x7F \<le> r \<and> r < 0xA0)"

definition validWorkflowV2Identifier :: "string \<Rightarrow> bool" where
  "validWorkflowV2Identifier v \<longleftrightarrow>
     v \<noteq> [] \<and> length v \<le> maximumWorkflowV2Identifier \<and>
     (case utf8_runes (map of_char v) of None \<Rightarrow> False | Some runes \<Rightarrow> \<not> list_ex IsControl runes)"

subsection \<open>Search\<close>

text \<open>
  An adjacency map is given by the list of its arrows: \<open>targets_of\<close> is the
  entry of a key, in the order in which it was appended to.
\<close>

definition targets_of :: "(string \<times> string) list \<Rightarrow> string \<Rightarrow> string list" where
  "targets_of arrows i = map snd (filter (\<lambda>a. fst a = i) arrows)"

definition arrows_of :: "workflowV2Edge list \<Rightarrow> (string \<times> string) list" where
  "arrows_of edges = map (\<lambda>e. (we_SourceID e, we_TargetID e)) edges"

text \<open>
  The loop of \<open>workflowV2Reachable\<close>. The top of the stack, the end of the slice,
  is the head of the list. Every round visits a new node, of which at most
  those with an arrow push others, or shortens the stack.
\<close>

function reach_loop :: "(string \<times> string) list \<Rightarrow> string list \<Rightarrow> string fset \<Rightarrow> string fset" where
  "reach_loop arrows [] visited = visited"
| "reach_loop arrows (current # stack) visited =
     (if current |\<in>| visited then reach_loop arrows stack visited
      else reach_loop arrows (rev (targets_of arrows current) @ stack) (finsert current visited))"
  by pat_completeness auto
termination
proof (relation "measures [\<lambda>(arrows, stack, visited). card (fst ` set arrows - fset visited), \<lambda>(arrows, stack, visited). length stack]")
  fix arrows :: "(string \<times> string) list" and current :: string and stack and visited
  assume n: "current |\<notin>| visited"
  let ?S = "fst ` set arrows"
  show "((arrows, rev (targets_of arrows current) @ stack, finsert current visited), arrows, current # stack, visited)
     \<in> measures [\<lambda>(arrows, stack, visited). card (fst ` set arrows - fset visited), \<lambda>(arrows, stack, visited). length stack]"
  proof (cases "current \<in> ?S")
    case True
    then have "card (?S - fset (finsert current visited)) < card (?S - fset visited)"
      using n by (intro psubset_card_mono) auto
    then show ?thesis by simp
  next
    case False
    then have "targets_of arrows current = []" by (auto simp: targets_of_def filter_empty_conv)
    moreover have "?S - fset (finsert current visited) = ?S - fset visited" using False by auto
    ultimately show ?thesis by simp
  qed
qed simp_all

declare reach_loop.simps(2) [simp del]

definition workflowV2Reachable :: "string \<Rightarrow> (string \<times> string) list \<Rightarrow> string fset" where
  "workflowV2Reachable start arrows = reach_loop arrows [start] {||}"

subsection \<open>Topological order\<close>

text \<open>The inner loop of a round: the targets of a finished node; a node whose last source is finished becomes ready.\<close>

fun release_targets :: "string list \<Rightarrow> (string, int) fmap \<Rightarrow> string list \<Rightarrow> (string, int) fmap \<times> string list" where
  "release_targets [] indegree ready = (indegree, ready)"
| "release_targets (target # targets) indegree ready =
     (let degree = (case fmlookup indegree target of Some d \<Rightarrow> d | None \<Rightarrow> 0) - 1
      in release_targets targets (fmupd target degree indegree) (if degree = 0 then sort (ready @ [target]) else ready))"

definition open_degrees :: "(string, int) fmap \<Rightarrow> nat" where
  "open_degrees indegree = (\<Sum>i\<in>fset (fmdom indegree). nat (the (fmlookup indegree i)))"

lemma open_degrees_upd:
  assumes "nat d \<le> nat (case fmlookup indegree i of Some d \<Rightarrow> d | None \<Rightarrow> 0)"
  shows "open_degrees (fmupd i d indegree) + (nat (case fmlookup indegree i of Some d \<Rightarrow> d | None \<Rightarrow> 0) - nat d) = open_degrees indegree"
proof -
  let ?D = "fset (fmdom indegree) - {i}"
  have same: "(\<Sum>k\<in>?D. nat (the (fmlookup (fmupd i d indegree) k))) = (\<Sum>k\<in>?D. nat (the (fmlookup indegree k)))"
    by (rule sum.cong) auto
  have new: "open_degrees (fmupd i d indegree) = nat d + (\<Sum>k\<in>?D. nat (the (fmlookup indegree k)))"
    unfolding open_degrees_def using same by (simp add: sum.insert_remove del: fmupd_lookup) (simp add: same)
  show ?thesis
  proof (cases "fmlookup indegree i")
    case None
    then have "i \<notin> fset (fmdom indegree)" by (simp add: fmdom_notI)
    then have "open_degrees indegree = (\<Sum>k\<in>?D. nat (the (fmlookup indegree k)))" by (simp add: open_degrees_def)
    with new None assms show ?thesis by simp
  next
    case (Some e)
    then have "i \<in> fset (fmdom indegree)" by (simp add: fmdomI)
    then have "open_degrees indegree = nat e + (\<Sum>k\<in>?D. nat (the (fmlookup indegree k)))"
      unfolding open_degrees_def using Some by (subst sum.remove [of _ i]) simp_all
    with new Some assms show ?thesis by simp
  qed
qed

lemma release_targets_open:
  assumes "release_targets targets indegree ready = (indegree', ready')"
  shows "open_degrees indegree' + length ready' \<le> open_degrees indegree + length ready"
  using assms
proof (induction targets indegree ready rule: release_targets.induct)
  case (2 target targets indegree ready)
  let ?old = "case fmlookup indegree target of Some d \<Rightarrow> d | None \<Rightarrow> 0"
  let ?ready = "if ?old - 1 = 0 then sort (ready @ [target]) else ready"
  have "open_degrees indegree' + length ready' \<le> open_degrees (fmupd target (?old - 1) indegree) + length ?ready"
    using 2 by (simp add: Let_def)
  moreover have "nat (?old - 1) \<le> nat ?old" by (rule nat_mono) simp
  with open_degrees_upd [of "?old - 1" indegree target]
  have "open_degrees (fmupd target (?old - 1) indegree) + length ?ready \<le> open_degrees indegree + length ready"
    by (cases "?old - 1 = 0") simp_all
  ultimately show ?case by linarith
qed simp

function topological_loop ::
  "(string \<times> string) list \<Rightarrow> (string, int) fmap \<Rightarrow> string list \<Rightarrow> string list \<Rightarrow> string list" where
  "topological_loop arrows indegree [] result = result"
| "topological_loop arrows indegree (current # ready) result =
     (case release_targets (targets_of arrows current) indegree ready of
        (indegree', ready') \<Rightarrow> topological_loop arrows indegree' ready' (result @ [current]))"
  by pat_completeness auto
termination
  by (relation "measure (\<lambda>(arrows, indegree, ready, result). open_degrees indegree + length ready)")
     (auto dest!: release_targets_open [OF sym])

declare topological_loop.simps(2) [simp del]

definition indegrees :: "workflowV2Node list \<Rightarrow> workflowV2Edge list \<Rightarrow> (string, int) fmap" where
  "indegrees nodes edges =
     fold (\<lambda>e indegree. fmupd (we_TargetID e) ((case fmlookup indegree (we_TargetID e) of Some d \<Rightarrow> d | None \<Rightarrow> 0) + 1) indegree)
       edges (fold (\<lambda>n indegree. fmupd (wn_ID n) 0 indegree) nodes fmempty)"

definition workflowV2TopologicalOrder :: "workflowV2Node list \<Rightarrow> workflowV2Edge list \<Rightarrow> string list \<times> bool" where
  "workflowV2TopologicalOrder nodes edges =
     (let indegree = indegrees nodes edges;
          ready = sorted_list_of_fset (ffilter (\<lambda>i. fmlookup indegree i = Some 0) (fmdom indegree));
          result = topological_loop (arrows_of edges) indegree ready []
      in (result, length result = length nodes))"

subsection \<open>The search finds exactly the reachable nodes\<close>

lemma set_targets_of [simp]: "set (targets_of arrows i) = {t. (i, t) \<in> set arrows}"
  by (force simp: targets_of_def)

lemma reach_loop_sound:
  "fset (reach_loop arrows stack visited) \<subseteq> fset visited \<union> (set arrows)\<^sup>* `` set stack"
proof (induction arrows stack visited rule: reach_loop.induct)
  case (2 arrows current stack visited)
  show ?case
  proof (cases "current |\<in>| visited")
    case True
    with 2(1) show ?thesis by (auto simp: reach_loop.simps(2))
  next
    case False
    have "(set arrows)\<^sup>* `` {t. (current, t) \<in> set arrows} \<subseteq> (set arrows)\<^sup>* `` {current}"
      by (auto intro: converse_rtrancl_into_rtrancl)
    with 2(2) [OF False] False show ?thesis by (auto simp: reach_loop.simps(2) Image_Un)
  qed
qed simp

lemma reach_loop_closed:
  assumes "\<And>i t. i |\<in>| visited \<Longrightarrow> (i, t) \<in> set arrows \<Longrightarrow> t |\<in>| visited \<or> t \<in> set stack"
  shows "fset visited \<union> set stack \<subseteq> fset (reach_loop arrows stack visited) \<and>
    (\<forall>i t. i |\<in>| reach_loop arrows stack visited \<longrightarrow> (i, t) \<in> set arrows \<longrightarrow> t |\<in>| reach_loop arrows stack visited)"
  using assms
proof (induction arrows stack visited rule: reach_loop.induct)
  case (2 arrows current stack visited)
  let ?closed = "\<lambda>v s. fset v \<union> set s \<subseteq> fset (reach_loop arrows s v) \<and>
    (\<forall>i t. i |\<in>| reach_loop arrows s v \<longrightarrow> (i, t) \<in> set arrows \<longrightarrow> t |\<in>| reach_loop arrows s v)"
  show ?case
  proof (cases "current |\<in>| visited")
    case True
    have "?closed visited stack" by (rule 2(1) [OF True]) (use 2(3) True in fastforce)
    with True show ?thesis by (auto simp: reach_loop.simps(2))
  next
    case False
    have "?closed (finsert current visited) (rev (targets_of arrows current) @ stack)"
      by (rule 2(2) [OF False]) (use 2(3) in fastforce)
    with False show ?thesis by (auto simp: reach_loop.simps(2))
  qed
qed auto

lemma reachable_exact: "fset (workflowV2Reachable start arrows) = (set arrows)\<^sup>* `` {start}"
proof
  show "fset (workflowV2Reachable start arrows) \<subseteq> (set arrows)\<^sup>* `` {start}"
    using reach_loop_sound [of arrows "[start]" "{||}"] by (simp add: workflowV2Reachable_def)
  have closed: "start |\<in>| workflowV2Reachable start arrows"
      "\<And>i t. i |\<in>| workflowV2Reachable start arrows \<Longrightarrow> (i, t) \<in> set arrows \<Longrightarrow> t |\<in>| workflowV2Reachable start arrows"
    using reach_loop_closed [of "{||}" arrows "[start]"] by (auto simp: workflowV2Reachable_def)
  show "(set arrows)\<^sup>* `` {start} \<subseteq> fset (workflowV2Reachable start arrows)"
  proof
    fix x assume "x \<in> (set arrows)\<^sup>* `` {start}"
    then have "(start, x) \<in> (set arrows)\<^sup>*" by simp
    then show "x \<in> fset (workflowV2Reachable start arrows)"
      by (induction rule: rtrancl_induct) (use closed in auto)
  qed
qed

subsection \<open>The topological order\<close>

definition degree :: "(string, int) fmap \<Rightarrow> string \<Rightarrow> int" where
  "degree indegree i = (case fmlookup indegree i of Some d \<Rightarrow> d | None \<Rightarrow> 0)"

lemma degree_upd [simp]: "degree (fmupd i d indegree) k = (if k = i then d else degree indegree k)"
  by (simp add: degree_def)

lemma release_targets_degree:
  "release_targets targets indegree ready = (indegree', ready') \<Longrightarrow>
   degree indegree' i = degree indegree i - int (count_list targets i)"
proof (induction targets indegree ready rule: release_targets.induct)
  case (2 target targets indegree ready)
  then show ?case by (auto simp: Let_def degree_def split: if_splits)
qed simp

lemma release_targets_ready:
  assumes "release_targets targets indegree ready = (indegree', ready')"
    and "\<And>i. i \<in> set targets \<Longrightarrow> int (count_list targets i) \<le> degree indegree i"
    and "\<And>i. i \<in> set targets \<Longrightarrow> i \<notin> set ready" and "distinct ready"
  shows "set ready' = set ready \<union> {i \<in> set targets. degree indegree i = int (count_list targets i)} \<and> distinct ready'"
  using assms
proof (induction targets indegree ready rule: release_targets.induct)
  case (2 target targets indegree ready)
  let ?d = "degree indegree target - 1"
  let ?ready = "if ?d = 0 then sort (ready @ [target]) else ready"
  have run: "release_targets targets (fmupd target ?d indegree) ?ready = (indegree', ready')"
    using 2(2) by (simp add: Let_def degree_def)
  have bound: "int (count_list targets i) \<le> degree (fmupd target ?d indegree) i" if "i \<in> set targets" for i
    using 2(3) [of i] that by auto
  have last: "target \<notin> set targets" if "?d = 0"
    using 2(3) [of target] that count_list_0_iff [of targets target] by fastforce
  have fresh: "i \<notin> set ?ready" if "i \<in> set targets" for i
    using 2(4) [of i] that last by auto
  have d: "distinct ?ready" using 2(4) [of target] 2(5) by simp
  have "?d = (case fmlookup indegree target of Some d \<Rightarrow> d | None \<Rightarrow> 0) - 1" by (simp add: degree_def)
  from 2(1) [OF this run bound fresh d]
  have ih: "set ready' = set ?ready \<union> {i \<in> set targets. degree (fmupd target ?d indegree) i = int (count_list targets i)}"
      "distinct ready'"
    by simp_all
  have whole: "?d = 0 \<longleftrightarrow> target \<notin> set targets \<and> degree indegree target = 1"
    using last by auto
  have "set ready' = set ready \<union> {i \<in> set (target # targets). degree indegree i = int (count_list (target # targets) i)}"
  proof (rule set_eqI)
    fix i
    show "i \<in> set ready' \<longleftrightarrow> i \<in> set ready \<union> {i \<in> set (target # targets). degree indegree i = int (count_list (target # targets) i)}"
    proof (cases "i = target")
      case True
      have zero: "count_list targets target = 0 \<longleftrightarrow> target \<notin> set targets" by (rule count_list_0_iff)
      have new: "target \<notin> set ready" using 2(4) by simp
      show ?thesis
      proof (cases "degree indegree target = 1")
        case True
        with whole zero \<open>i = target\<close> show ?thesis by (simp add: ih(1))
      next
        case False
        with new zero \<open>i = target\<close> show ?thesis by (auto simp: ih(1))
      qed
    next
      case False
      then show ?thesis by (simp add: ih(1))
    qed
  qed
  with ih(2) show ?case by simp
qed simp

text \<open>What holds of the loop: degrees count the arrows from nodes that are not in the result, the ready nodes have none.\<close>

definition topological_inv ::
  "(string \<times> string) list \<Rightarrow> string set \<Rightarrow> (string, int) fmap \<Rightarrow> string list \<Rightarrow> string list \<Rightarrow> bool" where
  "topological_inv arrows ids indegree ready result \<longleftrightarrow>
     distinct (result @ ready) \<and> set (result @ ready) \<subseteq> ids \<and>
     (\<forall>i\<in>ids. degree indegree i = int (length (filter (\<lambda>a. snd a = i \<and> fst a \<notin> set result) arrows))) \<and>
     (\<forall>i\<in>ids. i \<in> set result \<union> set ready \<longleftrightarrow> degree indegree i = 0) \<and>
     (\<forall>xs t ys. result = xs @ t # ys \<longrightarrow> (\<forall>s. (s, t) \<in> set arrows \<longrightarrow> s \<in> set xs))"

lemma count_targets: "count_list (targets_of arrows i) t = length (filter (\<lambda>a. snd a = t \<and> fst a = i) arrows)"
  by (induction arrows) (auto simp: targets_of_def)

lemma filter_split: "length (filter P xs) = length (filter (\<lambda>x. P x \<and> Q x) xs) + length (filter (\<lambda>x. P x \<and> \<not> Q x) xs)"
  by (induction xs) auto

lemma topological_step:
  assumes inv: "topological_inv arrows ids indegree (current # ready) result"
    and arrows: "\<And>s t. (s, t) \<in> set arrows \<Longrightarrow> s \<in> ids \<and> t \<in> ids"
    and run: "release_targets (targets_of arrows current) indegree ready = (indegree', ready')"
  shows "topological_inv arrows ids indegree' ready' (result @ [current])"
proof -
  have d: "distinct (result @ current # ready)" "set (result @ current # ready) \<subseteq> ids"
    and deg: "\<And>i. i \<in> ids \<Longrightarrow> degree indegree i = int (length (filter (\<lambda>a. snd a = i \<and> fst a \<notin> set result) arrows))"
    and zero: "\<And>i. i \<in> ids \<Longrightarrow> i \<in> set result \<union> set (current # ready) \<longleftrightarrow> degree indegree i = 0"
    and order: "\<And>xs t ys s. result = xs @ t # ys \<Longrightarrow> (s, t) \<in> set arrows \<Longrightarrow> s \<in> set xs"
    using inv by (auto simp: topological_inv_def)
  have c: "current \<in> ids" "current \<notin> set result" using d by auto
  let ?left = "\<lambda>i. length (filter (\<lambda>a. snd a = i \<and> fst a \<notin> set (result @ [current])) arrows)"
  have split: "degree indegree i = int (?left i) + int (count_list (targets_of arrows current) i)" if "i \<in> ids" for i
  proof -
    have "filter (\<lambda>a. (snd a = i \<and> fst a \<notin> set result) \<and> fst a = current) arrows = filter (\<lambda>a. snd a = i \<and> fst a = current) arrows"
      using c(2) by (intro filter_cong) auto
    moreover have "filter (\<lambda>a. (snd a = i \<and> fst a \<notin> set result) \<and> fst a \<noteq> current) arrows =
        filter (\<lambda>a. snd a = i \<and> fst a \<notin> set (result @ [current])) arrows"
      by (intro filter_cong) auto
    ultimately show ?thesis
      using deg [OF that] filter_split [of "\<lambda>a. snd a = i \<and> fst a \<notin> set result" arrows "\<lambda>a. fst a = current"]
      by (simp add: count_targets)
  qed
  have target: "i \<in> ids \<and> 0 < degree indegree i" if "i \<in> set (targets_of arrows current)" for i
  proof -
    have "i \<in> ids" using arrows that by simp
    moreover have "count_list (targets_of arrows current) i \<noteq> 0" using that by (simp only: count_list_0_iff not_not)
    ultimately show ?thesis using split by simp
  qed
  have bound: "int (count_list (targets_of arrows current) i) \<le> degree indegree i" if "i \<in> set (targets_of arrows current)" for i
    using split [of i] target [OF that] by simp
  have fresh: "i \<notin> set ready" if "i \<in> set (targets_of arrows current)" for i
    using zero [of i] target [OF that] by auto
  have ready': "set ready' = set ready \<union> {i \<in> set (targets_of arrows current). degree indegree i = int (count_list (targets_of arrows current) i)}"
      "distinct ready'"
    using release_targets_ready [OF run bound fresh] d(1) by simp_all
  have deg': "degree indegree' i = int (?left i)" if "i \<in> ids" for i
    using release_targets_degree [OF run, of i] split [OF that] by simp
  have released: "i \<notin> set (result @ current # ready) \<and> i \<in> ids" if "i \<in> set (targets_of arrows current)" for i
    using zero [of i] target [OF that] by auto
  have "distinct ((result @ [current]) @ ready')" "set ((result @ [current]) @ ready') \<subseteq> ids"
    using d ready' released by auto
  moreover have "i \<in> set (result @ [current]) \<union> set ready' \<longleftrightarrow> degree indegree' i = 0" if i: "i \<in> ids" for i
  proof (cases "i \<in> set (targets_of arrows current)")
    case True
    then show ?thesis using released [OF True] split [OF i] deg' [OF i] ready'(1) by auto
  next
    case False
    then have "count_list (targets_of arrows current) i = 0" by (simp only: count_list_0_iff not_False_eq_True)
    then show ?thesis using False zero [OF i] split [OF i] deg' [OF i] ready'(1) by auto
  qed
  moreover have "s \<in> set xs" if r: "result @ [current] = xs @ t # ys" and a: "(s, t) \<in> set arrows" for xs t ys s
  proof (cases ys rule: rev_cases)
    case Nil
    then have t: "t = current" "xs = result" using r by simp_all
    have "degree indegree current = 0" using zero [OF c(1)] by simp
    then have "filter (\<lambda>a. snd a = current \<and> fst a \<notin> set result) arrows = []" using deg [OF c(1)] by simp
    then show ?thesis using a t by (auto simp: filter_empty_conv)
  next
    case (snoc ys' y)
    then show ?thesis using order [of xs t ys' s] r a by simp
  qed
  ultimately show ?thesis using deg' by (simp add: topological_inv_def)
qed

lemma topological_loop_inv:
  assumes "topological_inv arrows ids indegree ready result"
    and "\<And>s t. (s, t) \<in> set arrows \<Longrightarrow> s \<in> ids \<and> t \<in> ids"
  shows "\<exists>indegree'. topological_inv arrows ids indegree' [] (topological_loop arrows indegree ready result)"
  using assms
proof (induction arrows indegree ready result rule: topological_loop.induct)
  case (2 arrows indegree current ready result)
  obtain indegree' ready' where run: "release_targets (targets_of arrows current) indegree ready = (indegree', ready')" by fastforce
  have "\<exists>d. topological_inv arrows ids d [] (topological_loop arrows indegree' ready' (result @ [current]))"
    by (rule 2(1) [OF run [symmetric]]) (use 2(2,3) topological_step [OF 2(2,3) run] in auto)
  then show ?case by (simp add: topological_loop.simps(2) run)
qed auto

definition node_ids :: "workflowV2Node list \<Rightarrow> string set" where
  "node_ids nodes = wn_ID ` set nodes"

definition edges_within :: "workflowV2Node list \<Rightarrow> workflowV2Edge list \<Rightarrow> bool" where
  "edges_within nodes edges \<longleftrightarrow> (\<forall>e\<in>set edges. we_SourceID e \<in> node_ids nodes \<and> we_TargetID e \<in> node_ids nodes)"

lemma arrows_within: "edges_within nodes edges \<Longrightarrow> (s, t) \<in> set (arrows_of edges) \<Longrightarrow> s \<in> node_ids nodes \<and> t \<in> node_ids nodes"
  by (auto simp: edges_within_def arrows_of_def)

lemma indegrees_degree: "degree (indegrees nodes edges) i = int (length (filter (\<lambda>a. snd a = i) (arrows_of edges)))"
proof -
  have zero: "degree (fold (\<lambda>n m. fmupd (wn_ID n) 0 m) nodes m) i = 0" if "degree m i = 0" for m :: "(string, int) fmap"
    using that by (induction nodes arbitrary: m) auto
  have "degree (fold (\<lambda>e m. fmupd (we_TargetID e) ((case fmlookup m (we_TargetID e) of Some d \<Rightarrow> d | None \<Rightarrow> 0) + 1) m) edges m) i =
      degree m i + int (length (filter (\<lambda>a. snd a = i) (arrows_of edges)))" for m
    by (induction edges arbitrary: m) (auto simp: arrows_of_def degree_def)
  with zero [of fmempty] show ?thesis by (simp add: indegrees_def degree_def)
qed

lemma indegrees_dom:
  assumes "edges_within nodes edges"
  shows "fset (fmdom (indegrees nodes edges)) = node_ids nodes"
proof -
  have "fset (fmdom (fold (\<lambda>n m. fmupd (wn_ID n) 0 m) nodes m)) = node_ids nodes \<union> fset (fmdom m)" for m :: "(string, int) fmap"
    by (induction nodes arbitrary: m) (auto simp: node_ids_def)
  moreover have "fset (fmdom (fold (\<lambda>e m. fmupd (we_TargetID e) ((case fmlookup m (we_TargetID e) of Some d \<Rightarrow> d | None \<Rightarrow> 0) + 1) m) edges m)) =
      we_TargetID ` set edges \<union> fset (fmdom m)" for m :: "(string, int) fmap"
    by (induction edges arbitrary: m) auto
  ultimately show ?thesis using assms by (auto simp: indegrees_def edges_within_def)
qed

lemma zero_degree: "i |\<in>| fmdom m \<Longrightarrow> fmlookup m i = Some 0 \<longleftrightarrow> degree m i = 0"
  by (cases "fmlookup m i") (auto simp: degree_def fmdom_notI)

lemma topological_start:
  assumes "edges_within nodes edges"
  shows "topological_inv (arrows_of edges) (node_ids nodes) (indegrees nodes edges)
    (sorted_list_of_fset (ffilter (\<lambda>i. fmlookup (indegrees nodes edges) i = Some 0) (fmdom (indegrees nodes edges)))) []"
proof -
  have dom: "fset (fmdom (indegrees nodes edges)) = node_ids nodes" by (rule indegrees_dom [OF assms])
  have "i \<in> set (sorted_list_of_fset (ffilter (\<lambda>i. fmlookup (indegrees nodes edges) i = Some 0) (fmdom (indegrees nodes edges)))) \<longleftrightarrow>
      degree (indegrees nodes edges) i = 0" if "i \<in> node_ids nodes" for i
  proof -
    have "i |\<in>| fmdom (indegrees nodes edges)" using that dom by simp
    then show ?thesis by (simp add: zero_degree)
  qed
  note ready = this
  let ?ready = "sorted_list_of_fset (ffilter (\<lambda>i. fmlookup (indegrees nodes edges) i = Some 0) (fmdom (indegrees nodes edges)))"
  have "set ([] @ ?ready) \<subseteq> node_ids nodes" using dom by auto
  moreover have "distinct ([] @ ?ready)" by (simp add: sorted_list_of_fset.rep_eq)
  moreover have "\<forall>i\<in>node_ids nodes. i \<in> set [] \<union> set ?ready \<longleftrightarrow> degree (indegrees nodes edges) i = 0"
    using ready by (simp del: sorted_list_of_fset_simps)
  ultimately show ?thesis unfolding topological_inv_def indegrees_degree by simp
qed

lemma takeWhile_upto: "t \<notin> set xs \<Longrightarrow> takeWhile (\<lambda>x. x \<noteq> t) (xs @ t # ys) = xs"
  by (induction xs) auto

lemma order_acyclic:
  assumes "distinct order" and "\<And>s t. (s, t) \<in> E \<Longrightarrow> t \<in> set order"
    and "\<And>xs t ys s. order = xs @ t # ys \<Longrightarrow> (s, t) \<in> E \<Longrightarrow> s \<in> set xs"
  shows "acyclic E"
proof -
  let ?index = "\<lambda>i. length (takeWhile (\<lambda>x. x \<noteq> i) order)"
  have "E \<subseteq> measure ?index"
  proof (rule subrelI)
    fix s t assume e: "(s, t) \<in> E"
    then obtain xs ys where o: "order = xs @ t # ys" using assms(2) split_list by metis
    then have "?index t = length xs" using assms(1) takeWhile_upto [of t xs ys] by simp
    moreover obtain us vs where u: "xs = us @ s # vs" using assms(3) [OF o e] split_list by metis
    then have "?index s = length us" using o assms(1) takeWhile_upto [of s us "vs @ t # ys"] by simp
    ultimately show "(s, t) \<in> measure ?index" using u by simp
  qed
  then show ?thesis using wf_measure wf_subset wf_acyclic by metis
qed

lemma workflowV2TopologicalOrder_exact:
  assumes d: "distinct (map wn_ID nodes)" and w: "edges_within nodes edges"
    and run: "workflowV2TopologicalOrder nodes edges = (order, ok)"
  shows "ok \<longleftrightarrow> acyclic (set (arrows_of edges))" and "distinct order" and "set order \<subseteq> node_ids nodes"
    and "ok \<Longrightarrow> set order = node_ids nodes"
    and "\<And>xs t ys s. order = xs @ t # ys \<Longrightarrow> (s, t) \<in> set (arrows_of edges) \<Longrightarrow> s \<in> set xs"
proof -
  let ?E = "set (arrows_of edges)" and ?ids = "node_ids nodes"
  have within: "\<And>s t. (s, t) \<in> ?E \<Longrightarrow> s \<in> ?ids \<and> t \<in> ?ids" by (rule arrows_within [OF w])
  have r: "order = topological_loop (arrows_of edges) (indegrees nodes edges)
      (sorted_list_of_fset (ffilter (\<lambda>i. fmlookup (indegrees nodes edges) i = Some 0) (fmdom (indegrees nodes edges)))) []"
    and ok: "ok \<longleftrightarrow> length order = length nodes"
    using run by (auto simp: workflowV2TopologicalOrder_def Let_def)
  obtain indegree where inv: "topological_inv (arrows_of edges) ?ids indegree [] order"
    using topological_loop_inv [OF topological_start [OF w] within] unfolding r by blast
  then show dist: "distinct order" and sub: "set order \<subseteq> ?ids"
    by (simp_all add: topological_inv_def)
  from inv show sorted: "\<And>xs t ys s. order = xs @ t # ys \<Longrightarrow> (s, t) \<in> ?E \<Longrightarrow> s \<in> set xs"
    by (simp add: topological_inv_def)
  have card: "length nodes = card ?ids" using d by (metis node_ids_def distinct_card length_map set_map)
  have fin: "finite ?ids" by (simp add: node_ids_def)
  have full: "ok \<longleftrightarrow> set order = ?ids"
  proof
    assume "set order = ?ids"
    then show ok using ok card distinct_card [OF dist] by simp
  next
    assume ok
    then have "card (set order) = card ?ids" using \<open>ok \<longleftrightarrow> length order = length nodes\<close> card distinct_card [OF dist] by simp
    then show "set order = ?ids" using sub fin by (simp add: card_subset_eq)
  qed
  then show "ok \<Longrightarrow> set order = ?ids" by blast
  show "ok \<longleftrightarrow> acyclic ?E"
  proof
    assume ok
    then have all: "set order = ?ids" using full by blast
    show "acyclic ?E"
      by (rule order_acyclic [OF dist]) (use within all sorted in auto)
  next
    assume "acyclic ?E"
    then have wf: "wf ?E" by (simp add: finite_acyclic_wf)
    have "?ids - set order = {}"
    proof (rule ccontr)
      assume "?ids - set order \<noteq> {}"
      then obtain k where "k \<in> ?ids - set order" by blast
      then obtain i where "i \<in> ?ids - set order" and least: "\<And>s. (s, i) \<in> ?E \<Longrightarrow> s \<notin> ?ids - set order"
        by (rule wfE_min [OF wf]) blast
      then have i: "i \<in> ?ids" "i \<notin> set order" by simp_all
      have "degree indegree i \<noteq> 0" "degree indegree i = int (length (filter (\<lambda>a. snd a = i \<and> fst a \<notin> set order) (arrows_of edges)))"
        using inv i by (simp_all add: topological_inv_def)
      then have "length (filter (\<lambda>a. snd a = i \<and> fst a \<notin> set order) (arrows_of edges)) \<noteq> 0" by linarith
      then obtain s where "(s, i) \<in> ?E" "s \<notin> set order" by (auto simp: filter_empty_conv)
      then show False using least within by blast
    qed
    then show ok using full sub by blast
  qed
qed

subsection \<open>The checks of a graph\<close>

text \<open>
  What \<open>normalizeWorkflowV2Revision\<close> checks of the nodes and of the edges,
  besides the task definitions: names are trimmed and distinct, start and
  finish carry no task, a source task comes with its revision. The identifier
  of a task definition is known from the definition.
\<close>

definition node_checked :: "workflowV2Node list \<Rightarrow> workflowV2Node \<Rightarrow> bool" where
  "node_checked before n \<longleftrightarrow>
     validWorkflowV2Identifier (wn_ID n) \<and> wn_Type n \<noteq> Node_other \<and> wn_placed n \<and> wn_ID n \<notin> wn_ID ` set before \<and>
     (if wn_Type n = Node_task then wn_TaskDefinition n \<noteq> None
      else wn_TaskDefinitionID n = None \<and> wn_TaskDefinition n = None \<and> wn_SourceTaskID n = None \<and> wn_SourceTaskRevision n = None)"

definition definition_checked :: "string \<Rightarrow> string \<Rightarrow> string option \<Rightarrow> string list \<Rightarrow> taskV2Definition \<Rightarrow> bool" where
  "definition_checked project parentID nodeDefinitionID ids d \<longleftrightarrow>
     td_ID d \<noteq> [] \<and> \<not> td_workflow d \<and> td_ProjectID d \<in> {[], project} \<and> td_Scope d \<in> {Scope_unset, Scope_workflowNode} \<and>
     td_OwnerWorkflowTaskID d \<in> {None, Some parentID} \<and> td_alone d \<and> nodeDefinitionID \<in> {None, Some (td_ID d)} \<and> td_ID d \<notin> set ids"

definition source_checked :: "workflowV2Node \<Rightarrow> bool" where
  "source_checked n \<longleftrightarrow>
     \<not> (wn_SourceTaskID n = None \<and> wn_SourceTaskRevision n \<noteq> None) \<and>
     \<not> (wn_SourceTaskID n \<noteq> None \<and> (wn_SourceTaskRevision n = None \<or> wn_SourceTaskRevision n = Some 0))"

definition normalize_node :: "workflowV2Node \<Rightarrow> workflowV2Node" where
  "normalize_node n = n\<lparr>wn_ID := TrimSpace (wn_ID n)\<rparr>"

text \<open>
  \<open>norm\<close> fills in the working directory and the execution options and is
  \<open>normalizeTaskV2Definition\<close>; the definition belongs to the workflow then.
\<close>

definition bind_definition :: "string \<Rightarrow> string \<Rightarrow> taskV2Definition \<Rightarrow> taskV2Definition" where
  "bind_definition project parentID d =
     d\<lparr>td_ProjectID := project, td_Scope := Scope_workflowNode, td_OwnerWorkflowTaskID := Some parentID\<rparr>"

fun normalize_nodes ::
  "(taskV2Definition \<Rightarrow> rpc_error + taskV2Definition) \<Rightarrow> string \<Rightarrow> string \<Rightarrow> workflowV2Node list \<Rightarrow> string list \<Rightarrow> workflowV2Node list \<Rightarrow>
   rpc_error + workflowV2Node list" where
  "normalize_nodes norm project parentID before ids [] = Inr before"
| "normalize_nodes norm project parentID before ids (n # nodes) =
     (if \<not> node_checked before (normalize_node n) then Inl errRPCInvalid
      else if wn_Type n \<noteq> Node_task then normalize_nodes norm project parentID (before @ [normalize_node n]) ids nodes
      else if \<not> definition_checked project parentID (wn_TaskDefinitionID n) ids (the (wn_TaskDefinition n)) then Inl errRPCInvalid
      else case norm (bind_definition project parentID (the (wn_TaskDefinition n))) of
        Inl e \<Rightarrow> Inl e
      | Inr d \<Rightarrow>
          if \<not> source_checked n then Inl errRPCInvalid
          else normalize_nodes norm project parentID
            (before @ [(normalize_node n)\<lparr>wn_TaskDefinitionID := Some (td_ID d), wn_TaskDefinition := Some d\<rparr>])
            (ids @ [td_ID (the (wn_TaskDefinition n))]) nodes)"

definition normalize_edge :: "workflowV2Edge \<Rightarrow> workflowV2Edge" where
  "normalize_edge e = \<lparr>we_ID = TrimSpace (we_ID e), we_SourceID = TrimSpace (we_SourceID e), we_TargetID = TrimSpace (we_TargetID e),
     we_Type = (if we_Type e = Edge_unset then Edge_onSuccess else we_Type e), we_Label = TrimSpace (we_Label e)\<rparr>"

definition node_of :: "workflowV2Node list \<Rightarrow> string \<Rightarrow> workflowV2Node option" where
  "node_of nodes i = find (\<lambda>n. wn_ID n = i) nodes"

definition edge_checked :: "workflowV2Node list \<Rightarrow> workflowV2Edge list \<Rightarrow> workflowV2Edge \<Rightarrow> bool" where
  "edge_checked nodes before e \<longleftrightarrow>
     validWorkflowV2Identifier (we_ID e) \<and>
     (case (node_of nodes (we_SourceID e), node_of nodes (we_TargetID e)) of
        (Some source, Some target) \<Rightarrow>
          we_SourceID e \<noteq> we_TargetID e \<and> we_Type e \<in> {Edge_onSuccess, Edge_onFailure, Edge_always} \<and>
          wn_Type target \<noteq> Node_start \<and> wn_Type source \<noteq> Node_finish \<and>
          length (we_Label e) \<le> 200 \<and> \<not> ContainsNUL (we_Label e) \<and>
          \<not> (wn_Type source = Node_start \<and> we_Type e = Edge_onFailure)
      | _ \<Rightarrow> False) \<and>
     we_ID e \<notin> we_ID ` set before \<and>
     (we_SourceID e, we_TargetID e, we_Type e) \<notin> (\<lambda>b. (we_SourceID b, we_TargetID b, we_Type b)) ` set before"

fun normalize_edges :: "workflowV2Node list \<Rightarrow> workflowV2Edge list \<Rightarrow> workflowV2Edge list \<Rightarrow> rpc_error + workflowV2Edge list" where
  "normalize_edges nodes before [] = Inr before"
| "normalize_edges nodes before (e # edges) =
     (if \<not> edge_checked nodes before (normalize_edge e) then Inl errRPCInvalid
      else normalize_edges nodes (before @ [normalize_edge e]) edges)"

definition count_type :: "workflowV2NodeType \<Rightarrow> workflowV2Node list \<Rightarrow> nat" where
  "count_type t nodes = length (filter (\<lambda>n. wn_Type n = t) nodes)"

definition type_id :: "workflowV2NodeType \<Rightarrow> workflowV2Node list \<Rightarrow> string" where
  "type_id t nodes = (case find (\<lambda>n. wn_Type n = t) (rev nodes) of Some n \<Rightarrow> wn_ID n | None \<Rightarrow> [])"

definition normalize_graph ::
  "(taskV2Definition \<Rightarrow> rpc_error + taskV2Definition) \<Rightarrow> string \<Rightarrow> string \<Rightarrow> workflowV2Node list \<Rightarrow> workflowV2Edge list \<Rightarrow> rpc_error + workflowV2Node list \<times> workflowV2Edge list" where
  "normalize_graph norm project parentID nodes edges =
     (if length nodes < 3 \<or> length nodes > maximumWorkflowV2Nodes \<or> length edges < 2 \<or> length edges > maximumWorkflowV2Edges
      then Inl errRPCInvalid
      else case normalize_nodes norm project parentID [] [] nodes of
        Inl e \<Rightarrow> Inl e
      | Inr nodes \<Rightarrow>
          if count_type Node_start nodes \<noteq> 1 \<or> count_type Node_finish nodes \<noteq> 1 \<or> count_type Node_task nodes = 0 then Inl errRPCInvalid
          else case normalize_edges nodes [] edges of
            Inl e \<Rightarrow> Inl e
          | Inr edges \<Rightarrow>
              if fcard (workflowV2Reachable (type_id Node_start nodes) (arrows_of edges)) \<noteq> length nodes \<or>
                 fcard (workflowV2Reachable (type_id Node_finish nodes) (map prod.swap (arrows_of edges))) \<noteq> length nodes
              then Inl errRPCInvalid
              else if \<not> snd (workflowV2TopologicalOrder nodes edges) then Inl errRPCInvalid
              else Inr (sort_key wn_ID nodes, sort_key we_ID edges))"

text \<open>The whole check of a revision; \<open>digest\<close> is \<open>workflowV2GraphDigest\<close>.\<close>

definition normalizeWorkflowV2Revision ::
  "(taskV2Definition \<Rightarrow> rpc_error + taskV2Definition) \<Rightarrow> (workflowV2Revision \<Rightarrow> string option) \<Rightarrow> string \<Rightarrow> taskV2Definition \<Rightarrow>
   workflowV2Revision \<Rightarrow> u64 \<Rightarrow> instant \<Rightarrow> rpc_error + workflowV2Revision" where
  "normalizeWorkflowV2Revision norm digest project parent revision expectedVersion now =
     (if td_ID parent = [] \<or> td_ProjectID parent \<noteq> project \<or> \<not> td_workflow parent \<or> td_Scope parent \<noteq> Scope_topLevel \<or>
         wr_ID revision = [] \<or> wr_WorkflowTaskID revision \<noteq> td_ID parent \<or> wr_Version revision \<noteq> expectedVersion \<or>
         expectedVersion = 0 \<or> IsZero now \<or>
         length (wr_Description revision) > maximumWorkflowV2Description \<or> ContainsNUL (wr_Description revision) \<or>
         unat (wr_MaximumParallelism revision) > maximumWorkflowV2Parallelism
      then Inl errRPCInvalid
      else
        let policy = (if wr_FailurePolicy revision = Policy_unset then Policy_stopOnFailure else wr_FailurePolicy revision)
        in if policy \<notin> {Policy_stopOnFailure, Policy_continueOnFailure} then Inl errRPCInvalid
           else case normalize_graph norm project (td_ID parent) (wr_Nodes revision) (wr_Edges revision) of
             Inl e \<Rightarrow> Inl e
           | Inr (nodes, edges) \<Rightarrow>
               let revision' = revision\<lparr>wr_Description := TrimSpace (wr_Description revision), wr_FailurePolicy := policy,
                     wr_GraphDigest := [], wr_Nodes := nodes, wr_Edges := edges\<rparr>;
                   provided = TrimSpace (wr_GraphDigest revision)
               in (case digest revision' of
                     None \<Rightarrow> Inl errRPCInvalid
                   | Some d \<Rightarrow> if provided \<noteq> [] \<and> provided \<noteq> d then Inl errRPCInvalid else Inr (revision'\<lparr>wr_GraphDigest := d\<rparr>)))"

text \<open>
  The graphs workflows run on: distinct nodes and arrows between them, no
  cycle, one start and one finish, every node on a path from the one to the
  other; nothing leads to the start.
\<close>

definition workflow_graph :: "workflowV2Node list \<Rightarrow> workflowV2Edge list \<Rightarrow> bool" where
  "workflow_graph nodes edges \<longleftrightarrow>
     distinct (map wn_ID nodes) \<and> edges_within nodes edges \<and> acyclic (set (arrows_of edges)) \<and>
     (\<exists>start\<in>set nodes. \<exists>finish\<in>set nodes.
        (\<forall>n\<in>set nodes. wn_Type n = Node_start \<longleftrightarrow> n = start) \<and> (\<forall>n\<in>set nodes. wn_Type n = Node_finish \<longleftrightarrow> n = finish) \<and>
        (\<forall>n\<in>set nodes. (wn_ID start, wn_ID n) \<in> (set (arrows_of edges))\<^sup>* \<and> (wn_ID n, wn_ID finish) \<in> (set (arrows_of edges))\<^sup>*)) \<and>
     (\<forall>n\<in>set nodes. wn_Type n \<noteq> Node_other \<and>
        (if wn_Type n = Node_task then wn_TaskDefinition n \<noteq> None \<and> wn_TaskDefinitionID n = map_option td_ID (wn_TaskDefinition n)
         else wn_TaskDefinition n = None))"

definition node_fine :: "workflowV2Node \<Rightarrow> bool" where
  "node_fine n \<longleftrightarrow> wn_Type n \<noteq> Node_other \<and>
     (if wn_Type n = Node_task then wn_TaskDefinition n \<noteq> None \<and> wn_TaskDefinitionID n = map_option td_ID (wn_TaskDefinition n)
      else wn_TaskDefinition n = None)"

lemma normalize_nodes_ok:
  assumes "normalize_nodes norm project parentID before ids nodes = Inr ns" and "distinct (map wn_ID before)" and "\<forall>n\<in>set before. node_fine n"
  shows "length ns = length before + length nodes \<and> distinct (map wn_ID ns) \<and> (\<forall>n\<in>set ns. node_fine n)"
  using assms
proof (induction norm project parentID before ids nodes rule: normalize_nodes.induct)
  case (2 norm project parentID before ids n nodes)
  have c: "node_checked before (normalize_node n)" using 2(3) by (simp split: if_splits)
  show ?case
  proof (cases "wn_Type n = Node_task")
    case False
    have "distinct (map wn_ID (before @ [normalize_node n]))" "\<forall>m\<in>set (before @ [normalize_node n]). node_fine m"
      using 2(4,5) c False by (auto simp: node_checked_def node_fine_def normalize_node_def)
    from 2(1) [OF _ _ _ this] c False 2(3) show ?thesis by simp
  next
    case True
    have k: "definition_checked project parentID (wn_TaskDefinitionID n) ids (the (wn_TaskDefinition n))" "source_checked n"
      using 2(3) c True by (simp_all split: if_splits sum.splits)
    then obtain d where d: "norm (bind_definition project parentID (the (wn_TaskDefinition n))) = Inr d"
      using 2(3) c True by (auto split: sum.splits)
    let ?n = "(normalize_node n)\<lparr>wn_TaskDefinitionID := Some (td_ID d), wn_TaskDefinition := Some d\<rparr>"
    have "distinct (map wn_ID (before @ [?n]))" "\<forall>m\<in>set (before @ [?n]). node_fine m"
      using 2(4,5) c True by (auto simp: node_checked_def node_fine_def normalize_node_def)
    from 2(2) [OF _ _ _ d _ _ this] c True k d 2(3) show ?thesis by simp
  qed
qed simp

lemma node_of_id: "node_of nodes i = Some n \<Longrightarrow> n \<in> set nodes \<and> wn_ID n = i"
  by (auto simp: node_of_def find_Some_iff)

lemma node_of_within: "node_of nodes i = Some n \<Longrightarrow> i \<in> node_ids nodes"
  using node_of_id [of nodes i n] by (auto simp: node_ids_def)

lemma edge_checked_within: "edge_checked nodes before e \<Longrightarrow> we_SourceID e \<in> node_ids nodes \<and> we_TargetID e \<in> node_ids nodes"
  by (auto simp: edge_checked_def split: option.splits intro: node_of_within)

lemma normalize_edges_ok:
  assumes "normalize_edges nodes before edges = Inr es" and "edges_within nodes before"
  shows "edges_within nodes es"
  using assms
proof (induction nodes before edges rule: normalize_edges.induct)
  case (2 nodes before e edges)
  have c: "edge_checked nodes before (normalize_edge e)" using 2(2) by (simp split: if_splits)
  then have "edges_within nodes (before @ [normalize_edge e])"
    using 2(3) edge_checked_within [OF c] by (auto simp: edges_within_def)
  from 2(1) [OF _ _ this] c 2(2) show ?case by simp
qed simp

lemma find_in: "find P xs = Some x \<Longrightarrow> x \<in> set xs \<and> P x"
  by (auto simp: find_Some_iff)

lemma count_one: "count_type t nodes = 1 \<Longrightarrow> \<exists>n\<in>set nodes. wn_ID n = type_id t nodes \<and> (\<forall>m\<in>set nodes. wn_Type m = t \<longleftrightarrow> m = n)"
proof -
  assume "count_type t nodes = 1"
  then obtain n where f: "filter (\<lambda>m. wn_Type m = t) nodes = [n]"
    by (metis count_type_def length_0_conv length_Suc_conv One_nat_def)
  then have s: "{m \<in> set nodes. wn_Type m = t} = {n}" by (metis set_filter list.set(1,2))
  have "find (\<lambda>m. wn_Type m = t) (rev nodes) = Some n"
  proof (cases "find (\<lambda>m. wn_Type m = t) (rev nodes)")
    case None
    then show ?thesis using s by (auto simp: find_None_iff)
  next
    case (Some m)
    then have "m \<in> set nodes \<and> wn_Type m = t" using find_in [OF Some] by simp
    then show ?thesis using s Some by auto
  qed
  then show ?thesis using s by (intro bexI [of _ n]) (auto simp: type_id_def)
qed

lemma count_unique:
  assumes "distinct nodes" and "n \<in> set nodes" and "\<forall>m\<in>set nodes. wn_Type m = t \<longleftrightarrow> m = n"
  shows "count_type t nodes = 1"
proof -
  have "set (filter (\<lambda>m. wn_Type m = t) nodes) = {n}" using assms(2,3) by auto
  then show ?thesis using assms(1) by (metis count_type_def distinct_card distinct_filter is_singletonI is_singleton_altdef)
qed

lemma reach_all:
  assumes d: "distinct (map wn_ID nodes)" and w: "edges_within nodes edges" and i: "i \<in> node_ids nodes"
  shows "fcard (workflowV2Reachable i (arrows_of edges)) = length nodes \<longleftrightarrow>
      (\<forall>n\<in>set nodes. (i, wn_ID n) \<in> (set (arrows_of edges))\<^sup>*)" (is ?fwd)
    and "fcard (workflowV2Reachable i (map prod.swap (arrows_of edges))) = length nodes \<longleftrightarrow>
      (\<forall>n\<in>set nodes. (wn_ID n, i) \<in> (set (arrows_of edges))\<^sup>*)" (is ?bwd)
proof -
  let ?E = "set (arrows_of edges)" and ?ids = "node_ids nodes"
  have card: "length nodes = card ?ids" using d by (metis node_ids_def distinct_card length_map set_map)
  have fin: "finite ?ids" by (simp add: node_ids_def)
  have all: "fcard R = length nodes \<longleftrightarrow> ?ids \<subseteq> fset R" if "fset R \<subseteq> ?ids" for R :: "string fset"
    using that fin card card_subset_eq [OF fin that] by (auto simp: fcard.rep_eq)
  have "x \<in> ?ids" if "(i, x) \<in> ?E\<^sup>*" for x
    using that by (induction rule: rtrancl_induct) (use i arrows_within [OF w] in auto)
  then have "fset (workflowV2Reachable i (arrows_of edges)) \<subseteq> ?ids" by (auto simp: reachable_exact)
  from all [OF this] show ?fwd by (auto simp: reachable_exact node_ids_def)
  have conv: "set (map prod.swap (arrows_of edges)) = ?E\<inverse>" by auto
  have "x \<in> ?ids" if "(x, i) \<in> ?E\<^sup>*" for x
    using that by (induction rule: converse_rtrancl_induct) (use i arrows_within [OF w] in auto)
  then have "fset (workflowV2Reachable i (map prod.swap (arrows_of edges))) \<subseteq> ?ids"
    by (auto simp: reachable_exact conv rtrancl_converse simp del: set_map)
  from all [OF this] show ?bwd by (auto simp: reachable_exact conv rtrancl_converse node_ids_def simp del: set_map)
qed

lemma graph_checks_exact:
  assumes d: "distinct (map wn_ID nodes)" and w: "edges_within nodes edges" and fine: "\<forall>n\<in>set nodes. node_fine n"
    and size: "3 \<le> length nodes"
  shows "count_type Node_start nodes = 1 \<and> count_type Node_finish nodes = 1 \<and> count_type Node_task nodes \<noteq> 0 \<and>
      fcard (workflowV2Reachable (type_id Node_start nodes) (arrows_of edges)) = length nodes \<and>
      fcard (workflowV2Reachable (type_id Node_finish nodes) (map prod.swap (arrows_of edges))) = length nodes \<and>
      snd (workflowV2TopologicalOrder nodes edges) \<longleftrightarrow> workflow_graph nodes edges" (is "?checks \<longleftrightarrow> _")
proof -
  have topo: "snd (workflowV2TopologicalOrder nodes edges) \<longleftrightarrow> acyclic (set (arrows_of edges))"
    using workflowV2TopologicalOrder_exact(1) [OF d w, of "fst (workflowV2TopologicalOrder nodes edges)"] by simp
  have dn: "distinct nodes" using d by (simp add: distinct_map)
  show ?thesis
  proof
    assume c: ?checks
    obtain start finish where s: "start \<in> set nodes" "wn_ID start = type_id Node_start nodes" "\<forall>m\<in>set nodes. wn_Type m = Node_start \<longleftrightarrow> m = start"
      and f: "finish \<in> set nodes" "wn_ID finish = type_id Node_finish nodes" "\<forall>m\<in>set nodes. wn_Type m = Node_finish \<longleftrightarrow> m = finish"
      using count_one [of Node_start nodes] count_one [of Node_finish nodes] c by blast
    have "wn_ID start \<in> node_ids nodes" "wn_ID finish \<in> node_ids nodes" using s(1) f(1) by (auto simp: node_ids_def)
    then have "\<forall>n\<in>set nodes. (wn_ID start, wn_ID n) \<in> (set (arrows_of edges))\<^sup>* \<and> (wn_ID n, wn_ID finish) \<in> (set (arrows_of edges))\<^sup>*"
      using reach_all [OF d w] c s(2) f(2) by metis
    then show "workflow_graph nodes edges"
      using d w fine c topo s(1,3) f(1,3) unfolding workflow_graph_def node_fine_def by blast
  next
    assume g: "workflow_graph nodes edges"
    then obtain start finish where s: "start \<in> set nodes" "\<forall>m\<in>set nodes. wn_Type m = Node_start \<longleftrightarrow> m = start"
      and f: "finish \<in> set nodes" "\<forall>m\<in>set nodes. wn_Type m = Node_finish \<longleftrightarrow> m = finish"
      and p: "\<forall>n\<in>set nodes. (wn_ID start, wn_ID n) \<in> (set (arrows_of edges))\<^sup>* \<and> (wn_ID n, wn_ID finish) \<in> (set (arrows_of edges))\<^sup>*"
      unfolding workflow_graph_def by blast
    have one: "count_type Node_start nodes = 1" "count_type Node_finish nodes = 1"
      using count_unique [OF dn] s f by blast+
    have ids: "wn_ID start = type_id Node_start nodes" "wn_ID finish = type_id Node_finish nodes"
      using count_one [OF one(1)] count_one [OF one(2)] s f by metis+
    have "\<exists>n\<in>set nodes. n \<noteq> start \<and> n \<noteq> finish"
    proof (rule ccontr)
      assume "\<not> (\<exists>n\<in>set nodes. n \<noteq> start \<and> n \<noteq> finish)"
      then have "set nodes \<subseteq> {start, finish}" by blast
      then have "card (set nodes) \<le> 2" using card_mono [of "{start, finish}" "set nodes"] card_insert_le_m1 [of 2 "{finish}" start] by simp
      then show False using size distinct_card [OF dn] by simp
    qed
    then obtain n where n: "n \<in> set nodes" "n \<noteq> start" "n \<noteq> finish" by blast
    then have "wn_Type n = Node_task"
      using s(2) f(2) fine by (cases "wn_Type n") (auto simp: node_fine_def)
    then have "count_type Node_task nodes \<noteq> 0" using n(1) by (auto simp: count_type_def filter_empty_conv)
    moreover have "acyclic (set (arrows_of edges))" using g by (simp add: workflow_graph_def)
    moreover have "wn_ID start \<in> node_ids nodes" "wn_ID finish \<in> node_ids nodes" using s(1) f(1) by (auto simp: node_ids_def)
    ultimately show ?checks using one topo reach_all [OF d w] p ids by metis
  qed
qed

lemma normalize_graph_exact:
  assumes "3 \<le> length nodes" "length nodes \<le> maximumWorkflowV2Nodes" "2 \<le> length edges" "length edges \<le> maximumWorkflowV2Edges"
    and ns: "normalize_nodes norm project parentID [] [] nodes = Inr ns" and es: "normalize_edges ns [] edges = Inr es"
  shows "normalize_graph norm project parentID nodes edges =
    (if workflow_graph ns es then Inr (sort_key wn_ID ns, sort_key we_ID es) else Inl errRPCInvalid)"
proof -
  have n: "length ns = length nodes" "distinct (map wn_ID ns)" "\<forall>n\<in>set ns. node_fine n"
    using normalize_nodes_ok [OF ns] by simp_all
  have w: "edges_within ns es" using normalize_edges_ok [OF es] by (simp add: edges_within_def)
  have "3 \<le> length ns" using assms(1) n(1) by simp
  from graph_checks_exact [OF n(2) w n(3) this, symmetric] show ?thesis
    using assms by (auto simp: normalize_graph_def)
qed

end
