(* ===== verification/Workflow_Run.thy ===== *)
theory Workflow_Run
  imports Workflow_Graph
begin

text \<open>
  The execution of workflows, \<open>server/cmd/device-agent/task_workflow_store.go\<close>:
  the start of a run, the tick that the task engine repeats, the retry of a
  node, cancelling. Every call is one transaction under the mutex of the store,
  so it is one step on the tables with an outcome argument.

  A table is a finite map from its primary key. Of \<open>workflow_node_runs\<close> only the
  newest attempt of each node is kept, which is all that is read; the time
  stamps, the change feed and the log of a task are written only. The
  condition of an \<open>UPDATE\<close> repeats what was read in the same transaction, and is
  written out where it says more. \<open>uuid.New\<close> is an argument.
\<close>

subsection \<open>Tables\<close>

datatype taskV2Status =
    Task_queued | Task_waiting | Task_running | Task_awaitingAcceptance | Task_changesRequested
  | Task_completed | Task_failed | Task_blocked | Task_cancelled | Task_succeeded

datatype workflowV2NodeStatus =
    Run_pending | Run_ready | Run_running | Run_succeeded | Run_failed | Run_blocked | Run_cancelled | Run_skipped

record taskV2Record =
  tk_Definition :: taskV2Definition
  tk_Status :: taskV2Status
  tk_Revision :: int
  tk_CurrentRunID :: "string option"
  tk_ExitCode :: "int option"
  tk_ResultCode :: string

record taskV2Run =
  tr_TaskID :: string
  tr_WorkflowRevisionID :: "string option"
  tr_ParentWorkflowTaskRunID :: "string option"
  tr_WorkflowNodeID :: string
  tr_Status :: taskV2Status
  tr_Attempt :: nat
  tr_ExitCode :: "int option"
  tr_ResultCode :: string

record workflowV2NodeRun =
  nr_RevisionID :: string
  nr_ChildTaskRunID :: "string option"
  nr_Status :: workflowV2NodeStatus
  nr_Attempt :: nat

type_synonym node_runs = "(string, workflowV2NodeRun) fmap"

record task_tables =
  tt_tasks :: "(string, taskV2Record) fmap"
  tt_runs :: "(string, taskV2Run) fmap"
  tt_workflow_runs :: "(string, string) fmap"
  tt_node_runs :: "(string, node_runs) fmap"
  tt_revisions :: "(string, workflowV2Revision) fmap"

definition node_runs_of :: "task_tables \<Rightarrow> string \<Rightarrow> node_runs" where
  "node_runs_of db runID = (case fmlookup (tt_node_runs db) runID of Some runs \<Rightarrow> runs | None \<Rightarrow> fmempty)"

definition set_node_runs :: "string \<Rightarrow> node_runs \<Rightarrow> task_tables \<Rightarrow> task_tables" where
  "set_node_runs runID runs db = db\<lparr>tt_node_runs := fmupd runID runs (tt_node_runs db)\<rparr>"

definition set_task :: "string \<Rightarrow> taskV2Record \<Rightarrow> task_tables \<Rightarrow> task_tables" where
  "set_task taskID task db = db\<lparr>tt_tasks := fmupd taskID task (tt_tasks db)\<rparr>"

definition set_task_run :: "string \<Rightarrow> taskV2Run \<Rightarrow> task_tables \<Rightarrow> task_tables" where
  "set_task_run runID run db = db\<lparr>tt_runs := fmupd runID run (tt_runs db)\<rparr>"

text \<open>A loop over a list whose body may return an error.\<close>

fun fold_result :: "('a \<Rightarrow> 's \<Rightarrow> rpc_error + 's) \<Rightarrow> 'a list \<Rightarrow> 's \<Rightarrow> rpc_error + 's" where
  "fold_result f [] s = Inr s"
| "fold_result f (x # xs) s = (case f x s of Inl e \<Rightarrow> Inl e | Inr s' \<Rightarrow> fold_result f xs s')"

subsection \<open>Statuses\<close>

definition workflowV2NodeStatusForTaskStatus :: "taskV2Status \<Rightarrow> workflowV2NodeStatus" where
  "workflowV2NodeStatusForTaskStatus status =
     (case status of
        Task_queued \<Rightarrow> Run_running | Task_waiting \<Rightarrow> Run_running | Task_running \<Rightarrow> Run_running | Task_awaitingAcceptance \<Rightarrow> Run_running
      | Task_changesRequested \<Rightarrow> Run_succeeded | Task_completed \<Rightarrow> Run_succeeded | Task_succeeded \<Rightarrow> Run_succeeded
      | Task_failed \<Rightarrow> Run_failed | Task_blocked \<Rightarrow> Run_blocked | Task_cancelled \<Rightarrow> Run_cancelled)"

definition workflowV2NodeTerminal :: "workflowV2NodeStatus \<Rightarrow> bool" where
  "workflowV2NodeTerminal status \<longleftrightarrow> status \<in> {Run_succeeded, Run_failed, Run_blocked, Run_cancelled, Run_skipped}"

definition node_failure :: "workflowV2NodeStatus \<Rightarrow> bool" where
  "node_failure status \<longleftrightarrow> status \<in> {Run_failed, Run_blocked, Run_cancelled}"

definition workflowV2EdgeMatches :: "workflowV2EdgeType \<Rightarrow> workflowV2NodeStatus \<Rightarrow> bool" where
  "workflowV2EdgeMatches edgeType sourceStatus =
     (if sourceStatus = Run_skipped then False
      else if edgeType = Edge_always then workflowV2NodeTerminal sourceStatus
      else if edgeType = Edge_onSuccess then sourceStatus = Run_succeeded
      else edgeType = Edge_onFailure \<and> node_failure sourceStatus)"

subsection \<open>Reading a revision\<close>

definition stored_node_valid :: "string \<Rightarrow> workflowV2Node \<Rightarrow> bool" where
  "stored_node_valid workflowTaskID n \<longleftrightarrow>
     validWorkflowV2Identifier (wn_ID n) \<and> wn_Type n \<noteq> Node_other \<and> wn_SourceTaskRevision n \<noteq> Some 0 \<and>
     (if wn_Type n = Node_task then
        (case (wn_TaskDefinitionID n, wn_TaskDefinition n) of
           (Some i, Some d) \<Rightarrow> td_ID d = i \<and> td_OwnerWorkflowTaskID d = Some workflowTaskID
         | _ \<Rightarrow> False)
      else wn_TaskDefinitionID n = None \<and> wn_TaskDefinition n = None \<and> wn_SourceTaskID n = None \<and> wn_SourceTaskRevision n = None)"

text \<open>\<open>digest\<close> is \<open>workflowV2GraphDigest\<close>: SHA-256 of the JSON encoding without the digest itself.\<close>

definition hydrateWorkflowV2Revision ::
  "(workflowV2Revision \<Rightarrow> string option) \<Rightarrow> task_tables \<Rightarrow> string \<Rightarrow> rpc_error + workflowV2Revision" where
  "hydrateWorkflowV2Revision digest db revisionID =
     (case fmlookup (tt_revisions db) revisionID of
        None \<Rightarrow> Inl errRPCNotFound
      | Some r \<Rightarrow>
          if wr_ID r \<noteq> revisionID \<or> wr_WorkflowTaskID r = [] \<or> wr_Version r = 0 \<or> unat (wr_MaximumParallelism r) > maximumWorkflowV2Parallelism \<or>
             wr_FailurePolicy r \<notin> {Policy_stopOnFailure, Policy_continueOnFailure} \<or> length (wr_GraphDigest r) \<noteq> 64 \<or>
             \<not> list_all (stored_node_valid (wr_WorkflowTaskID r)) (wr_Nodes r) \<or>
             length (wr_Nodes r) < 3 \<or> length (wr_Nodes r) > maximumWorkflowV2Nodes \<or>
             length (wr_Edges r) < 2 \<or> length (wr_Edges r) > maximumWorkflowV2Edges \<or>
             \<not> snd (workflowV2TopologicalOrder (wr_Nodes r) (wr_Edges r)) \<or>
             digest (r\<lparr>wr_GraphDigest := []\<rparr>) \<noteq> Some (wr_GraphDigest r)
          then Inl errStore else Inr r)"

subsection \<open>The start of a run\<close>

text \<open>\<open>COALESCE(MAX(attempt), -1) + 1\<close>\<close>

definition next_attempt :: "task_tables \<Rightarrow> string \<Rightarrow> nat" where
  "next_attempt db taskID =
     Max (fset (finsert 0 ((\<lambda>i. Suc (tr_Attempt (the (fmlookup (tt_runs db) i)))) |`|
       ffilter (\<lambda>i. tr_TaskID (the (fmlookup (tt_runs db) i)) = taskID) (fmdom (tt_runs db)))))"

definition maximum_attempt :: nat where "maximum_attempt = 2 ^ 32 - 1"

definition first_runs :: "string \<Rightarrow> workflowV2Node list \<Rightarrow> node_runs" where
  "first_runs revisionID nodes =
     fold (\<lambda>n runs. fmupd (wn_ID n)
       \<lparr>nr_RevisionID = revisionID, nr_ChildTaskRunID = None,
        nr_Status = (if wn_Type n = Node_start then Run_succeeded else Run_pending), nr_Attempt = 0\<rparr> runs) nodes fmempty"

text \<open>\<open>policy\<close> is what \<open>requireTaskProjectPolicy\<close> returns.\<close>

definition start_rows ::
  "(workflowV2Revision \<Rightarrow> string option) \<Rightarrow> rpc_error option \<Rightarrow> string \<Rightarrow> task_tables \<Rightarrow> string \<Rightarrow> int \<Rightarrow> rpc_error + task_tables" where
  "start_rows digest policy runID db taskID expectedRevision =
     (case fmlookup (tt_tasks db) taskID of
        None \<Rightarrow> Inl errRPCNotFound
      | Some current \<Rightarrow>
          if tk_Revision current \<noteq> expectedRevision \<or> tk_Status current \<noteq> Task_waiting \<or> \<not> td_workflow (tk_Definition current) \<or>
             tk_CurrentRunID current \<noteq> None
          then Inl errRPCRevision
          else case policy of
            Some e \<Rightarrow> Inl e
          | None \<Rightarrow>
              (case td_revision (tk_Definition current) of
                 None \<Rightarrow> Inl errRPCInvalid
               | Some (revisionID, version) \<Rightarrow>
                   (case hydrateWorkflowV2Revision digest db revisionID of
                      Inl e \<Rightarrow> Inl e
                    | Inr revision \<Rightarrow>
                        if wr_WorkflowTaskID revision \<noteq> taskID \<or> wr_Version revision \<noteq> version then Inl errRPCRevision
                        else if next_attempt db taskID > maximum_attempt then Inl errRPCBusy
                        else if fmlookup (tt_runs db) runID \<noteq> None \<or> fmlookup (tt_workflow_runs db) runID \<noteq> None then Inl errStore
                        else
                          let db = set_task_run runID
                                \<lparr>tr_TaskID = taskID, tr_WorkflowRevisionID = Some revisionID, tr_ParentWorkflowTaskRunID = None,
                                 tr_WorkflowNodeID = [], tr_Status = Task_running, tr_Attempt = next_attempt db taskID,
                                 tr_ExitCode = None, tr_ResultCode = []\<rparr> db;
                              db = db\<lparr>tt_workflow_runs := fmupd runID revisionID (tt_workflow_runs db)\<rparr>;
                              db = set_node_runs runID (first_runs revisionID (wr_Nodes revision)) db
                          in Inr (set_task taskID (current\<lparr>tk_Status := Task_running, tk_Revision := tk_Revision current + 1,
                                tk_CurrentRunID := Some runID, tk_ExitCode := None, tk_ResultCode := []\<rparr>) db))))"

definition StartWorkflowRun ::
  "(workflowV2Revision \<Rightarrow> string option) \<Rightarrow> tx_outcome \<Rightarrow> rpc_error option \<Rightarrow> string \<Rightarrow> task_tables \<Rightarrow> string \<Rightarrow> int \<Rightarrow> instant \<Rightarrow>
   task_tables \<times> (rpc_error + unit)" where
  "StartWorkflowRun digest io policy runID db taskID expectedRevision now =
     (if taskID = [] \<or> expectedRevision = 0 \<or> IsZero now then (db, Inl errRPCInvalid)
      else run_tx io (\<lambda>db. case start_rows digest policy runID db taskID expectedRevision of Inl e \<Rightarrow> Inl e | Inr db' \<Rightarrow> Inr (db', ())) db)"

subsection \<open>The tick\<close>

text \<open>First pass: a node takes the status of the run of its task.\<close>

definition sync_node :: "task_tables \<Rightarrow> string \<Rightarrow> workflowV2Node \<Rightarrow> node_runs \<Rightarrow> rpc_error + node_runs" where
  "sync_node db parentRunID node runs =
     (case fmlookup runs (wn_ID node) of
        None \<Rightarrow> Inr runs
      | Some run \<Rightarrow>
          if wn_Type node \<noteq> Node_task \<or> nr_ChildTaskRunID run = None \<or> workflowV2NodeTerminal (nr_Status run) then Inr runs
          else case fmlookup (tt_runs db) (the (nr_ChildTaskRunID run)) of
            None \<Rightarrow> Inl errStore
          | Some childRun \<Rightarrow>
              if tr_ParentWorkflowTaskRunID childRun \<noteq> Some parentRunID \<or> tr_WorkflowNodeID childRun \<noteq> wn_ID node then Inl errStore
              else Inr (fmupd (wn_ID node) (run\<lparr>nr_Status := workflowV2NodeStatusForTaskStatus (tr_Status childRun)\<rparr>) runs))"

text \<open>Second pass, for the policy \<open>stopOnFailure\<close>: after a failure nothing else starts.\<close>

definition has_failure :: "node_runs \<Rightarrow> bool" where
  "has_failure runs \<longleftrightarrow> fBex (fmdom runs) (\<lambda>i. node_failure (nr_Status (the (fmlookup runs i))))"

definition waiting_run :: "workflowV2NodeRun \<Rightarrow> bool" where
  "waiting_run run \<longleftrightarrow> nr_ChildTaskRunID run = None \<and> nr_Status run \<in> {Run_pending, Run_ready}"

definition block_waiting :: "workflowV2FailurePolicy \<Rightarrow> node_runs \<Rightarrow> node_runs" where
  "block_waiting policy runs =
     (if policy = Policy_stopOnFailure \<and> has_failure runs
      then fmmap (\<lambda>run. if waiting_run run then run\<lparr>nr_Status := Run_blocked\<rparr> else run) runs else runs)"

text \<open>Third pass, in topological order: a node whose sources are all settled becomes ready or is skipped.\<close>

definition source_status :: "node_runs \<Rightarrow> workflowV2Edge \<Rightarrow> workflowV2NodeStatus option" where
  "source_status runs edge = map_option nr_Status (fmlookup runs (we_SourceID edge))"

definition edge_settled :: "node_runs \<Rightarrow> workflowV2Edge \<Rightarrow> bool" where
  "edge_settled runs edge \<longleftrightarrow> (case source_status runs edge of None \<Rightarrow> False | Some status \<Rightarrow> workflowV2NodeTerminal status)"

definition edge_matched :: "node_runs \<Rightarrow> workflowV2Edge \<Rightarrow> bool" where
  "edge_matched runs edge \<longleftrightarrow> (case source_status runs edge of None \<Rightarrow> False | Some status \<Rightarrow> workflowV2EdgeMatches (we_Type edge) status)"

definition incoming :: "workflowV2Edge list \<Rightarrow> string \<Rightarrow> workflowV2Edge list" where
  "incoming edges i = filter (\<lambda>e. we_TargetID e = i) edges"

definition settle_node :: "workflowV2Node list \<Rightarrow> workflowV2Edge list \<Rightarrow> string \<Rightarrow> node_runs \<Rightarrow> node_runs" where
  "settle_node nodes edges nodeID runs =
     (case (node_of nodes nodeID, fmlookup runs nodeID) of
        (Some node, Some run) \<Rightarrow>
          if wn_Type node = Node_start \<or> \<not> waiting_run run \<or> \<not> list_all (edge_settled runs) (incoming edges nodeID) then runs
          else
            let matched = list_ex (edge_matched runs) (incoming edges nodeID)
            in fmupd nodeID (run\<lparr>nr_Status :=
                 (if matched \<and> wn_Type node = Node_finish then Run_succeeded else if matched then Run_ready else Run_skipped)\<rparr>) runs
      | _ \<Rightarrow> runs)"

text \<open>Fourth pass: ready nodes are scheduled while fewer than \<open>limit\<close> nodes run. \<open>fresh\<close> gives the identifier of the new run.\<close>

record schedule_state =
  sc_db :: task_tables
  sc_runs :: node_runs
  sc_active :: nat
  sc_count :: nat

definition schedule_node ::
  "(taskV2Definition \<Rightarrow> bytes option) \<Rightarrow> nat \<Rightarrow> (string \<Rightarrow> string) \<Rightarrow> string \<Rightarrow> taskV2Record \<Rightarrow> string \<Rightarrow> workflowV2Revision \<Rightarrow>
   string \<Rightarrow> schedule_state \<Rightarrow> rpc_error + schedule_state" where
  "schedule_node json limit fresh taskID parent parentRunID revision nodeID s =
     (if sc_active s \<ge> limit then Inr s
      else case (node_of (wr_Nodes revision) nodeID, fmlookup (sc_runs s) nodeID) of
        (Some node, Some run) \<Rightarrow>
          if wn_Type node \<noteq> Node_task \<or> nr_Status run \<noteq> Run_ready \<or> nr_ChildTaskRunID run \<noteq> None \<or>
             wn_TaskDefinitionID node = None \<or> wn_TaskDefinition node = None
          then Inr s
          else
            let db = sc_db s; childID = the (wn_TaskDefinitionID node); childRunID = fresh nodeID
            in (case fmlookup (tt_tasks db) childID of
                  None \<Rightarrow> Inl errStore
                | Some child \<Rightarrow>
                    if td_Scope (tk_Definition child) \<noteq> Scope_workflowNode \<or> td_OwnerWorkflowTaskID (tk_Definition child) \<noteq> Some taskID \<or>
                       td_ProjectID (tk_Definition child) \<noteq> td_ProjectID (tk_Definition parent) \<or>
                       json (tk_Definition child) = None \<or> json (tk_Definition child) \<noteq> json (the (wn_TaskDefinition node)) \<or>
                       tk_Status child \<in> {Task_waiting, Task_running, Task_awaitingAcceptance}
                    then Inl errStore
                    else if next_attempt db childID > maximum_attempt then Inl errRPCBusy
                    else if fmlookup (tt_runs db) childRunID \<noteq> None then Inl errStore
                    else
                      let db' = set_task childID (child\<lparr>tk_Status := Task_waiting, tk_Revision := tk_Revision child + 1,
                                  tk_CurrentRunID := Some childRunID, tk_ExitCode := None, tk_ResultCode := []\<rparr>)
                                (set_task_run childRunID
                                  \<lparr>tr_TaskID = childID, tr_WorkflowRevisionID = Some (wr_ID revision),
                                   tr_ParentWorkflowTaskRunID = Some parentRunID, tr_WorkflowNodeID = nodeID, tr_Status = Task_waiting,
                                   tr_Attempt = next_attempt db childID, tr_ExitCode = None, tr_ResultCode = []\<rparr> db)
                      in Inr \<lparr>sc_db = db',
                           sc_runs = fmupd nodeID (run\<lparr>nr_Status := Run_running, nr_ChildTaskRunID := Some childRunID\<rparr>) (sc_runs s),
                           sc_active = sc_active s + 1, sc_count = sc_count s + 1\<rparr>)
      | _ \<Rightarrow> Inr s)"

definition active_nodes :: "node_runs \<Rightarrow> nat" where
  "active_nodes runs = fcard (ffilter (\<lambda>i. nr_Status (the (fmlookup runs i)) = Run_running) (fmdom runs))"

definition effective_parallelism :: "nat \<Rightarrow> u32 \<Rightarrow> nat" where
  "effective_parallelism parallelLimit maximum =
     (if 0 < maximum \<and> unat maximum < parallelLimit then unat maximum else parallelLimit)"

text \<open>The end: the outcome when all nodes are settled. \<open>changed\<close> says whether a pass updated a node; no pass returns to an earlier status.\<close>

record workflowV2TickResult =
  ti_Task :: taskV2Record
  ti_ScheduledCount :: nat
  ti_Finished :: bool

definition all_terminal :: "workflowV2Node list \<Rightarrow> node_runs \<Rightarrow> bool" where
  "all_terminal nodes runs \<longleftrightarrow>
     list_all (\<lambda>n. case fmlookup runs (wn_ID n) of None \<Rightarrow> False | Some run \<Rightarrow> workflowV2NodeTerminal (nr_Status run)) nodes"

definition some_failure :: "workflowV2Node list \<Rightarrow> node_runs \<Rightarrow> bool" where
  "some_failure nodes runs \<longleftrightarrow>
     list_ex (\<lambda>n. case fmlookup runs (wn_ID n) of None \<Rightarrow> False | Some run \<Rightarrow> node_failure (nr_Status run)) nodes"

definition finish_succeeded :: "workflowV2Node list \<Rightarrow> node_runs \<Rightarrow> bool" where
  "finish_succeeded nodes runs =
     fold (\<lambda>n b. case fmlookup runs (wn_ID n) of
         None \<Rightarrow> b
       | Some run \<Rightarrow> if workflowV2NodeTerminal (nr_Status run) \<and> wn_Type n = Node_finish then nr_Status run = Run_succeeded else b)
       nodes False"

definition outcome :: "workflowV2FailurePolicy \<Rightarrow> workflowV2Node list \<Rightarrow> node_runs \<Rightarrow> taskV2Status \<times> string \<times> int" where
  "outcome policy nodes runs =
     (if some_failure nodes runs \<and> policy = Policy_stopOnFailure then (Task_failed, ''workflow_node_failed'', 1)
      else if \<not> finish_succeeded nodes runs then (Task_failed, ''workflow_path_incomplete'', 1)
      else if some_failure nodes runs then (Task_awaitingAcceptance, ''workflow_completed_with_failures'', 0)
      else (Task_awaitingAcceptance, ''workflow_succeeded'', 0))"

definition conclude ::
  "string \<Rightarrow> taskV2Record \<Rightarrow> string \<Rightarrow> workflowV2Revision \<Rightarrow> bool \<Rightarrow> schedule_state \<Rightarrow> task_tables \<times> workflowV2TickResult" where
  "conclude taskID parent parentRunID revision changed s =
     (let nodes = wr_Nodes revision; runs = sc_runs s; db = set_node_runs parentRunID runs (sc_db s)
      in if all_terminal nodes runs then
           let (status, resultCode, exitCode) = outcome (wr_FailurePolicy revision) nodes runs;
               parent' = parent\<lparr>tk_Status := status, tk_Revision := tk_Revision parent + 1, tk_ExitCode := Some exitCode,
                           tk_ResultCode := resultCode\<rparr>;
               db = set_task taskID parent' db;
               db = (case fmlookup (tt_runs db) parentRunID of
                       None \<Rightarrow> db
                     | Some run \<Rightarrow> set_task_run parentRunID (run\<lparr>tr_Status := status, tr_ExitCode := Some exitCode, tr_ResultCode := resultCode\<rparr>) db)
           in (db, \<lparr>ti_Task = parent', ti_ScheduledCount = sc_count s, ti_Finished = True\<rparr>)
         else if changed then
           let parent' = parent\<lparr>tk_Revision := tk_Revision parent + 1\<rparr>
           in (set_task taskID parent' db, \<lparr>ti_Task = parent', ti_ScheduledCount = sc_count s, ti_Finished = False\<rparr>)
         else (db, \<lparr>ti_Task = parent, ti_ScheduledCount = sc_count s, ti_Finished = False\<rparr>))"

definition tick_passes ::
  "(taskV2Definition \<Rightarrow> bytes option) \<Rightarrow> nat \<Rightarrow> (string \<Rightarrow> string) \<Rightarrow> task_tables \<Rightarrow> string \<Rightarrow> taskV2Record \<Rightarrow> string \<Rightarrow>
   workflowV2Revision \<Rightarrow> rpc_error + task_tables \<times> workflowV2TickResult" where
  "tick_passes json parallelLimit fresh db taskID parent parentRunID revision =
     (let runs = node_runs_of db parentRunID; nodes = wr_Nodes revision; edges = wr_Edges revision
      in case fold_result (sync_node db parentRunID) nodes runs of
           Inl e \<Rightarrow> Inl e
         | Inr synced \<Rightarrow>
             (case workflowV2TopologicalOrder nodes edges of
                (topology, ok) \<Rightarrow>
                  if \<not> ok then Inl errStore
                  else
                    let settled = fold (settle_node nodes edges) topology (block_waiting (wr_FailurePolicy revision) synced)
                    in (case fold_result (schedule_node json (effective_parallelism parallelLimit (wr_MaximumParallelism revision)) fresh
                               taskID parent parentRunID revision) topology
                               \<lparr>sc_db = db, sc_runs = settled, sc_active = active_nodes settled, sc_count = 0\<rparr> of
                          Inl e \<Rightarrow> Inl e
                        | Inr s \<Rightarrow> Inr (conclude taskID parent parentRunID revision (sc_runs s \<noteq> runs) s))))"

definition nothing_to_tick :: "taskV2Record \<Rightarrow> bool" where
  "nothing_to_tick parent \<longleftrightarrow> \<not> td_workflow (tk_Definition parent) \<or> tk_Status parent \<noteq> Task_running \<or> tk_CurrentRunID parent = None"

definition tick_rows ::
  "(workflowV2Revision \<Rightarrow> string option) \<Rightarrow> (taskV2Definition \<Rightarrow> bytes option) \<Rightarrow> nat \<Rightarrow> (string \<Rightarrow> string) \<Rightarrow> task_tables \<Rightarrow> string \<Rightarrow>
   rpc_error + task_tables \<times> workflowV2TickResult" where
  "tick_rows digest json parallelLimit fresh db taskID =
     (case fmlookup (tt_tasks db) taskID of
        None \<Rightarrow> Inl errRPCNotFound
      | Some parent \<Rightarrow>
          if nothing_to_tick parent
          then Inr (db, \<lparr>ti_Task = parent, ti_ScheduledCount = 0, ti_Finished = False\<rparr>)
          else
            let parentRunID = the (tk_CurrentRunID parent)
            in (case fmlookup (tt_runs db) parentRunID of
                  None \<Rightarrow> Inl errStore
                | Some parentRun \<Rightarrow>
                    if tr_TaskID parentRun \<noteq> taskID \<or> tr_Status parentRun \<noteq> Task_running \<or> tr_WorkflowRevisionID parentRun = None \<or>
                       fmlookup (tt_workflow_runs db) parentRunID \<noteq> tr_WorkflowRevisionID parentRun
                    then Inl errStore
                    else
                      let pinned = the (tr_WorkflowRevisionID parentRun); runs = node_runs_of db parentRunID
                      in (case hydrateWorkflowV2Revision digest db pinned of
                            Inl e \<Rightarrow> Inl errStore
                          | Inr revision \<Rightarrow>
                              if wr_WorkflowTaskID revision \<noteq> taskID \<or> fmlen runs \<noteq> length (wr_Nodes revision) \<or>
                                 fBex (fmdom runs) (\<lambda>i. nr_RevisionID (the (fmlookup runs i)) \<noteq> pinned)
                              then Inl errStore
                              else tick_passes json parallelLimit fresh db taskID parent parentRunID revision)))"

text \<open>A call that has nothing to do returns before the commit.\<close>

definition TickWorkflow ::
  "(workflowV2Revision \<Rightarrow> string option) \<Rightarrow> (taskV2Definition \<Rightarrow> bytes option) \<Rightarrow> tx_outcome \<Rightarrow> (string \<Rightarrow> string) \<Rightarrow> task_tables \<Rightarrow>
   string \<Rightarrow> nat \<Rightarrow> instant \<Rightarrow> task_tables \<times> (rpc_error + workflowV2TickResult)" where
  "TickWorkflow digest json io fresh db taskID parallelLimit now =
     (if taskID = [] \<or> parallelLimit < 1 \<or> IsZero now then (db, Inl errRPCInvalid)
      else
        let idle = (case fmlookup (tt_tasks db) taskID of None \<Rightarrow> False | Some parent \<Rightarrow> nothing_to_tick parent)
        in run_tx (if idle \<and> io = tx_unclear then tx_applied else io) (\<lambda>db. tick_rows digest json parallelLimit fresh db taskID) db)"

subsection \<open>The retry of a node\<close>

record workflowV2NodeRetryResult =
  re_Task :: taskV2Record
  re_TaskRun :: taskV2Run
  re_NodeRun :: workflowV2NodeRun
  re_Resumed :: bool

definition failed_child :: "workflowV2NodeRun \<Rightarrow> bool" where
  "failed_child run \<longleftrightarrow> nr_ChildTaskRunID run \<noteq> None \<and> nr_Status run \<in> {Run_failed, Run_blocked}"

definition other_failures :: "string \<Rightarrow> node_runs \<Rightarrow> bool" where
  "other_failures nodeID runs \<longleftrightarrow> fBex (fmdom runs) (\<lambda>i. i \<noteq> nodeID \<and> failed_child (the (fmlookup runs i)))"

definition unblock :: "workflowV2NodeRun \<Rightarrow> workflowV2NodeRun" where
  "unblock run = (if nr_ChildTaskRunID run = None \<and> nr_Status run = Run_blocked then run\<lparr>nr_Status := Run_pending\<rparr> else run)"

text \<open>The tasks and runs go on only when this was the last failure.\<close>

definition retry_node ::
  "task_tables \<Rightarrow> string \<Rightarrow> taskV2Record \<Rightarrow> string \<Rightarrow> taskV2Run \<Rightarrow> string \<Rightarrow> string \<Rightarrow> workflowV2NodeRun \<Rightarrow>
   task_tables \<times> workflowV2NodeRetryResult" where
  "retry_node db taskID parent parentRunID parentRun revisionID nodeID target =
     (let runs = node_runs_of db parentRunID;
          retried = \<lparr>nr_RevisionID = revisionID, nr_ChildTaskRunID = None, nr_Status = Run_pending, nr_Attempt = nr_Attempt target + 1\<rparr>;
          runs' = fmupd nodeID retried runs
      in if other_failures nodeID runs then
           let parent' = parent\<lparr>tk_Revision := tk_Revision parent + 1\<rparr>
           in (set_task taskID parent' (set_node_runs parentRunID runs' db),
               \<lparr>re_Task = parent', re_TaskRun = parentRun, re_NodeRun = retried, re_Resumed = False\<rparr>)
         else
           let parent' = parent\<lparr>tk_Status := Task_running, tk_Revision := tk_Revision parent + 1, tk_ExitCode := None, tk_ResultCode := []\<rparr>;
               parentRun' = parentRun\<lparr>tr_Status := Task_running, tr_ExitCode := None, tr_ResultCode := []\<rparr>
           in (set_task_run parentRunID parentRun' (set_task taskID parent' (set_node_runs parentRunID (fmmap unblock runs') db)),
               \<lparr>re_Task = parent', re_TaskRun = parentRun', re_NodeRun = retried, re_Resumed = True\<rparr>))"

definition retry_rows ::
  "(workflowV2Revision \<Rightarrow> string option) \<Rightarrow> rpc_error option \<Rightarrow> task_tables \<Rightarrow> string \<Rightarrow> int \<Rightarrow> string \<Rightarrow>
   rpc_error + task_tables \<times> workflowV2NodeRetryResult" where
  "retry_rows digest policy db taskID expectedRevision nodeID =
     (case fmlookup (tt_tasks db) taskID of
        None \<Rightarrow> Inl errRPCNotFound
      | Some parent \<Rightarrow>
          if tk_Revision parent \<noteq> expectedRevision \<or> \<not> td_workflow (tk_Definition parent) \<or> tk_Status parent \<noteq> Task_failed \<or>
             tk_CurrentRunID parent = None
          then Inl errRPCRevision
          else case policy of
            Some e \<Rightarrow> Inl e
          | None \<Rightarrow>
              let parentRunID = the (tk_CurrentRunID parent)
              in (case fmlookup (tt_runs db) parentRunID of
                    None \<Rightarrow> Inl errRPCRevision
                  | Some parentRun \<Rightarrow>
                      if tr_TaskID parentRun \<noteq> taskID \<or> tr_Status parentRun \<noteq> Task_failed \<or> tr_WorkflowRevisionID parentRun = None
                      then Inl errRPCRevision
                      else
                        let revisionID = the (tr_WorkflowRevisionID parentRun); runs = node_runs_of db parentRunID
                        in (case hydrateWorkflowV2Revision digest db revisionID of
                              Inl e \<Rightarrow> Inl e
                            | Inr revision \<Rightarrow>
                                if wr_WorkflowTaskID revision \<noteq> taskID then Inl errRPCRevision
                                else if map_option wn_Type (node_of (wr_Nodes revision) nodeID) \<noteq> Some Node_task
                                then Inl errRPCInvalid
                                else if fmlen runs \<noteq> length (wr_Nodes revision) then Inl errRPCRevision
                                else (case fmlookup runs nodeID of
                                        None \<Rightarrow> Inl errRPCRevision
                                      | Some target \<Rightarrow>
                                          if \<not> failed_child target \<or> nr_Attempt target = maximum_attempt then Inl errRPCRevision
                                          else Inr (retry_node db taskID parent parentRunID parentRun revisionID nodeID target)))))"

definition RetryWorkflowNode ::
  "(workflowV2Revision \<Rightarrow> string option) \<Rightarrow> tx_outcome \<Rightarrow> rpc_error option \<Rightarrow> task_tables \<Rightarrow> string \<Rightarrow> int \<Rightarrow> string \<Rightarrow> instant \<Rightarrow>
   task_tables \<times> (rpc_error + workflowV2NodeRetryResult)" where
  "RetryWorkflowNode digest io policy db taskID expectedRevision nodeID now =
     (if taskID = [] \<or> expectedRevision = 0 \<or> \<not> validWorkflowV2Identifier nodeID \<or> IsZero now then (db, Inl errRPCInvalid)
      else run_tx io (\<lambda>db. retry_rows digest policy db taskID expectedRevision nodeID) db)"

subsection \<open>Cancelling\<close>

definition task_not_begun :: "taskV2Status \<Rightarrow> bool" where
  "task_not_begun status \<longleftrightarrow> status \<in> {Task_queued, Task_waiting, Task_awaitingAcceptance}"

record cancel_state =
  ca_db :: task_tables
  ca_runs :: node_runs
  ca_RunningChildren :: "taskV2Record list"

definition cancel_child ::
  "string \<Rightarrow> string \<Rightarrow> workflowV2NodeRun \<Rightarrow> string \<Rightarrow> cancel_state \<Rightarrow> rpc_error + cancel_state" where
  "cancel_child parentRunID nodeID run childRunID s =
     (let db = ca_db s; settle = (\<lambda>status. fmupd nodeID (run\<lparr>nr_Status := status\<rparr>) (ca_runs s))
      in case fmlookup (tt_runs db) childRunID of
           None \<Rightarrow> Inl errRPCRevision
         | Some childRun \<Rightarrow>
             if tr_ParentWorkflowTaskRunID childRun \<noteq> Some parentRunID then Inl errRPCRevision
             else (case fmlookup (tt_tasks db) (tr_TaskID childRun) of
                     None \<Rightarrow> Inl errRPCRevision
                   | Some child \<Rightarrow>
                       if tk_CurrentRunID child \<noteq> Some childRunID then Inl errRPCRevision
                       else if tr_Status childRun = Task_running \<and> tk_Status child = Task_running
                       then Inr (s\<lparr>ca_RunningChildren := ca_RunningChildren s @ [child]\<rparr>)
                       else if task_not_begun (tr_Status childRun) \<or> task_not_begun (tk_Status child) then
                         if \<not> task_not_begun (tk_Status child) \<or> \<not> task_not_begun (tr_Status childRun) then Inl errRPCRevision
                         else Inr (s\<lparr>ca_db :=
                             set_task_run childRunID (childRun\<lparr>tr_Status := Task_cancelled, tr_ExitCode := None, tr_ResultCode := ''cancelled''\<rparr>)
                             (set_task (tr_TaskID childRun) (child\<lparr>tk_Status := Task_cancelled, tk_Revision := tk_Revision child + 1,
                                tk_ExitCode := None, tk_ResultCode := ''cancelled''\<rparr>) db),
                           ca_runs := settle Run_cancelled\<rparr>)
                       else
                         let status = workflowV2NodeStatusForTaskStatus (tr_Status childRun)
                         in Inr (s\<lparr>ca_runs := settle (if workflowV2NodeTerminal status then status else Run_cancelled)\<rparr>)))"

definition cancel_node :: "string \<Rightarrow> string \<Rightarrow> cancel_state \<Rightarrow> rpc_error + cancel_state" where
  "cancel_node parentRunID nodeID s =
     (case fmlookup (ca_runs s) nodeID of
        None \<Rightarrow> Inr s
      | Some run \<Rightarrow>
          if workflowV2NodeTerminal (nr_Status run) then Inr s
          else case nr_ChildTaskRunID run of
            None \<Rightarrow> Inr (s\<lparr>ca_runs := fmupd nodeID (run\<lparr>nr_Status := Run_cancelled\<rparr>) (ca_runs s)\<rparr>)
          | Some childRunID \<Rightarrow> cancel_child parentRunID nodeID run childRunID s)"

text \<open>The rows of the parent are as they were read: a child that has the parent's current run is running.\<close>

definition cancel_rows ::
  "rpc_error option \<Rightarrow> task_tables \<Rightarrow> string \<Rightarrow> int \<Rightarrow> rpc_error + task_tables \<times> taskV2Record \<times> taskV2Record list" where
  "cancel_rows policy db taskID expectedRevision =
     (case fmlookup (tt_tasks db) taskID of
        None \<Rightarrow> Inl errRPCNotFound
      | Some parent \<Rightarrow>
          if tk_Revision parent \<noteq> expectedRevision \<or> \<not> td_workflow (tk_Definition parent) \<or> tk_Status parent \<noteq> Task_running \<or>
             tk_CurrentRunID parent = None
          then Inl errRPCRevision
          else case policy of
            Some e \<Rightarrow> Inl e
          | None \<Rightarrow>
              let parentRunID = the (tk_CurrentRunID parent)
              in (case fmlookup (tt_runs db) parentRunID of
                    None \<Rightarrow> Inl errRPCRevision
                  | Some parentRun \<Rightarrow>
                      if tr_TaskID parentRun \<noteq> taskID \<or> tr_Status parentRun \<noteq> Task_running \<or> tr_WorkflowRevisionID parentRun = None
                      then Inl errRPCRevision
                      else
                        let runs = node_runs_of db parentRunID
                        in (case fold_result (cancel_node parentRunID) (sorted_list_of_fset (fmdom runs))
                                   \<lparr>ca_db = db, ca_runs = runs, ca_RunningChildren = []\<rparr> of
                              Inl e \<Rightarrow> Inl e
                            | Inr s \<Rightarrow>
                                let parent' = parent\<lparr>tk_Status := Task_cancelled, tk_Revision := tk_Revision parent + 1,
                                      tk_ExitCode := None, tk_ResultCode := ''cancelled''\<rparr>
                                in Inr (set_task_run parentRunID
                                          (parentRun\<lparr>tr_Status := Task_cancelled, tr_ExitCode := None, tr_ResultCode := ''cancelled''\<rparr>)
                                          (set_task taskID parent' (set_node_runs parentRunID (ca_runs s) (ca_db s))),
                                        parent', ca_RunningChildren s))))"

definition CancelWorkflow ::
  "tx_outcome \<Rightarrow> rpc_error option \<Rightarrow> task_tables \<Rightarrow> string \<Rightarrow> int \<Rightarrow> instant \<Rightarrow>
   task_tables \<times> (rpc_error + taskV2Record \<times> taskV2Record list)" where
  "CancelWorkflow io policy db taskID expectedRevision now =
     (if taskID = [] \<or> expectedRevision = 0 \<or> IsZero now then (db, Inl errRPCInvalid)
      else run_tx io (\<lambda>db. cancel_rows policy db taskID expectedRevision) db)"

text \<open>The nodes whose tasks were running when the workflow was cancelled take the status of their runs later.\<close>

definition finalize_run :: "task_tables \<Rightarrow> workflowV2NodeRun \<Rightarrow> workflowV2NodeRun" where
  "finalize_run db run =
     (if workflowV2NodeTerminal (nr_Status run) then run
      else case nr_ChildTaskRunID run of
        None \<Rightarrow> run\<lparr>nr_Status := Run_cancelled\<rparr>
      | Some childRunID \<Rightarrow>
          (case fmlookup (tt_runs db) childRunID of
             None \<Rightarrow> run\<lparr>nr_Status := Run_cancelled\<rparr>
           | Some childRun \<Rightarrow>
               let status = workflowV2NodeStatusForTaskStatus (tr_Status childRun)
               in if workflowV2NodeTerminal status then run\<lparr>nr_Status := status\<rparr> else run))"

definition finalize_rows :: "task_tables \<Rightarrow> string \<Rightarrow> int \<Rightarrow> rpc_error + task_tables \<times> taskV2Record" where
  "finalize_rows db taskID expectedRevision =
     (case fmlookup (tt_tasks db) taskID of
        None \<Rightarrow> Inl errRPCNotFound
      | Some parent \<Rightarrow>
          if tk_Revision parent \<noteq> expectedRevision \<or> \<not> td_workflow (tk_Definition parent) \<or> tk_Status parent \<noteq> Task_cancelled \<or>
             tk_CurrentRunID parent = None
          then Inl errRPCRevision
          else
            let parentRunID = the (tk_CurrentRunID parent); runs = node_runs_of db parentRunID; runs' = fmmap (finalize_run db) runs
            in if runs' = runs then Inr (db, parent)
               else
                 let parent' = parent\<lparr>tk_Revision := tk_Revision parent + 1\<rparr>
                 in Inr (set_task taskID parent' (set_node_runs parentRunID runs' db), parent'))"

definition FinalizeCancelledWorkflow ::
  "tx_outcome \<Rightarrow> task_tables \<Rightarrow> string \<Rightarrow> int \<Rightarrow> instant \<Rightarrow> task_tables \<times> (rpc_error + taskV2Record)" where
  "FinalizeCancelledWorkflow io db taskID expectedRevision now =
     (if taskID = [] \<or> expectedRevision = 0 \<or> IsZero now then (db, Inl errRPCInvalid)
      else run_tx io (\<lambda>db. finalize_rows db taskID expectedRevision) db)"

end
