(* ===== verification/Workflow_Progress.thy ===== *)
theory Workflow_Progress
  imports Workflow_Run
begin

text \<open>
  The rows of a workflow run stay consistent, a workflow never gets stuck, and
  what a tick starts may start: the steps of the tables of
  \<open>Workflow_Run\<close>, an invariant of the reachable tables, and the
  properties of the four passes of a tick.
\<close>

subsection \<open>Consistent rows\<close>

text \<open>
  A row of a node. Only task nodes get ready or have a run of their own, a row
  without such a run is not running, and a row is ready only when every source is settled
  and an edge matches.
\<close>

definition node_ok ::
  "workflowV2Node list \<Rightarrow> workflowV2Edge list \<Rightarrow> (string, taskV2Run) fmap \<Rightarrow> string \<Rightarrow> node_runs \<Rightarrow> string \<Rightarrow> workflowV2NodeRun \<Rightarrow> bool" where
  "node_ok nodes edges rows p runs i run \<longleftrightarrow>
     (case node_of nodes i of
        None \<Rightarrow> False
      | Some n \<Rightarrow> (wn_Type n = Node_start \<longrightarrow> nr_Status run = Run_succeeded) \<and>
                  (wn_Type n \<noteq> Node_task \<longrightarrow> nr_ChildTaskRunID run = None \<and> nr_Status run \<noteq> Run_ready)) \<and>
     (case nr_ChildTaskRunID run of
        None \<Rightarrow> nr_Status run \<noteq> Run_running
      | Some c \<Rightarrow> nr_Status run \<notin> {Run_pending, Run_ready} \<and>
          (case fmlookup rows c of
             None \<Rightarrow> False
           | Some row \<Rightarrow> tr_ParentWorkflowTaskRunID row = Some p \<and> tr_WorkflowNodeID row = i)) \<and>
     (nr_Status run = Run_ready \<longrightarrow>
        list_all (edge_settled runs) (incoming edges i) \<and> list_ex (edge_matched runs) (incoming edges i))"

definition runs_ok ::
  "string \<Rightarrow> workflowV2Node list \<Rightarrow> workflowV2Edge list \<Rightarrow> (string, taskV2Run) fmap \<Rightarrow> string \<Rightarrow> node_runs \<Rightarrow> bool" where
  "runs_ok rid nodes edges rows p runs \<longleftrightarrow>
     fset (fmdom runs) = node_ids nodes \<and>
     (\<forall>i run. fmlookup runs i = Some run \<longrightarrow> nr_RevisionID run = rid \<and> node_ok nodes edges rows p runs i run)"

text \<open>Work left: a row that has not begun counts two, a running one counts one.\<close>

definition work_left :: "workflowV2NodeRun \<Rightarrow> nat" where
  "work_left run = (if workflowV2NodeTerminal (nr_Status run) then 0 else if nr_Status run = Run_running then 1 else 2)"

definition open_work :: "node_runs \<Rightarrow> nat" where
  "open_work runs = (\<Sum>i\<in>fset (fmdom runs). work_left (the (fmlookup runs i)))"

text \<open>How a pass may change a row, and all rows.\<close>

definition advanced :: "workflowV2NodeRun \<Rightarrow> workflowV2NodeRun \<Rightarrow> bool" where
  "advanced run run' \<longleftrightarrow>
     nr_RevisionID run' = nr_RevisionID run \<and> nr_Attempt run' = nr_Attempt run \<and>
     (workflowV2NodeTerminal (nr_Status run) \<longrightarrow> run' = run) \<and>
     (nr_ChildTaskRunID run \<noteq> None \<longrightarrow> nr_ChildTaskRunID run' = nr_ChildTaskRunID run) \<and> work_left run' \<le> work_left run"

definition progressed :: "node_runs \<Rightarrow> node_runs \<Rightarrow> bool" where
  "progressed runs runs' \<longleftrightarrow> fmdom runs' = fmdom runs \<and>
     (\<forall>i run run'. fmlookup runs i = Some run \<longrightarrow> fmlookup runs' i = Some run' \<longrightarrow> advanced run run')"

lemma advanced_refl [simp]: "advanced run run"
  by (simp add: advanced_def)

lemma advanced_trans: "advanced a b \<Longrightarrow> advanced b c \<Longrightarrow> advanced a c"
  by (auto simp: advanced_def)

lemma progressed_refl [simp]: "progressed runs runs"
  by (simp add: progressed_def)

lemma progressed_lookup:
  assumes "progressed runs runs'" and "fmlookup runs i = Some run"
  obtains run' where "fmlookup runs' i = Some run'" "advanced run run'"
  using assms by (metis progressed_def fmdomI fmdomE)

lemma progressed_trans:
  assumes ab: "progressed a b" and bc: "progressed b c"
  shows "progressed a c"
  unfolding progressed_def
proof (intro conjI allI impI)
  show "fmdom c = fmdom a" using ab bc by (simp add: progressed_def)
  fix i x z assume x: "fmlookup a i = Some x" and z: "fmlookup c i = Some z"
  obtain y where y: "fmlookup b i = Some y" "advanced x y" by (rule progressed_lookup [OF ab x])
  obtain z' where "fmlookup c i = Some z'" "advanced y z'" by (rule progressed_lookup [OF bc y(1)])
  with z y(2) show "advanced x z" by (auto intro: advanced_trans)
qed

lemma progressed_upd: "fmlookup runs i = Some run \<Longrightarrow> advanced run run' \<Longrightarrow> progressed runs (fmupd i run' runs)"
  by (auto simp: progressed_def fmdomI)

lemma progressed_fmmap: "(\<And>run. advanced run (f run)) \<Longrightarrow> progressed runs (fmmap f runs)"
  by (auto simp: progressed_def)

lemma progressed_settled:
  assumes "progressed runs runs'" and "edge_settled runs e"
  shows "source_status runs' e = source_status runs e" and "edge_settled runs' e" and "edge_matched runs' e = edge_matched runs e"
proof -
  obtain run where r: "fmlookup runs (we_SourceID e) = Some run" "workflowV2NodeTerminal (nr_Status run)"
    using assms(2) by (auto simp: edge_settled_def source_status_def split: option.splits)
  obtain run' where r': "fmlookup runs' (we_SourceID e) = Some run'" "advanced run run'"
    by (rule progressed_lookup [OF assms(1) r(1)])
  then have "run' = run" using r(2) by (simp add: advanced_def)
  with r r' show s: "source_status runs' e = source_status runs e" by (simp add: source_status_def)
  from s assms(2) show "edge_settled runs' e" "edge_matched runs' e = edge_matched runs e"
    by (simp_all add: edge_settled_def edge_matched_def)
qed

lemma progressed_settled_all:
  assumes "progressed runs runs'" and "list_all (edge_settled runs) es"
  shows "list_all (edge_settled runs') es" and "list_ex (edge_matched runs') es = list_ex (edge_matched runs) es"
  using assms progressed_settled by (auto simp: list_all_iff list_ex_iff)

text \<open>Rows of runs of tasks are kept, only what is read of them here.\<close>

definition row_kept :: "taskV2Run \<Rightarrow> taskV2Run \<Rightarrow> bool" where
  "row_kept row row' \<longleftrightarrow>
     tr_TaskID row' = tr_TaskID row \<and> tr_WorkflowRevisionID row' = tr_WorkflowRevisionID row \<and>
     tr_ParentWorkflowTaskRunID row' = tr_ParentWorkflowTaskRunID row \<and> tr_WorkflowNodeID row' = tr_WorkflowNodeID row"

definition rows_kept :: "(string, taskV2Run) fmap \<Rightarrow> (string, taskV2Run) fmap \<Rightarrow> bool" where
  "rows_kept rows rows' \<longleftrightarrow> (\<forall>c row. fmlookup rows c = Some row \<longrightarrow> (\<exists>row'. fmlookup rows' c = Some row' \<and> row_kept row row'))"

lemma rows_kept_refl [simp]: "rows_kept rows rows"
  by (simp add: rows_kept_def row_kept_def)

lemma rows_kept_trans: "rows_kept a b \<Longrightarrow> rows_kept b c \<Longrightarrow> rows_kept a c"
  by (fastforce simp: rows_kept_def row_kept_def)

lemma rows_kept_new: "fmlookup rows c = None \<Longrightarrow> rows_kept rows (fmupd c row rows)"
  by (auto simp: rows_kept_def row_kept_def)

lemma rows_kept_upd: "fmlookup rows c = Some row \<Longrightarrow> row_kept row row' \<Longrightarrow> rows_kept rows (fmupd c row' rows)"
  by (auto simp: rows_kept_def row_kept_def)

lemma node_ok_mono:
  assumes "node_ok nodes edges rows p runs i run" and "rows_kept rows rows'" and "progressed runs runs'"
  shows "node_ok nodes edges rows' p runs' i run"
proof -
  have "list_all (edge_settled runs') (incoming edges i) \<and> list_ex (edge_matched runs') (incoming edges i)"
    if "nr_Status run = Run_ready"
    using that assms(1) progressed_settled_all [OF assms(3)] by (simp add: node_ok_def)
  moreover have "\<exists>row. fmlookup rows' c = Some row \<and> tr_ParentWorkflowTaskRunID row = Some p \<and> tr_WorkflowNodeID row = i"
    if c: "nr_ChildTaskRunID run = Some c" for c
  proof -
    obtain row where "fmlookup rows c = Some row" "tr_ParentWorkflowTaskRunID row = Some p" "tr_WorkflowNodeID row = i"
      using assms(1) c by (auto simp: node_ok_def split: option.splits)
    then show ?thesis using assms(2) unfolding rows_kept_def row_kept_def by metis
  qed
  ultimately show ?thesis using assms(1) unfolding node_ok_def by (auto split: option.splits)
qed

lemma node_ok_child:
  assumes "node_ok nodes edges rows p runs i run" and "nr_ChildTaskRunID run = Some c"
  obtains row where "nr_Status run \<notin> {Run_pending, Run_ready}" "fmlookup rows c = Some row"
    "tr_ParentWorkflowTaskRunID row = Some p" "tr_WorkflowNodeID row = i"
  using assms by (cases "fmlookup rows c") (simp_all add: node_ok_def)

lemma node_ok_node:
  assumes "node_ok nodes edges rows p runs i run"
  obtains n where "node_of nodes i = Some n" "n \<in> set nodes" "wn_ID n = i" "wn_Type n = Node_start \<Longrightarrow> nr_Status run = Run_succeeded"
    "wn_Type n \<noteq> Node_task \<Longrightarrow> nr_ChildTaskRunID run = None \<and> nr_Status run \<noteq> Run_ready"
proof (cases "node_of nodes i")
  case None
  with assms show thesis by (simp add: node_ok_def)
next
  case (Some n)
  with assms node_of_id [OF Some] that show thesis by (simp add: node_ok_def)
qed

lemma node_ok_running: "node_ok nodes edges rows p runs i run \<Longrightarrow> nr_Status run = Run_running \<Longrightarrow> nr_ChildTaskRunID run \<noteq> None"
  by (cases "nr_ChildTaskRunID run") (simp_all add: node_ok_def)

lemma runs_ok_node: "runs_ok rid nodes edges rows p runs \<Longrightarrow> fmlookup runs i = Some run \<Longrightarrow> node_ok nodes edges rows p runs i run"
  by (simp add: runs_ok_def)

lemma runs_ok_rows: "runs_ok rid nodes edges rows p runs \<Longrightarrow> rows_kept rows rows' \<Longrightarrow> runs_ok rid nodes edges rows' p runs"
  unfolding runs_ok_def using node_ok_mono [OF _ _ progressed_refl] by blast

lemma runs_ok_upd:
  assumes ok: "runs_ok rid nodes edges rows p runs" and r: "fmlookup runs i = Some run" and a: "advanced run run'"
    and new: "node_ok nodes edges rows p (fmupd i run' runs) i run'"
  shows "runs_ok rid nodes edges rows p (fmupd i run' runs)"
  unfolding runs_ok_def
proof (intro conjI allI impI)
  show "fset (fmdom (fmupd i run' runs)) = node_ids nodes" using ok r by (auto simp: runs_ok_def fmdomI)
  fix k x assume k: "fmlookup (fmupd i run' runs) k = Some x"
  show "nr_RevisionID x = rid" using k ok r a by (auto simp: runs_ok_def advanced_def split: if_splits)
  show "node_ok nodes edges rows p (fmupd i run' runs) k x"
  proof (cases "k = i")
    case True
    with k new show ?thesis by simp
  next
    case False
    with k ok have "node_ok nodes edges rows p runs k x" by (simp add: runs_ok_def)
    then show ?thesis by (rule node_ok_mono [OF _ rows_kept_refl progressed_upd [OF r a]])
  qed
qed

subsection \<open>The passes of a tick\<close>

lemma fold_result_inv:
  assumes "fold_result f xs s = Inr s'" and "P s" and "\<And>x s s'. x \<in> set xs \<Longrightarrow> P s \<Longrightarrow> f x s = Inr s' \<Longrightarrow> P s'"
  shows "P s'"
  using assms
proof (induction xs arbitrary: s)
  case (Cons x xs)
  then obtain s1 where s1: "f x s = Inr s1" "fold_result f xs s1 = Inr s'" by (auto split: sum.splits)
  have "P s1" by (rule Cons.prems(3) [OF _ Cons.prems(2) s1(1)]) simp
  then show ?case by (rule Cons.IH [OF s1(2)]) (use Cons.prems(3) in \<open>meson list.set_intros(2)\<close>)
qed simp

lemma fold_result_each:
  assumes "fold_result f xs s = Inr s'" and "P s" and "\<And>x s s'. x \<in> set xs \<Longrightarrow> P s \<Longrightarrow> f x s = Inr s' \<Longrightarrow> P s'"
    and "\<And>x s s'. x \<in> set xs \<Longrightarrow> P s \<Longrightarrow> f x s = Inr s' \<Longrightarrow> Q x s'"
    and "\<And>x y s s'. x \<in> set xs \<Longrightarrow> P s \<Longrightarrow> f x s = Inr s' \<Longrightarrow> Q y s \<Longrightarrow> Q y s'"
  shows "\<forall>x\<in>set xs. Q x s'"
  using assms
proof (induction xs arbitrary: s)
  case (Cons x xs)
  then obtain s1 where s1: "f x s = Inr s1" "fold_result f xs s1 = Inr s'" by (auto split: sum.splits)
  have p1: "P s1" and q1: "Q x s1" using Cons.prems(2-4) s1(1) by auto
  have "Q x s' \<and> P s'"
  proof (rule fold_result_inv [OF s1(2), where P = "\<lambda>s. Q x s \<and> P s"])
    fix z a b assume z: "z \<in> set xs" "Q x a \<and> P a" "f z a = Inr b"
    then have "z \<in> set (x # xs)" by simp
    then show "Q x b \<and> P b" using Cons.prems(3,5) z(2,3) by meson
  qed (use p1 q1 in simp)
  moreover have "\<forall>y\<in>set xs. Q y s'"
    by (rule Cons.IH [OF s1(2) p1]) (use Cons.prems(3-5) in \<open>meson list.set_intros(2)\<close>)+
  ultimately show ?case by simp
qed simp

text \<open>The child run of a row is unfinished.\<close>

definition child_unfinished :: "(string, taskV2Run) fmap \<Rightarrow> workflowV2NodeRun \<Rightarrow> bool" where
  "child_unfinished rows run \<longleftrightarrow>
     (case nr_ChildTaskRunID run of None \<Rightarrow> False
      | Some c \<Rightarrow> (case fmlookup rows c of None \<Rightarrow> False | Some row \<Rightarrow> workflowV2NodeStatusForTaskStatus (tr_Status row) = Run_running))"

definition running_backed :: "(string, taskV2Run) fmap \<Rightarrow> node_runs \<Rightarrow> bool" where
  "running_backed rows runs \<longleftrightarrow> (\<forall>i run. fmlookup runs i = Some run \<longrightarrow> nr_Status run = Run_running \<longrightarrow> child_unfinished rows run)"

lemma projected_status: "workflowV2NodeStatusForTaskStatus s \<noteq> Run_running \<Longrightarrow> workflowV2NodeTerminal (workflowV2NodeStatusForTaskStatus s)"
  and projected_open [simp]: "workflowV2NodeStatusForTaskStatus s \<noteq> Run_pending" "workflowV2NodeStatusForTaskStatus s \<noteq> Run_ready"
  by (cases s; simp add: workflowV2NodeStatusForTaskStatus_def workflowV2NodeTerminal_def)+

lemma terminal_simps [simp]:
  "\<not> workflowV2NodeTerminal Run_pending" "\<not> workflowV2NodeTerminal Run_ready" "\<not> workflowV2NodeTerminal Run_running"
  "workflowV2NodeTerminal Run_succeeded" "workflowV2NodeTerminal Run_failed" "workflowV2NodeTerminal Run_blocked"
  "workflowV2NodeTerminal Run_cancelled" "workflowV2NodeTerminal Run_skipped"
  by (simp_all add: workflowV2NodeTerminal_def)

lemma not_terminal_cases: "\<not> workflowV2NodeTerminal s \<longleftrightarrow> s = Run_pending \<or> s = Run_ready \<or> s = Run_running"
  by (cases s) simp_all

lemma sync_node_cases:
  assumes "sync_node db p node runs = Inr runs'" and "runs_ok rid nodes edges (tt_runs db) p runs"
  obtains (same) "runs' = runs" "\<And>run. fmlookup runs (wn_ID node) = Some run \<Longrightarrow> wn_Type node = Node_task \<Longrightarrow>
      nr_ChildTaskRunID run = None \<or> workflowV2NodeTerminal (nr_Status run)"
    | (projected) run c row where "fmlookup runs (wn_ID node) = Some run" "nr_ChildTaskRunID run = Some c" "nr_Status run = Run_running"
        "wn_Type node = Node_task"
        "fmlookup (tt_runs db) c = Some row" "runs' = fmupd (wn_ID node) (run\<lparr>nr_Status := workflowV2NodeStatusForTaskStatus (tr_Status row)\<rparr>) runs"
proof (cases "fmlookup runs (wn_ID node)")
  case None
  with assms(1) have "runs' = runs" by (simp add: sync_node_def)
  with same None show thesis by simp
next
  case (Some run)
  show thesis
  proof (cases "wn_Type node \<noteq> Node_task \<or> nr_ChildTaskRunID run = None \<or> workflowV2NodeTerminal (nr_Status run)")
    case True
    with Some assms(1) have "runs' = runs" by (simp add: sync_node_def)
    with same Some True show thesis by auto
  next
    case False
    then obtain c where c: "nr_ChildTaskRunID run = Some c" by auto
    then have "nr_Status run \<notin> {Run_pending, Run_ready}" using node_ok_child [OF runs_ok_node [OF assms(2) Some] c] by metis
    then have st: "nr_Status run = Run_running" using False not_terminal_cases by auto
    obtain row where "fmlookup (tt_runs db) c = Some row"
        "runs' = fmupd (wn_ID node) (run\<lparr>nr_Status := workflowV2NodeStatusForTaskStatus (tr_Status row)\<rparr>) runs"
      using assms(1) Some False c by (auto simp: sync_node_def split: option.splits if_splits)
    with projected Some c st False show thesis by auto
  qed
qed

lemma sync_advanced:
  "nr_Status run = Run_running \<Longrightarrow> advanced run (run\<lparr>nr_Status := workflowV2NodeStatusForTaskStatus s\<rparr>)"
  using projected_status [of s] by (auto simp: advanced_def work_left_def)

lemma sync_node_ok:
  assumes s: "sync_node db p node runs = Inr runs'" and ok: "runs_ok rid nodes edges (tt_runs db) p runs"
  shows "runs_ok rid nodes edges (tt_runs db) p runs' \<and> progressed runs runs'"
  using s ok
proof (cases rule: sync_node_cases)
  case (projected run c row)
  let ?run = "run\<lparr>nr_Status := workflowV2NodeStatusForTaskStatus (tr_Status row)\<rparr>"
  have a: "advanced run ?run" by (rule sync_advanced [OF projected(3)])
  have old: "node_ok nodes edges (tt_runs db) p runs (wn_ID node) run" using ok projected(1) by (simp add: runs_ok_def)
  then have "node_ok nodes edges (tt_runs db) p (fmupd (wn_ID node) ?run runs) (wn_ID node) ?run"
    using projected(2,3) by (auto simp: node_ok_def split: option.splits)
  with ok projected(1,6) a show ?thesis by (simp add: runs_ok_upd progressed_upd)
qed (use ok in simp)

lemma sync_pass:
  assumes s: "fold_result (sync_node db p) nodes runs = Inr runs'" and ok: "runs_ok rid nodes edges (tt_runs db) p runs"
  shows "runs_ok rid nodes edges (tt_runs db) p runs'" and "progressed runs runs'" and "running_backed (tt_runs db) runs'"
proof -
  let ?P = "\<lambda>r. runs_ok rid nodes edges (tt_runs db) p r \<and> progressed runs r"
  have step: "?P s'" if "?P s" "sync_node db p x s = Inr s'" for x s s'
    using sync_node_ok [OF that(2), of rid nodes edges] that(1) progressed_trans [of runs s s'] by blast
  have all: "?P runs'" by (rule fold_result_inv [OF s, where P = ?P], simp add: ok, rule step)
  then show "runs_ok rid nodes edges (tt_runs db) p runs'" "progressed runs runs'" by simp_all
  let ?Q = "\<lambda>n r. \<forall>run. wn_Type n = Node_task \<longrightarrow> fmlookup r (wn_ID n) = Some run \<longrightarrow> nr_Status run = Run_running \<longrightarrow> child_unfinished (tt_runs db) run"
  have q: "?Q x s' \<and> (?Q y s \<longrightarrow> ?Q y s')" if "?P s" "sync_node db p x s = Inr s'" for x y s s'
    using that(2) conjunct1 [OF that(1)]
  proof (cases rule: sync_node_cases)
    case same
    have "?Q x s"
      using same(2) node_ok_running [OF runs_ok_node [OF conjunct1 [OF that(1)]]] by fastforce
    with same(1) show ?thesis by simp
  next
    case (projected run c row)
    then show ?thesis by (auto simp: child_unfinished_def)
  qed
  have each: "\<forall>n\<in>set nodes. ?Q n runs'"
  proof (rule fold_result_each [OF s, where P = ?P and Q = ?Q])
    show "?P runs" using ok by simp
    fix x y a b assume f: "?P a" "sync_node db p x a = Inr b"
    show "?P b" by (rule step [OF f])
    show "?Q x b" by (rule conjunct1 [OF q [OF f]])
    show "?Q y a \<Longrightarrow> ?Q y b" by (rule mp [OF conjunct2 [OF q [OF f]]])
  qed
  show "running_backed (tt_runs db) runs'"
    unfolding running_backed_def
  proof (intro allI impI)
    fix i run assume r: "fmlookup runs' i = Some run" "nr_Status run = Run_running"
    then have nk: "node_ok nodes edges (tt_runs db) p runs' i run" using all by (simp add: runs_ok_def)
    then obtain n where n: "n \<in> set nodes" "wn_ID n = i" "wn_Type n \<noteq> Node_task \<Longrightarrow> nr_ChildTaskRunID run = None"
      by (metis node_ok_node)
    then have "wn_Type n = Node_task" using node_ok_running [OF nk r(2)] by blast
    with each n r show "child_unfinished (tt_runs db) run" by auto
  qed
qed

lemma block_pass:
  assumes ok: "runs_ok rid nodes edges rows p runs"
  shows "runs_ok rid nodes edges rows p (block_waiting policy runs)" and "progressed runs (block_waiting policy runs)"
    and "running_backed rows runs \<Longrightarrow> running_backed rows (block_waiting policy runs)"
proof -
  let ?f = "\<lambda>run. if waiting_run run then run\<lparr>nr_Status := Run_blocked\<rparr> else run"
  have a: "advanced run (?f run)" for run by (auto simp: advanced_def work_left_def waiting_run_def)
  have pr: "progressed runs (fmmap ?f runs)" by (rule progressed_fmmap [OF a])
  have nk: "node_ok nodes edges rows p (fmmap ?f runs) i (?f run)" if r: "fmlookup runs i = Some run" for i run
  proof -
    have old: "node_ok nodes edges rows p (fmmap ?f runs) i run"
      by (rule node_ok_mono [OF runs_ok_node [OF ok r] rows_kept_refl pr])
    show ?thesis
    proof (cases "waiting_run run")
      case True
      from old obtain n where "node_of nodes i = Some n" "wn_Type n = Node_start \<Longrightarrow> nr_Status run = Run_succeeded"
        by (metis node_ok_node)
      with True show ?thesis by (auto simp: node_ok_def waiting_run_def)
    qed (use old in simp)
  qed
  have "runs_ok rid nodes edges rows p (fmmap ?f runs)"
    unfolding runs_ok_def
  proof (intro conjI allI impI)
    show "fset (fmdom (fmmap ?f runs)) = node_ids nodes" using ok by (simp add: runs_ok_def)
    fix i x assume "fmlookup (fmmap ?f runs) i = Some x"
    then obtain run where r: "fmlookup runs i = Some run" "x = ?f run" by auto
    show "nr_RevisionID x = rid" using r ok by (simp add: runs_ok_def)
    show "node_ok nodes edges rows p (fmmap ?f runs) i x" unfolding r(2) by (rule nk [OF r(1)])
  qed
  with ok show "runs_ok rid nodes edges rows p (block_waiting policy runs)" by (simp add: block_waiting_def)
  show "progressed runs (block_waiting policy runs)" using pr by (simp add: block_waiting_def)
  have "running_backed rows (fmmap ?f runs)" if "running_backed rows runs"
    using that by (auto simp: running_backed_def split: if_splits)
  then show "running_backed rows runs \<Longrightarrow> running_backed rows (block_waiting policy runs)" by (simp add: block_waiting_def)
qed

lemma settle_node_cases:
  obtains (same) "settle_node nodes edges i runs = runs"
      "\<And>n run. node_of nodes i = Some n \<Longrightarrow> fmlookup runs i = Some run \<Longrightarrow> wn_Type n \<noteq> Node_start \<Longrightarrow> waiting_run run \<Longrightarrow>
         \<not> list_all (edge_settled runs) (incoming edges i)"
    | (settled) n run status where "node_of nodes i = Some n" "fmlookup runs i = Some run" "wn_Type n \<noteq> Node_start" "waiting_run run"
        "list_all (edge_settled runs) (incoming edges i)" "settle_node nodes edges i runs = fmupd i (run\<lparr>nr_Status := status\<rparr>) runs"
        "status = (if list_ex (edge_matched runs) (incoming edges i) \<and> wn_Type n = Node_finish then Run_succeeded
           else if list_ex (edge_matched runs) (incoming edges i) then Run_ready else Run_skipped)"
proof (cases "node_of nodes i")
  case None
  then show thesis using same by (simp add: settle_node_def)
next
  case (Some n)
  show thesis
  proof (cases "fmlookup runs i")
    case None
    then show thesis using same Some by (simp add: settle_node_def)
  next
    case run: (Some run)
    show thesis
    proof (cases "wn_Type n = Node_start \<or> \<not> waiting_run run \<or> \<not> list_all (edge_settled runs) (incoming edges i)")
      case True
      then have "settle_node nodes edges i runs = runs" using Some run by (simp add: settle_node_def)
      then show thesis using same Some run True by auto
    next
      case False
      then show thesis using settled [OF Some run] Some run by (simp add: settle_node_def Let_def)
    qed
  qed
qed

lemma settle_advanced: "waiting_run run \<Longrightarrow> status \<noteq> Run_running \<Longrightarrow> advanced run (run\<lparr>nr_Status := status\<rparr>)"
  by (auto simp: advanced_def work_left_def waiting_run_def)

lemma settle_node_progressed: "progressed runs (settle_node nodes edges i runs)"
proof (cases rule: settle_node_cases [of nodes edges i runs])
  case (settled n run status)
  then show ?thesis using settle_advanced [OF settled(4), of status] by (simp add: progressed_upd)
qed simp

lemma settle_node_other: "k \<noteq> i \<Longrightarrow> fmlookup (settle_node nodes edges i runs) k = fmlookup runs k"
  by (cases rule: settle_node_cases [of nodes edges i runs]) simp_all

lemma settle_node_ok:
  assumes ok: "runs_ok rid nodes edges rows p runs" and types: "\<forall>n\<in>set nodes. wn_Type n \<noteq> Node_other"
  shows "runs_ok rid nodes edges rows p (settle_node nodes edges i runs)"
proof (cases rule: settle_node_cases [of nodes edges i runs])
  case (settled n run status)
  have a: "advanced run (run\<lparr>nr_Status := status\<rparr>)" by (rule settle_advanced) (use settled(4,7) in auto)
  have "wn_Type n \<noteq> Node_other" using types node_of_id [OF settled(1)] by blast
  then have task: "wn_Type n = Node_task" if "status = Run_ready" using that settled(3,7) by (cases "wn_Type n") (auto split: if_splits)
  have none: "nr_ChildTaskRunID run = None" using settled(4) by (simp add: waiting_run_def)
  have pr: "progressed runs (fmupd i (run\<lparr>nr_Status := status\<rparr>) runs)" by (rule progressed_upd [OF settled(2) a])
  have "list_ex (edge_matched runs) (incoming edges i)" if "status = Run_ready" using settled(7) that by (simp split: if_splits)
  moreover have "status \<noteq> Run_running" using settled(7) by simp
  ultimately have "node_ok nodes edges rows p (fmupd i (run\<lparr>nr_Status := status\<rparr>) runs) i (run\<lparr>nr_Status := status\<rparr>)"
    using settled(1,3) task none progressed_settled_all [OF pr settled(5)] by (cases "status = Run_ready") (simp_all add: node_ok_def)
  then show ?thesis unfolding settled(6) by (rule runs_ok_upd [OF ok settled(2) a])
qed (use ok in simp)

lemma settle_node_backed:
  assumes "running_backed rows runs"
  shows "running_backed rows (settle_node nodes edges i runs)"
proof (cases rule: settle_node_cases [of nodes edges i runs])
  case (settled n run status)
  then have "status \<noteq> Run_running" by auto
  with assms settled(6) show ?thesis by (simp add: running_backed_def)
qed (use assms in simp)

lemma settle_pass:
  assumes "runs_ok rid nodes edges rows p runs" and "\<forall>n\<in>set nodes. wn_Type n \<noteq> Node_other"
  shows "runs_ok rid nodes edges rows p (fold (settle_node nodes edges) order runs)"
    and "progressed runs (fold (settle_node nodes edges) order runs)"
    and "running_backed rows runs \<Longrightarrow> running_backed rows (fold (settle_node nodes edges) order runs)"
  using assms
proof (induction order arbitrary: runs)
  case (Cons i order)
  {
    case 1
    then show ?case using Cons.IH(1) [OF settle_node_ok [OF 1] 1(2)] by simp
  next
    case 2
    have "progressed (settle_node nodes edges i runs) (fold (settle_node nodes edges) order (settle_node nodes edges i runs))"
      by (rule Cons.IH(2) [OF settle_node_ok [OF 2] 2(2)])
    then show ?case using progressed_trans [OF settle_node_progressed] by simp
  next
    case 3
    then show ?case using Cons.IH(3) [OF settle_node_backed [OF 3(1)] settle_node_ok [OF 3(2,3)] 3(3)] by simp
  }
qed simp_all

lemma settle_order_other: "i \<notin> set order \<Longrightarrow> fmlookup (fold (settle_node nodes edges) order runs) i = fmlookup runs i"
  by (induction order arbitrary: runs) (simp_all add: settle_node_other)

text \<open>The pass visits a node after its sources, so a node that is left waiting with all sources settled is ready.\<close>

lemma settle_pass_complete:
  assumes types: "\<forall>n\<in>set nodes. wn_Type n \<noteq> Node_other" and ok: "runs_ok rid nodes edges rows p runs"
    and d: "distinct order" and i: "i \<in> set order"
    and before: "\<And>e. e \<in> set (incoming edges i) \<Longrightarrow> we_SourceID e \<in> set (takeWhile (\<lambda>x. x \<noteq> i) order)"
    and n: "node_of nodes i = Some n" "wn_Type n \<noteq> Node_start"
    and final: "final = fold (settle_node nodes edges) order runs" "fmlookup final i = Some run" "waiting_run run"
      "list_all (edge_settled final) (incoming edges i)"
  shows "nr_Status run = Run_ready"
proof -
  obtain xs ys where o: "order = xs @ i # ys" "i \<notin> set xs" by (meson i split_list_first)
  have tw: "takeWhile (\<lambda>x. x \<noteq> i) order = xs" using o by (metis takeWhile_upto)
  let ?mid = "fold (settle_node nodes edges) xs runs"
  let ?at = "settle_node nodes edges i ?mid"
  have f: "final = fold (settle_node nodes edges) ys ?at" using final(1) o(1) by simp
  have iy: "i \<notin> set ys" using d o(1) by simp
  have at: "fmlookup ?at i = Some run" using final(2) settle_order_other [OF iy, of nodes edges ?at] f by simp
  have src: "fmlookup ?mid (we_SourceID e) = fmlookup final (we_SourceID e)" if "e \<in> set (incoming edges i)" for e
  proof -
    have "we_SourceID e \<in> set xs" using before [OF that] tw by simp
    then have "we_SourceID e \<notin> set ys" "we_SourceID e \<noteq> i" using d o by auto
    then show ?thesis using f by (simp add: settle_order_other settle_node_other)
  qed
  then have all: "list_all (edge_settled ?mid) (incoming edges i)"
    using final(4) by (auto simp: list_all_iff edge_settled_def source_status_def)
  show ?thesis
  proof (cases rule: settle_node_cases [of nodes edges i ?mid])
    case same
    then show ?thesis using at n final(3) all by auto
  next
    case (settled m run' status)
    then have "run = run'\<lparr>nr_Status := status\<rparr>" using at by simp
    then show ?thesis using settled(7) final(3) by (auto simp: waiting_run_def split: if_splits)
  qed
qed

definition rows_extended :: "(string, taskV2Run) fmap \<Rightarrow> (string, taskV2Run) fmap \<Rightarrow> bool" where
  "rows_extended rows rows' \<longleftrightarrow> (\<forall>c row. fmlookup rows c = Some row \<longrightarrow> fmlookup rows' c = Some row)"

lemma rows_extended_refl [simp]: "rows_extended rows rows"
  by (simp add: rows_extended_def)

lemma rows_extended_trans: "rows_extended a b \<Longrightarrow> rows_extended b c \<Longrightarrow> rows_extended a c"
  by (simp add: rows_extended_def)

lemma rows_extended_new: "fmlookup rows c = None \<Longrightarrow> rows_extended rows (fmupd c row rows)"
  by (auto simp: rows_extended_def)

lemma rows_extended_kept: "rows_extended rows rows' \<Longrightarrow> rows_kept rows rows'"
  by (auto simp: rows_extended_def rows_kept_def row_kept_def)

lemma child_unfinished_extended:
  assumes "child_unfinished rows run" and "rows_extended rows rows'"
  shows "child_unfinished rows' run"
proof (cases "nr_ChildTaskRunID run")
  case (Some c)
  with assms show ?thesis by (cases "fmlookup rows c") (simp_all add: child_unfinished_def rows_extended_def)
qed (use assms(1) in \<open>simp add: child_unfinished_def\<close>)

lemma running_backed_extended: "running_backed rows runs \<Longrightarrow> rows_extended rows rows' \<Longrightarrow> running_backed rows' runs"
  unfolding running_backed_def using child_unfinished_extended by blast

text \<open>A node that may be scheduled, and the row of the run that was started for it.\<close>

definition startable :: "workflowV2Revision \<Rightarrow> node_runs \<Rightarrow> string \<Rightarrow> bool" where
  "startable revision runs i \<longleftrightarrow>
     (case (node_of (wr_Nodes revision) i, fmlookup runs i) of
        (Some n, Some run) \<Rightarrow> wn_Type n = Node_task \<and> nr_Status run = Run_ready \<and> nr_ChildTaskRunID run = None \<and>
          wn_TaskDefinitionID n \<noteq> None \<and> wn_TaskDefinition n \<noteq> None
      | _ \<Rightarrow> False)"

definition started_row :: "workflowV2Revision \<Rightarrow> string \<Rightarrow> string \<Rightarrow> taskV2Run \<Rightarrow> bool" where
  "started_row revision p i row \<longleftrightarrow>
     (\<exists>n. node_of (wr_Nodes revision) i = Some n \<and> wn_Type n = Node_task \<and> wn_TaskDefinitionID n = Some (tr_TaskID row)) \<and>
     tr_WorkflowRevisionID row = Some (wr_ID revision) \<and> tr_ParentWorkflowTaskRunID row = Some p \<and> tr_WorkflowNodeID row = i \<and>
     tr_Status row = Task_waiting"

definition other_tables_same :: "task_tables \<Rightarrow> task_tables \<Rightarrow> bool" where
  "other_tables_same db db' \<longleftrightarrow> tt_workflow_runs db' = tt_workflow_runs db \<and> tt_node_runs db' = tt_node_runs db \<and> tt_revisions db' = tt_revisions db"

lemma schedule_node_cases:
  assumes "schedule_node json limit fresh taskID parent p revision i s = Inr s'"
  obtains (same) "s' = s" "limit \<le> sc_active s \<or> \<not> startable revision (sc_runs s) i"
    | (started) run row where "sc_active s < limit" "fmlookup (sc_runs s) i = Some run" "nr_Status run = Run_ready" "nr_ChildTaskRunID run = None"
        "fmlookup (tt_runs (sc_db s)) (fresh i) = None" "started_row revision p i row"
        "tt_runs (sc_db s') = fmupd (fresh i) row (tt_runs (sc_db s))" "other_tables_same (sc_db s) (sc_db s')"
        "sc_runs s' = fmupd i (run\<lparr>nr_Status := Run_running, nr_ChildTaskRunID := Some (fresh i)\<rparr>) (sc_runs s)"
        "sc_active s' = sc_active s + 1" "sc_count s' = sc_count s + 1"
proof (cases "limit \<le> sc_active s \<or> \<not> startable revision (sc_runs s) i")
  case True
  then have "s' = s" using assms by (auto simp: schedule_node_def startable_def split: if_splits option.splits)
  then show thesis using same True by blast
next
  case False
  then obtain n run where n: "node_of (wr_Nodes revision) i = Some n" and r: "fmlookup (sc_runs s) i = Some run"
    by (auto simp: startable_def split: option.splits)
  with False have c: "wn_Type n = Node_task" "nr_Status run = Run_ready" "nr_ChildTaskRunID run = None" "sc_active s < limit"
      "wn_TaskDefinitionID n \<noteq> None" "wn_TaskDefinition n \<noteq> None"
    by (simp_all add: startable_def)
  from c(5) obtain childID where cid: "wn_TaskDefinitionID n = Some childID" by auto
  show thesis
  proof (cases "fmlookup (tt_tasks (sc_db s)) childID")
    case None
    then show thesis using assms n r c cid by (simp add: schedule_node_def Let_def)
  next
    case (Some child)
    let ?row = "\<lparr>tr_TaskID = childID, tr_WorkflowRevisionID = Some (wr_ID revision), tr_ParentWorkflowTaskRunID = Some p, tr_WorkflowNodeID = i,
       tr_Status = Task_waiting, tr_Attempt = next_attempt (sc_db s) childID, tr_ExitCode = None, tr_ResultCode = []\<rparr>"
    have f: "fmlookup (tt_runs (sc_db s)) (fresh i) = None"
      using assms n r c cid Some by (simp add: schedule_node_def Let_def split: if_splits)
    have db: "sc_db s' = set_task childID (child\<lparr>tk_Status := Task_waiting, tk_Revision := tk_Revision child + 1,
          tk_CurrentRunID := Some (fresh i), tk_ExitCode := None, tk_ResultCode := []\<rparr>) (set_task_run (fresh i) ?row (sc_db s))"
      and rest: "sc_runs s' = fmupd i (run\<lparr>nr_Status := Run_running, nr_ChildTaskRunID := Some (fresh i)\<rparr>) (sc_runs s)"
        "sc_active s' = sc_active s + 1" "sc_count s' = sc_count s + 1"
      using assms n r c cid Some by (auto simp: schedule_node_def Let_def split: if_splits)
    have "started_row revision p i ?row" using n c(1) cid by (simp add: started_row_def)
    then show thesis
      using started [OF c(4) r c(2,3) f] db rest by (simp add: set_task_def set_task_run_def other_tables_same_def)
  qed
qed

lemma active_nodes_card: "active_nodes runs = card {i. \<exists>run. fmlookup runs i = Some run \<and> nr_Status run = Run_running}"
proof -
  have "fset (ffilter (\<lambda>i. nr_Status (the (fmlookup runs i)) = Run_running) (fmdom runs)) =
      {i. \<exists>run. fmlookup runs i = Some run \<and> nr_Status run = Run_running}"
    by (auto simp: fmlookup_dom_iff)
  then show ?thesis by (simp add: active_nodes_def fcard.rep_eq)
qed

lemma finite_rows: "finite {i. \<exists>run. fmlookup runs i = Some run \<and> P run}"
  by (rule finite_subset [OF _ finite_fset [of "fmdom runs"]]) (auto simp: fmlookup_dom_iff)

lemma active_nodes_start:
  assumes "fmlookup runs i = Some run" "nr_Status run \<noteq> Run_running" "nr_Status run' = Run_running"
  shows "active_nodes (fmupd i run' runs) = active_nodes runs + 1"
proof -
  let ?R = "{k. \<exists>run. fmlookup runs k = Some run \<and> nr_Status run = Run_running}"
  have "{k. \<exists>run. fmlookup (fmupd i run' runs) k = Some run \<and> nr_Status run = Run_running} = insert i ?R"
    using assms(3) by auto
  moreover have "i \<notin> ?R" using assms(1,2) by simp
  ultimately show ?thesis using finite_rows [of runs "\<lambda>run. nr_Status run = Run_running"] by (simp add: active_nodes_card)
qed

abbreviation revision_runs_ok :: "workflowV2Revision \<Rightarrow> (string, taskV2Run) fmap \<Rightarrow> string \<Rightarrow> node_runs \<Rightarrow> bool" where
  "revision_runs_ok revision \<equiv> runs_ok (wr_ID revision) (wr_Nodes revision) (wr_Edges revision)"

definition sched_inv :: "nat \<Rightarrow> workflowV2Revision \<Rightarrow> string \<Rightarrow> task_tables \<Rightarrow> node_runs \<Rightarrow> schedule_state \<Rightarrow> bool" where
  "sched_inv limit revision p db0 runs0 s \<longleftrightarrow>
     revision_runs_ok revision (tt_runs (sc_db s)) p (sc_runs s) \<and> progressed runs0 (sc_runs s) \<and>
     running_backed (tt_runs (sc_db s)) (sc_runs s) \<and> sc_active s = active_nodes (sc_runs s) \<and>
     rows_extended (tt_runs db0) (tt_runs (sc_db s)) \<and> other_tables_same db0 (sc_db s) \<and> (0 < sc_count s \<longrightarrow> sc_active s \<le> limit) \<and>
     (\<forall>i run c. fmlookup (sc_runs s) i = Some run \<longrightarrow> nr_ChildTaskRunID run = Some c \<longrightarrow>
        (\<exists>run0. fmlookup runs0 i = Some run0 \<and> nr_ChildTaskRunID run0 = Some c) \<or>
        fmlookup (tt_runs db0) c = None \<and> 0 < sc_count s \<and>
        list_all (edge_settled (sc_runs s)) (incoming (wr_Edges revision) i) \<and>
        list_ex (edge_matched (sc_runs s)) (incoming (wr_Edges revision) i) \<and>
        (\<exists>row. fmlookup (tt_runs (sc_db s)) c = Some row \<and> started_row revision p i row))"

lemma sched_invD:
  assumes "sched_inv limit revision p db0 runs0 s"
  shows "revision_runs_ok revision (tt_runs (sc_db s)) p (sc_runs s)" "progressed runs0 (sc_runs s)"
    "running_backed (tt_runs (sc_db s)) (sc_runs s)" "sc_active s = active_nodes (sc_runs s)"
    "rows_extended (tt_runs db0) (tt_runs (sc_db s))" "other_tables_same db0 (sc_db s)" "0 < sc_count s \<Longrightarrow> sc_active s \<le> limit"
    "\<And>i run c. fmlookup (sc_runs s) i = Some run \<Longrightarrow> nr_ChildTaskRunID run = Some c \<Longrightarrow>
        (\<exists>run0. fmlookup runs0 i = Some run0 \<and> nr_ChildTaskRunID run0 = Some c) \<or>
        fmlookup (tt_runs db0) c = None \<and> 0 < sc_count s \<and>
        list_all (edge_settled (sc_runs s)) (incoming (wr_Edges revision) i) \<and>
        list_ex (edge_matched (sc_runs s)) (incoming (wr_Edges revision) i) \<and>
        (\<exists>row. fmlookup (tt_runs (sc_db s)) c = Some row \<and> started_row revision p i row)"
  using assms unfolding sched_inv_def by blast+

lemma sched_inv_step:
  assumes inv: "sched_inv limit revision p db0 runs0 s" and f: "schedule_node json limit fresh taskID parent p revision i s = Inr s'"
  shows "sched_inv limit revision p db0 runs0 s'"
  using f
proof (cases rule: schedule_node_cases)
  case (started run row)
  note old = sched_invD [OF inv]
  let ?rows = "tt_runs (sc_db s)" and ?rows' = "tt_runs (sc_db s')" and ?c = "fresh i"
  let ?run = "run\<lparr>nr_Status := Run_running, nr_ChildTaskRunID := Some ?c\<rparr>"
  have ext: "rows_extended ?rows ?rows'" unfolding started(7) by (rule rows_extended_new [OF started(5)])
  have a: "advanced run ?run" using started(3,4) by (simp add: advanced_def work_left_def)
  have row: "fmlookup ?rows' ?c = Some row" by (simp add: started(7))
  have rok: "revision_runs_ok revision ?rows' p (sc_runs s)" by (rule runs_ok_rows [OF old(1) rows_extended_kept [OF ext]])
  obtain n where n: "node_of (wr_Nodes revision) i = Some n" "wn_Type n = Node_task" using started(6) by (auto simp: started_row_def)
  have "node_ok (wr_Nodes revision) (wr_Edges revision) ?rows' p (fmupd i ?run (sc_runs s)) i ?run"
    using n row started(6) by (simp add: node_ok_def started_row_def)
  then have ok: "revision_runs_ok revision ?rows' p (sc_runs s')"
    unfolding started(9) by (rule runs_ok_upd [OF rok started(2) a])
  have step: "progressed (sc_runs s) (sc_runs s')" unfolding started(9) by (rule progressed_upd [OF started(2) a])
  have pr: "progressed runs0 (sc_runs s')" by (rule progressed_trans [OF old(2) step])
  have "child_unfinished ?rows' ?run"
    using row started(6) by (simp add: child_unfinished_def started_row_def workflowV2NodeStatusForTaskStatus_def)
  then have backed: "running_backed ?rows' (sc_runs s')"
    using running_backed_extended [OF old(3) ext] by (simp add: running_backed_def started(9))
  have act: "sc_active s' = active_nodes (sc_runs s')"
    using old(4) started(9,10) active_nodes_start [OF started(2), of ?run] started(3) by simp
  have fresh0: "fmlookup (tt_runs db0) ?c = None"
    using old(5) started(5) unfolding rows_extended_def by (metis option.exhaust option.distinct(1))
  have kids: "(\<exists>run0. fmlookup runs0 k = Some run0 \<and> nr_ChildTaskRunID run0 = Some c) \<or>
        fmlookup (tt_runs db0) c = None \<and> 0 < sc_count s' \<and>
        list_all (edge_settled (sc_runs s')) (incoming (wr_Edges revision) k) \<and>
        list_ex (edge_matched (sc_runs s')) (incoming (wr_Edges revision) k) \<and> (\<exists>row. fmlookup ?rows' c = Some row \<and> started_row revision p k row)"
    if k: "fmlookup (sc_runs s') k = Some x" "nr_ChildTaskRunID x = Some c" for k x c
  proof (cases "k = i")
    case True
    with k have c: "c = ?c" by (auto simp: started(9))
    have "list_all (edge_settled (sc_runs s)) (incoming (wr_Edges revision) i)"
      "list_ex (edge_matched (sc_runs s)) (incoming (wr_Edges revision) i)"
      using runs_ok_node [OF old(1) started(2)] started(3) by (simp_all add: node_ok_def)
    then show ?thesis using True c row started(6,11) fresh0 progressed_settled_all [OF step] by simp
  next
    case False
    with k have "fmlookup (sc_runs s) k = Some x" by (simp add: started(9))
    from old(8) [OF this k(2)] show ?thesis
      using ext started(11) progressed_settled_all [OF step] unfolding rows_extended_def by (metis zero_less_Suc Suc_eq_plus1)
  qed
  have "other_tables_same db0 (sc_db s')" using old(6) started(8) by (simp add: other_tables_same_def)
  moreover have "sc_active s' \<le> limit" using started(1,10) by simp
  ultimately show ?thesis
    unfolding sched_inv_def using ok pr backed act rows_extended_trans [OF old(5) ext] kids by blast
qed (use inv in simp)

lemma schedule_pass:
  assumes ok: "revision_runs_ok revision (tt_runs db) p runs" and backed: "running_backed (tt_runs db) runs"
    and f: "fold_result (schedule_node json limit fresh taskID parent p revision) order
      \<lparr>sc_db = db, sc_runs = runs, sc_active = active_nodes runs, sc_count = 0\<rparr> = Inr s"
  shows "sched_inv limit revision p db runs s"
proof (rule fold_result_inv [OF f, where P = "sched_inv limit revision p db runs"])
  show "sched_inv limit revision p db runs \<lparr>sc_db = db, sc_runs = runs, sc_active = active_nodes runs, sc_count = 0\<rparr>"
    using ok backed by (auto simp: sched_inv_def other_tables_same_def)
qed (rule sched_inv_step)

text \<open>When nothing runs after the pass, nothing was ready.\<close>

lemma schedule_pass_idle:
  assumes "fold_result (schedule_node json limit fresh taskID parent p revision) order s = Inr s'" and "sc_active s' = 0" and "0 < limit"
  shows "s' = s \<and> (\<forall>i\<in>set order. \<not> startable revision (sc_runs s) i)"
  using assms(1)
proof (induction order arbitrary: s)
  case (Cons i order)
  then obtain s1 where s1: "schedule_node json limit fresh taskID parent p revision i s = Inr s1"
      "fold_result (schedule_node json limit fresh taskID parent p revision) order s1 = Inr s'"
    by (auto split: sum.splits)
  from Cons.IH [OF s1(2)] have s': "s' = s1" "\<forall>i\<in>set order. \<not> startable revision (sc_runs s1) i" by simp_all
  from s1(1) show ?case
  proof (cases rule: schedule_node_cases)
    case same
    with s' assms(2,3) show ?thesis by simp
  next
    case (started run row)
    with s'(1) assms(2) show ?thesis by simp
  qed
qed simp

subsection \<open>A tick\<close>

lemma workflow_graphD:
  assumes "workflow_graph nodes edges"
  shows "distinct (map wn_ID nodes)" "edges_within nodes edges" "acyclic (set (arrows_of edges))" "\<forall>n\<in>set nodes. wn_Type n \<noteq> Node_other"
    "\<And>n. n \<in> set nodes \<Longrightarrow> wn_Type n = Node_task \<Longrightarrow> wn_TaskDefinition n \<noteq> None \<and> wn_TaskDefinitionID n \<noteq> None"
proof -
  show "\<And>n. n \<in> set nodes \<Longrightarrow> wn_Type n = Node_task \<Longrightarrow> wn_TaskDefinition n \<noteq> None \<and> wn_TaskDefinitionID n \<noteq> None"
    using assms unfolding workflow_graph_def by (metis option.map_disc_iff)
qed (use assms in \<open>simp_all add: workflow_graph_def\<close>)

lemma effective_positive: "0 < limit \<Longrightarrow> 0 < effective_parallelism limit maximum"
  by (auto simp: effective_parallelism_def unat_gt_0)

lemma incoming_arrow: "e \<in> set (incoming edges i) \<Longrightarrow> (we_SourceID e, i) \<in> set (arrows_of edges)"
  by (force simp: incoming_def arrows_of_def)

lemma all_terminalI:
  assumes "fset (fmdom runs) = node_ids nodes" and "\<And>i run. fmlookup runs i = Some run \<Longrightarrow> workflowV2NodeTerminal (nr_Status run)"
  shows "all_terminal nodes runs"
  unfolding all_terminal_def list_all_iff
proof
  fix n assume "n \<in> set nodes"
  then have "wn_ID n |\<in>| fmdom runs" using assms(1) by (simp add: node_ids_def)
  then obtain run where "fmlookup runs (wn_ID n) = Some run" by (auto simp: fmlookup_dom_iff)
  with assms(2) [OF this] show "case fmlookup runs (wn_ID n) of None \<Rightarrow> False | Some run \<Rightarrow> workflowV2NodeTerminal (nr_Status run)" by simp
qed

text \<open>After the third pass, when nothing runs and not all rows are terminal, a node may be scheduled.\<close>

lemma settled_startable:
  assumes g: "workflow_graph nodes edges" and ok: "runs_ok rid nodes edges rows p runs"
    and order: "workflowV2TopologicalOrder nodes edges = (order, True)"
    and final: "final = fold (settle_node nodes edges) order runs"
    and idle: "\<And>i run. fmlookup final i = Some run \<Longrightarrow> nr_Status run \<noteq> Run_running"
    and rev: "wr_Nodes revision = nodes" and open_node: "\<not> all_terminal nodes final"
  shows "\<exists>i\<in>set order. startable revision final i"
proof -
  note g' = workflow_graphD [OF g]
  note topo = workflowV2TopologicalOrder_exact [OF g'(1,2) order]
  have fok: "runs_ok rid nodes edges rows p final" unfolding final by (rule settle_pass(1) [OF ok g'(4)])
  let ?N = "{i. \<exists>run. fmlookup final i = Some run \<and> \<not> workflowV2NodeTerminal (nr_Status run)}"
  have "fset (fmdom final) = node_ids nodes" using fok by (simp add: runs_ok_def)
  then obtain i0 where "i0 \<in> ?N" using open_node all_terminalI by blast
  moreover have "wf (set (arrows_of edges))" by (rule finite_acyclic_wf) (use g'(3) in auto)
  ultimately obtain i where i: "i \<in> ?N" and least: "\<And>s. (s, i) \<in> set (arrows_of edges) \<Longrightarrow> s \<notin> ?N"
    by (metis (no_types, lifting) wfE_min)
  then obtain run where r: "fmlookup final i = Some run" "\<not> workflowV2NodeTerminal (nr_Status run)" by auto
  have nk: "node_ok nodes edges rows p final i run" by (rule runs_ok_node [OF fok r(1)])
  have st: "nr_Status run \<in> {Run_pending, Run_ready}" using r idle [OF r(1)] not_terminal_cases by auto
  have w: "waiting_run run"
  proof (cases "nr_ChildTaskRunID run")
    case (Some c)
    from node_ok_child [OF nk Some] st show ?thesis by blast
  qed (use st in \<open>simp add: waiting_run_def\<close>)
  obtain n where n: "node_of nodes i = Some n" "n \<in> set nodes" "wn_Type n = Node_start \<Longrightarrow> nr_Status run = Run_succeeded"
      "wn_Type n \<noteq> Node_task \<Longrightarrow> nr_Status run \<noteq> Run_ready"
    using nk by (metis node_ok_node)
  have notstart: "wn_Type n \<noteq> Node_start" using n(3) st by auto
  have "i \<in> node_ids nodes" by (rule node_of_within [OF n(1)])
  then have io: "i \<in> set order" using topo(1,4) by simp
  have settled: "edge_settled final e" if e: "e \<in> set (incoming edges i)" for e
  proof -
    have a: "(we_SourceID e, i) \<in> set (arrows_of edges)" by (rule incoming_arrow [OF e])
    then have "we_SourceID e |\<in>| fmdom final" using arrows_within [OF g'(2) a] fok by (simp add: runs_ok_def)
    then obtain x where "fmlookup final (we_SourceID e) = Some x" by (auto simp: fmlookup_dom_iff)
    with least [OF a] show ?thesis by (simp add: edge_settled_def source_status_def)
  qed
  have "nr_Status run = Run_ready"
  proof (rule settle_pass_complete [OF g'(4) ok topo(2) io _ n(1) notstart final r(1) w])
    show "list_all (edge_settled final) (incoming edges i)" using settled by (simp add: list_all_iff)
    show "we_SourceID e \<in> set (takeWhile (\<lambda>x. x \<noteq> i) order)" if "e \<in> set (incoming edges i)" for e
    proof -
      obtain xs ys where o: "order = xs @ i # ys" "i \<notin> set xs" by (meson io split_list_first)
      then have "we_SourceID e \<in> set xs" using topo(5) incoming_arrow [OF that] by blast
      with o show ?thesis by (simp add: takeWhile_upto)
    qed
  qed
  then have "startable revision final i"
    using n g'(5) [OF n(2)] r(1) w rev by (auto simp: startable_def waiting_run_def)
  with io show ?thesis by blast
qed

lemma node_of_in: "distinct (map wn_ID nodes) \<Longrightarrow> n \<in> set nodes \<Longrightarrow> node_of nodes (wn_ID n) = Some n"
proof (cases "node_of nodes (wn_ID n)")
  case (Some m)
  assume "distinct (map wn_ID nodes)" "n \<in> set nodes"
  with node_of_id [OF Some] have "m = n" by (auto simp: distinct_map inj_on_def)
  with Some show ?thesis by simp
qed (auto simp: node_of_def find_None_iff)

text \<open>Only the fourth pass gives a node a run.\<close>

definition children_of :: "node_runs \<Rightarrow> (string, string option) fmap" where
  "children_of runs = fmmap nr_ChildTaskRunID runs"

lemma children_of_status: "fmlookup runs i = Some run \<Longrightarrow> children_of (fmupd i (run\<lparr>nr_Status := status\<rparr>) runs) = children_of runs"
  by (rule fmap_ext) (auto simp: children_of_def)

lemma sync_children:
  assumes "fold_result (sync_node db p) nodes runs = Inr runs'" and "runs_ok rid all_nodes edges (tt_runs db) p runs"
  shows "children_of runs' = children_of runs"
proof -
  have "runs_ok rid all_nodes edges (tt_runs db) p runs' \<and> children_of runs' = children_of runs"
  proof (rule fold_result_inv [OF assms(1), where P = "\<lambda>r. runs_ok rid all_nodes edges (tt_runs db) p r \<and> children_of r = children_of runs"])
    fix x r r' assume r: "runs_ok rid all_nodes edges (tt_runs db) p r \<and> children_of r = children_of runs" and f: "sync_node db p x r = Inr r'"
    from f conjunct1 [OF r] have "children_of r' = children_of r"
      by (cases rule: sync_node_cases) (simp_all add: children_of_status)
    with sync_node_ok [OF f conjunct1 [OF r]] r
    show "runs_ok rid all_nodes edges (tt_runs db) p r' \<and> children_of r' = children_of runs" by simp
  qed (use assms(2) in simp)
  then show ?thesis by simp
qed

lemma block_children: "children_of (block_waiting policy runs) = children_of runs"
  by (rule fmap_ext) (auto simp: children_of_def block_waiting_def option.map_comp comp_def intro!: option.map_cong)

lemma settle_children: "children_of (fold (settle_node nodes edges) order runs) = children_of runs"
proof (induction order arbitrary: runs)
  case (Cons i order)
  have "children_of (settle_node nodes edges i runs) = children_of runs"
    by (cases rule: settle_node_cases [of nodes edges i runs]) (simp_all add: children_of_status)
  with Cons show ?case by simp
qed simp

lemma tick_passes_spec:
  assumes g: "workflow_graph (wr_Nodes revision) (wr_Edges revision)"
    and ok: "revision_runs_ok revision (tt_runs db) p (node_runs_of db p)"
    and t: "tick_passes json limit fresh db taskID parent p revision = Inr (db', res)"
  obtains s settled where
    "sched_inv (effective_parallelism limit (wr_MaximumParallelism revision)) revision p db settled s"
    "progressed (node_runs_of db p) settled" "children_of settled = children_of (node_runs_of db p)"
    "(db', res) = conclude taskID parent p revision (sc_runs s \<noteq> node_runs_of db p) s"
    "0 < limit \<Longrightarrow> all_terminal (wr_Nodes revision) (sc_runs s) \<or> (\<exists>i run. fmlookup (sc_runs s) i = Some run \<and> nr_Status run = Run_running)"
    "\<And>i run. fmlookup settled i = Some run \<Longrightarrow> nr_Status run = Run_running \<Longrightarrow> child_unfinished (tt_runs db) run"
proof -
  let ?nodes = "wr_Nodes revision" and ?edges = "wr_Edges revision" and ?runs = "node_runs_of db p"
  let ?eff = "effective_parallelism limit (wr_MaximumParallelism revision)"
  note g' = workflow_graphD [OF g]
  obtain synced where sync: "fold_result (sync_node db p) ?nodes ?runs = Inr synced"
    using t by (auto simp: tick_passes_def Let_def split: sum.splits)
  obtain order where order: "workflowV2TopologicalOrder ?nodes ?edges = (order, True)"
    using t sync by (auto simp: tick_passes_def Let_def split: prod.splits if_splits)
  let ?blocked = "block_waiting (wr_FailurePolicy revision) synced"
  define settled where "settled = fold (settle_node ?nodes ?edges) order ?blocked"
  obtain s where sched: "fold_result (schedule_node json ?eff fresh taskID parent p revision) order
      \<lparr>sc_db = db, sc_runs = settled, sc_active = active_nodes settled, sc_count = 0\<rparr> = Inr s"
    and res: "(db', res) = conclude taskID parent p revision (sc_runs s \<noteq> ?runs) s"
    using t sync order by (auto simp: tick_passes_def Let_def settled_def split: sum.splits)
  note sp = sync_pass [OF sync ok]
  note bp = block_pass [OF sp(1), of "wr_FailurePolicy revision"]
  note tp = settle_pass [OF bp(1) g'(4), of order, folded settled_def]
  have pr: "progressed ?runs settled" using sp(2) bp(2) tp(2) progressed_trans by blast
  have kids: "children_of settled = children_of ?runs"
    unfolding settled_def by (simp add: settle_children block_children sync_children [OF sync ok])
  have backed: "running_backed (tt_runs db) settled"
    unfolding settled_def by (rule settle_pass(3) [OF bp(1) g'(4) bp(3) [OF sp(3)]])
  have inv: "sched_inv ?eff revision p db settled s" by (rule schedule_pass [OF tp(1) backed sched])
  have prog: "all_terminal ?nodes (sc_runs s) \<or> (\<exists>i run. fmlookup (sc_runs s) i = Some run \<and> nr_Status run = Run_running)" if l: "0 < limit"
  proof (rule ccontr)
    assume neg: "\<not> ?thesis"
    then have "{i. \<exists>run. fmlookup (sc_runs s) i = Some run \<and> nr_Status run = Run_running} = {}" by blast
    then have "sc_active s = 0" using sched_invD(4) [OF inv] by (simp only: active_nodes_card card.empty)
    from schedule_pass_idle [OF sched this effective_positive [OF l]]
    have idle: "sc_runs s = settled" "\<forall>i\<in>set order. \<not> startable revision settled i" by auto
    have "\<exists>i\<in>set order. startable revision settled i"
      by (rule settled_startable [OF g bp(1) order settled_def _ refl]) (use neg idle(1) in auto)
    with idle(2) show False by blast
  qed
  show thesis by (rule that [OF inv pr kids res prog]) (use backed in \<open>simp_all add: running_backed_def\<close>)
qed

end
