(* ===== verification/Workflow_Steps.thy ===== *)
theory Workflow_Steps
  imports Workflow_Progress
begin

text \<open>
  The steps of the tables of the workflow store, an invariant of the tables
  they reach, and the lemmas behind the properties of workflows: what a tick
  starts, that the work that is left goes down, what cancelling and a retry
  leave. The task engine, which creates tasks and changes the status of runs,
  is a step that keeps the rows and the identities in them.
\<close>

subsection \<open>Consistent tables\<close>

definition resting :: "node_runs \<Rightarrow> bool" where
  "resting runs \<longleftrightarrow> (\<forall>i run. fmlookup runs i = Some run \<longrightarrow> nr_Status run \<notin> {Run_ready, Run_running})"

definition finish_skipped :: "workflowV2Node list \<Rightarrow> node_runs \<Rightarrow> bool" where
  "finish_skipped nodes runs \<longleftrightarrow>
     (\<forall>n\<in>set nodes. wn_Type n = Node_finish \<longrightarrow> map_option nr_Status (fmlookup runs (wn_ID n)) = Some Run_skipped)"

definition run_fine :: "workflowV2Revision \<Rightarrow> (string, taskV2Run) fmap \<Rightarrow> string \<Rightarrow> taskV2Run \<Rightarrow> node_runs \<Rightarrow> bool" where
  "run_fine revision rows p row runs \<longleftrightarrow>
     tr_WorkflowRevisionID row = Some (wr_ID revision) \<and> revision_runs_ok revision rows p runs \<and>
     (tr_Status row = Task_failed \<longrightarrow> resting runs)"

definition run_entry :: "task_tables \<Rightarrow> string \<Rightarrow> bool" where
  "run_entry db p \<longleftrightarrow>
     (case fmlookup (tt_workflow_runs db) p of
        None \<Rightarrow> node_runs_of db p = fmempty
      | Some rid \<Rightarrow>
          (case (fmlookup (tt_revisions db) rid, fmlookup (tt_runs db) p) of
             (Some revision, Some row) \<Rightarrow> run_fine revision (tt_runs db) p row (node_runs_of db p)
           | _ \<Rightarrow> False))"

definition tables_ok :: "task_tables \<Rightarrow> bool" where
  "tables_ok db \<longleftrightarrow>
     (\<forall>rid revision. fmlookup (tt_revisions db) rid = Some revision \<longrightarrow>
        wr_ID revision = rid \<and> workflow_graph (wr_Nodes revision) (wr_Edges revision)) \<and>
     (\<forall>p. run_entry db p)"

text \<open>What another operation may do to the row of a run of a workflow.\<close>

definition status_kept :: "(string, taskV2Run) fmap \<Rightarrow> (string, taskV2Run) fmap \<Rightarrow> string \<Rightarrow> bool" where
  "status_kept rows rows' p \<longleftrightarrow>
     (\<forall>row row'. fmlookup rows p = Some row \<longrightarrow> fmlookup rows' p = Some row' \<longrightarrow>
        tr_Status row' = tr_Status row \<or> tr_Status row' \<notin> {Task_running, Task_failed})"

lemma status_kept_refl [simp]: "status_kept rows rows p"
  by (simp add: status_kept_def)

lemma status_kept_trans:
  assumes "rows_kept a b" "status_kept a b p" "status_kept b c p"
  shows "status_kept a c p"
  unfolding status_kept_def
proof (intro allI impI)
  fix x z assume x: "fmlookup a p = Some x" and z: "fmlookup c p = Some z"
  from assms(1) x obtain y where y: "fmlookup b p = Some y" by (auto simp: rows_kept_def)
  from assms(2,3) x y z show "tr_Status z = tr_Status x \<or> tr_Status z \<notin> {Task_running, Task_failed}"
    unfolding status_kept_def by metis
qed

lemma status_kept_extended: "rows_extended rows rows' \<Longrightarrow> status_kept rows rows' p"
  by (auto simp: status_kept_def rows_extended_def)

lemma status_kept_upd: "q \<noteq> p \<Longrightarrow> status_kept rows (fmupd q row rows) p"
  by (simp add: status_kept_def)

lemma run_entry_frame:
  assumes e: "run_entry db p" and w: "fmlookup (tt_workflow_runs db') p = fmlookup (tt_workflow_runs db) p"
    and n: "node_runs_of db' p = node_runs_of db p"
    and r: "\<And>rid revision. fmlookup (tt_revisions db) rid = Some revision \<Longrightarrow> fmlookup (tt_revisions db') rid = Some revision"
    and k: "rows_kept (tt_runs db) (tt_runs db')" and st: "status_kept (tt_runs db) (tt_runs db') p"
  shows "run_entry db' p"
proof (cases "fmlookup (tt_workflow_runs db) p")
  case (Some rid)
  then obtain revision row where rv: "fmlookup (tt_revisions db) rid = Some revision" "fmlookup (tt_runs db) p = Some row"
      "run_fine revision (tt_runs db) p row (node_runs_of db p)"
    using e by (auto simp: run_entry_def split: option.splits)
  obtain row' where row': "fmlookup (tt_runs db') p = Some row'" "row_kept row row'" using k rv(2) by (auto simp: rows_kept_def)
  have s: "tr_Status row' = tr_Status row \<or> tr_Status row' \<notin> {Task_running, Task_failed}" using st rv(2) row'(1) by (auto simp: status_kept_def)
  have "run_fine revision (tt_runs db') p row' (node_runs_of db p)"
    using rv(3) row'(2) s runs_ok_rows [OF _ k] unfolding run_fine_def row_kept_def by auto
  then show ?thesis using Some w n r [OF rv(1)] row'(1) by (simp add: run_entry_def)
qed (use e w n in \<open>simp add: run_entry_def\<close>)

lemma run_entryE:
  assumes "run_entry db p" and "fmlookup (tt_workflow_runs db) p = Some rid"
  obtains revision row where "fmlookup (tt_revisions db) rid = Some revision" "fmlookup (tt_runs db) p = Some row"
    "run_fine revision (tt_runs db) p row (node_runs_of db p)"
  using assms by (auto simp: run_entry_def split: option.splits)

lemma run_entry_known: "run_entry db p \<Longrightarrow> node_runs_of db p \<noteq> fmempty \<Longrightarrow> fmlookup (tt_workflow_runs db) p \<noteq> None"
  by (cases "fmlookup (tt_workflow_runs db) p") (simp_all add: run_entry_def)

text \<open>An operation on one run.\<close>

lemma tables_ok_frame:
  assumes ok: "tables_ok db" and w: "tt_workflow_runs db' = tt_workflow_runs db" and r: "tt_revisions db' = tt_revisions db"
    and n: "\<And>q. q \<noteq> p \<Longrightarrow> node_runs_of db' q = node_runs_of db q"
    and k: "rows_kept (tt_runs db) (tt_runs db')" and st: "\<And>q. q \<noteq> p \<Longrightarrow> status_kept (tt_runs db) (tt_runs db') q"
    and p: "run_entry db' p"
  shows "tables_ok db'"
  unfolding tables_ok_def
proof (intro conjI allI)
  fix q
  show "run_entry db' q"
  proof (cases "q = p")
    case False
    have "run_entry db q" using ok by (simp add: tables_ok_def)
    then show ?thesis by (rule run_entry_frame [OF _ _ n [OF False] _ k st [OF False]]) (simp_all add: w r)
  qed (use p in simp)
qed (use ok r in \<open>simp add: tables_ok_def\<close>)

lemma node_runs_set [simp]:
  "node_runs_of (set_node_runs p runs db) q = (if q = p then runs else node_runs_of db q)"
  "node_runs_of (set_task t task db) q = node_runs_of db q" "node_runs_of (set_task_run c row db) q = node_runs_of db q"
  "node_runs_of (db\<lparr>tt_workflow_runs := w\<rparr>) q = node_runs_of db q"
  by (simp_all add: node_runs_of_def set_node_runs_def set_task_def set_task_run_def)

lemma set_tables [simp]:
  "tt_runs (set_node_runs p runs db) = tt_runs db" "tt_runs (set_task t task db) = tt_runs db"
  "tt_runs (set_task_run c row db) = fmupd c row (tt_runs db)"
  "tt_tasks (set_node_runs p runs db) = tt_tasks db" "tt_tasks (set_task t task db) = fmupd t task (tt_tasks db)"
  "tt_tasks (set_task_run c row db) = tt_tasks db"
  "tt_workflow_runs (set_node_runs p runs db) = tt_workflow_runs db" "tt_workflow_runs (set_task t task db) = tt_workflow_runs db"
  "tt_workflow_runs (set_task_run c row db) = tt_workflow_runs db"
  "tt_revisions (set_node_runs p runs db) = tt_revisions db" "tt_revisions (set_task t task db) = tt_revisions db"
  "tt_revisions (set_task_run c row db) = tt_revisions db"
  by (simp_all add: set_node_runs_def set_task_def set_task_run_def)

lemma hydrate_stored: "hydrateWorkflowV2Revision digest db rid = Inr revision \<Longrightarrow> fmlookup (tt_revisions db) rid = Some revision"
  by (auto simp: hydrateWorkflowV2Revision_def split: option.splits if_splits)

lemma task_tx_cases:
  assumes "run_tx io body db = (db', r)"
  obtains "db' = db" "\<And>v. r = Inr v \<Longrightarrow> body db = Inr (db', v)" | v where "body db = Inr (db', v)" "\<And>u. r = Inr u \<Longrightarrow> u = v"
  using assms by (cases io) (auto split: sum.splits prod.splits)

lemma task_tx_ok: "run_tx io body db = (db', Inr v) \<Longrightarrow> body db = Inr (db', v)"
  by (cases io) (auto split: sum.splits prod.splits)

subsection \<open>Every operation keeps the tables consistent\<close>

lemma first_runs_lookup:
  assumes "distinct (map wn_ID nodes)"
  shows "fmlookup (first_runs rid nodes) i = map_option (\<lambda>n. \<lparr>nr_RevisionID = rid, nr_ChildTaskRunID = None,
    nr_Status = (if wn_Type n = Node_start then Run_succeeded else Run_pending), nr_Attempt = 0\<rparr>) (node_of nodes i)"
  using assms
proof (induction nodes rule: rev_induct)
  case Nil
  show ?case by (simp add: first_runs_def node_of_def)
next
  case (snoc n nodes)
  have "node_of (nodes @ [n]) i = (if i = wn_ID n then Some n else node_of nodes i)"
  proof (cases "i = wn_ID n")
    case True
    then show ?thesis using node_of_in [OF snoc.prems, of n] by simp
  next
    case False
    then show ?thesis by (induction nodes) (auto simp: node_of_def)
  qed
  with snoc show ?case by (simp add: first_runs_def)
qed

lemma first_runs_ok:
  assumes d: "distinct (map wn_ID nodes)"
  shows "runs_ok rid nodes edges rows p (first_runs rid nodes)"
proof -
  have "fset (fmdom (first_runs rid nodes)) = node_ids nodes"
  proof (intro set_eqI iffI)
    fix i assume "i \<in> fset (fmdom (first_runs rid nodes))"
    then show "i \<in> node_ids nodes" by (auto simp: fmlookup_dom_iff first_runs_lookup [OF d] node_of_within)
  next
    fix i assume "i \<in> node_ids nodes"
    then obtain n where "n \<in> set nodes" "i = wn_ID n" by (auto simp: node_ids_def)
    then show "i \<in> fset (fmdom (first_runs rid nodes))" using node_of_in [OF d] by (simp add: fmlookup_dom_iff first_runs_lookup [OF d])
  qed
  moreover have "nr_RevisionID run = rid \<and> node_ok nodes edges rows p (first_runs rid nodes) i run"
    if "fmlookup (first_runs rid nodes) i = Some run" for i run
    using that by (auto simp: first_runs_lookup [OF d] node_ok_def split: if_splits)
  ultimately show "runs_ok rid nodes edges rows p (first_runs rid nodes)" by (simp add: runs_ok_def)
qed

lemma start_rows_cases:
  assumes "start_rows digest policy p db taskID expected = Inr db'"
  obtains rid revision row where "hydrateWorkflowV2Revision digest db rid = Inr revision"
    "fmlookup (tt_runs db) p = None" "fmlookup (tt_workflow_runs db) p = None"
    "tr_WorkflowRevisionID row = Some rid" "tr_Status row = Task_running"
    "tt_runs db' = fmupd p row (tt_runs db)" "tt_revisions db' = tt_revisions db"
    "tt_workflow_runs db' = fmupd p rid (tt_workflow_runs db)"
    "\<And>q. node_runs_of db' q = (if q = p then first_runs rid (wr_Nodes revision) else node_runs_of db q)"
proof (cases "fmlookup (tt_tasks db) taskID")
  case None
  with assms show thesis by (simp add: start_rows_def)
next
  case (Some current)
  show thesis
  proof (cases "td_revision (tk_Definition current)")
    case None
    with assms Some show thesis by (simp add: start_rows_def split: if_splits option.splits)
  next
    case rv: (Some rv)
    obtain rid version where rid: "rv = (rid, version)" by (cases rv)
    show thesis
    proof (cases "hydrateWorkflowV2Revision digest db rid")
      case (Inl e)
      with assms Some rv rid show thesis by (simp add: start_rows_def split: if_splits option.splits)
    next
      case (Inr revision)
      let ?row = "\<lparr>tr_TaskID = taskID, tr_WorkflowRevisionID = Some rid, tr_ParentWorkflowTaskRunID = None,
        tr_WorkflowNodeID = [], tr_Status = Task_running, tr_Attempt = next_attempt db taskID, tr_ExitCode = None, tr_ResultCode = []\<rparr>"
      have none: "fmlookup (tt_runs db) p = None" "fmlookup (tt_workflow_runs db) p = None"
        and db': "db' = set_task taskID (current\<lparr>tk_Status := Task_running, tk_Revision := tk_Revision current + 1,
            tk_CurrentRunID := Some p, tk_ExitCode := None, tk_ResultCode := []\<rparr>)
          (set_node_runs p (first_runs rid (wr_Nodes revision))
            ((set_task_run p ?row db)\<lparr>tt_workflow_runs := fmupd p rid (tt_workflow_runs (set_task_run p ?row db))\<rparr>))"
        using assms Some rv rid Inr by (simp_all add: start_rows_def Let_def split: if_splits option.splits)
      show thesis
        by (rule that [OF Inr none, of ?row]) (simp_all add: db')
    qed
  qed
qed

lemma start_tables_ok:
  assumes ok: "tables_ok db" and s: "start_rows digest policy p db taskID expected = Inr db'"
  shows "tables_ok db'"
  using s
proof (cases rule: start_rows_cases)
  case (1 rid revision row)
  have rv: "fmlookup (tt_revisions db) rid = Some revision" by (rule hydrate_stored [OF 1(1)])
  then have id: "wr_ID revision = rid" and g: "workflow_graph (wr_Nodes revision) (wr_Edges revision)" using ok by (auto simp: tables_ok_def)
  note f = first_runs_ok [OF workflow_graphD(1) [OF g]]
  have p: "run_entry db' p"
    using rv id f 1 by (simp add: run_entry_def run_fine_def)
  show ?thesis
    unfolding tables_ok_def
  proof (intro conjI allI)
    fix q
    show "run_entry db' q"
    proof (cases "q = p")
      case False
      have "run_entry db q" using ok by (simp add: tables_ok_def)
      then show ?thesis
        by (rule run_entry_frame) (use 1 False in \<open>simp_all add: rows_kept_new status_kept_upd\<close>)
    qed (use p in simp)
  qed (use ok 1 in \<open>simp add: tables_ok_def\<close>)
qed

lemma tick_rows_cases:
  assumes "tick_rows digest json limit fresh db taskID = Inr (db', res)"
  obtains (idle) parent where "fmlookup (tt_tasks db) taskID = Some parent" "nothing_to_tick parent" "db' = db" "ti_Finished res = False"
      "ti_ScheduledCount res = 0"
    | (ticked) parent p row rid revision where "fmlookup (tt_tasks db) taskID = Some parent" "\<not> nothing_to_tick parent"
      "tk_CurrentRunID parent = Some p" "fmlookup (tt_runs db) p = Some row" "tr_Status row = Task_running"
      "tr_WorkflowRevisionID row = Some rid" "fmlookup (tt_workflow_runs db) p = Some rid"
      "fmlookup (tt_revisions db) rid = Some revision" "tick_passes json limit fresh db taskID parent p revision = Inr (db', res)"
proof (cases "fmlookup (tt_tasks db) taskID")
  case None
  with assms show thesis by (simp add: tick_rows_def)
next
  case (Some parent)
  show thesis
  proof (cases "nothing_to_tick parent")
    case True
    with assms Some have "db' = db" "res = \<lparr>ti_Task = parent, ti_ScheduledCount = 0, ti_Finished = False\<rparr>"
      by (simp_all add: tick_rows_def)
    then show thesis using idle [OF Some True] by simp
  next
    case False
    then obtain p where p: "tk_CurrentRunID parent = Some p" by (auto simp: nothing_to_tick_def)
    obtain row where row: "fmlookup (tt_runs db) p = Some row"
      using assms Some False p by (cases "fmlookup (tt_runs db) p") (simp_all add: tick_rows_def)
    with assms Some False p have st: "tr_Status row = Task_running" "tr_WorkflowRevisionID row \<noteq> None"
        "fmlookup (tt_workflow_runs db) p = tr_WorkflowRevisionID row"
      by (simp_all add: tick_rows_def split: if_splits)
    then obtain rid where rid: "tr_WorkflowRevisionID row = Some rid" by auto
    show thesis
    proof (cases "hydrateWorkflowV2Revision digest db rid")
      case (Inl e)
      with assms Some False p row st rid show thesis by (simp add: tick_rows_def Let_def split: if_splits)
    next
      case (Inr revision)
      with assms Some False p row st rid have "tick_passes json limit fresh db taskID parent p revision = Inr (db', res)"
        by (simp add: tick_rows_def Let_def split: if_splits)
      then show thesis using ticked [OF Some False p row st(1) rid] st(3) rid hydrate_stored [OF Inr] by simp
    qed
  qed
qed

lemma conclude_cases:
  assumes "(db', res) = conclude taskID parent p revision changed s"
  obtains (finished) "all_terminal (wr_Nodes revision) (sc_runs s)" "ti_Finished res"
      "(tk_Status (ti_Task res), tk_ResultCode (ti_Task res)) =
        (fst (outcome (wr_FailurePolicy revision) (wr_Nodes revision) (sc_runs s)),
         fst (snd (outcome (wr_FailurePolicy revision) (wr_Nodes revision) (sc_runs s))))"
      "tt_tasks db' = fmupd taskID (ti_Task res) (tt_tasks (sc_db s))"
      "\<And>row. fmlookup (tt_runs (sc_db s)) p = Some row \<Longrightarrow> \<exists>row'. tt_runs db' = fmupd p row' (tt_runs (sc_db s)) \<and> row_kept row row' \<and>
         tr_Status row' = tk_Status (ti_Task res)"
    | (going_on) "\<not> all_terminal (wr_Nodes revision) (sc_runs s)" "\<not> ti_Finished res" "tt_runs db' = tt_runs (sc_db s)"
proof (cases "all_terminal (wr_Nodes revision) (sc_runs s)")
  case True
  with assms show thesis
    by (intro finished) (auto simp: conclude_def Let_def row_kept_def split: prod.splits option.splits)
next
  case False
  with assms show thesis by (intro going_on) (auto simp: conclude_def Let_def split: if_splits)
qed

lemma conclude_tables:
  assumes "(db', res) = conclude taskID parent p revision changed s"
  shows "node_runs_of db' q = (if q = p then sc_runs s else node_runs_of (sc_db s) q)"
    and "tt_workflow_runs db' = tt_workflow_runs (sc_db s)" and "tt_revisions db' = tt_revisions (sc_db s)"
    and "ti_ScheduledCount res = sc_count s"
  using assms by (auto simp: conclude_def Let_def split: prod.splits option.splits if_splits)

lemma outcome_incomplete: "\<not> finish_succeeded nodes runs \<Longrightarrow> fst (outcome policy nodes runs) = Task_failed"
  by (simp add: outcome_def)

lemma terminal_lookup:
  assumes "all_terminal nodes runs" and "n \<in> set nodes"
  obtains run where "fmlookup runs (wn_ID n) = Some run" "workflowV2NodeTerminal (nr_Status run)"
  using assms by (auto simp: all_terminal_def list_all_iff split: option.splits)

lemma all_terminal_rows:
  assumes t: "all_terminal nodes runs" and d: "fset (fmdom runs) = node_ids nodes" and r: "fmlookup runs i = Some run"
  shows "workflowV2NodeTerminal (nr_Status run)"
proof -
  from r have "i \<in> fset (fmdom runs)" by (auto simp: fmlookup_dom_iff)
  then obtain n where n: "n \<in> set nodes" "i = wn_ID n" using d by (auto simp: node_ids_def)
  show ?thesis by (rule terminal_lookup [OF t n(1)]) (use r n(2) in simp)
qed

lemma finish_skipped_progressed:
  assumes "finish_skipped nodes runs" and "progressed runs runs'"
  shows "finish_skipped nodes runs'"
  unfolding finish_skipped_def
proof (intro ballI impI)
  fix n assume n: "n \<in> set nodes" "wn_Type n = Node_finish"
  with assms(1) obtain run where r: "fmlookup runs (wn_ID n) = Some run" "nr_Status run = Run_skipped"
    by (auto simp: finish_skipped_def)
  obtain run' where "fmlookup runs' (wn_ID n) = Some run'" "advanced run run'" by (rule progressed_lookup [OF assms(2) r(1)])
  with r show "map_option nr_Status (fmlookup runs' (wn_ID n)) = Some Run_skipped" by (simp add: advanced_def)
qed

lemma finish_skipped_outcome: "finish_skipped nodes runs \<Longrightarrow> \<not> finish_succeeded nodes runs"
  unfolding finish_succeeded_def
proof (induction nodes)
  case (Cons n nodes)
  then have "\<not> (case fmlookup runs (wn_ID n) of None \<Rightarrow> False
      | Some run \<Rightarrow> if workflowV2NodeTerminal (nr_Status run) \<and> wn_Type n = Node_finish then nr_Status run = Run_succeeded else False)"
    by (auto simp: finish_skipped_def split: option.splits)
  with Cons show ?case by (simp add: finish_skipped_def)
qed simp

lemma tick_branches:
  assumes ok: "tables_ok db" and t: "tick_rows digest json limit fresh db taskID = Inr (db', res)"
  obtains (idle) parent where "fmlookup (tt_tasks db) taskID = Some parent" "nothing_to_tick parent" "db' = db" "ti_Finished res = False"
      "ti_ScheduledCount res = 0"
    | (ticked) parent p row revision s settled where "fmlookup (tt_tasks db) taskID = Some parent" "\<not> nothing_to_tick parent"
      "tk_CurrentRunID parent = Some p" "fmlookup (tt_runs db) p = Some row" "tr_Status row = Task_running"
      "fmlookup (tt_workflow_runs db) p = Some (wr_ID revision)" "fmlookup (tt_revisions db) (wr_ID revision) = Some revision"
      "workflow_graph (wr_Nodes revision) (wr_Edges revision)" "run_fine revision (tt_runs db) p row (node_runs_of db p)"
      "sched_inv (effective_parallelism limit (wr_MaximumParallelism revision)) revision p db settled s"
      "progressed (node_runs_of db p) settled" "children_of settled = children_of (node_runs_of db p)"
      "(db', res) = conclude taskID parent p revision (sc_runs s \<noteq> node_runs_of db p) s"
      "0 < limit \<Longrightarrow> all_terminal (wr_Nodes revision) (sc_runs s) \<or> (\<exists>i run. fmlookup (sc_runs s) i = Some run \<and> nr_Status run = Run_running)"
      "\<And>i run. fmlookup settled i = Some run \<Longrightarrow> nr_Status run = Run_running \<Longrightarrow> child_unfinished (tt_runs db) run"
  using t
proof (cases rule: tick_rows_cases)
  case (ticked parent p row rid revision)
  have id: "wr_ID revision = rid" and g: "workflow_graph (wr_Nodes revision) (wr_Edges revision)"
    using ok ticked(8) by (auto simp: tables_ok_def)
  have "run_entry db p" using ok by (simp add: tables_ok_def)
  then have fine: "run_fine revision (tt_runs db) p row (node_runs_of db p)"
    using ticked(4,7,8) by (simp add: run_entry_def)
  then have rok: "revision_runs_ok revision (tt_runs db) p (node_runs_of db p)"
    by (simp add: run_fine_def)
  have wr: "fmlookup (tt_workflow_runs db) p = Some (wr_ID revision)" "fmlookup (tt_revisions db) (wr_ID revision) = Some revision"
    using ticked(7,8) id by simp_all
  show thesis
  proof (rule tick_passes_spec [OF g rok ticked(9)], goal_cases)
    case (1 s settled)
    show thesis by (rule that(2) [OF ticked(1-5) wr g fine 1(1-5)]) (assumption, rule 1(6))
  qed
qed (rule that(1))

lemma tick_tables_ok:
  assumes ok: "tables_ok db" and t: "tick_rows digest json limit fresh db taskID = Inr (db', res)"
  shows "tables_ok db'"
  using ok t
proof (cases rule: tick_branches)
  case (ticked parent p row revision s settled)
  note inv = sched_invD [OF ticked(10)]
  note same = conclude_tables [OF ticked(13)]
  have row: "fmlookup (tt_runs (sc_db s)) p = Some row" using inv(5) ticked(4) by (simp add: rows_extended_def)
  have tid: "tr_WorkflowRevisionID row = Some (wr_ID revision)" using ticked(9) by (simp add: run_fine_def)
  have kept: "rows_kept (tt_runs db) (tt_runs (sc_db s))" by (rule rows_extended_kept [OF inv(5)])
  have "rows_kept (tt_runs db) (tt_runs db') \<and> (\<forall>q. q \<noteq> p \<longrightarrow> status_kept (tt_runs db) (tt_runs db') q) \<and>
    (\<exists>row'. fmlookup (tt_runs db') p = Some row' \<and> run_fine revision (tt_runs db') p row' (sc_runs s))"
    using ticked(13)
  proof (cases rule: conclude_cases)
    case finished
    obtain row' where row': "tt_runs db' = fmupd p row' (tt_runs (sc_db s))" "row_kept row row'" "tr_Status row' = tk_Status (ti_Task res)"
      using finished(5) [OF row] by blast
    have k: "rows_kept (tt_runs (sc_db s)) (tt_runs db')" unfolding row'(1) by (rule rows_kept_upd [OF row row'(2)])
    have rok: "revision_runs_ok revision (tt_runs db') p (sc_runs s)" by (rule runs_ok_rows [OF inv(1) k])
    have rest: "resting (sc_runs s)"
      using all_terminal_rows [OF finished(1)] inv(1) unfolding resting_def runs_ok_def by fastforce
    have "run_fine revision (tt_runs db') p row' (sc_runs s)"
      using rok rest tid row'(2) by (simp add: run_fine_def row_kept_def)
    moreover have "status_kept (tt_runs db) (tt_runs db') q" if "q \<noteq> p" for q
      by (rule status_kept_trans [OF kept status_kept_extended [OF inv(5)]]) (simp add: row'(1) status_kept_upd that [symmetric])
    ultimately show ?thesis using rows_kept_trans [OF kept k] row'(1) by auto
  next
    case going_on
    have "run_fine revision (tt_runs db') p row (sc_runs s)"
      using ticked(5) inv(1) tid going_on(3) by (simp add: run_fine_def)
    then show ?thesis using going_on(3) kept status_kept_extended [OF inv(5)] row by auto
  qed
  then obtain row' where f: "rows_kept (tt_runs db) (tt_runs db')" "\<And>q. q \<noteq> p \<Longrightarrow> status_kept (tt_runs db) (tt_runs db') q"
      "fmlookup (tt_runs db') p = Some row'" "run_fine revision (tt_runs db') p row' (sc_runs s)" by blast
  have other: "tt_workflow_runs db' = tt_workflow_runs db" "tt_revisions db' = tt_revisions db"
      "\<And>q. q \<noteq> p \<Longrightarrow> node_runs_of db' q = node_runs_of db q"
    using same inv(6) by (simp_all add: other_tables_same_def node_runs_of_def)
  have "run_entry db' p" using f(3,4) by (simp add: run_entry_def other(1,2) ticked(6,7) same(1))
  with ok other f(1,2) show ?thesis by (rule tables_ok_frame)
qed (use ok in simp)

lemma retry_rows_cases:
  assumes "retry_rows digest policy db taskID expected nodeID = Inr (db', res)"
  obtains parent p row rid revision n target where "fmlookup (tt_tasks db) taskID = Some parent" "tk_CurrentRunID parent = Some p"
    "fmlookup (tt_runs db) p = Some row" "tr_Status row = Task_failed" "tr_WorkflowRevisionID row = Some rid"
    "fmlookup (tt_revisions db) rid = Some revision" "node_of (wr_Nodes revision) nodeID = Some n" "wn_Type n = Node_task"
    "fmlookup (node_runs_of db p) nodeID = Some target" "failed_child target"
    "(db', res) = retry_node db taskID parent p row rid nodeID target"
proof (cases "fmlookup (tt_tasks db) taskID")
  case None
  with assms show thesis by (simp add: retry_rows_def)
next
  case (Some parent)
  show thesis
  proof (cases "policy \<noteq> None \<or> tk_CurrentRunID parent = None")
    case True
    with assms Some show thesis by (auto simp: retry_rows_def split: if_splits)
  next
    case False
    then obtain p where p: "tk_CurrentRunID parent = Some p" "policy = None" by auto
    show thesis
    proof (cases "fmlookup (tt_runs db) p")
      case None
      with assms Some p show thesis by (simp add: retry_rows_def split: if_splits)
    next
      case row: (Some row)
      with assms Some p have st: "tr_Status row = Task_failed" "tr_WorkflowRevisionID row \<noteq> None"
        by (simp_all add: retry_rows_def split: if_splits)
      then obtain rid where rid: "tr_WorkflowRevisionID row = Some rid" by auto
      show thesis
      proof (cases "hydrateWorkflowV2Revision digest db rid")
        case (Inl e)
        with assms Some p row st rid show thesis by (simp add: retry_rows_def Let_def split: if_splits)
      next
        case (Inr revision)
        note known = assms Some p row st rid Inr
        have "map_option wn_Type (node_of (wr_Nodes revision) nodeID) = Some Node_task"
          using known by (simp add: retry_rows_def Let_def split: if_splits)
        then obtain n where n: "node_of (wr_Nodes revision) nodeID = Some n" "wn_Type n = Node_task" by auto
        show thesis
        proof (cases "fmlookup (node_runs_of db p) nodeID")
          case None
          with known n show thesis by (simp add: retry_rows_def Let_def split: if_splits)
        next
          case target: (Some target)
          with known n have "failed_child target" "(db', res) = retry_node db taskID parent p row rid nodeID target"
            by (simp_all add: retry_rows_def Let_def split: if_splits)
          then show thesis using that [OF Some p(1) row st(1) rid hydrate_stored [OF Inr] n target] by blast
        qed
      qed
    qed
  qed
qed

lemma retry_node_tables:
  assumes "(db', res) = retry_node db taskID parent p row rid nodeID target"
  shows "tt_workflow_runs db' = tt_workflow_runs db" "tt_revisions db' = tt_revisions db" "q \<noteq> p \<Longrightarrow> node_runs_of db' q = node_runs_of db q"
    and "re_NodeRun res = \<lparr>nr_RevisionID = rid, nr_ChildTaskRunID = None, nr_Status = Run_pending, nr_Attempt = nr_Attempt target + 1\<rparr>"
    and "node_runs_of db' p = (if re_Resumed res then fmmap unblock (fmupd nodeID (re_NodeRun res) (node_runs_of db p))
      else fmupd nodeID (re_NodeRun res) (node_runs_of db p))"
    and "tt_runs db' = (if re_Resumed res
      then fmupd p (row\<lparr>tr_Status := Task_running, tr_ExitCode := None, tr_ResultCode := []\<rparr>) (tt_runs db) else tt_runs db)"
    and "re_Resumed res \<longleftrightarrow> \<not> other_failures nodeID (node_runs_of db p)"
  using assms by (auto simp: retry_node_def Let_def split: if_splits)

lemma node_ok_other_runs: "node_ok nodes edges rows p runs i run \<Longrightarrow> nr_Status run \<noteq> Run_ready \<Longrightarrow> node_ok nodes edges rows p runs' i run"
  by (simp add: node_ok_def)

lemma node_ok_unblock:
  assumes "node_ok nodes edges rows p runs i run" and "nr_Status run \<noteq> Run_ready"
  shows "node_ok nodes edges rows p runs' i (unblock run)"
proof (cases "nr_ChildTaskRunID run = None \<and> nr_Status run = Run_blocked")
  case True
  obtain n where "node_of nodes i = Some n" "wn_Type n = Node_start \<Longrightarrow> nr_Status run = Run_succeeded"
    using assms(1) by (metis node_ok_node)
  with True show ?thesis by (auto simp: node_ok_def unblock_def)
next
  case False
  then show ?thesis using node_ok_other_runs [OF assms] by (auto simp: unblock_def)
qed

lemma retry_tables_ok:
  assumes ok: "tables_ok db" and t: "retry_rows digest policy db taskID expected nodeID = Inr (db', res)"
  shows "tables_ok db'"
  using t
proof (cases rule: retry_rows_cases)
  case (1 parent p row rid revision n target)
  note same = retry_node_tables [OF 1(11)]
  let ?runs = "node_runs_of db p" and ?retried = "re_NodeRun res"
  have e: "run_entry db p" and id: "wr_ID revision = rid" using ok 1(6) by (auto simp: tables_ok_def)
  have "node_runs_of db p \<noteq> fmempty" using 1(9) by auto
  then obtain rid' where w': "fmlookup (tt_workflow_runs db) p = Some rid'" using run_entry_known [OF e] by blast
  obtain revision' row' where "fmlookup (tt_revisions db) rid' = Some revision'" "fmlookup (tt_runs db) p = Some row'"
      "run_fine revision' (tt_runs db) p row' (node_runs_of db p)"
    by (rule run_entryE [OF e w'])
  moreover from this have "wr_ID revision' = rid'" using ok by (auto simp: tables_ok_def)
  ultimately have w: "fmlookup (tt_workflow_runs db) p = Some rid" and fine: "run_fine revision (tt_runs db) p row ?runs"
    using 1(3,5,6) w' by (auto simp: run_fine_def)
  then have rok: "revision_runs_ok revision (tt_runs db) p ?runs" and rest: "resting ?runs"
    using 1(4) by (simp_all add: run_fine_def)
  let ?mid = "fmupd nodeID ?retried ?runs"
  have dom: "fset (fmdom ?mid) = node_ids (wr_Nodes revision)" using rok 1(9) by (auto simp: runs_ok_def fmdomI)
  have row: "nr_RevisionID x = rid \<and> node_ok (wr_Nodes revision) (wr_Edges revision) (tt_runs db) p runs' i x \<and> nr_Status x \<notin> {Run_ready, Run_running}"
    if "fmlookup ?mid i = Some x" for i x runs'
  proof (cases "i = nodeID")
    case True
    with that 1(7,8) same(4) show ?thesis by (auto simp: node_ok_def)
  next
    case False
    with that have x: "fmlookup ?runs i = Some x" by simp
    then have "nr_Status x \<notin> {Run_ready, Run_running}" using rest by (simp add: resting_def)
    then show ?thesis using node_ok_other_runs [OF runs_ok_node [OF rok x]] x rok id by (simp add: runs_ok_def)
  qed
  have "run_entry db' p"
  proof (cases "re_Resumed res")
    case True
    let ?new = "fmmap unblock ?mid" and ?rows = "tt_runs db'"
    have k: "rows_kept (tt_runs db) ?rows" using True same(6) 1(3) by (simp add: rows_kept_upd row_kept_def)
    have nb: "node_ok (wr_Nodes revision) (wr_Edges revision) (tt_runs db) p ?new i (unblock x)" if "fmlookup ?mid i = Some x" for i x
      by (rule node_ok_unblock [of _ _ _ _ ?mid]) (use row [OF that, of ?mid] in auto)
    have ur: "nr_RevisionID (unblock x) = nr_RevisionID x" for x by (simp add: unblock_def)
    have "nr_RevisionID x = rid \<and> node_ok (wr_Nodes revision) (wr_Edges revision) (tt_runs db) p ?new i x"
      if "fmlookup ?new i = Some x" for i x
    proof -
      from that obtain y where y: "fmlookup ?mid i = Some y" "x = unblock y" by (auto simp del: fmupd_lookup)
      show ?thesis unfolding y(2) ur using row [OF y(1), of ?mid] nb [OF y(1)] by blast
    qed
    then have "revision_runs_ok revision (tt_runs db) p ?new"
      unfolding runs_ok_def id using dom by (metis fmdom_map)
    then have "revision_runs_ok revision ?rows p ?new" by (rule runs_ok_rows [OF _ k])
    then show ?thesis
      using True same(1,2,5,6) w 1(5,6) id by (simp add: run_entry_def run_fine_def)
  next
    case False
    have "revision_runs_ok revision (tt_runs db) p ?mid" using dom row id unfolding runs_ok_def by blast
    moreover have "resting ?mid" using row unfolding resting_def by blast
    ultimately show ?thesis
      using False same(1,2,5,6) w 1(3,5,6) id by (simp add: run_entry_def run_fine_def)
  qed
  moreover have "rows_kept (tt_runs db) (tt_runs db')" using same(6) 1(3) by (simp add: rows_kept_upd row_kept_def)
  moreover have "status_kept (tt_runs db) (tt_runs db') q" if "q \<noteq> p" for q using same(6) that by (simp add: status_kept_upd)
  ultimately show ?thesis using tables_ok_frame [OF ok same(1,2,3)] by blast
qed

text \<open>Cancelling.\<close>

lemma close_advanced: "\<not> workflowV2NodeTerminal (nr_Status run) \<Longrightarrow> workflowV2NodeTerminal status \<Longrightarrow> advanced run (run\<lparr>nr_Status := status\<rparr>)"
  by (simp add: advanced_def work_left_def)

lemma close_node_ok:
  assumes "node_ok nodes edges rows p runs i run" and "\<not> workflowV2NodeTerminal (nr_Status run)" and "workflowV2NodeTerminal status"
  shows "node_ok nodes edges rows p runs' i (run\<lparr>nr_Status := status\<rparr>)"
proof -
  have "status \<notin> {Run_pending, Run_ready, Run_running}" using assms(3) by auto
  moreover have "nr_Status run \<noteq> Run_succeeded" using assms(2) by auto
  ultimately show ?thesis using assms(1) by (auto simp: node_ok_def split: option.splits)
qed

lemma close_runs_ok:
  assumes "runs_ok rid nodes edges rows p runs" and "fmlookup runs i = Some run"
    and "\<not> workflowV2NodeTerminal (nr_Status run)" and "workflowV2NodeTerminal status"
  shows "runs_ok rid nodes edges rows p (fmupd i (run\<lparr>nr_Status := status\<rparr>) runs)"
  by (rule runs_ok_upd [OF assms(1,2) close_advanced [OF assms(3,4)] close_node_ok [OF runs_ok_node [OF assms(1,2)] assms(3,4)]])

definition cancel_inv :: "task_tables \<Rightarrow> node_runs \<Rightarrow> cancel_state \<Rightarrow> bool" where
  "cancel_inv db runs s \<longleftrightarrow>
     progressed runs (ca_runs s) \<and> rows_kept (tt_runs db) (tt_runs (ca_db s)) \<and> (\<forall>q. status_kept (tt_runs db) (tt_runs (ca_db s)) q) \<and>
     other_tables_same db (ca_db s) \<and>
     (\<forall>rid nodes edges p. runs_ok rid nodes edges (tt_runs db) p runs \<longrightarrow> runs_ok rid nodes edges (tt_runs (ca_db s)) p (ca_runs s))"

lemma cancel_node_cases:
  assumes "cancel_node p i s = Inr s'"
  obtains (same) "ca_db s' = ca_db s" "ca_runs s' = ca_runs s"
      "\<And>run. fmlookup (ca_runs s) i = Some run \<Longrightarrow> workflowV2NodeTerminal (nr_Status run) \<or>
        (\<exists>c row child. nr_ChildTaskRunID run = Some c \<and> fmlookup (tt_runs (ca_db s)) c = Some row \<and>
          tr_Status row = Task_running \<and> child \<in> set (ca_RunningChildren s') \<and> tk_CurrentRunID child = Some c \<and> tk_Status child = Task_running)"
      "set (ca_RunningChildren s) \<subseteq> set (ca_RunningChildren s')"
    | (closed) run status where "fmlookup (ca_runs s) i = Some run" "\<not> workflowV2NodeTerminal (nr_Status run)" "workflowV2NodeTerminal status"
        "ca_runs s' = fmupd i (run\<lparr>nr_Status := status\<rparr>) (ca_runs s)" "ca_RunningChildren s' = ca_RunningChildren s"
        "ca_db s' = ca_db s \<or>
         (\<exists>c row row' t task. fmlookup (tt_runs (ca_db s)) c = Some row \<and> row_kept row row' \<and> tr_Status row \<noteq> Task_running \<and> tr_Status row' = Task_cancelled \<and>
            ca_db s' = set_task_run c row' (set_task t task (ca_db s)))"
proof (cases "fmlookup (ca_runs s) i")
  case None
  with assms have "s' = s" by (simp add: cancel_node_def)
  with None show thesis using same by simp
next
  case (Some run)
  show thesis
  proof (cases "workflowV2NodeTerminal (nr_Status run)")
    case True
    with assms Some have "s' = s" by (simp add: cancel_node_def)
    with Some True show thesis using same by simp
  next
    case open_row: False
    show thesis
    proof (cases "nr_ChildTaskRunID run")
      case None
      with assms Some open_row have "s' = s\<lparr>ca_runs := fmupd i (run\<lparr>nr_Status := Run_cancelled\<rparr>) (ca_runs s)\<rparr>" by (simp add: cancel_node_def)
      then show thesis using closed [OF Some open_row, of Run_cancelled] by simp
    next
      case c: (Some c)
      with assms Some open_row have child: "cancel_child p i run c s = Inr s'" by (simp add: cancel_node_def)
      then obtain row where row: "fmlookup (tt_runs (ca_db s)) c = Some row" by (cases "fmlookup (tt_runs (ca_db s)) c") (simp_all add: cancel_child_def Let_def)
      with child obtain task where task: "fmlookup (tt_tasks (ca_db s)) (tr_TaskID row) = Some task"
        by (cases "fmlookup (tt_tasks (ca_db s)) (tr_TaskID row)") (simp_all add: cancel_child_def Let_def split: if_splits)
      with child row have cur: "tk_CurrentRunID task = Some c" by (simp add: cancel_child_def Let_def split: if_splits)
      show thesis
      proof (cases "tr_Status row = Task_running \<and> tk_Status task = Task_running")
        case True
        with child row task cur have "s' = s\<lparr>ca_RunningChildren := ca_RunningChildren s @ [task]\<rparr>"
          by (simp add: cancel_child_def Let_def split: if_splits)
        with Some c row True cur show thesis by (intro same) auto
      next
        case nr: False
        show thesis
        proof (cases "task_not_begun (tr_Status row) \<or> task_not_begun (tk_Status task)")
          case True
          with child row task cur nr have begun: "task_not_begun (tr_Status row)" by (auto simp: cancel_child_def Let_def split: if_splits)
          let ?row = "row\<lparr>tr_Status := Task_cancelled, tr_ExitCode := None, tr_ResultCode := ''cancelled''\<rparr>"
          have s': "ca_runs s' = fmupd i (run\<lparr>nr_Status := Run_cancelled\<rparr>) (ca_runs s)" "ca_RunningChildren s' = ca_RunningChildren s"
              "ca_db s' = set_task_run c ?row (set_task (tr_TaskID row) (task\<lparr>tk_Status := Task_cancelled, tk_Revision := tk_Revision task + 1,
                tk_ExitCode := None, tk_ResultCode := ''cancelled''\<rparr>) (ca_db s))"
            using child row task cur nr True by (auto simp: cancel_child_def Let_def split: if_splits)
          have "tr_Status row \<noteq> Task_running" using begun by (auto simp: task_not_begun_def)
          moreover have "row_kept row ?row" by (simp add: row_kept_def)
          moreover have "tr_Status ?row = Task_cancelled" by simp
          ultimately have "\<exists>c row row' t task. fmlookup (tt_runs (ca_db s)) c = Some row \<and> row_kept row row' \<and> tr_Status row \<noteq> Task_running \<and>
              tr_Status row' = Task_cancelled \<and> ca_db s' = set_task_run c row' (set_task t task (ca_db s))"
            using s'(3) row by blast
          with s'(1,2) show thesis using closed [OF Some open_row, of Run_cancelled] by simp
        next
          case False
          let ?st = "workflowV2NodeStatusForTaskStatus (tr_Status row)"
          have "ca_runs s' = fmupd i (run\<lparr>nr_Status := (if workflowV2NodeTerminal ?st then ?st else Run_cancelled)\<rparr>) (ca_runs s)"
              "ca_RunningChildren s' = ca_RunningChildren s" "ca_db s' = ca_db s"
            using child row task cur nr False by (auto simp: cancel_child_def Let_def split: if_splits)
          then show thesis using closed [OF Some open_row, of "if workflowV2NodeTerminal ?st then ?st else Run_cancelled"] by simp
        qed
      qed
    qed
  qed
qed

lemma cancel_inv_step:
  assumes inv: "cancel_inv db runs s" and c: "cancel_node p i s = Inr s'"
  shows "cancel_inv db runs s'"
  using c
proof (cases rule: cancel_node_cases)
  case same
  then show ?thesis using inv by (simp add: cancel_inv_def)
next
  case (closed run status)
  let ?rows = "tt_runs (ca_db s)" and ?rows' = "tt_runs (ca_db s')"
  have pr: "progressed (ca_runs s) (ca_runs s')"
    unfolding closed(4) by (rule progressed_upd [OF closed(1) close_advanced [OF closed(2,3)]])
  have "rows_kept ?rows ?rows' \<and> (\<forall>q. status_kept ?rows ?rows' q) \<and> other_tables_same (ca_db s) (ca_db s')"
    using closed(6)
  proof
    assume "ca_db s' = ca_db s"
    then show ?thesis by (simp add: other_tables_same_def)
  next
    assume "\<exists>c row row' t task. fmlookup ?rows c = Some row \<and> row_kept row row' \<and> tr_Status row \<noteq> Task_running \<and> tr_Status row' = Task_cancelled \<and>
            ca_db s' = set_task_run c row' (set_task t task (ca_db s))"
    then obtain c row row' t task where r: "fmlookup ?rows c = Some row" "row_kept row row'" "tr_Status row' = Task_cancelled"
        "ca_db s' = set_task_run c row' (set_task t task (ca_db s))" by blast
    then have "?rows' = fmupd c row' ?rows" by simp
    moreover have "other_tables_same (ca_db s) (ca_db s')" unfolding r(4) by (simp add: other_tables_same_def set_task_def set_task_run_def)
    ultimately show ?thesis using r(1-3) by (simp add: rows_kept_upd status_kept_def)
  qed
  then have k: "rows_kept ?rows ?rows'" "\<And>q. status_kept ?rows ?rows' q" "other_tables_same (ca_db s) (ca_db s')" by blast+
  have old: "progressed runs (ca_runs s)" "rows_kept (tt_runs db) ?rows" "\<And>q. status_kept (tt_runs db) ?rows q" "other_tables_same db (ca_db s)"
    and oks: "\<And>rid nodes edges p. runs_ok rid nodes edges (tt_runs db) p runs \<Longrightarrow> runs_ok rid nodes edges ?rows p (ca_runs s)"
    using inv unfolding cancel_inv_def by blast+
  have "runs_ok rid nodes edges ?rows' p (ca_runs s')" if "runs_ok rid nodes edges (tt_runs db) p runs" for rid nodes edges p
    unfolding closed(4) by (rule close_runs_ok [OF runs_ok_rows [OF oks [OF that] k(1)] closed(1-3)])
  moreover have "other_tables_same db (ca_db s')" using old(4) k(3) by (simp add: other_tables_same_def)
  ultimately show ?thesis
    unfolding cancel_inv_def
    using progressed_trans [OF old(1) pr] rows_kept_trans [OF old(2) k(1)] status_kept_trans [OF old(2) old(3) k(2)] by blast
qed

lemma other_tables_node_runs: "other_tables_same db db' \<Longrightarrow> node_runs_of db' q = node_runs_of db q"
  by (simp add: other_tables_same_def node_runs_of_def)

lemma cancel_rows_cases:
  assumes "cancel_rows policy db taskID expected = Inr (db', parent', children)"
  obtains parent p row s where "fmlookup (tt_tasks db) taskID = Some parent" "tk_CurrentRunID parent = Some p"
    "fmlookup (tt_runs db) p = Some row" "tr_Status row = Task_running" "cancel_inv db (node_runs_of db p) s"
    "fold_result (cancel_node p) (sorted_list_of_fset (fmdom (node_runs_of db p)))
       \<lparr>ca_db = db, ca_runs = node_runs_of db p, ca_RunningChildren = []\<rparr> = Inr s"
    "children = ca_RunningChildren s" "\<And>q. node_runs_of db' q = (if q = p then ca_runs s else node_runs_of db q)"
    "tt_workflow_runs db' = tt_workflow_runs db" "tt_revisions db' = tt_revisions db"
    "tt_runs db' = fmupd p (row\<lparr>tr_Status := Task_cancelled, tr_ExitCode := None, tr_ResultCode := ''cancelled''\<rparr>) (tt_runs (ca_db s))"
    "fmlookup (tt_tasks db') taskID = Some parent'" "tk_Status parent' = Task_cancelled" "tk_CurrentRunID parent' = Some p"
proof (cases "fmlookup (tt_tasks db) taskID")
  case None
  with assms show thesis by (simp add: cancel_rows_def)
next
  case (Some parent)
  show thesis
  proof (cases "policy \<noteq> None \<or> tk_CurrentRunID parent = None")
    case True
    with assms Some show thesis by (auto simp: cancel_rows_def split: if_splits)
  next
    case False
    then obtain p where p: "tk_CurrentRunID parent = Some p" "policy = None" by auto
    show thesis
    proof (cases "fmlookup (tt_runs db) p")
      case None
      with assms Some p show thesis by (simp add: cancel_rows_def split: if_splits)
    next
      case row: (Some row)
      with assms Some p have st: "tr_Status row = Task_running" by (simp add: cancel_rows_def split: if_splits)
      let ?init = "\<lparr>ca_db = db, ca_runs = node_runs_of db p, ca_RunningChildren = []\<rparr>"
      let ?fold = "fold_result (cancel_node p) (sorted_list_of_fset (fmdom (node_runs_of db p))) ?init"
      show thesis
      proof (cases ?fold)
        case (Inl e)
        with assms Some p row show thesis by (simp add: cancel_rows_def Let_def split: if_splits)
      next
        case (Inr s)
        have inv: "cancel_inv db (node_runs_of db p) s"
          by (rule fold_result_inv [OF Inr, where P = "cancel_inv db (node_runs_of db p)"])
            (simp add: cancel_inv_def other_tables_same_def, rule cancel_inv_step)
        then have same: "other_tables_same db (ca_db s)" by (simp add: cancel_inv_def)
        let ?parent = "parent\<lparr>tk_Status := Task_cancelled, tk_Revision := tk_Revision parent + 1, tk_ExitCode := None, tk_ResultCode := ''cancelled''\<rparr>"
        have out: "db' = set_task_run p (row\<lparr>tr_Status := Task_cancelled, tr_ExitCode := None, tr_ResultCode := ''cancelled''\<rparr>)
             (set_task taskID ?parent (set_node_runs p (ca_runs s) (ca_db s)))" "parent' = ?parent" "children = ca_RunningChildren s"
          using assms Some p row Inr by (auto simp: cancel_rows_def Let_def split: if_splits)
        have "node_runs_of db' q = (if q = p then ca_runs s else node_runs_of db q)" for q
          using other_tables_node_runs [OF same] by (simp add: out(1))
        then show thesis
          using that [OF Some p(1) row st inv Inr out(3)] same p(1) by (simp add: out(1,2) other_tables_same_def)
      qed
    qed
  qed
qed

lemma cancel_tables_ok:
  assumes ok: "tables_ok db" and t: "cancel_rows policy db taskID expected = Inr (db', parent', children)"
  shows "tables_ok db'"
  using t
proof (cases rule: cancel_rows_cases)
  case (1 parent p row s)
  let ?rows = "tt_runs (ca_db s)" and ?row = "row\<lparr>tr_Status := Task_cancelled, tr_ExitCode := None, tr_ResultCode := ''cancelled''\<rparr>"
  have inv: "rows_kept (tt_runs db) ?rows" "\<And>q. status_kept (tt_runs db) ?rows q" "progressed (node_runs_of db p) (ca_runs s)"
    and oks: "\<And>rid nodes edges. runs_ok rid nodes edges (tt_runs db) p (node_runs_of db p) \<Longrightarrow> runs_ok rid nodes edges ?rows p (ca_runs s)"
    using 1(5) unfolding cancel_inv_def by blast+
  obtain now where now: "fmlookup ?rows p = Some now" "row_kept row now" using inv(1) 1(3) by (auto simp: rows_kept_def)
  have "row_kept now ?row" using now(2) by (simp add: row_kept_def)
  then have k: "rows_kept ?rows (tt_runs db')" unfolding 1(11) by (rule rows_kept_upd [OF now(1)])
  have e: "run_entry db p" using ok by (simp add: tables_ok_def)
  have "run_entry db' p"
  proof (cases "fmlookup (tt_workflow_runs db) p")
    case None
    then have "node_runs_of db p = fmempty" using run_entry_known [OF e] by blast
    then have "ca_runs s = fmempty" using inv(3) by (metis progressed_def fmrestrict_fset_dom fmrestrict_fset_null fmdom_empty)
    then show ?thesis using None 1(8,9) by (simp add: run_entry_def)
  next
    case (Some rid)
    obtain revision row' where rv: "fmlookup (tt_revisions db) rid = Some revision" "fmlookup (tt_runs db) p = Some row'"
        "run_fine revision (tt_runs db) p row' (node_runs_of db p)"
      by (rule run_entryE [OF e Some])
    then have "run_fine revision (tt_runs db') p ?row (ca_runs s)"
      using 1(3) runs_ok_rows [OF oks k] by (simp add: run_fine_def)
    then show ?thesis using Some rv(1) 1(8-11) by (simp add: run_entry_def)
  qed
  moreover have "status_kept (tt_runs db) (tt_runs db') q" if "q \<noteq> p" for q
    by (rule status_kept_trans [OF inv(1,2)]) (simp add: 1(11) status_kept_upd that [symmetric])
  moreover have "node_runs_of db' q = node_runs_of db q" if "q \<noteq> p" for q using 1(8) that by simp
  ultimately show ?thesis using tables_ok_frame [OF ok 1(9,10) _ rows_kept_trans [OF inv(1) k]] by blast
qed

lemma finalize_advanced: "advanced run (finalize_run db run)"
proof (cases "workflowV2NodeTerminal (nr_Status run)")
  case False
  then show ?thesis
    by (cases "nr_ChildTaskRunID run"; simp add: finalize_run_def close_advanced Let_def split: option.split)
qed (simp add: finalize_run_def)

lemma finalize_node_ok:
  assumes "node_ok nodes edges rows p runs i run"
  shows "node_ok nodes edges rows p runs i (finalize_run db run)"
proof (cases "workflowV2NodeTerminal (nr_Status run)")
  case False
  then show ?thesis
    using close_node_ok [OF assms False] assms
    by (cases "nr_ChildTaskRunID run"; simp add: finalize_run_def Let_def split: option.split)
qed (use assms in \<open>simp add: finalize_run_def\<close>)

lemma finalize_rows_cases:
  assumes "finalize_rows db taskID expected = Inr (db', parent')"
  obtains parent p where "fmlookup (tt_tasks db) taskID = Some parent" "tk_CurrentRunID parent = Some p"
    "tk_Status parent = Task_cancelled" "td_workflow (tk_Definition parent)"
    "\<And>q. node_runs_of db' q = (if q = p then fmmap (finalize_run db) (node_runs_of db p) else node_runs_of db q)"
    "tt_workflow_runs db' = tt_workflow_runs db" "tt_revisions db' = tt_revisions db" "tt_runs db' = tt_runs db"
proof (cases "fmlookup (tt_tasks db) taskID")
  case None
  with assms show thesis by (simp add: finalize_rows_def)
next
  case (Some parent)
  show thesis
  proof (cases "tk_CurrentRunID parent")
    case None
    with assms Some show thesis by (simp add: finalize_rows_def split: if_splits)
  next
    case p: (Some p)
    let ?new = "fmmap (finalize_run db) (node_runs_of db p)"
    have st: "tk_Status parent = Task_cancelled" "td_workflow (tk_Definition parent)"
      using assms Some p by (simp_all add: finalize_rows_def split: if_splits)
    show thesis
    proof (cases "?new = node_runs_of db p")
      case True
      with assms Some p have "db' = db" by (simp add: finalize_rows_def Let_def split: if_splits)
      with True show thesis using that [OF Some p st] by simp
    next
      case False
      with assms Some p have "db' = set_task taskID (parent\<lparr>tk_Revision := tk_Revision parent + 1\<rparr>) (set_node_runs p ?new db)"
        by (auto simp: finalize_rows_def Let_def split: if_splits)
      then show thesis using that [OF Some p st] by simp
    qed
  qed
qed

lemma finalize_tables_ok:
  assumes ok: "tables_ok db" and t: "finalize_rows db taskID expected = Inr (db', parent')"
  shows "tables_ok db'"
  using t
proof (cases rule: finalize_rows_cases)
  case (1 parent p)
  let ?runs = "node_runs_of db p" and ?new = "fmmap (finalize_run db) (node_runs_of db p)"
  have e: "run_entry db p" using ok by (simp add: tables_ok_def)
  have pr: "progressed ?runs ?new" by (rule progressed_fmmap [OF finalize_advanced])
  have "run_entry db' p"
  proof (cases "fmlookup (tt_workflow_runs db) p")
    case None
    then have "?runs = fmempty" using run_entry_known [OF e] by blast
    then show ?thesis using None 1(5,6) by (simp add: run_entry_def)
  next
    case (Some rid)
    obtain revision row where rv: "fmlookup (tt_revisions db) rid = Some revision" "fmlookup (tt_runs db) p = Some row"
        "run_fine revision (tt_runs db) p row ?runs"
      by (rule run_entryE [OF e Some])
    then have rok: "revision_runs_ok revision (tt_runs db) p ?runs" by (simp add: run_fine_def)
    have each: "nr_RevisionID x = wr_ID revision \<and> node_ok (wr_Nodes revision) (wr_Edges revision) (tt_runs db) p ?new i x"
      if "fmlookup ?new i = Some x" for i x
    proof -
      from that obtain y where y: "fmlookup ?runs i = Some y" "x = finalize_run db y" by auto
      have "node_ok (wr_Nodes revision) (wr_Edges revision) (tt_runs db) p ?new i (finalize_run db y)"
        by (rule finalize_node_ok [OF node_ok_mono [OF runs_ok_node [OF rok y(1)] rows_kept_refl pr]])
      moreover have "nr_RevisionID (finalize_run db y) = nr_RevisionID y" using finalize_advanced [of y db] by (simp add: advanced_def)
      ultimately show ?thesis using rok y by (simp add: runs_ok_def)
    qed
    have "revision_runs_ok revision (tt_runs db) p ?new"
      using rok each unfolding runs_ok_def by (metis fmdom_map)
    moreover have "resting ?new" if "resting ?runs"
      unfolding resting_def
    proof (intro allI impI)
      fix i x assume "fmlookup ?new i = Some x"
      then obtain y where y: "fmlookup ?runs i = Some y" "x = finalize_run db y" by auto
      then have "nr_Status y \<notin> {Run_ready, Run_running}" using that by (simp add: resting_def)
      then show "nr_Status x \<notin> {Run_ready, Run_running}"
        unfolding y(2) finalize_run_def by (auto simp: Let_def split: option.splits)
    qed
    ultimately have "run_fine revision (tt_runs db) p row ?new" using rv(3) by (simp add: run_fine_def)
    then show ?thesis using Some rv(1,2) 1(5-8) by (simp add: run_entry_def)
  qed
  then show ?thesis using tables_ok_frame [OF ok 1(6,7)] 1(5,8) by (metis rows_kept_refl status_kept_refl)
qed

subsection \<open>Steps\<close>

text \<open>
  \<open>publish\<close> stores a revision whose graph was normalised; \<open>engine\<close> is
  the rest of the agent, which creates tasks and runs and changes their status,
  but leaves the identities in the rows of runs and does not fail or reopen the
  run of a workflow.
\<close>

inductive wf_step ::
  "(workflowV2Revision \<Rightarrow> string option) \<Rightarrow> (taskV2Definition \<Rightarrow> bytes option) \<Rightarrow> task_tables \<Rightarrow> task_tables \<Rightarrow> bool"
  for digest json where
  publish: "normalizeWorkflowV2Revision norm digest project parent draft version now = Inr revision \<Longrightarrow>
    fmlookup (tt_revisions db) (wr_ID revision) = None \<Longrightarrow>
    wf_step digest json db (db\<lparr>tt_revisions := fmupd (wr_ID revision) revision (tt_revisions db)\<rparr>)"
| engine: "rows_kept (tt_runs db) rows \<Longrightarrow>
    (\<And>p. fmlookup (tt_workflow_runs db) p \<noteq> None \<Longrightarrow> status_kept (tt_runs db) rows p) \<Longrightarrow>
    wf_step digest json db (db\<lparr>tt_tasks := tasks, tt_runs := rows\<rparr>)"
| start: "StartWorkflowRun digest io policy runID db taskID expected now = (db', r) \<Longrightarrow> wf_step digest json db db'"
| tick: "TickWorkflow digest json io fresh db taskID limit now = (db', t) \<Longrightarrow> wf_step digest json db db'"
| retry: "RetryWorkflowNode digest io policy db taskID expected nodeID now = (db', u) \<Longrightarrow> wf_step digest json db db'"
| cancel: "CancelWorkflow io policy db taskID expected now = (db', v) \<Longrightarrow> wf_step digest json db db'"
| finalize: "FinalizeCancelledWorkflow io db taskID expected now = (db', w) \<Longrightarrow> wf_step digest json db db'"

definition no_workflows :: "task_tables \<Rightarrow> bool" where
  "no_workflows db \<longleftrightarrow> tt_workflow_runs db = fmempty \<and> tt_node_runs db = fmempty \<and> tt_revisions db = fmempty"

definition wf_reachable ::
  "(workflowV2Revision \<Rightarrow> string option) \<Rightarrow> (taskV2Definition \<Rightarrow> bytes option) \<Rightarrow> task_tables \<Rightarrow> bool" where
  "wf_reachable digest json db \<longleftrightarrow> (\<exists>db0. no_workflows db0 \<and> (wf_step digest json)\<^sup>*\<^sup>* db0 db)"

lemma workflow_graph_set:
  assumes g: "workflow_graph ns es" and ns: "set ns' = set ns" "distinct (map wn_ID ns')" and es: "set es' = set es"
  shows "workflow_graph ns' es'"
proof -
  have "set (arrows_of es') = set (arrows_of es)" using es by (simp add: arrows_of_def)
  moreover have "edges_within ns' es'" using workflow_graphD(2) [OF g] ns(1) es by (simp add: edges_within_def node_ids_def)
  ultimately show ?thesis using g ns unfolding workflow_graph_def by simp
qed

lemma normalize_graph_workflow:
  assumes n: "normalize_graph norm project parentID nodes edges = Inr (ns, es)"
  shows "workflow_graph ns es"
proof -
  have sizes: "3 \<le> length nodes" "length nodes \<le> maximumWorkflowV2Nodes" "2 \<le> length edges" "length edges \<le> maximumWorkflowV2Edges"
    using n by (simp_all add: normalize_graph_def split: if_splits)
  obtain ns0 where ns0: "normalize_nodes norm project parentID [] [] nodes = Inr ns0" using n by (auto simp: normalize_graph_def split: if_splits sum.splits)
  then obtain es0 where es0: "normalize_edges ns0 [] edges = Inr es0" using n by (auto simp: normalize_graph_def split: if_splits sum.splits)
  from normalize_graph_exact [OF sizes ns0 es0] n
  have g: "workflow_graph ns0 es0" and out: "ns = sort_key wn_ID ns0" "es = sort_key we_ID es0" by (auto split: if_splits)
  have "distinct (map wn_ID ns)" using workflow_graphD(1) [OF g] by (simp add: out distinct_map)
  then show ?thesis by (intro workflow_graph_set [OF g]) (simp_all add: out)
qed

lemma normalized_workflow:
  assumes "normalizeWorkflowV2Revision norm digest project parent draft version now = Inr revision"
  shows "workflow_graph (wr_Nodes revision) (wr_Edges revision)"
proof -
  obtain ns es where g: "normalize_graph norm project (td_ID parent) (wr_Nodes draft) (wr_Edges draft) = Inr (ns, es)"
    using assms by (auto simp: normalizeWorkflowV2Revision_def Let_def split: if_splits sum.splits)
  with assms have "wr_Nodes revision = ns" "wr_Edges revision = es"
    by (auto simp: normalizeWorkflowV2Revision_def Let_def split: if_splits option.splits)
  with normalize_graph_workflow [OF g] show ?thesis by simp
qed

lemma publish_tables_ok:
  assumes ok: "tables_ok db" and n: "normalizeWorkflowV2Revision norm digest project parent draft version now = Inr revision"
    and new: "fmlookup (tt_revisions db) (wr_ID revision) = None"
  shows "tables_ok (db\<lparr>tt_revisions := fmupd (wr_ID revision) revision (tt_revisions db)\<rparr>)"
  unfolding tables_ok_def
proof (intro conjI allI impI)
  let ?db = "db\<lparr>tt_revisions := fmupd (wr_ID revision) revision (tt_revisions db)\<rparr>"
  fix p
  have "run_entry db p" using ok by (simp add: tables_ok_def)
  then show "run_entry ?db p"
    by (rule run_entry_frame) (use new in \<open>auto simp: node_runs_of_def\<close>)
qed (use ok normalized_workflow [OF n] in \<open>auto simp: tables_ok_def split: if_splits\<close>)

lemma engine_tables_ok:
  assumes ok: "tables_ok db" and k: "rows_kept (tt_runs db) rows"
    and st: "\<And>p. fmlookup (tt_workflow_runs db) p \<noteq> None \<Longrightarrow> status_kept (tt_runs db) rows p"
  shows "tables_ok (db\<lparr>tt_tasks := tasks, tt_runs := rows\<rparr>)"
  unfolding tables_ok_def
proof (intro conjI allI)
  let ?db = "db\<lparr>tt_tasks := tasks, tt_runs := rows\<rparr>"
  fix p
  have e: "run_entry db p" using ok by (simp add: tables_ok_def)
  have n: "node_runs_of ?db p = node_runs_of db p" by (simp add: node_runs_of_def)
  show "run_entry ?db p"
  proof (cases "fmlookup (tt_workflow_runs db) p")
    case None
    then show ?thesis using e n by (simp add: run_entry_def)
  next
    case (Some rid)
    show ?thesis by (rule run_entry_frame [OF e _ n]) (use k st [of p] Some in simp_all)
  qed
qed (use ok in \<open>simp add: tables_ok_def\<close>)

lemma start_cases:
  assumes "StartWorkflowRun digest io policy p db taskID expected now = (db', r)"
  obtains "db' = db" | "start_rows digest policy p db taskID expected = Inr db'"
proof (cases "taskID = [] \<or> expected = 0 \<or> IsZero now")
  case False
  let ?body = "\<lambda>db. case start_rows digest policy p db taskID expected of Inl e \<Rightarrow> Inl e | Inr db' \<Rightarrow> Inr (db', ())"
  have "run_tx io ?body db = (db', r)" using assms False by (simp add: StartWorkflowRun_def)
  then show thesis by (rule task_tx_cases) (use that in \<open>auto split: sum.splits\<close>)
qed (use assms that(1) in \<open>simp add: StartWorkflowRun_def\<close>)

lemma tick_rows_of:
  assumes "TickWorkflow digest json io fresh db taskID limit now = (db', r)"
  shows "db' = db \<or> (\<exists>v. tick_rows digest json limit fresh db taskID = Inr (db', v))"
    and "r = Inr res \<Longrightarrow> tick_rows digest json limit fresh db taskID = Inr (db', res) \<and> 0 < limit"
proof -
  show "db' = db \<or> (\<exists>v. tick_rows digest json limit fresh db taskID = Inr (db', v))"
  proof (cases "taskID = [] \<or> limit < 1 \<or> IsZero now")
    case False
    with assms obtain io' where "run_tx io' (\<lambda>db. tick_rows digest json limit fresh db taskID) db = (db', r)"
      by (auto simp: TickWorkflow_def Let_def)
    then show ?thesis by (rule task_tx_cases) auto
  qed (use assms in \<open>simp add: TickWorkflow_def\<close>)
  assume r: "r = Inr res"
  with assms have g: "\<not> (taskID = [] \<or> limit < 1 \<or> IsZero now)" by (auto simp: TickWorkflow_def split: if_splits)
  with assms r obtain io' where "run_tx io' (\<lambda>db. tick_rows digest json limit fresh db taskID) db = (db', Inr res)"
    by (auto simp: TickWorkflow_def Let_def)
  from task_tx_ok [OF this] g show "tick_rows digest json limit fresh db taskID = Inr (db', res) \<and> 0 < limit" by simp
qed

lemma retry_rows_of:
  assumes "RetryWorkflowNode digest io policy db taskID expected nodeID now = (db', r)"
  shows "db' = db \<or> (\<exists>v. retry_rows digest policy db taskID expected nodeID = Inr (db', v))"
    and "r = Inr res \<Longrightarrow> retry_rows digest policy db taskID expected nodeID = Inr (db', res)"
proof -
  show "db' = db \<or> (\<exists>v. retry_rows digest policy db taskID expected nodeID = Inr (db', v))"
  proof (cases "taskID = [] \<or> expected = 0 \<or> \<not> validWorkflowV2Identifier nodeID \<or> IsZero now")
    case False
    with assms have "run_tx io (\<lambda>db. retry_rows digest policy db taskID expected nodeID) db = (db', r)"
      by (simp add: RetryWorkflowNode_def)
    then show ?thesis by (rule task_tx_cases) auto
  qed (use assms in \<open>simp add: RetryWorkflowNode_def\<close>)
  assume "r = Inr res"
  with assms have "run_tx io (\<lambda>db. retry_rows digest policy db taskID expected nodeID) db = (db', Inr res)"
    by (auto simp: RetryWorkflowNode_def split: if_splits)
  from task_tx_ok [OF this] show "retry_rows digest policy db taskID expected nodeID = Inr (db', res)" .
qed

lemma cancel_rows_of:
  assumes "CancelWorkflow io policy db taskID expected now = (db', r)"
  shows "db' = db \<or> (\<exists>v. cancel_rows policy db taskID expected = Inr (db', v))"
    and "r = Inr res \<Longrightarrow> cancel_rows policy db taskID expected = Inr (db', res)"
proof -
  show "db' = db \<or> (\<exists>v. cancel_rows policy db taskID expected = Inr (db', v))"
  proof (cases "taskID = [] \<or> expected = 0 \<or> IsZero now")
    case False
    with assms have "run_tx io (\<lambda>db. cancel_rows policy db taskID expected) db = (db', r)" by (simp add: CancelWorkflow_def)
    then show ?thesis by (rule task_tx_cases) auto
  qed (use assms in \<open>simp add: CancelWorkflow_def\<close>)
  assume "r = Inr res"
  with assms have "run_tx io (\<lambda>db. cancel_rows policy db taskID expected) db = (db', Inr res)"
    by (auto simp: CancelWorkflow_def split: if_splits)
  from task_tx_ok [OF this] show "cancel_rows policy db taskID expected = Inr (db', res)" .
qed

lemma finalize_rows_of:
  assumes "FinalizeCancelledWorkflow io db taskID expected now = (db', r)"
  shows "db' = db \<or> (\<exists>v. finalize_rows db taskID expected = Inr (db', v))"
proof (cases "taskID = [] \<or> expected = 0 \<or> IsZero now")
  case False
  with assms have "run_tx io (\<lambda>db. finalize_rows db taskID expected) db = (db', r)" by (simp add: FinalizeCancelledWorkflow_def)
  then show ?thesis by (rule task_tx_cases) auto
qed (use assms in \<open>simp add: FinalizeCancelledWorkflow_def\<close>)

lemma step_tables_ok: "wf_step digest json db db' \<Longrightarrow> tables_ok db \<Longrightarrow> tables_ok db'"
proof (induction rule: wf_step.induct)
  case (publish norm project parent draft version now revision db)
  then show ?case using publish_tables_ok by blast
next
  case (engine db rows tasks)
  show ?case by (rule engine_tables_ok [OF engine(3) engine(1)]) (rule engine(2))
next
  case (start io policy runID db taskID expected now db' r)
  from start(1) show ?case by (rule start_cases) (use start(2) start_tables_ok in blast)+
next
  case (tick io fresh db taskID limit now db' t)
  with tick_rows_of(1) [OF tick(1)] tick_tables_ok show ?case by blast
next
  case (retry io policy db taskID expected nodeID now db' u)
  with retry_rows_of(1) [OF retry(1)] retry_tables_ok show ?case by blast
next
  case (cancel io policy db taskID expected now db' v)
  from cancel_rows_of(1) [OF cancel(1)] show ?case
  proof
    assume "\<exists>v. cancel_rows policy db taskID expected = Inr (db', v)"
    then obtain parent children where "cancel_rows policy db taskID expected = Inr (db', parent, children)" by auto
    with cancel(2) show ?case by (rule cancel_tables_ok)
  qed (use cancel(2) in simp)
next
  case (finalize io db taskID expected now db' w)
  with finalize_rows_of [OF finalize(1)] finalize_tables_ok show ?case by blast
qed

lemma reachable_tables_ok: "wf_reachable digest json db \<Longrightarrow> tables_ok db"
proof -
  assume "wf_reachable digest json db"
  then obtain db0 where z: "no_workflows db0" and r: "(wf_step digest json)\<^sup>*\<^sup>* db0 db" by (auto simp: wf_reachable_def)
  have "tables_ok db0" using z by (simp add: no_workflows_def tables_ok_def run_entry_def node_runs_of_def)
  with r show ?thesis by (induction rule: rtranclp_induct) (auto intro: step_tables_ok)
qed

lemma reachable_step: "wf_reachable digest json db \<Longrightarrow> wf_step digest json db db' \<Longrightarrow> wf_reachable digest json db'"
  unfolding wf_reachable_def by (meson rtranclp.rtrancl_into_rtrancl)

subsection \<open>What the steps leave\<close>

lemma tick_running:
  assumes reach: "wf_reachable digest json db"
    and t: "TickWorkflow digest json io fresh db taskID limit now = (db', Inr res)"
    and parent: "fmlookup (tt_tasks db) taskID = Some parent" "\<not> nothing_to_tick parent" "tk_CurrentRunID parent = Some p"
  obtains row revision s settled where "fmlookup (tt_runs db) p = Some row" "fmlookup (tt_workflow_runs db) p = Some (wr_ID revision)"
    "fmlookup (tt_revisions db) (wr_ID revision) = Some revision" "run_fine revision (tt_runs db) p row (node_runs_of db p)"
    "sched_inv (effective_parallelism limit (wr_MaximumParallelism revision)) revision p db settled s"
    "progressed (node_runs_of db p) settled" "children_of settled = children_of (node_runs_of db p)"
    "(db', res) = conclude taskID parent p revision (sc_runs s \<noteq> node_runs_of db p) s"
    "all_terminal (wr_Nodes revision) (sc_runs s) \<or> (\<exists>i run. fmlookup (sc_runs s) i = Some run \<and> nr_Status run = Run_running)"
    "\<And>i run. fmlookup settled i = Some run \<Longrightarrow> nr_Status run = Run_running \<Longrightarrow> child_unfinished (tt_runs db) run"
    "node_runs_of db' p = sc_runs s"
proof -
  have rows: "tick_rows digest json limit fresh db taskID = Inr (db', res)" and l: "0 < limit"
    using tick_rows_of(2) [OF t refl] by simp_all
  from reachable_tables_ok [OF reach] rows show thesis
  proof (cases rule: tick_branches)
    case idle
    with parent show thesis by simp
  next
    case (ticked parent' p' row revision s settled)
    then have p: "p' = p" "parent' = parent" using parent by simp_all
    show thesis
      by (rule that [OF ticked(4,6,7,9-13)[unfolded p] ticked(14) [OF l] ticked(15)])
        (use conclude_tables(1) [OF ticked(13)] p in simp_all)
  qed
qed

text \<open>The rows that are written back when a tick is over.\<close>

lemma conclude_row:
  assumes c: "(db', res) = conclude taskID parent p revision changed s" and x: "fmlookup (tt_runs (sc_db s)) c = Some x" "c \<noteq> p"
    and p: "fmlookup (tt_runs (sc_db s)) p = Some row"
  shows "fmlookup (tt_runs db') c = Some x"
  using c
proof (cases rule: conclude_cases)
  case finished
  then show ?thesis using finished(5) [OF p] x by auto
qed (use x in simp)

lemma tick_finish_skipped:
  assumes "wf_reachable digest json db" "TickWorkflow digest json io fresh db taskID limit now = (db', Inr res)"
    and "fmlookup (tt_tasks db) taskID = Some parent" "tk_CurrentRunID parent = Some p" "ti_Finished res"
    and skip: "\<And>revision. fmlookup (tt_workflow_runs db) p = Some (wr_ID revision) \<Longrightarrow> fmlookup (tt_revisions db) (wr_ID revision) = Some revision \<Longrightarrow>
      finish_skipped (wr_Nodes revision) (node_runs_of db p)"
  shows "tk_Status (ti_Task res) = Task_failed"
proof -
  have busy: "\<not> nothing_to_tick parent"
  proof
    assume "nothing_to_tick parent"
    then have "ti_Finished res = False" using tick_rows_of(2) [OF assms(2) refl] assms(3) by (auto simp: tick_rows_def)
    with assms(5) show False by simp
  qed
  show ?thesis
  proof (rule tick_running [OF assms(1-3) busy assms(4)], goal_cases)
    case (1 row revision s settled)
    have "progressed (node_runs_of db p) (sc_runs s)" by (rule progressed_trans [OF 1(6) sched_invD(2) [OF 1(5)]])
    then have "\<not> finish_succeeded (wr_Nodes revision) (sc_runs s)"
      by (intro finish_skipped_outcome finish_skipped_progressed [OF skip [OF 1(2,3)]])
    note failed = outcome_incomplete [OF this]
    from 1(8) show ?case by (cases rule: conclude_cases) (use failed assms(5) in simp_all)
  qed
qed

text \<open>A finish that was skipped stays skipped.\<close>

definition run_skipped :: "task_tables \<Rightarrow> string \<Rightarrow> bool" where
  "run_skipped db p \<longleftrightarrow>
     (case fmlookup (tt_workflow_runs db) p of
        None \<Rightarrow> False
      | Some rid \<Rightarrow> (case fmlookup (tt_revisions db) rid of
          None \<Rightarrow> False
        | Some revision \<Rightarrow> finish_skipped (wr_Nodes revision) (node_runs_of db p)))"

lemma run_skipped_frame:
  assumes "run_skipped db p" and "fmlookup (tt_workflow_runs db') p = fmlookup (tt_workflow_runs db) p"
    and "\<And>rid revision. fmlookup (tt_revisions db) rid = Some revision \<Longrightarrow> fmlookup (tt_revisions db') rid = Some revision"
    and "\<And>nodes. finish_skipped nodes (node_runs_of db p) \<Longrightarrow> finish_skipped nodes (node_runs_of db' p)"
  shows "run_skipped db' p"
proof -
  obtain rid revision where "fmlookup (tt_workflow_runs db) p = Some rid" "fmlookup (tt_revisions db) rid = Some revision"
      "finish_skipped (wr_Nodes revision) (node_runs_of db p)"
    using assms(1) by (auto simp: run_skipped_def split: option.splits)
  then show ?thesis using assms(2-4) by (simp add: run_skipped_def)
qed

lemma retry_skipped:
  assumes ok: "tables_ok db" and t: "retry_rows digest policy db taskID expected nodeID = Inr (db', res)" and sk: "run_skipped db p"
  shows "run_skipped db' p"
  using t
proof (cases rule: retry_rows_cases)
  case (1 parent q row rid revision n target)
  note same = retry_node_tables [OF 1(11)]
  show ?thesis
  proof (cases "p = q")
    case False
    show ?thesis by (rule run_skipped_frame [OF sk]) (simp_all add: same(1-3) False)
  next
    case True
    obtain rid' revision' where w: "fmlookup (tt_workflow_runs db) p = Some rid'" "fmlookup (tt_revisions db) rid' = Some revision'"
      and f: "finish_skipped (wr_Nodes revision') (node_runs_of db p)"
      using sk by (auto simp: run_skipped_def split: option.splits)
    have "run_entry db p" and id: "wr_ID revision' = rid'" "wr_ID revision = rid" using ok w(2) 1(6) by (auto simp: tables_ok_def)
    then have "run_fine revision' (tt_runs db) p row (node_runs_of db p)" using w 1(3) True by (simp add: run_entry_def)
    then have rv: "revision' = revision" using 1(5,6) w(2) id by (simp add: run_fine_def)
    have d: "distinct (map wn_ID (wr_Nodes revision))" using ok 1(6) workflow_graphD(1) by (auto simp: tables_ok_def)
    have "map_option nr_Status (fmlookup (node_runs_of db' p) (wn_ID m)) = Some Run_skipped"
      if m: "m \<in> set (wr_Nodes revision)" "wn_Type m = Node_finish" for m
    proof -
      have "wn_ID m \<noteq> nodeID" using node_of_in [OF d m(1)] 1(7,8) m(2) by auto
      moreover obtain run where "fmlookup (node_runs_of db p) (wn_ID m) = Some run" "nr_Status run = Run_skipped"
        using f m rv by (auto simp: finish_skipped_def)
      ultimately show ?thesis using same(5) True by (auto simp: unblock_def)
    qed
    then show ?thesis using w rv same(1,2) by (simp add: run_skipped_def finish_skipped_def)
  qed
qed

lemma step_skipped:
  assumes "wf_step digest json db db'" and "tables_ok db" and "run_skipped db p"
  shows "run_skipped db' p"
  using assms
proof (induction rule: wf_step.induct)
  case (publish norm project parent draft version now revision db)
  show ?case by (rule run_skipped_frame [OF publish(4)]) (use publish(2) in \<open>auto simp: node_runs_of_def\<close>)
next
  case (engine db rows tasks)
  show ?case by (rule run_skipped_frame [OF engine(4)]) (simp_all add: node_runs_of_def)
next
  case (start io policy runID db taskID expected now db' r)
  from start(1) show ?case
  proof (rule start_cases)
    assume "start_rows digest policy runID db taskID expected = Inr db'"
    then show ?case
    proof (cases rule: start_rows_cases)
      case (1 rid revision row)
      have "p \<noteq> runID" using start(3) 1(3) by (auto simp: run_skipped_def)
      then show ?thesis by (intro run_skipped_frame [OF start(3)]) (simp_all add: 1(7-9))
    qed
  qed (use start(3) in simp)
next
  case (tick io fresh db taskID limit now db' t)
  from tick_rows_of(1) [OF tick(1)] show ?case
  proof (elim disjE exE)
    fix v assume "tick_rows digest json limit fresh db taskID = Inr (db', v)"
    with tick(2) show ?case
    proof (cases rule: tick_branches)
      case (ticked parent q row revision s settled)
      note same = conclude_tables [OF ticked(13)] and inv = sched_invD [OF ticked(10)]
      have "progressed (node_runs_of db q) (sc_runs s)" by (rule progressed_trans [OF ticked(11) inv(2)])
      then show ?thesis
        using inv(6) other_tables_node_runs [OF inv(6)] finish_skipped_progressed
        by (intro run_skipped_frame [OF tick(3)]) (auto simp: same(1-3) other_tables_same_def)
    qed (use tick(3) in simp)
  qed (use tick(3) in simp)
next
  case (retry io policy db taskID expected nodeID now db' u)
  from retry_rows_of(1) [OF retry(1)] show ?case using retry_skipped [OF retry(2) _ retry(3)] retry(3) by blast
next
  case (cancel io policy db taskID expected now db' v)
  from cancel_rows_of(1) [OF cancel(1)] show ?case
  proof (elim disjE exE)
    fix v assume "cancel_rows policy db taskID expected = Inr (db', v)"
    then obtain parent' children where "cancel_rows policy db taskID expected = Inr (db', parent', children)" by (cases v) auto
    then show ?case
    proof (cases rule: cancel_rows_cases)
      case (1 parent q row s)
      have "progressed (node_runs_of db q) (ca_runs s)" using 1(5) by (simp add: cancel_inv_def)
      then show ?thesis
        using finish_skipped_progressed by (intro run_skipped_frame [OF cancel(3)]) (auto simp: 1(8-10))
    qed
  qed (use cancel(3) in simp)
next
  case (finalize io db taskID expected now db' w)
  from finalize_rows_of [OF finalize(1)] show ?case
  proof (elim disjE exE)
    fix v assume "finalize_rows db taskID expected = Inr (db', v)"
    then obtain parent' where "finalize_rows db taskID expected = Inr (db', parent')" by auto
    then show ?case
    proof (cases rule: finalize_rows_cases)
      case (1 parent q)
      have "progressed (node_runs_of db q) (fmmap (finalize_run db) (node_runs_of db q))" by (rule progressed_fmmap [OF finalize_advanced])
      then show ?thesis
        using finish_skipped_progressed by (intro run_skipped_frame [OF finalize(3)]) (auto simp: 1(5-7))
    qed
  qed (use finalize(3) in simp)
qed

lemma steps_skipped:
  assumes "(wf_step digest json)\<^sup>*\<^sup>* db db'" and "wf_reachable digest json db" and "run_skipped db p"
  shows "wf_reachable digest json db' \<and> run_skipped db' p"
  using assms
proof (induction rule: rtranclp_induct)
  case (step y z)
  then have y: "wf_reachable digest json y" "run_skipped y p" by simp_all
  from reachable_step [OF y(1) step(2)] step_skipped [OF step(2) reachable_tables_ok [OF y(1)] y(2)] show ?case by simp
qed simp

text \<open>The work that is left goes down.\<close>

lemma progressed_open_work:
  assumes pr: "progressed runs runs'"
  shows "open_work runs' \<le> open_work runs"
    and "fmlookup runs i = Some run \<Longrightarrow> fmlookup runs' i = Some run' \<Longrightarrow> work_left run' < work_left run \<Longrightarrow> open_work runs' < open_work runs"
proof -
  have d: "fmdom runs' = fmdom runs" using pr by (simp add: progressed_def)
  have le: "work_left (the (fmlookup runs' k)) \<le> work_left (the (fmlookup runs k))" if "k \<in> fset (fmdom runs)" for k
  proof -
    obtain x where x: "fmlookup runs k = Some x" using \<open>k \<in> fset (fmdom runs)\<close> by (auto simp: fmlookup_dom_iff)
    obtain y where "fmlookup runs' k = Some y" "advanced x y" by (rule progressed_lookup [OF pr x])
    with x show ?thesis by (simp add: advanced_def)
  qed
  then show "open_work runs' \<le> open_work runs" unfolding open_work_def d by (rule sum_mono)
  assume "fmlookup runs i = Some run" "fmlookup runs' i = Some run'" "work_left run' < work_left run"
  then have "\<exists>k\<in>fset (fmdom runs). work_left (the (fmlookup runs' k)) < work_left (the (fmlookup runs k))"
    by (intro bexI [of _ i]) (auto simp: fmlookup_dom_iff)
  with le show "open_work runs' < open_work runs" unfolding open_work_def d by (intro sum_strict_mono_ex1) auto
qed

lemma open_work_bound: "open_work runs \<le> 2 * fcard (fmdom runs)"
proof -
  have "open_work runs \<le> (\<Sum>i\<in>fset (fmdom runs). 2)" unfolding open_work_def by (rule sum_mono) (simp add: work_left_def)
  then show ?thesis by (simp add: fcard.rep_eq)
qed

text \<open>No run of a running node is still going.\<close>

definition children_done :: "task_tables \<Rightarrow> string \<Rightarrow> bool" where
  "children_done db p \<longleftrightarrow>
     (\<forall>i run. fmlookup (node_runs_of db p) i = Some run \<longrightarrow> nr_Status run = Run_running \<longrightarrow> \<not> child_unfinished (tt_runs db) run)"

lemma children_same:
  assumes "children_of a = children_of b" and "fmlookup a i = Some x" and "fmlookup b i = Some y"
  shows "nr_ChildTaskRunID x = nr_ChildTaskRunID y"
proof -
  have "fmlookup (children_of a) i = fmlookup (children_of b) i" using assms(1) by simp
  with assms(2,3) show ?thesis by (simp add: children_of_def)
qed

lemma tick_less_work:
  assumes reach: "wf_reachable digest json db"
    and t: "TickWorkflow digest json io fresh db taskID limit now = (db', Inr res)"
    and parent: "fmlookup (tt_tasks db) taskID = Some parent" "\<not> nothing_to_tick parent" "tk_CurrentRunID parent = Some p"
    and cd: "children_done db p" and open_tick: "\<not> ti_Finished res"
  shows "open_work (node_runs_of db' p) < open_work (node_runs_of db p)"
proof (rule tick_running [OF reach t parent], goal_cases)
  case (1 row revision s settled)
  note inv = sched_invD [OF 1(5)]
  let ?runs = "node_runs_of db p"
  have pr: "progressed ?runs (sc_runs s)" by (rule progressed_trans [OF 1(6) inv(2)])
  from 1(8) have "\<not> all_terminal (wr_Nodes revision) (sc_runs s)" by (cases rule: conclude_cases) (use open_tick in auto)
  then obtain i z where z: "fmlookup (sc_runs s) i = Some z" "nr_Status z = Run_running" using 1(9) by blast
  have "i |\<in>| fmdom ?runs" using z(1) pr by (metis progressed_def fmdomI)
  then obtain x where x: "fmlookup ?runs i = Some x" by (auto simp: fmlookup_dom_iff)
  obtain y where y: "fmlookup settled i = Some y" "advanced x y" by (rule progressed_lookup [OF 1(6) x])
  obtain z' where "fmlookup (sc_runs s) i = Some z'" "advanced y z'" by (rule progressed_lookup [OF inv(2) y(1)])
  with z have yz: "advanced y z" by simp
  have "work_left z < work_left x"
  proof (cases "nr_Status y = Run_running")
    case True
    have "child_unfinished (tt_runs db) y" by (rule 1(10) [OF y(1) True])
    moreover have "nr_ChildTaskRunID y = nr_ChildTaskRunID x" by (rule children_same [OF 1(7) y(1) x])
    ultimately have "child_unfinished (tt_runs db) x" by (simp add: child_unfinished_def)
    then have "nr_Status x \<noteq> Run_running" using cd x by (auto simp: children_done_def)
    moreover have "\<not> workflowV2NodeTerminal (nr_Status x)" using y(2) True by (auto simp: advanced_def)
    ultimately show ?thesis using z(2) by (simp add: work_left_def)
  next
    case False
    have "\<not> workflowV2NodeTerminal (nr_Status y)" using yz z(2) by (auto simp: advanced_def)
    then have "work_left y = 2" using False by (simp add: work_left_def)
    moreover have "work_left y \<le> work_left x" using y(2) by (simp add: advanced_def)
    ultimately show ?thesis using z(2) by (simp add: work_left_def)
  qed
  then show ?thesis unfolding 1(11) by (rule progressed_open_work(2) [OF pr x z(1)])
qed

text \<open>Cancelling leaves only nodes whose task was running.\<close>

lemma cancel_each:
  assumes "fold_result (cancel_node p) order s = Inr s'"
  shows "\<forall>i\<in>set order. \<forall>run. fmlookup (ca_runs s') i = Some run \<longrightarrow> workflowV2NodeTerminal (nr_Status run) \<or>
    (\<exists>c child. nr_ChildTaskRunID run = Some c \<and> child \<in> set (ca_RunningChildren s') \<and> tk_CurrentRunID child = Some c \<and> tk_Status child = Task_running)"
proof (rule fold_result_each [OF assms, where P = "\<lambda>_. True" and Q = "\<lambda>i s'. \<forall>run. fmlookup (ca_runs s') i = Some run \<longrightarrow>
    workflowV2NodeTerminal (nr_Status run) \<or> (\<exists>c child. nr_ChildTaskRunID run = Some c \<and> child \<in> set (ca_RunningChildren s') \<and>
      tk_CurrentRunID child = Some c \<and> tk_Status child = Task_running)"], goal_cases)
  case (3 i s s')
  from 3(3) show ?case
  proof (cases rule: cancel_node_cases)
    case same
    then show ?thesis by metis
  next
    case (closed run status)
    then show ?thesis by simp
  qed
next
  case (4 j i s s')
  from 4(3) show ?case
  proof (cases rule: cancel_node_cases)
    case same
    then show ?thesis using 4(4) by (metis subsetD)
  next
    case (closed run status)
    then show ?thesis using 4(4) by simp
  qed
qed simp_all

end
