(* ===== verification/Workflow_Rounds.thy ===== *)
theory Workflow_Rounds
  imports Workflow_Steps
begin

text \<open>
  When a tick does its work, and how often it can leave a workflow going. A
  tick of a running workflow fails in the consistent tables that the steps
  reach only for what other parts of the agent own: the rows of the task and of
  its run, the stored revision, the tasks of the nodes that may start, the
  identifiers of new runs, the transaction. \<open>tick_ready\<close> says that these are in
  order; then the tick returns a result, and rounds of such ticks, between
  which the started tasks end, are bounded by the number of nodes.
\<close>

subsection \<open>What a tick relies on\<close>

text \<open>The task of a node can be given a new run: it is the one the revision holds, of this workflow and project, and at rest.\<close>

definition launchable :: "(taskV2Definition \<Rightarrow> bytes option) \<Rightarrow> task_tables \<Rightarrow> string \<Rightarrow> taskV2Record \<Rightarrow> workflowV2Node \<Rightarrow> bool" where
  "launchable json db taskID parent n \<longleftrightarrow>
     (case (wn_TaskDefinitionID n, wn_TaskDefinition n) of
        (Some childID, Some definition) \<Rightarrow>
          (case fmlookup (tt_tasks db) childID of
             None \<Rightarrow> False
           | Some child \<Rightarrow>
               td_Scope (tk_Definition child) = Scope_workflowNode \<and> td_OwnerWorkflowTaskID (tk_Definition child) = Some taskID \<and>
               td_ProjectID (tk_Definition child) = td_ProjectID (tk_Definition parent) \<and>
               json (tk_Definition child) \<noteq> None \<and> json (tk_Definition child) = json definition \<and>
               tk_Status child \<notin> {Task_waiting, Task_running, Task_awaitingAcceptance} \<and> next_attempt db childID \<le> maximum_attempt)
      | _ \<Rightarrow> False)"

definition task_nodes_distinct :: "workflowV2Node list \<Rightarrow> bool" where
  "task_nodes_distinct nodes \<longleftrightarrow> inj_on wn_TaskDefinitionID {n \<in> set nodes. wn_Type n = Node_task}"

definition task_ids :: "workflowV2Node list \<Rightarrow> string set" where
  "task_ids nodes = wn_ID ` {n \<in> set nodes. wn_Type n = Node_task}"

definition fresh_runs :: "(string \<Rightarrow> string) \<Rightarrow> workflowV2Node list \<Rightarrow> task_tables \<Rightarrow> bool" where
  "fresh_runs fresh nodes db \<longleftrightarrow> inj_on fresh (task_ids nodes) \<and> (\<forall>i\<in>task_ids nodes. fmlookup (tt_runs db) (fresh i) = None)"

definition tick_ready ::
  "(workflowV2Revision \<Rightarrow> string option) \<Rightarrow> (taskV2Definition \<Rightarrow> bytes option) \<Rightarrow> (string \<Rightarrow> string) \<Rightarrow> task_tables \<Rightarrow> string \<Rightarrow> string \<Rightarrow> bool" where
  "tick_ready digest json fresh db taskID p \<longleftrightarrow>
     (\<exists>parent row revision.
        fmlookup (tt_tasks db) taskID = Some parent \<and> \<not> nothing_to_tick parent \<and> tk_CurrentRunID parent = Some p \<and>
        fmlookup (tt_runs db) p = Some row \<and> tr_TaskID row = taskID \<and> tr_Status row = Task_running \<and>
        fmlookup (tt_workflow_runs db) p = Some (wr_ID revision) \<and>
        hydrateWorkflowV2Revision digest db (wr_ID revision) = Inr revision \<and> wr_WorkflowTaskID revision = taskID \<and>
        task_nodes_distinct (wr_Nodes revision) \<and> fresh_runs fresh (wr_Nodes revision) db \<and>
        (\<forall>n\<in>set (wr_Nodes revision). \<forall>run. wn_Type n = Node_task \<longrightarrow> fmlookup (node_runs_of db p) (wn_ID n) = Some run \<longrightarrow>
           waiting_run run \<longrightarrow> launchable json db taskID parent n))"

subsection \<open>The passes return\<close>

lemma fold_result_total:
  assumes "P xs s" and "\<And>x xs s. P (x # xs) s \<Longrightarrow> \<exists>s'. f x s = Inr s' \<and> P xs s'"
  shows "\<exists>s'. fold_result f xs s = Inr s'"
  using assms(1)
proof (induction xs arbitrary: s)
  case (Cons x xs)
  from assms(2) [OF Cons.prems] obtain s' where "f x s = Inr s'" "P xs s'" by blast
  with Cons.IH show ?case by simp
qed simp

lemma sync_node_total:
  assumes "runs_ok rid nodes edges (tt_runs db) p runs"
  shows "\<exists>runs'. sync_node db p n runs = Inr runs'"
proof (cases "fmlookup runs (wn_ID n)")
  case (Some run)
  show ?thesis
  proof (cases "nr_ChildTaskRunID run")
    case None
    with Some show ?thesis by (simp add: sync_node_def)
  next
    case child: (Some c)
    obtain row where "fmlookup (tt_runs db) c = Some row" "tr_ParentWorkflowTaskRunID row = Some p" "tr_WorkflowNodeID row = wn_ID n"
      using node_ok_child [OF runs_ok_node [OF assms Some] child] by metis
    with Some child show ?thesis by (simp add: sync_node_def)
  qed
qed (simp add: sync_node_def)

lemma sync_total:
  assumes "runs_ok rid all_nodes edges (tt_runs db) p runs"
  shows "\<exists>runs'. fold_result (sync_node db p) nodes runs = Inr runs'"
proof (rule fold_result_total [where P = "\<lambda>_ r. runs_ok rid all_nodes edges (tt_runs db) p r", OF assms])
  fix n and ns :: "workflowV2Node list" and r
  assume r: "runs_ok rid all_nodes edges (tt_runs db) p r"
  then obtain r' where r': "sync_node db p n r = Inr r'" using sync_node_total by blast
  with sync_node_ok [OF r' r] show "\<exists>r'. sync_node db p n r = Inr r' \<and> runs_ok rid all_nodes edges (tt_runs db) p r'" by blast
qed

text \<open>Starting a node leaves the tasks of the other nodes as they are.\<close>

lemma next_attempt_other:
  assumes "fmlookup (tt_runs db) c = None" and "tr_TaskID row \<noteq> t"
  shows "next_attempt (set_task u task (set_task_run c row db)) t = next_attempt db t"
proof -
  have c: "c |\<notin>| fmdom (tt_runs db)" using assms(1) by (simp add: fmdom_notI)
  have same: "ffilter (\<lambda>i. tr_TaskID (the (fmlookup (fmupd c row (tt_runs db)) i)) = t) (finsert c (fmdom (tt_runs db))) =
      ffilter (\<lambda>i. tr_TaskID (the (fmlookup (tt_runs db) i)) = t) (fmdom (tt_runs db))"
  proof (rule fset_eqI)
    fix i
    show "i |\<in>| ffilter (\<lambda>i. tr_TaskID (the (fmlookup (fmupd c row (tt_runs db)) i)) = t) (finsert c (fmdom (tt_runs db))) \<longleftrightarrow>
        i |\<in>| ffilter (\<lambda>i. tr_TaskID (the (fmlookup (tt_runs db) i)) = t) (fmdom (tt_runs db))"
      using c assms(2) by (cases "i = c") simp_all
  qed
  have "(\<lambda>i. Suc (tr_Attempt (the (fmlookup (fmupd c row (tt_runs db)) i)))) |`| ffilter (\<lambda>i. tr_TaskID (the (fmlookup (tt_runs db) i)) = t) (fmdom (tt_runs db)) =
      (\<lambda>i. Suc (tr_Attempt (the (fmlookup (tt_runs db) i)))) |`| ffilter (\<lambda>i. tr_TaskID (the (fmlookup (tt_runs db) i)) = t) (fmdom (tt_runs db))"
  proof (rule fset.map_cong0)
    fix i
    assume "i |\<in>| ffilter (\<lambda>i. tr_TaskID (the (fmlookup (tt_runs db) i)) = t) (fmdom (tt_runs db))"
    then have "i \<noteq> c" using c by auto
    then show "Suc (tr_Attempt (the (fmlookup (fmupd c row (tt_runs db)) i))) = Suc (tr_Attempt (the (fmlookup (tt_runs db) i)))" by simp
  qed
  with same show ?thesis by (simp add: next_attempt_def)
qed

lemma launchable_other:
  assumes "launchable json db taskID parent n" and "wn_TaskDefinitionID n \<noteq> Some u"
    and "fmlookup (tt_runs db) c = None" and "tr_TaskID row = u"
  shows "launchable json (set_task u task (set_task_run c row db)) taskID parent n"
proof -
  obtain t d child where t: "wn_TaskDefinitionID n = Some t" "wn_TaskDefinition n = Some d" "fmlookup (tt_tasks db) t = Some child"
    using assms(1) by (auto simp: launchable_def split: option.splits)
  then have "next_attempt (set_task u task (set_task_run c row db)) t = next_attempt db t"
    using assms(2-4) by (intro next_attempt_other) auto
  with assms(1,2) t show ?thesis by (auto simp: launchable_def)
qed

text \<open>The nodes that are still to be visited can be started when they are ready.\<close>

definition can_start ::
  "(taskV2Definition \<Rightarrow> bytes option) \<Rightarrow> (string \<Rightarrow> string) \<Rightarrow> string \<Rightarrow> taskV2Record \<Rightarrow> workflowV2Revision \<Rightarrow> schedule_state \<Rightarrow> string \<Rightarrow> bool" where
  "can_start json fresh taskID parent revision s i \<longleftrightarrow>
     (\<forall>n run. node_of (wr_Nodes revision) i = Some n \<longrightarrow> fmlookup (sc_runs s) i = Some run \<longrightarrow> wn_Type n = Node_task \<longrightarrow>
        nr_Status run = Run_ready \<longrightarrow> nr_ChildTaskRunID run = None \<longrightarrow>
        launchable json (sc_db s) taskID parent n \<and> fmlookup (tt_runs (sc_db s)) (fresh i) = None)"

lemma schedule_node_total:
  assumes "can_start json fresh taskID parent revision s i"
  shows "\<exists>s'. schedule_node json limit fresh taskID parent p revision i s = Inr s'"
proof (cases "limit \<le> sc_active s \<or> \<not> startable revision (sc_runs s) i")
  case True
  then show ?thesis by (auto simp: schedule_node_def startable_def split: option.splits)
next
  case False
  then obtain n run where n: "node_of (wr_Nodes revision) i = Some n" "fmlookup (sc_runs s) i = Some run"
    by (auto simp: startable_def split: option.splits)
  with False have c: "wn_Type n = Node_task" "nr_Status run = Run_ready" "nr_ChildTaskRunID run = None" "sc_active s < limit"
    by (simp_all add: startable_def)
  then have "launchable json (sc_db s) taskID parent n" "fmlookup (tt_runs (sc_db s)) (fresh i) = None"
    using assms n by (simp_all add: can_start_def)
  then show ?thesis
    using n c by (auto simp: schedule_node_def launchable_def Let_def split: option.splits)
qed

lemma schedule_node_start:
  assumes "schedule_node json limit fresh taskID parent p revision i s = Inr s'"
  obtains "s' = s" | n run c task row where "node_of (wr_Nodes revision) i = Some n" "wn_Type n = Node_task" "wn_TaskDefinitionID n = Some c"
    "fmlookup (tt_runs (sc_db s)) (fresh i) = None" "tr_TaskID row = c"
    "sc_db s' = set_task c task (set_task_run (fresh i) row (sc_db s))" "sc_runs s' = fmupd i run (sc_runs s)"
proof (cases "s' = s")
  case False
  then obtain n run where n: "node_of (wr_Nodes revision) i = Some n" "fmlookup (sc_runs s) i = Some run"
    using assms by (auto simp: schedule_node_def split: if_splits option.splits)
  with False assms obtain c where c: "wn_Type n = Node_task" "wn_TaskDefinitionID n = Some c" "nr_Status run = Run_ready"
      "nr_ChildTaskRunID run = None" "wn_TaskDefinition n \<noteq> None" "sc_active s < limit"
    by (auto simp: schedule_node_def split: if_splits)
  obtain child where child: "fmlookup (tt_tasks (sc_db s)) c = Some child"
    using assms n c by (cases "fmlookup (tt_tasks (sc_db s)) c") (simp_all add: schedule_node_def)
  have "fmlookup (tt_runs (sc_db s)) (fresh i) = None"
    using assms n c child by (simp add: schedule_node_def Let_def split: if_splits)
  moreover from this have "\<exists>task row run. tr_TaskID row = c \<and> sc_db s' = set_task c task (set_task_run (fresh i) row (sc_db s)) \<and>
      sc_runs s' = fmupd i run (sc_runs s)"
    using assms n c child by (auto simp: schedule_node_def Let_def split: if_splits) (metis taskV2Run.select_convs(1))
  ultimately show thesis using that(2) n(1) c(1,2) by blast
qed (rule that(1))

lemma can_start_other:
  assumes s: "schedule_node json limit fresh taskID parent p revision i s = Inr s'"
    and j: "can_start json fresh taskID parent revision s j" "j \<noteq> i" and f: "inj_on fresh (task_ids (wr_Nodes revision))"
    and d: "task_nodes_distinct (wr_Nodes revision)"
  shows "can_start json fresh taskID parent revision s' j"
  using s
proof (cases rule: schedule_node_start)
  case (2 n run c task row)
  have "launchable json (sc_db s') taskID parent m \<and> fmlookup (tt_runs (sc_db s')) (fresh j) = None"
    if m: "node_of (wr_Nodes revision) j = Some m" "wn_Type m = Node_task" and l: "launchable json (sc_db s) taskID parent m"
      "fmlookup (tt_runs (sc_db s)) (fresh j) = None" for m
  proof -
    have ids: "m \<in> set (wr_Nodes revision)" "n \<in> set (wr_Nodes revision)" "wn_ID m = j" "wn_ID n = i"
      using m(1) 2(1) by (auto dest: node_of_id)
    then have "wn_TaskDefinitionID m \<noteq> Some c"
      using d m(2) 2(2,3) j(2) by (auto simp: task_nodes_distinct_def inj_on_def)
    then have "launchable json (sc_db s') taskID parent m" unfolding 2(6) by (rule launchable_other [OF l(1) _ 2(4,5)])
    moreover have "j \<in> task_ids (wr_Nodes revision)" "i \<in> task_ids (wr_Nodes revision)"
      using ids m(2) 2(2) by (auto simp: task_ids_def)
    then have "fresh j \<noteq> fresh i" using f j(2) by (auto dest: inj_onD)
    ultimately show ?thesis using l(2) 2(6) by simp
  qed
  then show ?thesis using j 2(7) by (simp add: can_start_def)
qed (use j in simp)

lemma schedule_total:
  assumes "\<forall>i\<in>set order. can_start json fresh taskID parent revision s i" and "distinct order"
    and f: "inj_on fresh (task_ids (wr_Nodes revision))" and d: "task_nodes_distinct (wr_Nodes revision)"
  shows "\<exists>s'. fold_result (schedule_node json limit fresh taskID parent p revision) order s = Inr s'"
proof (rule fold_result_total [where P = "\<lambda>xs s. (\<forall>i\<in>set xs. can_start json fresh taskID parent revision s i) \<and> distinct xs"])
  fix i xs s
  assume p: "(\<forall>i\<in>set (i # xs). can_start json fresh taskID parent revision s i) \<and> distinct (i # xs)"
  then obtain s' where s': "schedule_node json limit fresh taskID parent p revision i s = Inr s'" using schedule_node_total by fastforce
  have "can_start json fresh taskID parent revision s' j" if "j \<in> set xs" for j
    by (rule can_start_other [OF s' _ _ f d]) (use p that in auto)
  with s' p show "\<exists>s'. schedule_node json limit fresh taskID parent p revision i s = Inr s' \<and>
      (\<forall>i\<in>set xs. can_start json fresh taskID parent revision s' i) \<and> distinct xs" by auto
qed (use assms in simp)

subsection \<open>A ready tick returns a result\<close>

text \<open>What is ready after the passes was waiting before.\<close>

lemma was_waiting:
  assumes pr: "progressed runs settled" and kids: "children_of settled = children_of runs"
    and y: "fmlookup settled i = Some y" "nr_Status y = Run_ready" "nr_ChildTaskRunID y = None"
  obtains x where "fmlookup runs i = Some x" "waiting_run x"
proof -
  have "i |\<in>| fmdom runs" using y(1) pr by (metis progressed_def fmdomI)
  then obtain x where x: "fmlookup runs i = Some x" by (auto simp: fmlookup_dom_iff)
  have "advanced x y" using progressed_lookup [OF pr x] y(1) by auto
  then have "work_left y \<le> work_left x" by (simp add: advanced_def)
  then have "nr_Status x = Run_pending \<or> nr_Status x = Run_ready"
    using y(2) by (auto simp: work_left_def not_terminal_cases split: if_splits)
  moreover have "nr_ChildTaskRunID x = None" using children_same [OF kids y(1) x] y(3) by simp
  ultimately show thesis using that x by (simp add: waiting_run_def)
qed

lemma tick_passes_total:
  assumes g: "workflow_graph (wr_Nodes revision) (wr_Edges revision)"
    and ok: "revision_runs_ok revision (tt_runs db) p (node_runs_of db p)"
    and d: "task_nodes_distinct (wr_Nodes revision)" and f: "fresh_runs fresh (wr_Nodes revision) db"
    and l: "\<And>n run. n \<in> set (wr_Nodes revision) \<Longrightarrow> wn_Type n = Node_task \<Longrightarrow> fmlookup (node_runs_of db p) (wn_ID n) = Some run \<Longrightarrow>
      waiting_run run \<Longrightarrow> launchable json db taskID parent n"
  shows "\<exists>v. tick_passes json limit fresh db taskID parent p revision = Inr v"
proof -
  let ?nodes = "wr_Nodes revision" and ?edges = "wr_Edges revision" and ?runs = "node_runs_of db p"
  note g' = workflow_graphD [OF g]
  obtain synced where sync: "fold_result (sync_node db p) ?nodes ?runs = Inr synced" using sync_total [OF ok] by blast
  obtain order b where order: "workflowV2TopologicalOrder ?nodes ?edges = (order, b)" by (cases "workflowV2TopologicalOrder ?nodes ?edges")
  note topo = workflowV2TopologicalOrder_exact [OF g'(1,2) order]
  have b: "b" using topo(1) g'(3) by simp
  have o: "distinct order" using topo(2) b by simp
  let ?blocked = "block_waiting (wr_FailurePolicy revision) synced"
  define settled where "settled = fold (settle_node ?nodes ?edges) order ?blocked"
  note sp = sync_pass [OF sync ok]
  note bp = block_pass [OF sp(1), of "wr_FailurePolicy revision"]
  have pr: "progressed ?runs settled"
    using sp(2) bp(2) settle_pass(2) [OF bp(1) g'(4), of order, folded settled_def] progressed_trans by blast
  have kids: "children_of settled = children_of ?runs"
    unfolding settled_def by (simp add: settle_children block_children sync_children [OF sync ok])
  let ?s = "\<lparr>sc_db = db, sc_runs = settled, sc_active = active_nodes settled, sc_count = 0\<rparr>"
  have "can_start json fresh taskID parent revision ?s i" for i
    unfolding can_start_def
  proof (intro allI impI)
    fix n y assume n: "node_of ?nodes i = Some n" "wn_Type n = Node_task" and y: "fmlookup (sc_runs ?s) i = Some y"
      "nr_Status y = Run_ready" "nr_ChildTaskRunID y = None"
    obtain x where x: "fmlookup ?runs i = Some x" "waiting_run x" by (rule was_waiting [OF pr kids _ y(2,3)]) (use y(1) in simp_all)
    have n': "n \<in> set ?nodes" "wn_ID n = i" using node_of_id [OF n(1)] by simp_all
    then have "i \<in> task_ids ?nodes" using n(2) by (auto simp: task_ids_def)
    then show "launchable json (sc_db ?s) taskID parent n \<and> fmlookup (tt_runs (sc_db ?s)) (fresh i) = None"
      using l [OF n'(1) n(2) _ x(2)] x(1) n'(2) f by (simp add: fresh_runs_def)
  qed
  then obtain s where "fold_result (schedule_node json (effective_parallelism limit (wr_MaximumParallelism revision)) fresh
      taskID parent p revision) order ?s = Inr s"
    using schedule_total [OF _ o _ d] f by (metis fresh_runs_def)
  with sync order b show ?thesis by (simp add: tick_passes_def Let_def settled_def)
qed

lemma ready_tick_rows:
  assumes ok: "tables_ok db" and t: "tick_ready digest json fresh db taskID p"
  shows "\<exists>v. tick_rows digest json limit fresh db taskID = Inr v"
proof -
  from t obtain parent row revision where parent: "fmlookup (tt_tasks db) taskID = Some parent" "\<not> nothing_to_tick parent"
      "tk_CurrentRunID parent = Some p"
    and row: "fmlookup (tt_runs db) p = Some row" "tr_TaskID row = taskID" "tr_Status row = Task_running"
    and rev: "fmlookup (tt_workflow_runs db) p = Some (wr_ID revision)"
      "hydrateWorkflowV2Revision digest db (wr_ID revision) = Inr revision" "wr_WorkflowTaskID revision = taskID"
    and rest: "task_nodes_distinct (wr_Nodes revision)" "fresh_runs fresh (wr_Nodes revision) db"
      "\<forall>n\<in>set (wr_Nodes revision). \<forall>run. wn_Type n = Node_task \<longrightarrow> fmlookup (node_runs_of db p) (wn_ID n) = Some run \<longrightarrow>
         waiting_run run \<longrightarrow> launchable json db taskID parent n"
    unfolding tick_ready_def by blast
  note stored = hydrate_stored [OF rev(2)]
  have g: "workflow_graph (wr_Nodes revision) (wr_Edges revision)" using ok stored by (auto simp: tables_ok_def)
  have "run_entry db p" using ok by (simp add: tables_ok_def)
  then have fine: "run_fine revision (tt_runs db) p row (node_runs_of db p)" using rev(1) stored row(1) by (simp add: run_entry_def)
  then have rok: "revision_runs_ok revision (tt_runs db) p (node_runs_of db p)" and rid: "tr_WorkflowRevisionID row = Some (wr_ID revision)"
    by (simp_all add: run_fine_def)
  have "fmlen (node_runs_of db p) = card (node_ids (wr_Nodes revision))" using rok by (simp add: runs_ok_def fmlen_def fcard.rep_eq)
  also have "\<dots> = length (wr_Nodes revision)"
    using distinct_card [OF workflow_graphD(1) [OF g]] by (simp add: node_ids_def)
  finally have len: "fmlen (node_runs_of db p) = length (wr_Nodes revision)" .
  have revs: "\<not> fBex (fmdom (node_runs_of db p)) (\<lambda>i. nr_RevisionID (the (fmlookup (node_runs_of db p) i)) \<noteq> wr_ID revision)"
    using rok unfolding runs_ok_def by (metis (no_types, lifting) fBexE fmlookup_dom_iff option.sel)
  obtain v where "tick_passes json limit fresh db taskID parent p revision = Inr v"
    using tick_passes_total [OF g rok rest(1,2)] rest(3) by metis
  with parent row rev rid len revs show ?thesis by (simp add: tick_rows_def Let_def)
qed

text \<open>With its transaction applied the tick answers; when the answer is unclear the rows are the same.\<close>

lemma ready_tick:
  assumes ok: "tables_ok db" and t: "tick_ready digest json fresh db taskID p" and a: "taskID \<noteq> []" "0 < limit" "\<not> IsZero now"
  shows "\<exists>db' res. TickWorkflow digest json tx_applied fresh db taskID limit now = (db', Inr res) \<and>
    TickWorkflow digest json tx_unclear fresh db taskID limit now = (db', Inl errStore)"
proof -
  obtain v where v: "tick_rows digest json limit fresh db taskID = Inr v" using ready_tick_rows [OF ok t] by blast
  have "\<not> (case fmlookup (tt_tasks db) taskID of None \<Rightarrow> False | Some parent \<Rightarrow> nothing_to_tick parent)"
    using t by (auto simp: tick_ready_def)
  with v a show ?thesis by (simp add: TickWorkflow_def split: prod.splits)
qed

subsection \<open>Rounds\<close>

text \<open>Only a retry raises the attempt of a node; every other step takes the rows of a run forward.\<close>

definition attempts :: "task_tables \<Rightarrow> string \<Rightarrow> (string, nat) fmap" where
  "attempts db p = fmmap nr_Attempt (node_runs_of db p)"

lemma attempts_lookup: "attempts db' p = attempts db p \<Longrightarrow> fmlookup (node_runs_of db p) i = Some run \<Longrightarrow>
    fmlookup (node_runs_of db' p) i = Some run' \<Longrightarrow> nr_Attempt run' = nr_Attempt run"
  unfolding attempts_def by (metis fmlookup_map option.map(2) option.sel)

lemma retry_attempts:
  assumes t: "retry_rows digest policy db taskID expected nodeID = Inr (db', res)" and a: "attempts db' p = attempts db p"
  shows "progressed (node_runs_of db p) (node_runs_of db' p)"
  using t
proof (cases rule: retry_rows_cases)
  case (1 parent q row rid revision n target)
  note same = retry_node_tables [OF 1(11)]
  show ?thesis
  proof (cases "p = q")
    case True
    obtain run where run: "fmlookup (node_runs_of db' p) nodeID = Some run" "nr_Attempt run = nr_Attempt target + 1"
      using same(4,5) True by (cases "re_Resumed res") (simp_all add: unblock_def)
    have "nr_Attempt run = nr_Attempt target" by (rule attempts_lookup [OF a _ run(1)]) (use 1(9) True in simp)
    with run(2) show ?thesis by simp
  qed (simp add: same(3))
qed

lemma step_progressed:
  assumes "wf_step digest json db db'" and "tables_ok db" and "attempts db' p = attempts db p"
  shows "progressed (node_runs_of db p) (node_runs_of db' p)"
  using assms
proof (induction rule: wf_step.induct)
  case (publish norm project parent draft version now revision db)
  show ?case by (simp add: node_runs_of_def)
next
  case (engine db rows tasks)
  show ?case by (simp add: node_runs_of_def)
next
  case (start io policy runID db taskID expected now db' r)
  from start(1) show ?case
  proof (rule start_cases)
    assume "start_rows digest policy runID db taskID expected = Inr db'"
    then show ?case
    proof (cases rule: start_rows_cases)
      case (1 rid revision row)
      show ?thesis
      proof (cases "p = runID")
        case True
        have "run_entry db p" using start(2) by (simp add: tables_ok_def)
        then have e: "node_runs_of db p = fmempty" using 1(3) True by (simp add: run_entry_def)
        then have "fmmap nr_Attempt (node_runs_of db' p) = fmempty" using start(3) by (simp add: attempts_def)
        then have "fmdom (fmmap nr_Attempt (node_runs_of db' p)) = {||}" by simp
        then show ?thesis using e by (simp add: progressed_def)
      qed (simp add: 1(9))
    qed
  qed simp
next
  case (tick io fresh db taskID limit now db' t)
  from tick_rows_of(1) [OF tick(1)] show ?case
  proof (elim disjE exE)
    fix v assume "tick_rows digest json limit fresh db taskID = Inr (db', v)"
    with tick(2) show ?case
    proof (cases rule: tick_branches)
      case (ticked parent q row revision s settled)
      note inv = sched_invD [OF ticked(10)]
      have "progressed (node_runs_of db q) (sc_runs s)" by (rule progressed_trans [OF ticked(11) inv(2)])
      then show ?thesis using conclude_tables(1) [OF ticked(13), of p] other_tables_node_runs [OF inv(6), of p] by simp
    qed simp
  qed simp
next
  case (retry io policy db taskID expected nodeID now db' u)
  from retry_rows_of(1) [OF retry(1)] show ?case
  proof (elim disjE exE)
    fix v assume "retry_rows digest policy db taskID expected nodeID = Inr (db', v)"
    then show ?case by (rule retry_attempts [OF _ retry(3)])
  qed simp
next
  case (cancel io policy db taskID expected now db' v)
  from cancel_rows_of(1) [OF cancel(1)] show ?case
  proof (elim disjE exE)
    fix v assume "cancel_rows policy db taskID expected = Inr (db', v)"
    then obtain parent' children where "cancel_rows policy db taskID expected = Inr (db', parent', children)" by (cases v) auto
    then show ?case by (cases rule: cancel_rows_cases) (simp add: cancel_inv_def)
  qed simp
next
  case (finalize io db taskID expected now db' w)
  from finalize_rows_of [OF finalize(1)] show ?case
  proof (elim disjE exE)
    fix v assume "finalize_rows db taskID expected = Inr (db', v)"
    then obtain parent' where "finalize_rows db taskID expected = Inr (db', parent')" by (cases v) auto
    then show ?case by (cases rule: finalize_rows_cases) (simp add: progressed_fmmap finalize_advanced)
  qed simp
qed

text \<open>A tick that finishes a run ends its row.\<close>

lemma finished_row:
  assumes reach: "wf_reachable digest json db" and t: "TickWorkflow digest json io fresh db taskID limit now = (db', Inr res)"
    and parent: "fmlookup (tt_tasks db) taskID = Some parent" "\<not> nothing_to_tick parent" "tk_CurrentRunID parent = Some p"
    and going: "map_option tr_Status (fmlookup (tt_runs db') p) = Some Task_running"
  shows "\<not> ti_Finished res"
proof (rule tick_running [OF reach t parent], goal_cases)
  case (1 row revision s settled)
  have row: "fmlookup (tt_runs (sc_db s)) p = Some row" using sched_invD(5) [OF 1(5)] 1(1) by (simp add: rows_extended_def)
  from 1(8) show ?case
  proof (cases rule: conclude_cases)
    case finished
    then have "map_option tr_Status (fmlookup (tt_runs db') p) =
        Some (fst (outcome (wr_FailurePolicy revision) (wr_Nodes revision) (sc_runs s)))"
      using finished(5) [OF row] by auto
    with going show ?thesis by (simp add: outcome_def split: if_splits)
  qed simp
qed

text \<open>
  A round is a tick that finds what it relies on, and the started tasks ended,
  whose transaction reaches the tables, and that leaves the run going. Between
  the rounds anything happens but the retry of a node of the workflow: ticks that
  fail, ticks of other workflows, the agent's work on the tasks.
\<close>

inductive work_rounds ::
  "(workflowV2Revision \<Rightarrow> string option) \<Rightarrow> (taskV2Definition \<Rightarrow> bytes option) \<Rightarrow> string \<Rightarrow> string \<Rightarrow> task_tables \<Rightarrow> nat \<Rightarrow> task_tables \<Rightarrow> bool"
  for digest json taskID p where
  no_round: "work_rounds digest json taskID p db 0 db"
| other_step: "work_rounds digest json taskID p db0 k db \<Longrightarrow> wf_step digest json db db' \<Longrightarrow> attempts db' p = attempts db p \<Longrightarrow>
    work_rounds digest json taskID p db0 k db'"
| round: "work_rounds digest json taskID p db0 k db \<Longrightarrow> children_done db p \<Longrightarrow> tick_ready digest json fresh db taskID p \<Longrightarrow>
    0 < limit \<Longrightarrow> io \<noteq> tx_failed \<Longrightarrow> taskID \<noteq> [] \<Longrightarrow> \<not> IsZero now \<Longrightarrow>
    TickWorkflow digest json io fresh db taskID limit now = (db', r) \<Longrightarrow>
    map_option tr_Status (fmlookup (tt_runs db') p) = Some Task_running \<Longrightarrow> work_rounds digest json taskID p db0 (Suc k) db'"

lemma round_less_work:
  assumes reach: "wf_reachable digest json db" and ready: "children_done db p" "tick_ready digest json fresh db taskID p"
    and args: "0 < limit" "io \<noteq> tx_failed" "taskID \<noteq> []" "\<not> IsZero now"
    and t: "TickWorkflow digest json io fresh db taskID limit now = (db', r)"
    and going: "map_option tr_Status (fmlookup (tt_runs db') p) = Some Task_running"
  shows "open_work (node_runs_of db' p) < open_work (node_runs_of db p)"
proof -
  obtain db1 res where a: "TickWorkflow digest json tx_applied fresh db taskID limit now = (db1, Inr res)"
      "TickWorkflow digest json tx_unclear fresh db taskID limit now = (db1, Inl errStore)"
    using ready_tick [OF reachable_tables_ok [OF reach] ready(2) args(3,1,4)] by blast
  have db1: "db1 = db'" using a t args(2) by (cases io) simp_all
  obtain parent where parent: "fmlookup (tt_tasks db) taskID = Some parent" "\<not> nothing_to_tick parent" "tk_CurrentRunID parent = Some p"
    using ready(2) by (auto simp: tick_ready_def)
  have "\<not> ti_Finished res" by (rule finished_row [OF reach a(1) parent]) (simp add: db1 going)
  from tick_less_work [OF reach a(1) parent ready(1) this] show ?thesis by (simp add: db1)
qed

lemma rounds_work:
  assumes "work_rounds digest json taskID p db0 k db" and "wf_reachable digest json db0"
  shows "wf_reachable digest json db \<and> k + open_work (node_runs_of db p) \<le> open_work (node_runs_of db0 p)"
  using assms
proof (induction rule: work_rounds.induct)
  case (other_step db0 k db db')
  then have r: "wf_reachable digest json db" "k + open_work (node_runs_of db p) \<le> open_work (node_runs_of db0 p)" by simp_all
  have "open_work (node_runs_of db' p) \<le> open_work (node_runs_of db p)"
    by (rule progressed_open_work(1) [OF step_progressed [OF other_step(2) reachable_tables_ok [OF r(1)] other_step(3)]])
  with r reachable_step [OF r(1) other_step(2)] show ?case by simp
next
  case (round db0 k db fresh limit io now db' r)
  then have r: "wf_reachable digest json db" "k + open_work (node_runs_of db p) \<le> open_work (node_runs_of db0 p)" by simp_all
  have "open_work (node_runs_of db' p) < open_work (node_runs_of db p)" by (rule round_less_work [OF r(1) round(2-9)])
  with r reachable_step [OF r(1) wf_step.tick [OF round(8)]] show ?case by simp
qed simp

end
