(* ===== verification/Workflow_Properties.thy ===== *)
theory Workflow_Properties
  imports Workflow_Rounds
begin

text \<open>
  The properties of workflows, and the run on which they are witnessed: a
  workflow of one task between start and finish, under the policy
  \<open>continueOnFailure\<close>, whose task fails, is retried and completes.
\<close>

subsection \<open>A run\<close>

definition demo_child :: taskV2Definition where
  "demo_child = \<lparr>td_ID = ''c'', td_ProjectID = ''p'', td_workflow = False, td_Scope = Scope_workflowNode,
     td_OwnerWorkflowTaskID = Some ''w'', td_revision = None, td_alone = True, td_rest = []\<rparr>"

definition demo_nodes :: "workflowV2Node list" where
  "demo_nodes =
    [\<lparr>wn_ID = ''s'', wn_Type = Node_start, wn_TaskDefinitionID = None, wn_TaskDefinition = None, wn_SourceTaskID = None,
       wn_SourceTaskRevision = None, wn_placed = True\<rparr>,
     \<lparr>wn_ID = ''t'', wn_Type = Node_task, wn_TaskDefinitionID = Some ''c'', wn_TaskDefinition = Some demo_child, wn_SourceTaskID = None,
       wn_SourceTaskRevision = None, wn_placed = True\<rparr>,
     \<lparr>wn_ID = ''z'', wn_Type = Node_finish, wn_TaskDefinitionID = None, wn_TaskDefinition = None, wn_SourceTaskID = None,
       wn_SourceTaskRevision = None, wn_placed = True\<rparr>]"

definition demo_edges :: "workflowV2Edge list" where
  "demo_edges =
    [\<lparr>we_ID = ''d'', we_SourceID = ''s'', we_TargetID = ''t'', we_Type = Edge_always, we_Label = []\<rparr>,
     \<lparr>we_ID = ''e'', we_SourceID = ''t'', we_TargetID = ''z'', we_Type = Edge_onSuccess, we_Label = []\<rparr>]"

lemma demo_order: "workflowV2TopologicalOrder demo_nodes demo_edges = ([''s'', ''t'', ''z''], True)"
  by code_simp

lemma demo_graph: "normalize_graph Inr ''p'' ''w'' demo_nodes demo_edges = Inr (demo_nodes, demo_edges)"
  by code_simp


definition demo_revision :: workflowV2Revision where
  "demo_revision = \<lparr>wr_ID = ''r'', wr_WorkflowTaskID = ''w'', wr_Version = 1, wr_Description = [], wr_FailurePolicy = Policy_continueOnFailure,
     wr_MaximumParallelism = 1, wr_GraphDigest = replicate 64 (CHR ''a''), wr_Nodes = demo_nodes, wr_Edges = demo_edges\<rparr>"

definition demo_digest :: "workflowV2Revision \<Rightarrow> string option" where "demo_digest r = Some (replicate 64 (CHR ''a''))"
definition demo_json :: "taskV2Definition \<Rightarrow> bytes option" where "demo_json d = Some []"

definition demo_task :: "taskV2Definition \<Rightarrow> taskV2Status \<Rightarrow> string option \<Rightarrow> int \<Rightarrow> taskV2Record" where
  "demo_task d status run revision = \<lparr>tk_Definition = d, tk_Status = status, tk_Revision = revision, tk_CurrentRunID = run, tk_ExitCode = None, tk_ResultCode = []\<rparr>"

definition demo_workflow :: taskV2Definition where
  "demo_workflow = \<lparr>td_ID = ''w'', td_ProjectID = ''p'', td_workflow = True, td_Scope = Scope_topLevel,
     td_OwnerWorkflowTaskID = None, td_revision = Some (''r'', 1), td_alone = True, td_rest = []\<rparr>"

text \<open>The tables, by the states of the workflow, of its task and of their runs.\<close>

definition demo_runs :: "string option \<Rightarrow> nat \<Rightarrow> workflowV2NodeStatus \<Rightarrow> workflowV2NodeStatus \<Rightarrow> node_runs" where
  "demo_runs child attempt status finish =
     fmupd ''z'' \<lparr>nr_RevisionID = ''r'', nr_ChildTaskRunID = None, nr_Status = finish, nr_Attempt = 0\<rparr>
     (fmupd ''t'' \<lparr>nr_RevisionID = ''r'', nr_ChildTaskRunID = child, nr_Status = status, nr_Attempt = attempt\<rparr>
     (fmupd ''s'' \<lparr>nr_RevisionID = ''r'', nr_ChildTaskRunID = None, nr_Status = Run_succeeded, nr_Attempt = 0\<rparr> fmempty))"

definition demo_parent_row :: "taskV2Status \<Rightarrow> int option \<Rightarrow> string \<Rightarrow> taskV2Run" where
  "demo_parent_row status exit result = \<lparr>tr_TaskID = ''w'', tr_WorkflowRevisionID = Some ''r'', tr_ParentWorkflowTaskRunID = None,
     tr_WorkflowNodeID = [], tr_Status = status, tr_Attempt = 0, tr_ExitCode = exit, tr_ResultCode = result\<rparr>"

definition demo_child_row :: "taskV2Status \<Rightarrow> nat \<Rightarrow> taskV2Run" where
  "demo_child_row status attempt = \<lparr>tr_TaskID = ''c'', tr_WorkflowRevisionID = Some ''r'', tr_ParentWorkflowTaskRunID = Some ''x'',
     tr_WorkflowNodeID = ''t'', tr_Status = status, tr_Attempt = attempt, tr_ExitCode = None, tr_ResultCode = []\<rparr>"

definition demo_start :: task_tables where
  "demo_start = \<lparr>tt_tasks = fmupd ''c'' (demo_task demo_child Task_queued None 1)
       (fmupd ''w'' (demo_task demo_workflow Task_waiting None 1) fmempty),
     tt_runs = fmempty, tt_workflow_runs = fmempty, tt_node_runs = fmempty, tt_revisions = fmempty\<rparr>"

definition demo_tables :: "taskV2Record \<Rightarrow> taskV2Record \<Rightarrow> (string, taskV2Run) fmap \<Rightarrow> node_runs \<Rightarrow> task_tables" where
  "demo_tables parent child rows runs =
     \<lparr>tt_tasks = fmupd ''w'' parent (fmupd ''c'' child fmempty), tt_runs = rows, tt_workflow_runs = fmupd ''x'' ''r'' fmempty,
      tt_node_runs = fmupd ''x'' runs fmempty, tt_revisions = fmupd ''r'' demo_revision fmempty\<rparr>"

lemma demo_valid: "list_all (stored_node_valid ''w'') demo_nodes" "validWorkflowV2Identifier ''t''"
  by code_simp+

lemma demo_lengths: "length demo_nodes = 3" "length demo_edges = 2"
  by (simp_all add: demo_nodes_def demo_edges_def)

lemma demo_hydrate: "fmlookup (tt_revisions db) ''r'' = Some demo_revision \<Longrightarrow> hydrateWorkflowV2Revision demo_digest db ''r'' = Inr demo_revision"
  by (simp add: hydrateWorkflowV2Revision_def demo_revision_def demo_digest_def demo_valid demo_lengths demo_order
    maximumWorkflowV2Nodes_def maximumWorkflowV2Edges_def maximumWorkflowV2Parallelism_def)

definition demo_published :: task_tables where
  "demo_published = demo_start\<lparr>tt_revisions := fmupd ''r'' demo_revision fmempty\<rparr>"

lemma demo_first_runs: "first_runs ''r'' demo_nodes = demo_runs None 0 Run_pending Run_pending"
  by (simp add: first_runs_def demo_nodes_def demo_runs_def)

lemma demo_attempt: "next_attempt \<lparr>tt_tasks = t, tt_runs = fmempty, tt_workflow_runs = w, tt_node_runs = n, tt_revisions = r\<rparr> i = 0"
  by (simp add: next_attempt_def)

definition demo_started :: task_tables where
  "demo_started = demo_tables (demo_task demo_workflow Task_running (Some ''x'') 2) (demo_task demo_child Task_queued None 1)
     (fmupd ''x'' (demo_parent_row Task_running None []) fmempty) (demo_runs None 0 Run_pending Run_pending)"

lemma demo_revision_simps [simp]:
  "wr_ID demo_revision = ''r''" "wr_WorkflowTaskID demo_revision = ''w''" "wr_Version demo_revision = 1"
  "wr_FailurePolicy demo_revision = Policy_continueOnFailure" "wr_MaximumParallelism demo_revision = 1"
  "wr_Nodes demo_revision = demo_nodes" "wr_Edges demo_revision = demo_edges"
  by (simp_all add: demo_revision_def)

lemma demo_start_ok: "StartWorkflowRun demo_digest tx_applied None ''x'' demo_published ''w'' 1 1 = (demo_started, Inr ())"
  by (simp add: StartWorkflowRun_def start_rows_def demo_published_def demo_start_def demo_task_def demo_workflow_def demo_hydrate
    demo_attempt Let_def demo_first_runs demo_started_def demo_tables_def set_task_def set_node_runs_def set_task_run_def demo_parent_row_def)
    (auto intro!: fmap_ext)

lemma demo_runs_lookup [simp]:
  "fmlookup (demo_runs ch k st fin) i =
    (if i = ''z'' then Some \<lparr>nr_RevisionID = ''r'', nr_ChildTaskRunID = None, nr_Status = fin, nr_Attempt = 0\<rparr>
     else if i = ''t'' then Some \<lparr>nr_RevisionID = ''r'', nr_ChildTaskRunID = ch, nr_Status = st, nr_Attempt = k\<rparr>
     else if i = ''s'' then Some \<lparr>nr_RevisionID = ''r'', nr_ChildTaskRunID = None, nr_Status = Run_succeeded, nr_Attempt = 0\<rparr> else None)"
  by (simp add: demo_runs_def)

lemma demo_runs_dom [simp]: "fmdom (demo_runs ch k st fin) = {|''z'', ''t'', ''s''|}"
  by (simp add: demo_runs_def)

lemma demo_runs_upd [simp]:
  "fmupd ''t'' \<lparr>nr_RevisionID = ''r'', nr_ChildTaskRunID = ch', nr_Status = st', nr_Attempt = k'\<rparr> (demo_runs ch k st fin) = demo_runs ch' k' st' fin"
  "fmupd ''z'' \<lparr>nr_RevisionID = ''r'', nr_ChildTaskRunID = None, nr_Status = fin', nr_Attempt = 0\<rparr> (demo_runs ch k st fin) = demo_runs ch k st fin'"
  by (rule fmap_ext; simp)+

lemma demo_node_of [simp]:
  "node_of demo_nodes i = (if i = ''s'' then Some (demo_nodes ! 0) else if i = ''t'' then Some (demo_nodes ! 1)
     else if i = ''z'' then Some (demo_nodes ! 2) else None)"
  by (simp add: node_of_def demo_nodes_def)

lemma demo_types [simp]:
  "wn_Type (demo_nodes ! 0) = Node_start" "wn_Type (demo_nodes ! Suc 0) = Node_task" "wn_Type (demo_nodes ! 2) = Node_finish"
  "wn_ID (demo_nodes ! Suc 0) = ''t''" "wn_TaskDefinitionID (demo_nodes ! Suc 0) = Some ''c''" "wn_TaskDefinition (demo_nodes ! Suc 0) = Some demo_child"
  by (simp_all add: demo_nodes_def)

lemma demo_incoming [simp]:
  "incoming demo_edges ''t'' = [\<lparr>we_ID = ''d'', we_SourceID = ''s'', we_TargetID = ''t'', we_Type = Edge_always, we_Label = []\<rparr>]"
  "incoming demo_edges ''z'' = [\<lparr>we_ID = ''e'', we_SourceID = ''t'', we_TargetID = ''z'', we_Type = Edge_onSuccess, we_Label = []\<rparr>]"
  by (simp_all add: incoming_def demo_edges_def)

lemma demo_node_runs [simp]: "node_runs_of (demo_tables parent child rows runs) ''x'' = runs"
  by (simp add: node_runs_of_def demo_tables_def)

lemma demo_len [simp]: "fmlen (demo_runs ch k st fin) = 3"
  by (simp add: fmlen_def fcard.rep_eq)

lemma demo_parent_row_simps [simp]:
  "tr_TaskID (demo_parent_row status ec result) = ''w''" "tr_WorkflowRevisionID (demo_parent_row status ec result) = Some ''r''"
  "tr_Status (demo_parent_row status ec result) = status"
  by (simp_all add: demo_parent_row_def)

abbreviation demo_parent :: "int \<Rightarrow> taskV2Record" where
  "demo_parent m \<equiv> demo_task demo_workflow Task_running (Some ''x'') m"

lemma demo_task_simps [simp]:
  "tk_Definition (demo_task d status run m) = d" "tk_Status (demo_task d status run m) = status"
  "tk_Revision (demo_task d status run m) = m" "tk_CurrentRunID (demo_task d status run m) = run"
  "td_workflow demo_workflow" "td_ProjectID demo_workflow = ''p''" "td_ProjectID demo_child = ''p''" "td_Scope demo_child = Scope_workflowNode"
  "td_OwnerWorkflowTaskID demo_child = Some ''w''"
  by (simp_all add: demo_task_def demo_workflow_def demo_child_def)

lemma demo_tables_simps [simp]:
  "tt_runs (demo_tables parent child rows runs) = rows" "fmlookup (tt_tasks (demo_tables parent child rows runs)) ''w'' = Some parent"
  "fmlookup (tt_tasks (demo_tables parent child rows runs)) ''c'' = Some child"
  "tt_workflow_runs (demo_tables parent child rows runs) = fmupd ''x'' ''r'' fmempty"
  "tt_revisions (demo_tables parent child rows runs) = fmupd ''r'' demo_revision fmempty"
  by (simp_all add: demo_tables_def)

lemma demo_tick:
  assumes "fmlookup rows ''x'' = Some (demo_parent_row Task_running None [])"
  shows "TickWorkflow demo_digest demo_json tx_applied fresh (demo_tables (demo_parent m) child rows (demo_runs ch k st fin)) ''w'' 1 1 =
    (case tick_passes demo_json 1 fresh (demo_tables (demo_parent m) child rows (demo_runs ch k st fin)) ''w'' (demo_parent m) ''x'' demo_revision of
       Inl e \<Rightarrow> (demo_tables (demo_parent m) child rows (demo_runs ch k st fin), Inl e)
     | Inr (db', v) \<Rightarrow> (db', Inr v))"
  using assms by (simp add: TickWorkflow_def Let_def tick_rows_def nothing_to_tick_def demo_hydrate demo_lengths)

lemma demo_passes:
  "tick_passes demo_json 1 fresh (demo_tables (demo_parent m) child rows (demo_runs ch k st fin)) ''w'' (demo_parent m) ''x'' demo_revision =
   (case fold_result (sync_node (demo_tables (demo_parent m) child rows (demo_runs ch k st fin)) ''x'') demo_nodes (demo_runs ch k st fin) of
      Inl e \<Rightarrow> Inl e
    | Inr synced \<Rightarrow>
        let settled = settle_node demo_nodes demo_edges ''z'' (settle_node demo_nodes demo_edges ''t'' (settle_node demo_nodes demo_edges ''s'' synced))
        in (case fold_result (schedule_node demo_json 1 fresh ''w'' (demo_parent m) ''x'' demo_revision) [''s'', ''t'', ''z'']
              \<lparr>sc_db = demo_tables (demo_parent m) child rows (demo_runs ch k st fin), sc_runs = settled, sc_active = active_nodes settled, sc_count = 0\<rparr> of
             Inl e \<Rightarrow> Inl e
           | Inr s \<Rightarrow> Inr (conclude ''w'' (demo_parent m) ''x'' demo_revision (sc_runs s \<noteq> demo_runs ch k st fin) s)))"
  by (cases "fold_result (sync_node (demo_tables (demo_parent m) child rows (demo_runs ch k st fin)) ''x'') demo_nodes (demo_runs ch k st fin)")
    (simp_all add: tick_passes_def demo_order block_waiting_def effective_parallelism_def Let_def)

lemma demo_sync:
  "fold_result (sync_node db ''x'') demo_nodes (demo_runs ch k st fin) =
     (case ch of None \<Rightarrow> Inr (demo_runs ch k st fin)
      | Some c \<Rightarrow> if workflowV2NodeTerminal st then Inr (demo_runs ch k st fin)
          else (case fmlookup (tt_runs db) c of None \<Rightarrow> Inl errStore
            | Some row \<Rightarrow> if tr_ParentWorkflowTaskRunID row \<noteq> Some ''x'' \<or> tr_WorkflowNodeID row \<noteq> ''t'' then Inl errStore
                else Inr (demo_runs ch k (workflowV2NodeStatusForTaskStatus (tr_Status row)) fin)))"
  by (simp add: demo_nodes_def sync_node_def split: option.split)

lemma demo_settle_s: "settle_node demo_nodes demo_edges ''s'' runs = runs"
  by (simp add: settle_node_def split: option.split)

lemma demo_settle_t: "settle_node demo_nodes demo_edges ''t'' (demo_runs None k Run_pending fin) = demo_runs None k Run_ready fin"
  "settle_node demo_nodes demo_edges ''t'' (demo_runs (Some c) k st fin) = demo_runs (Some c) k st fin"
  by (simp_all add: settle_node_def waiting_run_def edge_settled_def edge_matched_def source_status_def workflowV2EdgeMatches_def Let_def)

lemma demo_settle_z:
  "settle_node demo_nodes demo_edges ''z'' (demo_runs ch k st Run_skipped) = demo_runs ch k st Run_skipped"
  "settle_node demo_nodes demo_edges ''z'' (demo_runs ch k Run_ready Run_pending) = demo_runs ch k Run_ready Run_pending"
  "settle_node demo_nodes demo_edges ''z'' (demo_runs ch k Run_failed Run_pending) = demo_runs ch k Run_failed Run_skipped"
  by (simp_all add: settle_node_def waiting_run_def edge_settled_def edge_matched_def source_status_def workflowV2EdgeMatches_def Let_def node_failure_def)


lemma demo_active [simp]: "active_nodes (demo_runs ch k st fin) = (if st = Run_running then 1 else 0) + (if fin = Run_running then 1 else 0)"
  by (cases "st = Run_running"; cases "fin = Run_running") (simp_all add: active_nodes_def fcard.rep_eq ffilter.rep_eq)

text \<open>A tick that starts the task.\<close>

definition demo_waiting :: "int \<Rightarrow> taskV2Record \<Rightarrow> (string, taskV2Run) fmap \<Rightarrow> string \<Rightarrow> nat \<Rightarrow> nat \<Rightarrow> workflowV2NodeStatus \<Rightarrow> task_tables" where
  "demo_waiting m child rows c k a fin =
     demo_tables (demo_parent m) (child\<lparr>tk_Status := Task_waiting, tk_Revision := tk_Revision child + 1, tk_CurrentRunID := Some c, tk_ExitCode := None, tk_ResultCode := []\<rparr>)
       (fmupd c (demo_child_row Task_waiting a) rows) (demo_runs (Some c) k Run_running fin)"

lemma demo_schedule:
  assumes "fmlookup rows c = None" and "tk_Definition child = demo_child" and "tk_Status child \<notin> {Task_waiting, Task_running, Task_awaitingAcceptance}"
    and "next_attempt (demo_tables (demo_parent m) child rows runs) ''c'' = a" and "a < 10"
  shows "fold_result (schedule_node demo_json 1 (\<lambda>i. c) ''w'' (demo_parent m) ''x'' demo_revision) [''s'', ''t'', ''z'']
       \<lparr>sc_db = demo_tables (demo_parent m) child rows runs, sc_runs = demo_runs None k Run_ready fin, sc_active = 0, sc_count = 0\<rparr> =
     Inr \<lparr>sc_db = set_task ''c'' (child\<lparr>tk_Status := Task_waiting, tk_Revision := tk_Revision child + 1, tk_CurrentRunID := Some c, tk_ExitCode := None, tk_ResultCode := []\<rparr>)
            (set_task_run c (demo_child_row Task_waiting a) (demo_tables (demo_parent m) child rows runs)),
          sc_runs = demo_runs (Some c) k Run_running fin, sc_active = 1, sc_count = 1\<rparr>"
  using assms by (simp add: schedule_node_def Let_def demo_json_def maximum_attempt_def demo_child_row_def)


lemma demo_tick_start:
  assumes "fmlookup rows ''x'' = Some (demo_parent_row Task_running None [])" and "fin \<in> {Run_pending, Run_skipped}" and "c \<noteq> ''x''"
    and "fmlookup rows c = None" and "tk_Definition child = demo_child" and "tk_Status child \<notin> {Task_waiting, Task_running, Task_awaitingAcceptance}"
    and "next_attempt (demo_tables (demo_parent m) child rows (demo_runs None k Run_pending fin)) ''c'' = a" and "a < 10" and m': "m' = m + 1"
  shows "TickWorkflow demo_digest demo_json tx_applied (\<lambda>i. c) (demo_tables (demo_parent m) child rows (demo_runs None k Run_pending fin)) ''w'' 1 1 =
    (demo_waiting m' child rows c k a fin, Inr \<lparr>ti_Task = demo_parent m', ti_ScheduledCount = 1, ti_Finished = False\<rparr>)"
proof -
  have ne: "demo_runs (Some c) k Run_running fin \<noteq> demo_runs None k Run_pending fin"
  proof
    assume "demo_runs (Some c) k Run_running fin = demo_runs None k Run_pending fin"
    then have "fmlookup (demo_runs (Some c) k Run_running fin) ''t'' = fmlookup (demo_runs None k Run_pending fin) ''t''" by simp
    then show False by simp
  qed
  have fr: "fin \<noteq> Run_running" using assms(2) by auto
  have z: "settle_node demo_nodes demo_edges ''z'' (demo_runs None k Run_ready fin) = demo_runs None k Run_ready fin"
    using assms(2) by (auto simp: demo_settle_z)
  have "\<not> all_terminal demo_nodes (demo_runs (Some c) k Run_running fin)" by (simp add: all_terminal_def demo_nodes_def)
  moreover have "set_task ''w'' (demo_parent (m + 1)) (set_node_runs ''x'' (demo_runs (Some c) k Run_running fin)
      (set_task ''c'' (child\<lparr>tk_Status := Task_waiting, tk_Revision := tk_Revision child + 1, tk_CurrentRunID := Some c, tk_ExitCode := None, tk_ResultCode := []\<rparr>)
        (set_task_run c (demo_child_row Task_waiting a) (demo_tables (demo_parent m) child rows (demo_runs None k Run_pending fin))))) =
      demo_waiting (m + 1) child rows c k a fin"
    by (simp add: demo_waiting_def demo_tables_def set_task_def set_node_runs_def set_task_run_def) (auto intro!: fmap_ext)
  moreover have "(demo_parent m)\<lparr>tk_Revision := m + 1\<rparr> = demo_parent (m + 1)" by (simp add: demo_task_def)
  moreover have "next_attempt (demo_tables (demo_parent m) child rows (demo_runs None k Run_pending fin)) ''c'' = a" by (rule assms(7))
  ultimately show ?thesis
    unfolding demo_tick [OF assms(1)] demo_passes m'
    using demo_schedule [OF assms(4-8), where k = k and fin = fin] ne z fr
    by (simp add: demo_sync demo_settle_s demo_settle_t conclude_def Let_def del: fold_result.simps)
qed

text \<open>A tick after the task has ended that skips the finish, or finds it skipped.\<close>

definition demo_failed :: "int \<Rightarrow> taskV2Record" where
  "demo_failed m = (demo_parent m)\<lparr>tk_Status := Task_failed, tk_ExitCode := Some 1, tk_ResultCode := ''workflow_path_incomplete''\<rparr>"

lemma demo_tick_end:
  assumes x: "fmlookup rows ''x'' = Some (demo_parent_row Task_running None [])"
    and c: "fmlookup rows c = Some (demo_child_row status a)"
    and st: "workflowV2NodeStatusForTaskStatus status = st" "workflowV2NodeTerminal st"
    and z: "settle_node demo_nodes demo_edges ''z'' (demo_runs (Some c) k st fin) = demo_runs (Some c) k st Run_skipped"
    and m': "m' = m + 1"
  shows "TickWorkflow demo_digest demo_json tx_applied fresh (demo_tables (demo_parent m) child rows (demo_runs (Some c) k Run_running fin)) ''w'' 1 1 =
    (demo_tables (demo_failed m') child (fmupd ''x'' (demo_parent_row Task_failed (Some 1) ''workflow_path_incomplete'') rows)
       (demo_runs (Some c) k st Run_skipped),
     Inr \<lparr>ti_Task = demo_failed m', ti_ScheduledCount = 0, ti_Finished = True\<rparr>)"
proof -
  let ?db = "demo_tables (demo_parent m) child rows (demo_runs (Some c) k Run_running fin)"
  have run: "st \<noteq> Run_running" using st(2) by auto
  have "fold_result (schedule_node demo_json 1 fresh ''w'' (demo_parent m) ''x'' demo_revision) [''s'', ''t'', ''z'']
     \<lparr>sc_db = ?db, sc_runs = demo_runs (Some c) k st Run_skipped, sc_active = 0, sc_count = 0\<rparr> =
     Inr \<lparr>sc_db = ?db, sc_runs = demo_runs (Some c) k st Run_skipped, sc_active = 0, sc_count = 0\<rparr>"
    by (simp add: schedule_node_def)
  moreover have "all_terminal demo_nodes (demo_runs (Some c) k st Run_skipped)" using st(2) by (simp add: all_terminal_def demo_nodes_def)
  moreover have "outcome Policy_continueOnFailure demo_nodes (demo_runs (Some c) k st Run_skipped) = (Task_failed, ''workflow_path_incomplete'', 1)"
    by (simp add: outcome_def finish_succeeded_def demo_nodes_def)
  moreover have "(demo_parent m)\<lparr>tk_Status := Task_failed, tk_Revision := m + 1, tk_ExitCode := Some 1, tk_ResultCode := ''workflow_path_incomplete''\<rparr> =
      demo_failed (m + 1)" by (simp add: demo_failed_def demo_task_def)
  moreover have "set_task_run ''x'' ((demo_parent_row Task_running None [])\<lparr>tr_Status := Task_failed, tr_ExitCode := Some 1, tr_ResultCode := ''workflow_path_incomplete''\<rparr>)
      (set_task ''w'' (demo_failed (m + 1)) (set_node_runs ''x'' (demo_runs (Some c) k st Run_skipped) ?db)) =
      demo_tables (demo_failed (m + 1)) child (fmupd ''x'' (demo_parent_row Task_failed (Some 1) ''workflow_path_incomplete'') rows)
       (demo_runs (Some c) k st Run_skipped)"
    by (simp add: demo_tables_def set_task_def set_node_runs_def set_task_run_def demo_parent_row_def)
  ultimately show ?thesis
    unfolding demo_tick [OF x] demo_passes m'
    using x c st run z by (simp add: demo_sync demo_settle_s demo_settle_t conclude_def Let_def demo_child_row_def del: fold_result.simps)
qed


text \<open>
  The run: publish, start, a tick that starts the task, the task fails, a tick
  that skips the finish, the retry of the task, a tick that starts it again,
  the task completes, and the tick that fails the workflow again.
\<close>

abbreviation demo_begun :: task_tables where
  "demo_begun \<equiv> demo_waiting 3 (demo_task demo_child Task_queued None 1) (fmupd ''x'' (demo_parent_row Task_running None []) fmempty) ''y'' 0 0 Run_pending"

definition demo_row1 :: "taskV2Status \<Rightarrow> (string, taskV2Run) fmap" where
  "demo_row1 status = fmupd ''y'' (demo_child_row status 0) (fmupd ''x'' (demo_parent_row Task_running None []) fmempty)"

definition demo_task_failed :: task_tables where
  "demo_task_failed = demo_tables (demo_parent 3) (demo_task demo_child Task_failed (Some ''y'') 3) (demo_row1 Task_failed)
     (demo_runs (Some ''y'') 0 Run_running Run_pending)"

definition demo_row2 :: "(string, taskV2Run) fmap" where
  "demo_row2 = fmupd ''x'' (demo_parent_row Task_failed (Some 1) ''workflow_path_incomplete'') (demo_row1 Task_failed)"

definition demo_run_failed :: task_tables where
  "demo_run_failed = demo_tables (demo_failed 4) (demo_task demo_child Task_failed (Some ''y'') 3) demo_row2 (demo_runs (Some ''y'') 0 Run_failed Run_skipped)"

definition demo_row3 :: "(string, taskV2Run) fmap" where
  "demo_row3 = fmupd ''x'' (demo_parent_row Task_running None []) demo_row2"

definition demo_retried :: task_tables where
  "demo_retried = demo_tables (demo_parent 5) (demo_task demo_child Task_failed (Some ''y'') 3) demo_row3 (demo_runs None 1 Run_pending Run_skipped)"

abbreviation demo_again :: task_tables where
  "demo_again \<equiv> demo_waiting 6 (demo_task demo_child Task_failed (Some ''y'') 3) demo_row3 ''v'' 1 1 Run_skipped"

definition demo_completed :: task_tables where
  "demo_completed = demo_tables (demo_parent 6) (demo_task demo_child Task_completed (Some ''v'') 5)
     (fmupd ''v'' (demo_child_row Task_completed 1) demo_row3) (demo_runs (Some ''v'') 1 Run_running Run_skipped)"

lemma demo_trim: "TrimSpace (replicate 64 (CHR ''a'')) = replicate 64 (CHR ''a'')" "TrimSpace [] = []"
  by code_simp+

lemma demo_publish: "wf_step demo_digest demo_json demo_start demo_published"
proof -
  have "normalizeWorkflowV2Revision Inr demo_digest ''p'' demo_workflow demo_revision 1 1 = Inr demo_revision"
    using demo_graph demo_trim by (simp add: normalizeWorkflowV2Revision_def Let_def demo_workflow_def demo_revision_def demo_digest_def ContainsNUL_def
      maximumWorkflowV2Description_def maximumWorkflowV2Parallelism_def)
  from wf_step.publish [OF this, of demo_start]
  have "wf_step demo_digest demo_json demo_start (demo_start\<lparr>tt_revisions := fmupd ''r'' demo_revision (tt_revisions demo_start)\<rparr>)"
    by (simp add: demo_start_def)
  then show ?thesis by (simp add: demo_published_def) (simp add: demo_start_def)
qed

lemma demo_tick1: "TickWorkflow demo_digest demo_json tx_applied (\<lambda>i. ''y'') demo_started ''w'' 1 1 =
    (demo_begun, Inr \<lparr>ti_Task = demo_parent 3, ti_ScheduledCount = 1, ti_Finished = False\<rparr>)"
  unfolding demo_started_def
  by (rule demo_tick_start [where m = 2]) (simp_all add: next_attempt_def demo_parent_row_def demo_tables_def)

lemma demo_tick2: "TickWorkflow demo_digest demo_json tx_applied (\<lambda>i. ''v'') demo_task_failed ''w'' 1 1 =
    (demo_run_failed, Inr \<lparr>ti_Task = demo_failed 4, ti_ScheduledCount = 0, ti_Finished = True\<rparr>)"
  unfolding demo_task_failed_def demo_run_failed_def demo_row2_def
  by (rule demo_tick_end [where m = 3 and a = 0 and status = Task_failed])
    (simp_all add: demo_row1_def workflowV2NodeStatusForTaskStatus_def demo_settle_z)

lemma demo_retry: "RetryWorkflowNode demo_digest tx_applied None demo_run_failed ''w'' 4 ''t'' 1 =
    (demo_retried, Inr \<lparr>re_Task = demo_parent 5, re_TaskRun = demo_parent_row Task_running None [],
       re_NodeRun = \<lparr>nr_RevisionID = ''r'', nr_ChildTaskRunID = None, nr_Status = Run_pending, nr_Attempt = 1\<rparr>, re_Resumed = True\<rparr>)"
proof -
  have "fmmap unblock (demo_runs None 1 Run_pending Run_skipped) = demo_runs None 1 Run_pending Run_skipped"
    by (rule fmap_ext) (simp add: unblock_def)
  moreover have "\<not> other_failures ''t'' (demo_runs (Some ''y'') 0 Run_failed Run_skipped)" by (simp add: other_failures_def failed_child_def)
  ultimately show ?thesis
    unfolding demo_run_failed_def demo_retried_def
    by (simp add: RetryWorkflowNode_def retry_rows_def demo_valid demo_failed_def demo_row2_def demo_hydrate demo_lengths Let_def failed_child_def
      retry_node_def maximum_attempt_def demo_row3_def)
      (simp add: demo_tables_def set_task_def set_node_runs_def set_task_run_def demo_task_def demo_parent_row_def)
qed

lemma demo_tick3: "TickWorkflow demo_digest demo_json tx_applied (\<lambda>i. ''v'') demo_retried ''w'' 1 1 =
    (demo_again, Inr \<lparr>ti_Task = demo_parent 6, ti_ScheduledCount = 1, ti_Finished = False\<rparr>)"
  unfolding demo_retried_def
  by (rule demo_tick_start [where m = 5 and a = 1])
    (simp_all add: demo_row3_def demo_row2_def demo_row1_def next_attempt_def demo_child_row_def)

lemma demo_tick4: "TickWorkflow demo_digest demo_json tx_applied (\<lambda>i. ''u'') demo_completed ''w'' 1 1 =
    (demo_tables (demo_failed 7) (demo_task demo_child Task_completed (Some ''v'') 5)
       (fmupd ''x'' (demo_parent_row Task_failed (Some 1) ''workflow_path_incomplete'') (fmupd ''v'' (demo_child_row Task_completed 1) demo_row3))
       (demo_runs (Some ''v'') 1 Run_succeeded Run_skipped),
     Inr \<lparr>ti_Task = demo_failed 7, ti_ScheduledCount = 0, ti_Finished = True\<rparr>)"
  unfolding demo_completed_def
  by (rule demo_tick_end [where m = 6 and a = 1 and status = Task_completed])
    (simp_all add: demo_row3_def workflowV2NodeStatusForTaskStatus_def demo_settle_z)


lemma demo_engine1: "wf_step demo_digest demo_json demo_begun demo_task_failed"
proof -
  have "demo_task_failed = demo_begun\<lparr>tt_tasks := tt_tasks demo_task_failed, tt_runs := demo_row1 Task_failed\<rparr>"
    by (simp add: demo_task_failed_def demo_waiting_def demo_tables_def)
  moreover have "rows_kept (tt_runs demo_begun) (demo_row1 Task_failed)"
    by (auto simp: rows_kept_def row_kept_def demo_waiting_def demo_row1_def demo_child_row_def)
  moreover have "status_kept (tt_runs demo_begun) (demo_row1 Task_failed) q" if "fmlookup (tt_workflow_runs demo_begun) q \<noteq> None" for q
    using that by (auto simp: status_kept_def demo_waiting_def demo_row1_def split: if_splits)
  ultimately show ?thesis by (metis wf_step.engine)
qed

lemma demo_engine2: "wf_step demo_digest demo_json demo_again demo_completed"
proof -
  have "demo_completed = demo_again\<lparr>tt_tasks := tt_tasks demo_completed, tt_runs := fmupd ''v'' (demo_child_row Task_completed 1) demo_row3\<rparr>"
    by (simp add: demo_completed_def demo_waiting_def demo_tables_def)
  moreover have "rows_kept (tt_runs demo_again) (fmupd ''v'' (demo_child_row Task_completed 1) demo_row3)"
    by (auto simp: rows_kept_def row_kept_def demo_waiting_def demo_child_row_def)
  moreover have "status_kept (tt_runs demo_again) (fmupd ''v'' (demo_child_row Task_completed 1) demo_row3) q"
    if "fmlookup (tt_workflow_runs demo_again) q \<noteq> None" for q
    using that by (auto simp: status_kept_def demo_waiting_def split: if_splits)
  ultimately show ?thesis by (metis wf_step.engine)
qed

lemma demo_reachable:
  "wf_reachable demo_digest demo_json demo_started" "wf_reachable demo_digest demo_json demo_begun"
  "wf_reachable demo_digest demo_json demo_task_failed" "wf_reachable demo_digest demo_json demo_run_failed"
proof -
  have "wf_reachable demo_digest demo_json demo_start"
    by (auto simp: wf_reachable_def no_workflows_def demo_start_def intro!: exI [of _ demo_start])
  from reachable_step [OF this demo_publish] have "wf_reachable demo_digest demo_json demo_published" .
  from reachable_step [OF this wf_step.start [OF demo_start_ok]] show s: "wf_reachable demo_digest demo_json demo_started" .
  from reachable_step [OF s wf_step.tick [OF demo_tick1]] show b: "wf_reachable demo_digest demo_json demo_begun" .
  from reachable_step [OF b demo_engine1] show f: "wf_reachable demo_digest demo_json demo_task_failed" .
  from reachable_step [OF f wf_step.tick [OF demo_tick2]] show "wf_reachable demo_digest demo_json demo_run_failed" .
qed

lemma demo_retry_steps: "(wf_step demo_digest demo_json)\<^sup>*\<^sup>* demo_run_failed demo_completed"
  using wf_step.retry [OF demo_retry] wf_step.tick [OF demo_tick3] demo_engine2 by (meson rtranclp.intros)

lemma demo_not_idle: "\<not> nothing_to_tick (demo_parent m)"
  by (simp add: nothing_to_tick_def)


lemma demo_cancel:
  "CancelWorkflow tx_applied None demo_begun ''w'' 3 1 =
    (demo_tables ((demo_parent 4)\<lparr>tk_Status := Task_cancelled, tk_ResultCode := ''cancelled''\<rparr>)
       ((demo_task demo_child Task_cancelled (Some ''y'') 3)\<lparr>tk_ResultCode := ''cancelled''\<rparr>)
       (fmupd ''y'' ((demo_child_row Task_cancelled 0)\<lparr>tr_ResultCode := ''cancelled''\<rparr>)
         (fmupd ''x'' (demo_parent_row Task_cancelled None ''cancelled'') fmempty))
       (demo_runs (Some ''y'') 0 Run_cancelled Run_cancelled),
     Inr ((demo_parent 4)\<lparr>tk_Status := Task_cancelled, tk_ResultCode := ''cancelled''\<rparr>, []))"
proof -
  have "sorted_list_of_fset {|''z'', ''t'', ''s''|} = [''s'', ''t'', ''z'']" by code_simp
  then show ?thesis
    by (simp add: CancelWorkflow_def cancel_rows_def Let_def demo_waiting_def cancel_node_def cancel_child_def task_not_begun_def demo_child_row_def)
      (auto simp: demo_tables_def set_task_def set_node_runs_def set_task_run_def demo_task_def demo_parent_row_def intro!: fmap_ext)
qed

subsection \<open>Properties\<close>

text \<open>
  C33. A graph within the size limits, whose nodes and edges pass their own
  checks, is accepted exactly when it is a workflow graph: no cycle, one start,
  one finish, and every node on a path from the start to the finish. It is
  stored sorted by identifiers.
\<close>

theorem graph_accepted_exactly:
  assumes "3 \<le> length nodes" "length nodes \<le> maximumWorkflowV2Nodes" "2 \<le> length edges" "length edges \<le> maximumWorkflowV2Edges"
    and "normalize_nodes norm project parentID [] [] nodes = Inr ns" and "normalize_edges ns [] edges = Inr es"
  shows "normalize_graph norm project parentID nodes edges =
    (if workflow_graph ns es then Inr (sort_key wn_ID ns, sort_key we_ID es) else Inl errRPCInvalid)"
  by (rule normalize_graph_exact [OF assms])

lemma demo_normalized: "normalize_nodes Inr ''p'' ''w'' [] [] demo_nodes = Inr demo_nodes" "normalize_edges demo_nodes [] demo_edges = Inr demo_edges"
  by code_simp+

theorem graph_accepted_exactly_witness:
  "normalize_graph Inr ''p'' ''w'' demo_nodes demo_edges =
    (if workflow_graph demo_nodes demo_edges then Inr (sort_key wn_ID demo_nodes, sort_key we_ID demo_edges) else Inl errRPCInvalid)"
  by (rule graph_accepted_exactly [OF _ _ _ _ demo_normalized])
    (simp_all add: demo_lengths maximumWorkflowV2Nodes_def maximumWorkflowV2Edges_def)

text \<open>
  The topological order of a graph whose edges join its nodes: it succeeds
  exactly when there is no cycle, it lists no node twice, it lists all nodes
  when it succeeds, and every source of a listed node is listed before it.
\<close>

theorem topological_order_exact:
  assumes "distinct (map wn_ID nodes)" and "edges_within nodes edges" and "workflowV2TopologicalOrder nodes edges = (order, ok)"
  shows "(ok \<longleftrightarrow> acyclic (set (arrows_of edges))) \<and> distinct order \<and> set order \<subseteq> node_ids nodes \<and>
    (ok \<longrightarrow> set order = node_ids nodes) \<and>
    (\<forall>xs t ys s. order = xs @ t # ys \<longrightarrow> (s, t) \<in> set (arrows_of edges) \<longrightarrow> s \<in> set xs)"
  using workflowV2TopologicalOrder_exact [OF assms] by simp

theorem topological_order_exact_witness:
  "set [''s'', ''t'', ''z''] = node_ids demo_nodes \<and> acyclic (set (arrows_of demo_edges))"
  using topological_order_exact [OF _ _ demo_order]
  by (simp add: demo_nodes_def demo_edges_def edges_within_def node_ids_def)

text \<open>
  C35. The rows of every run of a workflow that the agent reaches are well
  formed: the revision it pinned is stored and has a workflow graph, there is
  one row for every node, only task nodes are ready or have a run, a row is
  running exactly when it has a run, in which the node and the workflow run
  are entered, that was not seen to end, and a ready row has all sources settled and a
  matching edge. A failed run has no ready or running row.
\<close>

theorem run_rows_well_formed:
  assumes "wf_reachable digest json db" and "fmlookup (tt_workflow_runs db) p = Some rid"
  shows "\<exists>revision row. fmlookup (tt_revisions db) rid = Some revision \<and> fmlookup (tt_runs db) p = Some row \<and>
    workflow_graph (wr_Nodes revision) (wr_Edges revision) \<and> run_fine revision (tt_runs db) p row (node_runs_of db p)"
proof -
  have ok: "tables_ok db" by (rule reachable_tables_ok [OF assms(1)])
  then have "run_entry db p" by (simp add: tables_ok_def)
  from run_entryE [OF this assms(2)] obtain revision row where "fmlookup (tt_revisions db) rid = Some revision"
      "fmlookup (tt_runs db) p = Some row" "run_fine revision (tt_runs db) p row (node_runs_of db p)" .
  moreover from this ok have "workflow_graph (wr_Nodes revision) (wr_Edges revision)" by (auto simp: tables_ok_def)
  ultimately show ?thesis by blast
qed

theorem run_rows_well_formed_witness:
  "\<exists>revision row. fmlookup (tt_revisions demo_begun) ''r'' = Some revision \<and> fmlookup (tt_runs demo_begun) ''x'' = Some row \<and>
    workflow_graph (wr_Nodes revision) (wr_Edges revision) \<and> run_fine revision (tt_runs demo_begun) ''x'' row (node_runs_of demo_begun ''x'')"
  by (rule run_rows_well_formed [OF demo_reachable(2)]) (simp add: demo_waiting_def)

text \<open>
  C15. A workflow does not get stuck: a tick of a running workflow that returns
  finishes it, or leaves a node running whose task has not ended.
\<close>

theorem workflow_never_stuck:
  assumes "wf_reachable digest json db" and "TickWorkflow digest json io fresh db taskID limit now = (db', Inr res)"
    and "fmlookup (tt_tasks db) taskID = Some parent" "\<not> nothing_to_tick parent" "tk_CurrentRunID parent = Some p"
  shows "ti_Finished res \<or>
    (\<exists>i run. fmlookup (node_runs_of db' p) i = Some run \<and> nr_Status run = Run_running \<and> child_unfinished (tt_runs db') run)"
proof (rule tick_running [OF assms], goal_cases)
  case (1 row revision s settled)
  from 1(8) show ?case
  proof (cases rule: conclude_cases)
    case going_on
    then obtain i run where "fmlookup (sc_runs s) i = Some run" "nr_Status run = Run_running" using 1(9) by blast
    moreover from this have "child_unfinished (tt_runs db') run"
      using sched_invD(3) [OF 1(5)] going_on(3) by (simp add: running_backed_def)
    ultimately show ?thesis using going_on(2) 1(11) by auto
  qed simp
qed

theorem workflow_never_stuck_witness:
  "\<exists>i run. fmlookup (node_runs_of demo_begun ''x'') i = Some run \<and> nr_Status run = Run_running \<and> child_unfinished (tt_runs demo_begun) run"
  using workflow_never_stuck [OF demo_reachable(1) demo_tick1, of "demo_parent 2" "''x''"] demo_not_idle [of 2]
  by (simp add: demo_started_def)

text \<open>
  C16. What a tick starts may start: when a node has a run after the tick and
  had none before, the run is new, is entered as waiting for the task of this
  node and this workflow run, all sources of the node are settled and an edge
  matches, and at most as many nodes run as the limit of the device and the
  revision allow.
\<close>

theorem workflow_starts_ready_tasks:
  assumes "wf_reachable digest json db" and "TickWorkflow digest json io fresh db taskID limit now = (db', Inr res)"
    and "fmlookup (tt_tasks db) taskID = Some parent" "\<not> nothing_to_tick parent" "tk_CurrentRunID parent = Some p"
    and rid: "fmlookup (tt_workflow_runs db) p = Some rid" "fmlookup (tt_revisions db) rid = Some revision"
    and old: "fmlookup (node_runs_of db p) i = Some run0" "nr_ChildTaskRunID run0 = None"
    and new: "fmlookup (node_runs_of db' p) i = Some run" "nr_ChildTaskRunID run = Some c"
  shows "fmlookup (tt_runs db) c = None \<and> (\<exists>row. fmlookup (tt_runs db') c = Some row \<and> started_row revision p i row) \<and>
    list_all (edge_settled (node_runs_of db' p)) (incoming (wr_Edges revision) i) \<and>
    list_ex (edge_matched (node_runs_of db' p)) (incoming (wr_Edges revision) i) \<and>
    active_nodes (node_runs_of db' p) \<le> effective_parallelism limit (wr_MaximumParallelism revision)"
proof (rule tick_running [OF assms(1-5)], goal_cases)
  case (1 row revision' s settled)
  have rv: "revision' = revision" using 1(2,3) rid by simp
  note inv = sched_invD [OF 1(5)[unfolded rv]]
  have z: "fmlookup (sc_runs s) i = Some run" using new(1) 1(11) by simp
  have "\<not> (\<exists>run1. fmlookup settled i = Some run1 \<and> nr_ChildTaskRunID run1 = Some c)"
    using children_same [OF 1(7) _ old(1)] old(2) by auto
  with inv(8) [OF z new(2)] obtain x where started: "fmlookup (tt_runs db) c = None" "0 < sc_count s"
      "list_all (edge_settled (sc_runs s)) (incoming (wr_Edges revision) i)" "list_ex (edge_matched (sc_runs s)) (incoming (wr_Edges revision) i)"
      "fmlookup (tt_runs (sc_db s)) c = Some x" "started_row revision p i x" by blast
  have "c \<noteq> p" using started(1) 1(1) by auto
  moreover have "fmlookup (tt_runs (sc_db s)) p = Some row" using inv(5) 1(1) by (simp add: rows_extended_def)
  ultimately have "fmlookup (tt_runs db') c = Some x" using conclude_row [OF 1(8) started(5)] by blast
  then show ?case using started inv(4) inv(7) [OF started(2)] 1(11) by simp
qed

theorem workflow_starts_ready_tasks_witness:
  "fmlookup (tt_runs demo_started) ''y'' = None \<and> active_nodes (node_runs_of demo_begun ''x'') \<le> effective_parallelism 1 1"
  using workflow_starts_ready_tasks [OF demo_reachable(1) demo_tick1, of "demo_parent 2" "''x''" "''r''" demo_revision "''t''"]
    demo_not_idle [of 2]
  by (simp add: demo_started_def demo_waiting_def)

text \<open>The ticks of the run find what they rely on.\<close>

lemma demo_ready:
  assumes "fmlookup rows ''x'' = Some (demo_parent_row Task_running None [])" and "fmlookup rows c = None"
    and "ch = None \<Longrightarrow> tk_Definition child = demo_child \<and> tk_Status child = Task_queued \<and>
      next_attempt (demo_tables (demo_parent m) child rows (demo_runs ch k st fin)) ''c'' = 0"
  shows "tick_ready demo_digest demo_json (\<lambda>i. c) (demo_tables (demo_parent m) child rows (demo_runs ch k st fin)) ''w'' ''x''"
proof -
  let ?db = "demo_tables (demo_parent m) child rows (demo_runs ch k st fin)"
  have h: "hydrateWorkflowV2Revision demo_digest ?db ''r'' = Inr demo_revision" by (rule demo_hydrate) simp
  have d: "task_nodes_distinct demo_nodes" by (auto simp: task_nodes_distinct_def demo_nodes_def inj_on_def)
  have f: "fresh_runs (\<lambda>i. c) demo_nodes ?db" using assms(2) by (auto simp: fresh_runs_def task_ids_def demo_nodes_def inj_on_def)
  have l: "launchable demo_json ?db ''w'' (demo_parent m) n"
    if n: "n \<in> set demo_nodes" "wn_Type n = Node_task" and run: "fmlookup (node_runs_of ?db ''x'') (wn_ID n) = Some run" "waiting_run run" for n run
  proof -
    have n': "n = demo_nodes ! Suc 0" using n by (auto simp: demo_nodes_def)
    then have "ch = None" using run by (auto simp: waiting_run_def)
    from assms(3) [OF this] show ?thesis using n' by (simp add: launchable_def demo_json_def maximum_attempt_def)
  qed
  show ?thesis
    unfolding tick_ready_def
    by (rule exI [of _ "demo_parent m"], rule exI [of _ "demo_parent_row Task_running None []"], rule exI [of _ demo_revision])
      (use assms(1) h d f l in \<open>simp add: nothing_to_tick_def\<close>)
qed

lemma demo_attempts: "attempts demo_task_failed ''x'' = attempts demo_begun ''x''"
  unfolding attempts_def by (rule fmap_ext) (simp add: demo_task_failed_def demo_waiting_def)

text \<open>
  C34. A workflow comes to an end. A tick that finds what it relies on
  (\<open>tick_ready\<close>: the rows of the task and of its run, the stored revision
  with a task of its own for each task node, the tasks still to be started with unchanged
  definitions, at rest and with attempts left, new identifiers) and whose transaction is applied returns a result. And in any sequence of
  steps of the store and the agent in which no node of the workflow is retried,
  at most twice as many of these ticks as there are nodes, made when all started
  tasks have ended, leave the workflow going; ticks that fail, ticks while tasks
  run and all other steps may come between and are not counted. A
  tick is not ready when the definition of a task was changed after its revision
  was stored, which \<open>FinishRun\<close> does when it notes the command-line session of a
  task: a workflow with another run or retry of that task to start then goes on
  failing its ticks.
\<close>

theorem workflow_rounds_bounded:
  assumes "wf_reachable digest json db0" and "work_rounds digest json taskID p db0 k db"
  shows "k \<le> 2 * fcard (fmdom (node_runs_of db0 p)) \<and>
    (tick_ready digest json fresh db taskID p \<longrightarrow> taskID \<noteq> [] \<longrightarrow> 0 < limit \<longrightarrow> \<not> IsZero now \<longrightarrow>
       (\<exists>db' res. TickWorkflow digest json tx_applied fresh db taskID limit now = (db', Inr res)))"
proof -
  have r: "wf_reachable digest json db" "k + open_work (node_runs_of db p) \<le> open_work (node_runs_of db0 p)"
    using rounds_work [OF assms(2,1)] by simp_all
  have "k \<le> 2 * fcard (fmdom (node_runs_of db0 p))" using r(2) open_work_bound [of "node_runs_of db0 p"] by simp
  moreover have "\<exists>db' res. TickWorkflow digest json tx_applied fresh db taskID limit now = (db', Inr res)"
    if "tick_ready digest json fresh db taskID p" "taskID \<noteq> []" "0 < limit" "\<not> IsZero now"
    using ready_tick [OF reachable_tables_ok [OF r(1)] that] by blast
  ultimately show ?thesis by blast
qed

theorem workflow_rounds_bounded_witness:
  "(1 :: nat) \<le> 2 * fcard (fmdom (node_runs_of demo_started ''x'')) \<and>
   (\<exists>db' res. TickWorkflow demo_digest demo_json tx_applied (\<lambda>i. ''v'') demo_task_failed ''w'' 1 1 = (db', Inr res))"
proof -
  have cd: "children_done demo_started ''x''" by (simp add: children_done_def demo_started_def)
  have ready: "tick_ready demo_digest demo_json (\<lambda>i. ''y'') demo_started ''w'' ''x''"
    unfolding demo_started_def by (rule demo_ready) (simp_all add: next_attempt_def demo_tables_def demo_parent_row_def)
  have again: "tick_ready demo_digest demo_json (\<lambda>i. ''v'') demo_task_failed ''w'' ''x''"
    unfolding demo_task_failed_def by (rule demo_ready) (simp_all add: demo_row1_def)
  have "work_rounds demo_digest demo_json ''w'' ''x'' demo_started (Suc 0) demo_begun"
    by (rule work_rounds.round [OF work_rounds.no_round cd ready _ _ _ _ demo_tick1]) (simp_all add: demo_waiting_def)
  then have "work_rounds demo_digest demo_json ''w'' ''x'' demo_started (Suc 0) demo_task_failed"
    by (rule work_rounds.other_step [OF _ demo_engine1 demo_attempts])
  from workflow_rounds_bounded [OF demo_reachable(1) this, of "\<lambda>i. ''v''" 1 1] again show ?thesis by simp
qed

text \<open>
  C36. Cancelling settles the workflow: after a successful \<open>CancelWorkflow\<close> the
  task is cancelled, and every node is settled or has a run of a task that is
  running and that is returned, for the caller to stop.
\<close>

theorem workflow_cancel_settles:
  assumes "CancelWorkflow io policy db taskID expected now = (db', Inr (parent', children))"
  shows "tk_Status parent' = Task_cancelled \<and> fmlookup (tt_tasks db') taskID = Some parent' \<and>
    (\<forall>i run. fmlookup (node_runs_of db' (the (tk_CurrentRunID parent'))) i = Some run \<longrightarrow>
       workflowV2NodeTerminal (nr_Status run) \<or>
       (\<exists>c. nr_ChildTaskRunID run = Some c \<and> (\<exists>child\<in>set children. tk_CurrentRunID child = Some c \<and> tk_Status child = Task_running)))"
proof -
  have "cancel_rows policy db taskID expected = Inr (db', parent', children)" by (rule cancel_rows_of(2) [OF assms refl])
  then show ?thesis
  proof (cases rule: cancel_rows_cases)
    case (1 parent p row s)
    have "fmdom (ca_runs s) = fmdom (node_runs_of db p)" using 1(5) by (simp add: cancel_inv_def progressed_def)
    then have "i \<in> set (sorted_list_of_fset (fmdom (node_runs_of db p)))" if "fmlookup (ca_runs s) i = Some run" for i run
      using that by (metis fmdomI sorted_list_of_fset_simps(1))
    with cancel_each [OF 1(6)] 1(7,8,12-14) show ?thesis by (simp add: Bex_def) blast
  qed
qed

theorem workflow_cancel_settles_witness:
  "tk_Status ((demo_parent 4)\<lparr>tk_Status := Task_cancelled, tk_ResultCode := ''cancelled''\<rparr>) = Task_cancelled"
  using workflow_cancel_settles [OF demo_cancel] by simp

text \<open>
  C17. A workflow whose finish was skipped does not succeed any more, whatever
  happens to it: the retry of a failed node, which sets the workflow running
  again, leaves the skipped nodes as they are, so the tick that finishes the run
  fails it, also when the retried task has completed.
\<close>

theorem skipped_finish_never_succeeds:
  assumes "wf_reachable digest json db0" and "run_skipped db0 p" and "(wf_step digest json)\<^sup>*\<^sup>* db0 db"
    and "TickWorkflow digest json io fresh db taskID limit now = (db', Inr res)"
    and "fmlookup (tt_tasks db) taskID = Some parent" "tk_CurrentRunID parent = Some p" "ti_Finished res"
  shows "tk_Status (ti_Task res) = Task_failed"
proof -
  have s: "wf_reachable digest json db" "run_skipped db p" using steps_skipped [OF assms(3,1,2)] by simp_all
  show ?thesis
    by (rule tick_finish_skipped [OF s(1) assms(4-7)]) (use s(2) in \<open>simp add: run_skipped_def\<close>)
qed

theorem skipped_finish_never_succeeds_witness:
  "RetryWorkflowNode demo_digest tx_applied None demo_run_failed ''w'' 4 ''t'' 1 = (demo_retried, Inr
     \<lparr>re_Task = demo_parent 5, re_TaskRun = demo_parent_row Task_running None [],
      re_NodeRun = \<lparr>nr_RevisionID = ''r'', nr_ChildTaskRunID = None, nr_Status = Run_pending, nr_Attempt = 1\<rparr>, re_Resumed = True\<rparr>) \<and>
   tk_Status (demo_failed 7) = Task_failed"
proof
  have sk: "run_skipped demo_run_failed ''x''"
    by (simp add: run_skipped_def demo_run_failed_def finish_skipped_def demo_nodes_def)
  show "tk_Status (demo_failed 7) = Task_failed"
    using skipped_finish_never_succeeds [OF demo_reachable(4) sk demo_retry_steps demo_tick4, of "demo_parent 6"]
    by (simp add: demo_completed_def)
qed (rule demo_retry)

end
