(* ===== verification/Spec2Isabelle.thy ===== *)
theory Spec2Isabelle
  imports Relay_Protocol File_Transfer Bounded_Queue Peer_Crypto Sequencer Link_Rekey V2_Calls V2_Handler Connection_Manager Operation_Once
    Workflow_Properties
begin

text \<open>
  Verification of the remote-access core of WenZWork's Go server.

  The program. A user's browser or phone (the client) works with a machine of
  the user (the device, running \<open>server/cmd/device-agent\<close>) through a relay
  (\<open>server/internal/relayserver\<close>), which forwards ciphertext it cannot read.
  The control plane signs tickets and grants (\<open>server/internal/remoteauth\<close>).
  Client and device each hold a carrier, a WebSocket to the relay; over it they
  build an end-to-end encrypted link (\<open>server/internal/peerprotocol/v2\<close>) and
  send remote procedure calls over the link, which the device executes at most
  once. An older protocol version with sessions, commands and file transfers
  runs beside it. Paths below are relative to \<open>server/\<close>.

  The theories, in the order in which one builds on the other, and the code
  each models:

  \<^item> \<open>Relay_Prelude\<close>: machine integers, instants, Go maps as finite maps, the
    conventions of the translation; no code of its own.
  \<^item> \<open>Relay_Interfaces\<close>: the contracts between components as locales:
    \<open>lifecycle\<close> and \<open>ranked_lifecycle\<close> (a table of status transitions),
    \<open>cyclic_service\<close> (a weighted round robin), \<open>notified\<close> (a wake-up channel of
    capacity one), \<open>at_most_once\<close> (a store that hands out or accepts each item
    once), \<open>ledger\<close> (reservations of a shared budget); \<open>V2_Handler\<close> adds
    \<open>grant_use_store\<close>. Each is interpreted on the code's own definitions.
  \<^item> \<open>Relay_Protocol\<close>: \<open>internal/relayprotocol\<close>, frame classes and limits, the
    status tables, \<open>AgentRelayState\<close>.
  \<^item> \<open>File_Transfer\<close>: \<open>internal/fileprotocol/window.go\<close> and \<open>resume.go\<close>.
  \<^item> \<open>Bounded_Queue\<close>: \<open>internal/relayserver/queue.go\<close>, the queue of a session.
  \<^item> \<open>Route_Registry\<close>: \<open>internal/relayrouter/registry.go\<close>.
  \<^item> \<open>Connection_Manager\<close>: \<open>internal/relayserver/sessions.go\<close>, sessions, drain,
    revocation, with the goroutines that wait to close something as timers.
  \<^item> \<open>Peer_Crypto\<close>: \<open>internal/peerprotocol/v2/crypto.go\<close>, encodings, key
    derivation, records.
  \<^item> \<open>Sequencer\<close> and \<open>Link_Rekey\<close>: the two types of
    \<open>internal/peerprotocol/v2/link.go\<close>.
  \<^item> \<open>Base64url\<close>, \<open>Remote_Tickets\<close>, \<open>Device_Link_Grant\<close>: \<open>internal/remoteauth\<close>.
  \<^item> \<open>V2_Queue\<close>, \<open>V2_Carrier\<close>: \<open>internal/relayserver/v2_carrier.go\<close>.
  \<^item> \<open>V2_Hub\<close>: \<open>internal/relayserver/v2_hub.go\<close>, carriers, devices, link routes,
    the handlers as a whole and the calls of a client piece by piece.
  \<^item> \<open>V2_Calls\<close>: the pieces of a call make the handler, and what they can change
    when other calls run between them.
  \<^item> \<open>V2_Handler\<close>: \<open>internal/relayserver/v2_handler.go\<close> and \<open>v2_device_auth.go\<close>,
    admission, the store of used grants and the serving loops; its relay state
    composes the hub, the carriers, the queues, the grants and the tickets.
  \<^item> \<open>Operation_Journal\<close>: \<open>cmd/device-agent/v2_operation_store.go\<close> and
    \<open>v2_side_effect_store.go\<close>, the tables that remember operations.
  \<^item> \<open>Operation_Executor\<close>: \<open>v2_operation_coordinator.go\<close> and \<open>executeRPC\<close> with
    the hot cache of \<open>network_v2.go\<close>; it composes the journal, the coordinator
    and the caches into a step relation.
  \<^item> \<open>Operation_Once\<close>: the invariants of the states an agent reaches.
  \<^item> \<open>Workflow_Graph\<close>: \<open>cmd/device-agent/task_workflow_v2.go\<close>, workflows as
    graphs of tasks and what is checked of them.
  \<^item> \<open>Workflow_Run\<close>: \<open>cmd/device-agent/task_workflow_store.go\<close>, the rows of a run
    and the operations on them: start, tick, retry, cancel, finalize.
  \<^item> \<open>Workflow_Progress\<close>: the invariant of the rows and the four passes of a tick.
  \<^item> \<open>Workflow_Steps\<close>: the step relation of the tables and what the steps keep.
  \<^item> \<open>Workflow_Rounds\<close>: what a tick relies on, that it then returns a result, and
    how many such ticks can leave a workflow going.
  \<^item> \<open>Workflow_Properties\<close>: the properties, and a run they are witnessed on.

  State and operations. A Go struct is a record with the code's fields, a
  constant block an enumeration, a pointer that several owners share an address
  in a heap (carriers, sessions, in-flight claims), a pointer that may be nil an
  option. A method becomes a function from the receiver to the receiver and the
  result; a method that holds the mutex throughout is one step, one that
  releases it in between is split where it does. What the code reads from
  outside is an argument: the clock (several readings in one call where the
  code reads it several times), randomness, whether a write to a socket or a
  transaction of SQLite succeeded, the order in which a map is iterated. Code
  outside of the repository is a parameter with the laws the code relies on as
  named hypotheses: SHA-256, HMAC, HKDF, Ed25519, X25519, XChaCha20-Poly1305
  (record \<open>primitives\<close>), \<open>encoding/json\<close>, protobuf marshalling and sizes,
  \<open>uuid.Validate\<close>. Base64, decimal numbers, splitting and trimming of strings
  are modelled.

  What the lemmas show.

  \<^item> Credentials: round trip of grants and tickets, validity exactly in the
    interval of the claims with the leeway and up to the length the verifier
    reads, signed byte strings that determine
    every field and cannot be taken for another kind of statement, single use
    of bounded grants and finality of revocation.
  \<^item> Admission and routing: every state a relay reaches
    (\<open>V2_Handler\<close>) has only carriers whose first message
    authenticated them, links only between parties a grant was presented for,
    the current carrier of a device is the newest, and the critical section of
    a client's call touches only links in its reach; after it only a link it
    created is removed again, by its name. An honest client with a current grant is served.
  \<^item> Link: transcripts and associated data determine what they encode, opening
    is the inverse of sealing, sequences are used once, the replay window
    accepts what the specification by a set accepts, a rekey ends with the same
    key on both sides and may be retransmitted.
  \<^item> Queues: accounting, order within a class, fair shares, no lost wake-up,
    the budget of all carriers counts exactly what the queues hold.
  \<^item> Sessions and routes: limits of a node, no session leaked, revocation
    final, routes fenced; lazy expiry answers like a table that drops routes at
    once, but for the deletion of a route that has expired and is still there.
  \<^item> At-most-once execution: over every interleaving of calls, retries on other
    links, failing transactions and crashes, an external effect that may have
    happened is not executed again within 24 hours, a recorded business
    mutation is not repeated while its record lives, a success is answered only
    after it is stored and stays stored and replayed for 24 hours; the journal and the caches stay within their limits.
  \<^item> Workflows: the search and the topological order are exact, a graph is
    accepted exactly when it is well formed, the rows of a run stay consistent,
    a tick starts only what may start, never leaves a workflow stuck; a tick
    that finds its rows, revision and task definitions in place (\<open>tick_ready\<close>)
    returns a result, and a bounded number of such ticks ends the workflow,
    whatever happens between them but a retry; cancelling settles all but running tasks; a
    skipped finish stays skipped, also after a retry.

  Bounds and fuel. The loops of the code are structural recursions over the
  lists they traverse, except two that take fuel: \<open>trim_left\<close> of
  \<open>Relay_Prelude\<close>, which trims blanks, removes at least a byte in each round
  and gets the length of the string; \<open>evict_operations\<close> of
  \<open>Operation_Executor\<close> removes an entry in each round and gets the number of
  entries plus one, and \<open>Operation_Once\<close> shows that it has made room when it
  ends. The search and the topological order of a workflow graph end by a
  measure: nodes with arrows not yet visited, and the sum of the open degrees.
  A round of a serving or writing loop is one call of a function, and the
  loop is a sequence of steps of a step relation.

  Atomicity. In the steps of the hub a client's call is also split where
  the code releases the mutex: its critical section is one step and each
  rejection, notice, hand-over and removal that follows another. In
  the relay of \<open>V2_Handler\<close> a round of a serving loop is one step, except that
  the two critical sections of \<open>routeClientLink\<close> and a peer that gives up are
  steps of their own. In the executor every access to the database, to the
  coordinator and to a cache is a step. The clock of the executor does not go
  back. The handler of the dispatcher is the environment: while its call is
  running it may call the tracker and commit business transactions in any
  order; background generations that commit after the handler has returned are
  not modelled. A transaction is applied, failed, or applied although its
  commit reported an error.

  Not modelled: everything whose content is SQL over PostgreSQL (accounts,
  catalog, management, allocation and monitoring of relays, the issuing side of
  the control plane), HTTP handlers, configuration, mail and object storage;
  the Lua scripts in Redis behind the shared grant store and route registry
  (the in-memory implementations of the same interfaces are modelled); the
  device agent's handlers (files, terminals, AI conversations), which are
  processes, files and services outside of the program, and its link,
  channel and stream tables; its task engine, of which workflows see steps that
  keep the identities in the rows and do not fail or reopen the run of a
  workflow; the normalisation of the definitions of tasks, deleting workflows,
  and the change feed; the handlers and the cryptography of protocol
  version 1; generated code (the messages are translated from the protobuf
  files), the web frontend, deployment. In what is modelled, wiping of memory,
  logging and metrics exports without effect on the state are left out, and
  lengths and counters the code bounds far below 2^63 are integers.
\<close>

end
